(* ===== verification/C_Prelude.thy ===== *)
theory C_Prelude
  imports Main "HOL-Library.Word"
begin

text \<open>
  Shared ground of the development: the machine integers of the 32-bit target, C strings as
  byte lists, the flat byte memory in which the library routines of \<^verbatim>\<open>src/src/utils.c\<close>
  work, byte order, and the generic lemmas the component theories use.

  Conventions.  \<^verbatim>\<open>uint8_t\<close>, \<^verbatim>\<open>uint16_t\<close>, \<^verbatim>\<open>uint32_t\<close> and \<^verbatim>\<open>size_t\<close> are the words
  \<open>u8\<close>, \<open>u16\<close>, \<open>u32\<close>.  A signed \<^verbatim>\<open>int32_t\<close> is a \<open>u32\<close> read by \<^const>\<open>sint\<close> where the code
  computes with it at its width (the kernel is compiled with \<^verbatim>\<open>gcc -m32 -O0\<close>, whose signed
  arithmetic wraps); loop counters and lengths that stay far below the width are \<open>nat\<close> or
  \<open>int\<close>.  Memory is a function from addresses to bytes; a pointer is an address and
  \<^verbatim>\<open>NULL\<close> is address 0.
\<close>

unbundle bit_operations_syntax

type_synonym u8 = "8 word"
type_synonym u16 = "16 word"
type_synonym u32 = "32 word"
type_synonym u64 = "64 word"
type_synonym mem = "u32 \<Rightarrow> u8"

named_theorems mem_simps \<open>reading and writing runs of bytes in flat memory\<close>
named_theorems net_simps \<open>byte order and header layout\<close>

section \<open>Characters and string literals\<close>

definition chr :: "char \<Rightarrow> u8" where
  "chr c = of_char c"

definition lit :: "string \<Rightarrow> u8 list" where
  "lit s = map of_char s"

section \<open>Runs of bytes in memory\<close>

fun stored :: "mem \<Rightarrow> u32 \<Rightarrow> u8 list \<Rightarrow> bool" where
  "stored m p [] = True"
| "stored m p (x # xs) = (m p = x \<and> stored m (p + 1) xs)"

fun write_bytes :: "mem \<Rightarrow> u32 \<Rightarrow> u8 list \<Rightarrow> mem" where
  "write_bytes m p [] = m"
| "write_bytes m p (x # xs) = write_bytes (m(p := x)) (p + 1) xs"

fun read_bytes :: "mem \<Rightarrow> u32 \<Rightarrow> nat \<Rightarrow> u8 list" where
  "read_bytes m p 0 = []"
| "read_bytes m p (Suc n) = m p # read_bytes m (p + 1) n"

definition region :: "u32 \<Rightarrow> nat \<Rightarrow> u32 set" where
  "region p n = (\<lambda>i. p + of_nat i) ` {..<n}"

definition cstr_at :: "mem \<Rightarrow> u32 \<Rightarrow> u8 list \<Rightarrow> bool" where
  "cstr_at m p s \<longleftrightarrow> 0 \<notin> set s \<and> stored m p (s @ [0])"

text \<open>Unification can leave an update of memory eta-expanded; fold it back.\<close>

lemma fold_mem_upd [simp]: "(\<lambda>a. if a = p then v else (m :: mem) a) = m(p := v)"
  by (simp add: fun_upd_def)

lemma region_0 [simp]: "region p 0 = {}"
  by (simp add: region_def)

lemma region_Suc: "region p (Suc n) = insert p (region (p + 1) n)"
proof -
  have "{..<Suc n} = insert 0 (Suc ` {..<n})"
    by (rule lessThan_Suc_eq_insert_0)
  then show ?thesis
    by (simp add: region_def image_image algebra_simps)
qed

lemma region_numeral [simp]:
  "region p (numeral k) = insert p (region (p + 1) (pred_numeral k))"
  by (simp add: numeral_eq_Suc region_Suc)

lemma region_mono: "n \<le> k \<Longrightarrow> region p n \<subseteq> region p k"
  by (auto simp: region_def)

lemma region_add: "region p (n + k) = region p n \<union> region (p + of_nat n) k"
  by (induction n arbitrary: p) (auto simp: region_Suc algebra_simps)

lemma region_nth: "i < n \<Longrightarrow> p + of_nat i \<in> region p n"
  by (auto simp: region_def)

lemma of_nat_u32_inj: "i < 2 ^ 32 \<Longrightarrow> j < 2 ^ 32 \<Longrightarrow> (of_nat i :: u32) = of_nat j \<longleftrightarrow> i = j"
  by (simp add: word_unat_eq_iff unat_of_nat)

lemma unat_of_nat_u32: "i < 2 ^ 32 \<Longrightarrow> unat (of_nat i :: u32) = i"
  by (simp add: unat_of_nat)

lemma u32_bound: "unat (x :: u32) < 2 ^ 32"
  using unsigned_less [of x] by simp

lemma u8_bound: "unat (x :: u8) < 256"
  using unsigned_less [of x] by simp

lemma offset_eq_iff:
  "i < 2 ^ 32 \<Longrightarrow> j < 2 ^ 32 \<Longrightarrow> (p :: u32) + of_nat i = p + of_nat j \<longleftrightarrow> i = j"
  by (simp add: of_nat_u32_inj)

lemma notin_region_succ: "n < 2 ^ 32 \<Longrightarrow> (p :: u32) \<notin> region (p + 1) n"
proof
  assume n: "n < 2 ^ 32" and "p \<in> region (p + 1) n"
  then obtain i where i: "i < n" "p = p + 1 + of_nat i"
    by (auto simp: region_def)
  then have "p + of_nat (Suc i) = p + of_nat 0"
    by (simp add: algebra_simps)
  with i n show False
    by (subst (asm) offset_eq_iff) auto
qed

lemma read_bytes_length [simp]: "length (read_bytes m p n) = n"
  by (induction n arbitrary: p) auto

lemma read_bytes_numeral [simp]:
  "read_bytes m p (numeral k) = m p # read_bytes m (p + 1) (pred_numeral k)"
  by (simp add: numeral_eq_Suc)

lemma stored_read_bytes: "stored m p (read_bytes m p n)"
  by (induction n arbitrary: p) auto

lemma stored_iff_read: "stored m p xs \<longleftrightarrow> read_bytes m p (length xs) = xs"
  by (induction xs arbitrary: p) auto

lemma stored_append: "stored m p (xs @ ys) \<longleftrightarrow> stored m p xs \<and> stored m (p + of_nat (length xs)) ys"
  by (induction xs arbitrary: p) (auto simp: algebra_simps)

lemma stored_nth: "stored m p xs \<Longrightarrow> i < length xs \<Longrightarrow> m (p + of_nat i) = xs ! i"
proof (induction xs arbitrary: p i)
  case Nil
  then show ?case by simp
next
  case (Cons x xs)
  show ?case
  proof (cases i)
    case 0
    with Cons.prems show ?thesis by simp
  next
    case (Suc j)
    with Cons.prems have "m (p + 1 + of_nat j) = xs ! j"
      by (intro Cons.IH) auto
    with Suc show ?thesis by (simp add: algebra_simps)
  qed
qed

lemma write_bytes_frame: "a \<notin> region p (length xs) \<Longrightarrow> write_bytes m p xs a = m a"
  by (induction xs arbitrary: m p) (auto simp: region_Suc)

lemma stored_cong:
  "(\<And>a. a \<in> region p (length xs) \<Longrightarrow> m a = m' a) \<Longrightarrow> stored m p xs = stored m' p xs"
  by (induction xs arbitrary: p) (auto simp: region_Suc)

lemma read_bytes_cong:
  "(\<And>a. a \<in> region p n \<Longrightarrow> m a = m' a) \<Longrightarrow> read_bytes m p n = read_bytes m' p n"
  by (induction n arbitrary: p) (auto simp: region_Suc)

lemma read_bytes_nth: "i < n \<Longrightarrow> read_bytes m p n ! i = m (p + of_nat i)"
  using stored_nth [OF stored_read_bytes, of i m p n] by simp

lemma write_bytes_append:
  "write_bytes m p (xs @ ys) = write_bytes (write_bytes m p xs) (p + of_nat (length xs)) ys"
  by (induction xs arbitrary: m p) (auto simp: algebra_simps)

lemma stored_write_bytes: "length xs \<le> 2 ^ 32 \<Longrightarrow> stored (write_bytes m p xs) p xs"
proof (induction xs arbitrary: m p)
  case Nil
  then show ?case by simp
next
  case (Cons x xs)
  then have "write_bytes (m(p := x)) (p + 1) xs p = x"
    by (simp add: write_bytes_frame notin_region_succ)
  with Cons show ?case by simp
qed

lemma stored_write_frame:
  "region p (length xs) \<inter> region q (length ys) = {} \<Longrightarrow>
   stored (write_bytes m q ys) p xs = stored m p xs"
  by (rule stored_cong) (auto intro!: write_bytes_frame)

lemma read_write_frame:
  "region p n \<inter> region q (length ys) = {} \<Longrightarrow>
   read_bytes (write_bytes m q ys) p n = read_bytes m p n"
  by (rule read_bytes_cong) (auto intro!: write_bytes_frame)

lemma upt_0_Suc: "[0..<Suc n] = 0 # map Suc [0..<n]"
  by (simp only: map_Suc_upt upt_conv_Cons zero_less_Suc)

lemma find_Suc_map: "find P (map Suc xs) = map_option Suc (find (P \<circ> Suc) xs)"
  by (induction xs) auto

section \<open>C strings in memory\<close>

lemma cstr_at_Nil [simp]: "cstr_at m p [] \<longleftrightarrow> m p = 0"
  by (auto simp: cstr_at_def)

lemma cstr_at_Cons [simp]:
  "cstr_at m p (c # s) \<longleftrightarrow> c \<noteq> 0 \<and> m p = c \<and> cstr_at m (p + 1) s"
  by (auto simp: cstr_at_def)

lemma cstr_at_nonzero: "cstr_at m p s \<Longrightarrow> 0 \<notin> set s"
  by (simp add: cstr_at_def)

lemma cstr_at_nth: "cstr_at m p s \<Longrightarrow> i < length s \<Longrightarrow> m (p + of_nat i) = s ! i"
  unfolding cstr_at_def by (auto dest!: stored_nth [of m p "s @ [0]" i] simp: nth_append)

lemma cstr_at_end: "cstr_at m p s \<Longrightarrow> m (p + of_nat (length s)) = 0"
  unfolding cstr_at_def by (auto dest!: stored_nth [of m p "s @ [0]" "length s"])

lemma cstr_at_drop: "cstr_at m p s \<Longrightarrow> i \<le> length s \<Longrightarrow> cstr_at m (p + of_nat i) (drop i s)"
proof (induction s arbitrary: p i)
  case Nil
  then show ?case by simp
next
  case (Cons c s)
  then show ?case
    using Cons.IH [of "p + 1" "i - 1"] by (cases i) (auto simp: algebra_simps)
qed

lemma cstr_at_unique: "cstr_at m p s \<Longrightarrow> cstr_at m p t \<Longrightarrow> s = t"
proof (induction s arbitrary: p t)
  case Nil
  then show ?case by (cases t) auto
next
  case (Cons c s)
  then show ?case by (cases t) auto
qed

lemma cstr_at_length: "cstr_at m p s \<Longrightarrow> length s < 2 ^ 32"
proof (rule ccontr)
  assume s: "cstr_at m p s" and "\<not> length s < 2 ^ 32"
  then obtain k where k: "length s = k + 2 ^ 32"
    by (metis add.commute le_iff_add not_less)
  have "m (p + of_nat k) = s ! k" and "s ! k \<noteq> 0"
    using s k cstr_at_nonzero [OF s] by (auto simp: cstr_at_nth in_set_conv_nth)
  moreover have "m (p + of_nat k) = 0"
  proof -
    have "(of_nat (length s) :: u32) = of_nat k"
      by (simp only: k word_unat_eq_iff unat_of_nat) simp
    then show ?thesis using cstr_at_end [OF s] by simp
  qed
  ultimately show False by simp
qed

lemma cstr_at_cong:
  "(\<And>a. a \<in> region p (Suc (length s)) \<Longrightarrow> m a = m' a) \<Longrightarrow> cstr_at m p s = cstr_at m' p s"
  unfolding cstr_at_def by (subst stored_cong [of p "s @ [0]" m m']) auto

lemma cstr_at_write:
  "0 \<notin> set s \<Longrightarrow> length s < 2 ^ 32 \<Longrightarrow> cstr_at (write_bytes m p (s @ [0])) p s"
  unfolding cstr_at_def using stored_write_bytes [of "s @ [0]" m p] by simp

lemma cstr_at_write_frame:
  "region p (Suc (length s)) \<inter> region q (length ys) = {} \<Longrightarrow>
   cstr_at (write_bytes m q ys) p s = cstr_at m p s"
  by (rule cstr_at_cong) (auto intro!: write_bytes_frame)

end
