(* ===== verification/Utils_Math.thy ===== *)
theory Utils_Math
  imports C_Prelude
begin

text \<open>
  Arithmetic, random numbers, bit tricks and array helpers of \<^verbatim>\<open>src/src/utils.c\<close> (lines 435 to
  556 and 635 to 656).  An \<^verbatim>\<open>int32_t\<close> is a \<open>u32\<close> compared through \<^const>\<open>sint\<close>; its arithmetic
  wraps.  An operation that can raise the processor's division fault returns an \<open>option\<close>
  whose \<open>None\<close> is the fault.  The names that HOL already uses carry a suffix.
\<close>

section \<open>Arithmetic\<close>

definition min_i32 :: "u32 \<Rightarrow> u32 \<Rightarrow> u32" where
  "min_i32 a b = (if sint a < sint b then a else b)"

definition max_i32 :: "u32 \<Rightarrow> u32 \<Rightarrow> u32" where
  "max_i32 a b = (if sint a > sint b then a else b)"

definition clamp :: "u32 \<Rightarrow> u32 \<Rightarrow> u32 \<Rightarrow> u32" where
  "clamp val min_val max_val =
     (if sint val < sint min_val then min_val
      else if sint val > sint max_val then max_val else val)"

definition abs_i32 :: "u32 \<Rightarrow> u32" where
  "abs_i32 value = (if sint value < 0 then - value else value)"

function pow_loop :: "u32 \<Rightarrow> u32 \<Rightarrow> int \<Rightarrow> u32" where
  "pow_loop result base exp =
     (if exp > 0
      then pow_loop (if exp AND 1 \<noteq> 0 then result * base else result) (base * base) (drop_bit 1 exp)
      else result)"
  by pat_completeness auto
termination
  by (relation "measure (\<lambda>(r, b, e). nat e)") (auto simp: drop_bit_eq_div)

definition pow_i32 :: "u32 \<Rightarrow> u32 \<Rightarrow> u32" where
  "pow_i32 base exp =
     (if sint exp < 0 then 0 else if exp = 0 then 1 else pow_loop 1 base (sint exp))"

function sqrt_loop :: "u32 \<Rightarrow> u32 \<Rightarrow> u32 \<Rightarrow> u32 option" where
  "sqrt_loop n x y =
     (if y < x
      then (if y = 0 then None else sqrt_loop n y ((y + n div y) div 2))
      else Some x)"
  by pat_completeness auto
termination
  by (relation "measure (\<lambda>(n, x, y). unat x)") (auto simp: word_less_nat_alt)

definition sqrt_u32 :: "u32 \<Rightarrow> u32 option" where
  "sqrt_u32 n =
     (if n = 0 then Some 0 else if n = 1 then Some 1 else sqrt_loop n n ((n + 1) div 2))"

section \<open>Random numbers\<close>

text \<open>The generator's state is the static \<^verbatim>\<open>rng_seed\<close>; the operations return the new seed.\<close>

definition srand :: "u32 \<Rightarrow> u32" where
  "srand seed = seed"

definition rand :: "u32 \<Rightarrow> u32 \<times> u32" where
  "rand rng_seed =
     (let s = rng_seed * 1103515245 + 12345 in ((s div 65536) mod 32768, s))"

definition rand_range :: "u32 \<Rightarrow> u32 \<Rightarrow> u32 \<Rightarrow> (u32 \<times> u32) option" where
  "rand_range rng_seed min_val max_val =
     (if sint min_val \<ge> sint max_val then Some (min_val, rng_seed)
      else (let (r, s) = rand rng_seed; range = max_val - min_val + 1
            in if range = 0 then None else Some (min_val + r mod range, s)))"

section \<open>Bit manipulation\<close>

function popcount_loop :: "u32 \<Rightarrow> nat \<Rightarrow> nat" where
  "popcount_loop n count =
     (if n \<noteq> 0 then popcount_loop (drop_bit 1 n) (count + unat (n AND 1)) else count)"
  by pat_completeness auto
termination
  by (relation "measure (\<lambda>(n, c). unat n)")
    (auto simp: drop_bit_eq_div unat_div unat_gt_0)

definition popcount :: "u32 \<Rightarrow> nat" where
  "popcount n = popcount_loop n 0"

text \<open>One line of \<^verbatim>\<open>clz\<close>: \<^verbatim>\<open>if ((n & msk) == 0) { count += k; n <<= k; }\<close>\<close>

definition clz_step :: "u32 \<Rightarrow> nat \<Rightarrow> u32 \<times> nat \<Rightarrow> u32 \<times> nat" where
  "clz_step msk k = (\<lambda>(n, count). if n AND msk = 0 then (push_bit k n, count + k) else (n, count))"

definition clz :: "u32 \<Rightarrow> nat" where
  "clz n =
     (if n = 0 then 32
      else snd (clz_step 0x80000000 1 (clz_step 0xC0000000 2 (clz_step 0xF0000000 4
             (clz_step 0xFF000000 8 (clz_step 0xFFFF0000 16 (n, 0)))))))"

function ctz_loop :: "u32 \<Rightarrow> nat \<Rightarrow> nat" where
  "ctz_loop n count =
     (if n \<noteq> 0 \<and> n AND 1 = 0 then ctz_loop (drop_bit 1 n) (count + 1) else count)"
  by pat_completeness auto
termination
  by (relation "measure (\<lambda>(n, c). unat n)")
    (auto simp: drop_bit_eq_div unat_div unat_gt_0)

definition ctz :: "u32 \<Rightarrow> nat" where
  "ctz n = (if n = 0 then 32 else ctz_loop n 0)"

definition is_power_of_2 :: "u32 \<Rightarrow> bool" where
  "is_power_of_2 n = (n \<noteq> 0 \<and> n AND (n - 1) = 0)"

text \<open>One line of \<^verbatim>\<open>next_power_of_2\<close>: \<^verbatim>\<open>n |= n >> k;\<close>\<close>

definition smear :: "nat \<Rightarrow> u32 \<Rightarrow> u32" where
  "smear k n = n OR drop_bit k n"

definition next_power_of_2 :: "u32 \<Rightarrow> u32" where
  "next_power_of_2 n =
     (if n = 0 then 1 else smear 16 (smear 8 (smear 4 (smear 2 (smear 1 (n - 1))))) + 1)"

section \<open>Arrays\<close>

text \<open>
  \<^verbatim>\<open>swap\<close> on two elements of one array; \<^verbatim>\<open>reverse_array\<close> on an array of at least \<open>n\<close> elements
  (\<open>None\<close> is the null pointer).
\<close>

definition swap_at :: "u32 list \<Rightarrow> nat \<Rightarrow> nat \<Rightarrow> u32 list" where
  "swap_at arr i j = (let temp = arr ! i in (arr[i := arr ! j])[j := temp])"

function reverse_loop :: "u32 list \<Rightarrow> nat \<Rightarrow> nat \<Rightarrow> u32 list" where
  "reverse_loop arr i j =
     (if i < j then reverse_loop (swap_at arr i j) (i + 1) (j - 1) else arr)"
  by pat_completeness auto
termination
  by (relation "measure (\<lambda>(a, i, j). j)") auto

definition reverse_array :: "u32 list option \<Rightarrow> nat \<Rightarrow> u32 list option" where
  "reverse_array arr n =
     (case arr of None \<Rightarrow> None
      | Some a \<Rightarrow> if n = 0 then Some a else Some (reverse_loop a 0 (n - 1)))"

declare pow_loop.simps [simp del] sqrt_loop.simps [simp del] popcount_loop.simps [simp del]
  ctz_loop.simps [simp del] reverse_loop.simps [simp del]

section \<open>Lemmas\<close>

lemma pow_loop_power: "0 \<le> exp \<Longrightarrow> pow_loop result base exp = result * base ^ nat exp"
proof (induction result base exp rule: pow_loop.induct)
  case (1 result base exp)
  show ?case
  proof (cases "exp = 0")
    case True
    then show ?thesis by (simp add: pow_loop.simps)
  next
    case False
    with "1.prems" have pos: "exp > 0" by simp
    define k where "k = nat (exp div 2)"
    have IH: "pow_loop (if exp AND 1 \<noteq> 0 then result * base else result) (base * base) (exp div 2)
        = (if exp AND 1 \<noteq> 0 then result * base else result) * (base * base) ^ k"
      using "1.IH" [OF pos] pos by (simp add: k_def drop_bit_eq_div)
    have "exp = 2 * int k + exp mod 2" using pos by (simp add: k_def)
    then have "nat exp = (if exp AND 1 \<noteq> 0 then Suc (2 * k) else 2 * k)"
      using pos by (auto simp: and_one_eq mod_2_eq_odd)
    with IH pos show ?thesis
      by (auto simp: pow_loop.simps [of result] drop_bit_eq_div power_mult power2_eq_square
          mult.assoc)
  qed
qed

lemma square_sum_bound: "4 * (a * b) \<le> (a + b) ^ 2" for a b :: nat
proof (induction a b rule: linorder_wlog)
  case (le a b)
  then obtain d where "b = a + d" using le_Suc_ex by blast
  then show ?case by (simp add: power2_eq_square algebra_simps)
qed (simp add: algebra_simps)

text \<open>A Newton step from above the root stays above it, and stops only at the root.\<close>

lemma newton_above: "0 < x \<Longrightarrow> n < ((x + n div x) div 2 + 1) ^ 2" for n x :: nat
proof -
  assume x: "0 < x"
  define q where "q = n div x"
  define y where "y = (x + q) div 2"
  have "n < x * (q + 1)"
    using x dividend_less_times_div [of x n] by (simp add: q_def)
  moreover have "x + (q + 1) \<le> 2 * (y + 1)" by (simp add: y_def)
  then have "(x + (q + 1)) ^ 2 \<le> (2 * (y + 1)) ^ 2" by (rule power_mono) simp
  then have "(x + (q + 1)) ^ 2 \<le> 4 * (y + 1) ^ 2" by (simp only: power_mult_distrib) simp
  ultimately have "n < (y + 1) ^ 2"
    using square_sum_bound [of x "q + 1"] by linarith
  then show ?thesis by (simp add: q_def y_def)
qed

lemma newton_no_wrap:
  fixes n x :: nat
  assumes "0 < x" and "n < (x + 1) ^ 2" and "n < 2 ^ 32" and "x < 2 ^ 31"
  shows "x + n div x < 2 ^ 32"
proof (cases "x < 2 ^ 16")
  case True
  have "n div x * x \<le> n" by simp
  also have "n < (x + 1) ^ 2" by (rule assms)
  also have "\<dots> \<le> (x + 3) * x + 1" by (simp add: power2_eq_square algebra_simps)
  finally have "n div x * x \<le> (x + 3) * x" by linarith
  then have "n div x \<le> x + 3" using assms(1) mult_le_cancel2 by blast
  with True show ?thesis by simp
next
  case False
  then have "n div x \<le> n div 2 ^ 16" by (intro div_le_mono2) auto
  also have "\<dots> < 2 ^ 16" using assms(3) by (simp add: less_mult_imp_div_less)
  finally show ?thesis using assms(4) by simp
qed

lemma sqrt_loop_correct:
  "\<lbrakk>0 < x; 2 \<le> n; unat n < (unat x + 1) ^ 2; unat y = (unat x + unat n div unat x) div 2;
    unat y < 2 ^ 31\<rbrakk> \<Longrightarrow>
   \<exists>r. sqrt_loop n x y = Some r \<and> unat r ^ 2 \<le> unat n \<and> unat n < (unat r + 1) ^ 2"
proof (induction n x y rule: sqrt_loop.induct)
  case (1 n x y)
  have x: "0 < unat x" using "1.prems"(1) by (simp add: unat_gt_0)
  have above: "unat n < (unat y + 1) ^ 2"
    using newton_above [OF x, of "unat n"] "1.prems"(4) by simp
  show ?case
  proof (cases "y < x")
    case True
    have "2 \<le> unat n" using "1.prems"(2) by (simp add: word_le_nat_alt)
    then have y0: "0 < unat y" using above by (cases "unat y = 0") auto
    note sum = newton_no_wrap [OF y0 above u32_bound "1.prems"(5)]
    have y': "unat ((y + n div y) div 2) = (unat y + unat n div unat y) div 2"
      using sum by (simp add: unat_div unat_word_ariths)
    moreover have "(unat y + unat n div unat y) div 2 < 2 ^ 31" using sum by simp
    moreover have "y \<noteq> 0" "0 < y" using y0 by (auto simp: unat_gt_0 word_gt_0)
    ultimately show ?thesis
      using "1.IH" [OF True] above "1.prems"(2) y0 True
      by (simp add: sqrt_loop.simps [of n x y] unat_gt_0)
  next
    case False
    then have "unat x \<le> (unat x + unat n div unat x) div 2"
      using "1.prems"(4) by (simp add: word_less_nat_alt)
    then have "unat x \<le> unat n div unat x" by simp
    then have "unat x * unat x \<le> unat n"
      using x by (metis less_eq_div_iff_mult_less_eq mult.commute)
    with False "1.prems"(3) show ?thesis
      by (simp add: sqrt_loop.simps power2_eq_square)
  qed
qed

subsection \<open>Highest and lowest bits\<close>

definition hi_bit :: "u32 \<Rightarrow> nat \<Rightarrow> bool" where
  "hi_bit n k \<longleftrightarrow> bit n k \<and> (\<forall>j>k. \<not> bit n j)"

lemma bit_u32_less: "bit (n :: u32) k \<Longrightarrow> k < 32"
  using bit_imp_le_length [of n k] by simp

lemma finite_bits_u32: "finite {j. bit (n :: u32) j}"
  by (rule finite_subset [of _ "{..<32}"]) (auto dest: bit_u32_less)

lemma hi_bit_ex: "n \<noteq> 0 \<Longrightarrow> \<exists>k<32. hi_bit n k"
proof -
  assume "n \<noteq> 0"
  then have "{j. bit n j} \<noteq> {}" by (auto simp: bit_eq_iff)
  then obtain M where "bit n M" "\<And>j. bit n j \<Longrightarrow> j \<le> M"
    using finite_bits_u32 [of n] Max_in [of "{j. bit n j}"] Max_ge [of "{j. bit n j}"] by blast
  then show ?thesis
    by (intro exI [of _ M]) (auto simp: hi_bit_def dest: bit_u32_less leD)
qed

lemma hi_bit_bounds: "hi_bit n k \<Longrightarrow> 2 ^ k \<le> unat n \<and> unat n < 2 ^ (k + 1)"
proof
  assume h: "hi_bit n k"
  then have "bit (unat n) k" by (simp add: hi_bit_def bit_unsigned_iff bit_u32_less)
  then have "unat n div 2 ^ k \<noteq> 0" by (metis bit_iff_odd even_zero)
  then show "2 ^ k \<le> unat n" by (metis div_less not_le)
  have "take_bit (k + 1) n = n"
    using h by (auto simp: bit_eq_iff bit_simps hi_bit_def) (metis not_less_eq)
  then have "unat n = take_bit (k + 1) (unat n)" by (metis unsigned_take_bit_eq)
  then show "unat n < 2 ^ (k + 1)" by (metis take_bit_nat_less_exp)
qed

lemma bit_of_bounds: "2 ^ k \<le> unat n \<Longrightarrow> unat n < 2 ^ (k + 1) \<Longrightarrow> bit (n :: u32) k"
proof -
  assume a: "2 ^ k \<le> unat n" "unat n < 2 ^ (k + 1)"
  then have "unat n div 2 ^ k = 1" by (intro div_nat_eqI) auto
  then have "bit (unat n) k" by (simp add: bit_iff_odd)
  then show ?thesis by (simp add: bit_unsigned_iff)
qed

lemma clz_step_hi:
  assumes "hi_bit n k" and "w \<le> 16" and "0 < w" and "31 - k < 2 * w"
    and "msk = push_bit (32 - w) (mask w)"
  shows "\<exists>n' k' c'. clz_step msk w (n, c) = (n', c') \<and> hi_bit n' k' \<and> k' < 32 \<and>
    c' + (31 - k') = c + (31 - k) \<and> 31 - k' < w"
proof (cases "k < 32 - w")
  case True
  then have "n AND msk = 0"
    using assms by (auto simp: bit_eq_iff bit_simps hi_bit_def)
  moreover have "hi_bit (push_bit w n) (k + w)"
    using True assms by (auto simp: hi_bit_def bit_simps)
  ultimately show ?thesis
    using True assms by (auto simp: clz_step_def intro!: exI [of _ "k + w"])
next
  case False
  have k: "k < 32" using assms by (auto simp: hi_bit_def dest: bit_u32_less)
  have "bit (n AND msk) k"
    using False assms k by (auto simp: bit_simps hi_bit_def)
  then have "n AND msk \<noteq> 0" by auto
  with False assms k show ?thesis by (auto simp: clz_step_def)
qed

lemma clz_hi: "hi_bit n k \<Longrightarrow> clz n = 31 - k"
proof -
  assume h: "hi_bit n k"
  have k: "k < 32" using h by (auto simp: hi_bit_def dest: bit_u32_less)
  have k32: "31 - k < 32" by linarith
  have n: "n \<noteq> 0" using h by (auto simp: hi_bit_def)
  obtain n1 k1 c1 where 1: "clz_step 0xFFFF0000 16 (n, 0) = (n1, c1)" "hi_bit n1 k1"
    "c1 + (31 - k1) = 31 - k" "31 - k1 < 16"
    using clz_step_hi [of n k 16 "0xFFFF0000" 0] h k k32 by (auto simp: mask_eq_exp_minus_1)
  obtain n2 k2 c2 where 2: "clz_step 0xFF000000 8 (n1, c1) = (n2, c2)" "hi_bit n2 k2"
    "c2 + (31 - k2) = 31 - k" "31 - k2 < 8"
    using clz_step_hi [of n1 k1 8 "0xFF000000" c1] 1 by (auto simp: mask_eq_exp_minus_1)
  obtain n3 k3 c3 where 3: "clz_step 0xF0000000 4 (n2, c2) = (n3, c3)" "hi_bit n3 k3"
    "c3 + (31 - k3) = 31 - k" "31 - k3 < 4"
    using clz_step_hi [of n2 k2 4 "0xF0000000" c2] 2 by (auto simp: mask_eq_exp_minus_1)
  obtain n4 k4 c4 where 4: "clz_step 0xC0000000 2 (n3, c3) = (n4, c4)" "hi_bit n4 k4"
    "c4 + (31 - k4) = 31 - k" "31 - k4 < 2"
    using clz_step_hi [of n3 k3 2 "0xC0000000" c3] 3 by (auto simp: mask_eq_exp_minus_1)
  obtain n5 k5 c5 where 5: "clz_step 0x80000000 1 (n4, c4) = (n5, c5)"
    "c5 + (31 - k5) = 31 - k" "31 - k5 < 1"
    using clz_step_hi [of n4 k4 1 "0x80000000" c4] 4 by (auto simp: mask_eq_exp_minus_1)
  show ?thesis using n 1 2 3 4 5 by (simp add: clz_def)
qed

lemma u32_and_1: "(n :: u32) AND 1 = (if bit n 0 then 1 else 0)"
  by (simp add: and_one_eq bit_0 mod_2_eq_odd)

lemma popcount_loop_card: "popcount_loop n c = c + card {i. bit n i}"
proof (induction n c rule: popcount_loop.induct)
  case (1 n c)
  show ?case
  proof (cases "n = 0")
    case True
    then show ?thesis by (simp add: popcount_loop.simps)
  next
    case False
    have "{i. bit n i} = (if bit n 0 then {0} else {}) \<union> Suc ` {i. bit (drop_bit 1 n) i}"
    proof (rule set_eqI)
      fix i
      show "i \<in> {i. bit n i} \<longleftrightarrow>
        i \<in> (if bit n 0 then {0} else {}) \<union> Suc ` {i. bit (drop_bit 1 n) i}"
        by (cases i) (auto simp: bit_drop_bit_eq)
    qed
    moreover have "card (Suc ` {i. bit (drop_bit 1 n) i}) = card {i. bit (drop_bit 1 n) i}"
      by (simp add: card_image)
    moreover have "0 \<notin> Suc ` {i. bit (drop_bit 1 n) i}" by auto
    ultimately have "card {i. bit n i} = unat (n AND 1) + card {i. bit (drop_bit 1 n) i}"
      using finite_bits_u32 [of "drop_bit 1 n"] by (simp add: u32_and_1 card_insert_if)
    with "1.IH" [OF False] False show ?thesis by (simp add: popcount_loop.simps [of n])
  qed
qed

lemma ctz_loop_low:
  "n \<noteq> 0 \<Longrightarrow> \<exists>k. ctz_loop n c = c + k \<and> bit n k \<and> (\<forall>j<k. \<not> bit n j)"
proof (induction n c rule: ctz_loop.induct)
  case (1 n c)
  show ?case
  proof (cases "bit n 0")
    case True
    then show ?thesis by (auto simp: ctz_loop.simps [of n] u32_and_1)
  next
    case False
    have shift: "bit n (Suc i) = bit (drop_bit 1 n) i" for i by (simp add: bit_drop_bit_eq)
    have "drop_bit 1 n \<noteq> 0"
    proof
      assume "drop_bit 1 n = 0"
      then have "bit n i = bit 0 i" for i
        using False shift by (cases i) auto
      then have "n = 0" by (intro bit_eqI)
      with "1.prems" show False by simp
    qed
    then obtain k where k: "ctz_loop (drop_bit 1 n) (c + 1) = c + 1 + k" "bit (drop_bit 1 n) k"
      "\<forall>j<k. \<not> bit (drop_bit 1 n) j"
      using "1.IH" "1.prems" False by (auto simp: u32_and_1)
    have "\<not> bit n j" if "j < Suc k" for j
      using k(3) False that shift by (cases j) auto
    with k False "1.prems" show ?thesis
      by (auto simp: ctz_loop.simps [of n] u32_and_1 shift intro!: exI [of _ "Suc k"])
  qed
qed

lemma smear_bits:
  assumes "\<forall>j>k. \<not> bit x j" and "\<forall>j\<le>k. k < j + w \<longrightarrow> bit x j"
  shows "(\<forall>j>k. \<not> bit (smear w x) j) \<and> (\<forall>j\<le>k. k < j + 2 * w \<longrightarrow> bit (smear w x) j)"
proof (intro conjI allI impI)
  fix j
  assume "j \<le> k" "k < j + 2 * w"
  then show "bit (smear w x) j"
    using assms by (cases "k < j + w") (auto simp: smear_def bit_simps add.commute)
qed (use assms in \<open>auto simp: smear_def bit_simps\<close>)

lemma smear_all:
  assumes "hi_bit x k"
  shows "smear 16 (smear 8 (smear 4 (smear 2 (smear 1 x)))) = mask (k + 1)"
proof -
  have k: "k < 32" using assms by (auto simp: hi_bit_def dest: bit_u32_less)
  have 0: "(\<forall>j>k. \<not> bit x j)" "\<forall>j\<le>k. k < j + 1 \<longrightarrow> bit x j"
    using assms by (auto simp: hi_bit_def le_less)
  note 1 = smear_bits [OF this]
  note 2 = smear_bits [OF conjunct1 [OF 1] conjunct2 [OF 1]]
  note 3 = smear_bits [OF conjunct1 [OF 2] conjunct2 [OF 2]]
  note 4 = smear_bits [OF conjunct1 [OF 3] conjunct2 [OF 3]]
  note 5 = smear_bits [OF conjunct1 [OF 4] conjunct2 [OF 4]]
  then show ?thesis
    using k by (intro bit_eqI) (auto simp: bit_mask_iff less_Suc_eq_le, meson not_le)
qed

lemma unat_u32_exp: "k < 32 \<Longrightarrow> unat (2 ^ k :: u32) = 2 ^ k"
proof -
  assume "k < 32"
  then have "(2 :: nat) ^ k < 2 ^ 32" by (rule power_strict_increasing) simp
  moreover have "(2 ^ k :: u32) = of_nat (2 ^ k)" by simp
  ultimately show ?thesis by (simp only: unat_of_nat_u32)
qed

lemma next_power_of_2_exp:
  assumes "0 < unat n" and "unat n \<le> 2 ^ 31"
  shows "\<exists>k<32. next_power_of_2 n = 2 ^ k \<and> unat n \<le> 2 ^ k \<and> 2 ^ k < 2 * unat n"
proof (cases "n = 1")
  case True
  then show ?thesis by (auto simp: next_power_of_2_def smear_def intro!: exI [of _ 0])
next
  case False
  have n0: "n \<noteq> 0" using assms(1) by auto
  then have u: "unat (n - 1) = unat n - 1" by (simp add: unat_minus_one)
  from False obtain k where k: "k < 32" "hi_bit (n - 1) k" using hi_bit_ex [of "n - 1"] by auto
  note b = hi_bit_bounds [OF k(2)]
  have "(2 :: nat) ^ k < 2 ^ 31" using b u assms by linarith
  then have "k < 31" by (rule power_less_imp_less_exp [rotated]) simp
  moreover have "next_power_of_2 n = 2 ^ (k + 1)"
    using n0 smear_all [OF k(2)] by (simp add: next_power_of_2_def mask_eq_exp_minus_1)
  ultimately show ?thesis
    using b u assms(1) by (intro exI [of _ "k + 1"]) auto
qed

lemma is_power_of_2_iff: "is_power_of_2 n \<longleftrightarrow> (\<exists>k<32. n = 2 ^ k)"
proof
  assume a: "is_power_of_2 n"
  then obtain k where k: "k < 32" "hi_bit n k" using hi_bit_ex by (auto simp: is_power_of_2_def)
  note b = hi_bit_bounds [OF k(2)]
  have "\<not> bit (n - 1) k"
  proof
    assume "bit (n - 1) k"
    with k(2) have "bit (n AND (n - 1)) k" by (simp add: bit_simps hi_bit_def)
    with a show False by (simp add: is_power_of_2_def)
  qed
  moreover have "unat (n - 1) = unat n - 1"
    using a by (simp add: is_power_of_2_def unat_minus_one)
  ultimately have "unat n = 2 ^ k"
    using b bit_of_bounds [of k "n - 1"] by fastforce
  then have "n = 2 ^ k" using unat_u32_exp [OF k(1)] by (simp add: word_unat_eq_iff)
  with k(1) show "\<exists>k<32. n = 2 ^ k" by blast
next
  assume "\<exists>k<32. n = 2 ^ k"
  then obtain k where k: "k < 32" "n = 2 ^ k" by blast
  have "n AND (n - 1) = 0"
    unfolding k(2) mask_eq_exp_minus_1 [symmetric]
    by (rule bit_eqI) (auto simp: bit_simps)
  moreover have "n \<noteq> 0" using k by (auto simp: word_unat_eq_iff unat_u32_exp)
  ultimately show "is_power_of_2 n" by (simp add: is_power_of_2_def)
qed

lemma reverse_loop_nth:
  "j < length arr \<Longrightarrow> length (reverse_loop arr i j) = length arr \<and>
   (\<forall>k<length arr. reverse_loop arr i j ! k = (if i \<le> k \<and> k \<le> j then arr ! (i + j - k) else arr ! k))"
proof (induction arr i j rule: reverse_loop.induct)
  case (1 arr i j)
  show ?case
  proof (cases "i < j")
    case True
    then have "Suc i + (j - 1) = i + j" by simp
    with "1.IH" [OF True] "1.prems" True show ?thesis
      by (auto simp: reverse_loop.simps [of arr] swap_at_def nth_list_update)
  next
    case False
    then have "k = i + j - k" if "i \<le> k" "k \<le> j" for k using that by linarith
    with False show ?thesis by (auto simp: reverse_loop.simps [of arr])
  qed
qed

lemma u32_uint_of_int: "0 \<le> z \<Longrightarrow> z < 2 ^ 32 \<Longrightarrow> uint (word_of_int z :: u32) = z"
  by (simp only: uint_word_of_int) simp

lemma sint_offset:
  assumes "0 \<le> t" and "t \<le> sint (b :: u32) - sint (a :: u32)"
  shows "sint (a + word_of_int t) = sint a + t"
proof -
  have "a + word_of_int t = word_of_int (sint a + t)" by (simp add: of_int_sint)
  then have "sint (a + word_of_int t) = signed_take_bit 31 (sint a + t)"
    by (simp only: signed_of_int) simp
  moreover have "- (2 ^ 31) \<le> sint a + t" "sint a + t < 2 ^ 31"
    using assms sint_ge [of a] sint_lt [of b] by auto
  ultimately show ?thesis
    by (simp add: signed_take_bit_int_eq_self)
qed

section \<open>Properties\<close>

text \<open>
  \<^verbatim>\<open>pow\<close> computes the power modulo \<open>2\<^sup>3\<^sup>2\<close> for every base and every non-negative
  exponent, and 0 for a negative one.
\<close>

theorem pow_correct:
  "pow_i32 base exp = (if sint exp < 0 then 0 else base ^ nat (sint exp))"
  by (auto simp: pow_i32_def pow_loop_power)

text \<open>
  \<^verbatim>\<open>sqrt\<close> returns the integer square root of every argument but one: at \<open>2\<^sup>3\<^sup>2 - 1\<close> the
  first average \<^verbatim>\<open>(x + 1) / 2\<close> wraps to 0 and the loop divides by it.
\<close>

theorem sqrt_correct:
  "(n \<noteq> 0xFFFFFFFF \<longrightarrow>
      (\<exists>r. sqrt_u32 n = Some r \<and> unat r ^ 2 \<le> unat n \<and> unat n < (unat r + 1) ^ 2)) \<and>
   sqrt_u32 0xFFFFFFFF = None"
proof (intro conjI impI)
  show "sqrt_u32 0xFFFFFFFF = None"
    by (simp add: sqrt_u32_def sqrt_loop.simps)
  assume n: "n \<noteq> 0xFFFFFFFF"
  show "\<exists>r. sqrt_u32 n = Some r \<and> unat r ^ 2 \<le> unat n \<and> unat n < (unat r + 1) ^ 2"
  proof (cases "n = 0 \<or> n = 1")
    case True
    then show ?thesis by (auto simp: sqrt_u32_def power2_eq_square)
  next
    case False
    then have "unat n \<noteq> 0" "unat n \<noteq> 1"
      by (auto simp: word_unat_eq_iff)
    then have n2: "2 \<le> unat n" by linarith
    have "unat n \<noteq> unat (0xFFFFFFFF :: u32)" using n by (simp only: word_unat_eq_iff) simp
    then have "unat n + 1 < 2 ^ 32" using u32_bound [of n] by simp
    then have y: "unat ((n + 1) div 2) = (unat n + unat n div unat n) div 2"
      using n2 by (simp add: unat_div unat_word_ariths)
    have "\<exists>r. sqrt_loop n n ((n + 1) div 2) = Some r \<and> unat r ^ 2 \<le> unat n \<and> unat n < (unat r + 1) ^ 2"
    proof (rule sqrt_loop_correct [OF _ _ _ y])
      show "0 < n" using False by (simp add: word_gt_0)
      show "2 \<le> n" using n2 by (simp add: word_le_nat_alt)
      show "unat n < (unat n + 1) ^ 2" by (simp add: power2_eq_square)
      show "unat ((n + 1) div 2) < 2 ^ 31" using y n2 \<open>unat n + 1 < 2 ^ 32\<close> by simp
    qed
    with False show ?thesis by (simp add: sqrt_u32_def)
  qed
qed

theorem sqrt_correct_witness:
  "\<exists>r. sqrt_u32 1000000 = Some r \<and> unat r ^ 2 \<le> 1000000 \<and> 1000000 < (unat r + 1) ^ 2"
  using sqrt_correct [of 1000000] by simp

text \<open>
  \<^verbatim>\<open>popcount\<close> counts the set bits; for a non-zero word \<^verbatim>\<open>clz\<close> and \<^verbatim>\<open>ctz\<close> locate the highest
  and the lowest set bit.
\<close>

theorem bit_counts_correct:
  "popcount n = card {i. bit n i} \<and>
   (n \<noteq> 0 \<longrightarrow> clz n < 32 \<and> bit n (31 - clz n) \<and> (\<forall>j > 31 - clz n. \<not> bit n j) \<and>
      bit n (ctz n) \<and> (\<forall>j < ctz n. \<not> bit n j))"
proof (intro conjI impI)
  show "popcount n = card {i. bit n i}" by (simp add: popcount_def popcount_loop_card)
next
  assume "n \<noteq> 0"
  then obtain k where k: "k < 32" "hi_bit n k" using hi_bit_ex by blast
  note c = clz_hi [OF k(2)]
  show "clz n < 32" "bit n (31 - clz n)" "\<forall>j > 31 - clz n. \<not> bit n j"
    using k c by (auto simp: hi_bit_def)
  from \<open>n \<noteq> 0\<close> show "bit n (ctz n)" "\<forall>j < ctz n. \<not> bit n j"
    using ctz_loop_low [of n 0] by (auto simp: ctz_def)
qed

theorem bit_counts_correct_witness:
  "(0x50 :: u32) \<noteq> 0 \<and> popcount 0x50 = card {i. bit (0x50 :: u32) i} \<and> bit (0x50 :: u32) (ctz 0x50)"
  using bit_counts_correct [of "0x50"] by simp

text \<open>
  For \<open>1 \<le> n \<le> 2\<^sup>3\<^sup>1\<close>, \<^verbatim>\<open>next_power_of_2\<close> returns a number that \<^verbatim>\<open>is_power_of_2\<close> accepts and
  that is the least power of two not below \<open>n\<close>; \<^verbatim>\<open>is_power_of_2\<close> accepts exactly the powers of
  two.
\<close>

theorem next_power_of_2_least:
  assumes "1 \<le> unat n" and "unat n \<le> 2 ^ 31"
  shows "is_power_of_2 (next_power_of_2 n) \<and> unat n \<le> unat (next_power_of_2 n) \<and>
    (\<forall>p. is_power_of_2 p \<longrightarrow> unat n \<le> unat p \<longrightarrow> unat (next_power_of_2 n) \<le> unat p) \<and>
    (\<forall>p. is_power_of_2 p \<longleftrightarrow> (\<exists>k<32. p = 2 ^ k))"
proof -
  obtain k where k: "k < 32" "next_power_of_2 n = 2 ^ k" "unat n \<le> 2 ^ k" "2 ^ k < 2 * unat n"
    using next_power_of_2_exp [of n] assms by auto
  have "unat (next_power_of_2 n) \<le> unat p" if p: "is_power_of_2 p" "unat n \<le> unat p" for p
  proof -
    obtain j where j: "j < 32" "p = 2 ^ j" using p is_power_of_2_iff by blast
    then have "(2 :: nat) ^ k < 2 ^ Suc j" using p k by (simp add: unat_u32_exp)
    then have "k < Suc j" by (rule power_less_imp_less_exp [rotated]) simp
    then show ?thesis using j k by (simp add: unat_u32_exp)
  qed
  then show ?thesis using k is_power_of_2_iff by (auto simp: unat_u32_exp)
qed

theorem next_power_of_2_least_witness:
  "unat (1000 :: u32) \<le> unat (next_power_of_2 1000) \<and> is_power_of_2 (next_power_of_2 1000)"
  using next_power_of_2_least [of 1000] by auto

text \<open>
  \<^verbatim>\<open>rand_range\<close> returns a number of the interval and never faults, unless the interval is
  the whole of \<^verbatim>\<open>int32_t\<close>: there \<^verbatim>\<open>max_val - min_val + 1\<close> wraps to 0 and the division faults.
\<close>

theorem rand_range_bounds:
  assumes "sint lo < sint hi"
  shows "if sint hi - sint lo + 1 < 2 ^ 32
    then \<exists>r s. rand_range seed lo hi = Some (r, s) \<and> sint lo \<le> sint r \<and> sint r \<le> sint hi
    else rand_range seed lo hi = None"
proof -
  let ?w = "hi - lo + 1"
  have w: "?w = word_of_int (sint hi - sint lo + 1)" by (simp add: of_int_sint)
  have up: "sint hi - sint lo + 1 \<le> 2 ^ 32" using sint_ge [of lo] sint_lt [of hi] by simp
  show ?thesis
  proof (cases "sint hi - sint lo + 1 < 2 ^ 32")
    case True
    then have u: "uint ?w = sint hi - sint lo + 1"
      using assms unfolding w by (intro u32_uint_of_int) auto
    define r where "r = fst (rand seed) mod ?w"
    have "uint r = uint (fst (rand seed)) mod uint ?w" by (simp add: r_def uint_mod)
    then have "0 \<le> uint r" "uint r \<le> sint hi - sint lo"
      using u assms pos_mod_bound [of "uint ?w" "uint (fst (rand seed))"] by auto
    from sint_offset [OF this] have "sint (lo + r) = sint lo + uint r" by simp
    moreover have "?w \<noteq> 0" using u assms by (metis add_pos_pos diff_gt_0_iff_gt order_less_irrefl
          uint_0_eq zero_less_one)
    ultimately show ?thesis
      using True assms \<open>uint r \<le> sint hi - sint lo\<close>
      by (simp add: rand_range_def r_def rand_def Let_def split: prod.splits)
  next
    case False
    then have "?w = 0" using up unfolding w by (simp add: word_uint_eq_iff uint_word_of_int)
    with False assms show ?thesis
      by (simp add: rand_range_def rand_def Let_def)
  qed
qed

theorem rand_range_bounds_witness:
  "\<exists>r s. rand_range 1 1 6 = Some (r, s) \<and> 1 \<le> sint r \<and> sint r \<le> 6"
  using rand_range_bounds [of 1 6 1] by simp

text \<open>
  \<^verbatim>\<open>reverse_array\<close> reverses the first \<open>n\<close> elements and leaves the others.
\<close>

theorem reverse_array_correct:
  assumes "n \<le> length arr"
  shows "reverse_array (Some arr) n = Some (rev (take n arr) @ drop n arr)"
proof (cases "n = 0")
  case False
  then have "n - 1 < length arr" using assms by simp
  note R = reverse_loop_nth [OF this, of 0]
  have "reverse_loop arr 0 (n - 1) = rev (take n arr) @ drop n arr"
  proof (rule nth_equalityI)
    show "length (reverse_loop arr 0 (n - 1)) = length (rev (take n arr) @ drop n arr)"
      using R assms by simp
    fix k
    assume "k < length (reverse_loop arr 0 (n - 1))"
    then have k: "k < length arr" using R by simp
    then have "reverse_loop arr 0 (n - 1) ! k = (if k \<le> n - 1 then arr ! (n - 1 - k) else arr ! k)"
      using R by simp
    with k False assms show "reverse_loop arr 0 (n - 1) ! k = (rev (take n arr) @ drop n arr) ! k"
      by (auto simp: nth_append rev_nth)
  qed
  with False show ?thesis by (simp add: reverse_array_def)
qed (simp add: reverse_array_def)

theorem reverse_array_correct_witness:
  "reverse_array (Some [1, 2, 3, 4]) 3 = Some [3, 2, 1, 4]"
  using reverse_array_correct [of 3 "[1, 2, 3, 4]"] by simp

end
