(* ===== verification/Utils_String.thy ===== *)
theory Utils_String
  imports C_Prelude
begin

text \<open>
  The string and memory routines of \<^verbatim>\<open>src/src/utils.c\<close> (lines 5 to 205 and 326 to
  411), over the flat memory of \<open>C_Prelude\<close>.  A loop that runs until it meets a
  terminator may run for ever, so it is a \<^theory_text>\<open>partial_function (option)\<close> and \<open>None\<close> means
  that the call does not return; the lemmas prove that it returns under the caller's
  obligations (a terminated string, disjoint regions).  Functions that write memory return
  the new memory beside their result.  Each loop of the source is one recursive function
  whose arguments are the variables the loop changes.
\<close>

section \<open>Length, copy, compare\<close>

partial_function (option) strlen_loop :: "mem \<Rightarrow> u32 \<Rightarrow> u32 \<Rightarrow> u32 option" where
  "strlen_loop m str len = (if m (str + len) \<noteq> 0 then strlen_loop m str (len + 1) else Some len)"

definition strlen :: "mem \<Rightarrow> u32 \<Rightarrow> u32 option" where
  "strlen m str = (if str = 0 then Some 0 else strlen_loop m str 0)"

partial_function (option) strcpy_loop :: "mem \<Rightarrow> u32 \<Rightarrow> u32 \<Rightarrow> mem option" where
  "strcpy_loop m ptr src =
     (if m src \<noteq> 0 then strcpy_loop (m(ptr := m src)) (ptr + 1) (src + 1)
      else Some (m(ptr := m src)))"

definition strcpy :: "mem \<Rightarrow> u32 \<Rightarrow> u32 \<Rightarrow> (u32 \<times> mem) option" where
  "strcpy m dest src =
     (if dest = 0 \<or> src = 0 then Some (dest, m)
      else map_option (Pair dest) (strcpy_loop m dest src))"

fun strncpy_copy :: "mem \<Rightarrow> u32 \<Rightarrow> u32 \<Rightarrow> nat \<Rightarrow> mem \<times> u32 \<times> nat" where
  "strncpy_copy m d s 0 = (m, d, 0)"
| "strncpy_copy m d s (Suc k) =
     (if m s \<noteq> 0 then strncpy_copy (m(d := m s)) (d + 1) (s + 1) k else (m, d, Suc k))"

fun strncpy_pad :: "mem \<Rightarrow> u32 \<Rightarrow> nat \<Rightarrow> mem" where
  "strncpy_pad m d 0 = m"
| "strncpy_pad m d (Suc k) = strncpy_pad (m(d := 0)) (d + 1) k"

definition strncpy :: "mem \<Rightarrow> u32 \<Rightarrow> u32 \<Rightarrow> u32 \<Rightarrow> u32 \<times> mem" where
  "strncpy m dest src n =
     (if dest = 0 \<or> src = 0 then (dest, m)
      else (let (m', d, k) = strncpy_copy m dest src (unat n)
            in (dest, strncpy_pad m' d k)))"

partial_function (option) strcmp_loop :: "mem \<Rightarrow> u32 \<Rightarrow> u32 \<Rightarrow> int option" where
  "strcmp_loop m s1 s2 =
     (if m s1 \<noteq> 0 \<and> m s1 = m s2 then strcmp_loop m (s1 + 1) (s2 + 1)
      else Some (uint (m s1) - uint (m s2)))"

definition strcmp :: "mem \<Rightarrow> u32 \<Rightarrow> u32 \<Rightarrow> int option" where
  "strcmp m s1 s2 = (if s1 = 0 \<or> s2 = 0 then Some 0 else strcmp_loop m s1 s2)"

fun strncmp_loop :: "mem \<Rightarrow> u32 \<Rightarrow> u32 \<Rightarrow> nat \<Rightarrow> int" where
  "strncmp_loop m s1 s2 0 = 0"
| "strncmp_loop m s1 s2 (Suc n) =
     (if m s1 \<noteq> 0 \<and> m s1 = m s2 then strncmp_loop m (s1 + 1) (s2 + 1) n
      else uint (m s1) - uint (m s2))"

definition strncmp :: "mem \<Rightarrow> u32 \<Rightarrow> u32 \<Rightarrow> u32 \<Rightarrow> int" where
  "strncmp m s1 s2 n =
     (if s1 = 0 \<or> s2 = 0 \<or> n = 0 then 0 else strncmp_loop m s1 s2 (unat n))"

partial_function (option) str_end :: "mem \<Rightarrow> u32 \<Rightarrow> u32 option" where
  "str_end m ptr = (if m ptr \<noteq> 0 then str_end m (ptr + 1) else Some ptr)"

definition strcat :: "mem \<Rightarrow> u32 \<Rightarrow> u32 \<Rightarrow> (u32 \<times> mem) option" where
  "strcat m dest src =
     (if dest = 0 \<or> src = 0 then Some (dest, m)
      else (case str_end m dest of None \<Rightarrow> None
            | Some ptr \<Rightarrow> map_option (Pair dest) (strcpy_loop m ptr src)))"

text \<open>
  \<^verbatim>\<open>while (n-- > 0 && (*ptr++ = *src++));\<close>  The loop also returns the final value of the
  unsigned counter: the failing test of a zero counter still decrements it, to \<open>2\<^sup>3\<^sup>2 - 1\<close>.
\<close>

fun strncat_loop :: "mem \<Rightarrow> u32 \<Rightarrow> u32 \<Rightarrow> nat \<Rightarrow> mem \<times> u32 \<times> u32" where
  "strncat_loop m ptr src 0 = (m, ptr, 0 - 1)"
| "strncat_loop m ptr src (Suc n) =
     (if m src \<noteq> 0 then strncat_loop (m(ptr := m src)) (ptr + 1) (src + 1) n
      else (m(ptr := m src), ptr + 1, of_nat n))"

definition strncat :: "mem \<Rightarrow> u32 \<Rightarrow> u32 \<Rightarrow> u32 \<Rightarrow> (u32 \<times> mem) option" where
  "strncat m dest src n =
     (if dest = 0 \<or> src = 0 then Some (dest, m)
      else (case str_end m dest of None \<Rightarrow> None
            | Some ptr \<Rightarrow>
                (let (m', ptr', n') = strncat_loop m ptr src (unat n)
                 in Some (dest, if n' = 0 then m'(ptr' := 0) else m'))))"

section \<open>Searching\<close>

partial_function (option) strchr_loop :: "mem \<Rightarrow> u32 \<Rightarrow> u32 \<Rightarrow> u32 option" where
  "strchr_loop m str c =
     (if m str \<noteq> 0
      then (if m str = ucast c then Some str else strchr_loop m (str + 1) c)
      else Some (if c = 0 then str else 0))"

definition strchr :: "mem \<Rightarrow> u32 \<Rightarrow> u32 \<Rightarrow> u32 option" where
  "strchr m str c = (if str = 0 then Some 0 else strchr_loop m str c)"

partial_function (option) strrchr_loop :: "mem \<Rightarrow> u32 \<Rightarrow> u32 \<Rightarrow> u32 \<Rightarrow> u32 option" where
  "strrchr_loop m str c last' =
     (if m str \<noteq> 0
      then strrchr_loop m (str + 1) c (if m str = ucast c then str else last')
      else Some (if c = 0 then str else last'))"

definition strrchr :: "mem \<Rightarrow> u32 \<Rightarrow> u32 \<Rightarrow> u32 option" where
  "strrchr m str c = (if str = 0 then Some 0 else strrchr_loop m str c 0)"

text \<open>The inner loop of \<^verbatim>\<open>strstr\<close>: the final value of \<^verbatim>\<open>n\<close>.\<close>

partial_function (option) strstr_match :: "mem \<Rightarrow> u32 \<Rightarrow> u32 \<Rightarrow> u32 option" where
  "strstr_match m h n =
     (if m h \<noteq> 0 \<and> m n \<noteq> 0 \<and> m h = m n then strstr_match m (h + 1) (n + 1) else Some n)"

partial_function (option) strstr_loop :: "mem \<Rightarrow> u32 \<Rightarrow> u32 \<Rightarrow> u32 option" where
  "strstr_loop m haystack needle =
     (if m haystack \<noteq> 0
      then (case strstr_match m haystack needle of None \<Rightarrow> None
            | Some n \<Rightarrow> if m n = 0 then Some haystack
                        else strstr_loop m (haystack + 1) needle)
      else Some 0)"

definition strstr :: "mem \<Rightarrow> u32 \<Rightarrow> u32 \<Rightarrow> u32 option" where
  "strstr m haystack needle =
     (if haystack = 0 \<or> needle = 0 then Some 0
      else if m needle = 0 then Some haystack
      else strstr_loop m haystack needle)"

section \<open>In-place changes\<close>

function strrev_loop :: "mem \<Rightarrow> u32 \<Rightarrow> u32 \<Rightarrow> mem" where
  "strrev_loop m start end' =
     (if start < end'
      then (let tmp = m start
            in strrev_loop (m(start := m end', end' := tmp)) (start + 1) (end' - 1))
      else m)"
  by pat_completeness auto
termination
proof (relation "measure (\<lambda>(m, s, e). unat e)", goal_cases)
  case 1
  then show ?case by simp
next
  case (2 m s e)
  then have "e \<noteq> 0" by auto
  then show ?case by (simp add: unat_minus_one unat_gt_0)
qed

declare strrev_loop.simps [simp del]

definition strrev :: "mem \<Rightarrow> u32 \<Rightarrow> (u32 \<times> mem) option" where
  "strrev m str =
     (if str = 0 then Some (0, m)
      else (case strlen m str of None \<Rightarrow> None
            | Some len \<Rightarrow>
                if len = 0 then Some (str, m)
                else Some (str, strrev_loop m str (str + len - 1))))"

text \<open>Character classification takes a C \<^verbatim>\<open>int\<close>; the callers pass a (signed) \<^verbatim>\<open>char\<close>.\<close>

definition isalpha :: "int \<Rightarrow> bool" where
  "isalpha c = ((c \<ge> 65 \<and> c \<le> 90) \<or> (c \<ge> 97 \<and> c \<le> 122))"

definition isdigit :: "int \<Rightarrow> bool" where
  "isdigit c = (c \<ge> 48 \<and> c \<le> 57)"

definition isalnum :: "int \<Rightarrow> bool" where
  "isalnum c = (isalpha c \<or> isdigit c)"

definition isspace :: "int \<Rightarrow> bool" where
  "isspace c = (c = 32 \<or> c = 9 \<or> c = 10 \<or> c = 13 \<or> c = 12 \<or> c = 11)"

definition isupper :: "int \<Rightarrow> bool" where
  "isupper c = (c \<ge> 65 \<and> c \<le> 90)"

definition islower :: "int \<Rightarrow> bool" where
  "islower c = (c \<ge> 97 \<and> c \<le> 122)"

definition toupper :: "int \<Rightarrow> int" where
  "toupper c = (if islower c then c - 32 else c)"

definition tolower :: "int \<Rightarrow> int" where
  "tolower c = (if isupper c then c + 32 else c)"

text \<open>
  \<^verbatim>\<open>if (*ptr >= 'a' && *ptr <= 'z') *ptr -= 32\<close> on a byte.  \<^verbatim>\<open>char\<close> is signed on this
  target, but every letter is below 128, so the unsigned comparison agrees with it.
\<close>

definition upper_byte :: "u8 \<Rightarrow> u8" where
  "upper_byte c = (if 97 \<le> c \<and> c \<le> 122 then c - 32 else c)"

definition lower_byte :: "u8 \<Rightarrow> u8" where
  "lower_byte c = (if 65 \<le> c \<and> c \<le> 90 then c + 32 else c)"

partial_function (option) strupr_loop :: "mem \<Rightarrow> u32 \<Rightarrow> mem option" where
  "strupr_loop m ptr =
     (if m ptr \<noteq> 0 then strupr_loop (m(ptr := upper_byte (m ptr))) (ptr + 1) else Some m)"

definition strupr :: "mem \<Rightarrow> u32 \<Rightarrow> (u32 \<times> mem) option" where
  "strupr m str = (if str = 0 then Some (0, m) else map_option (Pair str) (strupr_loop m str))"

partial_function (option) strlwr_loop :: "mem \<Rightarrow> u32 \<Rightarrow> mem option" where
  "strlwr_loop m ptr =
     (if m ptr \<noteq> 0 then strlwr_loop (m(ptr := lower_byte (m ptr))) (ptr + 1) else Some m)"

definition strlwr :: "mem \<Rightarrow> u32 \<Rightarrow> (u32 \<times> mem) option" where
  "strlwr m str = (if str = 0 then Some (0, m) else map_option (Pair str) (strlwr_loop m str))"

text \<open>\<^verbatim>\<open>strdup\<close> calls the allocator, the parameter \<open>kmalloc\<close> (its heap is in \<^verbatim>\<open>memory.asm\<close>).\<close>

definition strdup :: "(mem \<Rightarrow> u32 \<Rightarrow> u32 \<times> mem) \<Rightarrow> mem \<Rightarrow> u32 \<Rightarrow> (u32 \<times> mem) option" where
  "strdup kmalloc m str =
     (if str = 0 then Some (0, m)
      else (case strlen m str of None \<Rightarrow> None
            | Some l \<Rightarrow>
                (let (dup, m') = kmalloc m (l + 1)
                 in if dup \<noteq> 0 then strcpy m' dup str else Some (dup, m'))))"

section \<open>Memory routines\<close>

fun memcpy_loop :: "mem \<Rightarrow> u32 \<Rightarrow> u32 \<Rightarrow> nat \<Rightarrow> mem" where
  "memcpy_loop m d s 0 = m"
| "memcpy_loop m d s (Suc n) = memcpy_loop (m(d := m s)) (d + 1) (s + 1) n"

definition memcpy :: "mem \<Rightarrow> u32 \<Rightarrow> u32 \<Rightarrow> u32 \<Rightarrow> u32 \<times> mem" where
  "memcpy m dest src n =
     (if dest = 0 \<or> src = 0 then (dest, m) else (dest, memcpy_loop m dest src (unat n)))"

fun memmove_back :: "mem \<Rightarrow> u32 \<Rightarrow> u32 \<Rightarrow> nat \<Rightarrow> mem" where
  "memmove_back m d s 0 = m"
| "memmove_back m d s (Suc n) = memmove_back (m(d - 1 := m (s - 1))) (d - 1) (s - 1) n"

definition memmove :: "mem \<Rightarrow> u32 \<Rightarrow> u32 \<Rightarrow> u32 \<Rightarrow> u32 \<times> mem" where
  "memmove m dest src n =
     (if dest = 0 \<or> src = 0 \<or> n = 0 then (dest, m)
      else if dest < src then (dest, memcpy_loop m dest src (unat n))
      else (dest, memmove_back m (dest + n) (src + n) (unat n)))"

fun memset_loop :: "mem \<Rightarrow> u32 \<Rightarrow> u8 \<Rightarrow> nat \<Rightarrow> mem" where
  "memset_loop m p val 0 = m"
| "memset_loop m p val (Suc n) = memset_loop (m(p := val)) (p + 1) val n"

definition memset :: "mem \<Rightarrow> u32 \<Rightarrow> u32 \<Rightarrow> u32 \<Rightarrow> u32 \<times> mem" where
  "memset m ptr value n =
     (if ptr = 0 then (ptr, m) else (ptr, memset_loop m ptr (ucast value) (unat n)))"

fun memcmp_loop :: "mem \<Rightarrow> u32 \<Rightarrow> u32 \<Rightarrow> nat \<Rightarrow> int" where
  "memcmp_loop m p1 p2 0 = 0"
| "memcmp_loop m p1 p2 (Suc n) =
     (if m p1 \<noteq> m p2 then uint (m p1) - uint (m p2) else memcmp_loop m (p1 + 1) (p2 + 1) n)"

definition memcmp :: "mem \<Rightarrow> u32 \<Rightarrow> u32 \<Rightarrow> u32 \<Rightarrow> int" where
  "memcmp m s1 s2 n = (if s1 = 0 \<or> s2 = 0 then 0 else memcmp_loop m s1 s2 (unat n))"

fun memchr_loop :: "mem \<Rightarrow> u32 \<Rightarrow> u8 \<Rightarrow> nat \<Rightarrow> u32" where
  "memchr_loop m p val 0 = 0"
| "memchr_loop m p val (Suc n) = (if m p = val then p else memchr_loop m (p + 1) val n)"

definition memchr :: "mem \<Rightarrow> u32 \<Rightarrow> u32 \<Rightarrow> u32 \<Rightarrow> u32" where
  "memchr m ptr value n = (if ptr = 0 then 0 else memchr_loop m ptr (ucast value) (unat n))"

section \<open>Reference functions\<close>

text \<open>What the routines compute, over plain byte lists.\<close>

fun cmp_bytes :: "u8 list \<Rightarrow> u8 list \<Rightarrow> int" where
  "cmp_bytes [] [] = 0"
| "cmp_bytes [] (y # ys) = - uint y"
| "cmp_bytes (x # xs) [] = uint x"
| "cmp_bytes (x # xs) (y # ys) = (if x = y then cmp_bytes xs ys else uint x - uint y)"

definition sub_index :: "u8 list \<Rightarrow> u8 list \<Rightarrow> nat option" where
  "sub_index t s = find (\<lambda>i. take (length t) (drop i s) = t) [0..<length s]"

lemma uint_pos_iff: "0 < uint (x :: u8) \<longleftrightarrow> x \<noteq> 0"
  by (simp add: order_less_le uint_0_iff eq_commute [of 0])

lemma cmp_bytes_eq_iff: "0 \<notin> set s \<Longrightarrow> 0 \<notin> set t \<Longrightarrow> cmp_bytes s t = 0 \<longleftrightarrow> s = t"
  by (induction s t rule: cmp_bytes.induct) (auto simp: uint_0_iff word_uint_eqI)

lemma cmp_bytes_less_iff:
  "0 \<notin> set s \<Longrightarrow> 0 \<notin> set t \<Longrightarrow> cmp_bytes s t < 0 \<longleftrightarrow> ord_class.lexordp s t"
proof (induction s t rule: cmp_bytes.induct)
  case (2 y ys)
  then show ?case by (simp add: uint_pos_iff)
next
  case (4 x xs y ys)
  show ?case
  proof (cases "x = y")
    case True
    with "4" show ?thesis by simp
  next
    case False
    then have "uint x \<noteq> uint y" by (simp add: word_uint_eq_iff)
    with False show ?thesis by (auto simp: word_less_def)
  qed
qed (auto simp: not_less)

lemma cmp_bytes_antisym: "cmp_bytes t s = - cmp_bytes s t"
  by (induction s t rule: cmp_bytes.induct) auto

section \<open>Correctness of the string routines\<close>

lemma strlen_loop_cstr:
  "cstr_at m (p + k) s \<Longrightarrow> strlen_loop m p k = Some (k + of_nat (length s))"
proof (induction s arbitrary: k)
  case Nil
  then show ?case by (simp add: strlen_loop.simps)
next
  case (Cons c s)
  then have "strlen_loop m p (k + 1) = Some (k + 1 + of_nat (length s))"
    by (intro Cons.IH) (simp add: algebra_simps)
  with Cons.prems show ?case by (simp add: strlen_loop.simps algebra_simps)
qed

lemma strlen_cstr: "p \<noteq> 0 \<Longrightarrow> cstr_at m p s \<Longrightarrow> strlen m p = Some (of_nat (length s))"
  using strlen_loop_cstr [of m p 0 s] by (simp add: strlen_def)

lemma strcpy_loop_cstr:
  "cstr_at m src s \<Longrightarrow> region ptr (Suc (length s)) \<inter> region src (Suc (length s)) = {} \<Longrightarrow>
   strcpy_loop m ptr src = Some (write_bytes m ptr (s @ [0]))"
proof (induction s arbitrary: m ptr src)
  case Nil
  then show ?case by (simp add: strcpy_loop.simps)
next
  case (Cons c s)
  let ?m = "m(ptr := c)"
  have "ptr \<notin> region (src + 1) (Suc (length s))"
    and disj: "region (ptr + 1) (Suc (length s)) \<inter> region (src + 1) (Suc (length s)) = {}"
    using Cons.prems(2) by (auto simp: region_Suc [of _ "Suc (length s)"])
  then have "cstr_at ?m (src + 1) s"
    using Cons.prems(1) by (subst cstr_at_cong [of _ _ _ m]) auto
  then have "strcpy_loop ?m (ptr + 1) (src + 1) = Some (write_bytes ?m (ptr + 1) (s @ [0]))"
    using disj by (rule Cons.IH)
  with Cons.prems(1) show ?case by (simp add: strcpy_loop.simps)
qed

lemma strcmp_loop_cstr:
  "cstr_at m p s \<Longrightarrow> cstr_at m q t \<Longrightarrow> strcmp_loop m p q = Some (cmp_bytes s t)"
proof (induction s t arbitrary: p q rule: cmp_bytes.induct)
  case (4 x xs y ys)
  then show ?case by (auto simp: strcmp_loop.simps [of m p q])
qed (auto simp: strcmp_loop.simps)

lemma strncmp_loop_cstr:
  "cstr_at m p s \<Longrightarrow> cstr_at m q t \<Longrightarrow> strncmp_loop m p q n = cmp_bytes (take n s) (take n t)"
proof (induction n arbitrary: p q s t)
  case (Suc n)
  then show ?case by (cases s; cases t) auto
qed simp

lemma str_end_cstr: "cstr_at m p s \<Longrightarrow> str_end m p = Some (p + of_nat (length s))"
proof (induction s arbitrary: p)
  case (Cons c s)
  then have "str_end m (p + 1) = Some (p + 1 + of_nat (length s))" by simp
  with Cons.prems show ?case by (simp add: str_end.simps algebra_simps)
qed (simp add: str_end.simps)

lemma region_split_disjoint:
  "n + k \<le> 2 ^ 32 \<Longrightarrow> region (p :: u32) n \<inter> region (p + of_nat n) k = {}"
proof -
  assume nk: "n + k \<le> 2 ^ 32"
  have "p + of_nat i \<noteq> p + of_nat n + of_nat j" if "i < n" "j < k" for i j
  proof -
    have "p + of_nat i \<noteq> p + of_nat (n + j)"
      using that nk by (subst offset_eq_iff) auto
    then show ?thesis by (simp add: algebra_simps)
  qed
  then show ?thesis by (auto simp: region_def)
qed

lemma cstr_at_append:
  assumes "cstr_at m d t" and "0 \<notin> set s" and "length t + length s < 2 ^ 32"
  shows "cstr_at (write_bytes m (d + of_nat (length t)) (s @ [0])) d (t @ s)"
proof -
  let ?q = "d + of_nat (length t)" and ?m = "write_bytes m (d + of_nat (length t)) (s @ [0])"
  have "stored ?m d t"
    using assms region_split_disjoint [of "length t" "Suc (length s)" d]
    by (subst stored_write_frame) (auto simp: cstr_at_def stored_append)
  moreover have "stored ?m ?q (s @ [0])"
    using assms by (intro stored_write_bytes) simp
  ultimately show ?thesis
    using assms by (simp add: cstr_at_def stored_append algebra_simps)
qed

lemma strncat_loop_trunc:
  "cstr_at m src s \<Longrightarrow> n \<le> length s \<Longrightarrow> region ptr n \<inter> region src (Suc (length s)) = {} \<Longrightarrow>
   strncat_loop m ptr src n = (write_bytes m ptr (take n s), ptr + of_nat n, 0 - 1)"
proof (induction n arbitrary: m ptr src s)
  case (Suc n)
  then obtain c r where s: "s = c # r" by (cases s) auto
  let ?m = "m(ptr := c)"
  have "ptr \<notin> region (src + 1) (Suc (length r))"
    and disj: "region (ptr + 1) n \<inter> region (src + 1) (Suc (length r)) = {}"
    using Suc.prems(3) by (auto simp: s region_Suc)
  then have "cstr_at ?m (src + 1) r"
    using Suc.prems(1) by (subst cstr_at_cong [of _ _ _ m]) (auto simp: s)
  then have "strncat_loop ?m (ptr + 1) (src + 1) n
      = (write_bytes ?m (ptr + 1) (take n r), ptr + 1 + of_nat n, 0 - 1)"
    using disj Suc.prems(2) by (intro Suc.IH) (auto simp: s)
  with Suc.prems(1) show ?case by (simp add: s algebra_simps)
qed simp

lemma strncat_loop_full:
  "cstr_at m src s \<Longrightarrow> length s < n \<Longrightarrow> n < 2 ^ 32 \<Longrightarrow>
   region ptr (Suc (length s)) \<inter> region src (Suc (length s)) = {} \<Longrightarrow>
   strncat_loop m ptr src n =
     (write_bytes m ptr (s @ [0]), ptr + of_nat (Suc (length s)), of_nat (n - Suc (length s)))"
proof (induction s arbitrary: m ptr src n)
  case Nil
  then show ?case by (cases n) auto
next
  case (Cons c s)
  then obtain k where n: "n = Suc k" by (cases n) auto
  let ?m = "m(ptr := c)"
  have "ptr \<notin> region (src + 1) (Suc (length s))"
    and disj: "region (ptr + 1) (Suc (length s)) \<inter> region (src + 1) (Suc (length s)) = {}"
    using Cons.prems(4) by (auto simp: region_Suc [of _ "Suc (length s)"])
  then have "cstr_at ?m (src + 1) s"
    using Cons.prems(1) by (subst cstr_at_cong [of _ _ _ m]) auto
  then have "strncat_loop ?m (ptr + 1) (src + 1) k = (write_bytes ?m (ptr + 1) (s @ [0]),
      ptr + 1 + of_nat (Suc (length s)), of_nat (k - Suc (length s)))"
    using Cons.prems disj by (intro Cons.IH) (auto simp: n)
  with Cons.prems(1) show ?case by (simp add: n algebra_simps)
qed

lemma strstr_match_cstr:
  "cstr_at m h s \<Longrightarrow> cstr_at m n t \<Longrightarrow>
   \<exists>k \<le> length t. strstr_match m h n = Some (n + of_nat k) \<and>
     (k = length t \<longleftrightarrow> take (length t) s = t)"
proof (induction s arbitrary: h n t)
  case Nil
  then show ?case by (intro exI [of _ 0]) (auto simp: strstr_match.simps)
next
  case (Cons c s)
  show ?case
  proof (cases "\<exists>r. t = c # r")
    case True
    then obtain r where t: "t = c # r" by blast
    with Cons.prems have "cstr_at m (h + 1) s" "cstr_at m (n + 1) r" by auto
    then obtain k where "k \<le> length r" "strstr_match m (h + 1) (n + 1) = Some (n + 1 + of_nat k)"
      "k = length r \<longleftrightarrow> take (length r) s = r"
      using Cons.IH by blast
    with Cons.prems t show ?thesis
      by (intro exI [of _ "Suc k"]) (auto simp: strstr_match.simps [of m h n] algebra_simps)
  next
    case False
    then have "strstr_match m h n = Some n" and "take (length t) (c # s) = t \<longleftrightarrow> t = []"
      using Cons.prems by (cases t; auto simp: strstr_match.simps)+
    then show ?thesis by (intro exI [of _ 0]) auto
  qed
qed

lemma cstr_at_zero_iff:
  "cstr_at m p t \<Longrightarrow> k \<le> length t \<Longrightarrow> m (p + of_nat k) = 0 \<longleftrightarrow> k = length t"
  using cstr_at_nth [of m p t k] cstr_at_end [of m p t] cstr_at_nonzero [of m p t]
  by (auto simp: le_less in_set_conv_nth)

lemma sub_index_Nil: "sub_index t [] = None"
  by (simp add: sub_index_def)

lemma sub_index_Cons:
  "sub_index t (c # s) = (if take (length t) (c # s) = t then Some 0 else map_option Suc (sub_index t s))"
proof -
  have "[0..<length (c # s)] = 0 # map Suc [0..<length s]"
    by (simp only: upt_0_Suc list.size(4) add_0_right add_Suc_right)
  then show ?thesis
    by (simp only: sub_index_def find.simps find_Suc_map) (simp add: comp_def)
qed

lemma strstr_loop_cstr:
  "cstr_at m h s \<Longrightarrow> cstr_at m n t \<Longrightarrow>
   strstr_loop m h n = Some (case sub_index t s of None \<Rightarrow> 0 | Some i \<Rightarrow> h + of_nat i)"
proof (induction s arbitrary: h)
  case Nil
  then show ?case by (simp add: strstr_loop.simps sub_index_Nil)
next
  case (Cons c s)
  obtain k where k: "k \<le> length t" "strstr_match m h n = Some (n + of_nat k)"
    "k = length t \<longleftrightarrow> take (length t) (c # s) = t"
    using strstr_match_cstr [OF Cons.prems] by blast
  have IH: "strstr_loop m (h + 1) n =
      Some (case sub_index t s of None \<Rightarrow> 0 | Some i \<Rightarrow> h + 1 + of_nat i)"
    using Cons by (intro Cons.IH) auto
  have "m (n + of_nat k) = 0 \<longleftrightarrow> take (length t) (c # s) = t"
    using cstr_at_zero_iff [OF Cons.prems(2) k(1)] k(3) by simp
  with Cons.prems k(2) IH show ?case
    by (simp add: strstr_loop.simps [of m h n] sub_index_Cons algebra_simps split: option.split)
qed

lemma strchr_loop_cstr:
  "cstr_at m p s \<Longrightarrow> (ucast c :: u8) \<noteq> 0 \<Longrightarrow>
   strchr_loop m p c = Some (case find (\<lambda>i. s ! i = ucast c) [0..<length s] of
     None \<Rightarrow> 0 | Some i \<Rightarrow> p + of_nat i)"
proof (induction s arbitrary: p)
  case Nil
  then show ?case by (auto simp: strchr_loop.simps)
next
  case (Cons d s)
  have "strchr_loop m (p + 1) c = Some (case find (\<lambda>i. s ! i = ucast c) [0..<length s] of
      None \<Rightarrow> 0 | Some i \<Rightarrow> p + 1 + of_nat i)"
    using Cons by (intro Cons.IH) auto
  with Cons.prems show ?case
    by (simp add: strchr_loop.simps [of m p c] upt_0_Suc find_Suc_map comp_def algebra_simps
        del: upt_Suc split: option.split)
qed

lemma write_bytes_upd:
  "q \<notin> region p (length xs) \<Longrightarrow> write_bytes (m(q := v)) p xs = (write_bytes m p xs)(q := v)"
proof (induction xs arbitrary: m p)
  case (Cons x xs)
  then have "p \<noteq> q" and "q \<notin> region (p + 1) (length xs)" by (auto simp: region_Suc)
  then show ?case by (simp add: fun_upd_twist Cons.IH)
qed simp

lemma strrev_loop_stored:
  "stored m a xs \<Longrightarrow> xs \<noteq> [] \<Longrightarrow> unat a + length xs \<le> 2 ^ 32 \<Longrightarrow>
   strrev_loop m a (a + of_nat (length xs) - 1) = write_bytes m a (rev xs)"
proof (induction xs arbitrary: m a rule: length_induct)
  case (1 xs)
  let ?n = "length xs" and ?b = "a + of_nat (length xs) - 1"
  show ?case
  proof (cases "?n = 1")
    case True
    then obtain x where "xs = [x]" by (auto simp: length_Suc_conv)
    with "1.prems" show ?thesis
      by (auto simp: strrev_loop.simps)
  next
    case False
    then obtain x ys y where xs: "xs = x # ys @ [y]"
      using "1.prems"(2) by (cases xs; cases "tl xs" rule: rev_cases) auto
    have b: "?b = a + of_nat (Suc (length ys))"
      by (simp add: xs algebra_simps)
    have lt: "a < ?b"
    proof -
      have "unat ?b = unat a + Suc (length ys)"
        using "1.prems"(3) unfolding b
        by (simp add: xs unat_word_ariths unat_of_nat del: of_nat_Suc)
      then show ?thesis by (simp add: word_less_nat_alt)
    qed
    have st: "m a = x" "stored m (a + 1) ys" "m ?b = y"
      using "1.prems"(1) unfolding b by (auto simp: xs stored_append algebra_simps)
    let ?m = "m(a := y, ?b := x)"
    have na: "a \<notin> region (a + 1) (length ys)"
      using "1.prems"(3) by (intro notin_region_succ) (simp add: xs)
    have nb: "?b \<notin> region (a + 1) (length ys)"
      using region_split_disjoint [of "length ys" 1 "a + 1"] "1.prems"(3)
      by (auto simp: xs b region_Suc algebra_simps)
    have st': "stored ?m (a + 1) ys"
      using st(2) na nb by (subst stored_cong [of _ _ _ m]) auto
    have IH: "strrev_loop ?m (a + 1) (?b - 1) = write_bytes ?m (a + 1) (rev ys)"
    proof (cases "ys = []")
      case True
      with lt have "\<not> a + 1 < a" by (simp add: b less_asym)
      with True show ?thesis by (subst strrev_loop.simps) (simp add: b)
    next
      case False
      have "unat (a + 1) = unat a + 1"
        using "1.prems"(3) by (simp add: xs unat_word_ariths)
      then have "strrev_loop ?m (a + 1) (a + 1 + of_nat (length ys) - 1) = write_bytes ?m (a + 1) (rev ys)"
        using "1.prems"(3) st' False
        by (intro "1.IH" [rule_format]) (auto simp: xs)
      then show ?thesis by (simp add: b algebra_simps)
    qed
    have "write_bytes ?m (a + 1) (rev ys) = (write_bytes (m(a := y)) (a + 1) (rev ys))(?b := x)"
      using nb by (simp add: write_bytes_upd)
    also have "\<dots> = write_bytes m a (rev xs)"
      by (simp add: xs write_bytes_append b algebra_simps)
    finally show ?thesis
      using lt st IH by (subst strrev_loop.simps) simp
  qed
qed

lemma strrev_cstr:
  assumes "p \<noteq> 0" and "cstr_at m p s" and "unat p + length s < 2 ^ 32"
  shows "strrev m p = Some (p, write_bytes m p (rev s))
    \<and> cstr_at (write_bytes m p (rev s)) p (rev s)"
proof -
  have len: "length s < 2 ^ 32" and st: "stored m p s" and z: "m (p + of_nat (length s)) = 0"
    using assms by (auto simp: cstr_at_def stored_append dest: cstr_at_length)
  have nz: "of_nat (length s) = (0 :: u32) \<longleftrightarrow> s = []"
    using of_nat_u32_inj [of "length s" 0] len by simp
  have "strrev m p = Some (p, write_bytes m p (rev s))"
  proof (cases "s = []")
    case True
    with assms strlen_cstr [OF assms(1,2)] show ?thesis by (simp add: strrev_def)
  next
    case False
    with assms nz st strlen_cstr [OF assms(1,2)] show ?thesis
      by (simp add: strrev_def strrev_loop_stored)
  qed
  moreover have "p + of_nat (length s) \<notin> region p (length s)"
    using region_split_disjoint [of "length s" 1 p] len by (auto simp: region_Suc)
  then have "cstr_at (write_bytes m p (rev s)) p (rev s)"
    using z assms(2) len stored_write_bytes [of "rev s" m p] write_bytes_frame [of _ p "rev s" m]
    by (simp add: cstr_at_def stored_append)
  ultimately show ?thesis by blast
qed

lemma strupr_loop_cstr:
  "cstr_at m p s \<Longrightarrow> strupr_loop m p = Some (write_bytes m p (map upper_byte s))"
proof (induction s arbitrary: m p)
  case (Cons c s)
  have "p \<notin> region (p + 1) (Suc (length s))"
    using cstr_at_length [OF Cons.prems] by (intro notin_region_succ) simp
  then have "cstr_at (m(p := upper_byte c)) (p + 1) s"
    using Cons.prems by (subst cstr_at_cong [of _ _ _ m]) auto
  from Cons.IH [OF this] Cons.prems show ?case by (simp add: strupr_loop.simps [of m p])
qed (simp add: strupr_loop.simps)

lemma strlwr_loop_cstr:
  "cstr_at m p s \<Longrightarrow> strlwr_loop m p = Some (write_bytes m p (map lower_byte s))"
proof (induction s arbitrary: m p)
  case (Cons c s)
  have "p \<notin> region (p + 1) (Suc (length s))"
    using cstr_at_length [OF Cons.prems] by (intro notin_region_succ) simp
  then have "cstr_at (m(p := lower_byte c)) (p + 1) s"
    using Cons.prems by (subst cstr_at_cong [of _ _ _ m]) auto
  from Cons.IH [OF this] Cons.prems show ?case by (simp add: strlwr_loop.simps [of m p])
qed (simp add: strlwr_loop.simps)

section \<open>Correctness of the memory routines\<close>

lemma memcpy_loop_disjoint:
  "region d n \<inter> region s n = {} \<Longrightarrow> memcpy_loop m d s n = write_bytes m d (read_bytes m s n)"
proof (induction n arbitrary: m d s)
  case (Suc n)
  then have "d \<notin> region (s + 1) n" and "region (d + 1) n \<inter> region (s + 1) n = {}"
    by (auto simp: region_Suc)
  moreover from this(1) have "read_bytes (m(d := m s)) (s + 1) n = read_bytes m (s + 1) n"
    by (intro read_bytes_cong) auto
  ultimately show ?case using Suc.IH by simp
qed simp

lemma mem_offset_less:
  "unat (p :: u32) + n \<le> 2 ^ 32 \<Longrightarrow> i < n \<Longrightarrow> unat (p + of_nat i) = unat p + i"
  by (simp add: unat_word_ariths unat_of_nat)

lemma memcpy_loop_forward:
  "d < s \<Longrightarrow> unat s + n \<le> 2 ^ 32 \<Longrightarrow> memcpy_loop m d s n = write_bytes m d (read_bytes m s n)"
proof (induction n arbitrary: m d s)
  case (Suc n)
  have us: "n > 0 \<Longrightarrow> unat (s + 1) = unat s + 1"
    using mem_offset_less [of s "Suc n" 1] Suc.prems by simp
  have ud: "n > 0 \<Longrightarrow> unat (d + 1) = unat d + 1"
    using mem_offset_less [of d "Suc n" 1] Suc.prems by (simp add: word_less_nat_alt)
  have "d \<notin> region (s + 1) n"
  proof
    assume "d \<in> region (s + 1) n"
    then obtain i where i: "i < n" "d = s + 1 + of_nat i" by (auto simp: region_def)
    then have d: "d = s + of_nat (Suc i)" by (simp add: algebra_simps)
    have "unat d = unat s + Suc i"
      unfolding d using i Suc.prems(2) by (intro mem_offset_less [of _ "Suc n"]) auto
    with Suc.prems(1) show False by (simp add: word_less_nat_alt)
  qed
  then have "read_bytes (m(d := m s)) (s + 1) n = read_bytes m (s + 1) n"
    by (intro read_bytes_cong) auto
  moreover have "memcpy_loop (m(d := m s)) (d + 1) (s + 1) n =
      write_bytes (m(d := m s)) (d + 1) (read_bytes (m(d := m s)) (s + 1) n)"
    using Suc us ud by (cases "n = 0") (auto simp: word_less_nat_alt)
  ultimately show ?case by simp
qed simp

lemma memmove_back_nowrap:
  "s \<le> d \<Longrightarrow> unat d + n \<le> 2 ^ 32 \<Longrightarrow>
   memmove_back m (d + of_nat n) (s + of_nat n) n = write_bytes m d (read_bytes m s n)"
proof (induction n arbitrary: m)
  case (Suc n)
  let ?m = "m(d + of_nat n := m (s + of_nat n))"
  have "d + of_nat n \<notin> region s n"
  proof
    assume "d + of_nat n \<in> region s n"
    then obtain i where i: "i < n" "d + of_nat n = s + of_nat i" by (auto simp: region_def)
    have "unat (d + of_nat n) = unat d + n"
      using Suc.prems(2) by (intro mem_offset_less [of _ "Suc n"]) auto
    moreover have "unat (s + of_nat i) = unat s + i"
      using Suc.prems i by (intro mem_offset_less [of _ "Suc n"]) (auto simp: word_le_nat_alt)
    ultimately show False using i Suc.prems(1) by (simp add: word_le_nat_alt)
  qed
  then have r: "read_bytes ?m s n = read_bytes m s n"
    by (intro read_bytes_cong) auto
  have "d + of_nat n \<notin> region d n"
    using region_split_disjoint [of n 1 d] Suc.prems(2) by (auto simp: region_Suc)
  then have w: "write_bytes ?m d (read_bytes m s n) = (write_bytes m d (read_bytes m s n))(d + of_nat n := m (s + of_nat n))"
    by (simp add: write_bytes_upd)
  have "read_bytes m s (Suc n) = read_bytes m s n @ [m (s + of_nat n)]"
    by (rule nth_equalityI) (auto simp: read_bytes_nth nth_append less_Suc_eq simp del: read_bytes.simps)
  then have "write_bytes m d (read_bytes m s (Suc n)) = (write_bytes m d (read_bytes m s n))(d + of_nat n := m (s + of_nat n))"
    by (simp add: write_bytes_append del: read_bytes.simps)
  moreover have "memmove_back ?m (d + of_nat n) (s + of_nat n) n = write_bytes ?m d (read_bytes ?m s n)"
    using Suc by (intro Suc.IH) auto
  ultimately show ?case using r w by (simp add: algebra_simps del: read_bytes.simps)
qed simp

lemma memset_loop_write: "memset_loop m p v n = write_bytes m p (replicate n v)"
  by (induction n arbitrary: m p) auto

lemma memcmp_loop_zero: "memcmp_loop m p q n = 0 \<longleftrightarrow> read_bytes m p n = read_bytes m q n"
  by (induction n arbitrary: p q) (auto simp: word_uint_eqI)

lemma memchr_loop_find:
  "memchr_loop m p v n = (case find (\<lambda>i. m (p + of_nat i) = v) [0..<n] of
     None \<Rightarrow> 0 | Some i \<Rightarrow> p + of_nat i)"
proof (induction n arbitrary: p)
  case (Suc n)
  then show ?case
    by (simp add: upt_0_Suc find_Suc_map comp_def add.assoc [symmetric] del: upt_Suc
        split: option.split)
qed simp

section \<open>Properties\<close>

text \<open>
  C29.  \<^verbatim>\<open>memmove\<close> copies correctly for every overlap: when neither block wraps around the
  address space, the destination receives the bytes the source held before the call, and the
  routine is the same single block write as the reference, whichever way it copies.
\<close>

theorem memmove_correct:
  assumes "dest \<noteq> 0" and "src \<noteq> 0"
    and "unat dest + unat n \<le> 2 ^ 32" and "unat src + unat n \<le> 2 ^ 32"
  shows "memmove m dest src n = (dest, write_bytes m dest (read_bytes m src (unat n)))
    \<and> read_bytes (snd (memmove m dest src n)) dest (unat n) = read_bytes m src (unat n)"
proof -
  have eq: "memmove m dest src n = (dest, write_bytes m dest (read_bytes m src (unat n)))"
  proof (cases "n = 0 \<or> dest < src")
    case True
    with assms show ?thesis by (auto simp: memmove_def memcpy_loop_forward)
  next
    case False
    then have "memmove_back m (dest + of_nat (unat n)) (src + of_nat (unat n)) (unat n)
        = write_bytes m dest (read_bytes m src (unat n))"
      using assms by (intro memmove_back_nowrap) auto
    with False assms show ?thesis by (simp add: memmove_def)
  qed
  have "stored (write_bytes m dest (read_bytes m src (unat n))) dest (read_bytes m src (unat n))"
    using u32_bound [of n] by (intro stored_write_bytes) simp
  with eq show ?thesis by (simp add: stored_iff_read)
qed

theorem memmove_correct_witness:
  "read_bytes (snd (memmove (\<lambda>a. ucast a) 0x102 0x100 4)) 0x102 4 = [0, 1, 2, 3]"
proof -
  have "read_bytes (snd (memmove (\<lambda>a. ucast a) 0x102 0x100 4)) 0x102 (unat (4 :: u32))
      = read_bytes (\<lambda>a. ucast a) 0x100 (unat (4 :: u32))"
    by (rule memmove_correct [THEN conjunct2]) simp_all
  then show ?thesis by simp
qed

text \<open>
  On two terminated strings \<^verbatim>\<open>strcmp\<close> returns, and the sign of its result decides the
  lexicographic order of the byte strings: zero exactly for equal strings, negative exactly
  when the first is smaller, positive exactly when the second is.
\<close>

theorem strcmp_correct:
  assumes "p \<noteq> 0" and "q \<noteq> 0" and "cstr_at m p s" and "cstr_at m q t"
  shows "\<exists>r. strcmp m p q = Some r \<and> (r = 0 \<longleftrightarrow> s = t)
    \<and> (r < 0 \<longleftrightarrow> ord_class.lexordp s t) \<and> (r > 0 \<longleftrightarrow> ord_class.lexordp t s)"
proof -
  have nz: "0 \<notin> set s" "0 \<notin> set t"
    using assms by (auto dest: cstr_at_nonzero)
  have "cmp_bytes s t > 0 \<longleftrightarrow> cmp_bytes t s < 0"
    by (simp add: cmp_bytes_antisym [of t s])
  then show ?thesis
    using assms nz
    by (simp add: strcmp_def strcmp_loop_cstr cmp_bytes_eq_iff cmp_bytes_less_iff)
qed

theorem strcmp_correct_witness:
  "\<exists>r. strcmp (write_bytes (write_bytes (\<lambda>_. 0) 0x10 (lit ''cat'' @ [0])) 0x20 (lit ''cow'' @ [0]))
     0x10 0x20 = Some r \<and> r < 0"
proof -
  let ?m = "write_bytes (write_bytes (\<lambda>_. 0) 0x10 (lit ''cat'' @ [0])) 0x20 (lit ''cow'' @ [0])"
  have "cstr_at ?m 0x10 (lit ''cat'')" and "cstr_at ?m 0x20 (lit ''cow'')"
    by (simp_all add: lit_def)
  from strcmp_correct [OF _ _ this] show ?thesis by (auto simp: lit_def)
qed

text \<open>
  \<^verbatim>\<open>strcat\<close> returns its destination and leaves there the concatenation of the two strings,
  terminated, and changes no byte outside the appended run, provided the room for the result
  does not overlap the source.
\<close>

theorem strcat_correct:
  assumes "dest \<noteq> 0" and "src \<noteq> 0" and "cstr_at m dest t" and "cstr_at m src s"
    and "length t + length s < 2 ^ 32"
    and "region (dest + of_nat (length t)) (Suc (length s)) \<inter> region src (Suc (length s)) = {}"
  shows "\<exists>m'. strcat m dest src = Some (dest, m') \<and> cstr_at m' dest (t @ s)
    \<and> (\<forall>a. a \<notin> region (dest + of_nat (length t)) (Suc (length s)) \<longrightarrow> m' a = m a)"
proof -
  let ?m = "write_bytes m (dest + of_nat (length t)) (s @ [0])"
  have "strcat m dest src = Some (dest, ?m)"
    using assms by (simp add: strcat_def str_end_cstr strcpy_loop_cstr)
  moreover have "cstr_at ?m dest (t @ s)"
    using assms by (intro cstr_at_append) (auto dest: cstr_at_nonzero)
  ultimately show ?thesis by (auto intro: write_bytes_frame)
qed

theorem strcat_correct_witness:
  "\<exists>m'. strcat (write_bytes (write_bytes (\<lambda>_. 0) 0x10 (lit ''RO'' @ [0])) 0x20 (lit ''DOS'' @ [0]))
     0x10 0x20 = Some (0x10, m') \<and> cstr_at m' 0x10 (lit ''RODOS'')"
proof -
  let ?m = "write_bytes (write_bytes (\<lambda>_. 0) 0x10 (lit ''RO'' @ [0])) 0x20 (lit ''DOS'' @ [0])"
  have "cstr_at ?m 0x10 (lit ''RO'')" and "cstr_at ?m 0x20 (lit ''DOS'')"
    by (simp_all add: lit_def)
  moreover have "region (0x10 + of_nat (length (lit ''RO''))) (Suc (length (lit ''DOS'')))
      \<inter> region 0x20 (Suc (length (lit ''DOS''))) = {}"
    by (simp add: lit_def region_Suc)
  moreover have "lit ''RO'' @ lit ''DOS'' = lit ''RODOS''"
    by (simp add: lit_def)
  ultimately show ?thesis
    using strcat_correct [of "0x10" "0x20" ?m "lit ''RO''" "lit ''DOS''"] by (auto simp: lit_def)
qed

text \<open>
  \<^verbatim>\<open>strncat\<close> forgets the terminator when it truncates: if the limit is at most the length
  of the source, it appends exactly that many bytes and leaves the byte after them as it was.
  The test \<^verbatim>\<open>n == 0\<close> after the loop is false there, since the counter has wrapped around.
\<close>

theorem strncat_truncation_unterminated:
  assumes "dest \<noteq> 0" and "src \<noteq> 0" and "cstr_at m dest t" and "cstr_at m src s"
    and "unat n \<le> length s"
    and "region (dest + of_nat (length t)) (unat n) \<inter> region src (Suc (length s)) = {}"
  shows "\<exists>m'. strncat m dest src n = Some (dest, m')
    \<and> read_bytes m' (dest + of_nat (length t)) (unat n) = take (unat n) s
    \<and> m' (dest + of_nat (length t) + n) = m (dest + of_nat (length t) + n)"
proof -
  let ?q = "dest + of_nat (length t)"
  let ?m = "write_bytes m ?q (take (unat n) s)"
  have len: "length (take (unat n) s) = unat n"
    using assms(5) by simp
  have "strncat m dest src n = Some (dest, ?m)"
    using assms by (simp add: strncat_def str_end_cstr strncat_loop_trunc)
  moreover have "read_bytes ?m ?q (unat n) = take (unat n) s"
    using stored_write_bytes [of "take (unat n) s" m ?q] u32_bound [of n] len
    by (simp add: stored_iff_read)
  moreover have "?q + n \<notin> region ?q (unat n)"
    using region_split_disjoint [of "unat n" 1 ?q] u32_bound [of n] by (auto simp: region_Suc)
  then have "?m (?q + n) = m (?q + n)"
    using write_bytes_frame [of "?q + n" ?q "take (unat n) s" m] len by simp
  ultimately show ?thesis by blast
qed

theorem strncat_truncation_unterminated_witness:
  "\<exists>m'. strncat (write_bytes (write_bytes (\<lambda>_. 0xAA) 0x10 (lit ''A'' @ [0])) 0x20 (lit ''BCD'' @ [0]))
     0x10 0x20 2 = Some (0x10, m') \<and> m' 0x13 = 0xAA"
proof -
  let ?m = "write_bytes (write_bytes (\<lambda>_. 0xAA) 0x10 (lit ''A'' @ [0])) 0x20 (lit ''BCD'' @ [0])"
  have "cstr_at ?m 0x10 (lit ''A'')" and "cstr_at ?m 0x20 (lit ''BCD'')"
    by (simp_all add: lit_def)
  moreover have "region (0x10 + of_nat (length (lit ''A''))) (unat (2 :: u32))
      \<inter> region 0x20 (Suc (length (lit ''BCD''))) = {}"
    by (simp add: lit_def region_Suc)
  ultimately show ?thesis
    using strncat_truncation_unterminated [of "0x10" "0x20" ?m "lit ''A''" "lit ''BCD''" 2]
    by (auto simp: lit_def)
qed

text \<open>
  C19.  \<^verbatim>\<open>strstr\<close> returns, and its result is the address of the first occurrence of a non-empty
  needle in the haystack, or \<^verbatim>\<open>NULL\<close> when there is none.
\<close>

theorem strstr_first_occurrence:
  assumes "h \<noteq> 0" and "n \<noteq> 0" and "cstr_at m h s" and "cstr_at m n t" and "t \<noteq> []"
  shows "strstr m h n = Some (case sub_index t s of None \<Rightarrow> 0 | Some i \<Rightarrow> h + of_nat i)
    \<and> (\<forall>i. sub_index t s = Some i \<longleftrightarrow> i < length s \<and> take (length t) (drop i s) = t
          \<and> (\<forall>j<i. take (length t) (drop j s) \<noteq> t))"
proof
  have "m n \<noteq> 0" using assms(4,5) by (cases t) auto
  with assms show "strstr m h n = Some (case sub_index t s of None \<Rightarrow> 0 | Some i \<Rightarrow> h + of_nat i)"
    by (simp add: strstr_def strstr_loop_cstr)
  show "\<forall>i. sub_index t s = Some i \<longleftrightarrow> i < length s \<and> take (length t) (drop i s) = t
      \<and> (\<forall>j<i. take (length t) (drop j s) \<noteq> t)"
    by (auto simp: sub_index_def find_Some_iff)
qed

theorem strstr_first_occurrence_witness:
  "strstr (write_bytes (write_bytes (\<lambda>_. 0) 0x10 (lit ''abcbc'' @ [0])) 0x20 (lit ''bc'' @ [0]))
     0x10 0x20 = Some 0x11"
proof -
  let ?m = "write_bytes (write_bytes (\<lambda>_. 0) 0x10 (lit ''abcbc'' @ [0])) 0x20 (lit ''bc'' @ [0])"
  have "cstr_at ?m 0x10 (lit ''abcbc'')" and "cstr_at ?m 0x20 (lit ''bc'')"
    by (simp_all add: lit_def)
  from strstr_first_occurrence [OF _ _ this] show ?thesis
    by (simp add: lit_def sub_index_def upt_rec)
qed

text \<open>
  \<^verbatim>\<open>strrev\<close> reverses a string in place: it returns the same pointer, the string there is the
  reverse of the old one, and no byte outside the string changes.
\<close>

theorem strrev_correct:
  assumes "p \<noteq> 0" and "cstr_at m p s" and "unat p + length s < 2 ^ 32"
  shows "strrev m p = Some (p, write_bytes m p (rev s))
    \<and> cstr_at (write_bytes m p (rev s)) p (rev s)"
  by (rule strrev_cstr [OF assms])

theorem strrev_correct_witness:
  "\<exists>m'. strrev (write_bytes (\<lambda>_. 0) 0x10 (lit ''shell'' @ [0])) 0x10 = Some (0x10, m')
    \<and> cstr_at m' 0x10 (lit ''llehs'')"
proof -
  let ?m = "write_bytes (\<lambda>_. 0) 0x10 (lit ''shell'' @ [0])"
  have "cstr_at ?m 0x10 (lit ''shell'')" by (simp add: lit_def)
  from strrev_correct [OF _ this] show ?thesis by (simp add: lit_def)
qed

end
