(* ===== verification/Utils_Token.thy ===== *)
theory Utils_Token
  imports Utils_String
begin

text \<open>
  The tokenizers \<^verbatim>\<open>strtok\<close> and \<^verbatim>\<open>strtok_r\<close> of \<^verbatim>\<open>src/src/utils.c\<close> (lines 566 to 645).  The
  static variable \<^verbatim>\<open>strtok_saveptr\<close> is an argument and a result.  The variable behind the
  \<^verbatim>\<open>char **saveptr\<close> of \<^verbatim>\<open>strtok_r\<close> is \<open>None\<close> for a null pointer, else its value; it is taken to
  lie outside the string.  The two scanning loops stop at the end of the string only if
  there is one, so they are partial functions.  The lemmas relate a whole sequence of
  calls to the reference function \<open>tokens\<close>, the runs of characters between delimiters.
\<close>

section \<open>The code\<close>

text \<open>\<^verbatim>\<open>strchr(delim, *p)\<close>: the signed \<^verbatim>\<open>char\<close> is extended to an \<^verbatim>\<open>int\<close>.\<close>

definition delim_of :: "mem \<Rightarrow> u32 \<Rightarrow> u8 \<Rightarrow> bool option" where
  "delim_of m delim c = map_option (\<lambda>r. r \<noteq> 0) (strchr m delim (scast c))"

partial_function (option) skip_delims :: "mem \<Rightarrow> u32 \<Rightarrow> u32 \<Rightarrow> u32 option" where
  "skip_delims m delim p =
     (if m p = 0 then Some p
      else (case delim_of m delim (m p) of None \<Rightarrow> None
            | Some b \<Rightarrow> if b then skip_delims m delim (p + 1) else Some p))"

partial_function (option) token_end :: "mem \<Rightarrow> u32 \<Rightarrow> u32 \<Rightarrow> u32 option" where
  "token_end m delim p =
     (if m p = 0 then Some p
      else (case delim_of m delim (m p) of None \<Rightarrow> None
            | Some b \<Rightarrow> if b then Some p else token_end m delim (p + 1)))"

text \<open>The body the two functions share: the token, the new save pointer, the memory.\<close>

definition next_token :: "mem \<Rightarrow> u32 \<Rightarrow> u32 \<Rightarrow> (u32 \<times> u32 \<times> mem) option" where
  "next_token m delim save =
     (case skip_delims m delim save of None \<Rightarrow> None
      | Some start \<Rightarrow>
          if m start = 0 then Some (0, 0, m)
          else (case token_end m delim start of None \<Rightarrow> None
                | Some p \<Rightarrow> if m p \<noteq> 0 then Some (start, p + 1, m(p := 0))
                            else Some (start, 0, m)))"

definition strtok :: "mem \<Rightarrow> u32 \<Rightarrow> u32 \<Rightarrow> u32 \<Rightarrow> (u32 \<times> u32 \<times> mem) option" where
  "strtok m str delim strtok_saveptr =
     (let save = (if str \<noteq> 0 then str else strtok_saveptr)
      in if save = 0 \<or> delim = 0 then Some (0, save, m) else next_token m delim save)"

definition strtok_r ::
  "mem \<Rightarrow> u32 \<Rightarrow> u32 \<Rightarrow> u32 option \<Rightarrow> (u32 \<times> u32 option \<times> mem) option" where
  "strtok_r m str delim saveptr =
     (case saveptr of None \<Rightarrow> Some (0, None, m)
      | Some v \<Rightarrow>
          if delim = 0 then Some (0, Some v, m)
          else (let save = (if str \<noteq> 0 then str else v)
                in if save = 0 then Some (0, Some save, m)
                   else map_option (\<lambda>(r, s, m'). (r, Some s, m')) (next_token m delim save)))"

section \<open>Reference: the tokens of a string\<close>

function tokens :: "u8 list \<Rightarrow> u8 list \<Rightarrow> u8 list list" where
  "tokens ds s =
     (case dropWhile (\<lambda>c. c \<in> set ds) s of
        [] \<Rightarrow> []
      | c # t \<Rightarrow> (c # takeWhile (\<lambda>c. c \<notin> set ds) t) # tokens ds (dropWhile (\<lambda>c. c \<notin> set ds) t))"
  by pat_completeness auto
termination
proof (relation "measure (\<lambda>(ds, s). length s)", goal_cases)
  case 1
  then show ?case by simp
next
  case (2 ds s c t)
  have "length (dropWhile (\<lambda>c. c \<notin> set ds) t) \<le> length t" by (rule length_dropWhile_le)
  also have "\<dots> < length (dropWhile (\<lambda>c. c \<in> set ds) s)" using 2 by simp
  also have "\<dots> \<le> length s" by (rule length_dropWhile_le)
  finally show ?case by simp
qed

declare tokens.simps [simp del]

text \<open>A client: \<open>n\<close> calls, the first with the string, the others with a null pointer.\<close>

fun strtok_calls ::
  "nat \<Rightarrow> mem \<Rightarrow> u32 \<Rightarrow> u32 \<Rightarrow> u32 \<Rightarrow> (u32 list \<times> u32 \<times> mem) option" where
  "strtok_calls 0 m str delim save = Some ([], save, m)"
| "strtok_calls (Suc n) m str delim save =
     (case strtok m str delim save of None \<Rightarrow> None
      | Some (r, save', m') \<Rightarrow>
          map_option (\<lambda>(rs, sm). (r # rs, sm)) (strtok_calls n m' 0 delim save'))"

section \<open>The scanning loops\<close>

lemma delim_of_cstr:
  assumes "cstr_at m d ds" "0 \<notin> region d (Suc (length ds))" "c \<noteq> 0"
  shows "delim_of m d c = Some (c \<in> set ds)"
proof -
  have c: "(ucast (scast c :: u32) :: u8) = c"
    by (rule bit_word_eqI) (auto simp: bit_simps)
  have d: "d \<noteq> 0" using assms(2) by (auto simp: region_Suc)
  have off: "d + of_nat i \<noteq> 0" if "i < length ds" for i
    using assms(2) region_nth [of i "Suc (length ds)" d] that by auto
  show ?thesis
  proof (cases "find (\<lambda>i. ds ! i = c) [0..<length ds]")
    case None
    then have "c \<notin> set ds" by (auto simp: find_None_iff in_set_conv_nth)
    with None d assms show ?thesis
      by (simp add: delim_of_def strchr_def strchr_loop_cstr c)
  next
    case (Some i)
    then have "i < length ds" "ds ! i = c" by (auto simp: find_Some_iff)
    with Some d assms off [of i] show ?thesis
      by (auto simp: delim_of_def strchr_def strchr_loop_cstr c)
  qed
qed

lemma skip_delims_cstr:
  assumes d: "cstr_at m d ds" "0 \<notin> region d (Suc (length ds))"
  shows "cstr_at m p s \<Longrightarrow>
    skip_delims m d p = Some (p + of_nat (length (takeWhile (\<lambda>c. c \<in> set ds) s)))"
proof (induction s arbitrary: p)
  case Nil
  then show ?case by (simp add: skip_delims.simps)
next
  case (Cons c s)
  then show ?case
    by (subst skip_delims.simps) (simp add: delim_of_cstr [OF d] algebra_simps)
qed

lemma token_end_cstr:
  assumes d: "cstr_at m d ds" "0 \<notin> region d (Suc (length ds))"
  shows "cstr_at m p s \<Longrightarrow>
    token_end m d p = Some (p + of_nat (length (takeWhile (\<lambda>c. c \<notin> set ds) s)))"
proof (induction s arbitrary: p)
  case Nil
  then show ?case by (simp add: token_end.simps)
next
  case (Cons c s)
  then show ?case
    by (subst token_end.simps) (simp add: delim_of_cstr [OF d] algebra_simps)
qed

section \<open>One call\<close>

text \<open>What a save pointer stands for: nothing, or a string apart from the delimiters.\<close>

definition area :: "u32 \<Rightarrow> u8 list \<Rightarrow> u32 set" where
  "area p s = (if p = 0 then {} else region p (Suc (length s)))"

definition pending :: "mem \<Rightarrow> u32 \<Rightarrow> u8 list \<Rightarrow> u32 \<Rightarrow> u8 list \<Rightarrow> bool" where
  "pending m d ds p s \<longleftrightarrow>
     cstr_at m d ds \<and> 0 \<notin> region d (Suc (length ds)) \<and>
     (if p = 0 then s = [] else cstr_at m p s) \<and>
     0 \<notin> area p s \<and> area p s \<inter> region d (Suc (length ds)) = {}"

lemma tokens_delim: "x \<in> set ds \<Longrightarrow> tokens ds (x # s) = tokens ds s"
  by (simp add: tokens.simps [of ds "x # s"] tokens.simps [of ds s])

lemma tokens_parts:
  assumes "tokens ds s = t # ts"
  obtains u w where "s = u @ t @ w" "set u \<subseteq> set ds" "t \<noteq> []" "set t \<inter> set ds = {}"
    "takeWhile (\<lambda>c. c \<in> set ds) s = u" "takeWhile (\<lambda>c. c \<notin> set ds) (t @ w) = t"
    "w = [] \<and> ts = [] \<or> (\<exists>x w'. w = x # w' \<and> x \<in> set ds \<and> ts = tokens ds w')"
proof -
  obtain c v where v: "dropWhile (\<lambda>c. c \<in> set ds) s = c # v"
    using assms by (auto simp: tokens.simps [of ds s] split: list.splits)
  define w where "w = dropWhile (\<lambda>c. c \<notin> set ds) v"
  have c: "c \<notin> set ds" using v by (metis dropWhile_eq_Cons_conv)
  have t: "t = c # takeWhile (\<lambda>c. c \<notin> set ds) v" "ts = tokens ds w"
    using assms v by (simp_all add: tokens.simps [of ds s] w_def)
  have tw: "t @ w = c # v" by (simp add: t w_def)
  have "s = takeWhile (\<lambda>c. c \<in> set ds) s @ t @ w"
    by (simp only: tw flip: v) simp
  moreover have "set t \<inter> set ds = {}" using c by (auto simp: t dest: set_takeWhileD)
  moreover have "takeWhile (\<lambda>c. c \<notin> set ds) (t @ w) = t" by (simp only: tw) (simp add: t c)
  moreover have "w = [] \<and> ts = [] \<or> (\<exists>x w'. w = x # w' \<and> x \<in> set ds \<and> ts = tokens ds w')"
  proof (cases w)
    case Nil
    then show ?thesis by (simp add: t(2) tokens.simps)
  next
    case (Cons x w')
    then have "x \<in> set ds" using w_def by (metis dropWhile_eq_Cons_conv)
    with Cons show ?thesis by (simp add: t(2) tokens_delim)
  qed
  ultimately show ?thesis
    by (intro that [of "takeWhile (\<lambda>c. c \<in> set ds) s" w]) (auto simp: t dest: set_takeWhileD)
qed

lemma region_within: "i + k \<le> n \<Longrightarrow> region (p + of_nat i) k \<subseteq> region p n"
  using region_add [of p i k] region_mono [of "i + k" n p] by auto

lemma tokens_none: "tokens ds s = [] \<longleftrightarrow> takeWhile (\<lambda>c. c \<in> set ds) s = s"
proof -
  have "tokens ds s = [] \<longleftrightarrow> dropWhile (\<lambda>c. c \<in> set ds) s = []"
    by (subst tokens.simps) (cases "dropWhile (\<lambda>c. c \<in> set ds) s", simp_all del: dropWhile_eq_Nil_conv)
  then show ?thesis by (simp only: dropWhile_eq_Nil_conv takeWhile_eq_all_conv)
qed

lemma next_token_none:
  assumes "pending m d ds p s" "p \<noteq> 0" "tokens ds s = []"
  shows "next_token m d p = Some (0, 0, m)"
proof -
  have s: "cstr_at m p s" and d: "cstr_at m d ds" "0 \<notin> region d (Suc (length ds))"
    using assms by (auto simp: pending_def)
  have "skip_delims m d p = Some (p + of_nat (length s))"
    using skip_delims_cstr [OF d s] assms(3) [unfolded tokens_none] by (simp only:)
  then show ?thesis by (simp add: next_token_def cstr_at_end [OF s])
qed

lemma cut_string:
  assumes s: "cstr_at m p (t @ x # w)"
  shows "cstr_at (m(p + of_nat (length t) := 0)) p t"
    and "cstr_at (m(p + of_nat (length t) := 0)) (p + of_nat (length t) + 1) w"
proof -
  let ?q = "p + of_nat (length t)"
  have n: "length t + Suc (length w) < 2 ^ 32" using cstr_at_length [OF s] by simp
  have st: "stored m p t" and z: "0 \<notin> set t" using s by (auto simp: cstr_at_def stored_append)
  have "?q \<notin> region p (length t)"
  proof
    assume "?q \<in> region p (length t)"
    then obtain i where "i < length t" "p + of_nat i = ?q" by (auto simp: region_def)
    with n show False by (subst (asm) offset_eq_iff) auto
  qed
  then have "stored (m(?q := 0)) p t"
    using st stored_cong [of p t "m(?q := 0)" m] by (metis fun_upd_other)
  with z show "cstr_at (m(?q := 0)) p t" by (simp add: cstr_at_def stored_append)
  have w: "cstr_at m (?q + 1) w"
    using cstr_at_drop [OF s, of "Suc (length t)"] by (simp add: algebra_simps)
  have "?q \<notin> region (?q + 1) (Suc (length w))" using n by (intro notin_region_succ) simp
  then show "cstr_at (m(?q := 0)) (?q + 1) w"
    using w cstr_at_cong [of "?q + 1" w "m(?q := 0)" m] by (metis fun_upd_other)
qed

lemma pending_frame:
  assumes "pending m d ds p s" "\<And>a. a \<notin> area p s \<Longrightarrow> m' a = m a" "area q v \<subseteq> area p s"
    and "if q = 0 then v = [] else cstr_at m' q v"
  shows "pending m' d ds q v"
proof -
  have "cstr_at m' d ds = cstr_at m d ds"
    using assms(1,2) by (intro cstr_at_cong) (auto simp: pending_def)
  then show ?thesis using assms by (auto simp: pending_def)
qed

lemma next_token_some:
  assumes pend: "pending m d ds p s" and p: "p \<noteq> 0" and tok: "tokens ds s = t # ts"
  obtains r q m' v where "next_token m d p = Some (r, q, m')" "r \<noteq> 0" "cstr_at m' r t"
    "pending m' d ds q v" "tokens ds v = ts" "\<And>a. a \<notin> area p s \<Longrightarrow> m' a = m a"
    "area r t \<subseteq> area p s" "area q v \<subseteq> area p s" "area r t \<inter> area q v = {}"
proof -
  from tok obtain u w where s: "s = u @ t @ w" and t: "t \<noteq> []"
    and tu: "takeWhile (\<lambda>c. c \<in> set ds) s = u" and tt: "takeWhile (\<lambda>c. c \<notin> set ds) (t @ w) = t"
    and w: "w = [] \<and> ts = [] \<or> (\<exists>x w'. w = x # w' \<and> x \<in> set ds \<and> ts = tokens ds w')"
    by (rule tokens_parts)
  define r e where "r = p + of_nat (length u)" and "e = r + of_nat (length t)"
  have d: "cstr_at m d ds" "0 \<notin> region d (Suc (length ds))" and sm: "cstr_at m p s"
    and z: "0 \<notin> region p (Suc (length s))"
    using pend p by (auto simp: pending_def area_def)
  have tw: "cstr_at m r (t @ w)" using cstr_at_drop [OF sm, of "length u"] by (simp add: r_def s)
  have skip: "skip_delims m d p = Some r" using skip_delims_cstr [OF d sm] by (simp add: tu r_def)
  have "token_end m d r = Some e" using token_end_cstr [OF d tw] by (simp add: tt e_def)
  moreover have "m r \<noteq> 0" using tw t by (cases t) auto
  ultimately have nt: "next_token m d p
      = (if m e \<noteq> 0 then Some (r, e + 1, m(e := 0)) else Some (r, 0, m))"
    by (simp add: next_token_def skip)
  have r0: "r \<noteq> 0" and ps: "area p s = region p (Suc (length s))"
    using z region_nth [of "length u" "Suc (length s)" p] p by (auto simp: r_def s area_def)
  have rt: "area r t \<subseteq> area p s"
    using region_within [of "length u" "Suc (length t)" "Suc (length s)" p] r0
    by (simp add: area_def r_def s p)
  from w consider "w = []" "ts = []" | x w' where "w = x # w'" "x \<in> set ds" "ts = tokens ds w'"
    by blast
  then show ?thesis
  proof cases
    case 1
    then have "m e = 0" "cstr_at m r t" using tw cstr_at_end [OF tw] by (simp_all add: e_def)
    with nt r0 rt 1 pend show ?thesis
      by (intro that [of r 0 m "[]"])
        (auto simp: area_def tokens.simps intro: pending_frame [where m' = m])
  next
    case (2 x w')
    have x: "m e \<noteq> 0" using cstr_at_nth [OF tw, of "length t"] cstr_at_nonzero [OF tw]
      by (auto simp: e_def 2)
    have q: "e + 1 = p + of_nat (length u + length t + 1)" by (simp add: e_def r_def)
    have q0: "e + 1 \<noteq> 0" using z region_nth [of "length u + length t + 1" "Suc (length s)" p]
      by (auto simp: q s 2 simp del: of_nat_add)
    have "region (e + 1) (Suc (length w')) \<subseteq> region p (Suc (length s))"
      unfolding q by (rule region_within) (simp add: s 2)
    then have qv: "area (e + 1) w' \<subseteq> area p s" by (simp add: area_def q0 p)
    have "p + of_nat (length u + length t) \<in> region p (Suc (length s))"
      by (rule region_nth) (simp add: s)
    then have e: "e \<in> area p s" by (simp add: ps e_def r_def add.assoc)
    have "region r (Suc (length t)) \<inter> region (r + of_nat (Suc (length t))) (Suc (length w')) = {}"
      using cstr_at_length [OF tw] by (intro region_split_disjoint) (simp add: 2)
    then have dis: "area r t \<inter> area (e + 1) w' = {}"
      by (simp add: area_def e_def algebra_simps)
    have cut: "cstr_at (m(e := 0)) r t" "cstr_at (m(e := 0)) (e + 1) w'"
      using cut_string [of m r t x w'] tw by (simp_all add: 2 e_def)
    then have "pending (m(e := 0)) d ds (e + 1) w'"
      using e q0 by (intro pending_frame [OF pend _ qv]) auto
    then show ?thesis
      using nt x r0 rt qv dis cut(1) e 2 by (intro that [of r "e + 1" "m(e := 0)" w']) auto
  qed
qed

section \<open>A sequence of calls\<close>

lemma strtok_calls_saved:
  assumes "pending m d ds p s"
  shows "\<exists>rs q m'. strtok_calls (Suc (length (tokens ds s))) m 0 d p = Some (rs @ [0], q, m') \<and>
    list_all2 (cstr_at m') rs (tokens ds s) \<and> (\<forall>a. a \<notin> area p s \<longrightarrow> m' a = m a)"
  using assms
proof (induction "length (tokens ds s)" arbitrary: m p s)
  case 0
  have d: "d \<noteq> 0" using "0.prems" by (auto simp: pending_def region_Suc)
  show ?case
  proof (cases "p = 0")
    case True
    with 0 show ?thesis by (simp add: strtok_def)
  next
    case False
    with 0 d show ?thesis by (simp add: strtok_def next_token_none)
  qed
next
  case (Suc n)
  have d: "d \<noteq> 0" using Suc.prems by (auto simp: pending_def region_Suc)
  have p: "p \<noteq> 0" using Suc.prems Suc.hyps(2) by (auto simp: pending_def tokens.simps)
  obtain t ts where t: "tokens ds s = t # ts" using Suc.hyps(2) by (cases "tokens ds s") auto
  obtain r q m1 v where c: "next_token m d p = Some (r, q, m1)" "r \<noteq> 0" "cstr_at m1 r t"
    "pending m1 d ds q v" "tokens ds v = ts" "\<And>a. a \<notin> area p s \<Longrightarrow> m1 a = m a"
    "area r t \<subseteq> area p s" "area q v \<subseteq> area p s" "area r t \<inter> area q v = {}"
    using next_token_some [OF Suc.prems p t] by metis
  from Suc.hyps(1) [of v m1 q] Suc.hyps(2) c t obtain rs q' m2
    where IH: "strtok_calls (Suc (length ts)) m1 0 d q = Some (rs @ [0], q', m2)"
      "list_all2 (cstr_at m2) rs ts" "\<forall>a. a \<notin> area q v \<longrightarrow> m2 a = m1 a" by auto
  have "cstr_at m2 r t"
    using c(2,3,9) IH(3) cstr_at_cong [of r t m2 m1] by (auto simp: area_def)
  moreover have "\<forall>a. a \<notin> area p s \<longrightarrow> m2 a = m a" using IH(3) c(6,8) by auto
  moreover have "strtok m 0 d p = Some (r, q, m1)" using c(1) p d by (simp add: strtok_def)
  ultimately show ?case
    using IH(1,2) t by (intro exI [of _ "r # rs"] exI [of _ q'] exI [of _ m2]) simp
qed

lemma strtok_r_strtok:
  "delim \<noteq> 0 \<Longrightarrow> strtok_r m str delim (Some v)
     = map_option (\<lambda>(r, s, m'). (r, Some s, m')) (strtok m str delim v)"
  by (simp add: strtok_r_def strtok_def Let_def)

section \<open>The property\<close>

text \<open>
  C30. Tokenizing a string: of the first call with the string and as many further calls with
  a null pointer as the string has tokens, all return; the last one returns \<^verbatim>\<open>NULL\<close> and the
  others return, in order, pointers at which the finished memory holds the tokens, the runs of
  characters between delimiters.  The string and the delimiters are terminated, apart from each other
  and away from address 0.
\<close>

theorem strtok_tokens:
  assumes "cstr_at m p s" "cstr_at m d ds" "0 \<notin> region p (Suc (length s))"
    and "0 \<notin> region d (Suc (length ds))"
    and "region p (Suc (length s)) \<inter> region d (Suc (length ds)) = {}"
  shows "\<exists>rs q m'. strtok_calls (Suc (length (tokens ds s))) m p d save = Some (rs @ [0], q, m') \<and>
    list_all2 (cstr_at m') rs (tokens ds s)"
proof -
  have p: "p \<noteq> 0" using assms(3) by (auto simp: region_Suc)
  then have "strtok m p d save = strtok m 0 d p" by (simp add: strtok_def)
  then have "strtok_calls (Suc n) m p d save = strtok_calls (Suc n) m 0 d p" for n by simp
  moreover have "pending m d ds p s" using assms p by (simp add: pending_def area_def)
  ultimately show ?thesis using strtok_calls_saved [of m d ds p s] by metis
qed

theorem strtok_tokens_witness:
  "\<exists>rs q m'. strtok_calls 3 (write_bytes (write_bytes (\<lambda>_. 0) 16 [44, 97, 44, 98, 0]) 32 [44, 0])
      16 32 0 = Some (rs @ [0], q, m') \<and> list_all2 (cstr_at m') rs [[97], [98]]"
proof -
  have "tokens [44] [44, 97, 44, 98] = [[97], [98]]" by (simp add: tokens.simps)
  moreover from this have "Suc (length (tokens [44] [44, 97, 44, 98])) = 3" by simp
  ultimately show ?thesis
    using strtok_tokens [of "write_bytes (write_bytes (\<lambda>_. 0) 16 [44, 97, 44, 98, 0]) 32 [44, 0]"
      16 "[44, 97, 44, 98]" 32 "[44]" 0]
    by (simp add: region_Suc numeral_3_eq_3 del: strtok_calls.simps)
qed

end
