(* ===== verification/Utils_Conv.thy ===== *)
theory Utils_Conv
  imports Utils_String "HOL-Library.Signed_Division"
begin

text \<open>
  Number conversion of \<^verbatim>\<open>src/src/utils.c\<close> (lines 206 to 325): \<^verbatim>\<open>itoa\<close>, \<^verbatim>\<open>utoa\<close>, \<^verbatim>\<open>atoi\<close>,
  \<^verbatim>\<open>atol\<close>, \<^verbatim>\<open>htoi\<close>, \<^verbatim>\<open>btoi\<close>.  An \<^verbatim>\<open>int32_t\<close> is a \<open>u32\<close>; where the code divides it, the signed
  value is taken with \<^const>\<open>sint\<close> and divided with C's truncating division, \<open>sdiv\<close> and
  \<open>smod\<close>.  The three textual formats are instances of one interface, the locale
  \<open>num_codec\<close>: a printer and a parser that inverts it.
\<close>

section \<open>Printing\<close>

text \<open>\<^verbatim>\<open>(rem > 9) ? (rem - 10) + 'A' : rem + '0'\<close>, stored into a \<^verbatim>\<open>char\<close>.\<close>

definition digit_char :: "int \<Rightarrow> u8" where
  "digit_char rem = (if rem > 9 then word_of_int (rem - 10 + 65) else word_of_int (rem + 48))"

partial_function (option) itoa_loop :: "mem \<Rightarrow> u32 \<Rightarrow> int \<Rightarrow> int \<Rightarrow> (mem \<times> u32) option" where
  "itoa_loop m ptr num base =
     (if num \<noteq> 0
      then itoa_loop (m(ptr := digit_char (num smod base))) (ptr + 1) (num sdiv base) base
      else Some (m, ptr))"

definition itoa :: "mem \<Rightarrow> u32 \<Rightarrow> u32 \<Rightarrow> int \<Rightarrow> (u32 \<times> mem) option" where
  "itoa m value str base =
     (if str = 0 \<or> base < 2 \<or> base > 36 then Some (0, m)
      else if value = 0 then Some (str, m(str := 48, str + 1 := 0))
      else
        (let is_negative = (sint value < 0 \<and> base = 10);
             num = (if is_negative then sint (- value) else sint value)
         in case itoa_loop m str num base of None \<Rightarrow> None
            | Some (m1, ptr) \<Rightarrow>
                (let (m2, ptr2) = (if is_negative then (m1(ptr := 45), ptr + 1) else (m1, ptr))
                 in strrev (m2(ptr2 := 0)) str)))"

partial_function (option) utoa_loop :: "mem \<Rightarrow> u32 \<Rightarrow> u32 \<Rightarrow> u32 \<Rightarrow> (mem \<times> u32) option" where
  "utoa_loop m ptr value base =
     (if value \<noteq> 0
      then utoa_loop (m(ptr := digit_char (uint (value mod base)))) (ptr + 1) (value div base) base
      else Some (m, ptr))"

definition utoa :: "mem \<Rightarrow> u32 \<Rightarrow> u32 \<Rightarrow> int \<Rightarrow> (u32 \<times> mem) option" where
  "utoa m value str base =
     (if str = 0 \<or> base < 2 \<or> base > 36 then Some (0, m)
      else if value = 0 then Some (str, m(str := 48, str + 1 := 0))
      else case utoa_loop m str value (word_of_int base) of None \<Rightarrow> None
           | Some (m1, ptr) \<Rightarrow> strrev (m1(ptr := 0)) str)"

section \<open>Parsing\<close>

text \<open>A byte read through a \<^verbatim>\<open>char *\<close> is signed.\<close>

definition schar :: "u8 \<Rightarrow> int" where
  "schar c = sint c"

partial_function (option) skip_isspace :: "mem \<Rightarrow> u32 \<Rightarrow> u32 option" where
  "skip_isspace m str = (if isspace (schar (m str)) then skip_isspace m (str + 1) else Some str)"

partial_function (option) atoi_digits :: "mem \<Rightarrow> u32 \<Rightarrow> u32 \<Rightarrow> u32 option" where
  "atoi_digits m str result =
     (if isdigit (schar (m str))
      then atoi_digits m (str + 1) (result * 10 + word_of_int (schar (m str) - 48))
      else Some result)"

definition atoi :: "mem \<Rightarrow> u32 \<Rightarrow> u32 option" where
  "atoi m str =
     (if str = 0 then Some 0
      else case skip_isspace m str of None \<Rightarrow> None
        | Some s1 \<Rightarrow>
            (let (sign, s2) = (if m s1 = 45 then (- 1, s1 + 1)
                               else if m s1 = 43 then (1, s1 + 1) else (1, s1))
             in map_option (\<lambda>result. sign * result) (atoi_digits m s2 0)))"

definition atol :: "mem \<Rightarrow> u32 \<Rightarrow> u32 option" where
  "atol m str = atoi m str"

definition hex_value :: "u8 \<Rightarrow> u32 option" where
  "hex_value c =
     (if 48 \<le> schar c \<and> schar c \<le> 57 then Some (word_of_int (schar c - 48))
      else if 97 \<le> schar c \<and> schar c \<le> 102 then Some (word_of_int (schar c - 97 + 10))
      else if 65 \<le> schar c \<and> schar c \<le> 70 then Some (word_of_int (schar c - 65 + 10))
      else None)"

partial_function (option) htoi_loop :: "mem \<Rightarrow> u32 \<Rightarrow> u32 \<Rightarrow> u32 option" where
  "htoi_loop m str result =
     (if m str \<noteq> 0
      then (case hex_value (m str) of None \<Rightarrow> Some result
            | Some value \<Rightarrow> htoi_loop m (str + 1) (push_bit 4 result OR value))
      else Some result)"

definition htoi :: "mem \<Rightarrow> u32 \<Rightarrow> u32 option" where
  "htoi m str =
     (if str = 0 then Some 0
      else case skip_isspace m str of None \<Rightarrow> None
        | Some s1 \<Rightarrow>
            (let s2 = (if m s1 = 48 \<and> (m (s1 + 1) = 120 \<or> m (s1 + 1) = 88) then s1 + 2 else s1)
             in htoi_loop m s2 0))"

partial_function (option) btoi_loop :: "mem \<Rightarrow> u32 \<Rightarrow> u32 \<Rightarrow> u32 option" where
  "btoi_loop m str result =
     (if m str = 48 \<or> m str = 49
      then btoi_loop m (str + 1) (push_bit 1 result + word_of_int (schar (m str) - 48))
      else Some result)"

definition btoi :: "mem \<Rightarrow> u32 \<Rightarrow> u32 option" where
  "btoi m str =
     (if str = 0 then Some 0
      else case skip_isspace m str of None \<Rightarrow> None
        | Some s1 \<Rightarrow>
            (let s2 = (if m s1 = 48 \<and> (m (s1 + 1) = 98 \<or> m (s1 + 1) = 66) then s1 + 2 else s1)
             in btoi_loop m s2 0))"

section \<open>Digits\<close>

text \<open>The digits of a number, least significant first, and the number they denote.\<close>

function rdigits :: "nat \<Rightarrow> nat \<Rightarrow> nat list" where
  "rdigits b n = (if n = 0 \<or> b < 2 then [] else n mod b # rdigits b (n div b))"
  by pat_completeness auto
termination
  by (relation "measure snd") auto

declare rdigits.simps [simp del]

definition digit_byte :: "nat \<Rightarrow> u8" where
  "digit_byte d = digit_char (int d)"

definition show_nat :: "nat \<Rightarrow> nat \<Rightarrow> u8 list" where
  "show_nat b n = (if n = 0 then [48] else map digit_byte (rev (rdigits b n)))"

definition show_int :: "int \<Rightarrow> u8 list" where
  "show_int v = (if v < 0 then 45 # show_nat 10 (nat (- v)) else show_nat 10 (nat v))"

definition undigits :: "nat \<Rightarrow> nat list \<Rightarrow> nat" where
  "undigits b ds = foldl (\<lambda>acc d. acc * b + d) 0 ds"

lemma rdigits_bound: "2 \<le> b \<Longrightarrow> d \<in> set (rdigits b n) \<Longrightarrow> d < b"
proof (induction b n rule: rdigits.induct)
  case (1 b n)
  then show ?case
    by (auto simp: rdigits.simps [of b n] split: if_splits)
qed

lemma undigits_snoc: "undigits b (ds @ [d]) = undigits b ds * b + d"
  by (simp add: undigits_def)

lemma undigits_rev_rdigits: "2 \<le> b \<Longrightarrow> undigits b (rev (rdigits b n)) = n"
proof (induction b n rule: rdigits.induct)
  case (1 b n)
  show ?case
  proof (cases "n = 0")
    case True
    then show ?thesis by (simp add: rdigits.simps undigits_def)
  next
    case False
    with "1" have "undigits b (rev (rdigits b (n div b))) = n div b" by simp
    with False "1.prems" show ?thesis
      by (simp add: rdigits.simps [of b n] undigits_snoc)
  qed
qed

lemma rdigits_nonempty: "2 \<le> b \<Longrightarrow> 0 < n \<Longrightarrow> rdigits b n \<noteq> []"
  by (simp add: rdigits.simps)

lemma rdigits_length: "2 \<le> b \<Longrightarrow> n < 2 ^ k \<Longrightarrow> length (rdigits b n) \<le> k"
proof (induction k arbitrary: n)
  case (Suc k)
  have "n div b \<le> n div 2" using Suc.prems by (intro div_le_mono2) auto
  also have "\<dots> < 2 ^ k" using Suc.prems by (auto simp: less_mult_imp_div_less)
  finally have "length (rdigits b (n div b)) \<le> k" using Suc by simp
  then show ?case by (simp add: rdigits.simps [of b n])
qed (simp add: rdigits.simps)

lemma digit_byte_dec: "d < 10 \<Longrightarrow> digit_byte d = of_nat (d + 48)"
  by (simp add: digit_byte_def digit_char_def)

text \<open>What the parsers see of a printed digit, one digit at a time.\<close>

lemma digit_byte_table:
  "list_all (\<lambda>d. digit_byte d \<noteq> 0 \<and> digit_byte d \<noteq> 45 \<and> digit_byte d \<noteq> 43 \<and>
     digit_byte d \<noteq> 120 \<and> digit_byte d \<noteq> 88 \<and> \<not> isspace (schar (digit_byte d)) \<and>
     hex_value (digit_byte d) = Some (of_nat d) \<and>
     (d < 10 \<longrightarrow> isdigit (schar (digit_byte d)) \<and> schar (digit_byte d) = int d + 48 \<and>
        digit_byte d \<noteq> 98 \<and> digit_byte d \<noteq> 66)) [0..<16]"
  by code_simp

lemma digit_byte_cases:
  assumes "d < 16"
  shows "digit_byte d \<noteq> 0" "digit_byte d \<noteq> 45" "digit_byte d \<noteq> 43" "digit_byte d \<noteq> 120"
    "digit_byte d \<noteq> 88" "\<not> isspace (schar (digit_byte d))"
    "hex_value (digit_byte d) = Some (of_nat d)"
    "d < 10 \<Longrightarrow> isdigit (schar (digit_byte d))"
    "d < 10 \<Longrightarrow> schar (digit_byte d) = int d + 48"
    "d < 10 \<Longrightarrow> digit_byte d \<noteq> 98" "d < 10 \<Longrightarrow> digit_byte d \<noteq> 66"
  using digit_byte_table assms by (auto simp: list_all_iff)

lemma digit_byte_table36: "list_all (\<lambda>d. digit_byte d \<noteq> 0) [0..<36]"
  by code_simp

lemma digit_byte_nonzero: "d < 36 \<Longrightarrow> digit_byte d \<noteq> 0"
  using digit_byte_table36 by (auto simp: list_all_iff)

lemma rdigits_bytes: "2 \<le> b \<Longrightarrow> b \<le> 36 \<Longrightarrow> 0 \<notin> set (map digit_byte (rdigits b n))"
  using rdigits_bound [of b _ n] digit_byte_nonzero by fastforce

section \<open>The printing loops\<close>

lemma utoa_loop_digits:
  "2 \<le> b \<Longrightarrow> b \<le> 36 \<Longrightarrow>
   utoa_loop m ptr v (of_nat b) =
     Some (write_bytes m ptr (map digit_byte (rdigits b (unat v))),
           ptr + of_nat (length (rdigits b (unat v))))"
proof (induction "unat v" arbitrary: v m ptr rule: less_induct)
  case less
  have b1: "unat (of_nat b :: u32) = b"
    using less.prems by (simp add: unat_of_nat)
  then have b: "uint (of_nat b :: u32) = int b"
    by (metis uint_nat)
  show ?case
  proof (cases "v = 0")
    case True
    then show ?thesis by (simp add: utoa_loop.simps rdigits.simps)
  next
    case False
    then have "unat (v div of_nat b) < unat v"
      using less.prems b1 by (simp add: unat_div unat_gt_0)
    from less.hyps [OF this less.prems] False less.prems b b1 show ?thesis
      by (simp add: utoa_loop.simps [of m] rdigits.simps [of b "unat v"] unat_div unat_mod
          digit_byte_def uint_mod zmod_int algebra_simps unat_eq_zero)
  qed
qed

text \<open>
  The signed loop on a number of either sign: C's remainder has the sign of the dividend, so
  a negative number stores \<^verbatim>\<open>'0' - d\<close> for every digit \<open>d\<close>.
\<close>

lemma itoa_loop_digits:
  "2 \<le> b \<Longrightarrow> s = 1 \<or> s = - 1 \<Longrightarrow>
   itoa_loop m ptr (s * int n) (int b) =
     Some (write_bytes m ptr (map (\<lambda>d. digit_char (s * int d)) (rdigits b n)),
           ptr + of_nat (length (rdigits b n)))"
proof (induction n arbitrary: m ptr rule: less_induct)
  case (less n)
  show ?case
  proof (cases "n = 0")
    case True
    then show ?thesis by (simp add: itoa_loop.simps rdigits.simps)
  next
    case False
    then have "n div b < n" using less.prems by simp
    note IH = less.IH [OF this less.prems]
    have "(s * int n) smod int b = s * int (n mod b)" "(s * int n) sdiv int b = s * int (n div b)"
      using less.prems False
      by (auto simp: signed_divide_int_def signed_modulo_int_def zdiv_int zmod_int)
    with IH False less.prems show ?thesis
      by (auto simp: itoa_loop.simps [of m] rdigits.simps [of b n] algebra_simps)
  qed
qed

section \<open>The parsing loops\<close>

lemma of_nat_horner:
  "of_nat (foldl (\<lambda>acc d. acc * b + d) n ds) =
   foldl (\<lambda>acc d. acc * of_nat b + (of_nat d :: u32)) (of_nat n) ds"
  by (induction ds arbitrary: n) auto

lemma of_nat_undigits:
  "foldl (\<lambda>acc d. acc * of_nat b + (of_nat d :: u32)) 0 ds = of_nat (undigits b ds)"
  using of_nat_horner [of b 0 ds] by (simp add: undigits_def)

lemma atoi_digits_cstr:
  "cstr_at m p (map digit_byte ds) \<Longrightarrow> \<forall>d \<in> set ds. d < 10 \<Longrightarrow>
   atoi_digits m p acc = Some (foldl (\<lambda>acc d. acc * of_nat 10 + of_nat d) acc ds)"
proof (induction ds arbitrary: p acc)
  case Nil
  then show ?case by (simp add: atoi_digits.simps isdigit_def schar_def)
next
  case (Cons d ds)
  then show ?case
    by (simp add: atoi_digits.simps [of m p] digit_byte_cases isdigit_def)
qed

lemma push_or_digit: "d < 16 \<Longrightarrow> push_bit 4 (w :: u32) OR of_nat d = w * 16 + of_nat d"
proof -
  assume d: "d < 16"
  then have "take_bit 4 d = d" by (intro take_bit_nat_eq_self) simp
  then have "n < 4" if "bit d n" for n
    using that by (metis bit_take_bit_iff)
  then have "push_bit 4 w AND of_nat d = 0"
    by (intro bit_eqI) (fastforce simp: bit_simps)
  then show ?thesis
    using disjunctive_add_eq_or [of "push_bit 4 w" "of_nat d"] by (simp add: push_bit_eq_mult)
qed

lemma htoi_loop_cstr:
  "cstr_at m p (map digit_byte ds) \<Longrightarrow> \<forall>d \<in> set ds. d < 16 \<Longrightarrow>
   htoi_loop m p acc = Some (foldl (\<lambda>acc d. acc * of_nat 16 + of_nat d) acc ds)"
proof (induction ds arbitrary: p acc)
  case Nil
  then show ?case by (simp add: htoi_loop.simps)
next
  case (Cons d ds)
  then show ?case
    by (simp add: htoi_loop.simps [of m p] digit_byte_cases push_or_digit)
qed

lemma btoi_loop_cstr:
  "cstr_at m p (map digit_byte ds) \<Longrightarrow> \<forall>d \<in> set ds. d < 2 \<Longrightarrow>
   btoi_loop m p acc = Some (foldl (\<lambda>acc d. acc * of_nat 2 + of_nat d) acc ds)"
proof (induction ds arbitrary: p acc)
  case Nil
  then show ?case by (simp add: btoi_loop.simps)
next
  case (Cons d ds)
  then have "d = 0 \<or> d = 1" by auto
  with Cons show ?case
    by (auto simp: btoi_loop.simps [of m p] digit_byte_def digit_char_def schar_def
        push_bit_eq_mult mult.commute)
qed

lemma skip_isspace_stop: "\<not> isspace (schar (m p)) \<Longrightarrow> skip_isspace m p = Some p"
  by (simp add: skip_isspace.simps)

section \<open>Printers and parsers as one interface\<close>

text \<open>
  A printer \<open>show_num\<close> and a parser \<open>parse\<close> of C strings: what is printed is a C string of
  bounded length, and parsing it wherever it lies in memory gives the number back.
\<close>

locale num_codec =
  fixes show_num :: "'v \<Rightarrow> u8 list" and parse :: "mem \<Rightarrow> u32 \<Rightarrow> 'v option" and maxlen :: nat
  assumes show_wf: "0 \<notin> set (show_num v)" "length (show_num v) \<le> maxlen" "maxlen < 2 ^ 32"
    and parse_show: "p \<noteq> 0 \<Longrightarrow> cstr_at m p (show_num v) \<Longrightarrow> parse m p = Some v"
begin

lemma show_inj: "show_num v = show_num w \<Longrightarrow> v = w"
proof -
  assume eq: "show_num v = show_num w"
  have "length (show_num v) < 2 ^ 32" using show_wf(2) [of v] show_wf(3) by linarith
  then have c: "cstr_at (write_bytes (\<lambda>_. 0) 1 (show_num v @ [0])) 1 (show_num v)"
    using show_wf(1) by (intro cstr_at_write) auto
  have "parse (write_bytes (\<lambda>_. 0) 1 (show_num v @ [0])) 1 = Some v"
    by (rule parse_show [OF _ c]) simp
  moreover have "parse (write_bytes (\<lambda>_. 0) 1 (show_num v @ [0])) 1 = Some w"
    using c eq by (intro parse_show) auto
  ultimately show ?thesis by simp
qed

lemma parse_determines:
  "p \<noteq> 0 \<Longrightarrow> cstr_at m p (show_num v) \<Longrightarrow> parse m p = Some w \<longleftrightarrow> w = v"
  using parse_show by auto

lemma parse_after_write:
  "p \<noteq> 0 \<Longrightarrow> parse (write_bytes m p (show_num v @ [0])) p = Some v"
  using show_wf(2) [of v] show_wf(3) by (intro parse_show cstr_at_write show_wf) auto

end

lemma show_nat_digits:
  assumes "2 \<le> b" and "b \<le> 36"
  obtains ds where "show_nat b n = map digit_byte ds" "ds \<noteq> []" "\<forall>d \<in> set ds. d < b"
    "undigits b ds = n" "n < 2 ^ 32 \<Longrightarrow> length ds \<le> 32"
proof (cases "n = 0")
  case True
  have "show_nat b n = map digit_byte [0]"
    using True by (simp add: show_nat_def digit_byte_def digit_char_def)
  moreover have "undigits b [0] = n" using True by (simp add: undigits_def)
  ultimately show ?thesis using assms by (intro that [of "[0]"]) auto
next
  case False
  show ?thesis
  proof (rule that [of "rev (rdigits b n)"])
    show "show_nat b n = map digit_byte (rev (rdigits b n))" using False by (simp add: show_nat_def)
    show "rev (rdigits b n) \<noteq> []" using False assms by (simp add: rdigits_nonempty)
    show "\<forall>d \<in> set (rev (rdigits b n)). d < b" using assms rdigits_bound by auto
    show "undigits b (rev (rdigits b n)) = n" using assms by (simp add: undigits_rev_rdigits)
    show "length (rev (rdigits b n)) \<le> 32" if "n < 2 ^ 32"
      using rdigits_length [OF assms(1) that] by simp
  qed
qed

lemma show_nat_wf:
  assumes "2 \<le> b" and "b \<le> 36"
  shows "0 \<notin> set (show_nat b n)" and "n < 2 ^ 32 \<Longrightarrow> length (show_nat b n) \<le> 32"
  using show_nat_digits [OF assms, of n] assms(2)
  by (metis (no_types, lifting) digit_byte_nonzero image_iff le_trans less_le_trans list.set_map,
      metis length_map)

lemma show_int_wf: "0 \<notin> set (show_int v)" "\<bar>v\<bar> < 2 ^ 32 \<Longrightarrow> length (show_int v) \<le> 33"
  using show_nat_wf [of 10] by (auto simp: show_int_def intro: order_trans [of _ 32])

lemma atoi_show_int:
  assumes "p \<noteq> 0" and "cstr_at m p (show_int (sint v))"
  shows "atoi m p = Some v"
proof -
  have parse: "\<not> isspace (schar (m q)) \<and> m q \<noteq> 45 \<and> m q \<noteq> 43 \<and> atoi_digits m q 0 = Some (of_nat n)"
    if "cstr_at m q (show_nat 10 n)" for q n
  proof -
    obtain ds where ds: "show_nat 10 n = map digit_byte ds" "ds \<noteq> []" "\<forall>d \<in> set ds. d < 10"
      "undigits 10 ds = n"
      by (rule show_nat_digits [of 10 n]) auto
    then obtain d ds' where c: "ds = d # ds'" by (cases ds) auto
    then have "m q = digit_byte d" "d < 10" using that ds by auto
    with that ds show ?thesis
      using atoi_digits_cstr [of m q ds 0] of_nat_undigits [of 10 ds]
      by (simp add: digit_byte_cases isspace_def)
  qed
  show ?thesis
  proof (cases "sint v < 0")
    case True
    then have "m p = 45" "cstr_at m (p + 1) (show_nat 10 (nat (- sint v)))"
      using assms(2) by (auto simp: show_int_def)
    moreover have "- (of_nat (nat (- sint v)) :: u32) = v"
      using True by simp
    ultimately show ?thesis
      using assms(1) parse [of "p + 1"]
      by (simp add: atoi_def skip_isspace_stop isspace_def schar_def)
  next
    case False
    then have "cstr_at m p (show_nat 10 (nat (sint v)))" "(of_nat (nat (sint v)) :: u32) = v"
      using assms(2) by (auto simp: show_int_def)
    then show ?thesis
      using assms(1) parse [of p] by (simp add: atoi_def skip_isspace_stop)
  qed
qed

lemma htoi_show_nat:
  assumes "p \<noteq> 0" and "cstr_at m p (show_nat 16 (unat v))"
  shows "htoi m p = Some v"
proof -
  obtain ds where ds: "show_nat 16 (unat v) = map digit_byte ds" "ds \<noteq> []" "\<forall>d \<in> set ds. d < 16"
    "undigits 16 ds = unat v"
    by (rule show_nat_digits [of 16 "unat v"]) auto
  then obtain d ds' where c: "ds = d # ds'" by (cases ds) auto
  have "m p = digit_byte d" "d < 16" and tl: "cstr_at m (p + 1) (map digit_byte ds')"
    using assms(2) c ds by auto
  moreover have "m (p + 1) \<noteq> 120 \<and> m (p + 1) \<noteq> 88"
    using tl c ds(3) by (cases ds') (auto simp: digit_byte_cases)
  ultimately show ?thesis
    using assms ds htoi_loop_cstr [of m p ds 0] of_nat_undigits [of 16 ds]
    by (simp add: htoi_def skip_isspace_stop digit_byte_cases)
qed

lemma btoi_show_nat:
  assumes "p \<noteq> 0" and "cstr_at m p (show_nat 2 (unat v))"
  shows "btoi m p = Some v"
proof -
  obtain ds where ds: "show_nat 2 (unat v) = map digit_byte ds" "ds \<noteq> []" "\<forall>d \<in> set ds. d < 2"
    "undigits 2 ds = unat v"
    by (rule show_nat_digits [of 2 "unat v"]) auto
  then obtain d ds' where c: "ds = d # ds'" by (cases ds) auto
  have "m p = digit_byte d" "d < 16" and tl: "cstr_at m (p + 1) (map digit_byte ds')"
    using assms(2) c ds by auto
  moreover have "m (p + 1) \<noteq> 98 \<and> m (p + 1) \<noteq> 66"
    using tl c ds(3) by (cases ds') (auto simp: digit_byte_cases)
  ultimately show ?thesis
    using assms ds btoi_loop_cstr [of m p ds 0] of_nat_undigits [of 2 ds]
    by (simp add: btoi_def skip_isspace_stop digit_byte_cases)
qed

interpretation dec: num_codec "\<lambda>v :: u32. show_int (sint v)" atoi 33
proof
  fix v :: u32
  show "0 \<notin> set (show_int (sint v))" by (rule show_int_wf)
  have "\<bar>sint v\<bar> < 2 ^ 32"
    using sint_lt [of v] sint_ge [of v] by simp
  then show "length (show_int (sint v)) \<le> 33" by (rule show_int_wf)
qed (auto intro: atoi_show_int)

interpretation hex: num_codec "\<lambda>v :: u32. show_nat 16 (unat v)" htoi 32
  by unfold_locales (use show_nat_wf [of 16] u32_bound in \<open>auto intro: htoi_show_nat\<close>)

interpretation bin: num_codec "\<lambda>v :: u32. show_nat 2 (unat v)" btoi 32
  by unfold_locales (use show_nat_wf [of 2] u32_bound in \<open>auto intro: btoi_show_nat\<close>)

section \<open>What the printers leave in memory\<close>

text \<open>The last step of both printers: terminate the collected digits and reverse them.\<close>

lemma strrev_written:
  assumes "p \<noteq> 0" and "0 \<notin> set cs" and "unat p + length cs < 2 ^ 32"
  shows "\<exists>m'. strrev ((write_bytes m p cs)(p + of_nat (length cs) := 0)) p = Some (p, m') \<and>
    cstr_at m' p (rev cs) \<and> (\<forall>a. a \<notin> region p (Suc (length cs)) \<longrightarrow> m' a = m a)"
proof -
  let ?m = "write_bytes m p (cs @ [0])"
  have eq: "(write_bytes m p cs)(p + of_nat (length cs) := 0) = ?m"
    by (simp add: write_bytes_append)
  have c: "cstr_at ?m p cs"
    using assms by (intro cstr_at_write) auto
  have "write_bytes ?m p (rev cs) a = m a" if "a \<notin> region p (Suc (length cs))" for a
    using that region_mono [of "length cs" "Suc (length cs)" p]
    by (subst write_bytes_frame) (auto simp: write_bytes_frame)
  with strrev_cstr [OF assms(1) c assms(3)] eq show ?thesis by auto
qed

lemma u32_neg_sint: "v \<noteq> 0x80000000 \<Longrightarrow> sint (- v :: u32) = - sint v"
proof -
  assume v: "v \<noteq> 0x80000000"
  have "sint v \<noteq> - (2 ^ 31)"
  proof
    assume "sint v = - (2 ^ 31)"
    then have "v = word_of_int (- (2 ^ 31))" by (metis of_int_sint scast_id)
    with v show False by simp
  qed
  with sint_lt [of v] sint_ge [of v] show ?thesis
    by (subst sint_word_ariths) (simp add: signed_take_bit_int_eq_self)
qed

lemma itoa_show_int:
  assumes "p \<noteq> 0" and "v \<noteq> 0x80000000" and "unat p + 34 \<le> 2 ^ 32"
  shows "\<exists>m'. itoa m v p 10 = Some (p, m') \<and> cstr_at m' p (show_int (sint v)) \<and>
    (\<forall>a. a \<notin> region p (Suc (length (show_int (sint v)))) \<longrightarrow> m' a = m a)"
proof (cases "v = 0")
  case True
  then show ?thesis
    using assms notin_region_succ [of 1 p]
    by (auto simp: itoa_def show_int_def show_nat_def region_Suc)
next
  case False
  define n where "n = nat \<bar>sint v\<bar>"
  define cs where "cs = map digit_byte (rdigits 10 n) @ (if sint v < 0 then [45] else [])"
  have sv: "sint v \<noteq> 0" using False by (simp add: signed_eq_0_iff)
  have n: "n < 2 ^ 32" "n \<noteq> 0" using sint_lt [of v] sint_ge [of v] sv by (auto simp: n_def)
  have num: "(if sint v < 0 then sint (- v) else sint v) = 1 * int n"
    using assms(2) by (auto simp: n_def u32_neg_sint)
  have "itoa m v p 10 =
      strrev ((write_bytes m p cs)(p + of_nat (length cs) := 0)) p"
    using itoa_loop_digits [of 10 1 m p n] num False assms(1)
    by (auto simp: itoa_def cs_def write_bytes_append digit_byte_def algebra_simps
        digit_byte_def [abs_def])
  moreover have "rev cs = show_int (sint v)"
    using n sv by (auto simp: cs_def show_int_def show_nat_def n_def rev_map)
  moreover have "0 \<notin> set cs"
    using rdigits_bytes [of 10 n] by (simp add: cs_def)
  moreover have "length cs \<le> 33"
    using rdigits_length [of 10 n 32] n by (auto simp: cs_def)
  ultimately show ?thesis
    using strrev_written [OF assms(1), of cs m] assms(3) by (auto simp flip: length_rev [of cs])
qed

lemma utoa_show_nat:
  assumes "p \<noteq> 0" and "2 \<le> b" and "b \<le> 36" and "unat p + 33 \<le> 2 ^ 32"
  shows "\<exists>m'. utoa m v p (int b) = Some (p, m') \<and> cstr_at m' p (show_nat b (unat v)) \<and>
    (\<forall>a. a \<notin> region p (Suc (length (show_nat b (unat v)))) \<longrightarrow> m' a = m a)"
proof (cases "v = 0")
  case True
  then show ?thesis
    using assms notin_region_succ [of 1 p]
    by (auto simp: utoa_def show_nat_def region_Suc)
next
  case False
  define cs where "cs = map digit_byte (rdigits b (unat v))"
  have "utoa m v p (int b) = strrev ((write_bytes m p cs)(p + of_nat (length cs) := 0)) p"
    using utoa_loop_digits [OF assms(2,3), of m p v] False assms
    by (simp add: utoa_def cs_def)
  moreover have "rev cs = show_nat b (unat v)"
    using False by (simp add: cs_def show_nat_def rev_map unat_eq_zero)
  moreover have "0 \<notin> set cs"
    using rdigits_bytes [OF assms(2,3)] by (simp add: cs_def)
  moreover have "length cs \<le> 32"
    using rdigits_length [of b "unat v" 32] assms u32_bound by (simp add: cs_def)
  ultimately show ?thesis
    using strrev_written [OF assms(1), of cs m] assms(4) by (auto simp flip: length_rev [of cs])
qed

section \<open>Properties\<close>

text \<open>
  C31.  Decimal round trip.  For every \<^verbatim>\<open>int32_t\<close> other than \<open>- 2\<^sup>3\<^sup>1\<close>, \<^verbatim>\<open>itoa(v, p, 10)\<close> returns
  \<^verbatim>\<open>p\<close>, leaves the decimal representation of \<^verbatim>\<open>v\<close> as a C string there, changes no byte outside
  it, and \<^verbatim>\<open>atoi\<close> reads the value back.
\<close>

theorem itoa_atoi_roundtrip:
  assumes "p \<noteq> 0" and "v \<noteq> 0x80000000" and "unat p + 34 \<le> 2 ^ 32"
  shows "\<exists>m'. itoa m v p 10 = Some (p, m') \<and> cstr_at m' p (show_int (sint v)) \<and>
    (\<forall>a. a \<notin> region p (Suc (length (show_int (sint v)))) \<longrightarrow> m' a = m a) \<and>
    atoi m' p = Some v"
  using itoa_show_int [OF assms] dec.parse_show [OF assms(1)] by blast

theorem itoa_atoi_roundtrip_witness:
  "\<exists>m'. itoa (\<lambda>_. 7) (- 42) 0x100 10 = Some (0x100, m') \<and> atoi m' 0x100 = Some (- 42)"
  using itoa_atoi_roundtrip [of "0x100" "- 42" "\<lambda>_. 7"] by auto

text \<open>
  Unsigned round trip in bases 16 and 2.  \<^verbatim>\<open>utoa\<close> prints every \<^verbatim>\<open>uint32_t\<close>; \<^verbatim>\<open>htoi\<close> and
  \<^verbatim>\<open>btoi\<close> read the hexadecimal and the binary text back.
\<close>

theorem utoa_htoi_btoi_roundtrip:
  assumes "p \<noteq> 0" and "unat p + 33 \<le> 2 ^ 32"
  shows "(\<exists>m'. utoa m v p 16 = Some (p, m') \<and> cstr_at m' p (show_nat 16 (unat v)) \<and>
      htoi m' p = Some v) \<and>
    (\<exists>m'. utoa m v p 2 = Some (p, m') \<and> cstr_at m' p (show_nat 2 (unat v)) \<and>
      btoi m' p = Some v)"
  using utoa_show_nat [OF assms(1), of 16 m v] utoa_show_nat [OF assms(1), of 2 m v]
    hex.parse_show [OF assms(1)] bin.parse_show [OF assms(1)] assms(2) by simp blast

theorem utoa_htoi_btoi_roundtrip_witness:
  "(\<exists>m'. utoa (\<lambda>_. 0) 0xBEEF 0x100 16 = Some (0x100, m') \<and> htoi m' 0x100 = Some 0xBEEF) \<and>
   (\<exists>m'. utoa (\<lambda>_. 0) 0xBEEF 0x100 2 = Some (0x100, m') \<and> btoi m' 0x100 = Some 0xBEEF)"
  using utoa_htoi_btoi_roundtrip [of "0x100" "\<lambda>_. 0" "0xBEEF"] by auto

text \<open>
  Negative numbers whose magnitude the loop cannot take.  For \<open>- 2\<^sup>3\<^sup>1\<close> the negation wraps,
  so the loop runs on a negative number and every decimal digit \<open>d\<close> comes out as the character
  \<^verbatim>\<open>'0' - d\<close>: the result is not a number, and \<^verbatim>\<open>atoi\<close> reads 0 from it.
\<close>

theorem itoa_int_min:
  assumes "p \<noteq> 0" and "unat p + 34 \<le> 2 ^ 32"
  shows "\<exists>m'. itoa m 0x80000000 p 10 = Some (p, m') \<and>
    cstr_at m' p (lit ''-./,),(-*,('') \<and> atoi m' p = Some 0"
proof -
  define cs where "cs = map (\<lambda>d. digit_char (- int d)) (rdigits 10 2147483648) @ [45]"
  have cs: "rev cs = lit ''-./,),(-*,(''"
    by (simp add: cs_def rdigits.simps digit_char_def lit_def)
  have "(0x80000000 :: u32) \<noteq> 0" by simp
  then have "itoa m 0x80000000 p 10 = strrev ((write_bytes m p cs)(p + of_nat (length cs) := 0)) p"
    using itoa_loop_digits [of 10 "- 1" m p 2147483648] assms(1)
    by (simp add: itoa_def cs_def write_bytes_append algebra_simps)
  moreover have "length cs = 11" "0 \<notin> set cs"
    using arg_cong [OF cs, of length] arg_cong [OF cs, of set] by (auto simp: lit_def)
  ultimately obtain m' where m': "itoa m 0x80000000 p 10 = Some (p, m')"
    "cstr_at m' p (lit ''-./,),(-*,('')"
    using strrev_written [OF assms(1), of cs m] assms(2) cs by auto
  then have "atoi m' p = Some 0"
    using assms(1)
    by (simp add: lit_def atoi_def skip_isspace_stop isspace_def schar_def atoi_digits.simps
        isdigit_def)
  with m' show ?thesis by blast
qed

theorem itoa_int_min_witness:
  "\<exists>m'. itoa (\<lambda>_. 0) 0x80000000 0x100 10 = Some (0x100, m') \<and> atoi m' 0x100 = Some 0"
  using itoa_int_min [of "0x100" "\<lambda>_. 0"] by auto

end
