(* ===== verification/Disk_ATA.thy ===== *)
theory Disk_ATA
  imports C_Prelude
begin

text \<open>
  The interrupt and disk handlers of \<^verbatim>\<open>src/src/handlers.c\<close>: interrupt-controller set-up, the
  timer tick and ATA PIO reads and writes.  The machine's I/O ports are not part of the
  repository: they are a parameter, a record \<open>port_io\<close> of the four port instructions over
  an arbitrary device state.  What the driver relies on is stated as the locale \<open>ata_drive\<close>:
  the device behaves, seen through an abstraction function, like the PIO protocol of the ATA
  standard, with a latency that may differ from command to command but stays under a bound.
  Over it the read and write routines are proved to transfer sectors, which makes them an
  instance of the interface \<open>block_device\<close> on which the file system builds.
\<close>

section \<open>Port input and output\<close>

record 'd port_io =
  inb :: "u16 \<Rightarrow> 'd \<Rightarrow> u8 \<times> 'd"
  outb :: "u16 \<Rightarrow> u8 \<Rightarrow> 'd \<Rightarrow> 'd"
  insw :: "u16 \<Rightarrow> nat \<Rightarrow> 'd \<Rightarrow> u16 list \<times> 'd"
  outsw :: "u16 \<Rightarrow> u16 list \<Rightarrow> 'd \<Rightarrow> 'd"

text \<open>The 16-bit words of a little-endian byte buffer, and back.\<close>

fun words_bytes :: "u16 list \<Rightarrow> u8 list" where
  "words_bytes [] = []"
| "words_bytes (w # ws) = ucast w # ucast (drop_bit 8 w) # words_bytes ws"

fun bytes_words :: "u8 list \<Rightarrow> u16 list" where
  "bytes_words (a # b # bs) = (ucast a OR push_bit 8 (ucast b)) # bytes_words bs"
| "bytes_words [a] = [ucast a]"
| "bytes_words [] = []"

section \<open>Handlers\<close>

definition ATA_DATA :: u16 where "ATA_DATA = 0x1F0"
definition ATA_SECTOR_COUNT :: u16 where "ATA_SECTOR_COUNT = 0x1F2"
definition ATA_LBA_LOW :: u16 where "ATA_LBA_LOW = 0x1F3"
definition ATA_LBA_MID :: u16 where "ATA_LBA_MID = 0x1F4"
definition ATA_LBA_HIGH :: u16 where "ATA_LBA_HIGH = 0x1F5"
definition ATA_DRIVE_HEAD :: u16 where "ATA_DRIVE_HEAD = 0x1F6"
definition ATA_STATUS :: u16 where "ATA_STATUS = 0x1F7"
definition ATA_COMMAND :: u16 where "ATA_COMMAND = 0x1F7"
definition ATA_SR_BSY :: u8 where "ATA_SR_BSY = 0x80"
definition ATA_SR_DRQ :: u8 where "ATA_SR_DRQ = 0x08"
definition ATA_SR_ERR :: u8 where "ATA_SR_ERR = 0x01"

lemmas ata_consts = ATA_DATA_def ATA_SECTOR_COUNT_def ATA_LBA_LOW_def ATA_LBA_MID_def
  ATA_LBA_HIGH_def ATA_DRIVE_HEAD_def ATA_STATUS_def ATA_COMMAND_def ATA_SR_BSY_def
  ATA_SR_DRQ_def ATA_SR_ERR_def

definition pic_remap :: "'d port_io \<Rightarrow> 'd \<Rightarrow> 'd" where
  "pic_remap io =
     outb io 0xA1 0xFF \<circ> outb io 0x21 0xFC \<circ> outb io 0xA1 0x01 \<circ> outb io 0x21 0x01 \<circ>
     outb io 0xA1 0x02 \<circ> outb io 0x21 0x04 \<circ> outb io 0xA1 0x28 \<circ> outb io 0x21 0x20 \<circ>
     outb io 0xA0 0x11 \<circ> outb io 0x20 0x11"

text \<open>The static \<^verbatim>\<open>timer_ticks\<close> is the state of the timer handler.\<close>

definition timer_handler :: "u32 \<Rightarrow> u32" where
  "timer_handler timer_ticks = timer_ticks + 1"

definition get_ticks :: "u32 \<Rightarrow> u32" where
  "get_ticks timer_ticks = timer_ticks"

section \<open>Polling\<close>

text \<open>
  \<^verbatim>\<open>while (timeout-- > 0) { status = inb(ATA_STATUS); ... break; }\<close>  The loops return the value
  of \<^verbatim>\<open>timeout\<close> after them (the failing test decrements it too); \<open>None\<close> is the return taken on
  the error bit.
\<close>

function wait_drq :: "'d port_io \<Rightarrow> int \<Rightarrow> 'd \<Rightarrow> int option \<times> 'd" where
  "wait_drq io timeout d =
     (if timeout > 0
      then (let (status, d') = inb io ATA_STATUS d
            in if status AND ATA_SR_ERR \<noteq> 0 then (None, d')
               else if status AND ATA_SR_BSY = 0 \<and> status AND ATA_SR_DRQ \<noteq> 0
               then (Some (timeout - 1), d')
               else wait_drq io (timeout - 1) d')
      else (Some (timeout - 1), d))"
  by pat_completeness auto
termination
  by (relation "measure (\<lambda>(io, t, d). nat t)") auto

function wait_not_bsy :: "'d port_io \<Rightarrow> int \<Rightarrow> 'd \<Rightarrow> int \<times> 'd" where
  "wait_not_bsy io timeout d =
     (if timeout > 0
      then (let (status, d') = inb io ATA_STATUS d
            in if status AND ATA_SR_BSY = 0 then (timeout - 1, d')
               else wait_not_bsy io (timeout - 1) d')
      else (timeout - 1, d))"
  by pat_completeness auto
termination
  by (relation "measure (\<lambda>(io, t, d). nat t)") auto

declare wait_drq.simps [simp del] wait_not_bsy.simps [simp del]

text \<open>\<^verbatim>\<open>for (int k = 0; k < 4; ++k) { (void)inb(ATA_STATUS); }\<close>\<close>

definition delay400 :: "'d port_io \<Rightarrow> 'd \<Rightarrow> 'd" where
  "delay400 io = ((\<lambda>d. snd (inb io ATA_STATUS d)) ^^ 4)"

definition drive_head :: "u32 \<Rightarrow> u8" where
  "drive_head lba = ucast (0xE0 OR (drop_bit 24 lba AND 0x0F))"

text \<open>The sector count, the address and the command, in the order the driver writes them.\<close>

definition issue_command :: "'d port_io \<Rightarrow> u32 \<Rightarrow> u32 \<Rightarrow> u8 \<Rightarrow> 'd \<Rightarrow> 'd" where
  "issue_command io lba count cmd =
     outb io ATA_COMMAND cmd \<circ>
     outb io ATA_LBA_HIGH (ucast (drop_bit 16 lba AND 0xFF)) \<circ>
     outb io ATA_LBA_MID (ucast (drop_bit 8 lba AND 0xFF)) \<circ>
     outb io ATA_LBA_LOW (ucast (lba AND 0xFF)) \<circ>
     outb io ATA_SECTOR_COUNT (ucast count)"

section \<open>Reading and writing sectors\<close>

text \<open>
  The result is the return code, what has been stored at \<^verbatim>\<open>buffer\<close> so far (512 bytes per
  sector), and the device.
\<close>

fun read_sectors :: "'d port_io \<Rightarrow> nat \<Rightarrow> u8 list \<Rightarrow> 'd \<Rightarrow> int \<times> u8 list \<times> 'd" where
  "read_sectors io 0 acc d = (0, acc, d)"
| "read_sectors io (Suc n) acc d =
     (case wait_drq io 100000 d of
        (None, d1) \<Rightarrow> (- 1, acc, d1)
      | (Some timeout, d1) \<Rightarrow>
          if timeout \<le> 0 then (- 1, acc, d1)
          else (let (ws, d2) = insw io ATA_DATA 256 d1
                in read_sectors io n (acc @ words_bytes ws) d2))"

definition disk_read_lba :: "'d port_io \<Rightarrow> u32 \<Rightarrow> u32 \<Rightarrow> 'd \<Rightarrow> int \<times> u8 list \<times> 'd" where
  "disk_read_lba io lba count d =
     (let d1 = outb io ATA_DRIVE_HEAD (drive_head lba) d;
          d2 = delay400 io (issue_command io lba count 0x20 d1)
      in read_sectors io (unat count) [] d2)"

fun write_sectors :: "'d port_io \<Rightarrow> nat \<Rightarrow> u8 list \<Rightarrow> 'd \<Rightarrow> int \<times> 'd" where
  "write_sectors io 0 buf d = (0, d)"
| "write_sectors io (Suc n) buf d =
     (case wait_drq io 1000000 d of
        (None, d1) \<Rightarrow> (- 1, d1)
      | (Some timeout, d1) \<Rightarrow>
          if timeout \<le> 0 then (- 1, d1)
          else (let d2 = outsw io ATA_DATA (bytes_words (take 512 buf)) d1;
                    (timeout, d3) = wait_not_bsy io 1000000 d2
                in if timeout \<le> 0 then (- 1, d3)
                   else write_sectors io n (drop 512 buf) d3))"

definition disk_write_lba :: "'d port_io \<Rightarrow> u32 \<Rightarrow> u32 \<Rightarrow> u8 list \<Rightarrow> 'd \<Rightarrow> int \<times> 'd" where
  "disk_write_lba io lba count buffer d =
     (let d1 = outb io ATA_DRIVE_HEAD (drive_head lba) d;
          (timeout, d2) = wait_not_bsy io 1000000 d1
      in if timeout \<le> 0 then (- 1, d2)
         else (let d3 = delay400 io (issue_command io lba count 0x30 d2);
                   (r, d4) = write_sectors io (unat count) buffer d3
               in if r \<noteq> 0 then (r, d4)
                  else (let d5 = outb io ATA_COMMAND 0xE7 d4;
                            (_, d6) = wait_not_bsy io 1000000 d5
                        in (0, d6))))"

section \<open>The interface of a block device\<close>

text \<open>
  What the file system relies on: sectors of 512 bytes at logical addresses below \<open>2\<^sup>2\<^sup>8\<close>; a
  read returns what was written last and changes nothing; \<open>ok\<close> is the device's own
  invariant.
\<close>

locale block_device =
  fixes rd :: "u32 \<Rightarrow> u32 \<Rightarrow> 'd \<Rightarrow> int \<times> u8 list \<times> 'd"
    and wr :: "u32 \<Rightarrow> u32 \<Rightarrow> u8 list \<Rightarrow> 'd \<Rightarrow> int \<times> 'd"
    and ok :: "'d \<Rightarrow> bool" and sector :: "'d \<Rightarrow> nat \<Rightarrow> u8 list"
  assumes sector_length: "ok d \<Longrightarrow> length (sector d i) = 512"
    and rd_ok: "ok d \<Longrightarrow> unat lba < 2 ^ 28 \<Longrightarrow>
      \<exists>d'. rd lba 1 d = (0, sector d (unat lba), d') \<and> ok d' \<and> sector d' = sector d"
    and wr_ok: "ok d \<Longrightarrow> unat lba < 2 ^ 28 \<Longrightarrow> length buf = 512 \<Longrightarrow>
      \<exists>d'. wr lba 1 buf d = (0, d') \<and> ok d' \<and> sector d' = (sector d)(unat lba := buf)"
begin

lemma rd_after_wr:
  assumes "ok d" "unat lba < 2 ^ 28" "length buf = 512"
  shows "\<exists>d' d''. wr lba 1 buf d = (0, d') \<and> rd lba 1 d' = (0, buf, d'') \<and> ok d''"
proof -
  obtain d' where d': "wr lba 1 buf d = (0, d')" "ok d'" "sector d' = (sector d)(unat lba := buf)"
    using wr_ok [OF assms] by blast
  obtain d'' where "rd lba 1 d' = (0, sector d' (unat lba), d'')" "ok d''"
    using rd_ok [OF d'(2) assms(2)] by blast
  with d' show ?thesis by simp
qed

lemma rd_after_wr_other:
  assumes "ok d" "unat lba < 2 ^ 28" "length buf = 512" "unat k < 2 ^ 28" "k \<noteq> lba"
  shows "\<exists>d' d''. wr lba 1 buf d = (0, d') \<and> rd k 1 d' = (0, sector d (unat k), d'')"
proof -
  obtain d' where d': "wr lba 1 buf d = (0, d')" "ok d'" "sector d' = (sector d)(unat lba := buf)"
    using wr_ok [OF assms(1-3)] by blast
  obtain d'' where "rd k 1 d' = (0, sector d' (unat k), d'')"
    using rd_ok [OF d'(2) assms(4)] by blast
  with d' assms(5) show ?thesis by (auto simp: word_unat_eq_iff)
qed

end

section \<open>The PIO protocol of a drive\<close>

text \<open>
  The documented behaviour of an ATA drive as a programmer sees it: the command block
  registers, the transfer phase, the number of status reads for which it will still report
  busy, and the medium.
\<close>

datatype ata_phase = Idle | DataIn nat nat | DataOut nat nat

record ata_view =
  r_head :: u8
  r_count :: u8
  r_low :: u8
  r_mid :: u8
  r_high :: u8
  phase :: ata_phase
  busy :: nat
  medium :: "nat \<Rightarrow> u8 list"

definition ata_lba :: "ata_view \<Rightarrow> nat" where
  "ata_lba v = unat (r_low v) + 2 ^ 8 * unat (r_mid v) + 2 ^ 16 * unat (r_high v)
     + 2 ^ 24 * (unat (r_head v) mod 16)"

definition ata_count :: "ata_view \<Rightarrow> nat" where
  "ata_count v = (if r_count v = 0 then 256 else unat (r_count v))"

definition ata_status :: "ata_view \<Rightarrow> u8" where
  "ata_status v = (if busy v > 0 then 0x80 else if phase v = Idle then 0x50 else 0x58)"

text \<open>A write of \<open>x\<close> to the port \<open>p\<close>; \<open>b\<close> is the latency of the command it may start.\<close>

definition ata_out :: "nat \<Rightarrow> u16 \<Rightarrow> u8 \<Rightarrow> ata_view \<Rightarrow> ata_view" where
  "ata_out b p x v =
     (if p = 0x1F6 then v\<lparr>r_head := x\<rparr>
      else if p = 0x1F2 then v\<lparr>r_count := x\<rparr>
      else if p = 0x1F3 then v\<lparr>r_low := x\<rparr>
      else if p = 0x1F4 then v\<lparr>r_mid := x\<rparr>
      else if p = 0x1F5 then v\<lparr>r_high := x\<rparr>
      else if x = 0x20 then v\<lparr>phase := DataIn (ata_lba v) (ata_count v), busy := b\<rparr>
      else if x = 0x30 then v\<lparr>phase := DataOut (ata_lba v) (ata_count v), busy := b\<rparr>
      else v\<lparr>busy := b\<rparr>)"

text \<open>
  The laws of a drive: seen through \<open>view\<close> it follows the protocol, and no command keeps it
  busy for more than \<open>lat\<close> status reads.
\<close>

locale ata_drive =
  fixes io :: "'d port_io" and view :: "'d \<Rightarrow> ata_view" and lat :: nat
  assumes lat_bound: "lat + 2 \<le> 100000"
    and medium_length: "length (medium (view d) i) = 512"
    and status_read: "fst (inb io 0x1F7 d) = ata_status (view d)"
      "view (snd (inb io 0x1F7 d)) = (view d)\<lparr>busy := busy (view d) - 1\<rparr>"
    and reg_write: "0x1F2 \<le> p \<Longrightarrow> p \<le> 0x1F7 \<Longrightarrow> busy (view d) = 0 \<Longrightarrow> phase (view d) = Idle \<Longrightarrow>
      \<exists>b\<le>lat. view (outb io p x d) = ata_out b p x (view d)"
    and data_in: "phase (view d) = DataIn l (Suc n) \<Longrightarrow> busy (view d) = 0 \<Longrightarrow>
      \<exists>b\<le>lat. words_bytes (fst (insw io 0x1F0 256 d)) = medium (view d) l \<and>
        view (snd (insw io 0x1F0 256 d)) =
          (view d)\<lparr>phase := if n = 0 then Idle else DataIn (l + 1) n, busy := if n = 0 then 0 else b\<rparr>"
    and data_out: "phase (view d) = DataOut l (Suc n) \<Longrightarrow> busy (view d) = 0 \<Longrightarrow> length ws = 256 \<Longrightarrow>
      \<exists>b\<le>lat. view (outsw io 0x1F0 ws d) =
          (view d)\<lparr>phase := if n = 0 then Idle else DataOut (l + 1) n, busy := b,
            medium := (medium (view d))(l := words_bytes ws)\<rparr>"
begin

definition ready :: "'d \<Rightarrow> bool" where
  "ready d \<longleftrightarrow> busy (view d) = 0 \<and> phase (view d) = Idle"

lemma wait_drq_view:
  "phase (view d) \<noteq> Idle \<Longrightarrow> int (busy (view d)) + 1 < t \<Longrightarrow>
   \<exists>t' d'. wait_drq io t d = (Some t', d') \<and> 0 < t' \<and> view d' = (view d)\<lparr>busy := 0\<rparr>"
proof (induction "busy (view d)" arbitrary: d t)
  case 0
  then show ?case
    using status_read [of d]
    by (auto simp: wait_drq.simps [of io t d] ata_consts ata_status_def split: prod.split)
next
  case (Suc n)
  have busy: "busy (view d) = Suc n" using Suc.hyps(2) by simp
  define d1 where "d1 = snd (inb io 0x1F7 d)"
  have d1: "view d1 = (view d)\<lparr>busy := n\<rparr>" "inb io 0x1F7 d = (0x80, d1)"
    using status_read [of d] busy by (simp_all add: d1_def ata_status_def prod_eq_iff)
  then obtain t' d' where "wait_drq io (t - 1) d1 = (Some t', d')" "0 < t'"
    "view d' = (view d1)\<lparr>busy := 0\<rparr>"
    using Suc.hyps(1) [of d1 "t - 1"] Suc.prems busy by auto
  with d1 Suc.prems show ?case
    by (auto simp: wait_drq.simps [of io t d] ata_consts)
qed

lemma wait_not_bsy_view:
  "int (busy (view d)) + 1 < t \<Longrightarrow>
   \<exists>t' d'. wait_not_bsy io t d = (t', d') \<and> 0 < t' \<and> view d' = (view d)\<lparr>busy := 0\<rparr>"
proof (induction "busy (view d)" arbitrary: d t)
  case 0
  define d1 where "d1 = snd (inb io 0x1F7 d)"
  have "inb io 0x1F7 d = (if phase (view d) = Idle then 0x50 else 0x58, d1)"
    using status_read(1) [of d] 0 by (simp add: prod_eq_iff d1_def ata_status_def)
  moreover have "view d1 = (view d)\<lparr>busy := 0\<rparr>"
    using status_read(2) [of d] 0 by (simp add: d1_def)
  ultimately show ?case
    using 0 by (subst wait_not_bsy.simps) (simp add: ata_consts Let_def)
next
  case (Suc n)
  have busy: "busy (view d) = Suc n" using Suc.hyps(2) by simp
  define d1 where "d1 = snd (inb io 0x1F7 d)"
  have d1: "view d1 = (view d)\<lparr>busy := n\<rparr>" "inb io 0x1F7 d = (0x80, d1)"
    using status_read [of d] busy by (simp_all add: d1_def ata_status_def prod_eq_iff)
  have "n = busy (view d1)" "int (busy (view d1)) + 1 < t - 1"
    using d1 Suc.prems busy by auto
  from Suc.hyps(1) [OF this] d1 Suc.prems busy show ?case
    by (subst wait_not_bsy.simps) (simp add: ata_consts Let_def)
qed

lemma delay400_view: "view (delay400 io d) = (view d)\<lparr>busy := busy (view d) - 4\<rparr>"
  by (simp add: delay400_def numeral_eq_Suc ATA_STATUS_def status_read)

lemma reg_write_keep:
  assumes "ready d" and "p \<in> {0x1F2, 0x1F3, 0x1F4, 0x1F5, 0x1F6}"
  shows "view (outb io p x d) = ata_out 0 p x (view d)" and "ready (outb io p x d)"
proof -
  obtain b where "view (outb io p x d) = ata_out b p x (view d)"
    using reg_write [of p d x] assms by (auto simp: ready_def)
  then show "view (outb io p x d) = ata_out 0 p x (view d)"
    using assms(2) by (auto simp: ata_out_def)
  then show "ready (outb io p x d)"
    using assms by (auto simp: ready_def ata_out_def)
qed

lemma issue_view:
  assumes "ready d" and "cmd = 0x20 \<or> cmd = 0x30" and "r_head (view d) = drive_head lba"
  shows "\<exists>b\<le>lat. busy (view (issue_command io lba count cmd d)) = b \<and>
    medium (view (issue_command io lba count cmd d)) = medium (view d) \<and>
    phase (view (issue_command io lba count cmd d)) =
      (if cmd = 0x20 then DataIn else DataOut)
        (ata_lba (view d \<lparr>r_low := ucast (lba AND 0xFF), r_mid := ucast (drop_bit 8 lba AND 0xFF),
            r_high := ucast (drop_bit 16 lba AND 0xFF)\<rparr>))
        (ata_count (view d \<lparr>r_count := ucast count\<rparr>))"
proof -
  define d1 where "d1 = outb io 0x1F2 (ucast count) d"
  define d2 where "d2 = outb io 0x1F3 (ucast (lba AND 0xFF)) d1"
  define d3 where "d3 = outb io 0x1F4 (ucast (drop_bit 8 lba AND 0xFF)) d2"
  define d4 where "d4 = outb io 0x1F5 (ucast (drop_bit 16 lba AND 0xFF)) d3"
  have 1: "view d1 = (view d)\<lparr>r_count := ucast count\<rparr>" "ready d1"
    using reg_write_keep [OF assms(1), of "0x1F2"] by (simp_all add: d1_def ata_out_def)
  have 2: "view d2 = (view d1)\<lparr>r_low := ucast (lba AND 0xFF)\<rparr>" "ready d2"
    using reg_write_keep [OF 1(2), of "0x1F3"] by (simp_all add: d2_def ata_out_def)
  have 3: "view d3 = (view d2)\<lparr>r_mid := ucast (drop_bit 8 lba AND 0xFF)\<rparr>" "ready d3"
    using reg_write_keep [OF 2(2), of "0x1F4"] by (simp_all add: d3_def ata_out_def)
  have 4: "view d4 = (view d3)\<lparr>r_high := ucast (drop_bit 16 lba AND 0xFF)\<rparr>" "ready d4"
    using reg_write_keep [OF 3(2), of "0x1F5"] by (simp_all add: d4_def ata_out_def)
  obtain b where "b \<le> lat" "view (outb io 0x1F7 cmd d4) = ata_out b 0x1F7 cmd (view d4)"
    using reg_write [of "0x1F7" d4 cmd] 4(2) by (auto simp: ready_def)
  then show ?thesis
    using assms(2) unfolding issue_command_def ata_consts comp_apply
    unfolding d1_def [symmetric] d2_def [symmetric] d3_def [symmetric] d4_def [symmetric]
    by (auto simp: 1 2 3 4 ata_out_def ata_lba_def ata_count_def intro!: exI [of _ b])
qed

end

text \<open>The four address registers hold the 28-bit address.\<close>

lemma low_byte_unat: "unat (ucast (w AND 0xFF :: u32) :: u8) = unat w mod 2 ^ 8"
proof -
  have "w AND 0xFF = w mod 256"
    using take_bit_eq_mask [of 8 w] by (simp add: take_bit_eq_mod mask_eq_exp_minus_1)
  then show ?thesis
    by (simp add: unsigned_ucast_eq take_bit_eq_mod unat_mod)
qed

lemma drop_bit_unat: "unat (drop_bit k w :: u32) = unat w div 2 ^ k"
  by (simp only: unat_drop_bit_eq) (simp only: drop_bit_eq_div)

lemma drive_head_unat: "unat (drive_head lba) mod 16 = unat lba div 2 ^ 24 mod 16"
proof -
  have m: "drop_bit 24 lba AND 0x0F = take_bit 4 (drop_bit 24 lba)"
    using take_bit_eq_mask [of 4 "drop_bit 24 lba"] by (simp add: mask_eq_exp_minus_1)
  have "take_bit 4 (ucast w :: u8) = ucast (take_bit 4 w)" for w :: u32
    by (rule bit_eqI) (auto simp: bit_simps)
  then have "take_bit 4 (drive_head lba) = ucast (take_bit 4 (drop_bit 24 lba))"
    unfolding drive_head_def m by (simp add: take_bit_or)
  then have "unat (take_bit 4 (drive_head lba)) = unat (ucast (take_bit 4 (drop_bit 24 lba)) :: u8)"
    by simp
  then show ?thesis
    by (simp only: unsigned_take_bit_eq unsigned_ucast_eq drop_bit_unat)
      (simp add: take_bit_eq_mod mod_mod_cancel)
qed

lemma lba_registers:
  assumes "unat (lba :: u32) < 2 ^ 28"
  shows "unat (ucast (lba AND 0xFF) :: u8) + 2 ^ 8 * unat (ucast (drop_bit 8 lba AND 0xFF) :: u8)
    + 2 ^ 16 * unat (ucast (drop_bit 16 lba AND 0xFF) :: u8) + 2 ^ 24 * (unat (drive_head lba) mod 16)
    = unat lba"
proof -
  have split: "n mod 2 ^ 8 + 2 ^ 8 * (n div 2 ^ 8 mod 2 ^ 8) + 2 ^ 16 * (n div 2 ^ 16 mod 2 ^ 8)
      + 2 ^ 24 * (n div 2 ^ 24 mod 16) = n" if "n < 2 ^ 28" for n :: nat
  proof -
    define q1 q2 q3 where "q1 = n div 256" and "q2 = q1 div 256" and "q3 = q2 div 256"
    have q: "n div 2 ^ 8 = q1" "n div 2 ^ 16 = q2" "n div 2 ^ 24 = q3"
      by (simp_all add: q1_def q2_def q3_def div_mult2_eq [symmetric])
    have "n = n mod 256 + 256 * q1" "q1 = q1 mod 256 + 256 * q2" "q2 = q2 mod 256 + 256 * q3"
      unfolding q3_def q2_def q1_def by (simp_all only: mod_mult_div_eq)
    moreover have "q3 mod 16 = q3"
      using that q(3) by (intro mod_less) (simp add: less_mult_imp_div_less flip: q(3))
    ultimately show ?thesis unfolding q by simp
  qed
  show ?thesis
    using split [OF assms] by (simp only: low_byte_unat drop_bit_unat drive_head_unat)
qed

lemma words_bytes_length: "length (words_bytes ws) = 2 * length ws"
  by (induction ws) auto

lemma word_of_bytes:
  "(ucast (ucast a OR push_bit 8 (ucast b) :: u16) :: u8) = a"
  "(ucast (drop_bit 8 (ucast a OR push_bit 8 (ucast b) :: u16)) :: u8) = b" for a b :: u8
proof -
  show "(ucast (ucast a OR push_bit 8 (ucast b) :: u16) :: u8) = a"
    by (rule bit_eqI) (auto simp: bit_simps)
  have "\<not> bit a (8 + n)" for n using bit_imp_le_length [of a "8 + n"] by auto
  then show "(ucast (drop_bit 8 (ucast a OR push_bit 8 (ucast b) :: u16)) :: u8) = b"
    by (intro bit_eqI) (auto simp: bit_simps)
qed

lemma words_bytes_words:
  "even (length bs) \<Longrightarrow> words_bytes (bytes_words bs) = bs \<and> 2 * length (bytes_words bs) = length bs"
  by (induction bs rule: bytes_words.induct) (auto simp: word_of_bytes simp del: drop_bit_or)

text \<open>The medium after \<open>n\<close> consecutive sectors have been written from a buffer.\<close>

definition put_sectors :: "nat \<Rightarrow> nat \<Rightarrow> u8 list \<Rightarrow> (nat \<Rightarrow> u8 list) \<Rightarrow> nat \<Rightarrow> u8 list" where
  "put_sectors l n buf m = (\<lambda>i. if l \<le> i \<and> i < l + n then take 512 (drop (512 * (i - l)) buf) else m i)"

lemma put_sectors_0 [simp]: "put_sectors l 0 buf m = m"
  by (rule ext) (auto simp: put_sectors_def)

lemma put_sectors_Suc:
  "put_sectors l (Suc n) buf m = put_sectors (l + 1) n (drop 512 buf) (m(l := take 512 buf))"
proof
  fix i
  show "put_sectors l (Suc n) buf m i = put_sectors (l + 1) n (drop 512 buf) (m(l := take 512 buf)) i"
  proof (cases "i \<le> l")
    case False
    then have "512 * (i - l) = 512 * (i - Suc l) + 512" by (cases "i - l") auto
    with False show ?thesis by (simp add: put_sectors_def add.commute)
  qed (auto simp: put_sectors_def)
qed

context ata_drive
begin

lemma read_sectors_view:
  "phase (view d) = (if n = 0 then Idle else DataIn l n) \<Longrightarrow> busy (view d) \<le> lat \<Longrightarrow>
   (n = 0 \<longrightarrow> busy (view d) = 0) \<Longrightarrow>
   \<exists>d'. read_sectors io n acc d = (0, acc @ concat (map (medium (view d)) [l..<l + n]), d') \<and>
     ready d' \<and> medium (view d') = medium (view d)"
proof (induction n arbitrary: d l acc)
  case 0
  then show ?case by (auto simp: ready_def)
next
  case (Suc n)
  obtain t d1 where 1: "wait_drq io 100000 d = (Some t, d1)" "0 < t"
    "view d1 = (view d)\<lparr>busy := 0\<rparr>"
    using wait_drq_view [of d 100000] Suc.prems lat_bound by auto
  define d2 where "d2 = snd (insw io 0x1F0 256 d1)"
  define ws where "ws = fst (insw io 0x1F0 256 d1)"
  have i: "insw io 0x1F0 256 d1 = (ws, d2)" by (simp add: d2_def ws_def)
  obtain b where b: "b \<le> lat" "words_bytes ws = medium (view d) l"
    "view d2 = (view d1)\<lparr>phase := if n = 0 then Idle else DataIn (l + 1) n,
       busy := if n = 0 then 0 else b\<rparr>"
    using data_in [of d1 l n] 1 Suc.prems by (auto simp: d2_def ws_def)
  have m: "medium (view d2) = medium (view d)" using b 1 by simp
  have up: "[l..<l + Suc n] = l # [l + 1..<l + 1 + n]" by (simp add: upt_rec)
  obtain d' where "read_sectors io n (acc @ words_bytes ws) d2 =
      (0, (acc @ words_bytes ws) @ concat (map (medium (view d2)) [l + 1..<l + 1 + n]), d')"
    "ready d'" "medium (view d') = medium (view d2)"
  proof -
    have "phase (view d2) = (if n = 0 then Idle else DataIn (l + 1) n)" "busy (view d2) \<le> lat"
      "n = 0 \<longrightarrow> busy (view d2) = 0"
      using b by auto
    from Suc.IH [OF this, of "acc @ words_bytes ws"] that show ?thesis by blast
  qed
  with 1 i b m show ?case unfolding up by (simp add: ATA_DATA_def)
qed

lemma write_sectors_view:
  "phase (view d) = (if n = 0 then Idle else DataOut l n) \<Longrightarrow> busy (view d) \<le> lat \<Longrightarrow>
   (n = 0 \<longrightarrow> busy (view d) = 0) \<Longrightarrow> length buf = 512 * n \<Longrightarrow>
   \<exists>d'. write_sectors io n buf d = (0, d') \<and> ready d' \<and>
     medium (view d') = put_sectors l n buf (medium (view d))"
proof (induction n arbitrary: d l buf)
  case 0
  then show ?case by (auto simp: ready_def)
next
  case (Suc n)
  obtain t d1 where 1: "wait_drq io 1000000 d = (Some t, d1)" "0 < t"
    "view d1 = (view d)\<lparr>busy := 0\<rparr>"
    using wait_drq_view [of d 1000000] Suc.prems lat_bound by auto
  let ?ws = "bytes_words (take 512 buf)"
  have ws: "words_bytes ?ws = take 512 buf" "length ?ws = 256"
    using words_bytes_words [of "take 512 buf"] Suc.prems by auto
  define d2 where "d2 = outsw io 0x1F0 ?ws d1"
  obtain b where b: "b \<le> lat"
    "view d2 = (view d1)\<lparr>phase := if n = 0 then Idle else DataOut (l + 1) n, busy := b,
       medium := (medium (view d1))(l := take 512 buf)\<rparr>"
    using data_out [of d1 l n ?ws] 1 ws Suc.prems by (auto simp: d2_def)
  obtain t' d3 where 3: "wait_not_bsy io 1000000 d2 = (t', d3)" "0 < t'"
    "view d3 = (view d2)\<lparr>busy := 0\<rparr>"
    using wait_not_bsy_view [of d2 1000000] b lat_bound by auto
  obtain d' where "write_sectors io n (drop 512 buf) d3 = (0, d')" "ready d'"
    "medium (view d') = put_sectors (l + 1) n (drop 512 buf) (medium (view d3))"
  proof -
    have "phase (view d3) = (if n = 0 then Idle else DataOut (l + 1) n)" "busy (view d3) \<le> lat"
      "n = 0 \<longrightarrow> busy (view d3) = 0" "length (drop 512 buf) = 512 * n"
      using b 3 Suc.prems by auto
    from Suc.IH [OF this] that show ?thesis by blast
  qed
  moreover have "medium (view d3) = (medium (view d))(l := take 512 buf)"
    using 1 b 3 by simp
  ultimately show ?case
    using 1 3 put_sectors_Suc [of l n buf "medium (view d)"]
    by (simp add: ATA_DATA_def d2_def [symmetric])
qed

end

context ata_drive
begin

lemma issue_raw:
  assumes "ready d" and "cmd = 0x20 \<or> cmd = 0x30" and "r_head (view d) = drive_head lba"
    and "unat lba < 2 ^ 28" and "0 < unat count" "unat count < 256"
  shows "busy (view (issue_command io lba count cmd d)) \<le> lat"
    "medium (view (issue_command io lba count cmd d)) = medium (view d)"
    "phase (view (issue_command io lba count cmd d)) = (if cmd = 0x20 then DataIn else DataOut) (unat lba) (unat count)"
proof -
  have "unat (ucast count :: u8) = unat count"
    using assms(6) by (simp add: unsigned_ucast_eq take_bit_nat_eq_self)
  then have "ata_count (view d \<lparr>r_count := ucast count\<rparr>) = unat count"
    using assms(5) by (auto simp: ata_count_def)
  moreover have "ata_lba (view d \<lparr>r_low := ucast (lba AND 0xFF),
      r_mid := ucast (drop_bit 8 lba AND 0xFF), r_high := ucast (drop_bit 16 lba AND 0xFF)\<rparr>) = unat lba"
    using lba_registers [OF assms(4)] assms(3) by (simp add: ata_lba_def)
  ultimately show "busy (view (issue_command io lba count cmd d)) \<le> lat"
    "medium (view (issue_command io lba count cmd d)) = medium (view d)"
    "phase (view (issue_command io lba count cmd d)) = (if cmd = 0x20 then DataIn else DataOut) (unat lba) (unat count)"
    using issue_view [OF assms(1-3), of count] by auto
qed

lemma issue_lba:
  assumes "ready d" and "cmd = 0x20 \<or> cmd = 0x30" and "r_head (view d) = drive_head lba"
    and "unat lba < 2 ^ 28" and "0 < unat count" "unat count < 256"
  shows "\<exists>d'. delay400 io (issue_command io lba count cmd d) = d' \<and> busy (view d') \<le> lat \<and>
    medium (view d') = medium (view d) \<and>
    phase (view d') = (if cmd = 0x20 then DataIn else DataOut) (unat lba) (unat count)"
  using issue_raw [OF assms] by (auto simp: delay400_view)

lemma select_head:
  assumes "ready d"
  shows "ready (outb io ATA_DRIVE_HEAD x d)" "r_head (view (outb io ATA_DRIVE_HEAD x d)) = x"
    "medium (view (outb io ATA_DRIVE_HEAD x d)) = medium (view d)"
  using reg_write_keep [OF assms, of "0x1F6" x] by (simp_all add: ATA_DRIVE_HEAD_def ata_out_def)

lemma disk_read_view:
  assumes "ready d" and "unat lba < 2 ^ 28" and "0 < unat count" "unat count < 256"
  shows "\<exists>d'. disk_read_lba io lba count d =
      (0, concat (map (medium (view d)) [unat lba..<unat lba + unat count]), d') \<and>
    ready d' \<and> medium (view d') = medium (view d)"
proof -
  let ?d1 = "outb io ATA_DRIVE_HEAD (drive_head lba) d"
  note s = select_head [OF assms(1), of "drive_head lba"]
  obtain d2 where d2: "delay400 io (issue_command io lba count 0x20 ?d1) = d2"
    "busy (view d2) \<le> lat" "medium (view d2) = medium (view d)"
    "phase (view d2) = DataIn (unat lba) (unat count)"
    using issue_lba [OF s(1) _ s(2) assms(2-4), of "0x20"] s(3) by auto
  then show ?thesis
    using read_sectors_view [of d2 "unat count" "unat lba" "[]"] assms(3)
    by (simp add: disk_read_lba_def)
qed

lemma disk_write_view:
  assumes "ready d" and "unat lba < 2 ^ 28" and "0 < unat count" "unat count < 256"
    and "length buf = 512 * unat count"
  shows "\<exists>d'. disk_write_lba io lba count buf d = (0, d') \<and> ready d' \<and>
    medium (view d') = put_sectors (unat lba) (unat count) buf (medium (view d))"
proof -
  let ?d1 = "outb io ATA_DRIVE_HEAD (drive_head lba) d"
  note s = select_head [OF assms(1), of "drive_head lba"]
  obtain t d2 where w: "wait_not_bsy io 1000000 ?d1 = (t, d2)" "0 < t"
    "view d2 = (view ?d1)\<lparr>busy := 0\<rparr>"
    using wait_not_bsy_view [of ?d1 1000000] s(1) by (auto simp: ready_def)
  then have r2: "ready d2" "r_head (view d2) = drive_head lba" using s by (auto simp: ready_def)
  obtain d3 where d3: "delay400 io (issue_command io lba count 0x30 d2) = d3"
    "busy (view d3) \<le> lat" "medium (view d3) = medium (view d)"
    "phase (view d3) = DataOut (unat lba) (unat count)"
    using issue_lba [OF r2(1) _ r2(2) assms(2-4), of "0x30"] s(3) w(3) by auto
  obtain d4 where d4: "write_sectors io (unat count) buf d3 = (0, d4)" "ready d4"
    "medium (view d4) = put_sectors (unat lba) (unat count) buf (medium (view d))"
    using write_sectors_view [of d3 "unat count" "unat lba" buf] assms d3 by auto
  obtain b where b: "b \<le> lat" "view (outb io 0x1F7 0xE7 d4) = (view d4)\<lparr>busy := b\<rparr>"
    using reg_write [of "0x1F7" d4 "0xE7"] d4(2) by (auto simp: ready_def ata_out_def)
  obtain t' d6 where d6: "wait_not_bsy io 1000000 (outb io 0x1F7 0xE7 d4) = (t', d6)"
    "view d6 = (view d4)\<lparr>busy := 0\<rparr>"
    using wait_not_bsy_view [of "outb io 0x1F7 0xE7 d4" 1000000] b lat_bound by auto
  have "disk_write_lba io lba count buf d = (0, d6)"
    using w d3(1) d4(1) d6(1) by (simp add: disk_write_lba_def ATA_COMMAND_def)
  moreover have "ready d6" "medium (view d6) = medium (view d4)"
    using d6(2) d4(2) by (auto simp: ready_def)
  ultimately show ?thesis using d4(3) by auto
qed

end

text \<open>A drive makes the two routines a block device.\<close>

sublocale ata_drive \<subseteq> dev: block_device "disk_read_lba io" "disk_write_lba io" ready
  "\<lambda>d. medium (view d)"
proof
  fix d and i
  show "length (medium (view d) i) = 512" by (rule medium_length)
next
  fix d and lba :: u32
  assume "ready d" "unat lba < 2 ^ 28"
  then show "\<exists>d'. disk_read_lba io lba 1 d = (0, medium (view d) (unat lba), d') \<and> ready d' \<and>
      medium (view d') = medium (view d)"
    using disk_read_view [of d lba 1] by simp
next
  fix d and lba :: u32 and buf :: "u8 list"
  assume "ready d" "unat lba < 2 ^ 28" and buf: "length buf = 512"
  then have "\<exists>d'. disk_write_lba io lba 1 buf d = (0, d') \<and> ready d' \<and>
      medium (view d') = put_sectors (unat lba) 1 buf (medium (view d))"
    using disk_write_view [of d lba 1 buf] by simp
  moreover have "put_sectors (unat lba) 1 buf m = m(unat lba := buf)" for m
    using buf by (auto simp: put_sectors_def fun_eq_iff)
  ultimately show "\<exists>d'. disk_write_lba io lba 1 buf d = (0, d') \<and> ready d' \<and>
      medium (view d') = (medium (view d))(unat lba := buf)" by simp
qed

section \<open>A drive that satisfies the laws\<close>

text \<open>
  A reference drive with a fixed latency of three status reads, over the protocol state
  itself; media sectors are normalised to 512 bytes.
\<close>

definition fix512 :: "u8 list \<Rightarrow> u8 list" where
  "fix512 bs = take 512 (bs @ replicate 512 0)"

definition ref_view :: "ata_view \<Rightarrow> ata_view" where
  "ref_view d = d\<lparr>medium := \<lambda>i. fix512 (medium d i)\<rparr>"

definition ref_io :: "ata_view port_io" where
  "ref_io = \<lparr>
     inb = (\<lambda>p d. if p = 0x1F7 then (ata_status d, d\<lparr>busy := busy d - 1\<rparr>) else (0, d)),
     outb = (\<lambda>p x d. if 0x1F2 \<le> p \<and> p \<le> 0x1F7 then ata_out 3 p x d else d),
     insw = (\<lambda>p n d. case phase d of
        DataIn l (Suc k) \<Rightarrow>
          (bytes_words (fix512 (medium d l)),
           d\<lparr>phase := if k = 0 then Idle else DataIn (l + 1) k, busy := if k = 0 then 0 else 3\<rparr>)
      | _ \<Rightarrow> ([], d)),
     outsw = (\<lambda>p ws d. case phase d of
        DataOut l (Suc k) \<Rightarrow>
          d\<lparr>phase := if k = 0 then Idle else DataOut (l + 1) k, busy := 3,
             medium := (medium d)(l := words_bytes ws)\<rparr>
      | _ \<Rightarrow> d)\<rparr>"

lemma fix512_length [simp]: "length (fix512 bs) = 512"
  by (simp add: fix512_def)

lemma fix512_id: "length bs = 512 \<Longrightarrow> fix512 bs = bs"
  by (simp add: fix512_def)

interpretation ref: ata_drive ref_io ref_view 3
proof
  fix d p x
  show "\<exists>b\<le>3. ref_view (outb ref_io p x d) = ata_out b p x (ref_view d)"
    if "0x1F2 \<le> p" "p \<le> 0x1F7"
    using that by (intro exI [of _ 3])
      (simp add: ref_io_def ref_view_def ata_out_def ata_lba_def ata_count_def)
next
  fix d l n
  assume "phase (ref_view d) = DataIn l (Suc n)"
  then have "phase d = DataIn l (Suc n)" by (simp add: ref_view_def)
  moreover have "words_bytes (bytes_words (fix512 bs)) = fix512 bs" for bs
    using words_bytes_words [of "fix512 bs"] by simp
  ultimately show "\<exists>b\<le>3. words_bytes (fst (insw ref_io 0x1F0 256 d)) = medium (ref_view d) l \<and>
      ref_view (snd (insw ref_io 0x1F0 256 d)) = (ref_view d)
        \<lparr>phase := if n = 0 then Idle else DataIn (l + 1) n, busy := if n = 0 then 0 else b\<rparr>"
    by (intro exI [of _ 3]) (simp add: ref_io_def ref_view_def)
next
  fix d l n and ws :: "u16 list"
  assume "phase (ref_view d) = DataOut l (Suc n)" "length ws = 256"
  then show "\<exists>b\<le>3. ref_view (outsw ref_io 0x1F0 ws d) = (ref_view d)
      \<lparr>phase := if n = 0 then Idle else DataOut (l + 1) n, busy := b,
        medium := (medium (ref_view d))(l := words_bytes ws)\<rparr>"
    by (intro exI [of _ 3])
      (auto simp: ref_io_def ref_view_def fix512_id words_bytes_length fun_eq_iff
        intro!: ata_view.equality)
qed (auto simp: ref_io_def ref_view_def ata_status_def)

section \<open>Properties\<close>

lemma concat_put_sectors:
  "length buf = 512 * n \<Longrightarrow> concat (map (put_sectors l n buf m) [l..<l + n]) = buf"
proof (induction n arbitrary: l buf m)
  case (Suc n)
  have up: "[l..<l + Suc n] = l # [l + 1..<l + 1 + n]" by (simp add: upt_rec)
  have "concat (map (put_sectors (l + 1) n (drop 512 buf) (m(l := take 512 buf)))
      [l + 1..<l + 1 + n]) = drop 512 buf"
    using Suc.prems by (intro Suc.IH) simp
  moreover have "put_sectors (l + 1) n (drop 512 buf) (m(l := take 512 buf)) l = take 512 buf"
    by (simp add: put_sectors_def)
  ultimately show ?case unfolding up put_sectors_Suc by simp
qed simp

text \<open>
  C3.  On a drive that follows the ATA protocol, \<^verbatim>\<open>disk_write_lba\<close> followed by \<^verbatim>\<open>disk_read_lba\<close> of
  the same 1 to 255 sectors succeeds and returns what was written; no other sector of the
  medium changes, and the drive is idle again.
\<close>

theorem disk_write_read:
  assumes "ata_drive io view lat" and "busy (view d) = 0" and "phase (view d) = Idle"
    and "unat lba < 2 ^ 28" and "0 < unat count" and "unat count < 256"
    and "length buf = 512 * unat count"
  shows "\<exists>d' d''. disk_write_lba io lba count buf d = (0, d') \<and>
    disk_read_lba io lba count d' = (0, buf, d'') \<and>
    (\<forall>i. i < unat lba \<or> unat lba + unat count \<le> i \<longrightarrow> medium (view d'') i = medium (view d) i) \<and>
    busy (view d'') = 0 \<and> phase (view d'') = Idle"
proof -
  note drive = assms(1)
  have r: "ata_drive.ready view d" using assms by (simp add: ata_drive.ready_def [OF drive])
  obtain d' where d': "disk_write_lba io lba count buf d = (0, d')" "ata_drive.ready view d'"
    "medium (view d') = put_sectors (unat lba) (unat count) buf (medium (view d))"
    using ata_drive.disk_write_view [OF drive r assms(4-7)] by blast
  obtain d'' where d'': "disk_read_lba io lba count d' =
      (0, concat (map (medium (view d')) [unat lba..<unat lba + unat count]), d'')"
    "ata_drive.ready view d''" "medium (view d'') = medium (view d')"
    using ata_drive.disk_read_view [OF drive d'(2) assms(4-6)] by blast
  show ?thesis
    using d' d'' concat_put_sectors [OF assms(7)]
    by (auto simp: ata_drive.ready_def [OF drive] put_sectors_def)
qed

definition blank_drive :: ata_view where
  "blank_drive = \<lparr>r_head = 0, r_count = 0, r_low = 0, r_mid = 0, r_high = 0, phase = Idle,
     busy = 0, medium = \<lambda>_. []\<rparr>"

theorem disk_write_read_witness:
  "\<exists>d' d''. disk_write_lba ref_io 500 2 (replicate 1024 0xAB) blank_drive = (0, d') \<and>
    disk_read_lba ref_io 500 2 d' = (0, replicate 1024 0xAB, d'') \<and>
    medium (ref_view d'') 499 = medium (ref_view blank_drive) 499"
proof -
  have "busy (ref_view blank_drive) = 0" "phase (ref_view blank_drive) = Idle"
    by (simp_all add: ref_view_def blank_drive_def)
  from disk_write_read [OF ref.ata_drive_axioms this, of 500 2 "replicate 1024 0xAB"]
  show ?thesis by fastforce
qed

end
