(* ===== verification/Cmd_State.thy ===== *)
theory Cmd_State
  imports Utils_Conv Disk_ATA
begin

text \<open>
  The state and the helpers of the command interpreter \<^verbatim>\<open>src/src/commands.c\<close> (lines 40 to 310
  and 547 to 566).

  Representation.  A global \<^verbatim>\<open>char\<close> array is the byte list of its whole extent, stale bytes
  after the terminator included, since the file system writes arrays to disk as they are;
  \<open>cstr\<close> reads the C string in it.  A local string and a command's arguments are the bytes of
  the C string without its terminator.  The tables have their declared lengths; entries at and
  above the counter are stale.  What a command prints and does to the machine is the trace
  \<open>console\<close>; the keys it will read are the list \<open>keys\<close>.  A command returns an \<open>outcome\<close>: its
  return code and the new state, \<open>Fault\<close> when it reads or writes outside an array, or
  \<open>Waiting\<close> when it waits for a key that is not there.
\<close>

section \<open>Outcomes\<close>

datatype 'a outcome = Ok 'a | Fault | Waiting

fun bind_outcome :: "'a outcome \<Rightarrow> ('a \<Rightarrow> 'b outcome) \<Rightarrow> 'b outcome" where
  "bind_outcome (Ok x) f = f x"
| "bind_outcome Fault f = Fault"
| "bind_outcome Waiting f = Waiting"

section \<open>Strings\<close>

definition cstr :: "u8 list \<Rightarrow> u8 list" where
  "cstr arr = takeWhile (\<lambda>b. b \<noteq> 0) arr"

definition str_len :: "u8 list \<Rightarrow> nat" where
  "str_len s = length s"

text \<open>\<^verbatim>\<open>str_copy(dst, src, max)\<close>: \<open>src\<close> is a C string, \<open>dst\<close> an array, which keeps its tail.\<close>

definition str_copy :: "u8 list \<Rightarrow> u8 list \<Rightarrow> nat \<Rightarrow> u8 list" where
  "str_copy dst src max' =
     (let s = take (max' - 1) src in s @ 0 # drop (length s + 1) dst)"

text \<open>The difference of the first differing bytes, as signed \<^verbatim>\<open>char\<close>s; the terminator is 0.\<close>

fun str_cmp :: "u8 list \<Rightarrow> u8 list \<Rightarrow> int" where
  "str_cmp (x # a) (y # b) = (if x = y then str_cmp a b else sint x - sint y)"
| "str_cmp (x # a) [] = sint x"
| "str_cmp [] (y # b) = - sint y"
| "str_cmp [] [] = 0"

text \<open>\<^verbatim>\<open>str_ncmp\<close> stops at the first difference or at a common terminator.\<close>

fun str_ncmp :: "u8 list \<Rightarrow> u8 list \<Rightarrow> nat \<Rightarrow> int" where
  "str_ncmp a b 0 = 0"
| "str_ncmp (x # a) (y # b) (Suc n) = (if x \<noteq> y then sint x - sint y else str_ncmp a b n)"
| "str_ncmp (x # a) [] (Suc n) = sint x"
| "str_ncmp [] (y # b) (Suc n) = - sint y"
| "str_ncmp [] [] (Suc n) = 0"

definition str_upper :: "u8 list \<Rightarrow> u8 list" where
  "str_upper s = map (\<lambda>c. if sint c \<ge> 97 \<and> sint c \<le> 122 then c - 32 else c) s"

text \<open>
  \<^verbatim>\<open>int_to_str\<close>: the first loop counts the digits, the second fills the buffer from its end.
\<close>

function count_digits :: "u32 \<Rightarrow> nat \<Rightarrow> nat" where
  "count_digits tmp i = (if tmp > 0 then count_digits (tmp div 10) (i + 1) else i)"
  by pat_completeness auto
termination
  by (relation "measure (\<lambda>(t, i). unat t)") (auto simp: unat_div unat_gt_0 word_gt_0)

function fill_digits :: "u32 \<Rightarrow> nat \<Rightarrow> u8 list \<Rightarrow> u8 list" where
  "fill_digits n i buf =
     (if n > 0 then fill_digits (n div 10) (i - 1) (buf[i - 1 := 48 + ucast (n mod 10)]) else buf)"
  by pat_completeness auto
termination
  by (relation "measure (\<lambda>(n, i, b). unat n)") (auto simp: unat_div unat_gt_0 word_gt_0)

declare count_digits.simps [simp del] fill_digits.simps [simp del]

definition int_to_str :: "u32 \<Rightarrow> u8 list" where
  "int_to_str n =
     (if n = 0 then [48]
      else (let i = count_digits n 0 in fill_digits n i (replicate i 0)))"

fun str_to_int_loop :: "u8 list \<Rightarrow> u32 \<Rightarrow> u32" where
  "str_to_int_loop [] n = n"
| "str_to_int_loop (c # s) n =
     (if sint c \<ge> 48 \<and> sint c \<le> 57 then str_to_int_loop s (n * 10 + scast (c - 48)) else n)"

definition str_to_int :: "u8 list \<Rightarrow> u32" where
  "str_to_int s = str_to_int_loop s 0"

text \<open>The text that \<^verbatim>\<open>print_hex\<close> prints, filled from index 7 down to 0.\<close>

fun print_hex_fill :: "u32 \<Rightarrow> nat \<Rightarrow> u8 list \<Rightarrow> u8 list" where
  "print_hex_fill n 0 buf = buf"
| "print_hex_fill n (Suc i) buf =
     print_hex_fill (drop_bit 4 n) i (buf[i := lit ''0123456789ABCDEF'' ! unat (n AND 0xF)])"

definition hex_text :: "u32 \<Rightarrow> u8 list" where
  "hex_text n = print_hex_fill n 8 (replicate 8 0)"

definition hash_string :: "u8 list \<Rightarrow> u32" where
  "hash_string s = foldl (\<lambda>h c. (push_bit 5 h + h) + scast c) 5381 s"

definition is_blank :: "u8 \<Rightarrow> bool" where
  "is_blank c = (c = 32 \<or> c = 9)"

definition skip_spaces :: "u8 list \<Rightarrow> u8 list" where
  "skip_spaces s = dropWhile is_blank s"

fun get_token_loop :: "u8 list \<Rightarrow> u8 list \<Rightarrow> nat \<Rightarrow> u8 list \<times> u8 list" where
  "get_token_loop [] token n = (token, [])"
| "get_token_loop (c # s) token n =
     (if \<not> is_blank c \<and> n > 0 then get_token_loop s (token @ [c]) (n - 1) else (token, c # s))"

text \<open>\<^verbatim>\<open>get_token(s, token, max)\<close>: the token and the rest of the line.\<close>

definition get_token :: "u8 list \<Rightarrow> nat \<Rightarrow> u8 list \<times> u8 list" where
  "get_token s max' = get_token_loop (skip_spaces s) [] (max' - 1)"

section \<open>Tables and state\<close>

definition FS_MAX_FILES :: nat where "FS_MAX_FILES = 128"
definition FS_MAX_USERS :: nat where "FS_MAX_USERS = 32"
definition FS_MAX_FILENAME :: nat where "FS_MAX_FILENAME = 56"
definition MAX_PROCESSES :: nat where "MAX_PROCESSES = 16"
definition MAX_FILE_SIZE :: nat where "MAX_FILE_SIZE = 4096"
definition MAX_CONTENTS :: nat where "MAX_CONTENTS = 64"

lemmas cmd_consts = FS_MAX_FILES_def FS_MAX_USERS_def FS_MAX_FILENAME_def MAX_PROCESSES_def
  MAX_FILE_SIZE_def MAX_CONTENTS_def

record fs_entry =
  fe_name :: "u8 list"
  fe_size :: u32
  fe_type :: u8
  fe_attr :: u8
  fe_parent_idx :: u16
  fe_reserved :: u16

record user_entry =
  ue_username :: "u8 list"
  ue_password_hash :: "u8 list"

record process_entry =
  pe_pid :: u32
  pe_name :: "u8 list"
  pe_state :: "u8 list"
  pe_mem_usage :: u32
  pe_priority :: u8

record file_content =
  fc_file_idx :: u16
  fc_size :: u32
  fc_data :: "u8 list"

datatype console_event =
    Puts "u8 list" | Putc u8 | Cls | SetAttr u8 | Beep u32 u32 | SleepMs u32
  | Reboot | Shutdown | Halt

record 'd cmd_state =
  current_dir :: "u8 list"
  current_color :: u8
  fs_table :: "fs_entry list"
  fs_count :: nat
  user_table :: "user_entry list"
  user_count :: nat
  current_user :: "u8 list"
  process_table :: "process_entry list"
  process_count :: nat
  file_contents :: "file_content list"
  file_content_count :: nat
  console :: "console_event list"
  keys :: "u16 list"
  dev :: 'd

definition emit :: "console_event list \<Rightarrow> 'd cmd_state \<Rightarrow> 'd cmd_state" where
  "emit es st = st\<lparr>console := console st @ es\<rparr>"

definition say :: "string \<Rightarrow> 'd cmd_state \<Rightarrow> 'd cmd_state" where
  "say s = emit [Puts (lit s)]"

definition say_line :: "u8 list \<Rightarrow> 'd cmd_state \<Rightarrow> 'd cmd_state" where
  "say_line s = emit [Puts s, Puts (lit ''\<newline>'')]"

text \<open>The index of the first of the first \<open>n\<close> elements that satisfies \<open>P\<close>: the search loops.\<close>

definition find_index :: "('a \<Rightarrow> bool) \<Rightarrow> nat \<Rightarrow> 'a list \<Rightarrow> nat option" where
  "find_index P n xs = find (\<lambda>i. P (xs ! i)) [0..<n]"

text \<open>
  \<^verbatim>\<open>for (int j = i; j < count - 1; j++) table[j] = table[j + 1];\<close>  The last live entry stays
  behind as a stale copy.
\<close>

fun shift_down :: "'a list \<Rightarrow> nat \<Rightarrow> nat \<Rightarrow> 'a list" where
  "shift_down xs j 0 = xs"
| "shift_down xs j (Suc n) = shift_down (xs[j := xs ! (j + 1)]) (j + 1) n"

definition remove_at :: "'a list \<Rightarrow> nat \<Rightarrow> nat \<Rightarrow> 'a list" where
  "remove_at xs i count = shift_down xs i (count - 1 - i)"

section \<open>Lemmas on strings\<close>

lemma outcome_bind_Ok: "bind_outcome m f = Ok y \<longleftrightarrow> (\<exists>x. m = Ok x \<and> f x = Ok y)"
  by (cases m) auto

lemma sint_u8_eq: "sint (x :: u8) = sint y \<longleftrightarrow> x = y"
  by (metis of_int_sint scast_id)

lemma sint_u8_0: "sint (x :: u8) = 0 \<longleftrightarrow> x = 0"
  by (simp add: signed_eq_0_iff)

lemma str_cmp_eq_iff: "0 \<notin> set a \<Longrightarrow> 0 \<notin> set b \<Longrightarrow> str_cmp a b = 0 \<longleftrightarrow> a = b"
  by (induction a b rule: str_cmp.induct) (auto simp: sint_u8_eq sint_u8_0)

lemma cstr_nonzero: "0 \<notin> set (cstr arr)"
  by (auto simp: cstr_def dest: set_takeWhileD)

lemma cstr_str_copy: "0 \<notin> set src \<Longrightarrow> cstr (str_copy dst src n) = take (n - 1) src"
proof -
  assume "0 \<notin> set src"
  then have "\<forall>x \<in> set (take (n - 1) src). x \<noteq> 0" by (auto dest: in_set_takeD)
  then show ?thesis by (simp add: cstr_def str_copy_def Let_def takeWhile_append2)
qed

lemma length_str_copy: "n \<le> length dst \<Longrightarrow> 0 < n \<Longrightarrow> length (str_copy dst src n) = length dst"
  by (auto simp: str_copy_def Let_def)

lemma nul_str_copy: "0 \<in> set (str_copy dst src n)"
  by (simp add: str_copy_def Let_def)

lemma cstr_length: "0 \<in> set arr \<Longrightarrow> length (cstr arr) < length arr"
  by (induction arr) (auto simp: cstr_def)

lemma get_token_loop_spec:
  "get_token_loop s token n = (t, r) \<Longrightarrow>
   \<exists>u. t = token @ u \<and> s = u @ r \<and> length u \<le> n \<and> (\<forall>c \<in> set u. \<not> is_blank c) \<and>
     (r = [] \<or> is_blank (hd r) \<or> length u = n)"
proof (induction s token n arbitrary: t r rule: get_token_loop.induct)
  case (2 c s token n)
  show ?case
  proof (cases "\<not> is_blank c \<and> n > 0")
    case True
    with "2.prems" have "get_token_loop s (token @ [c]) (n - 1) = (t, r)" by simp
    from "2.IH" [OF True this] obtain u where "t = token @ [c] @ u" "s = u @ r" "length u \<le> n - 1"
      "\<forall>c \<in> set u. \<not> is_blank c" "r = [] \<or> is_blank (hd r) \<or> length u = n - 1" by auto
    with True show ?thesis by (intro exI [of _ "c # u"]) auto
  next
    case False
    with "2.prems" show ?thesis by auto
  qed
qed auto

lemma get_token_spec:
  assumes "get_token s n = (t, r)"
  shows "\<exists>b. s = b @ t @ r \<and> (\<forall>c \<in> set b. is_blank c) \<and> length t \<le> n - 1 \<and>
    (\<forall>c \<in> set t. \<not> is_blank c)"
proof -
  have "s = takeWhile is_blank s @ skip_spaces s" by (simp add: skip_spaces_def)
  moreover have "\<forall>c \<in> set (takeWhile is_blank s). is_blank c" by (auto dest: set_takeWhileD)
  moreover have "\<exists>u. t = [] @ u \<and> skip_spaces s = u @ r \<and> length u \<le> n - 1 \<and>
      (\<forall>c \<in> set u. \<not> is_blank c) \<and> (r = [] \<or> is_blank (hd r) \<or> length u = n - 1)"
    using assms unfolding get_token_def by (rule get_token_loop_spec)
  ultimately show ?thesis by fastforce
qed

lemma get_token_nonzero:
  assumes "get_token s n = (t, r)" and "0 \<notin> set s"
  shows "0 \<notin> set t" and "0 \<notin> set r" and "length t \<le> n - 1"
  using get_token_spec [OF assms(1)] assms(2) by auto

lemma get_token_shorter:
  assumes "get_token s n = (t, r)" and "t \<noteq> []"
  shows "length r < length s"
  using get_token_spec [OF assms(1)] assms(2) by auto

section \<open>Lemmas on numbers\<close>

lemma unat_div_10: "unat (n div 10 :: u32) = unat n div 10" "unat (n mod 10 :: u32) = unat n mod 10"
  by (simp_all add: unat_div unat_mod)

lemma count_digits_rdigits: "count_digits n i = i + length (rdigits 10 (unat n))"
proof (induction "unat n" arbitrary: n i rule: less_induct)
  case less
  show ?case
  proof (cases "n = 0")
    case False
    then have "unat (n div 10) < unat n" by (simp add: unat_div_10 unat_gt_0)
    from less [OF this] False show ?thesis
      by (simp add: count_digits.simps [of n] rdigits.simps [of 10 "unat n"] unat_div_10 word_gt_0
          unat_eq_zero)
  qed (simp add: count_digits.simps rdigits.simps)
qed

lemma digit_of_mod_10: "48 + ucast (n mod 10 :: u32) = digit_byte (unat n mod 10)"
proof -
  have "ucast (n mod 10) = (of_nat (unat (n mod 10)) :: u8)" by (simp only: of_nat_unat)
  then show ?thesis by (simp add: digit_byte_dec unat_div_10)
qed

lemma fill_digits_rdigits:
  "i = length (rdigits 10 (unat n)) \<Longrightarrow> i \<le> length buf \<Longrightarrow>
   fill_digits n i buf = map digit_byte (rev (rdigits 10 (unat n))) @ drop i buf"
proof (induction "unat n" arbitrary: n i buf rule: less_induct)
  case less
  show ?case
  proof (cases "n = 0")
    case True
    then show ?thesis using less.prems by (simp add: fill_digits.simps rdigits.simps)
  next
    case False
    then have lt: "unat (n div 10) < unat n" by (simp add: unat_div_10 unat_gt_0)
    have rd: "rdigits 10 (unat n) = unat n mod 10 # rdigits 10 (unat (n div 10))"
      using False by (simp add: rdigits.simps [of 10 "unat n"] unat_div_10 unat_eq_zero)
    let ?k = "length (rdigits 10 (unat (n div 10)))"
    have i: "i = Suc ?k" "?k < length buf" using less.prems rd by auto
    have "fill_digits (n div 10) ?k (buf[?k := digit_byte (unat n mod 10)]) =
        map digit_byte (rev (rdigits 10 (unat (n div 10)))) @ digit_byte (unat n mod 10) # drop i buf"
      using less.hyps [OF lt refl] i by (simp add: Cons_nth_drop_Suc [symmetric])
    with False i rd show ?thesis
      by (simp add: fill_digits.simps [of n] digit_of_mod_10 word_gt_0)
  qed
qed

lemma int_to_str_show: "int_to_str n = show_nat 10 (unat n)"
  using fill_digits_rdigits [OF refl, of n "replicate (length (rdigits 10 (unat n))) 0"]
  by (simp add: int_to_str_def show_nat_def count_digits_rdigits Let_def unat_eq_zero)

lemma digit_scast_table:
  "list_all (\<lambda>d. scast (digit_byte d - 48) = (of_nat d :: u32)) [0..<10]"
  by code_simp

lemma str_to_int_loop_digits:
  "\<forall>d \<in> set ds. d < 10 \<Longrightarrow>
   str_to_int_loop (map digit_byte ds) acc = foldl (\<lambda>acc d. acc * of_nat 10 + of_nat d) acc ds"
proof (induction ds arbitrary: acc)
  case (Cons d ds)
  then have "scast (digit_byte d - 48) = (of_nat d :: u32)" "sint (digit_byte d) = int d + 48"
    using digit_scast_table digit_byte_cases(9) [of d] by (auto simp: list_all_iff schar_def)
  with Cons show ?case by simp
qed simp

lemma str_to_int_show: "str_to_int (show_nat 10 (unat n)) = n"
proof -
  obtain ds where ds: "show_nat 10 (unat n) = map digit_byte ds" "\<forall>d \<in> set ds. d < 10"
    "undigits 10 ds = unat n"
    by (rule show_nat_digits [of 10 "unat n"]) auto
  then show ?thesis
    using of_nat_undigits [of 10 ds] by (simp add: str_to_int_def str_to_int_loop_digits)
qed

section \<open>Lemmas on tables\<close>

lemma find_index_Some:
  "find_index P n xs = Some i \<Longrightarrow> i < n \<and> P (xs ! i) \<and> (\<forall>j<i. \<not> P (xs ! j))"
  unfolding find_index_def find_Some_iff by auto

lemma find_index_None: "find_index P n xs = None \<longleftrightarrow> (\<forall>j<n. \<not> P (xs ! j))"
  by (auto simp: find_index_def find_None_iff)

lemma find_index_unique:
  assumes "i < n" and "P (xs ! i)" and "\<And>j. j < i \<Longrightarrow> \<not> P (xs ! j)"
  shows "find_index P n xs = Some i"
proof (cases "find_index P n xs")
  case None
  with assms(1,2) show ?thesis by (simp add: find_index_None)
next
  case (Some k)
  note k = find_index_Some [OF Some]
  have "k = i" using k assms(2,3) by (metis linorder_neqE_nat)
  with Some show ?thesis by simp
qed

lemma length_shift_down [simp]: "length (shift_down xs j n) = length xs"
  by (induction xs j n rule: shift_down.induct) auto

lemma shift_down_nth:
  "j + n < length xs \<Longrightarrow> k < length xs \<Longrightarrow>
   shift_down xs j n ! k = (if j \<le> k \<and> k < j + n then xs ! (k + 1) else xs ! k)"
  by (induction xs j n arbitrary: k rule: shift_down.induct) (auto simp: nth_list_update)

lemma length_remove_at [simp]: "length (remove_at xs i count) = length xs"
  by (simp add: remove_at_def)

lemma remove_at_take:
  assumes "i < count" and "count \<le> length xs"
  shows "take (count - 1) (remove_at xs i count) = take i xs @ drop (i + 1) (take count xs)"
proof (rule nth_equalityI)
  show "length (take (count - 1) (remove_at xs i count)) =
      length (take i xs @ drop (i + 1) (take count xs))"
    using assms by auto
  fix k
  assume "k < length (take (count - 1) (remove_at xs i count))"
  then show "take (count - 1) (remove_at xs i count) ! k =
      (take i xs @ drop (i + 1) (take count xs)) ! k"
    using assms by (auto simp: remove_at_def shift_down_nth nth_append)
qed

end
