(* ===== verification/FS_Disk.thy ===== *)
theory FS_Disk
  imports Cmd_State
begin

text \<open>
  Persistence of the file system: \<^verbatim>\<open>fs_save_to_disk\<close>, \<^verbatim>\<open>fs_load_from_disk\<close>, \<^verbatim>\<open>fs_init_commands\<close> and
  \<^verbatim>\<open>save_file_content\<close> of \<^verbatim>\<open>src/src/commands.c\<close>.  A save writes single sectors in a fixed order,
  and what it writes depends on the tables only: it is the execution of a list of writes, each
  either checked (a failure returns) or ignored.  Reading past the 4096 bytes of a content
  buffer is an operation of that list too, and a \<open>Fault\<close>.
\<close>

section \<open>Records as bytes\<close>

definition le16 :: "u16 \<Rightarrow> u8 list" where
  "le16 w = [ucast w, ucast (drop_bit 8 w)]"

definition le32 :: "u32 \<Rightarrow> u8 list" where
  "le32 w = [ucast w, ucast (drop_bit 8 w), ucast (drop_bit 16 w), ucast (drop_bit 24 w)]"

definition un_le16 :: "u8 list \<Rightarrow> u16" where
  "un_le16 b = ucast (b ! 0) OR push_bit 8 (ucast (b ! 1))"

definition un_le32 :: "u8 list \<Rightarrow> u32" where
  "un_le32 b = ucast (b ! 0) OR push_bit 8 (ucast (b ! 1)) OR push_bit 16 (ucast (b ! 2))
     OR push_bit 24 (ucast (b ! 3))"

text \<open>
  The first 64 bytes of an \<^verbatim>\<open>FSEntry\<close>: name, size, type, attributes and parent.  The structure is
  68 bytes long; \<^verbatim>\<open>reserved\<close> and the padding lie behind byte 64 and are not saved.
\<close>

definition encode_entry :: "fs_entry \<Rightarrow> u8 list" where
  "encode_entry e = fe_name e @ le32 (fe_size e) @ [fe_type e, fe_attr e] @ le16 (fe_parent_idx e)"

definition decode_entry :: "u8 list \<Rightarrow> fs_entry \<Rightarrow> fs_entry" where
  "decode_entry b e = e\<lparr>fe_name := take 56 b, fe_size := un_le32 (drop 56 b), fe_type := b ! 60,
     fe_attr := b ! 61, fe_parent_idx := un_le16 (drop 62 b)\<rparr>"

definition encode_user :: "user_entry \<Rightarrow> u8 list" where
  "encode_user u = ue_username u @ ue_password_hash u"

definition decode_user :: "u8 list \<Rightarrow> user_entry" where
  "decode_user b = \<lparr>ue_username = take 32 b, ue_password_hash = take 32 (drop 32 b)\<rparr>"

section \<open>Saving\<close>

definition FS_CURDIR_LBA :: nat where "FS_CURDIR_LBA = 499"
definition FS_DATA_START_LBA :: nat where "FS_DATA_START_LBA = 500"
definition FS_CONTENT_START_LBA :: nat where "FS_CONTENT_START_LBA = 700"

lemmas fs_lbas = FS_CURDIR_LBA_def FS_DATA_START_LBA_def FS_CONTENT_START_LBA_def

datatype save_op = Checked nat "u8 list" | Ignored nat "u8 list" | ReadPast

definition pad512 :: "u8 list \<Rightarrow> u8 list" where
  "pad512 b = b @ replicate (512 - length b) 0"

definition sectors_needed :: "u32 \<Rightarrow> nat" where
  "sectors_needed size' = (let n = unat ((size' + 511) div 512) in if n = 0 then 1 else n)"

text \<open>One data sector of a file, or the read past the buffer that filling it would make.\<close>

definition content_sector :: "file_content \<Rightarrow> nat \<Rightarrow> save_op" where
  "content_sector fc s =
     (let offset = s * 512;
          to_copy = min 512 (unat (fc_size fc) - offset)
      in if offset + to_copy > MAX_FILE_SIZE then ReadPast
         else Checked (FS_CONTENT_START_LBA + unat (fc_file_idx fc) * 16 + s)
                (pad512 (take to_copy (drop offset (fc_data fc)))))"

definition content_plan :: "file_content \<Rightarrow> save_op list" where
  "content_plan fc =
     (let n = sectors_needed (fc_size fc)
      in map (content_sector fc) [0..<min n 16] @
         map (\<lambda>s. Ignored (FS_CONTENT_START_LBA + unat (fc_file_idx fc) * 16 + s) (pad512 []))
           [n..<16])"

definition save_plan :: "'d cmd_state \<Rightarrow> save_op list" where
  "save_plan st =
     [Checked FS_CURDIR_LBA (pad512 (cstr (take 256 (current_dir st))))] @
     map (\<lambda>i. Checked (FS_DATA_START_LBA + i) (pad512 (encode_entry (fs_table st ! i))))
       [0..<min (fs_count st) FS_MAX_FILES] @
     map (\<lambda>i. Ignored (FS_DATA_START_LBA + i) (pad512 [])) [fs_count st..<64] @
     map (\<lambda>i. Checked (FS_DATA_START_LBA + 128 + i) (pad512 (encode_user (user_table st ! i))))
       [0..<min (user_count st) FS_MAX_USERS] @
     map (\<lambda>i. Ignored (FS_DATA_START_LBA + 128 + i) (pad512 [])) [user_count st..<5] @
     concat (map (\<lambda>c. content_plan (file_contents st ! c)) [0..<file_content_count st])"

fun run_plan :: "'d port_io \<Rightarrow> save_op list \<Rightarrow> 'd \<Rightarrow> (int \<times> 'd) outcome" where
  "run_plan io [] d = Ok (0, d)"
| "run_plan io (Checked lba b # ops) d =
     (let (r, d') = disk_write_lba io (of_nat lba) 1 b d
      in if r \<noteq> 0 then Ok (- 1, d') else run_plan io ops d')"
| "run_plan io (Ignored lba b # ops) d =
     (let (r, d') = disk_write_lba io (of_nat lba) 1 b d in run_plan io ops d')"
| "run_plan io (ReadPast # ops) d = Fault"

definition fs_save_to_disk :: "'d port_io \<Rightarrow> 'd cmd_state \<Rightarrow> (int \<times> 'd cmd_state) outcome" where
  "fs_save_to_disk io st =
     bind_outcome (run_plan io (save_plan st) (dev st)) (\<lambda>(r, d). Ok (r, st\<lparr>dev := d\<rparr>))"

section \<open>Loading\<close>

definition load_curdir :: "'d port_io \<Rightarrow> 'd cmd_state \<Rightarrow> 'd cmd_state" where
  "load_curdir io st =
     (let (r, b, d) = disk_read_lba io (of_nat FS_CURDIR_LBA) 1 (dev st); st1 = st\<lparr>dev := d\<rparr>
      in if r = 0 \<and> b ! 0 \<noteq> 0 \<and> b ! 0 = 67 \<and> b ! 1 = 58
         then (let s = cstr (take 256 b)
               in st1\<lparr>current_dir := (s @ drop (length s) (current_dir st))[255 := 0]\<rparr>)
         else st1)"

text \<open>The loop over the table sectors; an empty slot ends it, a failed read does not.\<close>

primrec load_table :: "'d port_io \<Rightarrow> nat list \<Rightarrow> 'd cmd_state \<Rightarrow> 'd cmd_state" where
  "load_table io [] st = st"
| "load_table io (i # is) st =
     (let (r, b, d) = disk_read_lba io (of_nat (FS_DATA_START_LBA + i)) 1 (dev st);
          st1 = st\<lparr>dev := d\<rparr>
      in if r = 0
         then (if b ! 0 \<noteq> 0
               then load_table io is
                 (st1\<lparr>fs_table := (fs_table st)[fs_count st := decode_entry b (fs_table st ! fs_count st)],
                    fs_count := fs_count st + 1\<rparr>)
               else st1)
         else load_table io is st1)"

primrec load_users :: "'d port_io \<Rightarrow> nat list \<Rightarrow> 'd cmd_state \<Rightarrow> 'd cmd_state" where
  "load_users io [] st = st"
| "load_users io (i # is) st =
     (let (r, b, d) = disk_read_lba io (of_nat (FS_DATA_START_LBA + 128 + i)) 1 (dev st);
          st1 = st\<lparr>dev := d\<rparr>
      in if r = 0 \<and> b ! 0 \<noteq> 0
         then load_users io is
           (st1\<lparr>user_table := (user_table st)[user_count st := decode_user b],
              user_count := user_count st + 1\<rparr>)
         else load_users io is st1)"

text \<open>The sectors of one file: \<open>tot\<close> is \<^verbatim>\<open>total_read\<close>.\<close>

primrec load_sectors :: "'d port_io \<Rightarrow> nat \<Rightarrow> nat \<Rightarrow> nat list \<Rightarrow> nat \<Rightarrow> u8 list \<Rightarrow> 'd \<Rightarrow> u8 list \<times> 'd" where
  "load_sectors io i size' [] tot data d = (data, d)"
| "load_sectors io i size' (s # ss) tot data d =
     (let (r, b, d') = disk_read_lba io (of_nat (FS_CONTENT_START_LBA + i * 16 + s)) 1 d
      in if r = 0
         then (let n = min (min 512 (size' - tot)) (MAX_FILE_SIZE - tot)
               in load_sectors io i size' ss (tot + n)
                    (take tot data @ take n b @ drop (tot + n) data) d')
         else load_sectors io i size' ss tot data d')"

primrec load_contents :: "'d port_io \<Rightarrow> nat list \<Rightarrow> 'd cmd_state \<Rightarrow> 'd cmd_state" where
  "load_contents io [] st = st"
| "load_contents io (i # is) st =
     (if file_content_count st < MAX_CONTENTS
      then (let e = fs_table st ! i
            in if fe_size e > 0 \<and> fe_type e = 0
               then (let (data, d) = load_sectors io i (unat (fe_size e))
                          [0..<min (sectors_needed (fe_size e)) 16] 0 (replicate MAX_FILE_SIZE 0) (dev st);
                         c = file_content_count st
                     in load_contents io is
                          (st\<lparr>dev := d,
                             file_contents := (file_contents st)
                               [c := \<lparr>fc_file_idx = of_nat i, fc_size = fe_size e, fc_data = data\<rparr>],
                             file_content_count := c + 1\<rparr>))
               else load_contents io is st)
      else st)"

definition fs_load_from_disk :: "'d port_io \<Rightarrow> 'd cmd_state \<Rightarrow> int \<times> 'd cmd_state" where
  "fs_load_from_disk io st =
     (let st1 = load_curdir io st;
          st2 = load_table io [0..<64] (st1\<lparr>fs_count := 0\<rparr>);
          st3 = load_users io [0..<5] (st2\<lparr>user_count := 0\<rparr>);
          st4 = load_contents io [0..<fs_count st3] (st3\<lparr>file_content_count := 0\<rparr>)
      in (0, st4))"

text \<open>\<^verbatim>\<open>user_table[..].password_hash[i] = (char)((h >> (i % 4 * 8)) & 0xFF)\<close>\<close>

definition hash_bytes :: "u32 \<Rightarrow> u8 list" where
  "hash_bytes h = map (\<lambda>i. ucast (drop_bit (i mod 4 * 8) h AND 0xFF)) [0..<32]"

definition fs_init_commands :: "'d port_io \<Rightarrow> bool \<Rightarrow> 'd cmd_state \<Rightarrow> 'd cmd_state" where
  "fs_init_commands io fs_init_silent st =
     (let st1 = st\<lparr>fs_count := 0, user_count := 0, file_content_count := 0,
            file_contents := replicate MAX_CONTENTS
              \<lparr>fc_file_idx = 0, fc_size = 0, fc_data = replicate MAX_FILE_SIZE 0\<rparr>\<rparr>;
          (_, st2) = fs_load_from_disk io st1;
          st3 = (if fs_init_silent then st2
                 else emit [Puts (lit ''[INIT: file_content_count=''),
                        Puts (int_to_str (of_nat (file_content_count st2))), Puts (lit '']\<newline>''),
                        Puts (lit ''Ready. ''), Puts (int_to_str (of_nat (fs_count st2))),
                        Puts (lit '' files, ''), Puts (int_to_str (of_nat (file_content_count st2))),
                        Puts (lit '' contents loaded. Type HELP for commands.\<newline>'')] st2)
      in if user_count st3 = 0
         then st3\<lparr>user_table := (user_table st3)[0 :=
                \<lparr>ue_username = str_copy (ue_username (user_table st3 ! 0)) (lit ''root'') 32,
                 ue_password_hash = hash_bytes (hash_string (lit ''root''))\<rparr>],
                user_count := 1\<rparr>
         else st3)"

section \<open>Saving the contents of one file\<close>

text \<open>
  \<^verbatim>\<open>save_file_content(filename, data, len)\<close>.  The relative path is built in a buffer of 256 bytes
  without a bound check.  \<open>data\<close> has at least \<open>len\<close> bytes.
\<close>

definition build_path :: "'d cmd_state \<Rightarrow> u8 list \<Rightarrow> u8 list outcome" where
  "build_path st name =
     (let p = cstr (current_dir st) @ name in if length p < 256 then Ok p else Fault)"

definition file_path :: "'d cmd_state \<Rightarrow> u8 list \<Rightarrow> u8 list outcome" where
  "file_path st filename =
     (if (filename @ [0, 0]) ! 1 \<noteq> 58 then build_path st filename else Ok (take 255 filename))"

definition blank_entry :: "fs_entry \<Rightarrow> u8 list \<Rightarrow> fs_entry" where
  "blank_entry e path = e\<lparr>fe_name := str_copy (fe_name e) path FS_MAX_FILENAME\<rparr>"

definition save_file_content ::
  "u8 list \<Rightarrow> u8 list \<Rightarrow> nat \<Rightarrow> 'd cmd_state \<Rightarrow> (int \<times> 'd cmd_state) outcome" where
  "save_file_content filename data len st =
     bind_outcome (file_path st filename) (\<lambda>full_path.
       let found = find_index (\<lambda>e. str_cmp (cstr (fe_name e)) full_path = 0) (fs_count st) (fs_table st)
       in if found = None \<and> fs_count st \<ge> FS_MAX_FILES
          then Ok (- 1, say ''Error: Disk full\<newline>'' st)
          else
            let idx = (case found of Some i \<Rightarrow> i | None \<Rightarrow> fs_count st);
                st1 = (case found of Some i \<Rightarrow> st
                       | None \<Rightarrow> st\<lparr>fs_count := fs_count st + 1,
                           fs_table := (fs_table st)[idx := (blank_entry (fs_table st ! idx) full_path)
                              \<lparr>fe_type := 0, fe_attr := 0, fe_parent_idx := 0xFFFF\<rparr>]\<rparr>);
                st2 = st1\<lparr>fs_table := (fs_table st1)[idx := (fs_table st1 ! idx)\<lparr>fe_size := of_nat len\<rparr>]\<rparr>;
                slot = find_index (\<lambda>c. unat (fc_file_idx c) = idx) (file_content_count st2) (file_contents st2)
            in if slot = None \<and> file_content_count st2 \<ge> 64
               then Ok (- 1, say ''Error: Content storage full\<newline>'' st2)
               else
                 let c = (case slot of Some k \<Rightarrow> k | None \<Rightarrow> file_content_count st2);
                     n = min len MAX_FILE_SIZE;
                     old = file_contents st2 ! c;
                     new = \<lparr>fc_file_idx = (if slot = None then of_nat idx else fc_file_idx old),
                        fc_size = of_nat n, fc_data = take n data @ drop n (fc_data old)\<rparr>
                 in Ok (0, st2\<lparr>file_contents := (file_contents st2)[c := new],
                        file_content_count := (if slot = None then c + 1 else file_content_count st2)\<rparr>))"

section \<open>Well-formed tables\<close>

text \<open>The arrays have their declared extents and hold terminated strings; counters are in range.\<close>

definition wf_entry :: "fs_entry \<Rightarrow> bool" where
  "wf_entry e \<longleftrightarrow> length (fe_name e) = 56 \<and> 0 \<in> set (fe_name e)"

definition wf_user :: "user_entry \<Rightarrow> bool" where
  "wf_user u \<longleftrightarrow> length (ue_username u) = 32 \<and> 0 \<in> set (ue_username u) \<and>
     length (ue_password_hash u) = 32"

definition wf_content :: "file_content \<Rightarrow> bool" where
  "wf_content c \<longleftrightarrow> length (fc_data c) = 4096 \<and> unat (fc_size c) \<le> 4096"

definition wf_curdir :: "u8 list \<Rightarrow> bool" where
  "wf_curdir a \<longleftrightarrow> length a = 256 \<and> 0 \<in> set a \<and> take 3 (cstr a) = [67, 58, 92] \<and> last (cstr a) = 92 \<and>
     length (cstr a) \<le> 56"

definition fs_wf :: "'d cmd_state \<Rightarrow> bool" where
  "fs_wf st \<longleftrightarrow> wf_curdir (current_dir st) \<and>
     length (fs_table st) = 128 \<and> fs_count st \<le> 128 \<and> (\<forall>e \<in> set (fs_table st). wf_entry e) \<and>
     (\<forall>i < fs_count st. fe_name (fs_table st ! i) ! 0 \<noteq> 0) \<and>
     length (user_table st) = 32 \<and> user_count st \<le> 32 \<and> (\<forall>u \<in> set (user_table st). wf_user u) \<and>
     (\<forall>i < user_count st. ue_username (user_table st ! i) ! 0 \<noteq> 0) \<and>
     length (file_contents st) = 64 \<and> file_content_count st \<le> 64 \<and>
     (\<forall>c \<in> set (file_contents st). wf_content c)"

section \<open>Encodings\<close>

lemma un_le16_le16: "un_le16 (le16 w @ r) = w"
  by (rule bit_eqI) (auto simp: un_le16_def le16_def bit_simps)

lemma un_le32_le32: "un_le32 (le32 w @ r) = w"
proof (rule bit_eqI)
  fix n
  show "bit (un_le32 (le32 w @ r)) n = bit w n" if "possible_bit TYPE(u32) n"
    using that by (cases "n < 24"; cases "n < 16") (auto simp: un_le32_def le32_def bit_simps)
qed

lemma length_le: "length (le16 w) = 2" "length (le32 x) = 4"
  by (simp_all add: le16_def le32_def)

lemma length_pad512 [simp]: "length b \<le> 512 \<Longrightarrow> length (pad512 b) = 512"
  by (simp add: pad512_def)

lemma encode_entry_length: "wf_entry e \<Longrightarrow> length (encode_entry e) = 64"
  by (simp add: encode_entry_def wf_entry_def length_le)

lemma encode_user_length: "wf_user u \<Longrightarrow> length (encode_user u) = 64"
  by (simp add: encode_user_def wf_user_def)

lemma decode_encode_entry:
  assumes "wf_entry e"
  shows "decode_entry (pad512 (encode_entry e)) e0 = e\<lparr>fe_reserved := fe_reserved e0\<rparr>"
proof -
  have n: "length (fe_name e) = 56" using assms by (simp add: wf_entry_def)
  let ?b = "pad512 (encode_entry e)"
  have "take 56 ?b = fe_name e" "?b ! 60 = fe_type e" "?b ! 61 = fe_attr e"
    using n by (simp_all add: pad512_def encode_entry_def length_le nth_append)
  moreover have "un_le32 (drop 56 ?b) = fe_size e"
    using n un_le32_le32 by (simp add: pad512_def encode_entry_def)
  moreover have "un_le16 (drop 62 ?b) = fe_parent_idx e"
    using n un_le16_le16 by (simp add: pad512_def encode_entry_def length_le)
  ultimately show ?thesis by (simp add: decode_entry_def)
qed

lemma decode_encode_user: "wf_user u \<Longrightarrow> decode_user (pad512 (encode_user u)) = u"
  by (simp add: decode_user_def encode_user_def pad512_def wf_user_def)

lemma pad512_hd:
  "wf_entry e \<Longrightarrow> pad512 (encode_entry e) ! 0 = fe_name e ! 0"
  "wf_user u \<Longrightarrow> pad512 (encode_user u) ! 0 = ue_username u ! 0"
  by (auto simp: pad512_def encode_entry_def encode_user_def wf_entry_def wf_user_def nth_append)

lemma pad512_zero: "i < 512 \<Longrightarrow> pad512 [] ! i = 0"
  by (simp add: pad512_def)

section \<open>What a save leaves on the disk\<close>

fun apply_plan :: "save_op list \<Rightarrow> (nat \<Rightarrow> u8 list) \<Rightarrow> nat \<Rightarrow> u8 list" where
  "apply_plan [] m = m"
| "apply_plan (Checked l b # ops) m = apply_plan ops (m(l := b))"
| "apply_plan (Ignored l b # ops) m = apply_plan ops (m(l := b))"
| "apply_plan (ReadPast # ops) m = m"

definition writes_to :: "save_op list \<Rightarrow> nat \<Rightarrow> u8 list set" where
  "writes_to ops l = {b. Checked l b \<in> set ops \<or> Ignored l b \<in> set ops}"

fun op_ok :: "save_op \<Rightarrow> bool" where
  "op_ok (Checked l b) = (l < 2 ^ 28 \<and> length b = 512)"
| "op_ok (Ignored l b) = (l < 2 ^ 28 \<and> length b = 512)"
| "op_ok ReadPast = False"

lemma writes_to_simps [simp]:
  "writes_to [] l = {}"
  "writes_to (Checked k b # ops) l = (if k = l then insert b (writes_to ops l) else writes_to ops l)"
  "writes_to (Ignored k b # ops) l = (if k = l then insert b (writes_to ops l) else writes_to ops l)"
  "writes_to (xs @ ys) l = writes_to xs l \<union> writes_to ys l"
  by (auto simp: writes_to_def)

lemma apply_plan_lookup:
  "\<forall>op \<in> set ops. op_ok op \<Longrightarrow> writes_to ops l \<subseteq> {b} \<Longrightarrow>
   apply_plan ops m l = (if writes_to ops l = {} then m l else b)"
proof (induction ops arbitrary: m)
  case (Cons op ops)
  then show ?case by (cases op) (auto split: if_splits)
qed simp

lemma of_nat_lba: "l < 2 ^ 28 \<Longrightarrow> unat (of_nat l :: u32) = l"
  by (simp add: unat_of_nat)

context block_device
begin

lemma wr_lba:
  assumes "ok d" "l < 2 ^ 28" "length b = 512"
  shows "\<exists>d'. wr (of_nat l) 1 b d = (0, d') \<and> ok d' \<and> sector d' = (sector d)(l := b)"
  using wr_ok [of d "of_nat l" b] assms of_nat_lba [OF assms(2)] by simp

lemma rd_lba:
  assumes "ok d" "l < 2 ^ 28"
  shows "\<exists>d'. rd (of_nat l) 1 d = (0, sector d l, d') \<and> ok d' \<and> sector d' = sector d"
  using rd_ok [of d "of_nat l"] assms of_nat_lba [OF assms(2)] by simp

end

context ata_drive
begin

lemma run_plan_view:
  "ready d \<Longrightarrow> \<forall>op \<in> set ops. op_ok op \<Longrightarrow>
   \<exists>d'. run_plan io ops d = Ok (0, d') \<and> ready d' \<and> medium (view d') = apply_plan ops (medium (view d))"
proof (induction ops arbitrary: d)
  case (Cons op ops)
  then have "op_ok op" by simp
  then obtain l b where lb: "op = Checked l b \<or> op = Ignored l b" "l < 2 ^ 28" "length b = 512"
    by (cases op) auto
  obtain d' where d': "disk_write_lba io (of_nat l) 1 b d = (0, d')" "ready d'"
    "medium (view d') = (medium (view d))(l := b)"
    using dev.wr_lba [OF Cons.prems(1) lb(2,3)] by blast
  obtain d'' where "run_plan io ops d' = Ok (0, d'')" "ready d''"
    "medium (view d'') = apply_plan ops (medium (view d'))"
    using Cons.IH [OF d'(2)] Cons.prems(2) by auto
  with d' lb(1) show ?case by auto
qed simp

end

text \<open>The sector \<open>s\<close> of a file's content, zero-filled behind its end.\<close>

definition file_sector :: "file_content \<Rightarrow> nat \<Rightarrow> u8 list" where
  "file_sector fc s = pad512 (take (min 512 (unat (fc_size fc) - s * 512)) (drop (s * 512) (fc_data fc)))"

lemma sectors_needed_bounds:
  assumes "unat size' \<le> 4096"
  shows "sectors_needed size' \<le> 8" "1 \<le> sectors_needed size'" "unat size' \<le> sectors_needed size' * 512"
    "s < sectors_needed size' \<Longrightarrow> unat size' = 0 \<or> s * 512 < unat size'"
proof -
  have n: "unat ((size' + 511) div 512) = (unat size' + 511) div 512"
    using assms by (simp add: unat_div unat_word_ariths)
  show "sectors_needed size' \<le> 8" "1 \<le> sectors_needed size'"
    "unat size' \<le> sectors_needed size' * 512"
    "s < sectors_needed size' \<Longrightarrow> unat size' = 0 \<or> s * 512 < unat size'"
    using assms by (auto simp: sectors_needed_def n Let_def split: if_splits)
qed

lemma content_sector_ok:
  assumes "wf_content fc" and "s < sectors_needed (fc_size fc)"
  shows "content_sector fc s =
    Checked (FS_CONTENT_START_LBA + unat (fc_file_idx fc) * 16 + s) (file_sector fc s)"
proof -
  have sz: "unat (fc_size fc) \<le> 4096" using assms(1) by (simp add: wf_content_def)
  have "s * 512 + min 512 (unat (fc_size fc) - s * 512) \<le> 4096"
    using sectors_needed_bounds [OF sz] assms(2) sz by fastforce
  then show ?thesis by (simp add: content_sector_def file_sector_def MAX_FILE_SIZE_def Let_def)
qed

lemma writes_to_map:
  "writes_to (map (\<lambda>i. Checked (a + i) (f i)) [m..<n]) l =
     (if a + m \<le> l \<and> l < a + n then {f (l - a)} else {})"
  "writes_to (map (\<lambda>i. Ignored (a + i) (f i)) [m..<n]) l =
     (if a + m \<le> l \<and> l < a + n then {f (l - a)} else {})"
  by (auto simp: writes_to_def image_iff intro!: bexI [of _ "l - a"])

lemma writes_to_concat: "writes_to (concat (map f xs)) l = (\<Union>x \<in> set xs. writes_to (f x) l)"
  by (auto simp: writes_to_def)

lemma file_sector_past:
  "unat (fc_size fc) \<le> s * 512 \<Longrightarrow> file_sector fc s = pad512 []"
  by (simp add: file_sector_def)

lemma content_plan_split:
  assumes "wf_content fc"
  shows "content_plan fc =
    map (\<lambda>s. Checked (FS_CONTENT_START_LBA + unat (fc_file_idx fc) * 16 + s) (file_sector fc s))
      [0..<sectors_needed (fc_size fc)] @
    map (\<lambda>s. Ignored (FS_CONTENT_START_LBA + unat (fc_file_idx fc) * 16 + s) (pad512 []))
      [sectors_needed (fc_size fc)..<16]"
proof -
  have "sectors_needed (fc_size fc) \<le> 8"
    using assms sectors_needed_bounds(1) by (simp add: wf_content_def)
  then show ?thesis
    using assms by (simp add: content_plan_def Let_def content_sector_ok min_def)
qed

lemma content_plan_writes:
  assumes "wf_content fc"
  shows "writes_to (content_plan fc) l =
    (let a = FS_CONTENT_START_LBA + unat (fc_file_idx fc) * 16
     in if a \<le> l \<and> l < a + 16 then {file_sector fc (l - a)} else {})"
proof -
  let ?n = "sectors_needed (fc_size fc)" and ?a = "FS_CONTENT_START_LBA + unat (fc_file_idx fc) * 16"
  have sz: "unat (fc_size fc) \<le> 4096" using assms by (simp add: wf_content_def)
  note b = sectors_needed_bounds [OF sz]
  have "file_sector fc (l - ?a) = pad512 []" if "?a + ?n \<le> l"
  proof -
    have "?n * 512 \<le> (l - ?a) * 512" using that by (intro mult_le_mono1) linarith
    then show ?thesis using b(3) by (intro file_sector_past) linarith
  qed
  then show ?thesis
    unfolding content_plan_split [OF assms] Let_def
    using b(1) by (auto simp: writes_to_map)
qed

lemma content_plan_op_ok: "wf_content fc \<Longrightarrow> op \<in> set (content_plan fc) \<Longrightarrow> op_ok op"
proof -
  assume wf: "wf_content fc" and op: "op \<in> set (content_plan fc)"
  have sz: "unat (fc_size fc) \<le> 4096" using wf by (simp add: wf_content_def)
  have "unat (fc_file_idx fc) < 2 ^ 16" using unsigned_less [of "fc_file_idx fc"] by simp
  then show ?thesis
    using op sectors_needed_bounds(1) [OF sz]
    unfolding content_plan_split [OF wf]
    by (auto simp: FS_CONTENT_START_LBA_def file_sector_def)
qed

lemma save_plan_op_ok:
  assumes "fs_wf st"
  shows "\<forall>op \<in> set (save_plan st). op_ok op"
proof -
  have "\<forall>i < fs_count st. wf_entry (fs_table st ! i)" "\<forall>i < user_count st. wf_user (user_table st ! i)"
    "\<forall>c < file_content_count st. wf_content (file_contents st ! c)"
    using assms by (auto simp: fs_wf_def)
  moreover have "length (cstr (take 256 (current_dir st))) \<le> 512"
    using length_takeWhile_le [of "\<lambda>b. b \<noteq> 0" "take 256 (current_dir st)"] by (simp add: cstr_def)
  ultimately show ?thesis
    by (auto simp: save_plan_def fs_lbas encode_entry_length encode_user_length cmd_consts
        dest: content_plan_op_ok)
qed

text \<open>Everything a save of small tables writes, address by address.\<close>

lemma contents_writes_low:
  assumes "fs_wf st" and "l < FS_CONTENT_START_LBA"
  shows "writes_to (concat (map (\<lambda>c. content_plan (file_contents st ! c)) [0..<file_content_count st])) l = {}"
  using assms by (auto simp: writes_to_concat fs_wf_def content_plan_writes Let_def)

lemma save_plan_writes_low:
  assumes "fs_wf st" and "fs_count st \<le> 64" and "user_count st \<le> 5"
  shows "writes_to (save_plan st) 499 = {pad512 (cstr (current_dir st))}"
    "i < 64 \<Longrightarrow> writes_to (save_plan st) (500 + i) =
       {if i < fs_count st then pad512 (encode_entry (fs_table st ! i)) else pad512 []}"
    "j < 5 \<Longrightarrow> writes_to (save_plan st) (628 + j) =
       {if j < user_count st then pad512 (encode_user (user_table st ! j)) else pad512 []}"
proof -
  have d: "take 256 (current_dir st) = current_dir st"
    using assms(1) by (simp add: fs_wf_def wf_curdir_def)
  note low = contents_writes_low [OF assms(1)]
  show "writes_to (save_plan st) 499 = {pad512 (cstr (current_dir st))}"
    using low [of 499] by (simp add: save_plan_def fs_lbas writes_to_map d)
  show "writes_to (save_plan st) (500 + i) =
       {if i < fs_count st then pad512 (encode_entry (fs_table st ! i)) else pad512 []}" if "i < 64"
    using low [of "500 + i"] that assms(2) by (auto simp: save_plan_def fs_lbas writes_to_map cmd_consts)
  show "writes_to (save_plan st) (628 + j) =
       {if j < user_count st then pad512 (encode_user (user_table st ! j)) else pad512 []}" if "j < 5"
    using low [of "628 + j"] that assms(2,3)
    by (auto simp: save_plan_def fs_lbas writes_to_map cmd_consts)
qed

definition distinct_contents :: "'d cmd_state \<Rightarrow> bool" where
  "distinct_contents st \<longleftrightarrow>
     (\<forall>a < file_content_count st. \<forall>b < file_content_count st.
        fc_file_idx (file_contents st ! a) = fc_file_idx (file_contents st ! b) \<longrightarrow> a = b)"

lemma save_plan_writes_content:
  assumes "fs_wf st" and "fs_count st \<le> 64" and "user_count st \<le> 5" and "distinct_contents st"
    and "c < file_content_count st" and "s < 16"
  shows "writes_to (save_plan st) (700 + unat (fc_file_idx (file_contents st ! c)) * 16 + s) =
    {file_sector (file_contents st ! c) s}"
proof -
  let ?f = "\<lambda>c. unat (fc_file_idx (file_contents st ! c))"
  let ?l = "700 + ?f c * 16 + s"
  have wf: "wf_content (file_contents st ! b)" if "b < file_content_count st" for b
    using that assms(1) by (auto simp: fs_wf_def)
  have "writes_to (content_plan (file_contents st ! b)) ?l =
      (if b = c then {file_sector (file_contents st ! c) s} else {})"
    if "b < file_content_count st" for b
  proof (cases "b = c")
    case True
    then show ?thesis using content_plan_writes [OF wf [OF that], of ?l] assms(6)
      by (simp add: fs_lbas)
  next
    case False
    then have "?f b \<noteq> ?f c"
      using assms(4,5) that by (auto simp: distinct_contents_def word_unat_eq_iff)
    then show ?thesis using False content_plan_writes [OF wf [OF that], of ?l] assms(6)
      by (auto simp: fs_lbas Let_def)
  qed
  then have "writes_to (concat (map (\<lambda>c. content_plan (file_contents st ! c))
      [0..<file_content_count st])) ?l = {file_sector (file_contents st ! c) s}"
    using assms(5) by (auto simp: writes_to_concat)
  then show ?thesis
    using assms(2,3) by (simp add: save_plan_def fs_lbas writes_to_map cmd_consts)
qed

section \<open>What a load reads back\<close>

context ata_drive
begin

lemma load_table_view:
  assumes "k \<le> n" and "n \<le> 64" and "ready (dev st)" and "fs_count st = k"
    and "length (fs_table st) = 128"
    and "\<And>i. i < n \<Longrightarrow> wf_entry (T ! i) \<and> fe_name (T ! i) ! 0 \<noteq> 0 \<and>
      medium (view (dev st)) (500 + i) = pad512 (encode_entry (T ! i))"
    and "n < 64 \<Longrightarrow> medium (view (dev st)) (500 + n) = pad512 []"
  shows "\<exists>d tbl. load_table io [k..<64] st = st\<lparr>dev := d, fs_table := tbl, fs_count := n\<rparr> \<and>
    ready d \<and> medium (view d) = medium (view (dev st)) \<and> length tbl = 128 \<and>
    (\<forall>i. i < k \<or> n \<le> i \<longrightarrow> tbl ! i = fs_table st ! i) \<and>
    (\<forall>i. k \<le> i \<and> i < n \<longrightarrow> tbl ! i = (T ! i)\<lparr>fe_reserved := fe_reserved (fs_table st ! i)\<rparr>)"
  using assms
proof (induction "64 - k" arbitrary: k st)
  case 0
  then have "k = 64" "n = 64" by auto
  with 0 show ?case by (intro exI [of _ "dev st"] exI [of _ "fs_table st"]) auto
next
  case (Suc m)
  then have k: "k < 64" by simp
  then have up: "[k..<64] = k # [Suc k..<64]" by (simp add: upt_conv_Cons)
  obtain d' where d': "disk_read_lba io (of_nat (500 + k)) 1 (dev st) =
      (0, medium (view (dev st)) (500 + k), d')" "ready d'"
    "medium (view d') = medium (view (dev st))"
    using dev.rd_lba [OF Suc.prems(3), of "500 + k"] k by auto
  show ?case
  proof (cases "k = n")
    case True
    then have "medium (view (dev st)) (500 + k) = pad512 []" using Suc.prems(7) k by simp
    with d' up True Suc.prems(4) show ?thesis
      by (intro exI [of _ d'] exI [of _ "fs_table st"])
        (auto simp: FS_DATA_START_LBA_def pad512_zero Suc.prems(5))
  next
    case False
    with Suc.prems(1) have kn: "k < n" by simp
    note T = Suc.prems(6) [OF kn]
    define e where "e = (T ! k)\<lparr>fe_reserved := fe_reserved (fs_table st ! k)\<rparr>"
    define st1 where "st1 = st\<lparr>dev := d', fs_table := (fs_table st)[k := e], fs_count := Suc k\<rparr>"
    have step: "load_table io [k..<64] st = load_table io [Suc k..<64] st1"
      using d'(1) T pad512_hd(1) [of "T ! k"] decode_encode_entry [of "T ! k" "fs_table st ! k"]
      by (simp add: up FS_DATA_START_LBA_def st1_def e_def Suc.prems(4))
    have "\<exists>d tbl. load_table io [Suc k..<64] st1 = st1\<lparr>dev := d, fs_table := tbl, fs_count := n\<rparr> \<and>
      ready d \<and> medium (view d) = medium (view (dev st1)) \<and> length tbl = 128 \<and>
      (\<forall>i. i < Suc k \<or> n \<le> i \<longrightarrow> tbl ! i = fs_table st1 ! i) \<and>
      (\<forall>i. Suc k \<le> i \<and> i < n \<longrightarrow> tbl ! i = (T ! i)\<lparr>fe_reserved := fe_reserved (fs_table st1 ! i)\<rparr>)"
    proof (rule Suc.hyps(1))
      show "m = 64 - Suc k" using Suc.hyps(2) by simp
      show "Suc k \<le> n" "n \<le> 64" "fs_count st1 = Suc k" "length (fs_table st1) = 128" "ready (dev st1)"
        using kn Suc.prems(2,5) d' by (simp_all add: st1_def)
      show "wf_entry (T ! i) \<and> fe_name (T ! i) ! 0 \<noteq> 0 \<and>
          medium (view (dev st1)) (500 + i) = pad512 (encode_entry (T ! i))" if "i < n" for i
        using Suc.prems(6) [OF that] d'(3) by (simp add: st1_def)
      show "medium (view (dev st1)) (500 + n) = pad512 []" if "n < 64"
        using Suc.prems(7) [OF that] d'(3) by (simp add: st1_def)
    qed
    then obtain d tbl where r: "load_table io [Suc k..<64] st1 =
        st1\<lparr>dev := d, fs_table := tbl, fs_count := n\<rparr>" "ready d"
      "medium (view d) = medium (view (dev st1))" "length tbl = 128"
      "\<And>i. i < Suc k \<or> n \<le> i \<Longrightarrow> tbl ! i = fs_table st1 ! i"
      "\<And>i. Suc k \<le> i \<Longrightarrow> i < n \<Longrightarrow> tbl ! i = (T ! i)\<lparr>fe_reserved := fe_reserved (fs_table st1 ! i)\<rparr>"
      by blast
    have "tbl ! i = (T ! i)\<lparr>fe_reserved := fe_reserved (fs_table st ! i)\<rparr>" if "k \<le> i" "i < n" for i
      using r(5) [of i] r(6) [of i] that k Suc.prems(5)
      by (cases "i = k") (auto simp: st1_def e_def)
    moreover have "tbl ! i = fs_table st ! i" if "i < k \<or> n \<le> i" for i
      using r(5) [of i] that kn by (auto simp: st1_def)
    ultimately show ?thesis
      unfolding step r(1) using r(2,3,4) d'(3)
      by (intro exI [of _ d] exI [of _ tbl]) (simp add: st1_def)
  qed
qed

end

lemma splice_data:
  "length X = N \<Longrightarrow> t + c \<le> N \<Longrightarrow> take c b = take c (drop t X) \<Longrightarrow>
   take t (take t X @ replicate (N - t) z) @ take c b @ drop (t + c) (take t X @ replicate (N - t) z) =
   take (t + c) X @ replicate (N - (t + c)) z"
  by (simp add: take_add)

context ata_drive
begin

lemma load_users_view:
  assumes "k \<le> 5" and "n \<le> 5" and "ready (dev st)" and "user_count st = min k n"
    and "length (user_table st) = 32"
    and "\<And>i. i < n \<Longrightarrow> wf_user (U ! i) \<and> ue_username (U ! i) ! 0 \<noteq> 0 \<and>
      medium (view (dev st)) (628 + i) = pad512 (encode_user (U ! i))"
    and "\<And>i. n \<le> i \<Longrightarrow> i < 5 \<Longrightarrow> medium (view (dev st)) (628 + i) = pad512 []"
  shows "\<exists>d tbl. load_users io [k..<5] st = st\<lparr>dev := d, user_table := tbl, user_count := n\<rparr> \<and>
    ready d \<and> medium (view d) = medium (view (dev st)) \<and> length tbl = 32 \<and>
    (\<forall>i. i < k \<or> n \<le> i \<longrightarrow> tbl ! i = user_table st ! i) \<and>
    (\<forall>i. k \<le> i \<and> i < n \<longrightarrow> tbl ! i = U ! i)"
  using assms
proof (induction "5 - k" arbitrary: k st)
  case 0
  then have "k = 5" by auto
  with 0 show ?case
    by (intro exI [of _ "dev st"] exI [of _ "user_table st"]) (auto simp: min_def)
next
  case (Suc m)
  then have k: "k < 5" by simp
  then have up: "[k..<5] = k # [Suc k..<5]" by (simp add: upt_conv_Cons)
  obtain d' where d': "disk_read_lba io (of_nat (628 + k)) 1 (dev st) =
      (0, medium (view (dev st)) (628 + k), d')" "ready d'"
    "medium (view d') = medium (view (dev st))"
    using dev.rd_lba [OF Suc.prems(3), of "628 + k"] k by auto
  define st1 where "st1 = (if k < n
     then st\<lparr>dev := d', user_table := (user_table st)[k := U ! k], user_count := Suc k\<rparr>
     else st\<lparr>dev := d'\<rparr>)"
  have dev1: "dev st1 = d'" by (simp add: st1_def)
  have step: "load_users io [k..<5] st = load_users io [Suc k..<5] st1"
  proof (cases "k < n")
    case True
    then show ?thesis
      using d'(1) Suc.prems(6) [OF True] pad512_hd(2) [of "U ! k"] decode_encode_user [of "U ! k"]
      by (simp add: up FS_DATA_START_LBA_def st1_def Suc.prems(4) min_def)
  next
    case False
    then show ?thesis
      using d'(1) Suc.prems(7) [of k] k
      by (simp add: up FS_DATA_START_LBA_def st1_def pad512_zero)
  qed
  have "\<exists>d tbl. load_users io [Suc k..<5] st1 = st1\<lparr>dev := d, user_table := tbl, user_count := n\<rparr> \<and>
    ready d \<and> medium (view d) = medium (view (dev st1)) \<and> length tbl = 32 \<and>
    (\<forall>i. i < Suc k \<or> n \<le> i \<longrightarrow> tbl ! i = user_table st1 ! i) \<and>
    (\<forall>i. Suc k \<le> i \<and> i < n \<longrightarrow> tbl ! i = U ! i)"
  proof (rule Suc.hyps(1))
    show "m = 5 - Suc k" using Suc.hyps(2) by simp
    show "Suc k \<le> 5" "n \<le> 5" "user_count st1 = min (Suc k) n" "length (user_table st1) = 32"
      "ready (dev st1)"
      using k Suc.prems(2,4,5) d' by (auto simp: st1_def)
    show "wf_user (U ! i) \<and> ue_username (U ! i) ! 0 \<noteq> 0 \<and>
        medium (view (dev st1)) (628 + i) = pad512 (encode_user (U ! i))" if "i < n" for i
      using Suc.prems(6) [OF that] d'(3) by (simp add: dev1)
    show "medium (view (dev st1)) (628 + i) = pad512 []" if "n \<le> i" "i < 5" for i
      using Suc.prems(7) [OF that] d'(3) by (simp add: dev1)
  qed
  then obtain d tbl where r: "load_users io [Suc k..<5] st1 =
      st1\<lparr>dev := d, user_table := tbl, user_count := n\<rparr>" "ready d"
    "medium (view d) = medium (view (dev st1))" "length tbl = 32"
    "\<And>i. i < Suc k \<or> n \<le> i \<Longrightarrow> tbl ! i = user_table st1 ! i"
    "\<And>i. Suc k \<le> i \<Longrightarrow> i < n \<Longrightarrow> tbl ! i = U ! i"
    by blast
  have "tbl ! i = U ! i" if "k \<le> i" "i < n" for i
    using r(5) [of i] r(6) [of i] that k Suc.prems(5) by (cases "i = k") (auto simp: st1_def)
  moreover have "tbl ! i = user_table st ! i" if "i < k \<or> n \<le> i" for i
    using r(5) [of i] that by (auto simp: st1_def split: if_splits)
  ultimately show ?case
    unfolding step r(1) using r(2,3,4) d'(3)
    by (intro exI [of _ d] exI [of _ tbl]) (simp add: st1_def)
qed

lemma load_sectors_view:
  assumes "unat (fc_size fc) = sz" and "sz \<le> 4096" and "length (fc_data fc) = 4096"
    and "k \<le> n" and "n \<le> 8" and "i < 128" and "ready d"
    and "\<And>s. s < n \<Longrightarrow> medium (view d) (700 + i * 16 + s) = file_sector fc s"
  shows "\<exists>d'. load_sectors io i sz [k..<n] (min (k * 512) sz)
      (take (min (k * 512) sz) (fc_data fc) @ replicate (4096 - min (k * 512) sz) 0) d =
      (take (min (n * 512) sz) (fc_data fc) @ replicate (4096 - min (n * 512) sz) 0, d') \<and>
    ready d' \<and> medium (view d') = medium (view d)"
  using assms(4-8)
proof (induction "n - k" arbitrary: k d)
  case 0
  then show ?case by auto
next
  case (Suc m)
  then have kn: "k < n" by simp
  then have up: "[k..<n] = k # [Suc k..<n]" by (simp add: upt_conv_Cons)
  obtain d' where d': "disk_read_lba io (of_nat (700 + i * 16 + k)) 1 d =
      (0, medium (view d) (700 + i * 16 + k), d')" "ready d'" "medium (view d') = medium (view d)"
    using dev.rd_lba [OF Suc.prems(4), of "700 + i * 16 + k"] kn Suc.prems(2,3) by auto
  define t where "t = min (k * 512) sz"
  define c where "c = min (min 512 (sz - t)) (4096 - t)"
  have tc: "t + c = min (Suc k * 512) sz" "t + c \<le> 4096" "c \<le> 512"
    using assms(2) by (auto simp: t_def c_def)
  have "take c (medium (view d) (700 + i * 16 + k)) = take c (drop t (fc_data fc))"
  proof (cases "k * 512 \<le> sz")
    case True
    then have c: "t = k * 512" "c \<le> min 512 (sz - k * 512)" by (auto simp: t_def c_def)
    define L where "L = min 512 (sz - k * 512)"
    have "c \<le> length (take L (drop t (fc_data fc)))" "c \<le> L"
      using c tc(2) assms(3) by (auto simp: L_def)
    moreover have "medium (view d) (700 + i * 16 + k) = pad512 (take L (drop t (fc_data fc)))"
      using Suc.prems(5) [OF kn] assms(1) c(1) by (simp add: file_sector_def L_def)
    ultimately show ?thesis by (simp add: pad512_def min_def)
  next
    case False
    then have "c = 0" by (auto simp: t_def c_def)
    then show ?thesis by simp
  qed
  then have data: "take t (take t (fc_data fc) @ replicate (4096 - t) 0) @
      take c (medium (view d) (700 + i * 16 + k)) @
      drop (t + c) (take t (fc_data fc) @ replicate (4096 - t) 0) =
      take (t + c) (fc_data fc) @ replicate (4096 - (t + c)) 0"
    by (rule splice_data [OF assms(3) tc(2)])
  have "\<exists>d''. load_sectors io i sz [Suc k..<n] (min (Suc k * 512) sz)
      (take (min (Suc k * 512) sz) (fc_data fc) @ replicate (4096 - min (Suc k * 512) sz) 0) d' =
      (take (min (n * 512) sz) (fc_data fc) @ replicate (4096 - min (n * 512) sz) 0, d'') \<and>
    ready d'' \<and> medium (view d'') = medium (view d')"
    using Suc.hyps(2) kn Suc.prems d' by (intro Suc.hyps(1)) auto
  then show ?case
    unfolding up t_def [symmetric] tc(1) [symmetric] using d' data
    by (auto simp: FS_CONTENT_START_LBA_def MAX_FILE_SIZE_def c_def [symmetric] Let_def)
qed

end

text \<open>A file with something in it; only these have a content on the disk.\<close>

definition has_content :: "fs_entry \<Rightarrow> bool" where
  "has_content e \<longleftrightarrow> fe_size e > 0 \<and> fe_type e = 0"

text \<open>The content a load builds for file \<open>i\<close> out of the sectors of \<open>fc\<close>.\<close>

definition loaded_content :: "nat \<Rightarrow> file_content \<Rightarrow> file_content" where
  "loaded_content i fc = \<lparr>fc_file_idx = of_nat i, fc_size = fc_size fc,
     fc_data = take (unat (fc_size fc)) (fc_data fc) @ replicate (4096 - unat (fc_size fc)) 0\<rparr>"

text \<open>The state after the turn of file \<open>k\<close>, whose content on the disk is \<open>fc\<close>.\<close>

definition content_loaded :: "nat \<Rightarrow> file_content \<Rightarrow> 'd \<Rightarrow> 'd cmd_state \<Rightarrow> 'd cmd_state" where
  "content_loaded k fc d st =
     (if has_content (fs_table st ! k)
      then st\<lparr>dev := d, file_contents := (file_contents st)[file_content_count st := loaded_content k fc],
             file_content_count := file_content_count st + 1\<rparr>
      else st\<lparr>dev := d\<rparr>)"

context ata_drive
begin

lemma load_file_view:
  assumes "wf_content fc" and "i < 128" and "ready d"
    and "\<And>s. s < 16 \<Longrightarrow> medium (view d) (700 + i * 16 + s) = file_sector fc s"
  shows "\<exists>d'. load_sectors io i (unat (fc_size fc)) [0..<min (sectors_needed (fc_size fc)) 16] 0
      (replicate MAX_FILE_SIZE 0) d = (fc_data (loaded_content i fc), d') \<and>
    ready d' \<and> medium (view d') = medium (view d)"
proof -
  let ?n = "sectors_needed (fc_size fc)" and ?sz = "unat (fc_size fc)"
  have sz: "?sz \<le> 4096" "length (fc_data fc) = 4096" using assms(1) by (auto simp: wf_content_def)
  note b = sectors_needed_bounds [OF sz(1)]
  have m: "min ?n 16 = ?n" "min (?n * 512) ?sz = ?sz" using b by auto
  have "medium (view d) (700 + i * 16 + s) = file_sector fc s" if "s < ?n" for s
    using assms(4) [of s] b(1) that by simp
  from load_sectors_view [OF refl sz(1,2) le0 b(1) assms(2,3) this] show ?thesis
    unfolding m by (simp add: MAX_FILE_SIZE_def loaded_content_def)
qed

lemma load_contents_step:
  assumes "ready (dev st)" and "file_content_count st < 64" and "k < 128"
    and "has_content (fs_table st ! k) \<Longrightarrow> wf_content fc \<and> fc_size fc = fe_size (fs_table st ! k) \<and>
      (\<forall>s<16. medium (view (dev st)) (700 + k * 16 + s) = file_sector fc s)"
  shows "\<exists>d. load_contents io (k # ks) st = load_contents io ks (content_loaded k fc d st) \<and>
    ready d \<and> medium (view d) = medium (view (dev st))"
proof (cases "has_content (fs_table st ! k)")
  case True
  then have w: "wf_content fc" "fc_size fc = fe_size (fs_table st ! k)"
    "\<And>s. s < 16 \<Longrightarrow> medium (view (dev st)) (700 + k * 16 + s) = file_sector fc s"
    using assms(4) by auto
  obtain d where "load_sectors io k (unat (fe_size (fs_table st ! k))) [0..<min (sectors_needed (fe_size (fs_table st ! k))) 16] 0
      (replicate MAX_FILE_SIZE 0) (dev st) = (fc_data (loaded_content k fc), d)" "ready d" "medium (view d) = medium (view (dev st))"
    using load_file_view [OF w(1) assms(3,1) w(3)] by (auto simp: w(2))
  with True assms(2) w(2) show ?thesis
    by (intro exI [of _ d]) (simp add: content_loaded_def has_content_def MAX_CONTENTS_def Let_def loaded_content_def)
next
  case False
  with assms(1,2) show ?thesis
    by (intro exI [of _ "dev st"]) (auto simp: content_loaded_def has_content_def MAX_CONTENTS_def Let_def)
qed

lemma load_contents_view:
  assumes "k \<le> n" and "n \<le> 64" and "ready (dev st)" and "file_content_count st \<le> k"
    and "length (file_contents st) = 64"
    and "\<And>i. i < n \<Longrightarrow> has_content (fs_table st ! i) \<Longrightarrow>
      wf_content (F i) \<and> fc_size (F i) = fe_size (fs_table st ! i) \<and>
      (\<forall>s<16. medium (view (dev st)) (700 + i * 16 + s) = file_sector (F i) s)"
  shows "\<exists>d fcs cnt. load_contents io [k..<n] st =
      st\<lparr>dev := d, file_contents := fcs, file_content_count := cnt\<rparr> \<and>
    ready d \<and> length fcs = 64 \<and> file_content_count st \<le> cnt \<and> cnt \<le> n \<and>
    (\<forall>c < file_content_count st. fcs ! c = file_contents st ! c) \<and>
    (\<forall>c. file_content_count st \<le> c \<and> c < cnt \<longrightarrow> (\<exists>i < n. fcs ! c = loaded_content i (F i))) \<and>
    (\<forall>i. k \<le> i \<and> i < n \<and> has_content (fs_table st ! i) \<longrightarrow>
       (\<exists>c < cnt. fcs ! c = loaded_content i (F i)))"
  using assms
proof (induction "n - k" arbitrary: k st)
  case 0
  then show ?case
    by (intro exI [of _ "dev st"] exI [of _ "file_contents st"] exI [of _ "file_content_count st"]) auto
next
  case (Suc m)
  then have kn: "k < n" by simp
  then have up: "[k..<n] = k # [Suc k..<n]" by (simp add: upt_conv_Cons)
  let ?c = "file_content_count st"
  have c64: "?c < 64" using Suc.prems(2,4) kn by simp
  define live where "live = has_content (fs_table st ! k)"
  obtain d' where d': "load_contents io (k # [Suc k..<n]) st = load_contents io [Suc k..<n] (content_loaded k (F k) d' st)"
    "ready d'" "medium (view d') = medium (view (dev st))"
    using load_contents_step [OF Suc.prems(3) c64, of k "F k" "[Suc k..<n]"] kn Suc.prems(2) Suc.prems(6) [OF kn] by auto
  define st1 where "st1 = content_loaded k (F k) d' st"
  have fields: "dev st1 = d'" "fs_table st1 = fs_table st"
    "file_content_count st1 = (if live then ?c + 1 else ?c)"
    "file_contents st1 = (if live then (file_contents st)[?c := loaded_content k (F k)] else file_contents st)"
    by (simp_all add: st1_def content_loaded_def live_def)
  note step = d'(1) [folded up st1_def]
  have "\<exists>d fcs cnt. load_contents io [Suc k..<n] st1 =
      st1\<lparr>dev := d, file_contents := fcs, file_content_count := cnt\<rparr> \<and>
    ready d \<and> length fcs = 64 \<and> file_content_count st1 \<le> cnt \<and> cnt \<le> n \<and>
    (\<forall>c < file_content_count st1. fcs ! c = file_contents st1 ! c) \<and>
    (\<forall>c. file_content_count st1 \<le> c \<and> c < cnt \<longrightarrow> (\<exists>i < n. fcs ! c = loaded_content i (F i))) \<and>
    (\<forall>i. Suc k \<le> i \<and> i < n \<and> has_content (fs_table st1 ! i) \<longrightarrow>
       (\<exists>c < cnt. fcs ! c = loaded_content i (F i)))"
  proof (rule Suc.hyps(1))
    show "m = n - Suc k" "Suc k \<le> n" "n \<le> 64" using Suc.hyps(2) kn Suc.prems(2) by auto
    show "ready (dev st1)" using d'(2) by (simp add: fields)
    show "file_content_count st1 \<le> Suc k" "length (file_contents st1) = 64"
      using Suc.prems(4,5) by (auto simp: fields)
    show "wf_content (F i) \<and> fc_size (F i) = fe_size (fs_table st1 ! i) \<and>
      (\<forall>s<16. medium (view (dev st1)) (700 + i * 16 + s) = file_sector (F i) s)"
      if "i < n" "has_content (fs_table st1 ! i)" for i
      using Suc.prems(6) that d'(3) by (simp add: fields)
  qed
  then obtain d fcs cnt where r: "load_contents io [Suc k..<n] st1 =
      st1\<lparr>dev := d, file_contents := fcs, file_content_count := cnt\<rparr>" "ready d" "length fcs = 64"
    "file_content_count st1 \<le> cnt" "cnt \<le> n"
    "\<And>c. c < file_content_count st1 \<Longrightarrow> fcs ! c = file_contents st1 ! c"
    "\<And>i. Suc k \<le> i \<Longrightarrow> i < n \<Longrightarrow> has_content (fs_table st1 ! i) \<Longrightarrow>
       \<exists>c < cnt. fcs ! c = loaded_content i (F i)"
    "\<And>c. file_content_count st1 \<le> c \<Longrightarrow> c < cnt \<Longrightarrow> \<exists>i < n. fcs ! c = loaded_content i (F i)"
    by blast
  have all: "\<exists>i < n. fcs ! c = loaded_content i (F i)" if "?c \<le> c" "c < cnt" for c
  proof (cases "file_content_count st1 \<le> c")
    case False
    with that have "live" "c = ?c" by (auto simp: fields split: if_splits)
    then have "fcs ! c = loaded_content k (F k)"
      using r(6) [of c] c64 Suc.prems(5) by (simp add: fields)
    with kn show ?thesis by blast
  qed (use r(8) that in blast)
  have le: "?c \<le> file_content_count st1" by (simp add: fields)
  have "\<exists>c < cnt. fcs ! c = loaded_content i (F i)"
    if "k \<le> i" "i < n" "has_content (fs_table st ! i)" for i
  proof (cases "i = k")
    case True
    then have "live" using that by (simp add: live_def)
    then have "fcs ! ?c = loaded_content i (F i)" "?c < cnt"
      using r(4) r(6) [of ?c] c64 Suc.prems(5) True by (auto simp: fields)
    then show ?thesis by blast
  next
    case False
    with that r(7) [of i] show ?thesis by (simp add: fields)
  qed
  moreover have "fcs ! c = file_contents st ! c" if "c < ?c" for c
    using r(6) [of c] that by (auto simp: fields split: if_splits)
  ultimately show ?case
    unfolding step r(1) using r(2,3,4,5) le all
    by (intro exI [of _ d] exI [of _ fcs] exI [of _ cnt]) (auto simp: st1_def content_loaded_def)
qed

end

section \<open>The round trip\<close>

text \<open>The globals as they are when the kernel starts.\<close>

definition zero_entry :: fs_entry where
  "zero_entry = \<lparr>fe_name = replicate 56 0, fe_size = 0, fe_type = 0, fe_attr = 0, fe_parent_idx = 0,
     fe_reserved = 0\<rparr>"

definition initial_state :: "'d \<Rightarrow> 'd cmd_state" where
  "initial_state d = \<lparr>
     current_dir = [67, 58, 92] @ replicate 253 0, current_color = 0x07,
     fs_table = replicate FS_MAX_FILES zero_entry, fs_count = 0,
     user_table = replicate FS_MAX_USERS
       \<lparr>ue_username = replicate 32 0, ue_password_hash = replicate 32 0\<rparr>, user_count = 0,
     current_user = lit ''root'' @ replicate 28 0,
     process_table = replicate MAX_PROCESSES
       \<lparr>pe_pid = 0, pe_name = replicate 32 0, pe_state = replicate 16 0, pe_mem_usage = 0, pe_priority = 0\<rparr>,
     process_count = 0,
     file_contents = replicate MAX_CONTENTS
       \<lparr>fc_file_idx = 0, fc_size = 0, fc_data = replicate MAX_FILE_SIZE 0\<rparr>,
     file_content_count = 0, console = [], keys = [], dev = d\<rparr>"

text \<open>The bytes of file \<open>i\<close>, as CAT finds them.\<close>

definition file_bytes :: "'d cmd_state \<Rightarrow> nat \<Rightarrow> u8 list option" where
  "file_bytes st i =
     map_option (\<lambda>c. take (unat (fc_size (file_contents st ! c))) (fc_data (file_contents st ! c)))
       (find_index (\<lambda>c. unat (fc_file_idx c) = i) (file_content_count st) (file_contents st))"

text \<open>Every non-empty file has a content of the size the table records.\<close>

definition contents_match :: "'d cmd_state \<Rightarrow> bool" where
  "contents_match st \<longleftrightarrow>
     (\<forall>i < fs_count st. has_content (fs_table st ! i) \<longrightarrow>
       (\<exists>c < file_content_count st. unat (fc_file_idx (file_contents st ! c)) = i \<and>
          fc_size (file_contents st ! c) = fe_size (fs_table st ! i)))"

lemma cstr_prefix: "0 \<notin> set s \<Longrightarrow> cstr (s @ 0 # r) = s"
  by (induction s) (auto simp: cstr_def)

lemma file_bytes_eq:
  assumes "c < file_content_count st" and "unat (fc_file_idx (file_contents st ! c)) = i"
    and "\<And>b. b < file_content_count st \<Longrightarrow> unat (fc_file_idx (file_contents st ! b)) = i \<Longrightarrow>
      take (unat (fc_size (file_contents st ! b))) (fc_data (file_contents st ! b)) = x"
  shows "file_bytes st i = Some x"
proof (cases "find_index (\<lambda>c. unat (fc_file_idx c) = i) (file_content_count st) (file_contents st)")
  case None
  with assms(1,2) show ?thesis by (simp add: find_index_None)
next
  case (Some b)
  with assms(3) [of b] show ?thesis by (auto simp: file_bytes_def dest!: find_index_Some)
qed

context ata_drive
begin

lemma load_curdir_view:
  assumes "wf_curdir a" and "ready d" and "medium (view d) 499 = pad512 (cstr a)"
  shows "\<exists>d' c. load_curdir io (initial_state d) = (initial_state d)\<lparr>dev := d', current_dir := c\<rparr> \<and>
    ready d' \<and> medium (view d') = medium (view d) \<and> cstr c = cstr a"
proof -
  obtain d' where d': "disk_read_lba io (of_nat 499) 1 d = (0, pad512 (cstr a), d')" "ready d'"
    "medium (view d') = medium (view d)"
    using dev.rd_lba [OF assms(2), of 499] assms(3) by auto
  let ?s = "cstr a"
  have len: "length ?s < 256" using assms(1) cstr_length [of a] by (simp add: wf_curdir_def)
  have hd3: "take 3 ?s = [67, 58, 92]" using assms(1) by (simp add: wf_curdir_def)
  then have len3: "3 \<le> length ?s" by (metis length_take length_Cons list.size(3) min.cobounded1
        numeral_3_eq_3 min_def nle_le)
  have s01: "?s ! 0 = 67" "?s ! 1 = 58"
    using hd3 len3 nth_take [of 0 3 ?s] nth_take [of 1 3 ?s] by simp_all
  then have b01: "pad512 ?s ! 0 = 67" "pad512 ?s ! 1 = 58"
    using len3 by (auto simp: pad512_def nth_append)
  have e: "256 - length ?s = Suc (255 - length ?s)" using len by simp
  have "take 256 (pad512 ?s) = ?s @ replicate (256 - length ?s) 0"
    using len by (simp add: pad512_def)
  then have "take 256 (pad512 ?s) = ?s @ 0 # replicate (255 - length ?s) 0" by (simp only: e replicate_Suc)
  then have c: "cstr (take 256 (pad512 ?s)) = ?s"
    using cstr_prefix [OF cstr_nonzero] by simp
  define new where "new = (?s @ drop (length ?s) (current_dir (initial_state d)))[255 := 0]"
  have "drop (length ?s) (current_dir (initial_state d)) = replicate (256 - length ?s) 0"
    using len3 by (auto simp: initial_state_def drop_Cons')
  then have "new = (?s @ replicate (256 - length ?s) 0)[255 := 0]" by (simp add: new_def)
  also have "\<dots> = ?s @ replicate (256 - length ?s) 0"
    using len by (simp add: list_update_append list_update_same_conv)
  finally have "new = ?s @ 0 # replicate (255 - length ?s) 0" by (simp only: e replicate_Suc)
  then have "cstr new = ?s" using cstr_prefix [OF cstr_nonzero] by simp
  moreover have "load_curdir io (initial_state d) = (initial_state d)\<lparr>dev := d', current_dir := new\<rparr>"
    using d'(1) b01 c
    by (simp add: load_curdir_def FS_CURDIR_LBA_def new_def initial_state_def Let_def)
  ultimately show ?thesis using d'(2,3) by blast
qed

end

context ata_drive
begin

lemma save_view:
  assumes "ready (dev st)" and "fs_wf st"
  shows "\<exists>d. fs_save_to_disk io st = Ok (0, st\<lparr>dev := d\<rparr>) \<and> ready d \<and>
    medium (view d) = apply_plan (save_plan st) (medium (view (dev st)))"
  using run_plan_view [OF assms(1) save_plan_op_ok [OF assms(2)]]
  by (auto simp: fs_save_to_disk_def)

end

text \<open>What a medium must hold for a load to find the tables and contents of \<open>st\<close>.\<close>

definition disk_image :: "'d cmd_state \<Rightarrow> (nat \<Rightarrow> u8 list) \<Rightarrow> bool" where
  "disk_image st m \<longleftrightarrow> m 499 = pad512 (cstr (current_dir st)) \<and>
     (\<forall>i < 64. m (500 + i) =
        (if i < fs_count st then pad512 (encode_entry (fs_table st ! i)) else pad512 [])) \<and>
     (\<forall>j < 5. m (628 + j) =
        (if j < user_count st then pad512 (encode_user (user_table st ! j)) else pad512 [])) \<and>
     (\<forall>c < file_content_count st. \<forall>s < 16.
        m (700 + unat (fc_file_idx (file_contents st ! c)) * 16 + s) = file_sector (file_contents st ! c) s)"

text \<open>The tables are small enough for a load, and consistent.\<close>

definition savable :: "'d cmd_state \<Rightarrow> bool" where
  "savable st \<longleftrightarrow> fs_wf st \<and> fs_count st \<le> 64 \<and> user_count st \<le> 5 \<and> distinct_contents st \<and>
     contents_match st"

lemma save_plan_image:
  assumes "savable st"
  shows "disk_image st (apply_plan (save_plan st) m)"
proof -
  have a: "fs_wf st" "fs_count st \<le> 64" "user_count st \<le> 5" "distinct_contents st"
    using assms by (auto simp: savable_def)
  have S: "apply_plan (save_plan st) m l = b" if "writes_to (save_plan st) l = {b}" for l b
    using apply_plan_lookup [OF save_plan_op_ok [OF a(1)], of l b] that by simp
  note low = save_plan_writes_low [OF a(1-3)] and content = save_plan_writes_content [OF a]
  show ?thesis
    unfolding disk_image_def using S [OF low(1)] S [OF low(2)] S [OF low(3)] S [OF content] by simp
qed

context ata_drive
begin

lemma load_tables_image:
  assumes "savable st" and "ready d" and "disk_image st (medium (view d))"
  shows "\<exists>d3 c tbl utbl.
    load_users io [0..<5] ((load_table io [0..<64] ((load_curdir io (initial_state d))\<lparr>fs_count := 0\<rparr>))
      \<lparr>user_count := 0\<rparr>) =
    (initial_state d)\<lparr>dev := d3, current_dir := c, fs_table := tbl, fs_count := fs_count st,
      user_table := utbl, user_count := user_count st\<rparr> \<and>
    ready d3 \<and> medium (view d3) = medium (view d) \<and> cstr c = cstr (current_dir st) \<and>
    (\<forall>i < fs_count st. tbl ! i = (fs_table st ! i)\<lparr>fe_reserved := 0\<rparr>) \<and>
    (\<forall>i < user_count st. utbl ! i = user_table st ! i)"
proof -
  have wf: "fs_wf st" and small: "fs_count st \<le> 64" "user_count st \<le> 5"
    using assms(1) by (auto simp: savable_def)
  have img: "medium (view d) 499 = pad512 (cstr (current_dir st))"
    "\<And>i. i < 64 \<Longrightarrow> medium (view d) (500 + i) =
        (if i < fs_count st then pad512 (encode_entry (fs_table st ! i)) else pad512 [])"
    "\<And>j. j < 5 \<Longrightarrow> medium (view d) (628 + j) =
        (if j < user_count st then pad512 (encode_user (user_table st ! j)) else pad512 [])"
    using assms(3) by (auto simp: disk_image_def)
  have "wf_curdir (current_dir st)" using wf by (simp add: fs_wf_def)
  from load_curdir_view [OF this assms(2) img(1)] obtain d1 c where
    1: "load_curdir io (initial_state d) = (initial_state d)\<lparr>dev := d1, current_dir := c\<rparr>"
    "ready d1" "medium (view d1) = medium (view d)" "cstr c = cstr (current_dir st)" by blast
  define s1 where "s1 = (initial_state d)\<lparr>dev := d1, current_dir := c, fs_count := 0\<rparr>"
  have T: "wf_entry (fs_table st ! i) \<and> fe_name (fs_table st ! i) ! 0 \<noteq> 0 \<and>
      medium (view (dev s1)) (500 + i) = pad512 (encode_entry (fs_table st ! i))"
    if "i < fs_count st" for i
    using wf that img(2) [of i] small 1(3) by (auto simp: fs_wf_def s1_def)
  obtain d2 tbl where 2: "load_table io [0..<64] s1 =
      s1\<lparr>dev := d2, fs_table := tbl, fs_count := fs_count st\<rparr>" "ready d2"
    "medium (view d2) = medium (view d)"
    "\<And>i. i < fs_count st \<Longrightarrow> tbl ! i = (fs_table st ! i)\<lparr>fe_reserved := 0\<rparr>"
    using load_table_view [of 0 "fs_count st" s1 "fs_table st", OF le0 small(1) _ _ _ T] 1(2,3)
      img(2) [of "fs_count st"] small
    by (auto simp: s1_def initial_state_def zero_entry_def FS_MAX_FILES_def)
  define s2 where "s2 = s1\<lparr>dev := d2, fs_table := tbl, fs_count := fs_count st, user_count := 0\<rparr>"
  have U: "wf_user (user_table st ! i) \<and> ue_username (user_table st ! i) ! 0 \<noteq> 0 \<and>
      medium (view (dev s2)) (628 + i) = pad512 (encode_user (user_table st ! i))"
    if "i < user_count st" for i
    using wf that img(3) [of i] small 2(3) by (auto simp: fs_wf_def s2_def)
  obtain d3 utbl where 3: "load_users io [0..<5] s2 =
      s2\<lparr>dev := d3, user_table := utbl, user_count := user_count st\<rparr>" "ready d3"
    "medium (view d3) = medium (view d)" "\<And>i. i < user_count st \<Longrightarrow> utbl ! i = user_table st ! i"
    using load_users_view [of 0 "user_count st" s2 "user_table st", OF le0 small(2) _ _ _ U] 2(2,3)
      img(3) by (auto simp: s2_def s1_def initial_state_def FS_MAX_USERS_def)
  have "load_users io [0..<5] ((load_table io [0..<64] ((load_curdir io (initial_state d))\<lparr>fs_count := 0\<rparr>))
      \<lparr>user_count := 0\<rparr>) = (initial_state d)\<lparr>dev := d3, current_dir := c, fs_table := tbl,
      fs_count := fs_count st, user_table := utbl, user_count := user_count st\<rparr>"
    using 1(1) 2(1) 3(1) by (simp add: s1_def s2_def)
  with 1(4) 2(4) 3(2-4) show ?thesis by blast
qed

end

text \<open>The content that \<open>st\<close> keeps for its file \<open>i\<close>.\<close>

definition content_slot :: "'d cmd_state \<Rightarrow> nat \<Rightarrow> file_content" where
  "content_slot st i =
     file_contents st ! the (find_index (\<lambda>c. unat (fc_file_idx c) = i) (file_content_count st) (file_contents st))"

lemma content_slot_spec:
  assumes "savable st" and "i < fs_count st" and "has_content (fs_table st ! i)"
  shows "\<exists>c < file_content_count st. content_slot st i = file_contents st ! c \<and>
      unat (fc_file_idx (file_contents st ! c)) = i"
    and "wf_content (content_slot st i)" and "fc_size (content_slot st i) = fe_size (fs_table st ! i)"
    and "file_bytes st i = Some (take (unat (fc_size (content_slot st i))) (fc_data (content_slot st i)))"
proof -
  let ?P = "\<lambda>c. unat (fc_file_idx c) = i"
  obtain c where c: "c < file_content_count st" "?P (file_contents st ! c)"
    "fc_size (file_contents st ! c) = fe_size (fs_table st ! i)"
    using assms by (auto simp: savable_def contents_match_def)
  then obtain b where b: "find_index ?P (file_content_count st) (file_contents st) = Some b"
    by (cases "find_index ?P (file_content_count st) (file_contents st)") (auto simp: find_index_None)
  then have b': "b < file_content_count st" "?P (file_contents st ! b)"
    by (auto dest: find_index_Some)
  then have "b = c"
    using c assms(1) by (auto simp: savable_def distinct_contents_def word_unat_eq_iff)
  have slot: "content_slot st i = file_contents st ! b" by (simp add: content_slot_def b)
  show "\<exists>c < file_content_count st. content_slot st i = file_contents st ! c \<and>
      unat (fc_file_idx (file_contents st ! c)) = i" using slot b' by blast
  show "wf_content (content_slot st i)"
    using slot b'(1) assms(1) by (auto simp: savable_def fs_wf_def)
  show "fc_size (content_slot st i) = fe_size (fs_table st ! i)" using slot \<open>b = c\<close> c by simp
  show "file_bytes st i = Some (take (unat (fc_size (content_slot st i))) (fc_data (content_slot st i)))"
    by (simp add: file_bytes_def slot b)
qed

lemma loaded_bytes:
  assumes len: "\<And>i. i < n \<Longrightarrow> has_content (T ! i) \<Longrightarrow> wf_content (F i)" and "n \<le> 64"
    and all: "\<And>c. c < file_content_count st \<Longrightarrow> \<exists>i < n. file_contents st ! c = loaded_content i (F i)"
    and ex: "\<exists>c < file_content_count st. file_contents st ! c = loaded_content i (F i)"
    and i: "i < n" "has_content (T ! i)"
  shows "file_bytes st i = Some (take (unat (fc_size (F i))) (fc_data (F i)))"
proof -
  have idx: "unat (fc_file_idx (loaded_content j (F j))) = j" if "j < n" for j
    using that assms(2) by (simp add: loaded_content_def unat_of_nat)
  obtain c where c: "c < file_content_count st" "file_contents st ! c = loaded_content i (F i)"
    using ex by blast
  show ?thesis
  proof (rule file_bytes_eq [OF c(1)])
    show "unat (fc_file_idx (file_contents st ! c)) = i" using c(2) idx [OF i(1)] by simp
    fix b
    assume b: "b < file_content_count st" "unat (fc_file_idx (file_contents st ! b)) = i"
    then obtain j where j: "j < n" "file_contents st ! b = loaded_content j (F j)" using all by blast
    with b(2) idx [OF j(1)] have "j = i" by simp
    with j len [OF i] show "take (unat (fc_size (file_contents st ! b))) (fc_data (file_contents st ! b)) =
        take (unat (fc_size (F i))) (fc_data (F i))"
      by (simp add: loaded_content_def wf_content_def)
  qed
qed

context ata_drive
begin

lemma load_image:
  assumes sv: "savable st" and "ready d" and img: "disk_image st (medium (view d))"
  shows "\<exists>st'. fs_load_from_disk io (initial_state d) = (0, st') \<and>
    cstr (current_dir st') = cstr (current_dir st) \<and> fs_count st' = fs_count st \<and>
    (\<forall>i < fs_count st. fs_table st' ! i = (fs_table st ! i)\<lparr>fe_reserved := 0\<rparr>) \<and>
    user_count st' = user_count st \<and> (\<forall>i < user_count st. user_table st' ! i = user_table st ! i) \<and>
    (\<forall>i < fs_count st. has_content (fs_table st ! i) \<longrightarrow> file_bytes st' i = file_bytes st i)"
proof -
  let ?n = "fs_count st" and ?F = "content_slot st"
  have n64: "?n \<le> 64" using sv by (simp add: savable_def)
  obtain d3 c tbl utbl where 3:
    "load_users io [0..<5] ((load_table io [0..<64] ((load_curdir io (initial_state d))\<lparr>fs_count := 0\<rparr>))
      \<lparr>user_count := 0\<rparr>) =
    (initial_state d)\<lparr>dev := d3, current_dir := c, fs_table := tbl, fs_count := fs_count st,
      user_table := utbl, user_count := user_count st\<rparr>"
    "ready d3" "medium (view d3) = medium (view d)" "cstr c = cstr (current_dir st)"
    "\<And>i. i < ?n \<Longrightarrow> tbl ! i = (fs_table st ! i)\<lparr>fe_reserved := 0\<rparr>"
    "\<And>i. i < user_count st \<Longrightarrow> utbl ! i = user_table st ! i"
    using load_tables_image [OF assms] by blast
  define s3 where "s3 = (initial_state d)\<lparr>dev := d3, current_dir := c, fs_table := tbl,
    fs_count := fs_count st, user_table := utbl, user_count := user_count st, file_content_count := 0\<rparr>"
  have live: "has_content (tbl ! i) = has_content (fs_table st ! i)" if "i < ?n" for i
    using 3(5) [OF that] by (simp add: has_content_def)
  have F: "wf_content (?F i) \<and> fc_size (?F i) = fe_size (fs_table s3 ! i) \<and>
      (\<forall>s<16. medium (view (dev s3)) (700 + i * 16 + s) = file_sector (?F i) s)"
    if "i < ?n" "has_content (fs_table s3 ! i)" for i
  proof -
    have h: "has_content (fs_table st ! i)" using that live by (simp add: s3_def)
    note slot = content_slot_spec [OF sv that(1) h]
    from slot(1) img have "\<forall>s<16. medium (view d) (700 + i * 16 + s) = file_sector (?F i) s"
      by (auto simp: disk_image_def)
    then show ?thesis using slot(2,3) 3(3,5) that(1) by (simp add: s3_def)
  qed
  obtain d4 fcs cnt where 4: "load_contents io [0..<?n] s3 =
      s3\<lparr>dev := d4, file_contents := fcs, file_content_count := cnt\<rparr>"
    "\<And>c. c < cnt \<Longrightarrow> \<exists>i < ?n. fcs ! c = loaded_content i (?F i)"
    "\<And>i. i < ?n \<Longrightarrow> has_content (tbl ! i) \<Longrightarrow> \<exists>c < cnt. fcs ! c = loaded_content i (?F i)"
    using load_contents_view [of 0 ?n s3 ?F, OF le0 n64 _ _ _ F] 3(2)
    by (auto simp: s3_def initial_state_def MAX_CONTENTS_def)
  define s4 where "s4 = s3\<lparr>dev := d4, file_contents := fcs, file_content_count := cnt\<rparr>"
  have "fs_load_from_disk io (initial_state d) = (0, s4)"
    using 3(1) 4(1) by (simp add: fs_load_from_disk_def s3_def s4_def Let_def)
  moreover have "file_bytes s4 i = file_bytes st i" if "i < ?n" "has_content (fs_table st ! i)" for i
    using loaded_bytes [of ?n "fs_table st" ?F s4 i] content_slot_spec(2,4) [OF sv] 4(2,3) n64 that live
    by (simp add: s4_def)
  ultimately show ?thesis
    using 3(4-6) by (intro exI [of _ s4]) (simp add: s4_def s3_def)
qed

lemma save_load_view:
  assumes "savable st" and "ready (dev st)"
  shows "\<exists>d st'. fs_save_to_disk io st = Ok (0, st\<lparr>dev := d\<rparr>) \<and>
    fs_load_from_disk io (initial_state d) = (0, st') \<and>
    cstr (current_dir st') = cstr (current_dir st) \<and> fs_count st' = fs_count st \<and>
    (\<forall>i < fs_count st. fs_table st' ! i = (fs_table st ! i)\<lparr>fe_reserved := 0\<rparr>) \<and>
    user_count st' = user_count st \<and> (\<forall>i < user_count st. user_table st' ! i = user_table st ! i) \<and>
    (\<forall>i < fs_count st. has_content (fs_table st ! i) \<longrightarrow> file_bytes st' i = file_bytes st i)"
proof -
  have wf: "fs_wf st" using assms(1) by (simp add: savable_def)
  obtain d where d: "fs_save_to_disk io st = Ok (0, st\<lparr>dev := d\<rparr>)" "ready d"
    "medium (view d) = apply_plan (save_plan st) (medium (view (dev st)))"
    using save_view [OF assms(2) wf] by blast
  have "disk_image st (medium (view d))" using save_plan_image [OF assms(1)] d(3) by simp
  from load_image [OF assms(1) d(2) this] d(1) show ?thesis by blast
qed

end

section \<open>Properties\<close>

text \<open>
  C2.  Persistence, within the limits of the load.  On an idle drive that follows the ATA protocol,
  saving a well-formed file system of at most 64 entries and 5 users, in which every non-empty file
  has a content of the size its entry records and no two contents belong to the same file, and
  loading it into the initial state of a restarted kernel, gives back the current directory, every table entry
  (its \<^verbatim>\<open>reserved\<close> field, which is not saved, reads 0), every user and the bytes of every
  non-empty file.
\<close>

theorem fs_save_load_roundtrip:
  assumes "ata_drive io view lat" and "busy (view (dev st)) = 0" and "phase (view (dev st)) = Idle"
    and "savable st"
  shows "\<exists>d st'. fs_save_to_disk io st = Ok (0, st\<lparr>dev := d\<rparr>) \<and>
    fs_load_from_disk io (initial_state d) = (0, st') \<and>
    cstr (current_dir st') = cstr (current_dir st) \<and> fs_count st' = fs_count st \<and>
    (\<forall>i < fs_count st. fs_table st' ! i = (fs_table st ! i)\<lparr>fe_reserved := 0\<rparr>) \<and>
    user_count st' = user_count st \<and> (\<forall>i < user_count st. user_table st' ! i = user_table st ! i) \<and>
    (\<forall>i < fs_count st. has_content (fs_table st ! i) \<longrightarrow> file_bytes st' i = file_bytes st i)"
proof -
  have "ata_drive.ready view (dev st)"
    using assms(2,3) by (simp add: ata_drive.ready_def [OF assms(1)])
  from ata_drive.save_load_view [OF assms(1,4) this] show ?thesis .
qed

text \<open>A state with one file of three bytes and one user.\<close>

definition sample_state :: "'d \<Rightarrow> 'd cmd_state" where
  "sample_state d = (let st = initial_state d in st\<lparr>
     fs_table := (fs_table st)[0 := zero_entry\<lparr>fe_name := str_copy (replicate 56 0) (lit ''C:A.TXT'') 56,
        fe_size := 3, fe_attr := 0x20\<rparr>], fs_count := 1,
     user_table := (user_table st)[0 := \<lparr>ue_username = str_copy (replicate 32 0) (lit ''root'') 32,
        ue_password_hash = replicate 32 7\<rparr>], user_count := 1,
     file_contents := (file_contents st)[0 := \<lparr>fc_file_idx = 0, fc_size = 3,
        fc_data = [97, 98, 99] @ replicate 4093 0\<rparr>], file_content_count := 1\<rparr>)"

lemma cstr_pad: "0 \<notin> set s \<Longrightarrow> cstr (s @ replicate n 0) = s"
  by (cases n) (simp_all add: cstr_prefix, induction s, auto simp: cstr_def)

lemma ball_update: "\<forall>x \<in> set xs. P x \<Longrightarrow> P y \<Longrightarrow> \<forall>x \<in> set (xs[i := y]). P x"
  using set_update_subset_insert by fastforce

lemma sample_sel:
  "current_dir (sample_state d) = [67, 58, 92] @ replicate 253 0"
  "fs_table (sample_state d) = (replicate FS_MAX_FILES zero_entry)[0 := zero_entry
     \<lparr>fe_name := str_copy (replicate 56 0) (lit ''C:A.TXT'') 56, fe_size := 3, fe_attr := 0x20\<rparr>]"
  "fs_count (sample_state d) = 1" "user_count (sample_state d) = 1"
  "user_table (sample_state d) = (replicate FS_MAX_USERS
     \<lparr>ue_username = replicate 32 0, ue_password_hash = replicate 32 0\<rparr>)[0 :=
     \<lparr>ue_username = str_copy (replicate 32 0) (lit ''root'') 32, ue_password_hash = replicate 32 7\<rparr>]"
  "file_contents (sample_state d) = (replicate MAX_CONTENTS
     \<lparr>fc_file_idx = 0, fc_size = 0, fc_data = replicate MAX_FILE_SIZE 0\<rparr>)[0 :=
     \<lparr>fc_file_idx = 0, fc_size = 3, fc_data = [97, 98, 99] @ replicate 4093 0\<rparr>]"
  "file_content_count (sample_state d) = 1" "dev (sample_state d) = d"
  unfolding sample_state_def initial_state_def Let_def by simp_all

lemma sample_wf: "fs_wf (sample_state d)"
  unfolding fs_wf_def
proof (intro conjI)
  show "wf_curdir (current_dir (sample_state d))"
    using cstr_pad [of "[67, 58, 92]" 253] by (simp add: wf_curdir_def sample_sel)
  have "wf_entry zero_entry"
    "wf_entry (zero_entry\<lparr>fe_name := str_copy (replicate 56 0) (lit ''C:A.TXT'') 56, fe_size := 3,
       fe_attr := 0x20\<rparr>)"
    by (simp_all add: wf_entry_def zero_entry_def length_str_copy nul_str_copy)
  then show "\<forall>e \<in> set (fs_table (sample_state d)). wf_entry e"
    unfolding sample_sel by (intro ball_update) auto
  have "wf_user \<lparr>ue_username = replicate 32 0, ue_password_hash = replicate 32 0\<rparr>"
    "wf_user \<lparr>ue_username = str_copy (replicate 32 0) (lit ''root'') 32,
        ue_password_hash = replicate 32 7\<rparr>"
    by (simp_all add: wf_user_def length_str_copy nul_str_copy)
  then show "\<forall>u \<in> set (user_table (sample_state d)). wf_user u"
    unfolding sample_sel by (intro ball_update) auto
  have "wf_content \<lparr>fc_file_idx = 0, fc_size = 0, fc_data = replicate MAX_FILE_SIZE 0\<rparr>"
    "wf_content \<lparr>fc_file_idx = 0, fc_size = 3, fc_data = [97, 98, 99] @ replicate 4093 0\<rparr>"
    by (simp_all add: wf_content_def MAX_FILE_SIZE_def)
  then show "\<forall>c \<in> set (file_contents (sample_state d)). wf_content c"
    unfolding sample_sel by (intro ball_update) auto
  have "str_copy (replicate 56 0) (lit ''C:A.TXT'') 56 ! 0 \<noteq> 0"
    "str_copy (replicate 32 0) (lit ''root'') 32 ! 0 \<noteq> 0"
    by (simp_all add: str_copy_def lit_def)
  then show "\<forall>i < fs_count (sample_state d). fe_name (fs_table (sample_state d) ! i) ! 0 \<noteq> 0"
    "\<forall>i < user_count (sample_state d). ue_username (user_table (sample_state d) ! i) ! 0 \<noteq> 0"
    by (simp_all add: sample_sel cmd_consts)
qed (simp_all add: sample_sel cmd_consts)

lemma sample_savable: "savable (sample_state d)"
  using sample_wf [of d]
  by (simp add: savable_def sample_sel cmd_consts distinct_contents_def contents_match_def
      has_content_def zero_entry_def)

theorem fs_save_load_roundtrip_witness:
  "\<exists>d st'. fs_save_to_disk ref_io (sample_state blank_drive) =
      Ok (0, (sample_state blank_drive)\<lparr>dev := d\<rparr>) \<and>
    fs_load_from_disk ref_io (initial_state d) = (0, st') \<and>
    file_bytes st' 0 = file_bytes (sample_state blank_drive) 0"
proof -
  let ?st = "sample_state blank_drive"
  have "busy (ref_view (dev ?st)) = 0" "phase (ref_view (dev ?st)) = Idle"
    by (simp_all add: ref_view_def blank_drive_def sample_sel)
  from fs_save_load_roundtrip [OF ref.ata_drive_axioms this sample_savable]
  obtain d st' where "fs_save_to_disk ref_io ?st = Ok (0, ?st\<lparr>dev := d\<rparr>)"
    "fs_load_from_disk ref_io (initial_state d) = (0, st')"
    "\<forall>i < fs_count ?st. has_content (fs_table ?st ! i) \<longrightarrow> file_bytes st' i = file_bytes ?st i" by blast
  moreover have "0 < fs_count ?st" "has_content (fs_table ?st ! 0)"
    by (simp_all add: sample_sel cmd_consts has_content_def zero_entry_def)
  ultimately show ?thesis by blast
qed

end
