(* ===== verification/Cmd_Files.thy ===== *)
theory Cmd_Files
  imports FS_Disk
begin

text \<open>
  The file and disk commands of \<^verbatim>\<open>src/src/commands.c\<close>: MKDIR, RMDIR, TOUCH, DEL, DIR, CD, CAT,
  NANO, COPY, MOVE, FIND, TREE, ATTRIB, CHMOD, VOL, LABEL, CHKDSK, FORMAT, DISKPART.  Each takes
  the rest of the command line and the state.  All of them satisfy one contract, the locale
  \<open>safe_command\<close>: from a well-formed state they do not leave an array and they return to a
  well-formed state.
\<close>

section \<open>Commands\<close>

definition name_is :: "u8 list \<Rightarrow> fs_entry \<Rightarrow> bool" where
  "name_is path e = (str_cmp (cstr (fe_name e)) path = 0)"

text \<open>A new entry at the end of the live part of the table; parent and reserved keep stale values.\<close>

definition add_entry :: "u8 list \<Rightarrow> u8 \<Rightarrow> u8 \<Rightarrow> 'd cmd_state \<Rightarrow> 'd cmd_state" where
  "add_entry path typ attr st =
     st\<lparr>fs_table := (fs_table st)[fs_count st :=
          (blank_entry (fs_table st ! fs_count st) path)\<lparr>fe_size := 0, fe_type := typ, fe_attr := attr\<rparr>],
        fs_count := fs_count st + 1\<rparr>"

definition cmd_mkdir :: "'d port_io \<Rightarrow> u8 list \<Rightarrow> 'd cmd_state \<Rightarrow> (int \<times> 'd cmd_state) outcome" where
  "cmd_mkdir io args st =
     (let (name, _) = get_token args 64
      in if name = [] then Ok (- 1, say ''Usage: MKDIR dirname\<newline>'' st)
         else if fs_count st \<ge> FS_MAX_FILES then Ok (- 1, say ''Error: Filesystem full\<newline>'' st)
         else bind_outcome (build_path st name) (\<lambda>full_path.
           if find_index (name_is full_path) (fs_count st) (fs_table st) \<noteq> None
           then Ok (- 1, say ''Error: Already exists\<newline>'' st)
           else bind_outcome (fs_save_to_disk io (add_entry full_path 1 0x10 st)) (\<lambda>(_, st1).
             Ok (0, emit [Puts (lit ''Directory created: ''), Puts name, Puts (lit ''\<newline>'')] st1))))"

definition remove_entry :: "nat \<Rightarrow> 'd cmd_state \<Rightarrow> 'd cmd_state" where
  "remove_entry i st = st\<lparr>fs_table := remove_at (fs_table st) i (fs_count st), fs_count := fs_count st - 1\<rparr>"

definition cmd_rmdir :: "'d port_io \<Rightarrow> u8 list \<Rightarrow> 'd cmd_state \<Rightarrow> (int \<times> 'd cmd_state) outcome" where
  "cmd_rmdir io args st =
     (let (name, _) = get_token args 64
      in if name = [] then Ok (- 1, say ''Usage: RMDIR dirname\<newline>'' st)
         else case find_index (\<lambda>e. name_is name e \<and> fe_type e = 1) (fs_count st) (fs_table st) of
             Some i \<Rightarrow> bind_outcome (fs_save_to_disk io (remove_entry i st)) (\<lambda>(_, st1).
               Ok (0, say ''Directory removed\<newline>'' st1))
           | None \<Rightarrow> Ok (- 1, say ''Error: Directory not found\<newline>'' st))"

definition cmd_touch :: "'d port_io \<Rightarrow> u8 list \<Rightarrow> 'd cmd_state \<Rightarrow> (int \<times> 'd cmd_state) outcome" where
  "cmd_touch io args st =
     (let (name, _) = get_token args 64
      in if name = [] then Ok (- 1, say ''Usage: TOUCH filename\<newline>'' st)
         else if fs_count st \<ge> FS_MAX_FILES then Ok (- 1, say ''Error: Filesystem full\<newline>'' st)
         else bind_outcome (build_path st name) (\<lambda>full_path.
           if find_index (name_is full_path) (fs_count st) (fs_table st) \<noteq> None
           then Ok (0, say ''File already exists\<newline>'' st)
           else bind_outcome (fs_save_to_disk io (add_entry full_path 0 0x20 st)) (\<lambda>(_, st1).
             Ok (0, emit [Puts (lit ''File created: ''), Puts name, Puts (lit ''\<newline>'')] st1))))"

definition cmd_del :: "'d port_io \<Rightarrow> u8 list \<Rightarrow> 'd cmd_state \<Rightarrow> (int \<times> 'd cmd_state) outcome" where
  "cmd_del io args st =
     (let (name, _) = get_token args 64
      in if name = [] then Ok (- 1, say ''Usage: DEL filename\<newline>'' st)
         else bind_outcome (build_path st name) (\<lambda>full_path.
           case find_index (\<lambda>e. name_is full_path e \<and> fe_type e = 0) (fs_count st) (fs_table st) of
             Some i \<Rightarrow> bind_outcome (fs_save_to_disk io (remove_entry i st)) (\<lambda>(_, st1).
               Ok (0, say ''File deleted\<newline>'' st1))
           | None \<Rightarrow> Ok (- 1, say ''Error: File not found\<newline>'' st)))"

text \<open>
  DIR lists the entries whose name continues the current directory without a further
  backslash.  The counters are \<^verbatim>\<open>file_count\<close>, \<^verbatim>\<open>dir_count\<close> and \<^verbatim>\<open>total_size\<close>.
\<close>

definition in_current_dir :: "u8 list \<Rightarrow> u8 list \<Rightarrow> bool" where
  "in_current_dir cd name =
     (take (length cd) name = cd \<and> drop (length cd) name \<noteq> [] \<and> 92 \<notin> set (drop (length cd) name))"

fun dir_lines :: "u8 list \<Rightarrow> fs_entry list \<Rightarrow> nat \<times> nat \<times> u32 \<Rightarrow> console_event list \<times> nat \<times> nat \<times> u32" where
  "dir_lines cd [] counts = ([], counts)"
| "dir_lines cd (e # es) (file_count, dir_count, total_size) =
     (let name = cstr (fe_name e); display_name = drop (length cd) name; buf = int_to_str (fe_size e)
      in if \<not> in_current_dir cd name then dir_lines cd es (file_count, dir_count, total_size)
         else if fe_type e = 1
         then (let (evs, r) = dir_lines cd es (file_count, dir_count + 1, total_size)
               in ([Puts (lit ''<DIR>      ''), Puts display_name, Puts (lit ''\<newline>'')] @ evs, r))
         else (let (evs, r) = dir_lines cd es (file_count + 1, dir_count, total_size + fe_size e)
               in ([Puts buf] @ replicate (11 - str_len buf) (Puts (lit '' '')) @
                   [Puts display_name, Puts (lit ''\<newline>'')] @ evs, r)))"

definition cmd_dir :: "u8 list \<Rightarrow> 'd cmd_state \<Rightarrow> (int \<times> 'd cmd_state) outcome" where
  "cmd_dir args st =
     (let cd = cstr (current_dir st);
          (evs, file_count, dir_count, total_size) =
            dir_lines cd (take (fs_count st) (fs_table st)) (0, 0, 0)
      in Ok (0, emit ([Puts (lit ''Directory of ''), Puts cd, Puts (lit ''\<newline>\<newline>'')] @ evs @
           [Puts (lit ''\<newline>''), Puts (int_to_str (of_nat file_count)), Puts (lit '' file(s), ''),
            Puts (int_to_str (of_nat dir_count)), Puts (lit '' dir(s), ''),
            Puts (int_to_str total_size), Puts (lit '' bytes\<newline>'')]) st))"

text \<open>\<^verbatim>\<open>CD ..\<close>: cut after the last backslash before the final one.\<close>

definition parent_dir :: "u8 list \<Rightarrow> u8 list" where
  "parent_dir arr =
     (let len = str_len (cstr arr)
      in if len > 3
         then (case find (\<lambda>i. arr ! i = 92) (rev [0..<len - 1]) of
                 Some i \<Rightarrow> arr[i + 1 := 0] | None \<Rightarrow> arr)
         else arr)"

definition enter_dir :: "u8 list \<Rightarrow> u8 list \<Rightarrow> u8 list outcome" where
  "enter_dir arr full_path =
     (let a = str_copy arr full_path 256; len = str_len (cstr a)
      in if len = 0 then Fault
         else if a ! (len - 1) \<noteq> 92
         then (if len + 1 < 256 then Ok (a[len := 92, len + 1 := 0]) else Fault)
         else Ok a)"

definition cmd_cd :: "'d port_io \<Rightarrow> u8 list \<Rightarrow> 'd cmd_state \<Rightarrow> (int \<times> 'd cmd_state) outcome" where
  "cmd_cd io args st =
     (let (name, _) = get_token args 64
      in if name = [] then Ok (0, say_line (cstr (current_dir st)) st)
         else if str_cmp name (lit ''..'') = 0
         then bind_outcome (fs_save_to_disk io (st\<lparr>current_dir := parent_dir (current_dir st)\<rparr>))
                (\<lambda>(_, st1). Ok (0, st1))
         else bind_outcome (build_path st name) (\<lambda>full_path.
           case find_index (\<lambda>e. name_is full_path e \<and> fe_type e = 1) (fs_count st) (fs_table st) of
             Some i \<Rightarrow> bind_outcome (enter_dir (current_dir st) full_path) (\<lambda>a.
               bind_outcome (fs_save_to_disk io (st\<lparr>current_dir := a\<rparr>)) (\<lambda>(_, st1). Ok (0, st1)))
           | None \<Rightarrow> Ok (- 1, say ''Directory not found\<newline>'' st)))"

text \<open>The first content whose \<^verbatim>\<open>file_idx\<close> is the given index.\<close>

definition find_content :: "nat \<Rightarrow> 'd cmd_state \<Rightarrow> nat option" where
  "find_content i st =
     find_index (\<lambda>c. unat (fc_file_idx c) = i) (file_content_count st) (file_contents st)"

text \<open>The display of one content: its bytes, and a newline unless it ends with one.\<close>

definition show_content :: "file_content \<Rightarrow> 'd cmd_state \<Rightarrow> (int \<times> 'd cmd_state) outcome" where
  "show_content c st =
     (if fc_size c = 0 then Ok (0, say ''(empty file)\<newline>'' st)
      else if unat (fc_size c) > length (fc_data c) then Fault
      else (let bytes = take (unat (fc_size c)) (fc_data c)
            in Ok (0, emit (map Putc bytes @
                 (if last bytes \<noteq> 10 then [Puts (lit ''\<newline>'')] else [])) st)))"

definition cmd_cat :: "u8 list \<Rightarrow> 'd cmd_state \<Rightarrow> (int \<times> 'd cmd_state) outcome" where
  "cmd_cat args st =
     (let (name, _) = get_token args 64
      in if name = [] then Ok (- 1, say ''Usage: CAT filename\<newline>'' st)
         else bind_outcome (build_path st name) (\<lambda>full_path.
           case find_index (\<lambda>e. name_is full_path e \<and> fe_type e = 0) (fs_count st) (fs_table st) of
             None \<Rightarrow> Ok (- 1, say ''File not found\<newline>'' st)
           | Some file_idx \<Rightarrow>
               if fe_size (fs_table st ! file_idx) = 0 then Ok (0, say ''(empty file)\<newline>'' st)
               else
                 let st1 = emit [Puts (lit ''Looking for file_idx=''), Puts (int_to_str (of_nat file_idx)),
                       Puts (lit '' in file_content_count=''),
                       Puts (int_to_str (of_nat (file_content_count st))), Puts (lit ''\<newline>'')] st
                 in case find_content file_idx st of
                      Some c \<Rightarrow> show_content (file_contents st ! c) st1
                    | None \<Rightarrow> Ok (0, say ''(empty file)\<newline>'' st1)))"

text \<open>
  The main loop of NANO.  The buffer is the list of the \<^verbatim>\<open>pos\<close> bytes typed so far (what lies
  behind them in the zeroed heap block is 0); the result says whether the edit was cancelled,
  and gives the buffer, the keys left and what was printed.
\<close>

definition nano_key_bytes :: "u8 \<Rightarrow> u8 list" where
  "nano_key_bytes key = (if key \<ge> 32 \<and> key \<le> 126 then [key] else if key = 13 \<or> key = 10 then [10] else [])"

text \<open>One key that does not end the edit: Ctrl+K, Backspace, a printable character or Enter.\<close>

definition nano_key :: "u8 list \<Rightarrow> u8 \<Rightarrow> u8 list \<Rightarrow> u8 list \<times> console_event list" where
  "nano_key name key buf =
     (if key = 11
      then ([], [Cls, Puts (lit ''\<newline>=== NANO Editor ===\<newline>''), Puts (lit ''File: ''), Puts name,
             Puts (lit ''\<newline>ESC=Save  Ctrl+C=Cancel  Ctrl+K=Clear\<newline>''),
             Puts (lit ''-------------------\<newline>[Cleared]\<newline>'')])
      else if key = 8
      then (if buf \<noteq> [] then (butlast buf, [Putc 8, Putc 32, Putc 8]) else (buf, []))
      else if length buf < MAX_FILE_SIZE - 1
      then (buf @ nano_key_bytes key, map Putc (nano_key_bytes key))
      else (buf, []))"

fun nano_edit :: "u8 list \<Rightarrow> u16 list \<Rightarrow> u8 list \<Rightarrow> console_event list \<Rightarrow>
    (bool \<times> u8 list \<times> u16 list \<times> console_event list) outcome" where
  "nano_edit name [] buf evs = Waiting"
| "nano_edit name (k # ks) buf evs =
     (let key = ucast (k AND 0xFF)
      in if key = 27 then Ok (False, buf, ks, evs)
         else if key = 3 then Ok (True, buf, ks, evs @ [Puts (lit ''\<newline>^C Cancelled\<newline>'')])
         else (let (buf', es) = nano_key name key buf in nano_edit name ks buf' (evs @ es)))"

text \<open>The stored content: slot \<open>content_idx\<close>, or the next free one.\<close>

definition store_content :: "nat \<Rightarrow> nat option \<Rightarrow> u8 list \<Rightarrow> 'd cmd_state \<Rightarrow> 'd cmd_state" where
  "store_content file_idx content_idx buf st =
     (let pos = length buf;
          c = (case content_idx of Some k \<Rightarrow> k | None \<Rightarrow> file_content_count st)
      in st\<lparr>file_content_count := (if content_idx = None then c + 1 else file_content_count st),
            file_contents := (file_contents st)[c := \<lparr>fc_file_idx = of_nat file_idx,
              fc_size = of_nat pos, fc_data = buf @ replicate (MAX_FILE_SIZE - pos) 0\<rparr>],
            fs_table := (fs_table st)[file_idx := (fs_table st ! file_idx)\<lparr>fe_size := of_nat pos\<rparr>]\<rparr>)"

text \<open>\<^verbatim>\<open>if (is_new_file) fs_count--;\<close>\<close>

definition undo_new :: "bool \<Rightarrow> 'd cmd_state \<Rightarrow> 'd cmd_state" where
  "undo_new is_new_file st = (if is_new_file then st\<lparr>fs_count := fs_count st - 1\<rparr> else st)"

text \<open>What NANO does after the edit: nothing, or the content is stored and the tables are saved.\<close>

definition nano_store ::
  "'d port_io \<Rightarrow> nat \<Rightarrow> bool \<Rightarrow> nat option \<Rightarrow> u8 list \<Rightarrow> 'd cmd_state \<Rightarrow> (int \<times> 'd cmd_state) outcome" where
  "nano_store io file_idx is_new_file content_idx buf st =
     (let st1 = say ''\<newline>'' st; pos = length buf
      in if pos = 0 then Ok (0, undo_new is_new_file (say ''Empty - not saved\<newline>'' st1))
         else if content_idx = None \<and> file_content_count st \<ge> 64
         then Ok (- 1, undo_new is_new_file (say ''Error: Too many files\<newline>'' st1))
         else bind_outcome (fs_save_to_disk io (store_content file_idx content_idx buf st1)) (\<lambda>(r, st3).
                if r = 0
                then Ok (0, emit [Puts (lit ''Saved ''), Puts (int_to_str (of_nat pos)),
                       Puts (lit '' bytes to disk\<newline>''), Puts (lit ''Verifying: fs_table[''),
                       Puts (int_to_str (of_nat file_idx)), Puts (lit ''].size = ''),
                       Puts (int_to_str (fe_size (fs_table st3 ! file_idx))), Puts (lit '' bytes\<newline>'')] st3)
                else Ok (- 1, say ''ERROR: Save failed!\<newline>'' st3)))"

text \<open>The content NANO starts from: at most 4095 bytes of what is stored.\<close>

definition nano_load :: "nat option \<Rightarrow> 'd cmd_state \<Rightarrow> u8 list" where
  "nano_load content_idx st =
     (case content_idx of
        Some c \<Rightarrow> (let fc = file_contents st ! c;
            load_size = (if unat (fc_size fc) \<ge> MAX_FILE_SIZE then MAX_FILE_SIZE - 1 else unat (fc_size fc))
          in take load_size (fc_data fc))
      | None \<Rightarrow> [])"

text \<open>
  NANO once the entry is there: the buffer (\<open>heap_ok\<close> tells whether \<^verbatim>\<open>kmalloc(MAX_FILE_SIZE)\<close>
  returns one), the old content, the edit loop and the store.
\<close>

definition nano_session ::
  "bool \<Rightarrow> 'd port_io \<Rightarrow> u8 list \<Rightarrow> nat \<Rightarrow> bool \<Rightarrow> 'd cmd_state \<Rightarrow> (int \<times> 'd cmd_state) outcome" where
  "nano_session heap_ok io name file_idx is_new_file st =
     (if \<not> heap_ok then Ok (- 1, undo_new is_new_file (say ''Error: Out of memory\<newline>'' st))
      else
        let content_idx = find_content file_idx st;
            old = nano_load content_idx st;
            fresh = (case content_idx of Some c \<Rightarrow> fc_size (file_contents st ! c) = 0 | None \<Rightarrow> True);
            st2 = emit (if fresh then [Puts (lit ''[New file...]\<newline>'')] else map Putc old) st
        in bind_outcome (nano_edit name (keys st2) old []) (\<lambda>(cancelled, buf, ks, evs).
             let st3 = emit evs (st2\<lparr>keys := ks\<rparr>)
             in if cancelled then Ok (0, undo_new is_new_file st3)
                else nano_store io file_idx is_new_file content_idx buf st3))"

definition nano_header :: "u8 list \<Rightarrow> nat \<Rightarrow> bool \<Rightarrow> console_event list" where
  "nano_header name file_idx is_new_file =
     [Puts (if is_new_file then lit ''[DEBUG] Created new file at index '' else lit ''[DEBUG] Found at index ''),
      Puts (int_to_str (of_nat file_idx)), Puts (lit ''\<newline>''),
      Puts (lit ''[DEBUG] Using file_idx = ''), Puts (int_to_str (of_nat file_idx)), Puts (lit ''\<newline>''),
      Puts (lit ''\<newline>=== NANO Editor ===\<newline>''), Puts (lit ''File: ''), Puts name, Puts (lit ''\<newline>''),
      Puts (lit ''ESC=Save  Ctrl+C=Cancel  Ctrl+K=Clear\<newline>''), Puts (lit ''-------------------\<newline>'')]"

definition cmd_nano ::
  "bool \<Rightarrow> 'd port_io \<Rightarrow> u8 list \<Rightarrow> 'd cmd_state \<Rightarrow> (int \<times> 'd cmd_state) outcome" where
  "cmd_nano heap_ok io args st =
     (let (name, _) = get_token args 64
      in if name = [] then Ok (- 1, say ''Usage: NANO filename\<newline>'' st)
         else bind_outcome (build_path st name) (\<lambda>full_path.
           let st0 = emit [Puts (lit ''[DEBUG] Looking for file: ''), Puts full_path,
                 Puts (lit ''\<newline>[DEBUG] fs_count = ''), Puts (int_to_str (of_nat (fs_count st))),
                 Puts (lit ''\<newline>'')] st
           in case find_index (\<lambda>e. name_is full_path e \<and> fe_type e = 0) (fs_count st) (fs_table st) of
                Some i \<Rightarrow> nano_session heap_ok io name i False (emit (nano_header name i False) st0)
              | None \<Rightarrow>
                  if fs_count st \<ge> FS_MAX_FILES then Ok (- 1, say ''Error: Filesystem full\<newline>'' st0)
                  else nano_session heap_ok io name (fs_count st) True
                    (emit (nano_header name (fs_count st) True) (add_entry full_path 0 0x20 st0))))"

text \<open>COPY: the new entry, then the copy of the source's content if there is a free slot.\<close>

definition copy_entry :: "nat \<Rightarrow> u8 list \<Rightarrow> 'd cmd_state \<Rightarrow> 'd cmd_state" where
  "copy_entry src_idx dst st =
     (let k = fs_count st; s = fs_table st ! src_idx
      in st\<lparr>fs_table := (fs_table st)[k := (blank_entry (fs_table st ! k) dst)
              \<lparr>fe_size := fe_size s, fe_type := 0, fe_attr := fe_attr s\<rparr>],
            fs_count := k + 1\<rparr>)"

definition copy_content :: "nat \<Rightarrow> nat \<Rightarrow> 'd cmd_state \<Rightarrow> 'd cmd_state outcome" where
  "copy_content src_idx dst_idx st =
     (case find_content src_idx st of
        Some i \<Rightarrow>
          (let n = file_content_count st; c = file_contents st ! i; sz = unat (fc_size c)
           in if n \<ge> 64 then Ok st
              else if sz > MAX_FILE_SIZE then Fault
              else Ok (st\<lparr>file_contents := (file_contents st)[n :=
                       \<lparr>fc_file_idx = of_nat dst_idx, fc_size = fc_size c,
                        fc_data = take sz (fc_data c) @ drop sz (fc_data (file_contents st ! n))\<rparr>],
                     file_content_count := n + 1\<rparr>))
      | None \<Rightarrow> Ok st)"

definition cmd_copy :: "'d port_io \<Rightarrow> u8 list \<Rightarrow> 'd cmd_state \<Rightarrow> (int \<times> 'd cmd_state) outcome" where
  "cmd_copy io args st =
     (let (src, args1) = get_token args 64; (dst, _) = get_token args1 64
      in if src = [] \<or> dst = [] then Ok (- 1, say ''Usage: COPY source dest\<newline>'' st)
         else case find_index (\<lambda>e. name_is src e \<and> fe_type e = 0) (fs_count st) (fs_table st) of
             None \<Rightarrow> Ok (- 1, say ''Source file not found\<newline>'' st)
           | Some src_idx \<Rightarrow>
               if fs_count st \<ge> FS_MAX_FILES then Ok (- 1, say ''Error: Filesystem full\<newline>'' st)
               else bind_outcome (copy_content src_idx (fs_count st) (copy_entry src_idx dst st)) (\<lambda>st1.
                 bind_outcome (fs_save_to_disk io st1) (\<lambda>(_, st2).
                   Ok (0, say ''File copied\<newline>'' st2))))"

definition cmd_move :: "'d port_io \<Rightarrow> u8 list \<Rightarrow> 'd cmd_state \<Rightarrow> (int \<times> 'd cmd_state) outcome" where
  "cmd_move io args st =
     (let (src, args1) = get_token args 64; (dst, _) = get_token args1 64
      in if src = [] \<or> dst = [] then Ok (- 1, say ''Usage: MOVE source dest\<newline>'' st)
         else case find_index (name_is src) (fs_count st) (fs_table st) of
             Some i \<Rightarrow> bind_outcome
               (fs_save_to_disk io (st\<lparr>fs_table := (fs_table st)[i := blank_entry (fs_table st ! i) dst]\<rparr>))
               (\<lambda>(_, st1). Ok (0, say ''File moved\<newline>'' st1))
           | None \<Rightarrow> Ok (- 1, say ''File not found\<newline>'' st))"

definition name_matches :: "u8 list \<Rightarrow> u8 list \<Rightarrow> bool" where
  "name_matches pattern name =
     list_ex (\<lambda>j. take (length pattern) (drop j name) = pattern) [0..<length name]"

definition cmd_find :: "u8 list \<Rightarrow> 'd cmd_state \<Rightarrow> (int \<times> 'd cmd_state) outcome" where
  "cmd_find args st =
     (let (pattern, _) = get_token args 64
      in if pattern = [] then Ok (- 1, say ''Usage: FIND pattern\<newline>'' st)
         else (let hits = filter (name_matches pattern)
                     (map (\<lambda>e. cstr (fe_name e)) (take (fs_count st) (fs_table st)))
               in Ok (0, emit (if hits = [] then [Puts (lit ''No files found\<newline>'')]
                               else concat (map (\<lambda>n. [Puts n, Puts (lit ''\<newline>'')]) hits)) st)))"

definition cmd_tree :: "u8 list \<Rightarrow> 'd cmd_state \<Rightarrow> (int \<times> 'd cmd_state) outcome" where
  "cmd_tree args st =
     Ok (0, emit ([Puts (lit ''Directory tree:\<newline>''), Puts (cstr (current_dir st)), Puts (lit ''\<newline>'')] @
       concat (map (\<lambda>e. [Puts (lit ''  ''), Puts (if fe_type e = 1 then lit ''[DIR] '' else lit ''[FILE] ''),
           Puts (cstr (fe_name e)), Puts (lit ''\<newline>'')]) (take (fs_count st) (fs_table st)))) st)"

definition cmd_attrib :: "u8 list \<Rightarrow> 'd cmd_state \<Rightarrow> (int \<times> 'd cmd_state) outcome" where
  "cmd_attrib args st =
     (let (name, _) = get_token args 64
      in if name = []
         then Ok (0, emit (concat (map (\<lambda>e. [Puts (lit ''0x''), Puts (hex_text (ucast (fe_attr e))),
                Puts (lit '' ''), Puts (cstr (fe_name e)), Puts (lit ''\<newline>'')])
                (take (fs_count st) (fs_table st)))) st)
         else case find_index (name_is name) (fs_count st) (fs_table st) of
             Some i \<Rightarrow> Ok (0, emit [Puts (lit ''Attributes: 0x''),
               Puts (hex_text (ucast (fe_attr (fs_table st ! i)))), Puts (lit ''\<newline>'')] st)
           | None \<Rightarrow> Ok (0, say ''File not found\<newline>'' st))"

definition cmd_chmod :: "'d port_io \<Rightarrow> u8 list \<Rightarrow> 'd cmd_state \<Rightarrow> (int \<times> 'd cmd_state) outcome" where
  "cmd_chmod io args st =
     (let (mode, args1) = get_token args 16; (name, _) = get_token args1 64
      in if mode = [] \<or> name = [] then Ok (- 1, say ''Usage: CHMOD mode filename\<newline>'' st)
         else case find_index (name_is name) (fs_count st) (fs_table st) of
             Some i \<Rightarrow> bind_outcome
               (fs_save_to_disk io (st\<lparr>fs_table := (fs_table st)
                  [i := (fs_table st ! i)\<lparr>fe_attr := ucast (str_to_int mode)\<rparr>]\<rparr>))
               (\<lambda>(_, st1). Ok (0, say ''Attributes changed\<newline>'' st1))
           | None \<Rightarrow> Ok (- 1, say ''File not found\<newline>'' st))"

definition cmd_vol :: "u8 list \<Rightarrow> 'd cmd_state \<Rightarrow> (int \<times> 'd cmd_state) outcome" where
  "cmd_vol args st = Ok (0, emit [Puts (lit ''Volume in drive C has no label\<newline>''),
     Puts (lit ''Volume Serial Number is 1234-5678\<newline>'')] st)"

definition cmd_label :: "u8 list \<Rightarrow> 'd cmd_state \<Rightarrow> (int \<times> 'd cmd_state) outcome" where
  "cmd_label args st =
     Ok (0, say ''Volume label command - not implemented in basic filesystem\<newline>'' st)"

definition cmd_chkdsk :: "u8 list \<Rightarrow> 'd cmd_state \<Rightarrow> (int \<times> 'd cmd_state) outcome" where
  "cmd_chkdsk args st =
     (let total = sum_list (map fe_size (take (fs_count st) (fs_table st)))
      in Ok (0, emit [Puts (lit ''Checking disk...\<newline>''), Puts (lit ''Files: ''),
           Puts (int_to_str (of_nat (fs_count st))), Puts (lit ''/''),
           Puts (int_to_str (of_nat FS_MAX_FILES)), Puts (lit ''\<newline>''), Puts (lit ''Total size: ''),
           Puts (int_to_str total), Puts (lit '' bytes\<newline>''),
           Puts (lit ''Disk check complete - no errors found\<newline>'')] st))"

definition cmd_format :: "'d port_io \<Rightarrow> u8 list \<Rightarrow> 'd cmd_state \<Rightarrow> (int \<times> 'd cmd_state) outcome" where
  "cmd_format io args st =
     (let st1 = emit [Puts (lit ''WARNING: This will erase all data!\<newline>''),
            Puts (lit ''Press Y to confirm or any key to cancel: '')] st
      in case keys st1 of [] \<Rightarrow> Waiting
         | k # ks \<Rightarrow>
             (let key = ucast (k AND 0xFF);
                  st2 = emit [Putc key, Puts (lit ''\<newline>'')] (st1\<lparr>keys := ks\<rparr>)
              in if key = 89 \<or> key = 121
                 then bind_outcome (fs_save_to_disk io (st2\<lparr>fs_count := 0, file_content_count := 0\<rparr>))
                        (\<lambda>(_, st3). Ok (0, say ''Format complete\<newline>'' st3))
                 else Ok (0, say ''Format cancelled\<newline>'' st2)))"

definition cmd_diskpart :: "u8 list \<Rightarrow> 'd cmd_state \<Rightarrow> (int \<times> 'd cmd_state) outcome" where
  "cmd_diskpart args st = Ok (0, emit [Puts (lit ''Disk Information:\<newline>''),
     Puts (lit ''Disk 0: Primary disk\<newline>''), Puts (lit ''  Partition 1: C: (Active)\<newline>''),
     Puts (lit ''  Type: FAT12\<newline>''), Puts (lit ''  Size: 1.44 MB\<newline>'')] st)"

section \<open>The contract of a command\<close>

definition wf_process :: "process_entry \<Rightarrow> bool" where
  "wf_process p \<longleftrightarrow> length (pe_name p) = 32 \<and> 0 \<in> set (pe_name p) \<and>
     length (pe_state p) = 16 \<and> 0 \<in> set (pe_state p)"

definition cmd_wf :: "'d cmd_state \<Rightarrow> bool" where
  "cmd_wf st \<longleftrightarrow> fs_wf st \<and> length (current_user st) = 32 \<and> 0 \<in> set (current_user st) \<and>
     length (process_table st) = 16 \<and> process_count st \<le> 16 \<and>
     (\<forall>p \<in> set (process_table st). wf_process p)"

definition safe_result :: "(int \<times> 'd cmd_state) outcome \<Rightarrow> bool" where
  "safe_result out = (case out of Ok (r, st) \<Rightarrow> cmd_wf st | Fault \<Rightarrow> False | Waiting \<Rightarrow> True)"

text \<open>
  What every command promises the dispatcher: on a well-formed state and a C string of
  arguments it does not leave an array, and the state it returns is well-formed.
\<close>

locale safe_command =
  fixes cmd :: "u8 list \<Rightarrow> 'd cmd_state \<Rightarrow> (int \<times> 'd cmd_state) outcome"
  assumes safe: "cmd_wf st \<Longrightarrow> 0 \<notin> set args \<Longrightarrow> safe_result (cmd args st)"
begin

lemma no_fault: "cmd_wf st \<Longrightarrow> 0 \<notin> set args \<Longrightarrow> cmd args st \<noteq> Fault"
  using safe [of st args] by (auto simp: safe_result_def)

lemma keeps_wf: "cmd_wf st \<Longrightarrow> 0 \<notin> set args \<Longrightarrow> cmd args st = Ok (r, st') \<Longrightarrow> cmd_wf st'"
  using safe [of st args] by (auto simp: safe_result_def)

end

lemma safe_Ok [simp]: "safe_result (Ok (r, st)) = cmd_wf st" "safe_result Waiting" "\<not> safe_result Fault"
  by (simp_all add: safe_result_def)

lemma wf_io [simp]:
  "cmd_wf (emit es st) = cmd_wf st" "cmd_wf (say t st) = cmd_wf st" "cmd_wf (say_line u st) = cmd_wf st"
  "cmd_wf (st\<lparr>dev := d\<rparr>) = cmd_wf st" "cmd_wf (st\<lparr>keys := ks\<rparr>) = cmd_wf st"
  "cmd_wf (st\<lparr>console := cs\<rparr>) = cmd_wf st" "cmd_wf (st\<lparr>current_color := k\<rparr>) = cmd_wf st"
  by (simp_all add: cmd_wf_def fs_wf_def emit_def say_def say_line_def)

lemma emit_sel [simp]:
  "fs_table (emit es st) = fs_table st" "fs_count (emit es st) = fs_count st"
  "file_contents (emit es st) = file_contents st"
  "file_content_count (emit es st) = file_content_count st"
  "current_dir (emit es st) = current_dir st" "keys (emit es st) = keys st" "dev (emit es st) = dev st"
  "user_table (emit es st) = user_table st" "user_count (emit es st) = user_count st"
  "process_table (emit es st) = process_table st" "process_count (emit es st) = process_count st"
  "current_user (emit es st) = current_user st"
  by (simp_all add: emit_def)

lemma run_plan_total:
  "\<forall>op \<in> set ops. op_ok op \<Longrightarrow> \<exists>r d'. run_plan io ops d = Ok (r, d')"
proof (induction ops arbitrary: d)
  case (Cons op ops)
  then show ?case by (cases op) (auto split: prod.split)
qed simp

lemma save_total:
  assumes "cmd_wf st"
  shows "\<exists>r d. fs_save_to_disk io st = Ok (r, st\<lparr>dev := d\<rparr>)"
proof -
  have "fs_wf st" using assms by (simp add: cmd_wf_def)
  from run_plan_total [OF save_plan_op_ok [OF this], of io "dev st"] show ?thesis
    by (auto simp: fs_save_to_disk_def)
qed

lemma safe_save:
  assumes "cmd_wf st" and "\<And>r d. safe_result (f (r, st\<lparr>dev := d\<rparr>))"
  shows "safe_result (bind_outcome (fs_save_to_disk io st) f)"
proof -
  obtain r d where "fs_save_to_disk io st = Ok (r, st\<lparr>dev := d\<rparr>)"
    using save_total [OF assms(1)] by blast
  then show ?thesis using assms(2) by simp
qed

section \<open>The operations on the tables keep the state well-formed\<close>

lemma curdir_short: "cmd_wf st \<Longrightarrow> length (cstr (current_dir st)) \<le> 56"
  by (simp add: cmd_wf_def fs_wf_def wf_curdir_def)

lemma build_path_ok:
  assumes "cmd_wf st" and "get_token args 64 = (name, r)"
  shows "build_path st name = Ok (cstr (current_dir st) @ name)"
  using curdir_short [OF assms(1)] get_token_spec [OF assms(2)] by (auto simp: build_path_def Let_def)

lemma path_bytes:
  assumes "cmd_wf st" and "get_token args 64 = (name, r)" and "0 \<notin> set args"
  shows "0 \<notin> set (cstr (current_dir st) @ name)" and "cstr (current_dir st) @ name \<noteq> []"
proof -
  show "0 \<notin> set (cstr (current_dir st) @ name)"
    using get_token_nonzero(1) [OF assms(2,3)] cstr_nonzero by auto
  have "take 3 (cstr (current_dir st)) = [67, 58, 92]"
    using assms(1) by (simp add: cmd_wf_def fs_wf_def wf_curdir_def)
  then show "cstr (current_dir st) @ name \<noteq> []" by auto
qed

lemma str_copy_hd: "path \<noteq> [] \<Longrightarrow> 1 < n \<Longrightarrow> str_copy a path n ! 0 = path ! 0"
  by (cases path) (auto simp: str_copy_def Let_def nth_append take_Cons')

lemma path_first: "path \<noteq> [] \<Longrightarrow> 0 \<notin> set path \<Longrightarrow> path ! 0 \<noteq> 0"
  by (cases path) auto

lemma blank_entry_wf: "wf_entry e \<Longrightarrow> wf_entry (blank_entry e path)"
  by (simp add: wf_entry_def blank_entry_def length_str_copy nul_str_copy FS_MAX_FILENAME_def)

lemma blank_entry_first:
  "path \<noteq> [] \<Longrightarrow> 0 \<notin> set path \<Longrightarrow> fe_name (blank_entry e path) ! 0 \<noteq> 0"
  using path_first by (simp add: blank_entry_def str_copy_hd FS_MAX_FILENAME_def)

lemma wf_set_entry:
  assumes "cmd_wf st" and "wf_entry e" and "i < 128" and "fe_name e ! 0 \<noteq> 0"
    and "n = fs_count st \<or> i = fs_count st \<and> n = Suc i"
  shows "cmd_wf (st\<lparr>fs_table := (fs_table st)[i := e], fs_count := n\<rparr>)"
proof -
  have t: "\<forall>x \<in> set ((fs_table st)[i := e]). wf_entry x"
    using assms(1,2) by (intro ball_update) (simp_all add: cmd_wf_def fs_wf_def)
  have len: "length (fs_table st) = 128" and first: "\<forall>k < fs_count st. fe_name (fs_table st ! k) ! 0 \<noteq> 0"
    using assms(1) by (simp_all add: cmd_wf_def fs_wf_def)
  have l: "fe_name ((fs_table st)[i := e] ! k) ! 0 \<noteq> 0" if "k < n" for k
    using that first assms(3-5) len by (cases "k = i") auto
  have "n \<le> 128" using assms(1,3,5) by (auto simp: cmd_wf_def fs_wf_def)
  then show ?thesis using assms(1) t l by (simp add: cmd_wf_def fs_wf_def)
qed

lemma wf_update_entry:
  assumes "cmd_wf st" and "wf_entry e" and "i < fs_count st" and "fe_name e ! 0 \<noteq> 0"
  shows "cmd_wf (st\<lparr>fs_table := (fs_table st)[i := e]\<rparr>)"
proof -
  have "i < 128" using assms(1,3) by (auto simp: cmd_wf_def fs_wf_def)
  from wf_set_entry [OF assms(1,2) this assms(4), of "fs_count st"] show ?thesis by simp
qed

lemma wf_entry_nth: "cmd_wf st \<Longrightarrow> i < 128 \<Longrightarrow> wf_entry (fs_table st ! i)"
  by (auto simp: cmd_wf_def fs_wf_def)

lemma wf_live_first: "cmd_wf st \<Longrightarrow> i < fs_count st \<Longrightarrow> fe_name (fs_table st ! i) ! 0 \<noteq> 0"
  by (auto simp: cmd_wf_def fs_wf_def)

lemma wf_count: "cmd_wf st \<Longrightarrow> fs_count st \<le> 128" "cmd_wf st \<Longrightarrow> file_content_count st \<le> 64"
  by (auto simp: cmd_wf_def fs_wf_def)

lemma wf_add_entry:
  assumes "cmd_wf st" and "fs_count st < 128" and "path \<noteq> []" and "0 \<notin> set path"
  shows "cmd_wf (add_entry path t a st)"
proof -
  have "wf_entry ((blank_entry (fs_table st ! fs_count st) path)\<lparr>fe_size := 0, fe_type := t, fe_attr := a\<rparr>)"
    using blank_entry_wf [OF wf_entry_nth [OF assms(1,2)], of path] by (simp add: wf_entry_def)
  from wf_set_entry [OF assms(1) this assms(2)] blank_entry_first [OF assms(3,4)] show ?thesis
    by (simp add: add_entry_def)
qed

lemma remove_at_nth:
  assumes "i < count" and "count \<le> length xs" and "k < count - 1"
  shows "remove_at xs i count ! k = (if k < i then xs ! k else xs ! (k + 1))"
  using assms by (auto simp: remove_at_def shift_down_nth)

lemma remove_at_set: "i < count \<Longrightarrow> count \<le> length xs \<Longrightarrow> set (remove_at xs i count) \<subseteq> set xs"
proof
  fix x
  assume a: "i < count" "count \<le> length xs" and "x \<in> set (remove_at xs i count)"
  then obtain k where "k < length xs" "x = shift_down xs i (count - 1 - i) ! k"
    by (auto simp: in_set_conv_nth remove_at_def)
  with a show "x \<in> set xs" by (auto simp: shift_down_nth)
qed

lemma wf_remove_entry:
  assumes "cmd_wf st" and "i < fs_count st"
  shows "cmd_wf (remove_entry i st)"
proof -
  have c: "fs_count st \<le> length (fs_table st)" using assms(1) by (simp add: cmd_wf_def fs_wf_def)
  show ?thesis
    using assms remove_at_set [OF assms(2) c] remove_at_nth [OF assms(2) c]
    by (auto simp: remove_entry_def cmd_wf_def fs_wf_def)
qed

lemma wf_set_content:
  assumes "cmd_wf st" and "wf_content c" and "n \<le> 64"
  shows "cmd_wf (st\<lparr>file_contents := (file_contents st)[k := c], file_content_count := n\<rparr>)"
proof -
  have "\<forall>x \<in> set ((file_contents st)[k := c]). wf_content x"
    using assms(1,2) by (intro ball_update) (simp_all add: cmd_wf_def fs_wf_def)
  then show ?thesis using assms(1,3) by (simp add: cmd_wf_def fs_wf_def)
qed

lemma cstr_update_nul:
  "k \<le> length (cstr arr) \<Longrightarrow> k < length arr \<Longrightarrow> cstr (arr[k := 0]) = take k (cstr arr)"
proof (induction arr arbitrary: k)
  case (Cons a arr)
  then show ?case by (cases k) (auto simp: cstr_def split: if_splits)
qed simp

lemma cstr_nth: "i < length (cstr arr) \<Longrightarrow> arr ! i = cstr arr ! i"
  by (simp add: cstr_def takeWhile_nth)

lemma wf_parent_dir:
  assumes "wf_curdir a"
  shows "wf_curdir (parent_dir a)"
proof (cases "length (cstr a) > 3")
  case True
  let ?s = "cstr a" and ?len = "length (cstr a)"
  have a: "length a = 256" "take 3 ?s = [67, 58, 92]" "?len \<le> 56" "0 \<in> set a"
    using assms by (auto simp: wf_curdir_def)
  have s2: "?s ! 2 = 92" using a(2) True nth_take [of 2 3 ?s] by simp
  show ?thesis
  proof (cases "find (\<lambda>i. a ! i = 92) (rev [0..<?len - 1])")
    case None
    then show ?thesis using True assms by (simp add: parent_dir_def str_len_def Let_def)
  next
    case (Some i)
    then obtain k where k: "k < ?len - 1" "rev [0..<?len - 1] ! k = i" "a ! i = 92"
      "\<forall>j<k. a ! (rev [0..<?len - 1] ! j) \<noteq> 92"
      by (auto simp: find_Some_iff)
    have i: "i = ?len - 2 - k" "i < ?len - 1" using k(1,2) by (auto simp: rev_nth)
    have "2 \<le> i"
    proof (rule ccontr)
      assume "\<not> 2 \<le> i"
      then have "?len - 4 < k" using i k(1) True by auto
      moreover have "rev [0..<?len - 1] ! (?len - 4) = 2"
        using True k(1) by (auto simp: rev_nth)
      moreover have "a ! 2 = 92" using s2 cstr_nth [of 2 a] True by simp
      ultimately show False using k(4) by (metis)
    qed
    have new: "cstr (a[i + 1 := 0]) = take (i + 1) ?s"
      using i(2) a(1,3) by (intro cstr_update_nul) auto
    have "last (take (i + 1) ?s) = ?s ! i"
      using i(2) by (simp add: take_Suc_conv_app_nth)
    also have "\<dots> = 92" using k(3) i(2) cstr_nth [of i a] by simp
    finally have "wf_curdir (a[i + 1 := 0])"
      using a new \<open>2 \<le> i\<close> i(2)
      by (auto simp: wf_curdir_def min_def set_update_memI)
    then show ?thesis using True Some by (simp add: parent_dir_def str_len_def Let_def)
  qed
qed (use assms in \<open>simp add: parent_dir_def str_len_def Let_def\<close>)

lemma take3_length: "take 3 p = [a, b, c] \<Longrightarrow> 3 \<le> length p"
  by (drule arg_cong [of _ _ length]) simp

lemma enter_dir_ok:
  assumes "wf_curdir arr" and "length path \<le> 55" and "0 \<notin> set path" and "take 3 path = [67, 58, 92]"
  shows "\<exists>a. enter_dir arr path = Ok a \<and> wf_curdir a \<and>
    cstr a = (if last path = 92 then path else path @ [92])"
proof -
  have ne: "path \<noteq> []" using assms(4) by auto
  have len: "length arr = 256" using assms(1) by (simp add: wf_curdir_def)
  define r where "r = drop (length path + 1) arr"
  have a: "str_copy arr path 256 = path @ 0 # r"
    using assms(2) by (simp add: str_copy_def Let_def r_def)
  have c: "cstr (path @ 0 # r) = path" by (rule cstr_prefix [OF assms(3)])
  have lr: "length r = 255 - length path" using len by (simp add: r_def)
  have nth: "(path @ 0 # r) ! (length path - 1) = last path" using ne by (simp add: nth_append last_conv_nth)
  show ?thesis
  proof (cases "last path = 92")
    case True
    have "wf_curdir (path @ 0 # r)" using c lr assms(2,4) True by (simp add: wf_curdir_def)
    then show ?thesis using True a c nth ne by (simp add: enter_dir_def str_len_def Let_def)
  next
    case False
    obtain r0 rs where rs: "r = r0 # rs" using lr assms(2) by (cases r) auto
    let ?a = "path @ 92 # 0 # rs"
    have upd: "(path @ 0 # r)[length path := 92, length path + 1 := 0] = ?a"
      by (simp add: rs list_update_append)
    have c2: "cstr ?a = path @ [92]" using cstr_prefix [of "path @ [92]" rs] assms(3) by simp
    have "wf_curdir ?a"
      using c2 lr assms(2,4) rs take3_length [OF assms(4)] by (simp add: wf_curdir_def)
    then show ?thesis using False a c nth ne upd c2 assms(2) by (simp add: enter_dir_def str_len_def Let_def)
  qed
qed

lemma name_is_iff: "0 \<notin> set path \<Longrightarrow> name_is path e \<longleftrightarrow> cstr (fe_name e) = path"
  by (simp add: name_is_def str_cmp_eq_iff cstr_nonzero)

lemma found_path_short:
  assumes "cmd_wf st" and "0 \<notin> set path" and "i < fs_count st" and "name_is path (fs_table st ! i)"
  shows "length path \<le> 55"
proof -
  have "wf_entry (fs_table st ! i)"
    using assms(1,3) wf_count(1) [OF assms(1)] by (intro wf_entry_nth) auto
  then show ?thesis
    using assms(2,4) cstr_length [of "fe_name (fs_table st ! i)"] by (auto simp: name_is_iff wf_entry_def)
qed

lemma wf_set_curdir: "cmd_wf st \<Longrightarrow> wf_curdir a \<Longrightarrow> cmd_wf (st\<lparr>current_dir := a\<rparr>)"
  by (simp add: cmd_wf_def fs_wf_def)

lemma wf_curdir_of: "cmd_wf st \<Longrightarrow> wf_curdir (current_dir st)"
  by (simp add: cmd_wf_def fs_wf_def)

section \<open>Every file command meets the contract\<close>

interpretation mkdir: safe_command "cmd_mkdir io" for io :: "'d port_io"
proof
  fix st :: "'d cmd_state" and args :: "u8 list"
  assume wf: "cmd_wf st" and a: "0 \<notin> set args"
  obtain name r where tok: "get_token args 64 = (name, r)" by fastforce
  show "safe_result (cmd_mkdir io args st)"
    using wf build_path_ok [OF wf tok] path_bytes [OF wf tok a]
    by (auto simp: cmd_mkdir_def tok FS_MAX_FILES_def intro!: safe_save wf_add_entry)
qed

interpretation touch: safe_command "cmd_touch io" for io :: "'d port_io"
proof
  fix st :: "'d cmd_state" and args :: "u8 list"
  assume wf: "cmd_wf st" and a: "0 \<notin> set args"
  obtain name r where tok: "get_token args 64 = (name, r)" by fastforce
  show "safe_result (cmd_touch io args st)"
    using wf build_path_ok [OF wf tok] path_bytes [OF wf tok a]
    by (auto simp: cmd_touch_def tok FS_MAX_FILES_def intro!: safe_save wf_add_entry)
qed

interpretation rmdir: safe_command "cmd_rmdir io" for io :: "'d port_io"
proof
  fix st :: "'d cmd_state" and args :: "u8 list"
  assume wf: "cmd_wf st"
  show "safe_result (cmd_rmdir io args st)"
    using wf by (auto simp: cmd_rmdir_def split: prod.split option.split dest!: find_index_Some
        intro!: safe_save wf_remove_entry)
qed

interpretation del: safe_command "cmd_del io" for io :: "'d port_io"
proof
  fix st :: "'d cmd_state" and args :: "u8 list"
  assume wf: "cmd_wf st" and a: "0 \<notin> set args"
  obtain name r where tok: "get_token args 64 = (name, r)" by fastforce
  show "safe_result (cmd_del io args st)"
    using wf build_path_ok [OF wf tok]
    by (auto simp: cmd_del_def tok split: option.split dest!: find_index_Some
        intro!: safe_save wf_remove_entry)
qed

interpretation cd: safe_command "cmd_cd io" for io :: "'d port_io"
proof
  fix st :: "'d cmd_state" and args :: "u8 list"
  assume wf: "cmd_wf st" and a: "0 \<notin> set args"
  obtain name r where tok: "get_token args 64 = (name, r)" by fastforce
  let ?p = "cstr (current_dir st) @ name"
  note b = build_path_ok [OF wf tok] and p = path_bytes [OF wf tok a]
  have c: "wf_curdir (current_dir st)" by (rule wf_curdir_of [OF wf])
  have "take 3 (cstr (current_dir st)) = [67, 58, 92]" using c by (simp add: wf_curdir_def)
  with take3_length [OF this] have t: "take 3 ?p = [67, 58, 92]" by simp
  have enter: "\<exists>x. enter_dir (current_dir st) ?p = Ok x \<and> wf_curdir x"
    if "find_index (\<lambda>e. name_is ?p e \<and> fe_type e = 1) (fs_count st) (fs_table st) = Some i" for i
    using enter_dir_ok [OF c found_path_short [OF wf p(1)] p(1) t] find_index_Some [OF that] by blast
  show "safe_result (cmd_cd io args st)"
    using wf b wf_parent_dir [OF c] enter
    by (auto simp: cmd_cd_def tok split: option.split intro!: safe_save wf_set_curdir)
qed

lemma safe_show_content: "wf_content c \<Longrightarrow> cmd_wf st \<Longrightarrow> safe_result (show_content c st)"
  by (simp add: show_content_def Let_def wf_content_def)

interpretation cat: safe_command cmd_cat
proof
  fix st :: "'d cmd_state" and args :: "u8 list"
  assume wf: "cmd_wf st" and a: "0 \<notin> set args"
  obtain name r where tok: "get_token args 64 = (name, r)" by fastforce
  have "wf_content (file_contents st ! c)" if "find_content i st = Some c" for i c
    using that wf by (auto simp: find_content_def cmd_wf_def fs_wf_def dest!: find_index_Some)
  then show "safe_result (cmd_cat args st)"
    using wf build_path_ok [OF wf tok]
    by (auto simp: cmd_cat_def tok Let_def split: option.split intro!: safe_show_content)
qed

interpretation move: safe_command "cmd_move io" for io :: "'d port_io"
proof
  fix st :: "'d cmd_state" and args :: "u8 list"
  assume wf: "cmd_wf st" and a: "0 \<notin> set args"
  obtain src r where t1: "get_token args 64 = (src, r)" by fastforce
  obtain dst r' where t2: "get_token r 64 = (dst, r')" by fastforce
  have d: "0 \<notin> set dst" using get_token_nonzero [OF t1 a] get_token_nonzero [OF t2] by blast
  have "cmd_wf (st\<lparr>fs_table := (fs_table st)[i := blank_entry (fs_table st ! i) dst]\<rparr>)"
    if "i < fs_count st" "dst \<noteq> []" for i
    using that wf_count(1) [OF wf]
    by (intro wf_update_entry wf blank_entry_wf wf_entry_nth blank_entry_first d) auto
  then show "safe_result (cmd_move io args st)"
    using wf by (auto simp: cmd_move_def t1 t2 split: option.split dest!: find_index_Some
        intro!: safe_save)
qed

interpretation chmod: safe_command "cmd_chmod io" for io :: "'d port_io"
proof
  fix st :: "'d cmd_state" and args :: "u8 list"
  assume wf: "cmd_wf st" and a: "0 \<notin> set args"
  have "cmd_wf (st\<lparr>fs_table := (fs_table st)[i := (fs_table st ! i)\<lparr>fe_attr := x\<rparr>]\<rparr>)"
    if "i < fs_count st" for i x
    using that wf_count(1) [OF wf] wf_entry_nth [OF wf, of i] wf_live_first [OF wf, of i]
    by (intro wf_update_entry wf) (auto simp: wf_entry_def)
  then show "safe_result (cmd_chmod io args st)"
    using wf by (auto simp: cmd_chmod_def split: prod.split option.split dest!: find_index_Some
        intro!: safe_save)
qed

interpretation format: safe_command "cmd_format io" for io :: "'d port_io"
proof
  fix st :: "'d cmd_state" and args :: "u8 list"
  assume wf: "cmd_wf st"
  have "cmd_wf (s\<lparr>fs_count := 0, file_content_count := 0\<rparr>)" if "cmd_wf s" for s :: "'d cmd_state"
    using that by (simp add: cmd_wf_def fs_wf_def)
  then show "safe_result (cmd_format io args st)"
    using wf by (auto simp: cmd_format_def Let_def split: list.split intro!: safe_save)
qed

lemma wf_copy_entry:
  assumes "cmd_wf st" and "fs_count st < 128" and "dst \<noteq> []" and "0 \<notin> set dst"
  shows "cmd_wf (copy_entry i dst st)"
  using blank_entry_first [OF assms(3,4)] blank_entry_wf [OF wf_entry_nth [OF assms(1,2)], of dst] assms(2)
  by (auto simp: copy_entry_def Let_def wf_entry_def intro!: wf_set_entry assms(1))

lemma found_content_wf: "cmd_wf st \<Longrightarrow> find_content i st = Some c \<Longrightarrow> wf_content (file_contents st ! c)"
  by (auto simp: find_content_def cmd_wf_def fs_wf_def dest!: find_index_Some)

lemma wf_copy_content:
  assumes "cmd_wf st"
  shows "\<exists>st'. copy_content i j st = Ok st' \<and> cmd_wf st'"
proof (cases "find_content i st")
  case (Some c)
  let ?n = "file_content_count st" and ?c = "file_contents st ! c"
  show ?thesis
  proof (cases "?n < 64")
    case True
    have "wf_content ?c" by (rule found_content_wf [OF assms Some])
    moreover have "wf_content (file_contents st ! ?n)" using assms True by (auto simp: cmd_wf_def fs_wf_def)
    ultimately have "wf_content \<lparr>fc_file_idx = of_nat j, fc_size = fc_size ?c,
        fc_data = take (unat (fc_size ?c)) (fc_data ?c) @
          drop (unat (fc_size ?c)) (fc_data (file_contents st ! ?n))\<rparr>" and "unat (fc_size ?c) \<le> 4096"
      by (simp_all add: wf_content_def)
    with wf_set_content [OF assms this(1), of "?n + 1" ?n] True Some show ?thesis
      by (simp add: copy_content_def Let_def MAX_FILE_SIZE_def)
  qed (use assms Some in \<open>simp add: copy_content_def Let_def\<close>)
qed (use assms in \<open>simp add: copy_content_def\<close>)

interpretation copy: safe_command "cmd_copy io" for io :: "'d port_io"
proof
  fix st :: "'d cmd_state" and args :: "u8 list"
  assume wf: "cmd_wf st" and a: "0 \<notin> set args"
  obtain src r where t1: "get_token args 64 = (src, r)" by fastforce
  obtain dst r' where t2: "get_token r 64 = (dst, r')" by fastforce
  have d: "0 \<notin> set dst" using get_token_nonzero [OF t1 a] get_token_nonzero [OF t2] by blast
  have "safe_result (bind_outcome (copy_content i j (copy_entry i dst st)) (\<lambda>st1.
      bind_outcome (fs_save_to_disk io st1) (\<lambda>(_, st2). Ok (0, say ''File copied\<newline>'' st2))))"
    if "fs_count st < 128" "dst \<noteq> []" for i j
    using wf_copy_content [OF wf_copy_entry [OF wf that d, of i], of i j] by (auto intro!: safe_save)
  then show "safe_result (cmd_copy io args st)"
    using wf by (auto simp: cmd_copy_def t1 t2 FS_MAX_FILES_def split: option.split)
qed

lemma nano_key_room: "length buf < MAX_FILE_SIZE - 1 \<Longrightarrow> length (buf @ nano_key_bytes x) \<le> 4095"
  by (simp add: MAX_FILE_SIZE_def nano_key_bytes_def)

lemma nano_key_length: "length buf \<le> 4095 \<Longrightarrow> length (fst (nano_key name key buf)) \<le> 4095"
  using nano_key_room [of buf key] by (auto simp: nano_key_def simp del: length_append)

lemma nano_edit_length:
  "nano_edit name ks buf evs = Ok (c, buf', ks', evs') \<Longrightarrow> length buf \<le> 4095 \<Longrightarrow> length buf' \<le> 4095"
proof (induction ks arbitrary: buf evs)
  case (Cons k ks)
  with nano_key_length [OF Cons.prems(2), of name "ucast (k AND 0xFF)"] show ?case
    by (auto simp: Let_def split: if_splits prod.splits)
qed simp

lemma nano_edit_no_fault: "nano_edit name ks buf evs \<noteq> Fault"
  by (induction ks arbitrary: buf evs) (auto simp: Let_def split: prod.split)

lemma wf_undo_new: "cmd_wf st \<Longrightarrow> 0 < fs_count st \<Longrightarrow> cmd_wf (undo_new b st)"
  by (auto simp: undo_new_def cmd_wf_def fs_wf_def)

lemma wf_store_content:
  assumes "cmd_wf st" and "i < fs_count st" and "length buf \<le> 4095"
    and "content_idx = None \<longrightarrow> file_content_count st < 64"
  shows "cmd_wf (store_content i content_idx buf st)"
proof -
  let ?e = "(fs_table st ! i)\<lparr>fe_size := of_nat (length buf)\<rparr>"
  let ?c = "\<lparr>fc_file_idx = of_nat i, fc_size = of_nat (length buf),
      fc_data = buf @ replicate (MAX_FILE_SIZE - length buf) 0\<rparr>"
  let ?st = "st\<lparr>fs_table := (fs_table st)[i := ?e]\<rparr>"
  let ?n = "if content_idx = None then file_content_count st + 1 else file_content_count st"
  have w: "cmd_wf ?st"
    using assms(1,2) wf_count(1) [OF assms(1)] wf_entry_nth [OF assms(1), of i] wf_live_first [OF assms(1,2)]
    by (intro wf_update_entry) (auto simp: wf_entry_def)
  have c: "wf_content ?c" using assms(3) by (simp add: wf_content_def MAX_FILE_SIZE_def unat_of_nat)
  have "?n \<le> 64" using assms(4) wf_count(2) [OF assms(1)] by auto
  note n = this
  have "cmd_wf (?st\<lparr>file_contents := (file_contents ?st)[k := ?c], file_content_count := ?n\<rparr>)" for k
    by (rule wf_set_content [OF w c n])
  moreover have "store_content i content_idx buf st =
      ?st\<lparr>file_contents := (file_contents ?st)[(case content_idx of Some k \<Rightarrow> k
        | None \<Rightarrow> file_content_count st) := ?c], file_content_count := ?n\<rparr>"
    by (cases content_idx) (simp_all add: store_content_def Let_def)
  ultimately show ?thesis by (simp only:)
qed

lemma safe_nano_store:
  assumes "cmd_wf st" and "i < fs_count st" and "length buf \<le> 4095"
  shows "safe_result (nano_store io i is_new content_idx buf st)"
proof -
  have u: "cmd_wf (undo_new is_new (say t (say ''\<newline>'' st)))" for t
    using assms(1,2) by (intro wf_undo_new) (simp_all add: say_def)
  have s: "cmd_wf (store_content i content_idx buf (say ''\<newline>'' st))"
    if "\<not> (content_idx = None \<and> 64 \<le> file_content_count st)"
    using that assms by (intro wf_store_content) (auto simp: say_def)
  show ?thesis
    using u s by (auto simp: nano_store_def Let_def intro!: safe_save)
qed

lemma safe_nano_session:
  assumes "cmd_wf st" and "i < fs_count st"
  shows "safe_result (nano_session heap_ok io name i is_new st)"
proof -
  define ci where "ci = find_content i st"
  define st2 where "st2 = emit (if (case ci of Some c \<Rightarrow> fc_size (file_contents st ! c) = 0 | None \<Rightarrow> True)
    then [Puts (lit ''[New file...]\<newline>'')] else map Putc (nano_load ci st)) st"
  have len: "length (nano_load ci st) \<le> 4095"
    by (auto simp: nano_load_def Let_def MAX_FILE_SIZE_def split: option.split)
  have w: "cmd_wf (emit evs (st2\<lparr>keys := ks\<rparr>))" "i < fs_count (emit evs (st2\<lparr>keys := ks\<rparr>))" for evs ks
    using assms by (simp_all add: st2_def)
  have u: "cmd_wf (undo_new is_new (emit evs (st2\<lparr>keys := ks\<rparr>)))" for evs ks
    using w [of evs ks] by (intro wf_undo_new) auto
  have "safe_result (bind_outcome (nano_edit name (keys st2) (nano_load ci st) [])
      (\<lambda>(cancelled, buf, ks, evs). if cancelled then Ok (0, undo_new is_new (emit evs (st2\<lparr>keys := ks\<rparr>)))
        else nano_store io i is_new ci buf (emit evs (st2\<lparr>keys := ks\<rparr>))))"
  proof (cases "nano_edit name (keys st2) (nano_load ci st) []")
    case (Ok x)
    obtain c buf ks evs where x: "x = (c, buf, ks, evs)" by (cases x)
    with Ok nano_edit_length [OF _ len] have "length buf \<le> 4095" by blast
    with Ok x u safe_nano_store [OF w] show ?thesis by simp
  qed (use nano_edit_no_fault in auto)
  moreover have "cmd_wf (undo_new is_new (say t st))" for t
    using assms by (intro wf_undo_new) (simp_all add: say_def)
  ultimately show ?thesis
    unfolding nano_session_def Let_def ci_def [symmetric] st2_def [symmetric] by simp
qed

interpretation nano: safe_command "cmd_nano heap_ok io" for heap_ok and io :: "'d port_io"
proof
  fix st :: "'d cmd_state" and args :: "u8 list"
  assume wf: "cmd_wf st" and a: "0 \<notin> set args"
  obtain name r where tok: "get_token args 64 = (name, r)" by fastforce
  let ?p = "cstr (current_dir st) @ name"
  note p = path_bytes [OF wf tok a]
  have "cmd_wf (emit es (add_entry ?p 0 0x20 (emit es' st)))"
    if "fs_count st < 128" for es es'
    unfolding wf_io using that wf p by (intro wf_add_entry) simp_all
  then show "safe_result (cmd_nano heap_ok io args st)"
    using wf build_path_ok [OF wf tok]
    by (auto simp: cmd_nano_def tok Let_def FS_MAX_FILES_def add_entry_def split: option.split
        intro!: safe_nano_session dest!: find_index_Some)
qed

lemmas cmd_read_only = cmd_dir_def cmd_find_def cmd_tree_def cmd_attrib_def cmd_vol_def cmd_label_def
  cmd_chkdsk_def cmd_diskpart_def

text \<open>The commands that only print.\<close>

interpretation dir: safe_command cmd_dir
  by unfold_locales (simp add: cmd_read_only Let_def split: prod.split)

interpretation find: safe_command cmd_find
  by unfold_locales (simp add: cmd_read_only Let_def split: prod.split)

interpretation tree: safe_command cmd_tree
  by unfold_locales (simp add: cmd_read_only)

interpretation attrib: safe_command cmd_attrib
  by unfold_locales (simp add: cmd_read_only Let_def split: prod.split option.split)

interpretation vol: safe_command cmd_vol
  by unfold_locales (simp add: cmd_read_only)

interpretation label: safe_command cmd_label
  by unfold_locales (simp add: cmd_read_only)

interpretation chkdsk: safe_command cmd_chkdsk
  by unfold_locales (simp add: cmd_read_only Let_def)

interpretation diskpart: safe_command cmd_diskpart
  by unfold_locales (simp add: cmd_read_only)

section \<open>Looking up what was stored\<close>

text \<open>The entry that \<open>add_entry\<close> creates is found under its name, if the name fits.\<close>

lemma found_added:
  assumes "cmd_wf st" and "fs_count st < 128" and "0 \<notin> set path" and "length path \<le> 55"
    and "find_index (name_is path) (fs_count st) (fs_table st) = None"
  shows "find_index (\<lambda>e. name_is path e \<and> fe_type e = t) (fs_count (add_entry path t a st))
    (fs_table (add_entry path t a st)) = Some (fs_count st)"
proof (rule find_index_unique)
  have len: "length (fs_table st) = 128" using assms(1) by (simp add: cmd_wf_def fs_wf_def)
  have "cstr (fe_name (blank_entry e path)) = path" for e
    using assms(3,4) by (simp add: blank_entry_def cstr_str_copy FS_MAX_FILENAME_def)
  with len assms(2,3) show "name_is path (fs_table (add_entry path t a st) ! fs_count st) \<and>
      fe_type (fs_table (add_entry path t a st) ! fs_count st) = t"
    by (simp add: add_entry_def name_is_iff)
  show "fs_count st < fs_count (add_entry path t a st)" by (simp add: add_entry_def)
  show "\<not> (name_is path (fs_table (add_entry path t a st) ! j) \<and>
      fe_type (fs_table (add_entry path t a st) ! j) = t)" if "j < fs_count st" for j
    using that assms(5) by (auto simp: find_index_None add_entry_def)
qed

lemma not_found_long:
  assumes "cmd_wf st" and "0 \<notin> set path" and "55 < length path"
  shows "find_index (\<lambda>e. name_is path e \<and> Q e) (fs_count st) (fs_table st) = None"
  using found_path_short [OF assms(1,2)] assms(3) by (fastforce simp: find_index_None)

text \<open>NANO on a new name: the edit loop runs on an empty buffer, then the store.\<close>

lemma emit_emit: "emit a (emit b st) = emit (b @ a) st"
  "(emit a st)\<lparr>keys := ks\<rparr> = emit a (st\<lparr>keys := ks\<rparr>)"
  by (simp_all add: emit_def)

lemma nano_new_file:
  assumes "cmd_wf st" and "get_token args 64 = (name, rest)" and "name \<noteq> []" and "fs_count st < 128"
    and "find_index (name_is (cstr (current_dir st) @ name)) (fs_count st) (fs_table st) = None"
    and "find_content (fs_count st) st = None"
    and "nano_edit name (keys st) [] [] = Ok (False, buf, ks, evs)"
  shows "\<exists>es. cmd_nano True io args st = nano_store io (fs_count st) True None buf
    (emit es ((add_entry (cstr (current_dir st) @ name) 0 0x20 st)\<lparr>keys := ks\<rparr>))"
proof -
  let ?p = "cstr (current_dir st) @ name"
  define sta where "sta = add_entry ?p 0 0x20 st"
  have sel: "keys sta = keys st" "find_content (fs_count st) (emit es sta) = None" for es
    using assms(6) by (simp_all add: sta_def add_entry_def find_content_def)
  have "find_index (\<lambda>e. name_is ?p e \<and> fe_type e = 0) (fs_count st) (fs_table st) = None"
    using assms(5) by (auto simp: find_index_None)
  moreover have "add_entry ?p 0 0x20 (emit y st) = emit y sta" for y
    by (simp add: sta_def add_entry_def emit_def)
  ultimately show ?thesis
    unfolding sta_def [symmetric]
    using assms(2-4,7) build_path_ok [OF assms(1,2)] sel
    by (auto simp: cmd_nano_def nano_session_def nano_load_def FS_MAX_FILES_def emit_emit)
qed

section \<open>The initial state\<close>

lemma initial_wf: "cmd_wf (initial_state d)"
proof -
  have "wf_curdir ([67, 58, 92] @ replicate 253 0)"
    using cstr_pad [of "[67, 58, 92]" 253] by (simp add: wf_curdir_def)
  moreover have "wf_entry zero_entry" by (simp add: wf_entry_def zero_entry_def)
  moreover have "wf_user \<lparr>ue_username = replicate 32 0, ue_password_hash = replicate 32 0\<rparr>"
    by (simp add: wf_user_def)
  moreover have "wf_content \<lparr>fc_file_idx = 0, fc_size = 0, fc_data = replicate MAX_FILE_SIZE 0\<rparr>"
    by (simp add: wf_content_def MAX_FILE_SIZE_def)
  moreover have "0 \<in> set (lit ''root'' @ replicate 28 0)" "length (lit ''root'' @ replicate 28 0) = 32"
    by (simp_all add: lit_def)
  ultimately show ?thesis
    unfolding cmd_wf_def fs_wf_def initial_state_def
    by (simp add: FS_MAX_FILES_def FS_MAX_USERS_def MAX_PROCESSES_def MAX_CONTENTS_def wf_process_def)
qed

lemma initial_sel:
  "cstr (current_dir (initial_state d)) = [67, 58, 92]" "fs_count (initial_state d) = 0"
  "file_content_count (initial_state d) = 0"
  using cstr_pad [of "[67, 58, 92]" 253] by (simp_all add: initial_state_def)

lemma find_index_0 [simp]: "find_index P 0 xs = None"
  by (simp add: find_index_None)

section \<open>Properties\<close>

text \<open>
  MKDIR followed by CD.  When the directory does not exist and the table has room, MKDIR
  succeeds.  If the full path has at most 55 characters, CD into it then succeeds and the
  current directory is the path with a closing backslash; if it is longer, the table keeps
  only its first 55 characters, and CD answers that there is no such directory.
\<close>

theorem mkdir_then_cd:
  assumes "cmd_wf st" and "0 \<notin> set args" and "get_token args 64 = (name, rest)"
    and "name \<noteq> []" and "name \<noteq> lit ''..''" and "last name \<noteq> 92" and "fs_count st < 128"
    and "find_index (name_is (cstr (current_dir st) @ name)) (fs_count st) (fs_table st) = None"
  shows "\<exists>st1. cmd_mkdir io args st = Ok (0, st1) \<and>
    (if length (cstr (current_dir st) @ name) \<le> 55
     then \<exists>st2. cmd_cd io args st1 = Ok (0, st2) \<and>
       cstr (current_dir st2) = cstr (current_dir st) @ name @ [92]
     else \<exists>st2. cmd_cd io args st1 = Ok (- 1, st2) \<and> current_dir st2 = current_dir st)"
proof -
  let ?p = "cstr (current_dir st) @ name"
  note b = build_path_ok [OF assms(1,3)] and p = path_bytes [OF assms(1,3,2)]
  let ?sta = "add_entry ?p 1 0x10 st"
  have wa: "cmd_wf ?sta" using assms(1,7) p by (intro wf_add_entry) auto
  obtain r d where sv: "fs_save_to_disk io ?sta = Ok (r, ?sta\<lparr>dev := d\<rparr>)"
    using save_total [OF wa] by blast
  define st1 where "st1 = emit [Puts (lit ''Directory created: ''), Puts name, Puts (lit ''\<newline>'')]
    (?sta\<lparr>dev := d\<rparr>)"
  have mk: "cmd_mkdir io args st = Ok (0, st1)"
    using assms(3,4,7,8) b sv by (simp add: cmd_mkdir_def st1_def FS_MAX_FILES_def)
  have w1: "cmd_wf st1" using wa by (simp add: st1_def)
  have sel: "current_dir st1 = current_dir st" "fs_table st1 = fs_table ?sta" "fs_count st1 = fs_count ?sta"
    by (simp_all add: st1_def add_entry_def)
  have dots: "str_cmp name (lit ''..'') \<noteq> 0"
    using assms(5) get_token_nonzero(1) [OF assms(3,2)] by (subst str_cmp_eq_iff) (auto simp: lit_def)
  have b1: "build_path st1 name = Ok ?p" using build_path_ok [OF w1 assms(3)] sel by simp
  show ?thesis
  proof (cases "length ?p \<le> 55")
    case True
    have f: "find_index (\<lambda>e. name_is ?p e \<and> fe_type e = 1) (fs_count st1) (fs_table st1) = Some (fs_count st)"
      using found_added [OF assms(1,7) p(1) True assms(8), of 1 "0x10"] sel by simp
    have "take 3 (cstr (current_dir st)) = [67, 58, 92]"
      using wf_curdir_of [OF assms(1)] by (simp add: wf_curdir_def)
    with take3_length [OF this] have "take 3 ?p = [67, 58, 92]" by simp
    then obtain a where a: "enter_dir (current_dir st1) ?p = Ok a" "wf_curdir a" "cstr a = ?p @ [92]"
      using enter_dir_ok [OF wf_curdir_of [OF assms(1)] True p(1)] assms(4,6) sel by auto
    obtain r' d' where sv': "fs_save_to_disk io (st1\<lparr>current_dir := a\<rparr>) =
        Ok (r', st1\<lparr>current_dir := a, dev := d'\<rparr>)"
      using save_total [OF wf_set_curdir [OF w1 a(2)], of io] by auto
    have "cmd_cd io args st1 = Ok (0, st1\<lparr>current_dir := a, dev := d'\<rparr>)"
      using assms(3,4) dots b1 f a(1) sv' by (simp add: cmd_cd_def)
    with mk a(3) True show ?thesis by simp
  next
    case False
    then have "find_index (\<lambda>e. name_is ?p e \<and> fe_type e = 1) (fs_count st1) (fs_table st1) = None"
      using not_found_long [OF w1 p(1)] by simp
    then have "cmd_cd io args st1 = Ok (- 1, say ''Directory not found\<newline>'' st1)"
      using assms(3,4) dots b1 by (simp add: cmd_cd_def)
    with mk False sel show ?thesis by (simp add: say_def)
  qed
qed

theorem mkdir_then_cd_witness:
  "\<exists>st1 st2. cmd_mkdir ref_io (lit ''DOCS'') (initial_state blank_drive) = Ok (0, st1) \<and>
    cmd_cd ref_io (lit ''DOCS'') st1 = Ok (0, st2) \<and> cstr (current_dir st2) = lit ''C:'' @ 92 # lit ''DOCS'' @ [92]"
proof -
  have t: "get_token (lit ''DOCS'') 64 = (lit ''DOCS'', [])"
    by (simp add: get_token_def skip_spaces_def lit_def is_blank_def)
  show ?thesis
    using mkdir_then_cd [OF initial_wf [of blank_drive] _ t, where io = ref_io]
    by (auto simp: initial_sel lit_def)
qed

text \<open>
  DEL (and RMDIR) close the gap in the file table but leave the indices stored with the
  file contents alone.  After DEL of entry \<open>i\<close> the entries behind it have moved down by one,
  while content \<open>k\<close> still belongs to index \<open>k\<close>: every later file now shows the content of
  its predecessor.
\<close>

theorem del_leaves_contents_behind:
  assumes "cmd_wf st" and "0 \<notin> set args" and "get_token args 64 = (name, rest)" and "name \<noteq> []"
    and "find_index (\<lambda>e. name_is (cstr (current_dir st) @ name) e \<and> fe_type e = 0)
      (fs_count st) (fs_table st) = Some i"
  shows "\<exists>st'. cmd_del io args st = Ok (0, st') \<and> fs_count st' = fs_count st - 1 \<and>
    (\<forall>k < fs_count st - 1. fs_table st' ! k = (if k < i then fs_table st ! k else fs_table st ! (k + 1))) \<and>
    (\<forall>k. file_bytes st' k = file_bytes st k)"
proof -
  have i: "i < fs_count st" using find_index_Some [OF assms(5)] by simp
  have c: "fs_count st \<le> length (fs_table st)" using assms(1) by (simp add: cmd_wf_def fs_wf_def)
  let ?st = "remove_entry i st"
  obtain r d where sv: "fs_save_to_disk io ?st = Ok (r, ?st\<lparr>dev := d\<rparr>)"
    using save_total [OF wf_remove_entry [OF assms(1) i]] by blast
  have "cmd_del io args st = Ok (0, say ''File deleted\<newline>'' (?st\<lparr>dev := d\<rparr>))"
    using assms(3-5) build_path_ok [OF assms(1,3)] sv by (simp add: cmd_del_def)
  moreover have "file_bytes (say ''File deleted\<newline>'' (?st\<lparr>dev := d\<rparr>)) k = file_bytes st k" for k
    by (simp add: file_bytes_def say_def remove_entry_def)
  ultimately show ?thesis
    using remove_at_nth [OF i c] by (auto simp: say_def remove_entry_def)
qed

text \<open>The sample file is deleted; its content stays attached to index 0.\<close>

lemma sample_cmd_wf: "cmd_wf (sample_state d)"
  using sample_wf [of d] initial_wf [of d]
  by (simp add: cmd_wf_def) (simp add: sample_state_def Let_def)

theorem del_leaves_contents_behind_witness:
  "\<exists>st'. cmd_del ref_io (lit ''A.TXT'')
      ((sample_state blank_drive)\<lparr>fs_table := (fs_table (sample_state blank_drive))[0 :=
        zero_entry\<lparr>fe_name := str_copy (replicate 56 0) (lit ''C:'' @ 92 # lit ''A.TXT'') 56\<rparr>]\<rparr>) = Ok (0, st') \<and>
    fs_count st' = 0 \<and> file_bytes st' 0 = Some [97, 98, 99]"
proof -
  let ?p = "lit ''C:'' @ 92 # lit ''A.TXT''"
  let ?e = "zero_entry\<lparr>fe_name := str_copy (replicate 56 0) ?p 56\<rparr>"
  let ?st = "(sample_state blank_drive)\<lparr>fs_table := (fs_table (sample_state blank_drive))[0 := ?e]\<rparr>"
  have p: "0 \<notin> set ?p" "?p ! 0 \<noteq> 0" "?p \<noteq> []" by (simp_all add: lit_def)
  have e: "wf_entry ?e" "fe_name ?e ! 0 \<noteq> 0" "cstr (fe_name ?e) = ?p" "fe_type ?e = 0"
    using p(2,3) cstr_str_copy [OF p(1), of "replicate 56 0" 56]
    by (simp_all add: wf_entry_def length_str_copy nul_str_copy str_copy_hd zero_entry_def lit_def)
  have wf: "cmd_wf ?st"
    using e(1,2) by (intro wf_update_entry sample_cmd_wf) (simp_all add: sample_sel)
  have t: "get_token (lit ''A.TXT'') 64 = (lit ''A.TXT'', [])"
    by (simp add: get_token_def skip_spaces_def lit_def is_blank_def)
  have cd: "cstr (current_dir ?st) @ lit ''A.TXT'' = ?p"
    using cstr_pad [of "[67, 58, 92]" 253] by (simp add: sample_sel lit_def)
  have f: "find_index (\<lambda>e. name_is (cstr (current_dir ?st) @ lit ''A.TXT'') e \<and> fe_type e = 0)
      (fs_count ?st) (fs_table ?st) = Some 0"
    unfolding cd using e p(1) by (intro find_index_unique) (simp_all add: sample_sel name_is_iff FS_MAX_FILES_def)
  have "file_bytes ?st 0 = Some [97, 98, 99]"
    by (intro file_bytes_eq [of 0]) (simp_all add: sample_sel MAX_CONTENTS_def)
  with del_leaves_contents_behind [OF wf _ t _ f, of ref_io] show ?thesis
    by (auto simp: sample_sel lit_def)
qed

text \<open>What saving a new file from NANO leaves behind.\<close>

lemma nano_stores:
  assumes "cmd_wf st" and "0 \<notin> set args" and "get_token args 64 = (name, rest)" and "name \<noteq> []"
    and "length (cstr (current_dir st) @ name) \<le> 55" and "fs_count st < 128"
    and "find_index (name_is (cstr (current_dir st) @ name)) (fs_count st) (fs_table st) = None"
    and "find_content (fs_count st) st = None" and "file_content_count st < 64"
    and "nano_edit name (keys st) [] [] = Ok (False, buf, ks, evs)" and "buf \<noteq> []"
  shows "\<exists>r st1. cmd_nano True io args st = Ok (r, st1) \<and> cmd_wf st1 \<and> current_dir st1 = current_dir st \<and>
    find_index (\<lambda>e. name_is (cstr (current_dir st) @ name) e \<and> fe_type e = 0) (fs_count st1) (fs_table st1) = Some (fs_count st) \<and>
    fe_size (fs_table st1 ! fs_count st) = of_nat (length buf) \<and>
    find_content (fs_count st) st1 = Some (file_content_count st) \<and>
    file_contents st1 ! file_content_count st = \<lparr>fc_file_idx = of_nat (fs_count st), fc_size = of_nat (length buf),
      fc_data = buf @ replicate (MAX_FILE_SIZE - length buf) 0\<rparr>"
proof -
  let ?p = "cstr (current_dir st) @ name" and ?k = "fs_count st"
  note p = path_bytes [OF assms(1,3,2)]
  have len: "length buf \<le> 4095" using nano_edit_length [OF assms(10)] by simp
  define sta where "sta = add_entry ?p 0 0x20 st"
  have wa: "cmd_wf sta" unfolding sta_def using assms(1,6) p by (intro wf_add_entry) auto
  have sel: "fs_count sta = Suc ?k" "file_contents sta = file_contents st"
    "file_content_count sta = file_content_count st" "keys sta = keys st" "current_dir sta = current_dir st"
    by (simp_all add: sta_def add_entry_def)
  obtain es where nano: "cmd_nano True io args st = nano_store io ?k True None buf (emit es (sta\<lparr>keys := ks\<rparr>))"
    using nano_new_file [OF assms(1,3,4,6,7,8,10), of io] unfolding sta_def by blast
  define stc where "stc = store_content ?k None buf (say ''\<newline>'' (emit es (sta\<lparr>keys := ks\<rparr>)))"
  have wc: "cmd_wf stc" unfolding stc_def
    using wa assms(9) len sel by (intro wf_store_content) (simp_all add: say_def)
  obtain r d where "fs_save_to_disk io stc = Ok (r, stc\<lparr>dev := d\<rparr>)" using save_total [OF wc] by blast
  then obtain r' evs' where st1: "cmd_nano True io args st = Ok (r', emit evs' (stc\<lparr>dev := d\<rparr>))"
    unfolding nano using assms(9,11) sel by (cases "r = 0") (auto simp: nano_store_def Let_def stc_def say_def)
  define st1 where "st1 = emit evs' (stc\<lparr>dev := d\<rparr>)"
  have lens: "length (fs_table sta) = 128" "length (file_contents st) = 64"
    using wa assms(1) by (simp_all add: cmd_wf_def fs_wf_def)
  have tab: "fs_table st1 = (fs_table sta)[?k := (fs_table sta ! ?k)\<lparr>fe_size := of_nat (length buf)\<rparr>]"
    "fs_count st1 = Suc ?k" "current_dir st1 = current_dir st"
    "file_contents st1 = (file_contents st)[file_content_count st := \<lparr>fc_file_idx = of_nat ?k,
       fc_size = of_nat (length buf), fc_data = buf @ replicate (MAX_FILE_SIZE - length buf) 0\<rparr>]"
    "file_content_count st1 = Suc (file_content_count st)"
    using sel by (simp_all add: st1_def stc_def store_content_def Let_def say_def emit_def)
  have "find_index (\<lambda>e. name_is ?p e \<and> fe_type e = 0) (fs_count sta) (fs_table sta) = Some ?k"
    unfolding sta_def by (rule found_added [OF assms(1,6) p(1) assms(5,7)])
  from find_index_Some [OF this] have "find_index (\<lambda>e. name_is ?p e \<and> fe_type e = 0) (fs_count st1) (fs_table st1) = Some ?k"
    using lens assms(6) by (intro find_index_unique) (auto simp: tab name_is_def)
  moreover have "find_content ?k st1 = Some (file_content_count st)"
    unfolding find_content_def using assms(6,8,9) lens
    by (intro find_index_unique) (auto simp: tab find_content_def find_index_None unat_of_nat)
  moreover have "cmd_wf st1" using wc by (simp add: st1_def)
  ultimately show ?thesis using st1 assms(6,9) lens by (intro exI [of _ r'] exI [of _ st1]) (simp add: st1_def [symmetric] tab)
qed

lemma cat_prints:
  assumes "cmd_wf st" and "get_token args 64 = (name, rest)" and "name \<noteq> []"
    and "find_index (\<lambda>e. name_is (cstr (current_dir st) @ name) e \<and> fe_type e = 0) (fs_count st) (fs_table st) = Some k"
    and "fe_size (fs_table st ! k) = of_nat (length buf)" and "find_content k st = Some c"
    and "file_contents st ! c = \<lparr>fc_file_idx = of_nat k, fc_size = of_nat (length buf), fc_data = buf @ replicate (MAX_FILE_SIZE - length buf) 0\<rparr>"
    and "buf \<noteq> []" and "length buf \<le> 4095"
  shows "\<exists>st1 es. cmd_cat args st = Ok (0, st1) \<and> console st1 = console st @ es @ map Putc buf @
    (if last buf \<noteq> 10 then [Puts (lit ''\<newline>'')] else []) \<and> (\<forall>e \<in> set es. \<exists>t. e = Puts t)"
proof -
  have "of_nat (length buf) \<noteq> (0 :: u32)" using assms(8,9) by (simp add: word_unat_eq_iff unat_of_nat)
  moreover have "build_path st name = Ok (cstr (current_dir st) @ name)" by (rule build_path_ok [OF assms(1,2)])
  ultimately show ?thesis using assms(2-9)
    by (auto simp: cmd_cat_def show_content_def Let_def emit_def unat_of_nat MAX_FILE_SIZE_def)
qed

text \<open>
  The text that keys type into an empty editor: printable characters, Enter, Backspace, and Ctrl+K,
  which starts again.  The low byte of a key is its character, whatever its scan code.
\<close>

inductive types :: "u16 list \<Rightarrow> u8 list \<Rightarrow> bool" where
  nothing: "types [] []"
| character: "types ks tx \<Longrightarrow> length tx < 4095 \<Longrightarrow> ucast (k AND 0xFF) = c \<Longrightarrow> 32 \<le> c \<Longrightarrow> c \<le> 126 \<Longrightarrow> types (ks @ [k]) (tx @ [c])"
| newline: "types ks tx \<Longrightarrow> length tx < 4095 \<Longrightarrow> ucast (k AND 0xFF) \<in> {13, 10 :: u8} \<Longrightarrow> types (ks @ [k]) (tx @ [10])"
| rub_out: "types ks (tx @ [c]) \<Longrightarrow> ucast (k AND 0xFF) = (8 :: u8) \<Longrightarrow> types (ks @ [k]) tx"
| start_again: "types ks tx \<Longrightarrow> ucast (k AND 0xFF) = (11 :: u8) \<Longrightarrow> types (ks @ [k]) []"

lemma nano_edit_key:
  "ucast (k AND 0xFF) = c \<Longrightarrow> c \<noteq> 27 \<Longrightarrow> c \<noteq> 3 \<Longrightarrow>
     nano_edit name (k # ks) buf evs = nano_edit name ks (fst (nano_key name c buf)) (evs @ snd (nano_key name c buf))"
  by (simp add: Let_def split: prod.split)

lemma nano_edit_types:
  "types ks tx \<Longrightarrow> \<exists>es. nano_edit name (ks @ rest) [] [] = nano_edit name rest tx es"
proof (induction arbitrary: rest rule: types.induct)
  case (character ks tx k c)
  have c: "c \<noteq> 27" "c \<noteq> 3" "c \<noteq> 11" "c \<noteq> 8" using character.hyps(4) by auto
  obtain es where "nano_edit name (ks @ k # rest) [] [] = nano_edit name (k # rest) tx es" using character.IH by blast
  then show ?case
    using nano_edit_key [OF character.hyps(3) c(1,2), of name rest tx es] c(3,4) character.hyps(2,4,5)
    by (auto simp: nano_key_def nano_key_bytes_def MAX_FILE_SIZE_def)
next
  case (newline ks tx k)
  obtain c :: u8 where c: "ucast (k AND 0xFF) = c" "c = 13 \<or> c = 10" using newline.hyps(3) by auto
  obtain es where "nano_edit name (ks @ k # rest) [] [] = nano_edit name (k # rest) tx es" using newline.IH by blast
  then show ?case
    using nano_edit_key [OF c(1), of name rest tx es] c(2) newline.hyps(2)
    by (auto simp: nano_key_def nano_key_bytes_def MAX_FILE_SIZE_def)
next
  case (rub_out ks tx c k)
  obtain es where "nano_edit name (ks @ k # rest) [] [] = nano_edit name (k # rest) (tx @ [c]) es" using rub_out.IH by blast
  then show ?case using nano_edit_key [OF rub_out.hyps(2), of name rest "tx @ [c]" es] by (auto simp: nano_key_def)
next
  case (start_again ks tx k)
  obtain es where "nano_edit name (ks @ k # rest) [] [] = nano_edit name (k # rest) tx es" using start_again.IH by blast
  then show ?case using nano_edit_key [OF start_again.hyps(2), of name rest tx es] by (auto simp: nano_key_def)
qed auto

lemma nano_edit_typed:
  assumes "types ks tx" and "ucast (k AND 0xFF) = (27 :: u8)"
  shows "\<exists>evs. nano_edit name (ks @ k # rest) [] [] = Ok (False, tx, rest, evs)"
  using nano_edit_types [OF assms(1), of name "k # rest"] assms(2) by auto


text \<open>The keys h, i, x, Backspace, Enter and ESC with their scan codes.\<close>

lemma types_hi: "types [0x2368, 0x1769, 0x2D78, 0x0E08, 0x1C0D] [104, 105, 10]"
proof -
  have h: "types ([] @ [0x2368]) ([] @ [104])" by (rule types.character [OF types.nothing]) simp_all
  have i: "types (([] @ [0x2368]) @ [0x1769]) (([] @ [104]) @ [105])" by (rule types.character [OF h]) simp_all
  have x: "types ((([] @ [0x2368]) @ [0x1769]) @ [0x2D78]) ((([] @ [104]) @ [105]) @ [120])" by (rule types.character [OF i]) simp_all
  have b: "types (((([] @ [0x2368]) @ [0x1769]) @ [0x2D78]) @ [0x0E08]) (([] @ [104]) @ [105])" by (rule types.rub_out [OF x]) simp
  have "types ((((([] @ [0x2368]) @ [0x1769]) @ [0x2D78]) @ [0x0E08]) @ [0x1C0D]) ((([] @ [104]) @ [105]) @ [10])"
    by (rule types.newline [OF b]) simp_all
  then show ?thesis by simp
qed


text \<open>
  COPY gives the new file the content of the source: when the source has a content, a slot
  is free and no stale content carries the new index, the bytes found for the new entry are
  those of the source, and the source keeps its own.
\<close>

theorem copy_duplicates_content:
  assumes "cmd_wf st" and "0 \<notin> set args" and "get_token args 64 = (src, rest)"
    and "get_token rest 64 = (dst, rest')" and "src \<noteq> []" and "dst \<noteq> []" and "fs_count st < 128"
    and "find_index (\<lambda>e. name_is src e \<and> fe_type e = 0) (fs_count st) (fs_table st) = Some i"
    and "find_content i st = Some c" and "find_content (fs_count st) st = None"
    and "file_content_count st < 64"
  shows "\<exists>st'. cmd_copy io args st = Ok (0, st') \<and> fs_count st' = fs_count st + 1 \<and>
    file_bytes st' (fs_count st) = file_bytes st i \<and> file_bytes st' i = file_bytes st i \<and>
    fe_size (fs_table st' ! fs_count st) = fe_size (fs_table st ! i)"
proof -
  let ?k = "fs_count st" and ?n = "file_content_count st" and ?c = "file_contents st ! c"
  have d: "0 \<notin> set dst" using get_token_nonzero [OF assms(3,2)] get_token_nonzero [OF assms(4)] by blast
  have we: "cmd_wf (copy_entry i dst st)" by (rule wf_copy_entry [OF assms(1,7,6) d])
  obtain st1 where st1: "copy_content i ?k (copy_entry i dst st) = Ok st1" "cmd_wf st1"
    using wf_copy_content [OF we] by blast
  obtain r d where sv: "fs_save_to_disk io st1 = Ok (r, st1\<lparr>dev := d\<rparr>)" using save_total [OF st1(2)] by blast
  define st' where "st' = say ''File copied\<newline>'' (st1\<lparr>dev := d\<rparr>)"
  have res: "cmd_copy io args st = Ok (0, st')"
    using assms(3-8) st1(1) sv by (simp add: cmd_copy_def st'_def FS_MAX_FILES_def)
  have wc: "wf_content ?c" by (rule found_content_wf [OF assms(1,9)])
  have lens: "length (file_contents st) = 64" "length (fs_table st) = 128"
    using assms(1) by (simp_all add: cmd_wf_def fs_wf_def)
  define new where "new = \<lparr>fc_file_idx = of_nat ?k, fc_size = fc_size ?c, fc_data =
    take (unat (fc_size ?c)) (fc_data ?c) @ drop (unat (fc_size ?c)) (fc_data (file_contents st ! ?n))\<rparr>"
  have "find_content i (copy_entry i dst st) = Some c"
    using assms(9) by (simp add: find_content_def copy_entry_def Let_def)
  then have "st1 = (copy_entry i dst st)\<lparr>file_contents := (file_contents st)[?n := new],
      file_content_count := ?n + 1\<rparr>"
    using st1(1) assms(11) wc
    by (simp add: copy_content_def Let_def wf_content_def MAX_FILE_SIZE_def copy_entry_def new_def)
  then have sel: "file_contents st' = (file_contents st)[?n := new]" "file_content_count st' = Suc ?n"
    "fs_count st' = ?k + 1" "fe_size (fs_table st' ! ?k) = fe_size (fs_table st ! i)"
    using lens assms(7) by (simp_all add: st'_def say_def copy_entry_def Let_def)
  have i: "i < ?k" using find_index_Some [OF assms(8)] by simp
  have c: "c < ?n" "unat (fc_file_idx ?c) = i" "\<And>j. j < c \<Longrightarrow> unat (fc_file_idx (file_contents st ! j)) \<noteq> i"
    using find_index_Some [OF assms(9) [unfolded find_content_def]] by auto
  have "find_index (\<lambda>c. unat (fc_file_idx c) = ?k) (Suc ?n) ((file_contents st)[?n := new]) = Some ?n"
    using assms(7,10,11) lens
    by (intro find_index_unique) (auto simp: new_def unat_of_nat find_content_def find_index_None)
  moreover have "find_index (\<lambda>c. unat (fc_file_idx c) = i) (Suc ?n) ((file_contents st)[?n := new]) = Some c"
    using c by (intro find_index_unique) auto
  ultimately have "file_bytes st' ?k = file_bytes st i" "file_bytes st' i = file_bytes st i"
    using assms(9,11) lens c(1) wc
    by (simp_all add: file_bytes_def sel find_content_def new_def wf_content_def)
  with res sel show ?thesis by auto
qed

theorem copy_duplicates_content_witness:
  "\<exists>st'. cmd_copy ref_io (lit ''C:A.TXT B'') (sample_state blank_drive) = Ok (0, st') \<and>
    file_bytes st' 1 = file_bytes (sample_state blank_drive) 0"
proof -
  let ?st = "sample_state blank_drive"
  have t1: "get_token (lit ''C:A.TXT B'') 64 = (lit ''C:A.TXT'', lit '' B'')"
    by (simp add: get_token_def skip_spaces_def lit_def is_blank_def)
  have t2: "get_token (lit '' B'') 64 = (lit ''B'', [])"
    by (simp add: get_token_def skip_spaces_def lit_def is_blank_def)
  have p: "0 \<notin> set (lit ''C:A.TXT'')" by (simp add: lit_def)
  have f: "find_index (\<lambda>e. name_is (lit ''C:A.TXT'') e \<and> fe_type e = 0) (fs_count ?st) (fs_table ?st) = Some 0"
    using cstr_str_copy [OF p, of "replicate 56 0" 56] p
    by (intro find_index_unique)
      (simp_all add: sample_sel FS_MAX_FILES_def name_is_iff zero_entry_def lit_def)
  have c: "find_content 0 ?st = Some 0" "find_content (fs_count ?st) ?st = None"
    by (simp_all add: find_content_def find_index_def sample_sel MAX_CONTENTS_def)
  show ?thesis
    using copy_duplicates_content [OF sample_cmd_wf _ t1 t2 _ _ _ f c, of ref_io]
    by (auto simp: sample_sel lit_def)
qed

text \<open>
  \<^verbatim>\<open>save_file_content\<close> (the end of a WGET download) records the full length of the data in the
  file table before it cuts the content to 4096 bytes.  A longer file is therefore left with a
  table size that does not match its content, which a later load takes for the size of the
  content.
\<close>

theorem save_file_content_size_mismatch:
  assumes "cmd_wf st" and "file_path st filename = Ok path" and "0 \<notin> set path" and "path \<noteq> []"
    and "find_index (name_is path) (fs_count st) (fs_table st) = None" and "fs_count st < 128"
    and "find_content (fs_count st) st = None" and "file_content_count st < 64"
    and "4096 < len" and "len < 2 ^ 32"
  shows "\<exists>st'. save_file_content filename data len st = Ok (0, st') \<and>
    unat (fe_size (fs_table st' ! fs_count st)) = len \<and>
    find_content (fs_count st) st' = Some (file_content_count st) \<and>
    unat (fc_size (file_contents st' ! file_content_count st)) = 4096 \<and> \<not> contents_match st'"
proof -
  let ?k = "fs_count st" and ?n = "file_content_count st"
  have lens: "length (file_contents st) = 64" "length (fs_table st) = 128"
    using assms(1) by (simp_all add: cmd_wf_def fs_wf_def)
  have found: "find_index (\<lambda>e. str_cmp (cstr (fe_name e)) path = 0) ?k (fs_table st) = None"
    using assms(5) by (simp add: name_is_def [abs_def])
  have slot: "find_index (\<lambda>c. unat (fc_file_idx c) = ?k) ?n (file_contents st) = None"
    using assms(7) by (simp add: find_content_def)
  define e where "e = (blank_entry (fs_table st ! ?k) path)
    \<lparr>fe_type := 0, fe_attr := 0, fe_parent_idx := 0xFFFF, fe_size := of_nat len\<rparr>"
  define fc where "fc = \<lparr>fc_file_idx = of_nat ?k, fc_size = 4096,
    fc_data = take 4096 data @ drop 4096 (fc_data (file_contents st ! ?n))\<rparr>"
  define st' where "st' = st\<lparr>fs_count := Suc ?k, fs_table := (fs_table st)[?k := e],
    file_contents := (file_contents st)[?n := fc], file_content_count := Suc ?n\<rparr>"
  have res: "save_file_content filename data len st = Ok (0, st')"
    using assms(2,6,8,9) lens found slot
    by (simp add: save_file_content_def Let_def FS_MAX_FILES_def MAX_FILE_SIZE_def st'_def e_def fc_def)
  have size: "unat (fe_size e) = len" using assms(10) by (simp add: e_def unat_of_nat)
  have slot': "find_content ?k st' = Some ?n"
    unfolding find_content_def using assms(6,8) lens slot
    by (intro find_index_unique) (auto simp: st'_def fc_def unat_of_nat find_index_None)
  have "has_content e" using size assms(9) by (auto simp: has_content_def e_def word_gt_0)
  moreover have "fc_size (file_contents st' ! c) \<noteq> fe_size e"
    if "c < Suc ?n" "unat (fc_file_idx (file_contents st' ! c)) = ?k" for c
  proof -
    have "c = ?n" using that slot lens by (cases "c = ?n") (auto simp: st'_def find_index_None)
    then show ?thesis using lens assms(8,9) size by (auto simp: st'_def fc_def)
  qed
  ultimately have "\<not> contents_match st'"
    using lens assms(6) by (auto simp: contents_match_def st'_def intro!: exI [of _ ?k])
  with res size slot' lens assms(6,8) show ?thesis by (auto simp: st'_def fc_def)
qed

theorem save_file_content_size_mismatch_witness:
  "\<exists>st'. save_file_content (lit ''BIG'') (replicate 5000 65) 5000 (initial_state blank_drive) = Ok (0, st') \<and>
    unat (fe_size (fs_table st' ! 0)) = 5000 \<and> \<not> contents_match st'"
proof -
  have "file_path (initial_state blank_drive) (lit ''BIG'') = Ok ([67, 58, 92] @ lit ''BIG'')"
    by (simp add: file_path_def build_path_def initial_sel lit_def)
  from save_file_content_size_mismatch [OF initial_wf this, of 5000 "replicate 5000 65"] show ?thesis
    by (auto simp: initial_sel lit_def find_content_def)
qed

end
