(* ===== verification/Cmd_System.thy ===== *)
theory Cmd_System
  imports Cmd_Files
begin

text \<open>
  The user, process, information and utility commands of \<^verbatim>\<open>src/src/commands.c\<close>.  Services outside
  this file (clock, heap statistics, timer, memory at an address) are fields of the record
  \<open>sys_env\<close>, arguments of the commands that use them.
\<close>

record sys_env =
  se_time :: "(u8 \<times> u8 \<times> u8) option"
  se_date :: "(u8 \<times> u8 \<times> u16) option"
  se_stats :: "u32 \<times> u32 \<times> u32"
  se_ticks :: u32
  se_memory :: mem
  se_heap_ok :: bool

section \<open>Users\<close>

definition user_is :: "u8 list \<Rightarrow> user_entry \<Rightarrow> bool" where
  "user_is name u = (str_cmp (cstr (ue_username u)) name = 0)"

definition find_user :: "u8 list \<Rightarrow> 'd cmd_state \<Rightarrow> nat option" where
  "find_user name st = find_index (user_is name) (user_count st) (user_table st)"

definition cmd_useradd :: "'d port_io \<Rightarrow> u8 list \<Rightarrow> 'd cmd_state \<Rightarrow> (int \<times> 'd cmd_state) outcome" where
  "cmd_useradd io args st =
     (let (username, _) = get_token args 32
      in if username = [] then Ok (- 1, say ''Usage: USERADD username\<newline>'' st)
         else if user_count st \<ge> FS_MAX_USERS then Ok (- 1, say ''Error: User table full\<newline>'' st)
         else if find_user username st \<noteq> None then Ok (- 1, say ''Error: User already exists\<newline>'' st)
         else
           let k = user_count st;
               st1 = st\<lparr>user_table := (user_table st)[k :=
                       \<lparr>ue_username = str_copy (ue_username (user_table st ! k)) username 32,
                        ue_password_hash = hash_bytes (hash_string username)\<rparr>],
                     user_count := k + 1\<rparr>
           in bind_outcome (fs_save_to_disk io st1) (\<lambda>(_, st2).
                Ok (0, emit [Puts (lit ''User created: ''), Puts username, Puts (lit ''\<newline>'')] st2)))"

definition cmd_userdel :: "'d port_io \<Rightarrow> u8 list \<Rightarrow> 'd cmd_state \<Rightarrow> (int \<times> 'd cmd_state) outcome" where
  "cmd_userdel io args st =
     (let (username, _) = get_token args 32
      in if username = [] then Ok (- 1, say ''Usage: USERDEL username\<newline>'' st)
         else case find_user username st of
             Some i \<Rightarrow> bind_outcome
               (fs_save_to_disk io (st\<lparr>user_table := remove_at (user_table st) i (user_count st),
                  user_count := user_count st - 1\<rparr>))
               (\<lambda>(_, st1). Ok (0, say ''User deleted\<newline>'' st1))
           | None \<Rightarrow> Ok (- 1, say ''User not found\<newline>'' st))"

text \<open>The key loop of PASSWD: the password, the keys left and what was echoed.\<close>

fun read_passwd :: "u16 list \<Rightarrow> u8 list \<Rightarrow> console_event list \<Rightarrow> (u8 list \<times> u16 list \<times> console_event list) outcome" where
  "read_passwd [] pwd evs = Waiting"
| "read_passwd (k # ks) pwd evs =
     (let key = ucast (k AND 0xFF)
      in if key = 13 \<or> key = 10 then Ok (pwd, ks, evs)
         else if key = 8 \<and> pwd \<noteq> [] then read_passwd ks (butlast pwd) evs
         else if key \<ge> 32 \<and> key \<le> 126 \<and> length pwd < 31 then read_passwd ks (pwd @ [key]) (evs @ [Putc 42])
         else read_passwd ks pwd evs)"

definition change_password :: "'d port_io \<Rightarrow> nat \<Rightarrow> 'd cmd_state \<Rightarrow> (int \<times> 'd cmd_state) outcome" where
  "change_password io i st =
     bind_outcome (read_passwd (keys st) [] []) (\<lambda>(pwd, ks, evs).
       let st1 = emit ([Puts (lit ''Enter new password: '')] @ evs @ [Puts (lit ''\<newline>'')])
             (st\<lparr>keys := ks, user_table := (user_table st)[i := (user_table st ! i)
                \<lparr>ue_password_hash := hash_bytes (hash_string pwd)\<rparr>]\<rparr>)
       in bind_outcome (fs_save_to_disk io st1) (\<lambda>(_, st2). Ok (0, say ''Password changed\<newline>'' st2)))"

definition cmd_passwd :: "'d port_io \<Rightarrow> u8 list \<Rightarrow> 'd cmd_state \<Rightarrow> (int \<times> 'd cmd_state) outcome" where
  "cmd_passwd io args st =
     (let (tok, _) = get_token args 32;
          username = (if tok = [] then take 31 (cstr (current_user st)) else tok)
      in case find_user username st of
           None \<Rightarrow> Ok (- 1, say ''User not found\<newline>'' st)
         | Some i \<Rightarrow> change_password io i st)"

definition cmd_users :: "u8 list \<Rightarrow> 'd cmd_state \<Rightarrow> (int \<times> 'd cmd_state) outcome" where
  "cmd_users args st =
     Ok (0, emit ([Puts (lit ''System Users:\<newline>'')] @
       concat (map (\<lambda>u. [Puts (lit ''  ''), Puts (cstr (ue_username u)), Puts (lit ''\<newline>'')])
         (take (user_count st) (user_table st))) @
       [Puts (lit ''\<newline>Total: ''), Puts (int_to_str (of_nat (user_count st))), Puts (lit '' users\<newline>'')]) st)"

definition cmd_login :: "u8 list \<Rightarrow> 'd cmd_state \<Rightarrow> (int \<times> 'd cmd_state) outcome" where
  "cmd_login args st =
     (let (username, _) = get_token args 32
      in if username = [] then Ok (- 1, say ''Usage: LOGIN username\<newline>'' st)
         else case find_user username st of
             Some i \<Rightarrow> Ok (0, emit [Puts (lit ''Logged in as ''), Puts username, Puts (lit ''\<newline>'')]
               (st\<lparr>current_user := str_copy (current_user st) username 32\<rparr>))
           | None \<Rightarrow> Ok (- 1, say ''User not found\<newline>'' st))"

definition cmd_logout :: "u8 list \<Rightarrow> 'd cmd_state \<Rightarrow> (int \<times> 'd cmd_state) outcome" where
  "cmd_logout args st =
     Ok (0, say ''Logged out\<newline>'' (st\<lparr>current_user := str_copy (current_user st) (lit ''root'') 32\<rparr>))"

definition cmd_whoami :: "u8 list \<Rightarrow> 'd cmd_state \<Rightarrow> (int \<times> 'd cmd_state) outcome" where
  "cmd_whoami args st = Ok (0, say_line (cstr (current_user st)) st)"

section \<open>Processes\<close>

definition mk_process :: "process_entry \<Rightarrow> u32 \<Rightarrow> string \<Rightarrow> string \<Rightarrow> u32 \<Rightarrow> u8 \<Rightarrow> process_entry" where
  "mk_process old pid name state mem pri =
     \<lparr>pe_pid = pid, pe_name = str_copy (pe_name old) (lit name) 32,
      pe_state = str_copy (pe_state old) (lit state) 16, pe_mem_usage = mem, pe_priority = pri\<rparr>"

definition ensure_processes_init :: "'d cmd_state \<Rightarrow> 'd cmd_state" where
  "ensure_processes_init st =
     (if process_count st = 0
      then st\<lparr>process_table := (process_table st)
             [0 := mk_process (process_table st ! 0) 1 ''KERNEL'' ''RUNNING'' 128 0,
              1 := mk_process (process_table st ! 1) 2 ''SHELL'' ''RUNNING'' 64 10,
              2 := mk_process (process_table st ! 2) 3 ''NETSVC'' ''SLEEPING'' 32 10,
              3 := mk_process (process_table st ! 3) 4 ''DISPSVC'' ''SLEEPING'' 48 15],
           process_count := 4\<rparr>
      else st)"

definition pad_to :: "nat \<Rightarrow> nat \<Rightarrow> console_event list" where
  "pad_to w len = replicate (w - len) (Putc 32)"

definition ps_line :: "process_entry \<Rightarrow> console_event list" where
  "ps_line p =
     (let pid = int_to_str (pe_pid p); mem = int_to_str (pe_mem_usage p);
          name = cstr (pe_name p); state = cstr (pe_state p)
      in [Puts pid] @ pad_to 5 (str_len pid) @ [Puts name] @ pad_to 16 (str_len name) @
         [Puts state] @ pad_to 12 (str_len state) @ [Puts mem, Puts (lit ''K'')] @
         pad_to 6 (str_len mem + 1) @ [Puts (int_to_str (ucast (pe_priority p))), Puts (lit ''\<newline>'')])"

definition cmd_ps :: "u8 list \<Rightarrow> 'd cmd_state \<Rightarrow> (int \<times> 'd cmd_state) outcome" where
  "cmd_ps args st =
     (let st1 = ensure_processes_init st
      in Ok (0, emit ([Puts (lit ''PID  NAME            STATE       MEM   PRI\<newline>''),
           Puts (lit ''---  ----            -----       ---   ---\<newline>'')] @
           concat (map ps_line (take (process_count st1) (process_table st1)))) st1))"

definition cmd_kill :: "u8 list \<Rightarrow> 'd cmd_state \<Rightarrow> (int \<times> 'd cmd_state) outcome" where
  "cmd_kill args st =
     (let (pid_str, _) = get_token args 16 in
      if pid_str = [] then Ok (- 1, say ''Usage: KILL <pid>\<newline>'' st)
         else
           let pid = str_to_int pid_str; st1 = ensure_processes_init st
           in if pid \<le> 2
              then Ok (- 1, say ''Error: Cannot kill critical system process (KERNEL/SHELL)\<newline>'' st1)
              else case find_index (\<lambda>p. pe_pid p = pid) (process_count st1) (process_table st1) of
                  None \<Rightarrow> Ok (- 1, say ''Error: Process not found\<newline>'' st1)
                | Some i \<Rightarrow> Ok (0, emit [Puts (lit ''Terminating process ''),
                    Puts (cstr (pe_name (process_table st1 ! i))), Puts (lit '' (PID ''), Puts pid_str,
                    Puts (lit '')...\<newline>''), Puts (lit ''Process killed.\<newline>'')]
                    (st1\<lparr>process_table := remove_at (process_table st1) i (process_count st1),
                       process_count := process_count st1 - 1\<rparr>)))"

definition cmd_top :: "u8 list \<Rightarrow> 'd cmd_state \<Rightarrow> (int \<times> 'd cmd_state) outcome" where
  "cmd_top args st = cmd_ps args (emit [Cls, Puts (lit ''RO-DOS Task Manager - Top Processes\<newline>''),
     Puts (lit ''-----------------------------------\<newline>'')] st)"

section \<open>Information and utilities\<close>

definition two_digits :: "u8 \<Rightarrow> console_event list" where
  "two_digits n = (if n < 10 then [Puts (lit ''0'')] else []) @ [Puts (int_to_str (ucast n))]"

definition cmd_time :: "sys_env \<Rightarrow> u8 list \<Rightarrow> 'd cmd_state \<Rightarrow> (int \<times> 'd cmd_state) outcome" where
  "cmd_time env args st =
     (case se_time env of None \<Rightarrow> Ok (0, st)
      | Some (h, m, s) \<Rightarrow> Ok (0, emit ([Puts (int_to_str (ucast h)), Puts (lit '':'')] @ two_digits m @
          [Puts (lit '':'')] @ two_digits s @ [Puts (lit ''\<newline>'')]) st))"

definition cmd_date :: "sys_env \<Rightarrow> u8 list \<Rightarrow> 'd cmd_state \<Rightarrow> (int \<times> 'd cmd_state) outcome" where
  "cmd_date env args st =
     (case se_date env of None \<Rightarrow> Ok (0, st)
      | Some (day, month, year) \<Rightarrow> Ok (0, emit ([Puts (int_to_str (ucast year)), Puts (lit ''-'')] @
          two_digits month @ [Puts (lit ''-'')] @ two_digits day @ [Puts (lit ''\<newline>'')]) st))"

definition cmd_mem :: "sys_env \<Rightarrow> u8 list \<Rightarrow> 'd cmd_state \<Rightarrow> (int \<times> 'd cmd_state) outcome" where
  "cmd_mem env args st =
     (let (free, used, blocks) = se_stats env
      in Ok (0, emit [Puts (lit ''Memory Statistics:\<newline>''), Puts (lit ''Total Free: ''),
           Puts (int_to_str free), Puts (lit '' bytes\<newline>''), Puts (lit ''Total Used: ''),
           Puts (int_to_str used), Puts (lit '' bytes\<newline>''), Puts (lit ''Blocks: ''),
           Puts (int_to_str blocks), Puts (lit ''\<newline>'')] st))"

definition cmd_uptime :: "sys_env \<Rightarrow> u8 list \<Rightarrow> 'd cmd_state \<Rightarrow> (int \<times> 'd cmd_state) outcome" where
  "cmd_uptime env args st =
     (let seconds = se_ticks env div 18; minutes = seconds div 60; hours = minutes div 60
      in Ok (0, emit [Puts (lit ''Uptime: ''), Puts (int_to_str hours), Puts (lit ''h ''),
           Puts (int_to_str (minutes mod 60)), Puts (lit ''m ''), Puts (int_to_str (seconds mod 60)),
           Puts (lit ''s\<newline>'')] st))"

definition cmd_echo :: "u8 list \<Rightarrow> 'd cmd_state \<Rightarrow> (int \<times> 'd cmd_state) outcome" where
  "cmd_echo args st = Ok (0, say_line (skip_spaces args) st)"

definition cmd_color :: "u8 list \<Rightarrow> 'd cmd_state \<Rightarrow> (int \<times> 'd cmd_state) outcome" where
  "cmd_color args st =
     (let (tok, _) = get_token args 16
      in if tok = []
         then Ok (- 1, emit [Puts (lit ''Usage: COLOR <0-255>\<newline>''),
                Puts (lit ''Examples: COLOR 10 (green), COLOR 12 (red), COLOR 14 (yellow)\<newline>''),
                Puts (lit ''Format: Foreground + (Background * 16)\<newline>'')] st)
         else if sint (tok ! 0) \<ge> 48 \<and> sint (tok ! 0) \<le> 57
         then (let c = ucast (str_to_int tok)
               in Ok (0, emit [SetAttr c, Puts (lit ''Color changed to ''), Puts (int_to_str (ucast c)),
                    Puts (lit ''\<newline>'')] (st\<lparr>current_color := c\<rparr>)))
         else Ok (- 1, say ''Usage: COLOR 0-255\<newline>'' st))"

definition cmd_beep :: "u8 list \<Rightarrow> 'd cmd_state \<Rightarrow> (int \<times> 'd cmd_state) outcome" where
  "cmd_beep args st = Ok (0, emit [Beep 800 200] st)"

definition cmd_pause :: "u8 list \<Rightarrow> 'd cmd_state \<Rightarrow> (int \<times> 'd cmd_state) outcome" where
  "cmd_pause args st =
     (case keys st of [] \<Rightarrow> Waiting
      | k # ks \<Rightarrow> Ok (0, emit [Puts (lit ''Press any key to continue...''), Puts (lit ''\<newline>'')] (st\<lparr>keys := ks\<rparr>)))"

definition cmd_sleep :: "u8 list \<Rightarrow> 'd cmd_state \<Rightarrow> (int \<times> 'd cmd_state) outcome" where
  "cmd_sleep args st =
     (let (tok, _) = get_token args 16
      in if tok = [] then Ok (- 1, say ''Usage: SLEEP seconds\<newline>'' st)
         else Ok (0, emit [SleepMs (str_to_int tok * 1000)] st))"

definition cmd_calc :: "u8 list \<Rightarrow> 'd cmd_state \<Rightarrow> (int \<times> 'd cmd_state) outcome" where
  "cmd_calc args st =
     (let (a_str, args1) = get_token args 16; (op, args2) = get_token args1 4;
          (b_str, _) = get_token args2 16
      in if a_str = [] \<or> op = [] \<or> b_str = []
         then Ok (- 1, say ''Usage: CALC num op num (e.g., CALC 5 + 3)\<newline>'' st)
         else
           let a = str_to_int a_str; b = str_to_int b_str; c = op ! 0;
               out = (\<lambda>result. Ok (0, emit [Puts (lit ''Result: ''), Puts (int_to_str result),
                        Puts (lit ''\<newline>'')] st))
           in if c = 43 then out (a + b)
              else if c = 45 then out (a - b)
              else if c = 42 then out (a * b)
              else if c = 47
              then (if b = 0 then Ok (- 1, say ''Error: Division by zero\<newline>'' st) else out (a div b))
              else Ok (- 1, say ''Unknown operator\<newline>'' st))"

definition cmd_hexdump :: "sys_env \<Rightarrow> u8 list \<Rightarrow> 'd cmd_state \<Rightarrow> (int \<times> 'd cmd_state) outcome" where
  "cmd_hexdump env args st =
     (let (addr_str, _) = get_token args 16
      in if addr_str = [] then Ok (- 1, say ''Usage: HEXDUMP address\<newline>'' st)
         else (let addr = str_to_int addr_str
               in Ok (0, emit ([Puts (lit ''Hex dump at 0x''), Puts (hex_text addr), Puts (lit '':\<newline>'')] @
                    concat (map (\<lambda>b. [Puts (hex_text (ucast b)), Puts (lit '' '')])
                      (read_bytes (se_memory env) addr 16)) @ [Puts (lit ''\<newline>'')]) st)))"

definition cmd_ascii :: "u8 list \<Rightarrow> 'd cmd_state \<Rightarrow> (int \<times> 'd cmd_state) outcome" where
  "cmd_ascii args st =
     Ok (0, emit ([Puts (lit ''ASCII Table (printable):\<newline>'')] @
       concat (map (\<lambda>i. [Puts (int_to_str (of_nat i)), Puts (lit '': ''), Putc (of_nat i), Puts (lit ''  '')] @
         (if (i - 31) mod 8 = 0 then [Puts (lit ''\<newline>'')] else [])) [32..<127]) @
       [Puts (lit ''\<newline>'')]) st)"

definition cmd_hash :: "u8 list \<Rightarrow> 'd cmd_state \<Rightarrow> (int \<times> 'd cmd_state) outcome" where
  "cmd_hash args st =
     (let s = skip_spaces args
      in if s = [] then Ok (- 1, say ''Usage: HASH string\<newline>'' st)
         else Ok (0, emit [Puts (lit ''Hash: 0x''), Puts (hex_text (hash_string s)), Puts (lit ''\<newline>'')] st))"

section \<open>Screen, power and fixed answers\<close>

definition cmd_help :: "u8 list \<Rightarrow> 'd cmd_state \<Rightarrow> (int \<times> 'd cmd_state) outcome" where
  "cmd_help args st = Ok (0, emit
     [Puts (replicate 72 61 @ lit ''\<newline>''),
      Puts (lit ''RO-DOS Available Commands:\<newline>''),
      Puts (lit ''  File: DIR LS CD MKDIR RMDIR TOUCH DEL CAT NANO TYPE COPY MOVE REN FIND\<newline>''),
      Puts (lit ''  Disk: CHKDSK FORMAT LABEL VOL DISKPART FSCK\<newline>''),
      Puts (lit ''  Info: VER TIME DATE UPTIME MEM SYSINFO UNAME WHOAMI HOSTNAME\<newline>''),
      Puts (lit ''  User: USERADD USERDEL PASSWD USERS LOGIN LOGOUT SU SUDO\<newline>''),
      Puts (lit ''  Proc: PS KILL TOP TASKLIST TASKKILL\<newline>''),
      Puts (lit ''  Misc: CLS CLEAR COLOR ECHO BEEP CALC HEXDUMP ASCII HASH\<newline>''),
      Puts (lit ''  Ctrl: REBOOT SHUTDOWN HALT PAUSE SLEEP EXIT\<newline>''),
      Puts (lit ''  Network: NETSTART IPCONFIG PING WGET WIFITEST\<newline>''),
      Puts (lit ''  Graphics: GUITEST CALC-GUI NOTEPAD PAINT FILEBROWSER CLOCK\<newline>''),
      Puts (lit ''  Programming: PYTHON (Mini Python interpreter)\<newline>''),
      Puts (replicate 72 61 @ lit ''\<newline>'')] st)"

definition cmd_cls :: "u8 list \<Rightarrow> 'd cmd_state \<Rightarrow> (int \<times> 'd cmd_state) outcome" where
  "cmd_cls args st = Ok (0, emit [Cls] st)"

definition cmd_ver :: "u8 list \<Rightarrow> 'd cmd_state \<Rightarrow> (int \<times> 'd cmd_state) outcome" where
  "cmd_ver args st = Ok (0, emit [Puts (lit ''RO-DOS Version 1.2v Beta\<newline>''),
     Puts (lit ''Real-Mode Operating System\<newline>'')] st)"

definition cmd_reboot :: "u8 list \<Rightarrow> 'd cmd_state \<Rightarrow> (int \<times> 'd cmd_state) outcome" where
  "cmd_reboot args st = Ok (0, emit [Puts (lit ''Rebooting...\<newline>''), SleepMs 1000, Reboot] st)"

definition cmd_shutdown :: "u8 list \<Rightarrow> 'd cmd_state \<Rightarrow> (int \<times> 'd cmd_state) outcome" where
  "cmd_shutdown args st =
     Ok (0, emit [Puts (lit ''System shutting down...\<newline>''), SleepMs 2000, Shutdown] st)"

definition cmd_halt :: "u8 list \<Rightarrow> 'd cmd_state \<Rightarrow> (int \<times> 'd cmd_state) outcome" where
  "cmd_halt args st = Ok (0, emit [Puts (lit ''System halted\<newline>''), Halt] st)"

definition cmd_exit :: "u8 list \<Rightarrow> 'd cmd_state \<Rightarrow> (int \<times> 'd cmd_state) outcome" where
  "cmd_exit args st = Ok (0, say ''Cannot exit shell - use REBOOT\<newline>'' st)"

definition cmd_pwd :: "u8 list \<Rightarrow> 'd cmd_state \<Rightarrow> (int \<times> 'd cmd_state) outcome" where
  "cmd_pwd args st = Ok (0, say_line (cstr (current_dir st)) st)"

text \<open>
  The handlers whose body is fixed \<^verbatim>\<open>puts\<close> calls and \<^verbatim>\<open>return 0\<close>, by the name of the C function,
  with the texts they print.
\<close>

definition fixed_texts :: "(string \<times> string list) list" where
  "fixed_texts =
     [(''cmd_wifilogin'', [''WiFi is not available in VirtIO mode.\<newline>'', ''Use NETSTART to initialize VirtIO network instead.\<newline>'']),
      (''cmd_wifiscan'', [''WiFi scanning is not available in VirtIO mode.\<newline>'', ''VirtIO provides wired ethernet-like connectivity.\<newline>'']),
      (''cmd_wificonnect'', [''WiFi is not available in VirtIO mode.\<newline>'', ''Use NETSTART to connect via VirtIO network.\<newline>'']),
      (''cmd_wifistatus'', [''WiFi status not available. Use IPCONFIG for network status.\<newline>'']),
      (''cmd_wifiap'', [''WiFi not available - use NETSTART\<newline>'']),
      (''cmd_wifidisconnect'', [''WiFi not available\<newline>'']),
      (''cmd_wifirescan'', [''WiFi not available\<newline>'']),
      (''cmd_wifisignal'', [''WiFi not available\<newline>'']),
      (''cmd_wifistat'', [''WiFi not available - use IPCONFIG\<newline>'']),
      (''cmd_mount'', [''MOUNT: Not implemented\<newline>'']),
      (''cmd_umount'', [''UMOUNT: Not implemented\<newline>'']),
      (''cmd_sync'', [''SYNC: OK\<newline>'']),
      (''cmd_free'', [''FREE: Memory info not available\<newline>'']),
      (''cmd_df'', [''DF: Disk info not available\<newline>'']),
      (''cmd_du'', [''DU: Not implemented\<newline>'']),
      (''cmd_lsblk'', [''LSBLK: Not implemented\<newline>'']),
      (''cmd_fdisk'', [''FDISK: Not implemented\<newline>'']),
      (''cmd_blkid'', [''BLKID: Not implemented\<newline>'']),
      (''cmd_readsector'', [''READSECTOR: Not implemented\<newline>'']),
      (''cmd_sysinfo'', [''RO-DOS with VirtIO drivers\<newline>'']),
      (''cmd_uname'', [''RO-DOS v1.0 i386\<newline>'']),
      (''cmd_hostname'', [''rodos\<newline>'']),
      (''cmd_lscpu'', [''LSCPU: x86 CPU\<newline>'']),
      (''cmd_dmesg'', [''DMESG: No kernel messages\<newline>'']),
      (''cmd_mode'', [''MODE: Use GUITEST for graphics\<newline>'']),
      (''cmd_ipconfig'', [''Use NETSTAT for network status\<newline>'']),
      (''cmd_ping'', [''PING: Use NETSTART first, then WGET to test network\<newline>'']),
      (''cmd_wc'', [''WC: Not implemented\<newline>'']),
      (''cmd_tail'', [''TAIL: Not implemented\<newline>'']),
      (''cmd_head'', [''HEAD: Not implemented\<newline>'']),
      (''cmd_sort'', [''SORT: Not implemented\<newline>'']),
      (''cmd_uniq'', [''UNIQ: Not implemented\<newline>'']),
      (''cmd_diff'', [''DIFF: Not implemented\<newline>'']),
      (''cmd_cut'', [''CUT: Not implemented\<newline>'']),
      (''cmd_paste'', [''PASTE: Not implemented\<newline>'']),
      (''cmd_tr'', [''TR: Not implemented\<newline>'']),
      (''cmd_sed'', [''SED: Not implemented\<newline>'']),
      (''cmd_awk'', [''AWK: Not implemented\<newline>'']),
      (''cmd_base64'', [''BASE64: Not implemented\<newline>'']),
      (''cmd_xxd'', [''XXD: Not implemented\<newline>'']),
      (''cmd_od'', [''OD: Not implemented\<newline>'']),
      (''cmd_rev'', [''REV: Not implemented\<newline>'']),
      (''cmd_nl'', [''NL: Not implemented\<newline>'']),
      (''cmd_tac'', [''TAC: Not implemented\<newline>'']),
      (''cmd_factor'', [''FACTOR: Not implemented\<newline>'']),
      (''cmd_seq'', [''SEQ: Not implemented\<newline>'']),
      (''cmd_shuf'', [''SHUF: Not implemented\<newline>'']),
      (''cmd_yes'', [''YES: Not implemented\<newline>'']),
      (''cmd_watch'', [''WATCH: Not implemented\<newline>'']),
      (''cmd_timeout'', [''TIMEOUT: Not implemented\<newline>'']),
      (''cmd_which'', [''WHICH: Not implemented\<newline>'']),
      (''cmd_whereis'', [''WHEREIS: Not implemented\<newline>'']),
      (''cmd_id'', [''uid=0(root)\<newline>'']),
      (''cmd_who'', [''root console\<newline>'']),
      (''cmd_w'', [''root console\<newline>'']),
      (''cmd_last'', [''LAST: Not implemented\<newline>'']),
      (''cmd_env'', [''PATH=/\<newline>HOME=/\<newline>'']),
      (''cmd_export'', [''EXPORT: Not implemented\<newline>'']),
      (''cmd_unset'', [''UNSET: Not implemented\<newline>'']),
      (''cmd_source'', [''SOURCE: Not implemented\<newline>'']),
      (''cmd_test'', [''TEST: Not implemented\<newline>'']),
      (''cmd_expr'', [''EXPR: Not implemented\<newline>'']),
      (''cmd_let'', [''LET: Not implemented\<newline>'']),
      (''cmd_read'', [''READ: Not implemented\<newline>'']),
      (''cmd_alias'', [''ALIAS: Not implemented\<newline>'']),
      (''cmd_unalias'', [''UNALIAS: Not implemented\<newline>'']),
      (''cmd_history'', [''HISTORY: Not implemented\<newline>'']),
      (''cmd_jobs'', [''JOBS: Not implemented\<newline>'']),
      (''cmd_fg'', [''FG: Not implemented\<newline>'']),
      (''cmd_bg'', [''BG: Not implemented\<newline>'']),
      (''cmd_nice'', [''NICE: Not implemented\<newline>'']),
      (''cmd_nohup'', [''NOHUP: Not implemented\<newline>'']),
      (''cmd_strace'', [''STRACE: Not implemented\<newline>'']),
      (''cmd_grep'', [''GREP: Not implemented\<newline>'']),
      (''cmd_more'', [''MORE: Not implemented\<newline>'']),
      (''cmd_less'', [''LESS: Not implemented\<newline>'']),
      (''cmd_file'', [''FILE: Not implemented\<newline>'']),
      (''cmd_stat'', [''STAT: Not implemented\<newline>'']),
      (''cmd_path'', [''/\<newline>'']),
      (''cmd_prompt'', [''PROMPT: Not implemented\<newline>'']),
      (''cmd_ln'', [''LN: Not implemented\<newline>'']),
      (''cmd_chown'', [''CHOWN: Not implemented\<newline>'']),
      (''cmd_strings'', [''STRINGS: Not implemented\<newline>'']),
      (''cmd_cal'', [''CAL: Not implemented\<newline>'']),
      (''cmd_fortune'', [''Your fortune: Good things come to those who wait!\<newline>''])]"

definition cmd_fixed :: "string \<Rightarrow> u8 list \<Rightarrow> 'd cmd_state \<Rightarrow> (int \<times> 'd cmd_state) outcome" where
  "cmd_fixed f args st =
     Ok (0, emit (map (\<lambda>t. Puts (lit t)) (case map_of fixed_texts f of Some ts \<Rightarrow> ts | None \<Rightarrow> [])) st)"

text \<open>NETMODE, from \<^verbatim>\<open>src/src/cmd_netmode.c\<close>.\<close>

definition cmd_netmode :: "u8 list \<Rightarrow> 'd cmd_state \<Rightarrow> (int \<times> 'd cmd_state) outcome" where
  "cmd_netmode args st = Ok (0, emit [Puts (lit ''=== Network Driver Status ===\<newline>''),
     Puts (lit ''Active driver: VirtIO Network\<newline>''), Puts (lit ''\<newline>''),
     Puts (lit ''VirtIO is the only supported network driver.\<newline>''),
     Puts (lit ''Use NETSTART to initialize network.\<newline>''),
     Puts (lit ''Use IPCONFIG to check network status.\<newline>''),
     Puts (lit ''Use WGET to download files.\<newline>'')] st)"

text \<open>\<^verbatim>\<open>src/src/wifi_autostart.c\<close>: the start-up hooks of the network, which do nothing in this mode.\<close>

definition wifi_autostart_init :: "'d cmd_state \<Rightarrow> 'd cmd_state" where
  "wifi_autostart_init st = st"

definition wifi_autostart_should_connect :: int where
  "wifi_autostart_should_connect = 0"

definition wifi_autostart_connect :: "'d cmd_state \<Rightarrow> int \<times> 'd cmd_state" where
  "wifi_autostart_connect st = (0, emit [Puts (lit ''VirtIO mode: Use NETSTART to initialize network\<newline>'')] st)"

definition wifi_autostart :: "'d cmd_state \<Rightarrow> 'd cmd_state" where
  "wifi_autostart st = st"

text \<open>
  LSPCI.  \<open>pci\<close> is \<^verbatim>\<open>pci_config_read\<close> on bus 0, function 0: device and offset to register.
\<close>

definition hex_nibbles :: "nat \<Rightarrow> u32 \<Rightarrow> console_event list" where
  "hex_nibbles k n = map (\<lambda>j. Putc (lit ''0123456789ABCDEF'' ! unat (drop_bit (4 * j) n AND 0xF))) (rev [0..<k])"

definition lspci_slot :: "(u8 \<Rightarrow> u8 \<Rightarrow> u32) \<Rightarrow> nat \<Rightarrow> console_event list option" where
  "lspci_slot pci slot =
     (let vendor_device = pci (of_nat slot) 0;
          vendor = vendor_device AND 0xFFFF; device_id = drop_bit 16 vendor_device AND 0xFFFF
      in if vendor \<noteq> 0xFFFF \<and> vendor \<noteq> 0
         then Some ([Puts (lit ''Slot '')] @ (if slot < 10 then [Putc 48] else []) @
           [Putc (48 + of_nat (slot div 10)), Putc (48 + of_nat (slot mod 10)), Puts (lit '': Vendor='')] @
           hex_nibbles 4 vendor @ [Puts (lit '' Dev='')] @ hex_nibbles 4 device_id @
           [Puts (lit '' BAR0='')] @ hex_nibbles 8 (pci (of_nat slot) 0x10) @
           [Puts (lit '' BAR1='')] @ hex_nibbles 8 (pci (of_nat slot) 0x14) @ [Puts (lit ''\<newline>'')] @
           (if vendor = 0x1AF4 then [Puts (lit ''  ^^^ VirtIO device found!\<newline>'')] else []))
         else None)"

definition cmd_lspci :: "(u8 \<Rightarrow> u8 \<Rightarrow> u32) \<Rightarrow> u8 list \<Rightarrow> 'd cmd_state \<Rightarrow> (int \<times> 'd cmd_state) outcome" where
  "cmd_lspci pci args st =
     (let slots = List.map_filter (lspci_slot pci) [0..<32]; found = length slots
      in Ok (0, emit ([Puts (lit ''=== PCI Scan (Bus 0) ===\<newline>'')] @ concat slots @
           (if found = 0 then [Puts (lit ''No PCI devices found!\<newline>'')]
            else [Puts (lit ''Total: ''), Putc (48 + of_nat (found div 10)), Putc (48 + of_nat (found mod 10)),
                  Puts (lit '' devices\<newline>'')]) @
           [Puts (lit ''VirtIO vendor ID is 1AF4\<newline>'')]) st))"

section \<open>The commands keep the state well-formed\<close>

lemma hash_bytes_length [simp]: "length (hash_bytes h) = 32"
  by (simp add: hash_bytes_def)

lemma wf_users:
  assumes "cmd_wf st"
  shows "length (user_table st) = 32" "user_count st \<le> 32" "\<forall>u \<in> set (user_table st). wf_user u"
    "\<forall>i < user_count st. ue_username (user_table st ! i) ! 0 \<noteq> 0"
  using assms by (simp_all add: cmd_wf_def fs_wf_def)

lemma wf_set_user:
  assumes "cmd_wf st" and "wf_user u" and "i < 32" and "ue_username u ! 0 \<noteq> 0"
    and "n = user_count st \<or> i = user_count st \<and> n = Suc i"
  shows "cmd_wf (st\<lparr>user_table := (user_table st)[i := u], user_count := n\<rparr>)"
proof -
  have t: "\<forall>x \<in> set ((user_table st)[i := u]). wf_user x"
    using wf_users [OF assms(1)] assms(2) by (intro ball_update) simp_all
  have l: "ue_username ((user_table st)[i := u] ! k) ! 0 \<noteq> 0" if "k < n" for k
    using that wf_users [OF assms(1)] assms(3-5) by (cases "k = i") auto
  have "n \<le> 32" using wf_users(2) [OF assms(1)] assms(3,5) by auto
  then show ?thesis using assms(1) t l by (simp add: cmd_wf_def fs_wf_def)
qed

lemma wf_remove_user:
  assumes "cmd_wf st" and "i < user_count st"
  shows "cmd_wf (st\<lparr>user_table := remove_at (user_table st) i (user_count st), user_count := user_count st - 1\<rparr>)"
proof -
  have c: "user_count st \<le> length (user_table st)" using wf_users [OF assms(1)] by simp
  have "\<forall>u \<in> set (remove_at (user_table st) i (user_count st)). wf_user u"
    using wf_users(3) [OF assms(1)] remove_at_set [OF assms(2) c] by blast
  moreover have "\<forall>k < user_count st - 1.
      ue_username (remove_at (user_table st) i (user_count st) ! k) ! 0 \<noteq> 0"
    using wf_users(4) [OF assms(1)] remove_at_nth [OF assms(2) c] by auto
  moreover have "user_count st - 1 \<le> 32" using wf_users(2) [OF assms(1)] by simp
  ultimately show ?thesis using assms by (simp add: cmd_wf_def fs_wf_def)
qed

lemma wf_set_current_user:
  "cmd_wf st \<Longrightarrow> length u = 32 \<Longrightarrow> 0 \<in> set u \<Longrightarrow> cmd_wf (st\<lparr>current_user := u\<rparr>)"
  by (simp add: cmd_wf_def fs_wf_def)

lemma wf_current_user: "cmd_wf st \<Longrightarrow> length (current_user st) = 32"
  by (simp add: cmd_wf_def)

lemma wf_set_processes:
  "cmd_wf st \<Longrightarrow> length ps = 16 \<Longrightarrow> n \<le> 16 \<Longrightarrow> \<forall>p \<in> set ps. wf_process p \<Longrightarrow>
   cmd_wf (st\<lparr>process_table := ps, process_count := n\<rparr>)"
  by (simp add: cmd_wf_def fs_wf_def)

lemma wf_mk_process: "wf_process p \<Longrightarrow> wf_process (mk_process p pid n s m q)"
  by (simp add: wf_process_def mk_process_def length_str_copy nul_str_copy)

lemma wf_ensure_processes: 
  assumes "cmd_wf st"
  shows "cmd_wf (ensure_processes_init st)"
proof -
  have "length (process_table st) = 16" "\<forall>p \<in> set (process_table st). wf_process p"
    using assms by (simp_all add: cmd_wf_def)
  moreover from this have "wf_process (process_table st ! i)" if "i < 16" for i using that by simp
  ultimately have "\<forall>p \<in> set (process_table (ensure_processes_init st)). wf_process p"
    unfolding ensure_processes_init_def
    by (simp, intro impI ball_update wf_mk_process) simp_all
  then show ?thesis using assms unfolding ensure_processes_init_def
    by (simp, intro impI wf_set_processes) (simp_all add: cmd_wf_def)
qed

lemma wf_remove_process:
  assumes "cmd_wf st" and "i < process_count st"
  shows "cmd_wf (st\<lparr>process_table := remove_at (process_table st) i (process_count st),
    process_count := process_count st - 1\<rparr>)"
proof -
  have c: "process_count st \<le> length (process_table st)" using assms(1) by (simp add: cmd_wf_def)
  have "\<forall>p \<in> set (process_table st). wf_process p" using assms(1) by (simp add: cmd_wf_def)
  then show ?thesis
    using assms remove_at_set [OF assms(2) c] by (intro wf_set_processes) (auto simp: cmd_wf_def)
qed

lemma username_wf:
  assumes "wf_user u" and "name \<noteq> []" and "0 \<notin> set name"
  shows "wf_user (\<lparr>ue_username = str_copy (ue_username u) name 32, ue_password_hash = hash_bytes h\<rparr>)"
    and "str_copy (ue_username u) name 32 ! 0 \<noteq> 0"
proof -
  show "wf_user (\<lparr>ue_username = str_copy (ue_username u) name 32, ue_password_hash = hash_bytes h\<rparr>)"
    using assms(1) by (simp add: wf_user_def length_str_copy nul_str_copy)
  show "str_copy (ue_username u) name 32 ! 0 \<noteq> 0"
    using path_first [OF assms(2,3)] assms(2) by (simp add: str_copy_hd)
qed

interpretation useradd: safe_command "cmd_useradd io" for io :: "'d port_io"
proof
  fix st :: "'d cmd_state" and args :: "u8 list"
  assume wf: "cmd_wf st" and a: "0 \<notin> set args"
  have "cmd_wf (st\<lparr>user_table := (user_table st)[user_count st :=
      \<lparr>ue_username = str_copy (ue_username (user_table st ! user_count st)) name 32,
       ue_password_hash = hash_bytes (hash_string name)\<rparr>], user_count := user_count st + 1\<rparr>)"
    if t: "get_token args 32 = (name, r)" and n: "name \<noteq> []" and c: "user_count st < 32" for name r
  proof -
    have "wf_user (user_table st ! user_count st)" using wf_users [OF wf] c by simp
    from username_wf [OF this n get_token_nonzero(1) [OF t a]] c show ?thesis
      by (intro wf_set_user wf) simp_all
  qed
  then show "safe_result (cmd_useradd io args st)"
    using wf by (auto simp: cmd_useradd_def Let_def FS_MAX_USERS_def split: prod.split intro!: safe_save)
qed

interpretation userdel: safe_command "cmd_userdel io" for io :: "'d port_io"
proof
  fix st :: "'d cmd_state" and args
  assume wf: "cmd_wf st"
  then show "safe_result (cmd_userdel io args st)"
    using wf_remove_user [OF wf]
    by (auto simp: cmd_userdel_def find_user_def Let_def split: prod.split option.split
        intro!: safe_save dest!: find_index_Some)
qed

lemma safe_change_password:
  assumes wf: "cmd_wf st" and "i < user_count st"
  shows "safe_result (change_password io i st)"
proof -
  have i: "i < 32" "wf_user (user_table st ! i)" "ue_username (user_table st ! i) ! 0 \<noteq> 0"
    using wf_users [OF wf] assms(2) by auto
  have w: "cmd_wf (st\<lparr>keys := ks, user_table := (user_table st)[i := (user_table st ! i)
      \<lparr>ue_password_hash := hash_bytes h\<rparr>]\<rparr>)" for h ks
  proof -
    have "wf_user ((user_table st ! i)\<lparr>ue_password_hash := hash_bytes h\<rparr>)" using i by (simp add: wf_user_def)
    from wf_set_user [OF _ this i(1), of "st\<lparr>keys := ks\<rparr>" "user_count st"] wf i show ?thesis by simp
  qed
  have "read_passwd ks p e \<noteq> Fault" for ks p e
    by (induction ks p e rule: read_passwd.induct) (simp_all add: Let_def)
  then show ?thesis
    unfolding change_password_def
    by (cases "read_passwd (keys st) [] []") (auto simp: Let_def w intro!: safe_save)
qed

interpretation passwd: safe_command "cmd_passwd io" for io :: "'d port_io"
proof
  fix st :: "'d cmd_state" and args
  assume "cmd_wf st"
  then show "safe_result (cmd_passwd io args st)"
    by (simp add: cmd_passwd_def find_user_def Let_def split: prod.split option.split)
      (blast intro: safe_change_password dest: find_index_Some)
qed

interpretation login: safe_command cmd_login
  by unfold_locales (auto simp: cmd_login_def Let_def length_str_copy nul_str_copy wf_current_user
    split: prod.split option.split intro!: wf_set_current_user)

interpretation logout: safe_command cmd_logout
  by unfold_locales (auto simp: cmd_logout_def length_str_copy nul_str_copy wf_current_user
    intro!: wf_set_current_user)

interpretation ps: safe_command cmd_ps
  by unfold_locales (simp add: cmd_ps_def Let_def wf_ensure_processes)

interpretation top: safe_command cmd_top
  by unfold_locales (simp add: cmd_top_def ps.safe)

interpretation kill: safe_command cmd_kill
proof
  fix st :: "'d cmd_state" and args
  assume wf: "cmd_wf st"
  define st1 where "st1 = ensure_processes_init st"
  have w1: "cmd_wf st1" unfolding st1_def by (rule wf_ensure_processes [OF wf])
  from wf w1 show "safe_result (cmd_kill args st)"
    unfolding cmd_kill_def st1_def [symmetric] Let_def
    by (simp split: prod.split option.split) (blast intro: wf_remove_process [OF w1, simplified] dest: find_index_Some)
qed

lemmas cmd_print_only = cmd_users_def cmd_whoami_def cmd_time_def cmd_date_def cmd_mem_def
  cmd_uptime_def cmd_echo_def cmd_color_def cmd_beep_def cmd_pause_def cmd_sleep_def cmd_calc_def
  cmd_hexdump_def cmd_ascii_def cmd_hash_def cmd_help_def cmd_cls_def cmd_ver_def cmd_reboot_def
  cmd_shutdown_def cmd_halt_def cmd_exit_def cmd_pwd_def cmd_fixed_def cmd_lspci_def cmd_netmode_def

lemma print_only_safe:
  "cmd_wf st \<Longrightarrow> safe_result (cmd_users args st)" "cmd_wf st \<Longrightarrow> safe_result (cmd_whoami args st)"
  "cmd_wf st \<Longrightarrow> safe_result (cmd_time env args st)" "cmd_wf st \<Longrightarrow> safe_result (cmd_date env args st)"
  "cmd_wf st \<Longrightarrow> safe_result (cmd_mem env args st)" "cmd_wf st \<Longrightarrow> safe_result (cmd_uptime env args st)"
  "cmd_wf st \<Longrightarrow> safe_result (cmd_echo args st)" "cmd_wf st \<Longrightarrow> safe_result (cmd_color args st)"
  "cmd_wf st \<Longrightarrow> safe_result (cmd_beep args st)" "cmd_wf st \<Longrightarrow> safe_result (cmd_pause args st)"
  "cmd_wf st \<Longrightarrow> safe_result (cmd_sleep args st)" "cmd_wf st \<Longrightarrow> safe_result (cmd_calc args st)"
  "cmd_wf st \<Longrightarrow> safe_result (cmd_hexdump env args st)" "cmd_wf st \<Longrightarrow> safe_result (cmd_ascii args st)"
  "cmd_wf st \<Longrightarrow> safe_result (cmd_hash args st)" "cmd_wf st \<Longrightarrow> safe_result (cmd_help args st)"
  "cmd_wf st \<Longrightarrow> safe_result (cmd_cls args st)" "cmd_wf st \<Longrightarrow> safe_result (cmd_ver args st)"
  "cmd_wf st \<Longrightarrow> safe_result (cmd_reboot args st)" "cmd_wf st \<Longrightarrow> safe_result (cmd_shutdown args st)"
  "cmd_wf st \<Longrightarrow> safe_result (cmd_halt args st)" "cmd_wf st \<Longrightarrow> safe_result (cmd_exit args st)"
  "cmd_wf st \<Longrightarrow> safe_result (cmd_pwd args st)" "cmd_wf st \<Longrightarrow> safe_result (cmd_fixed texts args st)"
  "cmd_wf st \<Longrightarrow> safe_result (cmd_lspci pci args st)" "cmd_wf st \<Longrightarrow> safe_result (cmd_netmode args st)"
  by (simp_all add: cmd_print_only Let_def split: prod.split option.split list.split)

section \<open>Decimal arguments\<close>

lemma rdigits_10_length: "n < 10 ^ k \<Longrightarrow> length (rdigits 10 n) \<le> k"
proof (induction k arbitrary: n)
  case (Suc k)
  then have "n div 10 < 10 ^ k" by (simp add: less_mult_imp_div_less mult.commute)
  with Suc.IH show ?case by (simp add: rdigits.simps [of 10 n])
qed (simp add: rdigits.simps)

lemma unat_bound: "unat (n :: u32) < 4294967296"
  using unsigned_less [of n] by simp

lemma int_to_str_length: "int_to_str n \<noteq> []" "length (int_to_str n) \<le> 10"
proof -
  have "unat n < 10 ^ 10" using unat_bound [of n] by simp
  from rdigits_10_length [OF this] show "length (int_to_str n) \<le> 10"
    by (simp add: int_to_str_show show_nat_def)
  show "int_to_str n \<noteq> []"
    using rdigits_nonempty [of 10 "unat n"] by (auto simp: int_to_str_show show_nat_def)
qed

lemma digit_not_blank: "d < 10 \<Longrightarrow> \<not> is_blank (digit_byte d)"
proof -
  have "list_all (\<lambda>d. \<not> is_blank (digit_byte d)) [0..<10]" by code_simp
  then show "d < 10 \<Longrightarrow> \<not> is_blank (digit_byte d)" by (simp only: list_all_iff set_upt atLeastLessThan_iff) simp
qed

lemma int_to_str_not_blank: "\<forall>c \<in> set (int_to_str n). \<not> is_blank c"
proof -
  obtain ds where "show_nat 10 (unat n) = map digit_byte ds" "\<forall>d \<in> set ds. d < 10"
    by (rule show_nat_digits [of 10 "unat n"]) auto
  then show ?thesis by (auto simp: int_to_str_show digit_not_blank)
qed

lemma get_token_loop_word:
  assumes "\<forall>c \<in> set t. \<not> is_blank c" and "length t \<le> n" and "r = [] \<or> is_blank (hd r)"
  shows "get_token_loop (t @ r) acc n = (acc @ t, r)"
  using assms
proof (induction t arbitrary: acc n)
  case Nil
  then show ?case by (cases r) auto
qed simp

lemma get_token_word:
  assumes "\<forall>c \<in> set b. is_blank c" and "\<forall>c \<in> set t. \<not> is_blank c" and "t \<noteq> []" and "length t \<le> n - 1"
    and "r = [] \<or> is_blank (hd r)"
  shows "get_token (b @ t @ r) n = (t, r)"
proof -
  have "skip_spaces (b @ t @ r) = t @ r"
    using assms(1-3) by (cases t) (simp_all add: skip_spaces_def dropWhile_append2)
  then show ?thesis using get_token_loop_word [OF assms(2,4,5), of "[]"] by (simp add: get_token_def)
qed

section \<open>Properties\<close>

text \<open>
  Decimal text of 32-bit numbers: \<^verbatim>\<open>int_to_str\<close> prints at most ten digits and at least
  one, so the result with its terminator fits the 16-byte buffers of its callers, and
  \<^verbatim>\<open>str_to_int\<close> reads back every value.
\<close>
theorem int_to_str_roundtrip:
  "str_to_int (int_to_str n) = n \<and> 1 \<le> length (int_to_str n) \<and> length (int_to_str n) + 1 \<le> 11"
  using int_to_str_length [of n] str_to_int_show [of n]
  by (simp add: int_to_str_show [of n, symmetric] Suc_le_eq)

text \<open>
  CALC on two printed numbers prints their sum, difference or product modulo \<open>2 ^ 32\<close>,
  or their unsigned quotient; a division by zero is an error message and not a fault.
\<close>
theorem calc_correct:
  "let answer = (\<lambda>v. Ok (0, emit [Puts (lit ''Result: ''), Puts (int_to_str v), Puts (lit ''\<newline>'')] st))
   in cmd_calc (int_to_str a @ [32, 43, 32] @ int_to_str b) st = answer (a + b) \<and>
      cmd_calc (int_to_str a @ [32, 45, 32] @ int_to_str b) st = answer (a - b) \<and>
      cmd_calc (int_to_str a @ [32, 42, 32] @ int_to_str b) st = answer (a * b) \<and>
      cmd_calc (int_to_str a @ [32, 47, 32] @ int_to_str b) st =
        (if b = 0 then Ok (- 1, say ''Error: Division by zero\<newline>'' st) else answer (a div b))"
proof -
  have n: "str_to_int (int_to_str n) = n" for n using str_to_int_show by (simp add: int_to_str_show)
  have 1: "get_token (int_to_str a @ 32 # c # 32 # int_to_str b) 16 = (int_to_str a, 32 # c # 32 # int_to_str b)" for c
    using get_token_word [of "[]" "int_to_str a" 16 "32 # c # 32 # int_to_str b"] int_to_str_not_blank [of a]
      int_to_str_length [of a] by (simp add: is_blank_def)
  have 2: "get_token (32 # c # 32 # int_to_str b) 4 = ([c], 32 # int_to_str b)" if "\<not> is_blank c" for c
    using get_token_word [of "[32]" "[c]" 4 "32 # int_to_str b"] that by (simp add: is_blank_def)
  have 3: "get_token (32 # int_to_str b) 16 = (int_to_str b, [])"
    using get_token_word [of "[32]" "int_to_str b" 16 "[]"] int_to_str_not_blank [of b]
      int_to_str_length [of b] by (simp add: is_blank_def)
  show ?thesis
    by (simp add: cmd_calc_def n 1 2 3 int_to_str_length(1) is_blank_def)
qed

text \<open>The live part of the process table.\<close>

definition processes :: "'d cmd_state \<Rightarrow> process_entry list" where
  "processes st = take (process_count st) (process_table st)"

lemma filter_remove_unique:
  assumes "distinct (map f xs)" and "i < length xs"
  shows "filter (\<lambda>x. f x \<noteq> f (xs ! i)) xs = take i xs @ drop (i + 1) xs"
proof -
  define a b where "a = take i xs" and "b = drop (i + 1) xs"
  have xs: "xs = a @ xs ! i # b" unfolding a_def b_def using assms(2) by (simp add: id_take_nth_drop [symmetric])
  have "distinct (map f (a @ xs ! i # b))" using assms(1) xs by simp
  then have "filter (\<lambda>x. f x \<noteq> f (xs ! i)) a = a" "filter (\<lambda>x. f x \<noteq> f (xs ! i)) b = b"
    by (simp_all add: filter_id_conv) (metis imageI)+
  then have "filter (\<lambda>x. f x \<noteq> f (xs ! i)) (a @ xs ! i # b) = a @ b" by simp
  with xs show ?thesis by (simp add: a_def b_def)
qed

text \<open>
  KILL.  On a table with distinct process ids, after the default processes are set up if
  the table was empty, KILL removes exactly the process with the given id and keeps the order
  of the others; ids 1 and 2 (KERNEL and SHELL) are never removed, and the return code is 0
  exactly when a process was removed.
\<close>
theorem kill_removes_only_target:
  assumes "cmd_wf st" and "get_token args 16 = (pid_str, rest)" and "pid_str \<noteq> []"
    and "distinct (map pe_pid (processes (ensure_processes_init st)))"
  shows "\<exists>r st'. cmd_kill args st = Ok (r, st') \<and>
    processes st' = filter (\<lambda>p. pe_pid p \<le> 2 \<or> pe_pid p \<noteq> str_to_int pid_str)
      (processes (ensure_processes_init st)) \<and>
    (r = 0 \<longleftrightarrow> 2 < str_to_int pid_str \<and>
      str_to_int pid_str \<in> pe_pid ` set (processes (ensure_processes_init st)))"
proof -
  define st1 pid where "st1 = ensure_processes_init st" and "pid = str_to_int pid_str"
  have w: "cmd_wf st1" unfolding st1_def by (rule wf_ensure_processes [OF assms(1)])
  then have c: "process_count st1 \<le> length (process_table st1)" by (simp add: cmd_wf_def)
  have d: "distinct (map pe_pid (processes st1))" using assms(4) by (simp add: st1_def)
  have nth: "processes st1 ! k = process_table st1 ! k" if "k < process_count st1" for k
    using that by (simp add: processes_def)
  have len: "length (processes st1) = process_count st1" using c by (simp add: processes_def)
  have mem: "pid \<in> pe_pid ` set (processes st1) \<longleftrightarrow> (\<exists>k < process_count st1. pe_pid (process_table st1 ! k) = pid)"
  proof -
    have "set (processes st1) = {process_table st1 ! k |k. k < process_count st1}"
      unfolding set_conv_nth len using nth by metis
    then show ?thesis by auto
  qed
  note kill = cmd_kill_def assms(2,3) st1_def [symmetric] pid_def [symmetric] Let_def
  show ?thesis
  proof (cases "pid \<le> 2")
    case True
    then have "filter (\<lambda>p. pe_pid p \<le> 2 \<or> pe_pid p \<noteq> pid) (processes st1) = processes st1"
      by (auto simp: filter_id_conv)
    with True show ?thesis unfolding st1_def [symmetric] pid_def [symmetric]
      by (simp add: kill say_def) (simp add: processes_def linorder_not_less)
  next
    case False
    then have f: "filter (\<lambda>p. pe_pid p \<le> 2 \<or> pe_pid p \<noteq> pid) (processes st1) =
        filter (\<lambda>p. pe_pid p \<noteq> pid) (processes st1)"
      by (intro filter_cong) auto
    show ?thesis
    proof (cases "find_index (\<lambda>p. pe_pid p = pid) (process_count st1) (process_table st1)")
      case None
      then have n: "\<forall>k < process_count st1. pe_pid (process_table st1 ! k) \<noteq> pid" by (simp add: find_index_None)
      then have "filter (\<lambda>p. pe_pid p \<noteq> pid) (processes st1) = processes st1"
        using mem by (auto simp: filter_id_conv)
      with False None n f mem show ?thesis unfolding st1_def [symmetric] pid_def [symmetric]
        by (simp add: kill say_def) (simp add: processes_def)
    next
      case (Some i)
      note i = find_index_Some [OF Some]
      then have "filter (\<lambda>p. pe_pid p \<noteq> pid) (processes st1) = take i (processes st1) @ drop (i + 1) (processes st1)"
        using filter_remove_unique [OF d, of i] len nth [of i] by simp
      also have "\<dots> = take (process_count st1 - 1) (remove_at (process_table st1) i (process_count st1))"
        using remove_at_take [of i "process_count st1" "process_table st1"] i c
        by (simp add: processes_def min_def)
      finally show ?thesis using False Some f mem i unfolding st1_def [symmetric] pid_def [symmetric]
        by (auto simp: kill processes_def not_le)
    qed
  qed
qed

theorem kill_removes_only_target_witness:
  "\<exists>r st'. cmd_kill (lit '' 3'') (initial_state (0 :: nat)) = Ok (r, st') \<and>
    processes st' = filter (\<lambda>p. pe_pid p \<le> 2 \<or> pe_pid p \<noteq> str_to_int (lit ''3''))
      (processes (ensure_processes_init (initial_state (0 :: nat)))) \<and>
    (r = 0 \<longleftrightarrow> 2 < str_to_int (lit ''3'') \<and>
      str_to_int (lit ''3'') \<in> pe_pid ` set (processes (ensure_processes_init (initial_state (0 :: nat)))))"
proof (rule kill_removes_only_target)
  show "cmd_wf (initial_state (0 :: nat))" by (rule initial_wf)
  show "get_token (lit '' 3'') 16 = (lit ''3'', [])" by code_simp
  show "lit ''3'' \<noteq> []" by (simp add: lit_def)
  have "map pe_pid (processes (ensure_processes_init (initial_state (0 :: nat)))) = [1, 2, 3, 4]"
    by (simp add: processes_def ensure_processes_init_def initial_state_def MAX_PROCESSES_def
        mk_process_def numeral_eq_Suc)
  then show "distinct (map pe_pid (processes (ensure_processes_init (initial_state (0 :: nat)))))" by simp
qed

lemma login_known:
  assumes "get_token args 32 = (name, rest)" and "name \<noteq> []" and "0 \<notin> set name" and "length name \<le> 31"
    and "find_user name st = Some i"
  shows "\<exists>st2. cmd_login args st = Ok (0, st2) \<and> cstr (current_user st2) = name"
  using assms by (simp add: cmd_login_def cstr_str_copy)

text \<open>
  Accounts.  USERADD of a new name succeeds while the table has room, and LOGIN to it then
  succeeds and makes it the current user, whatever password hash the account has: LOGIN reads
  no password.
\<close>
theorem useradd_then_login:
  assumes "cmd_wf st" and "0 \<notin> set args" and "get_token args 32 = (name, rest)" and "name \<noteq> []"
    and "find_user name st = None" and "user_count st < FS_MAX_USERS"
  shows "\<exists>st1. cmd_useradd io args st = Ok (0, st1) \<and> user_count st1 = user_count st + 1 \<and>
    (\<forall>h. \<exists>st2. cmd_login args (st1\<lparr>user_table := (user_table st1)[user_count st :=
       (user_table st1 ! user_count st)\<lparr>ue_password_hash := h\<rparr>]\<rparr>) = Ok (0, st2) \<and>
       cstr (current_user st2) = name)"
proof -
  define k u where "k = user_count st" and "u = \<lparr>ue_username = str_copy (ue_username (user_table st ! k)) name 32,
    ue_password_hash = hash_bytes (hash_string name)\<rparr>"
  have k: "k < 32" using assms(6) by (simp add: k_def FS_MAX_USERS_def)
  have n: "0 \<notin> set name" "length name \<le> 31" using get_token_nonzero [OF assms(3,2)] by auto
  have c: "cstr (str_copy a name 32) = name" for a using n by (simp add: cstr_str_copy)
  have "wf_user (user_table st ! k)" using wf_users [OF assms(1)] k by simp
  note u = username_wf [OF this assms(4) n(1)]
  define st' where "st' = st\<lparr>user_table := (user_table st)[k := u], user_count := k + 1\<rparr>"
  have "cmd_wf st'" unfolding st'_def u_def k_def [symmetric]
    using u k by (intro wf_set_user assms(1)) (auto simp: k_def)
  from save_total [OF this, of io] obtain r d where s: "fs_save_to_disk io st' = Ok (r, st'\<lparr>dev := d\<rparr>)" by blast
  let ?st1 = "emit [Puts (lit ''User created: ''), Puts name, Puts (lit ''\<newline>'')] (st'\<lparr>dev := d\<rparr>)"
  have add: "cmd_useradd io args st = Ok (0, ?st1)"
    using assms(3-6) s by (simp add: cmd_useradd_def st'_def u_def k_def Let_def)
  have tab: "user_table ?st1 = (user_table st)[k := u]" "user_count ?st1 = k + 1" by (simp_all add: st'_def)
  have "\<exists>i. find_user name (?st1\<lparr>user_table := (user_table ?st1)[k := (user_table ?st1 ! k)\<lparr>ue_password_hash := h\<rparr>]\<rparr>) = Some i" for h
  proof -
    have "user_is name (((user_table st)[k := u])[k := (((user_table st)[k := u]) ! k)\<lparr>ue_password_hash := h\<rparr>] ! k)"
      using k wf_users(1) [OF assms(1)] c n by (simp add: user_is_def u_def str_cmp_eq_iff)
    then have "find_index (user_is name) (k + 1) ((user_table st)[k := u, k := (((user_table st)[k := u]) ! k)\<lparr>ue_password_hash := h\<rparr>]) \<noteq> None"
      unfolding find_index_None by auto
    then show ?thesis using tab by (auto simp: find_user_def)
  qed
  then have "\<exists>st2. cmd_login args (?st1\<lparr>user_table := (user_table ?st1)[k := (user_table ?st1 ! k)\<lparr>ue_password_hash := h\<rparr>]\<rparr>) = Ok (0, st2) \<and>
      cstr (current_user st2) = name" for h
    using login_known [OF assms(3,4) n] by blast
  with add tab show ?thesis unfolding k_def by blast
qed

theorem useradd_then_login_witness:
  "\<exists>st1. cmd_useradd ref_io (lit ''ANN'') (initial_state blank_drive) = Ok (0, st1) \<and>
    (\<exists>st2. cmd_login (lit ''ANN'') (st1\<lparr>user_table := (user_table st1)[0 :=
       (user_table st1 ! 0)\<lparr>ue_password_hash := hash_bytes 7\<rparr>]\<rparr>) = Ok (0, st2) \<and>
       cstr (current_user st2) = lit ''ANN'')"
proof -
  have t: "get_token (lit ''ANN'') 32 = (lit ''ANN'', [])" by code_simp
  have s: "find_user (lit ''ANN'') (initial_state blank_drive) = None" "user_count (initial_state blank_drive) = 0"
    by (simp_all add: find_user_def initial_state_def)
  have a: "0 \<notin> set (lit ''ANN'')" "lit ''ANN'' \<noteq> []" by (simp_all add: lit_def)
  show ?thesis
    using useradd_then_login [OF initial_wf a(1) t a(2) s(1), of ref_io] s by (auto simp: FS_MAX_USERS_def)
qed

end
