(* ===== verification/Cmd_Python.thy ===== *)
theory Cmd_Python
  imports Cmd_System
begin

text \<open>
  The interpreter of the PYTHON command (\<^verbatim>\<open>cmd_python\<close> in \<^verbatim>\<open>src/src/commands.c\<close>): the line
  reader, one line's execution and the prompt loop.  The two variable arrays with their counter
  are one association list in the order of the indices; the loop ends with \<^verbatim>\<open>exit()\<close> or
  \<^verbatim>\<open>quit()\<close>, and every prompt consumes a key, which is the termination argument.
\<close>

type_synonym py_vars = "(u8 list \<times> u32) list"

section \<open>The line reader\<close>

fun py_read_line :: "u16 list \<Rightarrow> u8 list \<Rightarrow> console_event list \<Rightarrow>
  (u8 list \<times> u16 list \<times> console_event list) outcome" where
  "py_read_line [] line evs = (if length line < 255 then Waiting else Ok (line, [], evs))"
| "py_read_line (k # ks) line evs =
     (if length line < 255
      then (let key = ucast (k AND 0xFF)
            in if key = 13 \<or> key = 10 then Ok (line, ks, evs @ [Putc 10])
               else if key = 27 then Ok ([], ks, evs @ [Puts (lit ''\<newline>KeyboardInterrupt\<newline>'')])
               else if key = 8 \<and> line \<noteq> [] then py_read_line ks (butlast line) (evs @ [Putc 8, Putc 32, Putc 8])
               else if key \<ge> 32 \<and> key \<le> 126 then py_read_line ks (line @ [key]) (evs @ [Putc key])
               else py_read_line ks line evs)
      else Ok (line, k # ks, evs))"

section \<open>One line\<close>

definition py_lookup :: "py_vars \<Rightarrow> u8 list \<Rightarrow> u32 option" where
  "py_lookup vars name = map_option snd (find (\<lambda>(n, v). str_cmp n name = 0) vars)"

definition py_number :: "u32 \<Rightarrow> console_event list" where
  "py_number v = [Puts (int_to_str v), Puts (lit ''\<newline>'')]"

definition py_print :: "u8 list \<Rightarrow> py_vars \<Rightarrow> console_event list" where
  "py_print arg vars =
     (if arg = [] then [Puts (lit ''\<newline>'')]
      else if hd arg = 34 \<or> hd arg = 39
      then map Putc (takeWhile (\<lambda>c. c \<noteq> hd arg) (tl arg)) @ [Putc 10]
      else (let expr = take 63 arg
            in case py_lookup vars expr of
                 Some v \<Rightarrow> py_number v
               | None \<Rightarrow> py_number (str_to_int expr)))"

definition py_store :: "py_vars \<Rightarrow> u8 list \<Rightarrow> u32 \<Rightarrow> py_vars" where
  "py_store vars name v =
     (case find_index (\<lambda>(n, _). str_cmp n name = 0) (length vars) vars of
        Some i \<Rightarrow> vars[i := (name, v)]
      | None \<Rightarrow> if length vars < 16 then vars @ [(name, v)] else vars)"

definition py_help :: "console_event list" where
  "py_help =
     [Puts (lit ''RO-DOS Python Micro Edition\<newline>''), Puts (lit ''Commands:\<newline>''),
      Puts (lit ''  print('' @ [34] @ lit ''text'' @ [34] @ lit '') or print(expr) - Display output\<newline>''),
      Puts (lit ''  input('' @ [34] @ lit ''prompt'' @ [34] @ lit '')             - Get user input\<newline>''),
      Puts (lit ''  x = value                    - Assign variable\<newline>''),
      Puts (lit ''  Math: + - * / % ( )          - Arithmetic\<newline>''),
      Puts (lit ''  exit() or quit()             - Exit interpreter\<newline>'')]"

text \<open>Whether the interpreter stops, its variables and its output.\<close>

definition py_exec :: "u8 list \<Rightarrow> py_vars \<Rightarrow> bool \<times> py_vars \<times> console_event list" where
  "py_exec line vars =
     (let p = skip_spaces line;
          pre = takeWhile (\<lambda>c. c \<noteq> 61) p; eq = dropWhile (\<lambda>c. c \<noteq> 61) p
      in if str_cmp p (lit ''exit()'') = 0 \<or> str_cmp p (lit ''quit()'') = 0
         then (True, vars, [Puts (lit ''Goodbye!\<newline>'')])
         else if str_cmp p (lit ''help()'') = 0 then (False, vars, py_help)
         else if take 6 p = lit ''print('' then (False, vars, py_print (takeWhile (\<lambda>c. c \<noteq> 41) (drop 6 p)) vars)
         else if eq \<noteq> [] \<and> take 1 (tl eq) \<noteq> [61]
         then (False, py_store vars (take 31 (filter (\<lambda>c. \<not> is_blank c) pre))
                 (str_to_int (skip_spaces (tl eq))), [])
         else if p \<noteq> [] \<and> sint (hd p) \<ge> 48 \<and> sint (hd p) \<le> 57
         then (False, vars, py_number (str_to_int p))
         else case py_lookup vars p of
             Some v \<Rightarrow> (False, vars, py_number v)
           | None \<Rightarrow> (False, vars,
               if p \<noteq> [] then [SetAttr 0x0C, Puts (lit ''NameError: name '' @ [39]), Puts p,
                 Puts ([39] @ lit '' is not defined\<newline>''), SetAttr 0x07]
               else []))"

section \<open>The prompt loop\<close>

lemma py_read_line_keys:
  "py_read_line ks line evs = Ok (l, ks', e) \<Longrightarrow>
   length ks' \<le> length ks \<and> (length line < 255 \<longrightarrow> length ks' < length ks)"
proof (induction ks line evs rule: py_read_line.induct)
  case (2 k ks line evs)
  then show ?case by (auto simp: Let_def split: if_splits)
qed (auto split: if_splits)

function py_loop :: "py_vars \<Rightarrow> 'd cmd_state \<Rightarrow> (int \<times> 'd cmd_state) outcome" where
  "py_loop vars st =
     (case py_read_line (keys st) [] [] of
        Waiting \<Rightarrow> Waiting
      | Fault \<Rightarrow> Fault
      | Ok (line, ks, evs) \<Rightarrow>
          let st1 = emit (Puts (lit ''>>> '') # evs) (st\<lparr>keys := ks\<rparr>)
          in if line = [] then py_loop vars st1
             else (case py_exec line vars of (stop, vars1, out) \<Rightarrow>
               if stop then Ok (0, emit out st1) else py_loop vars1 (emit out st1)))"
  by pat_completeness auto
termination
  by (relation "measure (\<lambda>(vars, st). length (keys st))") (auto dest!: py_read_line_keys)

declare py_loop.simps [simp del]

definition cmd_python :: "u8 list \<Rightarrow> 'd cmd_state \<Rightarrow> (int \<times> 'd cmd_state) outcome" where
  "cmd_python args st =
     py_loop [] (emit [SetAttr 0x0E, Puts (lit ''RO-DOS Python 0.1 (Micro Edition)\<newline>''),
       Puts (lit ''A minimal Python-like interpreter for RO-DOS.\<newline>''), SetAttr 0x07,
       Puts (lit ''Type '' @ [39] @ lit ''exit()'' @ [39] @ lit '' or '' @ [39] @ lit ''quit()'' @ [39] @ lit '' to exit.\<newline>''),
       Puts (lit ''Supported: print(), input(), basic math (+,-,*,/,%), variables\<newline>\<newline>'')] st)"

section \<open>Variables\<close>

definition py_names_ok :: "py_vars \<Rightarrow> bool" where
  "py_names_ok vars \<longleftrightarrow> length vars \<le> 16 \<and> (\<forall>(n, v) \<in> set vars. 0 \<notin> set n \<and> length n \<le> 31)"

lemma py_lookup_map_of:
  "py_names_ok vars \<Longrightarrow> 0 \<notin> set name \<Longrightarrow> py_lookup vars name = map_of vars name"
proof (induction vars)
  case (Cons x xs)
  then show ?case by (cases x) (auto simp: py_lookup_def py_names_ok_def str_cmp_eq_iff)
qed (simp add: py_lookup_def)

lemma map_of_update:
  assumes "i < length vars" and "fst (vars ! i) = name" and "\<forall>j < i. fst (vars ! j) \<noteq> name"
  shows "map_of (vars[i := (name, v)]) = (map_of vars)(name \<mapsto> v)"
  using assms
proof (induction vars arbitrary: i)
  case (Cons x xs)
  show ?case
  proof (cases i)
    case 0
    with Cons.prems show ?thesis by (cases x) (auto simp: fun_eq_iff)
  next
    case (Suc k)
    have "fst x \<noteq> name" using Cons.prems(3) Suc by auto
    moreover have "map_of (xs[k := (name, v)]) = (map_of xs)(name \<mapsto> v)"
      using Cons.prems Suc by (intro Cons.IH) auto
    ultimately show ?thesis using Suc by (cases x) (auto simp: fun_upd_twist)
  qed
qed simp

lemma py_store_spec:
  assumes "py_names_ok vars" and "0 \<notin> set name" and "length name \<le> 31"
  shows "py_names_ok (py_store vars name v)"
    and "name \<in> fst ` set vars \<or> length vars < 16 \<Longrightarrow> map_of (py_store vars name v) = (map_of vars)(name \<mapsto> v)"
    and "name \<notin> fst ` set vars \<Longrightarrow> 16 \<le> length vars \<Longrightarrow> py_store vars name v = vars"
proof -
  have n: "str_cmp (fst (vars ! i)) name = 0 \<longleftrightarrow> fst (vars ! i) = name" if "i < length vars" for i
    using assms(1,2) nth_mem [OF that] by (auto simp: py_names_ok_def str_cmp_eq_iff case_prod_beta)
  have names: "\<forall>x \<in> set vars. 0 \<notin> set (fst x) \<and> length (fst x) \<le> 31" "length vars \<le> 16"
    using assms(1) by (auto simp: py_names_ok_def)
  show "py_names_ok (py_store vars name v)"
  proof (cases "find_index (\<lambda>(n, _). str_cmp n name = 0) (length vars) vars")
    case None
    then show ?thesis using names assms(2,3) by (auto simp: py_store_def py_names_ok_def)
  next
    case (Some i)
    have "\<forall>x \<in> set (vars[i := (name, v)]). 0 \<notin> set (fst x) \<and> length (fst x) \<le> 31"
      using names assms(2,3) by (intro ball_update) simp_all
    then show ?thesis using Some names by (auto simp: py_store_def py_names_ok_def)
  qed
  have none: "find_index (\<lambda>(n, _). str_cmp n name = 0) (length vars) vars = None \<longleftrightarrow> name \<notin> fst ` set vars"
  proof -
    have "find_index (\<lambda>(n, _). str_cmp n name = 0) (length vars) vars = None \<longleftrightarrow>
        (\<forall>j < length vars. fst (vars ! j) \<noteq> name)"
      using n by (simp add: find_index_None case_prod_beta)
    also have "\<dots> \<longleftrightarrow> name \<notin> set (map fst vars)" by (simp only: in_set_conv_nth length_map) auto
    finally show ?thesis by simp
  qed
  show "map_of (py_store vars name v) = (map_of vars)(name \<mapsto> v)"
    if c: "name \<in> fst ` set vars \<or> length vars < 16"
  proof (cases "find_index (\<lambda>(n, _). str_cmp n name = 0) (length vars) vars")
    case None
    then have m: "map_of vars name = None" "length vars < 16" using none c by (auto simp: map_of_eq_None_iff)
    have "map_of (vars @ [(name, v)]) = (map_of vars)(name \<mapsto> v)"
      by (rule ext) (use m(1) in \<open>auto simp: map_add_def split: option.split\<close>)
    with None m(2) show ?thesis by (simp add: py_store_def)
  next
    case (Some i)
    from find_index_Some [OF this] n have "i < length vars" "fst (vars ! i) = name" "\<forall>j < i. fst (vars ! j) \<noteq> name"
      by (auto simp: case_prod_beta)
    with Some show ?thesis by (simp add: py_store_def map_of_update)
  qed
  show "py_store vars name v = vars" if "name \<notin> fst ` set vars" "16 \<le> length vars"
    using that none by (simp add: py_store_def)
qed

lemma safe_py_loop: "cmd_wf st \<Longrightarrow> safe_result (py_loop vars st)"
proof (induction vars st rule: py_loop.induct)
  case (1 vars st)
  have nf: "py_read_line ks line evs \<noteq> Fault" for ks line evs
    by (induction ks line evs rule: py_read_line.induct) (simp_all add: Let_def)
  show ?case
  proof (cases "py_read_line (keys st) [] []")
    case (Ok x)
    obtain line ks evs where x: "x = (line, ks, evs)" by (cases x) auto
    obtain stop vars1 out where e: "py_exec line vars = (stop, vars1, out)" by (cases "py_exec line vars") auto
    show ?thesis
      using 1(1) [OF Ok x [symmetric] refl refl] 1(2) [OF Ok x [symmetric] refl refl _ e [symmetric] refl]
        1(3) Ok x e
      by (simp add: py_loop.simps [of vars st] Let_def)
  qed (use nf in \<open>auto simp: py_loop.simps [of vars st]\<close>)
qed

interpretation python: safe_command cmd_python
  by unfold_locales (simp add: cmd_python_def safe_py_loop)

section \<open>Properties\<close>

definition letter :: "u8 \<Rightarrow> bool" where
  "letter c \<longleftrightarrow> 65 \<le> c \<and> c \<le> 90 \<or> 97 \<le> c \<and> c \<le> 122"

lemma upto_byte:
  "b \<notin> set xs \<Longrightarrow> takeWhile (\<lambda>c. c \<noteq> b) (xs @ r) = xs @ takeWhile (\<lambda>c. c \<noteq> b) r"
  "b \<notin> set xs \<Longrightarrow> dropWhile (\<lambda>c. c \<noteq> b) (xs @ r) = dropWhile (\<lambda>c. c \<noteq> b) r"
  by (induction xs) auto

lemma letter_facts:
  assumes "letter c"
  shows "c \<noteq> 0" "c \<noteq> 9" "c \<noteq> 32" "c \<noteq> 34" "c \<noteq> 39" "c \<noteq> 40" "c \<noteq> 41" "c \<noteq> 61" "\<not> is_blank c"
    "\<not> (sint c \<ge> 48 \<and> sint c \<le> 57)"
proof -
  have "list_all (\<lambda>n. let c = of_nat n in letter c \<longrightarrow> \<not> (sint c \<ge> 48 \<and> sint c \<le> 57)) [0..<256]"
    by code_simp
  then have "letter (of_nat (unat c)) \<longrightarrow> \<not> (sint (of_nat (unat c) :: u8) \<ge> 48 \<and> sint (of_nat (unat c) :: u8) \<le> 57)"
    unfolding list_all_iff Let_def by (rule bspec) (simp add: u8_bound)
  with assms show "\<not> (sint c \<ge> 48 \<and> sint c \<le> 57)" by simp
qed (use assms in \<open>auto simp: letter_def is_blank_def\<close>)

lemma digits_plain: "c \<in> set (int_to_str v) \<Longrightarrow> c \<noteq> 0 \<and> c \<noteq> 40 \<and> c \<noteq> 61 \<and> \<not> is_blank c"
proof -
  assume c: "c \<in> set (int_to_str v)"
  obtain ds where ds: "show_nat 10 (unat v) = map digit_byte ds" "\<forall>d \<in> set ds. d < 10"
    by (rule show_nat_digits [of 10 "unat v"]) auto
  have "list_all (\<lambda>d. digit_byte d \<noteq> 0 \<and> digit_byte d \<noteq> 40 \<and> digit_byte d \<noteq> 61 \<and> \<not> is_blank (digit_byte d)) [0..<10]"
    by code_simp
  with c ds show ?thesis by (auto simp: int_to_str_show list_all_iff)
qed

text \<open>
  Variables of the interpreter.  The line \<open>name = v\<close>, with a name of at most 31 letters and
  a number in decimal, makes the table of at most 16 variables map the name to the number and
  every other name to what it was, if the name is known or there is room; the lines \<open>name\<close> and
  \<open>print(name)\<close> then print the number.
\<close>
theorem python_assign_then_read:
  assumes "py_names_ok vars" and "\<forall>c \<in> set name. letter c" and "name \<noteq> []" and "length name \<le> 31"
    and "name \<in> fst ` set vars \<or> length vars < 16"
  shows "\<exists>vars'. py_exec (name @ [32, 61, 32] @ int_to_str v) vars = (False, vars', []) \<and>
    py_names_ok vars' \<and> map_of vars' = (map_of vars)(name \<mapsto> v) \<and>
    py_exec name vars' = (False, vars', py_number v) \<and>
    py_exec (lit ''print('' @ name @ [41]) vars' = (False, vars', py_number v)"
proof -
  note l = letter_facts [OF bspec [OF assms(2)]]
  have h: "letter (hd name)" "skip_spaces (name @ r) = name @ r" for r
    using assms(2,3) l(9) by (cases name; simp add: skip_spaces_def)+
  have z: "0 \<notin> set name" "40 \<notin> set name" "61 \<notin> set name" "41 \<notin> set name" using l by blast+
  define vars' where "vars' = py_store vars name v"
  have ok: "py_names_ok vars'" "map_of vars' = (map_of vars)(name \<mapsto> v)"
    unfolding vars'_def using py_store_spec [OF assms(1) z(1) assms(4)] assms(5) by auto
  have look: "py_lookup vars' name = Some v" using py_lookup_map_of [OF ok(1) z(1)] ok(2) by simp
  have word: "str_cmp p (lit ''exit()'') \<noteq> 0 \<and> str_cmp p (lit ''quit()'') \<noteq> 0 \<and> str_cmp p (lit ''help()'') \<noteq> 0 \<and>
      take 6 p \<noteq> lit ''print(''" if "40 \<notin> set p" "0 \<notin> set p" for p :: "u8 list"
  proof -
    have k: "40 \<in> set (lit ''exit()'')" "40 \<in> set (lit ''quit()'')" "40 \<in> set (lit ''help()'')"
      "40 \<in> set (lit ''print('')" "0 \<notin> set (lit ''exit()'')" "0 \<notin> set (lit ''quit()'')" "0 \<notin> set (lit ''help()'')"
      by (simp_all add: lit_def)
    have "40 \<notin> set (take 6 p)" using that by (auto dest: in_set_takeD)
    with k that show ?thesis by (metis str_cmp_eq_iff)
  qed
  let ?p = "name @ [32, 61, 32] @ int_to_str v"
  have "40 \<notin> set ?p" "0 \<notin> set ?p" using z digits_plain [of _ v] by auto
  note w = word [OF this]
  have tw: "takeWhile (\<lambda>c. c \<noteq> 61) ?p = name @ [32]" "dropWhile (\<lambda>c. c \<noteq> 61) ?p = [61, 32] @ int_to_str v"
    using z(3) by (simp_all add: upto_byte)
  have fl: "filter (\<lambda>c. \<not> is_blank c) (name @ [32]) = name"
    using l(9) by (auto simp: is_blank_def filter_id_conv)
  have sk: "skip_spaces (32 # int_to_str v) = int_to_str v"
    using int_to_str_not_blank [of v] int_to_str_length(1) [of v]
    by (cases "int_to_str v") (simp_all add: skip_spaces_def is_blank_def)
  have n: "str_to_int (int_to_str v) = v" using str_to_int_show by (simp add: int_to_str_show)
  have 1: "py_exec ?p vars = (False, vars', [])"
    unfolding py_exec_def Let_def h(2) tw fl using w sk n assms(4) by (simp add: vars'_def)
  have eq: "dropWhile (\<lambda>c. c \<noteq> 61) name = []" using z(3) by auto
  have 2: "py_exec name vars' = (False, vars', py_number v)"
    using word [OF z(2,1)] h(1) h(2) [of "[]"] letter_facts(10) [OF h(1)] eq look by (auto simp: py_exec_def)
  have pr: "py_print name vars' = py_number v"
    using assms(3,4) letter_facts(4,5) [OF h(1)] look by (simp add: py_print_def)
  have "takeWhile (\<lambda>c. c \<noteq> 41) (name @ [41]) = name" using z(4) by (simp add: upto_byte)
  then have 3: "py_exec (lit ''print('' @ name @ [41]) vars' = (False, vars', py_number v)"
    using pr by (simp add: py_exec_def lit_def skip_spaces_def is_blank_def)
  from 1 ok 2 3 show ?thesis by blast
qed

theorem python_assign_then_read_witness:
  "\<exists>vars'. py_exec (lit ''x'' @ [32, 61, 32] @ int_to_str 42) [] = (False, vars', []) \<and>
    py_names_ok vars' \<and> map_of vars' = (map_of [])(lit ''x'' \<mapsto> 42) \<and>
    py_exec (lit ''x'') vars' = (False, vars', py_number 42) \<and>
    py_exec (lit ''print('' @ lit ''x'' @ [41]) vars' = (False, vars', py_number 42)"
  by (rule python_assign_then_read) (simp_all add: py_names_ok_def letter_def lit_def)

end
