(* ===== verification/Cmd_Dispatch.thy ===== *)
theory Cmd_Dispatch
  imports Cmd_Python
begin

text \<open>
  The dispatcher of \<^verbatim>\<open>src/src/commands.c\<close>: the command table, SUDO, which calls the dispatcher
  again, \<^verbatim>\<open>cmd_dispatch\<close> and the entry points \<^verbatim>\<open>cmd_init\<close> and \<^verbatim>\<open>cmd_init_silent\<close>.  The handlers
  that draw windows or drive the network are the field \<open>m_ext\<close> of the machine, by the name of
  the C function.  Nothing is assumed of them: the theorems about sessions are about the lines
  whose command, behind any SUDO, is not one of \<open>outside_names\<close>.
\<close>

record 'd machine =
  m_io :: "'d port_io"
  m_env :: sys_env
  m_pci :: "u8 \<Rightarrow> u8 \<Rightarrow> u32"
  m_ext :: "string \<Rightarrow> u8 list \<Rightarrow> 'd cmd_state \<Rightarrow> (int \<times> 'd cmd_state) outcome"

datatype 'd handler =
    Plain "u8 list \<Rightarrow> 'd cmd_state \<Rightarrow> (int \<times> 'd cmd_state) outcome"
  | Sudo

definition commands :: "'d machine \<Rightarrow> (u8 list \<times> 'd handler) list" where
  "commands m =
     [(lit ''GUITEST'', Plain (m_ext m ''cmd_guitest'')),
      (lit ''CALC-GUI'', Plain (m_ext m ''cmd_calc_gui'')),
      (lit ''WIFITEST'', Plain (m_ext m ''cmd_wifitest'')),
      (lit ''NETSTART'', Plain (m_ext m ''cmd_netstart'')),
      (lit ''HELP'', Plain cmd_help),
      (lit ''?'', Plain cmd_help),
      (lit ''CLS'', Plain cmd_cls),
      (lit ''CLEAR'', Plain cmd_cls),
      (lit ''VER'', Plain cmd_ver),
      (lit ''VERSION'', Plain cmd_ver),
      (lit ''TIME'', Plain (cmd_time (m_env m))),
      (lit ''DATE'', Plain (cmd_date (m_env m))),
      (lit ''REBOOT'', Plain cmd_reboot),
      (lit ''SHUTDOWN'', Plain cmd_shutdown),
      (lit ''HALT'', Plain cmd_halt),
      (lit ''EXIT'', Plain cmd_exit),
      (lit ''MKDIR'', Plain (cmd_mkdir (m_io m))),
      (lit ''RMDIR'', Plain (cmd_rmdir (m_io m))),
      (lit ''TOUCH'', Plain (cmd_touch (m_io m))),
      (lit ''DEL'', Plain (cmd_del (m_io m))),
      (lit ''RM'', Plain (cmd_del (m_io m))),
      (lit ''DIR'', Plain cmd_dir),
      (lit ''LS'', Plain cmd_dir),
      (lit ''CD'', Plain (cmd_cd (m_io m))),
      (lit ''PWD'', Plain cmd_pwd),
      (lit ''CAT'', Plain cmd_cat),
      (lit ''TYPE'', Plain cmd_cat),
      (lit ''NANO'', Plain (cmd_nano (se_heap_ok (m_env m)) (m_io m))),
      (lit ''COPY'', Plain (cmd_copy (m_io m))),
      (lit ''CP'', Plain (cmd_copy (m_io m))),
      (lit ''MOVE'', Plain (cmd_move (m_io m))),
      (lit ''MV'', Plain (cmd_move (m_io m))),
      (lit ''REN'', Plain (cmd_move (m_io m))),
      (lit ''RENAME'', Plain (cmd_move (m_io m))),
      (lit ''FIND'', Plain cmd_find),
      (lit ''TREE'', Plain cmd_tree),
      (lit ''ATTRIB'', Plain cmd_attrib),
      (lit ''CHMOD'', Plain (cmd_chmod (m_io m))),
      (lit ''VOL'', Plain cmd_vol),
      (lit ''LABEL'', Plain cmd_label),
      (lit ''CHKDSK'', Plain cmd_chkdsk),
      (lit ''FORMAT'', Plain (cmd_format (m_io m))),
      (lit ''DISKPART'', Plain cmd_diskpart),
      (lit ''FSCK'', Plain cmd_chkdsk),
      (lit ''MOUNT'', Plain (cmd_fixed ''cmd_mount'')),
      (lit ''UMOUNT'', Plain (cmd_fixed ''cmd_umount'')),
      (lit ''SYNC'', Plain (cmd_fixed ''cmd_sync'')),
      (lit ''FREE'', Plain (cmd_fixed ''cmd_free'')),
      (lit ''DF'', Plain (cmd_fixed ''cmd_df'')),
      (lit ''DU'', Plain (cmd_fixed ''cmd_du'')),
      (lit ''LSBLK'', Plain (cmd_fixed ''cmd_lsblk'')),
      (lit ''FDISK'', Plain (cmd_fixed ''cmd_fdisk'')),
      (lit ''BLKID'', Plain (cmd_fixed ''cmd_blkid'')),
      (lit ''READSECTOR'', Plain (cmd_fixed ''cmd_readsector'')),
      (lit ''USERADD'', Plain (cmd_useradd (m_io m))),
      (lit ''USERDEL'', Plain (cmd_userdel (m_io m))),
      (lit ''PASSWD'', Plain (cmd_passwd (m_io m))),
      (lit ''USERS'', Plain cmd_users),
      (lit ''LOGIN'', Plain cmd_login),
      (lit ''LOGOUT'', Plain cmd_logout),
      (lit ''WHOAMI'', Plain cmd_whoami),
      (lit ''SU'', Plain cmd_login),
      (lit ''PS'', Plain cmd_ps),
      (lit ''KILL'', Plain cmd_kill),
      (lit ''TOP'', Plain cmd_top),
      (lit ''TASKLIST'', Plain cmd_ps),
      (lit ''TASKKILL'', Plain cmd_kill),
      (lit ''MEM'', Plain (cmd_mem (m_env m))),
      (lit ''UPTIME'', Plain (cmd_uptime (m_env m))),
      (lit ''SYSINFO'', Plain (cmd_fixed ''cmd_sysinfo'')),
      (lit ''UNAME'', Plain (cmd_fixed ''cmd_uname'')),
      (lit ''HOSTNAME'', Plain (cmd_fixed ''cmd_hostname'')),
      (lit ''LSCPU'', Plain (cmd_fixed ''cmd_lscpu'')),
      (lit ''LSPCI'', Plain (cmd_lspci (m_pci m))),
      (lit ''DMESG'', Plain (cmd_fixed ''cmd_dmesg'')),
      (lit ''COLOR'', Plain cmd_color),
      (lit ''ECHO'', Plain cmd_echo),
      (lit ''MODE'', Plain (cmd_fixed ''cmd_mode'')),
      (lit ''BEEP'', Plain cmd_beep),
      (lit ''CALC'', Plain cmd_calc),
      (lit ''HEXDUMP'', Plain (cmd_hexdump (m_env m))),
      (lit ''ASCII'', Plain cmd_ascii),
      (lit ''HASH'', Plain cmd_hash),
      (lit ''PAUSE'', Plain cmd_pause),
      (lit ''SLEEP'', Plain cmd_sleep),
      (lit ''WIFILOGIN'', Plain (cmd_fixed ''cmd_wifilogin'')),
      (lit ''WIFISTAT'', Plain (cmd_fixed ''cmd_wifistat'')),
      (lit ''WIFIDISCONNECT'', Plain (cmd_fixed ''cmd_wifidisconnect'')),
      (lit ''WIFIRESCAN'', Plain (cmd_fixed ''cmd_wifirescan'')),
      (lit ''WIFISIGNAL'', Plain (cmd_fixed ''cmd_wifisignal'')),
      (lit ''WIFIAP'', Plain (cmd_fixed ''cmd_wifiap'')),
      (lit ''IPCONFIG'', Plain (cmd_fixed ''cmd_ipconfig'')),
      (lit ''PING'', Plain (cmd_fixed ''cmd_ping'')),
      (lit ''WIFITEST'', Plain (m_ext m ''cmd_wifitest'')),
      (lit ''NETMODE'', Plain cmd_netmode),
      (lit ''WGET'', Plain (m_ext m ''cmd_wget'')),
      (lit ''NOTEPAD'', Plain (m_ext m ''gui_notepad'')),
      (lit ''PAINT'', Plain (m_ext m ''gui_paint'')),
      (lit ''FILEBROWSER'', Plain (m_ext m ''gui_filebrowser'')),
      (lit ''BROWSER'', Plain (m_ext m ''gui_filebrowser'')),
      (lit ''CLOCK'', Plain (m_ext m ''gui_clock'')),
      (lit ''SYSINFOGUI'', Plain (m_ext m ''gui_sysinfo'')),
      (lit ''SUDO'', Sudo),
      (lit ''PYTHON'', Plain cmd_python),
      (lit ''WC'', Plain (cmd_fixed ''cmd_wc'')),
      (lit ''HEAD'', Plain (cmd_fixed ''cmd_head'')),
      (lit ''TAIL'', Plain (cmd_fixed ''cmd_tail'')),
      (lit ''GREP'', Plain (cmd_fixed ''cmd_grep'')),
      (lit ''SORT'', Plain (cmd_fixed ''cmd_sort'')),
      (lit ''UNIQ'', Plain (cmd_fixed ''cmd_uniq'')),
      (lit ''CUT'', Plain (cmd_fixed ''cmd_cut'')),
      (lit ''DIFF'', Plain (cmd_fixed ''cmd_diff'')),
      (lit ''MORE'', Plain (cmd_fixed ''cmd_more'')),
      (lit ''LESS'', Plain (cmd_fixed ''cmd_less'')),
      (lit ''FILE'', Plain (cmd_fixed ''cmd_file'')),
      (lit ''STAT'', Plain (cmd_fixed ''cmd_stat'')),
      (lit ''PATH'', Plain (cmd_fixed ''cmd_path'')),
      (lit ''SET'', Plain (cmd_fixed ''cmd_env'')),
      (lit ''ALIAS'', Plain (cmd_fixed ''cmd_alias'')),
      (lit ''HISTORY'', Plain (cmd_fixed ''cmd_history'')),
      (lit ''PROMPT'', Plain (cmd_fixed ''cmd_prompt'')),
      (lit ''PRINTENV'', Plain (cmd_fixed ''cmd_env'')),
      (lit ''EXPORT'', Plain (cmd_fixed ''cmd_export'')),
      (lit ''SOURCE'', Plain (cmd_fixed ''cmd_source'')),
      (lit ''WHICH'', Plain (cmd_fixed ''cmd_which'')),
      (lit ''WHEREIS'', Plain (cmd_fixed ''cmd_whereis''))]"

section \<open>SUDO\<close>

text \<open>The password loop: \<open>None\<close> when it is cancelled with ESC.\<close>

fun read_sudo :: "u16 list \<Rightarrow> u8 list \<Rightarrow> console_event list \<Rightarrow>
  (u8 list option \<times> u16 list \<times> console_event list) outcome" where
  "read_sudo [] pwd evs = (if length pwd < 31 then Waiting else Ok (Some pwd, [], evs))"
| "read_sudo (k # ks) pwd evs =
     (if length pwd < 31
      then (let key = ucast (k AND 0xFF)
            in if key = 13 \<or> key = 10 then Ok (Some pwd, ks, evs)
               else if key = 27 then Ok (None, ks, evs)
               else if key = 8 \<and> pwd \<noteq> [] then read_sudo ks (butlast pwd) evs
               else if key \<ge> 32 \<and> key \<le> 126 then read_sudo ks (pwd @ [key]) (evs @ [Putc 42])
               else read_sudo ks pwd evs)
      else Ok (Some pwd, k # ks, evs))"

definition cmd_sudo ::
  "(u8 list \<Rightarrow> 'd cmd_state \<Rightarrow> (int \<times> 'd cmd_state) outcome) \<Rightarrow>
   u8 list \<Rightarrow> 'd cmd_state \<Rightarrow> (int \<times> 'd cmd_state) outcome" where
  "cmd_sudo dispatch args st =
     (let line = skip_spaces args
      in if line = []
         then Ok (- 1, emit [Puts (lit ''Usage: SUDO <command>\<newline>''),
                Puts (lit ''Execute a command with root privileges.\<newline>'')] st)
         else if str_cmp (cstr (current_user st)) (lit ''root'') = 0
         then dispatch line (say ''[sudo] User is already root.\<newline>'' st)
         else bind_outcome (read_sudo (keys st) [] []) (\<lambda>(res, ks, evs).
           let st1 = emit ([Puts (lit ''[sudo] Password for ''), Puts (cstr (current_user st)), Puts (lit '': '')] @ evs)
                       (st\<lparr>keys := ks\<rparr>)
           in case res of
                None \<Rightarrow> Ok (- 1, say ''\<newline>[sudo] Cancelled.\<newline>'' st1)
              | Some pwd \<Rightarrow>
                  if pwd = []
                  then Ok (- 1, emit [Puts (lit ''\<newline>''), SetAttr 0x0C,
                         Puts (lit ''[sudo] Authentication failed.\<newline>''), SetAttr 0x07] st1)
                  else
                    let saved_user = take 31 (cstr (current_user st1));
                        st2 = emit [Puts (lit ''\<newline>''), SetAttr 0x0A, Puts (lit ''[sudo] Running as root...\<newline>''), SetAttr 0x07]
                                (st1\<lparr>current_user := str_copy (current_user st1) (lit ''root'') 32\<rparr>)
                    in bind_outcome (dispatch line st2) (\<lambda>(result, st3).
                         Ok (result, st3\<lparr>current_user := str_copy (current_user st3) saved_user 32\<rparr>))))"

lemma bind_outcome_cong [fundef_cong]:
  "m = m' \<Longrightarrow> (\<And>x. m' = Ok x \<Longrightarrow> f x = g x) \<Longrightarrow> bind_outcome m f = bind_outcome m' g"
  by (cases m') auto

lemma cmd_sudo_cong [fundef_cong]:
  assumes "args = args'" and "st = st'" and "\<And>s. d (skip_spaces args') s = d' (skip_spaces args') s"
  shows "cmd_sudo d args st = cmd_sudo d' args' st'"
  unfolding cmd_sudo_def Let_def assms(1,2,3) by (rule refl)

section \<open>The dispatcher\<close>

lemma commands_nonempty_names: "(n, h) \<in> set (commands m) \<Longrightarrow> n \<noteq> [] \<and> 0 \<notin> set n"
proof -
  have "list_all (\<lambda>(n, h). n \<noteq> [] \<and> 0 \<notin> set n) (commands m)"
    by (simp add: commands_def lit_def)
  then show "(n, h) \<in> set (commands m) \<Longrightarrow> n \<noteq> [] \<and> 0 \<notin> set n" by (auto simp: list_all_iff)
qed

lemma find_Some_mem: "find P xs = Some x \<Longrightarrow> x \<in> set xs \<and> P x"
  by (induction xs) (auto split: if_splits)

lemma skip_spaces_shorter: "length (skip_spaces s) \<le> length s"
  by (simp add: skip_spaces_def length_dropWhile_le)

function cmd_dispatch :: "'d machine \<Rightarrow> u8 list \<Rightarrow> 'd cmd_state \<Rightarrow> (int \<times> 'd cmd_state) outcome" where
  "cmd_dispatch m line st =
     (if line = [] then Ok (0, st)
      else case get_token line 64 of (cmd_name, args) \<Rightarrow>
        (case find (\<lambda>(n, h). str_cmp (str_upper cmd_name) n = 0) (commands m) of
           Some (_, Plain func) \<Rightarrow> func args st
         | Some (_, Sudo) \<Rightarrow> cmd_sudo (cmd_dispatch m) args st
         | None \<Rightarrow> Ok (- 255, st)))"
  by pat_completeness auto
termination
proof (relation "measure (\<lambda>(m, line, st). length line)")
  fix m :: "'d machine" and line :: "u8 list" and st s :: "'d cmd_state" and cmd_name args x2 a b
  assume *: "line \<noteq> []" "(cmd_name, args) = get_token line 64"
    "find (\<lambda>(n, h). str_cmp (str_upper cmd_name) n = 0) (commands m) = Some x2" "(a, b) = x2" "b = Sudo"
  have "cmd_name \<noteq> []"
  proof
    assume e: "cmd_name = []"
    obtain n h where n: "x2 = (n, h)" "(n, h) \<in> set (commands m)" "str_cmp [] n = 0"
      using find_Some_mem [OF *(3)] e by (cases x2) (auto simp: str_upper_def)
    from commands_nonempty_names [OF n(2)] n(3) show False using str_cmp_eq_iff [of "[]" n] by auto
  qed
  with * have "length args < length line" by (metis get_token_shorter)
  then show "((m, skip_spaces args, s), m, line, st) \<in> measure (\<lambda>(m, line, st). length line)"
    using skip_spaces_shorter [of args] by simp
qed simp

declare cmd_dispatch.simps [simp del]

definition cmd_init :: "'d machine \<Rightarrow> 'd cmd_state \<Rightarrow> 'd cmd_state" where
  "cmd_init m st = fs_init_commands (m_io m) False st"

definition cmd_init_silent :: "'d machine \<Rightarrow> 'd cmd_state \<Rightarrow> 'd cmd_state" where
  "cmd_init_silent m st = fs_init_commands (m_io m) True st"

section \<open>Every handler keeps its contract\<close>

text \<open>The names whose handlers are the field \<open>m_ext\<close>.\<close>

definition outside_names :: "u8 list list" where
  "outside_names = map lit [''GUITEST'', ''CALC-GUI'', ''WIFITEST'', ''NETSTART'', ''WGET'', ''NOTEPAD'', ''PAINT'',
     ''FILEBROWSER'', ''BROWSER'', ''CLOCK'', ''SYSINFOGUI'']"

text \<open>The command a line runs: its first token in upper case, or what SUDO is given to run.\<close>

function line_command :: "u8 list \<Rightarrow> u8 list" where
  "line_command line =
     (case get_token line 64 of (tok, args) \<Rightarrow>
        if str_upper tok = lit ''SUDO'' then line_command (skip_spaces args) else str_upper tok)"
  by pat_completeness auto
termination
proof (relation "measure length")
  fix line tok args :: "u8 list"
  assume *: "(tok, args) = get_token line 64" "str_upper tok = lit ''SUDO''"
  then have "tok \<noteq> []" by (auto simp: str_upper_def lit_def)
  with * have "length args < length line" by (metis get_token_shorter)
  then show "(skip_spaces args, line) \<in> measure length" using skip_spaces_shorter [of args] by simp
qed simp

declare line_command.simps [simp del]

fun handler_safe :: "'d handler \<Rightarrow> bool" where
  "handler_safe (Plain f) = (\<forall>args st. cmd_wf st \<longrightarrow> 0 \<notin> set args \<longrightarrow> safe_result (f args st))"
| "handler_safe Sudo = True"

lemmas command_safe = mkdir.safe rmdir.safe touch.safe del.safe dir.safe cd.safe cat.safe nano.safe copy.safe
  move.safe find.safe tree.safe attrib.safe chmod.safe vol.safe label.safe chkdsk.safe format.safe
  diskpart.safe useradd.safe userdel.safe passwd.safe login.safe logout.safe ps.safe kill.safe top.safe
  python.safe print_only_safe

lemma lit_inject: "lit a = lit b \<longleftrightarrow> a = b"
proof -
  define unchar :: "u8 \<Rightarrow> char" where
    "unchar w = Char (bit w 0) (bit w 1) (bit w 2) (bit w 3) (bit w 4) (bit w 5) (bit w 6) (bit w 7)" for w
  have "unchar (of_char c) = c" for c
    by (simp only: of_char_def unchar_def bit_horner_sum_bit_iff) simp
  then have "inj (of_char :: char \<Rightarrow> u8)" by (rule inj_on_inverseI)
  then show ?thesis by (simp add: lit_def inj_map_eq_map)
qed

lemma commands_safe: "list_all (\<lambda>(n, h). n \<in> set outside_names \<or> handler_safe h) (commands m)"
  unfolding commands_def outside_names_def by (simp add: command_safe lit_inject)

lemma commands_sudo: "list_all (\<lambda>(n, h). n = lit ''SUDO'' \<longleftrightarrow> h = Sudo) (commands m)"
  unfolding commands_def by (simp add: lit_inject)

lemma skip_spaces_nonzero: "0 \<notin> set s \<Longrightarrow> 0 \<notin> set (skip_spaces s)"
  unfolding skip_spaces_def using set_dropWhileD by fastforce

lemma read_sudo_no_fault: "read_sudo ks pwd evs \<noteq> Fault"
  by (induction ks pwd evs rule: read_sudo.induct) (simp_all add: Let_def)

lemma safe_sudo:
  assumes wf: "cmd_wf st" and "0 \<notin> set args"
    and d: "\<And>s. cmd_wf s \<Longrightarrow> safe_result (dispatch (skip_spaces args) s)"
  shows "safe_result (cmd_sudo dispatch args st)"
proof -
  have w: "cmd_wf (s\<lparr>current_user := str_copy (current_user s) u 32\<rparr>)" if "cmd_wf s" for s :: "'a cmd_state" and u
    using that by (intro wf_set_current_user) (simp_all add: length_str_copy wf_current_user nul_str_copy)
  have run: "safe_result (bind_outcome (dispatch (skip_spaces args) s) (\<lambda>(r, st3).
      Ok (r, st3\<lparr>current_user := str_copy (current_user st3) u 32\<rparr>)))" if "cmd_wf s" for s u
    using d [OF that] w by (cases "dispatch (skip_spaces args) s") auto
  have w1: "cmd_wf (emit es ((emit es' (st\<lparr>keys := ks\<rparr>))\<lparr>current_user := str_copy u (lit ''root'') 32\<rparr>))"
    if "length u = 32" for es es' ks u
    using wf that by (simp, intro wf_set_current_user) (simp_all add: length_str_copy nul_str_copy)
  show ?thesis
  proof (cases "read_sudo (keys st) [] []")
    case (Ok x)
    obtain res ks evs where x: "x = (res, ks, evs)" by (cases x) auto
    show ?thesis
      unfolding cmd_sudo_def Let_def Ok x
      using wf by (auto simp: wf_current_user intro!: d run w1 split: option.split)
  qed (use wf read_sudo_no_fault [of "keys st" "[]" "[]"] in \<open>auto simp: cmd_sudo_def Let_def intro!: d\<close>)
qed

lemma str_upper_nonzero: "0 \<notin> set s \<Longrightarrow> 0 \<notin> set (str_upper s)"
  unfolding str_upper_def by (auto split: if_splits)

lemma safe_dispatch:
  "cmd_wf st \<Longrightarrow> 0 \<notin> set line \<Longrightarrow> line_command line \<notin> set outside_names \<Longrightarrow>
    safe_result (cmd_dispatch m line st)"
proof (induction "length line" arbitrary: line st rule: less_induct)
  case less
  obtain tok args where t: "get_token line 64 = (tok, args)" by (cases "get_token line 64") auto
  note nz = get_token_nonzero [OF t less.prems(2)]
  show ?case
  proof (cases "find (\<lambda>(n, h). str_cmp (str_upper tok) n = 0) (commands m)")
    case None
    then show ?thesis using less.prems t by (simp add: cmd_dispatch.simps [of m line])
  next
    case (Some x)
    obtain n h where x: "x = (n, h)" by (cases x) auto
    from find_Some_mem [OF Some] x have mem: "(n, h) \<in> set (commands m)" and eq: "str_cmp (str_upper tok) n = 0" by auto
    have n: "str_upper tok = n"
      using eq str_cmp_eq_iff str_upper_nonzero [OF nz(1)] commands_nonempty_names [OF mem] by blast
    have sudo: "n = lit ''SUDO'' \<longleftrightarrow> h = Sudo" using commands_sudo mem by (auto simp: list_all_iff)
    have lc: "line_command line = (if h = Sudo then line_command (skip_spaces args) else n)"
      using t n sudo by (simp add: line_command.simps [of line])
    show ?thesis
    proof (cases h)
      case (Plain f)
      then have "n \<notin> set outside_names" using lc less.prems(3) by simp
      then have "handler_safe h" using commands_safe mem by (auto simp: list_all_iff)
      then show ?thesis using Plain less.prems t Some x nz(2) by (simp add: cmd_dispatch.simps [of m line])
    next
      case Sudo
      have "tok \<noteq> []" using eq commands_nonempty_names [OF mem] str_cmp_eq_iff [of "[]" n] by (auto simp: str_upper_def)
      from get_token_shorter [OF t this] have "length (skip_spaces args) < length line"
        using skip_spaces_shorter [of args] by simp
      from less.hyps [OF this _ skip_spaces_nonzero [OF nz(2)]] lc Sudo less.prems(3)
      have "safe_result (cmd_sudo (cmd_dispatch m) args st)"
        by (intro safe_sudo less.prems nz(2)) auto
      then show ?thesis using less.prems t Some x Sudo by (simp add: cmd_dispatch.simps [of m line])
    qed
  qed
qed

section \<open>Sessions\<close>

text \<open>The lines of a session in order, with their return codes.\<close>

fun run_session :: "'d machine \<Rightarrow> u8 list list \<Rightarrow> 'd cmd_state \<Rightarrow> (int list \<times> 'd cmd_state) outcome" where
  "run_session m [] st = Ok ([], st)"
| "run_session m (line # lines) st =
     bind_outcome (cmd_dispatch m line st) (\<lambda>(r, st1).
       bind_outcome (run_session m lines st1) (\<lambda>(rs, st2). Ok (r # rs, st2)))"

lemma session_safe_aux:
  "cmd_wf st \<Longrightarrow> \<forall>l \<in> set lines. 0 \<notin> set l \<and> line_command l \<notin> set outside_names \<Longrightarrow>
    (case run_session m lines st of Ok (rs, st') \<Rightarrow> cmd_wf st' \<and> length rs = length lines | Fault \<Rightarrow> False | Waiting \<Rightarrow> True)"
proof (induction lines arbitrary: st)
  case (Cons line lines)
  have s: "safe_result (cmd_dispatch m line st)" using Cons.prems by (intro safe_dispatch) auto
  show ?case
  proof (cases "cmd_dispatch m line st")
    case (Ok x)
    obtain r st1 where x: "x = (r, st1)" by (cases x) auto
    have "cmd_wf st1" using s Ok x by simp
    from Cons.IH [OF this] Cons.prems Ok x show ?thesis by (cases "run_session m lines st1") auto
  qed (use s in auto)
qed simp

lemma low_byte_of_key: "ucast ((ucast (c :: u8) :: u16) AND 0xFF) = c"
proof -
  have "(0xFF :: u16) = mask 8" by (simp add: mask_eq_exp_minus_1)
  then show ?thesis by (simp add: bit_eq_iff bit_simps) 
qed

lemma read_sudo_typed:
  assumes "\<forall>c \<in> set pwd. 32 \<le> c \<and> c \<le> 126" and "length acc + length pwd < 31"
  shows "\<exists>evs'. read_sudo (map ucast pwd @ 13 # ks) acc evs = Ok (Some (acc @ pwd), ks, evs')"
  using assms
proof (induction pwd arbitrary: acc evs)
  case (Cons c pwd)
  have k: "ucast ((ucast c :: u16) AND 0xFF) = c"
    by (rule low_byte_of_key)
  have n: "c \<noteq> 13" "c \<noteq> 10" "c \<noteq> 27" "c \<noteq> 8" using Cons.prems(1) by auto
  show ?case using Cons.IH [of "acc @ [c]" "evs @ [Putc 42]"] Cons.prems k n by (simp add: Let_def)
qed simp

lemma sudo_user_restored:
  assumes "cmd_wf st" and "cstr (current_user st) \<noteq> lit ''root''" and "cmd_sudo dispatch args st = Ok (r, st')"
  shows "cstr (current_user st') = cstr (current_user st)"
proof -
  have u: "length (cstr (current_user st)) \<le> 31" "0 \<notin> set (cstr (current_user st))"
    using assms(1) cstr_length [of "current_user st"] by (auto simp: cmd_wf_def cstr_nonzero)
  then have c: "cstr (str_copy a (take 31 (cstr (current_user st))) 32) = cstr (current_user st)" for a
    by (simp add: cstr_str_copy)
  have "str_cmp (cstr (current_user st)) (lit ''root'') \<noteq> 0"
    using assms(2) u(2) by (simp add: str_cmp_eq_iff lit_def)
  with assms(3) c show ?thesis
    by (auto simp: cmd_sudo_def Let_def outcome_bind_Ok say_def split: if_splits option.splits prod.splits)
qed

text \<open>A machine with the reference drive, an empty PCI bus and handlers that do nothing.\<close>

definition ref_machine :: "ata_view machine" where
  "ref_machine = \<lparr>m_io = ref_io, m_env = \<lparr>se_time = None, se_date = None, se_stats = (0, 0, 0), se_ticks = 0,
       se_memory = (\<lambda>_. 0), se_heap_ok = True\<rparr>, m_pci = (\<lambda>_ _. 0xFFFFFFFF), m_ext = (\<lambda>_ args st. Ok (0, st))\<rparr>"

text \<open>The same machine when every window and network handler faults.\<close>

definition bare_machine :: "ata_view machine" where
  "bare_machine = ref_machine\<lparr>m_ext := \<lambda>_ _ _. Fault\<rparr>"

section \<open>Properties\<close>



text \<open>
  SUDO.  For a user other than root, every non-empty password of fewer than 31 printable
  characters is accepted: the command line runs with \<open>root\<close> as the current user.  Whatever the
  command does, LOGIN included, the user is the old one again when SUDO returns.
\<close>
theorem sudo_accepts_any_password:
  assumes "cmd_wf st" and "cstr (current_user st) \<noteq> lit ''root''" and "skip_spaces args \<noteq> []"
    and "keys st = map ucast pwd @ 13 # ks" and "pwd \<noteq> []" and "length pwd < 31"
    and "\<forall>c \<in> set pwd. 32 \<le> c \<and> c \<le> (126 :: u8)"
  shows "\<exists>es. cmd_sudo (cmd_dispatch m) args st =
      bind_outcome (cmd_dispatch m (skip_spaces args)
        (emit es (st\<lparr>keys := ks, current_user := str_copy (current_user st) (lit ''root'') 32\<rparr>)))
        (\<lambda>(r, st1). Ok (r, st1\<lparr>current_user := str_copy (current_user st1) (cstr (current_user st)) 32\<rparr>)) \<and>
    (\<forall>r st'. cmd_sudo (cmd_dispatch m) args st = Ok (r, st') \<longrightarrow>
       cstr (current_user st') = cstr (current_user st))"
proof -
  obtain evs where k: "read_sudo (keys st) [] [] = Ok (Some pwd, ks, evs)"
    using read_sudo_typed [of pwd "[]" ks "[]"] assms(4,6,7) by auto
  have u: "length (cstr (current_user st)) \<le> 31"
    using assms(1) cstr_length [of "current_user st"] by (auto simp: cmd_wf_def)
  have "str_cmp (cstr (current_user st)) (lit ''root'') \<noteq> 0"
    using assms(2) cstr_nonzero by (simp add: str_cmp_eq_iff lit_def)
  then have "\<exists>es. cmd_sudo (cmd_dispatch m) args st =
      bind_outcome (cmd_dispatch m (skip_spaces args)
        (emit es (st\<lparr>keys := ks, current_user := str_copy (current_user st) (lit ''root'') 32\<rparr>)))
        (\<lambda>(r, st1). Ok (r, st1\<lparr>current_user := str_copy (current_user st1) (cstr (current_user st)) 32\<rparr>))"
    using assms(3,5) u k by (auto simp: cmd_sudo_def Let_def emit_def)
  with sudo_user_restored [OF assms(1,2)] show ?thesis by blast
qed

theorem sudo_accepts_any_password_witness:
  "\<exists>es. cmd_sudo (cmd_dispatch ref_machine) (lit '' whoami'')
       ((initial_state blank_drive)\<lparr>current_user := lit ''ann'' @ replicate 29 0, keys := [120, 13]\<rparr>) =
      bind_outcome (cmd_dispatch ref_machine (lit ''whoami'')
        (emit es ((initial_state blank_drive)\<lparr>keys := [], current_user := str_copy (lit ''ann'' @ replicate 29 0) (lit ''root'') 32\<rparr>)))
        (\<lambda>(r, st1). Ok (r, st1\<lparr>current_user := str_copy (current_user st1) (lit ''ann'') 32\<rparr>))"
proof -
  let ?st = "(initial_state blank_drive)\<lparr>current_user := lit ''ann'' @ replicate 29 0, keys := [120, 13]\<rparr>"
  have "cmd_wf ((initial_state blank_drive)\<lparr>current_user := lit ''ann'' @ replicate 29 0\<rparr>)"
    by (intro wf_set_current_user initial_wf) (simp_all add: lit_def)
  from this [THEN wf_io(5) [THEN iffD2]] have wf: "cmd_wf ?st" by simp
  have c: "cstr (current_user ?st) = lit ''ann''" using cstr_pad [of "lit ''ann''" 29] by (simp add: lit_def)
  have s: "skip_spaces (lit '' whoami'') = lit ''whoami''" by code_simp
  show ?thesis
    using sudo_accepts_any_password [OF wf, of "lit '' whoami''" "[120]" "[]" ref_machine] c s
    by (auto simp: lit_def)
qed

end
