(* ===== verification/Bounded_Log.thy ===== *)
theory Bounded_Log
  imports Main
begin

text \<open>
  The contract of a log that keeps the last \<open>N\<close> entries, in the order they came: the shell's
  history and the scrollback ring buffer provide it.  \<open>view\<close> is the abstract list, oldest first.
\<close>

definition keep_last :: "nat \<Rightarrow> 'a list \<Rightarrow> 'a list" where
  "keep_last n xs = drop (length xs - n) xs"

lemma keep_last_length [simp]: "length (keep_last n xs) = min n (length xs)"
  by (simp add: keep_last_def)

lemma keep_last_short [simp]: "length xs \<le> n \<Longrightarrow> keep_last n xs = xs"
  by (simp add: keep_last_def)

lemma keep_last_append: "keep_last n (keep_last n xs @ ys) = keep_last n (xs @ ys)"
  by (cases "length xs \<le> n") (simp_all add: keep_last_def drop_append add.commute)

locale bounded_log =
  fixes push :: "'x \<Rightarrow> 's \<Rightarrow> 's"
    and view :: "'s \<Rightarrow> 'a list"
    and entry :: "'x \<Rightarrow> 'a"
    and ok :: "'s \<Rightarrow> bool"
    and valid :: "'x \<Rightarrow> bool"
    and N :: nat
  assumes push_view: "ok s \<Longrightarrow> valid x \<Longrightarrow> view (push x s) = keep_last N (view s @ [entry x])"
    and push_ok: "ok s \<Longrightarrow> valid x \<Longrightarrow> ok (push x s)"
    and view_bound: "ok s \<Longrightarrow> length (view s) \<le> N"
begin

lemma pushes_ok: "ok s \<Longrightarrow> \<forall>x \<in> set xs. valid x \<Longrightarrow> ok (fold push xs s)"
  by (induction xs arbitrary: s) (auto simp: push_ok)

lemma pushes_view:
  "ok s \<Longrightarrow> \<forall>x \<in> set xs. valid x \<Longrightarrow> view (fold push xs s) = keep_last N (view s @ map entry xs)"
proof (induction xs arbitrary: s)
  case Nil
  then show ?case by (simp add: view_bound)
next
  case (Cons x xs)
  then have "view (fold push (x # xs) s) = keep_last N (keep_last N (view s @ [entry x]) @ map entry xs)"
    by (simp add: push_ok push_view)
  then show ?case by (simp add: keep_last_append)
qed

end

end
