(* ===== verification/Shell.thy ===== *)
theory Shell
  imports Cmd_Dispatch Bounded_Log
begin

text \<open>
  The shell \<^verbatim>\<open>src/src/shell.c\<close>: the line editor with its history, and the prompt loop that
  hands lines to the dispatcher.  \<^verbatim>\<open>shell_main\<close> never returns, so one turn of its loop is the
  function \<open>shell_prompt\<close> and the runs are the relation \<open>shell_reaches\<close>.  The input line is the
  array of 256 bytes with its stale bytes, because Ctrl+C leaves them to be read.  The network
  interface table that \<^verbatim>\<open>netif_init\<close> resets is the state of another theory.
\<close>

section \<open>Strings\<close>

definition trim_char :: "u8 \<Rightarrow> bool" where
  "trim_char c = (c = 32 \<or> c = 9 \<or> c = 10 \<or> c = 13)"

fun str_trim_loop :: "u8 list \<Rightarrow> nat \<Rightarrow> u8 list" where
  "str_trim_loop s 0 = s"
| "str_trim_loop s (Suc len) = (if trim_char (s ! len) then str_trim_loop (s[len := 0]) len else s)"

definition str_trim :: "u8 list \<Rightarrow> u8 list" where
  "str_trim s = str_trim_loop s (length (cstr s))"

definition shell_strupr :: "u8 list \<Rightarrow> u8 list" where
  "shell_strupr s = str_upper (cstr s) @ drop (length (cstr s)) s"

section \<open>The line editor\<close>

definition MAX_INPUT :: nat where "MAX_INPUT = 256"
definition HISTORY_SIZE :: nat where "HISTORY_SIZE = 20"

record edit_state =
  ed_line :: "u8 list"
  ed_pos :: nat
  ed_hpos :: nat
  ed_out :: "console_event list"

datatype edit_result = Continue edit_state | Done edit_state | OutOfBounds

text \<open>The arrow keys: the typed text is rubbed out and the history entry copied in its place.\<close>

definition recall :: "u8 list list \<Rightarrow> nat \<Rightarrow> edit_state \<Rightarrow> edit_result" where
  "recall hist hp e =
     (if hp \<ge> length hist then OutOfBounds
      else (let text = take (MAX_INPUT - 1) (cstr (hist ! hp))
            in Continue \<lparr>ed_line = str_copy (ed_line e) text MAX_INPUT, ed_pos = length text, ed_hpos = hp,
                 ed_out = ed_out e @ concat (replicate (ed_pos e) [Putc 8, Putc 32, Putc 8]) @ map Putc text\<rparr>))"

definition edit_key :: "u8 list list \<Rightarrow> nat \<Rightarrow> u16 \<Rightarrow> edit_state \<Rightarrow> edit_result" where
  "edit_key hist history_count k e =
     (let key = (ucast (k AND 0xFF) :: u8); scan = (ucast (drop_bit 8 k AND 0xFF) :: u8); pos = ed_pos e
      in if key = 0 \<and> scan = 0x48
         then (if history_count > 0
               then recall hist (if ed_hpos e > 0 then ed_hpos e - 1 else ed_hpos e) e else Continue e)
         else if key = 0 \<and> scan = 0x50
         then (if history_count > 0 \<and> ed_hpos e < history_count - 1
               then recall hist (ed_hpos e + 1) e else Continue e)
         else if key = 0 \<and> (scan = 0x49 \<or> scan = 0x51) then Continue e
         else if key = 13 \<or> key = 10
         then Done (e\<lparr>ed_line := (ed_line e)[pos := 0], ed_out := ed_out e @ [Putc 10]\<rparr>)
         else if key = 3
         then Done (e\<lparr>ed_pos := 0, ed_out := ed_out e @ [Puts (lit ''^C\<newline>'')]\<rparr>)
         else if key = 8
         then Continue (if pos > 0 then e\<lparr>ed_pos := pos - 1, ed_out := ed_out e @ [Putc 8, Putc 32, Putc 8]\<rparr> else e)
         else if pos < MAX_INPUT - 1 \<and> key \<ge> 32 \<and> key \<le> 126
         then Continue (e\<lparr>ed_line := (ed_line e)[pos := key], ed_pos := pos + 1, ed_out := ed_out e @ [Putc key]\<rparr>)
         else Continue e)"

fun edit_line :: "u8 list list \<Rightarrow> nat \<Rightarrow> u16 list \<Rightarrow> edit_state \<Rightarrow> (edit_state \<times> u16 list) outcome" where
  "edit_line hist n [] e = Waiting"
| "edit_line hist n (k # ks) e =
     (case edit_key hist n k e of
        Continue e1 \<Rightarrow> edit_line hist n ks e1
      | Done e1 \<Rightarrow> Ok (e1, ks)
      | OutOfBounds \<Rightarrow> Fault)"

section \<open>The prompt loop\<close>

record 'd shell_state =
  history :: "u8 list list"
  history_count :: nat
  history_pos :: nat
  sys :: "'d cmd_state"

definition add_history :: "u8 list \<Rightarrow> 'd shell_state \<Rightarrow> 'd shell_state" where
  "add_history line sh =
     (let n = history_count sh; h = history sh
      in if n < HISTORY_SIZE
         then sh\<lparr>history := h[n := str_copy (h ! n) (cstr line) MAX_INPUT],
                history_count := n + 1, history_pos := n + 1\<rparr>
         else (let h1 = shift_down h 0 (HISTORY_SIZE - 1)
               in sh\<lparr>history := h1[HISTORY_SIZE - 1 := str_copy (h1 ! (HISTORY_SIZE - 1)) (cstr line) MAX_INPUT],
                     history_pos := n\<rparr>))"

definition blank_edit :: "'d shell_state \<Rightarrow> edit_state" where
  "blank_edit sh = \<lparr>ed_line = replicate MAX_INPUT 0, ed_pos = 0, ed_hpos = history_pos sh, ed_out = []\<rparr>"

text \<open>The part of the loop after the line is read: history, upper case, dispatch.\<close>

definition shell_execute :: "'d machine \<Rightarrow> u8 list \<Rightarrow> 'd shell_state \<Rightarrow> 'd shell_state outcome" where
  "shell_execute m line0 sh =
     (let line = str_trim line0
      in if cstr line = [] then Ok sh
         else (let sh1 = add_history line sh
               in bind_outcome (cmd_dispatch m (cstr (shell_strupr line)) (sys sh1)) (\<lambda>(result, st).
                    Ok (sh1\<lparr>sys := (if result = - 255 then say ''Bad command or file name\<newline>'' st else st)\<rparr>))))"

definition shell_prompt :: "'d machine \<Rightarrow> 'd shell_state \<Rightarrow> 'd shell_state outcome" where
  "shell_prompt m sh =
     bind_outcome (edit_line (history sh) (history_count sh) (keys (sys sh)) (blank_edit sh)) (\<lambda>(e, ks).
       let st = emit ([SetAttr 0x0E, Puts (cstr (current_dir (sys sh))), Puts (lit ''> ''), SetAttr 0x07] @ ed_out e)
                  ((sys sh)\<lparr>keys := ks\<rparr>)
       in shell_execute m (ed_line e) (sh\<lparr>history_pos := ed_hpos e, sys := st\<rparr>))"

text \<open>
  The start of \<^verbatim>\<open>shell_main\<close>.  \<open>restored\<close> is the answer of \<^verbatim>\<open>gui_check_and_restore_screen\<close>;
  \<^verbatim>\<open>wifi_autostart\<close> does nothing.
\<close>

definition shell_start :: "'d machine \<Rightarrow> bool \<Rightarrow> 'd cmd_state \<Rightarrow> 'd cmd_state" where
  "shell_start m restored st =
     (let st1 = emit [SetAttr 0x07] st
      in if restored then emit [Putc 10] (cmd_init_silent m st1) else cmd_init m st1)"

inductive shell_reaches :: "'d machine \<Rightarrow> 'd shell_state \<Rightarrow> 'd shell_state \<Rightarrow> bool" for m where
  start: "shell_reaches m sh sh"
| prompt: "shell_reaches m sh sh1 \<Longrightarrow> shell_prompt m sh1 = Ok sh2 \<Longrightarrow> shell_reaches m sh sh2"

section \<open>The trimmed line\<close>

definition rtrim :: "u8 list \<Rightarrow> u8 list" where
  "rtrim s = rev (dropWhile trim_char (rev s))"

lemma rtrim_Nil [simp]: "rtrim [] = []"
  by (simp add: rtrim_def)

lemma rtrim_snoc: "rtrim (s @ [c]) = (if trim_char c then rtrim s else s @ [c])"
  by (simp add: rtrim_def)

lemma rtrim_length: "length (rtrim s) \<le> length s"
  using length_dropWhile_le [of trim_char "rev s"] by (simp add: rtrim_def)

lemma rtrim_nonzero: "0 \<notin> set s \<Longrightarrow> 0 \<notin> set (rtrim s)"
  using set_dropWhileD [of 0 trim_char "rev s"] by (auto simp: rtrim_def)

lemma str_trim_loop_spec:
  "0 \<notin> set s \<Longrightarrow> \<exists>r. str_trim_loop (s @ 0 # t) (length s) = rtrim s @ 0 # r \<and> length (rtrim s) + length r = length s + length t"
proof (induction s arbitrary: t rule: rev_induct)
  case (snoc c s)
  show ?case
  proof (cases "trim_char c")
    case True
    have "str_trim_loop (s @ [c] @ 0 # t) (length (s @ [c])) = str_trim_loop (s @ 0 # 0 # t) (length s)"
      using True by (simp add: nth_append list_update_append)
    with snoc.IH [of "0 # t"] snoc.prems True show ?thesis by (auto simp: rtrim_snoc)
  next
    case False
    then show ?thesis by (auto simp: rtrim_snoc nth_append)
  qed
qed auto

lemma cstr_split: "0 \<in> set a \<Longrightarrow> \<exists>t. a = cstr a @ 0 # t"
proof -
  assume "0 \<in> set a"
  then have "dropWhile (\<lambda>b. b \<noteq> 0) a \<noteq> []" by (simp add: dropWhile_eq_Nil_conv)
  then obtain x t where x: "dropWhile (\<lambda>b. b \<noteq> 0) a = x # t" by (cases "dropWhile (\<lambda>b. b \<noteq> 0) a") auto
  then have "x = 0" using hd_dropWhile [of "\<lambda>b. b \<noteq> 0" a] by auto
  with x takeWhile_dropWhile_id [of "\<lambda>b. b \<noteq> 0" a] show ?thesis by (metis cstr_def)
qed

lemma str_trim_spec:
  assumes "0 \<in> set a"
  shows "cstr (str_trim a) = rtrim (cstr a)" and "length (str_trim a) = length a" and "0 \<in> set (str_trim a)"
proof -
  obtain t where a: "a = cstr a @ 0 # t" using cstr_split [OF assms] by blast
  obtain r where r: "str_trim_loop (cstr a @ 0 # t) (length (cstr a)) = rtrim (cstr a) @ 0 # r"
      "length (rtrim (cstr a)) + length r = length (cstr a) + length t"
    using str_trim_loop_spec [OF cstr_nonzero] by blast
  then have s: "str_trim a = rtrim (cstr a) @ 0 # r" using a by (simp add: str_trim_def)
  show "cstr (str_trim a) = rtrim (cstr a)"
    unfolding s by (rule cstr_prefix) (rule rtrim_nonzero [OF cstr_nonzero])
  show "length (str_trim a) = length a" using s r(2) a by (metis add_Suc_right length_Cons length_append)
  show "0 \<in> set (str_trim a)" using s by simp
qed

lemma cstr_strupr: "0 \<in> set a \<Longrightarrow> cstr (shell_strupr a) = str_upper (cstr a)"
proof -
  assume "0 \<in> set a"
  then obtain t where a: "a = cstr a @ 0 # t" using cstr_split by blast
  then have "drop (length (cstr a)) a = 0 # t" by (metis append_eq_conv_conj)
  then show ?thesis
    by (simp add: shell_strupr_def cstr_prefix str_upper_nonzero cstr_nonzero)
qed

section \<open>The editor stays inside its arrays\<close>

definition edit_wf :: "nat \<Rightarrow> edit_state \<Rightarrow> bool" where
  "edit_wf n e \<longleftrightarrow> length (ed_line e) = 256 \<and> ed_line e ! 255 = 0 \<and> ed_pos e \<le> 255 \<and> ed_hpos e \<le> n"

definition history_wf :: "u8 list list \<Rightarrow> nat \<Rightarrow> bool" where
  "history_wf hist n \<longleftrightarrow> length hist = 20 \<and> n \<le> 20 \<and> (\<forall>h \<in> set hist. length h = 256 \<and> 0 \<in> set h)"

definition shell_wf :: "'d shell_state \<Rightarrow> bool" where
  "shell_wf sh \<longleftrightarrow> history_wf (history sh) (history_count sh) \<and> history_pos sh \<le> history_count sh \<and> cmd_wf (sys sh)"

text \<open>The part of the invariant that is about the history.\<close>

definition log_wf :: "'d shell_state \<Rightarrow> bool" where
  "log_wf sh \<longleftrightarrow> history_wf (history sh) (history_count sh) \<and> history_pos sh \<le> history_count sh"

lemma shell_wf_log: "shell_wf sh \<longleftrightarrow> log_wf sh \<and> cmd_wf (sys sh)"
  by (auto simp: shell_wf_def log_wf_def)

lemma log_wf_sys [simp]: "log_wf (sh\<lparr>sys := s\<rparr>) = log_wf sh"
  by (simp add: log_wf_def)

lemma recall_wf:
  assumes "history_wf hist n" and "edit_wf n e" and "hp < n"
  shows "\<exists>e1. recall hist hp e = Continue e1 \<and> edit_wf n e1"
proof -
  have hp: "hp < length hist" using assms(1,3) by (simp add: history_wf_def)
  define tx where "tx = take 255 (cstr (hist ! hp))"
  have len: "length tx \<le> 255" by (simp add: tx_def)
  have "str_copy (ed_line e) tx 256 ! 255 = 0"
    using assms(2) len by (auto simp: str_copy_def edit_wf_def nth_append nth_Cons' Let_def)
  moreover have "length (str_copy (ed_line e) tx 256) = 256"
    using assms(2) by (simp add: length_str_copy edit_wf_def)
  ultimately show ?thesis
    using hp len assms(3) by (simp add: recall_def MAX_INPUT_def tx_def [symmetric] edit_wf_def Let_def)
qed

lemma edit_key_wf:
  assumes "history_wf hist n" and "edit_wf n e"
  shows "case edit_key hist n k e of Continue e1 \<Rightarrow> edit_wf n e1 | Done e1 \<Rightarrow> edit_wf n e1 | OutOfBounds \<Rightarrow> False"
proof -
  have up: "case recall hist (if ed_hpos e > 0 then ed_hpos e - 1 else ed_hpos e) e of
      Continue e1 \<Rightarrow> edit_wf n e1 | Done e1 \<Rightarrow> edit_wf n e1 | OutOfBounds \<Rightarrow> False" if "n > 0"
  proof -
    have "(if ed_hpos e > 0 then ed_hpos e - 1 else ed_hpos e) < n"
      using assms(2) that by (auto simp: edit_wf_def)
    from recall_wf [OF assms this] show ?thesis by (elim exE conjE) (simp only: edit_result.case)
  qed
  have down: "case recall hist (ed_hpos e + 1) e of
      Continue e1 \<Rightarrow> edit_wf n e1 | Done e1 \<Rightarrow> edit_wf n e1 | OutOfBounds \<Rightarrow> False" if "ed_hpos e < n - 1"
  proof -
    have "ed_hpos e + 1 < n" using that by simp
    from recall_wf [OF assms this] show ?thesis by (elim exE conjE) (simp only: edit_result.case)
  qed
  have z: "(ed_line e)[p := 0] ! 255 = 0" for p
    using assms(2) by (cases "p = 255") (auto simp: edit_wf_def)
  have c: "(ed_line e)[p := c] ! 255 = 0" if "p < 255" for p c
    using assms(2) that by (simp add: edit_wf_def)
  show ?thesis
    unfolding edit_key_def Let_def
    using up down z c assms(2) by (auto simp: edit_wf_def MAX_INPUT_def split del: if_split split: if_split)
qed

lemma edit_line_wf:
  assumes "history_wf hist n" and "edit_wf n e"
  shows "case edit_line hist n ks e of Ok (e1, ks1) \<Rightarrow> edit_wf n e1 \<and> length ks1 < length ks | Fault \<Rightarrow> False | Waiting \<Rightarrow> True"
  using assms(2)
proof (induction ks arbitrary: e)
  case (Cons k ks)
  note key = edit_key_wf [OF assms(1) Cons.prems, of k]
  show ?case
  proof (cases "edit_key hist n k e")
    case (Continue e1)
    with key have "edit_wf n e1" by simp
    from Cons.IH [OF this] Continue show ?thesis by (auto split: outcome.split)
  qed (use key in auto)
qed simp

lemma blank_edit_wf: "shell_wf sh \<Longrightarrow> edit_wf (history_count sh) (blank_edit sh)"
  by (simp add: blank_edit_def edit_wf_def shell_wf_def MAX_INPUT_def)

lemma edit_wf_nul: "edit_wf n e \<Longrightarrow> 0 \<in> set (ed_line e)"
  using nth_mem [of 255 "ed_line e"] by (simp add: edit_wf_def)

section \<open>The loop keeps the shell's invariant\<close>

lemma history_row: "length h = 256 \<Longrightarrow> length (str_copy h s 256) = 256 \<and> 0 \<in> set (str_copy h s 256)"
  by (simp add: length_str_copy nul_str_copy)

lemma add_history_log_wf:
  assumes "log_wf sh"
  shows "log_wf (add_history line sh)"
proof -
  have h: "length (history sh) = 20" "\<forall>x \<in> set (history sh). length x = 256 \<and> 0 \<in> set x"
    "history_count sh \<le> 20"
    using assms by (auto simp: log_wf_def history_wf_def)
  let ?h = "shift_down (history sh) 0 19"
  have sh: "\<forall>x \<in> set ?h. length x = 256 \<and> 0 \<in> set x"
    using remove_at_set [of 0 20 "history sh"] h(1,2) by (auto simp: remove_at_def)
  have row: "length ((xs :: u8 list list) ! i) = 256" if "i < length xs" "\<forall>x \<in> set xs. length x = 256 \<and> 0 \<in> set x" for xs i
    using that by simp
  have 1: "\<forall>x \<in> set ((history sh)[i := str_copy (history sh ! i) s 256]). length x = 256 \<and> 0 \<in> set x" if "i < 20" for i s
    using h(1,2) that history_row [OF row [of i "history sh"]] by (intro ball_update) auto
  have 2: "\<forall>x \<in> set (?h[19 := str_copy (?h ! 19) s 256]). length x = 256 \<and> 0 \<in> set x" for s
    using sh h(1) history_row [OF row [of 19 ?h]] by (intro ball_update) auto
  show ?thesis
    using h 1 2 by (simp add: add_history_def Let_def log_wf_def history_wf_def HISTORY_SIZE_def MAX_INPUT_def)
qed

lemma sys_add_history [simp]: "sys (add_history line sh) = sys sh"
  by (simp add: add_history_def Let_def)

lemma add_history_wf: "shell_wf sh \<Longrightarrow> shell_wf (add_history line sh)"
  using add_history_log_wf [of sh line] by (simp add: shell_wf_log)

lemma shell_execute_safe:
  assumes "shell_wf sh" and "0 \<in> set line"
    and inside: "line_command (str_upper (rtrim (cstr line))) \<notin> set outside_names"
  shows "case shell_execute m line sh of Ok sh1 \<Rightarrow> shell_wf sh1 | Fault \<Rightarrow> False | Waiting \<Rightarrow> True"
proof -
  define l where "l = str_trim line"
  have l: "0 \<in> set l" unfolding l_def by (rule str_trim_spec(3) [OF assms(2)])
  define sh1 where "sh1 = add_history l sh"
  have w: "shell_wf sh1" unfolding sh1_def by (rule add_history_wf [OF assms(1)])
  have "0 \<notin> set (cstr (shell_strupr l))" by (rule cstr_nonzero)
  moreover have "cstr (shell_strupr l) = str_upper (rtrim (cstr line))"
    using cstr_strupr [OF l] str_trim_spec(1) [OF assms(2)] by (simp add: l_def)
  ultimately have "cmd_wf (sys sh1) \<Longrightarrow> safe_result (cmd_dispatch m (cstr (shell_strupr l)) (sys sh1))"
    using safe_dispatch inside by metis
  with w
  have s: "safe_result (cmd_dispatch m (cstr (shell_strupr l)) (sys sh1))" by (simp add: shell_wf_def)
  show ?thesis
    unfolding shell_execute_def l_def [symmetric] Let_def sh1_def [symmetric]
    using assms(1) w s
    by (cases "cmd_dispatch m (cstr (shell_strupr l)) (sys sh1)") (auto simp: shell_wf_def)
qed

text \<open>
  The next turn runs no window and no network program: the line it reads, if it reads one, has
  another command.
\<close>

definition prompt_inside :: "'d shell_state \<Rightarrow> bool" where
  "prompt_inside sh =
     (case edit_line (history sh) (history_count sh) (keys (sys sh)) (blank_edit sh) of
        Ok (e, ks) \<Rightarrow> line_command (str_upper (rtrim (cstr (ed_line e)))) \<notin> set outside_names
      | _ \<Rightarrow> True)"

text \<open>The runs of the loop in which no turn does.\<close>

inductive inside_reaches :: "'d machine \<Rightarrow> 'd shell_state \<Rightarrow> 'd shell_state \<Rightarrow> bool" for m where
  inside_start: "inside_reaches m sh sh"
| inside_prompt: "inside_reaches m sh sh1 \<Longrightarrow> prompt_inside sh1 \<Longrightarrow> shell_prompt m sh1 = Ok sh2 \<Longrightarrow>
    inside_reaches m sh sh2"

lemma inside_reaches_shell: "inside_reaches m sh sh' \<Longrightarrow> shell_reaches m sh sh'"
  by (induction rule: inside_reaches.induct) (auto intro: shell_reaches.intros)

lemma shell_prompt_safe:
  assumes "shell_wf sh" and "prompt_inside sh"
  shows "case shell_prompt m sh of Ok sh1 \<Rightarrow> shell_wf sh1 | Fault \<Rightarrow> False | Waiting \<Rightarrow> True"
proof -
  have h: "history_wf (history sh) (history_count sh)" using assms(1) by (simp add: shell_wf_def)
  note e = edit_line_wf [OF h blank_edit_wf [OF assms(1)], of "keys (sys sh)"]
  show ?thesis
  proof (cases "edit_line (history sh) (history_count sh) (keys (sys sh)) (blank_edit sh)")
    case (Ok x)
    obtain e1 ks where x: "x = (e1, ks)" by (cases x) auto
    have wf: "edit_wf (history_count sh) e1" using e Ok x by simp
    then have "shell_wf (sh\<lparr>history_pos := ed_hpos e1, sys := emit es ((sys sh)\<lparr>keys := ks\<rparr>)\<rparr>)" for es
      using assms(1) by (simp add: shell_wf_def edit_wf_def)
    from shell_execute_safe [OF this edit_wf_nul [OF wf]] Ok x assms(2) show ?thesis
      by (simp add: shell_prompt_def prompt_inside_def Let_def)
  qed (use e in \<open>auto simp: shell_prompt_def\<close>)
qed

lemma inside_reaches_wf: "inside_reaches m sh sh' \<Longrightarrow> shell_wf sh \<Longrightarrow> shell_wf sh'"
proof (induction rule: inside_reaches.induct)
  case (inside_prompt sh sh1 sh2)
  then show ?case using shell_prompt_safe [of sh1 m] by simp
qed

section \<open>Typed lines\<close>

lemma edit_printable:
  assumes "32 \<le> c" and "c \<le> 126" and "ed_pos e < 255"
  shows "edit_key hist n (ucast (c :: u8)) e =
    Continue (e\<lparr>ed_line := (ed_line e)[ed_pos e := c], ed_pos := ed_pos e + 1, ed_out := ed_out e @ [Putc c]\<rparr>)"
proof -
  have "c \<noteq> 0" "c \<noteq> 13" "c \<noteq> 10" "c \<noteq> 3" "c \<noteq> 8" using assms(1) by auto
  with assms show ?thesis by (simp add: edit_key_def low_byte_of_key MAX_INPUT_def Let_def)
qed

lemma edit_typed:
  assumes "\<forall>c \<in> set tx. 32 \<le> c \<and> c \<le> (126 :: u8)" and "ed_line e = pre @ replicate k 0" and "ed_pos e = length pre"
    and "length pre + length tx \<le> 255" and "length pre + k = 256"
  shows "edit_line hist n (map ucast tx @ ks) e =
    edit_line hist n ks (e\<lparr>ed_line := pre @ tx @ replicate (k - length tx) 0, ed_pos := length pre + length tx,
      ed_out := ed_out e @ map Putc tx\<rparr>)"
  using assms
proof (induction tx arbitrary: e pre k)
  case Nil
  then show ?case by (cases e) simp
next
  case (Cons c tx)
  obtain k' where k: "k = Suc k'" using Cons.prems(4,5) by (cases k) auto
  let ?e = "e\<lparr>ed_line := (ed_line e)[ed_pos e := c], ed_pos := ed_pos e + 1, ed_out := ed_out e @ [Putc c]\<rparr>"
  have "edit_key hist n (ucast c) e = Continue ?e"
    using Cons.prems by (intro edit_printable) auto
  moreover have "ed_line ?e = (pre @ [c]) @ replicate k' 0" using Cons.prems(2,3) k by simp
  ultimately show ?case
    using Cons.IH [of ?e "pre @ [c]" k'] Cons.prems k by simp
qed

lemma prompt_typed:
  assumes "\<forall>c \<in> set tx. 32 \<le> c \<and> c \<le> (126 :: u8)" and "length tx \<le> 255" and "k \<in> {3, 10, 13}"
    and "keys (sys sh) = map ucast tx @ k # ks"
  shows "\<exists>es. shell_prompt m sh = shell_execute m (tx @ replicate (256 - length tx) 0)
    (sh\<lparr>sys := emit es ((sys sh)\<lparr>keys := ks\<rparr>)\<rparr>)"
proof -
  let ?e = "(blank_edit sh)\<lparr>ed_line := tx @ replicate (256 - length tx) 0, ed_pos := length tx, ed_out := map Putc tx\<rparr>"
  have "(tx @ replicate (256 - length tx) 0)[length tx := 0] = tx @ replicate (256 - length tx) 0"
    using assms(2) by (cases "256 - length tx") (simp_all add: list_update_append)
  then have end_line: "(ed_line ?e)[ed_pos ?e := 0] = ed_line ?e" by simp
  have enter: "edit_key (history sh) (history_count sh) k ?e = Done (?e\<lparr>ed_out := map Putc tx @ [Putc 10]\<rparr>)"
    if "k = 13 \<or> k = 10"
  proof -
    have "(ucast (k AND 0xFF) :: u8) = 13 \<or> (ucast (k AND 0xFF) :: u8) = 10" using that by (elim disjE) simp_all
    then have "edit_key (history sh) (history_count sh) k ?e =
        Done (?e\<lparr>ed_line := (ed_line ?e)[ed_pos ?e := 0], ed_out := ed_out ?e @ [Putc 10]\<rparr>)"
      by (elim disjE) (simp_all add: edit_key_def Let_def)
    then show ?thesis unfolding end_line by simp
  qed
  have ctrl: "edit_key (history sh) (history_count sh) 3 ?e =
      Done (?e\<lparr>ed_pos := 0, ed_out := map Putc tx @ [Puts (lit ''^C\<newline>'')]\<rparr>)"
    by (simp add: edit_key_def Let_def)
  have hp: "ed_hpos ?e = history_pos sh" by (simp add: blank_edit_def)
  obtain e1 where e1: "edit_key (history sh) (history_count sh) k ?e = Done e1"
      "ed_line e1 = tx @ replicate (256 - length tx) 0" "ed_hpos e1 = history_pos sh"
  proof (cases "k = 3")
    case True
    show ?thesis
      by (rule that [of "?e\<lparr>ed_pos := 0, ed_out := map Putc tx @ [Puts (lit ''^C\<newline>'')]\<rparr>"])
        (use True ctrl hp in simp_all)
  next
    case False
    then have "k = 13 \<or> k = 10" using assms(3) by auto
    then show ?thesis
      by (intro that [of "?e\<lparr>ed_out := map Putc tx @ [Putc 10]\<rparr>"]) (use enter hp in simp_all)
  qed
  have same: "sh\<lparr>history_pos := history_pos sh, sys := s\<rparr> = sh\<lparr>sys := s\<rparr>" for s by (cases sh) simp
  have "edit_line (history sh) (history_count sh) (map ucast tx @ k # ks) (blank_edit sh) =
      edit_line (history sh) (history_count sh) (k # ks) ?e"
    using edit_typed [of tx "blank_edit sh" "[]" 256 "history sh" "history_count sh" "k # ks"] assms(1,2)
    by (simp add: blank_edit_def MAX_INPUT_def)
  then have ed: "edit_line (history sh) (history_count sh) (keys (sys sh)) (blank_edit sh) = Ok (e1, ks)"
    using e1(1) assms(4) by simp
  show ?thesis
    unfolding shell_prompt_def ed bind_outcome.simps prod.case Let_def e1(2,3) same by blast
qed

lemma typed_cstr: "0 \<notin> set tx \<Longrightarrow> length tx \<le> 255 \<Longrightarrow> cstr (tx @ replicate (256 - length tx) 0) = tx"
  using cstr_prefix [of tx "replicate (255 - length tx) 0"]
  by (metis Suc_diff_le replicate_Suc numeral_eq_Suc pred_numeral_simps(2) pred_numeral_simps(3) BitM.simps eval_nat_numeral)

text \<open>The lines the history holds, oldest first.\<close>

definition remembered :: "'d shell_state \<Rightarrow> u8 list list" where
  "remembered sh = map cstr (take (history_count sh) (history sh))"

lemma add_history_remembered:
  assumes "log_wf sh" and "length (cstr line) \<le> 255"
  shows "remembered (add_history line sh) = keep_last 20 (remembered sh @ [cstr line])"
proof -
  have h: "length (history sh) = 20" "history_count sh \<le> 20" using assms(1) by (auto simp: log_wf_def history_wf_def)
  have len: "length (remembered sh) = history_count sh" using h by (simp add: remembered_def)
  have c: "cstr (str_copy a (cstr line) 256) = cstr line" for a
    using assms(2) by (simp add: cstr_str_copy cstr_nonzero)
  show ?thesis
  proof (cases "history_count sh < 20")
    case True
    then show ?thesis using h len c
      by (simp add: add_history_def remembered_def HISTORY_SIZE_def MAX_INPUT_def Let_def take_Suc_conv_app_nth keep_last_def)
  next
    case False
    then have n: "history_count sh = 20" using h(2) by simp
    let ?h = "shift_down (history sh) 0 19"
    have t: "take 19 ?h = drop 1 (history sh)"
      using remove_at_take [of 0 20 "history sh"] h(1) by (simp add: remove_at_def)
    have "take 20 (?h[19 := r]) = take 19 ?h @ [r]" for r
      using h(1) take_Suc_conv_app_nth [of 19 "?h[19 := r]"] by simp
    then show ?thesis using h n t c len
      by (simp add: add_history_def remembered_def HISTORY_SIZE_def MAX_INPUT_def Let_def drop_map keep_last_def)
  qed
qed

interpretation hist: bounded_log add_history remembered cstr log_wf "\<lambda>l. length (cstr l) \<le> 255" 20
proof
  fix sh :: "'d shell_state"
  assume "log_wf sh"
  then show "length (remembered sh) \<le> 20" by (simp add: remembered_def log_wf_def history_wf_def)
qed (simp_all add: add_history_remembered add_history_log_wf)

text \<open>
  Turns of the loop at which the texts are typed, one each, ended by Enter or Ctrl+C.  Between
  two turns, and while a command runs, the rest of the system may change in any way.
\<close>

inductive typed_turns :: "'d machine \<Rightarrow> u8 list list \<Rightarrow> 'd shell_state \<Rightarrow> 'd shell_state \<Rightarrow> bool" for m where
  no_turn: "typed_turns m [] sh sh"
| turn: "typed_turns m txs sh sh1 \<Longrightarrow> \<forall>c \<in> set tx. 32 \<le> c \<and> c \<le> 126 \<Longrightarrow> length tx \<le> 255 \<Longrightarrow>
    k \<in> {3, 10, 13} \<Longrightarrow> keys s = map ucast tx @ k # ks \<Longrightarrow> shell_prompt m (sh1\<lparr>sys := s\<rparr>) = Ok sh2 \<Longrightarrow>
    typed_turns m (txs @ [tx]) sh sh2"

lemma remembered_sys [simp]: "remembered (sh\<lparr>sys := s\<rparr>) = remembered sh"
  by (simp add: remembered_def)

lemma execute_remembers:
  assumes "log_wf sh" and "0 \<in> set line" and "length (cstr line) \<le> 255" and "shell_execute m line sh = Ok sh2"
  shows "log_wf sh2 \<and>
    remembered sh2 = (if rtrim (cstr line) = [] then remembered sh else keep_last 20 (remembered sh @ [rtrim (cstr line)]))"
proof -
  have c: "cstr (str_trim line) = rtrim (cstr line)" by (rule str_trim_spec(1) [OF assms(2)])
  have len: "length (rtrim (cstr line)) \<le> 255" using rtrim_length [of "cstr line"] assms(3) by simp
  show ?thesis
    using assms(1,4) c len hist.push_view [OF assms(1), of "str_trim line"] hist.push_ok [OF assms(1), of "str_trim line"]
    by (auto simp: shell_execute_def Let_def outcome_bind_Ok split: if_splits)
qed

lemma prompt_remembers:
  assumes "log_wf sh" and "\<forall>c \<in> set tx. 32 \<le> c \<and> c \<le> (126 :: u8)" and "length tx \<le> 255" and "k \<in> {3, 10, 13}"
    and "keys (sys sh) = map ucast tx @ k # ks" and "shell_prompt m sh = Ok sh2"
  shows "log_wf sh2 \<and>
    remembered sh2 = (if rtrim tx = [] then remembered sh else keep_last 20 (remembered sh @ [rtrim tx]))"
proof -
  let ?l = "tx @ replicate (256 - length tx) 0"
  obtain es where p: "shell_prompt m sh = shell_execute m ?l (sh\<lparr>sys := emit es ((sys sh)\<lparr>keys := ks\<rparr>)\<rparr>)"
    using prompt_typed [OF assms(2,3,4,5)] by blast
  have "0 \<notin> set tx" using assms(2) by auto
  then have c: "cstr ?l = tx" using typed_cstr assms(3) by blast
  have "0 \<in> set ?l" using assms(3) by simp
  from execute_remembers [OF _ this, of "sh\<lparr>sys := emit es ((sys sh)\<lparr>keys := ks\<rparr>)\<rparr>" m sh2] p assms(1,3,6) c
  show ?thesis by simp
qed

section \<open>Properties\<close>


definition boot_shell :: "ata_view shell_state" where
  "boot_shell = \<lparr>history = replicate 20 (replicate 256 0), history_count = 0, history_pos = 0,
     sys = (initial_state blank_drive)\<lparr>keys := map ucast (lit ''ver'') @ [3]\<rparr>\<rparr>"

lemma boot_shell_wf: "shell_wf boot_shell"
  using initial_wf [of blank_drive] by (simp add: shell_wf_def boot_shell_def history_wf_def)

lemma boot_shell_inside: "prompt_inside boot_shell"
proof -
  have k: "keys (sys boot_shell) = map ucast (lit ''ver'') @ [3]" by (simp add: boot_shell_def)
  have b: "blank_edit boot_shell = \<lparr>ed_line = replicate 256 0, ed_pos = 0, ed_hpos = 0, ed_out = []\<rparr>"
    by (simp add: blank_edit_def boot_shell_def MAX_INPUT_def)
  have "case edit_line h 0 (map ucast (lit ''ver'') @ [3]) \<lparr>ed_line = replicate 256 0, ed_pos = 0, ed_hpos = 0, ed_out = []\<rparr> of
        Ok (e, ks) \<Rightarrow> line_command (str_upper (rtrim (cstr (ed_line e)))) \<notin> set outside_names
      | _ \<Rightarrow> True" for h :: "u8 list list"
  proof -
    let ?b = "\<lparr>ed_line = replicate 256 0, ed_pos = 0, ed_hpos = 0, ed_out = []\<rparr>"
    have tx: "\<forall>c \<in> set (lit ''ver''). 32 \<le> c \<and> c \<le> (126 :: u8)" "length (lit ''ver'') \<le> 255" "0 \<notin> set (lit ''ver'')"
      by (simp_all add: lit_def)
    have e: "edit_line h 0 (map ucast (lit ''ver'') @ [3]) ?b =
        edit_line h 0 [3] (?b\<lparr>ed_line := [] @ lit ''ver'' @ replicate (256 - length (lit ''ver'')) 0,
          ed_pos := length ([] :: u8 list) + length (lit ''ver''), ed_out := ed_out ?b @ map Putc (lit ''ver'')\<rparr>)"
      by (rule edit_typed [OF tx(1)]) (use tx(2) in simp_all)
    have c: "line_command (str_upper (rtrim (lit ''ver''))) \<notin> set outside_names" by code_simp
    show ?thesis unfolding e using c typed_cstr [OF tx(3,2)] by (simp add: edit_key_def Let_def)
  qed
  then show ?thesis unfolding prompt_inside_def k b by (simp add: boot_shell_def)
qed


text \<open>
  Reading a line.  A line of at most 255 printable characters that is not only blanks, ended
  by Enter or by Ctrl+C, is cut at its last character that is not a blank, put in the history and
  run in upper case.  Ctrl+C, echoed as \<open>^C\<close>, thus runs the line it should discard: it resets the
  position in the buffer and not the buffer.
\<close>
theorem enter_and_ctrl_c_run_the_line:
  assumes "\<forall>c \<in> set tx. 32 \<le> c \<and> c \<le> (126 :: u8)" and "length tx \<le> 255" and "rtrim tx \<noteq> []"
    and "k \<in> {3, 10, 13}" and "keys (sys sh) = map ucast tx @ k # ks"
  shows "\<exists>es line. cstr line = rtrim tx \<and>
    shell_prompt m sh =
      (let sh1 = add_history line (sh\<lparr>sys := emit es ((sys sh)\<lparr>keys := ks\<rparr>)\<rparr>)
       in bind_outcome (cmd_dispatch m (str_upper (rtrim tx)) (sys sh1)) (\<lambda>(r, st).
            Ok (sh1\<lparr>sys := (if r = - 255 then say ''Bad command or file name\<newline>'' st else st)\<rparr>)))"
proof -
  let ?l = "tx @ replicate (256 - length tx) 0"
  obtain es where p: "shell_prompt m sh = shell_execute m ?l (sh\<lparr>sys := emit es ((sys sh)\<lparr>keys := ks\<rparr>)\<rparr>)"
    using prompt_typed [OF assms(1,2,4,5)] by blast
  have z: "0 \<notin> set tx" using assms(1) by auto
  have nul: "0 \<in> set ?l" using assms(2) by simp
  have "cstr ?l = tx" by (rule typed_cstr [OF z assms(2)])
  then have c: "cstr (str_trim ?l) = rtrim tx" using str_trim_spec(1) [OF nul] by simp
  have u: "cstr (shell_strupr (str_trim ?l)) = str_upper (rtrim tx)"
    using cstr_strupr [OF str_trim_spec(3) [OF nul]] c by simp
  show ?thesis
    by (rule exI [of _ es], rule exI [of _ "str_trim ?l"]) (simp add: p shell_execute_def c u assms(3) Let_def)
qed

theorem enter_and_ctrl_c_run_the_line_witness:
  "\<exists>es line. cstr line = lit ''ver'' \<and>
    shell_prompt ref_machine boot_shell =
      (let sh1 = add_history line (boot_shell\<lparr>sys := emit es ((sys boot_shell)\<lparr>keys := []\<rparr>)\<rparr>)
       in bind_outcome (cmd_dispatch ref_machine (lit ''VER'') (sys sh1)) (\<lambda>(r, st).
            Ok (sh1\<lparr>sys := (if r = - 255 then say ''Bad command or file name\<newline>'' st else st)\<rparr>)))"
proof -
  have r: "rtrim (lit ''ver'') = lit ''ver''" "str_upper (lit ''ver'') = lit ''VER''" by code_simp+
  have "keys (sys boot_shell) = map ucast (lit ''ver'') @ 3 # []" by (simp add: boot_shell_def)
  from enter_and_ctrl_c_run_the_line [OF _ _ _ _ this] show ?thesis
    unfolding r by (auto simp: lit_def)
qed

lemma boot_shell_turn: "\<exists>sh'. shell_prompt bare_machine boot_shell = Ok sh'"
proof -
  let ?l = "lit ''ver'' @ replicate (256 - length (lit ''ver'')) 0"
  have tx: "\<forall>c \<in> set (lit ''ver''). 32 \<le> c \<and> c \<le> (126 :: u8)" "length (lit ''ver'') \<le> 255" "0 \<notin> set (lit ''ver'')"
    by (simp_all add: lit_def)
  have k: "keys (sys boot_shell) = map ucast (lit ''ver'') @ 3 # []" by (simp add: boot_shell_def)
  obtain es where p: "shell_prompt bare_machine boot_shell =
      shell_execute bare_machine ?l (boot_shell\<lparr>sys := emit es ((sys boot_shell)\<lparr>keys := []\<rparr>)\<rparr>)"
    using prompt_typed [OF tx(1,2) _ k] by blast
  have nul: "0 \<in> set ?l" using tx(2) by simp
  have r: "rtrim (lit ''ver'') = lit ''ver''" "str_upper (lit ''ver'') = lit ''VER''" by code_simp+
  have c: "cstr (str_trim ?l) = lit ''ver''"
    using str_trim_spec(1) [OF nul] typed_cstr [OF tx(3,2)] r(1) by simp
  then have u: "cstr (shell_strupr (str_trim ?l)) = lit ''VER''"
    using cstr_strupr [OF str_trim_spec(3) [OF nul]] r(2) by simp
  have t: "get_token (lit ''VER'') 64 = (lit ''VER'', [])" "str_upper (lit ''VER'') = lit ''VER''" by code_simp+
  have nz: "0 \<notin> set (lit ''VER'')" and ne: "lit ''VER'' \<noteq> []" by (simp_all add: lit_def)
  have "find (\<lambda>(n, h). str_cmp (lit ''VER'') n = 0) (commands bare_machine) = find (\<lambda>(n, h). n = lit ''VER'') (commands bare_machine)"
    by (rule find_cong) (auto dest!: commands_nonempty_names simp: str_cmp_eq_iff nz)
  also have "\<dots> = Some (lit ''VER'', Plain cmd_ver)" unfolding commands_def by (simp add: lit_inject)
  finally have f: "find (\<lambda>(n, h). str_cmp (str_upper (lit ''VER'')) n = 0) (commands bare_machine) = Some (lit ''VER'', Plain cmd_ver)"
    unfolding t(2) .
  have "cmd_dispatch bare_machine (lit ''VER'') st = cmd_ver [] st" for st
    using t f ne by (simp add: cmd_dispatch.simps [of _ "lit ''VER''"])
  then show ?thesis
    using tx(2) unfolding p by (simp add: shell_execute_def c u Let_def cmd_ver_def)
qed

text \<open>
  C24.  The history is a queue of the last 20 lines: after any sequence of turns at which lines of
  at most 255 printable characters are typed, whatever commands they run, it holds the last 20
  of the typed lines that are not blank, oldest first, without their trailing blanks.
\<close>
theorem history_keeps_last_20:
  assumes "log_wf sh" and "typed_turns m txs sh sh'"
  shows "remembered sh' = keep_last 20 (remembered sh @ filter (\<lambda>l. l \<noteq> []) (map rtrim txs))"
proof -
  have "log_wf sh' \<and> remembered sh' = keep_last 20 (remembered sh @ filter (\<lambda>l. l \<noteq> []) (map rtrim txs))"
    using assms(2,1)
  proof (induction rule: typed_turns.induct)
    case (no_turn sh)
    then show ?case using hist.view_bound [of sh] by simp
  next
    case (turn txs sh sh1 tx k s ks sh2)
    have IH: "log_wf sh1" "remembered sh1 = keep_last 20 (remembered sh @ filter (\<lambda>l. l \<noteq> []) (map rtrim txs))"
      using turn.IH [OF turn.prems] by auto
    have "log_wf (sh1\<lparr>sys := s\<rparr>)" using IH(1) by simp
    from prompt_remembers [OF this turn.hyps(2,3,4) _ turn.hyps(6), of ks] turn.hyps(5) IH
    show ?case by (simp add: keep_last_append)
  qed
  then show ?thesis by blast
qed

theorem history_keeps_last_20_witness:
  "\<exists>sh'. typed_turns bare_machine [lit ''ver''] boot_shell sh' \<and>
    remembered sh' = keep_last 20 (remembered boot_shell @ [lit ''ver''])"
proof -
  have k: "keys (sys boot_shell) = map ucast (lit ''ver'') @ 3 # []" by (simp add: boot_shell_def)
  have tx: "\<forall>c \<in> set (lit ''ver''). 32 \<le> c \<and> c \<le> (126 :: u8)" "length (lit ''ver'') \<le> 255" by (simp_all add: lit_def)
  obtain sh' where sh': "shell_prompt bare_machine boot_shell = Ok sh'"
    using boot_shell_turn by blast
  have "typed_turns bare_machine ([] @ [lit ''ver'']) boot_shell sh'"
    by (rule turn [OF no_turn tx _ k]) (use sh' in simp_all)
  then have t: "typed_turns bare_machine [lit ''ver''] boot_shell sh'" by simp
  moreover have "filter (\<lambda>l. l \<noteq> []) (map rtrim [lit ''ver'']) = [lit ''ver'']" by code_simp
  moreover have "log_wf boot_shell" using boot_shell_wf by (simp add: shell_wf_log)
  ultimately show ?thesis using history_keeps_last_20 [of boot_shell bare_machine "[lit ''ver'']" sh'] by metis
qed

end
