(* ===== verification/Scrollback.thy ===== *)
theory Scrollback
  imports C_Prelude Bounded_Log
begin

text \<open>
  The scrollback buffer \<^verbatim>\<open>src/src/scrollback.c\<close>: a ring of 500 screen lines, the copy of the
  screen taken when scrolling starts, and the view that is drawn.  The text screen at
  \<^verbatim>\<open>0xB8000\<close> is the list \<open>vga\<close> of its 2000 cells.  The indices stay far below \<open>2 ^ 31\<close> (they are
  bounded by the invariant \<open>sb_wf\<close>), so they are \<open>nat\<close> and \<open>int\<close>.
\<close>

definition SCROLLBACK_LINES :: nat where "SCROLLBACK_LINES = 500"
definition SCREEN_WIDTH :: nat where "SCREEN_WIDTH = 80"
definition SCREEN_HEIGHT :: nat where "SCREEN_HEIGHT = 25"

lemmas screen_consts = SCROLLBACK_LINES_def SCREEN_WIDTH_def SCREEN_HEIGHT_def

record scroll_state =
  scrollback_buffer :: "u16 list list"
  scrollback_write_pos :: nat
  scrollback_count :: nat
  scroll_offset :: int
  saved_screen :: "u16 list list"
  screen_saved :: bool
  vga :: "u16 list"

definition vga_row :: "u16 list \<Rightarrow> nat \<Rightarrow> u16 list" where
  "vga_row v y = map (\<lambda>x. v ! (y * SCREEN_WIDTH + x)) [0..<SCREEN_WIDTH]"

section \<open>Operations\<close>

definition save_current_screen :: "scroll_state \<Rightarrow> scroll_state" where
  "save_current_screen s =
     (if screen_saved s then s
      else s\<lparr>saved_screen := map (vga_row (vga s)) [0..<SCREEN_HEIGHT], screen_saved := True\<rparr>)"

definition restore_saved_screen :: "scroll_state \<Rightarrow> scroll_state" where
  "restore_saved_screen s =
     (if \<not> screen_saved s then s else s\<lparr>vga := concat (saved_screen s), screen_saved := False\<rparr>)"

text \<open>The end of both functions that add a line to the ring.\<close>

definition push_row :: "u16 list \<Rightarrow> scroll_state \<Rightarrow> scroll_state" where
  "push_row row s =
     s\<lparr>scrollback_buffer := (scrollback_buffer s)[scrollback_write_pos s := row],
       scrollback_write_pos := (scrollback_write_pos s + 1) mod SCROLLBACK_LINES,
       scrollback_count := (if scrollback_count s < SCROLLBACK_LINES then scrollback_count s + 1 else scrollback_count s)\<rparr>"

definition scrollback_capture_line :: "scroll_state \<Rightarrow> scroll_state" where
  "scrollback_capture_line s = push_row (vga_row (vga s) 0) s"

text \<open>\<open>None\<close> is the null pointer; \<open>(at << 8) | ch\<close> on bytes.\<close>

definition scrollback_save_line :: "u8 list option \<Rightarrow> u8 list option \<Rightarrow> scroll_state \<Rightarrow> scroll_state" where
  "scrollback_save_line line attrs s =
     push_row (map (\<lambda>x. let ch = (case line of Some l \<Rightarrow> l ! x | None \<Rightarrow> 32);
                         at = (case attrs of Some a \<Rightarrow> a ! x | None \<Rightarrow> 0x07)
                     in push_bit 8 (ucast at) OR ucast ch) [0..<SCREEN_WIDTH]) s"

definition redraw_row :: "scroll_state \<Rightarrow> nat \<Rightarrow> u16 list" where
  "redraw_row s y =
     (let total_lines = int (scrollback_count s) + int SCREEN_HEIGHT;
          view_start = total_lines - int SCREEN_HEIGHT - scroll_offset s;
          line_idx = view_start + int y
      in if line_idx < 0 then replicate SCREEN_WIDTH 0x0720
         else if line_idx < int (scrollback_count s)
         then scrollback_buffer s !
           ((scrollback_write_pos s + SCROLLBACK_LINES - scrollback_count s + nat line_idx) mod SCROLLBACK_LINES)
         else (let screen_y = nat line_idx - scrollback_count s
               in if screen_y < SCREEN_HEIGHT \<and> screen_saved s then saved_screen s ! screen_y else vga_row (vga s) y))"

definition scrollback_redraw :: "scroll_state \<Rightarrow> scroll_state" where
  "scrollback_redraw s =
     (if scrollback_count s = 0 then s
      else (let v = concat (map (redraw_row s) [0..<SCREEN_HEIGHT])
            in s\<lparr>vga := (if scroll_offset s > 0
                        then v[79 := 0x4E00 OR 0x5E, 24 * SCREEN_WIDTH + 79 := 0x4E00 OR 0x76] else v)\<rparr>))"

definition scrollback_scroll_up :: "scroll_state \<Rightarrow> scroll_state" where
  "scrollback_scroll_up s =
     (if scrollback_count s = 0 then s
      else (let s1 = (if scroll_offset s = 0 then save_current_screen s else s)
            in if scroll_offset s1 < int (scrollback_count s1)
               then scrollback_redraw (s1\<lparr>scroll_offset :=
                 (if scroll_offset s1 + 5 > int (scrollback_count s1) then int (scrollback_count s1)
                  else scroll_offset s1 + 5)\<rparr>)
               else s1))"

definition scrollback_scroll_down :: "scroll_state \<Rightarrow> scroll_state" where
  "scrollback_scroll_down s =
     (if scroll_offset s > 0
      then (if scroll_offset s - 5 \<le> 0 then restore_saved_screen (s\<lparr>scroll_offset := 0\<rparr>)
            else scrollback_redraw (s\<lparr>scroll_offset := scroll_offset s - 5\<rparr>))
      else s)"

definition scrollback_get_offset :: "scroll_state \<Rightarrow> int" where
  "scrollback_get_offset s = scroll_offset s"

definition scrollback_reset :: "scroll_state \<Rightarrow> scroll_state" where
  "scrollback_reset s = (if scroll_offset s > 0 then restore_saved_screen (s\<lparr>scroll_offset := 0\<rparr>) else s)"

definition scrollback_is_active :: "scroll_state \<Rightarrow> bool" where
  "scrollback_is_active s = (scroll_offset s > 0)"

section \<open>Invariant\<close>

definition rows_ok :: "nat \<Rightarrow> u16 list list \<Rightarrow> bool" where
  "rows_ok n rows \<longleftrightarrow> length rows = n \<and> (\<forall>r \<in> set rows. length r = 80)"

definition sb_wf :: "scroll_state \<Rightarrow> bool" where
  "sb_wf s \<longleftrightarrow> rows_ok 500 (scrollback_buffer s) \<and> scrollback_write_pos s < 500 \<and> scrollback_count s \<le> 500 \<and>
     0 \<le> scroll_offset s \<and> scroll_offset s \<le> int (scrollback_count s) \<and>
     rows_ok 25 (saved_screen s) \<and> length (vga s) = 2000 \<and> (screen_saved s \<longleftrightarrow> scroll_offset s > 0)"

lemma vga_row_length [simp]: "length (vga_row v y) = 80"
  by (simp add: vga_row_def screen_consts)

lemma rows_ok_nth: "rows_ok n rows \<Longrightarrow> i < n \<Longrightarrow> length (rows ! i) = 80"
  by (simp add: rows_ok_def)

lemma rows_ok_concat: "rows_ok n rows \<Longrightarrow> length (concat rows) = n * 80"
proof (induction rows arbitrary: n)
  case (Cons r rows)
  then obtain k where "n = Suc k" "rows_ok k rows" "length r = 80" by (cases n) (auto simp: rows_ok_def)
  with Cons.IH show ?case by simp
qed (simp add: rows_ok_def)

lemma concat_nth:
  "rows_ok n rows \<Longrightarrow> y < n \<Longrightarrow> x < 80 \<Longrightarrow> concat rows ! (y * 80 + x) = rows ! y ! x"
proof (induction rows arbitrary: n y)
  case (Cons r rows)
  then obtain k where k: "n = Suc k" "rows_ok k rows" "length r = 80" by (cases n) (auto simp: rows_ok_def)
  show ?case
  proof (cases y)
    case 0
    with k Cons.prems show ?thesis by (simp add: nth_append)
  next
    case (Suc z)
    with k Cons.prems Cons.IH [of k z] show ?thesis by (simp add: nth_append)
  qed
qed (simp add: rows_ok_def)

lemma vga_row_concat: "rows_ok 25 rows \<Longrightarrow> y < 25 \<Longrightarrow> vga_row (concat rows) y = rows ! y"
  using concat_nth [of 25 rows y] rows_ok_nth [of 25 rows y]
  by (intro nth_equalityI) (simp_all add: vga_row_def screen_consts)

lemma concat_vga_rows:
  assumes "length v = 2000"
  shows "concat (map (vga_row v) [0..<25]) = v"
proof -
  have ok: "rows_ok 25 (map (vga_row v) [0..<25])" by (simp add: rows_ok_def)
  show ?thesis
  proof (rule nth_equalityI)
    show "length (concat (map (vga_row v) [0..<25])) = length v" using rows_ok_concat [OF ok] assms by simp
    fix i
    assume "i < length (concat (map (vga_row v) [0..<25]))"
    then have i: "i < 2000" using rows_ok_concat [OF ok] by simp
    then have "i div 80 < 25" "i mod 80 < 80" by auto
    from concat_nth [OF ok this] show "concat (map (vga_row v) [0..<25]) ! i = v ! i"
      using \<open>i div 80 < 25\<close> by (simp add: vga_row_def screen_consts)
  qed
qed

lemma redraw_rows_ok: "sb_wf s \<Longrightarrow> rows_ok 25 (map (redraw_row s) [0..<25])"
  by (auto simp: rows_ok_def redraw_row_def Let_def sb_wf_def screen_consts)

lemma redraw_length: "rows_ok 25 (map (redraw_row s) [0..<25]) \<Longrightarrow> length (vga s) = 2000 \<Longrightarrow> length (vga (scrollback_redraw s)) = 2000"
  using rows_ok_concat [of 25 "map (redraw_row s) [0..<25]"]
  by (simp add: scrollback_redraw_def Let_def screen_consts)

lemma redraw_sel [simp]:
  "scrollback_buffer (scrollback_redraw s) = scrollback_buffer s"
  "scrollback_write_pos (scrollback_redraw s) = scrollback_write_pos s"
  "scrollback_count (scrollback_redraw s) = scrollback_count s"
  "scroll_offset (scrollback_redraw s) = scroll_offset s"
  "saved_screen (scrollback_redraw s) = saved_screen s" "screen_saved (scrollback_redraw s) = screen_saved s"
  by (simp_all add: scrollback_redraw_def Let_def)

lemma redraw_wf: "sb_wf s \<Longrightarrow> sb_wf (scrollback_redraw s)"
  using redraw_length [OF redraw_rows_ok, of s] by (simp add: sb_wf_def)

lemma push_row_wf: "sb_wf s \<Longrightarrow> length row = 80 \<Longrightarrow> sb_wf (push_row row s)"
proof -
  assume w: "sb_wf s" and r: "length row = 80"
  have "\<forall>x \<in> set ((scrollback_buffer s)[scrollback_write_pos s := row]). length x = 80"
    using w r set_update_subset_insert [of "scrollback_buffer s" "scrollback_write_pos s" row]
    by (auto simp: sb_wf_def rows_ok_def)
  then show "sb_wf (push_row row s)" using w by (auto simp: sb_wf_def rows_ok_def push_row_def screen_consts)
qed

text \<open>The state in which SCROLL UP draws: the screen is saved and the offset moved.\<close>

definition scrolled :: "scroll_state \<Rightarrow> scroll_state" where
  "scrolled s = (if scroll_offset s = 0 then save_current_screen s else s)
     \<lparr>scroll_offset := min (scroll_offset s + 5) (int (scrollback_count s))\<rparr>"

lemma scroll_up_eq:
  assumes "sb_wf s" and "0 < scrollback_count s" and "scroll_offset s < int (scrollback_count s)"
  shows "scrollback_scroll_up s = scrollback_redraw (scrolled s)"
proof -
  define o' where "o' = (if scroll_offset s + 5 > int (scrollback_count s) then int (scrollback_count s) else scroll_offset s + 5)"
  have o': "o' = min (scroll_offset s + 5) (int (scrollback_count s))" by (simp add: o'_def)
  have "scroll_offset (save_current_screen s) = scroll_offset s" "scrollback_count (save_current_screen s) = scrollback_count s"
    by (simp_all add: save_current_screen_def)
  then show ?thesis using assms(2,3)
    unfolding scrollback_scroll_up_def scrolled_def o' [symmetric] Let_def
    by (cases "scroll_offset s = 0") (simp_all add: o'_def)
qed

lemma scroll_up_stays:
  assumes "sb_wf s" and "scrollback_count s = 0 \<or> scroll_offset s = int (scrollback_count s)"
  shows "scrollback_scroll_up s = s"
proof (cases "scrollback_count s = 0")
  case False
  then have "scroll_offset s = int (scrollback_count s)" "scroll_offset s \<noteq> 0" using assms(2) by simp_all
  then show ?thesis by (simp add: scrollback_scroll_up_def Let_def)
qed (simp add: scrollback_scroll_up_def)

lemma scrolled_wf:
  assumes "sb_wf s" and "0 < scrollback_count s"
  shows "sb_wf (scrolled s)"
proof -
  have saved: "rows_ok 25 (map (vga_row v) [0..<SCREEN_HEIGHT])" for v by (simp add: rows_ok_def screen_consts)
  show ?thesis
  proof (cases "scroll_offset s = 0")
    case True
    then show ?thesis using assms saved by (simp add: sb_wf_def scrolled_def save_current_screen_def)
  next
    case False
    then show ?thesis using assms by (simp add: sb_wf_def scrolled_def)
  qed
qed

lemma scroll_up_wf: "sb_wf s \<Longrightarrow> sb_wf (scrollback_scroll_up s)"
proof (cases "0 < scrollback_count s \<and> scroll_offset s < int (scrollback_count s)")
  case True
  assume "sb_wf s"
  with True show ?thesis by (simp add: scroll_up_eq redraw_wf scrolled_wf)
next
  case False
  assume w: "sb_wf s"
  then have "scrollback_count s = 0 \<or> scroll_offset s = int (scrollback_count s)" using False by (auto simp: sb_wf_def)
  with w show ?thesis by (simp add: scroll_up_stays)
qed

lemma restore_wf:
  assumes "sb_wf s" and "scroll_offset s > 0"
  shows "sb_wf (restore_saved_screen (s\<lparr>scroll_offset := 0\<rparr>))"
  using assms rows_ok_concat [of 25 "saved_screen s"] by (auto simp: sb_wf_def restore_saved_screen_def)

lemma scroll_down_wf: "sb_wf s \<Longrightarrow> sb_wf (scrollback_scroll_down s)"
  by (auto simp: scrollback_scroll_down_def intro!: restore_wf redraw_wf) (auto simp: sb_wf_def)

lemma reset_wf: "sb_wf s \<Longrightarrow> sb_wf (scrollback_reset s)"
  by (simp add: scrollback_reset_def restore_wf)

section \<open>The ring as a list\<close>

definition ring_index :: "nat \<Rightarrow> nat \<Rightarrow> nat \<Rightarrow> nat" where
  "ring_index wp n i = (wp + 500 - n + i) mod 500"

definition sb_lines :: "scroll_state \<Rightarrow> u16 list list" where
  "sb_lines s = map (\<lambda>i. scrollback_buffer s ! ring_index (scrollback_write_pos s) (scrollback_count s) i)
     [0..<scrollback_count s]"

lemma ring_index_last: "wp < 500 \<Longrightarrow> n \<le> 500 \<Longrightarrow> ring_index wp n n = wp"
  by (simp add: ring_index_def)

lemma ring_index_other: "wp < 500 \<Longrightarrow> n \<le> 500 \<Longrightarrow> i < n \<Longrightarrow> (n < 500 \<or> 0 < i) \<Longrightarrow> ring_index wp n i \<noteq> wp"
proof
  assume a: "wp < 500" "n \<le> 500" "i < n" "n < 500 \<or> 0 < i" "ring_index wp n i = wp"
  show False
  proof (cases "wp + 500 - n + i < 500")
    case True
    with a(5) have "wp + 500 - n + i = wp" by (simp add: ring_index_def)
    with a show False by arith
  next
    case False
    then have "(wp + 500 - n + i) mod 500 = wp + 500 - n + i - 500"
      using a by (simp add: le_mod_geq)
    with a(5) have "wp + 500 - n + i - 500 = wp" by (simp add: ring_index_def)
    with a False show False by arith
  qed
qed

lemma ring_index_push:
  assumes "wp < 500" and "n < 500"
  shows "ring_index ((wp + 1) mod 500) (n + 1) i = ring_index wp n i"
proof (cases "wp = 499")
  case True
  have e: "wp + 500 - n + i = (0 + 500 - (n + 1) + i) + 500" using assms True by arith
  have "(wp + 1) mod 500 = 0" using True by simp
  then show ?thesis unfolding ring_index_def e mod_add_self2 by simp
next
  case False
  then have "(wp + 1) mod 500 + 500 - (n + 1) = wp + 500 - n" using assms by simp
  then show ?thesis by (simp only: ring_index_def)
qed

lemma ring_index_full:
  assumes "wp < 500"
  shows "ring_index ((wp + 1) mod 500) 500 i = ring_index wp 500 (i + 1)"
  by (simp add: ring_index_def mod_simps)

lemma push_row_lines:
  assumes "sb_wf s" and "length row = 80"
  shows "sb_lines (push_row row s) = keep_last 500 (sb_lines s @ [row])"
proof -
  define wp n b where "wp = scrollback_write_pos s" and "n = scrollback_count s" and "b = scrollback_buffer s"
  have w: "wp < 500" "n \<le> 500" "length b = 500" using assms(1) by (auto simp: sb_wf_def rows_ok_def wp_def n_def b_def)
  show ?thesis
  proof (cases "n < 500")
    case True
    have "map (\<lambda>i. b[wp := row] ! ring_index wp n i) [0..<n] = map (\<lambda>i. b ! ring_index wp n i) [0..<n]"
      using ring_index_other [OF w(1,2), THEN not_sym] True by (intro map_cong refl nth_list_update_neq) auto
    moreover have "b[wp := row] ! ring_index wp n n = row" using ring_index_last [OF w(1,2)] w by simp
    ultimately have "map (\<lambda>i. b[wp := row] ! ring_index wp n i) [0..<n + 1] = map (\<lambda>i. b ! ring_index wp n i) [0..<n] @ [row]"
      by simp
    with True show ?thesis
      by (simp add: sb_lines_def push_row_def screen_consts ring_index_push [OF w(1), unfolded wp_def]
          n_def [symmetric] wp_def [symmetric] b_def [symmetric] ring_index_push [OF w(1) True, simplified])
  next
    case False
    then have n: "n = 500" using w(2) by simp
    have i: "[0..<500] = [0..<499] @ [499]" using upt_Suc_append [of 0 499] by simp
    have "map (\<lambda>i. b[wp := row] ! ring_index wp 500 (i + 1)) [0..<499] = map (\<lambda>i. b ! ring_index wp 500 (i + 1)) [0..<499]"
      using ring_index_other [OF w(1), of 500, THEN not_sym] by (intro map_cong refl nth_list_update_neq) auto
    moreover have "b[wp := row] ! ring_index wp 500 500 = row" using ring_index_last [OF w(1), of 500] w by simp
    ultimately have "map (\<lambda>i. b[wp := row] ! ring_index wp 500 (i + 1)) [0..<500] =
        map (\<lambda>i. b ! ring_index wp 500 (i + 1)) [0..<499] @ [row]"
      unfolding i by simp
    moreover have "drop 1 (map (\<lambda>i. b ! ring_index wp 500 i) [0..<500]) = map (\<lambda>i. b ! ring_index wp 500 (i + 1)) [0..<499]"
      by (rule nth_equalityI) auto
    ultimately show ?thesis
      by (simp add: sb_lines_def push_row_def screen_consts n_def [symmetric] wp_def [symmetric] b_def [symmetric] n
          ring_index_full [OF w(1), simplified] keep_last_def)
  qed
qed

interpretation ring: bounded_log push_row sb_lines "\<lambda>r. r" sb_wf "\<lambda>r. length r = 80" 500
proof
  fix s
  assume "sb_wf s"
  then show "length (sb_lines s) \<le> 500" by (simp add: sb_lines_def sb_wf_def)
qed (simp_all add: push_row_lines push_row_wf)

section \<open>What the screen shows\<close>

lemma redraw_rows:
  assumes "sb_wf s" and "0 < scrollback_count s" and "0 < scroll_offset s" and "y < 25" and "x < 80"
    and "\<not> (x = 79 \<and> (y = 0 \<or> y = 24))"
  shows "vga_row (vga (scrollback_redraw s)) y ! x =
    (sb_lines s @ saved_screen s) ! (scrollback_count s - nat (scroll_offset s) + y) ! x"
proof -
  let ?rows = "map (redraw_row s) [0..<25]"
  have ok: "rows_ok 25 ?rows" by (rule redraw_rows_ok [OF assms(1)])
  have w: "scroll_offset s \<le> int (scrollback_count s)" "screen_saved s" "length (saved_screen s) = 25"
    using assms(1,3) by (auto simp: sb_wf_def rows_ok_def)
  define k where "k = scrollback_count s - nat (scroll_offset s) + y"
  have k: "int (scrollback_count s) - scroll_offset s + int y = int k" using w(1) assms(3) by (simp add: k_def)
  have "y * 80 + x \<noteq> 79" "y * 80 + x \<noteq> 1999" using assms(4-6) by presburger+
  then have "vga_row (vga (scrollback_redraw s)) y ! x = concat ?rows ! (y * 80 + x)"
    using assms(2,3,5) by (simp add: vga_row_def scrollback_redraw_def screen_consts Let_def)
  also have "\<dots> = redraw_row s y ! x" using concat_nth [OF ok assms(4,5)] assms(4) by simp
  also have "redraw_row s y = (sb_lines s @ saved_screen s) ! k"
  proof (cases "k < scrollback_count s")
    case True
    then show ?thesis
      by (simp add: redraw_row_def Let_def k screen_consts sb_lines_def nth_append ring_index_def)
  next
    case False
    have "k - scrollback_count s < 25" using assms(3,4) w(1) by (auto simp: k_def)
    with False w show ?thesis
      by (simp add: redraw_row_def Let_def k screen_consts sb_lines_def nth_append)
  qed
  finally show ?thesis by (simp add: k_def)
qed

lemma scrolled_sel [simp]:
  "scrollback_count (scrolled s) = scrollback_count s" "sb_lines (scrolled s) = sb_lines s"
  "scroll_offset (scrolled s) = min (scroll_offset s + 5) (int (scrollback_count s))"
  by (simp_all add: scrolled_def save_current_screen_def sb_lines_def)

text \<open>The screen that scrolling hides: the saved copy, or the live screen when nothing is saved.\<close>

definition live_screen :: "scroll_state \<Rightarrow> u16 list" where
  "live_screen s = (if screen_saved s then concat (saved_screen s) else vga s)"

lemma live_scrolled: "sb_wf s \<Longrightarrow> 0 < scrollback_count s \<Longrightarrow> live_screen (scrolled s) = live_screen s"
  using concat_vga_rows [of "vga s"]
  by (cases "scroll_offset s = 0") (simp_all add: live_screen_def scrolled_def save_current_screen_def sb_wf_def screen_consts)

lemma live_scroll_up: "sb_wf s \<Longrightarrow> live_screen (scrollback_scroll_up s) = live_screen s"
proof (cases "0 < scrollback_count s \<and> scroll_offset s < int (scrollback_count s)")
  case True
  assume w: "sb_wf s"
  have "screen_saved (scrolled s)" using scrolled_wf [OF w] True w by (simp add: sb_wf_def)
  with True w show ?thesis using live_scrolled [OF w] by (simp add: scroll_up_eq live_screen_def)
next
  case False
  assume w: "sb_wf s"
  then have "scrollback_count s = 0 \<or> scroll_offset s = int (scrollback_count s)" using False by (auto simp: sb_wf_def)
  with w show ?thesis by (simp add: scroll_up_stays)
qed

lemma live_restored: "sb_wf s \<Longrightarrow> 0 < scroll_offset s \<Longrightarrow>
   live_screen (restore_saved_screen (s\<lparr>scroll_offset := 0\<rparr>)) = live_screen s \<and>
   vga (restore_saved_screen (s\<lparr>scroll_offset := 0\<rparr>)) = live_screen s"
  by (simp add: live_screen_def restore_saved_screen_def sb_wf_def)

lemma live_redraw: "screen_saved s \<Longrightarrow> live_screen (scrollback_redraw s) = live_screen s"
  by (simp add: live_screen_def)

lemma live_scroll_down: "sb_wf s \<Longrightarrow> live_screen (scrollback_scroll_down s) = live_screen s"
  using live_restored [of s] live_redraw [of "s\<lparr>scroll_offset := scroll_offset s - 5\<rparr>"]
  by (auto simp: scrollback_scroll_down_def sb_wf_def) (simp add: live_screen_def)

section \<open>Properties\<close>

text \<open>
  C28.  The ring buffer implements the list of the last 500 lines: after any sequence of saved
  lines the buffer, read from its oldest slot, holds the last 500 of them, and capturing the top
  screen line appends that line.
\<close>
theorem scrollback_keeps_last_500:
  assumes "sb_wf s" and "\<forall>r \<in> set rows. length r = 80"
  shows "sb_lines (fold push_row rows s) = keep_last 500 (sb_lines s @ rows) \<and>
    sb_lines (scrollback_capture_line s) = keep_last 500 (sb_lines s @ [vga_row (vga s) 0])"
  using ring.pushes_view [OF assms] push_row_lines [OF assms(1)] by (simp add: scrollback_capture_line_def)

definition empty_scroll :: scroll_state where
  "empty_scroll = \<lparr>scrollback_buffer = replicate 500 (replicate 80 0), scrollback_write_pos = 0, scrollback_count = 0,
     scroll_offset = 0, saved_screen = replicate 25 (replicate 80 0), screen_saved = False, vga = replicate 2000 0x0720\<rparr>"

lemma empty_scroll_wf: "sb_wf empty_scroll"
  by (simp add: sb_wf_def empty_scroll_def rows_ok_def)

theorem scrollback_keeps_last_500_witness:
  "sb_lines (fold push_row [replicate 80 65, replicate 80 66] empty_scroll) =
     keep_last 500 (sb_lines empty_scroll @ [replicate 80 65, replicate 80 66])"
  using scrollback_keeps_last_500 [OF empty_scroll_wf, of "[replicate 80 65, replicate 80 66]"] by simp

text \<open>
  C33.  Scrolling up moves the view five lines, or to the oldest line, towards the past: the
  screen then shows the window of the document made of the stored lines followed by the live
  screen that ends as many lines before its end as the offset says, apart from the two marks in
  the last column.
\<close>
theorem scroll_up_shows_window:
  assumes "sb_wf s" and "scroll_offset s < int (scrollback_count s)" and "y < 25" and "x < 80"
    and "\<not> (x = 79 \<and> (y = 0 \<or> y = 24))"
  shows "scroll_offset (scrollback_scroll_up s) = min (scroll_offset s + 5) (int (scrollback_count s)) \<and>
    vga_row (vga (scrollback_scroll_up s)) y ! x =
      (sb_lines s @ map (vga_row (live_screen s)) [0..<25]) !
        (scrollback_count s - nat (min (scroll_offset s + 5) (int (scrollback_count s))) + y) ! x"
proof -
  have c: "0 < scrollback_count s" using assms(1,2) by (auto simp: sb_wf_def)
  have w: "sb_wf (scrolled s)" by (rule scrolled_wf [OF assms(1) c])
  have o: "0 < scroll_offset (scrolled s)" using assms(1) c by (auto simp: sb_wf_def)
  have sv: "rows_ok 25 (saved_screen (scrolled s))" "screen_saved (scrolled s)" using w o by (auto simp: sb_wf_def)
  have "map (vga_row (live_screen s)) [0..<25] = saved_screen (scrolled s)"
    unfolding live_scrolled [OF assms(1) c, symmetric]
    using vga_row_concat [OF sv(1)] sv by (intro nth_equalityI) (auto simp: live_screen_def rows_ok_def)
  then show ?thesis
    using redraw_rows [OF w _ o assms(3-5)] c scroll_up_eq [OF assms(1) c assms(2)] by simp
qed

theorem scroll_up_shows_window_witness:
  "vga_row (vga (scrollback_scroll_up (push_row (replicate 80 65) empty_scroll))) 0 ! 5 = 65 \<and>
    scroll_offset (scrollback_scroll_up (push_row (replicate 80 65) empty_scroll)) = 1"
proof -
  let ?s = "push_row (replicate 80 65) empty_scroll"
  have s: "sb_wf ?s" by (intro push_row_wf empty_scroll_wf) simp
  have n: "scroll_offset ?s = 0" "scrollback_count ?s = 1" by (simp_all add: push_row_def empty_scroll_def screen_consts)
  have "sb_lines empty_scroll = []" by (simp add: sb_lines_def empty_scroll_def)
  then have "sb_lines ?s = [replicate 80 65]"
    using push_row_lines [OF empty_scroll_wf, of "replicate 80 65"] by (simp add: keep_last_def)
  then show ?thesis using scroll_up_shows_window [OF s, of 0 5] n by simp
qed

text \<open>
  Leaving the scrollback restores the live screen: after any number of scrolls up and
  down, the reset shows the screen that was there before and the view is at the end.
\<close>
theorem scrolling_restores_screen:
  assumes "sb_wf s" and "scroll_offset s = 0" and "set moves \<subseteq> {scrollback_scroll_up, scrollback_scroll_down}"
  shows "vga (scrollback_reset (fold (\<lambda>f. f) moves s)) = vga s \<and>
    \<not> scrollback_is_active (scrollback_reset (fold (\<lambda>f. f) moves s)) \<and> sb_wf (scrollback_reset (fold (\<lambda>f. f) moves s))"
proof -
  have inv: "sb_wf (fold (\<lambda>f. f) moves s) \<and> live_screen (fold (\<lambda>f. f) moves s) = live_screen s"
    if "sb_wf s" "set moves \<subseteq> {scrollback_scroll_up, scrollback_scroll_down}" for s
    using that
  proof (induction moves arbitrary: s)
    case (Cons f fs)
    then have "f = scrollback_scroll_up \<or> f = scrollback_scroll_down" by auto
    then have "sb_wf (f s) \<and> live_screen (f s) = live_screen s"
      using Cons.prems by (auto simp: scroll_up_wf scroll_down_wf live_scroll_up live_scroll_down)
    with Cons.IH [of "f s"] Cons.prems(2) show ?case by simp
  qed simp
  define s' where "s' = fold (\<lambda>f. f) moves s"
  have s': "sb_wf s'" "live_screen s' = live_screen s" using inv [OF assms(1,3)] by (simp_all add: s'_def)
  have "live_screen s = vga s" using assms(1,2) by (simp add: live_screen_def sb_wf_def)
  then have "vga (scrollback_reset s') = vga s"
    using live_restored [OF s'(1)] s' by (cases "scroll_offset s' > 0") (auto simp: scrollback_reset_def live_screen_def sb_wf_def)
  moreover have "\<not> scrollback_is_active (scrollback_reset s')"
    by (simp add: scrollback_is_active_def scrollback_reset_def restore_saved_screen_def)
  ultimately show ?thesis using reset_wf [OF s'(1)] by (simp add: s'_def)
qed

theorem scrolling_restores_screen_witness:
  "vga (scrollback_reset (fold (\<lambda>f. f) [scrollback_scroll_up, scrollback_scroll_up, scrollback_scroll_down] empty_scroll)) =
     vga empty_scroll"
  using scrolling_restores_screen [OF empty_scroll_wf, of "[scrollback_scroll_up, scrollback_scroll_up, scrollback_scroll_down]"]
  by (simp add: empty_scroll_def)

end
