(* ===== verification/Net_Checksum.thy ===== *)
theory Net_Checksum
  imports FS_Disk
begin

text \<open>
  Byte order and the Internet checksum of \<^verbatim>\<open>src/src/tcp_ip_stack.c\<close>: \<^verbatim>\<open>htons\<close>, \<^verbatim>\<open>htonl\<close>,
  \<^verbatim>\<open>ip_checksum\<close>, which adds 16-bit words in memory order and folds twice, and \<^verbatim>\<open>tcp_checksum\<close>,
  which adds them in network order with the pseudo-header and folds until nothing is left to
  fold.  Fields are stored little-endian (\<open>le16\<close>, \<open>le32\<close>), as the processor does.  The arithmetic
  is that of the numbers modulo 65535.
\<close>

section \<open>Byte order\<close>

definition htons :: "u16 \<Rightarrow> u16" where
  "htons x = push_bit 8 x OR drop_bit 8 x"

definition htonl :: "u32 \<Rightarrow> u32" where
  "htonl x = push_bit 24 x OR push_bit 8 (x AND 0xFF00) OR drop_bit 8 (x AND 0xFF0000) OR drop_bit 24 x"

lemma htons_htons [simp]: "htons (htons x) = x"
  by (rule bit_word_eqI) (auto simp: htons_def bit_simps)

lemma byte_mask: "(0xFF00 :: u32) = push_bit 8 (mask 8)" "(0xFF0000 :: u32) = push_bit 16 (mask 8)"
  by (simp_all add: mask_eq_exp_minus_1 push_bit_eq_mult)

lemma htonl_htonl [simp]: "htonl (htonl x) = x"
proof (rule bit_word_eqI)
  fix n
  assume "n < LENGTH(32)"
  then show "bit (htonl (htonl x)) n = bit x n"
    unfolding htonl_def byte_mask by (cases "n < 8"; cases "n < 16"; cases "n < 24") (auto simp: bit_simps dest: bit_imp_le_length)
qed

definition be16 :: "u16 \<Rightarrow> u8 list" where
  "be16 x = [ucast (drop_bit 8 x), ucast x]"

definition be32 :: "u32 \<Rightarrow> u8 list" where
  "be32 x = [ucast (drop_bit 24 x), ucast (drop_bit 16 x), ucast (drop_bit 8 x), ucast x]"

lemma le16_htons: "le16 (htons x) = be16 x"
  by (simp add: le16_def htons_def be16_def) (auto intro!: bit_word_eqI simp: bit_simps)

lemma le32_htonl: "le32 (htonl x) = be32 x"
  unfolding le32_def htonl_def be32_def byte_mask by (auto intro!: bit_word_eqI simp: bit_simps)

section \<open>The checksums\<close>

fun sum_le :: "u8 list \<Rightarrow> u32 \<Rightarrow> u32" where
  "sum_le (a # b # bs) acc = sum_le bs (acc + ucast (un_le16 [a, b]))"
| "sum_le [a] acc = acc + ucast a"
| "sum_le [] acc = acc"

definition ip_checksum :: "u8 list \<Rightarrow> u16" where
  "ip_checksum data =
     (let sum0 = sum_le data 0;
          sum1 = drop_bit 16 sum0 + (sum0 AND 0xFFFF);
          sum2 = sum1 + drop_bit 16 sum1
      in ucast (NOT sum2))"

text \<open>\<^verbatim>\<open>(ptr[i] << 8) | ptr[i + 1]\<close>; an odd last byte is the high byte of its word.\<close>

definition be_word :: "u8 \<Rightarrow> u8 \<Rightarrow> u16" where
  "be_word a b = push_bit 8 (ucast a) OR ucast b"

fun sum_be :: "u8 list \<Rightarrow> u32 \<Rightarrow> u32" where
  "sum_be (a # b # bs) acc = sum_be bs (acc + ucast (be_word a b))"
| "sum_be [a] acc = acc + ucast (be_word a 0)"
| "sum_be [] acc = acc"

function fold_carry :: "u32 \<Rightarrow> u32" where
  "fold_carry acc = (if drop_bit 16 acc \<noteq> 0 then fold_carry ((acc AND 0xFFFF) + drop_bit 16 acc) else acc)"
  by pat_completeness auto

lemma mask16: "(0xFFFF :: u32) = mask 16"
  by (simp add: mask_eq_exp_minus_1)

lemma unat_high: "unat (drop_bit 16 (s :: u32)) = unat s div 65536"
  by (simp add: unat_drop_bit_eq drop_bit_eq_div unat_div)

lemma unat_low: "unat (s AND 0xFFFF :: u32) = unat s mod 65536"
  unfolding mask16 by (simp add: unsigned_take_bit_eq take_bit_eq_mod unat_mod flip: take_bit_eq_mask)

lemma unat_u32_bound: "unat (s :: u32) < 4294967296"
  using unsigned_less [of s] by simp

lemma unat_folded: "unat ((s AND 0xFFFF) + drop_bit 16 s :: u32) = unat s div 65536 + unat s mod 65536"
proof -
  have "unat s div 65536 < 65536" "unat s mod 65536 < 65536"
    using unat_u32_bound [of s] by (simp_all add: less_mult_imp_div_less)
  then have "unat (s AND 0xFFFF) + unat (drop_bit 16 s) < 2 ^ 32" by (simp add: unat_high unat_low)
  then have "unat ((s AND 0xFFFF) + drop_bit 16 s) = unat (s AND 0xFFFF) + unat (drop_bit 16 s)"
    by (simp add: unat_word_ariths)
  then show ?thesis by (simp add: unat_high unat_low)
qed

termination fold_carry
proof (relation "measure unat")
  fix s :: u32
  assume "drop_bit 16 s \<noteq> 0"
  then have "unat s div 65536 \<noteq> 0" by (metis unat_high unat_eq_zero)
  moreover have "unat s = 65536 * (unat s div 65536) + unat s mod 65536" by simp
  ultimately have "unat s div 65536 + unat s mod 65536 < unat s" by linarith
  then show "((s AND 0xFFFF) + drop_bit 16 s, s) \<in> measure unat" by (simp add: unat_folded)
qed simp

declare fold_carry.simps [simp del]

definition pseudo_header :: "u32 \<Rightarrow> u32 \<Rightarrow> u16 \<Rightarrow> u8 list" where
  "pseudo_header src_ip dest_ip len = le32 (htonl src_ip) @ le32 (htonl dest_ip) @ [0, 6] @ le16 (htons len)"

text \<open>\<open>data\<close> has \<open>len\<close> bytes; \<^verbatim>\<open>len\<close> is a \<^verbatim>\<open>uint16_t\<close>.\<close>

definition tcp_checksum :: "u32 \<Rightarrow> u32 \<Rightarrow> u8 list \<Rightarrow> u16" where
  "tcp_checksum src_ip dest_ip data =
     (let acc = sum_be data (sum_be (pseudo_header src_ip dest_ip (of_nat (length data))) 0)
      in htons (ucast (NOT (fold_carry acc))))"

section \<open>Sums as natural numbers\<close>

fun nsum_le :: "u8 list \<Rightarrow> nat" where
  "nsum_le (a # b # bs) = unat a + 256 * unat b + nsum_le bs"
| "nsum_le [a] = unat a"
| "nsum_le [] = 0"

fun nsum_be :: "u8 list \<Rightarrow> nat" where
  "nsum_be (a # b # bs) = 256 * unat a + unat b + nsum_be bs"
| "nsum_be [a] = 256 * unat a"
| "nsum_be [] = 0"

lemma unat_u16_bound: "unat (w :: u16) < 65536"
  using unsigned_less [of w] by simp

lemma bytes_word:
  "unat (un_le16 [a, b]) = unat a + 256 * unat b" "unat (be_word a b) = 256 * unat a + unat b"
proof -
  have x8: "\<not> bit x n" if "8 \<le> n" for x :: u8 and n
    using bit_imp_le_length [of x n] that by auto
  have d: "(ucast x :: u16) AND push_bit 8 (ucast y) = 0" "push_bit 8 (ucast y :: u16) AND ucast x = 0" for x y :: u8
    by (auto intro!: bit_word_eqI simp: bit_simps x8)
  have n: "unat (ucast x :: u16) = unat x" for x :: u8 using u8_bound [of x] by (simp add: unsigned_ucast_eq take_bit_eq_mod)
  have p: "unat (push_bit 8 (ucast x :: u16)) = 256 * unat x" for x :: u8
    using u8_bound [of x] by (simp add: push_bit_eq_mult unat_word_ariths n)
  show "unat (un_le16 [a, b]) = unat a + 256 * unat b" "unat (be_word a b) = 256 * unat a + unat b"
    using u8_bound [of a] u8_bound [of b]
    by (simp_all add: un_le16_def be_word_def disjunctive_add_eq_or [OF d(1), symmetric]
        disjunctive_add_eq_or [OF d(2), symmetric] unat_word_ariths n p)
qed

lemma nsum_bound: "nsum_le bs \<le> 65535 * length bs" "nsum_be bs \<le> 65535 * length bs"
proof (induction bs rule: nsum_le.induct)
  case (1 a b bs)
  { case 1 show ?case using "1.IH" u8_bound [of a] u8_bound [of b] by simp }
  { case 2 show ?case using "1.IH" u8_bound [of a] u8_bound [of b] by simp }
next
  case (2 a)
  { case 1 show ?case using u8_bound [of a] by simp }
  { case 2 show ?case using u8_bound [of a] by simp }
qed simp_all

lemma unat_ucast_u16: "unat (ucast (w :: u16) :: u32) = unat w"
  using unat_u16_bound [of w] by (simp add: unsigned_ucast_eq take_bit_eq_mod)

lemma sum_le_nat: "unat s + nsum_le bs < 4294967296 \<Longrightarrow> unat (sum_le bs s) = unat s + nsum_le bs"
proof (induction bs s rule: sum_le.induct)
  case (1 a b bs s)
  have "unat (s + ucast (un_le16 [a, b])) = unat s + (unat a + 256 * unat b)"
    using "1.prems" by (simp add: unat_word_ariths unat_ucast_u16 bytes_word)
  with 1 show ?case by simp
next
  case (2 a s)
  have "unat (ucast a :: u32) = unat a" using u8_bound [of a] by (simp add: unsigned_ucast_eq take_bit_eq_mod)
  with 2 show ?case by (simp add: unat_word_ariths)
qed simp

lemma sum_be_nat: "unat s + nsum_be bs < 4294967296 \<Longrightarrow> unat (sum_be bs s) = unat s + nsum_be bs"
proof (induction bs s rule: sum_be.induct)
  case (1 a b bs s)
  have "unat (s + ucast (be_word a b)) = unat s + (256 * unat a + unat b)"
    using "1.prems" by (simp add: unat_word_ariths unat_ucast_u16 bytes_word)
  with 1 show ?case by simp
next
  case (2 a s)
  then show ?case by (simp add: unat_word_ariths unat_ucast_u16 bytes_word)
qed simp

section \<open>Folding\<close>

text \<open>The folded sum: the representative of the sum modulo 65535 that is 0 only for the sum 0.\<close>

definition fold16 :: "nat \<Rightarrow> nat" where
  "fold16 n = (if n = 0 then 0 else (n - 1) mod 65535 + 1)"

lemma fold16_le: "fold16 n \<le> 65535"
proof (cases "n = 0")
  case False
  have "(n - 1) mod 65535 < 65535" by (rule mod_less_divisor) simp
  then have "(n - 1) mod 65535 + 1 \<le> 65535" by linarith
  with False show ?thesis by (simp only: fold16_def if_False)
qed (simp add: fold16_def)

lemma fold16_id: "n \<le> 65535 \<Longrightarrow> fold16 n = n"
  by (cases n) (simp_all add: fold16_def)

lemma pred_mod_cong:
  assumes "0 < k" and "k \<le> n" and "n mod m = k mod (m :: nat)"
  shows "(n - 1) mod m = (k - 1) mod m"
proof -
  obtain q where "n = k + m * q" using assms(2,3) by (metis mod_eq_nat1E)
  then have "n - 1 = (k - 1) + m * q" using assms(1) by simp
  then show ?thesis by simp
qed

lemma fold16_cong:
  assumes "n mod 65535 = k mod 65535" and "n = 0 \<longleftrightarrow> k = 0"
  shows "fold16 n = fold16 k"
proof (cases "n = 0")
  case False
  then have "(n - 1) mod 65535 = (k - 1) mod 65535"
    using pred_mod_cong [of k n 65535] pred_mod_cong [of n k 65535] assms by (cases "k \<le> n") auto
  with assms(2) False show ?thesis by (simp add: fold16_def)
qed (use assms(2) in simp)

lemma fold16_step: "fold16 (n div 65536 + n mod 65536) = fold16 n"
proof -
  define q r where "q = n div 65536" and "r = n mod 65536"
  have n: "n = 65535 * q + (q + r)"
    using mult_div_mod_eq [of 65536 n] unfolding q_def [symmetric] r_def [symmetric] by linarith
  have "fold16 (q + r) = fold16 (65535 * q + (q + r))" 
    by (rule fold16_cong) (simp only: mod_mult_self4, simp)
  then show ?thesis unfolding q_def [symmetric] r_def [symmetric] n [symmetric] .
qed

lemma fold_carry_fold16: "unat (fold_carry s) = fold16 (unat s)"
proof (induction s rule: fold_carry.induct)
  case (1 s)
  show ?case
  proof (cases "drop_bit 16 s = 0")
    case True
    then have "unat s div 65536 = 0" by (metis unat_high unat_0)
    then have "unat s \<le> 65535" by (simp add: div_eq_0_iff)
    with True show ?thesis by (simp add: fold_carry.simps [of s] fold16_id)
  next
    case False
    with 1 show ?thesis by (simp add: fold_carry.simps [of s] unat_folded fold16_step)
  qed
qed

text \<open>Complement in 16 bits.\<close>

lemma unat_not_u16: "unat (NOT w :: u16) = 65535 - unat w"
proof -
  have "NOT w = 65535 - w" by (simp add: not_eq_complement)
  moreover have "w \<le> 65535" using unat_u16_bound [of w] by (simp add: word_le_nat_alt)
  ultimately show ?thesis by (simp add: unat_sub)
qed

lemma unat_not_low: "unat (ucast (NOT s :: u32) :: u16) = 65535 - unat s mod 65536"
proof -
  have "ucast (NOT s) = (NOT (ucast s) :: u16)" by (rule bit_word_eqI) (simp add: bit_simps)
  moreover have "unat (ucast s :: u16) = unat s mod 65536" by (simp add: unsigned_ucast_eq take_bit_eq_mod)
  ultimately show ?thesis by (simp add: unat_not_u16)
qed

lemma ip_checksum_nat:
  assumes "nsum_le bs < 4294967296"
  shows "unat (ip_checksum bs) = 65535 - fold16 (nsum_le bs)"
proof -
  define s0 s1 where "s0 = sum_le bs 0" and "s1 = drop_bit 16 s0 + (s0 AND 0xFFFF)"
  have n0: "unat s0 = nsum_le bs" using sum_le_nat [of 0 bs] assms by (simp add: s0_def)
  have n1: "unat s1 = unat s0 div 65536 + unat s0 mod 65536" using unat_folded [of s0] by (simp add: s1_def add.commute)
  have "unat s0 div 65536 < 65536" "unat s0 mod 65536 < 65536"
    using unat_u32_bound [of s0] by (simp_all add: less_mult_imp_div_less)
  then have b: "unat s1 < 131071" unfolding n1 by linarith
  have low: "unat (s1 + drop_bit 16 s1) mod 65536 = fold16 (unat s1)"
  proof (cases "unat s1 < 65536")
    case True
    then have "unat (drop_bit 16 s1) = 0" by (simp add: unat_high)
    then show ?thesis using True by (simp add: unat_word_ariths fold16_id)
  next
    case False
    then have "unat (drop_bit 16 s1) = 1" using b by (simp add: unat_high)
    then have "unat (s1 + drop_bit 16 s1) = unat s1 + 1" using b by (simp add: unat_word_ariths)
    moreover have "fold16 (unat s1) = unat s1 - 65535" using False b
      by (simp add: fold16_def le_mod_geq)
    ultimately show ?thesis using False b by (simp add: le_mod_geq)
  qed
  have "unat (ip_checksum bs) = 65535 - unat (s1 + drop_bit 16 s1) mod 65536"
    unfolding ip_checksum_def Let_def s0_def [symmetric] s1_def [symmetric] by (rule unat_not_low)
  then show ?thesis using low fold16_step [of "unat s0"] n0 n1 by simp
qed

section \<open>Sums of concatenations\<close>

lemma nsum_append:
  "even (length a) \<Longrightarrow> nsum_le (a @ b) = nsum_le a + nsum_le b"
  "even (length a) \<Longrightarrow> nsum_be (a @ b) = nsum_be a + nsum_be b"
  by (induction a rule: nsum_le.induct) auto

lemma nsum_zero: "nsum_be bs = 0 \<longleftrightarrow> nsum_le bs = 0"
  by (induction bs rule: nsum_le.induct) auto

lemma nsum_swap: "nsum_be bs mod 65535 = (256 * nsum_le bs) mod 65535"
proof (induction bs rule: nsum_le.induct)
  case (1 a b bs)
  have "256 * nsum_le (a # b # bs) = 65535 * unat b + (256 * unat a + unat b + 256 * nsum_le bs)" by simp
  then have "(256 * nsum_le (a # b # bs)) mod 65535 = (256 * unat a + unat b + 256 * nsum_le bs) mod 65535"
    by (simp only: mod_mult_self4)
  also have "\<dots> = (256 * unat a + unat b + nsum_be bs) mod 65535" using 1 by (metis mod_add_right_eq)
  finally show ?case by simp
qed simp_all

lemma unat_of_bytes: "unat (ucast w :: u8) + 256 * unat (ucast (drop_bit 8 w) :: u8) = unat (w :: u16)"
proof -
  have "un_le16 (le16 w) = w" using un_le16_le16 [of w "[]"] by simp
  then show ?thesis using bytes_word(1) [of "ucast w" "ucast (drop_bit 8 w)"] by (simp add: le16_def)
qed

lemma nsum_le16: "nsum_le (le16 w @ b) = unat w + nsum_le b"
  by (simp add: le16_def unat_of_bytes)

lemma htons_fold16: "unat (htons w) = fold16 (256 * unat w)"
proof -
  define a b where "a = (ucast w :: u8)" and "b = (ucast (drop_bit 8 w) :: u8)"
  have w: "unat w = unat a + 256 * unat b" using unat_of_bytes [of w] by (simp add: a_def b_def)
  have "htons w = be_word a b"
  proof (rule bit_word_eqI)
    fix n
    assume "n < LENGTH(16)"
    then have n: "n < 16" by simp
    show "bit (htons w) n = bit (be_word a b) n"
    proof (cases "n < 8")
      case True
      then show ?thesis using n by (simp add: htons_def be_word_def a_def b_def bit_simps)
    next
      case False
      then have "n - 8 < 8" "\<not> bit w (8 + n)" using n bit_imp_le_length [of w "8 + n"] by auto
      then show ?thesis using n False by (auto simp: htons_def be_word_def a_def b_def bit_simps)
    qed
  qed
  then have h: "unat (htons w) = 256 * unat a + unat b" by (simp add: bytes_word)
  have "fold16 (256 * unat w) = fold16 (65535 * unat b + (256 * unat a + unat b))" by (simp add: w add.commute)
  also have "\<dots> = fold16 (256 * unat a + unat b)" by (rule fold16_cong) (simp only: mod_mult_self4, auto)
  also have "\<dots> = 256 * unat a + unat b"
    using u8_bound [of a] u8_bound [of b] by (intro fold16_id) simp
  finally show ?thesis using h by simp
qed

section \<open>Properties\<close>

text \<open>
  C10.  The checksum verifies: when \<^verbatim>\<open>ip_checksum\<close> of a block of at most 65535 bytes whose
  checksum field is zero is stored in that field, at an even offset, the checksum of the whole
  block is zero, which is what a receiver tests.
\<close>
theorem ip_checksum_verifies:
  assumes "even (length a)" and "length a + length b + 2 \<le> 65535"
  shows "ip_checksum (a @ le16 (ip_checksum (a @ [0, 0] @ b)) @ b) = 0"
proof -
  define S c where "S = nsum_le (a @ [0, 0] @ b)" and "c = ip_checksum (a @ [0, 0] @ b)"
  have Sb: "S \<le> 65535 * 65535"
  proof -
    have "65535 * length (a @ [0, 0] @ b) \<le> 65535 * 65535" using assms(2) by simp
    with nsum_bound(1) [of "a @ [0, 0] @ b"] show ?thesis unfolding S_def by linarith
  qed
  have "unat c = 65535 - fold16 S" unfolding c_def S_def using Sb by (intro ip_checksum_nat) (simp add: S_def)
  then have c: "unat c + fold16 S = 65535" using fold16_le [of S] by simp
  have "nsum_le (a @ le16 c @ b) = S + unat c"
    using assms(1) by (simp add: nsum_append(1) nsum_le16 S_def)
  moreover have "fold16 (S + unat c) = 65535"
  proof (cases "S = 0")
    case True
    then show ?thesis using c by (simp add: fold16_def)
  next
    case False
    define q r where "q = (S - 1) div 65535" and "r = (S - 1) mod 65535"
    have "S - 1 = 65535 * q + r" unfolding q_def r_def by simp
    moreover have "unat c + (r + 1) = 65535" using c False by (simp add: fold16_def r_def)
    ultimately have "S + unat c - 1 = 65535 * q + 65534" using False by linarith
    then have "(S + unat c - 1) mod 65535 = 65534 mod 65535" by (simp only: mod_mult_self4)
    then have "(S + unat c - 1) mod 65535 = 65534" by simp
    with False show ?thesis by (simp add: fold16_def)
  qed
  ultimately have "unat (ip_checksum (a @ le16 c @ b)) = 0"
    using ip_checksum_nat [of "a @ le16 c @ b"] Sb c by simp
  then show ?thesis unfolding c_def by (simp add: unat_eq_zero)
qed

theorem ip_checksum_verifies_witness:
  "ip_checksum ([0x45, 0, 0, 28] @ le16 (ip_checksum ([0x45, 0, 0, 28] @ [0, 0] @ [10, 0, 2, 15])) @ [10, 0, 2, 15]) = 0"
  by (rule ip_checksum_verifies) simp_all

text \<open>
  C11.  The two checksum routines agree: \<^verbatim>\<open>tcp_checksum\<close>, which adds the words of pseudo-header
  and segment in network order and swaps the result, returns what \<^verbatim>\<open>ip_checksum\<close>, which adds
  them in memory order, returns on the pseudo-header followed by the segment.
\<close>
theorem tcp_checksum_is_ip_checksum:
  assumes "length data \<le> 65523"
  shows "tcp_checksum src dst data = ip_checksum (pseudo_header src dst (of_nat (length data)) @ data)"
proof -
  define ph L B where "ph = pseudo_header src dst (of_nat (length data))"
    and "L = nsum_le (ph @ data)" and "B = nsum_be (ph @ data)"
  have len: "length ph = 12" by (simp add: ph_def pseudo_header_def le32_def le16_def)
  have "65535 * length (ph @ data) \<le> 65535 * 65535" using len assms by simp
  then have bounds: "L < 4294967296" "B < 4294967296"
    using nsum_bound [of "ph @ data"] unfolding L_def B_def by linarith+
  define s where "s = sum_be data (sum_be ph 0)"
  have "nsum_be ph + nsum_be data = B" using len by (simp add: B_def nsum_append(2))
  then have "unat s = B" using sum_be_nat [of 0 ph] sum_be_nat [of "sum_be ph 0" data] bounds by (simp add: s_def)
  then have f: "unat (fold_carry s) = fold16 B" by (simp add: fold_carry_fold16)
  have n: "htons (ucast (NOT x)) = NOT (htons (ucast (x :: u32)))" for x
    unfolding htons_def by (auto intro!: bit_word_eqI simp: bit_simps dest: bit_imp_le_length)
  have "unat (ucast (fold_carry s) :: u16) = fold16 B"
    using f fold16_le [of B] by (simp add: unsigned_ucast_eq take_bit_eq_mod)
  then have "unat (htons (ucast (fold_carry s))) = fold16 (256 * fold16 B)" by (simp add: htons_fold16)
  also have "\<dots> = fold16 L"
  proof (rule fold16_cong)
    have "fold16 B mod 65535 = B mod 65535"
    proof (cases "B = 0")
      case False
      have "((B - 1) mod 65535 + 1) mod 65535 = (B - 1 + 1) mod 65535" by (rule mod_add_left_eq)
      with False show ?thesis by (simp add: fold16_def)
    qed (simp add: fold16_def)
    then have "(256 * fold16 B) mod 65535 = (256 * (256 * L)) mod 65535"
      using nsum_swap [of "ph @ data"] unfolding B_def [symmetric] L_def [symmetric] by (metis mod_mult_right_eq)
    also have "256 * (256 * L) = 65535 * L + L" by simp
    finally show "(256 * fold16 B) mod 65535 = L mod 65535" by (simp only: mod_mult_self4)
    show "(256 * fold16 B = 0) = (L = 0)" using nsum_zero [of "ph @ data"] by (simp add: B_def L_def fold16_def)
  qed
  finally have h: "unat (htons (ucast (fold_carry s))) = fold16 L" .
  have "unat (tcp_checksum src dst data) = 65535 - fold16 L"
    by (simp add: tcp_checksum_def Let_def ph_def [symmetric] s_def [symmetric] n h unat_not_u16)
  also have "\<dots> = unat (ip_checksum (ph @ data))" using ip_checksum_nat [of "ph @ data"] bounds by (simp add: L_def)
  finally show ?thesis unfolding ph_def by (rule unsigned_word_eqI)
qed

theorem tcp_checksum_is_ip_checksum_witness:
  "tcp_checksum 0x0A00020F 0x0A000202 [0x27, 0x10, 0, 80, 1] =
     ip_checksum (pseudo_header 0x0A00020F 0x0A000202 (of_nat (length [0x27, 0x10, 0, 80, 1 :: u8])) @ [0x27, 0x10, 0, 80, 1])"
  by (rule tcp_checksum_is_ip_checksum) simp

end
