(* ===== verification/Net_Iface.thy ===== *)
theory Net_Iface
  imports Net_Checksum
begin

text \<open>
  The interface layer \<^verbatim>\<open>src/src/network_interface.c\<close> and the lower half of
  \<^verbatim>\<open>src/src/tcp_ip_stack.c\<close>: interfaces, the ARP cache, the sending of IP packets and of pings.

  A pointer to an interface is its index in the table.  The driver's function pointers are
  options; the driver acts on a world \<open>'w\<close> of its own: sending takes a frame and returns a
  code, receiving takes the buffer's size and returns a code and the bytes it wrote.  What the
  code prints is the trace \<open>n_log\<close>.  Reading or writing outside a buffer is \<open>Fault\<close>.
\<close>

section \<open>State\<close>

record 'w iface =
  if_name :: "u8 list"
  if_mac :: "u8 list"
  if_ip :: u32
  if_netmask :: u32
  if_gateway :: u32
  if_dns :: u32
  if_link_up :: bool
  tx_packets :: u64
  rx_packets :: u64
  tx_bytes :: u64
  rx_bytes :: u64
  tx_errors :: u64
  rx_errors :: u64
  send_packet :: "(u8 list \<Rightarrow> 'w \<Rightarrow> int \<times> 'w) option"
  recv_packet :: "(nat \<Rightarrow> 'w \<Rightarrow> (int \<times> u8 list) \<times> 'w) option"

record arp_entry =
  ae_ip :: u32
  ae_mac :: "u8 list"
  ae_valid :: bool

datatype tcp_state = TCP_CLOSED | TCP_SYN_SENT | TCP_ESTABLISHED | TCP_FIN_WAIT

record tcp_block =
  tc_state :: tcp_state
  tc_local_ip :: u32
  tc_remote_ip :: u32
  tc_local_port :: u16
  tc_remote_port :: u16
  tc_snd_nxt :: u32
  tc_rcv_nxt :: u32
  tc_rx_buffer :: "u8 list"
  tc_rx_len :: u32
  tc_rx_processed :: u32
  tc_has_data :: bool

record 'w net =
  n_ifaces :: "'w iface list"
  n_num :: nat
  n_default :: "nat option"
  n_arp :: "arp_entry list"
  n_shown :: bool
  n_tcp_count :: u32
  n_udp_count :: u32
  n_dns_host :: "u8 list"
  n_dns_ip :: u32
  n_tcb :: tcp_block
  n_xid :: u32
  n_offered_ip :: u32
  n_server_ip :: u32
  n_rx :: "u8 list"
  n_log :: "console_event list"
  n_world :: 'w

definition netlog :: "console_event list \<Rightarrow> 'w net \<Rightarrow> 'w net" where
  "netlog es st = st\<lparr>n_log := n_log st @ es\<rparr>"

text \<open>A reference state: a machine with one interface, whose driver keeps the frames it was given.\<close>

definition ref_iface :: "u8 list list iface" where
  "ref_iface = \<lparr>if_name = lit ''eth0'', if_mac = [0x52, 0x54, 0, 0x12, 0x34, 0x56], if_ip = 0x0A00020F,
     if_netmask = 0xFFFFFF00, if_gateway = 0x0A000202, if_dns = 0x0A000203, if_link_up = True,
     tx_packets = 0, rx_packets = 0, tx_bytes = 0, rx_bytes = 0, tx_errors = 0, rx_errors = 0,
     send_packet = Some (\<lambda>frame sent. (0, sent @ [frame])), recv_packet = Some (\<lambda>n sent. ((0, []), sent))\<rparr>"

definition ref_net :: "u8 list list net" where
  "ref_net = \<lparr>n_ifaces = replicate 4 ref_iface, n_num = 1, n_default = Some 0,
     n_arp = replicate 16 \<lparr>ae_ip = 0, ae_mac = replicate 6 0, ae_valid = False\<rparr>, n_shown = False, n_tcp_count = 0,
     n_udp_count = 0, n_dns_host = replicate 64 0, n_dns_ip = 0,
     n_tcb = \<lparr>tc_state = TCP_CLOSED, tc_local_ip = 0, tc_remote_ip = 0, tc_local_port = 0, tc_remote_port = 0,
       tc_snd_nxt = 0, tc_rcv_nxt = 0, tc_rx_buffer = replicate 16384 0, tc_rx_len = 0, tc_rx_processed = 0,
       tc_has_data = False\<rparr>,
     n_xid = 0x12345678, n_offered_ip = 0, n_server_ip = 0, n_rx = replicate 2048 0, n_log = [], n_world = []\<rparr>"

section \<open>Interfaces\<close>

definition MAX_INTERFACES :: nat where "MAX_INTERFACES = 4"

definition clear_iface :: "'w iface \<Rightarrow> 'w iface" where
  "clear_iface f = f\<lparr>if_name := (if_name f)[0 := 0], if_ip := 0, if_netmask := 0, if_gateway := 0, if_dns := 0,
     if_link_up := False, tx_packets := 0, rx_packets := 0, tx_bytes := 0, rx_bytes := 0, tx_errors := 0,
     rx_errors := 0, send_packet := None, recv_packet := None\<rparr>"

definition netif_init :: "'w net \<Rightarrow> int \<times> 'w net" where
  "netif_init st = (0, st\<lparr>n_num := 0, n_default := None, n_ifaces := map clear_iface (n_ifaces st)\<rparr>)"

definition netif_register :: "'w iface \<Rightarrow> 'w net \<Rightarrow> int \<times> 'w net" where
  "netif_register f st =
     (if n_num st \<ge> MAX_INTERFACES then (- 1, st)
      else (0, st\<lparr>n_ifaces := (n_ifaces st)[n_num st := f],
              n_default := (case n_default st of None \<Rightarrow> Some (n_num st) | Some d \<Rightarrow> Some d),
              n_num := n_num st + 1\<rparr>))"

definition netif_get_default :: "'w net \<Rightarrow> nat option" where
  "netif_get_default st = n_default st"

definition upd_iface :: "nat \<Rightarrow> ('w iface \<Rightarrow> 'w iface) \<Rightarrow> 'w net \<Rightarrow> 'w net" where
  "upd_iface i g st = st\<lparr>n_ifaces := (n_ifaces st)[i := g (n_ifaces st ! i)]\<rparr>"

definition netif_send :: "nat \<Rightarrow> u8 list \<Rightarrow> 'w net \<Rightarrow> int \<times> 'w net" where
  "netif_send i data st =
     (if data = [] then (- 1, netlog [Puts (lit ''[netif_send] ERROR: Invalid params\<newline>'')] st)
      else case send_packet (n_ifaces st ! i) of
          None \<Rightarrow> (- 1, netlog [Puts (lit ''[netif_send] ERROR: No send_packet function!\<newline>'')] st)
        | Some send \<Rightarrow>
            (let (result, w) = send data (n_world st);
                 st1 = netlog [Puts (lit ''[netif_send] Sending packet...\<newline>'')] (st\<lparr>n_world := w\<rparr>)
             in (result, upd_iface i (\<lambda>f. if result \<ge> 0
                   then f\<lparr>tx_packets := tx_packets f + 1, tx_bytes := tx_bytes f + of_nat (length data)\<rparr>
                   else f\<lparr>tx_errors := tx_errors f + 1\<rparr>) st1)))"

text \<open>The result and the bytes written to the caller's buffer.\<close>

definition netif_receive :: "nat \<Rightarrow> nat \<Rightarrow> 'w net \<Rightarrow> (int \<times> u8 list) \<times> 'w net" where
  "netif_receive i max_len st =
     (if max_len = 0 then ((- 1, []), st)
      else case recv_packet (n_ifaces st ! i) of
          None \<Rightarrow> ((0, []), st)
        | Some recv \<Rightarrow>
            (let ((result, bytes), w) = recv max_len (n_world st)
             in ((result, bytes), upd_iface i (\<lambda>f. if result > 0
                   then f\<lparr>rx_packets := rx_packets f + 1, rx_bytes := rx_bytes f + of_int result\<rparr>
                   else if result < 0 then f\<lparr>rx_errors := rx_errors f + 1\<rparr> else f) (st\<lparr>n_world := w\<rparr>))))"

definition netif_set_ip :: "nat \<Rightarrow> u32 \<Rightarrow> u32 \<Rightarrow> u32 \<Rightarrow> u32 \<Rightarrow> 'w net \<Rightarrow> 'w net" where
  "netif_set_ip i ip netmask gateway dns =
     upd_iface i (\<lambda>f. f\<lparr>if_ip := ip, if_netmask := netmask, if_gateway := gateway, if_dns := dns\<rparr>)"

definition netif_set_link :: "nat \<Rightarrow> bool \<Rightarrow> 'w net \<Rightarrow> 'w net" where
  "netif_set_link i up = upd_iface i (\<lambda>f. f\<lparr>if_link_up := up\<rparr>)"

section \<open>ARP\<close>

definition ARP_CACHE_SIZE :: nat where "ARP_CACHE_SIZE = 16"

definition arp_init :: "arp_entry list \<Rightarrow> arp_entry list" where
  "arp_init cache = map (\<lambda>e. e\<lparr>ae_valid := False\<rparr>) cache"

definition arp_add_entry :: "u32 \<Rightarrow> u8 list \<Rightarrow> arp_entry list \<Rightarrow> arp_entry list" where
  "arp_add_entry ip_addr mac cache =
     (let e = \<lparr>ae_ip = ip_addr, ae_mac = mac, ae_valid = True\<rparr>
      in case find_index (\<lambda>e. \<not> ae_valid e) ARP_CACHE_SIZE cache of
           Some i \<Rightarrow> cache[i := e]
         | None \<Rightarrow> cache[0 := e])"

definition arp_resolve :: "u32 \<Rightarrow> arp_entry list \<Rightarrow> u8 list option" where
  "arp_resolve ip_addr cache =
     map_option (\<lambda>i. ae_mac (cache ! i)) (find_index (\<lambda>e. ae_valid e \<and> ae_ip e = ip_addr) ARP_CACHE_SIZE cache)"

section \<open>Sending IP packets\<close>

definition eth_header :: "u8 list \<Rightarrow> u8 list \<Rightarrow> u16 \<Rightarrow> u8 list" where
  "eth_header dest_mac src_mac ethertype = dest_mac @ src_mac @ le16 (htons ethertype)"

definition ip_header_zero :: "u16 \<Rightarrow> u8 \<Rightarrow> u32 \<Rightarrow> u32 \<Rightarrow> u16 \<Rightarrow> u8 list" where
  "ip_header_zero total_length protocol src_ip dest_ip checksum =
     [0x45, 0] @ le16 (htons total_length) @ le16 0 @ le16 0 @ [64, protocol] @ le16 checksum @
     le32 (htonl src_ip) @ le32 (htonl dest_ip)"

definition ip_header :: "u16 \<Rightarrow> u8 \<Rightarrow> u32 \<Rightarrow> u32 \<Rightarrow> u8 list" where
  "ip_header total_length protocol src_ip dest_ip =
     ip_header_zero total_length protocol src_ip dest_ip
       (ip_checksum (ip_header_zero total_length protocol src_ip dest_ip 0))"

definition dest_mac_for :: "u32 \<Rightarrow> 'w iface \<Rightarrow> arp_entry list \<Rightarrow> u8 list" where
  "dest_mac_for dest_ip f cache =
     (if dest_ip AND if_netmask f = if_ip f AND if_netmask f
      then (case arp_resolve dest_ip cache of Some m \<Rightarrow> m | None \<Rightarrow> replicate 6 0xFF)
      else (case arp_resolve (if_gateway f) cache of Some m \<Rightarrow> m | None \<Rightarrow> [0x52, 0x55, 0x0a, 0x00, 0x02, 0x02]))"

definition dotted3 :: "u32 \<Rightarrow> console_event list" where
  "dotted3 ip =
     (let octet = (\<lambda>k. unat (drop_bit k ip AND 0xFF));
          digits = (\<lambda>n. [Putc (48 + of_nat (n div 100 mod 10)), Putc (48 + of_nat (n div 10 mod 10)), Putc (48 + of_nat (n mod 10))])
      in digits (octet 24) @ [Putc 46] @ digits (octet 16) @ [Putc 46] @ digits (octet 8) @ [Putc 46] @ digits (octet 0))"

text \<open>
  \<^verbatim>\<open>ip_send\<close>.  The packet buffer has 1500 bytes; the copy stops at its end but the length passed
  to \<^verbatim>\<open>netif_send\<close> does not, so the driver reads behind the buffer for more than 1466 bytes.
\<close>

definition ip_send :: "u32 \<Rightarrow> u8 \<Rightarrow> u8 list \<Rightarrow> 'w net \<Rightarrow> (int \<times> 'w net) outcome" where
  "ip_send dest_ip protocol data st =
     (case netif_get_default st of
        None \<Rightarrow> Ok (- 1, st)
      | Some i \<Rightarrow>
          (let f = n_ifaces st ! i;
               st1 = (if \<not> n_shown st \<and> protocol = 6
                      then netlog ([Puts (lit ''[IP] src='')] @ dotted3 (if_ip f) @ [Puts (lit '' gw='')] @
                             dotted3 (if_gateway f) @ [Puts (lit ''\<newline>'')]) (st\<lparr>n_shown := True\<rparr>)
                      else st);
               frame = eth_header (dest_mac_for dest_ip f (n_arp st)) (if_mac f) 0x0800 @
                       ip_header (20 + of_nat (length data)) protocol (if_ip f) dest_ip @ data
           in if length data > 1466 then Fault else Ok (netif_send i frame st1)))"

section \<open>ICMP\<close>

definition icmp_echo :: "u16 \<Rightarrow> u16 \<Rightarrow> u8 list" where
  "icmp_echo checksum seq = [8, 0] @ le16 checksum @ le16 (htons 0x1234) @ le16 (htons seq) @ map of_nat [8..<64]"

definition icmp_ping :: "u32 \<Rightarrow> u16 \<Rightarrow> 'w net \<Rightarrow> (int \<times> 'w net) outcome" where
  "icmp_ping dest_ip seq st = ip_send dest_ip 1 (icmp_echo (ip_checksum (icmp_echo 0 seq)) seq) st"

definition icmp_process :: "u8 list \<Rightarrow> nat \<Rightarrow> int" where
  "icmp_process packet len = (if len < 8 then - 1 else if packet ! 0 = 0 then 1 else 0)"

section \<open>The ARP cache\<close>

text \<open>The valid entries come first: entries are only added, at the first free slot.\<close>

definition arp_wf :: "arp_entry list \<Rightarrow> bool" where
  "arp_wf cache \<longleftrightarrow> length cache = 16 \<and> (\<exists>n \<le> 16. \<forall>i < 16. ae_valid (cache ! i) \<longleftrightarrow> i < n)"

lemma arp_first_free:
  assumes "length cache = 16" and "n \<le> 16" and "\<forall>i < 16. ae_valid (cache ! i) \<longleftrightarrow> i < n"
  shows "find_index (\<lambda>e. \<not> ae_valid e) 16 cache = (if n < 16 then Some n else None)"
proof (cases "n < 16")
  case True
  have "find_index (\<lambda>e. \<not> ae_valid e) 16 cache \<noteq> None" using assms True by (auto simp: find_index_None)
  then obtain i where i: "find_index (\<lambda>e. \<not> ae_valid e) 16 cache = Some i" by auto
  from find_index_Some [OF i] have "i < 16" "\<not> i < n" "\<forall>j < i. j < n" using assms(3) by auto
  then have "i = n" using True by (metis assms(3) linorder_neqE_nat less_irrefl)
  with i True show ?thesis by simp
next
  case False
  then show ?thesis using assms by (auto simp: find_index_None)
qed

lemma find_index_cong:
  assumes "\<And>j. j < n \<Longrightarrow> P (xs ! j) = Q (ys ! j)"
  shows "find_index P n xs = find_index Q n ys"
  unfolding find_index_def using assms by (intro find_cong) auto

lemma arp_add_wf:
  assumes "arp_wf cache"
  shows "arp_wf (arp_add_entry ip mac cache)"
proof -
  obtain n where n: "length cache = 16" "n \<le> 16" "\<forall>i < 16. ae_valid (cache ! i) \<longleftrightarrow> i < n"
    using assms by (auto simp: arp_wf_def)
  show ?thesis
  proof (cases "n < 16")
    case True
    have "\<forall>i < 16. ae_valid (cache[n := e] ! i) \<longleftrightarrow> i < n + 1" if "ae_valid e" for e
      using n that True by (auto simp: nth_list_update less_Suc_eq)
    then show ?thesis using True arp_first_free [OF n] n(1)
      unfolding arp_wf_def arp_add_entry_def ARP_CACHE_SIZE_def Let_def
      by (intro conjI exI [of _ "n + 1"]) simp_all
  next
    case False
    have "\<forall>i < 16. ae_valid (cache[0 := e] ! i) \<longleftrightarrow> i < 16" if "ae_valid e" for e
      using n that False by (auto simp: nth_list_update)
    then show ?thesis using False arp_first_free [OF n] n(1)
      unfolding arp_wf_def arp_add_entry_def ARP_CACHE_SIZE_def Let_def
      by (intro conjI exI [of _ 16]) simp_all
  qed
qed

lemma arp_add_new:
  assumes "arp_wf cache" and "arp_resolve ip cache = None"
  shows "arp_resolve ip (arp_add_entry ip mac cache) = Some mac"
proof -
  obtain n where n: "length cache = 16" "n \<le> 16" "\<forall>i < 16. ae_valid (cache ! i) \<longleftrightarrow> i < n"
    using assms by (auto simp: arp_wf_def)
  define e k where "e = \<lparr>ae_ip = ip, ae_mac = mac, ae_valid = True\<rparr>" and "k = (if n < 16 then n else 0)"
  have k: "k < 16" by (simp add: k_def)
  let ?P = "\<lambda>a e. ae_valid e \<and> ae_ip e = a"
  have "arp_add_entry ip mac cache = cache[k := e]"
    using arp_first_free [OF n] by (simp add: arp_add_entry_def ARP_CACHE_SIZE_def e_def k_def Let_def)
  moreover have "\<forall>j < 16. \<not> ?P ip (cache ! j)" using assms(2) by (auto simp: arp_resolve_def ARP_CACHE_SIZE_def find_index_None)
  then have "find_index (?P ip) 16 (cache[k := e]) = Some k"
    using k n(1) by (intro find_index_unique) (auto simp: e_def nth_list_update)
  ultimately show ?thesis using k n(1) by (simp add: arp_resolve_def ARP_CACHE_SIZE_def e_def)
qed

section \<open>Properties\<close>

text \<open>
  C12.  The ARP cache.  An address that was not known resolves to the added hardware address,
  whether or not the cache is full.  While the cache has a free slot, the other addresses keep
  their answer, and an address that was known keeps its old answer too: a changed hardware
  address is stored behind the old entry and never found.
\<close>
theorem arp_add_resolve:
  assumes "arp_wf cache"
  shows "arp_wf (arp_add_entry ip mac cache) \<and>
    (arp_resolve ip cache = None \<longrightarrow> arp_resolve ip (arp_add_entry ip mac cache) = Some mac) \<and>
    ((\<exists>e \<in> set cache. \<not> ae_valid e) \<longrightarrow>
      (\<forall>old. arp_resolve ip cache = Some old \<longrightarrow> arp_resolve ip (arp_add_entry ip mac cache) = Some old) \<and>
      (\<forall>ip'. ip' \<noteq> ip \<longrightarrow> arp_resolve ip' (arp_add_entry ip mac cache) = arp_resolve ip' cache))"
proof -
  obtain n where n: "length cache = 16" "n \<le> 16" "\<forall>i < 16. ae_valid (cache ! i) \<longleftrightarrow> i < n"
    using assms by (auto simp: arp_wf_def)
  define e k where "e = \<lparr>ae_ip = ip, ae_mac = mac, ae_valid = True\<rparr>" and "k = (if n < 16 then n else 0)"
  have k: "k < 16" by (simp add: k_def)
  have add: "arp_add_entry ip mac cache = cache[k := e]"
    using arp_first_free [OF n] by (simp add: arp_add_entry_def ARP_CACHE_SIZE_def e_def k_def Let_def)
  let ?P = "\<lambda>a e. ae_valid e \<and> ae_ip e = a"
  have old: "arp_resolve ip (cache[k := e]) = Some m" if "n < 16" "arp_resolve ip cache = Some m" for m
  proof -
    from that(2) obtain j where j: "find_index (?P ip) 16 cache = Some j" "m = ae_mac (cache ! j)"
      by (auto simp: arp_resolve_def ARP_CACHE_SIZE_def)
    note f = find_index_Some [OF j(1)]
    have "j < n" using f n(3) by auto
    with f that(1) n(1) have "find_index (?P ip) 16 (cache[k := e]) = Some j"
      by (intro find_index_unique) (auto simp: k_def nth_list_update)
    then show ?thesis using j(2) \<open>j < n\<close> that(1) by (simp add: arp_resolve_def ARP_CACHE_SIZE_def k_def)
  qed
  have other: "arp_resolve ip' (cache[k := e]) = arp_resolve ip' cache" if "n < 16" "ip' \<noteq> ip" for ip'
  proof -
    have "\<not> ae_valid (cache ! n)" using n(3) that(1) by simp
    then have "find_index (?P ip') 16 (cache[k := e]) = find_index (?P ip') 16 cache"
      using that n(1) by (intro find_index_cong) (auto simp: k_def e_def nth_list_update)
    moreover have "i \<noteq> n" if "find_index (?P ip') 16 cache = Some i" for i
      using find_index_Some [OF that] \<open>\<not> ae_valid (cache ! n)\<close> by auto
    ultimately show ?thesis using that(1)
      by (cases "find_index (?P ip') 16 cache") (auto simp: arp_resolve_def ARP_CACHE_SIZE_def k_def)
  qed
  have "n < 16" if "\<exists>e \<in> set cache. \<not> ae_valid e" using that n by (auto simp: in_set_conv_nth)
  then show ?thesis using arp_add_wf [OF assms, of ip mac] arp_add_new [OF assms, of ip mac] old other unfolding add by blast
qed

theorem arp_add_resolve_witness:
  "arp_resolve 5 (arp_add_entry 5 [9, 9, 9, 9, 9, 9] (arp_add_entry 5 [1, 2, 3, 4, 5, 6]
     (replicate 16 \<lparr>ae_ip = 0, ae_mac = replicate 6 0, ae_valid = False\<rparr>))) = Some [1, 2, 3, 4, 5, 6]"
proof -
  let ?c = "replicate 16 \<lparr>ae_ip = 0, ae_mac = replicate 6 0, ae_valid = False\<rparr>"
  let ?c1 = "arp_add_entry 5 [1, 2, 3, 4, 5, 6] ?c"
  have w: "arp_wf ?c" by (auto simp: arp_wf_def intro: exI [of _ 0])
  have f: "find_index (\<lambda>e. \<not> ae_valid e) 16 ?c = Some 0" by (intro find_index_unique) simp_all
  then have c1: "?c1 = ?c[0 := \<lparr>ae_ip = 5, ae_mac = [1, 2, 3, 4, 5, 6], ae_valid = True\<rparr>]"
    by (simp add: arp_add_entry_def ARP_CACHE_SIZE_def)
  have "arp_resolve 5 ?c = None" by (auto simp: arp_resolve_def ARP_CACHE_SIZE_def find_index_None)
  then have r: "arp_wf ?c1" "arp_resolve 5 ?c1 = Some [1, 2, 3, 4, 5, 6]" using arp_add_resolve [OF w] by auto
  have "\<exists>e \<in> set ?c1. \<not> ae_valid e" unfolding c1 by (simp add: numeral_eq_Suc)
  with arp_add_resolve [OF r(1)] r(2) show ?thesis by blast
qed

end
