(* ===== verification/Net_Dhcp.thy ===== *)
theory Net_Dhcp
  imports Net_Iface
begin

text \<open>
  The DHCP client \<^verbatim>\<open>src/src/dhcp_client.c\<close>: the DISCOVER frame, the parser of the options and the
  configuration of the interface from an OFFER.  A received packet is the list of the bytes
  from its start to the end of the receive buffer, so an access behind that end is \<open>Fault\<close>.
\<close>

section \<open>DISCOVER\<close>

definition dhcp_add_option :: "u8 list \<Rightarrow> nat \<Rightarrow> u8 \<Rightarrow> u8 list \<Rightarrow> u8 list \<times> nat" where
  "dhcp_add_option options offset code data =
     (let n = length data
      in (take offset options @ [code, of_nat n] @ data @ drop (offset + 2 + n) options, offset + 2 + n))"

definition dhcp_discover_options :: "u8 list" where
  "dhcp_discover_options =
     (let (opts, opt_offset) = dhcp_add_option (replicate 312 0) 0 53 [1] in opts[opt_offset := 255])"

definition dhcp_ip_header :: "u16 \<Rightarrow> u8 list" where
  "dhcp_ip_header checksum =
     [0x45, 0] @ le16 (htons 580) @ le16 (htons 0x1234) @ le16 0 @ [64, 17] @ le16 checksum @ le32 0 @ le32 0xFFFFFFFF"

definition dhcp_frame :: "u8 list \<Rightarrow> u32 \<Rightarrow> u8 list" where
  "dhcp_frame mac xid =
     (let checksum = htons (ucast (NOT (fold_carry (sum_be (dhcp_ip_header 0) 0))))
      in replicate 6 0xFF @ mac @ le16 0x0008 @ dhcp_ip_header checksum @
         le16 (htons 68) @ le16 (htons 67) @ le16 (htons 560) @ le16 0 @
         [1, 1, 6, 0] @ le32 xid @ le16 0 @ le16 (htons 0x8000) @ replicate 16 0 @ mac @ replicate 10 0 @
         replicate 64 0 @ replicate 128 0 @ le32 (htonl 0x63825363) @ dhcp_discover_options)"

definition dhcp_discover :: "nat \<Rightarrow> 'w net \<Rightarrow> int \<times> 'w net" where
  "dhcp_discover i st =
     (let f = n_ifaces st ! i; up = (if if_link_up f then lit ''true'' else lit ''false'');
          st1 = netlog [Puts (lit ''[DHCP_DISC] Entering dhcp_discover\<newline>''),
                  Puts (lit ''[DHCP_DISC] iface is valid, link_up=''), Puts up, Puts (lit '', send_packet=''),
                  Puts (if send_packet f \<noteq> None then lit ''set'' else lit ''NULL''), Puts (lit ''\<newline>''),
                  Puts (lit ''[DHCP_DISC] About to call netif_send, link_up=''), Puts up, Puts (lit ''\<newline>'')] st;
          (result, st2) = netif_send i (dhcp_frame (if_mac f) (n_xid st)) st1
      in (result, netlog [Puts (lit ''[DHCP_DISC] netif_send returned: ''),
            Puts (if result \<ge> 0 then lit ''success\<newline>'' else lit ''FAILED\<newline>'')] st2))"

definition dhcp_init :: "'w net \<Rightarrow> int \<times> 'w net" where
  "dhcp_init st = (0, st\<lparr>n_xid := 0x12345678\<rparr>)"

section \<open>Options\<close>

record dhcp_info =
  di_msg_type :: u8
  di_server :: u32
  di_subnet :: u32
  di_router :: u32
  di_dns :: u32

definition read32 :: "u8 list \<Rightarrow> nat \<Rightarrow> u32 outcome" where
  "read32 b i = (if i + 3 < length b then Ok (un_le32 (drop i b)) else Fault)"

definition dhcp_option :: "u8 list \<Rightarrow> u8 \<Rightarrow> nat \<Rightarrow> dhcp_info \<Rightarrow> dhcp_info outcome" where
  "dhcp_option opts opt i d =
     (if opt = 53 then (if i < length opts then Ok (d\<lparr>di_msg_type := opts ! i\<rparr>) else Fault)
      else if opt = 54 then bind_outcome (read32 opts i) (\<lambda>v. Ok (d\<lparr>di_server := v\<rparr>))
      else if opt = 1 then bind_outcome (read32 opts i) (\<lambda>v. Ok (d\<lparr>di_subnet := v\<rparr>))
      else if opt = 3 then bind_outcome (read32 opts i) (\<lambda>v. Ok (d\<lparr>di_router := v\<rparr>))
      else if opt = 6 then bind_outcome (read32 opts i) (\<lambda>v. Ok (d\<lparr>di_dns := v\<rparr>))
      else Ok d)"

function dhcp_options :: "u8 list \<Rightarrow> nat \<Rightarrow> dhcp_info \<Rightarrow> dhcp_info outcome" where
  "dhcp_options opts i d =
     (if i < 312
      then (if i \<ge> length opts then Fault
            else if opts ! i = 255 then Ok d
            else if opts ! i = 0 then dhcp_options opts (i + 1) d
            else if i + 1 \<ge> length opts then Fault
            else (case dhcp_option opts (opts ! i) (i + 2) d of
                    Ok d1 \<Rightarrow> dhcp_options opts (i + 2 + unat (opts ! (i + 1))) d1
                  | Fault \<Rightarrow> Fault
                  | Waiting \<Rightarrow> Waiting))
      else Ok d)"
  by pat_completeness auto
termination by (relation "measure (\<lambda>(opts, i, d). 312 - i)") auto

declare dhcp_options.simps [simp del]

section \<open>Replies\<close>

definition digits4 :: "u32 \<Rightarrow> u8 list" where
  "digits4 n = map (\<lambda>k. 48 + ucast (n div k mod 10)) [1000, 100, 10, 1]"

definition hex8 :: "u32 \<Rightarrow> console_event list" where
  "hex8 n = map (\<lambda>j. Putc (lit ''0123456789ABCDEF'' ! unat (drop_bit (4 * j) n AND 0xF))) (rev [0..<8])"

definition octet3 :: "u32 \<Rightarrow> nat \<Rightarrow> console_event list" where
  "octet3 ip k = (let n = drop_bit k ip AND 0xFF
     in [Puts [48 + ucast (n div 100), 48 + ucast (n div 10 mod 10), 48 + ucast (n mod 10)]])"

definition dhcp_accept :: "nat \<Rightarrow> u8 list \<Rightarrow> dhcp_info \<Rightarrow> 'w net \<Rightarrow> int \<times> 'w net" where
  "dhcp_accept i packet d st =
     (let offered = htonl (un_le32 (drop 16 packet));
          host_subnet = (if di_subnet d \<noteq> 0 then htonl (di_subnet d) else 0x00FFFFFF);
          host_router = (if di_router d \<noteq> 0 then htonl (di_router d) else 0);
          host_dns = (if di_dns d \<noteq> 0 then htonl (di_dns d) else 0x08080808)
      in (1, netif_set_ip i offered host_subnet host_router host_dns
            (netlog ([Puts (lit ''[DHCP] Got IP offer: '')] @ octet3 offered 24 @ [Puts (lit ''.'')] @ octet3 offered 16 @
               [Puts (lit ''.'')] @ octet3 offered 8 @ [Puts (lit ''.'')] @ octet3 offered 0 @ [Puts (lit ''\<newline>'')])
               (st\<lparr>n_offered_ip := offered\<rparr>))))"

definition dhcp_process :: "nat \<Rightarrow> u8 list \<Rightarrow> u32 \<Rightarrow> 'w net \<Rightarrow> (int \<times> 'w net) outcome" where
  "dhcp_process i packet len st =
     (let st1 = netlog [Puts (lit ''[DHCP_PROC] Called with len=''), Puts (digits4 len), Puts (lit ''\<newline>'')] st
      in if len < 240
         then Ok (- 1, netlog [Puts (lit ''[DHCP_PROC] Failed validation check (len < ''), Puts (lit ''240''), Puts (lit '')\<newline>'')] st1)
         else if length packet < 240 then Fault
         else
           let xid = un_le32 (drop 4 packet);
               st2 = netlog ([Puts (lit ''[DHCP_PROC] Checking XID: got=0x'')] @ hex8 xid @ [Puts (lit '' expected=0x'')] @
                       hex8 (n_xid st) @ [Puts (lit ''\<newline>'')]) st1
           in if xid \<noteq> n_xid st then Ok (0, netlog [Puts (lit ''[DHCP_PROC] XID mismatch, ignoring\<newline>'')] st2)
              else bind_outcome (dhcp_options (drop 240 packet) 0
                \<lparr>di_msg_type = 0, di_server = n_server_ip st, di_subnet = 0, di_router = 0, di_dns = 0\<rparr>) (\<lambda>d.
                  let st3 = st2\<lparr>n_server_ip := di_server d\<rparr>
                  in if di_msg_type d = 2 then Ok (dhcp_accept i packet d st3) else Ok (0, st3)))"

section \<open>Lemmas\<close>

text \<open>Options that lie in the buffer are parsed without a fault.\<close>

lemma dhcp_option_ok: "i + 3 < length opts \<Longrightarrow> \<exists>d1. dhcp_option opts opt i d = Ok d1"
  by (simp add: dhcp_option_def read32_def)

lemma dhcp_options_total: "574 \<le> length opts \<Longrightarrow> \<exists>d1. dhcp_options opts i d = Ok d1"
proof (induction opts i d rule: dhcp_options.induct)
  case (1 opts i d)
  show ?case
  proof (cases "i < 312 \<and> opts ! i \<noteq> 255 \<and> opts ! i \<noteq> 0")
    case True
    obtain d1 where d1: "dhcp_option opts (opts ! i) (i + 2) d = Ok d1"
      using dhcp_option_ok [of "i + 2" opts] True "1.prems" by auto
    have "\<exists>d2. dhcp_options opts (i + 2 + unat (opts ! (i + 1))) d1 = Ok d2"
      using True "1.prems" d1 by (intro "1.IH"(2)) auto
    with True d1 "1.prems" show ?thesis by (simp add: dhcp_options.simps [of opts i])
  next
    case False
    then show ?thesis using 1 by (auto simp: dhcp_options.simps [of opts i])
  qed
qed

lemma un_be32: "htonl (un_le32 (be32 x @ r)) = x"
  using un_le32_le32 [of "htonl x" r] by (simp add: le32_htonl)

lemma be32_length [simp]: "length (be32 x) = 4"
  by (simp add: be32_def)

section \<open>Lists of options\<close>

text \<open>
  What a server puts in its OFFER: options, each a code and its data, and between them padding,
  which is code 0 without data.  The data are those RFC 2132 asks for of the codes the client
  reads: the message type is one byte, mask and server identifier start with an address, and so
  do the lists of gateways and name servers.  Any other option is a code and at most 255 bytes.
\<close>

definition encode_option :: "u8 \<times> u8 list \<Rightarrow> u8 list" where
  "encode_option o1 = (if fst o1 = 0 then [0] else [fst o1, of_nat (length (snd o1))] @ snd o1)"

definition encode_options :: "(u8 \<times> u8 list) list \<Rightarrow> u8 list" where
  "encode_options opts = concat (map encode_option opts)"

definition option_ok :: "u8 \<times> u8 list \<Rightarrow> bool" where
  "option_ok o1 \<longleftrightarrow> fst o1 \<noteq> 255 \<and> length (snd o1) \<le> 255 \<and> (fst o1 = 53 \<longrightarrow> length (snd o1) = 1) \<and>
     (fst o1 \<in> {1, 3, 6, 54} \<longrightarrow> 4 \<le> length (snd o1))"

text \<open>The data of the last option with a code, and the address they start with.\<close>

definition option_data :: "u8 \<Rightarrow> (u8 \<times> u8 list) list \<Rightarrow> u8 list option" where
  "option_data c opts = map_of (rev opts) c"

definition quad :: "u8 list \<Rightarrow> u32" where
  "quad v = push_bit 24 (ucast (v ! 0)) OR push_bit 16 (ucast (v ! 1)) OR push_bit 8 (ucast (v ! 2)) OR ucast (v ! 3)"

text \<open>A missing option and the address 0 both leave the default.\<close>

definition option_address :: "u8 \<Rightarrow> u32 \<Rightarrow> (u8 \<times> u8 list) list \<Rightarrow> u32" where
  "option_address c dflt opts =
     (case option_data c opts of Some v \<Rightarrow> if quad v = 0 then dflt else quad v | None \<Rightarrow> dflt)"

lemma un_le32_quad: "un_le32 v = htonl (quad v)"
proof (rule bit_word_eqI)
  fix n
  assume "n < LENGTH(32)"
  then show "bit (un_le32 v) n = bit (htonl (quad v)) n"
    unfolding htonl_def un_le32_def quad_def byte_mask
    by (cases "n < 8"; cases "n < 16"; cases "n < 24") (auto simp: bit_simps dest: bit_imp_le_length)
qed

text \<open>What one option does to the client's record.\<close>

definition apply_option :: "u8 \<times> u8 list \<Rightarrow> dhcp_info \<Rightarrow> dhcp_info" where
  "apply_option o1 d =
     (if fst o1 = 53 then d\<lparr>di_msg_type := hd (snd o1)\<rparr>
      else if fst o1 = 54 then d\<lparr>di_server := un_le32 (snd o1)\<rparr>
      else if fst o1 = 1 then d\<lparr>di_subnet := un_le32 (snd o1)\<rparr>
      else if fst o1 = 3 then d\<lparr>di_router := un_le32 (snd o1)\<rparr>
      else if fst o1 = 6 then d\<lparr>di_dns := un_le32 (snd o1)\<rparr>
      else d)"

lemma un_le32_prefix: "4 \<le> length v \<Longrightarrow> un_le32 (v @ r) = un_le32 v"
  by (cases v; cases "tl v"; cases "tl (tl v)"; cases "tl (tl (tl v))") (auto simp: un_le32_def nth_Cons')

lemma read32_at: "4 \<le> length v \<Longrightarrow> read32 (pre @ v @ r) (length pre) = Ok (un_le32 v)"
  using un_le32_prefix [of v r] by (simp add: read32_def)

lemma dhcp_option_at:
  assumes "option_ok (c, v)"
  shows "dhcp_option (pre @ v @ r) c (length pre) d = Ok (apply_option (c, v) d)"
proof -
  have "c \<in> {1, 3, 6, 54} \<Longrightarrow> read32 (pre @ v @ r) (length pre) = Ok (un_le32 v)"
    by (rule read32_at) (use assms in \<open>simp add: option_ok_def\<close>)
  moreover have "c = 53 \<Longrightarrow> (pre @ v @ r) ! length pre = hd v \<and> v \<noteq> []"
    using assms by (cases v) (auto simp: option_ok_def nth_append)
  ultimately show ?thesis by (auto simp: dhcp_option_def apply_option_def)
qed

lemma dhcp_options_step:
  assumes "option_ok o1" and "length pre < 312"
  shows "dhcp_options (pre @ encode_option o1 @ r) (length pre) d =
    dhcp_options (pre @ encode_option o1 @ r) (length pre + length (encode_option o1))
      (if fst o1 = 0 then d else apply_option o1 d)"
proof (cases "fst o1 = 0")
  case True
  then show ?thesis
    using assms(2) unfolding dhcp_options.simps [of _ "length pre" d] by (simp add: encode_option_def)
next
  case False
  obtain c v where o1: "o1 = (c, v)" by (cases o1) auto
  let ?o = "pre @ encode_option o1 @ r"
  have e: "encode_option o1 = [c, of_nat (length v)] @ v" using False o1 by (simp add: encode_option_def)
  have n: "?o ! length pre = c" "?o ! (length pre + 1) = of_nat (length v)" "length pre + 1 < length ?o"
    unfolding e by (simp_all add: nth_append)
  have "dhcp_option ((pre @ [c, of_nat (length v)]) @ v @ r) c (length (pre @ [c, of_nat (length v)])) d =
      Ok (apply_option o1 d)"
    unfolding o1 by (rule dhcp_option_at) (use assms(1) o1 in simp)
  then have a: "dhcp_option ?o c (length pre + 2) d = Ok (apply_option o1 d)" unfolding e by simp
  have l: "unat (of_nat (length v) :: u8) = length v"
    using assms(1) o1 by (simp add: option_ok_def unat_of_nat)
  have "c \<noteq> 255" "c \<noteq> 0" using assms(1) False o1 by (simp_all add: option_ok_def)
  then have "dhcp_options ?o (length pre) d = dhcp_options ?o (length pre + 2 + length v) (apply_option o1 d)"
    using assms(2) n a l unfolding dhcp_options.simps [of ?o "length pre" d]
    by (simp del: append_assoc append_Cons append_Nil length_append)
  then show ?thesis using False by (simp add: e add.assoc)
qed

lemma dhcp_options_end: "i = length pre \<Longrightarrow> i < 312 \<Longrightarrow> dhcp_options (pre @ 255 # r) i d = Ok d"
  by (subst dhcp_options.simps) simp

lemma dhcp_options_list:
  assumes "list_all option_ok opts" and "length pre + length (encode_options opts) < 312"
  shows "dhcp_options (pre @ encode_options opts @ 255 # r) (length pre) d =
    Ok (fold (\<lambda>o1 d. if fst o1 = 0 then d else apply_option o1 d) opts d)"
  using assms
proof (induction opts arbitrary: pre d)
  case Nil
  then show ?case by (simp add: encode_options_def dhcp_options_end)
next
  case (Cons o1 opts)
  have e: "encode_options (o1 # opts) = encode_option o1 @ encode_options opts" by (simp add: encode_options_def)
  have "length pre < 312" using Cons.prems(2) by simp
  from dhcp_options_step [OF _ this, of o1 "encode_options opts @ 255 # r" d] Cons.prems
    Cons.IH [of "pre @ encode_option o1" "if fst o1 = 0 then d else apply_option o1 d"]
  show ?case by (simp add: e add.assoc)
qed

text \<open>Each field of the record is set by the last option of its code.\<close>

lemma fold_options:
  fixes opts d
  defines "d1 \<equiv> fold (\<lambda>o1 d. if fst o1 = 0 then d else apply_option o1 d) opts d"
  shows "di_msg_type d1 = (case option_data 53 opts of Some v \<Rightarrow> hd v | None \<Rightarrow> di_msg_type d)"
    and "di_server d1 = (case option_data 54 opts of Some v \<Rightarrow> un_le32 v | None \<Rightarrow> di_server d)"
    and "di_subnet d1 = (case option_data 1 opts of Some v \<Rightarrow> un_le32 v | None \<Rightarrow> di_subnet d)"
    and "di_router d1 = (case option_data 3 opts of Some v \<Rightarrow> un_le32 v | None \<Rightarrow> di_router d)"
    and "di_dns d1 = (case option_data 6 opts of Some v \<Rightarrow> un_le32 v | None \<Rightarrow> di_dns d)"
  unfolding d1_def option_data_def by (induction opts rule: rev_induct) (auto simp: apply_option_def)

lemma htonl_zero [simp]: "htonl x = 0 \<longleftrightarrow> x = 0"
proof -
  have "htonl 0 = 0" by (simp add: htonl_def)
  then show ?thesis by (metis htonl_htonl)
qed

section \<open>Properties\<close>

text \<open>A BOOTP reply: the transaction's id at 4, the offered address at 16, options at 240.\<close>

definition offer_packet :: "u32 \<Rightarrow> u32 \<Rightarrow> u8 list \<Rightarrow> u8 list" where
  "offer_packet xid yiaddr options =
     [2, 1, 6, 0] @ le32 xid @ replicate 8 0 @ be32 yiaddr @ replicate 216 0 @ [0x63, 0x82, 0x53, 0x63] @ options"


text \<open>An OFFER of a home router: message type, server, lease time of a day, mask, two padding
  bytes, gateway and two name servers.\<close>

definition home_offer :: "(u8 \<times> u8 list) list" where
  "home_offer = [(53, [2]), (54, [10, 0, 2, 2]), (51, [0, 1, 81, 128]), (1, [255, 255, 255, 0]), (0, []), (0, []),
     (3, [10, 0, 2, 2]), (6, [10, 0, 2, 3, 9, 9, 9, 9])]"


end
