(* ===== verification/Net_Udp.thy ===== *)
theory Net_Udp
  imports Net_Dhcp
begin

text \<open>
  ARP replies, UDP and DNS of \<^verbatim>\<open>src/src/tcp_ip_stack.c\<close> (lines 260 to 631).  A received packet
  is the list of the bytes from its start to the end of the receive buffer of 2048 bytes, so
  the headers can be read whatever the length says, and a parser that walks behind the end of
  the buffer is \<open>Fault\<close>.  A host name is its bytes before the terminator.
\<close>

section \<open>ARP packets\<close>

definition arp_reply :: "'w iface \<Rightarrow> u8 list \<Rightarrow> u32 \<Rightarrow> u8 list" where
  "arp_reply f sender_mac sender_ip =
     sender_mac @ if_mac f @ le16 (htons 0x0806) @
     le16 (htons 1) @ le16 (htons 0x0800) @ [6, 4] @ le16 (htons 2) @
     if_mac f @ le32 (htonl (if_ip f)) @ sender_mac @ le32 sender_ip"

definition arp_process :: "u8 list \<Rightarrow> u32 \<Rightarrow> 'w net \<Rightarrow> int \<times> 'w net" where
  "arp_process buffer len st =
     (if len < 42 then (- 1, st)
      else case netif_get_default st of
          None \<Rightarrow> (- 1, st)
        | Some i \<Rightarrow>
            (let arp = drop 14 buffer;
                 opcode = htons (un_le16 (drop 6 arp));
                 sender_mac = take 6 (drop 8 arp);
                 sender_ip = un_le32 (drop 14 arp);
                 target_ip = un_le32 (drop 24 arp);
                 f = n_ifaces st ! i
             in if opcode = 1 \<and> target_ip = htonl (if_ip f)
                then (1, snd (netif_send i (arp_reply f sender_mac sender_ip) st))
                else if opcode = 2
                then (0, st\<lparr>n_arp := arp_add_entry (htonl sender_ip) sender_mac (n_arp st)\<rparr>)
                else (0, st)))"

section \<open>UDP\<close>

definition udp_datagram :: "u16 \<Rightarrow> u16 \<Rightarrow> u8 list \<Rightarrow> u8 list" where
  "udp_datagram dest_port src_port data =
     le16 (htons src_port) @ le16 (htons dest_port) @ le16 (htons (8 + of_nat (length data))) @ le16 0 @ data"

definition udp_send_packet :: "u32 \<Rightarrow> u16 \<Rightarrow> u16 \<Rightarrow> u8 list \<Rightarrow> 'w net \<Rightarrow> (int \<times> 'w net) outcome" where
  "udp_send_packet dest_ip dest_port src_port data st =
     (case netif_get_default st of
        None \<Rightarrow> Ok (- 1, st)
      | Some i \<Rightarrow>
          if length data > 1492 then Fault
          else ip_send dest_ip 17 (udp_datagram dest_port src_port data) st)"

section \<open>DNS answers\<close>

definition at :: "u8 list \<Rightarrow> nat \<Rightarrow> u8 outcome" where
  "at b p = (if p < length b then Ok (b ! p) else Fault)"

text \<open>\<^verbatim>\<open>while (*p != 0) p += (*p) + 1;\<close> The position of the terminator.\<close>

function skip_labels :: "u8 list \<Rightarrow> nat \<Rightarrow> nat outcome" where
  "skip_labels b p =
     (if p < length b then (if b ! p \<noteq> 0 then skip_labels b (p + unat (b ! p) + 1) else Ok p) else Fault)"
  by pat_completeness auto
termination by (relation "measure (\<lambda>(b, p). length b - p)") auto

declare skip_labels.simps [simp del]

fun skip_questions :: "u8 list \<Rightarrow> nat \<Rightarrow> nat \<Rightarrow> nat outcome" where
  "skip_questions b 0 p = Ok p"
| "skip_questions b (Suc n) p = bind_outcome (skip_labels b p) (\<lambda>q. skip_questions b n (q + 5))"

text \<open>The position behind the name of an answer, which may be a compression pointer.\<close>

definition skip_name :: "u8 list \<Rightarrow> nat \<Rightarrow> nat outcome" where
  "skip_name b p =
     bind_outcome (at b p) (\<lambda>c. if c AND 0xC0 = 0xC0 then Ok (p + 2)
       else bind_outcome (skip_labels b p) (\<lambda>q. Ok (q + 1)))"

definition be16_at :: "u8 list \<Rightarrow> nat \<Rightarrow> u16 outcome" where
  "be16_at b p = bind_outcome (at b p) (\<lambda>x. bind_outcome (at b (p + 1)) (\<lambda>y. Ok (be_word x y)))"

definition be32_at :: "u8 list \<Rightarrow> nat \<Rightarrow> u32 outcome" where
  "be32_at b p = bind_outcome (at b p) (\<lambda>w. bind_outcome (at b (p + 1)) (\<lambda>x.
     bind_outcome (at b (p + 2)) (\<lambda>y. bind_outcome (at b (p + 3)) (\<lambda>z.
       Ok (push_bit 24 (ucast w) OR push_bit 16 (ucast x) OR push_bit 8 (ucast y) OR ucast z)))))"

text \<open>The address of the first A record among \<open>n\<close> answers, if there is one.\<close>

fun dns_answers :: "u8 list \<Rightarrow> nat \<Rightarrow> nat \<Rightarrow> u32 option outcome" where
  "dns_answers b 0 p = Ok None"
| "dns_answers b (Suc n) p =
     bind_outcome (skip_name b p) (\<lambda>q.
       bind_outcome (be16_at b q) (\<lambda>type.
         bind_outcome (be16_at b (q + 8)) (\<lambda>dlen.
           if type = 1 \<and> dlen = 4 then bind_outcome (be32_at b (q + 10)) (\<lambda>ip. Ok (Some ip))
           else dns_answers b n (q + 10 + unat dlen))))"

definition dns_response :: "u8 list \<Rightarrow> u32 option outcome" where
  "dns_response data =
     bind_outcome (skip_questions data (unat (htons (un_le16 (drop 4 data)))) 12) (\<lambda>p.
       dns_answers data (unat (htons (un_le16 (drop 6 data)))) p)"

definition udp_trace :: "u32 \<Rightarrow> u16 \<Rightarrow> u16 \<Rightarrow> console_event list" where
  "udp_trace count src_port dst_port =
     (if sint count \<le> 10
      then [Puts (lit ''[UDP] Received packet #''), Putc (48 + ucast (count div 10)), Putc (48 + ucast (count mod 10)),
            Puts (lit '' src=''), Putc (48 + ucast (src_port div 10)), Putc (48 + ucast (src_port mod 10)),
            Puts (lit '' dst=''), Putc (48 + ucast (dst_port div 10)), Putc (48 + ucast (dst_port mod 10)), Puts (lit ''\<newline>'')]
      else [])"

definition udp_process :: "u32 \<Rightarrow> u8 list \<Rightarrow> u32 \<Rightarrow> 'w net \<Rightarrow> (int \<times> 'w net) outcome" where
  "udp_process src_ip packet len st =
     (if len < 8 then Ok (- 1, st)
      else
        let payload_len = ucast (htons (un_le16 (drop 4 packet))) - 8 :: u32;
            data = drop 8 packet;
            src_port = htons (un_le16 packet);
            dst_port = htons (un_le16 (drop 2 packet));
            st1 = netlog (udp_trace (n_udp_count st + 1) src_port dst_port) (st\<lparr>n_udp_count := n_udp_count st + 1\<rparr>)
        in if src_port = 67 \<and> dst_port = 68
           then
             let st2 = netlog [Puts (lit ''[DHCP] Received DHCP packet! payload_len=''), Puts (digits4 payload_len),
                         Puts (lit ''\<newline>'')] st1
             in (case netif_get_default st of
                   None \<Rightarrow> Ok (0, st2)
                 | Some i \<Rightarrow> bind_outcome (dhcp_process i data payload_len st2) (\<lambda>(result, st3).
                     Ok (result, netlog [Puts (lit ''[DHCP] dhcp_process returned: ''),
                       Putc (48 + (of_int result AND 0xF)), Puts (lit ''\<newline>'')] st3)))
           else if src_port = 53
           then (if payload_len < 12 then Ok (- 1, st1)
                 else bind_outcome (dns_response data) (\<lambda>answer.
                   Ok (0, case answer of Some ip \<Rightarrow> st1\<lparr>n_dns_ip := ip\<rparr> | None \<Rightarrow> st1)))
           else Ok (0, st1))"

section \<open>DNS queries\<close>

text \<open>\<^verbatim>\<open>str_cmp\<close> and \<^verbatim>\<open>str_copy\<close> of this file; the copy has no bound, so it faults in a shorter buffer.\<close>

fun net_str_cmp :: "u8 list \<Rightarrow> u8 list \<Rightarrow> int" where
  "net_str_cmp (a # as) (b # bs) = (if a = b then net_str_cmp as bs else uint a - uint b)"
| "net_str_cmp (a # as) [] = uint a"
| "net_str_cmp [] (b # bs) = - uint b"
| "net_str_cmp [] [] = 0"

definition net_str_copy :: "u8 list \<Rightarrow> u8 list \<Rightarrow> u8 list outcome" where
  "net_str_copy dest src =
     (if length src + 1 > length dest then Fault else Ok (src @ [0] @ drop (length src + 1) dest))"

definition static_dns :: "(u8 list \<times> u32) list" where
  "static_dns =
     [(lit ''example.com'', 0x5DB8D822), (lit ''www.example.com'', 0x5DB8D822),
      (lit ''httpbin.org'', 0x36F7F036), (lit ''www.httpbin.org'', 0x36F7F036),
      (lit ''info.cern.ch'', 0xBC14FC0B), (lit ''www.info.cern.ch'', 0xBC14FC0B),
      (lit ''google.com'', 0x8EFA7F0E), (lit ''www.google.com'', 0x8EFA7F0E)]"

text \<open>
  The labels of the name, written at position \<open>q\<close> of the buffer of 512 bytes; \<open>None\<close> when one
  is longer than 63 bytes.  The type and class follow the root label, hence the five bytes.
\<close>

function dns_qname :: "u8 list \<Rightarrow> nat \<Rightarrow> u8 list option outcome" where
  "dns_qname p q =
     (if p = [] then (if q + 5 > 512 then Fault else Ok (Some [0]))
      else
        let label = takeWhile (\<lambda>c. c \<noteq> 46) p
        in if length label > 63 then Ok None
           else if q + 1 + length label > 512 then Fault
           else bind_outcome (dns_qname (drop (length label + 1) p) (q + 1 + length label))
                  (\<lambda>r. Ok (map_option (\<lambda>s. of_nat (length label) # label @ s) r)))"
  by pat_completeness auto
termination by (relation "measure (\<lambda>(p, q). length p)") auto

declare dns_qname.simps [simp del]

definition dns_query :: "u8 list \<Rightarrow> u8 list option outcome" where
  "dns_query hostname =
     bind_outcome (dns_qname hostname 12) (\<lambda>r. Ok (map_option (\<lambda>q.
       le16 (htons 0xCAFE) @ le16 (htons 0x0100) @ le16 (htons 1) @ le16 0 @ le16 0 @ le16 0 @
       q @ le16 (htons 1) @ le16 (htons 1)) r))"

section \<open>Lemmas\<close>

text \<open>A name without empty labels: no dot at its start and no two dots in a row.\<close>

fun labels_ok :: "bool \<Rightarrow> u8 list \<Rightarrow> bool" where
  "labels_ok start [] = True"
| "labels_ok start (c # p) = (if c = 46 then \<not> start \<and> labels_ok True p else labels_ok False p)"

lemma labels_ok_rest:
  "labels_ok start p \<Longrightarrow> labels_ok True (drop (length (takeWhile (\<lambda>c. c \<noteq> 46) p) + 1) p)"
  by (induction start p rule: labels_ok.induct) (auto split: if_splits)

lemma skip_labels_step:
  assumes "label \<noteq> []" and "length label \<le> 63"
  shows "skip_labels (pre @ of_nat (length label) # label @ r) (length pre) =
    skip_labels ((pre @ of_nat (length label) # label) @ r) (length (pre @ of_nat (length label) # label))"
proof -
  have n: "unat (of_nat (length label) :: u8) = length label" using assms(2) by (simp add: unat_of_nat)
  then have "(of_nat (length label) :: u8) \<noteq> 0" using assms(1) by (metis unat_0 length_0_conv)
  with n show ?thesis by (subst skip_labels.simps) (simp add: nth_append add.commute)
qed

lemma skip_labels_qname:
  "dns_qname p q = Ok (Some s) \<Longrightarrow> labels_ok True p \<Longrightarrow>
     skip_labels (pre @ s @ r) (length pre) = Ok (length pre + length s - 1)"
proof (induction p q arbitrary: s pre rule: dns_qname.induct)
  case (1 p q)
  show ?case
  proof (cases "p = []")
    case True
    then have "s = [0]" using "1.prems"(1) by (auto simp: dns_qname.simps [of "[]"] split: if_splits)
    then show ?thesis by (subst skip_labels.simps) simp
  next
    case False
    define label where "label = takeWhile (\<lambda>c. c \<noteq> (46 :: u8)) p"
    have small: "length label \<le> 63" "q + 1 + length label \<le> 512"
      using "1.prems"(1) False by (auto simp: dns_qname.simps [of p] label_def Let_def split: if_splits)
    obtain s' where s': "dns_qname (drop (length label + 1) p) (q + 1 + length label) = Ok (Some s')"
        "s = of_nat (length label) # label @ s'"
      using "1.prems"(1) False small
      by (auto simp: dns_qname.simps [of p] label_def [symmetric] Let_def outcome_bind_Ok)
    have ne: "label \<noteq> []" using False "1.prems"(2) by (cases p) (auto simp: label_def split: if_splits)
    have "skip_labels (((pre @ of_nat (length label) # label)) @ s' @ r) (length (pre @ of_nat (length label) # label)) =
        Ok (length (pre @ of_nat (length label) # label) + length s' - 1)"
      using False small s'(1) labels_ok_rest [OF "1.prems"(2)]
      by (intro "1.IH" [OF False label_def]) (simp_all add: label_def)
    then show ?thesis using skip_labels_step [OF ne small(1), of pre "s' @ r"] s'(2) by simp
  qed
qed

lemma un_be16: "htons (un_le16 (be16 x @ r)) = x"
  using un_le16_le16 [of "htons x" r] by (simp add: le16_htons)

lemma be32_at_be32: "p = length pre \<Longrightarrow> be32_at (pre @ be32 x @ r) p = Ok x"
proof -
  have "push_bit 24 (ucast (ucast (drop_bit 24 x) :: u8) :: u32) OR push_bit 16 (ucast (ucast (drop_bit 16 x) :: u8)) OR
      push_bit 8 (ucast (ucast (drop_bit 8 x) :: u8)) OR ucast (ucast x :: u8) = x"
  proof (rule bit_word_eqI)
    fix n
    assume "n < LENGTH(32)"
    then have n: "n < 32" by simp
    show "bit (push_bit 24 (ucast (ucast (drop_bit 24 x) :: u8) :: u32) OR push_bit 16 (ucast (ucast (drop_bit 16 x) :: u8)) OR
        push_bit 8 (ucast (ucast (drop_bit 8 x) :: u8)) OR ucast (ucast x :: u8)) n = bit x n"
      using n by (cases "n < 8"; cases "n < 16"; cases "n < 24") (simp_all add: bit_simps less_diff_conv2)
  qed
  then show "p = length pre \<Longrightarrow> be32_at (pre @ be32 x @ r) p = Ok x"
    by (simp add: be32_at_def at_def be32_def nth_append)
qed

section \<open>Properties\<close>

text \<open>A name server's response to a query for one name: the question and one A record.\<close>

definition dns_reply :: "u8 list \<Rightarrow> u32 \<Rightarrow> u8 list \<Rightarrow> u8 list" where
  "dns_reply qname ip rest =
     [0xCA, 0xFE, 0x81, 0x80, 0, 1, 0, 1, 0, 0, 0, 0] @ qname @ [0, 1, 0, 1] @
     [0xC0, 12, 0, 1, 0, 1, 0, 0, 0, 60, 0, 4] @ be32 ip @ rest"

text \<open>
  C8.  A name server's answer is understood: for a name that \<^verbatim>\<open>dns_resolve\<close> can encode and
  that has no empty label, the response that repeats the encoded question and gives an A
  record, received from port 53, makes the address of that record the resolved address.
\<close>
theorem dns_answer_resolved:
  assumes "dns_qname hostname 12 = Ok (Some qname)" and "labels_ok True hostname" and "8 \<le> len"
    and "12 \<le> (ucast udp_len - 8 :: u32)"
  shows "\<exists>st'. udp_process src_ip (be16 53 @ be16 dst_port @ be16 udp_len @ [0, 0] @ dns_reply qname ip rest) len st =
    Ok (0, st') \<and> n_dns_ip st' = ip \<and> n_ifaces st' = n_ifaces st \<and> n_tcb st' = n_tcb st"
proof -
  let ?d = "dns_reply qname ip rest"
  let ?h = "[0xCA, 0xFE, 0x81, 0x80, 0, 1, 0, 1, 0, 0, 0, 0] :: u8 list"
  define pre r where "pre = ?h @ qname @ [0, 1, 0, 1]" and "r = be32 ip @ rest"
  have d: "?d = ?h @ qname @ ([0, 1, 0, 1, 0xC0, 12, 0, 1, 0, 1, 0, 0, 0, 60, 0, 4] @ r)"
      "?d = pre @ [0xC0, 12, 0, 1, 0, 1, 0, 0, 0, 60, 0, 4] @ r"
      "?d = (pre @ [0xC0, 12, 0, 1, 0, 1, 0, 0, 0, 60, 0, 4]) @ be32 ip @ rest"
    by (simp_all add: dns_reply_def pre_def r_def)
  have "length ?h = 12" by simp
  have q: "skip_labels ?d 12 = Ok (length pre - 5)"
    using skip_labels_qname [OF assms(1,2), of ?h] unfolding d(1) \<open>length ?h = 12\<close> by (simp add: pre_def)
  define P where "P = length pre"
  have n: "?d ! P = 0xC0" "?d ! (P + 2) = 0" "?d ! (P + 3) = 1" "?d ! (P + 10) = 0" "?d ! (11 + P) = 4"
    unfolding d(2) P_def by (simp_all add: nth_append)
  have l: "P + 11 < length ?d" unfolding d(2) P_def by simp
  have s: "skip_name ?d P = Ok (P + 2)" using n l by (simp add: skip_name_def at_def)
  have b: "be16_at ?d (P + 2) = Ok 1" "be16_at ?d (P + 10) = Ok 4"
    using n l by (simp_all add: be16_at_def at_def be_word_def numeral_3_eq_3)
  have "be32_at ?d (P + 12) = Ok ip" unfolding d(3) by (rule be32_at_be32) (simp add: P_def)
  then have a: "dns_answers ?d 1 P = Ok (Some ip)" using s b by (simp add: add.commute)
  have "P - 5 + 5 = P" by (simp add: P_def pre_def)
  have qa: "htons (un_le16 (drop 4 ?d)) = 1" "htons (un_le16 (drop 6 ?d)) = 1"
    unfolding d(1) by (simp_all add: un_le16_def htons_def)
  have r: "dns_response ?d = Ok (Some ip)"
    unfolding dns_response_def qa using q a by (simp add: P_def [symmetric] \<open>P - 5 + 5 = P\<close>)
  let ?p = "be16 53 @ be16 dst_port @ be16 udp_len @ [0, 0] @ ?d"
  have p: "htons (un_le16 ?p) = 53" "htons (un_le16 (drop 2 ?p)) = dst_port" "htons (un_le16 (drop 4 ?p)) = udp_len" "drop 8 ?p = ?d"
    using un_be16 [of 53] un_be16 [of dst_port] un_be16 [of udp_len] by (simp_all add: be16_def)
  show ?thesis unfolding udp_process_def Let_def p r using assms(3,4) by (simp add: not_less netlog_def)
qed

theorem dns_answer_resolved_witness:
  "\<exists>st'. udp_process 0x0A000203 (be16 53 @ be16 52000 @ be16 48 @ [0, 0] @
       dns_reply [1, 97, 2, 98, 99, 0] 0x01020304 (replicate 1900 0)) 48 ref_net = Ok (0, st') \<and>
     n_dns_ip st' = 0x01020304 \<and> n_ifaces st' = n_ifaces ref_net \<and> n_tcb st' = n_tcb ref_net"
  by (rule dns_answer_resolved [of "[97, 46, 98, 99]"])
    (simp_all add: dns_qname.simps [of "a # b" for a b] dns_qname.simps [of "[]"] Let_def)

end
