(* ===== verification/Net_TCP.thy ===== *)
theory Net_TCP
  imports Net_Udp
begin

text \<open>
  The TCP client of \<^verbatim>\<open>src/src/tcp_ip_stack.c\<close> (lines 633 to 968), the dispatch of received
  frames (\<^verbatim>\<open>ip_receive\<close>), polling (\<^verbatim>\<open>netif_poll\<close> of \<^verbatim>\<open>src/src/network_interface.c\<close>) and the
  operations that wait for an answer: \<^verbatim>\<open>tcp_connect\<close>, \<^verbatim>\<open>tcp_receive\<close> and \<^verbatim>\<open>dns_resolve\<close>.

  The clock is the parameter \<open>ticks\<close>, which reads the counter and lets the world go on.  A
  loop that waits for the clock takes fuel, one unit for each reading; \<open>Waiting\<close> means that
  the fuel did not suffice.
\<close>

section \<open>Segments\<close>

definition TCP_FLAG_FIN :: u8 where "TCP_FLAG_FIN = 0x01"
definition TCP_FLAG_SYN :: u8 where "TCP_FLAG_SYN = 0x02"
definition TCP_FLAG_PSH :: u8 where "TCP_FLAG_PSH = 0x08"
definition TCP_FLAG_ACK :: u8 where "TCP_FLAG_ACK = 0x10"

lemmas tcp_flags = TCP_FLAG_FIN_def TCP_FLAG_SYN_def TCP_FLAG_PSH_def TCP_FLAG_ACK_def

definition tcp_header :: "u16 \<Rightarrow> u16 \<Rightarrow> u32 \<Rightarrow> u32 \<Rightarrow> u8 \<Rightarrow> u16 \<Rightarrow> u8 list" where
  "tcp_header src_port dest_port seq ack flags checksum =
     le16 (htons src_port) @ le16 (htons dest_port) @ le32 (htonl seq) @ le32 (htonl ack) @
     [0x50, flags] @ le16 (htons 8192) @ le16 checksum @ le16 0"

definition tcp_segment :: "u32 \<Rightarrow> u32 \<Rightarrow> u16 \<Rightarrow> u16 \<Rightarrow> u32 \<Rightarrow> u32 \<Rightarrow> u8 \<Rightarrow> u8 list \<Rightarrow> u8 list" where
  "tcp_segment src_ip dest_ip src_port dest_port seq ack flags payload =
     tcp_header src_port dest_port seq ack flags
       (tcp_checksum src_ip dest_ip (tcp_header src_port dest_port seq ack flags 0 @ payload)) @ payload"

definition tcp_send_packet ::
  "u32 \<Rightarrow> u16 \<Rightarrow> u16 \<Rightarrow> u32 \<Rightarrow> u32 \<Rightarrow> u8 \<Rightarrow> u8 list \<Rightarrow> 'w net \<Rightarrow> (int \<times> 'w net) outcome" where
  "tcp_send_packet dest_ip dest_port src_port seq ack flags payload st =
     (case netif_get_default st of
        None \<Rightarrow> Ok (- 1, st)
      | Some i \<Rightarrow>
          if length payload > 1480 then Fault
          else ip_send dest_ip 6
                 (tcp_segment (if_ip (n_ifaces st ! i)) dest_ip src_port dest_port seq ack flags payload) st)"

text \<open>\<^verbatim>\<open>tcp_send_packet\<close> on the connection of the control block.\<close>

definition tcb_send :: "u8 \<Rightarrow> u8 list \<Rightarrow> 'w net \<Rightarrow> 'w net outcome" where
  "tcb_send flags payload st =
     (let t = n_tcb st
      in bind_outcome (tcp_send_packet (tc_remote_ip t) (tc_remote_port t) (tc_local_port t)
           (tc_snd_nxt t) (tc_rcv_nxt t) flags payload st) (\<lambda>(result, st1). Ok st1))"

section \<open>Receiving\<close>

definition upd_tcb :: "(tcp_block \<Rightarrow> tcp_block) \<Rightarrow> 'w net \<Rightarrow> 'w net" where
  "upd_tcb g st = st\<lparr>n_tcb := g (n_tcb st)\<rparr>"

definition hex_digit :: "u8 \<Rightarrow> u8" where
  "hex_digit n = lit ''0123456789ABCDEF'' ! unat (n AND 0xF)"

text \<open>
  The copy of \<open>seg_len\<close> bytes of a segment behind the \<open>rx_len\<close> bytes received before, and its
  acknowledgement.  The guard is computed at 32 bits; the copy faults at the end of either buffer.
\<close>

definition tcb_store :: "u8 list \<Rightarrow> tcp_block \<Rightarrow> tcp_block" where
  "tcb_store bytes t =
     (let k = unat (tc_rx_len t); n = of_nat (length bytes)
      in t\<lparr>tc_rx_buffer := take k (tc_rx_buffer t) @ bytes @ drop (k + length bytes) (tc_rx_buffer t),
           tc_rx_len := tc_rx_len t + n, tc_has_data := True, tc_rcv_nxt := tc_rcv_nxt t + n\<rparr>)"

definition tcp_data :: "u8 list \<Rightarrow> u32 \<Rightarrow> 'w net \<Rightarrow> 'w net outcome" where
  "tcp_data data seg_len st =
     (let k = tc_rx_len (n_tcb st)
      in if k + seg_len < 16384
         then (if unat k + unat seg_len > 16384 \<or> unat seg_len > length data then Fault
               else tcb_send TCP_FLAG_ACK [] (upd_tcb (tcb_store (take (unat seg_len) data)) st))
         else Ok st)"

definition tcp_process :: "u32 \<Rightarrow> u8 list \<Rightarrow> u32 \<Rightarrow> 'w net \<Rightarrow> (int \<times> 'w net) outcome" where
  "tcp_process src_ip packet len st =
     (if len < 20 then Ok (- 1, st)
      else
        let seq = htonl (un_le32 (drop 4 packet));
            ack = htonl (un_le32 (drop 8 packet));
            hdr_len = 4 * unat (drop_bit 4 (packet ! 12));
            flags = packet ! 13;
            seg_len = len - of_nat hdr_len
        in case tc_state (n_tcb st) of
             TCP_SYN_SENT \<Rightarrow>
               (let st1 = netlog [Puts (lit ''[TCP] Received packet in SYN_SENT state, flags=0x''),
                          Putc (hex_digit (drop_bit 4 flags)), Putc (hex_digit flags), Puts (lit ''\<newline>'')] st
                in if flags AND TCP_FLAG_SYN \<noteq> 0 \<and> flags AND TCP_FLAG_ACK \<noteq> 0
                   then bind_outcome (tcb_send TCP_FLAG_ACK []
                          (upd_tcb (\<lambda>t. t\<lparr>tc_rcv_nxt := seq + 1, tc_snd_nxt := ack, tc_state := TCP_ESTABLISHED\<rparr>)
                            (netlog [Puts (lit ''[TCP] Got SYN-ACK! Sending ACK...\<newline>'')] st1))) (\<lambda>st2. Ok (1, st2))
                   else Ok (0, st1))
           | TCP_ESTABLISHED \<Rightarrow>
               bind_outcome (if seg_len > 0 then tcp_data (drop hdr_len packet) seg_len st else Ok st) (\<lambda>st1.
                 if flags AND TCP_FLAG_FIN \<noteq> 0
                 then bind_outcome (tcb_send (TCP_FLAG_ACK OR TCP_FLAG_FIN) []
                        (upd_tcb (\<lambda>t. t\<lparr>tc_rcv_nxt := tc_rcv_nxt t + 1\<rparr>) st1)) (\<lambda>st2.
                        Ok (1, upd_tcb (\<lambda>t. t\<lparr>tc_state := TCP_CLOSED\<rparr>) st2))
                 else Ok (0, st1))
           | TCP_CLOSED \<Rightarrow> Ok (0, st)
           | TCP_FIN_WAIT \<Rightarrow> Ok (0, st))"

definition tcp_trace :: "u32 \<Rightarrow> console_event list" where
  "tcp_trace count =
     (if sint count \<le> 5
      then [Puts (lit ''[IP] Received TCP packet #''), Putc (48 + ucast count), Puts (lit ''\<newline>'')] else [])"

definition ip_receive :: "u8 list \<Rightarrow> u32 \<Rightarrow> 'w net \<Rightarrow> (int \<times> 'w net) outcome" where
  "ip_receive buffer len st =
     (let ethertype = un_le16 (drop 12 buffer)
      in if len < 14 then Ok (- 1, st)
         else if ethertype = htons 0x0806 then Ok (arp_process buffer len st)
         else if ethertype \<noteq> htons 0x0800 then Ok (0, st)
         else if len < 34 then Ok (- 1, st)
         else
           let src_ip = htonl (un_le32 (drop 26 buffer));
               payload = drop 34 buffer;
               payload_len = len - 34;
               protocol = buffer ! 23
           in if protocol = 1 then Ok (icmp_process payload (unat payload_len), st)
              else if protocol = 6
              then tcp_process src_ip payload payload_len
                     (netlog (tcp_trace (n_tcp_count st + 1)) (st\<lparr>n_tcp_count := n_tcp_count st + 1\<rparr>))
              else if protocol = 17 then udp_process src_ip payload payload_len st
              else Ok (0, st))"

text \<open>
  \<^verbatim>\<open>netif_poll\<close>: the driver writes a frame to the front of the static buffer of 2048 bytes and
  returns its length.
\<close>

definition netif_poll :: "'w net \<Rightarrow> 'w net outcome" where
  "netif_poll st =
     (case netif_get_default st of
        None \<Rightarrow> Ok st
      | Some i \<Rightarrow>
          (let ((len, bytes), st1) = netif_receive i 2048 st;
               st2 = st1\<lparr>n_rx := bytes @ drop (length bytes) (n_rx st1)\<rparr>
           in if length bytes > 2048 then Fault
              else if len > 0 then bind_outcome (ip_receive (n_rx st2) (of_int len) st2) (\<lambda>(result, st3). Ok st3)
              else Ok st2))"

text \<open>\<open>n\<close> polls, or fewer when the condition \<open>stop\<close> holds after one; with the number of polls done.\<close>

fun poll_until :: "('w net \<Rightarrow> bool) \<Rightarrow> nat \<Rightarrow> nat \<Rightarrow> 'w net \<Rightarrow> (nat \<times> 'w net) outcome" where
  "poll_until stop 0 count st = Ok (count, st)"
| "poll_until stop (Suc n) count st =
     bind_outcome (netif_poll st) (\<lambda>st1. if stop st1 then Ok (count + 1, st1) else poll_until stop n (count + 1) st1)"

section \<open>Waiting for an answer\<close>

definition read_ticks :: "('w \<Rightarrow> u32 \<times> 'w) \<Rightarrow> 'w net \<Rightarrow> u32 \<times> 'w net" where
  "read_ticks ticks st = (let (t, w) = ticks (n_world st) in (t, st\<lparr>n_world := w\<rparr>))"

definition established :: "'w net \<Rightarrow> bool" where
  "established st \<longleftrightarrow> tc_state (n_tcb st) = TCP_ESTABLISHED"

text \<open>
  The wait of \<^verbatim>\<open>tcp_connect\<close> for one SYN: \<open>True\<close> when the connection was established, \<open>False\<close>
  after 90 ticks.  \<open>rx_state\<close> is what \<^verbatim>\<open>debug_rx_state\<close> prints.
\<close>

fun tcp_wait_syn ::
  "('w \<Rightarrow> u32 \<times> 'w) \<Rightarrow> ('w \<Rightarrow> console_event list) \<Rightarrow> nat \<Rightarrow> u32 \<Rightarrow> nat \<Rightarrow> 'w net \<Rightarrow> (bool \<times> 'w net) outcome" where
  "tcp_wait_syn ticks rx_state 0 start count st = Waiting"
| "tcp_wait_syn ticks rx_state (Suc fuel) start count st =
     bind_outcome (poll_until established 10 count st) (\<lambda>(count1, st1).
       if established st1
       then Ok (True, netlog [Puts (lit ''[TCP] Connection established after ''),
              Puts (map (\<lambda>k. 48 + of_nat (count1 div k mod 10)) [1000, 100, 10, 1]), Puts (lit '' polls\<newline>'')] st1)
       else
         let (t, st2) = read_ticks ticks st1
         in if t - start > 90
            then Ok (False, netlog ([Puts (lit ''[TCP] Timeout - no SYN-ACK received\<newline>'')] @ rx_state (n_world st2)) st2)
            else tcp_wait_syn ticks rx_state fuel start count1 st2)"

fun tcp_retries ::
  "('w \<Rightarrow> u32 \<times> 'w) \<Rightarrow> ('w \<Rightarrow> console_event list) \<Rightarrow> nat \<Rightarrow> nat list \<Rightarrow> 'w net \<Rightarrow> (int \<times> 'w net) outcome" where
  "tcp_retries ticks rx_state fuel [] st =
     Ok (- 1, netlog [Puts (lit ''[TCP] Connection failed after all retries\<newline>'')] (upd_tcb (\<lambda>t. t\<lparr>tc_state := TCP_CLOSED\<rparr>) st))"
| "tcp_retries ticks rx_state fuel (retry # rs) st =
     (let st1 = (if retry > 0 then netlog [Puts (lit ''[TCP] Retry ''), Putc (48 + of_nat retry), Puts (lit ''/5...\<newline>'')] st else st);
          t = n_tcb st1
      in bind_outcome (tcp_send_packet (tc_remote_ip t) (tc_remote_port t) (tc_local_port t) (tc_snd_nxt t) 0
           TCP_FLAG_SYN [] st1) (\<lambda>(sent, st2).
           if sent < 0
           then tcp_retries ticks rx_state fuel rs (netlog [Puts (lit ''[TCP] ERROR: Failed to send SYN packet!\<newline>'')] st2)
           else
             let (start, st3) = read_ticks ticks (upd_tcb (\<lambda>t. t\<lparr>tc_state := TCP_SYN_SENT\<rparr>) st2)
             in bind_outcome (tcp_wait_syn ticks rx_state fuel start 0 st3) (\<lambda>(ok, st4).
                  if ok then Ok (0, st4) else tcp_retries ticks rx_state fuel rs st4)))"

definition tcp_connect ::
  "('w \<Rightarrow> u32 \<times> 'w) \<Rightarrow> ('w \<Rightarrow> console_event list) \<Rightarrow> nat \<Rightarrow> u32 \<Rightarrow> u16 \<Rightarrow> 'w net \<Rightarrow> (int \<times> 'w net) outcome" where
  "tcp_connect ticks rx_state fuel dest_ip dest_port st =
     (let (t1, st1) = read_ticks ticks st;
          (t2, st2) = read_ticks ticks st1;
          st3 = upd_tcb (\<lambda>t. t\<lparr>tc_state := TCP_CLOSED, tc_rx_len := 0, tc_rx_processed := 0, tc_has_data := False,
                  tc_remote_ip := dest_ip, tc_remote_port := dest_port,
                  tc_local_port := ucast (10000 + t1 mod 50000), tc_snd_nxt := t2, tc_rcv_nxt := 0\<rparr>) st2
      in case netif_get_default st3 of
           None \<Rightarrow> Ok (- 1, netlog [Puts (lit ''[TCP] ERROR: No network interface!\<newline>'')] st3)
         | Some i \<Rightarrow>
             (let f = n_ifaces st3 ! i
              in if \<not> if_link_up f then Ok (- 1, netlog [Puts (lit ''[TCP] ERROR: Network link is down!\<newline>'')] st3)
                 else if if_ip f = 0 then Ok (- 1, netlog [Puts (lit ''[TCP] ERROR: No IP address configured!\<newline>'')] st3)
                 else tcp_retries ticks rx_state fuel [0..<5] (upd_tcb (\<lambda>t. t\<lparr>tc_local_ip := if_ip f\<rparr>) st3)))"

definition tcp_send :: "u8 list \<Rightarrow> 'w net \<Rightarrow> (int \<times> 'w net) outcome" where
  "tcp_send data st =
     (if tc_state (n_tcb st) \<noteq> TCP_ESTABLISHED then Ok (- 1, st)
      else bind_outcome (tcb_send (TCP_FLAG_PSH OR TCP_FLAG_ACK) data st) (\<lambda>st1.
        Ok (int (length data), upd_tcb (\<lambda>t. t\<lparr>tc_snd_nxt := tc_snd_nxt t + of_nat (length data)\<rparr>) st1)))"

fun tcp_wait_data :: "('w \<Rightarrow> u32 \<times> 'w) \<Rightarrow> nat \<Rightarrow> u32 \<Rightarrow> 'w net \<Rightarrow> 'w net outcome" where
  "tcp_wait_data ticks fuel start st =
     (if tc_has_data (n_tcb st) \<or> tc_state (n_tcb st) \<noteq> TCP_ESTABLISHED then Ok st
      else case fuel of
          0 \<Rightarrow> Waiting
        | Suc fuel' \<Rightarrow>
            bind_outcome (poll_until (\<lambda>st. tc_has_data (n_tcb st)) 10 0 st) (\<lambda>(count, st1).
              let (t, st2) = read_ticks ticks st1
              in if t - start > 360 then Ok st2 else tcp_wait_data ticks fuel' start st2))"

declare tcp_wait_data.simps [simp del]

text \<open>What \<^verbatim>\<open>tcp_receive\<close> does after its wait: the bytes copied to the caller's buffer.\<close>

definition tcb_take :: "u32 \<Rightarrow> tcp_block \<Rightarrow> u8 list \<times> tcp_block" where
  "tcb_take max_len t =
     (if tc_rx_len t \<le> tc_rx_processed t then ([], t)
      else
        let available = tc_rx_len t - tc_rx_processed t;
            to_copy = (if available > max_len then max_len else available);
            processed = tc_rx_processed t + to_copy
        in (take (unat to_copy) (drop (unat (tc_rx_processed t)) (tc_rx_buffer t)),
            t\<lparr>tc_rx_processed := processed,
              tc_has_data := (if processed = tc_rx_len t then False else tc_has_data t)\<rparr>))"

definition tcp_receive :: "('w \<Rightarrow> u32 \<times> 'w) \<Rightarrow> nat \<Rightarrow> u32 \<Rightarrow> 'w net \<Rightarrow> (u8 list \<times> 'w net) outcome" where
  "tcp_receive ticks fuel max_len st =
     (let (start, st1) = read_ticks ticks st
      in bind_outcome (tcp_wait_data ticks fuel start st1) (\<lambda>st2.
           let (bytes, t) = tcb_take max_len (n_tcb st2) in Ok (bytes, st2\<lparr>n_tcb := t\<rparr>)))"

definition tcp_close :: "'w net \<Rightarrow> (int \<times> 'w net) outcome" where
  "tcp_close st =
     (if tc_state (n_tcb st) = TCP_ESTABLISHED
      then bind_outcome (tcb_send (TCP_FLAG_FIN OR TCP_FLAG_ACK) [] st) (\<lambda>st1.
             Ok (0, upd_tcb (\<lambda>t. t\<lparr>tc_state := TCP_CLOSED\<rparr>) st1))
      else Ok (0, st))"

section \<open>Name resolution\<close>

definition resolved :: "'w net \<Rightarrow> bool" where
  "resolved st \<longleftrightarrow> n_dns_ip st \<noteq> 0"

fun dns_wait :: "('w \<Rightarrow> u32 \<times> 'w) \<Rightarrow> nat \<Rightarrow> u32 \<Rightarrow> 'w net \<Rightarrow> 'w net outcome" where
  "dns_wait ticks 0 start st = Waiting"
| "dns_wait ticks (Suc fuel) start st =
     (let (t, st1) = read_ticks ticks st
      in if t - start < 54
         then bind_outcome (poll_until resolved 10 0 st1) (\<lambda>(count, st2).
                if resolved st2 then Ok st2 else dns_wait ticks fuel start st2)
         else Ok st1)"

fun dns_retries :: "('w \<Rightarrow> u32 \<times> 'w) \<Rightarrow> nat \<Rightarrow> u32 \<Rightarrow> u8 list \<Rightarrow> nat \<Rightarrow> 'w net \<Rightarrow> (u32 \<times> 'w net) outcome" where
  "dns_retries ticks fuel server query 0 st = Ok (0, st)"
| "dns_retries ticks fuel server query (Suc n) st =
     (let (t, st1) = read_ticks ticks st
      in bind_outcome (udp_send_packet server 53 (52000 + ucast (t mod 1000)) query st1) (\<lambda>(result, st2).
           let (start, st3) = read_ticks ticks st2
           in bind_outcome (dns_wait ticks fuel start st3) (\<lambda>st4.
                if resolved st4 then Ok (n_dns_ip st4, st4) else dns_retries ticks fuel server query n st4)))"

definition dns_resolve :: "('w \<Rightarrow> u32 \<times> 'w) \<Rightarrow> nat \<Rightarrow> u8 list \<Rightarrow> 'w net \<Rightarrow> (u32 \<times> 'w net) outcome" where
  "dns_resolve ticks fuel hostname st =
     (if net_str_cmp (cstr (n_dns_host st)) hostname = 0 \<and> n_dns_ip st \<noteq> 0 then Ok (n_dns_ip st, st)
      else case find (\<lambda>e. net_str_cmp hostname (fst e) = 0) static_dns of
          Some (name, ip) \<Rightarrow>
            bind_outcome (net_str_copy (n_dns_host st) hostname) (\<lambda>h. Ok (ip, st\<lparr>n_dns_ip := ip, n_dns_host := h\<rparr>))
        | None \<Rightarrow>
            bind_outcome (dns_query hostname) (\<lambda>r. case r of
                None \<Rightarrow> Ok (0, st)
              | Some query \<Rightarrow>
                  (let server = (case netif_get_default st of
                                   Some i \<Rightarrow> (if if_dns (n_ifaces st ! i) \<noteq> 0 then if_dns (n_ifaces st ! i) else 0x08080808)
                                 | None \<Rightarrow> 0x08080808)
                   in bind_outcome (net_str_copy (n_dns_host st) hostname) (\<lambda>h.
                        dns_retries ticks fuel server query 5 (st\<lparr>n_dns_ip := 0, n_dns_host := h\<rparr>)))))"

section \<open>The receive buffer as a stream\<close>

text \<open>The contract of a stream buffer: what is put comes out in order, once, until the room is used up.\<close>

locale stream_buffer =
  fixes put :: "'a list \<Rightarrow> 's \<Rightarrow> 's"
    and get :: "'n \<Rightarrow> 's \<Rightarrow> 'a list \<times> 's"
    and view :: "'s \<Rightarrow> 'a list"
    and room :: "'s \<Rightarrow> nat"
    and ok :: "'s \<Rightarrow> bool"
    and size :: "'n \<Rightarrow> nat"
  assumes put_view: "ok s \<Longrightarrow> length xs < room s \<Longrightarrow> view (put xs s) = view s @ xs"
    and put_ok: "ok s \<Longrightarrow> length xs < room s \<Longrightarrow> ok (put xs s)"
    and put_room: "ok s \<Longrightarrow> length xs < room s \<Longrightarrow> room (put xs s) = room s - length xs"
    and get_out: "ok s \<Longrightarrow> fst (get n s) = take (size n) (view s)"
    and get_view: "ok s \<Longrightarrow> view (snd (get n s)) = drop (size n) (view s)"
    and get_ok: "ok s \<Longrightarrow> ok (snd (get n s))"
    and get_room: "ok s \<Longrightarrow> room (snd (get n s)) = room s"
begin

lemma get_conserves: "ok s \<Longrightarrow> fst (get n s) @ view (snd (get n s)) = view s"
  by (simp add: get_out get_view)

lemma put_then_get:
  assumes "ok s" and "length xs < room s" and "length (view s) + length xs \<le> size n"
  shows "fst (get n (put xs s)) = view s @ xs" and "view (snd (get n (put xs s))) = []"
  using assms put_view [OF assms(1,2)] get_out [OF put_ok [OF assms(1,2)]] get_view [OF put_ok [OF assms(1,2)]]
  by simp_all

end

definition unread :: "tcp_block \<Rightarrow> u8 list" where
  "unread t = drop (unat (tc_rx_processed t)) (take (unat (tc_rx_len t)) (tc_rx_buffer t))"

definition tcb_room :: "tcp_block \<Rightarrow> nat" where
  "tcb_room t = 16384 - unat (tc_rx_len t)"

definition tcb_ok :: "tcp_block \<Rightarrow> bool" where
  "tcb_ok t \<longleftrightarrow> length (tc_rx_buffer t) = 16384 \<and> unat (tc_rx_len t) < 16384 \<and>
     unat (tc_rx_processed t) \<le> unat (tc_rx_len t)"

lemma tcb_store_len:
  assumes "tcb_ok t" and "length xs < tcb_room t"
  shows "unat (tc_rx_len t + of_nat (length xs)) = unat (tc_rx_len t) + length xs"
  using assms by (simp add: tcb_ok_def tcb_room_def unat_word_ariths unat_of_nat)

lemma tcb_take_eq:
  assumes "tcb_ok t"
  shows "fst (tcb_take n t) = take (unat n) (unread t)"
    and "unat (tc_rx_processed (snd (tcb_take n t))) =
      unat (tc_rx_processed t) + min (unat n) (unat (tc_rx_len t) - unat (tc_rx_processed t))"
    and "tc_rx_len (snd (tcb_take n t)) = tc_rx_len t" and "tc_rx_buffer (snd (tcb_take n t)) = tc_rx_buffer t"
proof -
  define k p where "k = tc_rx_len t" and "p = tc_rx_processed t"
  have b: "unat k < 16384" "unat p \<le> unat k" "length (tc_rx_buffer t) = 16384"
    using assms by (auto simp: tcb_ok_def k_def p_def)
  have sub: "unat (k - p) = unat k - unat p" using b by (simp add: unat_sub word_le_nat_alt)
  define c where "c = (if k - p > n then n else k - p)"
  have c: "unat c = min (unat n) (unat k - unat p)" using sub by (simp add: c_def word_less_nat_alt)
  have pc: "unat (p + c) = unat p + unat c" using b c by (simp add: unat_word_ariths)
  have u: "unread t = take (unat k - unat p) (drop (unat p) (tc_rx_buffer t))"
    by (simp add: unread_def k_def p_def drop_take)
  show "fst (tcb_take n t) = take (unat n) (unread t)"
    using b(2) c by (simp add: tcb_take_def Let_def k_def [symmetric] p_def [symmetric] c_def [symmetric] u
        word_le_nat_alt min.commute)
  show "unat (tc_rx_processed (snd (tcb_take n t))) =
      unat (tc_rx_processed t) + min (unat n) (unat (tc_rx_len t) - unat (tc_rx_processed t))"
    using b(2) c pc by (simp add: tcb_take_def Let_def k_def [symmetric] p_def [symmetric] c_def [symmetric] word_le_nat_alt)
  show "tc_rx_len (snd (tcb_take n t)) = tc_rx_len t" and "tc_rx_buffer (snd (tcb_take n t)) = tc_rx_buffer t"
    by (simp_all add: tcb_take_def Let_def)
qed

interpretation rx: stream_buffer tcb_store tcb_take unread tcb_room tcb_ok "\<lambda>n :: u32. unat n"
proof (unfold_locales, goal_cases)
  case (1 t xs)
  then show ?case
    using tcb_store_len [OF 1] by (simp add: tcb_store_def unread_def Let_def tcb_ok_def tcb_room_def)
next
  case (2 t xs)
  then show ?case
    using tcb_store_len [OF 2] by (simp add: tcb_store_def Let_def tcb_ok_def tcb_room_def)
next
  case (3 t xs)
  then show ?case using tcb_store_len [OF 3] by (simp add: tcb_store_def Let_def tcb_room_def)
next
  case (4 t n)
  then show ?case by (rule tcb_take_eq)
next
  case (5 t n)
  then show ?case using tcb_take_eq [OF 5, of n] by (auto simp: unread_def drop_take min_def add.commute)
next
  case (6 t n)
  then show ?case using tcb_take_eq [OF 6, of n] by (auto simp: tcb_ok_def)
next
  case (7 t n)
  then show ?case using tcb_take_eq [OF 7, of n] by (simp add: tcb_room_def)
qed

section \<open>Sending keeps the connection\<close>

lemma netif_send_keeps:
  "n_tcb (snd (netif_send i data st)) = n_tcb st" "n_default (snd (netif_send i data st)) = n_default st"
  "n_arp (snd (netif_send i data st)) = n_arp st"
  by (simp_all add: netif_send_def netlog_def upd_iface_def Let_def split: option.splits prod.splits)

lemma length_tcp_header [simp]: "length (tcp_header sp dp seq ack flags c) = 20"
  by (simp add: tcp_header_def length_le)

lemma length_tcp_segment [simp]: "length (tcp_segment s d sp dp seq ack flags p) = 20 + length p"
  by (simp add: tcp_segment_def)

lemma tcb_send_keeps:
  assumes "length payload \<le> 1446"
  shows "\<exists>st1. tcb_send flags payload st = Ok st1 \<and> n_tcb st1 = n_tcb st \<and> n_arp st1 = n_arp st \<and> n_default st1 = n_default st"
proof (cases "n_default st")
  case None
  then show ?thesis by (simp add: tcb_send_def tcp_send_packet_def netif_get_default_def Let_def)
next
  case (Some i)
  show ?thesis
    using assms Some
    by (auto simp: tcb_send_def tcp_send_packet_def ip_send_def netif_get_default_def Let_def netif_send_keeps netlog_def
        split: prod.splits dest!: arg_cong [where f = snd])
qed

section \<open>Segments of an established connection\<close>

definition seg_header :: "u8 list \<Rightarrow> nat" where
  "seg_header packet = 4 * unat (drop_bit 4 (packet ! 12))"

definition seg_payload :: "u8 list \<Rightarrow> u32 \<Rightarrow> u8 list" where
  "seg_payload packet len = take (unat len - seg_header packet) (drop (seg_header packet) packet)"

definition seg_wf :: "u8 list \<Rightarrow> u32 \<Rightarrow> bool" where
  "seg_wf packet len \<longleftrightarrow> 20 \<le> unat len \<and> seg_header packet \<le> unat len \<and> unat len \<le> length packet"

lemma seg_header_bound: "seg_header packet \<le> 60"
proof -
  have "unat (drop_bit 4 (packet ! 12)) < 16"
    using u8_bound [of "packet ! 12"] by (simp add: drop_bit_eq_div unat_div less_mult_imp_div_less)
  then show ?thesis by (simp add: seg_header_def)
qed

lemma seg_len_nat:
  assumes "seg_header packet \<le> unat len"
  shows "unat (len - of_nat (seg_header packet) :: u32) = unat len - seg_header packet"
proof -
  have "unat (of_nat (seg_header packet) :: u32) = seg_header packet"
    using seg_header_bound [of packet] by (simp add: unat_of_nat)
  moreover from this assms have "of_nat (seg_header packet) \<le> len" by (simp add: word_le_nat_alt)
  ultimately show ?thesis by (simp add: unat_sub)
qed

lemma tcp_data_stored:
  assumes "tcb_ok (n_tcb st)" and "unat seg_len \<le> length data" and "length data \<le> 65536"
  shows "\<exists>st1. tcp_data data seg_len st = Ok st1 \<and> n_tcb st1 =
    (if unat seg_len < tcb_room (n_tcb st) then tcb_store (take (unat seg_len) data) (n_tcb st) else n_tcb st)"
proof -
  define k where "k = tc_rx_len (n_tcb st)"
  have k: "unat k < 16384" using assms(1) by (simp add: tcb_ok_def k_def)
  have s: "unat seg_len < 4294967296" by (rule unat_u32_bound)
  show ?thesis
  proof (cases "unat seg_len < tcb_room (n_tcb st)")
    case True
    then have lt: "unat k + unat seg_len < 16384" by (simp add: tcb_room_def k_def)
    then have "unat (k + seg_len) < 16384" by (simp add: unat_word_ariths)
    then have "k + seg_len < 16384" by (simp add: word_less_nat_alt)
    then have "tcp_data data seg_len st = tcb_send TCP_FLAG_ACK [] (upd_tcb (tcb_store (take (unat seg_len) data)) st)"
      using lt assms(2) by (simp add: tcp_data_def Let_def k_def [symmetric])
    then show ?thesis using tcb_send_keeps [of "[]" TCP_FLAG_ACK "upd_tcb (tcb_store (take (unat seg_len) data)) st"] True
      by (auto simp: upd_tcb_def)
  next
    case False
    then have "16384 \<le> unat k + unat seg_len" using k by (simp add: tcb_room_def k_def)
    moreover have "unat (k + seg_len) = unat k + unat seg_len" using k assms(2,3) by (simp add: unat_word_ariths)
    ultimately have "\<not> k + seg_len < 16384" by (simp add: word_less_nat_alt)
    then show ?thesis using False by (simp add: tcp_data_def Let_def k_def [symmetric])
  qed
qed

text \<open>A segment without FIN on an established connection.\<close>

lemma tcp_process_data:
  assumes "seg_wf packet len" and "length packet \<le> 65536" and "tcb_ok (n_tcb st)"
    and "tc_state (n_tcb st) = TCP_ESTABLISHED" and "packet ! 13 AND TCP_FLAG_FIN = 0"
  shows "\<exists>st1. tcp_process src_ip packet len st = Ok (0, st1) \<and> n_tcb st1 =
    (if seg_payload packet len \<noteq> [] \<and> length (seg_payload packet len) < tcb_room (n_tcb st)
     then tcb_store (seg_payload packet len) (n_tcb st) else n_tcb st)"
proof -
  define h sl where "h = seg_header packet" and "sl = len - of_nat h"
  have w: "20 \<le> unat len" "h \<le> unat len" "unat len \<le> length packet" using assms(1) by (auto simp: seg_wf_def h_def)
  have sl: "unat sl = unat len - h" unfolding sl_def h_def using w(2) by (intro seg_len_nat) (simp add: h_def)
  have pl: "length (seg_payload packet len) = unat sl" "seg_payload packet len = take (unat sl) (drop h packet)"
    using w sl by (simp_all add: seg_payload_def h_def)
  have ge: "\<not> len < 20" using w(1) by (simp add: word_less_nat_alt)
  have step: "tcp_process src_ip packet len st =
      bind_outcome (if sl > 0 then tcp_data (drop h packet) sl st else Ok st) (\<lambda>st1. Ok (0, st1))"
    using ge assms(4,5) by (simp add: tcp_process_def Let_def h_def [unfolded seg_header_def, symmetric] sl_def [symmetric])
  show ?thesis
  proof (cases "sl = 0")
    case True
    then show ?thesis using step pl(1) by simp
  next
    case False
    then have "0 < unat sl" by (simp add: unat_gt_0)
    then have "seg_payload packet len \<noteq> []" using pl(1) by auto
    moreover obtain st1 where "tcp_data (drop h packet) sl st = Ok st1" "n_tcb st1 =
        (if unat sl < tcb_room (n_tcb st) then tcb_store (take (unat sl) (drop h packet)) (n_tcb st) else n_tcb st)"
      using tcp_data_stored [OF assms(3), of sl "drop h packet"] diff_le_mono [OF w(3), of h] sl
        le_trans [OF diff_le_self [of "length packet" h] assms(2)] by auto
    ultimately show ?thesis using step pl False by (simp add: word_neq_0_conv)
  qed
qed

section \<open>A run of segments and reads\<close>

text \<open>
  The events of an established connection: a segment arrives, or the client reads.  The run
  returns what the client has read.
\<close>

datatype tcp_event = Segment "u8 list" u32 | Read u32

fun tcp_run :: "tcp_event list \<Rightarrow> 'w net \<Rightarrow> (u8 list \<times> 'w net) outcome" where
  "tcp_run [] st = Ok ([], st)"
| "tcp_run (Segment packet len # es) st = bind_outcome (tcp_process 0 packet len st) (\<lambda>(result, st1). tcp_run es st1)"
| "tcp_run (Read n # es) st =
     (let (bytes, t) = tcb_take n (n_tcb st)
      in bind_outcome (tcp_run es (st\<lparr>n_tcb := t\<rparr>)) (\<lambda>(out, st1). Ok (bytes @ out, st1)))"

fun event_ok :: "tcp_event \<Rightarrow> bool" where
  "event_ok (Segment packet len) \<longleftrightarrow> seg_wf packet len \<and> length packet \<le> 65536 \<and> packet ! 13 AND TCP_FLAG_FIN = 0"
| "event_ok (Read n) \<longleftrightarrow> True"

fun event_payload :: "tcp_event \<Rightarrow> u8 list" where
  "event_payload (Segment packet len) = seg_payload packet len"
| "event_payload (Read n) = []"

lemma tcb_take_state: "tc_state (snd (tcb_take n t)) = tc_state t"
  by (simp add: tcb_take_def Let_def)

lemma tcb_store_state: "tc_state (tcb_store xs t) = tc_state t"
  by (simp add: tcb_store_def Let_def)

text \<open>One segment in the view of the stream.\<close>

lemma tcp_segment_step:
  assumes "event_ok (Segment packet len)" and "tcb_ok (n_tcb st)" and "tc_state (n_tcb st) = TCP_ESTABLISHED"
    and "length (seg_payload packet len) < tcb_room (n_tcb st)"
  shows "\<exists>r st1. tcp_process 0 packet len st = Ok (r, st1) \<and> tcb_ok (n_tcb st1) \<and>
    tc_state (n_tcb st1) = TCP_ESTABLISHED \<and> unread (n_tcb st1) = unread (n_tcb st) @ seg_payload packet len \<and>
    tcb_room (n_tcb st1) = tcb_room (n_tcb st) - length (seg_payload packet len)"
proof -
  obtain st1 where st1: "tcp_process 0 packet len st = Ok (0, st1)" "n_tcb st1 =
      (if seg_payload packet len \<noteq> [] then tcb_store (seg_payload packet len) (n_tcb st) else n_tcb st)"
    using tcp_process_data [OF _ _ assms(2,3), of packet len 0] assms(1,4) by auto
  then show ?thesis
    using rx.put_view [OF assms(2,4)] rx.put_ok [OF assms(2,4)] rx.put_room [OF assms(2,4)] assms
    by (cases "seg_payload packet len = []") (simp_all add: tcb_store_state)
qed

section \<open>Frames\<close>

lemma length_ip_header [simp]: "length (ip_header tot proto src dest) = 20"
  by (simp add: ip_header_def ip_header_zero_def length_le)

lemma dest_mac_length:
  assumes "length cache = 16" and "\<forall>e \<in> set cache. length (ae_mac e) = 6"
  shows "length (dest_mac_for ip f cache) = 6"
proof -
  have "length m = 6" if "arp_resolve a cache = Some m" for a m
    using that assms find_index_Some by (fastforce simp: arp_resolve_def ARP_CACHE_SIZE_def)
  then show ?thesis by (auto simp: dest_mac_for_def split: option.splits)
qed

text \<open>A frame of the IP stack is dispatched on its protocol, with its source and payload.\<close>

lemma ip_receive_frame:
  assumes "length dmac = 6" and "length smac = 6" and "length data \<le> 1480" and "proto = 6"
  shows "ip_receive (eth_header dmac smac 0x0800 @ ip_header tot proto src dest @ data @ rest)
      (of_nat (34 + length data)) st =
    tcp_process src (data @ rest) (of_nat (length data))
      (netlog (tcp_trace (n_tcp_count st + 1)) (st\<lparr>n_tcp_count := n_tcp_count st + 1\<rparr>))"
proof -
  let ?h = "ip_header tot proto src dest"
  let ?b = "eth_header dmac smac 0x0800 @ ?h @ data @ rest"
  obtain c where h: "?h = ip_header_zero tot proto src dest c" by (simp add: ip_header_def)
  have e: "length (eth_header dmac smac 0x0800) = 14" using assms by (simp add: eth_header_def length_le)
  have ty: "un_le16 (drop 12 ?b) = htons 0x0800" using assms by (simp add: eth_header_def un_le16_le16)
  have pr: "?b ! 23 = proto" using e by (simp add: nth_append h ip_header_zero_def length_le)
  have sr: "htonl (un_le32 (drop 26 ?b)) = src" using e by (simp add: h ip_header_zero_def length_le un_le32_le32)
  have pl: "drop 34 ?b = data @ rest" using e by simp
  have u: "unat (of_nat (34 + length data) :: u32) = 34 + length data"
    unfolding unat_of_nat using assms(3) by simp
  have "\<not> (of_nat (34 + length data) :: u32) < 14" "\<not> (of_nat (34 + length data) :: u32) < 34"
    unfolding word_less_nat_alt u by simp_all
  moreover have "(of_nat (34 + length data) :: u32) - 34 = of_nat (length data)" by simp
  moreover have "htons 0x0800 \<noteq> htons 0x0806" by (simp add: htons_def)
  ultimately show ?thesis using assms(4) unfolding ip_receive_def Let_def ty pr sr pl by simp
qed

text \<open>The fields a receiver reads in a segment of \<^const>\<open>tcp_send_packet\<close>.\<close>

lemma tcp_segment_fields:
  fixes s d q a :: u32 and sp dp :: u16 and fl :: u8 and data rest :: "u8 list"
  defines "p \<equiv> tcp_segment s d sp dp q a fl data @ rest"
  shows "p ! 12 = 0x50" and "p ! 13 = fl" and "seg_header p = 20"
    and "length data \<le> 60000 \<Longrightarrow> seg_payload p (of_nat (20 + length data)) = data"
    and "length data \<le> 60000 \<Longrightarrow> seg_wf p (of_nat (20 + length data))"
proof -
  obtain c where h: "p = tcp_header sp dp q a fl c @ data @ rest" by (simp add: p_def tcp_segment_def)
  show n: "p ! 12 = 0x50" "p ! 13 = fl" by (simp_all add: h tcp_header_def nth_append length_le)
  show hd: "seg_header p = 20" by (simp add: seg_header_def n(1))
  have u: "length data \<le> 60000 \<Longrightarrow> unat (of_nat (20 + length data) :: u32) = 20 + length data"
    unfolding unat_of_nat by simp
  have dr: "drop 20 p = data @ rest" by (simp add: h)
  show "length data \<le> 60000 \<Longrightarrow> seg_payload p (of_nat (20 + length data)) = data"
    using u unfolding seg_payload_def hd dr by simp
  show "length data \<le> 60000 \<Longrightarrow> seg_wf p (of_nat (20 + length data))"
    using u unfolding seg_wf_def hd by (simp add: p_def)
qed

lemma netif_send_world:
  "data \<noteq> [] \<Longrightarrow> send_packet (n_ifaces st ! i) = Some send \<Longrightarrow>
     n_world (snd (netif_send i data st)) = snd (send data (n_world st))"
  by (simp add: netif_send_def netlog_def upd_iface_def split_def Let_def)

lemma ip_send_frame:
  assumes "n_default st = Some i" and "send_packet (n_ifaces st ! i) = Some send" and "length data \<le> 1466"
  shows "\<exists>r st1. ip_send dest_ip protocol data st = Ok (r, st1) \<and> n_tcb st1 = n_tcb st \<and>
    n_world st1 = snd (send (eth_header (dest_mac_for dest_ip (n_ifaces st ! i) (n_arp st)) (if_mac (n_ifaces st ! i)) 0x0800 @
      ip_header (20 + of_nat (length data)) protocol (if_ip (n_ifaces st ! i)) dest_ip @ data) (n_world st))"
proof -
  define frame where "frame = eth_header (dest_mac_for dest_ip (n_ifaces st ! i) (n_arp st)) (if_mac (n_ifaces st ! i)) 0x0800 @
    ip_header (20 + of_nat (length data)) protocol (if_ip (n_ifaces st ! i)) dest_ip @ data"
  have ne: "frame \<noteq> []" by (simp add: frame_def eth_header_def le16_def)
  define st0 where "st0 = (if \<not> n_shown st \<and> protocol = 6
    then netlog ([Puts (lit ''[IP] src='')] @ dotted3 (if_ip (n_ifaces st ! i)) @ [Puts (lit '' gw='')] @
      dotted3 (if_gateway (n_ifaces st ! i)) @ [Puts (lit ''\<newline>'')]) (st\<lparr>n_shown := True\<rparr>) else st)"
  have s0: "n_tcb st0 = n_tcb st" "n_world st0 = n_world st" "n_ifaces st0 = n_ifaces st"
    by (simp_all add: st0_def netlog_def)
  have "ip_send dest_ip protocol data st = Ok (netif_send i frame st0)"
    using assms(1,3) by (simp add: ip_send_def netif_get_default_def Let_def frame_def st0_def)
  then show ?thesis
    using netif_send_world [OF ne, of st0 i send] netif_send_keeps(1) [of i frame st0] assms(2) s0
    by (cases "netif_send i frame st0") (simp add: frame_def)
qed

lemma be_length [simp]: "length (be16 x) = 2"
  by (simp add: be16_def)

lemma un_be32_eq: "un_le32 (be32 x @ r) = htonl x"
  using un_le32_le32 [of "htonl x" r] by (simp add: le32_htonl)

lemma un_be16_eq: "un_le16 (be16 x @ r) = htons x"
  using un_le16_le16 [of "htons x" r] by (simp add: le16_htons)

text \<open>The fields of an ARP frame.\<close>

lemma arp_fields:
  assumes "b = macs @ be16 0x0806 @ [0, 1, 8, 0, 6, 4] @ be16 opcode @ smac @ be32 sip @ tmac @ be32 tip @ rest"
    and "length macs = 12" and "length smac = 6" and "length tmac = 6"
  shows "un_le16 (drop 12 b) = htons 0x0806" "un_le16 (drop 6 (drop 14 b)) = htons opcode"
    "take 6 (drop 8 (drop 14 b)) = smac" "un_le32 (drop 14 (drop 14 b)) = htonl sip" "un_le32 (drop 24 (drop 14 b)) = htonl tip"
  using assms(2-) unfolding assms(1) by (simp_all add: un_be16_eq un_be32_eq)

lemma ip_receive_arp:
  assumes "b = macs @ be16 0x0806 @ [0, 1, 8, 0, 6, 4] @ be16 opcode @ smac @ be32 sip @ tmac @ be32 tip @ rest"
    and "length macs = 12" and "length smac = 6" and "length tmac = 6"
    and "42 \<le> unat len" and "n_default st = Some i"
  shows "ip_receive b len st = Ok (if opcode = 1 \<and> tip = if_ip (n_ifaces st ! i)
      then (1, snd (netif_send i (arp_reply (n_ifaces st ! i) smac (htonl sip)) st))
      else if opcode = 2 then (0, st\<lparr>n_arp := arp_add_entry sip smac (n_arp st)\<rparr>) else (0, st))"
proof -
  note f = arp_fields [OF assms(1-4)]
  have l: "\<not> len < 14" "\<not> len < 42" using assms(5) by (simp_all add: word_less_nat_alt)
  have inj: "htonl tip = htonl x \<longleftrightarrow> tip = x" for x by (metis htonl_htonl)
  show ?thesis
    using l assms(6) unfolding ip_receive_def arp_process_def Let_def f netif_get_default_def by (simp add: inj)
qed

text \<open>A reference state with an established connection.\<close>

definition ref_conn :: "u8 list list net" where
  "ref_conn = ref_net\<lparr>n_tcb := (n_tcb ref_net)\<lparr>tc_state := TCP_ESTABLISHED\<rparr>\<rparr>"

lemma ref_conn_facts:
  "tcb_ok (n_tcb ref_conn)" "tc_state (n_tcb ref_conn) = TCP_ESTABLISHED" "tcb_room (n_tcb ref_conn) = 16384"
  "unread (n_tcb ref_conn) = []" "n_default ref_conn = Some 0" "n_ifaces ref_conn = replicate 4 ref_iface"
  "arp_wf (n_arp ref_conn)" "n_world ref_conn = []"
  by (auto simp: ref_conn_def ref_net_def tcb_ok_def tcb_room_def unread_def arp_wf_def intro: exI [of _ 0])

section \<open>Properties\<close>

text \<open>
  C5.  The receive side of an established connection is a byte stream.  The segments are any
  without FIN whose header is complete and not longer than the segment, and they carry, with what the
  connection has received before, fewer than 16384 bytes.  Then under every interleaving of
  their arrivals with reads no call faults, the connection stays established, and what the client has read
  followed by what is still unread is what was unread before followed by the payloads
  of the segments in the order of their arrival.
\<close>
theorem tcp_stream:
  assumes "\<forall>e \<in> set es. event_ok e" and "tcb_ok (n_tcb st)" and "tc_state (n_tcb st) = TCP_ESTABLISHED"
    and "length (concat (map event_payload es)) < tcb_room (n_tcb st)"
  shows "\<exists>out st'. tcp_run es st = Ok (out, st') \<and> tcb_ok (n_tcb st') \<and> tc_state (n_tcb st') = TCP_ESTABLISHED \<and>
    out @ unread (n_tcb st') = unread (n_tcb st) @ concat (map event_payload es)"
  using assms
proof (induction es arbitrary: st)
  case (Cons e es)
  show ?case
  proof (cases e)
    case (Segment packet len)
    then obtain r st1 where s: "tcp_process 0 packet len st = Ok (r, st1)" "tcb_ok (n_tcb st1)"
        "tc_state (n_tcb st1) = TCP_ESTABLISHED" "unread (n_tcb st1) = unread (n_tcb st) @ seg_payload packet len"
        "tcb_room (n_tcb st1) = tcb_room (n_tcb st) - length (seg_payload packet len)"
      using tcp_segment_step [of packet len st] Cons.prems by auto
    then have "length (concat (map event_payload es)) < tcb_room (n_tcb st1)" using Cons.prems(4) Segment by simp
    with s Cons.IH [of st1] Cons.prems(1) Segment show ?thesis by auto
  next
    case (Read n)
    define st1 where "st1 = st\<lparr>n_tcb := snd (tcb_take n (n_tcb st))\<rparr>"
    have "length (concat (map event_payload es)) < tcb_room (n_tcb st1)"
      using Cons.prems(2,4) Read rx.get_room by (simp add: st1_def)
    then obtain out st' where "tcp_run es st1 = Ok (out, st')" "tcb_ok (n_tcb st')" "tc_state (n_tcb st') = TCP_ESTABLISHED"
        "out @ unread (n_tcb st') = unread (n_tcb st1) @ concat (map event_payload es)"
      using Cons.IH [of st1] Cons.prems(1,2,3) rx.get_ok by (auto simp: st1_def tcb_take_state)
    then show ?thesis using Read rx.get_conserves [OF Cons.prems(2), of n]
      by (auto simp: st1_def split_def Let_def)
  qed
qed simp

theorem tcp_stream_witness:
  "\<exists>out st'. tcp_run [Segment (tcp_segment 1 2 80 10000 7 8 0x10 [104, 105]) 22, Read 1] ref_conn =
      Ok (out, st') \<and> tcb_ok (n_tcb st') \<and> tc_state (n_tcb st') = TCP_ESTABLISHED \<and>
    out @ unread (n_tcb st') = unread (n_tcb ref_conn) @ [104, 105]"
proof -
  note f = tcp_segment_fields [where s = 1 and d = 2 and sp = 80 and dp = 10000 and q = 7 and a = 8 and fl = "0x10"
      and data = "[104, 105]" and rest = "[]"]
  have ok: "event_ok (Segment (tcp_segment 1 2 80 10000 7 8 0x10 [104, 105]) 22)"
    using f(2,5) by (simp add: tcp_flags)
  have pay: "event_payload (Segment (tcp_segment 1 2 80 10000 7 8 0x10 [104, 105]) 22) =
      [104, 105]" using f(4) by simp
  show ?thesis
    using tcp_stream [of "[Segment (tcp_segment 1 2 80 10000 7 8 0x10 [104, 105]) 22, Read 1]"
        ref_conn] ok pay ref_conn_facts(1,2,3)
    by (simp del: tcp_run.simps event_ok.simps(1) event_payload.simps(1))
qed

text \<open>
  A segment whose header length exceeds the segment faults: on an established connection
  with at least as many bytes in the buffer as the header is too long, the length of the data
  wraps around, passes the test of the free space, and the copy runs over the buffer.
\<close>
theorem tcp_header_overrun:
  assumes "tc_state (n_tcb st) = TCP_ESTABLISHED" and "20 \<le> unat len" and "unat len < seg_header packet"
    and "seg_header packet - unat len \<le> unat (tc_rx_len (n_tcb st))" and "unat (tc_rx_len (n_tcb st)) < 16384"
  shows "tcp_process src_ip packet len st = Fault"
proof -
  define h k d where "h = seg_header packet" and "k = tc_rx_len (n_tcb st)" and "d = h - unat len"
  have hb: "h \<le> 60" unfolding h_def by (rule seg_header_bound)
  have len: "len = of_nat (unat len)" by simp
  have d: "0 < d" "d \<le> unat k" "d \<le> 60" using assms hb by (simp_all add: h_def k_def d_def)
  have sl: "len - of_nat h = - of_nat d"
    using assms(3) by (subst len) (simp add: d_def h_def of_nat_diff)
  have "(of_nat (4294967296 - d) :: u32) = of_nat 4294967296 - of_nat d" using d by (intro of_nat_diff) simp
  also have "(of_nat 4294967296 :: u32) = 0" by simp
  finally have "unat (- of_nat d :: u32) = unat (of_nat (4294967296 - d) :: u32)" by simp
  then have u: "unat (- of_nat d :: u32) = 4294967296 - d" using d(1) by (simp add: unat_of_nat)
  have "unat (k + - of_nat d) = unat k - d" using d by (simp add: unat_sub word_le_nat_alt unat_of_nat)
  then have lt: "k + - of_nat d < 16384" using assms(5) by (simp add: word_less_nat_alt k_def)
  have "16384 < unat k + unat (- of_nat d :: u32)" unfolding u using d by simp
  then have "tcp_data (drop h packet) (- of_nat d) st = Fault"
    using lt by (simp add: tcp_data_def Let_def k_def [symmetric])
  moreover have "(- of_nat d :: u32) > 0" using u d(3) by (simp add: word_less_nat_alt)
  moreover have "\<not> len < 20" using assms(2) by (simp add: word_less_nat_alt)
  ultimately show ?thesis
    using assms(1) unfolding tcp_process_def Let_def h_def [unfolded seg_header_def, symmetric] sl by simp
qed

theorem tcp_header_overrun_witness:
  "tcp_process 1 (replicate 12 0 @ [0x60, 0x10] @ replicate 6 0) 20 (upd_tcb (\<lambda>t. t\<lparr>tc_rx_len := 8\<rparr>) ref_conn) = Fault"
proof -
  have "seg_header (replicate 12 0 @ [0x60, 0x10] @ replicate 6 0) = 24" by (simp add: seg_header_def nth_append)
  then show ?thesis
    using ref_conn_facts(2) by (intro tcp_header_overrun) (simp_all add: upd_tcb_def)
qed

text \<open>The segment an interface and a control block give some data, and its frame.\<close>

definition data_segment :: "'w iface \<Rightarrow> tcp_block \<Rightarrow> u8 list \<Rightarrow> u8 list" where
  "data_segment f t data = tcp_segment (if_ip f) (tc_remote_ip t) (tc_local_port t) (tc_remote_port t) (tc_snd_nxt t)
     (tc_rcv_nxt t) (TCP_FLAG_PSH OR TCP_FLAG_ACK) data"

definition data_frame :: "'w iface \<Rightarrow> tcp_block \<Rightarrow> u8 list \<Rightarrow> u8 list \<Rightarrow> u8 list" where
  "data_frame f t dmac data = eth_header dmac (if_mac f) 0x0800 @
     ip_header (20 + of_nat (length (data_segment f t data))) 6 (if_ip f) (tc_remote_ip t) @ data_segment f t data"

lemma data_segment_length: "length (data_segment f t data) = 20 + length data"
  by (simp add: data_segment_def)

lemma tcp_send_sends_frame:
  assumes "n_default A = Some i" and "i < length (n_ifaces A)" and "send_packet (n_ifaces A ! i) = Some send"
    and "established A" and "length data \<le> 1446"
  shows "\<exists>A'. tcp_send data A = Ok (int (length data), A') \<and>
    n_world A' = snd (send (data_frame (n_ifaces A ! i) (n_tcb A) (dest_mac_for (tc_remote_ip (n_tcb A)) (n_ifaces A ! i) (n_arp A)) data) (n_world A)) \<and>
    tc_snd_nxt (n_tcb A') = tc_snd_nxt (n_tcb A) + of_nat (length data)"
proof -
  let ?f = "n_ifaces A ! i" and ?t = "n_tcb A"
  let ?seg = "data_segment ?f ?t data"
  obtain r A1 where A1: "ip_send (tc_remote_ip ?t) 6 ?seg A = Ok (r, A1)" "n_tcb A1 = ?t"
      "n_world A1 = snd (send (data_frame ?f ?t (dest_mac_for (tc_remote_ip ?t) ?f (n_arp A)) data) (n_world A))"
    using ip_send_frame [OF assms(1,3), of ?seg "tc_remote_ip ?t" 6] assms(5) data_segment_length [of ?f ?t data]
    by (auto simp: data_frame_def)
  then have "tcp_send data A = Ok (int (length data), upd_tcb (\<lambda>t. t\<lparr>tc_snd_nxt := tc_snd_nxt t + of_nat (length data)\<rparr>) A1)"
    using assms(1,4,5) by (simp add: tcp_send_def established_def tcb_send_def tcp_send_packet_def netif_get_default_def
        Let_def data_segment_def)
  then show ?thesis using A1(2,3) by (simp add: upd_tcb_def)
qed

lemma data_frame_received:
  assumes macs: "length dmac = 6" "length (if_mac f) = 6" and data: "length data \<le> 1446"
    and B: "established B" "tcb_ok (n_tcb B)" "length data < tcb_room (n_tcb B)" and rest: "length rest \<le> 2048"
  shows "\<exists>B'. ip_receive (data_frame f t dmac data @ rest) (of_nat (length (data_frame f t dmac data))) B = Ok (0, B') \<and>
    unread (n_tcb B') = unread (n_tcb B) @ data \<and> established B' \<and> tcb_ok (n_tcb B')"
proof -
  let ?seg = "data_segment f t data" and ?frame = "data_frame f t dmac data"
  have seg: "length ?seg = 20 + length data" by (rule data_segment_length)
  have len: "length ?frame = 34 + length ?seg" using macs by (simp add: data_frame_def eth_header_def length_le)
  define B1 where "B1 = netlog (tcp_trace (n_tcp_count B + 1)) (B\<lparr>n_tcp_count := n_tcp_count B + 1\<rparr>)"
  have b1: "n_tcb B1 = n_tcb B" by (simp add: B1_def netlog_def)
  note fields = tcp_segment_fields [where s = "if_ip f" and d = "tc_remote_ip t" and sp = "tc_local_port t"
      and dp = "tc_remote_port t" and q = "tc_snd_nxt t" and a = "tc_rcv_nxt t" and fl = "TCP_FLAG_PSH OR TCP_FLAG_ACK"
      and data = data and rest = rest, folded data_segment_def]
  have pl: "seg_payload (?seg @ rest) (of_nat (length ?seg)) = data" "seg_wf (?seg @ rest) (of_nat (length ?seg))"
    using fields(4,5) data unfolding seg by simp_all
  have "(TCP_FLAG_PSH OR TCP_FLAG_ACK) AND TCP_FLAG_FIN = 0" by (simp add: tcp_flags)
  moreover have "length (?seg @ rest) \<le> 65536" using seg data rest by simp
  ultimately obtain B' where B': "tcp_process (if_ip f) (?seg @ rest) (of_nat (length ?seg)) B1 = Ok (0, B')"
      "n_tcb B' = (if data \<noteq> [] then tcb_store data (n_tcb B) else n_tcb B)"
    using tcp_process_data [OF pl(2), of B1 "if_ip f", unfolded pl(1) b1 fields(2)] B unfolding established_def by auto
  have "ip_receive (?frame @ rest) (of_nat (length ?frame)) B = Ok (0, B')"
    using ip_receive_frame [OF macs, of ?seg 6 _ "if_ip f" "tc_remote_ip t" rest B] data seg len B'(1)
    by (simp add: data_frame_def B1_def)
  then show ?thesis using B'(2) rx.put_view [OF B(2,3)] rx.put_ok [OF B(2,3)] B
    by (cases "data = []") (simp_all add: established_def tcb_store_state)
qed

text \<open>
  C4.  End to end: what one machine sends, another one reads.  When an established
  connection sends up to 1446 bytes, the driver is given one frame; that frame, received by any
  machine with an established connection and room in its buffer, appends exactly those bytes
  to its stream.
\<close>
theorem tcp_transfer:
  fixes A :: "'a net"
  assumes "n_default A = Some i" and "i < length (n_ifaces A)" and "send_packet (n_ifaces A ! i) = Some send"
    and "length (if_mac (n_ifaces A ! i)) = 6" and "length (n_arp A) = 16" and "\<forall>e \<in> set (n_arp A). length (ae_mac e) = 6"
    and "established A" and "length data \<le> 1446"
  shows "\<exists>frame A'. tcp_send data A = Ok (int (length data), A') \<and> n_world A' = snd (send frame (n_world A)) \<and>
    tc_snd_nxt (n_tcb A') = tc_snd_nxt (n_tcb A) + of_nat (length data) \<and>
    (\<forall>(B :: 'b net) rest. established B \<longrightarrow> tcb_ok (n_tcb B) \<longrightarrow> length data < tcb_room (n_tcb B) \<longrightarrow> length rest \<le> 2048 \<longrightarrow>
      (\<exists>B'. ip_receive (frame @ rest) (of_nat (length frame)) B = Ok (0, B') \<and>
        unread (n_tcb B') = unread (n_tcb B) @ data \<and> established B' \<and> tcb_ok (n_tcb B')))"
proof -
  have "length (dest_mac_for (tc_remote_ip (n_tcb A)) (n_ifaces A ! i) (n_arp A)) = 6"
    by (rule dest_mac_length [OF assms(5,6)])
  from data_frame_received [OF this assms(4,8), where ?'b = 'b] tcp_send_sends_frame [OF assms(1-3,7,8)]
  show ?thesis by blast
qed

theorem tcp_transfer_witness:
  "\<exists>frame A'. tcp_send [104, 105] ref_conn = Ok (2, A') \<and> n_world A' = [frame] \<and>
    (\<exists>B'. ip_receive (frame @ replicate 100 0) (of_nat (length frame)) ref_conn = Ok (0, B') \<and> unread (n_tcb B') = [104, 105])"
proof -
  have arp: "length (n_arp ref_conn) = 16" "\<forall>e \<in> set (n_arp ref_conn). length (ae_mac e) = 6"
    by (simp_all add: ref_conn_def ref_net_def)
  have drv: "send_packet (n_ifaces ref_conn ! 0) = Some (\<lambda>frame sent. (0, sent @ [frame]))"
      "length (if_mac (n_ifaces ref_conn ! 0)) = 6" "0 < length (n_ifaces ref_conn)"
    by (simp_all add: ref_conn_facts ref_iface_def)
  have "established ref_conn" by (simp add: established_def ref_conn_facts)
  note tr = tcp_transfer [OF ref_conn_facts(5) drv(3,1,2) arp this, of "[104, 105]"]
  obtain frame A' where fr: "tcp_send [104, 105] ref_conn = Ok (int (length [104, 105 :: u8]), A')"
      "n_world A' = snd ((\<lambda>frame sent. (0 :: int, sent @ [frame])) frame (n_world ref_conn))"
      "\<forall>(B :: u8 list list net) rest. established B \<longrightarrow> tcb_ok (n_tcb B) \<longrightarrow> length [104, 105 :: u8] < tcb_room (n_tcb B) \<longrightarrow>
        length rest \<le> 2048 \<longrightarrow> (\<exists>B'. ip_receive (frame @ rest) (of_nat (length frame)) B = Ok (0, B') \<and>
          unread (n_tcb B') = unread (n_tcb B) @ [104, 105] \<and> established B' \<and> tcb_ok (n_tcb B'))"
    using tr by fastforce
  have "\<exists>B'. ip_receive (frame @ replicate 100 0) (of_nat (length frame)) ref_conn = Ok (0, B') \<and> unread (n_tcb B') = [104, 105]"
    using fr(3) [rule_format, of ref_conn "replicate 100 0"] \<open>established ref_conn\<close> ref_conn_facts by auto
  with fr(1,2) show ?thesis by (auto simp: ref_conn_facts)
qed

text \<open>
  C7.  The ARP exchange: a request for our address is answered with a frame that, received by
  a machine that did not know the address, makes it resolve to our hardware address.
\<close>
theorem arp_exchange:
  fixes A :: "'a net"
  assumes "n_default A = Some i" and "send_packet (n_ifaces A ! i) = Some send" and "length (if_mac (n_ifaces A ! i)) = 6"
    and "request = macs @ be16 0x0806 @ [0, 1, 8, 0, 6, 4] @ be16 1 @ rmac @ be32 rip @ tmac @ be32 (if_ip (n_ifaces A ! i)) @ pad"
    and "length macs = 12" and "length rmac = 6" and "length tmac = 6" and "42 \<le> unat len"
  shows "\<exists>reply A'. ip_receive request len A = Ok (1, A') \<and> n_world A' = snd (send reply (n_world A)) \<and>
    (\<forall>(B :: 'b net) rest. n_default B \<noteq> None \<longrightarrow> arp_wf (n_arp B) \<longrightarrow> arp_resolve (if_ip (n_ifaces A ! i)) (n_arp B) = None \<longrightarrow>
      (\<exists>B'. ip_receive (reply @ rest) (of_nat (length reply)) B = Ok (0, B') \<and>
        arp_resolve (if_ip (n_ifaces A ! i)) (n_arp B') = Some (if_mac (n_ifaces A ! i))))"
proof -
  define f where "f = n_ifaces A ! i"
  define reply where "reply = arp_reply f rmac (htonl rip)"
  have r: "reply @ rest = (rmac @ if_mac f) @ be16 0x0806 @ [0, 1, 8, 0, 6, 4] @ be16 2 @ if_mac f @ be32 (if_ip f) @
      rmac @ be32 rip @ rest" for rest
    by (simp add: reply_def arp_reply_def le16_htons le32_htonl be16_def)
  have len: "length reply = 42" using r [of "[]"] assms(3,6) by (simp add: f_def)
  have "ip_receive request len A = Ok (1, snd (netif_send i reply A))"
    using ip_receive_arp [OF assms(4-8,1)] by (simp add: reply_def f_def)
  moreover have "n_world (snd (netif_send i reply A)) = snd (send reply (n_world A))"
    using len assms(2) by (intro netif_send_world) auto
  moreover have "\<exists>B'. ip_receive (reply @ rest) (of_nat (length reply)) B = Ok (0, B') \<and>
      arp_resolve (if_ip f) (n_arp B') = Some (if_mac f)"
    if "n_default B = Some j" "arp_wf (n_arp B)" "arp_resolve (if_ip f) (n_arp B) = None" for B :: "'b net" and j rest
    using ip_receive_arp [OF r, of 42 B j rest] that(1) arp_add_new [OF that(2,3)] assms(3,6) by (simp add: f_def len)
  ultimately show ?thesis unfolding f_def by blast
qed

theorem arp_exchange_witness:
  "\<exists>reply A'. ip_receive (replicate 12 0 @ be16 0x0806 @ [0, 1, 8, 0, 6, 4] @ be16 1 @ [1, 2, 3, 4, 5, 6] @ be32 0x0A000202 @
       replicate 6 0 @ be32 (if_ip (n_ifaces ref_conn ! 0)) @ replicate 18 0) 60 ref_conn = Ok (1, A') \<and>
     n_world A' = snd ((\<lambda>frame sent. (0 :: int, sent @ [frame])) reply (n_world ref_conn)) \<and>
    (\<forall>(B :: u8 list list net) rest. n_default B \<noteq> None \<longrightarrow> arp_wf (n_arp B) \<longrightarrow>
      arp_resolve (if_ip (n_ifaces ref_conn ! 0)) (n_arp B) = None \<longrightarrow>
      (\<exists>B'. ip_receive (reply @ rest) (of_nat (length reply)) B = Ok (0, B') \<and>
        arp_resolve (if_ip (n_ifaces ref_conn ! 0)) (n_arp B') = Some (if_mac (n_ifaces ref_conn ! 0))))"
  by (rule arp_exchange [OF ref_conn_facts(5) _ _ refl]) (simp_all add: ref_conn_facts ref_iface_def)

end
