(* ===== verification/Net_Returns.thy ===== *)
theory Net_Returns
  imports Net_TCP
begin

text \<open>
  The calls of the network stack that wait, \<^verbatim>\<open>tcp_connect\<close>, \<^verbatim>\<open>tcp_receive\<close> and \<^verbatim>\<open>dns_resolve\<close> of
  \<^verbatim>\<open>src/src/tcp_ip_stack.c\<close>, return when the timer advances, whatever arrives meanwhile.

  \<open>age w\<close> is a pair: the number of ticks, counted without bound, that the timer had at its last
  reading, and how many readings may still find the same number.  A reading is the number at 32
  bits.  The code reads the timer much more often than it ticks, so readings may repeat; but after
  at most \<open>B\<close> repetitions there is a new tick, and not more than \<^verbatim>\<open>2^31\<close> of them.  \<open>returns P m\<close> says
  that the outcome \<open>m\<close> is not \<open>Waiting\<close>, and that its result satisfies \<open>P\<close> if it is one.
\<close>

definition clock_ok :: "nat \<Rightarrow> ('w \<Rightarrow> u32 \<times> 'w) \<Rightarrow> ('w \<Rightarrow> nat \<times> nat) \<Rightarrow> bool" where
  "clock_ok B ticks age \<longleftrightarrow> (\<forall>w. case (age w, age (snd (ticks w))) of ((a, k), (a1, k1)) \<Rightarrow>
     fst (ticks w) = of_nat a1 \<and> k \<le> B \<and> k1 \<le> B \<and> (a1 = a \<and> k1 < k \<or> a < a1 \<and> a1 \<le> a + 2 ^ 31))"

definition driver_ok :: "('w \<Rightarrow> nat \<times> nat) \<Rightarrow> 'w iface \<Rightarrow> bool" where
  "driver_ok age f \<longleftrightarrow> (\<forall>g data w. send_packet f = Some g \<longrightarrow> age (snd (g data w)) = age w) \<and>
     (\<forall>g n w. recv_packet f = Some g \<longrightarrow> age (snd (g n w)) = age w)"

definition timed :: "('w \<Rightarrow> nat \<times> nat) \<Rightarrow> nat \<times> nat \<Rightarrow> 'w net \<Rightarrow> bool" where
  "timed age a st \<longleftrightarrow> age (n_world st) = a \<and> (\<forall>f \<in> set (n_ifaces st). driver_ok age f) \<and>
     (\<forall>i. n_default st = Some i \<longrightarrow> i < length (n_ifaces st))"

definition returns :: "('a \<Rightarrow> bool) \<Rightarrow> 'a outcome \<Rightarrow> bool" where
  "returns P m \<longleftrightarrow> (case m of Ok x \<Rightarrow> P x | Fault \<Rightarrow> True | Waiting \<Rightarrow> False)"

lemma returns_simps [simp]: "returns P (Ok x) = P x" "returns P Fault" "\<not> returns P Waiting"
  by (simp_all add: returns_def)

lemma returns_bind:
  assumes "returns P m" and "\<And>x. P x \<Longrightarrow> returns Q (f x)"
  shows "returns Q (bind_outcome m f)"
  using assms by (cases m) auto

lemma returns_mono: "returns P m \<Longrightarrow> (\<And>x. P x \<Longrightarrow> Q x) \<Longrightarrow> returns Q m"
  by (cases m) auto

text \<open>An outcome without a state: it only has to return.\<close>

abbreviation stops :: "'a outcome \<Rightarrow> bool" where
  "stops m \<equiv> returns (\<lambda>_. True) m"

section \<open>Operations that do not wait\<close>

text \<open>
  A condition on the interfaces, the driver's world and the receive buffer that sending keeps; it
  is kept by every operation that only sends.
\<close>

locale net_invariant =
  fixes inv :: "'w net \<Rightarrow> bool"
  assumes same: "inv st \<Longrightarrow> n_ifaces st' = n_ifaces st \<Longrightarrow> n_default st' = n_default st \<Longrightarrow> n_world st' = n_world st \<Longrightarrow>
      n_rx st' = n_rx st \<Longrightarrow> inv st'"
    and send: "inv st \<Longrightarrow> n_default st = Some i \<Longrightarrow> inv (snd (netif_send i data st))"
begin

lemma unchanged:
  "n_ifaces st' = n_ifaces st \<Longrightarrow> n_default st' = n_default st \<Longrightarrow> n_world st' = n_world st \<Longrightarrow> n_rx st' = n_rx st \<Longrightarrow> inv st' = inv st"
  using same [of st st'] same [of st' st] by auto

lemma update [simp]:
  "inv (netlog es st) = inv st" "inv (st\<lparr>n_shown := b\<rparr>) = inv st" "inv (st\<lparr>n_arp := c\<rparr>) = inv st"
  "inv (st\<lparr>n_tcp_count := k\<rparr>) = inv st" "inv (st\<lparr>n_udp_count := k\<rparr>) = inv st" "inv (st\<lparr>n_dns_host := h\<rparr>) = inv st"
  "inv (st\<lparr>n_dns_ip := k\<rparr>) = inv st" "inv (upd_tcb g st) = inv st" "inv (st\<lparr>n_offered_ip := k\<rparr>) = inv st"
  "inv (st\<lparr>n_server_ip := k\<rparr>) = inv st" "inv (st\<lparr>n_tcb := t\<rparr>) = inv st" "inv (st\<lparr>n_log := l\<rparr>) = inv st" "inv (st\<lparr>n_xid := k\<rparr>) = inv st"
  by (rule unchanged; simp add: netlog_def upd_tcb_def)+

lemma ip_send: "inv st \<Longrightarrow> returns (\<lambda>(r, st). inv st) (ip_send ip p data st)"
  using send [of "netlog es (st\<lparr>n_shown := b\<rparr>)" for es b] send [of st]
  by (auto simp: ip_send_def Let_def split_def netif_get_default_def netlog_def split: option.split)

lemma tcp_send_packet: "inv st \<Longrightarrow> returns (\<lambda>(r, st). inv st) (tcp_send_packet ip dp sp seq ack flags payload st)"
  by (auto simp: tcp_send_packet_def ip_send split: option.split)

lemma tcb_send: "inv st \<Longrightarrow> returns inv (tcb_send flags payload st)"
  unfolding tcb_send_def Let_def by (rule returns_bind [OF tcp_send_packet]) auto

lemma udp_send: "inv st \<Longrightarrow> returns (\<lambda>(r, st). inv st) (udp_send_packet ip dp sp data st)"
  by (auto simp: udp_send_packet_def ip_send split: option.split)

lemma arp: "inv st \<Longrightarrow> returns (\<lambda>(r, st). inv st) (Ok (arp_process buffer len st))"
  by (auto simp: arp_process_def Let_def netif_get_default_def intro!: send split: option.split)

lemma tcp_data: "inv st \<Longrightarrow> returns inv (tcp_data data k st)"
  by (simp add: tcp_data_def Let_def tcb_send)

lemma tcp_process:
  assumes "inv st"
  shows "returns (\<lambda>(r, st). inv st) (tcp_process ip packet len st)"
proof -
  have fin: "returns (\<lambda>(r, st). inv st) (if b then bind_outcome (tcb_send fl [] (upd_tcb g st1)) (\<lambda>st2. Ok (1, upd_tcb h st2)) else Ok (0, st1))"
    if "inv st1" for b fl g h st1
    using that by (auto intro!: returns_bind [OF tcb_send])
  have syn: "returns (\<lambda>(r, st). inv st) (if b then bind_outcome (tcb_send fl [] (upd_tcb g (netlog es (netlog es' st)))) (\<lambda>st2. Ok (1, st2)) else Ok (0, netlog es' st))"
    for b fl g es es'
    using assms by (auto intro!: returns_bind [OF tcb_send])
  have data: "returns inv (if b then tcp_data d k st else Ok st)" for b d k
    using assms by (simp add: tcp_data)
  show ?thesis
  proof (cases "len < 20")
    case False
    then show ?thesis
      unfolding tcp_process_def Let_def
      using assms by (auto split del: if_split intro!: returns_bind [OF data] fin syn split: tcp_state.split)
  qed (use assms in \<open>simp add: tcp_process_def\<close>)
qed

end

lemma stops_labels: "stops (skip_labels b p)"
  by (induction b p rule: skip_labels.induct) (subst skip_labels.simps, auto)

lemma stops_questions: "stops (skip_questions b n p)"
  by (induction b n p rule: skip_questions.induct) (auto intro: returns_bind [OF stops_labels])

lemma stops_at: "stops (at b p)"
  by (simp add: at_def)

lemma stops_be16: "stops (be16_at b p)"
  unfolding be16_at_def by (auto intro!: returns_bind [OF stops_at])

lemma stops_be32: "stops (be32_at b p)"
  unfolding be32_at_def by (auto intro!: returns_bind [OF stops_at])

lemma stops_name: "stops (skip_name b p)"
  unfolding skip_name_def by (auto intro!: returns_bind [OF stops_at] returns_bind [OF stops_labels])

lemma stops_answers: "stops (dns_answers b n p)"
  by (induction b n p rule: dns_answers.induct)
    (auto intro!: returns_bind [OF stops_name] returns_bind [OF stops_be16] returns_bind [OF stops_be32])

lemma stops_response: "stops (dns_response data)"
  unfolding dns_response_def by (auto intro!: returns_bind [OF stops_questions] stops_answers)

lemma stops_read32: "stops (read32 b i)"
  by (simp add: read32_def)

lemma stops_option: "stops (dhcp_option opts k i d)"
  unfolding dhcp_option_def by (auto intro!: returns_bind [OF stops_read32])

lemma stops_options: "stops (dhcp_options opts i d)"
proof (induction opts i d rule: dhcp_options.induct)
  case (1 opts i d)
  show ?case
    using 1 stops_option [of opts "opts ! i" "i + 2" d]
    by (subst dhcp_options.simps) (auto split: outcome.split)
qed

text \<open>With a driver and a configuration that keep the condition, polling keeps it too.\<close>

locale polled_net = net_invariant +
  assumes configure: "inv st \<Longrightarrow> inv (netif_set_ip i ip m g d st)"
    and receive: "inv st \<Longrightarrow> n_default st = Some i \<Longrightarrow> inv (snd (netif_receive i k st))"
    and buffer: "inv st \<Longrightarrow> inv (st\<lparr>n_rx := b\<rparr>)"
begin

lemma dhcp: "inv st \<Longrightarrow> returns (\<lambda>(r, st). inv st) (dhcp_process i packet len st)"
  unfolding dhcp_process_def dhcp_accept_def Let_def
  by (auto intro!: returns_bind [OF stops_options] configure)

lemma udp_process: "inv st \<Longrightarrow> returns (\<lambda>(r, st). inv st) (udp_process ip packet len st)"
  unfolding udp_process_def Let_def
  by (auto intro!: returns_bind [OF stops_response] returns_bind [OF dhcp] split: option.split)

lemma ip_receive: "inv st \<Longrightarrow> returns (\<lambda>(r, st). inv st) (ip_receive buffer len st)"
  unfolding ip_receive_def Let_def
  by (auto simp del: returns_simps(1) simp: returns_simps(1) [of _ "(_, _)"] intro!: tcp_process udp_process arp)

lemma poll:
  assumes "inv st"
  shows "returns inv (netif_poll st)"
proof (cases "netif_get_default st")
  case (Some i)
  obtain len bytes st1 where r: "netif_receive i 2048 st = ((len, bytes), st1)" by (cases "netif_receive i 2048 st") auto
  have "inv (st1\<lparr>n_rx := b\<rparr>)" for b
    using buffer receive [OF assms, of i 2048] r Some by (simp add: netif_get_default_def)
  then show ?thesis using Some r by (auto simp: netif_poll_def Let_def intro!: returns_bind [OF ip_receive])
qed (simp add: netif_poll_def assms)

lemma poll_until: "inv st \<Longrightarrow> returns (\<lambda>(r, st). inv st) (poll_until stop n count st)"
  by (induction stop n count st rule: poll_until.induct) (auto intro!: returns_bind [OF poll])

end

lemma timed_upd_iface:
  assumes "timed age a st" and "\<And>f. send_packet (g f) = send_packet f \<and> recv_packet (g f) = recv_packet f"
  shows "timed age a (upd_iface i g st)"
proof (cases "i < length (n_ifaces st)")
  case True
  then have "driver_ok age (n_ifaces st ! i)" using assms(1) by (simp add: timed_def)
  then have "driver_ok age (g (n_ifaces st ! i))" using assms(2) by (simp add: driver_ok_def)
  then show ?thesis using assms(1) by (auto simp: timed_def upd_iface_def dest!: set_update_subset_insert [THEN subsetD])
qed (use assms in \<open>simp add: timed_def upd_iface_def list_update_beyond\<close>)

lemma timed_driver:
  assumes "timed age a st" and "n_default st = Some i"
  shows "driver_ok age (n_ifaces st ! i)"
  using assms by (simp add: timed_def)

interpretation timed: polled_net "timed age a" for age :: "'w \<Rightarrow> nat \<times> nat" and a
proof (unfold_locales, goal_cases)
  case (1 st st')
  then show ?case by (simp add: timed_def)
next
  case (2 st i data)
  then have "timed age a (netlog es (st\<lparr>n_world := snd (g data (n_world st))\<rparr>))" if "send_packet (n_ifaces st ! i) = Some g" for g es
    using timed_driver [OF 2] that by (simp add: timed_def driver_ok_def netlog_def)
  moreover have "timed age a (netlog es st)" for es using 2 by (simp add: timed_def netlog_def)
  ultimately show ?case by (auto simp: netif_send_def Let_def split_def intro!: timed_upd_iface split: option.split)
next
  case (3 st i ip m g d)
  then show ?case unfolding netif_set_ip_def by (intro timed_upd_iface) auto
next
  case (4 st i k)
  then have "timed age a (st\<lparr>n_world := snd (g k (n_world st))\<rparr>)" if "recv_packet (n_ifaces st ! i) = Some g" for g
    using timed_driver [OF 4] that by (simp add: timed_def driver_ok_def)
  then show ?case using 4(1) by (auto simp: netif_receive_def Let_def split_def intro!: timed_upd_iface split: option.split)
next
  case (5 st b)
  then show ?case by (simp add: timed_def)
qed

section \<open>Operations that wait\<close>

definition alive :: "('w \<Rightarrow> nat \<times> nat) \<Rightarrow> 'w net \<Rightarrow> bool" where
  "alive age st \<longleftrightarrow> (\<exists>a. timed age a st)"

lemma alive_timed: "timed age a st \<Longrightarrow> alive age st"
  unfolding alive_def by (rule exI)

lemma alive_update [simp]: "alive age (netlog es st) = alive age st" "alive age (upd_tcb g st) = alive age st"
  "alive age (st\<lparr>n_dns_host := h\<rparr>) = alive age st" "alive age (st\<lparr>n_dns_ip := k\<rparr>) = alive age st"
  "alive age (st\<lparr>n_tcb := t\<rparr>) = alive age st" "alive age (st\<lparr>n_log := l\<rparr>) = alive age st"
  "alive age (st\<lparr>n_xid := k\<rparr>) = alive age st"
  by (simp_all add: alive_def)

lemma alive_poll_until: "alive age st \<Longrightarrow> returns (\<lambda>(r, st). alive age st) (poll_until stop n count st)"
  unfolding alive_def by (elim exE) (rule returns_mono [OF timed.poll_until], auto)

lemma read_ticks_timed:
  assumes "clock_ok B ticks age" and "timed age (a, k) st" and "read_ticks ticks st = (t, st1)"
  shows "\<exists>a1 k1. timed age (a1, k1) st1 \<and> t = of_nat a1 \<and> k1 \<le> B \<and> (a1 = a \<and> k1 < k \<or> a < a1 \<and> a1 \<le> a + 2 ^ 31)"
proof -
  obtain u w where w: "ticks (n_world st) = (u, w)" by (cases "ticks (n_world st)") auto
  obtain a1 k1 where ak: "age w = (a1, k1)" by (cases "age w") auto
  have "age (n_world st) = (a, k)" using assms(2) by (simp add: timed_def)
  with assms(1) w ak have "u = of_nat a1" "k1 \<le> B" "a1 = a \<and> k1 < k \<or> a < a1 \<and> a1 \<le> a + 2 ^ 31"
    unfolding clock_ok_def by (auto dest!: spec [of _ "n_world st"])
  moreover have "t = u" "st1 = st\<lparr>n_world := w\<rparr>" using assms(3) w by (auto simp: read_ticks_def)
  ultimately show ?thesis using assms(2) ak by (intro exI [of _ a1] exI [of _ k1]) (simp add: timed_def)
qed

lemma read_ticks_alive:
  assumes "clock_ok B ticks age" and "alive age st" and "read_ticks ticks st = (t, st1)"
  shows "\<exists>a k. timed age (a, k) st1 \<and> t = of_nat a \<and> k \<le> B"
  using assms(2) read_ticks_timed [OF assms(1) _ assms(3)] unfolding alive_def by fast

text \<open>The number of readings a wait of \<open>T\<close> ticks since \<open>s\<close> may still make, and that it falls.\<close>

definition readings_left :: "nat \<Rightarrow> nat \<Rightarrow> nat \<Rightarrow> nat \<Rightarrow> nat \<Rightarrow> nat" where
  "readings_left B T s a k = (s + T - a) * (B + 1) + k"

lemma readings_fall:
  assumes "a1 = a \<and> k1 < k \<or> a < a1" and "k1 \<le> B" and "a1 \<le> s + T"
  shows "readings_left B T s a1 k1 < readings_left B T s a k"
proof (cases "a1 = a")
  case False
  then have "(s + T - a1) + 1 \<le> s + T - a" using assms(1,3) by linarith
  from mult_le_mono1 [OF this, of "B + 1"] assms(2) show ?thesis by (simp add: readings_left_def)
qed (use assms(1) in \<open>simp add: readings_left_def\<close>)

lemma readings_start: "k \<le> B \<Longrightarrow> (T + 1) * (B + 1) \<le> fuel \<Longrightarrow> readings_left B T s s k < fuel"
  by (simp add: readings_left_def)

lemma elapsed:
  assumes "s \<le> a" and "a < s + 2 ^ 32"
  shows "unat (of_nat a - of_nat s :: u32) = a - s"
proof -
  have e: "(of_nat a :: u32) - of_nat s = of_nat (a - s)" using assms(1) by (simp add: of_nat_diff)
  show ?thesis unfolding e unat_of_nat using assms by simp
qed

lemma wait_syn_returns:
  assumes c: "clock_ok B ticks age"
  shows "timed age (a, k) st \<Longrightarrow> s \<le> a \<Longrightarrow> a \<le> s + 90 \<Longrightarrow> readings_left B 90 s a k < fuel \<Longrightarrow>
    returns (\<lambda>(ok, st1). alive age st1 \<and> (ok \<longrightarrow> established st1)) (tcp_wait_syn ticks rx fuel (of_nat s) count st)"
proof (induction fuel arbitrary: a k st count)
  case (Suc fuel)
  show ?case
    unfolding tcp_wait_syn.simps
  proof (rule returns_bind [OF timed.poll_until [OF Suc.prems(1)]], clarify)
    fix n st1
    assume t1: "timed age (a, k) st1"
    show "returns (\<lambda>(ok, st1). alive age st1 \<and> (ok \<longrightarrow> established st1)) (if established st1
        then Ok (True, netlog [Puts (lit ''[TCP] Connection established after ''),
               Puts (map (\<lambda>k. 48 + of_nat (n div k mod 10)) [1000, 100, 10, 1]), Puts (lit '' polls\<newline>'')] st1)
        else let (t, st2) = read_ticks ticks st1 in if t - of_nat s > 90
             then Ok (False, netlog ([Puts (lit ''[TCP] Timeout - no SYN-ACK received\<newline>'')] @ rx (n_world st2)) st2)
             else tcp_wait_syn ticks rx fuel (of_nat s) n st2)"
    proof (cases "established st1")
      case True
      then show ?thesis using t1 by (auto simp: alive_timed established_def netlog_def alive_def timed_def)
    next
      case False
      obtain t st2 where r: "read_ticks ticks st1 = (t, st2)" by (cases "read_ticks ticks st1") auto
      from read_ticks_timed [OF c t1 r] obtain a2 k2 where a2: "timed age (a2, k2) st2" "t = of_nat a2"
        "k2 \<le> B" "a2 = a \<and> k2 < k \<or> a < a2 \<and> a2 \<le> a + 2 ^ 31" by blast
      have u: "unat (t - of_nat s) = a2 - s" unfolding a2(2) using a2 Suc.prems by (intro elapsed) auto
      show ?thesis
      proof (cases "t - of_nat s > 90")
        case True
        then show ?thesis using False r a2(1) by (auto dest: alive_timed)
      next
        case le: False
        then have b: "a2 \<le> s + 90" using u by (simp add: word_less_nat_alt)
        have "readings_left B 90 s a2 k2 < fuel"
          using readings_fall [of a2 a k2 k B s 90] a2(3,4) b Suc.prems(4) by linarith
        then show ?thesis using False r le Suc.IH [OF a2(1)] a2(4) b Suc.prems(2) by auto
      qed
    qed
  qed
qed simp

definition connect_result :: "('w \<Rightarrow> nat \<times> nat) \<Rightarrow> int \<times> 'w net \<Rightarrow> bool" where
  "connect_result age x \<longleftrightarrow> (case x of (r, st) \<Rightarrow> alive age st \<and>
     (r = 0 \<and> established st \<or> r = - 1 \<and> tc_state (n_tcb st) = TCP_CLOSED))"

lemma connect_result_ok: "alive age st \<Longrightarrow> established st \<Longrightarrow> connect_result age (0, st)"
  by (simp add: connect_result_def)

lemma connect_result_failed: "alive age st \<Longrightarrow> tc_state (n_tcb st) = TCP_CLOSED \<Longrightarrow> connect_result age (- 1, netlog es st)"
  by (simp add: connect_result_def) (simp add: netlog_def)

lemma retries_return:
  assumes c: "clock_ok B ticks age" and f: "91 * (B + 1) \<le> fuel"
  shows "alive age st \<Longrightarrow> returns (connect_result age) (tcp_retries ticks rx fuel rs st)"
proof (induction rs arbitrary: st)
  case Nil
  then show ?case by (auto intro!: connect_result_failed simp: upd_tcb_def alive_def timed_def)
next
  case (Cons retry rs)
  define st1 where "st1 = (if retry > 0 then netlog [Puts (lit ''[TCP] Retry ''), Putc (48 + of_nat retry), Puts (lit ''/5...\<newline>'')] st else st)"
  have "alive age st1" using Cons.prems by (simp add: st1_def)
  then obtain a where a: "timed age a st1" unfolding alive_def by blast
  have wait: "returns (connect_result age) (let (start, st3) = read_ticks ticks (upd_tcb g st2)
      in bind_outcome (tcp_wait_syn ticks rx fuel start 0 st3) (\<lambda>(ok, st4). if ok then Ok (0, st4) else tcp_retries ticks rx fuel rs st4))"
    if t2: "timed age a st2" for st2 g
  proof -
    obtain start st3 where r: "read_ticks ticks (upd_tcb g st2) = (start, st3)" by (cases "read_ticks ticks (upd_tcb g st2)") auto
    from read_ticks_alive [OF c _ r] t2 obtain s k where s: "timed age (s, k) st3" "start = of_nat s" "k \<le> B"
      by (auto dest: alive_timed)
    show ?thesis
      unfolding r Let_def prod.case s(2)
      by (rule returns_bind [OF wait_syn_returns [OF c s(1) _ _ readings_start [OF s(3)]]])
        (use f in \<open>auto intro: Cons.IH connect_result_ok\<close>)
  qed
  show ?case
    unfolding tcp_retries.simps Let_def st1_def [symmetric]
  proof (rule returns_bind [OF timed.tcp_send_packet [OF a]], clarify)
    fix sent st2
    assume t2: "timed age a st2"
    then have "returns (connect_result age) (tcp_retries ticks rx fuel rs (netlog es st2))" for es
      by (intro Cons.IH) (simp add: alive_timed)
    then show "returns (connect_result age) (if sent < 0
        then tcp_retries ticks rx fuel rs (netlog [Puts (lit ''[TCP] ERROR: Failed to send SYN packet!\<newline>'')] st2)
        else case read_ticks ticks (upd_tcb (tc_state_update (\<lambda>_. TCP_SYN_SENT)) st2) of
          (start, st3) \<Rightarrow> bind_outcome (tcp_wait_syn ticks rx fuel start 0 st3)
             (\<lambda>(ok, st4). if ok then Ok (0, st4) else tcp_retries ticks rx fuel rs st4))"
      using wait [OF t2] by (simp add: Let_def)
  qed
qed

lemma wait_data_returns:
  assumes c: "clock_ok B ticks age"
  shows "timed age (a, k) st \<Longrightarrow> s \<le> a \<Longrightarrow> a \<le> s + 360 \<Longrightarrow> readings_left B 360 s a k < fuel \<Longrightarrow>
    returns (alive age) (tcp_wait_data ticks fuel (of_nat s) st)"
proof (induction fuel arbitrary: a k st)
  case (Suc fuel)
  have step: "returns (alive age) (case read_ticks ticks st1 of (t, st2) \<Rightarrow> if t - of_nat s > 360 then Ok st2
      else tcp_wait_data ticks fuel (of_nat s) st2)" if t1: "timed age (a, k) st1" for st1
  proof -
    obtain t st2 where r: "read_ticks ticks st1 = (t, st2)" by (cases "read_ticks ticks st1") auto
    from read_ticks_timed [OF c t1 r] obtain a2 k2 where a2: "timed age (a2, k2) st2" "t = of_nat a2"
      "k2 \<le> B" "a2 = a \<and> k2 < k \<or> a < a2 \<and> a2 \<le> a + 2 ^ 31" by blast
    have u: "unat (t - of_nat s) = a2 - s" unfolding a2(2) using a2 Suc.prems by (intro elapsed) auto
    show ?thesis
    proof (cases "t - of_nat s > 360")
      case True
      then show ?thesis using r a2(1) by (auto dest: alive_timed)
    next
      case le: False
      then have b: "a2 \<le> s + 360" using u by (simp add: word_less_nat_alt)
      have "readings_left B 360 s a2 k2 < fuel"
        using readings_fall [of a2 a k2 k B s 360] a2(3,4) b Suc.prems(4) by linarith
      then show ?thesis using r le Suc.IH [OF a2(1)] a2(4) b Suc.prems(2) by auto
    qed
  qed
  show ?case
    using alive_timed [OF Suc.prems(1)]
    by (auto simp: tcp_wait_data.simps [of ticks "Suc fuel"] Let_def intro!: step returns_bind [OF timed.poll_until [OF Suc.prems(1)]])
qed simp

lemma dns_wait_returns:
  assumes c: "clock_ok B ticks age"
  shows "timed age (a, k) st \<Longrightarrow> s \<le> a \<Longrightarrow> a \<le> s + 54 \<Longrightarrow> readings_left B 54 s a k < fuel \<Longrightarrow>
    returns (alive age) (dns_wait ticks fuel (of_nat s) st)"
proof (induction fuel arbitrary: a k st)
  case (Suc fuel)
  obtain t st1 where r: "read_ticks ticks st = (t, st1)" by (cases "read_ticks ticks st") auto
  from read_ticks_timed [OF c Suc.prems(1) r] obtain a1 k1 where a1: "timed age (a1, k1) st1" "t = of_nat a1"
    "k1 \<le> B" "a1 = a \<and> k1 < k \<or> a < a1 \<and> a1 \<le> a + 2 ^ 31" by blast
  have u: "unat (t - of_nat s) = a1 - s" unfolding a1(2) using a1 Suc.prems by (intro elapsed) auto
  have "returns (alive age) (dns_wait ticks fuel (of_nat s) st2)" if "timed age (a1, k1) st2" "t - of_nat s < 54" for st2
  proof -
    have b: "a1 \<le> s + 54" using that(2) u by (simp add: word_less_nat_alt)
    have "readings_left B 54 s a1 k1 < fuel"
      using readings_fall [of a1 a k1 k B s 54] a1(3,4) b Suc.prems(4) by linarith
    then show ?thesis using Suc.IH [OF that(1)] a1(4) b Suc.prems(2) by auto
  qed
  then show ?case
    using r a1(1) by (auto intro!: returns_bind [OF timed.poll_until [OF a1(1)]] dest: alive_timed)
qed simp

lemma dns_retries_return:
  assumes c: "clock_ok B ticks age" and f: "55 * (B + 1) \<le> fuel"
  shows "alive age st \<Longrightarrow> returns (\<lambda>(ip, st1). alive age st1) (dns_retries ticks fuel server query n st)"
proof (induction n arbitrary: st)
  case (Suc n)
  obtain t st1 where r: "read_ticks ticks st = (t, st1)" by (cases "read_ticks ticks st") auto
  from read_ticks_alive [OF c Suc.prems r] obtain a1 where a1: "timed age a1 st1" by blast
  have wait: "returns (\<lambda>(ip, st1). alive age st1) (case read_ticks ticks st2 of (start, st3) \<Rightarrow>
      bind_outcome (dns_wait ticks fuel start st3) (\<lambda>st4. if resolved st4 then Ok (n_dns_ip st4, st4) else dns_retries ticks fuel server query n st4))"
    if t2: "timed age a1 st2" for st2
  proof -
    obtain start st3 where r2: "read_ticks ticks st2 = (start, st3)" by (cases "read_ticks ticks st2") auto
    from read_ticks_alive [OF c alive_timed [OF t2] r2] obtain s k where s: "timed age (s, k) st3" "start = of_nat s" "k \<le> B" by blast
    show ?thesis
      unfolding r2 prod.case s(2)
      by (rule returns_bind [OF dns_wait_returns [OF c s(1) _ _ readings_start [OF s(3)]]]) (use f Suc.IH in auto)
  qed
  show ?case using r by (auto simp: Let_def intro!: returns_bind [OF timed.udp_send [OF a1]] wait)
qed simp

lemma stops_copy: "stops (net_str_copy dest src)"
  by (simp add: net_str_copy_def)

lemma stops_qname: "stops (dns_qname p q)"
proof (induction p q rule: dns_qname.induct)
  case (1 p q)
  then show ?case by (subst dns_qname.simps) (auto simp: Let_def intro: returns_bind)
qed

lemma stops_query: "stops (dns_query hostname)"
  unfolding dns_query_def by (auto intro!: returns_bind [OF stops_qname])

lemma tcp_connect_returns:
  assumes "clock_ok B ticks age" and "alive age st" and "91 * (B + 1) \<le> fuel"
  shows "returns (connect_result age) (tcp_connect ticks rx fuel ip port st)"
proof -
  obtain t1 st1 where r1: "read_ticks ticks st = (t1, st1)" by (cases "read_ticks ticks st") auto
  obtain t2 st2 where r2: "read_ticks ticks st1 = (t2, st2)" by (cases "read_ticks ticks st1") auto
  from read_ticks_alive [OF assms(1,2) r1] have "alive age st1" by (auto dest: alive_timed)
  from read_ticks_alive [OF assms(1) this r2] have a: "alive age st2" by (auto dest: alive_timed)
  define st3 where "st3 = upd_tcb (\<lambda>t. t\<lparr>tc_state := TCP_CLOSED, tc_rx_len := 0, tc_rx_processed := 0, tc_has_data := False,
      tc_remote_ip := ip, tc_remote_port := port, tc_local_port := ucast (10000 + t1 mod 50000), tc_snd_nxt := t2, tc_rcv_nxt := 0\<rparr>) st2"
  have st3: "alive age st3" "tc_state (n_tcb st3) = TCP_CLOSED" using a by (simp add: st3_def) (simp add: st3_def upd_tcb_def)
  show ?thesis
    unfolding tcp_connect_def r1 r2 Let_def prod.case st3_def [symmetric]
    using st3 by (auto intro!: connect_result_failed retries_return assms split: option.split)
qed

lemma tcp_receive_returns:
  assumes "clock_ok B ticks age" and "alive age st" and "361 * (B + 1) \<le> fuel"
  shows "returns (\<lambda>(bytes, st1). alive age st1) (tcp_receive ticks fuel k st)"
proof -
  obtain start st1 where r: "read_ticks ticks st = (start, st1)" by (cases "read_ticks ticks st") auto
  from read_ticks_alive [OF assms(1,2) r] obtain s k where s: "timed age (s, k) st1" "start = of_nat s" "k \<le> B" by blast
  show ?thesis
    unfolding tcp_receive_def r Let_def prod.case s(2)
    by (rule returns_bind [OF wait_data_returns [OF assms(1) s(1) _ _ readings_start [OF s(3)]]])
      (use assms(3) in \<open>auto split: prod.split\<close>)
qed

lemma dns_resolve_returns:
  assumes "clock_ok B ticks age" and "alive age st" and "55 * (B + 1) \<le> fuel"
  shows "returns (\<lambda>(ip, st1). alive age st1) (dns_resolve ticks fuel host st)"
  unfolding dns_resolve_def Let_def
  using assms by (auto intro!: returns_bind [OF stops_copy] returns_bind [OF stops_query] dns_retries_return split: option.split)

text \<open>
  C13.  The waiting calls return.  With a timer that the calls may read up to \<open>B\<close> times between two
  ticks, as often as a busy loop reads a counter that an interrupt advances, and with a driver that
  returns, connecting, receiving and resolving a name come back within \<^verbatim>\<open>361 * (B + 1)\<close> rounds of
  each wait, whatever frames arrive, unless a frame makes them leave a buffer; a connection is
  established exactly when \<^verbatim>\<open>tcp_connect\<close> returns 0, and closed when it returns -1.
\<close>
theorem waiting_calls_return:
  assumes "clock_ok B ticks age" and "timed age a st" and "361 * (B + 1) \<le> fuel"
  shows "tcp_connect ticks rx fuel ip port st \<noteq> Waiting \<and>
    (\<forall>r st1. tcp_connect ticks rx fuel ip port st = Ok (r, st1) \<longrightarrow>
       (r = 0 \<and> established st1) \<or> (r = - 1 \<and> tc_state (n_tcb st1) = TCP_CLOSED)) \<and>
    tcp_receive ticks fuel max_len st \<noteq> Waiting \<and> dns_resolve ticks fuel host st \<noteq> Waiting"
  using tcp_connect_returns [OF assms(1) alive_timed [OF assms(2)], of fuel rx ip port]
    tcp_receive_returns [OF assms(1) alive_timed [OF assms(2)], of fuel max_len]
    dns_resolve_returns [OF assms(1) alive_timed [OF assms(2)], of fuel host] assms(3)
  by (auto simp: connect_result_def)

text \<open>
  A machine whose driver drops what is sent and receives nothing.  Its world counts the readings
  of the timer, which ticks at every hundredth of them.
\<close>

definition quiet_iface :: "nat iface" where
  "quiet_iface = \<lparr>if_name = lit ''eth0'', if_mac = replicate 6 1, if_ip = 0x0A00020F, if_netmask = 0xFFFFFF00, if_gateway = 0x0A000202,
     if_dns = 0, if_link_up = True, tx_packets = 0, rx_packets = 0, tx_bytes = 0, rx_bytes = 0, tx_errors = 0, rx_errors = 0,
     send_packet = Some (\<lambda>data w. (int (length data), w)), recv_packet = Some (\<lambda>n w. ((0, []), w))\<rparr>"

definition quiet_net :: "nat net" where
  "quiet_net = \<lparr>n_ifaces = [quiet_iface], n_num = 1, n_default = Some 0, n_arp = [], n_shown = False, n_tcp_count = 0, n_udp_count = 0,
     n_dns_host = replicate 64 0, n_dns_ip = 0, n_tcb = n_tcb ref_net, n_xid = 0, n_offered_ip = 0, n_server_ip = 0, n_rx = replicate 2048 0,
     n_log = [], n_world = 0\<rparr>"

definition quiet_ticks :: "nat \<Rightarrow> u32 \<times> nat" where
  "quiet_ticks w = (of_nat ((w + 1) div 100), w + 1)"

definition quiet_age :: "nat \<Rightarrow> nat \<times> nat" where
  "quiet_age w = (w div 100, 99 - w mod 100)"

lemma quiet_clock: "clock_ok 99 quiet_ticks quiet_age"
proof -
  have "Suc w div 100 = w div 100 \<and> 99 - Suc w mod 100 < 99 - w mod 100 \<or> Suc w div 100 = Suc (w div 100)" for w :: nat
  proof -
    have "w mod 100 < 100" by simp
    then show ?thesis by (auto simp: div_Suc mod_Suc)
  qed
  then have "Suc w div 100 = w div 100 \<and> 99 - Suc w mod 100 < 99 - w mod 100 \<or>
      w div 100 < Suc w div 100 \<and> Suc w div 100 \<le> w div 100 + 2 ^ 31" for w :: nat
    by (metis Suc_eq_plus1 add_left_mono lessI one_le_numeral one_le_power)
  then show ?thesis unfolding clock_ok_def quiet_ticks_def quiet_age_def by simp
qed

lemma quiet_timed: "timed quiet_age (0, 99) quiet_net"
  by (simp add: timed_def quiet_net_def driver_ok_def quiet_iface_def quiet_age_def)

theorem waiting_calls_return_witness:
  "tcp_connect quiet_ticks (\<lambda>_. []) 36100 0x5DB8D822 80 quiet_net \<noteq> Waiting \<and>
    tcp_receive quiet_ticks 36100 100 quiet_net \<noteq> Waiting \<and> dns_resolve quiet_ticks 36100 (lit ''a.org'') quiet_net \<noteq> Waiting"
  using waiting_calls_return [OF quiet_clock quiet_timed, of 36100 "\<lambda>_. []" "0x5DB8D822" 80 100 "lit ''a.org''"] by simp

end
