(* ===== verification/Cmd_Net.thy ===== *)
theory Cmd_Net
  imports Cmd_Dispatch Net_Returns
begin

text \<open>
  The network commands of \<^verbatim>\<open>src/src/commands.c\<close>: WGET (arguments, URL, request, download, body and
  file), NETSTART and WIFITEST.  The machine of the command interpreter is a pair here, the disk and
  the network stack; what the stack prints goes to the console in its place.  The driver, the timer
  and the allocator are the record \<open>net_env\<close>.
\<close>

record 'w net_env =
  ne_ticks :: "'w \<Rightarrow> u32 \<times> 'w"
  ne_rx_state :: "'w \<Rightarrow> console_event list"
  ne_fuel :: nat
  ne_heap_ok :: bool
  ne_driver_init :: "'w net \<Rightarrow> int \<times> 'w net"
  ne_driver_test :: "'w net \<Rightarrow> int \<times> 'w net"

type_synonym ('e, 'w) net_state = "('e \<times> 'w net) cmd_state"

definition on_net :: "('w net \<Rightarrow> ('a \<times> 'w net) outcome) \<Rightarrow> ('e, 'w) net_state \<Rightarrow> ('a \<times> ('e, 'w) net_state) outcome" where
  "on_net f st =
     (let (e, n) = dev st
      in bind_outcome (f (n\<lparr>n_log := []\<rparr>)) (\<lambda>(r, n1). Ok (r, emit (n_log n1) (st\<lparr>dev := (e, n1\<lparr>n_log := []\<rparr>)\<rparr>))))"

definition colored :: "u8 \<Rightarrow> string list \<Rightarrow> console_event list" where
  "colored attr ts = [SetAttr attr] @ map (\<lambda>t. Puts (lit t)) ts @ [SetAttr 0x07]"

definition octet_text :: "u32 \<Rightarrow> nat \<Rightarrow> u8 list" where
  "octet_text ip k = int_to_str (drop_bit k ip AND 0xFF)"

definition ip_text :: "u32 \<Rightarrow> console_event list" where
  "ip_text ip = [Puts (octet_text ip 24), Puts (lit ''.''), Puts (octet_text ip 16), Puts (lit ''.''),
     Puts (octet_text ip 8), Puts (lit ''.''), Puts (octet_text ip 0), Puts (lit ''\<newline>'')]"

section \<open>WGET: arguments and URL\<close>

text \<open>The URL and the output file; a later word replaces an earlier URL.\<close>

function wget_args :: "u8 list \<Rightarrow> u8 list \<Rightarrow> u8 list \<Rightarrow> u8 list \<times> u8 list" where
  "wget_args p url out =
     (if p = [] then (url, out)
      else case get_token p 128 of (token, p1) \<Rightarrow>
        if token = [] then (url, out)
        else if str_cmp token (lit ''-filename'') = 0 \<or> str_cmp token (lit ''-O'') = 0
        then (if p1 \<noteq> [] then case get_token p1 64 of (o1, p2) \<Rightarrow> wget_args p2 url o1 else wget_args p1 url out)
        else wget_args p1 token out)"
  by pat_completeness auto
termination
proof (relation "measure (\<lambda>(p, url, out). length p)", goal_cases)
  case (2 p url out token p1 o1 p2)
  have "length p1 < length p" by (rule get_token_shorter [of p 128 token p1]) (use 2 in simp_all)
  moreover have "length p2 \<le> length p1" using get_token_spec [of p1 64 o1 p2] 2(6) by auto
  ultimately show ?case by simp
next
  case (3 p url out token p1)
  have "length p1 < length p" by (rule get_token_shorter [of p 128 token p1]) (use 3 in simp_all)
  then show ?case by simp
next
  case (4 p url out token p1)
  have "length p1 < length p" by (rule get_token_shorter [of p 128 token p1]) (use 4 in simp_all)
  then show ?case by simp
qed simp

declare wget_args.simps [simp del]

definition url_rest :: "u8 list \<Rightarrow> u8 list \<times> bool" where
  "url_rest url =
     (if take 7 url = lit ''http://'' then (drop 7 url, False)
      else if take 8 url = lit ''https://'' then (drop 8 url, True)
      else (url, False))"

definition url_host :: "u8 list \<Rightarrow> u8 list" where
  "url_host rest = take 127 (takeWhile (\<lambda>c. c \<noteq> chr CHR ''/'' \<and> c \<noteq> chr CHR '':'') rest)"

definition url_path :: "u8 list \<Rightarrow> u8 list" where
  "url_path rest =
     (let r = drop (length (url_host rest)) rest
      in if r \<noteq> [] \<and> hd r = chr CHR ''/'' then take 127 r else lit ''/'')"

definition is_dotted :: "u8 list \<Rightarrow> bool" where
  "is_dotted host \<longleftrightarrow> (\<forall>c \<in> set host. \<not> (sint c < 48 \<or> sint c > 57) \<or> c = chr CHR ''.'')"

text \<open>The numbers between the dots, in an array of four that has no bound check.\<close>

fun ip_parts :: "u8 list \<Rightarrow> u32 list \<Rightarrow> nat \<Rightarrow> u32 \<Rightarrow> u32 list outcome" where
  "ip_parts [] parts idx val = (if idx < length parts then Ok (parts[idx := val]) else Fault)"
| "ip_parts (c # s) parts idx val =
     (if c = chr CHR ''.''
      then if idx < length parts then ip_parts s (parts[idx := val]) (idx + 1) 0 else Fault
      else ip_parts s parts idx (val * 10 + (ucast c - 48)))"

definition parse_ip :: "u8 list \<Rightarrow> u32 outcome" where
  "parse_ip host = bind_outcome (ip_parts host [0, 0, 0, 0] 0 0) (\<lambda>p.
     Ok (push_bit 24 (p ! 0) OR push_bit 16 (p ! 1) OR push_bit 8 (p ! 2) OR p ! 3))"

section \<open>WGET: request, response, file name\<close>

definition append_upto :: "nat \<Rightarrow> u8 list \<Rightarrow> u8 list \<Rightarrow> u8 list" where
  "append_upto n req s = req @ take (n - length req) s"

definition crlf :: "u8 list" where "crlf = [13, 10]"

definition wget_request :: "u8 list \<Rightarrow> u8 list \<Rightarrow> u8 list" where
  "wget_request host path =
     (let r1 = append_upto 500 (lit ''GET '') path;
          r2 = append_upto 500 r1 (lit '' HTTP/1.0'' @ crlf @ lit ''Host: '');
          r3 = append_upto 500 r2 host
      in append_upto 511 r3 (crlf @ lit ''User-Agent: RO-DOS/1.1'' @ crlf @ lit ''Connection: close'' @ crlf @
           lit ''Accept: */*'' @ crlf @ crlf))"

definition http_body :: "u8 list \<Rightarrow> u8 list" where
  "http_body d =
     (case find (\<lambda>i. take 4 (drop i d) = [13, 10, 13, 10]) [0..<length d - 3] of
        Some i \<Rightarrow> drop (i + 4) d
      | None \<Rightarrow>
          (case find (\<lambda>i. take 2 (drop i d) = [10, 10]) [0..<length d - 1] of
             Some i \<Rightarrow> drop (i + 2) d
           | None \<Rightarrow> d))"

text \<open>What follows the last slash of the path, up to a question mark.\<close>

definition wget_name :: "u8 list \<Rightarrow> u8 list" where
  "wget_name path =
     (let s = rev (takeWhile (\<lambda>c. c \<noteq> chr CHR ''/'') (rev path))
      in if s \<noteq> [] \<and> hd s \<noteq> chr CHR ''?'' then take 63 (takeWhile (\<lambda>c. c \<noteq> chr CHR ''?'') s) else lit ''index.html'')"

definition DOWNLOAD_BUF_SIZE :: nat where "DOWNLOAD_BUF_SIZE = 1024 * 1024"

definition progress :: "nat \<Rightarrow> nat \<Rightarrow> console_event list" where
  "progress before total_recvd = concat (map (\<lambda>k. Putc (chr CHR ''.'') # (if Suc k mod 50 = 0 then [Puts (lit ''\<newline>'')] else []))
     [before div 1024..<total_recvd div 1024])"

function wget_download :: "'w net_env \<Rightarrow> u8 list \<Rightarrow> ('e, 'w) net_state \<Rightarrow> (u8 list \<times> ('e, 'w) net_state) outcome" where
  "wget_download env buf st =
     (if length buf < DOWNLOAD_BUF_SIZE
      then bind_outcome (on_net (tcp_receive (ne_ticks env) (ne_fuel env) (of_nat (DOWNLOAD_BUF_SIZE - length buf))) st)
        (\<lambda>x. case x of (bytes, st1) \<Rightarrow>
           if bytes = [] then Ok (buf, st1)
           else wget_download env (buf @ bytes) (emit (progress (length buf) (length buf + length bytes)) st1))
      else Ok (buf, st))"
  by pat_completeness auto
termination by (relation "measure (\<lambda>(env, buf, st). DOWNLOAD_BUF_SIZE - length buf)") (auto intro!: diff_less_mono2)

declare wget_download.simps [simp del]

section \<open>WGET\<close>

text \<open>Connection, request and download, from the line that announces the connection.\<close>

definition wget_fetch :: "'w net_env \<Rightarrow> u32 \<Rightarrow> u8 list \<Rightarrow> u8 list \<Rightarrow> ('e, 'w) net_state \<Rightarrow> (u8 list option \<times> ('e, 'w) net_state) outcome" where
  "wget_fetch env ip host path st =
     (let st1 = emit [SetAttr 0x0B, Puts (lit ''Connecting to ''), Puts host, Puts (lit '':80...\<newline>''), SetAttr 0x07] st
      in bind_outcome (on_net (tcp_connect (ne_ticks env) (ne_rx_state env) (ne_fuel env) ip 80) st1) (\<lambda>(sock, st2).
           if sock < 0 then Ok (None, emit (colored 0x0C [''ERROR: Connection failed!\<newline>'']) st2)
           else bind_outcome (on_net (tcp_send (wget_request host path))
                  (emit (colored 0x0A [''Connected! Sending HTTP request...\<newline>'']) st2)) (\<lambda>(sent, st3).
             let st4 = emit (colored 0x0E [''Downloading'']) st3
             in if \<not> ne_heap_ok env
                then bind_outcome (on_net tcp_close (emit (colored 0x0C [''\<newline>ERROR: Out of memory!\<newline>'']) st4)) (\<lambda>(r, st5). Ok (None, st5))
                else bind_outcome (wget_download env [] st4) (\<lambda>(d, st5).
                  Ok (Some d, emit [Puts (lit ''\<newline>''), SetAttr 0x0A, Puts (lit ''Download complete! ''),
                    Puts (int_to_str (of_nat (length d))), Puts (lit '' bytes received.\<newline>''), SetAttr 0x07] st5)))))"

definition wget_save :: "('e \<times> 'w net) port_io \<Rightarrow> u8 list \<Rightarrow> u8 list \<Rightarrow> ('e, 'w) net_state \<Rightarrow> ('e, 'w) net_state outcome" where
  "wget_save io name body st =
     bind_outcome (save_file_content name body (length body)
       (emit [Puts (lit ''Saving to ''), Puts name, Puts (lit ''...\<newline>'')] st)) (\<lambda>(r, st1).
       if r = 0
       then bind_outcome (fs_save_to_disk io st1) (\<lambda>(_, st2).
         Ok (emit [SetAttr 0x0A, Puts (lit ''SUCCESS! Saved ''), Puts (int_to_str (of_nat (length body))),
           Puts (lit '' bytes to ''), Puts name, Puts (lit ''\<newline>''), SetAttr 0x07] st2))
       else Ok (emit (colored 0x0C [''ERROR: Failed to save file!\<newline>'']) st1))"

text \<open>The address of the host, with what is printed before it; \<open>None\<close> when it has none.\<close>

definition wget_resolve :: "'w net_env \<Rightarrow> u8 list \<Rightarrow> ('e, 'w) net_state \<Rightarrow> (u32 option \<times> ('e, 'w) net_state) outcome" where
  "wget_resolve env host st =
     (if is_dotted host
      then bind_outcome (parse_ip host) (\<lambda>ip.
        Ok (Some ip, emit [SetAttr 0x0B, Puts (lit ''Host: ''), Puts host, Puts (lit ''\<newline>''), SetAttr 0x07] st))
      else bind_outcome (on_net (dns_resolve (ne_ticks env) (ne_fuel env) host)
             (emit [SetAttr 0x0B, Puts (lit ''Resolving ''), Puts host, Puts (lit ''...\<newline>''), SetAttr 0x07] st)) (\<lambda>(ip, st1).
        if ip = 0
        then Ok (None, emit (colored 0x0C [''ERROR: DNS resolution failed!\<newline>'',
               ''Cannot resolve hostname. Check your DNS settings.\<newline>'']) st1)
        else Ok (Some ip, emit [SetAttr 0x0A, Puts (lit ''Resolved: '')] st1)))"

definition net_ready :: "'w net \<Rightarrow> bool" where
  "net_ready n \<longleftrightarrow> (case netif_get_default n of None \<Rightarrow> False
     | Some i \<Rightarrow> if_link_up (n_ifaces n ! i) \<and> if_ip (n_ifaces n ! i) \<noteq> 0)"

definition cmd_wget ::
  "('e \<times> 'w net) port_io \<Rightarrow> 'w net_env \<Rightarrow> u8 list \<Rightarrow> ('e, 'w) net_state \<Rightarrow> (int \<times> ('e, 'w) net_state) outcome" where
  "cmd_wget io env args st =
     (if \<not> net_ready (snd (dev st))
      then Ok (- 1, emit (colored 0x0C [''Error: Network not connected!\<newline>'', ''Run NETSTART first to initialize network.\<newline>'']) st)
      else
        let (url, output_file) = wget_args args [] []
        in if url = []
           then Ok (- 1, emit (map (\<lambda>t. Puts (lit t)) [''Usage: WGET <URL> [-O <filename>]\<newline>'',
                  ''Example: WGET http://example.com/file.txt -O myfile.txt\<newline>'',
                  ''         WGET http://httpbin.org/ip (Test IP)\<newline>'',
                  ''         WGET http://httpbin.org/get (Test GET request)\<newline>'']) st)
           else
             let (rest, https) = url_rest url;
                 st1 = (if https then emit (colored 0x0E [''Note: HTTPS not supported, using HTTP.\<newline>'']) st else st)
             in if rest = [] \<or> hd rest = chr CHR ''/''
                then Ok (- 1, emit (colored 0x0C [''Error: Invalid URL format.\<newline>'']) st1)
                else
                  let host = url_host rest; path = url_path rest
                  in bind_outcome (wget_resolve env host st1) (\<lambda>(target, st2). case target of
                       None \<Rightarrow> Ok (- 1, st2)
                     | Some ip \<Rightarrow>
                         bind_outcome (wget_fetch env ip host path (emit (ip_text ip @ [SetAttr 0x07]) st2)) (\<lambda>(response, st3).
                           case response of
                             None \<Rightarrow> Ok (- 1, st3)
                           | Some d \<Rightarrow>
                               bind_outcome (wget_save io (if output_file = [] then wget_name path else output_file) (http_body d) st3) (\<lambda>st4.
                                 bind_outcome (on_net tcp_close st4) (\<lambda>(_, st5). Ok (0, st5))))))"

section \<open>NETSTART and WIFITEST\<close>

definition tick :: "u8 list" where "tick = [0xE2, 0x9C, 0x93]"

definition poll_digits :: "nat \<Rightarrow> u8 list" where
  "poll_digits n = map (\<lambda>k. 48 + of_nat (n div k mod 10)) [1000, 100, 10, 1]"

text \<open>The wait for the address: whether there is one, and the number of polls.\<close>

fun netstart_wait :: "'w net_env \<Rightarrow> nat \<Rightarrow> nat \<Rightarrow> u32 \<Rightarrow> nat \<Rightarrow> 'w net \<Rightarrow> ((bool \<times> nat) \<times> 'w net) outcome" where
  "netstart_wait env 0 i start polls n = Waiting"
| "netstart_wait env (Suc fuel) i start polls n =
     (let (t, n1) = read_ticks (ne_ticks env) n
      in if t - start < 90
         then bind_outcome (poll_until (\<lambda>_. False) 20 polls n1) (\<lambda>(polls2, n2).
           if if_ip (n_ifaces n2 ! i) \<noteq> 0
           then Ok ((True, polls2), netlog [Puts (lit ''[DEBUG] NETSTART: Got IP address after ''), Puts (poll_digits polls2),
                  Puts (lit '' polls\<newline>'')] n2)
           else netstart_wait env fuel i start polls2 n2)
         else Ok ((False, polls), n1))"

definition netstart_show :: "'w iface \<Rightarrow> console_event list" where
  "netstart_show f =
     [SetAttr 0x0A, Puts (lit ''\<newline>'' @ tick @ lit '' IP address configured!\<newline>\<newline>''), SetAttr 0x07, Puts (lit ''IP Address:  '')] @ ip_text (if_ip f) @
     [Puts (lit ''Gateway:     '')] @ ip_text (if_gateway f) @ [Puts (lit ''DNS Server:  '')] @ butlast (ip_text (if_dns f)) @
     [Puts (lit ''\<newline>\<newline>''), SetAttr 0x0E, Puts (lit ''Network ready! You can now use WGET, PING, etc.\<newline>''), SetAttr 0x07]"

fun netstart_attempts :: "'w net_env \<Rightarrow> nat \<Rightarrow> nat list \<Rightarrow> 'w net \<Rightarrow> (int \<times> 'w net) outcome" where
  "netstart_attempts env i [] n =
     Ok (- 1, netlog [SetAttr 0x0C, Puts (lit ''\<newline>ERROR: Failed to get IP address via DHCP\<newline>''),
       Puts (lit ''Check that QEMU is running with: -net nic,model=virtio -net user\<newline>''), SetAttr 0x07] n)"
| "netstart_attempts env i (attempt # rest) n =
     (let n1 = netlog ((if attempt > 0 then [Puts (lit ''Retry ''), Putc (48 + of_nat attempt), Puts (lit ''/3...\<newline>'')] else []) @
                [Puts (lit ''[DEBUG] NETSTART: Calling dhcp_discover...\<newline>'')]) n;
          (disc_result, n2) = dhcp_discover i n1;
          n3 = netlog [Puts (lit ''[DEBUG] NETSTART: dhcp_discover returned: ''), Putc (48 + (of_int disc_result AND 0xF)), Puts (lit ''\<newline>'')] n2
      in if disc_result < 0
         then netstart_attempts env i rest (netlog [Puts (lit ''Failed to send DHCP DISCOVER\<newline>'')] n3)
         else
           let (start, n4) = read_ticks (ne_ticks env) (netlog [Puts (lit ''[DEBUG] NETSTART: Waiting for DHCP response...\<newline>'')] n3)
           in bind_outcome (netstart_wait env (ne_fuel env) i start 0 n4) (\<lambda>((got_ip, polls), n5).
                let n6 = netlog [Puts (lit ''[DEBUG] NETSTART: Finished waiting. poll_count=''), Puts (poll_digits polls), Puts (lit ''\<newline>'')] n5
                in if got_ip then Ok (0, netlog (netstart_show (n_ifaces n6 ! i)) n6) else netstart_attempts env i rest n6))"

definition netstart :: "'w net_env \<Rightarrow> 'w net \<Rightarrow> (int \<times> 'w net) outcome" where
  "netstart env n =
     (let n1 = netlog (colored 0x0B [''\<newline>=== Network Initialization (Rust Driver) ===\<newline>''] @
                [Puts (lit ''[1/3] Initializing Rust WiFi driver...\<newline>'')]) n;
          (result, n2) = ne_driver_init env n1;
          n3 = netlog [Puts (lit ''[NETSTART] wifi_driver_init returned: ''), Putc (48 + (of_int result AND 0xF)), Puts (lit ''\<newline>'')] n2
      in if result \<noteq> 0 then Ok (- 1, netlog (colored 0x0C [''ERROR: Failed to initialize Rust WiFi driver!\<newline>'']) n3)
         else
           let n4 = netlog [SetAttr 0x0A, Puts (tick @ lit '' Rust WiFi driver initialized\<newline>''), SetAttr 0x07] n3
           in case netif_get_default n4 of
                None \<Rightarrow> Ok (- 1, netlog (colored 0x0C [''ERROR: No network interface available!\<newline>'']) n4)
              | Some i \<Rightarrow>
                  (let (r, n5) = dhcp_init (netlog [Puts (lit ''[2/3] Initializing DHCP client...\<newline>'')] n4)
                   in if r \<noteq> 0 then Ok (- 1, netlog (colored 0x0C [''ERROR: Failed to initialize DHCP!\<newline>'']) n5)
                      else netstart_attempts env i [0..<3]
                        (netlog [SetAttr 0x0A, Puts (tick @ lit '' DHCP client initialized\<newline>''), SetAttr 0x07,
                           Puts (lit ''[3/3] Requesting IP address via DHCP...\<newline>'')] n5)))"

definition cmd_netstart :: "'w net_env \<Rightarrow> u8 list \<Rightarrow> ('e, 'w) net_state \<Rightarrow> (int \<times> ('e, 'w) net_state) outcome" where
  "cmd_netstart env args st = on_net (netstart env) st"

definition cmd_wifitest :: "'w net_env \<Rightarrow> u8 list \<Rightarrow> ('e, 'w) net_state \<Rightarrow> (int \<times> ('e, 'w) net_state) outcome" where
  "cmd_wifitest env args st =
     on_net (\<lambda>n. Ok (ne_driver_test env n))
       (emit [Puts (lit ''=== Rust WiFi Driver Test ===\<newline>''), Puts (lit ''Running wifi_driver_test()...\<newline>'')] st)"

section \<open>Addresses\<close>

definition dotted_text :: "u32 \<Rightarrow> u8 list" where
  "dotted_text ip = octet_text ip 24 @ [46] @ octet_text ip 16 @ [46] @ octet_text ip 8 @ [46] @ octet_text ip 0"

lemma url_chars: "chr CHR ''.'' = 46" "chr CHR ''/'' = 47" "chr CHR '':'' = 58" "chr CHR ''?'' = 63"
  by (simp_all add: chr_def)

lemma digit_byte_facts:
  assumes "d < 10"
  shows "digit_byte d \<noteq> 46" "ucast (digit_byte d) - 48 = (of_nat d :: u32)" "48 \<le> sint (digit_byte d) \<and> sint (digit_byte d) \<le> 57"
    "digit_byte d \<noteq> 47" "digit_byte d \<noteq> 58"
proof -
  have "list_all (\<lambda>d. digit_byte d \<noteq> 46 \<and> ucast (digit_byte d) - 48 = (of_nat d :: u32) \<and>
      48 \<le> sint (digit_byte d) \<and> sint (digit_byte d) \<le> 57 \<and> digit_byte d \<noteq> 47 \<and> digit_byte d \<noteq> 58) [0..<10]"
    by code_simp
  then show "digit_byte d \<noteq> 46" "ucast (digit_byte d) - 48 = (of_nat d :: u32)" "48 \<le> sint (digit_byte d) \<and> sint (digit_byte d) \<le> 57"
    "digit_byte d \<noteq> 47" "digit_byte d \<noteq> 58" using assms by (auto simp: list_all_iff)
qed

lemma ip_parts_digits:
  "\<forall>d \<in> set ds. d < 10 \<Longrightarrow> ip_parts (map digit_byte ds @ s) parts idx v =
     ip_parts s parts idx (foldl (\<lambda>acc d. acc * of_nat 10 + of_nat d) v ds)"
  by (induction ds arbitrary: v) (simp_all add: digit_byte_facts url_chars)

lemma int_to_str_digits:
  obtains ds where "int_to_str n = map digit_byte ds" "\<forall>d \<in> set ds. d < 10" "undigits 10 ds = unat n"
proof -
  obtain ds where "show_nat 10 (unat n) = map digit_byte ds" "\<forall>d \<in> set ds. d < 10" "undigits 10 ds = unat n"
    by (rule show_nat_digits [of 10 "unat n"]) auto
  then show thesis by (intro that) (simp_all add: int_to_str_show)
qed

lemma ip_parts_number: "ip_parts (int_to_str n @ s) parts idx 0 = ip_parts s parts idx n"
proof -
  obtain ds where ds: "int_to_str n = map digit_byte ds" "\<forall>d \<in> set ds. d < 10" "undigits 10 ds = unat n"
    by (rule int_to_str_digits)
  show ?thesis unfolding ds(1) ip_parts_digits [OF ds(2)] of_nat_undigits ds(3) by simp
qed

lemma octet_bytes: "c \<in> set (octet_text ip k) \<Longrightarrow> 48 \<le> sint c \<and> sint c \<le> 57 \<and> c \<noteq> 47 \<and> c \<noteq> 58"
  unfolding octet_text_def by (rule int_to_str_digits [of "drop_bit k ip AND 0xFF"]) (use digit_byte_facts in fastforce)

lemma octets_word: "push_bit 24 (drop_bit 24 ip AND 0xFF) OR push_bit 16 (drop_bit 16 ip AND 0xFF) OR
  push_bit 8 (drop_bit 8 ip AND 0xFF) OR (ip AND 0xFF) = (ip :: u32)"
proof (rule bit_word_eqI)
  fix n
  assume "n < LENGTH(32)"
  then have n: "n < 32" by simp
  have m: "(0xFF :: u32) = mask 8" by (simp add: mask_eq_exp_minus_1)
  show "bit (push_bit 24 (drop_bit 24 ip AND 0xFF) OR push_bit 16 (drop_bit 16 ip AND 0xFF) OR
    push_bit 8 (drop_bit 8 ip AND 0xFF) OR (ip AND 0xFF)) n = bit ip n"
    unfolding m using n by (cases "n < 8"; cases "n < 16"; cases "n < 24") (auto simp: bit_simps less_diff_conv2)
qed

lemma octet_text_short: "length (octet_text ip k) \<le> 10"
  by (simp add: octet_text_def int_to_str_length)

lemma dotted_text_bytes: "c \<in> set (dotted_text ip) \<Longrightarrow> (48 \<le> sint c \<and> sint c \<le> 57 \<or> c = 46) \<and> c \<noteq> 47 \<and> c \<noteq> 58"
  using octet_bytes [of c ip] by (auto simp: dotted_text_def)

lemma dotted_address: "parse_ip (dotted_text ip) = Ok ip" "is_dotted (dotted_text ip)"
proof -
  show "parse_ip (dotted_text ip) = Ok ip"
    unfolding parse_ip_def dotted_text_def octet_text_def append_assoc append_Cons append_Nil ip_parts_number
    using ip_parts_number [of "ip AND 0xFF" "[]"] octets_word [of ip] by (simp add: ip_parts_number url_chars)
  show "is_dotted (dotted_text ip)" unfolding is_dotted_def using dotted_text_bytes [of _ ip] by (fastforce simp: url_chars)
qed

lemma dotted_text_short: "length (dotted_text ip) \<le> 43" "dotted_text ip \<noteq> []"
  unfolding dotted_text_def
  using octet_text_short [of ip 24] octet_text_short [of ip 16] octet_text_short [of ip 8] octet_text_short [of ip 0] by simp_all

text \<open>
  C15.  Addresses in URLs: the text that WGET prints for an address is read back as that address
  when it is the host of a URL, and host and path are taken apart at the first slash; the
  path is cut after 127 characters.
\<close>
theorem wget_address_roundtrip:
  "url_rest (lit ''http://'' @ dotted_text ip @ [47] @ p) = (dotted_text ip @ [47] @ p, False) \<and>
    url_host (dotted_text ip @ [47] @ p) = dotted_text ip \<and> url_path (dotted_text ip @ [47] @ p) = take 127 ([47] @ p) \<and>
    is_dotted (dotted_text ip) \<and> parse_ip (dotted_text ip) = Ok ip"
proof -
  have short: "length (dotted_text ip) \<le> 127" using dotted_text_short(1) [of ip] by simp
  have host: "url_host (dotted_text ip @ [47] @ p) = dotted_text ip"
    unfolding url_host_def using short dotted_text_bytes [of _ ip] by (subst takeWhile_append2) (auto simp: url_chars)
  show ?thesis using host dotted_address [of ip] by (simp add: url_rest_def url_path_def lit_def url_chars)
qed

section \<open>Faults\<close>

lemma ip_parts_fault:
  "length parts = 4 \<Longrightarrow> idx \<le> 4 \<Longrightarrow> 4 \<le> idx + length (filter (\<lambda>c. c = 46) s) \<Longrightarrow> ip_parts s parts idx v = Fault"
  by (induction s parts idx v rule: ip_parts.induct) (auto simp: url_chars)

lemma wget_args_word:
  assumes "w \<noteq> []" and "length w \<le> 127" and "\<forall>c \<in> set w. \<not> is_blank c" and "0 \<notin> set w" and "hd w \<noteq> 45"
  shows "wget_args w [] [] = (w, [])"
proof -
  have t: "get_token w 128 = (w, [])"
  proof -
    have "skip_spaces w = w" using assms(1,3) by (cases w) (simp_all add: skip_spaces_def)
    then show ?thesis using get_token_loop_word [of w 127 "[]" "[]"] assms(2,3) by (simp add: get_token_def)
  qed
  have "str_cmp w o1 \<noteq> 0" if "o1 = lit ''-filename'' \<or> o1 = lit ''-O''" for o1
  proof -
    have "0 \<notin> set o1" "hd o1 = 45" using that by (auto simp: lit_def)
    then show ?thesis using assms(4,5) str_cmp_eq_iff [of w o1] by auto
  qed
  then have n: "str_cmp w (lit ''-filename'') \<noteq> 0" "str_cmp w (lit ''-O'') \<noteq> 0" by auto
  show ?thesis using assms(1) t n by (simp add: wget_args.simps [of w] wget_args.simps [of "[]"])
qed

text \<open>
  WGET leaves an array: the numbers of a host made of digits and dots are stored in an
  array of four without a bound check, so a host with four or more dots writes behind it.  The
  contract of the command interpreter's handlers therefore does not hold with WGET.
\<close>
theorem wget_five_numbers_fault:
  assumes "net_ready (snd (dev st))" and "host \<noteq> []" and "\<forall>c \<in> set host. 48 \<le> sint c \<and> sint c \<le> 57 \<or> c = 46"
    and "length host \<le> 120" and "4 \<le> length (filter (\<lambda>c. c = 46) host)"
  shows "cmd_wget io env (lit ''http://'' @ host) st = Fault"
proof -
  have h: "c \<noteq> 47 \<and> c \<noteq> 58 \<and> c \<noteq> 0 \<and> \<not> is_blank c" if "c \<in> set host" for c
    using assms(3) that by (fastforce simp: is_blank_def)
  let ?w = "lit ''http://'' @ host"
  have "wget_args ?w [] [] = (?w, [])"
    using h assms(4) by (intro wget_args_word) (auto simp: lit_def is_blank_def)
  moreover have "url_rest ?w = (host, False)" by (simp add: url_rest_def lit_def)
  moreover have "url_host host = host" unfolding url_host_def using h assms(4) by (subst takeWhile_eq_all_conv [THEN iffD2]) (auto simp: url_chars)
  moreover have "is_dotted host" unfolding is_dotted_def using assms(3) by (fastforce simp: url_chars)
  moreover have "parse_ip host = Fault" unfolding parse_ip_def using assms(5) by (simp add: ip_parts_fault)
  moreover have "hd host \<noteq> 47" using assms(2) h by auto
  ultimately show ?thesis
    using assms(1,2) by (simp add: cmd_wget_def wget_resolve_def Let_def url_chars lit_def)
qed

definition quiet_shell :: "(ata_view, nat) net_state" where
  "quiet_shell = (initial_state (blank_drive, quiet_net))"

lemma quiet_shell_dev: "dev quiet_shell = (blank_drive, quiet_net)"
  by (simp add: quiet_shell_def initial_state_def)

theorem wget_five_numbers_fault_witness:
  "cmd_wget io env (lit ''http://1.2.3.4.5'') quiet_shell = Fault"
proof -
  have "net_ready (snd (dev quiet_shell))"
    by (simp add: quiet_shell_dev net_ready_def netif_get_default_def quiet_net_def quiet_iface_def)
  from wget_five_numbers_fault [OF this, of "lit ''1.2.3.4.5''" io env] show ?thesis by (simp add: lit_def)
qed

section \<open>What the network commands leave alone\<close>

definition same_tables :: "('e, 'w) net_state \<Rightarrow> ('e, 'w) net_state \<Rightarrow> bool" where
  "same_tables st st1 \<longleftrightarrow> (\<exists>d c. st1 = st\<lparr>dev := d, console := c\<rparr>)"

lemma same_tables_refl [simp]: "same_tables st st"
  unfolding same_tables_def by (intro exI [of _ "dev st"] exI [of _ "console st"]) simp

lemma same_tables_trans: "same_tables st st1 \<Longrightarrow> same_tables st1 st2 \<Longrightarrow> same_tables st st2"
  unfolding same_tables_def by (elim exE, intro exI) simp

lemma same_tables_emit [simp]: "same_tables st (emit es st1) = same_tables st st1"
proof
  assume "same_tables st (emit es st1)"
  moreover have "same_tables (emit es st1) st1"
    unfolding same_tables_def by (intro exI [of _ "dev st1"] exI [of _ "console st1"]) (simp add: emit_def)
  ultimately show "same_tables st st1" by (rule same_tables_trans)
next
  assume "same_tables st st1"
  moreover have "same_tables st1 (emit es st1)"
    unfolding same_tables_def by (intro exI [of _ "dev st1"] exI [of _ "console st1 @ es"]) (simp add: emit_def)
  ultimately show "same_tables st (emit es st1)" by (rule same_tables_trans)
qed

text \<open>A condition on the result, if there is one.\<close>

definition results :: "('a \<Rightarrow> bool) \<Rightarrow> 'a outcome \<Rightarrow> bool" where
  "results P m \<longleftrightarrow> (case m of Ok x \<Rightarrow> P x | _ \<Rightarrow> True)"

lemma results_simps [simp]: "results P (Ok x) = P x" "results P Fault" "results P Waiting"
  by (simp_all add: results_def)

lemma results_bind: "results P m \<Longrightarrow> (\<And>x. P x \<Longrightarrow> results Q (f x)) \<Longrightarrow> results Q (bind_outcome m f)"
  by (cases m) auto

lemma results_any: "results (\<lambda>_. True) m"
  by (cases m) auto

abbreviation same_result :: "('e, 'w) net_state \<Rightarrow> ('a \<times> ('e, 'w) net_state) outcome \<Rightarrow> bool" where
  "same_result st0 m \<equiv> results (\<lambda>(r, st). same_tables st0 st) m"

lemma same_tables_dev [simp]: "same_tables st (st1\<lparr>dev := d\<rparr>) = same_tables st st1"
proof
  assume "same_tables st (st1\<lparr>dev := d\<rparr>)"
  moreover have "same_tables (st1\<lparr>dev := d\<rparr>) st1"
    unfolding same_tables_def by (intro exI [of _ "dev st1"] exI [of _ "console st1"]) simp
  ultimately show "same_tables st st1" by (rule same_tables_trans)
next
  assume "same_tables st st1"
  moreover have "same_tables st1 (st1\<lparr>dev := d\<rparr>)"
    unfolding same_tables_def by (intro exI [of _ d] exI [of _ "console st1"]) simp
  ultimately show "same_tables st (st1\<lparr>dev := d\<rparr>)" by (rule same_tables_trans)
qed

lemma same_on_net: "same_tables st0 st \<Longrightarrow> same_result st0 (on_net f st)"
  unfolding on_net_def by (cases "dev st") (auto intro!: results_bind [OF results_any])

lemma same_download: "same_tables st0 st \<Longrightarrow> same_result st0 (wget_download env buf st)"
proof (induction env buf st rule: wget_download.induct)
  case (1 env buf st)
  show ?case
  proof (cases "length buf < DOWNLOAD_BUF_SIZE")
    case True
    show ?thesis
    proof (cases "on_net (tcp_receive (ne_ticks env) (ne_fuel env) (of_nat (DOWNLOAD_BUF_SIZE - length buf))) st")
      case (Ok x)
      obtain bytes st2 where x: "x = (bytes, st2)" by (cases x)
      have "same_tables st0 st2"
        using same_on_net [OF "1.prems", of "tcp_receive (ne_ticks env) (ne_fuel env) (of_nat (DOWNLOAD_BUF_SIZE - length buf))"] Ok x by simp
      then show ?thesis using True Ok x "1.IH" [OF True Ok x [symmetric]] by (simp add: wget_download.simps [of env buf])
    qed (simp_all add: True wget_download.simps [of env buf])
  qed (use "1.prems" in \<open>simp add: wget_download.simps\<close>)
qed

lemma same_fetch: "same_tables st0 st \<Longrightarrow> same_result st0 (wget_fetch env ip host path st)"
  unfolding wget_fetch_def Let_def
  by (auto intro!: results_bind [OF same_on_net] results_bind [OF same_download])

lemma same_resolve: "same_tables st0 st \<Longrightarrow> same_result st0 (wget_resolve env host st)"
  unfolding wget_resolve_def
  by (cases "is_dotted host") (auto intro!: results_bind [OF results_any [of "parse_ip host"]] results_bind [OF same_on_net])

section \<open>A download\<close>

lemma same_tables_wf: "same_tables st st1 \<Longrightarrow> cmd_wf st1 = cmd_wf st"
  unfolding same_tables_def by (elim exE) simp

lemma same_tables_sel:
  "same_tables st st1 \<Longrightarrow> fs_count st1 = fs_count st \<and> fs_table st1 = fs_table st \<and> file_contents st1 = file_contents st \<and>
     file_content_count st1 = file_content_count st \<and> current_dir st1 = current_dir st"
  unfolding same_tables_def by (elim exE) simp

text \<open>\<^verbatim>\<open>save_file_content\<close> for a new file: the entry, and the bytes that the file has then.\<close>

definition saved_file :: "u8 list \<Rightarrow> u8 list \<Rightarrow> 'd cmd_state \<Rightarrow> 'd cmd_state" where
  "saved_file path data st =
     (let k = fs_count st; n = file_content_count st
      in st\<lparr>fs_count := Suc k, fs_table := (fs_table st)[k := (blank_entry (fs_table st ! k) path)
              \<lparr>fe_type := 0, fe_attr := 0, fe_parent_idx := 0xFFFF, fe_size := of_nat (length data)\<rparr>],
            file_contents := (file_contents st)[n := \<lparr>fc_file_idx = of_nat k, fc_size = of_nat (min (length data) 4096),
              fc_data = take (min (length data) 4096) data @ drop (min (length data) 4096) (fc_data (file_contents st ! n))\<rparr>],
            file_content_count := Suc n\<rparr>)"

definition room_for :: "u8 list \<Rightarrow> 'd cmd_state \<Rightarrow> bool" where
  "room_for path st \<longleftrightarrow> find_index (name_is path) (fs_count st) (fs_table st) = None \<and> fs_count st < 128 \<and>
     find_content (fs_count st) st = None \<and> file_content_count st < 64"

lemma save_new_file:
  assumes "cmd_wf st" and "file_path st name = Ok path" and "room_for path st"
  shows "save_file_content name data (length data) st = Ok (0, saved_file path data st)"
proof -
  have lens: "length (file_contents st) = 64" "length (fs_table st) = 128"
    using assms(1) by (simp_all add: cmd_wf_def fs_wf_def)
  have "find_index (\<lambda>e. str_cmp (cstr (fe_name e)) path = 0) (fs_count st) (fs_table st) = None"
    "find_index (\<lambda>c. unat (fc_file_idx c) = fs_count st) (file_content_count st) (file_contents st) = None"
    using assms(3) by (simp_all add: room_for_def name_is_def [abs_def] find_content_def)
  then show ?thesis
    using assms(2,3) lens
    by (simp add: save_file_content_def Let_def FS_MAX_FILES_def MAX_FILE_SIZE_def saved_file_def room_for_def)
qed

lemma saved_file_bytes:
  assumes "cmd_wf st" and "room_for path st" and "0 \<notin> set path" and "path \<noteq> []"
  shows "cmd_wf (saved_file path data st)" and "file_bytes (saved_file path data st) (fs_count st) = Some (take 4096 data)"
    and "cstr (fe_name (fs_table (saved_file path data st) ! fs_count st)) = take 55 path"
proof -
  let ?s = "saved_file path data st" and ?k = "fs_count st" and ?n = "file_content_count st"
  have lens: "length (file_contents st) = 64" "length (fs_table st) = 128"
    using assms(1) by (simp_all add: cmd_wf_def fs_wf_def)
  have r: "?k < 128" "?n < 64" "find_index (\<lambda>c. unat (fc_file_idx c) = ?k) ?n (file_contents st) = None"
    using assms(2) by (simp_all add: room_for_def find_content_def)
  have c: "wf_content (file_contents st ! ?n)" using assms(1) r lens by (simp add: cmd_wf_def fs_wf_def)
  define m where "m = min (length data) 4096"
  have m: "unat (of_nat m :: u32) = m" "m \<le> 4096" by (simp_all add: m_def unat_of_nat)
  show "file_bytes ?s ?k = Some (take 4096 data)"
  proof (rule file_bytes_eq [of ?n])
    fix b
    assume b: "b < file_content_count ?s" "unat (fc_file_idx (file_contents ?s ! b)) = ?k"
    then have "b = ?n" using r lens by (cases "b = ?n") (auto simp: saved_file_def Let_def find_index_None)
    then show "take (unat (fc_size (file_contents ?s ! b))) (fc_data (file_contents ?s ! b)) = take 4096 data"
      using r lens m c by (simp add: saved_file_def Let_def m_def [symmetric] wf_content_def) (simp add: m_def min_def)
  qed (use r lens in \<open>simp_all add: saved_file_def Let_def unat_of_nat\<close>)
  show "cstr (fe_name (fs_table ?s ! ?k)) = take 55 path"
    using r lens assms(3) by (simp add: saved_file_def Let_def blank_entry_def FS_MAX_FILENAME_def cstr_str_copy)
  define e where "e = (blank_entry (fs_table st ! ?k) path)\<lparr>fe_type := 0, fe_attr := 0, fe_parent_idx := 0xFFFF, fe_size := of_nat (length data)\<rparr>"
  define st1 where "st1 = st\<lparr>fs_table := (fs_table st)[?k := e], fs_count := Suc ?k\<rparr>"
  define fc where "fc = \<lparr>fc_file_idx = of_nat ?k, fc_size = of_nat m, fc_data = take m data @ drop m (fc_data (file_contents st ! ?n))\<rparr>"
  have "wf_entry e" "fe_name e ! 0 \<noteq> 0"
    using blank_entry_wf [OF wf_entry_nth [OF assms(1) r(1)], of path] blank_entry_first [OF assms(4,3)] by (simp_all add: e_def wf_entry_def)
  then have w1: "cmd_wf st1" unfolding st1_def by (intro wf_set_entry assms(1) r(1)) simp_all
  have "wf_content fc" using c m by (simp add: fc_def wf_content_def m_def)
  then have "cmd_wf (st1\<lparr>file_contents := (file_contents st1)[?n := fc], file_content_count := Suc ?n\<rparr>)"
    using w1 r by (intro wf_set_content) simp_all
  moreover have "?s = st1\<lparr>file_contents := (file_contents st1)[?n := fc], file_content_count := Suc ?n\<rparr>"
    by (simp add: saved_file_def Let_def st1_def e_def fc_def m_def)
  ultimately show "cmd_wf ?s" by simp
qed

lemma close_total: "\<exists>r st1. on_net tcp_close st = Ok (r, st1) \<and> same_tables st st1"
proof -
  obtain e n where d: "dev st = (e, n)" by (cases "dev st")
  have "\<exists>r n1. tcp_close (n\<lparr>n_log := []\<rparr>) = Ok (r, n1)"
    using tcb_send_keeps [of "[]" "TCP_FLAG_FIN OR TCP_FLAG_ACK" "n\<lparr>n_log := []\<rparr>"] by (auto simp: tcp_close_def)
  then obtain r st1 where "on_net tcp_close st = Ok (r, st1)" using d by (auto simp: on_net_def)
  then show ?thesis using same_on_net [of st st tcp_close] by auto
qed

lemma find_first: "k < n \<Longrightarrow> P k \<Longrightarrow> \<forall>i < k. \<not> P i \<Longrightarrow> find P [0..<n] = Some k"
  unfolding find_Some_iff by (intro exI [of _ k]) simp

lemma first_crlf:
  assumes "\<forall>i < length header. take 4 (drop i (header @ [13, 10, 13, 10] @ body)) \<noteq> [13, 10, 13, 10]"
  shows "http_body (header @ [13, 10, 13, 10] @ body) = body"
proof -
  let ?d = "header @ [13, 10, 13, 10] @ body"
  have "find (\<lambda>i. take 4 (drop i ?d) = [13, 10, 13, 10]) [0..<length ?d - 3] = Some (length header)"
    using assms by (intro find_first) simp_all
  then show ?thesis by (simp add: http_body_def)
qed

text \<open>
  A download ends in a file: when the host of the URL has an address, the server's
  response has arrived, and there is room in the tables, WGET stores the bytes behind the first
  empty line of the response (the first 4096 of them) under the name behind the last slash of the
  path, keeps the tables well-formed and returns 0, whatever the disk says.
\<close>
lemma wget_stores:
  assumes wf: "cmd_wf st" and ready: "net_ready (snd (dev st))"
    and url: "host \<noteq> []" "\<forall>c \<in> set host. c \<noteq> 47 \<and> c \<noteq> 58" "path = 47 # p" "\<forall>c \<in> set (host @ path). \<not> is_blank c \<and> c \<noteq> 0"
      "length (host @ path) \<le> 120"
    and target: "wget_resolve env host st = Ok (Some ip, st1)"
    and fetch: "wget_fetch env ip host path (emit (ip_text ip @ [SetAttr 0x07]) st1) = Ok (Some d, st2)"
    and response: "d = header @ [13, 10, 13, 10] @ body" "\<forall>i < length header. take 4 (drop i d) \<noteq> [13, 10, 13, 10]"
    and name: "file_path st (wget_name path) = Ok full" "0 \<notin> set full" "full \<noteq> []" "room_for full st"
  shows "\<exists>st3. cmd_wget io env (lit ''http://'' @ host @ path) st = Ok (0, st3) \<and> cmd_wf st3 \<and>
    fs_count st3 = Suc (fs_count st) \<and> cstr (fe_name (fs_table st3 ! fs_count st)) = take 55 full \<and>
    file_bytes st3 (fs_count st) = Some (take 4096 body)"
proof -
  let ?w = "lit ''http://'' @ host @ path"
  have s1: "same_tables st st1" using same_resolve [of st st env host] target by simp
  have s2: "same_tables st st2"
    using same_fetch [of st "emit (ip_text ip @ [SetAttr 0x07]) st1" env ip host path] fetch s1 by simp
  have args: "wget_args ?w [] [] = (?w, [])" using url(4,5) by (intro wget_args_word) (auto simp: lit_def is_blank_def)
  have rest: "url_rest ?w = (host @ path, False)" by (simp add: url_rest_def lit_def)
  have host: "url_host (host @ path) = host"
    unfolding url_host_def using url by (subst takeWhile_append2) (auto simp: url_chars)
  have path: "url_path (host @ path) = path" using url host by (simp add: url_path_def url_chars)
  have ne: "hd (host @ path) \<noteq> 47" using url(1,2) by auto
  define st2e where "st2e = emit [Puts (lit ''Saving to ''), Puts (wget_name path), Puts (lit ''...\<newline>'')] st2"
  have same: "same_tables st st2e" using s2 by (simp add: st2e_def)
  have wf2: "cmd_wf st2e" using same_tables_wf [OF same] wf by simp
  note sel = same_tables_sel [OF same]
  have fp: "file_path st2e (wget_name path) = Ok full" using name(1) sel by (simp add: file_path_def build_path_def cong: if_cong)
  have room: "room_for full st2e" using name(4) sel by (simp add: room_for_def find_content_def)
  note saved = saved_file_bytes [OF wf2 room name(2,3), of body]
  define s where "s = saved_file full body st2e"
  have save: "save_file_content (wget_name path) body (length body) st2e = Ok (0, s)"
    unfolding s_def by (rule save_new_file [OF wf2 fp room])
  obtain r dd where disk: "fs_save_to_disk io s = Ok (r, s\<lparr>dev := dd\<rparr>)" using save_total saved(1) unfolding s_def by blast
  obtain es where ws: "wget_save io (wget_name path) body st2 = Ok (emit es (s\<lparr>dev := dd\<rparr>))"
    using save disk by (auto simp: wget_save_def st2e_def [symmetric])
  obtain k st3 where close: "on_net tcp_close (emit es (s\<lparr>dev := dd\<rparr>)) = Ok (k, st3)" "same_tables (emit es (s\<lparr>dev := dd\<rparr>)) st3"
    using close_total by blast
  have s3: "same_tables s st3" by (rule same_tables_trans [OF _ close(2)]) simp
  have "cmd_wget io env ?w st = Ok (0, st3)"
    using ready args rest host path ne target fetch url(1) ws close(1) response first_crlf [of header body]
    by (simp add: cmd_wget_def Let_def url_chars)
  moreover have "cmd_wf st3" using same_tables_wf [OF s3] saved(1) by (simp add: s_def)
  moreover have "fs_count st3 = Suc (fs_count st)" "fs_table st3 = fs_table s"
    using same_tables_sel [OF s3] sel by (simp_all add: s_def saved_file_def Let_def)
  moreover have "file_bytes st3 (fs_count st) = Some (take 4096 body)"
    using saved(2) same_tables_sel [OF s3] sel by (simp add: file_bytes_def s_def)
  ultimately show ?thesis using saved(3) sel by (intro exI [of _ st3]) (simp add: s_def)
qed

end
