(* ===== verification/Cmd_Web.thy ===== *)
theory Cmd_Web
  imports Cmd_Net
begin

text \<open>
  WGET and the stack of \<^verbatim>\<open>src/src/tcp_ip_stack.c\<close> together: a download from a server whose answers
  wait in the driver.  Driver and timer are a \<open>link\<close>: what is asked of them is \<open>link_ok\<close>.  The driver
  hands over the frames still to be received, whole (when they fit) and in order, and then nothing; it accepts
  what is sent; readings of the timer may be any numbers, but neither reading it nor sending loses a
  frame.  The frames are those of a connection: one that accepts it, segments of data, and one that
  closes it.
\<close>

record 'w link =
  lk_frames :: "'w \<Rightarrow> u8 list list"
  lk_recv :: "nat \<Rightarrow> 'w \<Rightarrow> (int \<times> u8 list) \<times> 'w"
  lk_send :: "u8 list \<Rightarrow> 'w \<Rightarrow> int \<times> 'w"
  lk_ticks :: "'w \<Rightarrow> u32 \<times> 'w"

definition link_ok :: "'w link \<Rightarrow> bool" where
  "link_ok L \<longleftrightarrow>
     (\<forall>n w. (case lk_frames L w of
          [] \<Rightarrow> fst (lk_recv L n w) = (0, []) \<and> lk_frames L (snd (lk_recv L n w)) = []
        | f # fs \<Rightarrow> length f \<le> n \<longrightarrow> fst (lk_recv L n w) = (int (length f), f) \<and> lk_frames L (snd (lk_recv L n w)) = fs)) \<and>
     (\<forall>data w. 0 \<le> fst (lk_send L data w) \<and> lk_frames L (snd (lk_send L data w)) = lk_frames L w) \<and>
     (\<forall>w. lk_frames L (snd (lk_ticks L w)) = lk_frames L w)"

lemma link_recv_none: "link_ok L \<Longrightarrow> lk_frames L w = [] \<Longrightarrow> \<exists>w1. lk_recv L n w = ((0, []), w1) \<and> lk_frames L w1 = []"
  unfolding link_ok_def by (cases "lk_recv L n w") (auto dest!: spec [of _ n] spec [of _ w])

lemma link_recv_frame:
  "link_ok L \<Longrightarrow> lk_frames L w = f # fs \<Longrightarrow> length f \<le> n \<Longrightarrow> \<exists>w1. lk_recv L n w = ((int (length f), f), w1) \<and> lk_frames L w1 = fs"
  unfolding link_ok_def by (cases "lk_recv L n w") (auto dest!: spec [of _ n] spec [of _ w])

lemma link_send: "link_ok L \<Longrightarrow> \<exists>r w1. lk_send L data w = (r, w1) \<and> 0 \<le> r \<and> lk_frames L w1 = lk_frames L w"
  unfolding link_ok_def by (cases "lk_send L data w") (metis fst_conv snd_conv)

lemma link_ticks: "link_ok L \<Longrightarrow> \<exists>t w1. lk_ticks L w = (t, w1) \<and> lk_frames L w1 = lk_frames L w"
  unfolding link_ok_def by (cases "lk_ticks L w") (metis snd_conv)

definition web_ok :: "'w link \<Rightarrow> u8 list list \<Rightarrow> 'w net \<Rightarrow> bool" where
  "web_ok L fs st \<longleftrightarrow> link_ok L \<and> n_default st = Some 0 \<and> n_ifaces st \<noteq> [] \<and> recv_packet (n_ifaces st ! 0) = Some (lk_recv L) \<and>
     send_packet (n_ifaces st ! 0) = Some (lk_send L) \<and> lk_frames L (n_world st) = fs \<and> length (n_rx st) = 2048"

lemma web_ok_upd_iface:
  assumes "\<And>f. send_packet (g f) = send_packet f \<and> recv_packet (g f) = recv_packet f"
  shows "web_ok L fs (upd_iface 0 g st) = web_ok L fs st"
  using assms by (auto simp: web_ok_def upd_iface_def)

lemma web_ok_world: "web_ok L fs st \<Longrightarrow> lk_frames L w = gs \<Longrightarrow> web_ok L gs (st\<lparr>n_world := w\<rparr>)"
  by (simp add: web_ok_def)

interpretation web: net_invariant "web_ok L fs" for L :: "'w link" and fs
proof (unfold_locales, goal_cases)
  case (1 st st')
  then show ?case by (simp add: web_ok_def)
next
  case (2 st i data)
  obtain r w where w: "lk_send L data (n_world st) = (r, w)" "lk_frames L w = lk_frames L (n_world st)"
    using 2 link_send [of L data "n_world st"] by (auto simp: web_ok_def)
  then have "web_ok L fs (netlog es (st\<lparr>n_world := w\<rparr>))" "web_ok L fs (netlog es st)" for es
    using 2 by (simp_all add: web_ok_def netlog_def)
  moreover have "send_packet (n_ifaces st ! i) = Some (lk_send L)" "i = 0" using 2 by (auto simp: web_ok_def)
  ultimately show ?case by (auto simp: netif_send_def Let_def split_def w(1) web_ok_upd_iface)
qed

lemma web_reads:
  assumes "web_ok L fs st"
  obtains t w where "read_ticks (lk_ticks L) st = (t, st\<lparr>n_world := w\<rparr>)" and "web_ok L fs (st\<lparr>n_world := w\<rparr>)"
proof -
  obtain t w where "lk_ticks L (n_world st) = (t, w)" "lk_frames L w = lk_frames L (n_world st)"
    using assms link_ticks [of L "n_world st"] by (auto simp: web_ok_def)
  with assms show ?thesis by (intro that [of t w]) (simp_all add: read_ticks_def web_ok_def)
qed

section \<open>Segments of the server\<close>

definition is_segment :: "u8 \<Rightarrow> u8 list \<Rightarrow> u8 list \<Rightarrow> bool" where
  "is_segment flags payload frame \<longleftrightarrow> length payload \<le> 1446 \<and>
     (\<exists>dm sm tot src dest sp dp seq ack. length dm = 6 \<and> length sm = 6 \<and>
        frame = eth_header dm sm 0x0800 @ ip_header tot 6 src dest @ tcp_segment src dest sp dp seq ack flags payload)"

lemma web_poll:
  assumes ok: "web_ok L (frame # fs) st" and seg: "is_segment flags payload frame"
  shows "\<exists>src seg st2. web_ok L fs st2 \<and> n_tcb st2 = n_tcb st \<and> seg ! 13 = flags \<and> seg_wf seg (of_nat (20 + length payload)) \<and>
    seg_payload seg (of_nat (20 + length payload)) = payload \<and> length seg \<le> 65536 \<and>
    netif_poll st = bind_outcome (tcp_process src seg (of_nat (20 + length payload)) st2) (\<lambda>(r, st3). Ok st3)"
proof -
  obtain dm sm tot src dest sp dp seq ack where f: "length dm = 6" "length sm = 6"
    "frame = eth_header dm sm 0x0800 @ ip_header tot 6 src dest @ tcp_segment src dest sp dp seq ack flags payload"
    and l: "length payload \<le> 1446" using seg unfolding is_segment_def by blast
  let ?s = "tcp_segment src dest sp dp seq ack flags payload"
  have len: "length frame = 54 + length payload" using f by (simp add: eth_header_def length_le)
  have link: "link_ok L" "lk_frames L (n_world st) = frame # fs" using ok by (simp_all add: web_ok_def)
  obtain w where w: "lk_recv L 2048 (n_world st) = ((int (length frame), frame), w)" "lk_frames L w = fs"
    using link_recv_frame [OF link, of 2048] len l by auto
  define st1 where "st1 = upd_iface 0 (\<lambda>g. g\<lparr>rx_packets := rx_packets g + 1, rx_bytes := rx_bytes g + of_int (int (length frame))\<rparr>) (st\<lparr>n_world := w\<rparr>)"
  define rest where "rest = drop (length frame) (n_rx st1)"
  define st2 where "st2 = st1\<lparr>n_rx := frame @ rest\<rparr>"
  define st3 where "st3 = netlog (tcp_trace (n_tcp_count st2 + 1)) (st2\<lparr>n_tcp_count := n_tcp_count st2 + 1\<rparr>)"
  have rx: "netif_receive 0 2048 st = ((int (length frame), frame), st1)"
    using ok len w(1) by (simp add: netif_receive_def web_ok_def st1_def Let_def)
  have w1: "web_ok L fs st1" unfolding st1_def using ok w(2) by (subst web_ok_upd_iface) (simp_all add: web_ok_def)
  have w2: "web_ok L fs st2" using w1 len l by (simp add: st2_def rest_def web_ok_def)
  have w3: "web_ok L fs st3" using w2 by (simp add: st3_def)
  have t3: "n_tcb st3 = n_tcb st" by (simp add: st3_def st2_def st1_def netlog_def upd_iface_def)
  have r: "ip_receive (frame @ rest) (of_nat (34 + length ?s)) st2 = tcp_process src (?s @ rest) (of_nat (length ?s)) st3"
    using ip_receive_frame [OF f(1,2) _ refl, of ?s tot src dest rest st2] l f(3) by (simp add: st3_def)
  have "netif_poll st = bind_outcome (ip_receive (n_rx st2) (of_int (int (length frame))) st2) (\<lambda>(r, st3). Ok st3)"
    using ok rx len l by (simp add: netif_poll_def netif_get_default_def web_ok_def st2_def rest_def)
  also have "\<dots> = bind_outcome (ip_receive (frame @ rest) (of_nat (34 + length ?s)) st2) (\<lambda>(r, st3). Ok st3)"
    using len by (simp add: st2_def)
  also have "\<dots> = bind_outcome (tcp_process src (?s @ rest) (of_nat (20 + length payload)) st3) (\<lambda>(r, st3). Ok st3)"
    unfolding r by simp
  finally have poll: "netif_poll st = \<dots>" .
  have "length (n_rx st1) = 2048" using w1 by (simp add: web_ok_def)
  then have "length (?s @ rest) \<le> 65536" using l by (simp add: rest_def)
  then show ?thesis
    using w3 t3 poll tcp_segment_fields(2,4,5) [where s = src and d = dest and sp = sp and dp = dp and q = seq and a = ack
        and fl = flags and data = payload and rest = rest] l
    by (intro exI [of _ src] exI [of _ "?s @ rest"] exI [of _ st3]) simp
qed

lemma tcb_send_empty: "web_ok L fs st \<Longrightarrow> \<exists>st1. tcb_send flags [] st = Ok st1 \<and> n_tcb st1 = n_tcb st \<and> web_ok L fs st1"
  using tcb_send_keeps [of "[]" flags st] web.tcb_send [of L fs st flags "[]"] by auto

text \<open>The server accepts the connection, sends data, and closes.\<close>

lemma web_synack:
  assumes "web_ok L (frame # fs) st" and "is_segment (TCP_FLAG_SYN OR TCP_FLAG_ACK) [] frame" and "tc_state (n_tcb st) = TCP_SYN_SENT"
  shows "\<exists>st1 q a. netif_poll st = Ok st1 \<and> web_ok L fs st1 \<and>
    n_tcb st1 = (n_tcb st)\<lparr>tc_rcv_nxt := q, tc_snd_nxt := a, tc_state := TCP_ESTABLISHED\<rparr>"
proof -
  obtain src seg st2 where p: "web_ok L fs st2" "n_tcb st2 = n_tcb st" "seg ! 13 = TCP_FLAG_SYN OR TCP_FLAG_ACK"
    "netif_poll st = bind_outcome (tcp_process src seg 20 st2) (\<lambda>(r, st3). Ok st3)"
    using web_poll [OF assms(1,2)] by auto
  have fl: "(TCP_FLAG_SYN OR TCP_FLAG_ACK) AND TCP_FLAG_SYN \<noteq> 0" "(TCP_FLAG_SYN OR TCP_FLAG_ACK) AND TCP_FLAG_ACK \<noteq> 0"
    by (simp_all add: tcp_flags)
  define g :: "tcp_block \<Rightarrow> tcp_block" where "g = (\<lambda>t. t\<lparr>tc_rcv_nxt := htonl (un_le32 (drop 4 seg)) + 1, tc_snd_nxt := htonl (un_le32 (drop 8 seg)), tc_state := TCP_ESTABLISHED\<rparr>)"
  define st3 where "st3 = upd_tcb g (netlog [Puts (lit ''[TCP] Got SYN-ACK! Sending ACK...\<newline>'')]
    (netlog [Puts (lit ''[TCP] Received packet in SYN_SENT state, flags=0x''), Putc (hex_digit (drop_bit 4 (seg ! 13))), Putc (hex_digit (seg ! 13)), Puts (lit ''\<newline>'')] st2))"
  have w3: "web_ok L fs st3" using p(1) by (simp add: st3_def)
  obtain st4 where st4: "tcb_send TCP_FLAG_ACK [] st3 = Ok st4" "n_tcb st4 = n_tcb st3" "web_ok L fs st4"
    using tcb_send_empty [OF w3] by blast
  have t: "n_tcb st3 = g (n_tcb st)" using p(2) by (simp add: st3_def upd_tcb_def netlog_def)
  have "tcp_process src seg 20 st2 = bind_outcome (tcb_send TCP_FLAG_ACK [] st3) (\<lambda>st2. Ok (1, st2))"
    using fl assms(3) p(2) unfolding tcp_process_def Let_def st3_def g_def p(3) by simp
  then have "netif_poll st = Ok st4" using p(4) st4(1) by simp
  then show ?thesis
    using st4(2,3) t unfolding g_def
    by (intro exI [of _ st4] exI [of _ "htonl (un_le32 (drop 4 seg)) + 1"] exI [of _ "htonl (un_le32 (drop 8 seg))"]) simp
qed

lemma web_data:
  assumes "web_ok L (frame # fs) st" and "is_segment flags payload frame" and "flags AND TCP_FLAG_FIN = 0"
    and "tc_state (n_tcb st) = TCP_ESTABLISHED" and "tcb_ok (n_tcb st)" and "payload \<noteq> []" and "length payload < tcb_room (n_tcb st)"
  shows "\<exists>st1. netif_poll st = Ok st1 \<and> web_ok L fs st1 \<and> n_tcb st1 = tcb_store payload (n_tcb st)"
proof -
  obtain src seg st2 where p: "web_ok L fs st2" "n_tcb st2 = n_tcb st" "seg ! 13 = flags" "seg_wf seg (of_nat (20 + length payload))"
    "seg_payload seg (of_nat (20 + length payload)) = payload" "length seg \<le> 65536"
    "netif_poll st = bind_outcome (tcp_process src seg (of_nat (20 + length payload)) st2) (\<lambda>(r, st3). Ok st3)"
    using web_poll [OF assms(1,2)] by blast
  obtain st3 where st3: "tcp_process src seg (of_nat (20 + length payload)) st2 = Ok (0, st3)" "n_tcb st3 = tcb_store payload (n_tcb st)"
    using tcp_process_data [OF p(4,6), of st2 src] p(2,3,5) assms(3-7) by auto
  then have "web_ok L fs st3" using web.tcp_process [OF p(1), of src seg "of_nat (20 + length payload)"] by simp
  with st3 p(7) show ?thesis by simp
qed

lemma web_fin:
  assumes "web_ok L (frame # fs) st" and "is_segment (TCP_FLAG_FIN OR TCP_FLAG_ACK) [] frame" and "tc_state (n_tcb st) = TCP_ESTABLISHED"
  shows "\<exists>st1 q. netif_poll st = Ok st1 \<and> web_ok L fs st1 \<and> n_tcb st1 = (n_tcb st)\<lparr>tc_rcv_nxt := q, tc_state := TCP_CLOSED\<rparr>"
proof -
  obtain src seg st2 where p: "web_ok L fs st2" "n_tcb st2 = n_tcb st" "seg ! 13 = TCP_FLAG_FIN OR TCP_FLAG_ACK" "seg_wf seg 20"
    "seg_payload seg 20 = []"
    "netif_poll st = bind_outcome (tcp_process src seg 20 st2) (\<lambda>(r, st3). Ok st3)"
    using web_poll [OF assms(1,2)] by auto
  have h: "seg_header seg = 20" using p(4,5) by (auto simp: seg_wf_def seg_payload_def)
  then have z: "\<not> (0 :: u32) < 20 - of_nat (4 * unat (drop_bit 4 (seg ! 12)))" by (simp add: seg_header_def)
  have fl: "(TCP_FLAG_FIN OR TCP_FLAG_ACK) AND TCP_FLAG_FIN \<noteq> 0" by (simp add: tcp_flags)
  obtain st3 where "tcb_send (TCP_FLAG_ACK OR TCP_FLAG_FIN) [] (upd_tcb (\<lambda>t. t\<lparr>tc_rcv_nxt := tc_rcv_nxt t + 1\<rparr>) st2) = Ok st3"
    "n_tcb st3 = (n_tcb st)\<lparr>tc_rcv_nxt := tc_rcv_nxt (n_tcb st) + 1\<rparr>" "web_ok L fs st3"
    using tcb_send_empty [of L fs "upd_tcb (\<lambda>t. t\<lparr>tc_rcv_nxt := tc_rcv_nxt t + 1\<rparr>) st2" "TCP_FLAG_ACK OR TCP_FLAG_FIN"] p(1,2)
    by (auto simp: upd_tcb_def)
  then have "netif_poll st = Ok (upd_tcb (\<lambda>t. t\<lparr>tc_state := TCP_CLOSED\<rparr>) st3)"
    unfolding p(6) tcp_process_def Let_def p(2) assms(3) p(3) using z fl by simp
  then show ?thesis
    using \<open>web_ok L fs st3\<close> \<open>n_tcb st3 = _\<close> by (intro exI [of _ "upd_tcb (\<lambda>t. t\<lparr>tc_state := TCP_CLOSED\<rparr>) st3"] exI) (auto simp: upd_tcb_def)
qed

lemma web_idle:
  assumes "web_ok L [] st"
  shows "\<exists>st1. netif_poll st = Ok st1 \<and> web_ok L [] st1 \<and> n_tcb st1 = n_tcb st"
proof -
  have link: "link_ok L" "lk_frames L (n_world st) = []" using assms by (simp_all add: web_ok_def)
  obtain w where w: "lk_recv L 2048 (n_world st) = ((0, []), w)" "lk_frames L w = []"
    using link_recv_none [OF link, of 2048] by blast
  define st1 where "st1 = upd_iface 0 (\<lambda>f. f) (st\<lparr>n_world := w\<rparr>)"
  have "netif_receive 0 2048 st = ((0, []), st1)"
    using assms w(1) by (simp add: netif_receive_def web_ok_def st1_def Let_def)
  then have "netif_poll st = Ok (st1\<lparr>n_rx := n_rx st1\<rparr>)"
    using assms by (simp add: netif_poll_def netif_get_default_def web_ok_def)
  moreover have "web_ok L [] st1" unfolding st1_def using assms w(2) by (subst web_ok_upd_iface) (simp_all add: web_ok_def)
  ultimately show ?thesis by (simp add: st1_def upd_iface_def)
qed

lemma web_idle_polls:
  "web_ok L [] st \<Longrightarrow> \<not> tc_has_data (n_tcb st) \<Longrightarrow>
     \<exists>st1. poll_until (\<lambda>st. tc_has_data (n_tcb st)) n count st = Ok (count + n, st1) \<and> web_ok L [] st1 \<and> n_tcb st1 = n_tcb st"
proof (induction n arbitrary: count st)
  case (Suc n)
  from web_idle [OF Suc.prems(1)] obtain st1 where st1: "netif_poll st = Ok st1" "web_ok L [] st1" "n_tcb st1 = n_tcb st" by blast
  with Suc.IH [of st1 "count + 1"] Suc.prems(2) show ?case by auto
qed simp

section \<open>Receiving and downloading\<close>

text \<open>An open connection on which everything has been read.\<close>

definition drained :: "tcp_block \<Rightarrow> bool" where
  "drained t \<longleftrightarrow> tcb_ok t \<and> tc_rx_processed t = tc_rx_len t \<and> \<not> tc_has_data t"

lemma take_all:
  assumes d: "drained t" and l: "length payload < tcb_room t" "length payload \<le> unat max_len" and "payload \<noteq> []"
  shows "fst (tcb_take max_len (tcb_store payload t)) = payload" and "drained (snd (tcb_take max_len (tcb_store payload t)))"
    and "tcb_room (snd (tcb_take max_len (tcb_store payload t))) = tcb_room t - length payload"
    and "tc_state (snd (tcb_take max_len (tcb_store payload t))) = tc_state t"
proof -
  let ?t = "tcb_store payload t"
  have ok: "tcb_ok t" and u: "unread t = []" using d by (simp_all add: drained_def unread_def)
  note ok1 = rx.put_ok [OF ok l(1)] and v = rx.put_view [OF ok l(1)]
  show "fst (tcb_take max_len ?t) = payload" using rx.get_out [OF ok1, of max_len] v u l(2) by simp
  have room: "tcb_room ?t = tcb_room t - length payload" by (rule rx.put_room [OF ok l(1)])
  then show "tcb_room (snd (tcb_take max_len ?t)) = tcb_room t - length payload" using rx.get_room [OF ok1] by simp
  show "tc_state (snd (tcb_take max_len ?t)) = tc_state t" by (simp add: tcb_take_state tcb_store_state)
  have len: "unat (tc_rx_len ?t) - unat (tc_rx_processed ?t) = length payload"
  proof -
    have "length (unread ?t) = unat (tc_rx_len ?t) - unat (tc_rx_processed ?t)"
      using ok1 by (auto simp: unread_def tcb_ok_def)
    then show ?thesis using v u by simp
  qed
  have "unat (tc_rx_processed (snd (tcb_take max_len ?t))) = unat (tc_rx_len ?t)"
  proof -
    have "unat (tc_rx_processed ?t) \<le> unat (tc_rx_len ?t)" using ok1 by (simp add: tcb_ok_def)
    moreover have "min (unat max_len) (length payload) = length payload" using l(2) by simp
    ultimately show ?thesis using tcb_take_eq(2) [OF ok1, of max_len] len by linarith
  qed
  then have p: "tc_rx_processed (snd (tcb_take max_len ?t)) = tc_rx_len (snd (tcb_take max_len ?t))"
    using tcb_take_eq(3) [OF ok1, of max_len] by (simp add: word_unat_eq_iff)
  have "\<not> tc_has_data (snd (tcb_take max_len ?t))"
  proof (cases "tc_rx_len ?t \<le> tc_rx_processed ?t")
    case True
    then show ?thesis using len assms(4) by (simp add: word_le_nat_alt)
  next
    case False
    then show ?thesis using p by (auto simp: tcb_take_def Let_def split: if_splits)
  qed
  then show "drained (snd (tcb_take max_len ?t))" using p rx.get_ok [OF ok1] by (simp add: drained_def)
qed

text \<open>The wait ends with the first round, also if its reading of the timer is late.\<close>

lemma wait_one_round:
  assumes p: "poll_until (\<lambda>st. tc_has_data (n_tcb st)) 10 0 st = Ok (k, st1)" and ok: "web_ok L fs st1"
    and before: "tc_state (n_tcb st) = TCP_ESTABLISHED" "\<not> tc_has_data (n_tcb st)"
    and after: "tc_has_data (n_tcb st1) \<or> tc_state (n_tcb st1) \<noteq> TCP_ESTABLISHED"
  shows "\<exists>w. tcp_wait_data (lk_ticks L) (Suc (Suc fuel)) start st = Ok (st1\<lparr>n_world := w\<rparr>) \<and> web_ok L fs (st1\<lparr>n_world := w\<rparr>)"
proof -
  obtain t w where r: "read_ticks (lk_ticks L) st1 = (t, st1\<lparr>n_world := w\<rparr>)" "web_ok L fs (st1\<lparr>n_world := w\<rparr>)"
    using web_reads [OF ok] .
  have "tcp_wait_data (lk_ticks L) (Suc fuel) start (st1\<lparr>n_world := w\<rparr>) = Ok (st1\<lparr>n_world := w\<rparr>)"
    using after by (subst tcp_wait_data.simps) simp
  with before p r show ?thesis by (subst tcp_wait_data.simps) (auto simp: Let_def)
qed

lemma receive_data:
  assumes "web_ok L (frame # fs) st" and "is_segment (TCP_FLAG_PSH OR TCP_FLAG_ACK) payload frame" and "tc_state (n_tcb st) = TCP_ESTABLISHED"
    and d: "drained (n_tcb st)" and "payload \<noteq> []" and l: "length payload < tcb_room (n_tcb st)" "length payload \<le> unat max_len"
  shows "\<exists>st1. tcp_receive (lk_ticks L) (Suc (Suc fuel)) max_len st = Ok (payload, st1) \<and> web_ok L fs st1 \<and>
    tc_state (n_tcb st1) = TCP_ESTABLISHED \<and> drained (n_tcb st1) \<and> tcb_room (n_tcb st1) = tcb_room (n_tcb st) - length payload"
proof -
  have fl: "(TCP_FLAG_PSH OR TCP_FLAG_ACK) AND TCP_FLAG_FIN = 0" by (simp add: tcp_flags)
  obtain start w0 where r0: "read_ticks (lk_ticks L) st = (start, st\<lparr>n_world := w0\<rparr>)" "web_ok L (frame # fs) (st\<lparr>n_world := w0\<rparr>)"
    using web_reads [OF assms(1)] .
  obtain st1 where st1: "netif_poll (st\<lparr>n_world := w0\<rparr>) = Ok st1" "web_ok L fs st1" "n_tcb st1 = tcb_store payload (n_tcb st)"
    using web_data [OF r0(2) assms(2) fl _ _ assms(5)] assms(3) d l(1) by (auto simp: drained_def)
  have h: "tc_has_data (n_tcb st1)" using st1(3) by (simp add: tcb_store_def Let_def)
  have "poll_until (\<lambda>st. tc_has_data (n_tcb st)) 10 0 (st\<lparr>n_world := w0\<rparr>) = Ok (1, st1)"
    using st1(1) h by (simp add: numeral_eq_Suc)
  from wait_one_round [OF this st1(2), of fuel start] obtain w where
    w: "tcp_wait_data (lk_ticks L) (Suc (Suc fuel)) start (st\<lparr>n_world := w0\<rparr>) = Ok (st1\<lparr>n_world := w\<rparr>)" "web_ok L fs (st1\<lparr>n_world := w\<rparr>)"
    using h assms(3) d by (auto simp: drained_def)
  note t = take_all [OF d l assms(5)]
  define st2 where "st2 = st1\<lparr>n_world := w, n_tcb := snd (tcb_take max_len (n_tcb st1))\<rparr>"
  have "tcp_receive (lk_ticks L) (Suc (Suc fuel)) max_len st = Ok (payload, st2)"
    using r0(1) w(1) t(1) st1(3) by (simp add: tcp_receive_def Let_def split_def st2_def)
  moreover have "web_ok L fs st2" using w(2) by (simp add: st2_def)
  ultimately show ?thesis using t(2-4) st1(3) assms(3) by (intro exI [of _ st2]) (simp add: st2_def)
qed

lemma receive_end:
  assumes "web_ok L [frame] st" and "is_segment (TCP_FLAG_FIN OR TCP_FLAG_ACK) [] frame" and "tc_state (n_tcb st) = TCP_ESTABLISHED"
    and d: "drained (n_tcb st)"
  shows "\<exists>st1. tcp_receive (lk_ticks L) (Suc (Suc fuel)) max_len st = Ok ([], st1) \<and> web_ok L [] st1"
proof -
  obtain start w0 where r0: "read_ticks (lk_ticks L) st = (start, st\<lparr>n_world := w0\<rparr>)" "web_ok L [frame] (st\<lparr>n_world := w0\<rparr>)"
    using web_reads [OF assms(1)] .
  have e: "tc_state (n_tcb (st\<lparr>n_world := w0\<rparr>)) = TCP_ESTABLISHED" using assms(3) by simp
  obtain st1 q where st1: "netif_poll (st\<lparr>n_world := w0\<rparr>) = Ok st1" "web_ok L [] st1"
    "n_tcb st1 = (n_tcb st)\<lparr>tc_rcv_nxt := q, tc_state := TCP_CLOSED\<rparr>"
    using web_fin [OF r0(2) assms(2) e] by auto
  have h: "\<not> tc_has_data (n_tcb st1)" using st1(3) d by (simp add: drained_def)
  obtain st2 where st2: "poll_until (\<lambda>st. tc_has_data (n_tcb st)) 9 1 st1 = Ok (10, st2)" "web_ok L [] st2" "n_tcb st2 = n_tcb st1"
    using web_idle_polls [OF st1(2) h, of 9 1] by auto
  have "poll_until (\<lambda>st. tc_has_data (n_tcb st)) (Suc 9) 0 (st\<lparr>n_world := w0\<rparr>) = Ok (10, st2)"
    unfolding poll_until.simps using st1(1) h st2(1) by simp
  then have p: "poll_until (\<lambda>st. tc_has_data (n_tcb st)) 10 0 (st\<lparr>n_world := w0\<rparr>) = Ok (10, st2)" by simp
  from wait_one_round [OF p st2(2), of fuel start] obtain w where
    w: "tcp_wait_data (lk_ticks L) (Suc (Suc fuel)) start (st\<lparr>n_world := w0\<rparr>) = Ok (st2\<lparr>n_world := w\<rparr>)" "web_ok L [] (st2\<lparr>n_world := w\<rparr>)"
    using assms(3) d st1(3) st2(3) by (auto simp: drained_def)
  have "tcb_take max_len (n_tcb st2) = ([], n_tcb st2)" using d st1(3) st2(3) by (simp add: tcb_take_def drained_def)
  then have "tcp_receive (lk_ticks L) (Suc (Suc fuel)) max_len st = Ok ([], st2\<lparr>n_world := w, n_tcb := n_tcb st2\<rparr>)"
    using r0(1) w(1) by (simp add: tcp_receive_def Let_def)
  then show ?thesis using w(2) by auto
qed

lemma on_net_Ok:
  assumes "dev st = (e, n)" and "f (n\<lparr>n_log := []\<rparr>) = Ok (r, n1)"
  shows "\<exists>st1. on_net f st = Ok (r, st1) \<and> dev st1 = (e, n1\<lparr>n_log := []\<rparr>)"
  using assms by (simp add: on_net_def)

text \<open>The server's side of a connection: the chunks, then the end.\<close>

definition serves :: "u8 list list \<Rightarrow> u8 list list \<Rightarrow> bool" where
  "serves chunks fs \<longleftrightarrow> (\<exists>frames fin. fs = frames @ [fin] \<and> is_segment (TCP_FLAG_FIN OR TCP_FLAG_ACK) [] fin \<and>
     list_all2 (is_segment (TCP_FLAG_PSH OR TCP_FLAG_ACK)) chunks frames) \<and> [] \<notin> set chunks"

lemma download_served:
  assumes e: "ne_ticks env = (lk_ticks L)" "ne_fuel env = Suc (Suc fuel)"
  shows "serves chunks fs \<Longrightarrow> dev st = (e, n) \<Longrightarrow> web_ok L fs n \<Longrightarrow> tc_state (n_tcb n) = TCP_ESTABLISHED \<Longrightarrow> drained (n_tcb n) \<Longrightarrow>
    length (concat chunks) < tcb_room (n_tcb n) \<Longrightarrow> length buf + length (concat chunks) < 100000 \<Longrightarrow>
    \<exists>st1. wget_download env buf st = Ok (buf @ concat chunks, st1)"
proof (induction chunks arbitrary: fs st n buf)
  case Nil
  then obtain fin where fs: "fs = [fin]" "is_segment (TCP_FLAG_FIN OR TCP_FLAG_ACK) [] fin" by (auto simp: serves_def)
  obtain n1 where "tcp_receive (lk_ticks L) (Suc (Suc fuel)) (of_nat (DOWNLOAD_BUF_SIZE - length buf)) (n\<lparr>n_log := []\<rparr>) = Ok ([], n1)"
    using receive_end [of L fin "n\<lparr>n_log := []\<rparr>" fuel] Nil.prems fs by auto
  from on_net_Ok [where f = "tcp_receive (lk_ticks L) (Suc (Suc fuel)) (of_nat (DOWNLOAD_BUF_SIZE - length buf))", OF Nil.prems(2) this]
  obtain st1 where "on_net (tcp_receive (lk_ticks L) (Suc (Suc fuel)) (of_nat (DOWNLOAD_BUF_SIZE - length buf))) st = Ok ([], st1)" by blast
  moreover have "length buf < DOWNLOAD_BUF_SIZE" using Nil.prems by (simp add: DOWNLOAD_BUF_SIZE_def)
  ultimately show ?case using e by (subst wget_download.simps) simp
next
  case (Cons c chunks)
  from Cons.prems(1) obtain frame frames fin where fs: "fs = frame # frames @ [fin]" "is_segment (TCP_FLAG_PSH OR TCP_FLAG_ACK) c frame"
    "serves chunks (frames @ [fin])" "c \<noteq> []"
    by (auto simp: serves_def list_all2_Cons1)
  have small: "length buf < DOWNLOAD_BUF_SIZE" using Cons.prems by (simp add: DOWNLOAD_BUF_SIZE_def)
  define m where "m = DOWNLOAD_BUF_SIZE - length buf"
  have mb: "m < 2 ^ 32" "length c \<le> m" using Cons.prems(7) by (auto simp: m_def DOWNLOAD_BUF_SIZE_def)
  then have m: "unat (of_nat m :: u32) = m" "length c \<le> m" unfolding unat_of_nat by simp_all
  obtain n1 where n1: "tcp_receive (lk_ticks L) (Suc (Suc fuel)) (of_nat m) (n\<lparr>n_log := []\<rparr>) = Ok (c, n1)" "web_ok L (frames @ [fin]) n1"
    "tc_state (n_tcb n1) = TCP_ESTABLISHED" "drained (n_tcb n1)" "tcb_room (n_tcb n1) = tcb_room (n_tcb n) - length c"
    using receive_data [of L frame "frames @ [fin]" "n\<lparr>n_log := []\<rparr>" c "of_nat m" fuel] Cons.prems fs m by auto
  from on_net_Ok [where f = "tcp_receive (lk_ticks L) (Suc (Suc fuel)) (of_nat m)", OF Cons.prems(2) n1(1)]
  obtain st1 where st1: "on_net (tcp_receive (lk_ticks L) (Suc (Suc fuel)) (of_nat m)) st = Ok (c, st1)" "dev st1 = (e, n1\<lparr>n_log := []\<rparr>)" by blast
  have "\<exists>st2. wget_download env (buf @ c) (emit (progress (length buf) (length buf + length c)) st1) = Ok ((buf @ c) @ concat chunks, st2)"
    using Cons.prems n1 st1(2) by (intro Cons.IH [OF fs(3), where n = "n1\<lparr>n_log := []\<rparr>"]) auto
  then show ?case using small st1(1) fs(4) e unfolding m_def by (subst wget_download.simps) auto
qed

section \<open>A download from the server\<close>

lemma web_sends:
  assumes ok: "web_ok L fs st" and ne: "data \<noteq> []"
  shows "\<exists>r st1. netif_send 0 data st = (r, st1) \<and> 0 \<le> r \<and> n_tcb st1 = n_tcb st"
proof -
  have s: "send_packet (n_ifaces st ! 0) = Some (lk_send L)" "link_ok L" using ok by (simp_all add: web_ok_def)
  obtain r w where "lk_send L data (n_world st) = (r, w)" "0 \<le> r" using link_send [OF s(2)] by blast
  then show ?thesis using ne s(1) by (simp add: netif_send_def Let_def netlog_def upd_iface_def)
qed

lemma connect_sends:
  assumes ok: "web_ok L fs st"
  shows "\<exists>r st1. tcp_send_packet d q p s k fl [] st = Ok (r, st1) \<and> 0 \<le> r \<and> web_ok L fs st1 \<and> n_tcb st1 = n_tcb st"
proof -
  let ?seg = "tcp_segment (if_ip (n_ifaces st ! 0)) d p q s k fl []"
  define st1 where "st1 = (if \<not> n_shown st
     then netlog ([Puts (lit ''[IP] src='')] @ dotted3 (if_ip (n_ifaces st ! 0)) @ [Puts (lit '' gw='')] @
                  dotted3 (if_gateway (n_ifaces st ! 0)) @ [Puts (lit ''\<newline>'')]) (st\<lparr>n_shown := True\<rparr>) else st)"
  define frame where "frame = eth_header (dest_mac_for d (n_ifaces st ! 0) (n_arp st)) (if_mac (n_ifaces st ! 0)) 0x0800 @
     ip_header (20 + of_nat (length ?seg)) 6 (if_ip (n_ifaces st ! 0)) d @ ?seg"
  have f: "frame \<noteq> []"
  proof
    assume "frame = []"
    then have "?seg = []" by (simp add: frame_def)
    then show False using length_tcp_segment [of "if_ip (n_ifaces st ! 0)" d p q s k fl "[]"] by simp
  qed
  have w: "web_ok L fs st1" using ok by (simp add: st1_def netlog_def web_ok_def)
  have t: "n_tcb st1 = n_tcb st" by (simp add: st1_def netlog_def)
  have "netif_get_default st = Some 0" using ok by (simp add: web_ok_def netif_get_default_def)
  then have s: "tcp_send_packet d q p s k fl [] st = Ok (netif_send 0 frame st1)"
    unfolding tcp_send_packet_def ip_send_def Let_def by (simp add: frame_def st1_def)
  obtain r st2 where st2: "netif_send 0 frame st1 = (r, st2)" "0 \<le> r" "n_tcb st2 = n_tcb st"
    using web_sends [OF w f] t by auto
  moreover have "web_ok L fs st2" using web.tcp_send_packet [OF ok, of d q p s k fl "[]"] s st2(1) by simp
  ultimately show ?thesis using s by simp
qed

lemma connect_served:
  assumes ok: "web_ok L (synack # fs) n" and a: "is_segment (TCP_FLAG_SYN OR TCP_FLAG_ACK) [] synack"
    and up: "net_ready n" and buf: "length (tc_rx_buffer (n_tcb n)) = 16384"
  shows "\<exists>n1. tcp_connect (lk_ticks L) rx (Suc (Suc fuel)) ip 80 n = Ok (0, n1) \<and> web_ok L fs n1 \<and>
    tc_state (n_tcb n1) = TCP_ESTABLISHED \<and> drained (n_tcb n1) \<and> tcb_room (n_tcb n1) = 16384"
proof -
  obtain t1 w1 where r1: "read_ticks (lk_ticks L) n = (t1, n\<lparr>n_world := w1\<rparr>)" "web_ok L (synack # fs) (n\<lparr>n_world := w1\<rparr>)"
    using web_reads [OF ok] .
  obtain t2 w2 where r2: "read_ticks (lk_ticks L) (n\<lparr>n_world := w1\<rparr>) = (t2, n\<lparr>n_world := w2\<rparr>)" "web_ok L (synack # fs) (n\<lparr>n_world := w2\<rparr>)"
  proof -
    from web_reads [OF r1(2)] obtain t w where
      "read_ticks (lk_ticks L) (n\<lparr>n_world := w1\<rparr>) = (t, n\<lparr>n_world := w1, n_world := w\<rparr>)"
      "web_ok L (synack # fs) (n\<lparr>n_world := w1, n_world := w\<rparr>)" .
    then show ?thesis by (intro that [of t w]) simp_all
  qed
  define n2 where "n2 = upd_tcb (\<lambda>t. t\<lparr>tc_state := TCP_CLOSED, tc_rx_len := 0, tc_rx_processed := 0, tc_has_data := False,
      tc_remote_ip := ip, tc_remote_port := 80, tc_local_port := ucast (10000 + t1 mod 50000), tc_snd_nxt := t2, tc_rcv_nxt := 0\<rparr>)
      (n\<lparr>n_world := w2\<rparr>)"
  define n3 where "n3 = upd_tcb (\<lambda>t. t\<lparr>tc_local_ip := if_ip (n_ifaces n2 ! 0)\<rparr>) n2"
  have n3: "web_ok L (synack # fs) n3" using r2(2) by (simp add: n3_def n2_def)
  have up2: "if_link_up (n_ifaces n2 ! 0)" "if_ip (n_ifaces n2 ! 0) \<noteq> 0" "netif_get_default n2 = Some 0"
    using ok up by (simp_all add: net_ready_def netif_get_default_def web_ok_def n2_def upd_tcb_def)
  have c: "tcp_connect (lk_ticks L) rx (Suc (Suc fuel)) ip 80 n = tcp_retries (lk_ticks L) rx (Suc (Suc fuel)) [0..<5] n3"
    using up2 unfolding tcp_connect_def r1(1) Let_def prod.case r2(1) by (simp add: n2_def [symmetric] n3_def [symmetric])
  obtain r n4 where n4: "tcp_send_packet (tc_remote_ip (n_tcb n3)) (tc_remote_port (n_tcb n3)) (tc_local_port (n_tcb n3)) (tc_snd_nxt (n_tcb n3)) 0
      TCP_FLAG_SYN [] n3 = Ok (r, n4)" "0 \<le> r" "web_ok L (synack # fs) n4" "n_tcb n4 = n_tcb n3"
    using connect_sends [OF n3] by blast
  define n5 where "n5 = upd_tcb (\<lambda>t. t\<lparr>tc_state := TCP_SYN_SENT\<rparr>) n4"
  have w5: "web_ok L (synack # fs) n5" using n4(3) by (simp add: n5_def)
  obtain start w where r5: "read_ticks (lk_ticks L) n5 = (start, n5\<lparr>n_world := w\<rparr>)" "web_ok L (synack # fs) (n5\<lparr>n_world := w\<rparr>)"
    using web_reads [OF w5] .
  have "tc_state (n_tcb (n5\<lparr>n_world := w\<rparr>)) = TCP_SYN_SENT" by (simp add: n5_def upd_tcb_def)
  from web_synack [OF r5(2) a this]
  obtain n6 q k where n6: "netif_poll (n5\<lparr>n_world := w\<rparr>) = Ok n6" "web_ok L fs n6"
    "n_tcb n6 = (n_tcb n5)\<lparr>tc_rcv_nxt := q, tc_snd_nxt := k, tc_state := TCP_ESTABLISHED\<rparr>" by auto
  have est: "established n6" using n6(3) by (simp add: established_def)
  have "poll_until established (Suc 9) 0 (n5\<lparr>n_world := w\<rparr>) = Ok (1, n6)" unfolding poll_until.simps using n6(1) est by (simp add: numeral_eq_Suc)
  then have "poll_until established 10 0 (n5\<lparr>n_world := w\<rparr>) = Ok (1, n6)" by simp
  then obtain n7 es where n7: "tcp_wait_syn (lk_ticks L) rx (Suc (Suc fuel)) start 0 (n5\<lparr>n_world := w\<rparr>) = Ok (True, n7)" "n7 = netlog es n6"
    unfolding tcp_wait_syn.simps using est by simp
  have range: "[0..<5] = 0 # [1..<5]" by (simp add: upt_rec)
  have "tcp_connect (lk_ticks L) rx (Suc (Suc fuel)) ip 80 n = Ok (0, n7)"
    unfolding c range tcp_retries.simps Let_def using n4(1,2) n7(1) r5(1) by (simp add: n5_def [symmetric])
  moreover have "web_ok L fs n7" "n_tcb n7 = n_tcb n6" using n6(2) n7(2) by (simp_all add: netlog_def web_ok_def)
  moreover have "drained (n_tcb n6)" "tcb_room (n_tcb n6) = 16384"
    using n6(3) n4(4) buf by (simp_all add: drained_def tcb_ok_def tcb_room_def n5_def n3_def n2_def upd_tcb_def)
  moreover have "tc_state (n_tcb n6) = TCP_ESTABLISHED" using n6(3) by simp
  ultimately show ?thesis by auto
qed

lemma request_length:
  assumes "length host + length path \<le> 120"
  shows "length (wget_request host path) \<le> 511"
  using assms by (simp add: wget_request_def append_upto_def Let_def lit_def crlf_def)

lemma send_served:
  assumes ok: "web_ok L fs n" and e: "tc_state (n_tcb n) = TCP_ESTABLISHED" and l: "length req \<le> 1446"
  shows "\<exists>r n1. tcp_send req n = Ok (r, n1) \<and> web_ok L fs n1 \<and> tc_state (n_tcb n1) = TCP_ESTABLISHED \<and>
    drained (n_tcb n1) = drained (n_tcb n) \<and> tcb_room (n_tcb n1) = tcb_room (n_tcb n)"
proof -
  obtain n1 where n1: "tcb_send (TCP_FLAG_PSH OR TCP_FLAG_ACK) req n = Ok n1" "n_tcb n1 = n_tcb n"
    using tcb_send_keeps [OF l] by blast
  have "web_ok L fs n1" using web.tcb_send [OF ok, of "TCP_FLAG_PSH OR TCP_FLAG_ACK" req] n1(1) by simp
  then show ?thesis using n1 e by (simp add: tcp_send_def upd_tcb_def drained_def tcb_ok_def tcb_room_def)
qed

lemma fetch_served:
  fixes L :: "'w link"
  assumes e: "ne_ticks env = lk_ticks L" "ne_fuel env = Suc (Suc fuel)" "ne_heap_ok env"
    and d: "dev st = (x, n)" and ok: "web_ok L (synack # fs) n" and a: "is_segment (TCP_FLAG_SYN OR TCP_FLAG_ACK) [] synack"
    and up: "net_ready n" and buf: "length (tc_rx_buffer (n_tcb n)) = 16384"
    and s: "serves chunks fs" and l: "length (concat chunks) < 16384" and hp: "length host + length path \<le> 120"
  shows "\<exists>st1. wget_fetch env ip host path st = Ok (Some (concat chunks), st1)"
proof -
  define clean where "clean = (\<lambda>n :: 'w net. n\<lparr>n_log := []\<rparr>)"
  have c: "web_ok L gs (clean m) = web_ok L gs m" "n_tcb (clean m) = n_tcb m" "net_ready (clean m) = net_ready m" for gs m
    by (simp_all add: clean_def web_ok_def net_ready_def netif_get_default_def cong: option.case_cong)
  have "web_ok L (synack # fs) (clean n)" "net_ready (clean n)" "length (tc_rx_buffer (n_tcb (clean n))) = 16384"
    using ok up buf c by simp_all
  from connect_served [OF this(1) a this(2,3), of "ne_rx_state env" fuel ip] obtain n1 where
    n1: "tcp_connect (lk_ticks L) (ne_rx_state env) (Suc (Suc fuel)) ip 80 (clean n) = Ok (0, n1)" "web_ok L fs n1"
    "tc_state (n_tcb n1) = TCP_ESTABLISHED" "drained (n_tcb n1)" "tcb_room (n_tcb n1) = 16384"
    by blast
  define st1 where "st1 = emit [SetAttr 0x0B, Puts (lit ''Connecting to ''), Puts host, Puts (lit '':80...\<newline>''), SetAttr 0x07] st"
  have "dev st1 = (x, n)" using d by (simp add: st1_def)
  from on_net_Ok [where f = "tcp_connect (lk_ticks L) (ne_rx_state env) (Suc (Suc fuel)) ip 80", OF this n1(1) [unfolded clean_def]]
  obtain st2 where st2: "on_net (tcp_connect (lk_ticks L) (ne_rx_state env) (Suc (Suc fuel)) ip 80) st1 = Ok (0, st2)" "dev st2 = (x, clean n1)"
    by (auto simp: clean_def)
  obtain r n3 where n3: "tcp_send (wget_request host path) (clean (clean n1)) = Ok (r, n3)" "web_ok L fs n3"
    "tc_state (n_tcb n3) = TCP_ESTABLISHED" "drained (n_tcb n3)" "tcb_room (n_tcb n3) = 16384"
    using send_served [of L fs "clean (clean n1)" "wget_request host path"] n1 c request_length [OF hp] by auto
  define st3 where "st3 = emit (colored 0x0A [''Connected! Sending HTTP request...\<newline>'']) st2"
  have "dev st3 = (x, clean n1)" using st2(2) by (simp add: st3_def)
  moreover have "tcp_send (wget_request host path) ((clean n1)\<lparr>n_log := []\<rparr>) = Ok (r, n3)" using n3(1) by (simp add: clean_def)
  ultimately have "\<exists>st4. on_net (tcp_send (wget_request host path)) st3 = Ok (r, st4) \<and> dev st4 = (x, n3\<lparr>n_log := []\<rparr>)"
    by (rule on_net_Ok)
  then obtain st4 where st4: "on_net (tcp_send (wget_request host path)) st3 = Ok (r, st4)" "dev st4 = (x, clean n3)"
    by (auto simp: clean_def)
  define st5 where "st5 = emit (colored 0x0E [''Downloading'']) st4"
  have "dev st5 = (x, clean n3)" using st4(2) by (simp add: st5_def)
  from download_served [OF e(1,2) s this, of "[]"]
  obtain st6 where "wget_download env [] st5 = Ok (concat chunks, st6)" using n3 c l by auto
  then show ?thesis
    unfolding wget_fetch_def Let_def using e st2(1) st4(1)
    by (simp add: st1_def [symmetric] st3_def [symmetric] st5_def [symmetric])
qed

text \<open>
  C14.  A download works.  The host of the URL is an address in dotted form, the path has at most
  77 characters; the driver has the server's frames, which accept the connection, carry the
  response, fewer than 16384 bytes, in segments of at most 1446, and close it.  Then, whatever the
  timer reads, WGET stores the first 4096 bytes of what follows the first empty line of the
  response in a new file, named by what follows the last slash of the path and cut at 55 characters
  as every name is, keeps the tables well-formed and returns 0.
\<close>
theorem wget_from_server:
  assumes wf: "cmd_wf st" and d: "dev st = (x, n)"
    and net: "web_ok L (synack # fs) n" "net_ready n" "length (tc_rx_buffer (n_tcb n)) = 16384"
    and env: "ne_ticks env = lk_ticks L" "ne_fuel env = Suc (Suc fuel)" "ne_heap_ok env"
    and server: "is_segment (TCP_FLAG_SYN OR TCP_FLAG_ACK) [] synack" "serves chunks fs"
    and response: "concat chunks = header @ [13, 10, 13, 10] @ body" "length (concat chunks) < 16384"
      "\<forall>i < length header. take 4 (drop i (header @ [13, 10, 13, 10] @ body)) \<noteq> [13, 10, 13, 10]"
    and url: "path = 47 # p" "length path \<le> 77" "\<forall>c \<in> set path. \<not> is_blank c \<and> c \<noteq> 0"
    and name: "file_path st (wget_name path) = Ok full" "0 \<notin> set full" "full \<noteq> []" "room_for full st"
  shows "\<exists>st1. cmd_wget io env (lit ''http://'' @ dotted_text ip @ path) st = Ok (0, st1) \<and> cmd_wf st1 \<and>
    fs_count st1 = Suc (fs_count st) \<and> cstr (fe_name (fs_table st1 ! fs_count st)) = take 55 full \<and>
    file_bytes st1 (fs_count st) = Some (take 4096 body)"
proof -
  let ?host = "dotted_text ip"
  have host: "?host \<noteq> []" "length (?host @ path) \<le> 120" "length ?host + length path \<le> 120"
    using dotted_text_short [of ip] url(2) by simp_all
  have chars: "\<forall>c \<in> set ?host. c \<noteq> 47 \<and> c \<noteq> 58" "\<forall>c \<in> set (?host @ path). \<not> is_blank c \<and> c \<noteq> 0"
    using dotted_text_bytes [of _ ip] url(3) by (fastforce simp: is_blank_def)+
  define st0 where "st0 = emit [SetAttr 0x0B, Puts (lit ''Host: ''), Puts ?host, Puts (lit ''\<newline>''), SetAttr 0x07] st"
  have r: "wget_resolve env ?host st = Ok (Some ip, st0)"
    using dotted_address [of ip] by (simp add: wget_resolve_def st0_def)
  have d0: "dev (emit (ip_text ip @ [SetAttr 0x07]) st0) = (x, n)" using d by (simp add: st0_def)
  obtain st2 where f: "wget_fetch env ip ?host path (emit (ip_text ip @ [SetAttr 0x07]) st0) = Ok (Some (concat chunks), st2)"
    using fetch_served [OF env d0 net(1) server(1) net(2,3) server(2) response(2) host(3)] by blast
  have up: "net_ready (snd (dev st))" using net(2) d by simp
  have first: "\<forall>i < length header. take 4 (drop i (concat chunks)) \<noteq> [13, 10, 13, 10]" using response(1,3) by simp
  show ?thesis by (rule wget_stores [OF wf up host(1) chars(1) url(1) chars(2) host(2) r f response(1) first name])
qed

text \<open>A server that answers in two segments.\<close>

definition web_frame :: "u8 \<Rightarrow> u8 list \<Rightarrow> u8 list" where
  "web_frame flags payload = eth_header (replicate 6 1) (replicate 6 2) 0x0800 @ ip_header (of_nat (40 + length payload)) 6 0x5DB8D822 0x0A00020F @
     tcp_segment 0x5DB8D822 0x0A00020F 80 10000 1000 1 flags payload"

definition web_frames :: "u8 list list" where
  "web_frames = [web_frame (TCP_FLAG_PSH OR TCP_FLAG_ACK) (lit ''HTTP/1.0 200'' @ [13, 10]),
     web_frame (TCP_FLAG_PSH OR TCP_FLAG_ACK) ([13, 10] @ lit ''hello''), web_frame (TCP_FLAG_FIN OR TCP_FLAG_ACK) []]"

text \<open>
  A driver whose world is the list of the frames to come and a counter of the readings of the
  timer, which ticks at every hundredth of them.
\<close>

type_synonym web_world = "u8 list list \<times> nat"

definition web_link :: "web_world link" where
  "web_link = \<lparr>lk_frames = fst,
     lk_recv = (\<lambda>n (fs, t). case fs of [] \<Rightarrow> ((0, []), ([], t)) | f # fs \<Rightarrow> ((int (length f), f), (fs, t))),
     lk_send = (\<lambda>data w. (int (length data), w)),
     lk_ticks = (\<lambda>(fs, t). (of_nat (t div 100), (fs, t + 1)))\<rparr>"

lemma web_link_ok: "link_ok web_link"
  by (auto simp: link_ok_def web_link_def split: list.split)

definition web_iface :: "web_world iface" where
  "web_iface = \<lparr>if_name = lit ''eth0'', if_mac = replicate 6 1, if_ip = 0x0A00020F, if_netmask = 0xFFFFFF00, if_gateway = 0x0A000202,
     if_dns = 0, if_link_up = True, tx_packets = 0, rx_packets = 0, tx_bytes = 0, rx_bytes = 0, tx_errors = 0, rx_errors = 0,
     send_packet = Some (lk_send web_link), recv_packet = Some (lk_recv web_link)\<rparr>"

definition web_net :: "web_world net" where
  "web_net = \<lparr>n_ifaces = [web_iface], n_num = 1, n_default = Some 0, n_arp = [], n_shown = False, n_tcp_count = 0, n_udp_count = 0,
     n_dns_host = replicate 64 0, n_dns_ip = 0, n_tcb = n_tcb ref_net, n_xid = 0, n_offered_ip = 0, n_server_ip = 0, n_rx = replicate 2048 0,
     n_log = [], n_world = (web_frame (TCP_FLAG_SYN OR TCP_FLAG_ACK) [] # web_frames, 0)\<rparr>"

definition web_env :: "web_world net_env" where
  "web_env = \<lparr>ne_ticks = lk_ticks web_link, ne_rx_state = (\<lambda>_. []), ne_fuel = 2, ne_heap_ok = True, ne_driver_init = (\<lambda>n. (0, n)),
     ne_driver_test = (\<lambda>n. (0, n))\<rparr>"

lemma web_frame_segment: "length payload \<le> 1446 \<Longrightarrow> is_segment flags payload (web_frame flags payload)"
  unfolding is_segment_def web_frame_def
  by (intro conjI exI [of _ "replicate 6 (1 :: u8)"] exI [of _ "replicate 6 (2 :: u8)"] exI) (simp_all only: length_replicate)

lemma web_net_ok: "web_ok web_link (web_frame (TCP_FLAG_SYN OR TCP_FLAG_ACK) [] # web_frames) web_net" "net_ready web_net"
  "length (tc_rx_buffer (n_tcb web_net)) = 16384"
proof -
  have "lk_frames web_link (n_world web_net) = web_frame (TCP_FLAG_SYN OR TCP_FLAG_ACK) [] # web_frames"
    by (simp add: web_link_def web_net_def)
  then show "web_ok web_link (web_frame (TCP_FLAG_SYN OR TCP_FLAG_ACK) [] # web_frames) web_net"
    using web_link_ok by (simp add: web_ok_def web_net_def web_iface_def)
qed (simp_all add: web_net_def web_iface_def net_ready_def netif_get_default_def ref_net_def)

lemma web_frames_serve: "serves [lit ''HTTP/1.0 200'' @ [13, 10], [13, 10] @ lit ''hello''] web_frames"
  unfolding serves_def web_frames_def
  by (intro conjI exI [of _ "[web_frame (TCP_FLAG_PSH OR TCP_FLAG_ACK) (lit ''HTTP/1.0 200'' @ [13, 10]), web_frame (TCP_FLAG_PSH OR TCP_FLAG_ACK) ([13, 10] @ lit ''hello'')]"]
      exI [of _ "web_frame (TCP_FLAG_FIN OR TCP_FLAG_ACK) []"]) (simp_all add: web_frame_segment lit_def)

theorem wget_from_server_witness:
  "\<forall>io. \<exists>st1. cmd_wget io web_env (lit ''http://'' @ dotted_text 0x5DB8D822 @ lit ''/A'') (initial_state (blank_drive, web_net)) = Ok (0, st1) \<and>
    cmd_wf st1 \<and> fs_count st1 = 1 \<and> cstr (fe_name (fs_table st1 ! 0)) = [67, 58, 92, 65] \<and> file_bytes st1 0 = Some (lit ''hello'')"
proof
  fix io :: "(ata_view \<times> web_world net) port_io"
  let ?st = "initial_state (blank_drive, web_net)" and ?full = "[67, 58, 92, 65] :: u8 list"
  have d: "dev ?st = (blank_drive, web_net)" by (simp add: initial_state_def)
  have name: "file_path ?st (wget_name (lit ''/A'')) = Ok ?full"
    by (simp add: file_path_def build_path_def wget_name_def Let_def lit_def chr_def initial_sel)
  have room: "room_for ?full ?st" by (simp add: room_for_def find_content_def initial_sel)
  have env: "ne_ticks web_env = lk_ticks web_link" "ne_fuel web_env = Suc (Suc 0)" "ne_heap_ok web_env" by (simp_all add: web_env_def)
  have response: "concat [lit ''HTTP/1.0 200'' @ [13, 10], [13, 10] @ lit ''hello''] = lit ''HTTP/1.0 200'' @ [13, 10, 13, 10] @ lit ''hello''"
    by simp
  have "list_all (\<lambda>i. take 4 (drop i (lit ''HTTP/1.0 200'' @ [13, 10, 13, 10] @ lit ''hello'')) \<noteq> [13, 10, 13, 10])
    [0..<length (lit ''HTTP/1.0 200'')]" by code_simp
  then have first: "\<forall>i < length (lit ''HTTP/1.0 200''). take 4 (drop i (lit ''HTTP/1.0 200'' @ [13, 10, 13, 10] @ lit ''hello'')) \<noteq> [13, 10, 13, 10]"
    by (simp add: list_all_iff)
  from wget_from_server [OF initial_wf d web_net_ok env web_frame_segment web_frames_serve response _ first _ _ _ name _ _ room,
      of "[65]" io "0x5DB8D822"]
  show "\<exists>st1. cmd_wget io web_env (lit ''http://'' @ dotted_text 0x5DB8D822 @ lit ''/A'') (initial_state (blank_drive, web_net)) = Ok (0, st1) \<and>
    cmd_wf st1 \<and> fs_count st1 = 1 \<and> cstr (fe_name (fs_table st1 ! 0)) = [67, 58, 92, 65] \<and> file_bytes st1 0 = Some (lit ''hello'')"
    by (simp add: initial_sel lit_def is_blank_def)
qed

end
