(* ===== verification/Irq_Ring.thy ===== *)
theory Irq_Ring
  imports C_Prelude
begin

text \<open>
  The input buffers between the interrupt handlers and the C code
  (\<^verbatim>\<open>src/src/interrupt.asm\<close>, lines 41 to 47, 95 to 104 and 358 to 409): a ring of 256 entries with a head the
  interrupt advances and a tail the reader advances.  Neither side tests for a full ring.
  The mouse buffer holds bytes, the keyboard buffer words.
\<close>

record 'a ring =
  rg_buf :: "'a list"
  rg_head :: nat
  rg_tail :: nat

text \<open>The store of an interrupt, and \<^verbatim>\<open>c_mouse_read\<close>: \<open>None\<close> is its result -1.\<close>

definition ring_put :: "'a \<Rightarrow> 'a ring \<Rightarrow> 'a ring" where
  "ring_put x r = r\<lparr>rg_buf := (rg_buf r)[rg_head r := x], rg_head := (rg_head r + 1) mod 256\<rparr>"

definition ring_get :: "'a ring \<Rightarrow> 'a option \<times> 'a ring" where
  "ring_get r =
     (if rg_tail r = rg_head r then (None, r)
      else (Some (rg_buf r ! rg_tail r), r\<lparr>rg_tail := (rg_tail r + 1) mod 256\<rparr>))"

definition ring_ok :: "'a ring \<Rightarrow> bool" where
  "ring_ok r \<longleftrightarrow> length (rg_buf r) = 256 \<and> rg_head r < 256 \<and> rg_tail r < 256"

definition ring_count :: "'a ring \<Rightarrow> nat" where
  "ring_count r = (if rg_tail r \<le> rg_head r then rg_head r - rg_tail r else rg_head r + 256 - rg_tail r)"

definition ring_list :: "'a ring \<Rightarrow> 'a list" where
  "ring_list r = map (\<lambda>i. rg_buf r ! ((rg_tail r + i) mod 256)) [0..<ring_count r]"

section \<open>The contract of an input queue\<close>

text \<open>
  Entries come out in the order they went in, as long as the reader keeps up: \<open>cap\<close> valid entries
  may wait.  A session is a sequence of puts and gets.
\<close>

datatype 'a queue_op = Put 'a | Get

fun queue_run :: "('a \<Rightarrow> 's \<Rightarrow> 's) \<Rightarrow> ('s \<Rightarrow> 'a option \<times> 's) \<Rightarrow> 'a queue_op list \<Rightarrow> 's \<Rightarrow> 'a list \<times> 's" where
  "queue_run put get [] s = ([], s)"
| "queue_run put get (Put x # ops) s = queue_run put get ops (put x s)"
| "queue_run put get (Get # ops) s =
     (let (r, s1) = get s; (rs, s2) = queue_run put get ops s1
      in (case r of None \<Rightarrow> rs | Some x \<Rightarrow> x # rs, s2))"

fun queue_ins :: "'a queue_op list \<Rightarrow> 'a list" where
  "queue_ins [] = []"
| "queue_ins (Put x # ops) = x # queue_ins ops"
| "queue_ins (Get # ops) = queue_ins ops"

text \<open>With \<open>n\<close> entries waiting at the start, there is room for every put.\<close>

fun queue_fits :: "nat \<Rightarrow> nat \<Rightarrow> 'a queue_op list \<Rightarrow> bool" where
  "queue_fits cap n [] = True"
| "queue_fits cap n (Put x # ops) = (n < cap \<and> queue_fits cap (Suc n) ops)"
| "queue_fits cap n (Get # ops) = queue_fits cap (n - 1) ops"

locale input_queue =
  fixes put :: "'a \<Rightarrow> 's \<Rightarrow> 's"
    and get :: "'s \<Rightarrow> 'a option \<times> 's"
    and view :: "'s \<Rightarrow> 'a list"
    and ok :: "'s \<Rightarrow> bool"
    and valid :: "'a \<Rightarrow> bool"
    and cap :: nat
  assumes put_ok: "ok s \<Longrightarrow> valid x \<Longrightarrow> length (view s) < cap \<Longrightarrow> ok (put x s)"
    and put_view: "ok s \<Longrightarrow> valid x \<Longrightarrow> length (view s) < cap \<Longrightarrow> view (put x s) = view s @ [x]"
    and get_Nil: "ok s \<Longrightarrow> view s = [] \<Longrightarrow> \<exists>s1. get s = (None, s1) \<and> ok s1 \<and> view s1 = []"
    and get_Cons: "ok s \<Longrightarrow> view s = x # xs \<Longrightarrow> \<exists>s1. get s = (Some x, s1) \<and> ok s1 \<and> view s1 = xs"
begin

lemma puts_view:
  "ok s \<Longrightarrow> \<forall>x \<in> set xs. valid x \<Longrightarrow> length (view s) + length xs \<le> cap \<Longrightarrow>
   view (fold put xs s) = view s @ xs \<and> ok (fold put xs s)"
  by (induction xs arbitrary: s) (auto simp: put_ok put_view)

lemma run_fifo:
  "ok s \<Longrightarrow> \<forall>x \<in> set (queue_ins ops). valid x \<Longrightarrow> queue_fits cap (length (view s)) ops \<Longrightarrow>
   \<exists>outs s1. queue_run put get ops s = (outs, s1) \<and> ok s1 \<and> outs @ view s1 = view s @ queue_ins ops"
proof (induction ops arbitrary: s)
  case (Cons op ops)
  show ?case
  proof (cases op)
    case (Put x)
    then show ?thesis using Cons.prems Cons.IH [of "put x s"] by (simp add: put_ok put_view)
  next
    case Get
    show ?thesis
    proof (cases "view s")
      case Nil
      then obtain s1 where "get s = (None, s1)" "ok s1" "view s1 = []" using get_Nil Cons.prems(1) by blast
      with Get Nil Cons.prems Cons.IH [of s1] show ?thesis by auto
    next
      case (Cons x xs)
      then obtain s1 where "get s = (Some x, s1)" "ok s1" "view s1 = xs" using get_Cons Cons.prems(1) by blast
      with Get Cons Cons.prems Cons.IH [of s1] show ?thesis by auto
    qed
  qed
qed simp

text \<open>As many gets as entries wait return them all.\<close>

lemma drain:
  assumes "ok s"
  shows "\<exists>s1. queue_run put get (replicate (length (view s)) Get) s = (view s, s1) \<and> ok s1 \<and> view s1 = []"
  using assms
proof (induction "view s" arbitrary: s)
  case (Cons x xs)
  obtain s1 where "get s = (Some x, s1)" "ok s1" "view s1 = xs" using get_Cons [OF Cons.prems] Cons.hyps(2) by metis
  moreover from this Cons.hyps(1) [of s1] obtain s2 where
    "queue_run put get (replicate (length xs) Get) s1 = (xs, s2)" "ok s2" "view s2 = []" by auto
  ultimately show ?case using Cons.hyps(2) [symmetric] by simp
qed auto

end

lemma mod_256: "k < 512 \<Longrightarrow> k mod 256 = (if k < 256 then k else k - 256)" for k :: nat
  by (simp add: le_mod_geq)

lemma ring_count_less: "ring_ok r \<Longrightarrow> ring_count r < 256"
  by (auto simp: ring_ok_def ring_count_def)

lemma ring_slot:
  assumes "ring_ok r" and "i < ring_count r"
  shows "(rg_tail r + i) mod 256 \<noteq> rg_head r"
  using assms by (auto simp: ring_ok_def ring_count_def mod_256 split: if_splits)

lemma ring_end:
  assumes "ring_ok r"
  shows "(rg_tail r + ring_count r) mod 256 = rg_head r"
  using assms by (auto simp: ring_ok_def ring_count_def mod_256 split: if_splits)

lemma ring_put_count:
  assumes "ring_ok r" and "ring_count r < 255"
  shows "ring_count (ring_put x r) = Suc (ring_count r)"
  using assms by (auto simp: ring_ok_def ring_count_def ring_put_def mod_256 split: if_splits)

lemma ring_put_list:
  assumes "ring_ok r" and "ring_count r < 255"
  shows "ring_list (ring_put x r) = ring_list r @ [x]"
proof -
  have "map (\<lambda>i. (rg_buf r)[rg_head r := x] ! ((rg_tail r + i) mod 256)) [0..<ring_count r] = ring_list r"
    unfolding ring_list_def using ring_slot [OF assms(1), THEN not_sym] by (intro map_cong) (auto simp: nth_list_update_neq)
  moreover have "(rg_buf r)[rg_head r := x] ! ((rg_tail r + ring_count r) mod 256) = x"
    using ring_end [OF assms(1)] assms(1) by (simp add: ring_ok_def)
  ultimately show ?thesis
    unfolding ring_list_def [of "ring_put x r"] ring_put_count [OF assms] by (simp add: ring_put_def)
qed

lemma ring_get_count:
  assumes "ring_ok r" and "rg_tail r \<noteq> rg_head r"
  shows "ring_count r = Suc (ring_count (r\<lparr>rg_tail := (rg_tail r + 1) mod 256\<rparr>))"
  using assms by (auto simp: ring_ok_def ring_count_def mod_256 split: if_splits)

lemma ring_get_list:
  assumes "ring_ok r" and "rg_tail r \<noteq> rg_head r"
  shows "ring_list r = rg_buf r ! rg_tail r # ring_list (r\<lparr>rg_tail := (rg_tail r + 1) mod 256\<rparr>)"
proof -
  let ?r = "r\<lparr>rg_tail := (rg_tail r + 1) mod 256\<rparr>"
  have "ring_list r = rg_buf r ! (rg_tail r mod 256) #
      map (\<lambda>i. rg_buf r ! ((rg_tail r + Suc i) mod 256)) [0..<ring_count ?r]"
    unfolding ring_list_def [of r] ring_get_count [OF assms] upt_0_Suc by (simp add: comp_def)
  moreover have "((rg_tail r + 1) mod 256 + i) mod 256 = (rg_tail r + Suc i) mod 256" for i
    using mod_add_left_eq [of "rg_tail r + 1" 256 i] by simp
  ultimately show ?thesis using assms(1) by (simp add: ring_list_def ring_ok_def)
qed

lemma ring_put_ok: "ring_ok r \<Longrightarrow> ring_ok (ring_put x r)"
  by (simp add: ring_ok_def ring_put_def)

interpretation irq: input_queue ring_put ring_get ring_list ring_ok "\<lambda>_. True" 255
proof (unfold_locales, goal_cases)
  case (1 r x)
  then show ?case by (intro ring_put_ok)
next
  case (2 r x)
  then show ?case by (intro ring_put_list) (simp_all add: ring_list_def)
next
  case (3 r)
  then have "ring_count r = 0" by (simp add: ring_list_def)
  then have "rg_tail r = rg_head r" using 3(1) by (auto simp: ring_count_def ring_ok_def split: if_splits)
  then show ?case using 3 by (simp add: ring_get_def)
next
  case (4 r x xs)
  then have ne: "rg_tail r \<noteq> rg_head r" by (auto simp: ring_list_def ring_count_def)
  then show ?case using 4 ring_get_list [OF 4(1) ne] by (simp add: ring_get_def ring_ok_def)
qed

text \<open>A 256th entry makes the ring look empty: everything that waits is lost.\<close>

lemma ring_overrun:
  assumes "ring_ok r" and "length (ring_list r) = 255"
  shows "ring_list (ring_put x r) = []"
  using assms by (auto simp: ring_list_def ring_ok_def ring_count_def ring_put_def mod_256 split: if_splits)

end
