(* ===== verification/Drv_Mouse.thy ===== *)
theory Drv_Mouse
  imports Irq_Ring Disk_ATA
begin

text \<open>
  The PS/2 mouse driver \<^verbatim>\<open>src/src/drivers/mouse.c\<close>: initialisation through the controller's
  ports, the decoder of three-byte packets and the pointer.  \<open>rd\<close> stands for \<^verbatim>\<open>c_mouse_read\<close> on a
  machine state of type \<open>'d\<close> (\<open>None\<close> is the result -1); its model on the interrupt buffer is
  \<open>ring_get\<close>.  The loops that read until the buffer is empty are partial: \<open>None\<close> means that bytes
  keep coming.  Coordinates stay within the screen, far below the range of \<^verbatim>\<open>int\<close>.
\<close>

record mouse_state =
  ms_x :: int
  ms_y :: int
  ms_left :: bool
  ms_right :: bool
  ms_initialized :: bool
  ms_limit_w :: int
  ms_limit_h :: int
  ms_packet :: "u8 list"
  ms_packet_idx :: nat

definition mouse_start :: mouse_state where
  "mouse_start = \<lparr>ms_x = 160, ms_y = 100, ms_left = False, ms_right = False, ms_initialized = False,
     ms_limit_w = 320, ms_limit_h = 200, ms_packet = [0, 0, 0], ms_packet_idx = 0\<rparr>"

section \<open>Initialisation\<close>

function mouse_wait_write :: "'d port_io \<Rightarrow> int \<Rightarrow> 'd \<Rightarrow> 'd" where
  "mouse_wait_write io timeout d =
     (if timeout > 0
      then (let (status, d1) = inb io 0x64 d
            in if status AND 0x02 = 0 then d1 else mouse_wait_write io (timeout - 1) d1)
      else d)"
  by pat_completeness auto
termination by (relation "measure (\<lambda>(io, t, d). nat t)") auto

function mouse_read_byte :: "('d \<Rightarrow> u8 option \<times> 'd) \<Rightarrow> int \<Rightarrow> 'd \<Rightarrow> u8 \<times> 'd" where
  "mouse_read_byte rd timeout d =
     (if timeout > 0
      then (case rd d of (Some b, d1) \<Rightarrow> (b, d1) | (None, d1) \<Rightarrow> mouse_read_byte rd (timeout - 1) d1)
      else (0, d))"
  by pat_completeness auto
termination by (relation "measure (\<lambda>(rd, t, d). nat t)") auto

declare mouse_wait_write.simps [simp del] mouse_read_byte.simps [simp del]

definition mouse_write :: "'d port_io \<Rightarrow> u16 \<Rightarrow> u8 \<Rightarrow> 'd \<Rightarrow> 'd" where
  "mouse_write io port x d = outb io port x (mouse_wait_write io 100000 d)"

definition mouse_cmd :: "'d port_io \<Rightarrow> u8 \<Rightarrow> 'd \<Rightarrow> 'd" where
  "mouse_cmd io cmd d = mouse_write io 0x60 cmd (mouse_write io 0x64 0xD4 d)"

definition mouse_ack :: "('d \<Rightarrow> u8 option \<times> 'd) \<Rightarrow> 'd \<Rightarrow> 'd" where
  "mouse_ack rd d = snd (mouse_read_byte rd 1000000 d)"

partial_function (option) mouse_flush :: "('d \<Rightarrow> u8 option \<times> 'd) \<Rightarrow> 'd \<Rightarrow> 'd option" where
  "mouse_flush rd d = (case rd d of (b, d1) \<Rightarrow> (case b of None \<Rightarrow> Some d1 | Some x \<Rightarrow> mouse_flush rd d1))"

text \<open>\<open>w\<close> and \<open>h\<close> are the results of \<^verbatim>\<open>gpu_get_width\<close> and \<^verbatim>\<open>gpu_get_height\<close>.\<close>

definition mouse_init ::
  "'d port_io \<Rightarrow> ('d \<Rightarrow> u8 option \<times> 'd) \<Rightarrow> int \<Rightarrow> int \<Rightarrow> mouse_state \<Rightarrow> 'd \<Rightarrow> (int \<times> mouse_state \<times> 'd) option" where
  "mouse_init io rd w h st d =
     (if ms_initialized st then Some (0, st, d)
      else map_option (\<lambda>d0.
        let d1 = mouse_write io 0x60 0x47 (mouse_write io 0x64 0x60 (mouse_write io 0x64 0x20 (mouse_write io 0x64 0xA8 d0)));
            d2 = mouse_ack rd (mouse_ack rd (mouse_ack rd (mouse_cmd io 0xFF d1)));
            d3 = mouse_ack rd (mouse_cmd io 0xF6 d2);
            d4 = mouse_ack rd (mouse_cmd io 0xF4 d3);
            w1 = (if w \<le> 0 then 320 else w);
            h1 = (if h \<le> 0 then 200 else h)
        in (0, st\<lparr>ms_initialized := True, ms_limit_w := w1, ms_limit_h := h1, ms_x := w1 div 2, ms_y := h1 div 2\<rparr>, d4))
        (mouse_flush rd d))"

section \<open>Packets\<close>

definition clamp_axis :: "int \<Rightarrow> int \<Rightarrow> int" where
  "clamp_axis v limit = (let v1 = (if v < 0 then 0 else v) in if v1 \<ge> limit then limit - 1 else v1)"

definition mouse_packet_done :: "mouse_state \<Rightarrow> mouse_state" where
  "mouse_packet_done st =
     (let status = ms_packet st ! 0;
          dx = (if status AND 0x40 \<noteq> 0 then 0 else sint (ms_packet st ! 1));
          dy = (if status AND 0x80 \<noteq> 0 then 0 else sint (ms_packet st ! 2))
      in st\<lparr>ms_left := (status AND 0x01 \<noteq> 0), ms_right := (status AND 0x02 \<noteq> 0),
            ms_x := clamp_axis (ms_x st + dx) (ms_limit_w st), ms_y := clamp_axis (ms_y st - dy) (ms_limit_h st)\<rparr>)"

text \<open>One byte of the stream.\<close>

definition mouse_byte :: "u8 \<Rightarrow> mouse_state \<Rightarrow> mouse_state" where
  "mouse_byte b st =
     (if ms_packet_idx st = 0
      then (if b AND 0x08 = 0x08 then st\<lparr>ms_packet := (ms_packet st)[0 := b], ms_packet_idx := 1\<rparr> else st)
      else if ms_packet_idx st = 1
      then st\<lparr>ms_packet := (ms_packet st)[1 := b], ms_packet_idx := 2\<rparr>
      else mouse_packet_done (st\<lparr>ms_packet := (ms_packet st)[2 := b], ms_packet_idx := 0\<rparr>))"

partial_function (option) mouse_poll_loop ::
  "('d \<Rightarrow> u8 option \<times> 'd) \<Rightarrow> mouse_state \<Rightarrow> 'd \<Rightarrow> (mouse_state \<times> 'd) option" where
  "mouse_poll_loop rd st d =
     (case rd d of (b, d1) \<Rightarrow> (case b of None \<Rightarrow> Some (st, d1) | Some x \<Rightarrow> mouse_poll_loop rd (mouse_byte x st) d1))"

definition mouse_poll :: "('d \<Rightarrow> u8 option \<times> 'd) \<Rightarrow> mouse_state \<Rightarrow> 'd \<Rightarrow> (mouse_state \<times> 'd) option" where
  "mouse_poll rd st d = (if \<not> ms_initialized st then Some (st, d) else mouse_poll_loop rd st d)"

definition mouse_get_x :: "mouse_state \<Rightarrow> int" where "mouse_get_x st = ms_x st"
definition mouse_get_y :: "mouse_state \<Rightarrow> int" where "mouse_get_y st = ms_y st"
definition mouse_get_left :: "mouse_state \<Rightarrow> bool" where "mouse_get_left st = ms_left st"
definition mouse_get_right :: "mouse_state \<Rightarrow> bool" where "mouse_get_right st = ms_right st"

definition mouse_set_bounds :: "int \<Rightarrow> int \<Rightarrow> mouse_state \<Rightarrow> mouse_state" where
  "mouse_set_bounds width height st =
     st\<lparr>ms_limit_w := width, ms_limit_h := height,
       ms_x := (if ms_x st \<ge> width then width - 1 else ms_x st),
       ms_y := (if ms_y st \<ge> height then height - 1 else ms_y st)\<rparr>"

section \<open>The driver on the interrupt buffer\<close>

lemma mouse_poll_ring:
  "ring_ok r \<Longrightarrow> \<exists>r1. mouse_poll_loop ring_get st r = Some (fold mouse_byte (ring_list r) st, r1) \<and> ring_ok r1 \<and> ring_list r1 = []"
proof (induction "ring_list r" arbitrary: r st)
  case Nil
  then obtain r1 where "ring_get r = (None, r1)" "ring_ok r1" "ring_list r1 = []" using irq.get_Nil by metis
  with Nil show ?case by (subst mouse_poll_loop.simps) simp
next
  case (Cons x xs)
  then obtain r1 where r1: "ring_get r = (Some x, r1)" "ring_ok r1" "ring_list r1 = xs"
    using irq.get_Cons by metis
  with Cons.hyps(1) [of r1 "mouse_byte x st"] Cons.hyps(2) [symmetric] show ?case
    by (subst mouse_poll_loop.simps) simp
qed

text \<open>The interleaving of interrupts, polls and changes of the screen size.\<close>

inductive mouse_reaches :: "mouse_state \<times> u8 ring \<Rightarrow> mouse_state \<times> u8 ring \<Rightarrow> bool" where
  start: "mouse_reaches s s"
| interrupt: "mouse_reaches s (st, r) \<Longrightarrow> mouse_reaches s (st, ring_put b r)"
| poll: "mouse_reaches s (st, r) \<Longrightarrow> mouse_poll ring_get st r = Some (st1, r1) \<Longrightarrow> mouse_reaches s (st1, r1)"
| bounds: "mouse_reaches s (st, r) \<Longrightarrow> 0 < w \<Longrightarrow> 0 < h \<Longrightarrow> mouse_reaches s (mouse_set_bounds w h st, r)"

definition on_screen :: "mouse_state \<Rightarrow> bool" where
  "on_screen st \<longleftrightarrow> 0 \<le> ms_x st \<and> ms_x st < ms_limit_w st \<and> 0 \<le> ms_y st \<and> ms_y st < ms_limit_h st \<and>
     length (ms_packet st) = 3 \<and> ms_packet_idx st < 3"

lemma clamp_axis_bounds: "0 < limit \<Longrightarrow> 0 \<le> clamp_axis v limit \<and> clamp_axis v limit < limit"
  by (auto simp: clamp_axis_def Let_def)

lemma mouse_byte_on_screen: "on_screen st \<Longrightarrow> on_screen (mouse_byte b st)"
proof -
  assume st: "on_screen st"
  have "on_screen (mouse_packet_done s)"
    if "0 < ms_limit_w s" "0 < ms_limit_h s" "length (ms_packet s) = 3" "ms_packet_idx s < 3" for s
  proof -
    define dx where "dx = (if ms_packet s ! 0 AND 0x40 \<noteq> 0 then 0 else sint (ms_packet s ! 1))"
    define dy where "dy = (if ms_packet s ! 0 AND 0x80 \<noteq> 0 then 0 else sint (ms_packet s ! 2))"
    have "mouse_packet_done s = s\<lparr>ms_left := (ms_packet s ! 0 AND 0x01 \<noteq> 0), ms_right := (ms_packet s ! 0 AND 0x02 \<noteq> 0),
        ms_x := clamp_axis (ms_x s + dx) (ms_limit_w s), ms_y := clamp_axis (ms_y s - dy) (ms_limit_h s)\<rparr>"
      unfolding mouse_packet_done_def Let_def dx_def dy_def by (rule refl)
    then show ?thesis
      using that clamp_axis_bounds [OF that(1), of "ms_x s + dx"] clamp_axis_bounds [OF that(2), of "ms_y s - dy"]
      by (simp add: on_screen_def)
  qed
  then have "on_screen (mouse_packet_done (st\<lparr>ms_packet := (ms_packet st)[2 := b], ms_packet_idx := 0\<rparr>))"
    using st by (simp add: on_screen_def)
  then show "on_screen (mouse_byte b st)" using st by (simp add: mouse_byte_def on_screen_def)
qed

lemma mouse_bytes_on_screen: "on_screen st \<Longrightarrow> on_screen (fold mouse_byte bs st)"
  by (induction bs arbitrary: st) (auto simp: mouse_byte_on_screen)

lemma mouse_byte_initialized [simp]: "ms_initialized (mouse_byte b st) = ms_initialized st"
  by (simp add: mouse_byte_def mouse_packet_done_def Let_def)

lemma mouse_bytes_initialized [simp]: "ms_initialized (fold mouse_byte bs st) = ms_initialized st"
  by (induction bs arbitrary: st) simp_all

text \<open>A driver that is ready: initialised, and its pointer on the screen.\<close>

definition mouse_ready :: "mouse_state \<Rightarrow> bool" where
  "mouse_ready st \<longleftrightarrow> ms_initialized st \<and> on_screen st"

lemma mouse_init_ready:
  assumes "mouse_init io rd w h mouse_start d = Some (r, st, d1)"
  shows "r = 0 \<and> mouse_ready st"
proof -
  define w1 h1 where "w1 = (if w \<le> 0 then 320 else w)" and "h1 = (if h \<le> 0 then 200 else h)"
  have "0 < w1" "0 < h1" by (simp_all add: w1_def h1_def)
  then have "0 \<le> w1 div 2 \<and> w1 div 2 < w1" "0 \<le> h1 div 2 \<and> h1 div 2 < h1" by (simp_all add: div_less_dividend)
  moreover have "r = 0 \<and> st = mouse_start\<lparr>ms_initialized := True, ms_limit_w := w1, ms_limit_h := h1, ms_x := w1 div 2, ms_y := h1 div 2\<rparr>"
    using assms by (auto simp: mouse_init_def mouse_start_def w1_def h1_def Let_def)
  ultimately show ?thesis by (simp add: mouse_ready_def on_screen_def mouse_start_def)
qed

lemma mouse_poll_safe:
  assumes "ring_ok r" and "mouse_ready st"
  shows "\<exists>st1 r1. mouse_poll ring_get st r = Some (st1, r1) \<and> mouse_ready st1 \<and> ring_ok r1 \<and> ring_list r1 = []"
  using assms mouse_poll_ring [OF assms(1), of st] mouse_bytes_on_screen [of st "ring_list r"]
  by (auto simp: mouse_poll_def mouse_ready_def)

lemma mouse_set_bounds_ready: "mouse_ready st \<Longrightarrow> 0 < w \<Longrightarrow> 0 < h \<Longrightarrow> mouse_ready (mouse_set_bounds w h st)"
  unfolding mouse_ready_def on_screen_def mouse_set_bounds_def by simp

lemma mouse_reaches_wf:
  "mouse_reaches s s1 \<Longrightarrow> mouse_ready (fst s) \<Longrightarrow> ring_ok (snd s) \<Longrightarrow> mouse_ready (fst s1) \<and> ring_ok (snd s1)"
proof (induction rule: mouse_reaches.induct)
  case (interrupt s st r b)
  then show ?case using ring_put_ok [of r b] by simp
next
  case (poll s st r st1 r1)
  then show ?case using mouse_poll_safe [of r st] by auto
next
  case (bounds s st r w h)
  then show ?case using mouse_set_bounds_ready by simp
qed simp

section \<open>Properties\<close>

text \<open>
  C25.  After an initialisation that returns, on any machine and for whatever screen size the graphics driver
  reports, the pointer is on the screen; and whatever bytes the mouse sends, and however
  interrupts, polls and changes of the screen size interleave, it stays there and the decoder
  stays in step with its buffer, and every poll returns, with the interrupt buffer empty.
\<close>
theorem mouse_stays_on_screen:
  assumes "mouse_init io rd w h mouse_start d = Some (res, st0, d0)" and "ring_ok r0" and "mouse_reaches (st0, r0) (st, r)"
  shows "res = 0 \<and> on_screen st0 \<and> on_screen st \<and> ring_ok r \<and>
    (\<exists>st1 r1. mouse_poll ring_get st r = Some (st1, r1) \<and> on_screen st1 \<and> ring_list r1 = [])"
proof -
  note init = mouse_init_ready [OF assms(1)]
  then have wf: "mouse_ready st" "ring_ok r" using mouse_reaches_wf [OF assms(3)] assms(2) by simp_all
  from mouse_poll_safe [OF wf(2,1)] init wf show ?thesis by (auto simp: mouse_ready_def)
qed

definition blank_ring :: "u8 ring" where
  "blank_ring = \<lparr>rg_buf = replicate 256 0, rg_head = 0, rg_tail = 0\<rparr>"

text \<open>A controller that is never busy, and a mouse that acknowledges after an empty buffer was found.\<close>

definition ack_io :: "nat port_io" where
  "ack_io = \<lparr>inb = (\<lambda>p d. (0, d)), outb = (\<lambda>p x d. d), insw = (\<lambda>p n d. ([], d)), outsw = (\<lambda>p ws d. d)\<rparr>"

definition ack_read :: "nat \<Rightarrow> u8 option \<times> nat" where
  "ack_read d = (if d = 0 then (None, 1) else (Some 0xFA, d))"

definition mouse_booted :: mouse_state where
  "mouse_booted = mouse_start\<lparr>ms_initialized := True, ms_limit_w := 80, ms_limit_h := 25, ms_x := 40, ms_y := 12\<rparr>"

lemma mouse_boots: "mouse_init ack_io ack_read 80 25 mouse_start 0 = Some (0, mouse_booted, 1)"
proof -
  have "mouse_write ack_io p x d = d" for p x d
    by (simp add: mouse_write_def ack_io_def mouse_wait_write.simps)
  moreover have "mouse_ack ack_read 1 = 1" by (simp add: mouse_ack_def mouse_read_byte.simps ack_read_def)
  moreover have "mouse_flush ack_read 0 = Some 1" by (simp add: mouse_flush.simps ack_read_def)
  ultimately show ?thesis by (simp add: mouse_init_def mouse_cmd_def mouse_booted_def mouse_start_def Let_def)
qed

text \<open>A packet that moves 127 to the right and 5 up, a smaller screen, and a poll in between.\<close>

theorem mouse_stays_on_screen_witness:
  "\<exists>st r. mouse_reaches (mouse_booted, blank_ring) (mouse_set_bounds 40 12 st, ring_put 8 r) \<and> on_screen (mouse_set_bounds 40 12 st) \<and>
    (\<exists>st1 r1. mouse_poll ring_get (mouse_set_bounds 40 12 st) (ring_put 8 r) = Some (st1, r1) \<and> on_screen st1 \<and> ring_list r1 = [])"
proof -
  have b: "ring_ok blank_ring" by (simp add: ring_ok_def blank_ring_def)
  have 1: "mouse_reaches (mouse_booted, blank_ring) (mouse_booted, ring_put 5 (ring_put 127 (ring_put 8 blank_ring)))"
    by (intro mouse_reaches.interrupt mouse_reaches.start)
  have "ring_ok (ring_put 5 (ring_put 127 (ring_put 8 blank_ring)))" by (intro ring_put_ok b)
  from mouse_poll_safe [OF this] mouse_init_ready [OF mouse_boots] obtain st r where
    "mouse_poll ring_get mouse_booted (ring_put 5 (ring_put 127 (ring_put 8 blank_ring))) = Some (st, r)" by blast
  from mouse_reaches.poll [OF 1 this] have r: "mouse_reaches (mouse_booted, blank_ring) (mouse_set_bounds 40 12 st, ring_put 8 r)"
    by (intro mouse_reaches.interrupt mouse_reaches.bounds) simp_all
  from mouse_stays_on_screen [OF mouse_boots b r] r show ?thesis by blast
qed

text \<open>The pointer as a user sees it, and what one packet does to it on a screen of \<open>w\<close> by \<open>h\<close>.\<close>

type_synonym pointer = "int \<times> int \<times> bool \<times> bool"

definition pointer_of :: "mouse_state \<Rightarrow> pointer" where
  "pointer_of st = (ms_x st, ms_y st, ms_left st, ms_right st)"

fun pointer_step :: "int \<Rightarrow> int \<Rightarrow> u8 \<times> u8 \<times> u8 \<Rightarrow> pointer \<Rightarrow> pointer" where
  "pointer_step w h (s, dx, dy) (x, y, l, r) =
     (max 0 (min (w - 1) (x + (if bit s 6 then 0 else sint dx))), max 0 (min (h - 1) (y - (if bit s 7 then 0 else sint dy))),
      bit s 0, bit s 1)"

lemma clamp_axis_max: "0 < limit \<Longrightarrow> clamp_axis v limit = max 0 (min (limit - 1) v)"
  by (auto simp: clamp_axis_def Let_def)

lemma mask_bit: "b AND 0x40 \<noteq> 0 \<longleftrightarrow> bit b 6" "b AND 0x80 \<noteq> 0 \<longleftrightarrow> bit b 7" "b AND 1 \<noteq> 0 \<longleftrightarrow> bit b 0"
    "b AND 2 \<noteq> 0 \<longleftrightarrow> bit b 1" for b :: u8
proof -
  have "b AND push_bit k 1 \<noteq> 0 \<longleftrightarrow> bit b k" if "k < 8" for k
    using that and_exp_eq_0_iff_not_bit [of b k] by (simp add: push_bit_eq_mult)
  from this [of 6] this [of 7] this [of 0] this [of 1]
  show "b AND 0x40 \<noteq> 0 \<longleftrightarrow> bit b 6" "b AND 0x80 \<noteq> 0 \<longleftrightarrow> bit b 7" "b AND 1 \<noteq> 0 \<longleftrightarrow> bit b 0" "b AND 2 \<noteq> 0 \<longleftrightarrow> bit b 1"
    by (simp_all add: push_bit_eq_mult)
qed

lemma mouse_packet_decoded:
  assumes "on_screen st" and "ms_packet_idx st = 0" and "s AND 0x08 = 0x08"
  shows "pointer_of (fold mouse_byte [s, dx, dy] st) = pointer_step (ms_limit_w st) (ms_limit_h st) (s, dx, dy) (pointer_of st) \<and>
    ms_packet_idx (fold mouse_byte [s, dx, dy] st) = 0 \<and> ms_limit_w (fold mouse_byte [s, dx, dy] st) = ms_limit_w st \<and>
    ms_limit_h (fold mouse_byte [s, dx, dy] st) = ms_limit_h st"
proof -
  obtain a b c where p: "ms_packet st = [a, b, c]"
    using assms(1) by (auto simp: on_screen_def numeral_3_eq_3 length_Suc_conv)
  have w: "0 < ms_limit_w st" "0 < ms_limit_h st" using assms(1) by (auto simp: on_screen_def)
  have "fold mouse_byte [s, dx, dy] st = mouse_packet_done (st\<lparr>ms_packet := [s, dx, dy], ms_packet_idx := 0\<rparr>)"
    using assms(2,3) p by (simp add: mouse_byte_def)
  then show ?thesis
    by (simp add: mouse_packet_done_def Let_def mask_bit pointer_of_def clamp_axis_max w)
qed

lemma mouse_packets_decoded:
  assumes "on_screen st" and "ms_packet_idx st = 0" and "\<forall>(s, dx, dy) \<in> set ps. s AND 0x08 = 0x08"
  shows "pointer_of (fold mouse_byte (concat (map (\<lambda>(s, dx, dy). [s, dx, dy]) ps)) st) =
    fold (pointer_step (ms_limit_w st) (ms_limit_h st)) ps (pointer_of st)"
  using assms
proof (induction ps arbitrary: st)
  case (Cons p ps)
  obtain s dx dy where p: "p = (s, dx, dy)" by (cases p)
  define st1 where "st1 = fold mouse_byte [s, dx, dy] st"
  have d: "pointer_of st1 = pointer_step (ms_limit_w st) (ms_limit_h st) (s, dx, dy) (pointer_of st)" "ms_packet_idx st1 = 0"
      "ms_limit_w st1 = ms_limit_w st" "ms_limit_h st1 = ms_limit_h st"
    using mouse_packet_decoded [OF Cons.prems(1,2), of s dx dy] Cons.prems(3) p by (simp_all add: st1_def)
  have "on_screen st1" unfolding st1_def by (rule mouse_bytes_on_screen) (rule Cons.prems)
  with Cons.IH [of st1] Cons.prems(3) d p show ?case by (simp add: st1_def)
qed simp

text \<open>
  C26.  A poll decodes the packets that wait: for a driver in step, it empties the interrupt
  buffer and moves the pointer packet by packet, limited to the screen, with the buttons of the
  last packet.  A displacement is the signed byte of the packet; the sign bits 4 and 5 of the
  status byte, which make it a nine-bit number, do not matter.
\<close>
theorem mouse_poll_decodes:
  assumes "ring_ok r" and "on_screen st" and "ms_initialized st" and "ms_packet_idx st = 0"
    and "ring_list r = concat (map (\<lambda>(s, dx, dy). [s, dx, dy]) ps)" and "\<forall>(s, dx, dy) \<in> set ps. s AND 0x08 = 0x08"
  shows "\<exists>st1 r1. mouse_poll ring_get st r = Some (st1, r1) \<and> ring_list r1 = [] \<and>
    pointer_of st1 = fold (pointer_step (ms_limit_w st) (ms_limit_h st)) ps (pointer_of st)"
  using mouse_poll_ring [OF assms(1), of st] mouse_packets_decoded [OF assms(2,4,6)] assms(3,5)
  by (auto simp: mouse_poll_def)

theorem mouse_poll_decodes_witness:
  "\<exists>st1 r1. mouse_poll ring_get (mouse_start\<lparr>ms_initialized := True\<rparr>) (fold ring_put [8, 200, 0] blank_ring) = Some (st1, r1) \<and>
    ring_list r1 = [] \<and> pointer_of st1 = (104, 100, False, False)"
proof -
  have b: "ring_ok blank_ring" "ring_list blank_ring = []"
    by (simp_all add: ring_ok_def blank_ring_def ring_list_def ring_count_def)
  have r: "ring_list (fold ring_put [8, 200, 0] blank_ring) = [8, 200, 0]" "ring_ok (fold ring_put [8, 200, 0] blank_ring)"
    using irq.puts_view [OF b(1), of "[8, 200, 0]"] b(2) by auto
  have m: "on_screen (mouse_start\<lparr>ms_initialized := True\<rparr>)" "ms_packet_idx (mouse_start\<lparr>ms_initialized := True\<rparr>) = 0"
    by (simp_all add: on_screen_def mouse_start_def)
  have "sint (200 :: u8) = - 56" by (simp add: sint_uint)
  then show ?thesis
    using mouse_poll_decodes [OF r(2) m(1) _ m(2), of "[(8, 200, 0)]"] r(1)
    by (simp add: pointer_of_def mouse_start_def bit_numeral_rec bit_Suc)
qed

end
