(* ===== verification/Drv_ATA.thy ===== *)
theory Drv_ATA
  imports Disk_ATA
begin

text \<open>
  The second disk driver, \<^verbatim>\<open>src/src/drivers/ata.c\<close>: detection of a drive on the primary or
  secondary channel and PIO transfers through a base port kept in variables.  It runs on the
  same port interface as \<^verbatim>\<open>handlers.c\<close>; the laws of a drive are extended by its control port
  (alternate status and soft reset), and the driver is proved to be a block device too.
\<close>

section \<open>The driver\<close>

record ata_state =
  at_initialized :: bool
  at_base :: u16
  at_ctrl :: u16
  at_drive :: u8

definition ata_start :: ata_state where
  "ata_start = \<lparr>at_initialized = False, at_base = 0x1F0, at_ctrl = 0x3F6, at_drive = 0\<rparr>"

definition ata_delay :: "'d port_io \<Rightarrow> u16 \<Rightarrow> 'd \<Rightarrow> 'd" where
  "ata_delay io ctrl = ((\<lambda>d. snd (inb io ctrl d)) ^^ 4)"

function ata_wait_ready :: "'d port_io \<Rightarrow> u16 \<Rightarrow> int \<Rightarrow> 'd \<Rightarrow> int \<times> 'd" where
  "ata_wait_ready io base timeout d =
     (if timeout > 0
      then (let (status, d1) = inb io (base + 7) d
            in if status AND ATA_SR_BSY = 0 then (0, d1) else ata_wait_ready io base (timeout - 1) d1)
      else (- 1, d))"
  by pat_completeness auto
termination by (relation "measure (\<lambda>(io, b, t, d). nat t)") auto

function ata_wait_drq :: "'d port_io \<Rightarrow> u16 \<Rightarrow> int \<Rightarrow> 'd \<Rightarrow> int \<times> 'd" where
  "ata_wait_drq io base timeout d =
     (if timeout > 0
      then (let (status, d1) = inb io (base + 7) d
            in if status AND ATA_SR_ERR \<noteq> 0 then (- 1, d1)
               else if status AND ATA_SR_BSY = 0 \<and> status AND ATA_SR_DRQ \<noteq> 0 then (0, d1)
               else ata_wait_drq io base (timeout - 1) d1)
      else (- 1, d))"
  by pat_completeness auto
termination by (relation "measure (\<lambda>(io, b, t, d). nat t)") auto

declare ata_wait_ready.simps [simp del] ata_wait_drq.simps [simp del]

definition ata_reset :: "'d port_io \<Rightarrow> u16 \<Rightarrow> 'd \<Rightarrow> 'd" where
  "ata_reset io ctrl d = ata_delay io ctrl (outb io ctrl 0x00 (ata_delay io ctrl (outb io ctrl 0x04 d)))"

text \<open>The selection of a drive and the status it then shows.\<close>

definition ata_select :: "'d port_io \<Rightarrow> ata_state \<Rightarrow> u8 \<Rightarrow> 'd \<Rightarrow> u8 \<times> 'd" where
  "ata_select io st x d = inb io (at_base st + 7) (ata_delay io (at_ctrl st) (outb io (at_base st + 6) x d))"

definition ata_probe :: "'d port_io \<Rightarrow> ata_state \<Rightarrow> 'd \<Rightarrow> int \<times> ata_state \<times> 'd" where
  "ata_probe io st d =
     (let (status, d1) = ata_select io st 0xA0 d
      in if status = 0 \<or> status = 0xFF
         then (let st1 = st\<lparr>at_drive := 1\<rparr>; (status2, d2) = ata_select io st1 0xB0 d1
               in if status2 = 0 \<or> status2 = 0xFF then (- 1, st1, d2) else (0, st1\<lparr>at_initialized := True\<rparr>, d2))
         else (0, st\<lparr>at_initialized := True\<rparr>, d1))"

definition ata_init :: "'d port_io \<Rightarrow> ata_state \<Rightarrow> 'd \<Rightarrow> int \<times> ata_state \<times> 'd" where
  "ata_init io st d =
     (if at_initialized st then (0, st, d)
      else
        let (r, d1) = ata_wait_ready io (at_base st) 100000 (ata_reset io (at_ctrl st) d)
        in if r \<noteq> 0
           then
             let st1 = st\<lparr>at_base := 0x170, at_ctrl := 0x376\<rparr>;
                 (r2, d2) = ata_wait_ready io (at_base st1) 100000 (ata_reset io (at_ctrl st1) d1)
             in if r2 \<noteq> 0 then (- 1, st1, d2) else ata_probe io st1 d2
           else ata_probe io st d1)"

definition drive_select :: "ata_state \<Rightarrow> u32 \<Rightarrow> u8" where
  "drive_select st lba = 0xE0 OR push_bit 4 (at_drive st) OR ucast (drop_bit 24 lba AND 0x0F)"

text \<open>Sector count, address and command, in the order of the code.\<close>

definition ata_command :: "'d port_io \<Rightarrow> u16 \<Rightarrow> u32 \<Rightarrow> u8 \<Rightarrow> u8 \<Rightarrow> 'd \<Rightarrow> 'd" where
  "ata_command io base lba count cmd =
     outb io (base + 7) cmd \<circ> outb io (base + 5) (ucast (drop_bit 16 lba AND 0xFF)) \<circ>
     outb io (base + 4) (ucast (drop_bit 8 lba AND 0xFF)) \<circ> outb io (base + 3) (ucast (lba AND 0xFF)) \<circ>
     outb io (base + 2) count"

text \<open>What both transfers do before their command: \<open>False\<close> is the return of -1.\<close>

definition ata_begin :: "'d port_io \<Rightarrow> u32 \<Rightarrow> u8 \<Rightarrow> ata_state \<Rightarrow> 'd \<Rightarrow> bool \<times> ata_state \<times> 'd" where
  "ata_begin io lba count st d =
     (let (r, st1, d1) = (if \<not> at_initialized st then ata_init io st d else (0, st, d))
      in if r \<noteq> 0 then (False, st1, d1)
         else if count = 0 then (False, st1, d1)
         else
           let (r2, d2) = ata_wait_ready io (at_base st1) 100000 d1
           in if r2 \<noteq> 0 then (False, st1, d2)
              else (True, st1, ata_delay io (at_ctrl st1) (outb io (at_base st1 + 6) (drive_select st1 lba) d2)))"

fun ata_read_loop :: "'d port_io \<Rightarrow> ata_state \<Rightarrow> nat \<Rightarrow> u8 list \<Rightarrow> 'd \<Rightarrow> int \<times> u8 list \<times> 'd" where
  "ata_read_loop io st 0 acc d = (0, acc, d)"
| "ata_read_loop io st (Suc n) acc d =
     (let (r, d1) = ata_wait_drq io (at_base st) 100000 d
      in if r \<noteq> 0 then (- 1, acc, d1)
         else let (ws, d2) = insw io (at_base st) 256 d1
              in ata_read_loop io st n (acc @ words_bytes ws) (ata_delay io (at_ctrl st) d2))"

definition ata_read_sectors :: "'d port_io \<Rightarrow> u32 \<Rightarrow> u8 \<Rightarrow> ata_state \<Rightarrow> 'd \<Rightarrow> int \<times> u8 list \<times> ata_state \<times> 'd" where
  "ata_read_sectors io lba count st d =
     (let (ok, st1, d1) = ata_begin io lba count st d
      in if \<not> ok then (- 1, [], st1, d1)
         else let (r, bytes, d2) = ata_read_loop io st1 (unat count) [] (ata_command io (at_base st1) lba count 0x20 d1)
              in (r, bytes, st1, d2))"

fun ata_write_loop :: "'d port_io \<Rightarrow> ata_state \<Rightarrow> nat \<Rightarrow> u8 list \<Rightarrow> 'd \<Rightarrow> int \<times> 'd" where
  "ata_write_loop io st 0 buf d = (0, d)"
| "ata_write_loop io st (Suc n) buf d =
     (let (r, d1) = ata_wait_drq io (at_base st) 100000 d
      in if r \<noteq> 0 then (- 1, d1)
         else let d2 = ata_delay io (at_ctrl st) (outsw io (at_base st) (bytes_words (take 512 buf)) d1);
                  (r2, d3) = ata_wait_ready io (at_base st) 100000 d2
              in if r2 \<noteq> 0 then (- 1, d3) else ata_write_loop io st n (drop 512 buf) d3)"

definition ata_write_sectors :: "'d port_io \<Rightarrow> u32 \<Rightarrow> u8 \<Rightarrow> u8 list \<Rightarrow> ata_state \<Rightarrow> 'd \<Rightarrow> int \<times> ata_state \<times> 'd" where
  "ata_write_sectors io lba count buffer st d =
     (let (ok, st1, d1) = ata_begin io lba count st d
      in if \<not> ok then (- 1, st1, d1)
         else
           let (r, d2) = ata_write_loop io st1 (unat count) buffer (ata_command io (at_base st1) lba count 0x30 d1)
           in if r \<noteq> 0 then (- 1, st1, d2)
              else (0, st1, snd (ata_wait_ready io (at_base st1) 100000 (outb io (at_base st1 + 7) 0xE7 d2))))"

definition disk_read_lba_ata :: "'d port_io \<Rightarrow> u32 \<Rightarrow> u8 \<Rightarrow> ata_state \<Rightarrow> 'd \<Rightarrow> int \<times> u8 list \<times> ata_state \<times> 'd" where
  "disk_read_lba_ata io lba count st d = ata_read_sectors io lba count st d"

definition disk_write_lba_ata :: "'d port_io \<Rightarrow> u32 \<Rightarrow> u8 \<Rightarrow> u8 list \<Rightarrow> ata_state \<Rightarrow> 'd \<Rightarrow> int \<times> ata_state \<times> 'd" where
  "disk_write_lba_ata io lba count buffer st d = ata_write_sectors io lba count buffer st d"

section \<open>A drive with its control port\<close>

lemma wide_count:
  "(ucast (ucast c :: u32) :: u8) = c" "unat (ucast c :: u32) = unat c" "unat c < 256" for c :: u8
proof -
  show b: "unat c < 256" using unsigned_less [of c] by simp
  show "(ucast (ucast c :: u32) :: u8) = c" by (rule bit_word_eqI) (simp add: bit_simps)
  show "unat (ucast c :: u32) = unat c" using b by (simp add: unsigned_ucast_eq take_bit_eq_mod)
qed

text \<open>
  Reading the alternate status changes nothing; a soft reset leaves the drive idle, with its
  medium, after the usual latency.
\<close>

locale ata_control = ata_drive +
  assumes alt_status: "view (snd (inb io 0x3F6 d)) = view d"
    and soft_reset: "x = 0 \<or> x = 4 \<Longrightarrow> phase (view (outb io 0x3F6 x d)) = Idle \<and>
      busy (view (outb io 0x3F6 x d)) \<le> lat \<and> medium (view (outb io 0x3F6 x d)) = medium (view d)"
begin

definition primary :: "ata_state \<Rightarrow> bool" where
  "primary st \<longleftrightarrow> at_base st = 0x1F0 \<and> at_ctrl st = 0x3F6 \<and> at_drive st = 0"

lemma ata_delay_view: "view (ata_delay io 0x3F6 d) = view d"
  by (simp add: ata_delay_def numeral_eq_Suc alt_status)

lemma ata_wait_ready_view:
  "int (busy (view d)) < t \<Longrightarrow> \<exists>d1. ata_wait_ready io 0x1F0 t d = (0, d1) \<and> view d1 = (view d)\<lparr>busy := 0\<rparr>"
proof (induction "busy (view d)" arbitrary: d t)
  case 0
  define d1 where "d1 = snd (inb io 0x1F7 d)"
  have "inb io 0x1F7 d = (if phase (view d) = Idle then 0x50 else 0x58, d1)" "view d1 = (view d)\<lparr>busy := 0\<rparr>"
    using status_read [of d] 0 by (simp_all add: prod_eq_iff d1_def ata_status_def)
  then show ?case using 0 by (subst ata_wait_ready.simps) (simp add: ata_consts Let_def)
next
  case (Suc n)
  have busy: "busy (view d) = Suc n" using Suc.hyps(2) by simp
  define d1 where "d1 = snd (inb io 0x1F7 d)"
  have d1: "view d1 = (view d)\<lparr>busy := n\<rparr>" "inb io 0x1F7 d = (0x80, d1)"
    using status_read [of d] busy by (simp_all add: d1_def ata_status_def prod_eq_iff)
  have "n = busy (view d1)" "int (busy (view d1)) < t - 1" using d1 Suc.prems busy by auto
  from Suc.hyps(1) [OF this] d1 Suc.prems busy show ?case
    by (subst ata_wait_ready.simps) (simp add: ata_consts Let_def)
qed

lemma ata_wait_drq_view:
  "phase (view d) \<noteq> Idle \<Longrightarrow> int (busy (view d)) < t \<Longrightarrow>
   \<exists>d1. ata_wait_drq io 0x1F0 t d = (0, d1) \<and> view d1 = (view d)\<lparr>busy := 0\<rparr>"
proof (induction "busy (view d)" arbitrary: d t)
  case 0
  define d1 where "d1 = snd (inb io 0x1F7 d)"
  have "inb io 0x1F7 d = (0x58, d1)" "view d1 = (view d)\<lparr>busy := 0\<rparr>"
    using status_read [of d] 0 by (simp_all add: prod_eq_iff d1_def ata_status_def)
  then show ?case using 0 by (subst ata_wait_drq.simps) (simp add: ata_consts Let_def)
next
  case (Suc n)
  have busy: "busy (view d) = Suc n" using Suc.hyps(2) by simp
  define d1 where "d1 = snd (inb io 0x1F7 d)"
  have d1: "view d1 = (view d)\<lparr>busy := n\<rparr>" "inb io 0x1F7 d = (0x80, d1)"
    using status_read [of d] busy by (simp_all add: d1_def ata_status_def prod_eq_iff)
  have "n = busy (view d1)" "phase (view d1) \<noteq> Idle" "int (busy (view d1)) < t - 1" using d1 Suc.prems busy by auto
  from Suc.hyps(1) [OF this] d1 Suc.prems busy show ?case
    by (subst ata_wait_drq.simps) (simp add: ata_consts Let_def)
qed

lemma ata_init_primary:
  assumes "ready d" and "primary st"
  shows "\<exists>d1. ata_init io st d = (0, st\<lparr>at_initialized := True\<rparr>, d1) \<and> ready d1 \<and> medium (view d1) = medium (view d)"
proof (cases "at_initialized st")
  case True
  then show ?thesis using assms by (simp add: ata_init_def)
next
  case False
  define d0 where "d0 = ata_reset io 0x3F6 d"
  have d0: "phase (view d0) = Idle" "busy (view d0) \<le> lat" "medium (view d0) = medium (view d)"
    using soft_reset [of 0] soft_reset [of 4 d] by (simp_all add: d0_def ata_reset_def ata_delay_view)
  obtain d1 where d1: "ata_wait_ready io 0x1F0 100000 d0 = (0, d1)" "view d1 = (view d0)\<lparr>busy := 0\<rparr>"
    using ata_wait_ready_view [of d0 100000] d0(2) lat_bound by auto
  then have r1: "ready d1" using d0 by (simp add: ready_def)
  define d2 where "d2 = ata_delay io 0x3F6 (outb io 0x1F6 0xA0 d1)"
  have d2: "ready d2" "medium (view d2) = medium (view d1)"
    using reg_write_keep [OF r1, of "0x1F6" "0xA0"] by (simp_all add: d2_def ready_def ata_delay_view ata_out_def)
  have s: "fst (inb io 0x1F7 d2) = 0x50" "view (snd (inb io 0x1F7 d2)) = view d2"
    using status_read [of d2] d2(1) by (simp_all add: ready_def ata_status_def)
  have "ata_init io st d = (0, st\<lparr>at_initialized := True\<rparr>, snd (inb io 0x1F7 d2))"
    using False assms(2) d1(1) s(1)
    by (simp add: ata_init_def primary_def d0_def [symmetric] ata_probe_def ata_select_def d2_def [symmetric] split_def Let_def)
  moreover have "ready (snd (inb io 0x1F7 d2))" "medium (view (snd (inb io 0x1F7 d2))) = medium (view d)"
    using s(2) d2 d1(2) d0(3) by (simp_all add: ready_def)
  ultimately show ?thesis by blast
qed

lemma drive_select_head: "at_drive st = 0 \<Longrightarrow> drive_select st lba = drive_head lba"
  unfolding drive_select_def drive_head_def by (rule bit_word_eqI) (auto simp: bit_simps)

lemma ata_command_issue: "ata_command io 0x1F0 lba (ucast count) cmd = issue_command io lba count cmd"
  by (simp add: ata_command_def issue_command_def ata_consts)

lemma ata_begin_view:
  assumes "ready d" and "primary st" and "count \<noteq> 0"
  shows "\<exists>d1. ata_begin io lba count st d = (True, st\<lparr>at_initialized := True\<rparr>, d1) \<and> ready d1 \<and>
    medium (view d1) = medium (view d) \<and> r_head (view d1) = drive_head lba"
proof -
  obtain d0 where d0: "(if \<not> at_initialized st then ata_init io st d else (0, st, d)) = (0, st\<lparr>at_initialized := True\<rparr>, d0)"
      "ready d0" "medium (view d0) = medium (view d)"
    using ata_init_primary [OF assms(1,2)] assms(1) by (cases "at_initialized st") auto
  obtain d1 where d1: "ata_wait_ready io 0x1F0 100000 d0 = (0, d1)" "view d1 = (view d0)\<lparr>busy := 0\<rparr>"
    using ata_wait_ready_view [of d0 100000] d0(2) by (auto simp: ready_def)
  then have r1: "ready d1" using d0(2) by (simp add: ready_def)
  define d2 where "d2 = ata_delay io 0x3F6 (outb io 0x1F6 (drive_head lba) d1)"
  have "ready d2" "medium (view d2) = medium (view d1)" "r_head (view d2) = drive_head lba"
    using reg_write_keep [OF r1, of "0x1F6" "drive_head lba"] by (simp_all add: d2_def ready_def ata_delay_view ata_out_def)
  moreover have "ata_begin io lba count st d = (True, st\<lparr>at_initialized := True\<rparr>, d2)"
    unfolding ata_begin_def d0(1) using assms(2,3) d1(1)
    by (simp add: primary_def d2_def drive_select_head)
  ultimately show ?thesis using d1(2) d0(3) by simp
qed

lemma ata_read_loop_view:
  "primary st \<Longrightarrow> phase (view d) = (if n = 0 then Idle else DataIn l n) \<Longrightarrow> busy (view d) \<le> lat \<Longrightarrow>
   (n = 0 \<longrightarrow> busy (view d) = 0) \<Longrightarrow>
   \<exists>d'. ata_read_loop io st n acc d = (0, acc @ concat (map (medium (view d)) [l..<l + n]), d') \<and>
     ready d' \<and> medium (view d') = medium (view d)"
proof (induction n arbitrary: d l acc)
  case 0
  then show ?case by (auto simp: ready_def)
next
  case (Suc n)
  obtain d1 where 1: "ata_wait_drq io 0x1F0 100000 d = (0, d1)" "view d1 = (view d)\<lparr>busy := 0\<rparr>"
    using ata_wait_drq_view [of d 100000] Suc.prems lat_bound by auto
  define d2 where "d2 = snd (insw io 0x1F0 256 d1)"
  define ws where "ws = fst (insw io 0x1F0 256 d1)"
  have i: "insw io 0x1F0 256 d1 = (ws, d2)" by (simp add: d2_def ws_def)
  obtain b where b: "b \<le> lat" "words_bytes ws = medium (view d) l"
    "view d2 = (view d1)\<lparr>phase := if n = 0 then Idle else DataIn (l + 1) n, busy := if n = 0 then 0 else b\<rparr>"
    using data_in [of d1 l n] 1 Suc.prems by (auto simp: d2_def ws_def)
  define d3 where "d3 = ata_delay io 0x3F6 d2"
  have d3: "view d3 = view d2" by (simp add: d3_def ata_delay_view)
  have up: "[l..<l + Suc n] = l # [l + 1..<l + 1 + n]" by (simp add: upt_rec)
  have "phase (view d3) = (if n = 0 then Idle else DataIn (l + 1) n)" "busy (view d3) \<le> lat" "n = 0 \<longrightarrow> busy (view d3) = 0"
    using b d3 by auto
  from Suc.IH [OF Suc.prems(1) this, of "acc @ words_bytes ws"]
  show ?case unfolding up using 1 i b d3 Suc.prems(1) by (simp add: primary_def d3_def [symmetric])
qed

lemma ata_write_loop_view:
  "primary st \<Longrightarrow> phase (view d) = (if n = 0 then Idle else DataOut l n) \<Longrightarrow> busy (view d) \<le> lat \<Longrightarrow>
   (n = 0 \<longrightarrow> busy (view d) = 0) \<Longrightarrow> length buf = 512 * n \<Longrightarrow>
   \<exists>d'. ata_write_loop io st n buf d = (0, d') \<and> ready d' \<and> medium (view d') = put_sectors l n buf (medium (view d))"
proof (induction n arbitrary: d l buf)
  case 0
  then show ?case by (auto simp: ready_def)
next
  case (Suc n)
  obtain d1 where 1: "ata_wait_drq io 0x1F0 100000 d = (0, d1)" "view d1 = (view d)\<lparr>busy := 0\<rparr>"
    using ata_wait_drq_view [of d 100000] Suc.prems lat_bound by auto
  let ?ws = "bytes_words (take 512 buf)"
  have ws: "words_bytes ?ws = take 512 buf" "length ?ws = 256"
    using words_bytes_words [of "take 512 buf"] Suc.prems by auto
  define d2 where "d2 = ata_delay io 0x3F6 (outsw io 0x1F0 ?ws d1)"
  obtain b where b: "b \<le> lat"
    "view d2 = (view d1)\<lparr>phase := if n = 0 then Idle else DataOut (l + 1) n, busy := b,
       medium := (medium (view d1))(l := take 512 buf)\<rparr>"
    using data_out [of d1 l n ?ws] 1 ws Suc.prems by (auto simp: d2_def ata_delay_view)
  obtain d3 where 3: "ata_wait_ready io 0x1F0 100000 d2 = (0, d3)" "view d3 = (view d2)\<lparr>busy := 0\<rparr>"
    using ata_wait_ready_view [of d2 100000] b lat_bound by auto
  have "phase (view d3) = (if n = 0 then Idle else DataOut (l + 1) n)" "busy (view d3) \<le> lat"
      "n = 0 \<longrightarrow> busy (view d3) = 0" "length (drop 512 buf) = 512 * n"
    using b 3 Suc.prems by auto
  from Suc.IH [OF Suc.prems(1) this]
  obtain d' where "ata_write_loop io st n (drop 512 buf) d3 = (0, d')" "ready d'"
    "medium (view d') = put_sectors (l + 1) n (drop 512 buf) (medium (view d3))" by blast
  moreover have "medium (view d3) = (medium (view d))(l := take 512 buf)" using 1 b 3 by simp
  ultimately show ?case
    using 1 3 put_sectors_Suc [of l n buf "medium (view d)"] Suc.prems(1)
    by (simp add: primary_def d2_def [symmetric])
qed

lemma ata_read_view:
  assumes "ready d" and "primary st" and "unat lba < 2 ^ 28" and "count \<noteq> 0"
  shows "\<exists>d'. ata_read_sectors io lba count st d =
      (0, concat (map (medium (view d)) [unat lba..<unat lba + unat count]), st\<lparr>at_initialized := True\<rparr>, d') \<and>
    ready d' \<and> medium (view d') = medium (view d)"
proof -
  obtain d1 where d1: "ata_begin io lba count st d = (True, st\<lparr>at_initialized := True\<rparr>, d1)" "ready d1"
      "medium (view d1) = medium (view d)" "r_head (view d1) = drive_head lba"
    using ata_begin_view [OF assms(1,2,4)] by blast
  define c :: u32 where "c = ucast count"
  have c: "ucast c = count" "unat c = unat count" "0 < unat c" "unat c < 256"
    using assms(4) wide_count [of count] unfolding c_def by (simp_all only: unat_gt_0 not_False_eq_True)
  let ?d2 = "issue_command io lba c 0x20 d1"
  have p: "primary (st\<lparr>at_initialized := True\<rparr>)" using assms(2) by (simp add: primary_def)
  note i = issue_raw [OF d1(2) _ d1(4) assms(3) c(3,4), of "0x20"]
  have "\<exists>d'. ata_read_loop io (st\<lparr>at_initialized := True\<rparr>) (unat count) [] ?d2 =
      (0, [] @ concat (map (medium (view ?d2)) [unat lba..<unat lba + unat count]), d') \<and>
     ready d' \<and> medium (view d') = medium (view ?d2)"
    using i c by (intro ata_read_loop_view [OF p]) simp_all
  then show ?thesis
    using d1 i(2) assms(2) ata_command_issue [of lba c "0x20"] c(1)
    by (auto simp: ata_read_sectors_def primary_def)
qed

lemma ata_write_view:
  assumes "ready d" and "primary st" and "unat lba < 2 ^ 28" and "count \<noteq> 0" and "length buf = 512 * unat count"
  shows "\<exists>d'. ata_write_sectors io lba count buf st d = (0, st\<lparr>at_initialized := True\<rparr>, d') \<and> ready d' \<and>
    medium (view d') = put_sectors (unat lba) (unat count) buf (medium (view d))"
proof -
  obtain d1 where d1: "ata_begin io lba count st d = (True, st\<lparr>at_initialized := True\<rparr>, d1)" "ready d1"
      "medium (view d1) = medium (view d)" "r_head (view d1) = drive_head lba"
    using ata_begin_view [OF assms(1,2,4)] by blast
  define c :: u32 where "c = ucast count"
  have c: "ucast c = count" "unat c = unat count" "0 < unat c" "unat c < 256"
    using assms(4) wide_count [of count] unfolding c_def by (simp_all only: unat_gt_0 not_False_eq_True)
  let ?d2 = "issue_command io lba c 0x30 d1"
  have p: "primary (st\<lparr>at_initialized := True\<rparr>)" using assms(2) by (simp add: primary_def)
  note i = issue_raw [OF d1(2) _ d1(4) assms(3) c(3,4), of "0x30"]
  have "\<exists>d'. ata_write_loop io (st\<lparr>at_initialized := True\<rparr>) (unat count) buf ?d2 = (0, d') \<and> ready d' \<and>
      medium (view d') = put_sectors (unat lba) (unat count) buf (medium (view ?d2))"
    using i c assms(5) by (intro ata_write_loop_view [OF p]) simp_all
  then obtain d3 where d3: "ata_write_loop io (st\<lparr>at_initialized := True\<rparr>) (unat count) buf ?d2 = (0, d3)" "ready d3"
      "medium (view d3) = put_sectors (unat lba) (unat count) buf (medium (view d))"
    using i(2) d1(3) by auto
  obtain b where b: "b \<le> lat" "view (outb io 0x1F7 0xE7 d3) = (view d3)\<lparr>busy := b\<rparr>"
    using reg_write [of "0x1F7" d3 "0xE7"] d3(2) by (auto simp: ready_def ata_out_def)
  obtain d4 where d4: "ata_wait_ready io 0x1F0 100000 (outb io 0x1F7 0xE7 d3) = (0, d4)" "view d4 = (view d3)\<lparr>busy := 0\<rparr>"
    using ata_wait_ready_view [of "outb io 0x1F7 0xE7 d3" 100000] b lat_bound by auto
  have "ready d4" "medium (view d4) = medium (view d3)" using d4(2) d3(2) by (simp_all add: ready_def)
  then show ?thesis
    using d1(1) d3 d4(1) assms(2) ata_command_issue [of lba c "0x30"] c(1)
    by (auto simp: ata_write_sectors_def primary_def)
qed

end

text \<open>The driver is a block device on pairs of the machine and the driver's variables.\<close>

definition ata_rd :: "'d port_io \<Rightarrow> u32 \<Rightarrow> u32 \<Rightarrow> 'd \<times> ata_state \<Rightarrow> int \<times> u8 list \<times> 'd \<times> ata_state" where
  "ata_rd io lba count s =
     (let (r, bytes, st, d) = disk_read_lba_ata io lba (ucast count) (snd s) (fst s) in (r, bytes, d, st))"

definition ata_wr :: "'d port_io \<Rightarrow> u32 \<Rightarrow> u32 \<Rightarrow> u8 list \<Rightarrow> 'd \<times> ata_state \<Rightarrow> int \<times> 'd \<times> ata_state" where
  "ata_wr io lba count buf s =
     (let (r, st, d) = disk_write_lba_ata io lba (ucast count) buf (snd s) (fst s) in (r, d, st))"

sublocale ata_control \<subseteq> hook: block_device "ata_rd io" "ata_wr io" "\<lambda>s. ready (fst s) \<and> primary (snd s)"
  "\<lambda>s. medium (view (fst s))"
proof (unfold_locales, goal_cases)
  case (1 s i)
  show ?case by (rule medium_length)
next
  case (2 s lba)
  then show ?case
    using ata_read_view [of "fst s" "snd s" lba 1] by (auto simp: ata_rd_def disk_read_lba_ata_def primary_def)
next
  case (3 s lba buf)
  moreover have "put_sectors (unat lba) 1 buf m = m(unat lba := buf)" for m
    using 3(3) by (auto simp: put_sectors_def fun_eq_iff)
  ultimately show ?case
    using ata_write_view [of "fst s" "snd s" lba 1 buf] by (auto simp: ata_wr_def disk_write_lba_ata_def primary_def)
qed

section \<open>A drive with a control port\<close>

definition ref_ctrl_io :: "ata_view port_io" where
  "ref_ctrl_io = ref_io\<lparr>outb := \<lambda>p x d. if p = 0x3F6 then d\<lparr>phase := Idle, busy := 3\<rparr> else outb ref_io p x d\<rparr>"

interpretation ref_ctrl: ata_control ref_ctrl_io ref_view 3
proof (unfold_locales, goal_cases)
  case 1
  then show ?case by simp
next
  case (2 d i)
  then show ?case by (rule ref.medium_length)
next
  case (3 d)
  then show ?case using ref.status_read(1) [of d] by (simp add: ref_ctrl_io_def)
next
  case (4 d)
  then show ?case using ref.status_read(2) [of d] by (simp add: ref_ctrl_io_def)
next
  case (5 p d x)
  moreover have "p \<noteq> 0x3F6" using 5(2) by auto
  ultimately show ?case using ref.reg_write [of p d x] by (simp add: ref_ctrl_io_def)
next
  case (6 d l n)
  then show ?case using ref.data_in [of d l n] by (simp add: ref_ctrl_io_def)
next
  case (7 d l n ws)
  then show ?case using ref.data_out [of d l n ws] by (simp add: ref_ctrl_io_def)
next
  case (8 d)
  then show ?case by (simp add: ref_ctrl_io_def ref_io_def)
next
  case (9 x d)
  then show ?case by (simp add: ref_ctrl_io_def ref_view_def)
qed

section \<open>Properties\<close>

text \<open>
  C27.  The two disk drivers agree.  On an idle ATA drive on the primary channel, for 1 to 255
  sectors, \<^verbatim>\<open>ata_read_sectors\<close> returns what \<^verbatim>\<open>disk_read_lba\<close> returns; what
  \<^verbatim>\<open>ata_write_sectors\<close> writes, \<^verbatim>\<open>disk_read_lba\<close> reads, and what \<^verbatim>\<open>disk_write_lba\<close> writes,
  \<^verbatim>\<open>ata_read_sectors\<close> reads, whether or not that driver has been initialised before.
\<close>
theorem ata_drivers_agree:
  assumes "ata_control io view lat" and "busy (view d) = 0" and "phase (view d) = Idle"
    and "at_base st = 0x1F0" and "at_ctrl st = 0x3F6" and "at_drive st = 0"
    and "unat lba < 2 ^ 28" and "count \<noteq> 0" and "length buf = 512 * unat count"
  shows "(\<exists>bytes d1 d2. ata_read_sectors io lba count st d = (0, bytes, st\<lparr>at_initialized := True\<rparr>, d1) \<and>
      disk_read_lba io lba (ucast count) d = (0, bytes, d2)) \<and>
    (\<exists>d1 d2. ata_write_sectors io lba count buf st d = (0, st\<lparr>at_initialized := True\<rparr>, d1) \<and>
      disk_read_lba io lba (ucast count) d1 = (0, buf, d2)) \<and>
    (\<exists>d1 d2. disk_write_lba io lba (ucast count) buf d = (0, d1) \<and>
      ata_read_sectors io lba count st d1 = (0, buf, st\<lparr>at_initialized := True\<rparr>, d2))"
proof -
  note ctl = assms(1)
  have drive: "ata_drive io view lat" using ctl by (simp add: ata_control_def)
  have r: "ata_drive.ready view d" using assms by (simp add: ata_drive.ready_def [OF drive])
  have p: "ata_control.primary st" using assms by (simp add: ata_control.primary_def [OF ctl])
  define c :: u32 where "c = ucast count"
  have c: "unat c = unat count" "0 < unat c" "unat c < 256"
    using assms(8) wide_count [of count] unfolding c_def by (simp_all only: unat_gt_0 not_False_eq_True)
  obtain d1 where w: "ata_write_sectors io lba count buf st d = (0, st\<lparr>at_initialized := True\<rparr>, d1)" "ata_drive.ready view d1"
      "medium (view d1) = put_sectors (unat lba) (unat count) buf (medium (view d))"
    using ata_control.ata_write_view [OF ctl r p assms(7-9)] by blast
  have "\<exists>d2. disk_read_lba io lba c d1 = (0, buf, d2)"
    using ata_drive.disk_read_view [OF drive w(2) assms(7) c(2,3)] w(3) c(1) concat_put_sectors [OF assms(9)] by auto
  moreover obtain d3 where d: "disk_write_lba io lba c buf d = (0, d3)" "ata_drive.ready view d3"
      "medium (view d3) = put_sectors (unat lba) (unat count) buf (medium (view d))"
    using ata_drive.disk_write_view [OF drive r assms(7) c(2,3)] assms(9) c(1) by auto
  moreover have "\<exists>d4. ata_read_sectors io lba count st d3 = (0, buf, st\<lparr>at_initialized := True\<rparr>, d4)"
    using ata_control.ata_read_view [OF ctl d(2) p assms(7,8)] d(3) concat_put_sectors [OF assms(9)] by auto
  ultimately show ?thesis
    using ata_control.ata_read_view [OF ctl r p assms(7,8)] ata_drive.disk_read_view [OF drive r assms(7) c(2,3)] c(1) w(1)
    unfolding c_def by auto
qed

theorem ata_drivers_agree_witness:
  "(\<exists>bytes d1 d2. ata_read_sectors ref_ctrl_io 500 2 ata_start blank_drive = (0, bytes, ata_start\<lparr>at_initialized := True\<rparr>, d1) \<and>
      disk_read_lba ref_ctrl_io 500 (ucast (2 :: u8)) blank_drive = (0, bytes, d2)) \<and>
    (\<exists>d1 d2. ata_write_sectors ref_ctrl_io 500 2 (replicate 1024 0xAB) ata_start blank_drive = (0, ata_start\<lparr>at_initialized := True\<rparr>, d1) \<and>
      disk_read_lba ref_ctrl_io 500 (ucast (2 :: u8)) d1 = (0, replicate 1024 0xAB, d2)) \<and>
    (\<exists>d1 d2. disk_write_lba ref_ctrl_io 500 (ucast (2 :: u8)) (replicate 1024 0xAB) blank_drive = (0, d1) \<and>
      ata_read_sectors ref_ctrl_io 500 2 ata_start d1 = (0, replicate 1024 0xAB, ata_start\<lparr>at_initialized := True\<rparr>, d2))"
  by (rule ata_drivers_agree [OF ref_ctrl.ata_control_axioms])
    (simp_all add: ref_view_def blank_drive_def ata_start_def)

end
