(* ===== verification/Drv_PCI.thy ===== *)
theory Drv_PCI
  imports C_Prelude
begin

text \<open>
  The PCI bus driver \<^verbatim>\<open>src/src/pci.c\<close>: configuration reads and writes through the two 32-bit
  ports, the scan of buses, devices and functions, and the recognition of wireless cards.  The
  ports are a parameter over a machine state \<open>'d\<close>; what the scan relies on is the locale
  \<open>pci_bus\<close>: a read after an address was written returns the configuration word at that
  address and changes nothing.
\<close>

record 'd pci_io =
  outl :: "u16 \<Rightarrow> u32 \<Rightarrow> 'd \<Rightarrow> 'd"
  inl :: "u16 \<Rightarrow> 'd \<Rightarrow> u32 \<times> 'd"

record pci_device =
  vendor_id :: u16
  device_id :: u16
  pd_bus :: u8
  pd_device :: u8
  pd_function :: u8
  class_code :: u8
  sub_class :: u8
  prog_if :: u8
  revision :: u8
  bar0 :: u32
  bar1 :: u32
  pd_irq :: u8

section \<open>Configuration space\<close>

definition pci_address :: "u8 \<Rightarrow> u8 \<Rightarrow> u8 \<Rightarrow> u8 \<Rightarrow> u32" where
  "pci_address bus device function offset =
     push_bit 16 (ucast bus) OR push_bit 11 (ucast device) OR push_bit 8 (ucast function) OR
     (ucast offset AND 0xFC) OR 0x80000000"

definition pci_config_read :: "'d pci_io \<Rightarrow> u8 \<Rightarrow> u8 \<Rightarrow> u8 \<Rightarrow> u8 \<Rightarrow> 'd \<Rightarrow> u32 \<times> 'd" where
  "pci_config_read io bus device function offset d =
     inl io 0x0CFC (outl io 0x0CF8 (pci_address bus device function offset) d)"

definition pci_config_write :: "'d pci_io \<Rightarrow> u8 \<Rightarrow> u8 \<Rightarrow> u8 \<Rightarrow> u8 \<Rightarrow> u32 \<Rightarrow> 'd \<Rightarrow> 'd" where
  "pci_config_write io bus device function offset value d =
     outl io 0x0CFC value (outl io 0x0CF8 (pci_address bus device function offset) d)"

definition id_present :: "u32 \<Rightarrow> bool" where
  "id_present vendor \<longleftrightarrow> vendor \<noteq> 0xFFFFFFFF \<and> vendor AND 0xFFFF \<noteq> 0xFFFF"

definition pci_device_exists :: "'d pci_io \<Rightarrow> u8 \<Rightarrow> u8 \<Rightarrow> u8 \<Rightarrow> 'd \<Rightarrow> bool \<times> 'd" where
  "pci_device_exists io bus device function d =
     (let (vendor, d1) = pci_config_read io bus device function 0 d in (id_present vendor, d1))"

text \<open>The fields of a device from the five configuration words the code reads.\<close>

definition device_of :: "u8 \<Rightarrow> u8 \<Rightarrow> u8 \<Rightarrow> u32 \<Rightarrow> u32 \<Rightarrow> u32 \<Rightarrow> u32 \<Rightarrow> u32 \<Rightarrow> pci_device" where
  "device_of bus device function vendor_device class_info b0 b1 irq_info =
     \<lparr>vendor_id = ucast (vendor_device AND 0xFFFF), device_id = ucast (drop_bit 16 vendor_device AND 0xFFFF),
      pd_bus = bus, pd_device = device, pd_function = function,
      class_code = ucast (drop_bit 24 class_info AND 0xFF), sub_class = ucast (drop_bit 16 class_info AND 0xFF),
      prog_if = ucast (drop_bit 8 class_info AND 0xFF), revision = ucast (class_info AND 0xFF),
      bar0 = b0, bar1 = b1, pd_irq = ucast (irq_info AND 0xFF)\<rparr>"

definition pci_get_device_info :: "'d pci_io \<Rightarrow> u8 \<Rightarrow> u8 \<Rightarrow> u8 \<Rightarrow> 'd \<Rightarrow> pci_device \<times> 'd" where
  "pci_get_device_info io bus device function d =
     (let (vendor_device, d1) = pci_config_read io bus device function 0x00 d;
          (class_info, d2) = pci_config_read io bus device function 0x08 d1;
          (b0, d3) = pci_config_read io bus device function 0x10 d2;
          (b1, d4) = pci_config_read io bus device function 0x14 d3;
          (irq_info, d5) = pci_config_read io bus device function 0x3C d4
      in (device_of bus device function vendor_device class_info b0 b1 irq_info, d5))"

section \<open>Wireless cards\<close>

definition pci_is_wifi_device :: "pci_device \<Rightarrow> bool" where
  "pci_is_wifi_device dev =
     (if class_code dev = 0x02 \<and> sub_class dev = 0x80 then True
      else if vendor_id dev = 0x8086 then device_id dev \<in> {0x08B1, 0x24F3, 0x2526, 0x2723, 0x43F0}
      else if vendor_id dev = 0x10EC then device_id dev \<in> {0x8179, 0x818B, 0x8821, 0xB822}
      else vendor_id dev \<in> {0x168C, 0x14E4, 0x1814})"

definition pci_get_device_name :: "pci_device \<Rightarrow> string" where
  "pci_get_device_name dev =
     (if vendor_id dev = 0x8086 then
        (if device_id dev = 0x08B1 then ''Intel Wireless AC 7260''
         else if device_id dev = 0x24F3 then ''Intel Wireless AC 8260''
         else if device_id dev = 0x2526 then ''Intel Wireless AC 9260''
         else if device_id dev = 0x2723 then ''Intel Wi-Fi 6 AX200''
         else if device_id dev = 0x43F0 then ''Intel Wi-Fi 6 AX201''
         else ''Intel WiFi Adapter'')
      else if vendor_id dev = 0x10EC then
        (if device_id dev = 0x8179 then ''Realtek RTL8188EE''
         else if device_id dev = 0x818B then ''Realtek RTL8192EE''
         else if device_id dev = 0x8821 then ''Realtek RTL8821AE''
         else if device_id dev = 0xB822 then ''Realtek RTL8822BE''
         else ''Realtek WiFi Adapter'')
      else if vendor_id dev = 0x168C then ''Atheros WiFi Adapter''
      else if vendor_id dev = 0x14E4 then ''Broadcom WiFi Adapter''
      else if vendor_id dev = 0x1814 then ''Ralink WiFi Adapter''
      else ''Unknown WiFi Adapter'')"

section \<open>The scan\<close>

text \<open>A device that is present is stored while there is room.\<close>

definition store_device :: "'d pci_io \<Rightarrow> nat \<Rightarrow> u8 \<Rightarrow> u8 \<Rightarrow> u8 \<Rightarrow> pci_device list \<Rightarrow> 'd \<Rightarrow> pci_device list \<times> 'd" where
  "store_device io max_devices bus device f devices d =
     (if length devices < max_devices
      then (let (dev, d1) = pci_get_device_info io bus device f d in (devices @ [dev], d1))
      else (devices, d))"

text \<open>The loop over the functions of a device; a single-function device ends it.\<close>

fun scan_functions :: "'d pci_io \<Rightarrow> nat \<Rightarrow> u8 \<Rightarrow> u8 \<Rightarrow> nat list \<Rightarrow> pci_device list \<Rightarrow> 'd \<Rightarrow> pci_device list \<times> 'd" where
  "scan_functions io max_devices bus device [] devices d = (devices, d)"
| "scan_functions io max_devices bus device (f # fs) devices d =
     (let (present, d1) = pci_device_exists io bus device (of_nat f) d
      in if \<not> present then scan_functions io max_devices bus device fs devices d1
         else
           let (devices1, d2) = store_device io max_devices bus device (of_nat f) devices d1
           in if f = 0
              then (let (header, d3) = pci_config_read io bus device 0 0x0C d2
                    in if header AND 0x00800000 = 0 then (devices1, d3)
                       else scan_functions io max_devices bus device fs devices1 d3)
              else scan_functions io max_devices bus device fs devices1 d2)"

fun scan_slots :: "'d pci_io \<Rightarrow> nat \<Rightarrow> (nat \<times> nat) list \<Rightarrow> pci_device list \<Rightarrow> 'd \<Rightarrow> pci_device list \<times> 'd" where
  "scan_slots io max_devices [] devices d = (devices, d)"
| "scan_slots io max_devices ((bus, device) # ss) devices d =
     (let (devices1, d1) = scan_functions io max_devices (of_nat bus) (of_nat device) [0..<8] devices d
      in scan_slots io max_devices ss devices1 d1)"

definition pci_enumerate_devices :: "'d pci_io \<Rightarrow> nat \<Rightarrow> 'd \<Rightarrow> pci_device list \<times> 'd" where
  "pci_enumerate_devices io max_devices d = scan_slots io max_devices (List.product [0..<8] [0..<32]) [] d"

definition pci_find_wifi_devices :: "'d pci_io \<Rightarrow> nat \<Rightarrow> 'd \<Rightarrow> pci_device list \<times> 'd" where
  "pci_find_wifi_devices io max_devices d =
     (let (all_devices, d1) = pci_enumerate_devices io 64 d
      in (take max_devices (filter pci_is_wifi_device all_devices), d1))"

definition pci_enable_device :: "'d pci_io \<Rightarrow> pci_device \<Rightarrow> 'd \<Rightarrow> 'd" where
  "pci_enable_device io dev d =
     (let (command, d1) = pci_config_read io (pd_bus dev) (pd_device dev) (pd_function dev) 0x04 d
      in pci_config_write io (pd_bus dev) (pd_device dev) (pd_function dev) 0x04 (command OR 0x07) d1)"

text \<open>\<open>junk\<close> is the content of the local variable \<^verbatim>\<open>invalid\<close>, of which the code sets two fields.\<close>

definition pci_find_device :: "'d pci_io \<Rightarrow> pci_device \<Rightarrow> u16 \<Rightarrow> u16 \<Rightarrow> 'd \<Rightarrow> pci_device \<times> 'd" where
  "pci_find_device io junk vendor device d =
     (let (devices, d1) = pci_enumerate_devices io 64 d
      in (case find (\<lambda>dev. vendor_id dev = vendor \<and> device_id dev = device) devices of
            Some dev \<Rightarrow> dev
          | None \<Rightarrow> junk\<lparr>vendor_id := 0xFFFF, device_id := 0xFFFF\<rparr>, d1))"

section \<open>The bus as the driver sees it\<close>

text \<open>The functions of a slot that a scan reports, from the configuration words \<open>cfg\<close>.\<close>

definition fn_present :: "(u32 \<Rightarrow> u32) \<Rightarrow> nat \<Rightarrow> nat \<Rightarrow> nat \<Rightarrow> bool" where
  "fn_present cfg bus device f = id_present (cfg (pci_address (of_nat bus) (of_nat device) (of_nat f) 0))"

definition single_function :: "(u32 \<Rightarrow> u32) \<Rightarrow> nat \<Rightarrow> nat \<Rightarrow> bool" where
  "single_function cfg bus device \<longleftrightarrow> cfg (pci_address (of_nat bus) (of_nat device) 0 0x0C) AND 0x00800000 = 0"

definition slot_functions :: "(u32 \<Rightarrow> u32) \<Rightarrow> nat \<Rightarrow> nat \<Rightarrow> nat list" where
  "slot_functions cfg bus device =
     (if fn_present cfg bus device 0 \<and> single_function cfg bus device then [0]
      else filter (fn_present cfg bus device) [0..<8])"

definition info_at :: "(u32 \<Rightarrow> u32) \<Rightarrow> nat \<Rightarrow> nat \<Rightarrow> nat \<Rightarrow> pci_device" where
  "info_at cfg bus device f =
     (let at = (\<lambda>off. cfg (pci_address (of_nat bus) (of_nat device) (of_nat f) off))
      in device_of (of_nat bus) (of_nat device) (of_nat f) (at 0) (at 8) (at 0x10) (at 0x14) (at 0x3C))"

definition slot_devices :: "(u32 \<Rightarrow> u32) \<Rightarrow> nat \<times> nat \<Rightarrow> pci_device list" where
  "slot_devices cfg s = map (info_at cfg (fst s) (snd s)) (slot_functions cfg (fst s) (snd s))"

definition bus_devices :: "(u32 \<Rightarrow> u32) \<Rightarrow> pci_device list" where
  "bus_devices cfg = concat (map (slot_devices cfg) (List.product [0..<8] [0..<32]))"

locale pci_bus =
  fixes io :: "'d pci_io" and cfg :: "'d \<Rightarrow> u32 \<Rightarrow> u32"
  assumes config_value: "fst (inl io 0x0CFC (outl io 0x0CF8 a d)) = cfg d a"
    and config_kept: "cfg (snd (inl io 0x0CFC (outl io 0x0CF8 a d))) = cfg d"
begin

lemma read_config:
  "\<exists>d1. pci_config_read io bus device f off d = (cfg d (pci_address bus device f off), d1) \<and> cfg d1 = cfg d"
  using config_value config_kept unfolding pci_config_read_def by (metis prod.collapse)

lemma exists_config:
  "\<exists>d1. pci_device_exists io (of_nat bus) (of_nat device) (of_nat f) d = (fn_present (cfg d) bus device f, d1) \<and> cfg d1 = cfg d"
  using read_config [of "of_nat bus" "of_nat device" "of_nat f" 0 d] by (auto simp: pci_device_exists_def fn_present_def)

lemma info_config:
  "\<exists>d1. pci_get_device_info io (of_nat bus) (of_nat device) (of_nat f) d = (info_at (cfg d) bus device f, d1) \<and> cfg d1 = cfg d"
proof -
  let ?r = "\<lambda>off d. pci_config_read io (of_nat bus) (of_nat device) (of_nat f) off d"
  obtain d1 where 1: "?r 0 d = (cfg d (pci_address (of_nat bus) (of_nat device) (of_nat f) 0), d1)" "cfg d1 = cfg d"
    using read_config by blast
  obtain d2 where 2: "?r 0x08 d1 = (cfg d1 (pci_address (of_nat bus) (of_nat device) (of_nat f) 8), d2)" "cfg d2 = cfg d1"
    using read_config by blast
  obtain d3 where 3: "?r 0x10 d2 = (cfg d2 (pci_address (of_nat bus) (of_nat device) (of_nat f) 0x10), d3)" "cfg d3 = cfg d2"
    using read_config by blast
  obtain d4 where 4: "?r 0x14 d3 = (cfg d3 (pci_address (of_nat bus) (of_nat device) (of_nat f) 0x14), d4)" "cfg d4 = cfg d3"
    using read_config by blast
  obtain d5 where 5: "?r 0x3C d4 = (cfg d4 (pci_address (of_nat bus) (of_nat device) (of_nat f) 0x3C), d5)" "cfg d5 = cfg d4"
    using read_config by blast
  show ?thesis using 1 2 3 4 5 by (simp add: pci_get_device_info_def info_at_def)
qed

text \<open>The scan of a range of functions that does not stop.\<close>

lemma store_config:
  "length devices \<le> n \<Longrightarrow> \<exists>d1. store_device io n (of_nat bus) (of_nat device) (of_nat f) devices d =
     (take n (devices @ [info_at (cfg d) bus device f]), d1) \<and> cfg d1 = cfg d"
  using info_config [of bus device f d] by (auto simp: store_device_def)

lemma take_take_append: "take n (take n xs @ zs) = take n (xs @ zs)"
  by (cases "length xs \<le> n") simp_all

lemma scan_rest:
  "\<forall>f \<in> set fs. 0 < f \<Longrightarrow> length devices \<le> n \<Longrightarrow>
   \<exists>d1. scan_functions io n (of_nat bus) (of_nat device) fs devices d =
     (take n (devices @ map (info_at (cfg d) bus device) (filter (fn_present (cfg d) bus device) fs)), d1) \<and> cfg d1 = cfg d"
proof (induction fs arbitrary: devices d)
  case (Cons f fs)
  obtain d1 where 1: "pci_device_exists io (of_nat bus) (of_nat device) (of_nat f) d = (fn_present (cfg d) bus device f, d1)" "cfg d1 = cfg d"
    using exists_config by blast
  obtain d2 where 2: "store_device io n (of_nat bus) (of_nat device) (of_nat f) devices d1 =
      (take n (devices @ [info_at (cfg d) bus device f]), d2)" "cfg d2 = cfg d"
    using store_config [OF Cons.prems(2), of bus device f d1] 1(2) by auto
  show ?case
  proof (cases "fn_present (cfg d) bus device f")
    case True
    have "f \<noteq> 0" using Cons.prems(1) by auto
    then show ?thesis
      using 1 2 True Cons.IH [of "take n (devices @ [info_at (cfg d) bus device f])" d2] Cons.prems(1)
        take_take_append [of n "devices @ [info_at (cfg d) bus device f]"] by simp
  next
    case False
    then show ?thesis using 1 Cons.IH [of devices d1] Cons.prems by simp
  qed
qed simp

lemma scan_slot:
  assumes "length devices \<le> n"
  shows "\<exists>d1. scan_functions io n (of_nat bus) (of_nat device) [0..<8] devices d =
    (take n (devices @ slot_devices (cfg d) (bus, device)), d1) \<and> cfg d1 = cfg d"
proof -
  have up: "[0..<8] = 0 # [1..<8]" by (simp add: upt_rec)
  obtain d1 where 1: "pci_device_exists io (of_nat bus) (of_nat device) (of_nat 0) d = (fn_present (cfg d) bus device 0, d1)" "cfg d1 = cfg d"
    using exists_config by blast
  obtain d2 where 2: "store_device io n (of_nat bus) (of_nat device) (of_nat 0) devices d1 =
      (take n (devices @ [info_at (cfg d) bus device 0]), d2)" "cfg d2 = cfg d"
    using store_config [OF assms, of bus device 0 d1] 1(2) by auto
  obtain d3 where 3: "pci_config_read io (of_nat bus) (of_nat device) 0 0x0C d2 =
      (cfg d (pci_address (of_nat bus) (of_nat device) 0 0x0C), d3)" "cfg d3 = cfg d"
    using read_config [of "of_nat bus" "of_nat device" 0 "0x0C" d2] 2(2) by auto
  consider "\<not> fn_present (cfg d) bus device 0" | "fn_present (cfg d) bus device 0" "single_function (cfg d) bus device"
    | "fn_present (cfg d) bus device 0" "\<not> single_function (cfg d) bus device" by blast
  then show ?thesis
  proof cases
    case 1
    then show ?thesis
      using \<open>pci_device_exists io _ _ _ d = _\<close> \<open>cfg d1 = cfg d\<close> scan_rest [of "[1..<8]" devices n bus device d1] assms
      unfolding up by (simp add: slot_devices_def slot_functions_def up)
  next
    case 2
    then show ?thesis
      using \<open>pci_device_exists io _ _ _ d = _\<close> \<open>store_device io _ _ _ _ _ _ = _\<close> 3
      unfolding up by (simp add: slot_devices_def slot_functions_def single_function_def)
  next
    case 3
    then show ?thesis
      using \<open>pci_device_exists io _ _ _ d = _\<close> \<open>store_device io _ _ _ _ _ _ = _\<close> \<open>pci_config_read io _ _ _ _ _ = _\<close> \<open>cfg d3 = cfg d\<close>
        scan_rest [of "[1..<8]" "take n (devices @ [info_at (cfg d) bus device 0])" n bus device d3] take_take_append [of n "devices @ [info_at (cfg d) bus device 0]"]
      unfolding up by (simp add: slot_devices_def slot_functions_def single_function_def up)
  qed
qed

lemma scan_slots_config:
  "length devices \<le> n \<Longrightarrow> \<exists>d1. scan_slots io n ss devices d =
     (take n (devices @ concat (map (slot_devices (cfg d)) ss)), d1) \<and> cfg d1 = cfg d"
proof (induction ss arbitrary: devices d)
  case (Cons s ss)
  obtain bus device where s: "s = (bus, device)" by (cases s)
  obtain d1 where 1: "scan_functions io n (of_nat bus) (of_nat device) [0..<8] devices d =
      (take n (devices @ slot_devices (cfg d) (bus, device)), d1)" "cfg d1 = cfg d"
    using scan_slot [OF Cons.prems] by blast
  then show ?case
    using Cons.IH [of "take n (devices @ slot_devices (cfg d) (bus, device))" d1] s
      take_take_append [of n "devices @ slot_devices (cfg d) (bus, device)"] by auto
qed simp

lemma enumerate_config:
  "\<exists>d1. pci_enumerate_devices io n d = (take n (bus_devices (cfg d)), d1) \<and> cfg d1 = cfg d"
  using scan_slots_config [of "[]" n "List.product [0..<8] [0..<32]" d] by (simp add: pci_enumerate_devices_def bus_devices_def)

end

section \<open>A bus that satisfies the laws\<close>

text \<open>A host bridge: the address latch and the configuration words.\<close>

definition ref_pci_io :: "(u32 \<times> (u32 \<Rightarrow> u32)) pci_io" where
  "ref_pci_io = \<lparr>
     outl = (\<lambda>p v (a, c). if p = 0x0CF8 then (v, c) else if p = 0x0CFC then (a, c(a := v)) else (a, c)),
     inl = (\<lambda>p (a, c). (if p = 0x0CFC then c a else 0xFFFFFFFF, (a, c)))\<rparr>"

interpretation ref_pci: pci_bus ref_pci_io snd
  by unfold_locales (auto simp: ref_pci_io_def split_def)

section \<open>Properties\<close>

text \<open>
  The scan reports the bus: up to the caller's limit, the devices found are, in the order
  of buses, slots and functions, those whose vendor id is present, of which a single-function
  device counts once; \<^verbatim>\<open>pci_find_device\<close> returns the first of the first 64 with the wanted ids,
  and ids of \<open>0xFFFF\<close> when there is none.  The configuration space is only read.
\<close>
theorem pci_scan_complete:
  assumes "pci_bus io cfg"
  shows "\<exists>d1 d2. pci_enumerate_devices io n d = (take n (bus_devices (cfg d)), d1) \<and> cfg d1 = cfg d \<and>
    pci_find_device io junk v i d =
      (case find (\<lambda>dev. vendor_id dev = v \<and> device_id dev = i) (take 64 (bus_devices (cfg d))) of
         Some dev \<Rightarrow> dev | None \<Rightarrow> junk\<lparr>vendor_id := 0xFFFF, device_id := 0xFFFF\<rparr>, d2)"
proof -
  obtain d1 where "pci_enumerate_devices io n d = (take n (bus_devices (cfg d)), d1)" "cfg d1 = cfg d"
    using pci_bus.enumerate_config [OF assms] by blast
  moreover obtain d2 where "pci_enumerate_devices io 64 d = (take 64 (bus_devices (cfg d)), d2)"
    using pci_bus.enumerate_config [OF assms] by blast
  ultimately show ?thesis by (simp add: pci_find_device_def)
qed

definition ref_card :: "u32 \<Rightarrow> u32" where
  "ref_card = (\<lambda>_. 0xFFFFFFFF)(pci_address 0 0 0 0 := 0x10001AF4, pci_address 0 0 0 0x0C := 0)"

theorem pci_scan_complete_witness:
  "\<exists>d1. pci_enumerate_devices ref_pci_io 1 (0, ref_card) = ([info_at ref_card 0 0 0], d1) \<and> snd d1 = ref_card \<and>
    fst (pci_find_device ref_pci_io (info_at ref_card 0 0 0) 0x1AF4 0x1000 (0, ref_card)) = info_at ref_card 0 0 0"
proof -
  have slot: "slot_devices ref_card (0, 0) = [info_at ref_card 0 0 0]"
    by (simp add: slot_devices_def slot_functions_def fn_present_def single_function_def ref_card_def id_present_def pci_address_def)
  have "bus_devices ref_card = slot_devices ref_card (0, 0) @ concat (map (slot_devices ref_card) (tl (List.product [0..<8] [0..<32])))"
    by (simp add: bus_devices_def upt_rec)
  then have b: "bus_devices ref_card = info_at ref_card 0 0 0 # concat (map (slot_devices ref_card) (tl (List.product [0..<8] [0..<32])))"
    by (simp add: slot)
  have i: "vendor_id (info_at ref_card 0 0 0) = 0x1AF4" "device_id (info_at ref_card 0 0 0) = 0x1000"
    by (simp_all add: info_at_def device_of_def ref_card_def pci_address_def)
  obtain d1 d2 where "pci_enumerate_devices ref_pci_io 1 (0 :: u32, ref_card) = (take 1 (bus_devices (snd (0 :: u32, ref_card))), d1)"
      "snd d1 = snd (0 :: u32, ref_card)"
      "pci_find_device ref_pci_io (info_at ref_card 0 0 0) 0x1AF4 0x1000 (0 :: u32, ref_card) =
        (case find (\<lambda>dev. vendor_id dev = 0x1AF4 \<and> device_id dev = 0x1000) (take 64 (bus_devices (snd (0 :: u32, ref_card)))) of
         Some dev \<Rightarrow> dev | None \<Rightarrow> (info_at ref_card 0 0 0)\<lparr>vendor_id := 0xFFFF, device_id := 0xFFFF\<rparr>, d2)"
    using pci_scan_complete [OF ref_pci.pci_bus_axioms, of 1 "(0 :: u32, ref_card)" "info_at ref_card 0 0 0" "0x1AF4" "0x1000"] by blast
  then show ?thesis by (simp add: b i del: List.product.simps)
qed

end
