(* ===== verification/Drv_VirtIO.thy ===== *)
theory Drv_VirtIO
  imports Net_Iface Drv_PCI Disk_ATA Irq_Ring
begin

text \<open>
  The VirtIO network driver of \<^verbatim>\<open>src/src/rust_driver_stubs.c\<close>, lines 50 to 545, which supplies the
  stack's send and receive functions.

  The two queues live in memory that driver and device share: a table of descriptors, the ring
  of available buffers that the driver fills and the ring of used buffers that the device
  fills, here the record \<open>vq_mem\<close> (the three views of \<^verbatim>\<open>rx_queue_mem\<close> and \<^verbatim>\<open>tx_queue_mem\<close>, which
  do not overlap).  The ports act on a device state \<open>'d\<close>; the addresses the linker gives to
  buffers and queues are the parameter \<open>vlayout\<close>.  The flag \<open>v_fault\<close> is set when an access
  leaves a buffer or a division by zero traps; the results mean nothing afterwards.

  The device is outside the repository.  What VirtIO requires of it is defined below as steps
  that occur between the driver's operations: it takes a transmit buffer, or fills a receive
  buffer and reports it.  With them each queue is an instance of \<open>input_queue\<close> of four entries.
\<close>

section \<open>State\<close>

record 'd word_io = "'d port_io" +
  inw :: "u16 \<Rightarrow> 'd \<Rightarrow> u16 \<times> 'd"
  outw :: "u16 \<Rightarrow> u16 \<Rightarrow> 'd \<Rightarrow> 'd"

record vq_desc =
  qd_addr :: u64
  qd_len :: u32
  qd_flags :: u16
  qd_next :: u16

record vq_mem =
  q_desc :: "vq_desc list"
  a_flags :: u16
  a_idx :: u16
  a_ring :: "u16 list"
  u_flags :: u16
  u_idx :: u16
  u_ring :: "(u32 \<times> u32) list"

record vlayout =
  rx_buffers_at :: u32
  tx_buffers_at :: u32
  rx_queue_at :: u32
  tx_queue_at :: u32

record 'd virtio =
  v_initialized :: bool
  v_base :: u16
  v_mac :: "u8 list"
  v_rx_bufs :: "u8 list list"
  v_tx_bufs :: "u8 list list"
  v_rx :: vq_mem
  v_tx :: vq_mem
  v_rx_size :: u16
  v_tx_size :: u16
  v_rx_last :: u16
  v_tx_last :: u16
  v_tx_free :: u16
  v_rx_avail :: u16
  v_fault :: bool
  v_log :: "console_event list"
  v_dev :: 'd

definition QUEUE_SIZE :: nat where "QUEUE_SIZE = 4"
definition PKT_BUF_SIZE :: nat where "PKT_BUF_SIZE = 2048"
definition MAX_QUEUE_SIZE :: nat where "MAX_QUEUE_SIZE = 256"
definition NET_HDR_SIZE :: nat where "NET_HDR_SIZE = 10"

lemmas vq_consts = QUEUE_SIZE_def PKT_BUF_SIZE_def MAX_QUEUE_SIZE_def NET_HDR_SIZE_def

definition zero_queue :: vq_mem where
  "zero_queue = \<lparr>q_desc = replicate MAX_QUEUE_SIZE \<lparr>qd_addr = 0, qd_len = 0, qd_flags = 0, qd_next = 0\<rparr>,
     a_flags = 0, a_idx = 0, a_ring = replicate MAX_QUEUE_SIZE 0,
     u_flags = 0, u_idx = 0, u_ring = replicate MAX_QUEUE_SIZE (0, 0)\<rparr>"

text \<open>The static variables at the start of the kernel, with the ports in state \<open>d\<close>.\<close>

definition virtio_start :: "'d \<Rightarrow> 'd virtio" where
  "virtio_start d = \<lparr>v_initialized = False, v_base = 0, v_mac = [0x52, 0x54, 0x00, 0x12, 0x34, 0x56],
     v_rx_bufs = replicate QUEUE_SIZE (replicate PKT_BUF_SIZE 0), v_tx_bufs = replicate QUEUE_SIZE (replicate PKT_BUF_SIZE 0),
     v_rx = zero_queue, v_tx = zero_queue, v_rx_size = 256, v_tx_size = 256, v_rx_last = 0, v_tx_last = 0,
     v_tx_free = 0, v_rx_avail = 0, v_fault = False, v_log = [], v_dev = d\<rparr>"

definition vlog :: "console_event list \<Rightarrow> 'd virtio \<Rightarrow> 'd virtio" where
  "vlog es v = v\<lparr>v_log := v_log v @ es\<rparr>"

definition vport :: "('d \<Rightarrow> 'd) \<Rightarrow> 'd virtio \<Rightarrow> 'd virtio" where
  "vport f v = v\<lparr>v_dev := f (v_dev v)\<rparr>"

definition vfault :: "'a \<Rightarrow> 'd virtio \<Rightarrow> 'a \<times> 'd virtio" where
  "vfault r v = (r, v\<lparr>v_fault := True\<rparr>)"

text \<open>The slot \<^verbatim>\<open>idx % size\<close> of a ring; \<open>None\<close> when the division traps or the slot is outside the ring.\<close>

definition ring_slot_of :: "u16 \<Rightarrow> u16 \<Rightarrow> nat option" where
  "ring_slot_of idx size' =
     (if size' = 0 then None
      else let slot = unat (idx mod size') in if slot < MAX_QUEUE_SIZE then Some slot else None)"

section \<open>Sending\<close>

definition wifi_send :: "'d word_io \<Rightarrow> vlayout \<Rightarrow> u8 list \<Rightarrow> 'd virtio \<Rightarrow> int \<times> 'd virtio" where
  "wifi_send io lay data v =
     (if \<not> v_initialized v \<or> data = [] \<or> length data > PKT_BUF_SIZE - NET_HDR_SIZE then (- 1, v)
      else
        let idx = v_tx_free v; i = unat idx;
            v1 = v\<lparr>v_tx_free := (idx + 1) mod of_nat QUEUE_SIZE\<rparr>
        in if i \<ge> QUEUE_SIZE then vfault (- 1) v1
           else
             let buf = replicate NET_HDR_SIZE 0 @ data @ drop (NET_HDR_SIZE + length data) (v_tx_bufs v1 ! i);
                 desc = \<lparr>qd_addr = ucast (tx_buffers_at lay + of_nat (i * PKT_BUF_SIZE)),
                   qd_len = of_nat (NET_HDR_SIZE + length data), qd_flags = 0, qd_next = 0\<rparr>;
                 v2 = v1\<lparr>v_tx_bufs := (v_tx_bufs v1)[i := buf], v_tx := (v_tx v1)\<lparr>q_desc := (q_desc (v_tx v1))[i := desc]\<rparr>\<rparr>
             in case ring_slot_of (a_idx (v_tx v2)) (v_tx_size v2) of
                  None \<Rightarrow> vfault (- 1) v2
                | Some slot \<Rightarrow>
                    (int (length data),
                     vport (outw io (v_base v2 + 0x10) 1)
                       (v2\<lparr>v_tx := (v_tx v2)\<lparr>a_ring := (a_ring (v_tx v2))[slot := idx], a_idx := a_idx (v_tx v2) + 1\<rparr>\<rparr>)))"

section \<open>Receiving\<close>

definition rx_descriptor :: "vlayout \<Rightarrow> nat \<Rightarrow> vq_desc" where
  "rx_descriptor lay i = \<lparr>qd_addr = ucast (rx_buffers_at lay + of_nat (i * PKT_BUF_SIZE)), qd_len = of_nat PKT_BUF_SIZE,
     qd_flags = 2, qd_next = 0\<rparr>"

text \<open>A buffer goes back to the available ring.\<close>

definition rx_requeue :: "'d word_io \<Rightarrow> nat \<Rightarrow> 'a \<Rightarrow> 'd virtio \<Rightarrow> 'a \<times> 'd virtio" where
  "rx_requeue io i r v =
     (case ring_slot_of (v_rx_avail v) (v_rx_size v) of
        None \<Rightarrow> vfault r v
      | Some slot \<Rightarrow>
          (r, vport (outw io (v_base v + 0x10) 0)
                (v\<lparr>v_rx_avail := v_rx_avail v + 1,
                   v_rx := (v_rx v)\<lparr>a_ring := (a_ring (v_rx v))[slot := of_nat i], a_idx := v_rx_avail v + 1\<rparr>\<rparr>)))"

text \<open>The result and the bytes written to the caller's buffer of \<open>max_len\<close> bytes.\<close>

definition wifi_recv :: "'d word_io \<Rightarrow> vlayout \<Rightarrow> nat \<Rightarrow> 'd virtio \<Rightarrow> (int \<times> u8 list) \<times> 'd virtio" where
  "wifi_recv io lay max_len v =
     (if \<not> v_initialized v \<or> max_len = 0 then ((0, []), v)
      else
        let v0 = vport (\<lambda>d. snd (inb io (v_base v + 0x13) d)) v
        in if u_idx (v_rx v0) - v_rx_last v0 = 0 then ((0, []), v0)
           else case ring_slot_of (v_rx_last v0) (v_rx_size v0) of
               None \<Rightarrow> vfault (0, []) v0
             | Some slot \<Rightarrow>
                 let (desc_idx, total_len) = u_ring (v_rx v0) ! slot; i = unat desc_idx;
                     v1 = v0\<lparr>v_rx_last := v_rx_last v0 + 1\<rparr>
                 in if i \<ge> QUEUE_SIZE then ((0, []), vlog [Puts (lit ''[RX] ERROR: desc_idx out of range!\<newline>'')] v1)
                    else
                      let v2 = v1\<lparr>v_rx := (v_rx v1)\<lparr>q_desc := (q_desc (v_rx v1))[i := rx_descriptor lay i]\<rparr>\<rparr>
                      in if total_len \<le> of_nat NET_HDR_SIZE then rx_requeue io i (0, []) v2
                         else
                           let pkt_len = min (unat (total_len - of_nat NET_HDR_SIZE)) max_len
                           in if NET_HDR_SIZE + pkt_len > PKT_BUF_SIZE then vfault (0, []) v2
                              else rx_requeue io i (int pkt_len, take pkt_len (drop NET_HDR_SIZE (v_rx_bufs v2 ! i))) v2)"

definition three_digits :: "u16 \<Rightarrow> console_event list" where
  "three_digits n = map (\<lambda>k. Putc (48 + ucast (n div k mod 10))) [100, 10, 1]"

definition debug_rx_state :: "'d virtio \<Rightarrow> int \<times> 'd virtio" where
  "debug_rx_state v =
     (if \<not> v_initialized v then (- 1, vlog [Puts (lit ''[DBG] WiFi not initialized!\<newline>'')] v)
      else (0, vlog ([Puts (lit ''[DBG] RX used_idx='')] @ three_digits (u_idx (v_rx v)) @
             [Puts (lit '' last_used='')] @ three_digits (v_rx_last v) @
             [Puts (lit '' avail_idx='')] @ three_digits (a_idx (v_rx v)) @ [Puts (lit ''\<newline>'')]) v))"

section \<open>Initialisation\<close>

definition pci_read :: "'d pci_io \<Rightarrow> nat \<Rightarrow> nat \<Rightarrow> u32 \<Rightarrow> 'd \<Rightarrow> u32 \<times> 'd" where
  "pci_read pio bus slot off d =
     inl pio 0xCFC (outl pio 0xCF8 (0x80000000 OR push_bit 16 (of_nat bus) OR push_bit 11 (of_nat slot) OR (off AND 0xFC)) d)"

text \<open>The two scans of the bus: their loops over buses and slots are a list of positions.\<close>

definition all_slots :: "(nat \<times> nat) list" where
  "all_slots = List.product [0..<256] [0..<32]"

fun find_virtio_net :: "'d pci_io \<Rightarrow> (nat \<times> nat) list \<Rightarrow> 'd \<Rightarrow> u16 \<times> 'd" where
  "find_virtio_net pio [] d = (0, d)"
| "find_virtio_net pio ((bus, slot) # ss) d =
     (let (id, d1) = pci_read pio bus slot 0 d; did = drop_bit 16 id AND 0xFFFF
      in if id AND 0xFFFF = 0x1AF4 \<and> (did = 0x1000 \<or> did = 0x1041)
         then let (cmd, d2) = pci_read pio bus slot 0x04 d1;
                  d3 = outl pio 0xCFC (cmd OR 0x07)
                    (outl pio 0xCF8 (0x80000000 OR push_bit 16 (of_nat bus) OR push_bit 11 (of_nat slot) OR 0x04) d2);
                  (bar, d4) = pci_read pio bus slot 0x10 d3
              in if bar AND 1 \<noteq> 0 then (ucast (bar AND 0xFFFC), d4) else find_virtio_net pio ss d4
         else find_virtio_net pio ss d1)"

fun read_ports :: "'d word_io \<Rightarrow> u16 list \<Rightarrow> 'd \<Rightarrow> u8 list \<times> 'd" where
  "read_ports io [] d = ([], d)"
| "read_ports io (p # ps) d = (let (b, d1) = inb io p d; (bs, d2) = read_ports io ps d1 in (b # bs, d2))"

definition hex_run :: "nat \<Rightarrow> u32 \<Rightarrow> console_event list" where
  "hex_run k n = map (\<lambda>j. Putc (lit ''0123456789ABCDEF'' ! unat (drop_bit (4 * j) n AND 0xF))) (rev [0..<k])"

definition mac_text :: "u8 list \<Rightarrow> console_event list" where
  "mac_text mac = concat (map (\<lambda>i. hex_run 2 (ucast (mac ! i)) @ (if i < 5 then [Putc (chr CHR '':'')] else [])) [0..<6])"

definition setup_virtqueue :: "'d word_io \<Rightarrow> u16 \<Rightarrow> u32 \<Rightarrow> 'd pci_io \<Rightarrow> 'd virtio \<Rightarrow> u16 \<times> 'd virtio" where
  "setup_virtqueue io queue_idx queue_addr pio v =
     (let v1 = vport (outw io (v_base v + 0x0E) queue_idx) v;
          (qsz, d1) = inw io (v_base v + 0x0C) (v_dev v1);
          pfn = queue_addr div 4096;
          v2 = vlog ([Puts (lit ''[NET] Queue ''), Putc (48 + ucast queue_idx), Puts (lit '' size='')] @ three_digits qsz @
                 [Puts (lit '' PFN=0x'')] @ hex_run 8 pfn @ [Puts (lit ''\<newline>'')]) (v1\<lparr>v_dev := d1\<rparr>)
      in (qsz, vport (outl pio (v_base v + 0x08) pfn) v2))"

text \<open>The receive queue with its four buffers available.\<close>

definition rx_queue_start :: "vlayout \<Rightarrow> vq_mem" where
  "rx_queue_start lay = zero_queue\<lparr>
     q_desc := map (rx_descriptor lay) [0..<QUEUE_SIZE] @ drop QUEUE_SIZE (q_desc zero_queue),
     a_ring := map of_nat [0..<QUEUE_SIZE] @ drop QUEUE_SIZE (a_ring zero_queue), a_flags := 0, a_idx := of_nat QUEUE_SIZE\<rparr>"

text \<open>Reset, status and feature bits, and the hardware address.\<close>

definition negotiate :: "'d word_io \<Rightarrow> 'd pci_io \<Rightarrow> 'd virtio \<Rightarrow> 'd virtio" where
  "negotiate io pio v =
     (let s = v_base v + 0x12;
          d1 = outb io s 3 (outb io s 1 (outb io s 0 (v_dev v)));
          (features, d2) = inl pio (v_base v) d1;
          d3 = outb io s 11 (outl pio (v_base v + 0x04) (features AND 0x20) d2);
          (mac, d4) = read_ports io (map (\<lambda>i. v_base v + 0x14 + of_nat i) [0..<6]) d3
      in vlog ([Puts (lit ''[NET] MAC: '')] @ mac_text mac @ [Puts (lit ''\<newline>'')]) (v\<lparr>v_mac := mac, v_dev := d4\<rparr>))"

definition start_queues :: "'d word_io \<Rightarrow> 'd pci_io \<Rightarrow> vlayout \<Rightarrow> 'd virtio \<Rightarrow> 'd virtio" where
  "start_queues io pio lay v =
     (let v1 = vlog [Puts (lit ''[NET] Setting up RX queue memory...\<newline>''), Puts (lit ''[NET] Setting up TX queue memory...\<newline>'')]
                 (v\<lparr>v_rx := rx_queue_start lay, v_tx := zero_queue, v_rx_avail := of_nat QUEUE_SIZE, v_rx_last := 0,
                    v_tx_last := 0, v_tx_free := 0\<rparr>);
          (rxs, v2) = setup_virtqueue io 0 (rx_queue_at lay) pio v1;
          (txs, v3) = setup_virtqueue io 1 (tx_queue_at lay) pio (v2\<lparr>v_rx_size := rxs\<rparr>);
          v4 = vport (outb io (v_base v + 0x12) 15) (v3\<lparr>v_tx_size := txs\<rparr>)
      in vport (outw io (v_base v + 0x10) 0) (vlog [Puts (lit ''[NET] Notifying RX queue...\<newline>'')] v4))"

text \<open>
  The static \<^verbatim>\<open>net_iface\<close>, which is zero at the start, and as the driver fills it in: name, hardware
  address, link and functions are set, addresses and statistics stay as they are.  The driver is
  given the record \<open>f\<close> as it is before the call.  The stack's table holds pointers to this one
  record and the model's table copies of it, so the model is one of a single registration.
\<close>

definition iface_at_boot :: "'w iface" where
  "iface_at_boot = \<lparr>if_name = replicate 16 0, if_mac = replicate 6 0, if_ip = 0, if_netmask = 0, if_gateway = 0,
     if_dns = 0, if_link_up = False, tx_packets = 0, rx_packets = 0, tx_bytes = 0, rx_bytes = 0, tx_errors = 0, rx_errors = 0,
     send_packet = None, recv_packet = None\<rparr>"

definition net_iface :: "'d word_io \<Rightarrow> vlayout \<Rightarrow> u8 list \<Rightarrow> 'd virtio iface \<Rightarrow> 'd virtio iface" where
  "net_iface io lay mac f = f\<lparr>if_name := lit ''eth0'' @ [0] @ drop 5 (if_name f), if_mac := mac, if_link_up := True,
     send_packet := Some (wifi_send io lay), recv_packet := Some (wifi_recv io lay)\<rparr>"

definition wifi_driver_init ::
  "'d word_io \<Rightarrow> 'd pci_io \<Rightarrow> vlayout \<Rightarrow> 'd virtio iface \<Rightarrow> 'd virtio net \<Rightarrow> int \<times> 'd virtio net" where
  "wifi_driver_init io pio lay f st =
     (let v0 = vlog [Puts (lit ''[NET] Initializing VirtIO-Net driver...\<newline>'')] (n_world st);
          (base, d1) = find_virtio_net pio all_slots (v_dev v0);
          v1 = v0\<lparr>v_base := base, v_dev := d1\<rparr>
      in if base = 0 then (- 1, st\<lparr>n_world := vlog [Puts (lit ''[NET] ERROR: VirtIO-Net device not found!\<newline>'')] v1\<rparr>)
         else
           let v2 = vlog ([Puts (lit ''[NET] Found device at I/O base 0x'')] @ hex_run 4 (ucast base) @ [Puts (lit ''\<newline>'')]) v1;
               v3 = start_queues io pio lay (negotiate io pio v2);
               (r, st1) = netif_register (net_iface io lay (v_mac v3) f) (st\<lparr>n_world := v3\<rparr>)
           in (0, st1\<lparr>n_world := vlog [Puts (lit ''[NET] Driver initialized successfully!\<newline>'')]
                    ((n_world st1)\<lparr>v_initialized := True\<rparr>)\<rparr>))"

definition wifi_driver_test ::
  "'d word_io \<Rightarrow> 'd pci_io \<Rightarrow> vlayout \<Rightarrow> 'd virtio iface \<Rightarrow> 'd virtio net \<Rightarrow> int \<times> 'd virtio net" where
  "wifi_driver_test io pio lay f st =
     (let st0 = st\<lparr>n_world := vlog [Puts (lit ''\<newline>=== WiFi Driver Test ===\<newline>'')] (n_world st)\<rparr>;
          (r, st1) = (if v_initialized (n_world st0) then (0, st0) else wifi_driver_init io pio lay f st0)
      in if r \<noteq> 0 then (- 1, st1\<lparr>n_world := vlog [Puts (lit ''FAILED\<newline>'')] (n_world st1)\<rparr>)
         else (0, st1\<lparr>n_world := vlog ([Puts (lit ''Status: CONNECTED\<newline>MAC: '')] @ mac_text (v_mac (n_world st1)) @
                [Puts (lit ''\<newline>=== Test Complete ===\<newline>'')]) (n_world st1)\<rparr>))"

definition wifi_get_mac :: "u32 \<Rightarrow> 'd virtio \<Rightarrow> int \<times> u8 list" where
  "wifi_get_mac mac v = (if mac = 0 then (- 1, []) else (0, map (\<lambda>i. v_mac v ! i) [0..<6]))"

definition wifi_is_connected :: "'d virtio \<Rightarrow> int" where
  "wifi_is_connected v = (if v_initialized v then 1 else 0)"

definition wifi_driver_shutdown :: "'d virtio \<Rightarrow> 'd virtio" where
  "wifi_driver_shutdown v = v\<lparr>v_initialized := False\<rparr>"

section \<open>The device\<close>

text \<open>
  The device side of the transmit queue.  \<open>la\<close> is the device's count of the buffers it has taken.
  It takes the next available buffer, reads header and frame at the descriptor's address and
  reports the buffer in the used ring.
\<close>

definition buffer_index :: "u32 \<Rightarrow> u64 \<Rightarrow> nat" where
  "buffer_index base addr = unat (ucast addr - base :: u32) div PKT_BUF_SIZE"

definition report_used :: "u32 \<Rightarrow> u32 \<Rightarrow> u16 \<Rightarrow> vq_mem \<Rightarrow> vq_mem" where
  "report_used i len size' q = q\<lparr>u_ring := (u_ring q)[unat (u_idx q mod size') := (i, len)], u_idx := u_idx q + 1\<rparr>"

definition dev_transmit :: "vlayout \<Rightarrow> u16 \<times> 'd virtio \<Rightarrow> u8 list option \<times> u16 \<times> 'd virtio" where
  "dev_transmit lay s = (case s of (la, v) \<Rightarrow>
     if a_idx (v_tx v) = la then (None, la, v)
     else let i = a_ring (v_tx v) ! unat (la mod v_tx_size v);
              desc = q_desc (v_tx v) ! unat i;
              buf = v_tx_bufs v ! buffer_index (tx_buffers_at lay) (qd_addr desc)
          in (Some (drop NET_HDR_SIZE (take (unat (qd_len desc)) buf)), la + 1,
              v\<lparr>v_tx := report_used (ucast i) 0 (v_tx_size v) (v_tx v)\<rparr>))"

text \<open>
  The receive queue: a frame from the network goes with an empty header to the next available
  buffer; without one the device drops it.
\<close>

definition dev_deliver :: "vlayout \<Rightarrow> u8 list \<Rightarrow> u16 \<times> 'd virtio \<Rightarrow> u16 \<times> 'd virtio" where
  "dev_deliver lay frame s = (case s of (la, v) \<Rightarrow>
     if a_idx (v_rx v) = la then (la, v)
     else let i = a_ring (v_rx v) ! unat (la mod v_rx_size v);
              b = buffer_index (rx_buffers_at lay) (qd_addr (q_desc (v_rx v) ! unat i));
              buf = replicate NET_HDR_SIZE 0 @ frame @ drop (NET_HDR_SIZE + length frame) (v_rx_bufs v ! b)
          in (la + 1, v\<lparr>v_rx_bufs := (v_rx_bufs v)[b := buf],
                v_rx := report_used (ucast i) (of_nat (NET_HDR_SIZE + length frame)) (v_rx_size v) (v_rx v)\<rparr>))"

section \<open>The transmit queue\<close>

definition frame_fits :: "u8 list \<Rightarrow> bool" where
  "frame_fits f \<longleftrightarrow> f \<noteq> [] \<and> length f \<le> 2038"

definition queue_shape :: "vq_mem \<Rightarrow> u8 list list \<Rightarrow> bool" where
  "queue_shape q bufs \<longleftrightarrow> length (q_desc q) = 256 \<and> length (a_ring q) = 256 \<and> length (u_ring q) = 256 \<and>
     length bufs = 4 \<and> (\<forall>b \<in> set bufs. length b = 2048)"

definition tx_waiting :: "u16 \<times> 'd virtio \<Rightarrow> nat" where
  "tx_waiting s = unat (a_idx (v_tx (snd s)) - fst s)"

definition tx_desc_ok :: "vlayout \<Rightarrow> vq_mem \<Rightarrow> nat \<Rightarrow> bool" where
  "tx_desc_ok lay q i \<longleftrightarrow> qd_addr (q_desc q ! i) = ucast (tx_buffers_at lay + of_nat (i * 2048))"

definition tx_ok :: "vlayout \<Rightarrow> u16 \<times> 'd virtio \<Rightarrow> bool" where
  "tx_ok lay s \<longleftrightarrow> (case s of (la, v) \<Rightarrow>
     v_initialized v \<and> \<not> v_fault v \<and> v_tx_size v = 256 \<and> queue_shape (v_tx v) (v_tx_bufs v) \<and>
     unat (v_tx_free v) = unat (a_idx (v_tx v)) mod 4 \<and> tx_waiting s \<le> 4 \<and>
     (\<forall>j < tx_waiting s. a_ring (v_tx v) ! ((unat la + j) mod 256) = of_nat ((unat la + j) mod 4) \<and>
        tx_desc_ok lay (v_tx v) ((unat la + j) mod 4)))"

definition tx_frame :: "'d virtio \<Rightarrow> nat \<Rightarrow> u8 list" where
  "tx_frame v i = drop 10 (take (unat (qd_len (q_desc (v_tx v) ! i))) (v_tx_bufs v ! i))"

definition tx_view :: "u16 \<times> 'd virtio \<Rightarrow> u8 list list" where
  "tx_view s = map (\<lambda>j. tx_frame (snd s) ((unat (fst s) + j) mod 4)) [0..<tx_waiting s]"

lemma u16_window:
  fixes k :: u16
  assumes "m dvd 65536"
  shows "unat (k + of_nat j) mod m = (unat k + j) mod m"
proof -
  have "unat (k + of_nat j) = (unat k + j) mod 65536"
    by (simp add: unat_word_ariths unat_of_nat mod_add_right_eq)
  then show ?thesis using assms by (simp add: mod_mod_cancel)
qed

lemma u16_count:
  fixes a la :: u16
  assumes "unat (a - la) = n"
  shows "a = la + of_nat n"
  using assms [symmetric] by simp

lemma window_distinct:
  fixes k :: nat
  assumes "i < j" and "j - i < m"
  shows "(k + i) mod m \<noteq> (k + j) mod m"
proof
  assume "(k + i) mod m = (k + j) mod m"
  then have "m dvd (k + j) - (k + i)" using assms(1) by (metis add_le_mono1 add.commute less_imp_le mod_eq_dvd_iff_nat)
  then show False using assms by (simp add: nat_dvd_not_less)
qed

lemma u32_via_u64: "ucast (ucast x :: u64) = (x :: u32)"
  by (rule bit_word_eqI) (simp add: bit_simps)

lemma buffer_index_at: "i < 4 \<Longrightarrow> buffer_index base (ucast (base + of_nat (i * 2048) :: u32)) = i"
proof -
  assume i: "i < 4"
  have "(ucast (ucast (base + of_nat (i * 2048) :: u32) :: u64) :: u32) - base = of_nat (i * 2048)" by (simp only: u32_via_u64) simp
  moreover have "unat (of_nat (i * 2048) :: u32) = i * 2048" using i unfolding unat_of_nat by simp
  ultimately show ?thesis by (simp add: buffer_index_def PKT_BUF_SIZE_def)
qed

lemma ring_slot_of_256: "ring_slot_of idx 256 = Some (unat idx mod 256)"
  by (simp add: ring_slot_of_def Let_def unat_mod_distrib MAX_QUEUE_SIZE_def)

lemma tx_ok_index:
  assumes "tx_ok lay (la, v)"
  shows "unat (a_idx (v_tx v)) mod 4 = (unat la + tx_waiting (la, v)) mod 4"
    and "unat (a_idx (v_tx v)) mod 256 = (unat la + tx_waiting (la, v)) mod 256"
  using u16_window [of 4 la "tx_waiting (la, v)"] u16_window [of 256 la "tx_waiting (la, v)"] u16_count [of "a_idx (v_tx v)" la "tx_waiting (la, v)"]
  by (simp_all add: tx_waiting_def)

lemma waiting_Suc:
  fixes a la :: u16
  assumes "unat (a - la) < 4"
  shows "unat (a + 1 - la) = Suc (unat (a - la))"
proof -
  have e: "a + 1 - la = 1 + (a - la)" by simp
  show ?thesis unfolding e using assms unat_of_nat [of "Suc (unat (a - la))", where 'a = 16] by simp
qed

text \<open>What a send does to the state of a queue with room.\<close>

lemma tx_send_state:
  assumes "tx_ok lay (la, v)" and "frame_fits f"
  defines "i \<equiv> unat (v_tx_free v)"
  shows "wifi_send io lay f v = (int (length f), vport (outw io (v_base v + 0x10) 1)
    (v\<lparr>v_tx_free := (v_tx_free v + 1) mod 4,
       v_tx_bufs := (v_tx_bufs v)[i := replicate 10 0 @ f @ drop (10 + length f) (v_tx_bufs v ! i)],
       v_tx := (v_tx v)\<lparr>
         q_desc := (q_desc (v_tx v))[i := \<lparr>qd_addr = ucast (tx_buffers_at lay + of_nat (i * 2048)),
           qd_len = of_nat (10 + length f), qd_flags = 0, qd_next = 0\<rparr>],
         a_ring := (a_ring (v_tx v))[unat (a_idx (v_tx v)) mod 256 := v_tx_free v],
         a_idx := a_idx (v_tx v) + 1\<rparr>\<rparr>))"
proof -
  have "v_initialized v" "v_tx_size v = 256" "i < 4" "f \<noteq> []" "length f \<le> 2038"
    using assms by (auto simp: tx_ok_def frame_fits_def i_def)
  then show ?thesis
    by (simp add: wifi_send_def vq_consts Let_def ring_slot_of_256 i_def [symmetric])
qed

definition tx_put :: "'d word_io \<Rightarrow> vlayout \<Rightarrow> u8 list \<Rightarrow> u16 \<times> 'd virtio \<Rightarrow> u16 \<times> 'd virtio" where
  "tx_put io lay f s = (fst s, snd (wifi_send io lay f (snd s)))"

lemma tx_put_step:
  fixes io :: "'d word_io" and v :: "'d virtio"
  assumes ok: "tx_ok lay (la, v)" and f: "frame_fits f" and room: "tx_waiting (la, v) < 4"
  defines "s1 \<equiv> tx_put io lay f (la, v)"
  shows "tx_ok lay s1 \<and> tx_view s1 = tx_view (la, v) @ [f]"
proof -
  define n where "n = tx_waiting (la, v)"
  define i where "i = unat (v_tx_free v)"
  have i: "i = (unat la + n) mod 4" "i < 4" and slot: "unat (a_idx (v_tx v)) mod 256 = (unat la + n) mod 256"
    using ok tx_ok_index [OF ok] by (auto simp: tx_ok_def i_def n_def)
  have free: "v_tx_free v = of_nat i" by (simp add: i_def)
  note st = tx_send_state [OF ok f, where io = io, folded i_def, unfolded slot]
  have len: "unat (of_nat (10 + length f) :: u32) = 10 + length f"
    using f unfolding unat_of_nat by (simp add: frame_fits_def)
  have w: "tx_waiting s1 = Suc n"
    using room waiting_Suc [of "a_idx (v_tx v)" la] st by (simp add: s1_def tx_put_def tx_waiting_def vport_def n_def)
  have sh: "queue_shape (v_tx v) (v_tx_bufs v)" using ok by (simp add: tx_ok_def)
  have new: "tx_frame (snd s1) i = f"
    using st sh i(2) len by (simp add: s1_def tx_put_def tx_frame_def vport_def queue_shape_def)
  have dist: "(unat la + j) mod 4 \<noteq> (unat la + n) mod 4" "(unat la + j) mod 256 \<noteq> (unat la + n) mod 256" if "j < n" for j
    using window_distinct [of j n 4 "unat la"] window_distinct [of j n 256 "unat la"] that room by (simp_all add: n_def)
  have old: "tx_frame (snd s1) ((unat la + j) mod 4) = tx_frame v ((unat la + j) mod 4)" if "j < n" for j
    using st dist(1) [OF that, folded i(1)] by (simp add: s1_def tx_put_def tx_frame_def vport_def)
  have view: "tx_view s1 = tx_view (la, v) @ [f]"
    using w old new i(1) by (simp add: tx_view_def n_def [symmetric] s1_def tx_put_def)
  have ring: "a_ring (v_tx (snd s1)) ! ((unat la + j) mod 256) = of_nat ((unat la + j) mod 4) \<and> tx_desc_ok lay (v_tx (snd s1)) ((unat la + j) mod 4)"
    if "j < Suc n" for j
  proof (cases "j = n")
    case True
    then show ?thesis using st sh i free by (simp add: s1_def tx_put_def vport_def queue_shape_def tx_desc_ok_def)
  next
    case False
    then have j: "j < n" using that by simp
    then have "a_ring (v_tx v) ! ((unat la + j) mod 256) = of_nat ((unat la + j) mod 4) \<and> tx_desc_ok lay (v_tx v) ((unat la + j) mod 4)"
      using ok by (simp add: tx_ok_def n_def)
    then show ?thesis
      using st dist(1) [OF j, folded i(1)] dist(2) [OF j] by (simp add: s1_def tx_put_def vport_def tx_desc_ok_def)
  qed
  have "unat ((v_tx_free v + 1) mod 4) = unat (a_idx (v_tx v) + 1) mod 4"
  proof -
    have "unat (v_tx_free v + of_nat 1) mod 4 = (unat (v_tx_free v) + 1) mod 4" by (rule u16_window) simp
    moreover have "unat (a_idx (v_tx v) + of_nat 1) mod 4 = (unat (a_idx (v_tx v)) + 1) mod 4" by (rule u16_window) simp
    moreover have "unat (v_tx_free v) = unat (a_idx (v_tx v)) mod 4" using ok by (simp add: tx_ok_def)
    ultimately show ?thesis by (simp add: unat_mod_distrib mod_simps)
  qed
  moreover have "queue_shape (v_tx (snd s1)) (v_tx_bufs (snd s1))"
    using st sh f i(2) nth_mem [of i "v_tx_bufs v"] by (auto simp: s1_def tx_put_def vport_def queue_shape_def frame_fits_def dest!: set_update_subset_insert [THEN subsetD])
  ultimately have "tx_ok lay s1"
    using ok st ring w room by (simp add: tx_ok_def s1_def tx_put_def vport_def n_def)
  with view show ?thesis by blast
qed

lemma dev_transmit_step:
  assumes ok: "tx_ok lay (la, v)"
  shows "tx_waiting (la, v) = 0 \<Longrightarrow> dev_transmit lay (la, v) = (None, la, v)"
    and "0 < tx_waiting (la, v) \<Longrightarrow> \<exists>s1. dev_transmit lay (la, v) = (Some (hd (tx_view (la, v))), s1) \<and> tx_ok lay s1 \<and>
      tx_view s1 = tl (tx_view (la, v))"
proof -
  assume "tx_waiting (la, v) = 0"
  then have "a_idx (v_tx v) = la" using u16_count [of "a_idx (v_tx v)" la 0] by (simp add: tx_waiting_def)
  then show "dev_transmit lay (la, v) = (None, la, v)" by (simp add: dev_transmit_def)
next
  assume pos: "0 < tx_waiting (la, v)"
  then obtain n where n: "tx_waiting (la, v) = Suc n" by (metis gr0_implies_Suc)
  define i where "i = unat la mod 4"
  have i4: "i < 4" by (simp add: i_def)
  have ne: "a_idx (v_tx v) \<noteq> la" using pos by (auto simp: tx_waiting_def)
  have "a_ring (v_tx v) ! (unat la mod 256) = of_nat i \<and> tx_desc_ok lay (v_tx v) i"
    using ok pos unfolding tx_ok_def i_def by force
  moreover have "unat (of_nat i :: u16) = i" using i4 unfolding unat_of_nat by simp
  moreover have "v_tx_size v = 256" using ok by (simp add: tx_ok_def)
  ultimately have st: "dev_transmit lay (la, v) = (Some (tx_frame v i), la + 1, v\<lparr>v_tx := report_used (ucast (of_nat i :: u16)) 0 256 (v_tx v)\<rparr>)"
    using ne buffer_index_at [OF i4] by (simp add: dev_transmit_def Let_def unat_mod_distrib tx_desc_ok_def tx_frame_def NET_HDR_SIZE_def)
  define s1 where "s1 = (la + 1, v\<lparr>v_tx := report_used (ucast (of_nat i :: u16)) 0 256 (v_tx v)\<rparr>)"
  have w: "tx_waiting s1 = n"
  proof -
    have "a_idx (v_tx v) - (la + 1) = of_nat n"
      using u16_count [of "a_idx (v_tx v)" la "Suc n"] n by (simp add: tx_waiting_def)
    moreover have "n < 4" using ok n by (simp add: tx_ok_def)
    ultimately show ?thesis using unat_of_nat [of n, where 'a = 16] by (simp add: s1_def tx_waiting_def report_used_def)
  qed
  have idx: "(unat (la + 1) + j) mod m = (unat la + Suc j) mod m" if "m dvd 65536" for j m
    using u16_window [OF that, of "la + 1" j] u16_window [OF that, of la "Suc j"] by (simp add: algebra_simps)
  have "\<forall>j < n. a_ring (v_tx v) ! ((unat (la + 1) + j) mod 256) = of_nat ((unat (la + 1) + j) mod 4) \<and>
      tx_desc_ok lay (v_tx v) ((unat (la + 1) + j) mod 4)"
  proof (intro allI impI)
    fix j
    assume "j < n"
    then have "Suc j < tx_waiting (la, v)" using n by simp
    then have "a_ring (v_tx v) ! ((unat la + Suc j) mod 256) = of_nat ((unat la + Suc j) mod 4) \<and> tx_desc_ok lay (v_tx v) ((unat la + Suc j) mod 4)"
      using ok unfolding tx_ok_def by blast
    then show "a_ring (v_tx v) ! ((unat (la + 1) + j) mod 256) = of_nat ((unat (la + 1) + j) mod 4) \<and>
        tx_desc_ok lay (v_tx v) ((unat (la + 1) + j) mod 4)"
      using idx [of 4 j] idx [of 256 j] by simp
  qed
  then have "tx_ok lay s1"
    using ok w n by (simp add: tx_ok_def s1_def report_used_def queue_shape_def tx_desc_ok_def)
  moreover have "tx_view (la, v) = tx_frame v i # tx_view s1"
    using n w idx [of 4] by (simp add: tx_view_def upt_0_Suc i_def s1_def tx_frame_def report_used_def del: upt_Suc)
  ultimately show "\<exists>s1. dev_transmit lay (la, v) = (Some (hd (tx_view (la, v))), s1) \<and> tx_ok lay s1 \<and> tx_view s1 = tl (tx_view (la, v))"
    using st by (simp add: s1_def)
qed

lemma tx_view_length [simp]: "length (tx_view s) = tx_waiting s"
  by (simp add: tx_view_def)

interpretation vio_tx: input_queue "tx_put io lay" "dev_transmit lay" tx_view "tx_ok lay" frame_fits 4
  for io :: "'d word_io" and lay
proof (unfold_locales, goal_cases)
  case (1 s x)
  then show ?case using tx_put_step [of lay "fst s" "snd s" x io] by simp
next
  case (2 s x)
  then show ?case using tx_put_step [of lay "fst s" "snd s" x io] by simp
next
  case (3 s)
  then have "tx_waiting s = 0" using tx_view_length [of s] by simp
  then show ?case using 3 dev_transmit_step(1) [of lay "fst s" "snd s"] by simp
next
  case (4 s x xs)
  then have "0 < tx_waiting s" using tx_view_length [of s] by simp
  then show ?case using 4 dev_transmit_step(2) [of lay "fst s" "snd s"] by simp
qed

section \<open>The receive queue\<close>

text \<open>
  Positions count the buffers the driver has taken back, modulo \<open>2\<^sup>1\<^sup>6\<close>; buffer and slot of a
  position are its remainders by 4 and by 256.  From the position \<open>v_rx_last\<close> on, \<open>rx_waiting\<close>
  buffers hold frames and the rest of the four are available.
\<close>

definition rx_waiting :: "'d virtio \<Rightarrow> nat" where
  "rx_waiting v = unat (u_idx (v_rx v) - v_rx_last v)"

definition rx_slot_ok :: "'d virtio \<Rightarrow> nat \<Rightarrow> nat \<Rightarrow> bool" where
  "rx_slot_ok v n j \<longleftrightarrow> (let k = unat (v_rx_last v) + j in
     if j < n then fst (u_ring (v_rx v) ! (k mod 256)) = of_nat (k mod 4) \<and> 10 < unat (snd (u_ring (v_rx v) ! (k mod 256))) \<and>
       unat (snd (u_ring (v_rx v) ! (k mod 256))) \<le> 2048
     else a_ring (v_rx v) ! (k mod 256) = of_nat (k mod 4))"

definition rx_ok :: "vlayout \<Rightarrow> u16 \<times> 'd virtio \<Rightarrow> bool" where
  "rx_ok lay s \<longleftrightarrow> (case s of (la, v) \<Rightarrow>
     v_initialized v \<and> \<not> v_fault v \<and> v_rx_size v = 256 \<and> queue_shape (v_rx v) (v_rx_bufs v) \<and>
     la = u_idx (v_rx v) \<and> v_rx_avail v = a_idx (v_rx v) \<and> a_idx (v_rx v) = v_rx_last v + 4 \<and> rx_waiting v \<le> 4 \<and>
     (\<forall>i < 4. q_desc (v_rx v) ! i = rx_descriptor lay i) \<and> (\<forall>j < 4. rx_slot_ok v (rx_waiting v) j))"

definition rx_frame :: "'d virtio \<Rightarrow> nat \<Rightarrow> u8 list" where
  "rx_frame v k = drop 10 (take (unat (snd (u_ring (v_rx v) ! (k mod 256)))) (v_rx_bufs v ! (k mod 4)))"

definition rx_view :: "u16 \<times> 'd virtio \<Rightarrow> u8 list list" where
  "rx_view s = map (\<lambda>j. rx_frame (snd s) (unat (v_rx_last (snd s)) + j)) [0..<rx_waiting (snd s)]"

lemma rx_view_length [simp]: "length (rx_view s) = rx_waiting (snd s)"
  by (simp add: rx_view_def)

lemma small_cast: "q < 4 \<Longrightarrow> (ucast (of_nat q :: u16) :: u32) = of_nat q"
proof -
  assume "q < 4"
  then consider "q = 0" | "q = 1" | "q = 2" | "q = 3" by linarith
  then show ?thesis by cases simp_all
qed

lemma dev_deliver_state:
  assumes ok: "rx_ok lay (la, v)" and room: "rx_waiting v < 4"
  defines "k \<equiv> unat (v_rx_last v) + rx_waiting v"
  shows "dev_deliver lay f (la, v) = (la + 1,
    v\<lparr>v_rx_bufs := (v_rx_bufs v)[k mod 4 := replicate 10 0 @ f @ drop (10 + length f) (v_rx_bufs v ! (k mod 4))],
      v_rx := (v_rx v)\<lparr>u_ring := (u_ring (v_rx v))[k mod 256 := (of_nat (k mod 4), of_nat (10 + length f))],
        u_idx := u_idx (v_rx v) + 1\<rparr>\<rparr>)"
proof -
  define n where "n = rx_waiting v"
  have k: "k = unat (v_rx_last v) + n" by (simp add: k_def n_def)
  have u: "u_idx (v_rx v) = la" using ok by (simp add: rx_ok_def)
  have "u_idx (v_rx v) = v_rx_last v + of_nat n" by (rule u16_count) (simp add: n_def rx_waiting_def)
  then have la: "la = v_rx_last v + of_nat n" using u by simp
  have slot: "unat la mod 256 = k mod 256"
    using u16_window [of 256 "v_rx_last v" n] la k by simp
  have "of_nat n \<noteq> (4 :: u16)"
  proof
    assume "of_nat n = (4 :: u16)"
    then have "unat (of_nat n :: u16) = 4" by simp
    then show False using room unat_of_nat [of n, where 'a = 16] by (simp add: n_def)
  qed
  moreover have "a_idx (v_rx v) = v_rx_last v + 4" using ok by (simp add: rx_ok_def)
  ultimately have ne: "a_idx (v_rx v) \<noteq> la" using la by simp
  have "rx_slot_ok v n n" using ok room by (simp add: rx_ok_def n_def)
  then have ring: "a_ring (v_rx v) ! (k mod 256) = of_nat (k mod 4)" by (simp add: rx_slot_ok_def k_def Let_def n_def)
  have kk: "unat (of_nat (k mod 4) :: u16) = k mod 4" unfolding unat_of_nat by simp
  have addr: "buffer_index (rx_buffers_at lay) (qd_addr (q_desc (v_rx v) ! (k mod 4))) = k mod 4"
  proof -
    have "q_desc (v_rx v) ! (k mod 4) = rx_descriptor lay (k mod 4)" using ok by (simp add: rx_ok_def)
    then show ?thesis using buffer_index_at [of "k mod 4" "rx_buffers_at lay"] by (simp add: rx_descriptor_def PKT_BUF_SIZE_def)
  qed
  have cast: "(ucast (of_nat (k mod 4) :: u16) :: u32) = of_nat (k mod 4)"
    by (rule small_cast) simp
  have size': "v_rx_size v = 256" using ok by (simp add: rx_ok_def)
  show ?thesis
    using ne unfolding dev_deliver_def Let_def prod.case size' unat_mod_distrib
    by (simp add: slot ring kk addr cast report_used_def u NET_HDR_SIZE_def unat_mod_distrib)
qed

lemma dev_deliver_step:
  assumes ok: "rx_ok lay (la, v)" and f: "frame_fits f" and room: "rx_waiting v < 4"
  defines "s1 \<equiv> dev_deliver lay f (la, v)"
  shows "rx_ok lay s1 \<and> rx_view s1 = rx_view (la, v) @ [f]"
proof -
  define n where "n = rx_waiting v"
  define L where "L = unat (v_rx_last v)"
  define k where "k = L + n"
  note st = dev_deliver_state [OF ok room, of f, folded n_def, folded L_def, folded k_def]
  have n: "n < 4" using room by (simp add: n_def)
  have sh: "queue_shape (v_rx v) (v_rx_bufs v)" and same: "v_rx_last (snd s1) = v_rx_last v" "a_ring (v_rx (snd s1)) = a_ring (v_rx v)"
    using ok st by (simp_all add: rx_ok_def s1_def)
  have len: "unat (of_nat (10 + length f) :: u32) = 10 + length f"
    using f unfolding unat_of_nat by (simp add: frame_fits_def)
  have w: "rx_waiting (snd s1) = Suc n"
    using room waiting_Suc [of "u_idx (v_rx v)" "v_rx_last v"] st by (simp add: s1_def rx_waiting_def n_def)
  have new: "rx_frame (snd s1) k = f"
    using st sh len by (simp add: s1_def rx_frame_def queue_shape_def)
  have dist: "(L + j) mod 4 \<noteq> k mod 4" "(L + j) mod 256 \<noteq> k mod 256" if "j < n" for j
    using window_distinct [of j n 4 L] window_distinct [of j n 256 L] that n by (simp_all add: k_def)
  have old: "rx_frame (snd s1) (L + j) = rx_frame v (L + j)" if "j < n" for j
    using st dist [OF that] by (simp add: s1_def rx_frame_def)
  have view: "rx_view s1 = rx_view (la, v) @ [f]"
    using w old new same(1) by (simp add: rx_view_def n_def [symmetric] L_def [symmetric] k_def [symmetric])
  have slots: "rx_slot_ok (snd s1) (Suc n) j" if j: "j < 4" for j
  proof -
    have o: "rx_slot_ok v n j" using ok j by (simp add: rx_ok_def n_def)
    consider "j < n" | "j = n" | "n < j" by linarith
    then show ?thesis
    proof cases
      case 1
      have u: "u_ring (v_rx (snd s1)) ! ((L + j) mod 256) = u_ring (v_rx v) ! ((L + j) mod 256)"
        using st dist(2) [OF 1] by (simp add: s1_def)
      show ?thesis using o 1 unfolding rx_slot_ok_def same L_def [symmetric] Let_def u by simp
    next
      case 2
      have u: "u_ring (v_rx (snd s1)) ! ((L + j) mod 256) = (of_nat ((L + j) mod 4), of_nat (10 + length f))"
        using st sh 2 by (simp add: s1_def queue_shape_def k_def)
      show ?thesis using 2 f unfolding rx_slot_ok_def same L_def [symmetric] Let_def u fst_conv snd_conv len by (simp add: frame_fits_def)
    next
      case 3
      then show ?thesis using o by (simp add: rx_slot_ok_def same Let_def)
    qed
  qed
  have "queue_shape (v_rx (snd s1)) (v_rx_bufs (snd s1))"
    using st sh f nth_mem [of "k mod 4" "v_rx_bufs v"]
    by (auto simp: s1_def queue_shape_def frame_fits_def dest!: set_update_subset_insert [THEN subsetD])
  then have "rx_ok lay s1" using ok st slots w n by (simp add: rx_ok_def s1_def)
  with view show ?thesis by blast
qed

text \<open>A receive from a queue with a frame, for a buffer of \<open>m\<close> bytes.\<close>

lemma rx_recv_state:
  assumes ok: "rx_ok lay (la, v)" and pos: "0 < rx_waiting v" and m: "0 < m"
  defines "L \<equiv> unat (v_rx_last v)"
  shows "\<exists>d1. wifi_recv io lay m v = ((int (min (length (rx_frame v L)) m), take m (rx_frame v L)),
    v\<lparr>v_rx_last := v_rx_last v + 1, v_rx_avail := v_rx_avail v + 1, v_dev := d1,
      v_rx := (v_rx v)\<lparr>a_ring := (a_ring (v_rx v))[(L + 4) mod 256 := of_nat (L mod 4)], a_idx := v_rx_avail v + 1\<rparr>\<rparr>)"
proof -
  define len where "len = snd (u_ring (v_rx v) ! (L mod 256))"
  have "rx_slot_ok v (rx_waiting v) 0" using ok by (simp add: rx_ok_def)
  then have s: "u_ring (v_rx v) ! (L mod 256) = (of_nat (L mod 4), len)" "10 < unat len" "unat len \<le> 2048"
    using pos by (auto simp: rx_slot_ok_def Let_def L_def len_def prod_eq_iff)
  have c: "v_initialized v" "v_rx_size v = 256" "v_rx_avail v = v_rx_last v + 4" "q_desc (v_rx v) ! (L mod 4) = rx_descriptor lay (L mod 4)"
      "length (v_rx_bufs v ! (L mod 4)) = 2048"
    using ok nth_mem [of "L mod 4" "v_rx_bufs v"] by (simp_all add: rx_ok_def queue_shape_def)
  have d: "(q_desc (v_rx v))[L mod 4 := rx_descriptor lay (L mod 4)] = q_desc (v_rx v)"
    using c(4) by (metis list_update_id)
  have i: "unat (of_nat (L mod 4) :: u32) = L mod 4" unfolding unat_of_nat by simp
  have a: "unat (v_rx_last v + 4) mod 256 = (L + 4) mod 256"
    using u16_window [of 256 "v_rx_last v" 4] by (simp add: L_def)
  have ne: "u_idx (v_rx v) \<noteq> v_rx_last v" using pos by (auto simp: rx_waiting_def)
  have big: "\<not> len \<le> 10" using s(2) by (simp add: word_le_nat_alt)
  have sub: "unat (len - 10) = unat len - 10" using s(2) by (simp add: unat_sub word_le_nat_alt)
  have fl: "length (rx_frame v L) = unat len - 10" using s c(5) by (simp add: rx_frame_def len_def)
  have bytes: "take (min (unat len - 10) m) (drop 10 (v_rx_bufs v ! (L mod 4))) = take m (rx_frame v L)"
    by (simp add: rx_frame_def s(1) drop_take min.commute)
  have fit: "\<not> 2048 < 10 + min (unat len - 10) m" using s(3) min.cobounded1 [of "unat len - 10" m] by linarith
  have i4: "\<not> 4 \<le> L mod 4" by simp
  define v0 where "v0 = vport (\<lambda>d. snd (inb io (v_base v + 0x13) d)) v"
  define v2 where "v2 = v0\<lparr>v_rx_last := v_rx_last v + 1\<rparr>"
  have f0: "u_idx (v_rx v0) = u_idx (v_rx v)" "v_rx_last v0 = v_rx_last v" "v_rx_size v0 = 256" "v_rx v0 = v_rx v"
    using c by (simp_all add: v0_def vport_def)
  have f2: "v_rx v2 = v_rx v" "v_rx_bufs v2 = v_rx_bufs v" "v_rx_avail v2 = v_rx_last v + 4" "v_rx_size v2 = 256"
    using c by (simp_all add: v2_def v0_def vport_def)
  have vs: "v2\<lparr>v_rx := v_rx v\<rparr> = v2" by (simp add: v2_def v0_def vport_def)
  have "wifi_recv io lay m v = rx_requeue io (L mod 4) (int (min (unat len - 10) m), take m (rx_frame v L)) v2"
    unfolding wifi_recv_def Let_def v0_def [symmetric] f0 ring_slot_of_256
    using c(1) m ne
    by (simp add: vq_consts v2_def [symmetric] f2 vs L_def [symmetric] s(1) i d big sub fit i4 bytes del: min_less_iff_conj)
  then show ?thesis
    unfolding rx_requeue_def f2 ring_slot_of_256 a fl
    by (intro exI [of _ "outw io (v_base v + 0x10) 0 (snd (inb io (v_base v + 0x13) (v_dev v)))"]) (simp add: v2_def v0_def vport_def c(3))
qed

lemma rx_frame_length:
  assumes "rx_ok lay (la, v)" and "j < rx_waiting v"
  shows "0 < length (rx_frame v (unat (v_rx_last v) + j)) \<and> length (rx_frame v (unat (v_rx_last v) + j)) \<le> 2038"
proof -
  have "j < 4" "rx_slot_ok v (rx_waiting v) j" using assms by (simp_all add: rx_ok_def)
  moreover have "length (v_rx_bufs v ! ((unat (v_rx_last v) + j) mod 4)) = 2048"
    using assms(1) nth_mem [of "(unat (v_rx_last v) + j) mod 4" "v_rx_bufs v"] by (simp add: rx_ok_def queue_shape_def)
  ultimately show ?thesis using assms(2) by (auto simp: rx_slot_ok_def rx_frame_def Let_def)
qed

lemma wifi_recv_step:
  assumes ok: "rx_ok lay (la, v)" and m: "0 < m"
  shows "rx_waiting v = 0 \<Longrightarrow> \<exists>v1. wifi_recv io lay m v = ((0, []), v1) \<and> rx_ok lay (la, v1) \<and> rx_view (la, v1) = []"
    and "rx_view (la, v) = f # fs \<Longrightarrow> \<exists>v1. wifi_recv io lay m v = ((int (min (length f) m), take m f), v1) \<and>
      rx_ok lay (la, v1) \<and> rx_view (la, v1) = fs"
proof -
  assume w: "rx_waiting v = 0"
  then have "u_idx (v_rx v) - v_rx_last v = 0" by (simp add: rx_waiting_def unsigned_eq_0_iff)
  then have "wifi_recv io lay m v = ((0, []), vport (\<lambda>d. snd (inb io (v_base v + 0x13) d)) v)"
    using ok m by (simp add: wifi_recv_def Let_def vport_def rx_ok_def)
  moreover have "rx_ok lay (la, vport g v)" for g
  proof -
    have "rx_waiting (vport g v) = rx_waiting v" "rx_slot_ok (vport g v) = rx_slot_ok v"
      by (simp_all add: rx_waiting_def rx_slot_ok_def vport_def fun_eq_iff)
    then show ?thesis using ok by (simp add: rx_ok_def vport_def)
  qed
  ultimately show "\<exists>v1. wifi_recv io lay m v = ((0, []), v1) \<and> rx_ok lay (la, v1) \<and> rx_view (la, v1) = []"
    using w by (simp add: rx_view_def vport_def rx_waiting_def)
next
  assume view: "rx_view (la, v) = f # fs"
  then have "rx_waiting v = Suc (length fs)" using rx_view_length [of "(la, v)"] by simp
  then obtain n where n: "rx_waiting v = Suc n" "n < 4" using ok by (auto simp: rx_ok_def)
  define L where "L = unat (v_rx_last v)"
  obtain d1 where st: "wifi_recv io lay m v = ((int (min (length (rx_frame v L)) m), take m (rx_frame v L)),
      v\<lparr>v_rx_last := v_rx_last v + 1, v_rx_avail := v_rx_avail v + 1, v_dev := d1,
        v_rx := (v_rx v)\<lparr>a_ring := (a_ring (v_rx v))[(L + 4) mod 256 := of_nat (L mod 4)], a_idx := v_rx_avail v + 1\<rparr>\<rparr>)"
    using rx_recv_state [OF ok _ m, of io] n(1) unfolding L_def by auto
  define v1 where "v1 = v\<lparr>v_rx_last := v_rx_last v + 1, v_rx_avail := v_rx_avail v + 1, v_dev := d1,
      v_rx := (v_rx v)\<lparr>a_ring := (a_ring (v_rx v))[(L + 4) mod 256 := of_nat (L mod 4)], a_idx := v_rx_avail v + 1\<rparr>\<rparr>"
  have idx: "(unat (v_rx_last v1) + j) mod k = (L + Suc j) mod k" if "k dvd 65536" for j k
    using u16_window [OF that, of "v_rx_last v + 1" j] u16_window [OF that, of "v_rx_last v" "Suc j"]
    by (simp add: L_def v1_def algebra_simps)
  have w: "rx_waiting v1 = n"
  proof -
    have "u_idx (v_rx v) - (v_rx_last v + 1) = of_nat n"
      using u16_count [of "u_idx (v_rx v)" "v_rx_last v" "Suc n"] n(1) by (simp add: rx_waiting_def)
    then show ?thesis using n(2) unat_of_nat [of n, where 'a = 16] by (simp add: v1_def rx_waiting_def)
  qed
  have slots: "rx_slot_ok v1 n j" if j: "j < 4" for j
  proof (cases "j = 3")
    case True
    have "length (a_ring (v_rx v)) = 256" using ok by (simp add: rx_ok_def queue_shape_def)
    then have r: "a_ring (v_rx v1) ! ((L + 4) mod 256) = of_nat (L mod 4)" by (simp add: v1_def)
    have i: "(unat (v_rx_last v1) + 3) mod 256 = (L + 4) mod 256" "(unat (v_rx_last v1) + 3) mod 4 = L mod 4"
      using idx [of 256 3] idx [of 4 3] by simp_all
    have "\<not> 3 < n" using n(2) by simp
    then show ?thesis unfolding rx_slot_ok_def Let_def True i using r by simp
  next
    case False
    then have j3: "Suc j < 4" using j by simp
    then have o: "rx_slot_ok v (Suc n) (Suc j)" using ok n(1) by (simp add: rx_ok_def)
    have "(L + Suc j) mod 256 \<noteq> (L + 4) mod 256" using window_distinct [of "Suc j" 4 256 L] j3 by simp
    then have r: "a_ring (v_rx v1) ! ((L + Suc j) mod 256) = a_ring (v_rx v) ! ((L + Suc j) mod 256)" by (simp add: v1_def)
    have u: "u_ring (v_rx v1) = u_ring (v_rx v)" by (simp add: v1_def)
    show ?thesis using o r unfolding rx_slot_ok_def Let_def L_def [symmetric] idx [of 4, simplified] idx [of 256, simplified] u by (cases "j < n") simp_all
  qed
  have "rx_ok lay (la, v1)"
    using ok slots w n by (simp add: rx_ok_def v1_def queue_shape_def)
  moreover have fr: "rx_frame v1 (unat (v_rx_last v1) + j) = rx_frame v (L + Suc j)" for j
  proof -
    have "u_ring (v_rx v1) = u_ring (v_rx v)" "v_rx_bufs v1 = v_rx_bufs v" by (simp_all add: v1_def)
    then show ?thesis unfolding rx_frame_def idx [of 4, simplified] idx [of 256, simplified] by simp
  qed
  have "f # fs = rx_frame v L # map (\<lambda>j. rx_frame v (L + Suc j)) [0..<n]"
    using view n(1) by (simp add: rx_view_def upt_0_Suc L_def comp_def del: upt_Suc)
  then have "f = rx_frame v L" "rx_view (la, v1) = fs" using w fr by (simp_all add: rx_view_def)
  ultimately show "\<exists>v1. wifi_recv io lay m v = ((int (min (length f) m), take m f), v1) \<and> rx_ok lay (la, v1) \<and> rx_view (la, v1) = fs"
    using st by (auto simp: v1_def)
qed

text \<open>The driver as the stack polls it, with its buffer of 2048 bytes.\<close>

definition rx_get :: "'d word_io \<Rightarrow> vlayout \<Rightarrow> u16 \<times> 'd virtio \<Rightarrow> u8 list option \<times> u16 \<times> 'd virtio" where
  "rx_get io lay s = (let ((r, bytes), v1) = wifi_recv io lay 2048 (snd s) in (if r > 0 then Some bytes else None, fst s, v1))"

interpretation vio_rx: input_queue "dev_deliver lay" "rx_get io lay" rx_view "rx_ok lay" frame_fits 4
  for io :: "'d word_io" and lay
proof (unfold_locales, goal_cases)
  case (1 s x)
  then show ?case using dev_deliver_step [of lay "fst s" "snd s" x] by simp
next
  case (2 s x)
  then show ?case using dev_deliver_step [of lay "fst s" "snd s" x] by simp
next
  case (3 s)
  obtain la v where s: "s = (la, v)" by (cases s)
  have "rx_waiting v = 0" using 3(2) rx_view_length [of s] s by simp
  then show ?case using wifi_recv_step(1) [of lay la v 2048 io] 3(1) s by (auto simp: rx_get_def)
next
  case (4 s x xs)
  obtain la v where s: "s = (la, v)" by (cases s)
  have "0 < rx_waiting v" using 4(2) rx_view_length [of s] s by simp
  moreover have "x = rx_frame v (unat (v_rx_last v) + 0)" using 4(2) s \<open>0 < rx_waiting v\<close>
    by (cases "rx_waiting v") (simp_all add: rx_view_def upt_0_Suc del: upt_Suc)
  ultimately have "0 < length x" "length x \<le> 2038" using rx_frame_length [of lay la v 0] 4(1) s by simp_all
  then show ?case using wifi_recv_step(2) [of lay la v 2048 x xs io] 4 s by (auto simp: rx_get_def)
qed

section \<open>The driver after its initialisation\<close>

definition buffers_ok :: "u8 list list \<Rightarrow> bool" where
  "buffers_ok bufs \<longleftrightarrow> length bufs = 4 \<and> (\<forall>b \<in> set bufs. length b = 2048)"

lemma setup_virtqueue_fields:
  "setup_virtqueue io q addr pio v = (qsz, v1) \<Longrightarrow>
   (\<exists>d es. v1 = v\<lparr>v_dev := d, v_log := v_log v @ es\<rparr>) \<and> (\<exists>d0. fst (inw io (v_base v + 0x0C) d0) = qsz)"
proof -
  assume s: "setup_virtqueue io q addr pio v = (qsz, v1)"
  obtain n d1 where i: "inw io (v_base v + 0x0C) (outw io (v_base v + 0x0E) q (v_dev v)) = (n, d1)" by force
  have "n = qsz" using s by (simp add: setup_virtqueue_def vport_def vlog_def i Let_def)
  moreover have "v1 = v\<lparr>v_dev := outl pio (v_base v + 0x08) (addr div 4096) d1, v_log := v_log v @
      [Puts (lit ''[NET] Queue ''), Putc (48 + ucast q), Puts (lit '' size='')] @ three_digits n @
      [Puts (lit '' PFN=0x'')] @ hex_run 8 (addr div 4096) @ [Puts (lit ''\<newline>'')]\<rparr>"
    using s by (auto simp add: setup_virtqueue_def vport_def vlog_def i Let_def)
  ultimately show ?thesis using i by (metis fst_conv)
qed

lemma start_queues_fields:
  assumes "\<forall>d. fst (inw io (v_base v + 0x0C) d) = 256"
  shows "\<exists>d es. start_queues io pio lay v = v\<lparr>v_rx := rx_queue_start lay, v_tx := zero_queue, v_rx_avail := 4, v_rx_last := 0,
    v_tx_last := 0, v_tx_free := 0, v_rx_size := 256, v_tx_size := 256, v_dev := d, v_log := v_log v @ es\<rparr>"
proof -
  define v1 where "v1 = vlog [Puts (lit ''[NET] Setting up RX queue memory...\<newline>''), Puts (lit ''[NET] Setting up TX queue memory...\<newline>'')]
    (v\<lparr>v_rx := rx_queue_start lay, v_tx := zero_queue, v_rx_avail := of_nat QUEUE_SIZE, v_rx_last := 0, v_tx_last := 0, v_tx_free := 0\<rparr>)"
  obtain rxs v2 where 1: "setup_virtqueue io 0 (rx_queue_at lay) pio v1 = (rxs, v2)" by (cases "setup_virtqueue io 0 (rx_queue_at lay) pio v1")
  obtain txs v3 where 2: "setup_virtqueue io 1 (tx_queue_at lay) pio (v2\<lparr>v_rx_size := rxs\<rparr>) = (txs, v3)"
    by (cases "setup_virtqueue io 1 (tx_queue_at lay) pio (v2\<lparr>v_rx_size := rxs\<rparr>)")
  from setup_virtqueue_fields [OF 1] assms have r: "rxs = 256" and "\<exists>d es. v2 = v1\<lparr>v_dev := d, v_log := v_log v1 @ es\<rparr>"
    by (auto simp: v1_def vlog_def)
  then obtain d2 es2 where v2: "v2 = v1\<lparr>v_dev := d2, v_log := v_log v1 @ es2\<rparr>" by blast
  from setup_virtqueue_fields [OF 2] assms v2 have x: "txs = 256" and "\<exists>d es. v3 = v2\<lparr>v_rx_size := 256, v_dev := d, v_log := v_log v2 @ es\<rparr>"
    by (auto simp: v1_def vlog_def r)
  then obtain d3 es3 where v3: "v3 = v2\<lparr>v_rx_size := 256, v_dev := d3, v_log := v_log v2 @ es3\<rparr>" by blast
  show ?thesis
    unfolding start_queues_def v1_def [symmetric] Let_def 1 2 prod.case
    unfolding v3 v2 v1_def r x vlog_def vport_def
    by (rule exI [of _ "outw io (v_base v + 16) 0 (outb io (v_base v + 18) 15 d3)"],
        rule exI [of _ "[Puts (lit ''[NET] Setting up RX queue memory...\<newline>''), Puts (lit ''[NET] Setting up TX queue memory...\<newline>'')] @
          es2 @ es3 @ [Puts (lit ''[NET] Notifying RX queue...\<newline>'')]"])
      (simp add: vq_consts)
qed

lemma started_ok:
  assumes "v_initialized v" and "\<not> v_fault v" and "buffers_ok (v_rx_bufs v)" and "buffers_ok (v_tx_bufs v)"
    and "v_rx v = rx_queue_start lay" and "v_tx v = zero_queue" and "v_rx_avail v = 4" and "v_rx_last v = 0" and "v_tx_free v = 0"
    and "v_rx_size v = 256" and "v_tx_size v = 256"
  shows "tx_ok lay (0, v) \<and> tx_view (0, v) = [] \<and> rx_ok lay (0, v) \<and> rx_view (0, v) = []"
proof -
  have less4: "j = 0 \<or> j = 1 \<or> j = 2 \<or> j = 3" if "j < 4" for j :: nat using that by linarith
  have z: "length (q_desc zero_queue) = 256" "length (a_ring zero_queue) = 256" "length (u_ring zero_queue) = 256"
      "a_idx zero_queue = 0" "u_idx zero_queue = 0"
    by (simp_all add: zero_queue_def MAX_QUEUE_SIZE_def)
  have up: "[0..<4] = [0, 1, 2, 3 :: nat]" by (simp add: upt_rec)
  have r: "length (q_desc (rx_queue_start lay)) = 256" "length (a_ring (rx_queue_start lay)) = 256" "length (u_ring (rx_queue_start lay)) = 256"
      "u_idx (rx_queue_start lay) = 0" "a_idx (rx_queue_start lay) = 4"
      "\<forall>i < 4. q_desc (rx_queue_start lay) ! i = rx_descriptor lay i" "\<forall>i < 4. a_ring (rx_queue_start lay) ! i = of_nat i"
    using z by (auto simp: rx_queue_start_def QUEUE_SIZE_def up dest!: less4)
  have "rx_slot_ok v 0 j" if "j < 4" for j
    using r(7) that by (simp add: rx_slot_ok_def assms)
  then show ?thesis
    using assms r z by (simp add: tx_ok_def rx_ok_def queue_shape_def buffers_ok_def tx_waiting_def rx_waiting_def tx_view_def rx_view_def)
qed

lemma negotiate_fields:
  "\<exists>d es. negotiate io pio v = v\<lparr>v_mac := v_mac (negotiate io pio v), v_dev := d, v_log := v_log v @ es\<rparr>"
  by (simp add: negotiate_def Let_def split_def vlog_def) (intro exI, rule refl)

definition driver_ready :: "vlayout \<Rightarrow> 'd virtio \<Rightarrow> bool" where
  "driver_ready lay v \<longleftrightarrow> tx_ok lay (0, v) \<and> tx_view (0, v) = [] \<and> rx_ok lay (0, v) \<and> rx_view (0, v) = []"

text \<open>
  \<^verbatim>\<open>wifi_driver_init\<close>: when the scan of the bus finds a card and the card's queues have the
  256 entries for which the queue memory is laid out, the driver ends with both queues empty
  and consistent, four receive buffers available, and its interface with the card's hardware
  address and the driver's functions in the next slot of the interface table.
\<close>
theorem virtio_init_ready:
  assumes "fst (find_virtio_net pio all_slots (v_dev (n_world st))) = base" and "base \<noteq> 0"
    and "\<forall>d. fst (inw io (base + 0x0C) d) = 256" and "\<not> v_fault (n_world st)"
    and "buffers_ok (v_rx_bufs (n_world st))" and "buffers_ok (v_tx_bufs (n_world st))"
    and "n_num st < MAX_INTERFACES" and "length (n_ifaces st) = MAX_INTERFACES"
  shows "\<exists>st1. wifi_driver_init io pio lay f st = (0, st1) \<and> driver_ready lay (n_world st1) \<and> n_num st1 = n_num st + 1 \<and>
    n_ifaces st1 ! n_num st = net_iface io lay (v_mac (n_world st1)) f"
proof -
  obtain d1 where found: "find_virtio_net pio all_slots (v_dev (n_world st)) = (base, d1)" using assms(1) by (metis prod.collapse)
  define v0 where "v0 = vlog [Puts (lit ''[NET] Initializing VirtIO-Net driver...\<newline>'')] (n_world st)"
  have f0: "find_virtio_net pio all_slots (v_dev v0) = (base, d1)" using found by (simp add: v0_def vlog_def)
  define v2 where "v2 = vlog ([Puts (lit ''[NET] Found device at I/O base 0x'')] @ hex_run 4 (ucast base) @ [Puts (lit ''\<newline>'')])
    (v0\<lparr>v_base := base, v_dev := d1\<rparr>)"
  obtain d es where n: "negotiate io pio v2 = v2\<lparr>v_mac := v_mac (negotiate io pio v2), v_dev := d, v_log := v_log v2 @ es\<rparr>"
    using negotiate_fields [of io pio v2] by (elim exE) (rule that)
  define v3 where "v3 = start_queues io pio lay (negotiate io pio v2)"
  have "v_base (negotiate io pio v2) = base" by (subst n) (simp add: v2_def vlog_def)
  moreover have kept: "v_rx_bufs (negotiate io pio v2) = v_rx_bufs (n_world st)" "v_tx_bufs (negotiate io pio v2) = v_tx_bufs (n_world st)"
      "v_fault (negotiate io pio v2) = v_fault (n_world st)"
    by (subst n, simp add: v2_def v0_def vlog_def)+
  ultimately obtain d3 es3 where s: "v3 = (negotiate io pio v2)\<lparr>v_rx := rx_queue_start lay, v_tx := zero_queue, v_rx_avail := 4, v_rx_last := 0,
      v_tx_last := 0, v_tx_free := 0, v_rx_size := 256, v_tx_size := 256, v_dev := d3, v_log := v_log (negotiate io pio v2) @ es3\<rparr>"
    using start_queues_fields [of io "negotiate io pio v2" pio lay] assms(3) unfolding v3_def by metis
  define v4 where "v4 = vlog [Puts (lit ''[NET] Driver initialized successfully!\<newline>'')] (v3\<lparr>v_initialized := True\<rparr>)"
  have "tx_ok lay (0, v4) \<and> tx_view (0, v4) = [] \<and> rx_ok lay (0, v4) \<and> rx_view (0, v4) = []"
    using assms(4-6) by (intro started_ok) (simp_all add: v4_def vlog_def s kept)
  then have "driver_ready lay v4" by (simp add: driver_ready_def)
  moreover have "v_mac v4 = v_mac v3" by (simp add: v4_def vlog_def)
  moreover have "wifi_driver_init io pio lay f st = (0, st\<lparr>n_ifaces := (n_ifaces st)[n_num st := net_iface io lay (v_mac v3) f],
      n_default := (case n_default st of None \<Rightarrow> Some (n_num st) | Some d \<Rightarrow> Some d), n_num := n_num st + 1, n_world := v4\<rparr>)"
    unfolding wifi_driver_init_def Let_def v0_def [symmetric]
    using assms(2,7)
    by (cases "n_default st") (simp_all add: f0 v2_def [symmetric, simplified] v3_def [symmetric] netif_register_def v4_def)
  ultimately show ?thesis using assms(7,8) by simp
qed

definition ref_word_io :: "u32 word_io" where
  "ref_word_io = \<lparr>inb = (\<lambda>p d. (ucast p, d)), outb = (\<lambda>p v d. d), insw = (\<lambda>p n d. (replicate n 0, d)), outsw = (\<lambda>p ws d. d),
     inw = (\<lambda>p d. (256, d)), outw = (\<lambda>p v d. d)\<rparr>"

text \<open>A machine whose first slot holds a card with its registers at \<^verbatim>\<open>0xC040\<close>; the state is the address latch.\<close>

definition ref_dword_io :: "u32 pci_io" where
  "ref_dword_io = \<lparr>outl = (\<lambda>p v d. if p = 0xCF8 then v else d),
     inl = (\<lambda>p d. (if d AND 0xFF = 0x10 then 0xC041 else 0x10001AF4, d))\<rparr>"

definition ref_layout :: vlayout where
  "ref_layout = \<lparr>rx_buffers_at = 0x200000, tx_buffers_at = 0x202000, rx_queue_at = 0x204000, tx_queue_at = 0x208000\<rparr>"

definition ref_world :: "u32 virtio net" where
  "ref_world = \<lparr>n_ifaces = replicate 4 (net_iface ref_word_io ref_layout (replicate 6 0) iface_at_boot), n_num = 0, n_default = None,
     n_arp = replicate 16 \<lparr>ae_ip = 0, ae_mac = replicate 6 0, ae_valid = False\<rparr>, n_shown = False, n_tcp_count = 0,
     n_udp_count = 0, n_dns_host = replicate 64 0, n_dns_ip = 0, n_tcb = n_tcb ref_net, n_xid = 0x12345678,
     n_offered_ip = 0, n_server_ip = 0, n_rx = replicate 2048 0, n_log = [], n_world = virtio_start 0\<rparr>"

lemma ref_find: "fst (find_virtio_net ref_dword_io all_slots d) = 0xC040"
proof -
  have 1: "[0..<256] = 0 # [Suc 0..<256]" and 2: "[0..<32] = 0 # [Suc 0..<32]" by (rule upt_conv_Cons, rule zero_less_numeral)+
  have "\<exists>ss. all_slots = (0, 0) # ss" unfolding all_slots_def 1 2 product.simps list.map append_Cons by blast
  then obtain ss where ss: "all_slots = (0, 0) # ss" by blast
  show ?thesis unfolding ss by (simp add: pci_read_def ref_dword_io_def)
qed

theorem virtio_init_ready_witness:
  "\<exists>st1. wifi_driver_init ref_word_io ref_dword_io ref_layout iface_at_boot ref_world = (0, st1) \<and> driver_ready ref_layout (n_world st1) \<and>
    n_num st1 = 1 \<and> n_ifaces st1 ! 0 = net_iface ref_word_io ref_layout (v_mac (n_world st1)) iface_at_boot"
proof -
  have "\<not> v_fault (n_world ref_world)" "buffers_ok (v_rx_bufs (n_world ref_world))" "buffers_ok (v_tx_bufs (n_world ref_world))"
      "n_num ref_world = 0" "length (n_ifaces ref_world) = 4"
    by (simp_all add: ref_world_def virtio_start_def buffers_ok_def vq_consts)
  then show ?thesis
    using virtio_init_ready [where st = ref_world and io = ref_word_io and lay = ref_layout, OF ref_find]
    by (simp add: ref_word_io_def MAX_INTERFACES_def)
qed

section \<open>Properties of the running driver\<close>

definition ref_started :: "u32 virtio" where
  "ref_started = (virtio_start 0)\<lparr>v_initialized := True, v_rx := rx_queue_start ref_layout, v_rx_avail := 4\<rparr>"

lemma ref_started_ok:
  "tx_ok ref_layout (0, ref_started)" "tx_view (0, ref_started) = []"
  "rx_ok ref_layout (0, ref_started)" "rx_view (0, ref_started) = []"
  using started_ok [of ref_started ref_layout]
  by (simp_all add: ref_started_def virtio_start_def buffers_ok_def vq_consts)

text \<open>
  C34.  The receive queue is a queue.  However deliveries by the device and receives by the
  driver interleave, as long as at most four frames wait, the frames come out complete and in
  the order in which they arrived, across the wrap-around of the 16-bit indices, and no access
  leaves a buffer.
\<close>
theorem virtio_rx_fifo:
  assumes "rx_ok lay s" and "\<forall>f \<in> set (queue_ins ops). frame_fits f" and "queue_fits 4 (length (rx_view s)) ops"
  shows "\<exists>outs s1. queue_run (dev_deliver lay) (rx_get io lay) ops s = (outs, s1) \<and> rx_ok lay s1 \<and> \<not> v_fault (snd s1) \<and>
    outs @ rx_view s1 = rx_view s @ queue_ins ops"
  using vio_rx.run_fifo [OF assms, of io] by (force simp: rx_ok_def)

theorem virtio_rx_fifo_witness:
  "\<exists>outs s1. queue_run (dev_deliver ref_layout) (rx_get ref_word_io ref_layout) [Put [7], Get, Put [8, 9]] (0, ref_started) = (outs, s1) \<and>
    rx_ok ref_layout s1 \<and> \<not> v_fault (snd s1) \<and> outs @ rx_view s1 = [[7], [8, 9]]"
  using virtio_rx_fifo [OF ref_started_ok(3), of "[Put [7], Get, Put [8, 9]]" ref_word_io]
  by (simp add: ref_started_ok frame_fits_def)

text \<open>
  C35.  The transmit queue is a queue too, as long as the device takes the frames before four
  wait.  The driver does not look at the device's progress (\<^verbatim>\<open>tx_last_used\<close> is never read): with
  four frames waiting, a fifth one takes the place of the first, which is never sent.
\<close>
theorem virtio_tx_fifo:
  assumes "tx_ok lay s" and "\<forall>f \<in> set (queue_ins ops). frame_fits f" and "queue_fits 4 (length (tx_view s)) ops"
  shows "\<exists>outs s1. queue_run (tx_put io lay) (dev_transmit lay) ops s = (outs, s1) \<and> tx_ok lay s1 \<and>
    outs @ tx_view s1 = tx_view s @ queue_ins ops"
  by (rule vio_tx.run_fifo [OF assms])

theorem virtio_tx_fifo_witness:
  "\<exists>outs s1. queue_run (tx_put ref_word_io ref_layout) (dev_transmit ref_layout) [Put [7], Get, Put [8, 9]] (0, ref_started) = (outs, s1) \<and>
    tx_ok ref_layout s1 \<and> outs @ tx_view s1 = [[7], [8, 9]]"
  using virtio_tx_fifo [OF ref_started_ok(1), of "[Put [7], Get, Put [8, 9]]" ref_word_io]
  by (simp add: ref_started_ok frame_fits_def)

lemma tx_full_send:
  assumes ok: "tx_ok lay (la, v)" and full: "tx_waiting (la, v) = 4" and f: "frame_fits f"
  shows "\<exists>s1. dev_transmit lay (tx_put io lay f (la, v)) = (Some f, s1)"
proof -
  define i where "i = unat la mod 4"
  have i4: "i < 4" by (simp add: i_def)
  have free: "unat (v_tx_free v) = i" using ok tx_ok_index(1) [OF ok] full by (simp add: tx_ok_def i_def)
  have slot: "unat (a_idx (v_tx v)) mod 256 = (unat la + 4) mod 256" using tx_ok_index(2) [OF ok] full by simp
  have a: "a_idx (v_tx v) = la + 4" using u16_count [of "a_idx (v_tx v)" la 4] full by (simp add: tx_waiting_def)
  have ring: "a_ring (v_tx v) ! (unat la mod 256) = of_nat i" using ok full by (force simp: tx_ok_def i_def)
  have ii: "unat (of_nat i :: u16) = i" using i4 unfolding unat_of_nat by simp
  have dist: "(unat la + 4) mod 256 \<noteq> unat la mod 256" using window_distinct [of 0 4 256 "unat la"] by simp
  have len: "unat (of_nat (10 + length f) :: u32) = 10 + length f"
    using f unfolding unat_of_nat by (simp add: frame_fits_def)
  have sh: "queue_shape (v_tx v) (v_tx_bufs v)" "v_tx_size v = 256" using ok by (simp_all add: tx_ok_def)
  note st = tx_send_state [OF ok f, where io = io, unfolded free slot]
  show ?thesis
    using sh i4 ring dist len a st buffer_index_at [OF i4, of "tx_buffers_at lay"]
    by (simp add: tx_put_def dev_transmit_def vport_def queue_shape_def unat_mod_distrib ii NET_HDR_SIZE_def)
qed

text \<open>
  Four frames wait and the driver sends a fifth: the device takes the fifth frame where
  the first one was due.
\<close>
theorem virtio_tx_overwrite:
  assumes "tx_ok lay s" and "tx_view s = []" and "\<forall>f \<in> {f1, f2, f3, f4, f5}. frame_fits f"
  shows "tx_view (fold (tx_put io lay) [f1, f2, f3, f4] s) = [f1, f2, f3, f4] \<and>
    fst (dev_transmit lay (fold (tx_put io lay) [f1, f2, f3, f4, f5] s)) = Some f5"
proof -
  define s4 where "s4 = fold (tx_put io lay) [f1, f2, f3, f4] s"
  have s4: "tx_view s4 = [f1, f2, f3, f4]" "tx_ok lay s4"
    using vio_tx.puts_view [OF assms(1), of "[f1, f2, f3, f4]" io] assms(2,3) by (simp_all add: s4_def)
  then have "tx_waiting s4 = 4" using tx_view_length [of s4] by simp
  then have "fst (dev_transmit lay (tx_put io lay f5 s4)) = Some f5"
    using tx_full_send [of lay "fst s4" "snd s4" f5 io] s4(2) assms(3) by auto
  with s4(1) show ?thesis by (simp add: s4_def)
qed

theorem virtio_tx_overwrite_witness:
  "tx_view (fold (tx_put ref_word_io ref_layout) [[1], [2], [3], [4]] (0, ref_started)) = [[1], [2], [3], [4]] \<and>
    fst (dev_transmit ref_layout (fold (tx_put ref_word_io ref_layout) [[1], [2], [3], [4], [5]] (0, ref_started))) = Some [5]"
  by (rule virtio_tx_overwrite [OF ref_started_ok(1,2)]) (simp add: frame_fits_def)

section \<open>Two machines\<close>

text \<open>The network moves one frame from the card of one machine to the card of another.\<close>

definition link_move :: "vlayout \<Rightarrow> vlayout \<Rightarrow> u16 \<times> 'a virtio \<Rightarrow> u16 \<times> 'b virtio \<Rightarrow> (u16 \<times> 'a virtio) \<times> (u16 \<times> 'b virtio)" where
  "link_move la lb sa sb = (case dev_transmit la sa of
     (None, sa1) \<Rightarrow> (sa1, sb)
   | (Some f, sa1) \<Rightarrow> (sa1, dev_deliver lb f sb))"

text \<open>
  What happens on the two machines: the first sends a frame with \<^verbatim>\<open>netif_send\<close> on its interface \<open>i\<close>,
  the network moves one, or the second calls \<^verbatim>\<open>netif_receive\<close> on its interface \<open>k\<close>.  With each step
  come the frames \<^verbatim>\<open>netif_receive\<close> returns.
\<close>

datatype link_event = Send "u8 list" | Move | Receive

type_synonym 'd endpoint = "u16 \<times> 'd virtio net"

fun link_step :: "nat \<Rightarrow> nat \<Rightarrow> vlayout \<Rightarrow> vlayout \<Rightarrow> link_event \<Rightarrow> 'a endpoint \<Rightarrow> 'b endpoint \<Rightarrow>
  u8 list list \<times> 'a endpoint \<times> 'b endpoint" where
  "link_step i k la lb (Send f) (ta, na) (tb, nb) = ([], (ta, snd (netif_send i f na)), (tb, nb))"
| "link_step i k la lb Move (ta, na) (tb, nb) =
     (case link_move la lb (ta, n_world na) (tb, n_world nb) of ((ta1, va), (tb1, vb)) \<Rightarrow>
        ([], (ta1, na\<lparr>n_world := va\<rparr>), (tb1, nb\<lparr>n_world := vb\<rparr>)))"
| "link_step i k la lb Receive (ta, na) (tb, nb) =
     (case netif_receive k 2048 nb of ((r, bytes), nb1) \<Rightarrow> (if r > 0 then [bytes] else [], (ta, na), (tb, nb1)))"

fun link_run :: "nat \<Rightarrow> nat \<Rightarrow> vlayout \<Rightarrow> vlayout \<Rightarrow> link_event list \<Rightarrow> 'a endpoint \<Rightarrow> 'b endpoint \<Rightarrow>
  u8 list list \<times> 'a endpoint \<times> 'b endpoint" where
  "link_run i k la lb [] sa sb = ([], sa, sb)"
| "link_run i k la lb (e # es) sa sb =
     (case link_step i k la lb e sa sb of (outs, sa1, sb1) \<Rightarrow>
        case link_run i k la lb es sa1 sb1 of (outs1, sa2, sb2) \<Rightarrow> (outs @ outs1, sa2, sb2))"

text \<open>The frames sent, and that each fits while at most four wait on either card.\<close>

fun link_sent :: "link_event list \<Rightarrow> u8 list list" where
  "link_sent [] = []"
| "link_sent (Send f # es) = f # link_sent es"
| "link_sent (e # es) = link_sent es"

fun link_fits :: "nat \<Rightarrow> nat \<Rightarrow> link_event list \<Rightarrow> bool" where
  "link_fits a b [] = True"
| "link_fits a b (Send f # es) = (frame_fits f \<and> a < 4 \<and> link_fits (a + 1) b es)"
| "link_fits a b (Move # es) = (if a = 0 then link_fits a b es else b < 4 \<and> link_fits (a - 1) (b + 1) es)"
| "link_fits a b (Receive # es) = link_fits a (b - 1) es"

definition sends_ok :: "'a word_io \<Rightarrow> vlayout \<Rightarrow> nat \<Rightarrow> 'a endpoint \<Rightarrow> bool" where
  "sends_ok io lay i s \<longleftrightarrow> send_packet (n_ifaces (snd s) ! i) = Some (wifi_send io lay) \<and> tx_ok lay (fst s, n_world (snd s))"

definition recvs_ok :: "'b word_io \<Rightarrow> vlayout \<Rightarrow> nat \<Rightarrow> 'b endpoint \<Rightarrow> bool" where
  "recvs_ok io lay k s \<longleftrightarrow> recv_packet (n_ifaces (snd s) ! k) = Some (wifi_recv io lay) \<and> rx_ok lay (fst s, n_world (snd s))"

definition on_way_out :: "'a endpoint \<Rightarrow> u8 list list" where "on_way_out s = tx_view (fst s, n_world (snd s))"
definition arrived :: "'b endpoint \<Rightarrow> u8 list list" where "arrived s = rx_view (fst s, n_world (snd s))"

lemma upd_iface_functions:
  "(\<And>f. send_packet (g f) = send_packet f) \<Longrightarrow> send_packet (n_ifaces (upd_iface i g st) ! i) = send_packet (n_ifaces st ! i)"
  "(\<And>f. recv_packet (g f) = recv_packet f) \<Longrightarrow> recv_packet (n_ifaces (upd_iface i g st) ! i) = recv_packet (n_ifaces st ! i)"
  by (cases "i < length (n_ifaces st)"; simp add: upd_iface_def list_update_beyond)+

lemma link_sends:
  assumes "sends_ok io lay i (t, n)" and "frame_fits f" and "length (on_way_out (t, n)) < 4"
  shows "sends_ok io lay i (t, snd (netif_send i f n)) \<and> on_way_out (t, snd (netif_send i f n)) = on_way_out (t, n) @ [f]"
proof -
  have s: "send_packet (n_ifaces n ! i) = Some (wifi_send io lay)" "tx_ok lay (t, n_world n)" "f \<noteq> []"
    using assms(1,2) by (simp_all add: sends_ok_def frame_fits_def)
  have w: "n_world (snd (netif_send i f n)) = snd (wifi_send io lay f (n_world n))"
    using s by (simp add: netif_send_def Let_def split_def netlog_def upd_iface_def)
  have p: "send_packet (n_ifaces (snd (netif_send i f n)) ! i) = Some (wifi_send io lay)"
    using s by (simp add: netif_send_def Let_def split_def upd_iface_functions) (simp add: netlog_def)
  have "tx_waiting (t, n_world n) < 4" using assms(3) by (simp add: on_way_out_def)
  from tx_put_step [OF s(2) assms(2) this, of io] show ?thesis
    using p by (simp add: sends_ok_def on_way_out_def w tx_put_def)
qed

lemma link_receives:
  assumes "recvs_ok io lay k (t, n)"
  shows "\<exists>r bytes n1. netif_receive k 2048 n = ((r, bytes), n1) \<and> recvs_ok io lay k (t, n1) \<and>
    (if r > 0 then [bytes] else []) @ arrived (t, n1) = arrived (t, n) \<and> length (arrived (t, n1)) = length (arrived (t, n)) - 1"
proof -
  have s: "recv_packet (n_ifaces n ! k) = Some (wifi_recv io lay)" "rx_ok lay (t, n_world n)"
    using assms by (simp_all add: recvs_ok_def)
  obtain r bytes v1 where w: "wifi_recv io lay 2048 (n_world n) = ((r, bytes), v1)" by (metis prod.exhaust)
  define n1 where "n1 = snd (netif_receive k 2048 n)"
  have n1: "netif_receive k 2048 n = ((r, bytes), n1)" "n_world n1 = v1"
    using s w by (simp_all add: n1_def netif_receive_def Let_def upd_iface_def)
  have p: "recv_packet (n_ifaces n1 ! k) = Some (wifi_recv io lay)"
    using s w by (simp add: n1_def netif_receive_def Let_def upd_iface_functions)
  have "rx_ok lay (t, v1) \<and> (if r > 0 then [bytes] else []) @ rx_view (t, v1) = rx_view (t, n_world n) \<and>
      length (rx_view (t, v1)) = length (rx_view (t, n_world n)) - 1"
  proof (cases "rx_view (t, n_world n)")
    case Nil
    then have "rx_waiting (n_world n) = 0" using rx_view_length [of "(t, n_world n)"] by simp
    then show ?thesis using wifi_recv_step(1) [OF s(2), of 2048 io] w Nil by auto
  next
    case (Cons f fs)
    then have "0 < rx_waiting (n_world n)" using rx_view_length [of "(t, n_world n)"] by simp
    moreover have "f = rx_frame (n_world n) (unat (v_rx_last (n_world n)) + 0)" using Cons calculation
      by (cases "rx_waiting (n_world n)") (simp_all add: rx_view_def upt_0_Suc del: upt_Suc)
    ultimately have "0 < length f" "length f \<le> 2038" using rx_frame_length [of lay t "n_world n" 0] s(2) by simp_all
    then show ?thesis using wifi_recv_step(2) [OF s(2) _ Cons, of 2048 io] w Cons by auto
  qed
  then show ?thesis using n1 p by (auto simp: recvs_ok_def arrived_def)
qed

lemma link_moves:
  assumes a: "sends_ok ioa la i (ta, na)" and b: "recvs_ok iob lb k (tb, nb)" and f: "\<forall>f \<in> set (on_way_out (ta, na)). frame_fits f"
    and room: "on_way_out (ta, na) \<noteq> [] \<Longrightarrow> length (arrived (tb, nb)) < 4"
  shows "\<exists>ta1 va tb1 vb. link_move la lb (ta, n_world na) (tb, n_world nb) = ((ta1, va), (tb1, vb)) \<and>
    sends_ok ioa la i (ta1, na\<lparr>n_world := va\<rparr>) \<and> recvs_ok iob lb k (tb1, nb\<lparr>n_world := vb\<rparr>) \<and>
    arrived (tb1, nb\<lparr>n_world := vb\<rparr>) @ on_way_out (ta1, na\<lparr>n_world := va\<rparr>) = arrived (tb, nb) @ on_way_out (ta, na) \<and>
    length (on_way_out (ta1, na\<lparr>n_world := va\<rparr>)) = length (on_way_out (ta, na)) - 1"
proof -
  have ok: "tx_ok la (ta, n_world na)" "rx_ok lb (tb, n_world nb)" using a b by (simp_all add: sends_ok_def recvs_ok_def)
  show ?thesis
  proof (cases "on_way_out (ta, na)")
    case Nil
    then have w: "tx_waiting (ta, n_world na) = 0" using tx_view_length [of "(ta, n_world na)"] by (simp add: on_way_out_def)
    from dev_transmit_step(1) [OF ok(1) w] show ?thesis
      using a b Nil w by (simp add: link_move_def sends_ok_def recvs_ok_def on_way_out_def arrived_def)
  next
    case (Cons g gs)
    then have "tx_view (ta, n_world na) = g # gs" by (simp add: on_way_out_def)
    then obtain ta1 va where t: "dev_transmit la (ta, n_world na) = (Some g, ta1, va)" "tx_ok la (ta1, va)" "tx_view (ta1, va) = gs"
      using vio_tx.get_Cons [OF ok(1)] by force
    obtain tb1 vb where d: "dev_deliver lb g (tb, n_world nb) = (tb1, vb)" by force
    have "rx_waiting (n_world nb) < 4" using room Cons rx_view_length [of "(tb, n_world nb)"] by (simp add: arrived_def)
    then have r: "rx_ok lb (tb1, vb)" "rx_view (tb1, vb) = rx_view (tb, n_world nb) @ [g]"
      using dev_deliver_step [OF ok(2), of g] d f Cons by simp_all
    have "tx_waiting (ta1, va) = length gs" using t(3) tx_view_length [of "(ta1, va)"] by metis
    then show ?thesis
      using t d r a b Cons by (simp add: link_move_def sends_ok_def recvs_ok_def on_way_out_def arrived_def)
  qed
qed

lemma link_run_fifo:
  "sends_ok ioa la i sa \<Longrightarrow> recvs_ok iob lb k sb \<Longrightarrow> \<forall>f \<in> set (on_way_out sa). frame_fits f \<Longrightarrow>
   link_fits (length (on_way_out sa)) (length (arrived sb)) es \<Longrightarrow>
   \<exists>outs sa1 sb1. link_run i k la lb es sa sb = (outs, sa1, sb1) \<and> sends_ok ioa la i sa1 \<and> recvs_ok iob lb k sb1 \<and>
     outs @ arrived sb1 @ on_way_out sa1 = arrived sb @ on_way_out sa @ link_sent es"
proof (induction es arbitrary: sa sb)
  case (Cons e es)
  obtain ta na tb nb where s: "sa = (ta, na)" "sb = (tb, nb)" by (metis prod.exhaust)
  show ?case
  proof (cases e)
    case (Send f)
    define sa1 where "sa1 = (ta, snd (netif_send i f na))"
    have fit: "frame_fits f" "length (on_way_out (ta, na)) < 4" using Cons.prems(4) Send s by simp_all
    have a1: "sends_ok ioa la i sa1" "on_way_out sa1 = on_way_out (ta, na) @ [f]"
      using link_sends [OF Cons.prems(1) [unfolded s(1)] fit] by (simp_all add: sa1_def)
    then have "\<forall>f \<in> set (on_way_out sa1). frame_fits f" "link_fits (length (on_way_out sa1)) (length (arrived sb)) es"
      using Cons.prems(3,4) fit Send s by simp_all
    from Cons.IH [OF a1(1) Cons.prems(2) this] show ?thesis using a1(2) Send s by (auto simp: sa1_def)
  next
    case Move
    have room: "length (arrived (tb, nb)) < 4" if "on_way_out (ta, na) \<noteq> []" using Cons.prems(4) Move s that by simp
    from link_moves [OF Cons.prems(1) [unfolded s(1)] Cons.prems(2) [unfolded s(2)] Cons.prems(3) [unfolded s(1)] room]
    obtain ta1 va tb1 vb where m: "link_move la lb (ta, n_world na) (tb, n_world nb) = ((ta1, va), (tb1, vb))"
      "sends_ok ioa la i (ta1, na\<lparr>n_world := va\<rparr>)" "recvs_ok iob lb k (tb1, nb\<lparr>n_world := vb\<rparr>)"
      "arrived (tb1, nb\<lparr>n_world := vb\<rparr>) @ on_way_out (ta1, na\<lparr>n_world := va\<rparr>) = arrived (tb, nb) @ on_way_out (ta, na)"
      "length (on_way_out (ta1, na\<lparr>n_world := va\<rparr>)) = length (on_way_out (ta, na)) - 1"
      by blast
    have len: "length (arrived (tb1, nb\<lparr>n_world := vb\<rparr>)) + length (on_way_out (ta1, na\<lparr>n_world := va\<rparr>)) =
        length (arrived (tb, nb)) + length (on_way_out (ta, na))" using arg_cong [OF m(4), of length] by simp
    have l: "length (arrived (tb1, nb\<lparr>n_world := vb\<rparr>)) =
        (if length (on_way_out (ta, na)) = 0 then length (arrived (tb, nb)) else length (arrived (tb, nb)) + 1)"
      using len m(5) by (cases "on_way_out (ta, na)") simp_all
    have "set (on_way_out (ta1, na\<lparr>n_world := va\<rparr>)) \<subseteq> set (on_way_out (ta, na))"
      using m(4,5) by (cases "on_way_out (ta, na)") (auto simp: append_eq_append_conv2 append_eq_Cons_conv)
    then have "\<forall>f \<in> set (on_way_out (ta1, na\<lparr>n_world := va\<rparr>)). frame_fits f" using Cons.prems(3) s by blast
    moreover have "link_fits (length (on_way_out (ta1, na\<lparr>n_world := va\<rparr>))) (length (arrived (tb1, nb\<lparr>n_world := vb\<rparr>))) es"
      using Cons.prems(4) Move s by (simp add: m(5) l split: if_splits)
    ultimately show ?thesis using Cons.IH [OF m(2,3)] m(1,4) Move s by (auto simp flip: append_assoc)
  next
    case Receive
    from link_receives [OF Cons.prems(2) [unfolded s(2)]]
    obtain r bytes n1 where r: "netif_receive k 2048 nb = ((r, bytes), n1)" "recvs_ok iob lb k (tb, n1)"
      "(if r > 0 then [bytes] else []) @ arrived (tb, n1) = arrived (tb, nb)" "length (arrived (tb, n1)) = length (arrived (tb, nb)) - 1"
      by blast
    have "link_fits (length (on_way_out sa)) (length (arrived (tb, n1))) es" using Cons.prems(4) Receive s r(4) by simp
    from Cons.IH [OF Cons.prems(1) r(2) Cons.prems(3) this] show ?thesis using r(1,3) Receive s by (auto simp flip: append_assoc)
  qed
qed auto

text \<open>
  C36.  Through both drivers, however sends on one machine, moves of the network and receives on the
  other interleave, as long as at most four frames of 1 to 2038 bytes wait on either card: what
  \<^verbatim>\<open>netif_receive\<close> has returned, followed by what waits on the two cards, is what was given to
  \<^verbatim>\<open>netif_send\<close>, frame by frame in order; so what is received is the first part of what was sent,
  and when nothing waits any more it is all of it.
\<close>
theorem virtio_link_delivers:
  assumes "sends_ok ioa la i sa" and "recvs_ok iob lb k sb" and "on_way_out sa = []" and "arrived sb = []" and "link_fits 0 0 es"
  shows "\<exists>outs sa1 sb1. link_run i k la lb es sa sb = (outs, sa1, sb1) \<and> sends_ok ioa la i sa1 \<and> recvs_ok iob lb k sb1 \<and>
    outs @ arrived sb1 @ on_way_out sa1 = link_sent es"
  using link_run_fifo [OF assms(1,2), of es] assms(3-5) by simp

definition ref_stack :: "u32 virtio net" where
  "ref_stack = ref_world\<lparr>n_world := ref_started\<rparr>"

lemma ref_stack_ok:
  "sends_ok ref_word_io ref_layout 0 (0, ref_stack)" "recvs_ok ref_word_io ref_layout 1 (0, ref_stack)"
  "on_way_out (0, ref_stack) = []" "arrived (0, ref_stack) = []"
  using ref_started_ok
  by (simp_all add: sends_ok_def recvs_ok_def on_way_out_def arrived_def ref_stack_def ref_world_def net_iface_def)

theorem virtio_link_delivers_witness:
  "\<exists>outs sa sb. link_run 0 1 ref_layout ref_layout [Send [1, 2, 3], Send [4], Move, Receive, Send [5, 6], Move, Move, Receive, Receive]
      (0, ref_stack) (0, ref_stack) = (outs, sa, sb) \<and> outs @ arrived sb @ on_way_out sa = [[1, 2, 3], [4], [5, 6]]"
  using virtio_link_delivers [OF ref_stack_ok, of "[Send [1, 2, 3], Send [4], Move, Receive, Send [5, 6], Move, Move, Receive, Receive]"]
  by (fastforce simp: frame_fits_def)

end
