(* ===== verification/Drv_NE2000.thy ===== *)
theory Drv_NE2000
  imports Drv_VirtIO
begin

text \<open>
  The NE2000 driver (\<^verbatim>\<open>src/src/drivers/ne2000.c\<close>): the probe, the transfers between the machine and
  the memory of the card, the initialisation, sending and receiving.  What it relies on of the card is
  the locale \<open>ne2000_card\<close>: the registers, the remote transfers and the ring of pages as the data
  sheet of the controller describes them.  The delay loops are left out.
\<close>

section \<open>The driver\<close>

definition ne2000_ports :: "u16 list" where
  "ne2000_ports = [0x300, 0x280, 0x320, 0x340, 0x360, 0x240, 0x260, 0x200, 0x220, 0x380]"

definition NE_TXSTART :: u8 where "NE_TXSTART = 0x40"
definition NE_RXSTART :: u8 where "NE_RXSTART = 0x46"
definition NE_RXSTOP :: u8 where "NE_RXSTOP = 0x80"

record 'd ne2000 =
  ne_initialized :: bool
  ne_base :: u16
  ne_mac :: "u8 list"
  ne_next_pkt :: u8
  ne_log :: "console_event list"
  ne_dev :: 'd

text \<open>Outputs to registers of the card, in order.\<close>

definition ne_outs :: "('d, 'z) port_io_scheme \<Rightarrow> u16 \<Rightarrow> (u16 \<times> u8) list \<Rightarrow> 'd \<Rightarrow> 'd" where
  "ne_outs io base = fold (\<lambda>(off, v). outb io (base + off) v)"

definition ne2000_probe :: "'d word_io \<Rightarrow> u16 \<Rightarrow> 'd \<Rightarrow> bool \<times> 'd" where
  "ne2000_probe io base d =
     (case inb io (base + 0x1F) d of (reset_val, d1) \<Rightarrow>
        let d2 = ne_outs io base [(0x1F, reset_val), (0x00, 0x21)] d1
        in case inb io (base + 0x07) d2 of (isr, d3) \<Rightarrow>
             if isr AND 0x80 = 0 then (False, d3) else (True, ne_outs io base [(0x07, 0xFF)] d3))"

text \<open>The set-up of a transfer of \<open>len\<close> bytes at the card's address \<open>a\<close>.\<close>

definition remote_dma :: "'d word_io \<Rightarrow> u16 \<Rightarrow> u8 \<Rightarrow> u16 \<Rightarrow> u16 \<Rightarrow> 'd \<Rightarrow> 'd" where
  "remote_dma io base cmd a len =
     ne_outs io base [(0x00, 0x22), (0x0A, ucast (len AND 0xFF)), (0x0B, ucast (drop_bit 8 len)),
       (0x08, ucast (a AND 0xFF)), (0x09, ucast (drop_bit 8 a)), (0x00, cmd)]"

text \<open>The loops over words; of the last one an odd length uses the low byte.\<close>

fun dma_in :: "'d word_io \<Rightarrow> u16 \<Rightarrow> nat \<Rightarrow> 'd \<Rightarrow> u8 list \<times> 'd" where
  "dma_in io port 0 d = ([], d)"
| "dma_in io port (Suc 0) d = (case inw io port d of (w, d1) \<Rightarrow> ([ucast (w AND 0xFF)], d1))"
| "dma_in io port (Suc (Suc n)) d =
     (case inw io port d of (w, d1) \<Rightarrow>
        case dma_in io port n d1 of (bs, d2) \<Rightarrow> (ucast (w AND 0xFF) # ucast (drop_bit 8 w AND 0xFF) # bs, d2))"

fun dma_out :: "'d word_io \<Rightarrow> u16 \<Rightarrow> u8 list \<Rightarrow> 'd \<Rightarrow> 'd" where
  "dma_out io port [] d = d"
| "dma_out io port [b] d = outw io port (ucast b) d"
| "dma_out io port (b # c # bs) d = dma_out io port bs (outw io port (ucast b OR push_bit 8 (ucast c)) d)"

definition ne2000_read_mem :: "'d word_io \<Rightarrow> u16 \<Rightarrow> u16 \<Rightarrow> u16 \<Rightarrow> 'd \<Rightarrow> u8 list \<times> 'd" where
  "ne2000_read_mem io base src len d = dma_in io (base + 0x10) (unat len) (remote_dma io base 0x0A src len d)"

text \<open>The wait for the end of a transfer: 100000 polls of the interrupt status.\<close>

fun dma_wait :: "'d word_io \<Rightarrow> u16 \<Rightarrow> nat \<Rightarrow> 'd \<Rightarrow> 'd" where
  "dma_wait io base 0 d = d"
| "dma_wait io base (Suc n) d =
     (case inb io (base + 0x07) d of (isr, d1) \<Rightarrow>
        if isr AND 0x40 \<noteq> 0 then ne_outs io base [(0x07, 0x40)] d1 else dma_wait io base n d1)"

definition ne2000_write_mem :: "'d word_io \<Rightarrow> u16 \<Rightarrow> u16 \<Rightarrow> u8 list \<Rightarrow> 'd \<Rightarrow> 'd" where
  "ne2000_write_mem io base dst src d =
     dma_wait io base 100000 (dma_out io (base + 0x10) src (remote_dma io base 0x12 dst (of_nat (length src)) d))"

fun ne_find :: "'d word_io \<Rightarrow> u16 list \<Rightarrow> 'd \<Rightarrow> u16 option \<times> 'd" where
  "ne_find io [] d = (None, d)"
| "ne_find io (p # ps) d = (case ne2000_probe io p d of (found, d1) \<Rightarrow> if found then (Some p, d1) else ne_find io ps d1)"

definition hex_char :: "u16 \<Rightarrow> u8" where
  "hex_char n = lit ''0123456789ABCDEF'' ! unat (n AND 0xF)"

definition mac_text :: "u8 list \<Rightarrow> console_event list" where
  "mac_text mac = concat (map (\<lambda>i. [Putc (hex_char (ucast (drop_bit 4 (mac ! i)))), Putc (hex_char (ucast (mac ! i)))] @
     (if i < 5 then [Putc (chr CHR '':'')] else [])) [0..<6])"

definition ne2000_init :: "'d word_io \<Rightarrow> 'd ne2000 \<Rightarrow> int \<times> 'd ne2000" where
  "ne2000_init io st =
     (if ne_initialized st then (0, st)
      else case ne_find io ne2000_ports (ne_dev st) of (found, d1) \<Rightarrow>
        let base = (case found of None \<Rightarrow> ne_base st | Some p \<Rightarrow> p);
            log1 = ne_log st @ [Puts (lit ''[NE2K] Probing for NE2000...\<newline>'')] @
              (case found of None \<Rightarrow> []
               | Some p \<Rightarrow> [Puts (lit ''[NE2K] Found at 0x''), Putc (hex_char (drop_bit 8 p)), Putc (hex_char (drop_bit 4 p)),
                   Putc (hex_char p), Puts (lit ''\<newline>'')])
        in if base = 0 then (- 1, st\<lparr>ne_log := log1 @ [Puts (lit ''[NE2K] No NE2000 found\<newline>'')], ne_dev := d1\<rparr>)
           else
             let d2 = ne_outs io base [(0x00, 0x21), (0x0E, 0x49), (0x0A, 0), (0x0B, 0), (0x0C, 0x04), (0x0D, 0x00),
                   (0x01, NE_RXSTART), (0x03, NE_RXSTART), (0x02, NE_RXSTOP), (0x04, NE_TXSTART), (0x07, 0xFF), (0x0F, 0x00)] d1
             in case ne2000_read_mem io base 0x0000 32 d2 of (prom, d3) \<Rightarrow>
                  let mac = map (\<lambda>i. prom ! (i * 2)) [0..<6];
                      d4 = ne_outs io base ([(0x00, 0x61)] @ map (\<lambda>i. (0x01 + of_nat i, mac ! i)) [0..<6] @
                        [(0x07, NE_RXSTART + 1), (0x00, 0x22)]) d3
                  in (0, st\<lparr>ne_base := base, ne_mac := mac, ne_next_pkt := NE_RXSTART + 1, ne_initialized := True,
                        ne_log := log1 @ [Puts (lit ''[NE2K] MAC: '')] @ mac_text mac @ [Puts (lit ''\<newline>''), Puts (lit ''[NE2K] Initialized\<newline>'')],
                        ne_dev := d4\<rparr>))"

text \<open>The wait for the end of the transmission.\<close>

fun tx_wait :: "'d word_io \<Rightarrow> u16 \<Rightarrow> nat \<Rightarrow> 'd \<Rightarrow> int \<times> 'd" where
  "tx_wait io base 0 d = (- 1, d)"
| "tx_wait io base (Suc n) d =
     (case inb io (base + 0x07) d of (isr, d1) \<Rightarrow>
        if isr AND 0x02 \<noteq> 0 then (0, ne_outs io base [(0x07, 0x02)] d1)
        else if isr AND 0x08 \<noteq> 0 then (- 1, ne_outs io base [(0x07, 0x08)] d1)
        else tx_wait io base n d1)"

text \<open>The frame is read from memory; a short one is sent with the bytes that follow it there.\<close>

definition ne2000_send :: "'d word_io \<Rightarrow> mem \<Rightarrow> u32 \<Rightarrow> u16 \<Rightarrow> 'd ne2000 \<Rightarrow> int \<times> 'd ne2000" where
  "ne2000_send io m data len st =
     (if \<not> ne_initialized st then (- 1, st)
      else if len < 14 \<or> len > 1514 then (- 1, st)
      else
        let len1 = (if len < 60 then 60 else len);
            d1 = ne2000_write_mem io (ne_base st) (push_bit 8 (ucast NE_TXSTART)) (read_bytes m data (unat len1)) (ne_dev st);
            d2 = ne_outs io (ne_base st) [(0x04, NE_TXSTART), (0x05, ucast (len1 AND 0xFF)), (0x06, ucast (drop_bit 8 len1)), (0x00, 0x26)] d1
        in case tx_wait io (ne_base st) 100000 d2 of (r, d3) \<Rightarrow> (r, st\<lparr>ne_dev := d3\<rparr>))"

text \<open>The result and the bytes stored through \<^verbatim>\<open>buffer\<close>.\<close>

definition before_page :: "u8 \<Rightarrow> u8" where
  "before_page p = (if p > NE_RXSTART then p - 1 else NE_RXSTOP - 1)"

definition ne2000_recv :: "'d word_io \<Rightarrow> u16 \<Rightarrow> 'd ne2000 \<Rightarrow> (int \<times> u8 list) \<times> 'd ne2000" where
  "ne2000_recv io max_len st =
     (let base = ne_base st in
      if \<not> ne_initialized st then ((- 1, []), st)
      else case inb io (base + 0x07) (ne_dev st) of (isr, d1) \<Rightarrow>
        if isr AND 0x01 = 0 then ((0, []), st\<lparr>ne_dev := d1\<rparr>)
        else case inb io (base + 0x07) (ne_outs io base [(0x07, 0x01), (0x00, 0x62)] d1) of (cur_pg, d2) \<Rightarrow>
          case inb io (base + 0x03) (ne_outs io base [(0x00, 0x22)] d2) of (bnry, d3) \<Rightarrow>
            let pg = (if bnry + 1 \<ge> NE_RXSTOP then NE_RXSTART else bnry + 1)
            in if pg = cur_pg then ((0, []), st\<lparr>ne_dev := d3\<rparr>)
               else case ne2000_read_mem io base (push_bit 8 (ucast pg)) 4 d3 of (header, d4) \<Rightarrow>
                 let next' = header ! 1; len = ucast (header ! 2) OR push_bit 8 (ucast (header ! 3)) :: u16
                 in if len < 4 \<or> len > 1518 then ((- 1, []), st\<lparr>ne_dev := ne_outs io base [(0x03, before_page cur_pg)] d4\<rparr>)
                    else
                      let len1 = (if len - 4 > max_len then max_len else len - 4)
                      in case ne2000_read_mem io base (push_bit 8 (ucast pg) + 4) len1 d4 of (bytes, d5) \<Rightarrow>
                           ((int (unat len1), bytes), st\<lparr>ne_dev := ne_outs io base [(0x03, before_page next')] d5\<rparr>))"

definition ne2000_get_mac :: "'d ne2000 \<Rightarrow> u8 list" where "ne2000_get_mac st = ne_mac st"
definition ne2000_is_active :: "'d ne2000 \<Rightarrow> bool" where "ne2000_is_active st = ne_initialized st"

section \<open>The card\<close>

text \<open>
  The registers and the buffer memory.  A transmission takes \<open>nc_tx\<close> more polls; the interrupt
  status shows its end from then on.  The remote transfer goes from \<open>nc_rsar\<close> on for \<open>nc_rbcr\<close>
  bytes, and from the end of the receive ring back to its start.
\<close>

record ne_chip =
  nc_page1 :: bool
  nc_dma :: "bool option"
  nc_rsar :: nat
  nc_rbcr :: nat
  nc_mem :: "nat \<Rightarrow> u8"
  nc_isr :: u8
  nc_bnd :: u8
  nc_curr :: u8
  nc_pstart :: u8
  nc_pstop :: u8
  nc_tpsr :: u8
  nc_tbcr :: nat
  nc_tx :: "nat option"
  nc_sent :: "u8 list list"

definition low_byte :: "nat \<Rightarrow> u8 \<Rightarrow> nat" where "low_byte n v = n div 256 * 256 + unat v"
definition high_byte :: "nat \<Rightarrow> u8 \<Rightarrow> nat" where "high_byte n v = unat v * 256 + n mod 256"

definition chip_command :: "nat \<Rightarrow> u8 \<Rightarrow> ne_chip \<Rightarrow> ne_chip" where
  "chip_command lat v c =
     (let c1 = c\<lparr>nc_page1 := (v AND 0xC0 = 0x40),
            nc_dma := (if v AND 0x20 \<noteq> 0 then None else if v AND 0x18 = 0x08 then Some False
                       else if v AND 0x18 = 0x10 then Some True else nc_dma c)\<rparr>
      in if v AND 0x04 \<noteq> 0
         then c1\<lparr>nc_sent := nc_sent c @ [map (\<lambda>i. nc_mem c (unat (nc_tpsr c) * 256 + i)) [0..<nc_tbcr c]], nc_tx := Some lat\<rparr> else c1)"

definition chip_out :: "nat \<Rightarrow> u16 \<Rightarrow> u8 \<Rightarrow> ne_chip \<Rightarrow> ne_chip" where
  "chip_out lat off v c =
     (if off = 0 then chip_command lat v c
      else if nc_page1 c then (if off = 7 then c\<lparr>nc_curr := v\<rparr> else c)
      else if off = 1 then c\<lparr>nc_pstart := v\<rparr>
      else if off = 2 then c\<lparr>nc_pstop := v\<rparr>
      else if off = 3 then c\<lparr>nc_bnd := v\<rparr>
      else if off = 4 then c\<lparr>nc_tpsr := v\<rparr>
      else if off = 5 then c\<lparr>nc_tbcr := low_byte (nc_tbcr c) v\<rparr>
      else if off = 6 then c\<lparr>nc_tbcr := high_byte (nc_tbcr c) v\<rparr>
      else if off = 7 then c\<lparr>nc_isr := nc_isr c AND NOT v, nc_tx := (if v AND 0x02 \<noteq> 0 \<and> nc_tx c = Some 0 then None else nc_tx c)\<rparr>
      else if off = 8 then c\<lparr>nc_rsar := low_byte (nc_rsar c) v\<rparr>
      else if off = 9 then c\<lparr>nc_rsar := high_byte (nc_rsar c) v\<rparr>
      else if off = 10 then c\<lparr>nc_rbcr := low_byte (nc_rbcr c) v\<rparr>
      else if off = 11 then c\<lparr>nc_rbcr := high_byte (nc_rbcr c) v\<rparr>
      else c)"

definition chip_status :: "ne_chip \<Rightarrow> u8" where
  "chip_status c = (if nc_tx c = Some 0 then nc_isr c OR 0x02 else nc_isr c)"

definition chip_poll :: "ne_chip \<Rightarrow> ne_chip" where
  "chip_poll c = c\<lparr>nc_tx := map_option (\<lambda>n. n - 1) (nc_tx c)\<rparr>"

definition ring_next :: "ne_chip \<Rightarrow> nat \<Rightarrow> nat" where
  "ring_next c a = (if a + 2 = unat (nc_pstop c) * 256 then unat (nc_pstart c) * 256 else a + 2)"

definition chip_word :: "ne_chip \<Rightarrow> u16" where
  "chip_word c = ucast (nc_mem c (nc_rsar c)) OR push_bit 8 (ucast (nc_mem c (nc_rsar c + 1)))"

definition chip_advance :: "ne_chip \<Rightarrow> ne_chip" where
  "chip_advance c =
     (let c1 = c\<lparr>nc_rsar := ring_next c (nc_rsar c), nc_rbcr := nc_rbcr c - 2\<rparr>
      in if nc_rbcr c \<le> 2 then c1\<lparr>nc_isr := nc_isr c OR 0x40, nc_dma := None\<rparr> else c1)"

definition chip_store :: "u16 \<Rightarrow> ne_chip \<Rightarrow> ne_chip" where
  "chip_store w c = chip_advance (c\<lparr>nc_mem := (nc_mem c)(nc_rsar c := ucast w, nc_rsar c + 1 := ucast (drop_bit 8 w))\<rparr>)"

locale ne2000_card =
  fixes io :: "'d word_io" and base :: u16 and view :: "'d \<Rightarrow> ne_chip" and bound :: nat
  assumes few_polls: "bound < 100000"
    and out_law: "off < 16 \<Longrightarrow> \<exists>lat \<le> bound. view (outb io (base + off) v d) = chip_out lat off v (view d)"
    and status_law: "\<not> nc_page1 (view d) \<Longrightarrow> fst (inb io (base + 7) d) = chip_status (view d)"
      "\<not> nc_page1 (view d) \<Longrightarrow> view (snd (inb io (base + 7) d)) = chip_poll (view d)"
    and page_law: "nc_page1 (view d) \<Longrightarrow> fst (inb io (base + 7) d) = nc_curr (view d)"
      "nc_page1 (view d) \<Longrightarrow> view (snd (inb io (base + 7) d)) = view d"
      "\<not> nc_page1 (view d) \<Longrightarrow> fst (inb io (base + 3) d) = nc_bnd (view d)"
      "\<not> nc_page1 (view d) \<Longrightarrow> view (snd (inb io (base + 3) d)) = view d"
    and in_law: "nc_dma (view d) = Some False \<Longrightarrow> 0 < nc_rbcr (view d) \<Longrightarrow> fst (inw io (base + 16) d) = chip_word (view d)"
      "nc_dma (view d) = Some False \<Longrightarrow> 0 < nc_rbcr (view d) \<Longrightarrow> view (snd (inw io (base + 16) d)) = chip_advance (view d)"
    and word_law: "nc_dma (view d) = Some True \<Longrightarrow> 0 < nc_rbcr (view d) \<Longrightarrow> view (outw io (base + 16) w d) = chip_store w (view d)"
begin

lemma out_exact:
  assumes "off < 16" and "off \<noteq> 0 \<or> v AND 0x04 = 0"
  shows "view (outb io (base + off) v d) = chip_out 0 off v (view d)"
proof -
  obtain lat where "view (outb io (base + off) v d) = chip_out lat off v (view d)" using out_law [OF assms(1)] by blast
  then show ?thesis using assms(2) by (auto simp: chip_out_def chip_command_def)
qed

lemma outs_exact:
  "\<forall>(off, v) \<in> set ps. off < 16 \<and> (off \<noteq> 0 \<or> v AND 0x04 = 0) \<Longrightarrow>
     view (ne_outs io base ps d) = fold (\<lambda>(off, v). chip_out 0 off v) ps (view d)"
  unfolding ne_outs_def by (induction ps arbitrary: d) (auto simp: out_exact)

end

section \<open>Transfers\<close>

lemma and_byte: "(ucast (w AND 0xFF) :: u8) = ucast w" for w :: u16
proof -
  have m: "(0xFF :: u16) = mask 8" by (simp add: mask_eq_exp_minus_1)
  show ?thesis unfolding m by (intro bit_word_eqI) (auto simp: bit_simps)
qed

lemma byte_halves:
  fixes a :: u16
  shows "high_byte (low_byte n (ucast a)) (ucast (drop_bit 8 a)) = unat a"
proof -
  have "unat a < 65536" using unsigned_less [of a] by simp
  then show ?thesis unfolding high_byte_def low_byte_def
    by (simp add: unsigned_ucast_eq take_bit_eq_mod unsigned_drop_bit_eq drop_bit_eq_div unat_div)
qed

fun ring_bytes :: "ne_chip \<Rightarrow> nat \<Rightarrow> nat \<Rightarrow> u8 list" where
  "ring_bytes c a 0 = []"
| "ring_bytes c a (Suc 0) = [nc_mem c a]"
| "ring_bytes c a (Suc (Suc n)) = nc_mem c a # nc_mem c (a + 1) # ring_bytes c (ring_next c a) n"

lemma ring_bytes_cong:
  assumes "nc_mem c' = nc_mem c" and "nc_pstart c' = nc_pstart c" and "nc_pstop c' = nc_pstop c"
  shows "ring_bytes c' a n = ring_bytes c a n"
proof -
  have "ring_next c' b = ring_next c b" for b using assms by (simp add: ring_next_def)
  then show ?thesis using assms(1) by (induction c a n rule: ring_bytes.induct) simp_all
qed

lemma ring_bytes_length [simp]: "length (ring_bytes c a n) = n"
  by (induction c a n rule: ring_bytes.induct) simp_all

lemma word_halves: "ucast (chip_word c) = nc_mem c (nc_rsar c)" "ucast (drop_bit 8 (chip_word c)) = nc_mem c (nc_rsar c + 1)"
  unfolding chip_word_def by (rule bit_word_eqI, auto simp: bit_simps dest: bit_imp_le_length)+

lemma split_word: "(ucast (ucast b OR push_bit 8 (ucast e) :: u16) :: u8) = b" "(ucast (drop_bit 8 (ucast b OR push_bit 8 (ucast e) :: u16)) :: u8) = e"
  "(ucast (ucast b :: u16) :: u8) = b"
  for b e :: u8
  by (rule bit_word_eqI, auto simp: bit_simps dest: bit_imp_le_length)+

context ne2000_card begin

lemma remote_dma_view:
  assumes "cmd \<in> {0x0A, 0x12}"
  shows "view (remote_dma io base cmd a len d) =
    (view d)\<lparr>nc_page1 := False, nc_dma := Some (cmd = 0x12), nc_rsar := unat a, nc_rbcr := unat len\<rparr>"
proof -
  have "cmd = 0x0A \<or> cmd = 0x12" using assms by simp
  then show ?thesis
    unfolding remote_dma_def
    by (elim disjE) (subst outs_exact, simp, simp add: chip_out_def chip_command_def and_byte byte_halves)+
qed

lemma dma_in_view:
  "nc_dma (view d) = Some False \<Longrightarrow> nc_rbcr (view d) = n \<Longrightarrow> 0 < n \<Longrightarrow>
     fst (dma_in io (base + 16) n d) = ring_bytes (view d) (nc_rsar (view d)) n \<and>
     (\<exists>a. view (snd (dma_in io (base + 16) n d)) =
        (view d)\<lparr>nc_rsar := a, nc_rbcr := 0, nc_isr := nc_isr (view d) OR 0x40, nc_dma := None\<rparr>)"
proof (induction n arbitrary: d rule: induct_nat_012)
  case 1
  obtain w d1 where w: "inw io (base + 16) d = (w, d1)" by fastforce
  then have "w = chip_word (view d)" "view d1 = chip_advance (view d)" using in_law [of d] 1 by simp_all
  then show ?case using 1 w by (simp add: and_byte word_halves chip_advance_def Let_def) (auto intro!: exI)
next
  case (ge2 n)
  obtain w d1 where w: "inw io (base + 16) d = (w, d1)" by fastforce
  then have e: "w = chip_word (view d)" "view d1 = chip_advance (view d)" using in_law [of d] ge2 by simp_all
  obtain bs d2 where r: "dma_in io (base + 16) n d1 = (bs, d2)" by fastforce
  have v1: "view d1 = (view d)\<lparr>nc_rsar := ring_next (view d) (nc_rsar (view d)), nc_rbcr := n,
      nc_isr := (if n = 0 then nc_isr (view d) OR 0x40 else nc_isr (view d)), nc_dma := (if n = 0 then None else Some False)\<rparr>"
    using e(2) ge2(4) by (simp add: chip_advance_def Let_def ge2(3))
  have "bs = ring_bytes (view d) (ring_next (view d) (nc_rsar (view d))) n \<and>
      (\<exists>a. view d2 = (view d)\<lparr>nc_rsar := a, nc_rbcr := 0, nc_isr := nc_isr (view d) OR 0x40, nc_dma := None\<rparr>)"
  proof (cases "n = 0")
    case True
    then show ?thesis using r v1 by auto
  next
    case False
    then have i: "nc_dma (view d1) = Some False" "nc_rbcr (view d1) = n" "0 < n" using v1 by simp_all
    show ?thesis using ge2(1) [OF i] False unfolding r
      by (auto simp: v1 intro!: ring_bytes_cong)
  qed
  then show ?case using w r e(1) by (simp add: and_byte word_halves)
qed simp

text \<open>Storing below the end of the receive ring.\<close>

lemma dma_out_view:
  "nc_dma (view d) = Some True \<Longrightarrow> nc_rbcr (view d) = length src \<Longrightarrow> src \<noteq> [] \<Longrightarrow>
   nc_rsar (view d) + length src + 1 < unat (nc_pstop (view d)) * 256 \<Longrightarrow>
     \<exists>a m. view (dma_out io (base + 16) src d) =
        (view d)\<lparr>nc_mem := m, nc_rsar := a, nc_rbcr := 0, nc_isr := nc_isr (view d) OR 0x40, nc_dma := None\<rparr> \<and>
      (\<forall>i < length src. m (nc_rsar (view d) + i) = src ! i) \<and> (\<forall>j < nc_rsar (view d). m j = nc_mem (view d) j)"
proof (induction "length src" arbitrary: src d rule: less_induct)
  case less
  consider (one) b where "src = [b]" | (more) b e bs where "src = b # e # bs" using less(4) by (cases src rule: remdups_adj.cases) auto
  then show ?case
  proof cases
    case one
    have v: "view (outw io (base + 16) (ucast b) d) = chip_store (ucast b) (view d)" using less one by (intro word_law) auto
    show ?thesis unfolding one dma_out.simps v using less(3) one
      by (simp add: chip_store_def chip_advance_def Let_def split_word) (auto intro!: exI)
  next
    case more
    let ?w = "ucast b OR push_bit 8 (ucast e) :: u16"
    define a where "a = nc_rsar (view d)"
    define d1 where "d1 = outw io (base + 16) ?w d"
    have v: "view d1 = chip_store ?w (view d)" unfolding d1_def using less more by (intro word_law) auto
    have ne: "a + 2 \<noteq> unat (nc_pstop (view d)) * 256" using less(5) more by (simp add: a_def)
    have v1: "view d1 = (view d)\<lparr>nc_mem := (nc_mem (view d))(a := b, a + 1 := e), nc_rsar := a + 2, nc_rbcr := length bs,
        nc_isr := (if bs = [] then nc_isr (view d) OR 0x40 else nc_isr (view d)), nc_dma := (if bs = [] then None else nc_dma (view d))\<rparr>"
      unfolding v using less(2,3) more ne
      by (simp add: chip_store_def chip_advance_def ring_next_def Let_def split_word a_def del: drop_bit_or)
    show ?thesis
    proof (cases "bs = []")
      case True
      then show ?thesis using more v1
        by (simp add: d1_def [symmetric] a_def [symmetric]) (auto simp: less_Suc_eq intro!: exI)
    next
      case False
      have "length bs < length src" "nc_dma (view d1) = Some True" "nc_rbcr (view d1) = length bs"
        "nc_rsar (view d1) + length bs + 1 < unat (nc_pstop (view d1)) * 256"
        using False v1 more less(2,5) by (simp_all add: a_def)
      from less(1) [OF this(1-3) False this(4)] obtain x m where
        m: "view (dma_out io (base + 16) bs d1) = (view d1)\<lparr>nc_mem := m, nc_rsar := x, nc_rbcr := 0, nc_isr := nc_isr (view d1) OR 0x40, nc_dma := None\<rparr>"
          "\<forall>i < length bs. m (a + 2 + i) = bs ! i" "\<forall>j < a + 2. m j = nc_mem (view d1) j"
        using v1 by auto
      have "m (a + i) = src ! i" if i: "i < length src" for i
      proof (cases "i < 2")
        case True
        then show ?thesis using m(3) v1 more by (auto simp: less_Suc_eq numeral_2_eq_2)
      next
        case False
        then obtain k where "i = Suc (Suc k)" by (metis Suc_1 add_2_eq_Suc le_Suc_ex not_less)
        then show ?thesis using m(2) i more by (simp add: add.assoc)
      qed
      moreover have "m j = nc_mem (view d) j" if "j < a" for j using m(3) v1 that by simp
      moreover have "view (dma_out io (base + 16) src d) =
          (view d)\<lparr>nc_mem := m, nc_rsar := x, nc_rbcr := 0, nc_isr := nc_isr (view d) OR 0x40, nc_dma := None\<rparr>"
        using m(1) v1 more False by (simp add: d1_def [symmetric])
      ultimately show ?thesis unfolding a_def by blast
    qed
  qed
qed

lemma write_mem_view:
  assumes "src \<noteq> []" and "length src < 2 ^ 16" and "unat dst + length src + 1 < unat (nc_pstop (view d)) * 256" and "nc_tx (view d) = None"
  shows "\<exists>a m. view (ne2000_write_mem io base dst src d) =
        (view d)\<lparr>nc_page1 := False, nc_mem := m, nc_rsar := a, nc_rbcr := 0, nc_isr := nc_isr (view d) AND NOT 0x40, nc_dma := None\<rparr> \<and>
      (\<forall>i < length src. m (unat dst + i) = src ! i) \<and> (\<forall>j < unat dst. m j = nc_mem (view d) j)"
proof -
  define d1 where "d1 = remote_dma io base 0x12 dst (of_nat (length src)) d"
  have v1: "view d1 = (view d)\<lparr>nc_page1 := False, nc_dma := Some True, nc_rsar := unat dst, nc_rbcr := length src\<rparr>"
    unfolding d1_def using assms(2) by (simp add: remote_dma_view unat_of_nat)
  obtain a m where o: "view (dma_out io (base + 16) src d1) = (view d1)\<lparr>nc_mem := m, nc_rsar := a, nc_rbcr := 0, nc_isr := nc_isr (view d1) OR 0x40, nc_dma := None\<rparr>"
      "\<forall>i < length src. m (unat dst + i) = src ! i" "\<forall>j < unat dst. m j = nc_mem (view d1) j"
    using dma_out_view [of d1 src] assms v1 by auto
  define d2 where "d2 = dma_out io (base + 16) src d1"
  obtain isr d3 where i: "inb io (base + 7) d2 = (isr, d3)" by fastforce
  have p: "\<not> nc_page1 (view d2)" "nc_tx (view d2) = None" using o(1) v1 assms(4) by (simp_all add: d2_def)
  have isr: "isr = nc_isr (view d) OR 0x40" "view d3 = view d2"
    using status_law [OF p(1)] i p(2) o(1) v1 by (simp_all add: chip_status_def chip_poll_def d2_def)
  have "isr AND 0x40 = 0x40" unfolding isr(1) by (rule bit_word_eqI) (auto simp: bit_simps)
  then have "ne2000_write_mem io base dst src d = ne_outs io base [(7, 0x40)] d3"
    unfolding ne2000_write_mem_def d1_def [symmetric] d2_def [symmetric] using i
    by (simp add: dma_wait.simps(2) [of io base 99999, simplified])
  moreover have "view (ne_outs io base [(7, 0x40)] d3) = (view d3)\<lparr>nc_isr := isr AND NOT 0x40\<rparr>" 
    using isr p o(1) v1 by (subst outs_exact) (simp_all add: chip_out_def d2_def)
  moreover have "isr AND NOT 0x40 = nc_isr (view d) AND NOT 0x40" unfolding isr(1) by (rule bit_word_eqI) (auto simp: bit_simps)
  ultimately show ?thesis using o isr(2) v1 by (intro exI [of _ a] exI [of _ m]) (simp add: d2_def)
qed

lemma idle_bits:
  assumes "x AND 0x0A = (0 :: u8)"
  shows "x AND 0x02 = 0" and "x AND 0x08 = 0"
proof -
  have "x AND 0x02 = (x AND 0x0A) AND 0x02" "x AND 0x08 = (x AND 0x0A) AND 0x08" by (simp_all add: and.assoc)
  then show "x AND 0x02 = 0" "x AND 0x08 = 0" using assms by simp_all
qed

lemma tx_wait_view:
  "nc_tx (view d) = Some lat \<Longrightarrow> lat < n \<Longrightarrow> \<not> nc_page1 (view d) \<Longrightarrow> nc_isr (view d) AND 0x0A = 0 \<Longrightarrow>
     \<exists>d1. tx_wait io base n d = (0, d1) \<and> view d1 = (view d)\<lparr>nc_tx := None, nc_isr := nc_isr (view d) AND NOT 0x02\<rparr>"
proof (induction n arbitrary: d lat)
  case (Suc n)
  obtain isr d1 where i: "inb io (base + 7) d = (isr, d1)" by fastforce
  have s: "isr = chip_status (view d)" "view d1 = chip_poll (view d)" using status_law [OF Suc.prems(3)] i by simp_all
  show ?case
  proof (cases lat)
    case 0
    have e: "isr = nc_isr (view d) OR 0x02" using s(1) Suc.prems(1) 0 by (simp add: chip_status_def)
    have "bit (isr AND 0x02) 1" unfolding e by (simp add: bit_and_iff bit_or_iff)
    then have "isr AND 0x02 \<noteq> 0" by auto
    moreover have "view (ne_outs io base [(7, 0x02)] d1) = (view d)\<lparr>nc_tx := None, nc_isr := nc_isr (view d) AND NOT 0x02\<rparr>"
      using s(2) Suc.prems 0 by (subst outs_exact) (simp_all add: chip_out_def chip_poll_def)
    ultimately show ?thesis using i by simp
  next
    case (Suc k)
    have e: "isr = nc_isr (view d)" using s(1) \<open>nc_tx (view d) = Some lat\<close> Suc by (simp add: chip_status_def)
    have "isr AND 0x02 = 0" "isr AND 0x08 = 0" unfolding e using idle_bits [OF Suc.prems(4)] by simp_all
    moreover have v: "view d1 = (view d)\<lparr>nc_tx := Some k\<rparr>" using s(2) \<open>nc_tx (view d) = Some lat\<close> Suc by (simp add: chip_poll_def)
    then obtain d2 where "tx_wait io base n d1 = (0, d2)" "view d2 = (view d1)\<lparr>nc_tx := None, nc_isr := nc_isr (view d1) AND NOT 0x02\<rparr>"
      using Suc.IH [of d1 k] Suc.prems Suc by auto
    ultimately show ?thesis using i v by simp
  qed
qed simp

end

text \<open>A card that is idle: no transmission runs, and no result of one is left in the status.\<close>

definition card_idle :: "ne_chip \<Rightarrow> bool" where
  "card_idle c \<longleftrightarrow> nc_tx c = None \<and> nc_isr c AND 0x0A = 0 \<and> nc_pstart c = NE_RXSTART \<and> nc_pstop c = NE_RXSTOP"

lemma clear_keeps: "x AND 0x0A = 0 \<Longrightarrow> (x AND y) AND 0x0A = (0 :: u8)"
proof -
  assume x: "x AND 0x0A = 0"
  have "(x AND y) AND 0x0A = (x AND 0x0A) AND y" by (rule bit_word_eqI) (auto simp: bit_and_iff)
  then show ?thesis using x by simp
qed

context ne2000_card begin

lemma send_view:
  assumes c: "card_idle (view (ne_dev st))" and st: "ne_initialized st" "ne_base st = base" and len: "14 \<le> len" "len \<le> 1514"
  shows "\<exists>st1. ne2000_send io m data len st = (0, st1) \<and> card_idle (view (ne_dev st1)) \<and>
    nc_sent (view (ne_dev st1)) = nc_sent (view (ne_dev st)) @ [read_bytes m data (max 60 (unat len))]"
proof -
  let ?d = "ne_dev st"
  define len1 where "len1 = (if len < 60 then 60 else len)"
  have l: "unat len1 = max 60 (unat len)" "unat len1 \<le> 1514" using len by (auto simp: len1_def word_less_nat_alt word_le_nat_alt)
  define src where "src = read_bytes m data (unat len1)"
  have src: "length src = unat len1" "src \<noteq> []" using l by (auto simp: src_def simp flip: length_0_conv)
  have tx: "push_bit 8 (ucast NE_TXSTART) = (0x4000 :: u16)" by (simp add: NE_TXSTART_def)
  obtain a b where w: "view (ne2000_write_mem io base 0x4000 src ?d) =
        (view ?d)\<lparr>nc_page1 := False, nc_mem := b, nc_rsar := a, nc_rbcr := 0, nc_isr := nc_isr (view ?d) AND NOT 0x40, nc_dma := None\<rparr>"
      "\<forall>i < length src. b (0x4000 + i) = src ! i"
    using write_mem_view [of src "0x4000" ?d] c l src by (auto simp: card_idle_def NE_RXSTOP_def)
  define d1 where "d1 = ne2000_write_mem io base 0x4000 src ?d"
  define d2 where "d2 = ne_outs io base [(0x04, NE_TXSTART), (0x05, ucast (len1 AND 0xFF)), (0x06, ucast (drop_bit 8 len1))] d1"
  have v2: "view d2 = (view d1)\<lparr>nc_tpsr := NE_TXSTART, nc_tbcr := unat len1\<rparr>"
    unfolding d2_def using w(1) by (subst outs_exact) (simp_all add: chip_out_def d1_def byte_halves and_byte)
  obtain lat where lat: "lat \<le> bound" "view (outb io (base + 0) 0x26 d2) = chip_out lat 0 0x26 (view d2)" using out_law [of 0 "0x26" d2] by auto
  define d3 where "d3 = outb io base 0x26 d2"
  have sent: "map (\<lambda>i. nc_mem (view d2) (unat NE_TXSTART * 256 + i)) [0..<unat len1] = src"
    using w src by (intro nth_equalityI) (simp_all add: v2 d1_def NE_TXSTART_def)
  have v3: "view d3 = (view d2)\<lparr>nc_page1 := False, nc_dma := None, nc_sent := nc_sent (view ?d) @ [src], nc_tx := Some lat\<rparr>"
    using lat(2) sent w(1) v2 by (simp add: d3_def chip_out_def chip_command_def d1_def)
  have "nc_isr (view d3) AND 0x0A = 0" using v3 v2 w(1) c by (simp add: d1_def card_idle_def clear_keeps)
  then obtain d4 where d4: "tx_wait io base 100000 d3 = (0, d4)" "view d4 = (view d3)\<lparr>nc_tx := None, nc_isr := nc_isr (view d3) AND NOT 0x02\<rparr>"
    using tx_wait_view [of d3 lat 100000] v3 lat(1) few_polls by auto
  have outs: "ne_outs io base [(0x04, NE_TXSTART), (0x05, ucast (len1 AND 0xFF)), (0x06, ucast (drop_bit 8 len1)), (0x00, 0x26)] d1 = d3"
    by (simp add: ne_outs_def d3_def d2_def)
  have "\<not> (len < 14 \<or> 1514 < len)" using len by auto
  then have "ne2000_send io m data len st = (0, st\<lparr>ne_dev := d4\<rparr>)"
    unfolding ne2000_send_def len1_def [symmetric] Let_def tx st(2) src_def [symmetric] d1_def [symmetric] outs d4(1) using st(1) by simp
  moreover have "card_idle (view d4)" using d4(2) v3 v2 w(1) c by (simp add: card_idle_def d1_def clear_keeps)
  ultimately show ?thesis using d4(2) v3 by (simp add: src_def l(1))
qed

end

section \<open>The receive ring\<close>

text \<open>The address of byte \<open>k\<close> from the start of page \<open>p\<close> on, in the pages 0x46 to 0x7F.\<close>

definition ring_at :: "nat \<Rightarrow> nat \<Rightarrow> nat" where
  "ring_at p k = (if p * 256 + k < 32768 then p * 256 + k else p * 256 + k - 14848)"

definition page_ok :: "u8 \<Rightarrow> bool" where
  "page_ok p \<longleftrightarrow> NE_RXSTART \<le> p \<and> p < NE_RXSTOP"

lemma page_okD: "page_ok p \<Longrightarrow> 70 \<le> unat p \<and> unat p < 128"
  by (simp add: page_ok_def NE_RXSTART_def NE_RXSTOP_def word_le_nat_alt word_less_nat_alt)

lemma ring_at_inj: "j < 14848 \<Longrightarrow> k < 14848 \<Longrightarrow> p < 128 \<Longrightarrow> 70 \<le> p \<Longrightarrow> ring_at p j = ring_at p k \<longleftrightarrow> j = k"
  by (auto simp: ring_at_def)

lemma ring_bytes_at:
  assumes "nc_pstart c = NE_RXSTART" and "nc_pstop c = NE_RXSTOP" and p: "70 \<le> p" "p < 128"
  shows "even k \<Longrightarrow> k + n \<le> 14848 \<Longrightarrow> ring_bytes c (ring_at p k) n = map (\<lambda>i. nc_mem c (ring_at p (k + i))) [0..<n]"
proof (induction n arbitrary: k rule: induct_nat_012)
  case 1
  then show ?case by simp
next
  case (ge2 n)
  have b: "unat (nc_pstart c) * 256 = 17920" "unat (nc_pstop c) * 256 = 32768"
    unfolding assms(1,2) by (simp_all add: NE_RXSTART_def NE_RXSTOP_def)
  have "even (p * 256 + k)" using ge2.prems(1) by simp
  then have "p * 256 + k + 1 \<noteq> 32768" by presburger
  then have a: "ring_at p k + 1 = ring_at p (k + 1)" "ring_next c (ring_at p k) = ring_at p (k + 2)"
    using p ge2.prems(2) unfolding ring_next_def b by (auto simp: ring_at_def)
  have "ring_bytes c (ring_at p (k + 2)) n = map (\<lambda>i. nc_mem c (ring_at p (k + 2 + i))) [0..<n]"
    using ge2.IH(1) [of "k + 2"] ge2.prems by simp
  moreover have "[0..<Suc (Suc n)] = 0 # 1 # map (\<lambda>i. i + 2) [0..<n]" 
    by (intro nth_equalityI) (auto simp: nth_Cons simp del: upt_Suc split: nat.split)
  ultimately show ?case using a by (simp add: comp_def add.assoc)
qed simp

lemma page_addr: "unat (push_bit 8 (ucast p :: u16)) = unat p * 256" for p :: u8
proof -
  have "unat (ucast p :: u16) = unat p" using u8_bound [of p] by (simp add: unsigned_ucast_eq take_bit_eq_mod)
  then show ?thesis using u8_bound [of p] by (simp add: push_bit_eq_mult unat_word_ariths)
qed

lemma page_addr4: "unat (push_bit 8 (ucast p) + 4 :: u16) = unat p * 256 + 4" for p :: u8
  using u8_bound [of p] by (simp add: unat_word_ariths page_addr del: push_bit_numeral)

lemma total_word: "unat (ucast lo OR push_bit 8 (ucast hi) :: u16) = unat lo + 256 * unat hi" for lo hi :: u8
proof -
  have "ucast lo AND push_bit 8 (ucast hi) = (0 :: u16)" by (rule bit_word_eqI) (auto simp: bit_simps dest: bit_imp_le_length)
  then have "ucast lo OR push_bit 8 (ucast hi) = ucast lo + (push_bit 8 (ucast hi) :: u16)" by (rule disjunctive_add_eq_or [symmetric])
  moreover have "unat (ucast lo :: u16) = unat lo" using u8_bound [of lo] by (simp add: unsigned_ucast_eq take_bit_eq_mod)
  ultimately show ?thesis using u8_bound [of lo] u8_bound [of hi] by (simp add: unat_word_ariths page_addr)
qed

definition rx_total :: "ne_chip \<Rightarrow> nat \<Rightarrow> nat" where
  "rx_total c p = unat (nc_mem c (ring_at p 2)) + 256 * unat (nc_mem c (ring_at p 3))"

definition rx_page :: "ne_chip \<Rightarrow> u8" where
  "rx_page c = (if nc_bnd c + 1 \<ge> NE_RXSTOP then NE_RXSTART else nc_bnd c + 1)"

context ne2000_card begin

lemma read_mem_view:
  assumes "0 < len"
  shows "fst (ne2000_read_mem io base a len d) = ring_bytes (view d) (unat a) (unat len) \<and>
    (\<exists>x. view (snd (ne2000_read_mem io base a len d)) =
       (view d)\<lparr>nc_page1 := False, nc_dma := None, nc_rsar := x, nc_rbcr := 0, nc_isr := nc_isr (view d) OR 0x40\<rparr>)"
proof -
  define d1 where "d1 = remote_dma io base 0x0A a len d"
  have v: "view d1 = (view d)\<lparr>nc_page1 := False, nc_dma := Some False, nc_rsar := unat a, nc_rbcr := unat len\<rparr>"
    unfolding d1_def by (simp add: remote_dma_view)
  have "0 < unat len" using assms by (simp add: word_less_nat_alt)
  then obtain x where x: "fst (dma_in io (base + 16) (unat len) d1) = ring_bytes (view d1) (unat a) (unat len)"
      "view (snd (dma_in io (base + 16) (unat len) d1)) = (view d1)\<lparr>nc_rsar := x, nc_rbcr := 0, nc_isr := nc_isr (view d) OR 0x40, nc_dma := None\<rparr>"
    using dma_in_view [of d1 "unat len"] v by auto
  have "ring_bytes (view d1) (unat a) (unat len) = ring_bytes (view d) (unat a) (unat len)" by (rule ring_bytes_cong) (simp_all add: v)
  moreover have "view (snd (dma_in io (base + 16) (unat len) d1)) =
      (view d)\<lparr>nc_page1 := False, nc_dma := None, nc_rsar := x, nc_rbcr := 0, nc_isr := nc_isr (view d) OR 0x40\<rparr>"
    unfolding x(2) v by simp
  ultimately show ?thesis unfolding ne2000_read_mem_def d1_def [symmetric] using x(1) by auto
qed

text \<open>What a call that finds a packet does, from the poll of the status to the boundary register.\<close>

lemma recv_start:
  assumes c: "\<not> nc_page1 (view d)" "nc_tx (view d) = None"
  shows "\<exists>d1 d2 d3. inb io (base + 7) d = (nc_isr (view d), d1) \<and>
    inb io (base + 7) (ne_outs io base [(0x07, 0x01), (0x00, 0x62)] d1) = (nc_curr (view d), d2) \<and>
    inb io (base + 3) (ne_outs io base [(0x00, 0x22)] d2) = (nc_bnd (view d), d3) \<and>
    view d3 = (view d)\<lparr>nc_page1 := False, nc_dma := None, nc_isr := nc_isr (view d) AND NOT 0x01\<rparr>"
proof -
  obtain x1 d1 where d1: "inb io (base + 7) d = (x1, d1)" by fastforce
  have e1: "x1 = nc_isr (view d)" "view d1 = view d"
    using status_law [OF c(1)] d1 c(2) by (simp_all add: chip_status_def chip_poll_def)
  define f1 where "f1 = ne_outs io base [(0x07, 0x01), (0x00, 0x62)] d1"
  have f1: "view f1 = (view d)\<lparr>nc_page1 := True, nc_dma := None, nc_isr := nc_isr (view d) AND NOT 0x01\<rparr>"
    unfolding f1_def using e1(2) c by (subst outs_exact) (simp_all add: chip_out_def chip_command_def)
  obtain x2 d2 where d2: "inb io (base + 7) f1 = (x2, d2)" by fastforce
  have e2: "x2 = nc_curr (view d)" "view d2 = view f1" using page_law(1,2) [of f1] d2 f1 by simp_all
  define f2 where "f2 = ne_outs io base [(0x00, 0x22)] d2"
  have f2: "view f2 = (view d)\<lparr>nc_page1 := False, nc_dma := None, nc_isr := nc_isr (view d) AND NOT 0x01\<rparr>"
    unfolding f2_def using e2(2) f1 by (subst outs_exact) (simp_all add: chip_out_def chip_command_def)
  obtain x3 d3 where d3: "inb io (base + 3) f2 = (x3, d3)" by fastforce
  have e3: "x3 = nc_bnd (view d)" "view d3 = view f2" using page_law(3,4) [of f2] d3 f2 by simp_all
  show ?thesis using d1 e1 d2 e2 d3 e3 f2 by (intro exI [of _ d1] exI [of _ d2] exI [of _ d3]) (simp add: f1_def f2_def)
qed

lemma read_header:
  assumes p: "page_ok p" and ring: "nc_pstart (view d) = NE_RXSTART" "nc_pstop (view d) = NE_RXSTOP"
  shows "\<exists>d1 x. ne2000_read_mem io base (push_bit 8 (ucast p)) 4 d = (map (\<lambda>i. nc_mem (view d) (ring_at (unat p) i)) [0..<4], d1) \<and>
    view d1 = (view d)\<lparr>nc_page1 := False, nc_dma := None, nc_rsar := x, nc_rbcr := 0, nc_isr := nc_isr (view d) OR 0x40\<rparr>"
proof -
  have a: "unat (push_bit 8 (ucast p :: u16)) = ring_at (unat p) 0" using page_okD [OF p] by (simp add: page_addr ring_at_def)
  have "ring_bytes (view d) (ring_at (unat p) 0) 4 = map (\<lambda>i. nc_mem (view d) (ring_at (unat p) (0 + i))) [0..<4]"
    using page_okD [OF p] by (intro ring_bytes_at ring) auto
  then show ?thesis using read_mem_view [of 4 "push_bit 8 (ucast p)" d] unfolding a
    by (cases "ne2000_read_mem io base (push_bit 8 (ucast p)) 4 d") (auto simp del: upt_rec_numeral)
qed

lemma read_packet:
  assumes p: "page_ok p" and ring: "nc_pstart (view d) = NE_RXSTART" "nc_pstop (view d) = NE_RXSTOP" and len: "0 < len" "unat len \<le> 1514"
  shows "\<exists>d1 x. ne2000_read_mem io base (push_bit 8 (ucast p) + 4) len d =
      (map (\<lambda>i. nc_mem (view d) (ring_at (unat p) (4 + i))) [0..<unat len], d1) \<and>
    view d1 = (view d)\<lparr>nc_page1 := False, nc_dma := None, nc_rsar := x, nc_rbcr := 0, nc_isr := nc_isr (view d) OR 0x40\<rparr>"
proof -
  have a: "unat (push_bit 8 (ucast p) + 4 :: u16) = ring_at (unat p) 4" using page_okD [OF p] by (simp add: page_addr4 ring_at_def)
  have "ring_bytes (view d) (ring_at (unat p) 4) (unat len) = map (\<lambda>i. nc_mem (view d) (ring_at (unat p) (4 + i))) [0..<unat len]"
    using page_okD [OF p] len by (intro ring_bytes_at ring) auto
  then show ?thesis using read_mem_view [OF len(1), of "push_bit 8 (ucast p) + 4" d] unfolding a
    by (cases "ne2000_read_mem io base (push_bit 8 (ucast p) + 4) len d") auto
qed

lemma recv_view:
  assumes st: "ne_initialized st" "ne_base st = base" and v: "view (ne_dev st) = v"
    and c: "\<not> nc_page1 v" "nc_tx v = None" "nc_isr v AND 0x01 \<noteq> 0" "nc_pstart v = NE_RXSTART" "nc_pstop v = NE_RXSTOP"
    and p: "p = rx_page v" "page_ok p" "p \<noteq> nc_curr v"
    and n: "n = rx_total v (unat p) - 4" "4 < rx_total v (unat p)" "rx_total v (unat p) \<le> 1518" "n \<le> unat max_len"
  shows "\<exists>d x. ne2000_recv io max_len st = ((int n, map (\<lambda>i. nc_mem v (ring_at (unat p) (4 + i))) [0..<n]), st\<lparr>ne_dev := d\<rparr>) \<and>
    view d = v\<lparr>nc_page1 := False, nc_dma := None, nc_rsar := x, nc_rbcr := 0, nc_isr := (nc_isr v AND NOT 0x01) OR 0x40,
      nc_bnd := before_page (nc_mem v (ring_at (unat p) 1))\<rparr>"
proof -
  obtain d1 d2 d3 where s: "inb io (base + 7) (ne_dev st) = (nc_isr v, d1)"
      "inb io (base + 7) (ne_outs io base [(0x07, 0x01), (0x00, 0x62)] d1) = (nc_curr v, d2)"
      "inb io (base + 3) (ne_outs io base [(0x00, 0x22)] d2) = (nc_bnd v, d3)"
      "view d3 = v\<lparr>nc_page1 := False, nc_dma := None, nc_isr := nc_isr v AND NOT 0x01\<rparr>"
    using recv_start [of "ne_dev st", unfolded v, OF c(1,2)] by blast
  obtain d4 x4 where h: "ne2000_read_mem io base (push_bit 8 (ucast p)) 4 d3 = (map (\<lambda>i. nc_mem v (ring_at (unat p) i)) [0..<4], d4)"
      "view d4 = v\<lparr>nc_page1 := False, nc_dma := None, nc_rsar := x4, nc_rbcr := 0, nc_isr := (nc_isr v AND NOT 0x01) OR 0x40\<rparr>"
    using read_header [OF p(2), of d3] s(4) c(4,5) by auto
  define header where "header = map (\<lambda>i. nc_mem v (ring_at (unat p) i)) [0..<4]"
  define len where "len = (ucast (header ! 2) OR push_bit 8 (ucast (header ! 3)) :: u16)"
  have hd: "header ! 1 = nc_mem v (ring_at (unat p) 1)" "header ! 2 = nc_mem v (ring_at (unat p) 2)" "header ! 3 = nc_mem v (ring_at (unat p) 3)"
    by (simp_all add: header_def numeral_2_eq_2)
  have l: "unat len = rx_total v (unat p)" by (simp add: len_def hd rx_total_def total_word)
  then have "4 \<le> len" "len \<le> 1518" using n by (simp_all add: word_le_nat_alt)
  have l4: "unat (len - 4) = n" using l n(1,2) \<open>4 \<le> len\<close> by (simp add: unat_sub)
  have lm: "\<not> max_len < len - 4" using n(4) l4 by (simp add: word_less_nat_alt)
  have pos: "0 < len - 4" "unat (len - 4) \<le> 1514" using l4 n(1-3) by (simp_all add: word_less_nat_alt)
  obtain d5 x5 where b: "ne2000_read_mem io base (push_bit 8 (ucast p) + 4) (len - 4) d4 =
        (map (\<lambda>i. nc_mem v (ring_at (unat p) (4 + i))) [0..<n], d5)"
      "view d5 = v\<lparr>nc_page1 := False, nc_dma := None, nc_rsar := x5, nc_rbcr := 0, nc_isr := (nc_isr v AND NOT 0x01) OR 0x40\<rparr>"
    using read_packet [OF p(2) _ _ pos, of d4] h(2) c(4,5) by (auto simp: l4)
  define d6 where "d6 = ne_outs io base [(0x03, before_page (header ! 1))] d5"
  have d6: "view d6 = v\<lparr>nc_page1 := False, nc_dma := None, nc_rsar := x5, nc_rbcr := 0, nc_isr := (nc_isr v AND NOT 0x01) OR 0x40,
      nc_bnd := before_page (nc_mem v (ring_at (unat p) 1))\<rparr>"
    unfolding d6_def hd(1) using b(2) by (subst outs_exact) (simp_all add: chip_out_def)
  have pg: "(if NE_RXSTOP \<le> nc_bnd v + 1 then NE_RXSTART else nc_bnd v + 1) = p" unfolding p(1) rx_page_def by simp
  have "ne2000_recv io max_len st = ((int n, map (\<lambda>i. nc_mem v (ring_at (unat p) (4 + i))) [0..<n]), st\<lparr>ne_dev := d6\<rparr>)"
    unfolding ne2000_recv_def Let_def st(2) s(1-3) prod.case pg h(1) header_def [symmetric] len_def [symmetric] if_not_P [OF lm] b(1) l4 d6_def
    using st(1) c(3) p(3) \<open>4 \<le> len\<close> \<open>len \<le> 1518\<close> by (simp add: not_less)
  then show ?thesis using d6 by blast
qed

text \<open>A call that finds the packet bit clear.\<close>

lemma recv_none:
  assumes st: "ne_initialized st" "ne_base st = base"
    and c: "\<not> nc_page1 (view (ne_dev st))" "nc_tx (view (ne_dev st)) = None" "nc_isr (view (ne_dev st)) AND 0x01 = 0"
  shows "\<exists>d. ne2000_recv io max_len st = ((0, []), st\<lparr>ne_dev := d\<rparr>) \<and> view d = view (ne_dev st)"
proof -
  obtain x1 d1 where d1: "inb io (base + 7) (ne_dev st) = (x1, d1)" by fastforce
  have "x1 = nc_isr (view (ne_dev st))" "view d1 = view (ne_dev st)"
    using status_law [OF c(1)] d1 c(2) by (simp_all add: chip_status_def chip_poll_def)
  then show ?thesis using d1 st c(3) by (intro exI [of _ d1]) (simp add: ne2000_recv_def)
qed

end

section \<open>What the card stores\<close>

text \<open>A received frame: a header with the next page and the length, then the bytes, from the current page on.  The pages
  count the frame's checksum of four bytes too, which the driver never reads and the model does not store.\<close>

definition rx_pages :: "u8 list \<Rightarrow> nat" where
  "rx_pages f = (length f + 8 + 255) div 256"

definition page_after :: "u8 \<Rightarrow> nat \<Rightarrow> u8" where
  "page_after p k = (if unat p + k \<ge> 128 then of_nat (unat p + k - 58) else of_nat (unat p + k))"

definition packet_bytes :: "u8 \<Rightarrow> u8 list \<Rightarrow> u8 list" where
  "packet_bytes next_pg f = [1, next_pg, of_nat ((length f + 4) mod 256), of_nat ((length f + 4) div 256)] @ f"

definition chip_deliver :: "u8 list \<Rightarrow> ne_chip \<Rightarrow> ne_chip" where
  "chip_deliver f c =
     (let next_pg = page_after (nc_curr c) (rx_pages f)
      in c\<lparr>nc_mem := fold (\<lambda>k m. m(ring_at (unat (nc_curr c)) k := packet_bytes next_pg f ! k)) [0..<length f + 4] (nc_mem c),
           nc_curr := next_pg, nc_isr := nc_isr c OR 0x01\<rparr>)"

lemma fold_store_other: "(\<forall>k < n. x \<noteq> a k) \<Longrightarrow> fold (\<lambda>k m. m(a k := b k)) [0..<n] m x = m x"
  by (induction n) simp_all

lemma fold_store_at: "inj_on a {..<n} \<Longrightarrow> j < n \<Longrightarrow> fold (\<lambda>k m. m(a k := b k)) [0..<n] m (a j) = b j"
proof (induction n)
  case (Suc n)
  have i: "inj_on a {..<n}" using Suc.prems(1) by (rule inj_on_subset) auto
  have "a j \<noteq> a n" if "j < n" using Suc.prems(1) that by (auto simp: inj_on_def)
  then show ?case using Suc.IH [OF i] Suc.prems(2) by (cases "j = n") auto
qed simp

lemma ring_inj: "page_ok p \<Longrightarrow> n \<le> 14848 \<Longrightarrow> inj_on (ring_at (unat p)) {..<n}"
  using ring_at_inj page_okD [of p] by (auto simp: inj_on_def)

lemma page_after_unat:
  assumes "page_ok p" and "k < 58"
  shows "unat (page_after p k) = (if unat p + k \<ge> 128 then unat p + k - 58 else unat p + k)"
proof -
  have n: "unat (of_nat n :: u8) = n" if "n < 256" for n using that by (simp add: unat_of_nat)
  show ?thesis
  proof (cases "unat p + k \<ge> 128")
    case True
    then show ?thesis unfolding page_after_def using page_okD [OF assms(1)] assms(2) n [of "unat p + k - 58"] by simp
  next
    case False
    then show ?thesis unfolding page_after_def using n [of "unat p + k"] by simp
  qed
qed

lemma page_after_ok: "page_ok p \<Longrightarrow> k < 58 \<Longrightarrow> page_ok (page_after p k)" "page_ok p \<Longrightarrow> 0 < k \<Longrightarrow> k < 58 \<Longrightarrow> page_after p k \<noteq> p"
proof -
  show "page_ok (page_after p k)" if "page_ok p" "k < 58"
    using page_okD [OF that(1)] page_after_unat [OF that] that(2)
    by (auto simp: page_ok_def NE_RXSTART_def NE_RXSTOP_def word_le_nat_alt word_less_nat_alt)
  show "page_after p k \<noteq> p" if "page_ok p" "0 < k" "k < 58"
  proof
    assume "page_after p k = p"
    then have "unat p = (if unat p + k \<ge> 128 then unat p + k - 58 else unat p + k)" using page_after_unat [OF that(1,3)] by simp
    then show False using that(2,3) by (auto split: if_splits)
  qed
qed

lemma ring_at_shift: "page_ok p \<Longrightarrow> k < 58 \<Longrightarrow> 256 * k + j < 14848 \<Longrightarrow> ring_at (unat (page_after p k)) j = ring_at (unat p) (256 * k + j)"
  using page_okD [of p] unfolding page_after_unat by (auto simp: ring_at_def)

lemma rx_page_before: "page_ok p \<Longrightarrow> (if before_page p + 1 \<ge> NE_RXSTOP then NE_RXSTART else before_page p + 1) = p"
  unfolding page_ok_def before_page_def NE_RXSTART_def NE_RXSTOP_def by (auto simp: not_le not_less)

definition ring_ready :: "ne_chip \<Rightarrow> bool" where
  "ring_ready c \<longleftrightarrow> \<not> nc_page1 c \<and> nc_tx c = None \<and> nc_pstart c = NE_RXSTART \<and> nc_pstop c = NE_RXSTOP \<and>
     page_ok (nc_curr c) \<and> nc_bnd c = before_page (nc_curr c) \<and> nc_isr c AND 0x01 = 0"

text \<open>A frame that lies at page \<open>p\<close>.\<close>

definition frame_at :: "ne_chip \<Rightarrow> u8 \<Rightarrow> u8 list \<Rightarrow> bool" where
  "frame_at c p f \<longleftrightarrow> (\<forall>k < length f + 4. nc_mem c (ring_at (unat p) k) = packet_bytes (page_after p (rx_pages f)) f ! k)"

lemma deliver_frame: "page_ok (nc_curr c) \<Longrightarrow> length f \<le> 1514 \<Longrightarrow> frame_at (chip_deliver f c) (nc_curr c) f"
  unfolding frame_at_def chip_deliver_def Let_def by (simp add: fold_store_at [OF ring_inj])

lemma deliver_keeps_frame:
  assumes p: "page_ok p" "nc_curr c = page_after p (rx_pages f)" and l: "length f \<le> 1514" "length g \<le> 1514" and f: "frame_at c p f"
  shows "frame_at (chip_deliver g c) p f"
proof -
  have n: "rx_pages f < 58" "length f + 4 \<le> 256 * rx_pages f" "256 * rx_pages f + length g + 4 \<le> 14848" using l by (simp_all add: rx_pages_def)
  have "ring_at (unat p) k \<noteq> ring_at (unat (nc_curr c)) j" if "k < length f + 4" "j < length g + 4" for k j
  proof -
    have "ring_at (unat (nc_curr c)) j = ring_at (unat p) (256 * rx_pages f + j)" unfolding p(2) using n that by (intro ring_at_shift p(1)) simp_all
    then show ?thesis using ring_at_inj [of k "256 * rx_pages f + j" "unat p"] page_okD [OF p(1)] n that by simp
  qed
  then have "nc_mem (chip_deliver g c) (ring_at (unat p) k) = nc_mem c (ring_at (unat p) k)" if "k < length f + 4" for k
    unfolding chip_deliver_def Let_def using that by (simp add: fold_store_other)
  then show ?thesis using f by (simp add: frame_at_def)
qed

lemma frame_total:
  assumes "frame_at c p f" and "length f \<le> 1514"
  shows "rx_total c (unat p) = length f + 4" and "nc_mem c (ring_at (unat p) 1) = page_after p (rx_pages f)"
    and "map (\<lambda>i. nc_mem c (ring_at (unat p) (4 + i))) [0..<length f] = f"
proof -
  have b: "nc_mem c (ring_at (unat p) k) = packet_bytes (page_after p (rx_pages f)) f ! k" if "k < length f + 4" for k
    using assms(1) that by (simp add: frame_at_def)
  have u: "unat (of_nat ((length f + 4) mod 256) :: u8) = (length f + 4) mod 256" "unat (of_nat ((length f + 4) div 256) :: u8) = (length f + 4) div 256"
    using assms(2) unfolding unat_of_nat by simp_all
  have "nc_mem c (ring_at (unat p) 2) = of_nat ((length f + 4) mod 256)" "nc_mem c (ring_at (unat p) 3) = of_nat ((length f + 4) div 256)"
    using b [of 2] b [of 3] by (simp_all add: packet_bytes_def)
  then show "rx_total c (unat p) = length f + 4" unfolding rx_total_def using u by simp
  show "nc_mem c (ring_at (unat p) 1) = page_after p (rx_pages f)" using b [of 1] by (simp add: packet_bytes_def)
  show "map (\<lambda>i. nc_mem c (ring_at (unat p) (4 + i))) [0..<length f] = f"
    using b by (intro nth_equalityI) (simp_all add: packet_bytes_def)
qed

lemma status_bits: "(x OR 0x01) AND 0x01 \<noteq> (0 :: u8)" "((x AND NOT 0x01) OR 0x40) AND 0x01 = (0 :: u8)"
proof -
  have "bit ((x OR 0x01) AND 0x01) 0" by (simp add: bit_and_iff bit_or_iff)
  then show "(x OR 0x01) AND 0x01 \<noteq> 0" by auto
  show "((x AND NOT 0x01) OR 0x40) AND 0x01 = 0" by (rule bit_word_eqI) (auto simp: bit_and_iff bit_or_iff bit_not_iff bit_1_iff)
qed

text \<open>The state of the card after a call that took the frame at page \<open>p\<close>.\<close>

definition taken :: "ne_chip \<Rightarrow> u8 \<Rightarrow> u8 list \<Rightarrow> nat \<Rightarrow> ne_chip" where
  "taken c p f x = c\<lparr>nc_page1 := False, nc_dma := None, nc_rsar := x, nc_rbcr := 0, nc_isr := (nc_isr c AND NOT 0x01) OR 0x40,
     nc_bnd := before_page (page_after p (rx_pages f))\<rparr>"

context ne2000_card begin

lemma recv_frame:
  assumes st: "ne_initialized st" "ne_base st = base" and v: "view (ne_dev st) = v"
    and c: "\<not> nc_page1 v" "nc_tx v = None" "nc_isr v AND 0x01 \<noteq> 0" "nc_pstart v = NE_RXSTART" "nc_pstop v = NE_RXSTOP"
    and p: "p = rx_page v" "page_ok p" "p \<noteq> nc_curr v" and f: "frame_at v p f" "0 < length f" "length f \<le> 1514" "length f \<le> unat max_len"
  shows "\<exists>d x. ne2000_recv io max_len st = ((int (length f), f), st\<lparr>ne_dev := d\<rparr>) \<and> view d = taken v p f x"
  using recv_view [OF st v c p, of "length f" max_len] f frame_total [OF f(1,3)] by (simp add: taken_def)

end

text \<open>What storing a frame leaves alone, and the page the driver reads next.\<close>

lemma deliver_fields:
  "nc_curr (chip_deliver h x) = page_after (nc_curr x) (rx_pages h)" "nc_page1 (chip_deliver h x) = nc_page1 x"
  "nc_tx (chip_deliver h x) = nc_tx x" "nc_pstart (chip_deliver h x) = nc_pstart x" "nc_pstop (chip_deliver h x) = nc_pstop x"
  "nc_bnd (chip_deliver h x) = nc_bnd x" "nc_isr (chip_deliver h x) AND 0x01 \<noteq> 0"
  using status_bits(1) by (simp_all add: chip_deliver_def Let_def)

lemma rx_page_is: "page_ok p \<Longrightarrow> nc_bnd v = before_page p \<Longrightarrow> rx_page v = p"
  unfolding rx_page_def by (simp only: rx_page_before)

lemma ne2000_receives_one:
  assumes card: "ne2000_card io (ne_base st) view bound" and st: "ne_initialized st" and c: "ring_ready c"
    and f: "0 < length f" "length f \<le> 1514" "length f \<le> unat max_len" and v: "view (ne_dev st) = chip_deliver f c"
  shows "\<exists>st1. ne2000_recv io max_len st = ((int (length f), f), st1) \<and> ne_initialized st1 \<and> ring_ready (view (ne_dev st1))"
proof -
  define p where "p = nc_curr c"
  define p2 where "p2 = page_after p (rx_pages f)"
  have ok: "page_ok p" and bnd: "nc_bnd c = before_page p" using c by (simp_all add: p_def ring_ready_def)
  have "0 < rx_pages f" "rx_pages f < 58" using f(2) by (simp_all add: rx_pages_def)
  then have ok2: "page_ok p2" "p2 \<noteq> p" using page_after_ok [OF ok] by (simp_all add: p2_def)
  have fr: "frame_at (chip_deliver f c) p f" using deliver_frame [of c f] ok f by (simp add: p_def)
  have cur: "nc_curr (chip_deliver f c) = p2" by (simp add: deliver_fields p2_def p_def)
  have rp: "p = rx_page v" if "nc_bnd v = nc_bnd c" for v using rx_page_is [OF ok] that bnd by simp
  obtain d x where d: "ne2000_recv io max_len st = ((int (length f), f), st\<lparr>ne_dev := d\<rparr>)" "view d = taken (chip_deliver f c) p f x"
    using ne2000_card.recv_frame [OF card st refl v _ _ _ _ _ rp ok _ fr f] deliver_fields [of f c] c cur ok2 by (auto simp: ring_ready_def)
  have "ring_ready (view d)" using deliver_fields [of f c] c cur ok2 status_bits(2) unfolding d(2) by (simp add: ring_ready_def taken_def p2_def)
  then show ?thesis using d st by (intro exI [of _ "st\<lparr>ne_dev := d\<rparr>"]) simp
qed

lemma ne2000_second_waits:
  assumes card: "ne2000_card io (ne_base st) view bound" and st: "ne_initialized st" and c: "ring_ready c"
    and f: "0 < length f" "length f \<le> 1514" "length f \<le> unat max_len" and g: "0 < length g" "length g \<le> 1514"
    and v: "view (ne_dev st) = chip_deliver g (chip_deliver f c)"
  shows "\<exists>st1 st2. ne2000_recv io max_len st = ((int (length f), f), st1) \<and> ne2000_recv io max_len st1 = ((0, []), st2) \<and>
    rx_page (view (ne_dev st2)) \<noteq> nc_curr (view (ne_dev st2)) \<and> frame_at (view (ne_dev st2)) (rx_page (view (ne_dev st2))) g"
proof -
  let ?v = "chip_deliver g (chip_deliver f c)"
  define p where "p = nc_curr c"
  define p2 where "p2 = page_after p (rx_pages f)"
  have ok: "page_ok p" and bnd: "nc_bnd c = before_page p" using c by (simp_all add: p_def ring_ready_def)
  have n: "0 < rx_pages f" "rx_pages f < 58" "0 < rx_pages g" "rx_pages g < 58" "rx_pages f + rx_pages g < 58"
    using f(2) g(2) by (simp_all add: rx_pages_def)
  have ok2: "page_ok p2" using page_after_ok [OF ok] n by (simp add: p2_def)
  have cur: "nc_curr (chip_deliver f c) = p2" "nc_curr ?v = page_after p2 (rx_pages g)" by (simp_all add: deliver_fields p2_def p_def)
  have "frame_at (chip_deliver f c) p f" using deliver_frame [of c f] ok f by (simp add: p_def)
  then have f2: "frame_at ?v p f" by (rule deliver_keeps_frame [OF ok cur(1) [unfolded p2_def] f(2) g(2)])
  have g2: "frame_at ?v p2 g" using deliver_frame [of "chip_deliver f c" g] cur ok2 g(2) by simp
  have ne: "page_after p2 (rx_pages g) \<noteq> p2" using page_after_ok(2) [OF ok2] n by simp
  have ne1: "p \<noteq> nc_curr ?v"
    unfolding cur using page_after_unat [OF ok2 n(4)] page_after_unat [OF ok n(2), folded p2_def] page_okD [OF ok] n by (auto split: if_splits)
  have rp: "p = rx_page w" if "nc_bnd w = nc_bnd c" for w using rx_page_is [OF ok] that bnd by simp
  obtain d x where d: "ne2000_recv io max_len st = ((int (length f), f), st\<lparr>ne_dev := d\<rparr>)" "view d = taken ?v p f x"
    using ne2000_card.recv_frame [OF card st refl v _ _ _ _ _ rp ok ne1 f2 f] deliver_fields [of f c] deliver_fields [of g "chip_deliver f c"] c
    by (auto simp: ring_ready_def)
  define st1 where "st1 = st\<lparr>ne_dev := d\<rparr>"
  have v1: "view (ne_dev st1) = taken ?v p f x" by (simp add: st1_def d(2))
  obtain d2 where d2: "ne2000_recv io max_len st1 = ((0, []), st1\<lparr>ne_dev := d2\<rparr>)" "view d2 = taken ?v p f x"
    using ne2000_card.recv_none [OF card, of st1 max_len] st deliver_fields [of f c] deliver_fields [of g "chip_deliver f c"] c status_bits(2)
    unfolding v1 by (auto simp: st1_def taken_def ring_ready_def)
  have "rx_page (taken ?v p f x) = p2" by (rule rx_page_is [OF ok2]) (simp add: taken_def p2_def)
  moreover have "frame_at (taken ?v p f x) p2 g" using g2 by (simp add: frame_at_def taken_def)
  ultimately show ?thesis
    using d(1) d2 cur ne by (intro exI [of _ st1] exI [of _ "st1\<lparr>ne_dev := d2\<rparr>"]) (simp add: st1_def taken_def)
qed

text \<open>
  C37.  A frame that the card stores in an empty ring is returned by the next call of
  \<^verbatim>\<open>ne2000_recv\<close>, byte for byte also across the end of the ring, and the ring is empty again.  When
  the card stores two frames before the call, the first is returned and the second stays: the call
  clears the packet bit, so the next one returns 0 though the frame lies in the ring.
\<close>
theorem ne2000_receives:
  assumes card: "ne2000_card io (ne_base st) view bound" and st: "ne_initialized st" and c: "ring_ready c"
    and f: "0 < length f" "length f \<le> 1514" "length f \<le> unat max_len" and g: "0 < length g" "length g \<le> 1514"
  shows "(view (ne_dev st) = chip_deliver f c \<longrightarrow>
      (\<exists>st1. ne2000_recv io max_len st = ((int (length f), f), st1) \<and> ne_initialized st1 \<and> ring_ready (view (ne_dev st1)))) \<and>
    (view (ne_dev st) = chip_deliver g (chip_deliver f c) \<longrightarrow>
      (\<exists>st1 st2. ne2000_recv io max_len st = ((int (length f), f), st1) \<and> ne2000_recv io max_len st1 = ((0, []), st2) \<and>
         rx_page (view (ne_dev st2)) \<noteq> nc_curr (view (ne_dev st2)) \<and> frame_at (view (ne_dev st2)) (rx_page (view (ne_dev st2))) g))"
  using ne2000_receives_one [OF card st c f] ne2000_second_waits [OF card st c f g] by blast

section \<open>A reference card\<close>

text \<open>A card at 0x300 that needs three polls to transmit.\<close>

definition ref_ne_io :: "ne_chip word_io" where
  "ref_ne_io = \<lparr>inb = (\<lambda>p c. if p = 0x307 then (if nc_page1 c then (nc_curr c, c) else (chip_status c, chip_poll c)) else (nc_bnd c, c)),
     outb = (\<lambda>p v c. if p - 0x300 < 16 then chip_out 3 (p - 0x300) v c else c), insw = (\<lambda>p n c. ([], c)), outsw = (\<lambda>p ws c. c),
     inw = (\<lambda>p c. (chip_word c, chip_advance c)), outw = (\<lambda>p w c. chip_store w c)\<rparr>"

interpretation ref_card: ne2000_card ref_ne_io "0x300" "\<lambda>c. c" 3
  by unfold_locales (auto simp: ref_ne_io_def)

text \<open>The driver's variables at the start, and after an initialisation with an empty ring.\<close>

definition ne2000_start :: "'d \<Rightarrow> 'd ne2000" where
  "ne2000_start d = \<lparr>ne_initialized = False, ne_base = 0, ne_mac = replicate 6 0, ne_next_pkt = NE_RXSTART, ne_log = [], ne_dev = d\<rparr>"

definition ref_chip :: ne_chip where
  "ref_chip = \<lparr>nc_page1 = False, nc_dma = None, nc_rsar = 0, nc_rbcr = 0, nc_mem = (\<lambda>_. 0), nc_isr = 0, nc_bnd = NE_RXSTART,
     nc_curr = NE_RXSTART + 1, nc_pstart = NE_RXSTART, nc_pstop = NE_RXSTOP, nc_tpsr = NE_TXSTART, nc_tbcr = 0, nc_tx = None, nc_sent = []\<rparr>"

definition ref_driver :: "ne_chip \<Rightarrow> ne_chip ne2000" where
  "ref_driver c = (ne2000_start c)\<lparr>ne_initialized := True, ne_base := 0x300\<rparr>"

theorem ne2000_receives_witness:
  "\<exists>st1 st2. ne2000_recv ref_ne_io 1514 (ref_driver (chip_deliver (replicate 70 7) (chip_deliver (replicate 60 5) ref_chip))) =
      ((60, replicate 60 5), st1) \<and> ne2000_recv ref_ne_io 1514 st1 = ((0, []), st2)"
proof -
  let ?st = "ref_driver (chip_deliver (replicate 70 7) (chip_deliver (replicate 60 5) ref_chip))"
  have r: "ring_ready ref_chip" by (simp add: ring_ready_def ref_chip_def page_ok_def before_page_def NE_RXSTART_def NE_RXSTOP_def)
  have b: "ne2000_card ref_ne_io (ne_base ?st) (\<lambda>c. c) 3" using ref_card.ne2000_card_axioms by (simp add: ref_driver_def)
  show ?thesis
    using ne2000_receives [OF b _ r, of "replicate 60 5" 1514 "replicate 70 7"] by (auto simp: ref_driver_def ne2000_start_def)
qed

text \<open>
  C38.  On an initialised card that is idle, \<^verbatim>\<open>ne2000_send\<close> of 14 to 1514 bytes returns 0 and puts exactly one
  frame on the wire: the bytes of memory from the frame's address on, at least 60 of them, so that a
  shorter frame is followed by what lies behind it in memory.  The card is idle again.
\<close>
theorem ne2000_sends:
  assumes "ne2000_card io (ne_base st) view bound" and "ne_initialized st" and "card_idle (view (ne_dev st))"
    and "14 \<le> len" and "len \<le> 1514"
  shows "\<exists>st1. ne2000_send io m data len st = (0, st1) \<and> card_idle (view (ne_dev st1)) \<and>
    nc_sent (view (ne_dev st1)) = nc_sent (view (ne_dev st)) @ [read_bytes m data (max 60 (unat len))]"
  using ne2000_card.send_view [OF assms(1,3,2) refl assms(4,5)] by blast

theorem ne2000_sends_witness:
  "\<exists>st1. ne2000_send ref_ne_io (\<lambda>a. ucast a) 0x1000 14 (ref_driver ref_chip) = (0, st1) \<and>
    nc_sent (ne_dev st1) = [read_bytes (\<lambda>a. ucast a) 0x1000 60]"
proof -
  have b: "ne2000_card ref_ne_io (ne_base (ref_driver ref_chip)) (\<lambda>c. c) 3" using ref_card.ne2000_card_axioms by (simp add: ref_driver_def)
  have i: "card_idle (ne_dev (ref_driver ref_chip))" by (simp add: card_idle_def ref_driver_def ne2000_start_def ref_chip_def)
  show ?thesis using ne2000_sends [OF b _ i, of 14 "\<lambda>a. ucast a" "0x1000"]
    by (auto simp: ref_driver_def ne2000_start_def ref_chip_def simp del: read_bytes_numeral)
qed

section \<open>A machine without the card\<close>

text \<open>No device answers: every input reads ones.\<close>

definition floating_bus :: "unit word_io" where
  "floating_bus = \<lparr>inb = (\<lambda>p d. (0xFF, d)), outb = (\<lambda>p v d. d), insw = (\<lambda>p n d. (replicate n 0xFFFF, d)), outsw = (\<lambda>p ws d. d),
     inw = (\<lambda>p d. (0xFFFF, d)), outw = (\<lambda>p w d. d)\<rparr>"

lemma floating_in: "dma_in floating_bus port n d = (replicate n 0xFF, d)"
  by (induction n arbitrary: d rule: induct_nat_012) (simp_all add: floating_bus_def)

text \<open>
  The probe takes the ones of an empty bus for the reset bit: on a machine without a network card
  the initialisation reports a card at the first port, with the address FF:FF:FF:FF:FF:FF, and the
  driver counts as active.
\<close>
theorem ne2000_found_without_card:
  "\<exists>st1. ne2000_init floating_bus (ne2000_start ()) = (0, st1) \<and> ne2000_is_active st1 \<and> ne_base st1 = 0x300 \<and>
    ne2000_get_mac st1 = replicate 6 0xFF"
proof -
  have "ne2000_probe floating_bus 0x300 () = (True, ())" by (simp add: ne2000_probe_def floating_bus_def)
  then show ?thesis
    by (simp add: ne2000_init_def ne2000_start_def ne2000_ports_def ne2000_read_mem_def floating_in ne2000_is_active_def ne2000_get_mac_def Let_def
        upt_rec) (simp add: eval_nat_numeral)
qed

end
