(* ===== verification/Gui_VGA.thy ===== *)
theory Gui_VGA
  imports Drv_VirtIO
begin

text \<open>
  The VGA part of \<^verbatim>\<open>src/src/rust_driver_stubs.c\<close>, lines 530 to 1075: the mode switches and the palette
  as port writes, the drawing primitives of the 320 by 200 mode, and the saving of the text
  screen across a reboot.

  Drawing goes to a flat byte memory at the address \<open>g_target\<close> (\<^verbatim>\<open>vga_target\<close>), so a pixel outside
  the screen is a byte somewhere else.  Coordinates are C's \<^verbatim>\<open>int\<close>: sums that the code compares are
  reduced by \<open>i32\<close>; addresses are 32-bit words, in which the wrap-around of the products cancels.
  A primitive is the list of the bytes it stores, in the order of its loops.
\<close>

section \<open>State\<close>

record 'd gfx =
  g_mem :: mem
  g_target :: u32
  g_ready :: bool
  g_mode13 :: bool
  g_row :: u32
  g_col :: u32
  g_gpu_base :: u16
  g_gpu_found :: bool
  g_log :: "console_event list"
  g_dev :: 'd

definition i32 :: "int \<Rightarrow> int" where
  "i32 n = (n + 2 ^ 31) mod 2 ^ 32 - 2 ^ 31"

lemma i32_id: "- (2 ^ 31) \<le> n \<Longrightarrow> n < 2 ^ 31 \<Longrightarrow> i32 n = n"
  by (simp add: i32_def)

definition VGA_WIDTH :: int where "VGA_WIDTH = 320"
definition VGA_HEIGHT :: int where "VGA_HEIGHT = 200"
definition VGA_HW_MEM :: u32 where "VGA_HW_MEM = 0xA0000"

lemmas vga_consts = VGA_WIDTH_def VGA_HEIGHT_def VGA_HW_MEM_def

definition vga_set_target :: "u32 \<Rightarrow> 'd gfx \<Rightarrow> 'd gfx" where
  "vga_set_target ptr st = st\<lparr>g_target := (if ptr \<noteq> 0 then ptr else VGA_HW_MEM)\<rparr>"

section \<open>Modes and palette\<close>

definition out_seq :: "'d port_io \<Rightarrow> (u16 \<times> u8) list \<Rightarrow> 'd \<Rightarrow> 'd" where
  "out_seq io = fold (\<lambda>(p, v). outb io p v)"

text \<open>A register bank behind an index port and the data port after it.\<close>

definition bank :: "u16 \<Rightarrow> u8 list \<Rightarrow> (u16 \<times> u8) list" where
  "bank p vs = concat (map (\<lambda>i. [(p, of_nat i), (p + 1, vs ! i)]) [0..<length vs])"

definition unlock_crtc :: "'d port_io \<Rightarrow> 'd \<Rightarrow> 'd" where
  "unlock_crtc io d = (let (v, d1) = inb io 0x3D5 (outb io 0x3D4 0x11 d) in outb io 0x3D5 (v AND 0x7F) d1)"

text \<open>The attribute controller takes index and value through one port; a read resets it to the index.\<close>

definition attr_write :: "'d port_io \<Rightarrow> (u8 \<times> u8) list \<Rightarrow> 'd \<Rightarrow> 'd" where
  "attr_write io = fold (\<lambda>(i, v) d. outb io 0x3C0 v (outb io 0x3C0 i (snd (inb io 0x3DA d))))"

definition display_on :: "'d port_io \<Rightarrow> 'd \<Rightarrow> 'd" where
  "display_on io d = outb io 0x3C0 0x20 (snd (inb io 0x3DA d))"

definition mode13_crtc :: "u8 list" where
  "mode13_crtc = [0x5F, 0x4F, 0x50, 0x82, 0x54, 0x80, 0xBF, 0x1F, 0x00, 0x41, 0x00, 0x00, 0x00, 0x00, 0x00, 0x00,
     0x9C, 0x0E, 0x8F, 0x28, 0x40, 0x96, 0xB9, 0xA3, 0xFF]"

definition set_mode_13h :: "'d port_io \<Rightarrow> 'd gfx \<Rightarrow> 'd gfx" where
  "set_mode_13h io st =
     (let d1 = out_seq io ((0x3C2, 0x63) # bank 0x3C4 [0x03, 0x01, 0x0F, 0x00, 0x0E]) (g_dev st);
          d2 = out_seq io (bank 0x3D4 mode13_crtc @ bank 0x3CE [0x00, 0x00, 0x00, 0x00, 0x00, 0x40, 0x05, 0x0F, 0xFF])
                 (unlock_crtc io d1);
          d3 = attr_write io (map (\<lambda>i. (of_nat i, [0x00, 0x01, 0x02, 0x03, 0x04, 0x05, 0x06, 0x07, 0x08, 0x09, 0x0A, 0x0B,
                 0x0C, 0x0D, 0x0E, 0x0F, 0x41, 0x00, 0x0F, 0x00, 0x00] ! i)) [0..<21]) (snd (inb io 0x3DA d2))
      in st\<lparr>g_dev := display_on io d3, g_mode13 := True\<rparr>)"

text \<open>The scan for a VirtIO graphics card, and its reset.\<close>

fun find_virtio_gpu :: "'d pci_io \<Rightarrow> (nat \<times> nat) list \<Rightarrow> 'd \<Rightarrow> u16 \<times> bool \<times> 'd" where
  "find_virtio_gpu pio [] d = (0, False, d)"
| "find_virtio_gpu pio ((bus, slot) # ss) d =
     (let (id, d1) = pci_read pio bus slot 0 d; did = drop_bit 16 id AND 0xFFFF
      in if id AND 0xFFFF = 0x1AF4 \<and> (did = 0x1050 \<or> did = 0x1040)
         then let (bar, d2) = pci_read pio bus slot 0x10 d1
              in if bar AND 1 \<noteq> 0 then (ucast (bar AND 0xFFFC), True, d2) else find_virtio_gpu pio ss d2
         else find_virtio_gpu pio ss d1)"

definition disable_virtio_gpu_scanout :: "'d port_io \<Rightarrow> 'd pci_io \<Rightarrow> 'd gfx \<Rightarrow> 'd gfx" where
  "disable_virtio_gpu_scanout io pio st =
     (let st1 = (if \<not> g_gpu_found st \<and> g_gpu_base st = 0
                 then let (base, found, d1) = find_virtio_gpu pio all_slots (g_dev st)
                      in st\<lparr>g_gpu_base := base, g_gpu_found := found, g_dev := d1\<rparr>
                 else st)
      in if g_gpu_base st1 = 0 then st1 else st1\<lparr>g_dev := outb io (g_gpu_base st1 + 0x12) 0 (g_dev st1)\<rparr>)"

definition text_crtc :: "u8 list" where
  "text_crtc = [0x5F, 0x4F, 0x50, 0x82, 0x55, 0x81, 0xBF, 0x1F, 0x00, 0x4F, 0x0D, 0x0E, 0x00, 0x00, 0x00, 0x00,
     0x9C, 0x8E, 0x8F, 0x28, 0x1F, 0x96, 0xB9, 0xA3, 0xFF]"

definition text_palette :: "u8 list" where
  "text_palette = [0x00, 0x01, 0x02, 0x03, 0x04, 0x05, 0x14, 0x07, 0x38, 0x39, 0x3A, 0x3B, 0x3C, 0x3D, 0x3E, 0x3F]"

definition VGA_TEXT_MEM :: u32 where "VGA_TEXT_MEM = 0xB8000"

text \<open>A cell of the text screen is a character and its attribute, two bytes.\<close>

definition put_cell :: "u32 \<Rightarrow> nat \<Rightarrow> u8 \<Rightarrow> u8 \<Rightarrow> mem \<Rightarrow> mem" where
  "put_cell base i ch attr m = m(base + of_nat (2 * i) := ch, base + of_nat (2 * i) + 1 := attr)"

definition set_text_mode :: "'d port_io \<Rightarrow> 'd pci_io \<Rightarrow> 'd gfx \<Rightarrow> 'd gfx" where
  "set_text_mode io pio st0 =
     (let st = disable_virtio_gpu_scanout io pio st0;
          d1 = out_seq io [(0x3C2, 0x67), (0x3C4, 0x00), (0x3C5, 0x01), (0x3C4, 0x01), (0x3C5, 0x00), (0x3C4, 0x02), (0x3C5, 0x03),
                 (0x3C4, 0x03), (0x3C5, 0x00), (0x3C4, 0x04), (0x3C5, 0x02), (0x3C4, 0x00), (0x3C5, 0x03)] (g_dev st);
          d2 = out_seq io (bank 0x3D4 text_crtc @ bank 0x3CE [0x00, 0x00, 0x00, 0x00, 0x00, 0x10, 0x0E, 0x00, 0xFF])
                 (unlock_crtc io d1);
          d3 = attr_write io (map (\<lambda>i. (of_nat i, text_palette ! i)) [0..<16] @
                 [(0x10, 0x0C), (0x11, 0x00), (0x12, 0x0F), (0x13, 0x08), (0x14, 0x00)]) (snd (inb io 0x3DA d2))
      in st\<lparr>g_dev := display_on io d3, g_mode13 := False,
            g_mem := fold (\<lambda>i. put_cell VGA_TEXT_MEM i 0x20 0x07) [0..<2000] (g_mem st)\<rparr>)"

definition gpu_disable_scanout :: "'d port_io \<Rightarrow> 'd pci_io \<Rightarrow> 'd gfx \<Rightarrow> int \<times> 'd gfx" where
  "gpu_disable_scanout io pio st = (0, set_text_mode io pio st)"

definition set_palette :: "'d port_io \<Rightarrow> u8 \<times> u8 \<times> u8 \<times> u8 \<Rightarrow> 'd \<Rightarrow> 'd" where
  "set_palette io e = (case e of (idx, r, g, b) \<Rightarrow>
     out_seq io [(0x3C8, idx), (0x3C9, drop_bit 2 r), (0x3C9, drop_bit 2 g), (0x3C9, drop_bit 2 b)])"

definition standard_colors :: "(u8 \<times> u8 \<times> u8 \<times> u8) list" where
  "standard_colors = [(0, 0, 0, 0), (1, 0, 0, 170), (2, 0, 170, 0), (3, 0, 170, 170), (4, 170, 0, 0), (5, 170, 0, 170),
     (6, 170, 85, 0), (7, 170, 170, 170), (8, 85, 85, 85), (9, 85, 85, 255), (10, 85, 255, 85), (11, 85, 255, 255),
     (12, 255, 85, 85), (13, 255, 85, 255), (14, 255, 255, 85), (15, 255, 255, 255)]"

definition gray_ramp :: "(u8 \<times> u8 \<times> u8 \<times> u8) list" where
  "gray_ramp = map (\<lambda>i. (of_nat (16 + i), of_nat (i * 17), of_nat (i * 17), of_nat (i * 17))) [0..<16]"

text \<open>\<^verbatim>\<open>idx++\<close> counts the triples of the nested loops.\<close>

definition color_cube :: "(u8 \<times> u8 \<times> u8 \<times> u8) list" where
  "color_cube = map (\<lambda>k. (of_nat (32 + k), of_nat (k div 36 * 51), of_nat (k div 6 mod 6 * 51), of_nat (k mod 6 * 51))) [0..<216]"

definition setup_palette :: "'d port_io \<Rightarrow> 'd \<Rightarrow> 'd" where
  "setup_palette io = fold (set_palette io) (standard_colors @ gray_ramp @ color_cube)"

definition gpu_driver_init :: "'d gfx \<Rightarrow> int \<times> 'd gfx" where
  "gpu_driver_init st = (0, st\<lparr>g_ready := True,
     g_log := g_log st @ [Puts (lit ''[GPU] Initializing VGA driver...\<newline>''), Puts (lit ''[GPU] Driver ready (VGA 320x200x256)\<newline>'')]\<rparr>)"

section \<open>Drawing\<close>

definition vga_colors :: "(u32 \<times> u8) list" where
  "vga_colors = [(0x000000, 0), (0x0000AA, 1), (0x00AA00, 2), (0x00AAAA, 3), (0xAA0000, 4), (0xAA00AA, 5), (0xAA5500, 6),
     (0xAAAAAA, 7), (0x555555, 8), (0x5555FF, 9), (0x55FF55, 10), (0x55FFFF, 11), (0xFF5555, 12), (0xFF55FF, 13),
     (0xFFFF55, 14), (0xFFFFFF, 15)]"

definition rgb_to_vga :: "u32 \<Rightarrow> u8" where
  "rgb_to_vga c = (if c < 256 then ucast c else case map_of vga_colors c of Some k \<Rightarrow> k | None \<Rightarrow> 15)"

text \<open>Bytes stored one after the other at offsets from \<open>base\<close>.\<close>

definition draws :: "u32 \<Rightarrow> (int \<times> u8) list \<Rightarrow> mem \<Rightarrow> mem" where
  "draws base = fold (\<lambda>(off, v) m. m(base + of_int off := v))"

definition draw_on :: "(int \<times> u8) list \<Rightarrow> 'd gfx \<Rightarrow> 'd gfx" where
  "draw_on ps st = st\<lparr>g_mem := draws (g_target st) ps (g_mem st)\<rparr>"

definition vga_clear :: "u32 \<Rightarrow> 'd gfx \<Rightarrow> 'd gfx" where
  "vga_clear color = draw_on (map (\<lambda>i. (i, rgb_to_vga color)) [0..VGA_WIDTH * VGA_HEIGHT - 1])"

definition vga_fill_rect :: "int \<Rightarrow> int \<Rightarrow> int \<Rightarrow> int \<Rightarrow> u32 \<Rightarrow> 'd gfx \<Rightarrow> 'd gfx" where
  "vga_fill_rect x y w h color =
     draw_on [(py * VGA_WIDTH + px, rgb_to_vga color).
       py \<leftarrow> [y..min (i32 (y + h)) VGA_HEIGHT - 1], \<not> py < 0,
       px \<leftarrow> [x..min (i32 (x + w)) VGA_WIDTH - 1], \<not> px < 0]"

definition vga_draw_pixel :: "int \<Rightarrow> int \<Rightarrow> u32 \<Rightarrow> 'd gfx \<Rightarrow> 'd gfx" where
  "vga_draw_pixel x y color st =
     (if x < 0 \<or> y < 0 \<or> x \<ge> VGA_WIDTH \<or> y \<ge> VGA_HEIGHT then st else draw_on [(y * VGA_WIDTH + x, rgb_to_vga color)] st)"

definition font8x8 :: "(nat \<times> u8 list) list" where
  "font8x8 =
    [(32, [0x00, 0x00, 0x00, 0x00, 0x00, 0x00, 0x00, 0x00]), (33, [0x18, 0x18, 0x18, 0x18, 0x00, 0x00, 0x18, 0x00]),
     (34, [0x6C, 0x6C, 0x24, 0x00, 0x00, 0x00, 0x00, 0x00]), (39, [0x18, 0x18, 0x08, 0x00, 0x00, 0x00, 0x00, 0x00]),
     (40, [0x0C, 0x18, 0x30, 0x30, 0x30, 0x18, 0x0C, 0x00]), (41, [0x30, 0x18, 0x0C, 0x0C, 0x0C, 0x18, 0x30, 0x00]),
     (44, [0x00, 0x00, 0x00, 0x00, 0x00, 0x18, 0x18, 0x30]), (45, [0x00, 0x00, 0x00, 0x7E, 0x00, 0x00, 0x00, 0x00]),
     (46, [0x00, 0x00, 0x00, 0x00, 0x00, 0x18, 0x18, 0x00]), (47, [0x06, 0x0C, 0x18, 0x30, 0x60, 0xC0, 0x80, 0x00]),
     (58, [0x00, 0x18, 0x18, 0x00, 0x00, 0x18, 0x18, 0x00]), (63, [0x3C, 0x66, 0x06, 0x0C, 0x18, 0x00, 0x18, 0x00]),
     (95, [0x00, 0x00, 0x00, 0x00, 0x00, 0x00, 0x00, 0xFF]), (48, [0x3C, 0x66, 0x6E, 0x76, 0x66, 0x66, 0x3C, 0x00]),
     (49, [0x18, 0x38, 0x18, 0x18, 0x18, 0x18, 0x7E, 0x00]), (50, [0x3C, 0x66, 0x06, 0x1C, 0x30, 0x60, 0x7E, 0x00]),
     (51, [0x3C, 0x66, 0x06, 0x1C, 0x06, 0x66, 0x3C, 0x00]), (52, [0x0C, 0x1C, 0x3C, 0x6C, 0x7E, 0x0C, 0x0C, 0x00]),
     (53, [0x7E, 0x60, 0x7C, 0x06, 0x06, 0x66, 0x3C, 0x00]), (54, [0x3C, 0x60, 0x7C, 0x66, 0x66, 0x66, 0x3C, 0x00]),
     (55, [0x7E, 0x06, 0x0C, 0x18, 0x30, 0x30, 0x30, 0x00]), (56, [0x3C, 0x66, 0x66, 0x3C, 0x66, 0x66, 0x3C, 0x00]),
     (57, [0x3C, 0x66, 0x66, 0x3E, 0x06, 0x0C, 0x38, 0x00]), (65, [0x18, 0x3C, 0x66, 0x7E, 0x66, 0x66, 0x66, 0x00]),
     (66, [0x7C, 0x66, 0x7C, 0x66, 0x66, 0x66, 0x7C, 0x00]), (67, [0x3C, 0x66, 0x60, 0x60, 0x60, 0x66, 0x3C, 0x00]),
     (68, [0x78, 0x6C, 0x66, 0x66, 0x66, 0x6C, 0x78, 0x00]), (69, [0x7E, 0x60, 0x7C, 0x60, 0x60, 0x60, 0x7E, 0x00]),
     (70, [0x7E, 0x60, 0x7C, 0x60, 0x60, 0x60, 0x60, 0x00]), (71, [0x3C, 0x66, 0x60, 0x6E, 0x66, 0x66, 0x3C, 0x00]),
     (72, [0x66, 0x66, 0x7E, 0x66, 0x66, 0x66, 0x66, 0x00]), (73, [0x3C, 0x18, 0x18, 0x18, 0x18, 0x18, 0x3C, 0x00]),
     (74, [0x1E, 0x0C, 0x0C, 0x0C, 0x0C, 0x6C, 0x38, 0x00]), (75, [0x66, 0x6C, 0x78, 0x70, 0x78, 0x6C, 0x66, 0x00]),
     (76, [0x60, 0x60, 0x60, 0x60, 0x60, 0x60, 0x7E, 0x00]), (77, [0x63, 0x77, 0x7F, 0x6B, 0x63, 0x63, 0x63, 0x00]),
     (78, [0x66, 0x76, 0x7E, 0x7E, 0x6E, 0x66, 0x66, 0x00]), (79, [0x3C, 0x66, 0x66, 0x66, 0x66, 0x66, 0x3C, 0x00]),
     (80, [0x7C, 0x66, 0x66, 0x7C, 0x60, 0x60, 0x60, 0x00]), (81, [0x3C, 0x66, 0x66, 0x66, 0x6A, 0x6C, 0x36, 0x00]),
     (82, [0x7C, 0x66, 0x66, 0x7C, 0x6C, 0x66, 0x66, 0x00]), (83, [0x3C, 0x66, 0x60, 0x3C, 0x06, 0x66, 0x3C, 0x00]),
     (84, [0x7E, 0x18, 0x18, 0x18, 0x18, 0x18, 0x18, 0x00]), (85, [0x66, 0x66, 0x66, 0x66, 0x66, 0x66, 0x3C, 0x00]),
     (86, [0x66, 0x66, 0x66, 0x66, 0x66, 0x3C, 0x18, 0x00]), (87, [0x63, 0x63, 0x63, 0x6B, 0x7F, 0x77, 0x63, 0x00]),
     (88, [0x66, 0x66, 0x3C, 0x18, 0x3C, 0x66, 0x66, 0x00]), (89, [0x66, 0x66, 0x66, 0x3C, 0x18, 0x18, 0x18, 0x00]),
     (90, [0x7E, 0x06, 0x0C, 0x18, 0x30, 0x60, 0x7E, 0x00]), (97, [0x00, 0x00, 0x3C, 0x06, 0x3E, 0x66, 0x3E, 0x00]),
     (98, [0x60, 0x60, 0x7C, 0x66, 0x66, 0x66, 0x7C, 0x00]), (99, [0x00, 0x00, 0x3C, 0x66, 0x60, 0x66, 0x3C, 0x00]),
     (100, [0x06, 0x06, 0x3E, 0x66, 0x66, 0x66, 0x3E, 0x00]), (101, [0x00, 0x00, 0x3C, 0x66, 0x7E, 0x60, 0x3C, 0x00]),
     (102, [0x1C, 0x30, 0x7C, 0x30, 0x30, 0x30, 0x30, 0x00]), (103, [0x00, 0x00, 0x3E, 0x66, 0x66, 0x3E, 0x06, 0x3C]),
     (104, [0x60, 0x60, 0x7C, 0x66, 0x66, 0x66, 0x66, 0x00]), (105, [0x18, 0x00, 0x38, 0x18, 0x18, 0x18, 0x3C, 0x00]),
     (106, [0x0C, 0x00, 0x1C, 0x0C, 0x0C, 0x0C, 0x6C, 0x38]), (107, [0x60, 0x60, 0x66, 0x6C, 0x78, 0x6C, 0x66, 0x00]),
     (108, [0x38, 0x18, 0x18, 0x18, 0x18, 0x18, 0x3C, 0x00]), (109, [0x00, 0x00, 0x66, 0x7F, 0x7F, 0x6B, 0x63, 0x00]),
     (110, [0x00, 0x00, 0x7C, 0x66, 0x66, 0x66, 0x66, 0x00]), (111, [0x00, 0x00, 0x3C, 0x66, 0x66, 0x66, 0x3C, 0x00]),
     (112, [0x00, 0x00, 0x7C, 0x66, 0x66, 0x7C, 0x60, 0x60]), (113, [0x00, 0x00, 0x3E, 0x66, 0x66, 0x3E, 0x06, 0x06]),
     (114, [0x00, 0x00, 0x7C, 0x66, 0x60, 0x60, 0x60, 0x00]), (115, [0x00, 0x00, 0x3E, 0x60, 0x3C, 0x06, 0x7C, 0x00]),
     (116, [0x30, 0x30, 0x7C, 0x30, 0x30, 0x30, 0x1C, 0x00]), (117, [0x00, 0x00, 0x66, 0x66, 0x66, 0x66, 0x3E, 0x00]),
     (118, [0x00, 0x00, 0x66, 0x66, 0x66, 0x3C, 0x18, 0x00]), (119, [0x00, 0x00, 0x63, 0x6B, 0x7F, 0x7F, 0x36, 0x00]),
     (120, [0x00, 0x00, 0x66, 0x3C, 0x18, 0x3C, 0x66, 0x00]), (121, [0x00, 0x00, 0x66, 0x66, 0x66, 0x3E, 0x06, 0x3C]),
     (122, [0x00, 0x00, 0x7E, 0x0C, 0x18, 0x30, 0x7E, 0x00])]"

definition glyph_of :: "(nat \<times> u8 list) list \<Rightarrow> u8 \<Rightarrow> u8 list" where
  "glyph_of font c = (case map_of font (unat c) of Some g \<Rightarrow> g | None \<Rightarrow> replicate 8 0)"

definition glyph_bit :: "u8 list \<Rightarrow> int \<Rightarrow> int \<Rightarrow> bool" where
  "glyph_bit glyph row col \<longleftrightarrow> glyph ! nat row AND drop_bit (nat col) 0x80 \<noteq> 0"

definition vga_draw_char :: "int \<Rightarrow> int \<Rightarrow> u8 \<Rightarrow> u32 \<Rightarrow> u32 \<Rightarrow> 'd gfx \<Rightarrow> 'd gfx" where
  "vga_draw_char x y ch fg bg =
     (let glyph = glyph_of font8x8 (if ch > 127 then chr CHR ''?'' else ch)
      in draw_on [((y + row) * VGA_WIDTH + (x + col), if glyph_bit glyph row col then rgb_to_vga fg else rgb_to_vga bg).
           row \<leftarrow> [0..7], col \<leftarrow> [0..7], i32 (x + col) < VGA_WIDTH \<and> i32 (y + row) < VGA_HEIGHT])"

text \<open>A string is the list of its bytes before the terminator.\<close>

fun vga_draw_string :: "int \<Rightarrow> int \<Rightarrow> u8 list \<Rightarrow> u32 \<Rightarrow> u32 \<Rightarrow> 'd gfx \<Rightarrow> 'd gfx" where
  "vga_draw_string cx y [] fg bg st = st"
| "vga_draw_string cx y (ch # s) fg bg st = vga_draw_string (i32 (cx + 8)) y s fg bg (vga_draw_char cx y ch fg bg st)"

section \<open>The text screen across a reboot\<close>

definition SCREEN_BACKUP_ADDR :: u32 where "SCREEN_BACKUP_ADDR = 0x90000"
definition GUI_REBOOT_FLAG_ADDR :: u32 where "GUI_REBOOT_FLAG_ADDR = 0x9F000"
definition GUI_REBOOT_MAGIC :: u32 where "GUI_REBOOT_MAGIC = 0x47554952"

lemmas backup_consts = VGA_TEXT_MEM_def SCREEN_BACKUP_ADDR_def GUI_REBOOT_FLAG_ADDR_def GUI_REBOOT_MAGIC_def

definition put32 :: "u32 \<Rightarrow> u32 \<Rightarrow> mem \<Rightarrow> mem" where
  "put32 a v m = m(a := ucast v, a + 1 := ucast (drop_bit 8 v), a + 2 := ucast (drop_bit 16 v), a + 3 := ucast (drop_bit 24 v))"

definition get32 :: "u32 \<Rightarrow> mem \<Rightarrow> u32" where
  "get32 a m = ucast (m a) OR push_bit 8 (ucast (m (a + 1))) OR push_bit 16 (ucast (m (a + 2))) OR push_bit 24 (ucast (m (a + 3)))"

definition copy_cells :: "u32 \<Rightarrow> u32 \<Rightarrow> mem \<Rightarrow> mem" where
  "copy_cells dst src = fold (\<lambda>i m. put_cell dst i (m (src + of_nat (2 * i))) (m (src + of_nat (2 * i) + 1)) m) [0..<2000]"

definition save_text_screen :: "'d gfx \<Rightarrow> 'd gfx" where
  "save_text_screen st = st\<lparr>g_mem :=
     put32 GUI_REBOOT_FLAG_ADDR GUI_REBOOT_MAGIC (put32 (GUI_REBOOT_FLAG_ADDR + 8) (g_col st)
       (put32 (GUI_REBOOT_FLAG_ADDR + 4) (g_row st) (copy_cells SCREEN_BACKUP_ADDR VGA_TEXT_MEM (g_mem st))))\<rparr>"

text \<open>\<open>hw\<close> is \<^verbatim>\<open>set_cursor_hardware\<close> of the assembly kernel.\<close>

definition gui_check_and_restore_screen :: "(u32 \<Rightarrow> u32 \<Rightarrow> 'd \<Rightarrow> 'd) \<Rightarrow> 'd gfx \<Rightarrow> int \<times> 'd gfx" where
  "gui_check_and_restore_screen hw st =
     (if get32 GUI_REBOOT_FLAG_ADDR (g_mem st) = GUI_REBOOT_MAGIC
      then let m1 = copy_cells VGA_TEXT_MEM SCREEN_BACKUP_ADDR (put32 GUI_REBOOT_FLAG_ADDR 0 (g_mem st));
               row = get32 (GUI_REBOOT_FLAG_ADDR + 4) m1; col = get32 (GUI_REBOOT_FLAG_ADDR + 8) m1
           in (1, st\<lparr>g_mem := m1, g_row := row, g_col := col, g_dev := hw row col (g_dev st)\<rparr>)
      else (0, st))"

section \<open>Pixels\<close>

lemma draws_Nil [simp]: "draws base [] m = m"
  by (simp add: draws_def)

lemma draws_Cons [simp]: "draws base ((off, v) # ps) m = draws base ps (m(base + of_int off := v))"
  by (simp add: draws_def)

lemma draws_append: "draws base (ps @ qs) m = draws base qs (draws base ps m)"
  by (simp add: draws_def)

lemma draws_other: "\<forall>(off, v) \<in> set ps. base + of_int off \<noteq> a \<Longrightarrow> draws base ps m a = m a"
  by (induction ps arbitrary: m) auto

lemma draws_at:
  "\<exists>(off, u) \<in> set ps. base + of_int off = a \<Longrightarrow> \<forall>(off, u) \<in> set ps. base + of_int off = a \<longrightarrow> u = v \<Longrightarrow> draws base ps m a = v"
proof (induction ps arbitrary: m)
  case (Cons p ps)
  obtain off u where p: "p = (off, u)" by (cases p)
  show ?case
  proof (cases "\<exists>(off, u) \<in> set ps. base + of_int off = a")
    case True
    with Cons.IH [of "m(base + of_int off := u)"] Cons.prems(2) p show ?thesis by simp
  next
    case False
    then have "\<forall>(off, v) \<in> set ps. base + of_int off \<noteq> a" by blast
    moreover have "base + of_int off = a \<and> u = v" using Cons.prems False p by auto
    ultimately show ?thesis using draws_other [of ps base a] p by simp
  qed
qed simp

text \<open>The byte at an address, for a list in which every entry there has the value \<open>v\<close>.\<close>

lemma draws_lookup:
  assumes "\<forall>(off, u) \<in> set ps. base + of_int off = a \<longrightarrow> u = v"
  shows "draws base ps m a = (if \<exists>(off, u) \<in> set ps. base + of_int off = a then v else m a)"
proof (cases "\<exists>(off, u) \<in> set ps. base + of_int off = a")
  case True
  then show ?thesis using draws_at [OF True assms] by simp
next
  case False
  then have "\<forall>(off, u) \<in> set ps. base + of_int off \<noteq> a" by blast
  with False show ?thesis using draws_other by simp
qed

definition pixel :: "'d gfx \<Rightarrow> int \<Rightarrow> int \<Rightarrow> u8" where
  "pixel st x y = g_mem st (g_target st + of_int (y * 320 + x))"

definition on_vga :: "int \<Rightarrow> int \<Rightarrow> bool" where
  "on_vga x y \<longleftrightarrow> 0 \<le> x \<and> x < 320 \<and> 0 \<le> y \<and> y < 200"

lemma of_int_u32_inj:
  fixes b :: u32
  assumes "\<bar>i - j\<bar> < 2 ^ 32"
  shows "b + of_int i = b + of_int j \<longleftrightarrow> i = j"
proof
  assume "b + of_int i = b + of_int j"
  then have "(of_int (i - j) :: u32) = 0" by simp
  then have "(2 ^ 32 :: int) dvd i - j" by (simp only: word_of_int_eq_0_iff) simp
  then show "i = j" using assms zdvd_not_zless [of "\<bar>i - j\<bar>" "2 ^ 32"] by fastforce
qed simp

lemma pixel_offset:
  fixes b :: u32
  assumes "on_vga x y" and "\<bar>off\<bar> \<le> 2 ^ 31"
  shows "b + of_int off = b + of_int (y * 320 + x) \<longleftrightarrow> off = y * 320 + x"
proof (rule of_int_u32_inj)
  have "0 \<le> y * 320 + x" "y * 320 + x < 64000" using assms(1) unfolding on_vga_def by linarith+
  then show "\<bar>off - (y * 320 + x)\<bar> < 2 ^ 32" using assms(2) by (simp add: abs_le_iff abs_less_iff)
qed

lemma row_column:
  fixes x :: int
  assumes "0 \<le> px" and "px < 320" and "0 \<le> x" and "x < 320"
  shows "py * 320 + px = y * 320 + x \<longleftrightarrow> py = y \<and> px = x"
proof
  assume e: "py * 320 + px = y * 320 + x"
  have "(py * 320 + px) div 320 = py" "(y * 320 + x) div 320 = y" using assms by simp_all
  then show "py = y \<and> px = x" using e by simp
qed simp

text \<open>A list of screen positions with one color.\<close>

lemma draw_on_pixel:
  assumes ps: "\<And>off v. (off, v) \<in> set ps \<longleftrightarrow> v = c \<and> (\<exists>x y. on_vga x y \<and> P x y \<and> off = y * 320 + x)" and s: "on_vga px py"
  shows "pixel (draw_on ps st) px py = (if P px py then c else pixel st px py)"
    and "(\<And>x y. on_vga x y \<Longrightarrow> a \<noteq> g_target st + of_int (y * 320 + x)) \<Longrightarrow> g_mem (draw_on ps st) a = g_mem st a"
proof -
  let ?a = "g_target st + of_int (py * 320 + px)"
  have "(\<exists>(off, v) \<in> set ps. g_target st + of_int off = ?a) \<longleftrightarrow> P px py"
  proof -
    have "g_target st + of_int off = ?a \<longleftrightarrow> x = px \<and> y = py" if "on_vga x y" "off = y * 320 + x" for off x y
    proof -
      have "0 \<le> off" "off < 64000" using that unfolding on_vga_def by linarith+
      then have "\<bar>off\<bar> \<le> 2 ^ 31" by simp
      then have "g_target st + of_int off = ?a \<longleftrightarrow> off = py * 320 + px" by (rule pixel_offset [OF s])
      then show ?thesis using that row_column [of x px y py] s by (auto simp: on_vga_def)
    qed
    note inj = this
    show ?thesis
    proof
      assume "\<exists>(off, v) \<in> set ps. g_target st + of_int off = ?a"
      then obtain off v where o: "(off, v) \<in> set ps" "g_target st + of_int off = ?a" by blast
      from o(1) ps [of off v] obtain x y where "on_vga x y" "P x y" "off = y * 320 + x" by blast
      with o(2) inj show "P px py" by simp
    next
      assume "P px py"
      then have "(py * 320 + px, c) \<in> set ps" using ps s by blast
      then show "\<exists>(off, v) \<in> set ps. g_target st + of_int off = ?a" by blast
    qed
  qed
  moreover have "\<forall>(off, v) \<in> set ps. g_target st + of_int off = ?a \<longrightarrow> v = c" using ps by auto
  ultimately show "pixel (draw_on ps st) px py = (if P px py then c else pixel st px py)"
    using draws_lookup [of ps "g_target st" ?a c "g_mem st"] by (simp add: pixel_def draw_on_def)
next
  assume "\<And>x y. on_vga x y \<Longrightarrow> a \<noteq> g_target st + of_int (y * 320 + x)"
  then have "\<forall>(off, v) \<in> set ps. g_target st + of_int off \<noteq> a" using ps by fastforce
  then show "g_mem (draw_on ps st) a = g_mem st a" using draws_other by (simp add: draw_on_def)
qed

lemma listcomp_iff: "p \<in> set [f a b. a \<leftarrow> xs, P a, b \<leftarrow> ys, Q b] \<longleftrightarrow> (\<exists>a \<in> set xs. P a \<and> (\<exists>b \<in> set ys. Q b \<and> p = f a b))"
  by auto

lemma listcomp2_iff: "p \<in> set [f a b. a \<leftarrow> xs, b \<leftarrow> ys, Q a b] \<longleftrightarrow> (\<exists>a \<in> set xs. \<exists>b \<in> set ys. Q a b \<and> p = f a b)"
  by auto

lemma fill_positions:
  assumes "- (2 ^ 31) \<le> x + w" and "x + w < 2 ^ 31" and "- (2 ^ 31) \<le> y + h" and "y + h < 2 ^ 31"
  shows "(off, v) \<in> set [(py * VGA_WIDTH + px, rgb_to_vga color).
       py \<leftarrow> [y..min (i32 (y + h)) VGA_HEIGHT - 1], \<not> py < 0,
       px \<leftarrow> [x..min (i32 (x + w)) VGA_WIDTH - 1], \<not> px < 0] \<longleftrightarrow>
    v = rgb_to_vga color \<and> (\<exists>px py. on_vga px py \<and> (x \<le> px \<and> px < x + w \<and> y \<le> py \<and> py < y + h) \<and> off = py * 320 + px)"
    (is "?L \<longleftrightarrow> ?R")
proof
  note i = i32_id [OF assms(1,2)] i32_id [OF assms(3,4)]
  {
    assume ?L
    then obtain px py where "v = rgb_to_vga color" "off = py * 320 + px" "\<not> py < 0" "y \<le> py" "py < y + h" "py < 200"
        "\<not> px < 0" "x \<le> px" "px < x + w" "px < 320"
      unfolding i vga_consts by auto
    then show ?R by (intro conjI exI [of _ px] exI [of _ py]) (simp_all add: on_vga_def)
  }
  assume ?R
  then obtain px py where v: "v = rgb_to_vga color" "off = py * 320 + px" and r: "on_vga px py" "x \<le> px" "px < x + w" "y \<le> py" "py < y + h"
    by blast
  then have "py \<in> set [y..min (y + h) 200 - 1]" "px \<in> set [x..min (x + w) 320 - 1]" "\<not> py < 0" "\<not> px < 0"
    by (simp_all add: on_vga_def)
  then show ?L unfolding i vga_consts v listcomp_iff by blast
qed

text \<open>
  \<^verbatim>\<open>vga_fill_rect\<close> clips: for a rectangle whose corners are numbers of 32 bits, negative
  ones too, it colors exactly the pixels of the rectangle that are on the screen and changes no
  memory outside the screen.
\<close>
theorem vga_fill_rect_clips:
  assumes "- (2 ^ 31) \<le> x + w" and "x + w < 2 ^ 31" and "- (2 ^ 31) \<le> y + h" and "y + h < 2 ^ 31" and "on_vga px py"
  shows "pixel (vga_fill_rect x y w h color st) px py =
      (if x \<le> px \<and> px < x + w \<and> y \<le> py \<and> py < y + h then rgb_to_vga color else pixel st px py) \<and>
    ((\<forall>x y. on_vga x y \<longrightarrow> a \<noteq> g_target st + of_int (y * 320 + x)) \<longrightarrow> g_mem (vga_fill_rect x y w h color st) a = g_mem st a)"
  unfolding vga_fill_rect_def
  by (intro conjI impI draw_on_pixel [OF fill_positions [OF assms(1-4)] assms(5)]) blast

definition blank_gfx :: "unit gfx" where
  "blank_gfx = \<lparr>g_mem = (\<lambda>_. 0), g_target = VGA_HW_MEM, g_ready = True, g_mode13 = True, g_row = 0, g_col = 0,
     g_gpu_base = 0, g_gpu_found = False, g_log = [], g_dev = ()\<rparr>"

theorem vga_fill_rect_clips_witness:
  "pixel (vga_fill_rect (- 5) 190 10 20 4 blank_gfx) 4 199 = 4 \<and> pixel (vga_fill_rect (- 5) 190 10 20 4 blank_gfx) 5 199 = 0 \<and>
    g_mem (vga_fill_rect (- 5) 190 10 20 4 blank_gfx) 0 = 0"
proof -
  have "pixel blank_gfx x y = 0" for x y by (simp add: pixel_def blank_gfx_def)
  moreover have "0 \<noteq> g_target blank_gfx + of_int (y * 320 + x)" if "on_vga x y" for x y
  proof -
    have "of_int 0 \<noteq> (0 :: u32) + of_int (0xA0000 + (y * 320 + x))"
      using of_int_u32_inj [of 0 "0xA0000 + (y * 320 + x)" 0] that by (auto simp: on_vga_def)
    then show ?thesis by (simp add: blank_gfx_def VGA_HW_MEM_def)
  qed
  ultimately show ?thesis
    using vga_fill_rect_clips [of "- 5" 10 190 20 4 199 4 blank_gfx 0] vga_fill_rect_clips [of "- 5" 10 190 20 5 199 4 blank_gfx 0]
    by (auto simp: on_vga_def rgb_to_vga_def blank_gfx_def)
qed

text \<open>The bytes of a character: one for every cell of its box that the two tests of the code let through.\<close>

lemma char_byte:
  assumes "- 8 < x" and "x < 2 ^ 30" and "- 8 < y" and "y < 2 ^ 30"
    and "0 \<le> row" and "row \<le> 7" and "0 \<le> col" and "col \<le> 7" and "x + col < 320" and "y + row < 200"
  shows "g_mem (vga_draw_char x y ch fg bg st) (g_target st + of_int ((y + row) * 320 + (x + col))) =
    (if glyph_bit (glyph_of font8x8 (if ch > 127 then chr CHR ''?'' else ch)) row col then rgb_to_vga fg else rgb_to_vga bg)"
proof -
  define glyph where "glyph = glyph_of font8x8 (if ch > 127 then chr CHR ''?'' else ch)"
  define color where "color r c = (if glyph_bit glyph r c then rgb_to_vga fg else rgb_to_vga bg)" for r c
  define ps where "ps = [((y + r) * 320 + (x + c), color r c). r \<leftarrow> [0..7], c \<leftarrow> [0..7], i32 (x + c) < 320 \<and> i32 (y + r) < 200]"
  have el: "(off, v) \<in> set ps \<longleftrightarrow> (\<exists>r c. 0 \<le> r \<and> r \<le> 7 \<and> 0 \<le> c \<and> c \<le> 7 \<and> x + c < 320 \<and> y + r < 200 \<and> off = (y + r) * 320 + (x + c) \<and> v = color r c)" for off v
  proof -
    have "i32 (x + c) = x + c" "i32 (y + c) = y + c" if "0 \<le> c" "c \<le> 7" for c
      using assms(1-4) that by (simp_all add: i32_id)
    note i = this
    show ?thesis unfolding ps_def listcomp2_iff
    proof
      assume "\<exists>r \<in> set [0..7]. \<exists>c \<in> set [0..7]. (i32 (x + c) < 320 \<and> i32 (y + r) < 200) \<and> (off, v) = ((y + r) * 320 + (x + c), color r c)"
      then show "\<exists>r c. 0 \<le> r \<and> r \<le> 7 \<and> 0 \<le> c \<and> c \<le> 7 \<and> x + c < 320 \<and> y + r < 200 \<and> off = (y + r) * 320 + (x + c) \<and> v = color r c"
        using i by auto
    next
      assume "\<exists>r c. 0 \<le> r \<and> r \<le> 7 \<and> 0 \<le> c \<and> c \<le> 7 \<and> x + c < 320 \<and> y + r < 200 \<and> off = (y + r) * 320 + (x + c) \<and> v = color r c"
      then obtain r c where "0 \<le> r" "r \<le> 7" "0 \<le> c" "c \<le> 7" "x + c < 320" "y + r < 200" "off = (y + r) * 320 + (x + c)" "v = color r c"
        by blast
      then show "\<exists>r \<in> set [0..7]. \<exists>c \<in> set [0..7]. (i32 (x + c) < 320 \<and> i32 (y + r) < 200) \<and> (off, v) = ((y + r) * 320 + (x + c), color r c)"
        using i by (intro bexI [where x = r] bexI [where x = c] conjI) simp_all
    qed
  qed
  have same: "r = row \<and> c = col"
    if "0 \<le> r" "r \<le> 7" "0 \<le> c" "c \<le> 7" "x + c < 320" "y + r < 200"
      and e: "g_target st + of_int ((y + r) * 320 + (x + c)) = g_target st + of_int ((y + row) * 320 + (x + col))" for r c
  proof -
    have "\<bar>((y + r) * 320 + (x + c)) - ((y + row) * 320 + (x + col))\<bar> < 2 ^ 32"
      using that(1-4) assms(5-8) by (simp add: abs_less_iff)
    then have "(y + r) * 320 + (x + c) = (y + row) * 320 + (x + col)" using e of_int_u32_inj by blast
    then have "r * 320 + c = row * 320 + col" by (simp add: algebra_simps)
    then show ?thesis using row_column [of c col r row] that assms(7,8) by simp
  qed
  have "draws (g_target st) ps (g_mem st) (g_target st + of_int ((y + row) * 320 + (x + col))) = color row col"
  proof (rule draws_at)
    show "\<exists>(off, u) \<in> set ps. g_target st + of_int off = g_target st + of_int ((y + row) * 320 + (x + col))"
      using el assms(5-10) by blast
    show "\<forall>(off, u) \<in> set ps. g_target st + of_int off = g_target st + of_int ((y + row) * 320 + (x + col)) \<longrightarrow> u = color row col"
    proof (intro ballI, clarify)
      fix off u
      assume "(off, u) \<in> set ps" and a: "g_target st + of_int off = g_target st + of_int ((y + row) * 320 + (x + col))"
      then obtain r c where "0 \<le> r" "r \<le> 7" "0 \<le> c" "c \<le> 7" "x + c < 320" "y + r < 200" "off = (y + r) * 320 + (x + c)" "u = color r c"
        using el by blast
      then show "u = color row col" using same [of r c] a by simp
    qed
  qed
  moreover have "vga_draw_char x y ch fg bg st = draw_on ps st"
    unfolding vga_draw_char_def Let_def glyph_def [symmetric] ps_def color_def vga_consts by (rule refl)
  ultimately show ?thesis unfolding color_def glyph_def by (simp add: draw_on_def)
qed

text \<open>
  \<^verbatim>\<open>vga_draw_char\<close> tests only the right and lower edge.  A column of a character left of the
  screen is drawn at the right end of the row above, and in the first row it changes the memory
  in front of the screen.
\<close>
theorem vga_draw_char_wraps:
  assumes "- 8 < x" and "0 \<le> col" and "x + col < 0" and "0 \<le> row" and "row \<le> 7" and "0 \<le> y" and "y + row < 200"
    and "color = (if glyph_bit (glyph_of font8x8 (if ch > 127 then chr CHR ''?'' else ch)) row col then rgb_to_vga fg else rgb_to_vga bg)"
  shows "if y + row = 0 then g_mem (vga_draw_char x y ch fg bg st) (g_target st + of_int (x + col)) = color
    else pixel (vga_draw_char x y ch fg bg st) (320 + x + col) (y + row - 1) = color"
proof -
  have b: "g_mem (vga_draw_char x y ch fg bg st) (g_target st + of_int ((y + row) * 320 + (x + col))) = color"
    unfolding assms(8) using assms(1-7) by (intro char_byte) simp_all
  show ?thesis
  proof (cases "y + row = 0")
    case True
    then have "(y + row) * 320 + (x + col) = x + col" by simp
    then show ?thesis using b True by simp
  next
    case False
    have tgt: "g_target (vga_draw_char x y ch fg bg st) = g_target st" by (simp add: vga_draw_char_def draw_on_def Let_def)
    have e: "(y + row - 1) * 320 + (320 + x + col) = (y + row) * 320 + (x + col)" by (simp add: algebra_simps)
    show ?thesis using b False unfolding pixel_def tgt e by (simp only: if_False)
  qed
qed

theorem vga_draw_char_wraps_witness:
  "pixel (vga_draw_char (- 3) 10 (chr CHR ''E'') 15 0 blank_gfx) 318 9 = 15"
proof -
  have "glyph_bit (glyph_of font8x8 (if chr CHR ''E'' > 127 then chr CHR ''?'' else chr CHR ''E'')) 0 1"
    by (simp add: chr_def glyph_of_def font8x8_def glyph_bit_def)
  moreover have "rgb_to_vga 15 = 15" by (simp add: rgb_to_vga_def)
  ultimately show ?thesis using vga_draw_char_wraps [of "- 3" 1 0 10 15 "chr CHR ''E''" 15 0 blank_gfx] by simp
qed

text \<open>
  \<^verbatim>\<open>vga_draw_char\<close> inside the screen: the pixels of the 8 by 8 box show the glyph in the two
  colors, clipped at the right and lower edge; codes above 127 show the question mark and codes
  without a glyph an empty box.
\<close>
theorem vga_draw_char_draws:
  assumes "0 \<le> x" and "0 \<le> y" and "on_vga px py" and "x \<le> px" and "px < x + 8" and "y \<le> py" and "py < y + 8"
  shows "pixel (vga_draw_char x y ch fg bg st) px py =
    (if glyph_bit (glyph_of font8x8 (if ch > 127 then chr CHR ''?'' else ch)) (py - y) (px - x) then rgb_to_vga fg else rgb_to_vga bg)"
proof -
  have tgt: "g_target (vga_draw_char x y ch fg bg st) = g_target st" by (simp add: vga_draw_char_def draw_on_def Let_def)
  have e: "y + (py - y) = py" "x + (px - x) = px" by simp_all
  show ?thesis
    unfolding pixel_def tgt using assms
    by (intro char_byte [of x y "py - y" "px - x", unfolded e]) (simp_all add: on_vga_def)
qed

theorem vga_draw_char_draws_witness:
  "pixel (vga_draw_char 10 20 (chr CHR ''L'') 15 1 blank_gfx) 11 20 = 15 \<and> pixel (vga_draw_char 10 20 (chr CHR ''L'') 15 1 blank_gfx) 14 20 = 1"
proof -
  have g: "glyph_of font8x8 (if chr CHR ''L'' > 127 then chr CHR ''?'' else chr CHR ''L'') = [0x60, 0x60, 0x60, 0x60, 0x60, 0x60, 0x7E, 0x00]"
    by (simp add: chr_def glyph_of_def font8x8_def)
  have "glyph_bit [0x60, 0x60, 0x60, 0x60, 0x60, 0x60, 0x7E, 0x00] 0 1" "\<not> glyph_bit [0x60, 0x60, 0x60, 0x60, 0x60, 0x60, 0x7E, 0x00] 0 4"
    by (simp_all add: glyph_bit_def)
  then show ?thesis
    using vga_draw_char_draws [of 10 20 11 20 "chr CHR ''L''" 15 1 blank_gfx, unfolded g]
      vga_draw_char_draws [of 10 20 14 20 "chr CHR ''L''" 15 1 blank_gfx, unfolded g]
    by (simp add: on_vga_def rgb_to_vga_def)
qed

section \<open>The palette\<close>

text \<open>What the driver relies on of the converter behind the ports \<^verbatim>\<open>0x3C8\<close> and \<^verbatim>\<open>0x3C9\<close>.\<close>

locale vga_dac =
  fixes io :: "'d port_io" and table :: "'d \<Rightarrow> u8 \<Rightarrow> u8 \<times> u8 \<times> u8"
  assumes set_entry: "r < 64 \<Longrightarrow> g < 64 \<Longrightarrow> b < 64 \<Longrightarrow>
    table (outb io 0x3C9 b (outb io 0x3C9 g (outb io 0x3C9 r (outb io 0x3C8 i d)))) = (table d)(i := (r, g, b))"
begin

lemma six_bits: "drop_bit 2 (v :: u8) < 64"
proof -
  have "unat v < 256" using unsigned_less [of v] by simp
  then show ?thesis by (simp add: word_less_nat_alt drop_bit_eq_div unat_div)
qed

lemma set_palette_entry: "table (set_palette io (i, r, g, b) d) = (table d)(i := (drop_bit 2 r, drop_bit 2 g, drop_bit 2 b))"
  by (simp add: set_palette_def out_seq_def set_entry six_bits)

lemma set_palettes:
  "distinct (map fst es) \<Longrightarrow> table (fold (set_palette io) es d) i =
     (case map_of es i of Some (r, g, b) \<Rightarrow> (drop_bit 2 r, drop_bit 2 g, drop_bit 2 b) | None \<Rightarrow> table d i)"
proof (induction es arbitrary: d)
  case (Cons e es)
  obtain k r g b where e: "e = (k, r, g, b)" by (cases e)
  show ?case
  proof (cases "i = k")
    case True
    then have "map_of es i = None" using Cons.prems e by (simp add: map_of_eq_None_iff)
    with Cons e True show ?thesis by (simp add: set_palette_entry)
  next
    case False
    with Cons e show ?thesis by (cases "map_of es i") (simp_all add: set_palette_entry)
  qed
qed simp

end

text \<open>A converter as its index latch, the values received so far and its table.\<close>

definition ref_dac_io :: "(u8 \<times> u8 list \<times> (u8 \<Rightarrow> u8 \<times> u8 \<times> u8)) port_io" where
  "ref_dac_io = \<lparr>inb = (\<lambda>p d. (0, d)),
     outb = (\<lambda>p v (i, vs, t). if p = 0x3C8 then (v, [], t)
        else if p = 0x3C9 then (if length vs = 2 then (i + 1, [], t(i := (vs ! 0, vs ! 1, v))) else (i, vs @ [v], t)) else (i, vs, t)),
     insw = (\<lambda>p n d. (replicate n 0, d)), outsw = (\<lambda>p ws d. d)\<rparr>"

interpretation ref_dac: vga_dac ref_dac_io "\<lambda>(i, vs, t). t"
  by unfold_locales (auto simp: ref_dac_io_def split: prod.splits)

lemma palette_indices: "map fst (standard_colors @ gray_ramp @ color_cube) = map of_nat [0..<248]"
proof -
  have "map fst standard_colors = map (of_nat :: nat \<Rightarrow> u8) [0..<16]" by (simp add: standard_colors_def upt_rec)
  moreover have "map fst gray_ramp = map (of_nat :: nat \<Rightarrow> u8) [16..<32]" by (simp add: gray_ramp_def upt_rec)
  moreover have "map fst color_cube = map (of_nat :: nat \<Rightarrow> u8) (map (\<lambda>k. 32 + k) [0..<216])" by (simp add: color_cube_def)
  moreover have "map (\<lambda>k. 32 + k) [0..<216] = [32..<248 :: nat]" by (rule nth_equalityI) (simp_all del: upt_rec_numeral)
  moreover have "[0..<248] = [0..<16] @ [16..<32] @ [32..<248 :: nat]"
    using upt_add_eq_append [of 0 16 232] upt_add_eq_append [of 16 32 216] by simp
  ultimately show ?thesis by (simp del: upt_rec_numeral)
qed

lemma palette_distinct: "distinct (map fst (standard_colors @ gray_ramp @ color_cube))"
proof -
  have "inj_on (of_nat :: nat \<Rightarrow> u8) {0..<248}"
    by (rule inj_onI) (simp add: word_unat_eq_iff unat_of_nat)
  then show ?thesis unfolding palette_indices by (simp add: distinct_map del: upt_rec_numeral)
qed

text \<open>
  The palette: after \<^verbatim>\<open>setup_palette\<close> the converter holds, from entry 32 on, the color cube
  with the color of red, green and blue levels 0 to 5 at entry \<open>32 + 36 r + 6 g + b\<close>.  The cube
  ends at entry 247; the last eight entries keep what they had.
\<close>
theorem palette_color_cube:
  assumes "vga_dac io table" and "r < 6" and "g < 6" and "b < 6" and "248 \<le> i"
  shows "table (setup_palette io d) (of_nat (32 + 36 * r + 6 * g + b)) =
      (drop_bit 2 (of_nat (51 * r)), drop_bit 2 (of_nat (51 * g)), drop_bit 2 (of_nat (51 * b))) \<and>
    table (setup_palette io d) i = table d i"
proof -
  let ?es = "standard_colors @ gray_ramp @ color_cube"
  define k where "k = 36 * r + 6 * g + b"
  have k: "k < 216" "k div 36 = r" "k div 6 mod 6 = g" "k mod 6 = b"
  proof -
    have "k div 6 = 6 * r + g" using assms(4) by (simp add: k_def)
    then show "k div 6 mod 6 = g" using assms(3) by simp
    show "k < 216" "k div 36 = r" "k mod 6 = b" using assms(2-4) by (simp_all add: k_def) presburger
  qed
  have "(of_nat (32 + k), of_nat (k div 36 * 51), of_nat (k div 6 mod 6 * 51), of_nat (k mod 6 * 51)) \<in> set color_cube"
    using k(1) unfolding color_cube_def by (auto simp del: upt_rec_numeral)
  then have "(of_nat (32 + k), of_nat (51 * r), of_nat (51 * g), of_nat (51 * b)) \<in> set ?es"
    unfolding k by (simp add: mult.commute)
  then have "map_of ?es (of_nat (32 + k)) = Some (of_nat (51 * r), of_nat (51 * g), of_nat (51 * b))"
    by (rule map_of_is_SomeI [OF palette_distinct])
  moreover have "map_of ?es i = None"
  proof -
    have ne: "i \<noteq> of_nat n" if n: "n < 248" for n
    proof
      assume "i = of_nat n"
      then have "unat i = n" using n by (simp add: unat_of_nat)
      then show False using n assms(5) by (simp add: word_le_nat_alt)
    qed
    have "i \<notin> set (map fst ?es)"
    proof
      assume "i \<in> set (map fst ?es)"
      then obtain n where "n < 248" "i = of_nat n" unfolding palette_indices by (auto simp del: upt_rec_numeral)
      with ne show False by blast
    qed
    then show ?thesis by (simp only: map_of_eq_None_iff set_map simp_thms)
  qed
  ultimately show ?thesis
    unfolding setup_palette_def vga_dac.set_palettes [OF assms(1) palette_distinct] k_def add.assoc by (simp only: option.case prod.case simp_thms)
qed

theorem palette_color_cube_witness:
  "(\<lambda>(i, vs, t). t) (setup_palette ref_dac_io (0, [], \<lambda>_. (0, 0, 0))) (of_nat (32 + 36 * 5 + 6 * 0 + 1)) = (63, 0, 12)"
  using palette_color_cube [OF ref_dac.vga_dac_axioms, of 5 0 1 255 "(0, [], \<lambda>_. (0, 0, 0))"] by simp

section \<open>Saving the text screen\<close>

lemma get32_put32 [simp]: "get32 a (put32 a v m) = v"
proof (rule bit_word_eqI)
  fix n
  assume "n < LENGTH(32)"
  then have n: "n < 32" by simp
  have "bit (ucast (ucast v :: u8) OR push_bit 8 (ucast (ucast (drop_bit 8 v) :: u8)) OR
      push_bit 16 (ucast (ucast (drop_bit 16 v) :: u8)) OR push_bit 24 (ucast (ucast (drop_bit 24 v) :: u8)) :: u32) n = bit v n"
    using n by (cases "n < 8"; cases "n < 16"; cases "n < 24") (simp_all add: bit_simps less_diff_conv2)
  then show "bit (get32 a (put32 a v m)) n = bit v n" by (simp add: get32_def put32_def)
qed

lemma put32_other: "x \<notin> {a, a + 1, a + 2, a + 3} \<Longrightarrow> put32 a v m x = m x"
  by (simp add: put32_def)

lemma get32_cong: "(\<And>x. x \<in> {a, a + 1, a + 2, a + 3} \<Longrightarrow> m x = m' x) \<Longrightarrow> get32 a m = get32 a m'"
  by (simp add: get32_def)

definition copy_some :: "u32 \<Rightarrow> u32 \<Rightarrow> nat \<Rightarrow> mem \<Rightarrow> mem" where
  "copy_some dst src n = fold (\<lambda>i m. put_cell dst i (m (src + of_nat (2 * i))) (m (src + of_nat (2 * i) + 1)) m) [0..<n]"

lemma copy_some_value:
  assumes dj: "\<And>i k. i < 2 * N \<Longrightarrow> k < 2 * N \<Longrightarrow> dst + of_nat i \<noteq> src + of_nat k" and "n \<le> N"
  shows "copy_some dst src n m a = (if \<exists>k < 2 * n. a = dst + of_nat k then m (a - dst + src) else m a)"
  using assms(2)
proof (induction n arbitrary: a)
  case 0
  then show ?case by (simp add: copy_some_def)
next
  case (Suc n)
  let ?f = "copy_some dst src n m"
  have src: "?f (src + of_nat k) = m (src + of_nat k)" if "k < 2 * N" for k
    using Suc.IH [of "src + of_nat k"] Suc.prems dj [of _ k] that by (metis Suc_leD less_le_trans mult_le_mono2)
  have step: "copy_some dst src (Suc n) m a = put_cell dst n (?f (src + of_nat (2 * n))) (?f (src + of_nat (2 * n + 1))) ?f a"
    by (simp add: copy_some_def algebra_simps)
  have v: "?f (src + of_nat (2 * n)) = m (src + of_nat (2 * n))" "?f (src + of_nat (2 * n + 1)) = m (src + of_nat (2 * n + 1))"
    using src [of "2 * n"] src [of "2 * n + 1"] Suc.prems by simp_all
  have ex: "(\<exists>k < 2 * Suc n. a = dst + of_nat k) \<longleftrightarrow> (\<exists>k < 2 * n. a = dst + of_nat k) \<or> a = dst + of_nat (2 * n) \<or> a = dst + of_nat (2 * n + 1)"
  proof -
    have "k < 2 * Suc n \<longleftrightarrow> k < 2 * n \<or> k = 2 * n \<or> k = 2 * n + 1" for k by auto
    then show ?thesis by blast
  qed
  have pc: "put_cell dst n x y f a = (if a = dst + of_nat (2 * n + 1) then y else if a = dst + of_nat (2 * n) then x else f a)" for x y f
  proof -
    have "dst + of_nat (2 * n) + 1 = dst + of_nat (2 * n + 1)" by simp
    then show ?thesis unfolding put_cell_def by (simp only: fun_upd_apply)
  qed
  have r: "dst + w - dst + src = src + w" for w by simp
  consider "a = dst + of_nat (2 * n + 1)" | "a = dst + of_nat (2 * n)" "a \<noteq> dst + of_nat (2 * n + 1)"
    | "a \<noteq> dst + of_nat (2 * n)" "a \<noteq> dst + of_nat (2 * n + 1)" by blast
  then show ?case
  proof cases
    case 1
    then show ?thesis unfolding step v ex pc by (simp only: r simp_thms if_True)
  next
    case 2
    then show ?thesis unfolding step v ex pc by (simp only: r simp_thms if_True if_False)
  next
    case 3
    then show ?thesis unfolding step v ex pc using Suc.IH [of a] Suc.prems by (simp only: simp_thms if_False)
  qed
qed

lemma far_apart:
  fixes a b :: u32
  assumes "i < 4000" and "k < 4000" and "unat a + 4000 \<le> unat b" and "unat b + 4000 < 2 ^ 32"
  shows "a + of_nat i \<noteq> b + of_nat k"
proof
  assume e: "a + of_nat i = b + of_nat k"
  have "unat (a + of_nat i) = unat a + i" "unat (b + of_nat k) = unat b + k"
    using assms by (simp_all add: unat_word_ariths unat_of_nat)
  then show False using e assms by simp
qed

lemma copy_cells_value:
  assumes "unat dst + 4000 \<le> unat src \<or> unat src + 4000 \<le> unat dst" and "unat dst + 4000 < 2 ^ 32" and "unat src + 4000 < 2 ^ 32"
  shows "copy_cells dst src m a = (if \<exists>k < 4000. a = dst + of_nat k then m (a - dst + src) else m a)"
proof -
  have "dst + of_nat i \<noteq> src + of_nat k" if "i < 2 * 2000" "k < 2 * 2000" for i k
    using far_apart [of i k dst src] far_apart [of k i src dst] assms that by auto
  from copy_some_value [of 2000, OF this] show ?thesis by (simp add: copy_some_def copy_cells_def)
qed

text \<open>The memory that has to survive the reboot: the copy of the screen, the flag and the cursor.\<close>

definition backup_area :: "u32 set" where
  "backup_area = {a. (\<exists>k < 4000. a = 0x90000 + of_nat k) \<or> (\<exists>k < 12. a = 0x9F000 + of_nat k)}"

lemma addr_ne:
  fixes p q :: u32
  assumes "unat p + k < 2 ^ 32" and "unat q + j < 2 ^ 32" and "unat p + k \<noteq> unat q + j"
  shows "p + of_nat k \<noteq> q + of_nat j"
proof
  assume e: "p + of_nat k = q + of_nat j"
  have "unat (p + of_nat k) = unat p + k" "unat (q + of_nat j) = unat q + j"
    using assms by (simp_all add: unat_word_ariths unat_of_nat)
  then show False using e assms by simp
qed

lemma get32_put32_other:
  "{a, a + 1, a + 2, a + 3} \<inter> {b, b + 1, b + 2, b + 3} = {} \<Longrightarrow> get32 a (put32 b v m) = get32 a m"
  by (rule get32_cong, rule put32_other) blast

lemma flag_apart:
  assumes "k < 4000" and "p = 0x90000 \<or> p = 0xB8000" and "f \<in> {0x9F000, 0x9F004, 0x9F008}"
  shows "p + of_nat k \<notin> {f, f + 1, f + 2, f + 3 :: u32}"
proof -
  have "p + of_nat k \<noteq> f + of_nat j" if "j < 4" for j
    using assms that by (intro addr_ne) auto
  from this [of 0] this [of 1] this [of 2] this [of 3] show ?thesis by simp
qed

text \<open>
  The text screen survives: when the reboot keeps the backup area, the shell's start-up
  restores every cell of the screen and the cursor as they were when the graphical program
  started, and only once.
\<close>
theorem text_screen_survives:
  assumes "\<forall>a \<in> backup_area. g_mem st1 a = g_mem (save_text_screen st) a"
  shows "\<exists>st2. gui_check_and_restore_screen hw st1 = (1, st2) \<and>
    (\<forall>k < 4000. g_mem st2 (VGA_TEXT_MEM + of_nat k) = g_mem st (VGA_TEXT_MEM + of_nat k)) \<and>
    g_row st2 = g_row st \<and> g_col st2 = g_col st \<and> gui_check_and_restore_screen hw st2 = (0, st2)"
proof -
  define m0 where "m0 = copy_cells 0x90000 0xB8000 (g_mem st)"
  define m1 where "m1 = put32 0x9F000 0x47554952 (put32 0x9F008 (g_col st) (put32 0x9F004 (g_row st) m0))"
  have s: "g_mem (save_text_screen st) = m1" by (simp add: save_text_screen_def backup_consts m1_def m0_def)
  have words: "get32 0x9F000 m1 = 0x47554952" "get32 0x9F004 m1 = g_row st" "get32 0x9F008 m1 = g_col st"
    by (simp_all add: m1_def get32_put32_other)
  have saved: "m1 (0x90000 + of_nat k) = g_mem st (0xB8000 + of_nat k)" if k: "k < 4000" for k
  proof -
    have "m1 (0x90000 + of_nat k) = m0 (0x90000 + of_nat k)"
      unfolding m1_def by (simp add: put32_other [OF flag_apart [OF k]])
    also have "\<dots> = g_mem st (0x90000 + of_nat k - 0x90000 + 0xB8000)"
      unfolding m0_def using k by (subst copy_cells_value) auto
    finally show ?thesis by (simp add: add.commute)
  qed
  have kept: "g_mem st1 a = m1 a" if "a \<in> backup_area" for a using assms that s by simp
  have flags: "a \<in> backup_area" if "a \<in> {f, f + 1, f + 2, f + 3}" "f \<in> {0x9F000, 0x9F004, 0x9F008}" for a f
  proof -
    have "\<exists>k < 12. a = 0x9F000 + of_nat k"
      using that by (auto intro: exI [of _ 0] exI [of _ 1] exI [of _ 2] exI [of _ 3] exI [of _ 4] exI [of _ 5] exI [of _ 6] exI [of _ 7]
        exI [of _ 8] exI [of _ 9] exI [of _ 10] exI [of _ 11])
    then show ?thesis by (simp add: backup_area_def)
  qed
  have w1: "get32 f (g_mem st1) = get32 f m1" if "f \<in> {0x9F000, 0x9F004, 0x9F008}" for f
    by (rule get32_cong) (use flags [OF _ that] kept in blast)
  define m2 where "m2 = copy_cells 0xB8000 0x90000 (put32 0x9F000 0 (g_mem st1))"
  have out: "m2 a = put32 0x9F000 0 (g_mem st1) a" if "a \<in> {f, f + 1, f + 2, f + 3}" "f \<in> {0x9F000, 0x9F004, 0x9F008}" for a f
    unfolding m2_def using flag_apart [of _ "0xB8000" f] that by (subst copy_cells_value) auto
  have w2: "get32 f m2 = get32 f (put32 0x9F000 0 (g_mem st1))" if "f \<in> {0x9F000, 0x9F004, 0x9F008}" for f
    by (rule get32_cong) (use out [OF _ that] in blast)
  have r: "get32 0x9F000 m2 = 0" "get32 0x9F004 m2 = g_row st" "get32 0x9F008 m2 = g_col st"
    using w2 w1 words by (simp_all add: get32_put32_other)
  have cells: "m2 (0xB8000 + of_nat k) = g_mem st (0xB8000 + of_nat k)" if k: "k < 4000" for k
  proof -
    have "m2 (0xB8000 + of_nat k) = put32 0x9F000 0 (g_mem st1) (0xB8000 + of_nat k - 0xB8000 + 0x90000)"
      unfolding m2_def using k by (subst copy_cells_value) auto
    also have "\<dots> = put32 0x9F000 0 (g_mem st1) (0x90000 + of_nat k)" by (simp add: add.commute)
    also have "\<dots> = m1 (0x90000 + of_nat k)"
      using kept [of "0x90000 + of_nat k"] k by (auto simp: put32_other [OF flag_apart [OF k]] backup_area_def)
    finally show ?thesis using saved [OF k] by simp
  qed
  have "gui_check_and_restore_screen hw st1 =
      (1, st1\<lparr>g_mem := m2, g_row := g_row st, g_col := g_col st, g_dev := hw (g_row st) (g_col st) (g_dev st1)\<rparr>)"
    unfolding gui_check_and_restore_screen_def backup_consts using w1 [of "0x9F000"] words(1) r(2,3) by (simp add: m2_def [symmetric] Let_def)
  moreover have "gui_check_and_restore_screen hw s2 = (0, s2)" if "g_mem s2 = m2" for s2 :: "'a gfx"
    unfolding gui_check_and_restore_screen_def backup_consts that r(1) by simp
  ultimately show ?thesis using cells by (simp add: VGA_TEXT_MEM_def)
qed

theorem text_screen_survives_witness:
  "\<exists>st2. gui_check_and_restore_screen (\<lambda>_ _ d. d)
      ((save_text_screen blank_gfx)\<lparr>g_row := 7, g_mem := (g_mem (save_text_screen blank_gfx))(0xB8000 := 65)\<rparr>) = (1, st2) \<and>
    g_mem st2 0xB8000 = 0 \<and> g_row st2 = 0"
proof -
  let ?st1 = "(save_text_screen blank_gfx)\<lparr>g_row := 7, g_mem := (g_mem (save_text_screen blank_gfx))(0xB8000 := 65)\<rparr>"
  have "(0xB8000 :: u32) \<noteq> 0x90000 + of_nat k" if "k < 4000" for k
    using addr_ne [of "0xB8000" 0 "0x90000" k] that by simp
  moreover have "(0xB8000 :: u32) \<noteq> 0x9F000 + of_nat k" if "k < 12" for k
    using addr_ne [of "0xB8000" 0 "0x9F000" k] that by simp
  ultimately have "0xB8000 \<notin> backup_area" by (auto simp: backup_area_def)
  then have "\<forall>a \<in> backup_area. g_mem ?st1 a = g_mem (save_text_screen blank_gfx) a" by auto
  from text_screen_survives [OF this, of "\<lambda>_ _ d. d"] obtain st2 where
    "gui_check_and_restore_screen (\<lambda>_ _ d. d) ?st1 = (1, st2)"
    "\<forall>k < 4000. g_mem st2 (VGA_TEXT_MEM + of_nat k) = g_mem blank_gfx (VGA_TEXT_MEM + of_nat k)" "g_row st2 = g_row blank_gfx" by blast
  moreover from this(2) have "g_mem st2 0xB8000 = 0" by (force simp: VGA_TEXT_MEM_def blank_gfx_def)
  ultimately show ?thesis by (simp add: blank_gfx_def)
qed

end
