(* ===== verification/Gui_VBE.thy ===== *)
theory Gui_VBE
  imports Gui_VGA
begin

text \<open>
  The VESA driver \<^verbatim>\<open>src/src/drivers/vbe_graphics.c\<close>, whose \<^verbatim>\<open>gpu_\<close> functions replace the weak ones of
  \<^verbatim>\<open>rust_driver_stubs.c\<close>: a frame buffer of 32-bit pixels with a second buffer in memory, and the
  320 by 200 mode as fallback.  The boot loader leaves the description of the mode at \<^verbatim>\<open>0x9000\<close>.
  \<open>kmalloc\<close> stands for the allocator of the assembly kernel.
\<close>

record 'd vbe =
  vb_gfx :: "'d gfx"
  vb_active :: bool
  vb_back :: u32
  vb_size :: u32

definition VBE_INFO_ADDR :: u32 where "VBE_INFO_ADDR = 0x9000"

definition get16 :: "u32 \<Rightarrow> mem \<Rightarrow> u16" where
  "get16 a m = ucast (m a) OR push_bit 8 (ucast (m (a + 1)))"

definition vbe_mem :: "'d vbe \<Rightarrow> mem" where "vbe_mem st = g_mem (vb_gfx st)"
definition vbe_fb :: "'d vbe \<Rightarrow> u32" where "vbe_fb st = get32 VBE_INFO_ADDR (vbe_mem st)"
definition vbe_width :: "'d vbe \<Rightarrow> int" where "vbe_width st = uint (get16 (VBE_INFO_ADDR + 4) (vbe_mem st))"
definition vbe_height :: "'d vbe \<Rightarrow> int" where "vbe_height st = uint (get16 (VBE_INFO_ADDR + 6) (vbe_mem st))"
definition vbe_bpp :: "'d vbe \<Rightarrow> int" where "vbe_bpp st = uint (vbe_mem st (VBE_INFO_ADDR + 8))"

definition on_gfx :: "('d gfx \<Rightarrow> 'd gfx) \<Rightarrow> 'd vbe \<Rightarrow> 'd vbe" where
  "on_gfx f st = st\<lparr>vb_gfx := f (vb_gfx st)\<rparr>"

definition vbe_log :: "console_event list \<Rightarrow> 'd vbe \<Rightarrow> 'd vbe" where
  "vbe_log es = on_gfx (\<lambda>g. g\<lparr>g_log := g_log g @ es\<rparr>)"

definition on_mem :: "(mem \<Rightarrow> mem) \<Rightarrow> 'd vbe \<Rightarrow> 'd vbe" where
  "on_mem f = on_gfx (\<lambda>g. g\<lparr>g_mem := f (g_mem g)\<rparr>)"

definition dec_digit :: "int \<Rightarrow> int \<Rightarrow> console_event" where
  "dec_digit n k = Putc (48 + of_int (n div k mod 10))"

definition dec_text :: "int \<Rightarrow> console_event list" where
  "dec_text n = (if n \<ge> 1000 then [dec_digit n 1000] else []) @ (if n \<ge> 100 then [dec_digit n 100] else []) @
     [dec_digit n 10, dec_digit n 1, Putc (chr CHR ''x'')]"

section \<open>Set-up and flush\<close>

definition gpu_setup_framebuffer :: "'d port_io \<Rightarrow> (u32 \<Rightarrow> u32) \<Rightarrow> 'd vbe \<Rightarrow> u32 \<times> 'd vbe" where
  "gpu_setup_framebuffer io kmalloc st =
     (if vbe_fb st \<noteq> 0 \<and> vbe_width st \<ge> 640 \<and> vbe_height st \<ge> 480
      then
        let w = vbe_width st; h = vbe_height st;
            st1 = vbe_log ([Puts (lit ''[VBE] Mode: '')] @ dec_text w @ dec_text h @
                    [dec_digit (vbe_bpp st) 10, dec_digit (vbe_bpp st) 1, Puts (lit '' LFB\<newline>'')]) (st\<lparr>vb_active := True\<rparr>);
            size' = of_int (w * h * 4); ptr = kmalloc size';
            st2 = (if ptr \<noteq> 0 then vbe_log [Puts (lit ''[VBE] Double buffering enabled\<newline>'')] (st1\<lparr>vb_size := size', vb_back := ptr\<rparr>)
                   else vbe_log [Puts (lit ''[VBE] Warning: No backbuffer, drawing direct\<newline>'')]
                          (st1\<lparr>vb_size := size', vb_back := vbe_fb st\<rparr>))
        in (vb_back st2, st2)
      else
        (VGA_HW_MEM, on_gfx (\<lambda>g. let g1 = set_mode_13h io g in g1\<lparr>g_dev := setup_palette io (g_dev g1)\<rparr>)
           (vbe_log [Puts (lit ''[VBE] Fallback to VGA 320x200\<newline>'')] (st\<lparr>vb_active := False\<rparr>))))"

text \<open>\<^verbatim>\<open>while (io_inb(0x3DA) & 0x08)\<close> and its negation.\<close>

partial_function (option) wait_bit :: "'d port_io \<Rightarrow> bool \<Rightarrow> 'd \<Rightarrow> 'd option" where
  "wait_bit io b d = (case inb io 0x3DA d of (v, d1) \<Rightarrow> if (v AND 0x08 \<noteq> 0) = b then wait_bit io b d1 else Some d1)"

definition wait_vsync :: "'d port_io \<Rightarrow> 'd \<Rightarrow> 'd option" where
  "wait_vsync io d = (case wait_bit io True d of None \<Rightarrow> None | Some d1 \<Rightarrow> wait_bit io False d1)"

definition move32 :: "u32 \<Rightarrow> u32 \<Rightarrow> nat \<Rightarrow> mem \<Rightarrow> mem" where
  "move32 dst src i m = put32 (dst + of_nat (4 * i)) (get32 (src + of_nat (4 * i)) m) m"

text \<open>
  \<^verbatim>\<open>rep movsl\<close> from \<^verbatim>\<open>backbuffer\<close>: the instruction's operand is the static variable itself, so the
  advanced pointer is stored back into it.
\<close>

definition gpu_flush :: "'d port_io \<Rightarrow> 'd vbe \<Rightarrow> (int \<times> 'd vbe) option" where
  "gpu_flush io st =
     (if \<not> vb_active st then Some (0, st)
      else if vb_back st \<noteq> 0 \<and> vb_back st \<noteq> vbe_fb st
      then map_option (\<lambda>d1.
             let count = nat (vbe_width st * vbe_height st);
                 st1 = on_gfx (\<lambda>g. g\<lparr>g_dev := d1\<rparr>) st
             in (0, (on_mem (fold (move32 (vbe_fb st) (vb_back st)) [0..<count]) st1)\<lparr>vb_back := vb_back st + of_nat (4 * count)\<rparr>))
           (wait_vsync io (g_dev (vb_gfx st)))
      else Some (0, st))"

definition gpu_get_width :: "'d vbe \<Rightarrow> int" where "gpu_get_width st = (if vb_active st then vbe_width st else 320)"
definition gpu_get_height :: "'d vbe \<Rightarrow> int" where "gpu_get_height st = (if vb_active st then vbe_height st else 200)"

section \<open>Drawing\<close>

definition get_draw_target :: "'d vbe \<Rightarrow> u32" where
  "get_draw_target st = (if vb_active st \<and> vb_back st \<noteq> 0 then vb_back st else if vb_active st then vbe_fb st else 0)"

text \<open>Stores at pixel offsets of the draw target, and bytes of the fallback mode.\<close>

definition draws32 :: "(int \<times> u32) list \<Rightarrow> 'd vbe \<Rightarrow> 'd vbe" where
  "draws32 ps st = on_mem (fold (\<lambda>(off, c). put32 (get_draw_target st + 4 * of_int off) c) ps) st"

definition draws8 :: "(int \<times> u8) list \<Rightarrow> 'd vbe \<Rightarrow> 'd vbe" where
  "draws8 ps = on_mem (draws VGA_HW_MEM ps)"

definition vbe_clear :: "u32 \<Rightarrow> 'd vbe \<Rightarrow> 'd vbe" where
  "vbe_clear color st =
     (if \<not> vb_active st then draws8 (map (\<lambda>i. (i, ucast color)) [0..320 * 200 - 1]) st
      else draws32 (map (\<lambda>i. (i, color)) [0..vbe_width st * vbe_height st - 1]) st)"

definition vbe_draw_pixel :: "int \<Rightarrow> int \<Rightarrow> u32 \<Rightarrow> 'd vbe \<Rightarrow> 'd vbe" where
  "vbe_draw_pixel x y color st =
     (if \<not> vb_active st
      then if x \<ge> 0 \<and> x < 320 \<and> y \<ge> 0 \<and> y < 200 then draws8 [(y * 320 + x, ucast color)] st else st
      else if x < 0 \<or> y < 0 \<or> x \<ge> vbe_width st \<or> y \<ge> vbe_height st then st
      else draws32 [(y * vbe_width st + x, color)] st)"

definition vbe_fill_rect :: "int \<Rightarrow> int \<Rightarrow> int \<Rightarrow> int \<Rightarrow> u32 \<Rightarrow> 'd vbe \<Rightarrow> 'd vbe" where
  "vbe_fill_rect x y w h color st =
     (if \<not> vb_active st
      then fold (\<lambda>py. fold (\<lambda>px. vbe_draw_pixel px py color) [x..i32 (x + w) - 1]) [y..i32 (y + h) - 1] st
      else
        let x1 = (if x < 0 then 0 else x); y1 = (if y < 0 then 0 else y);
            x2 = (if i32 (x + w) > vbe_width st then vbe_width st else i32 (x + w));
            y2 = (if i32 (y + h) > vbe_height st then vbe_height st else i32 (y + h))
        in if x1 \<ge> x2 \<or> y1 \<ge> y2 then st
           else draws32 [(py * vbe_width st + x1 + k, color). py \<leftarrow> [y1..y2 - 1], k \<leftarrow> [0..x2 - x1 - 1]] st)"

definition vbe_font8x8 :: "(nat \<times> u8 list) list" where
  "vbe_font8x8 =
    [(32, [0x00, 0x00, 0x00, 0x00, 0x00, 0x00, 0x00, 0x00]), (33, [0x18, 0x18, 0x18, 0x18, 0x00, 0x00, 0x18, 0x00]),
     (34, [0x6C, 0x6C, 0x24, 0x00, 0x00, 0x00, 0x00, 0x00]), (39, [0x18, 0x18, 0x08, 0x00, 0x00, 0x00, 0x00, 0x00]),
     (40, [0x0C, 0x18, 0x30, 0x30, 0x30, 0x18, 0x0C, 0x00]), (41, [0x30, 0x18, 0x0C, 0x0C, 0x0C, 0x18, 0x30, 0x00]),
     (43, [0x00, 0x18, 0x18, 0x7E, 0x18, 0x18, 0x00, 0x00]), (44, [0x00, 0x00, 0x00, 0x00, 0x00, 0x18, 0x18, 0x30]),
     (45, [0x00, 0x00, 0x00, 0x7E, 0x00, 0x00, 0x00, 0x00]), (46, [0x00, 0x00, 0x00, 0x00, 0x00, 0x18, 0x18, 0x00]),
     (47, [0x06, 0x0C, 0x18, 0x30, 0x60, 0xC0, 0x80, 0x00]), (58, [0x00, 0x18, 0x18, 0x00, 0x00, 0x18, 0x18, 0x00]),
     (61, [0x00, 0x00, 0x7E, 0x00, 0x7E, 0x00, 0x00, 0x00]), (63, [0x3C, 0x66, 0x06, 0x0C, 0x18, 0x00, 0x18, 0x00]),
     (91, [0x3C, 0x30, 0x30, 0x30, 0x30, 0x30, 0x3C, 0x00]), (93, [0x3C, 0x0C, 0x0C, 0x0C, 0x0C, 0x0C, 0x3C, 0x00]),
     (95, [0x00, 0x00, 0x00, 0x00, 0x00, 0x00, 0x00, 0xFF]), (124, [0x18, 0x18, 0x18, 0x18, 0x18, 0x18, 0x18, 0x18]),
     (48, [0x3C, 0x66, 0x6E, 0x76, 0x66, 0x66, 0x3C, 0x00]), (49, [0x18, 0x38, 0x18, 0x18, 0x18, 0x18, 0x7E, 0x00]),
     (50, [0x3C, 0x66, 0x06, 0x1C, 0x30, 0x60, 0x7E, 0x00]), (51, [0x3C, 0x66, 0x06, 0x1C, 0x06, 0x66, 0x3C, 0x00]),
     (52, [0x0C, 0x1C, 0x3C, 0x6C, 0x7E, 0x0C, 0x0C, 0x00]), (53, [0x7E, 0x60, 0x7C, 0x06, 0x06, 0x66, 0x3C, 0x00]),
     (54, [0x3C, 0x60, 0x7C, 0x66, 0x66, 0x66, 0x3C, 0x00]), (55, [0x7E, 0x06, 0x0C, 0x18, 0x30, 0x30, 0x30, 0x00]),
     (56, [0x3C, 0x66, 0x66, 0x3C, 0x66, 0x66, 0x3C, 0x00]), (57, [0x3C, 0x66, 0x66, 0x3E, 0x06, 0x0C, 0x38, 0x00]),
     (65, [0x18, 0x3C, 0x66, 0x7E, 0x66, 0x66, 0x66, 0x00]), (66, [0x7C, 0x66, 0x7C, 0x66, 0x66, 0x66, 0x7C, 0x00]),
     (67, [0x3C, 0x66, 0x60, 0x60, 0x60, 0x66, 0x3C, 0x00]), (68, [0x78, 0x6C, 0x66, 0x66, 0x66, 0x6C, 0x78, 0x00]),
     (69, [0x7E, 0x60, 0x7C, 0x60, 0x60, 0x60, 0x7E, 0x00]), (70, [0x7E, 0x60, 0x7C, 0x60, 0x60, 0x60, 0x60, 0x00]),
     (71, [0x3C, 0x66, 0x60, 0x6E, 0x66, 0x66, 0x3C, 0x00]), (72, [0x66, 0x66, 0x7E, 0x66, 0x66, 0x66, 0x66, 0x00]),
     (73, [0x3C, 0x18, 0x18, 0x18, 0x18, 0x18, 0x3C, 0x00]), (74, [0x1E, 0x0C, 0x0C, 0x0C, 0x0C, 0x6C, 0x38, 0x00]),
     (75, [0x66, 0x6C, 0x78, 0x70, 0x78, 0x6C, 0x66, 0x00]), (76, [0x60, 0x60, 0x60, 0x60, 0x60, 0x60, 0x7E, 0x00]),
     (77, [0x63, 0x77, 0x7F, 0x6B, 0x63, 0x63, 0x63, 0x00]), (78, [0x66, 0x76, 0x7E, 0x7E, 0x6E, 0x66, 0x66, 0x00]),
     (79, [0x3C, 0x66, 0x66, 0x66, 0x66, 0x66, 0x3C, 0x00]), (80, [0x7C, 0x66, 0x66, 0x7C, 0x60, 0x60, 0x60, 0x00]),
     (81, [0x3C, 0x66, 0x66, 0x66, 0x6A, 0x6C, 0x36, 0x00]), (82, [0x7C, 0x66, 0x66, 0x7C, 0x6C, 0x66, 0x66, 0x00]),
     (83, [0x3C, 0x66, 0x60, 0x3C, 0x06, 0x66, 0x3C, 0x00]), (84, [0x7E, 0x18, 0x18, 0x18, 0x18, 0x18, 0x18, 0x00]),
     (85, [0x66, 0x66, 0x66, 0x66, 0x66, 0x66, 0x3C, 0x00]), (86, [0x66, 0x66, 0x66, 0x66, 0x66, 0x3C, 0x18, 0x00]),
     (87, [0x63, 0x63, 0x63, 0x6B, 0x7F, 0x77, 0x63, 0x00]), (88, [0x66, 0x66, 0x3C, 0x18, 0x3C, 0x66, 0x66, 0x00]),
     (89, [0x66, 0x66, 0x66, 0x3C, 0x18, 0x18, 0x18, 0x00]), (90, [0x7E, 0x06, 0x0C, 0x18, 0x30, 0x60, 0x7E, 0x00]),
     (97, [0x00, 0x00, 0x3C, 0x06, 0x3E, 0x66, 0x3E, 0x00]), (98, [0x60, 0x60, 0x7C, 0x66, 0x66, 0x66, 0x7C, 0x00]),
     (99, [0x00, 0x00, 0x3C, 0x66, 0x60, 0x66, 0x3C, 0x00]), (100, [0x06, 0x06, 0x3E, 0x66, 0x66, 0x66, 0x3E, 0x00]),
     (101, [0x00, 0x00, 0x3C, 0x66, 0x7E, 0x60, 0x3C, 0x00]), (102, [0x1C, 0x30, 0x7C, 0x30, 0x30, 0x30, 0x30, 0x00]),
     (103, [0x00, 0x00, 0x3E, 0x66, 0x66, 0x3E, 0x06, 0x3C]), (104, [0x60, 0x60, 0x7C, 0x66, 0x66, 0x66, 0x66, 0x00]),
     (105, [0x18, 0x00, 0x38, 0x18, 0x18, 0x18, 0x3C, 0x00]), (106, [0x0C, 0x00, 0x1C, 0x0C, 0x0C, 0x0C, 0x6C, 0x38]),
     (107, [0x60, 0x60, 0x66, 0x6C, 0x78, 0x6C, 0x66, 0x00]), (108, [0x38, 0x18, 0x18, 0x18, 0x18, 0x18, 0x3C, 0x00]),
     (109, [0x00, 0x00, 0x66, 0x7F, 0x7F, 0x6B, 0x63, 0x00]), (110, [0x00, 0x00, 0x7C, 0x66, 0x66, 0x66, 0x66, 0x00]),
     (111, [0x00, 0x00, 0x3C, 0x66, 0x66, 0x66, 0x3C, 0x00]), (112, [0x00, 0x00, 0x7C, 0x66, 0x66, 0x7C, 0x60, 0x60]),
     (113, [0x00, 0x00, 0x3E, 0x66, 0x66, 0x3E, 0x06, 0x06]), (114, [0x00, 0x00, 0x7C, 0x66, 0x60, 0x60, 0x60, 0x00]),
     (115, [0x00, 0x00, 0x3E, 0x60, 0x3C, 0x06, 0x7C, 0x00]), (116, [0x30, 0x30, 0x7C, 0x30, 0x30, 0x30, 0x1C, 0x00]),
     (117, [0x00, 0x00, 0x66, 0x66, 0x66, 0x66, 0x3E, 0x00]), (118, [0x00, 0x00, 0x66, 0x66, 0x66, 0x3C, 0x18, 0x00]),
     (119, [0x00, 0x00, 0x63, 0x6B, 0x7F, 0x7F, 0x36, 0x00]), (120, [0x00, 0x00, 0x66, 0x3C, 0x18, 0x3C, 0x66, 0x00]),
     (121, [0x00, 0x00, 0x66, 0x66, 0x66, 0x3E, 0x06, 0x3C]), (122, [0x00, 0x00, 0x7E, 0x0C, 0x18, 0x30, 0x7E, 0x00])]"

definition vbe_draw_char :: "int \<Rightarrow> int \<Rightarrow> u8 \<Rightarrow> u32 \<Rightarrow> u32 \<Rightarrow> 'd vbe \<Rightarrow> 'd vbe" where
  "vbe_draw_char x y ch fg bg st =
     (let c = (if ch > 127 then chr CHR ''?'' else ch)
      in if \<not> vb_active st then on_gfx (vga_draw_char x y c fg bg) st
         else
           let glyph = glyph_of vbe_font8x8 c
           in draws32 [(i32 (y + row) * vbe_width st + i32 (x + col), if glyph_bit glyph row col then fg else bg).
                row \<leftarrow> [0..7], \<not> (i32 (y + row) < 0 \<or> i32 (y + row) \<ge> vbe_height st),
                col \<leftarrow> [0..7], \<not> (i32 (x + col) < 0 \<or> i32 (x + col) \<ge> vbe_width st)] st)"

fun vbe_draw_string :: "int \<Rightarrow> int \<Rightarrow> u8 list \<Rightarrow> u32 \<Rightarrow> u32 \<Rightarrow> 'd vbe \<Rightarrow> 'd vbe" where
  "vbe_draw_string cx y [] fg bg st = st"
| "vbe_draw_string cx y (ch # s) fg bg st = vbe_draw_string (i32 (cx + 8)) y s fg bg (vbe_draw_char cx y ch fg bg st)"

definition gpu_clear :: "u32 \<Rightarrow> 'd vbe \<Rightarrow> 'd vbe" where "gpu_clear = vbe_clear"
definition gpu_draw_pixel :: "int \<Rightarrow> int \<Rightarrow> u32 \<Rightarrow> 'd vbe \<Rightarrow> 'd vbe" where "gpu_draw_pixel = vbe_draw_pixel"
definition gpu_fill_rect :: "int \<Rightarrow> int \<Rightarrow> int \<Rightarrow> int \<Rightarrow> u32 \<Rightarrow> 'd vbe \<Rightarrow> 'd vbe" where "gpu_fill_rect = vbe_fill_rect"
definition gpu_draw_char :: "int \<Rightarrow> int \<Rightarrow> u8 \<Rightarrow> u32 \<Rightarrow> u32 \<Rightarrow> 'd vbe \<Rightarrow> 'd vbe" where "gpu_draw_char = vbe_draw_char"
definition gpu_draw_string :: "int \<Rightarrow> int \<Rightarrow> u8 list \<Rightarrow> u32 \<Rightarrow> u32 \<Rightarrow> 'd vbe \<Rightarrow> 'd vbe" where "gpu_draw_string = vbe_draw_string"

section \<open>The second buffer\<close>

lemma get32_bytes:
  shows "ucast (get32 a m) = m a" and "ucast (drop_bit 8 (get32 a m)) = m (a + 1)"
    and "ucast (drop_bit 16 (get32 a m)) = m (a + 2)" and "ucast (drop_bit 24 (get32 a m)) = m (a + 3)"
  unfolding get32_def by (rule bit_word_eqI, auto simp: bit_simps dest: bit_imp_le_length)+

lemma move32_byte:
  "move32 dst src i m x = (let d = dst + of_nat (4 * i); s = src + of_nat (4 * i) in
     if x = d + 3 then m (s + 3) else if x = d + 2 then m (s + 2) else if x = d + 1 then m (s + 1) else if x = d then m s else m x)"
  by (simp add: move32_def put32_def get32_bytes Let_def)

text \<open>\<^verbatim>\<open>rep movsl\<close> between blocks that do not overlap, byte by byte.\<close>

lemma move32_fold:
  fixes dst src :: u32
  assumes d: "unat dst + 4 * N < 2 ^ 32" and s: "unat src + 4 * N \<le> unat dst" and n: "n \<le> N"
  shows "(\<forall>k < 4 * n. fold (move32 dst src) [0..<n] m (dst + of_nat k) = m (src + of_nat k)) \<and>
    (\<forall>a. (\<forall>k < 4 * n. a \<noteq> dst + of_nat k) \<longrightarrow> fold (move32 dst src) [0..<n] m a = m a)"
  using n
proof (induction n)
  case (Suc n)
  define f where "f = fold (move32 dst src) [0..<n] m"
  have IH: "f (dst + of_nat k) = m (src + of_nat k)" if "k < 4 * n" for k using Suc that by (simp add: f_def)
  have keep: "f a = m a" if "\<forall>k < 4 * n. a \<noteq> dst + of_nat k" for a using Suc that by (simp add: f_def)
  have apart: "src + of_nat j \<noteq> dst + of_nat k" if "j < 4 * N" "k < 4 * N" for j k
    using that d s by (intro addr_ne) auto
  have srcs: "f (src + of_nat j) = m (src + of_nat j)" if "j < 4 * N" for j
    using that apart Suc.prems by (intro keep) auto
  have inj: "dst + of_nat j = dst + of_nat k \<longleftrightarrow> j = k" if "j < 4 * N" "k < 4 * N" for j k
    using that d addr_ne [of dst j dst k] by auto
  have step: "fold (move32 dst src) [0..<Suc n] m x = (if x = dst + of_nat (4 * n + 3) then f (src + of_nat (4 * n + 3))
      else if x = dst + of_nat (4 * n + 2) then f (src + of_nat (4 * n + 2))
      else if x = dst + of_nat (4 * n + 1) then f (src + of_nat (4 * n + 1))
      else if x = dst + of_nat (4 * n) then f (src + of_nat (4 * n)) else f x)" for x
    by (simp add: move32_byte Let_def f_def add.assoc [symmetric] add.commute)
  have four: "k < 4 * Suc n \<longleftrightarrow> k < 4 * n \<or> k = 4 * n \<or> k = 4 * n + 1 \<or> k = 4 * n + 2 \<or> k = 4 * n + 3" for k by auto
  have new: "fold (move32 dst src) [0..<Suc n] m (dst + of_nat k) = m (src + of_nat k)" if k: "k < 4 * Suc n" for k
  proof -
    have b: "k < 4 * N" "4 * n + 3 < 4 * N" "4 * n + 2 < 4 * N" "4 * n + 1 < 4 * N" "4 * n < 4 * N" using k Suc.prems by auto
    show ?thesis
      unfolding step inj [OF b(1,2)] inj [OF b(1,3)] inj [OF b(1,4)] inj [OF b(1,5)]
      using k IH [of k] srcs [OF b(1)] unfolding four by auto
  qed
  have old: "fold (move32 dst src) [0..<Suc n] m a = m a" if "\<forall>k < 4 * Suc n. a \<noteq> dst + of_nat k" for a
  proof -
    have "a \<noteq> dst + of_nat (4 * n + 3)" "a \<noteq> dst + of_nat (4 * n + 2)" "a \<noteq> dst + of_nat (4 * n + 1)" "a \<noteq> dst + of_nat (4 * n)"
      using that [rule_format, of "4 * n + 3"] that [rule_format, of "4 * n + 2"] that [rule_format, of "4 * n + 1"]
        that [rule_format, of "4 * n"] by simp_all
    then show ?thesis unfolding step using that keep [of a] by (simp only: if_False) simp
  qed
  show ?case using new old by blast
qed simp

text \<open>The block of \<open>n\<close> pixels at \<open>base\<close>.\<close>

definition pixel_at :: "u32 \<Rightarrow> nat \<Rightarrow> mem \<Rightarrow> u32" where
  "pixel_at base i m = get32 (base + of_nat (4 * i)) m"

lemma pixel_index:
  assumes "0 \<le> x" "x < w" "0 \<le> y" "y < h"
  shows "nat (y * w + x) < nat (w * h)" and "int (nat (y * w + x)) = y * w + x"
proof -
  have "(y + 1) * w \<le> h * w" using assms by (intro mult_right_mono) auto
  moreover have "y * w + x < (y + 1) * w" using assms by (simp add: algebra_simps)
  moreover have "0 \<le> y * w + x" using assms by simp
  ultimately show "nat (y * w + x) < nat (w * h)" "int (nat (y * w + x)) = y * w + x" by (simp_all add: mult.commute)
qed

text \<open>Drawing at a pointer \<open>n\<close> pixels behind \<open>b\<close> leaves the \<open>n\<close> pixels at \<open>b\<close> alone.\<close>

lemma vbe_draw_pixel_above:
  fixes st :: "'d vbe"
  defines "n \<equiv> nat (vbe_width st * vbe_height st)"
  assumes act: "vb_active st" and bk: "vb_back st = b + of_nat (4 * n)" and b: "b \<noteq> 0" "unat b + 8 * n < 2 ^ 32" and k: "k < 4 * n"
  shows "vbe_mem (vbe_draw_pixel x y c st) (b + of_nat k) = vbe_mem st (b + of_nat k)"
proof (cases "x < 0 \<or> y < 0 \<or> x \<ge> vbe_width st \<or> y \<ge> vbe_height st")
  case True
  then show ?thesis using act by (simp add: vbe_draw_pixel_def)
next
  case False
  define off where "off = nat (y * vbe_width st + x)"
  have off: "off < n" "int off = y * vbe_width st + x"
    using pixel_index [of x "vbe_width st" y "vbe_height st"] False by (simp_all add: off_def n_def)
  have "unat (b + of_nat (4 * n)) = unat b + 4 * n" using b(2) by (simp add: unat_word_ariths unat_of_nat)
  then have "b + of_nat (4 * n) \<noteq> 0" using b(1) by (auto simp: unat_eq_0)
  then have tgt: "get_draw_target st = b + of_nat (4 * n)" using act bk by (simp add: get_draw_target_def)
  have e: "vbe_mem (vbe_draw_pixel x y c st) = put32 (b + of_nat (4 * n) + 4 * of_int (y * vbe_width st + x)) c (vbe_mem st)"
    using False act unfolding vbe_draw_pixel_def draws32_def by (simp add: on_mem_def on_gfx_def vbe_mem_def tgt)
  have "(of_int (y * vbe_width st + x) :: u32) = of_nat off" using off(2) by (metis of_int_of_nat_eq)
  then have a: "b + of_nat (4 * n) + 4 * of_int (y * vbe_width st + x) = b + of_nat (4 * n + 4 * off)" by simp
  have ne: "b + of_nat k \<noteq> b + of_nat (4 * n + 4 * off + j)" if "j < 4" for j
    using k off that b(2) by (intro addr_ne) auto
  show ?thesis unfolding e a
    using ne [of 0] ne [of 1] ne [of 2] ne [of 3] by (intro put32_other) (simp add: add.assoc add.left_commute add.commute)
qed

text \<open>
  C40.  \<^verbatim>\<open>gpu_flush\<close> shows the picture once: with the second buffer below the frame buffer, the
  first flush copies it pixel by pixel, but it leaves the buffer's pointer at the end of the buffer, so
  that no pixel drawn afterwards reaches the allocated buffer any more.
\<close>
theorem gpu_flush_loses_buffer:
  fixes st :: "'d vbe"
  defines "n \<equiv> nat (vbe_width st * vbe_height st)"
  assumes "vb_active st" and "vb_back st \<noteq> 0" and "0 < n"
    and "0x9009 \<le> unat (vb_back st)"
    and "unat (vb_back st) + 4 * n \<le> unat (vbe_fb st)" and "unat (vbe_fb st) + 4 * n < 2 ^ 32"
    and "wait_vsync io (g_dev (vb_gfx st)) = Some d"
  shows "\<exists>st'. gpu_flush io st = Some (0, st') \<and> vb_back st' = vb_back st + of_nat (4 * n) \<and>
    (\<forall>i < n. pixel_at (vbe_fb st) i (vbe_mem st') = pixel_at (vb_back st) i (vbe_mem st)) \<and>
    (\<forall>x y c. \<forall>k < 4 * n. vbe_mem (vbe_draw_pixel x y c st') (vb_back st + of_nat k) = vbe_mem st (vb_back st + of_nat k))"
proof -
  let ?m = "fold (move32 (vbe_fb st) (vb_back st)) [0..<n] (vbe_mem st)"
  define st' where "st' = (on_mem (fold (move32 (vbe_fb st) (vb_back st)) [0..<n]) (on_gfx (\<lambda>g. g\<lparr>g_dev := d\<rparr>) st))
    \<lparr>vb_back := vb_back st + of_nat (4 * n)\<rparr>"
  have fl: "gpu_flush io st = Some (0, st')"
    using assms by (auto simp: gpu_flush_def st'_def)
  have m: "vbe_mem st' = ?m" by (simp add: st'_def vbe_mem_def on_mem_def on_gfx_def)
  note mf = move32_fold [of "vbe_fb st" n "vb_back st" n "vbe_mem st", OF assms(7,6) le_refl]
  have kept: "?m (p + of_nat k) = vbe_mem st (p + of_nat k)" if "unat p + k < unat (vbe_fb st)" for p k
  proof -
    have "\<forall>j < 4 * n. p + of_nat k \<noteq> vbe_fb st + of_nat j"
      using that assms(7) by (intro allI impI addr_ne) auto
    then show ?thesis using mf by blast
  qed
  have info: "vbe_width st' = vbe_width st" "vbe_height st' = vbe_height st"
    using kept [of "0x9000" 4] kept [of "0x9000" 5] kept [of "0x9000" 6] kept [of "0x9000" 7] assms(5,6)
    by (simp_all add: vbe_width_def vbe_height_def get16_def VBE_INFO_ADDR_def m)
  have pics: "pixel_at (vbe_fb st) i (vbe_mem st') = pixel_at (vb_back st) i (vbe_mem st)" if "i < n" for i
  proof -
    have b: "?m (vbe_fb st + of_nat (4 * i + j)) = vbe_mem st (vb_back st + of_nat (4 * i + j))" if "j < 4" for j
      using conjunct1 [OF mf, rule_format, of "4 * i + j"] \<open>i < n\<close> that by linarith
    show ?thesis unfolding pixel_at_def get32_def m using b [of 0] b [of 1] b [of 2] b [of 3] by (simp add: add.assoc add.left_commute add.commute)
  qed
  have lost: "vbe_mem (vbe_draw_pixel x y c st') (vb_back st + of_nat k) = vbe_mem st (vb_back st + of_nat k)" if k: "k < 4 * n" for x y c k
  proof -
    have "vb_active st'" "vb_back st' = vb_back st + of_nat (4 * n)"
      using assms(2) by (simp_all add: st'_def on_mem_def on_gfx_def)
    then have "vbe_mem (vbe_draw_pixel x y c st') (vb_back st + of_nat k) = vbe_mem st' (vb_back st + of_nat k)"
      using k assms(3,6,7) info unfolding n_def by (intro vbe_draw_pixel_above) auto
    moreover have "vbe_mem st' (vb_back st + of_nat k) = vbe_mem st (vb_back st + of_nat k)"
      unfolding m by (rule kept) (use k assms(6) in linarith)
    ultimately show ?thesis by simp
  qed
  have bk: "vb_back st' = vb_back st + of_nat (4 * n)" by (simp add: st'_def)
  show ?thesis using fl bk pics lost by blast
qed

text \<open>A mode of two pixels whose card toggles the retrace bit at every read.\<close>

definition toggle_io :: "bool port_io" where
  "toggle_io = \<lparr>inb = (\<lambda>p d. (if d then 8 else 0, \<not> d)), outb = (\<lambda>p v d. d), insw = (\<lambda>p n d. ([], d)), outsw = (\<lambda>p ws d. d)\<rparr>"

definition demo_vbe :: "bool vbe" where
  "demo_vbe = \<lparr>vb_gfx = \<lparr>g_mem = (\<lambda>_. 0)(0x9003 := 0x20, 0x9004 := 2, 0x9006 := 1, 0x10000 := 7), g_target = VGA_HW_MEM, g_ready = True,
     g_mode13 = True, g_row = 0, g_col = 0, g_gpu_base = 0, g_gpu_found = False, g_log = [], g_dev = False\<rparr>,
     vb_active = True, vb_back = 0x10000, vb_size = 8\<rparr>"

lemma demo_vbe_info:
  "vbe_width demo_vbe = 2" "vbe_height demo_vbe = 1" "vbe_fb demo_vbe = 0x20000000"
  by (simp_all add: vbe_width_def vbe_height_def vbe_fb_def get16_def get32_def VBE_INFO_ADDR_def vbe_mem_def demo_vbe_def)

lemma toggle_vsync: "wait_vsync toggle_io False = Some False"
  by (simp add: wait_vsync_def wait_bit.simps toggle_io_def)

theorem gpu_flush_loses_buffer_witness:
  "\<exists>st'. gpu_flush toggle_io demo_vbe = Some (0, st') \<and> vb_back st' = 0x10008 \<and>
    pixel_at 0x20000000 0 (vbe_mem st') = 7 \<and> vbe_mem (vbe_draw_pixel 0 0 9 st') 0x10000 = 7"
proof -
  have "vb_active demo_vbe" "vb_back demo_vbe = 0x10000" "g_dev (vb_gfx demo_vbe) = False"
    "pixel_at 0x10000 0 (vbe_mem demo_vbe) = 7" "vbe_mem demo_vbe 0x10000 = 7"
    by (simp_all add: demo_vbe_def pixel_at_def vbe_mem_def get32_def)
  note facts = this
  obtain st' where st': "gpu_flush toggle_io demo_vbe = Some (0, st')" "vb_back st' = 0x10000 + of_nat (4 * 2)"
    "\<forall>i < 2. pixel_at 0x20000000 i (vbe_mem st') = pixel_at 0x10000 i (vbe_mem demo_vbe)"
    "\<forall>x y c. \<forall>k < 4 * 2. vbe_mem (vbe_draw_pixel x y c st') (0x10000 + of_nat k) = vbe_mem demo_vbe (0x10000 + of_nat k)"
    using gpu_flush_loses_buffer [of demo_vbe toggle_io False] facts toggle_vsync demo_vbe_info by auto
  have "vbe_mem (vbe_draw_pixel 0 0 9 st') 0x10000 = 7"
    using st'(4) [rule_format, of 0 0 0 9] facts by simp
  moreover have "pixel_at 0x20000000 0 (vbe_mem st') = 7" using st'(3) facts by simp
  ultimately show ?thesis using st'(1,2) by (intro exI [of _ st']) simp
qed

end
