(* ===== verification/Gui_Apps.thy ===== *)
theory Gui_Apps
  imports Gui_VBE Drv_Mouse "HOL-Library.Signed_Division"
begin

text \<open>
  What the graphical programs of \<^verbatim>\<open>src/src/gui_apps.c\<close> share: the drawing wrappers, which choose
  the 320 by 200 mode, the drawing routines, the pointer with the pixels under it, and the set-up.
  What to draw does not depend on the picture, so a drawing routine is the list of the calls it
  makes, and \<open>safe_gpu\<close> is the effect of one call.  The machine behind the ports, the
  keyboard and the mouse is the record \<open>gui_env\<close>.
\<close>

text \<open>
  A step of a program goes on, reboots the machine, is trapped by the processor, or never ends.
\<close>

datatype 's act = Goes 's | Reboots 's | Traps | Hangs

fun act_bind :: "'s act \<Rightarrow> ('s \<Rightarrow> 's act) \<Rightarrow> 's act" where
  "act_bind (Goes s) f = f s"
| "act_bind (Reboots s) f = Reboots s"
| "act_bind Traps f = Traps"
| "act_bind Hangs f = Hangs"

fun act_all :: "('s \<Rightarrow> bool) \<Rightarrow> 's act \<Rightarrow> bool" where
  "act_all P (Goes s) = P s"
| "act_all P (Reboots s) = P s"
| "act_all P Traps = True"
| "act_all P Hangs = True"

lemma act_all_bind: "act_all P m \<Longrightarrow> (\<And>s. P s \<Longrightarrow> act_all P (f s)) \<Longrightarrow> act_all P (act_bind m f)"
  by (cases m) auto

fun act_goes :: "('s \<Rightarrow> bool) \<Rightarrow> 's act \<Rightarrow> bool" where
  "act_goes P (Goes s) = P s"
| "act_goes P (Reboots s) = True"
| "act_goes P Traps = True"
| "act_goes P Hangs = True"

lemma act_goes_bind: "act_goes P m \<Longrightarrow> (\<And>s. P s \<Longrightarrow> act_goes Q (f s)) \<Longrightarrow> act_goes Q (act_bind m f)"
  by (cases m) auto

lemma act_goes_iff: "act_goes P m \<longleftrightarrow> (\<forall>s. m = Goes s \<longrightarrow> P s)"
  by (cases m) auto

lemma act_all_goes: "act_all P m \<Longrightarrow> act_goes P m"
  by (cases m) auto

record 'd gui =
  gu_vbe :: "'d vbe"
  gu_mouse :: mouse_state
  gu_width :: int
  gu_height :: int
  gu_fallback :: bool
  gu_buffer :: u32
  gu_saved :: "int \<times> int"
  gu_save_bg :: "u8 list"

record 'd gui_env =
  ge_io :: "'d port_io"
  ge_kmalloc :: "u32 \<Rightarrow> u32"
  ge_mouse :: "'d \<Rightarrow> u8 option \<times> 'd"
  ge_hit :: "'d \<Rightarrow> bool \<times> 'd"
  ge_getkey :: "'d \<Rightarrow> u16 \<times> 'd"

definition on_vbe :: "('d vbe \<Rightarrow> 'd vbe) \<Rightarrow> ('d, 'm) gui_scheme \<Rightarrow> ('d, 'm) gui_scheme" where
  "on_vbe f st = st\<lparr>gu_vbe := f (gu_vbe st)\<rparr>"

definition gui_dev :: "('d, 'm) gui_scheme \<Rightarrow> 'd" where
  "gui_dev st = g_dev (vb_gfx (gu_vbe st))"

definition set_dev :: "'d \<Rightarrow> ('d, 'm) gui_scheme \<Rightarrow> ('d, 'm) gui_scheme" where
  "set_dev d = on_vbe (on_gfx (\<lambda>g. g\<lparr>g_dev := d\<rparr>))"

definition sys_reboot :: "'d gui_env \<Rightarrow> ('d, 'm) gui_scheme \<Rightarrow> ('d, 'm) gui_scheme act" where
  "sys_reboot env st = Reboots (set_dev (outb (ge_io env) 0x64 0xFE (gui_dev st)) st)"

section \<open>Colors and calls\<close>

definition COLOR_BLACK :: u32 where "COLOR_BLACK = 0x000000"
definition COLOR_BLUE :: u32 where "COLOR_BLUE = 0x0000AA"
definition COLOR_GREEN :: u32 where "COLOR_GREEN = 0x00AA00"
definition COLOR_CYAN :: u32 where "COLOR_CYAN = 0x00AAAA"
definition COLOR_RED :: u32 where "COLOR_RED = 0xAA0000"
definition COLOR_MAGENTA :: u32 where "COLOR_MAGENTA = 0xAA00AA"
definition COLOR_BROWN :: u32 where "COLOR_BROWN = 0xAA5500"
definition COLOR_GRAY :: u32 where "COLOR_GRAY = 0xAAAAAA"
definition COLOR_DARKGRAY :: u32 where "COLOR_DARKGRAY = 0x555555"
definition COLOR_LBLUE :: u32 where "COLOR_LBLUE = 0x5555FF"
definition COLOR_LGREEN :: u32 where "COLOR_LGREEN = 0x55FF55"
definition COLOR_LCYAN :: u32 where "COLOR_LCYAN = 0x55FFFF"
definition COLOR_LRED :: u32 where "COLOR_LRED = 0xFF5555"
definition COLOR_LMAGENTA :: u32 where "COLOR_LMAGENTA = 0xFF55FF"
definition COLOR_YELLOW :: u32 where "COLOR_YELLOW = 0xFFFF55"
definition COLOR_WHITE :: u32 where "COLOR_WHITE = 0xFFFFFF"
definition COLOR_LGRAY :: u32 where "COLOR_LGRAY = 0xC0C0C0"

lemmas gui_colors = COLOR_BLACK_def COLOR_BLUE_def COLOR_GREEN_def COLOR_CYAN_def COLOR_RED_def COLOR_MAGENTA_def
  COLOR_BROWN_def COLOR_GRAY_def COLOR_DARKGRAY_def COLOR_LBLUE_def COLOR_LGREEN_def COLOR_LCYAN_def COLOR_LRED_def
  COLOR_LMAGENTA_def COLOR_YELLOW_def COLOR_WHITE_def COLOR_LGRAY_def

definition gui_palette :: "(u32 \<times> u8) list" where
  "gui_palette = [(0x000000, 0), (0x0000AA, 1), (0x00AA00, 2), (0x00AAAA, 3), (0xAA0000, 4), (0xAA00AA, 5), (0xAA5500, 6),
     (0xAAAAAA, 7), (0x555555, 8), (0x5555FF, 9), (0x55FF55, 10), (0x55FFFF, 11), (0xFF5555, 12), (0xFF55FF, 13),
     (0xFFFF55, 14), (0xFFFFFF, 15)]"

definition gui_rgb_to_vga :: "u32 \<Rightarrow> u8" where
  "gui_rgb_to_vga c = (case map_of gui_palette c of Some k \<Rightarrow> k | None \<Rightarrow> 15)"

datatype draw = Pixel int int u32 | Clear u32 | Rect int int int int u32
  | Glyph int int u8 u32 u32 | Text int int "u8 list" u32 u32

abbreviation idx :: "u32 \<Rightarrow> u32" where "idx c \<equiv> ucast (gui_rgb_to_vga c)"

fun safe_gpu :: "draw \<Rightarrow> ('d, 'm) gui_scheme \<Rightarrow> ('d, 'm) gui_scheme" where
  "safe_gpu (Pixel x y c) st =
     on_vbe (if gu_fallback st then on_gfx (vga_draw_pixel x y (idx c)) else gpu_draw_pixel x y c) st"
| "safe_gpu (Clear c) st = on_vbe (if gu_fallback st then on_gfx (vga_clear (idx c)) else gpu_clear c) st"
| "safe_gpu (Rect x y w h c) st =
     on_vbe (if gu_fallback st then on_gfx (vga_fill_rect x y w h (idx c)) else gpu_fill_rect x y w h c) st"
| "safe_gpu (Glyph x y ch fg bg) st =
     on_vbe (if gu_fallback st then on_gfx (vga_draw_char x y ch (idx fg) (idx bg)) else gpu_draw_char x y ch fg bg) st"
| "safe_gpu (Text x y s fg bg) st =
     on_vbe (if gu_fallback st then on_gfx (vga_draw_string x y s (idx fg) (idx bg)) else gpu_draw_string x y s fg bg) st"

definition paint_calls :: "draw list \<Rightarrow> ('d, 'm) gui_scheme \<Rightarrow> ('d, 'm) gui_scheme" where
  "paint_calls = fold safe_gpu"

section \<open>Drawing routines\<close>

definition gpu_draw_hline :: "int \<Rightarrow> int \<Rightarrow> int \<Rightarrow> u32 \<Rightarrow> draw list" where
  "gpu_draw_hline x y w c = [Rect x y w 1 c]"

definition gpu_draw_rect :: "int \<Rightarrow> int \<Rightarrow> int \<Rightarrow> int \<Rightarrow> u32 \<Rightarrow> draw list" where
  "gpu_draw_rect x y w h c = [Rect x y w 1 c, Rect x (y + h - 1) w 1 c, Rect x y 1 h c, Rect (x + w - 1) y 1 h c]"

definition gui_draw_hline :: "int \<Rightarrow> int \<Rightarrow> int \<Rightarrow> u32 \<Rightarrow> draw list" where
  "gui_draw_hline x y w c = map (\<lambda>i. Pixel (x + i) y c) [0..w - 1]"

definition gui_draw_vline :: "int \<Rightarrow> int \<Rightarrow> int \<Rightarrow> u32 \<Rightarrow> draw list" where
  "gui_draw_vline x y h c = map (\<lambda>i. Pixel x (y + i) c) [0..h - 1]"

definition gui_draw_rect :: "int \<Rightarrow> int \<Rightarrow> int \<Rightarrow> int \<Rightarrow> u32 \<Rightarrow> draw list" where
  "gui_draw_rect x y w h c = gui_draw_hline x y w c @ gui_draw_hline x (y + h - 1) w c @ gui_draw_vline x y h c @
     gui_draw_vline (x + w - 1) y h c"

definition gui_draw_window :: "int \<Rightarrow> int \<Rightarrow> int \<Rightarrow> int \<Rightarrow> u8 list \<Rightarrow> draw list" where
  "gui_draw_window x y w h title =
     [Rect x y w h COLOR_GRAY, Rect (x + 2) (y + 2) (w - 4) 18 COLOR_BLUE,
      Text (x + (w - int (length title) * 8) sdiv 2) (y + 6) title COLOR_WHITE COLOR_BLUE] @
     gui_draw_rect x y w h COLOR_DARKGRAY @
     [Rect (x + w - 18) (y + 4) 14 14 COLOR_RED, Text (x + w - 15) (y + 6) (lit ''X'') COLOR_WHITE COLOR_RED]"

definition gui_draw_cursor :: "int \<Rightarrow> int \<Rightarrow> int \<Rightarrow> int \<Rightarrow> draw list" where
  "gui_draw_cursor width height x y =
     [Pixel (x + j) (y + i) (if j = 0 \<or> j = i \<or> i = 11 then COLOR_BLACK else COLOR_WHITE).
        i \<leftarrow> [0..11], j \<leftarrow> [0..min i 7], x + j < width \<and> y + i < height]"

section \<open>Pointer and screen\<close>

definition poll_mouse :: "'d gui_env \<Rightarrow> ('d, 'm) gui_scheme \<Rightarrow> ('d, 'm) gui_scheme act" where
  "poll_mouse env st =
     (case mouse_poll (ge_mouse env) (gu_mouse st) (gui_dev st) of
        None \<Rightarrow> Hangs
      | Some (m, d) \<Rightarrow> Goes (set_dev d (st\<lparr>gu_mouse := m\<rparr>)))"

text \<open>\<^verbatim>\<open>while (mouse_left) mouse_poll();\<close>\<close>

partial_function (option) released ::
  "('d \<Rightarrow> u8 option \<times> 'd) \<Rightarrow> mouse_state \<Rightarrow> 'd \<Rightarrow> (mouse_state \<times> 'd) option" where
  "released rd m d =
     (if mouse_get_left m then Option.bind (mouse_poll rd m d) (\<lambda>(m1, d1). released rd m1 d1) else Some (m, d))"

definition wait_release :: "'d gui_env \<Rightarrow> ('d, 'm) gui_scheme \<Rightarrow> ('d, 'm) gui_scheme act" where
  "wait_release env st =
     (case released (ge_mouse env) (gu_mouse st) (gui_dev st) of
        None \<Rightarrow> Hangs
      | Some (m, d) \<Rightarrow> Goes (set_dev d (st\<lparr>gu_mouse := m\<rparr>)))"

definition flush_screen :: "'d gui_env \<Rightarrow> ('d, 'm) gui_scheme \<Rightarrow> ('d, 'm) gui_scheme act" where
  "flush_screen env st = (case gpu_flush (ge_io env) (gu_vbe st) of None \<Rightarrow> Hangs | Some (r, v) \<Rightarrow> Goes (st\<lparr>gu_vbe := v\<rparr>))"

text \<open>A key, when one waits: \<^verbatim>\<open>c_getkey_nonblock\<close> and \<^verbatim>\<open>c_getkey\<close>.\<close>

definition with_key ::
  "'d gui_env \<Rightarrow> (u16 \<Rightarrow> ('d, 'm) gui_scheme \<Rightarrow> ('d, 'm) gui_scheme act) \<Rightarrow> ('d, 'm) gui_scheme \<Rightarrow> ('d, 'm) gui_scheme act" where
  "with_key env f st =
     (case ge_hit env (gui_dev st) of (hit, d1) \<Rightarrow>
        if hit then case ge_getkey env d1 of (key, d2) \<Rightarrow> f key (set_dev d2 st) else Goes (set_dev d1 st))"

definition key_ascii :: "u16 \<Rightarrow> u8" where "key_ascii key = ucast (key AND 0xFF)"
definition key_scan :: "u16 \<Rightarrow> u8" where "key_scan key = ucast (drop_bit 8 key AND 0xFF)"

text \<open>The pixels under the pointer: 16 rows of 12.  \<^verbatim>\<open>gui_buffer\<close> is never assigned in the file.\<close>

definition under_pointer :: "(int \<times> int) list" where
  "under_pointer = [(dx, dy). dy \<leftarrow> [0..15], dx \<leftarrow> [0..11]]"

definition inside :: "('d, 'm) gui_scheme \<Rightarrow> int \<Rightarrow> int \<Rightarrow> bool" where
  "inside st px py \<longleftrightarrow> px \<ge> 0 \<and> px < gu_width st \<and> py \<ge> 0 \<and> py < gu_height st"

definition restore_background :: "('d, 'm) gui_scheme \<Rightarrow> ('d, 'm) gui_scheme" where
  "restore_background st =
     (if fst (gu_saved st) \<noteq> - 1 \<and> gu_fallback st \<and> gu_buffer st \<noteq> 0
      then on_vbe (on_mem (fold (\<lambda>(dx, dy) m.
             let px = fst (gu_saved st) + dx; py = snd (gu_saved st) + dy
             in if inside st px py then m(gu_buffer st + of_int (py * gu_width st + px) := gu_save_bg st ! nat (dy * 12 + dx)) else m)
             under_pointer)) st
      else st)"

definition save_background :: "('d, 'm) gui_scheme \<Rightarrow> ('d, 'm) gui_scheme" where
  "save_background st0 =
     (let st = st0\<lparr>gu_saved := (mouse_get_x (gu_mouse st0), mouse_get_y (gu_mouse st0))\<rparr>
      in if gu_fallback st \<and> gu_buffer st \<noteq> 0
         then st\<lparr>gu_save_bg := fold (\<lambda>(dx, dy) bg.
                let px = fst (gu_saved st) + dx; py = snd (gu_saved st) + dy
                in bg[nat (dy * 12 + dx) := if inside st px py
                     then vbe_mem (gu_vbe st) (gu_buffer st + of_int (py * gu_width st + px)) else 0])
                under_pointer (gu_save_bg st)\<rparr>
         else st)"

definition draw_pointer :: "'d gui_env \<Rightarrow> ('d, 'm) gui_scheme \<Rightarrow> ('d, 'm) gui_scheme act" where
  "draw_pointer env st =
     flush_screen env (paint_calls (gui_draw_cursor (gu_width st) (gu_height st) (mouse_get_x (gu_mouse st)) (mouse_get_y (gu_mouse st))) st)"

section \<open>Set-up\<close>

definition start_screen :: "'d gui_env \<Rightarrow> ('d, 'm) gui_scheme \<Rightarrow> ('d, 'm) gui_scheme" where
  "start_screen env st =
     st\<lparr>gu_vbe := snd (gpu_setup_framebuffer (ge_io env) (ge_kmalloc env) (gu_vbe st)),
       gu_width := 320, gu_height := 200, gu_fallback := True\<rparr>"

definition start_mouse :: "'d gui_env \<Rightarrow> ('d, 'm) gui_scheme \<Rightarrow> ('d, 'm) gui_scheme act" where
  "start_mouse env st =
     (case mouse_init (ge_io env) (ge_mouse env) (gpu_get_width (gu_vbe st)) (gpu_get_height (gu_vbe st)) (gu_mouse st) (gui_dev st) of
        None \<Rightarrow> Hangs
      | Some (r, m, d) \<Rightarrow> Goes (set_dev d (st\<lparr>gu_mouse := mouse_set_bounds (gu_width st) (gu_height st) m\<rparr>)))"

text \<open>Drawing changes the screen only, and polling the mouse and the machine.\<close>

lemma safe_gpu_vbe: "\<exists>v. safe_gpu d st = st\<lparr>gu_vbe := v\<rparr>"
  by (cases d) (auto simp: on_vbe_def)

lemma paint_calls_vbe: "\<exists>v. paint_calls ds st = st\<lparr>gu_vbe := v\<rparr>"
proof (induction ds arbitrary: st)
  case Nil
  show ?case by (intro exI [of _ "gu_vbe st"]) (simp add: paint_calls_def)
next
  case (Cons d ds)
  obtain v where "safe_gpu d st = st\<lparr>gu_vbe := v\<rparr>" using safe_gpu_vbe by blast
  then show ?case using Cons [of "st\<lparr>gu_vbe := v\<rparr>"] by (auto simp: paint_calls_def)
qed

lemma set_dev_vbe: "set_dev d st = st\<lparr>gu_vbe := (gu_vbe st)\<lparr>vb_gfx := (vb_gfx (gu_vbe st))\<lparr>g_dev := d\<rparr>\<rparr>\<rparr>"
  by (simp add: set_dev_def on_vbe_def on_gfx_def)

lemma safe_gpu_dev:
  "gu_fallback st \<Longrightarrow> gui_dev (safe_gpu d st) = gui_dev st \<and> gu_fallback (safe_gpu d st) \<and>
     vb_active (gu_vbe (safe_gpu d st)) = vb_active (gu_vbe st)"
proof -
  have "g_dev (vga_draw_string x y s f b g) = g_dev g" for x y s f b and g :: "'a gfx"
    by (induction s arbitrary: x g) (simp_all add: vga_draw_char_def draw_on_def Let_def)
  then show "gu_fallback st \<Longrightarrow> gui_dev (safe_gpu d st) = gui_dev st \<and> gu_fallback (safe_gpu d st) \<and>
     vb_active (gu_vbe (safe_gpu d st)) = vb_active (gu_vbe st)"
    by (cases d) (simp_all add: on_vbe_def on_gfx_def gui_dev_def draw_on_def vga_draw_pixel_def vga_clear_def vga_fill_rect_def
        vga_draw_char_def Let_def)
qed

lemma paint_calls_dev [simp]:
  "gu_fallback st \<Longrightarrow> gui_dev (paint_calls ds st) = gui_dev st"
  "gu_fallback st \<Longrightarrow> vb_active (gu_vbe (paint_calls ds st)) = vb_active (gu_vbe st)"
  unfolding paint_calls_def by (induction ds arbitrary: st) (simp_all add: safe_gpu_dev)

lemma paint_calls_sel [simp]: "gu_mouse (paint_calls ds st) = gu_mouse st" "gu_fallback (paint_calls ds st) = gu_fallback st"
  "gu_width (paint_calls ds st) = gu_width st" "gu_height (paint_calls ds st) = gu_height st" "gu_buffer (paint_calls ds st) = gu_buffer st"
  using paint_calls_vbe [of ds st] by auto

section \<open>Where the programs draw\<close>

text \<open>
  The 64000 bytes of the 320 by 200 mode.  A call is inside when its characters start inside; the other calls are
  clipped.
\<close>

definition vga_window :: "'d gfx \<Rightarrow> u32 set" where
  "vga_window g = {g_target g + of_int off | off. 0 \<le> off \<and> off < 64000}"

fun call_inside :: "draw \<Rightarrow> bool" where
  "call_inside (Glyph x y ch fg bg) \<longleftrightarrow> 0 \<le> y * 320 + x \<and> \<bar>x\<bar> < 2 ^ 20 \<and> \<bar>y\<bar> < 2 ^ 20"
| "call_inside (Text x y s fg bg) \<longleftrightarrow> 0 \<le> y * 320 + x \<and> \<bar>x\<bar> < 2 ^ 20 \<and> \<bar>y\<bar> < 2 ^ 20 \<and> length s < 2 ^ 17"
| "call_inside d \<longleftrightarrow> True"

lemma draw_on_outside:
  assumes "\<forall>(off, v) \<in> set ps. 0 \<le> off \<and> off < 64000" and "a \<notin> vga_window g"
  shows "g_mem (draw_on ps g) a = g_mem g a" and "g_target (draw_on ps g) = g_target g" and "g_dev (draw_on ps g) = g_dev g"
proof -
  have "\<forall>(off, v) \<in> set ps. g_target g + of_int off \<noteq> a" using assms by (auto simp: vga_window_def)
  then show "g_mem (draw_on ps g) a = g_mem g a" unfolding draw_on_def by (simp add: draws_other)
qed (simp_all add: draw_on_def)

lemma screen_offset: "0 \<le> x \<Longrightarrow> x < 320 \<Longrightarrow> 0 \<le> y \<Longrightarrow> y < 200 \<Longrightarrow> 0 \<le> y * 320 + x \<and> y * 320 + x < (64000 :: int)"
  by linarith

lemma char_outside:
  assumes "0 \<le> y * 320 + x" and "- (2 ^ 21) < x" and "x < 2 ^ 21" and "\<bar>y\<bar> < 2 ^ 21" and "a \<notin> vga_window g"
  shows "g_mem (vga_draw_char x y ch fg bg g) a = g_mem g a"
proof -
  have r: "i32 (x + col) = x + col" "i32 (y + row) = y + row" if "0 \<le> row" "row \<le> 7" "0 \<le> col" "col \<le> 7" for row col
    using assms(2-4) that by (simp_all add: i32_def)
  show ?thesis
    unfolding vga_draw_char_def Let_def using assms(1,5) r
    by (intro draw_on_outside(1)) (auto simp: VGA_WIDTH_def VGA_HEIGHT_def)
qed

lemma string_outside:
  "0 \<le> y * 320 + x \<Longrightarrow> - (2 ^ 21) < x \<Longrightarrow> x + 8 * int (length s) < 2 ^ 21 \<Longrightarrow> \<bar>y\<bar> < 2 ^ 21 \<Longrightarrow> a \<notin> vga_window g \<Longrightarrow>
     g_mem (vga_draw_string x y s fg bg g) a = g_mem g a \<and> g_target (vga_draw_string x y s fg bg g) = g_target g \<and>
     g_dev (vga_draw_string x y s fg bg g) = g_dev g"
proof (induction s arbitrary: x g)
  case (Cons ch s)
  have i: "i32 (x + 8) = x + 8" using Cons.prems(2,3) by (simp add: i32_def)
  have t: "g_target (vga_draw_char x y ch fg bg g) = g_target g" "g_dev (vga_draw_char x y ch fg bg g) = g_dev g"
    by (simp_all add: vga_draw_char_def draw_on_def Let_def)
  have m: "g_mem (vga_draw_char x y ch fg bg g) a = g_mem g a" using Cons.prems by (intro char_outside) auto
  have "a \<notin> vga_window (vga_draw_char x y ch fg bg g)" using Cons.prems(5) t by (simp add: vga_window_def)
  then show ?case using Cons.IH [of "x + 8" "vga_draw_char x y ch fg bg g"] Cons.prems i t m by simp
qed simp

text \<open>Between two states only the window of the screen differs, and the machine behind the ports.\<close>

definition draws_only :: "('d, 'm) gui_scheme \<Rightarrow> ('d, 'm) gui_scheme \<Rightarrow> bool" where
  "draws_only st st1 \<longleftrightarrow> gu_fallback st1 \<and> \<not> vb_active (gu_vbe st1) \<and> gu_buffer st1 = 0 \<and> gu_width st1 = 320 \<and> gu_height st1 = 200 \<and>
     g_target (vb_gfx (gu_vbe st1)) = g_target (vb_gfx (gu_vbe st)) \<and>
     (\<forall>a. a \<notin> vga_window (vb_gfx (gu_vbe st)) \<longrightarrow> vbe_mem (gu_vbe st1) a = vbe_mem (gu_vbe st) a)"

lemma safe_gpu_only:
  assumes "draws_only st0 st" and "call_inside d"
  shows "draws_only st0 (safe_gpu d st)"
proof -
  let ?g = "vb_gfx (gu_vbe st)"
  have w: "vga_window ?g = vga_window (vb_gfx (gu_vbe st0))" using assms(1) by (simp add: draws_only_def vga_window_def)
  have "\<exists>f. safe_gpu d st = on_vbe (on_gfx f) st \<and> (\<forall>a. a \<notin> vga_window ?g \<longrightarrow> g_mem (f ?g) a = g_mem ?g a) \<and> g_target (f ?g) = g_target ?g"
  proof (cases d)
    case (Pixel x y c)
    have "\<forall>a. a \<notin> vga_window ?g \<longrightarrow> g_mem (vga_draw_pixel x y (idx c) ?g) a = g_mem ?g a"
      by (auto simp: vga_draw_pixel_def VGA_WIDTH_def VGA_HEIGHT_def intro!: draw_on_outside(1))
    then show ?thesis using assms(1) Pixel
      by (intro exI [of _ "vga_draw_pixel x y (idx c)"]) (simp add: draws_only_def vga_draw_pixel_def draw_on_def)
  next
    case (Clear c)
    have "\<forall>a. a \<notin> vga_window ?g \<longrightarrow> g_mem (vga_clear (idx c) ?g) a = g_mem ?g a"
      unfolding vga_clear_def by (intro allI impI draw_on_outside(1)) (simp_all add: VGA_WIDTH_def VGA_HEIGHT_def del: upto_rec_numeral)
    then show ?thesis using assms(1) Clear
      by (intro exI [of _ "vga_clear (idx c)"]) (simp add: draws_only_def vga_clear_def draw_on_def del: upto_rec_numeral)
  next
    case (Rect x y w h c)
    have "\<forall>a. a \<notin> vga_window ?g \<longrightarrow> g_mem (vga_fill_rect x y w h (idx c) ?g) a = g_mem ?g a"
      unfolding vga_fill_rect_def by (intro allI impI draw_on_outside(1)) (auto simp: VGA_WIDTH_def VGA_HEIGHT_def)
    then show ?thesis using assms(1) Rect
      by (intro exI [of _ "vga_fill_rect x y w h (idx c)"]) (simp add: draws_only_def vga_fill_rect_def draw_on_def)
  next
    case (Glyph x y ch fg bg)
    have "\<forall>a. a \<notin> vga_window ?g \<longrightarrow> g_mem (vga_draw_char x y ch (idx fg) (idx bg) ?g) a = g_mem ?g a"
      using assms(2) Glyph by (intro allI impI char_outside) auto
    then show ?thesis using assms(1) Glyph
      by (intro exI [of _ "vga_draw_char x y ch (idx fg) (idx bg)"]) (simp add: draws_only_def vga_draw_char_def draw_on_def Let_def)
  next
    case (Text x y s fg bg)
    have k: "g_mem (vga_draw_string x y s (idx fg) (idx bg) ?g) a = g_mem ?g a \<and>
        g_target (vga_draw_string x y s (idx fg) (idx bg) ?g) = g_target ?g" if "a \<notin> vga_window ?g" for a
      using string_outside [of y x s a ?g] assms(2) Text that by auto
    have "g_target (vga_draw_string x y s f b g) = g_target g" for f b and g :: "'a gfx"
      by (induction s arbitrary: x g) (simp_all add: vga_draw_char_def draw_on_def Let_def)
    then show ?thesis using assms(1) Text k
      by (intro exI [of _ "vga_draw_string x y s (idx fg) (idx bg)"]) (simp add: draws_only_def)
  qed
  then show ?thesis using assms(1) w by (auto simp: draws_only_def on_vbe_def on_gfx_def vbe_mem_def)
qed

lemma paint_calls_only: "draws_only st0 st \<Longrightarrow> \<forall>d \<in> set ds. call_inside d \<Longrightarrow> draws_only st0 (paint_calls ds st)"
  unfolding paint_calls_def by (induction ds arbitrary: st) (simp_all add: safe_gpu_only)

text \<open>What the shared operations keep: with no buffer to restore from, the pointer's background is never touched.\<close>

lemma draws_only_refl: "gu_fallback st \<Longrightarrow> \<not> vb_active (gu_vbe st) \<Longrightarrow> gu_buffer st = 0 \<Longrightarrow> gu_width st = 320 \<Longrightarrow> gu_height st = 200 \<Longrightarrow> draws_only st st"
  by (simp add: draws_only_def)

lemma draws_only_upd [simp]:
  "draws_only st0 (set_dev d st) = draws_only st0 st" "draws_only st0 (st\<lparr>gu_mouse := m\<rparr>) = draws_only st0 st"
  "draws_only st0 (st\<lparr>gu_saved := p\<rparr>) = draws_only st0 st" "draws_only st0 (st\<lparr>gu_save_bg := bg\<rparr>) = draws_only st0 st"
  by (simp_all add: draws_only_def set_dev_def on_vbe_def on_gfx_def vbe_mem_def)

lemma poll_mouse_only: "draws_only st0 st \<Longrightarrow> act_all (draws_only st0) (poll_mouse env st)"
  by (simp add: poll_mouse_def split: option.split)

lemma wait_release_only: "draws_only st0 st \<Longrightarrow> act_all (draws_only st0) (wait_release env st)"
  by (simp add: wait_release_def split: option.split)

lemma flush_screen_inactive [simp]: "\<not> vb_active (gu_vbe st) \<Longrightarrow> flush_screen env st = Goes st"
  by (simp add: flush_screen_def gpu_flush_def)

lemma flush_screen_only: "draws_only st0 st \<Longrightarrow> act_all (draws_only st0) (flush_screen env st)"
  by (simp add: draws_only_def)

lemma sys_reboot_only: "draws_only st0 st \<Longrightarrow> act_all (draws_only st0) (sys_reboot env st)"
  by (simp add: sys_reboot_def)

lemma with_key_only:
  "draws_only st0 st \<Longrightarrow> (\<And>key st. draws_only st0 st \<Longrightarrow> act_all (draws_only st0) (f key st)) \<Longrightarrow> act_all (draws_only st0) (with_key env f st)"
  by (simp add: with_key_def split: prod.split)

lemma restore_background_none [simp]: "draws_only st0 st \<Longrightarrow> restore_background st = st"
  by (simp add: draws_only_def restore_background_def)

lemma save_background_only [simp]: "draws_only st0 st \<Longrightarrow> draws_only st0 (save_background st)"
  by (simp add: save_background_def Let_def)

lemma cursor_inside: "\<forall>d \<in> set (gui_draw_cursor w h x y). call_inside d"
  by (auto simp: gui_draw_cursor_def)

lemma draw_pointer_only: "draws_only st0 st \<Longrightarrow> act_all (draws_only st0) (draw_pointer env st)"
  unfolding draw_pointer_def by (intro flush_screen_only paint_calls_only cursor_inside)

lemmas gui_keeps = poll_mouse_only wait_release_only flush_screen_only sys_reboot_only with_key_only draw_pointer_only paint_calls_only

lemma window_inside:
  assumes "0 \<le> x" "x + w \<le> 320" "0 \<le> w" "0 \<le> y" "y < 200" "18 \<le> x + w" and l: "length title \<le> 64"
  shows "\<forall>d \<in> set (gui_draw_window x y w h title). call_inside d"
proof -
  define k where "k = (w - int (length title) * 8) sdiv 2"
  have "\<bar>k\<bar> \<le> \<bar>w - int (length title) * 8\<bar>"
    unfolding k_def by (simp add: signed_divide_int_def sgn_if) linarith
  moreover have "- 256 \<le> k"
  proof (cases "0 \<le> w - int (length title) * 8")
    case True
    then have "0 \<le> (w - int (length title) * 8) div 2" by simp
    moreover have "k = (w - int (length title) * 8) div 2" unfolding k_def using True by (simp add: signed_divide_int_def sgn_if)
    ultimately show ?thesis by linarith
  next
    case False
    have "k = - ((int (length title) * 8 - w) div 2)" using False unfolding k_def by (simp add: signed_divide_int_def sgn_if)
    moreover have "(int (length title) * 8 - w) div 2 \<le> 256" using l assms(3) by linarith
    ultimately show ?thesis by simp
  qed
  ultimately have "0 \<le> (y + 6) * 320 + (x + k) \<and> \<bar>x + k\<bar> < 2 ^ 20" using assms by auto
  then show ?thesis
    using assms by (auto simp: gui_draw_window_def k_def gui_draw_rect_def gui_draw_hline_def gui_draw_vline_def lit_def)
qed

text \<open>The start: the mode of 320 by 200 is chosen unless the boot loader left a frame buffer.\<close>

definition no_framebuffer :: "('d, 'm) gui_scheme \<Rightarrow> bool" where
  "no_framebuffer st \<longleftrightarrow> \<not> (vbe_fb (gu_vbe st) \<noteq> 0 \<and> vbe_width (gu_vbe st) \<ge> 640 \<and> vbe_height (gu_vbe st) \<ge> 480)"

lemma start_screen_ready:
  assumes "no_framebuffer st" and "gu_buffer st = 0"
  shows "draws_only (start_screen env st) (start_screen env st)"
  using assms by (intro draws_only_refl) (auto simp: start_screen_def no_framebuffer_def gpu_setup_framebuffer_def on_gfx_def vbe_log_def Let_def)

lemma start_mouse_only: "draws_only st0 st \<Longrightarrow> act_all (draws_only st0) (start_mouse env st)"
  by (simp add: start_mouse_def split: option.split)

lemma poll_mouse_Goes:
  "poll_mouse env st = Goes st1 \<Longrightarrow> \<exists>m d. mouse_poll (ge_mouse env) (gu_mouse st) (gui_dev st) = Some (m, d) \<and> st1 = set_dev d (st\<lparr>gu_mouse := m\<rparr>)"
  by (auto simp: poll_mouse_def split: option.splits)

end
