(* ===== verification/Gui_Pixels.thy ===== *)
theory Gui_Pixels
  imports Gui_Apps
begin

text \<open>
  What the calls of a graphical program show: the pixel of the 320 by 200 screen after a call.
  A program's picture is followed call by call: those that cover a pixel, and those that miss it.
\<close>

definition screen_pixel :: "('d, 'm) gui_scheme \<Rightarrow> int \<Rightarrow> int \<Rightarrow> u8" where
  "screen_pixel st x y = pixel (vb_gfx (gu_vbe st)) x y"

lemma rgb_to_vga_idx [simp]: "rgb_to_vga (idx c) = gui_rgb_to_vga c"
proof -
  have "uint (gui_rgb_to_vga c) < 256" using uint_lt2p [of "gui_rgb_to_vga c"] by simp
  moreover have u: "uint (idx c) = uint (gui_rgb_to_vga c)" by (simp add: uint_up_ucast is_up)
  ultimately have "idx c < 256" by (simp add: word_less_def)
  moreover have "(ucast (idx c) :: u8) = word_of_int (uint (idx c))" by simp
  then have "(ucast (idx c) :: u8) = gui_rgb_to_vga c" unfolding u by simp
  ultimately show ?thesis by (simp add: rgb_to_vga_def)
qed

lemma screen_pixel_Pixel:
  assumes "gu_fallback st" and "on_vga px py"
  shows "screen_pixel (safe_gpu (Pixel x y c) st) px py = (if px = x \<and> py = y then gui_rgb_to_vga c else screen_pixel st px py)"
proof (cases "on_vga x y")
  case True
  have p: "(off, v) \<in> set [(y * 320 + x, gui_rgb_to_vga c)] \<longleftrightarrow>
      v = gui_rgb_to_vga c \<and> (\<exists>x' y'. on_vga x' y' \<and> (x' = x \<and> y' = y) \<and> off = y' * 320 + x')" for off v
    using True by auto
  have "screen_pixel (safe_gpu (Pixel x y c) st) px py = pixel (draw_on [(y * 320 + x, gui_rgb_to_vga c)] (vb_gfx (gu_vbe st))) px py"
    using assms(1) True
    by (simp add: screen_pixel_def on_vbe_def on_gfx_def vga_draw_pixel_def on_vga_def VGA_WIDTH_def VGA_HEIGHT_def)
  then show ?thesis unfolding draw_on_pixel(1) [OF p assms(2)] screen_pixel_def .
next
  case False
  then have "vga_draw_pixel x y k g = g" for k and g :: "'a gfx" by (auto simp: vga_draw_pixel_def on_vga_def VGA_WIDTH_def VGA_HEIGHT_def)
  then show ?thesis using assms False by (auto simp: screen_pixel_def on_vbe_def on_gfx_def)
qed

lemma screen_pixel_Rect:
  assumes "gu_fallback st" and "on_vga px py" and "\<bar>x + w\<bar> < 2 ^ 31" and "\<bar>y + h\<bar> < 2 ^ 31"
  shows "screen_pixel (safe_gpu (Rect x y w h c) st) px py =
    (if x \<le> px \<and> px < x + w \<and> y \<le> py \<and> py < y + h then gui_rgb_to_vga c else screen_pixel st px py)"
proof -
  have b: "- (2 ^ 31) \<le> x + w" "x + w < 2 ^ 31" "- (2 ^ 31) \<le> y + h" "y + h < 2 ^ 31" using assms(3,4) by linarith+
  have "screen_pixel (safe_gpu (Rect x y w h c) st) px py = pixel (vga_fill_rect x y w h (idx c) (vb_gfx (gu_vbe st))) px py"
    using assms(1) by (simp add: screen_pixel_def on_vbe_def on_gfx_def)
  then show ?thesis unfolding vga_fill_rect_def draw_on_pixel(1) [OF fill_positions [OF b] assms(2)] by (simp only: rgb_to_vga_idx screen_pixel_def)
qed

text \<open>A call that does not reach the pixel; text is above it.\<close>

fun misses :: "draw \<Rightarrow> int \<Rightarrow> int \<Rightarrow> bool" where
  "misses (Pixel x y c) px py \<longleftrightarrow> \<not> (px = x \<and> py = y)"
| "misses (Clear c) px py \<longleftrightarrow> False"
| "misses (Rect x y w h c) px py \<longleftrightarrow> \<not> (x \<le> px \<and> px < x + w \<and> y \<le> py \<and> py < y + h) \<and> \<bar>x + w\<bar> < 2 ^ 31 \<and> \<bar>y + h\<bar> < 2 ^ 31"
| "misses (Glyph x y ch fg bg) px py \<longleftrightarrow> 0 \<le> y \<and> y + 8 \<le> py \<and> \<bar>x\<bar> < 2 ^ 20"
| "misses (Text x y s fg bg) px py \<longleftrightarrow> 0 \<le> y \<and> y + 8 \<le> py \<and> \<bar>x\<bar> < 2 ^ 20 \<and> length s < 2 ^ 17"

lemma draw_on_misses:
  "\<forall>(off, v) \<in> set ps. g_target g + of_int off \<noteq> g_target g + of_int (py * 320 + px) \<Longrightarrow> pixel (draw_on ps g) px py = pixel g px py"
  unfolding pixel_def draw_on_def by (simp add: draws_other del: of_int_add of_int_mult)

lemma char_misses:
  assumes "on_vga px py" and "0 \<le> y" and "y + 8 \<le> py" and "- (2 ^ 21) < x" and "x < 2 ^ 21"
  shows "pixel (vga_draw_char x y ch fg bg g) px py = pixel g px py" and "g_target (vga_draw_char x y ch fg bg g) = g_target g"
proof -
  have py: "0 \<le> px" "py < 200" using assms(1) by (simp_all add: on_vga_def)
  have o: "g_target g + of_int ((y + row) * 320 + (x + col)) \<noteq> g_target g + of_int (py * 320 + px)"
    if "0 \<le> row" "row \<le> 7" "0 \<le> col" "col \<le> 7" "i32 (x + col) < 320" for row col
  proof -
    have "i32 (x + col) = x + col" using assms(4,5) that by (simp add: i32_def)
    moreover have "x + col < 320" using calculation that(5) by simp
    moreover have "(y + row) * 320 \<le> (py - 1) * 320" using that(2) assms(3) by (intro mult_right_mono) linarith+
    ultimately have "(y + row) * 320 + (x + col) < py * 320 + px" using py(1) by (simp add: algebra_simps)
    moreover have "0 \<le> (y + row) * 320" "(y + row) * 320 \<le> 200 * 320" using that(1,2) assms(2,3) py(2) by simp_all
    then have "\<bar>(y + row) * 320 + (x + col)\<bar> \<le> 2 ^ 31" using that(3,4) assms(4,5) by simp
    ultimately show ?thesis unfolding pixel_offset [OF assms(1) \<open>\<bar>(y + row) * 320 + (x + col)\<bar> \<le> 2 ^ 31\<close>] by linarith
  qed
  then show "pixel (vga_draw_char x y ch fg bg g) px py = pixel g px py"
    unfolding vga_draw_char_def Let_def VGA_WIDTH_def
    by (intro draw_on_misses) (auto simp del: of_int_add of_int_mult dest: o)
  show "g_target (vga_draw_char x y ch fg bg g) = g_target g" by (simp add: vga_draw_char_def draw_on_def Let_def)
qed

lemma string_misses:
  "on_vga px py \<Longrightarrow> 0 \<le> y \<Longrightarrow> y + 8 \<le> py \<Longrightarrow> - (2 ^ 21) < x \<Longrightarrow> x + 8 * int (length s) < 2 ^ 21 \<Longrightarrow>
     pixel (vga_draw_string x y s fg bg g) px py = pixel g px py"
proof (induction s arbitrary: x g)
  case (Cons ch s)
  have i: "i32 (x + 8) = x + 8" using Cons.prems by (simp add: i32_def)
  have "pixel (vga_draw_char x y ch fg bg g) px py = pixel g px py" using Cons.prems by (intro char_misses) auto
  then show ?case using Cons.IH [of "x + 8"] Cons.prems i by simp
qed simp

lemma screen_pixel_misses:
  assumes "gu_fallback st" and "on_vga px py" and "misses d px py"
  shows "screen_pixel (safe_gpu d st) px py = screen_pixel st px py"
proof (cases d)
  case (Pixel x y c)
  then show ?thesis using screen_pixel_Pixel [OF assms(1,2), of x y c] assms(3) by (auto simp del: safe_gpu.simps)
next
  case (Rect x y w h c)
  then have "\<bar>x + w\<bar> < 2 ^ 31" "\<bar>y + h\<bar> < 2 ^ 31" "\<not> (x \<le> px \<and> px < x + w \<and> y \<le> py \<and> py < y + h)" using assms(3) by simp_all
  then show ?thesis using screen_pixel_Rect [OF assms(1,2), of x w y h c] Rect by (auto simp del: safe_gpu.simps)
next
  case (Glyph x y ch fg bg)
  then have "- (2 ^ 21) < x" "x < 2 ^ 21" "0 \<le> y" "y + 8 \<le> py" using assms(3) by auto
  then show ?thesis using Glyph assms(1) char_misses(1) [of px py y x] assms(2) by (simp add: screen_pixel_def on_vbe_def on_gfx_def)
next
  case (Text x y s fg bg)
  then have "- (2 ^ 21) < x" "x + 8 * int (length s) < 2 ^ 21" "0 \<le> y" "y + 8 \<le> py" using assms(3) by auto
  then show ?thesis using Text assms(1) string_misses [of px py y x s] assms(2) by (simp add: screen_pixel_def on_vbe_def on_gfx_def)
qed (use assms(3) in simp)

lemma paint_calls_misses:
  "gu_fallback st \<Longrightarrow> on_vga px py \<Longrightarrow> \<forall>d \<in> set ds. misses d px py \<Longrightarrow> screen_pixel (paint_calls ds st) px py = screen_pixel st px py"
  unfolding paint_calls_def
  by (induction ds arbitrary: st) (simp_all add: screen_pixel_misses safe_gpu_dev)

lemma paint_calls_append: "paint_calls (ds @ es) st = paint_calls es (paint_calls ds st)"
  by (simp add: paint_calls_def)

lemma paint_calls_Cons: "paint_calls (d # ds) st = paint_calls ds (safe_gpu d st)"
  by (simp add: paint_calls_def)

text \<open>Single pixels of one color.\<close>

lemma paint_calls_pixels:
  "gu_fallback st \<Longrightarrow> on_vga px py \<Longrightarrow> \<forall>d \<in> set ds. \<exists>x y. d = Pixel x y c \<Longrightarrow>
     screen_pixel (paint_calls ds st) px py = (if Pixel px py c \<in> set ds then gui_rgb_to_vga c else screen_pixel st px py)"
proof (induction ds arbitrary: st)
  case Nil
  then show ?case by (simp add: paint_calls_def)
next
  case (Cons d ds)
  obtain x y where d: "d = Pixel x y c" using Cons.prems(3) by auto
  have "screen_pixel (paint_calls (d # ds) st) px py =
    (if Pixel px py c \<in> set ds then gui_rgb_to_vga c else screen_pixel (safe_gpu d st) px py)"
    unfolding paint_calls_Cons using Cons.prems safe_gpu_dev [of st d] by (intro Cons.IH) auto
  then show ?case using screen_pixel_Pixel [OF Cons.prems(1,2), of x y c] d by (auto simp del: safe_gpu.simps)
qed

text \<open>A state at rest, and a machine with no input, to try the programs on.\<close>

definition screen_at_rest :: "unit gui" where
  "screen_at_rest = \<lparr>gu_vbe = \<lparr>vb_gfx = blank_gfx, vb_active = False, vb_back = 0, vb_size = 0\<rparr>,
     gu_mouse = mouse_start\<lparr>ms_initialized := True\<rparr>, gu_width = 320, gu_height = 200, gu_fallback = True, gu_buffer = 0,
     gu_saved = (- 1, - 1), gu_save_bg = replicate 256 0\<rparr>"

definition idle_env :: "unit gui_env" where
  "idle_env = \<lparr>ge_io = \<lparr>inb = (\<lambda>p d. (0, d)), outb = (\<lambda>p v d. d), insw = (\<lambda>p n d. ([], d)), outsw = (\<lambda>p ws d. d)\<rparr>,
     ge_kmalloc = (\<lambda>_. 0), ge_mouse = (\<lambda>d. (None, d)), ge_hit = (\<lambda>d. (False, d)), ge_getkey = (\<lambda>d. (0, d))\<rparr>"

lemma rest_only: "draws_only (gui.extend screen_at_rest m) (gui.extend screen_at_rest m)"
  by (intro draws_only_refl) (simp_all add: screen_at_rest_def gui.defs)

end
