(* ===== verification/Gui_Notepad.thy ===== *)
theory Gui_Notepad
  imports Gui_Pixels Cmd_State
begin

text \<open>
  NOTEPAD of \<^verbatim>\<open>src/src/gui_apps.c\<close>: 35 lines of 90 characters, a cursor, and the keys that move it
  and change the text.  Its lines are read and written through the abstract editor below, which
  every key refines.
\<close>

definition NOTEPAD_MAX_LINES :: nat where "NOTEPAD_MAX_LINES = 35"
definition NOTEPAD_MAX_COLS :: nat where "NOTEPAD_MAX_COLS = 90"

lemmas notepad_consts = NOTEPAD_MAX_LINES_def NOTEPAD_MAX_COLS_def

record 'd np_state = "'d gui" +
  np_buffer :: "u8 list list"
  np_row :: nat
  np_col :: nat
  np_total :: nat
  np_filename :: "u8 list"
  np_title :: "u8 list"
  np_pressed :: bool

text \<open>\<^verbatim>\<open>notepad_buffer[row]\<close> as a string.\<close>

definition np_line :: "'d np_state \<Rightarrow> nat \<Rightarrow> u8 list" where
  "np_line st row = cstr (np_buffer st ! row)"

definition notepad_clear :: "'d np_state \<Rightarrow> 'd np_state" where
  "notepad_clear st = st\<lparr>np_buffer := replicate NOTEPAD_MAX_LINES (replicate (NOTEPAD_MAX_COLS + 1) 0),
     np_row := 0, np_col := 0, np_total := 1\<rparr>"

section \<open>Drawing\<close>

text \<open>The toolbar with its one button.\<close>

definition notepad_toolbar :: "int \<Rightarrow> draw list" where
  "notepad_toolbar w = [Rect 0 16 w 24 COLOR_GRAY] @ gpu_draw_hline 0 (16 + 24) w COLOR_WHITE @
     [Rect 4 19 40 18 COLOR_LGRAY] @ gpu_draw_rect 4 19 40 18 COLOR_BLACK @ [Text (4 + 4) (19 + 4) (lit ''Save'') COLOR_BLACK COLOR_LGRAY]"

definition status_digits :: "nat \<Rightarrow> u8 list" where
  "status_digits n = [48 + of_nat (n div 10 mod 10), 48 + of_nat (n mod 10)]"

definition notepad_visible :: "int \<Rightarrow> int" where
  "notepad_visible text_area_h =
     (let visible_lines = (text_area_h - 4) sdiv 10
      in if visible_lines > int NOTEPAD_MAX_LINES then int NOTEPAD_MAX_LINES else visible_lines)"

definition notepad_text :: "'d np_state \<Rightarrow> int \<Rightarrow> int \<Rightarrow> int \<Rightarrow> int \<Rightarrow> draw list" where
  "notepad_text st text_area_x text_area_y text_area_w visible_lines =
     [Glyph (text_area_x + 2 + int col * 8) (text_area_y + 2 + int line * 10) (np_line st line ! col) COLOR_BLACK COLOR_WHITE.
        line \<leftarrow> [0..<min (nat visible_lines) (np_total st)], col \<leftarrow> [0..<min NOTEPAD_MAX_COLS (length (np_line st line))],
        text_area_x + 2 + int col * 8 + 8 < text_area_x + text_area_w]"

definition notepad_picture :: "'d np_state \<Rightarrow> draw list" where
  "notepad_picture st =
     (let w = gu_width st; h = gu_height st; toolbar_h = 24;
          text_area_x = 4; text_area_y = 16 + toolbar_h + 4; text_area_w = w - 8; text_area_h = h - text_area_y - 20;
          visible_lines = notepad_visible text_area_h;
          cursor_x = text_area_x + 2 + int (np_col st) * 8; cursor_y = text_area_y + 2 + int (np_row st) * 10; status_y = h - 16
      in [Clear COLOR_BLUE] @ gui_draw_window 0 0 w h (lit ''RO-DOS NOTEPAD'') @ notepad_toolbar w @
         [Rect text_area_x text_area_y text_area_w text_area_h COLOR_WHITE] @
         gpu_draw_rect (text_area_x - 1) (text_area_y - 1) (text_area_w + 2) (text_area_h + 2) COLOR_BLACK @
         notepad_text st text_area_x text_area_y text_area_w visible_lines @
         (if int (np_row st) < visible_lines then [Rect cursor_x cursor_y 7 10 COLOR_BLACK] else []) @
         [Rect 0 status_y w 16 COLOR_LGRAY,
          Text 4 (status_y + 4) (lit ''L:'' @ status_digits (np_row st + 1) @ lit '' C:'' @ status_digits (np_col st + 1) @ lit '' | ESC=Q'')
            COLOR_BLACK COLOR_LGRAY])"

definition notepad_draw :: "'d gui_env \<Rightarrow> 'd np_state \<Rightarrow> 'd np_state act" where
  "notepad_draw env st = flush_screen env (paint_calls (notepad_picture st) st)"

section \<open>Editing\<close>

definition notepad_insert_char :: "u8 \<Rightarrow> 'd np_state \<Rightarrow> 'd np_state" where
  "notepad_insert_char c st =
     (if np_col st < NOTEPAD_MAX_COLS
      then st\<lparr>np_buffer := (np_buffer st)[np_row st := (np_buffer st ! np_row st)[np_col st := c]], np_col := np_col st + 1\<rparr>
      else st)"

definition notepad_new_line :: "'d np_state \<Rightarrow> 'd np_state" where
  "notepad_new_line st =
     (if np_row st < NOTEPAD_MAX_LINES - 1
      then let st1 = st\<lparr>np_row := np_row st + 1, np_col := 0\<rparr>
           in if np_row st1 \<ge> np_total st1 then st1\<lparr>np_total := np_row st1 + 1\<rparr> else st1
      else st)"

definition notepad_backspace :: "'d np_state \<Rightarrow> 'd np_state" where
  "notepad_backspace st =
     (if np_col st > 0
      then
        let st1 = st\<lparr>np_col := np_col st - 1\<rparr>; row = np_buffer st1 ! np_row st1;
            row1 = fold (\<lambda>i r. r[i := r ! (i + 1)]) [np_col st1..<NOTEPAD_MAX_COLS - 1] row
        in st1\<lparr>np_buffer := (np_buffer st1)[np_row st1 := row1[NOTEPAD_MAX_COLS - 1 := 0]]\<rparr>
      else if np_row st > 0
      then let st1 = st\<lparr>np_row := np_row st - 1\<rparr> in st1\<lparr>np_col := length (np_line st1 (np_row st1))\<rparr>
      else st)"

text \<open>After a move to another line.\<close>

definition clamp_col :: "'d np_state \<Rightarrow> 'd np_state" where
  "clamp_col st = (if np_col st > length (np_line st (np_row st)) then st\<lparr>np_col := length (np_line st (np_row st))\<rparr> else st)"

definition saved_message :: "u8 list \<Rightarrow> u8 list \<Rightarrow> u8 list" where
  "saved_message prefix filename = prefix @ take (63 - length prefix) filename"

definition message_window :: "'d np_state \<Rightarrow> u8 list \<Rightarrow> 'd np_state" where
  "message_window st msg = paint_calls (gui_draw_window 10 10 (gu_width st - 20) (gu_height st - 20) msg) st"

definition notepad_edit :: "u16 \<Rightarrow> 'd np_state \<Rightarrow> 'd np_state" where
  "notepad_edit key st =
     (let ascii = key_ascii key; scan = key_scan key
      in if scan = 0x48 then clamp_col (if np_row st > 0 then st\<lparr>np_row := np_row st - 1\<rparr> else st)
         else if scan = 0x50 then clamp_col (if np_row st < np_total st - 1 then st\<lparr>np_row := np_row st + 1\<rparr> else st)
         else if scan = 0x4B then (if np_col st > 0 then st\<lparr>np_col := np_col st - 1\<rparr> else st)
         else if scan = 0x4D then (if np_col st < length (np_line st (np_row st)) then st\<lparr>np_col := np_col st + 1\<rparr> else st)
         else if ascii = 8 \<or> scan = 0x0E then notepad_backspace st
         else if ascii = 13 \<or> ascii = 10 then notepad_new_line st
         else if scan = 0x3C then message_window st (saved_message (lit ''SAVED: '') (np_filename st))
         else if ascii \<ge> 32 \<and> ascii < 127 then notepad_insert_char ascii st
         else st)"

definition notepad_key :: "'d gui_env \<Rightarrow> u16 \<Rightarrow> 'd np_state \<Rightarrow> 'd np_state act" where
  "notepad_key env key st =
     (if key_ascii key = 27 \<or> key_scan key = 0x01 then sys_reboot env st else Goes (notepad_edit key (st\<lparr>np_pressed := True\<rparr>)))"

section \<open>The program\<close>

definition notepad_click :: "'d gui_env \<Rightarrow> 'd np_state \<Rightarrow> 'd np_state act" where
  "notepad_click env st =
     (let x = mouse_get_x (gu_mouse st); y = mouse_get_y (gu_mouse st)
      in if mouse_get_left (gu_mouse st)
         then if x \<ge> gu_width st - 20 \<and> y < 20 then sys_reboot env st
              else if x \<ge> 4 \<and> x < 44 \<and> y \<ge> 19 \<and> y < 37
              then wait_release env ((message_window st (saved_message (lit ''FILE SAVED: '') (np_filename st)))\<lparr>np_pressed := True\<rparr>)
              else Goes st
         else Goes st)"

definition notepad_redraw :: "'d gui_env \<Rightarrow> 'd np_state \<Rightarrow> 'd np_state act" where
  "notepad_redraw env st =
     act_bind (notepad_draw env st) (\<lambda>st1.
       Goes ((paint_calls (gui_draw_window 0 0 (gu_width st1) (gu_height st1) (np_title st1) @ notepad_toolbar (gu_width st1)) st1)
         \<lparr>gu_saved := (- 1, snd (gu_saved st1))\<rparr>))"

text \<open>One round of the loop.\<close>

definition notepad_step :: "'d gui_env \<Rightarrow> 'd np_state \<Rightarrow> 'd np_state act" where
  "notepad_step env st =
     act_bind (poll_mouse env st) (\<lambda>st1.
     act_bind (with_key env (notepad_key env) ((restore_background st1)\<lparr>np_pressed := False\<rparr>)) (\<lambda>st2.
     act_bind (notepad_click env st2) (\<lambda>st3.
       if np_pressed st3 then notepad_redraw env st3 else draw_pointer env (save_background st3))))"

text \<open>The file name: the first word of the arguments.\<close>

definition notepad_name :: "u8 list \<Rightarrow> u8 list" where
  "notepad_name args =
     (if args \<noteq> [] then take 31 (takeWhile (\<lambda>c. c \<noteq> 32) (dropWhile (\<lambda>c. c = 32) args)) else lit ''Untitled'')"

definition notepad_caption :: "u8 list \<Rightarrow> u8 list" where
  "notepad_caption filename = saved_message (lit ''RO-DOS NOTEPAD - '') filename"

definition gui_notepad :: "'d gui_env \<Rightarrow> u8 list \<Rightarrow> 'd np_state \<Rightarrow> 'd np_state act" where
  "gui_notepad env args st =
     act_bind (start_mouse env (start_screen env st)) (\<lambda>st1.
       let st2 = notepad_clear (st1\<lparr>np_filename := notepad_name args, np_title := notepad_caption (notepad_name args)\<rparr>)
       in act_bind (notepad_draw env st2) (\<lambda>st3.
            Goes ((paint_calls ([Clear COLOR_BLUE] @ gui_draw_window 0 0 (gu_width st3) (gu_height st3) (np_title st3)) st3)
              \<lparr>gu_saved := (- 1, - 1)\<rparr>)))"

text \<open>The keys read in a round, and a run of rounds with the keys it reads.\<close>

definition keys_read :: "'d gui_env \<Rightarrow> 'd np_state \<Rightarrow> u16 list" where
  "keys_read env st =
     (case poll_mouse env st of
        Goes st1 \<Rightarrow> (case ge_hit env (gui_dev st1) of (hit, d) \<Rightarrow> if hit then [fst (ge_getkey env d)] else [])
      | _ \<Rightarrow> [])"

inductive notepad_run :: "'d gui_env \<Rightarrow> 'd np_state \<Rightarrow> u16 list \<Rightarrow> 'd np_state \<Rightarrow> bool" for env st where
  start: "notepad_run env st [] st"
| round: "notepad_run env st ks st1 \<Longrightarrow> notepad_step env st1 = Goes st2 \<Longrightarrow> notepad_run env st (ks @ keys_read env st1) st2"

section \<open>The editor\<close>

text \<open>An editor that types over: lines, and the cursor's row and column.\<close>

datatype edit_op = Put_Char u8 | New_Line | Delete_Back | Go_Up | Go_Down | Go_Left | Go_Right | Nothing

type_synonym editor = "u8 list list \<times> nat \<times> nat"

fun editor_apply :: "edit_op \<Rightarrow> editor \<Rightarrow> editor" where
  "editor_apply (Put_Char ch) (ls, r, c) =
     (if c < 90 then (ls[r := take c (ls ! r) @ [ch] @ drop (c + 1) (ls ! r)], r, c + 1) else (ls, r, c))"
| "editor_apply New_Line (ls, r, c) =
     (if r < 34 then (if r + 1 < length ls then ls else ls @ [[]], r + 1, 0) else (ls, r, c))"
| "editor_apply Delete_Back (ls, r, c) =
     (if c > 0 then (ls[r := take (c - 1) (ls ! r) @ drop c (ls ! r)], r, c - 1)
      else if r > 0 then (ls, r - 1, length (ls ! (r - 1))) else (ls, r, c))"
| "editor_apply Go_Up (ls, r, c) = (ls, r - 1, min c (length (ls ! (r - 1))))"
| "editor_apply Go_Down (ls, r, c) = (let r1 = min (r + 1) (length ls - 1) in (ls, r1, min c (length (ls ! r1))))"
| "editor_apply Go_Left (ls, r, c) = (ls, r, c - 1)"
| "editor_apply Go_Right (ls, r, c) = (ls, r, min (c + 1) (length (ls ! r)))"
| "editor_apply Nothing e = e"

definition op_of_key :: "u16 \<Rightarrow> edit_op" where
  "op_of_key key =
     (case map_of [(0x48, Go_Up), (0x50, Go_Down), (0x4B, Go_Left), (0x4D, Go_Right)] (key_scan key) of
        Some m \<Rightarrow> m
      | None \<Rightarrow>
          if key_ascii key = 8 \<or> key_scan key = 0x0E then Delete_Back
          else if key_ascii key \<in> {10, 13} then New_Line
          else if key_scan key \<noteq> 0x3C \<and> 32 \<le> key_ascii key \<and> key_ascii key < 127 then Put_Char (key_ascii key)
          else Nothing)"

abbreviation editor_key :: "u16 \<Rightarrow> editor \<Rightarrow> editor" where "editor_key key \<equiv> editor_apply (op_of_key key)"

definition row_of :: "u8 list \<Rightarrow> u8 list" where
  "row_of s = s @ replicate (91 - length s) 0"

fun np_repr :: "editor \<Rightarrow> 'd np_state \<Rightarrow> bool" where
  "np_repr (ls, r, c) st \<longleftrightarrow> np_buffer st = map row_of (ls @ replicate (35 - length ls) []) \<and> np_total st = length ls \<and> length ls \<le> 35 \<and>
     (\<forall>l \<in> set ls. length l \<le> 90 \<and> 0 \<notin> set l) \<and> np_row st = r \<and> r < length ls \<and> np_col st = c \<and> c \<le> length (ls ! r)"

lemma cstr_row_of: "length s \<le> 90 \<Longrightarrow> 0 \<notin> set s \<Longrightarrow> cstr (row_of s) = s"
  unfolding row_of_def cstr_def by (subst takeWhile_append2) (auto simp: takeWhile_replicate)

lemma row_put:
  assumes "c \<le> length s" and "c < 90"
  shows "(row_of s)[c := ch] = row_of (take c s @ [ch] @ drop (c + 1) s)"
proof (cases "c = length s")
  case True
  have "replicate (91 - length s) (0 :: u8) = 0 # replicate (90 - length s) 0"
    using assms True by (simp add: replicate_Suc [symmetric] del: replicate_Suc)
  then show ?thesis using True assms by (simp add: row_of_def list_update_append)
next
  case False
  then show ?thesis using assms by (simp add: row_of_def list_update_append upd_conv_take_nth_drop)
qed

lemma upd_shift: "length p = b \<Longrightarrow> (p @ x # y # zs)[b := (p @ x # y # zs) ! (b + 1)] = p @ y # y # zs"
  by (simp add: list_update_append nth_append)

lemma shift_row:
  "a \<le> b \<Longrightarrow> b < length r \<Longrightarrow> fold (\<lambda>i r. r[i := r ! (i + 1)]) [a..<b] r = take a r @ drop (Suc a) (take (Suc b) r) @ drop b r"
proof (induction b)
  case (Suc b)
  show ?case
  proof (cases "a = Suc b")
    case False
    define p where "p = take a r @ drop (Suc a) (take (Suc b) r)"
    have l: "length p = b" using Suc.prems False by (simp add: p_def)
    have d: "drop b r = r ! b # r ! Suc b # drop (Suc (Suc b)) r" using Suc.prems by (simp add: Cons_nth_drop_Suc)
    have "fold (\<lambda>i r. r[i := r ! (i + 1)]) [a..<b] r = p @ drop b r" using Suc False by (simp add: p_def)
    moreover have "[a..<Suc b] = [a..<b] @ [b]" using Suc.prems False by simp
    ultimately have "fold (\<lambda>i r. r[i := r ! (i + 1)]) [a..<Suc b] r = p @ r ! Suc b # r ! Suc b # drop (Suc (Suc b)) r"
      using upd_shift [OF l] d by simp
    also have "\<dots> = take a r @ drop (Suc a) (take (Suc (Suc b)) r) @ drop (Suc b) r"
      using Suc.prems False by (simp add: p_def take_Suc_conv_app_nth [of "Suc b"] Cons_nth_drop_Suc)
    finally show ?thesis .
  qed (use Suc.prems in \<open>simp add: Cons_nth_drop_Suc\<close>)
qed simp

lemma row_delete:
  assumes "0 < c" and "c \<le> length s" and "length s \<le> 90"
  shows "(fold (\<lambda>i r. r[i := r ! (i + 1)]) [c - 1..<89] (row_of s))[89 := 0] = row_of (take (c - 1) s @ drop c s)"
proof -
  let ?n = "length s"
  define z where "z = (\<lambda>k. replicate k (0 :: u8))"
  have row: "row_of s = s @ z (91 - ?n)" "length (row_of s) = 91" using assms(3) by (simp_all add: row_of_def z_def)
  have last: "drop 89 (row_of s) = [row_of s ! 89, 0]"
  proof -
    have "drop 89 (row_of s) = row_of s ! 89 # row_of s ! 90 # drop 91 (row_of s)"
      using Cons_nth_drop_Suc [of 89 "row_of s"] Cons_nth_drop_Suc [of 90 "row_of s"] row(2) by simp
    moreover have "row_of s ! 90 = 0" using assms(3) by (simp add: row_of_def nth_append)
    ultimately show ?thesis using row(2) by simp
  qed
  have pre: "take (c - 1) (row_of s) = take (c - 1) s" using assms by (simp add: row(1))
  have "take 90 (row_of s) = s @ z (90 - ?n)" using assms(3) by (simp add: row(1) z_def)
  then have mid: "drop c (take 90 (row_of s)) = drop c s @ z (90 - ?n)" using assms by simp
  define p where "p = take (c - 1) s @ drop c s @ z (90 - ?n)"
  have "fold (\<lambda>i r. r[i := r ! (i + 1)]) [c - 1..<89] (row_of s) = p @ [row_of s ! 89, 0]"
    using shift_row [of "c - 1" 89 "row_of s"] assms row(2) pre mid last by (simp add: p_def)
  moreover have "length p = 89" using assms by (simp add: p_def z_def)
  ultimately have "(fold (\<lambda>i r. r[i := r ! (i + 1)]) [c - 1..<89] (row_of s))[89 := 0] = p @ [0, 0]"
    by (simp add: list_update_append)
  then have "(fold (\<lambda>i r. r[i := r ! (i + 1)]) [c - 1..<89] (row_of s))[89 := 0] = take (c - 1) s @ drop c s @ z (90 - ?n) @ [0, 0]"
    by (simp add: p_def)
  moreover have "z (90 - ?n) @ [0, 0] = z (92 - ?n)"
  proof -
    have "92 - ?n = (90 - ?n) + 2" using assms(3) by simp
    then show ?thesis unfolding z_def by (simp only: replicate_add) (simp add: numeral_2_eq_2)
  qed
  moreover have "91 - length (take (c - 1) s @ drop c s) = 92 - ?n" using assms by simp
  ultimately show ?thesis by (simp only: row_of_def append_assoc) (simp add: z_def)
qed

text \<open>The memory of NOTEPAD and the editor it stands for.\<close>

lemma np_repr_upd [simp]:
  "np_repr e (st\<lparr>gu_vbe := v\<rparr>) = np_repr e st" "np_repr e (st\<lparr>gu_mouse := m\<rparr>) = np_repr e st"
  "np_repr e (st\<lparr>gu_saved := p\<rparr>) = np_repr e st" "np_repr e (st\<lparr>gu_save_bg := bg\<rparr>) = np_repr e st"
  "np_repr e (st\<lparr>np_pressed := b\<rparr>) = np_repr e st" "np_repr e (set_dev d st) = np_repr e st"
  by (cases e, simp add: set_dev_vbe)+

lemma np_repr_paint [simp]: "np_repr e (paint_calls ds st) = np_repr e st"
  using paint_calls_vbe [of ds st] by auto

lemma np_repr_line:
  assumes "np_repr (ls, r, c) st" and "k < length ls"
  shows "np_buffer st ! k = row_of (ls ! k)" and "np_line st k = ls ! k"
proof -
  show "np_buffer st ! k = row_of (ls ! k)" using assms by (simp add: nth_append)
  moreover have "length (ls ! k) \<le> 90" "0 \<notin> set (ls ! k)" using assms by auto
  ultimately show "np_line st k = ls ! k" unfolding np_line_def by (simp add: cstr_row_of)
qed

lemma np_repr_row:
  assumes "np_repr (ls, r, c) st" and "length s \<le> 90" and "0 \<notin> set s" and "k \<le> length s"
  shows "np_repr (ls[r := s], r, k) (st\<lparr>np_buffer := (np_buffer st)[r := row_of s], np_col := k\<rparr>)"
proof -
  have "(map row_of (ls @ replicate (35 - length ls) []))[r := row_of s] = map row_of (ls[r := s] @ replicate (35 - length ls) [])"
    using assms(1) by (simp add: list_update_append map_update)
  then show ?thesis using assms by (auto dest!: set_update_subset_insert [THEN subsetD])
qed

lemma np_repr_move:
  assumes "np_repr (ls, r, c) st" and "k < length ls"
  shows "np_repr (ls, k, min c (length (ls ! k))) (clamp_col (st\<lparr>np_row := k\<rparr>))"
proof -
  have "np_line (st\<lparr>np_row := k\<rparr>) k = ls ! k" using np_repr_line(2) [OF assms] by (simp add: np_line_def)
  then show ?thesis using assms by (simp add: clamp_col_def min_def)
qed

lemma insert_refines:
  assumes "np_repr (ls, r, c) st" and "ch \<noteq> 0"
  shows "np_repr (editor_apply (Put_Char ch) (ls, r, c)) (notepad_insert_char ch st)"
proof (cases "c < 90")
  case True
  have l: "length (ls ! r) \<le> 90" "0 \<notin> set (ls ! r)" "c \<le> length (ls ! r)" "r < length ls" using assms by auto
  let ?s = "take c (ls ! r) @ [ch] @ drop (c + 1) (ls ! r)"
  have "0 \<notin> set ?s" using l(2) assms(2) by (auto dest: in_set_takeD in_set_dropD)
  moreover have "length ?s \<le> 90" using l True by simp
  ultimately have "np_repr (ls[r := ?s], r, c + 1) (st\<lparr>np_buffer := (np_buffer st)[r := row_of ?s], np_col := c + 1\<rparr>)"
    using l by (intro np_repr_row [OF assms(1)]) auto
  moreover have "(np_buffer st ! r)[c := ch] = row_of ?s"
    using row_put [OF l(3) True] np_repr_line(1) [OF assms(1) l(4)] by simp
  ultimately show ?thesis using assms(1) True by (simp add: notepad_insert_char_def NOTEPAD_MAX_COLS_def)
qed (use assms in \<open>simp add: notepad_insert_char_def NOTEPAD_MAX_COLS_def\<close>)

lemma new_line_refines:
  assumes "np_repr (ls, r, c) st"
  shows "np_repr (editor_apply New_Line (ls, r, c)) (notepad_new_line st)"
proof (cases "r < 34 \<and> \<not> r + 1 < length ls")
  case True
  then have n: "length ls = r + 1" using assms by auto
  have "replicate (35 - length ls) ([] :: u8 list) = [] # replicate (35 - length (ls @ [[]])) []"
    using True n by (simp add: replicate_Suc [symmetric] del: replicate_Suc)
  then show ?thesis using assms True n by (simp add: notepad_new_line_def NOTEPAD_MAX_LINES_def Let_def nth_append)
qed (use assms in \<open>auto simp: notepad_new_line_def NOTEPAD_MAX_LINES_def Let_def\<close>)

lemma backspace_refines:
  assumes "np_repr (ls, r, c) st"
  shows "np_repr (editor_apply Delete_Back (ls, r, c)) (notepad_backspace st)"
proof (cases "c > 0")
  case True
  have l: "length (ls ! r) \<le> 90" "0 \<notin> set (ls ! r)" "c \<le> length (ls ! r)" "r < length ls" using assms by auto
  let ?s = "take (c - 1) (ls ! r) @ drop c (ls ! r)"
  have "0 \<notin> set ?s" using l(2) by (auto dest: in_set_takeD in_set_dropD)
  then have "np_repr (ls[r := ?s], r, c - 1) (st\<lparr>np_buffer := (np_buffer st)[r := row_of ?s], np_col := c - 1\<rparr>)"
    using l by (intro np_repr_row [OF assms]) auto
  moreover have "notepad_backspace st = st\<lparr>np_buffer := (np_buffer st)[r := row_of ?s], np_col := c - 1\<rparr>"
    using assms True row_delete [OF True l(3,1)] np_repr_line(1) [OF assms l(4)]
    unfolding notepad_backspace_def Let_def NOTEPAD_MAX_COLS_def by simp
  ultimately show ?thesis using True by (simp only: editor_apply.simps if_True)
next
  case False
  show ?thesis
  proof (cases "r > 0")
    case True
    have "r < length ls" using assms by simp
    then have "r - 1 < length ls" by linarith
    from np_repr_line(2) [OF assms this] have "np_line (st\<lparr>np_row := r - 1\<rparr>) (r - 1) = ls ! (r - 1)" by (simp add: np_line_def)
    then show ?thesis using assms True False \<open>r - 1 < length ls\<close> by (simp add: notepad_backspace_def Let_def)
  qed (use assms False in \<open>simp add: notepad_backspace_def Let_def\<close>)
qed

lemma edit_refines:
  assumes "np_repr e st"
  shows "np_repr (editor_key key e) (notepad_edit key st)"
proof -
  obtain ls r c where e: "e = (ls, r, c)" by (cases e) auto
  note rep = assms [unfolded e]
  then have r: "np_row st = r" "np_col st = c" "np_total st = length ls" "r < length ls" "c \<le> length (ls ! r)" by simp_all
  have "st\<lparr>np_row := r\<rparr> = st" using r(1) by auto
  then have stay: "clamp_col (st\<lparr>np_row := r\<rparr>) = clamp_col st" by (rule arg_cong)
  consider (up) "key_scan key = 0x48" | (down) "key_scan key = 0x50" | (left) "key_scan key = 0x4B" | (right) "key_scan key = 0x4D"
    | (other) "key_scan key \<notin> {0x48, 0x50, 0x4B, 0x4D}" by blast
  then show ?thesis
  proof cases
    case up
    then have "notepad_edit key st = clamp_col (st\<lparr>np_row := r - 1\<rparr>)"
      using r(1) stay by (cases "r = 0") (simp_all add: notepad_edit_def Let_def)
    moreover have "op_of_key key = Go_Up" using up by (simp add: op_of_key_def)
    ultimately show ?thesis using np_repr_move [OF rep, of "r - 1"] r(4) unfolding e by simp
  next
    case down
    have "min (r + 1) (length ls - 1) = (if r < length ls - 1 then r + 1 else r)" using r(4) by auto
    then have "notepad_edit key st = clamp_col (st\<lparr>np_row := min (r + 1) (length ls - 1)\<rparr>)"
      using down r(1,3) stay by (simp add: notepad_edit_def Let_def)
    moreover have "op_of_key key = Go_Down" using down by (simp add: op_of_key_def)
    ultimately show ?thesis using np_repr_move [OF rep, of "min (r + 1) (length ls - 1)"] r(4) unfolding e by (simp add: Let_def)
  next
    case left
    then show ?thesis using rep unfolding e by (auto simp: notepad_edit_def Let_def op_of_key_def)
  next
    case right
    then show ?thesis using rep np_repr_line(2) [OF rep r(4)] unfolding e by (auto simp: notepad_edit_def Let_def op_of_key_def)
  next
    case other
    then have o: "op_of_key key = (if key_ascii key = 8 \<or> key_scan key = 0x0E then Delete_Back
        else if key_ascii key \<in> {10, 13} then New_Line
        else if key_scan key \<noteq> 0x3C \<and> 32 \<le> key_ascii key \<and> key_ascii key < 127 then Put_Char (key_ascii key) else Nothing)"
      by (simp add: op_of_key_def)
    have n: "key_ascii key \<noteq> 0" if "32 \<le> key_ascii key" using that by auto
    show ?thesis unfolding o e using other n insert_refines [OF rep] new_line_refines [OF rep] backspace_refines [OF rep] rep
      by (auto simp: notepad_edit_def Let_def message_window_def simp del: np_repr.simps editor_apply.simps(1,2,3))
  qed
qed

text \<open>What NOTEPAD draws lies inside the screen.\<close>

lemma notepad_toolbar_inside: "\<forall>d \<in> set (notepad_toolbar w). call_inside d"
  by (auto simp: notepad_toolbar_def gpu_draw_hline_def gpu_draw_rect_def lit_def)

lemma message_window_only: "draws_only st0 st \<Longrightarrow> length msg \<le> 64 \<Longrightarrow> draws_only st0 (message_window st msg)"
  unfolding message_window_def
  by (intro paint_calls_only window_inside) (auto simp: draws_only_def)

lemma saved_message_length: "length prefix \<le> 63 \<Longrightarrow> length (saved_message prefix f) \<le> 64"
  by (simp add: saved_message_def)

lemma draws_only_np [simp]:
  "draws_only st0 (st\<lparr>np_buffer := b\<rparr>) = draws_only st0 st" "draws_only st0 (st\<lparr>np_row := r\<rparr>) = draws_only st0 st"
  "draws_only st0 (st\<lparr>np_col := c\<rparr>) = draws_only st0 st" "draws_only st0 (st\<lparr>np_total := n\<rparr>) = draws_only st0 st"
  "draws_only st0 (st\<lparr>np_pressed := p\<rparr>) = draws_only st0 st" "draws_only st0 (st\<lparr>np_filename := f\<rparr>) = draws_only st0 st"
  "draws_only st0 (st\<lparr>np_title := f\<rparr>) = draws_only st0 st"
  by (simp_all add: draws_only_def)

lemma edit_only: "draws_only st0 st \<Longrightarrow> draws_only st0 (notepad_edit key st)"
  by (auto simp: notepad_edit_def Let_def clamp_col_def notepad_backspace_def notepad_new_line_def notepad_insert_char_def
      intro!: message_window_only saved_message_length simp: lit_def)

lemma picture_inside:
  assumes "np_repr (ls, r, c) st" and "draws_only st0 st"
  shows "\<forall>d \<in> set (notepad_picture st). call_inside d"
proof -
  have wh: "gu_width st = 320" "gu_height st = 200" using assms(2) by (simp_all add: draws_only_def)
  have "call_inside (Glyph x y ch fg bg)" if "4 \<le> x" "x \<le> 4 + 2 + 90 * 8" "44 \<le> y" "y \<le> 44 + 2 + 35 * 10" for x y ch fg bg
    using that by auto
  then have "\<forall>d \<in> set (notepad_text st 4 44 w vis). call_inside d" for w vis
    using assms(1) by (auto simp: notepad_text_def NOTEPAD_MAX_COLS_def)
  moreover have "\<forall>d \<in> set (gui_draw_window 0 0 320 200 (lit ''RO-DOS NOTEPAD'')). call_inside d"
    by (intro window_inside) (simp_all add: lit_def)
  ultimately show ?thesis
    using notepad_toolbar_inside by (auto simp: notepad_picture_def Let_def wh gpu_draw_rect_def lit_def status_digits_def)
qed

section \<open>Rounds\<close>

definition np_inv :: "'d np_state \<Rightarrow> editor \<Rightarrow> 'd np_state \<Rightarrow> bool" where
  "np_inv st0 e st \<longleftrightarrow> np_repr e st \<and> draws_only st0 st \<and> length (np_title st) \<le> 64"

lemma np_title_upd [simp]: "np_title (paint_calls ds st) = np_title st" "np_title (set_dev d st) = np_title st"
  "np_title (save_background st) = np_title st" "np_title (restore_background st) = np_title st"
  using paint_calls_vbe [of ds st]
  by (auto simp: set_dev_vbe save_background_def restore_background_def Let_def on_vbe_def)

lemma np_inv_upd [simp]:
  "np_inv st0 e (set_dev d st) = np_inv st0 e st" "np_inv st0 e (st\<lparr>gu_mouse := m\<rparr>) = np_inv st0 e st"
  "np_inv st0 e (st\<lparr>gu_saved := p\<rparr>) = np_inv st0 e st" "np_inv st0 e (st\<lparr>np_pressed := b\<rparr>) = np_inv st0 e st"
  by (simp_all add: np_inv_def del: np_repr.simps)

lemma np_inv_paint: "np_inv st0 e st \<Longrightarrow> \<forall>d \<in> set ds. call_inside d \<Longrightarrow> np_inv st0 e (paint_calls ds st)"
  by (simp add: np_inv_def paint_calls_only del: np_repr.simps)

lemma np_inv_active: "np_inv st0 e st \<Longrightarrow> \<not> vb_active (gu_vbe st)"
  by (simp add: np_inv_def draws_only_def)

lemma edit_title: "np_title (notepad_edit key st) = np_title st"
  by (auto simp: notepad_edit_def Let_def clamp_col_def notepad_backspace_def notepad_new_line_def notepad_insert_char_def message_window_def)

lemma np_inv_edit: "np_inv st0 e st \<Longrightarrow> np_inv st0 (editor_key key e) (notepad_edit key st)"
  by (simp add: np_inv_def edit_refines edit_only edit_title del: np_repr.simps)

lemma np_inv_message: "np_inv st0 e st \<Longrightarrow> length msg \<le> 64 \<Longrightarrow> np_inv st0 e (message_window st msg)"
  unfolding message_window_def by (intro np_inv_paint window_inside) (auto simp: np_inv_def draws_only_def)

lemma click_inv: "np_inv st0 e st \<Longrightarrow> act_goes (np_inv st0 e) (notepad_click env st)"
  unfolding notepad_click_def Let_def sys_reboot_def wait_release_def
  by (auto split: option.split intro!: np_inv_message saved_message_length simp: lit_def)

lemma redraw_inv:
  assumes "np_inv st0 e st"
  shows "\<exists>st1. notepad_redraw env st = Goes st1 \<and> np_inv st0 e st1"
proof -
  obtain ls r c where e: "e = (ls, r, c)" by (cases e) auto
  have p: "\<forall>d \<in> set (notepad_picture st). call_inside d" using picture_inside assms unfolding e np_inv_def by blast
  define st1 where "st1 = paint_calls (notepad_picture st) st"
  have s: "np_inv st0 e st1" unfolding st1_def by (rule np_inv_paint [OF assms p])
  have "\<forall>d \<in> set (gui_draw_window 0 0 (gu_width st1) (gu_height st1) (np_title st1) @ notepad_toolbar (gu_width st1)). call_inside d"
  proof -
    have "\<forall>d \<in> set (gui_draw_window 0 0 (gu_width st1) (gu_height st1) (np_title st1)). call_inside d"
      using s by (intro window_inside) (auto simp: np_inv_def draws_only_def)
    then show ?thesis using notepad_toolbar_inside by auto
  qed
  from np_inv_paint [OF s this] show ?thesis
    unfolding notepad_redraw_def notepad_draw_def st1_def [symmetric] using np_inv_active [OF s] by simp
qed

lemma pointer_inv:
  assumes "np_inv st0 e st"
  shows "\<exists>st1. draw_pointer env (save_background st) = Goes st1 \<and> np_inv st0 e st1"
proof -
  have "save_background st = st\<lparr>gu_saved := (mouse_get_x (gu_mouse st), mouse_get_y (gu_mouse st))\<rparr>"
    using assms by (simp add: np_inv_def draws_only_def save_background_def Let_def)
  then have s: "np_inv st0 e (save_background st)" using assms by simp
  from np_inv_paint [OF this cursor_inside] show ?thesis
    unfolding draw_pointer_def using flush_screen_inactive [OF np_inv_active] by blast
qed

lemma step_inv:
  assumes "np_inv st0 e st"
  shows "act_goes (np_inv st0 (fold editor_key (keys_read env st) e)) (notepad_step env st)"
proof (cases "poll_mouse env st")
  case (Goes st1)
  then have s1: "np_inv st0 e st1" using assms poll_mouse_Goes by fastforce
  then have r: "restore_background st1 = st1" by (auto simp: np_inv_def)
  obtain hit d1 where hit: "ge_hit env (gui_dev st1) = (hit, d1)" by (cases "ge_hit env (gui_dev st1)")
  have keys: "act_goes (np_inv st0 (fold editor_key (keys_read env st) e)) (with_key env (notepad_key env) (st1\<lparr>np_pressed := False\<rparr>))"
  proof (cases hit)
    case True
    obtain key d2 where k: "ge_getkey env d1 = (key, d2)" by (cases "ge_getkey env d1")
    have "np_inv st0 (editor_key key e) (notepad_edit key ((set_dev d2 (st1\<lparr>np_pressed := False\<rparr>))\<lparr>np_pressed := True\<rparr>))"
      using s1 by (intro np_inv_edit) simp
    then show ?thesis using Goes hit True k by (simp add: keys_read_def with_key_def notepad_key_def sys_reboot_def gui_dev_def)
  next
    case False
    then show ?thesis using Goes hit s1 by (simp add: keys_read_def with_key_def gui_dev_def)
  qed
  have last: "act_goes (np_inv st0 (fold editor_key (keys_read env st) e))
    (if np_pressed s then notepad_redraw env s else draw_pointer env (save_background s))"
    if "np_inv st0 (fold editor_key (keys_read env st) e) s" for s
    using redraw_inv [OF that, of env] pointer_inv [OF that, of env] by auto
  show ?thesis
    unfolding notepad_step_def Goes act_bind.simps r
    by (rule act_goes_bind [OF keys], rule act_goes_bind [OF click_inv], assumption, rule last)
qed (simp_all add: notepad_step_def)

lemma run_inv:
  "notepad_run env st ks st1 \<Longrightarrow> np_inv st0 e st \<Longrightarrow> np_inv st0 (fold editor_key ks e) st1"
proof (induction rule: notepad_run.induct)
  case (round ks st1 st2)
  then show ?case using step_inv [of st0 "fold editor_key ks e" st1 env] by simp
qed simp

section \<open>Properties\<close>

lemma cleared_repr: "np_repr ([[]], 0, 0) (notepad_clear st)"
proof -
  have "replicate 35 ([] :: u8 list) = [] # replicate 34 []" by (simp add: replicate_Suc [symmetric] del: replicate_Suc)
  then have "map row_of ([[]] @ replicate (35 - length [[] :: u8 list]) []) = replicate 35 (row_of [])"
    by (simp flip: map_replicate)
  then show ?thesis by (simp add: notepad_clear_def notepad_consts row_of_def)
qed

lemma start_inv:
  assumes "gui_notepad env args st0 = Goes st" and "no_framebuffer st0" and "gu_buffer st0 = 0"
  shows "np_inv st ([[]], 0, 0) st"
proof -
  define s where "s = start_screen env st0"
  have "act_goes (np_inv s ([[]], 0, 0)) (gui_notepad env args st0)"
    unfolding gui_notepad_def s_def [symmetric]
  proof (rule act_goes_bind)
    show "act_goes (draws_only s) (start_mouse env s)"
      using start_screen_ready [OF assms(2,3)] unfolding s_def by (intro act_all_goes start_mouse_only)
  next
    fix st1
    assume s1: "draws_only s st1"
    define st2 where "st2 = notepad_clear (st1\<lparr>np_filename := notepad_name args, np_title := notepad_caption (notepad_name args)\<rparr>)"
    have "length (notepad_caption (notepad_name args)) \<le> 64" unfolding notepad_caption_def by (intro saved_message_length) (simp add: lit_def)
    then have s2: "np_inv s ([[]], 0, 0) st2"
      using s1 cleared_repr unfolding np_inv_def st2_def by (simp add: notepad_clear_def)
    have s3: "np_inv s ([[]], 0, 0) (paint_calls (notepad_picture st2) st2)"
      using s2 by (intro np_inv_paint picture_inside) (auto simp: np_inv_def simp del: np_repr.simps)
    let ?st3 = "paint_calls (notepad_picture st2) st2"
    have "\<forall>d \<in> set (gui_draw_window 0 0 (gu_width ?st3) (gu_height ?st3) (np_title ?st3)). call_inside d"
      using s3 by (intro window_inside) (auto simp: np_inv_def draws_only_def)
    then have "np_inv s ([[]], 0, 0) (paint_calls ([Clear COLOR_BLUE] @ gui_draw_window 0 0 (gu_width ?st3) (gu_height ?st3) (np_title ?st3)) ?st3)"
      by (intro np_inv_paint [OF s3]) auto
    then show "act_goes (np_inv s ([[]], 0, 0)) (let st2 = notepad_clear (st1\<lparr>np_filename := notepad_name args, np_title := notepad_caption (notepad_name args)\<rparr>)
       in act_bind (notepad_draw env st2) (\<lambda>st3.
            Goes ((paint_calls ([Clear COLOR_BLUE] @ gui_draw_window 0 0 (gu_width st3) (gu_height st3) (np_title st3)) st3)
              \<lparr>gu_saved := (- 1, - 1)\<rparr>)))"
      using np_inv_active [OF s3] unfolding st2_def [symmetric] notepad_draw_def Let_def by simp
  qed
  then have "np_inv s ([[]], 0, 0) st" using assms(1) by simp
  then show ?thesis using draws_only_refl [of st] by (simp add: np_inv_def draws_only_def del: np_repr.simps)
qed

text \<open>
  C16.  NOTEPAD is an editor: after any run of rounds, whatever the mouse does, its buffer, its
  cursor and its line count are those of the abstract editor after the keys that were read, from one empty
  line, and the program has written nothing but the 64000 bytes of the screen.
\<close>
theorem notepad_refines_editor:
  assumes "gui_notepad env args st0 = Goes st" and "no_framebuffer st0" and "gu_buffer st0 = 0" and "notepad_run env st ks st1"
  shows "np_repr (fold editor_key ks ([[]], 0, 0)) st1 \<and> draws_only st st1"
  using run_inv [OF assms(4) start_inv [OF assms(1-3)]] by (simp add: np_inv_def del: np_repr.simps)

text \<open>A machine with a silent mouse whose state is the list of the keys still to come.\<close>

definition typing_env :: "u16 list gui_env" where
  "typing_env = \<lparr>ge_io = \<lparr>inb = (\<lambda>p d. (0, d)), outb = (\<lambda>p v d. d), insw = (\<lambda>p n d. ([], d)), outsw = (\<lambda>p ws d. d)\<rparr>,
     ge_kmalloc = (\<lambda>_. 0), ge_mouse = (\<lambda>d. (None, d)), ge_hit = (\<lambda>d. (d \<noteq> [], d)), ge_getkey = (\<lambda>d. (hd d, tl d))\<rparr>"

definition typing_start :: "u16 list \<Rightarrow> u16 list np_state" where
  "typing_start ks = \<lparr>gu_vbe = \<lparr>vb_gfx = \<lparr>g_mem = (\<lambda>_. 0), g_target = VGA_HW_MEM, g_ready = True, g_mode13 = True, g_row = 0, g_col = 0,
       g_gpu_base = 0, g_gpu_found = False, g_log = [], g_dev = ks\<rparr>, vb_active = False, vb_back = 0, vb_size = 0\<rparr>,
     gu_mouse = mouse_start\<lparr>ms_initialized := True\<rparr>, gu_width = 320, gu_height = 200, gu_fallback = False, gu_buffer = 0,
     gu_saved = (- 1, - 1), gu_save_bg = replicate 256 0,
     np_buffer = [], np_row = 0, np_col = 0, np_total = 1, np_filename = [], np_title = [], np_pressed = False\<rparr>"

lemma typing_sel [simp]: "ge_hit typing_env d = (d \<noteq> [], d)" "ge_getkey typing_env d = (hd d, tl d)"
  "mouse_poll (ge_mouse typing_env) m d = Some (m, d)" "outb (ge_io typing_env) p v d = d" "inb (ge_io typing_env) p d = (0, d)"
  by (simp_all add: typing_env_def mouse_poll_def mouse_poll_loop.simps)

lemma typing_out [simp]: "out_seq (ge_io typing_env) ps d = d"
  unfolding out_seq_def by (induction ps arbitrary: d) auto

lemma typing_attr [simp]: "attr_write (ge_io typing_env) ps d = d"
  unfolding attr_write_def by (induction ps arbitrary: d) auto

lemma typing_palette [simp]: "setup_palette (ge_io typing_env) d = d"
proof -
  have "fold (set_palette (ge_io typing_env)) es d = d" for es by (induction es arbitrary: d) (auto simp: set_palette_def)
  then show ?thesis by (simp add: setup_palette_def)
qed

lemma typing_begins:
  "\<exists>st. gui_notepad typing_env args (typing_start ks) = Goes st \<and> gui_dev st = ks \<and> \<not> ms_left (gu_mouse st)"
proof -
  define s where "s = start_screen typing_env (typing_start ks)"
  have s: "gui_dev s = ks" "gu_fallback s" "gu_mouse s = mouse_start\<lparr>ms_initialized := True\<rparr>" "\<not> vb_active (gu_vbe s)"
    by (simp_all add: s_def start_screen_def typing_start_def gpu_setup_framebuffer_def vbe_fb_def vbe_mem_def get32_def on_gfx_def vbe_log_def
        set_mode_13h_def unlock_crtc_def display_on_def gui_dev_def Let_def)
  define s1 where "s1 = s\<lparr>gu_mouse := mouse_set_bounds (gu_width s) (gu_height s) (gu_mouse s)\<rparr>"
  have m: "start_mouse typing_env s = Goes s1"
    using s by (simp add: start_mouse_def mouse_init_def s1_def set_dev_vbe gui_dev_def)
  have s1: "gui_dev s1 = ks" "gu_fallback s1" "\<not> ms_left (gu_mouse s1)" "\<not> vb_active (gu_vbe s1)"
    using s by (simp_all add: s1_def gui_dev_def mouse_set_bounds_def mouse_start_def)
  have clr: "gui_dev (notepad_clear (s1\<lparr>np_filename := f, np_title := q\<rparr>)) = ks" "gu_fallback (notepad_clear (s1\<lparr>np_filename := f, np_title := q\<rparr>))"
    "\<not> ms_left (gu_mouse (notepad_clear (s1\<lparr>np_filename := f, np_title := q\<rparr>)))" for f q
    using s1 by (simp_all add: notepad_clear_def gui_dev_def)
  have act: "\<not> vb_active (gu_vbe (notepad_clear (s1\<lparr>np_filename := f, np_title := q\<rparr>)))" for f q
    using s1 by (simp add: notepad_clear_def)
  have dv: "gui_dev (st\<lparr>gu_saved := p\<rparr>) = gui_dev st" for st :: "u16 list np_state" and p by (simp add: gui_dev_def)
  show ?thesis
    unfolding gui_notepad_def s_def [symmetric] m act_bind.simps Let_def notepad_draw_def using act clr by (simp add: dv)
qed

lemma edit_parts:
  "gui_dev (clamp_col x) = gui_dev x \<and> gu_mouse (clamp_col x) = gu_mouse x \<and> gu_fallback (clamp_col x) = gu_fallback x \<and> np_pressed (clamp_col x) = np_pressed x"
  "gui_dev (notepad_backspace x) = gui_dev x \<and> gu_mouse (notepad_backspace x) = gu_mouse x \<and>
     gu_fallback (notepad_backspace x) = gu_fallback x \<and> np_pressed (notepad_backspace x) = np_pressed x"
  "gui_dev (notepad_new_line x) = gui_dev x \<and> gu_mouse (notepad_new_line x) = gu_mouse x \<and>
     gu_fallback (notepad_new_line x) = gu_fallback x \<and> np_pressed (notepad_new_line x) = np_pressed x"
  "gui_dev (notepad_insert_char c x) = gui_dev x \<and> gu_mouse (notepad_insert_char c x) = gu_mouse x \<and>
     gu_fallback (notepad_insert_char c x) = gu_fallback x \<and> np_pressed (notepad_insert_char c x) = np_pressed x"
  "gui_dev (x\<lparr>np_row := r\<rparr>) = gui_dev x" "gui_dev (x\<lparr>np_col := r\<rparr>) = gui_dev x"
  by (simp_all add: clamp_col_def notepad_backspace_def notepad_new_line_def notepad_insert_char_def gui_dev_def Let_def)

lemma edit_sel:
  assumes "gu_fallback x"
  shows "gui_dev (notepad_edit k x) = gui_dev x" "gu_mouse (notepad_edit k x) = gu_mouse x"
    "gu_fallback (notepad_edit k x) = gu_fallback x" "np_pressed (notepad_edit k x) = np_pressed x"
proof -
  have p: "np_pressed (paint_calls ds x) = np_pressed x" for ds using paint_calls_vbe [of ds x] by auto
  show "gui_dev (notepad_edit k x) = gui_dev x" "gu_mouse (notepad_edit k x) = gu_mouse x"
    "gu_fallback (notepad_edit k x) = gu_fallback x" "np_pressed (notepad_edit k x) = np_pressed x"
    unfolding notepad_edit_def Let_def message_window_def using assms p by (simp_all add: edit_parts)
qed

lemma typing_round:
  assumes inv: "np_inv st0 e st" and left: "\<not> ms_left (gu_mouse st)" and d: "gui_dev st = k # ks"
    and key: "key_ascii k \<noteq> 27" "key_scan k \<noteq> 1"
  shows "\<exists>st2. notepad_step typing_env st = Goes st2 \<and> gui_dev st2 = ks \<and> \<not> ms_left (gu_mouse st2) \<and> keys_read typing_env st = [k]"
proof -
  have "set_dev (k # ks) (st\<lparr>gu_mouse := gu_mouse st\<rparr>) = st" using d by (auto simp: set_dev_vbe gui_dev_def)
  then have p: "poll_mouse typing_env st = Goes st" using d by (simp add: poll_mouse_def)
  define s where "s = notepad_edit k ((set_dev ks (st\<lparr>np_pressed := False\<rparr>))\<lparr>np_pressed := True\<rparr>)"
  have fb: "gu_fallback st" using inv by (simp add: np_inv_def draws_only_def)
  have inv2: "np_inv st0 (editor_key k e) s" unfolding s_def using inv by (intro np_inv_edit) simp
  have s: "gui_dev s = ks" "\<not> ms_left (gu_mouse s)" "gu_fallback s" "np_pressed s"
    using edit_sel [of "(set_dev ks (st\<lparr>np_pressed := False\<rparr>))\<lparr>np_pressed := True\<rparr>" k] fb left
    by (simp_all add: s_def set_dev_vbe gui_dev_def)
  have act: "\<not> vb_active (gu_vbe s)" by (rule np_inv_active [OF inv2])
  have r: "restore_background st = st" using inv by (auto simp: np_inv_def)
  have dv: "gui_dev (x\<lparr>gu_saved := q\<rparr>) = gui_dev x" for x :: "u16 list np_state" and q by (simp add: gui_dev_def)
  have "with_key typing_env (notepad_key typing_env) (st\<lparr>np_pressed := False\<rparr>) = Goes s"
    using d key by (simp add: with_key_def notepad_key_def s_def gui_dev_def)
  then have "notepad_step typing_env st = notepad_redraw typing_env s"
    unfolding notepad_step_def p act_bind.simps r using s by (simp add: notepad_click_def Let_def mouse_get_left_def)
  moreover have "keys_read typing_env st = [k]" using p d by (simp add: keys_read_def)
  ultimately show ?thesis using s act by (simp add: notepad_redraw_def notepad_draw_def dv)
qed

lemma typing_run:
  "np_inv st0 e st \<Longrightarrow> \<not> ms_left (gu_mouse st) \<Longrightarrow> gui_dev st = ks @ rest \<Longrightarrow> \<forall>k \<in> set ks. key_ascii k \<noteq> 27 \<and> key_scan k \<noteq> 1 \<Longrightarrow>
     \<exists>st1. notepad_run typing_env st ks st1 \<and> gui_dev st1 = rest \<and> \<not> ms_left (gu_mouse st1)"
proof (induction ks arbitrary: rest rule: rev_induct)
  case Nil
  then show ?case using notepad_run.start by auto
next
  case (snoc k ks)
  then obtain st1 where st1: "notepad_run typing_env st ks st1" "gui_dev st1 = k # rest" "\<not> ms_left (gu_mouse st1)"
    using snoc.IH [of "k # rest"] by auto
  note inv = run_inv [OF st1(1) snoc.prems(1)]
  obtain st2 where "notepad_step typing_env st1 = Goes st2" "gui_dev st2 = rest" "\<not> ms_left (gu_mouse st2)" "keys_read typing_env st1 = [k]"
    using typing_round [OF inv st1(3,2)] snoc.prems(4) by auto
  with notepad_run.round [OF st1(1), of st2] show ?case by auto
qed

theorem notepad_refines_editor_witness:
  "\<exists>st1 :: u16 list np_state. np_repr ([lit ''Ho''], 0, 2) st1 \<and> np_buffer st1 ! 0 = lit ''Ho'' @ replicate 89 (0 :: u8)"
proof -
  let ?ks = "[0x2348, 0x1769, 0x0E08, 0x186F] :: u16 list"
  obtain st where st: "gui_notepad typing_env [] (typing_start ?ks) = Goes st" "gui_dev st = ?ks" "\<not> ms_left (gu_mouse st)"
    using typing_begins by blast
  have fb: "no_framebuffer (typing_start ?ks)" "gu_buffer (typing_start ?ks) = 0"
    by (simp_all add: no_framebuffer_def typing_start_def vbe_fb_def vbe_mem_def get32_def)
  obtain st1 where run: "notepad_run typing_env st ?ks st1"
    using typing_run [OF start_inv [OF st(1) fb] st(3), of ?ks "[]"] st(2) by (auto simp: key_ascii_def key_scan_def)
  have "np_repr (fold editor_key ?ks ([[]], 0, 0)) st1" using notepad_refines_editor [OF st(1) fb run] by simp
  moreover have "fold editor_key ?ks ([[]], 0, 0) = ([lit ''Ho''], 0, 2)"
    by (simp add: op_of_key_def key_ascii_def key_scan_def lit_def)
  ultimately show ?thesis by (intro exI [of _ st1]) (simp add: row_of_def lit_def)
qed

section \<open>The text is painted over\<close>

lemma gui_rect_misses:
  "x < px \<Longrightarrow> px < x + w - 1 \<Longrightarrow> y < py \<Longrightarrow> py < y + h - 1 \<Longrightarrow> \<forall>d \<in> set (gui_draw_rect x y w h c). misses d px py"
  by (auto simp: gui_draw_rect_def gui_draw_hline_def gui_draw_vline_def)

lemma title_window_covers:
  assumes "gu_fallback st" and "1 \<le> x" "x < 319" "41 \<le> y" "y < 199" and t: "length title < 64"
  shows "screen_pixel (paint_calls (gui_draw_window 0 0 320 200 title @ notepad_toolbar 320) st) x y = 7"
proof -
  have v: "on_vga x y" using assms(2-5) by (simp add: on_vga_def)
  define k where "k = (320 - int (length title) * 8) sdiv 2"
  have "\<bar>k\<bar> \<le> \<bar>320 - int (length title) * 8\<bar>" unfolding k_def by (simp add: signed_divide_int_def sgn_if)
  then have "\<bar>k\<bar> < 2 ^ 20" using t by simp
  then have m: "\<forall>d \<in> set (tl (gui_draw_window 0 0 320 200 title) @ notepad_toolbar 320). misses d x y"
    using assms(2-5) t gui_rect_misses [of 0 x 320 0 y 200 COLOR_DARKGRAY]
    by (auto simp: gui_draw_window_def notepad_toolbar_def gpu_draw_hline_def gpu_draw_rect_def lit_def k_def [symmetric])
  have e: "gui_draw_window 0 0 320 200 title @ notepad_toolbar 320 =
    Rect 0 0 320 200 COLOR_GRAY # tl (gui_draw_window 0 0 320 200 title) @ notepad_toolbar 320"
    by (simp add: gui_draw_window_def)
  have "screen_pixel (paint_calls (gui_draw_window 0 0 320 200 title @ notepad_toolbar 320) st) x y =
    screen_pixel (safe_gpu (Rect 0 0 320 200 COLOR_GRAY) st) x y"
    unfolding e paint_calls_Cons using safe_gpu_dev [OF assms(1)] by (intro paint_calls_misses v m) blast
  then show ?thesis using screen_pixel_Rect [OF assms(1) v, of 0 320 0 200 COLOR_GRAY] assms(2-5)
    by (simp add: gui_rgb_to_vga_def gui_palette_def COLOR_GRAY_def del: safe_gpu.simps)
qed

text \<open>
  C23.  After a key NOTEPAD draws its text and then the window with the title once more, which fills the
  screen: every pixel of the text area is gray, and what was typed is never to be seen.
\<close>
theorem notepad_text_invisible:
  assumes "draws_only st0 st" and "length (np_title st) < 64" and "1 \<le> x" "x < 319" "41 \<le> y" "y < 199"
  shows "\<exists>st1. notepad_redraw env st = Goes st1 \<and> screen_pixel st1 x y = gui_rgb_to_vga COLOR_GRAY \<and> gui_rgb_to_vga COLOR_GRAY = 7"
proof -
  define s where "s = paint_calls (notepad_picture st) st"
  have s: "gu_fallback s" "\<not> vb_active (gu_vbe s)" "gu_width s = 320" "gu_height s = 200" "np_title s = np_title st"
    using assms(1) paint_calls_vbe [of "notepad_picture st" st] by (auto simp: s_def draws_only_def)
  have "screen_pixel (r\<lparr>gu_saved := p\<rparr>) x y = screen_pixel r x y" for r :: "'a np_state" and p by (simp add: screen_pixel_def)
  then show ?thesis
    using title_window_covers [OF s(1) assms(3-6), of "np_title st"] assms(2) s
    by (simp add: notepad_redraw_def notepad_draw_def s_def [symmetric] gui_rgb_to_vga_def gui_palette_def COLOR_GRAY_def)
qed

definition one_line_typed :: "unit np_state" where
  "one_line_typed = gui.extend screen_at_rest (np_state.fields
     ((lit ''Hello'' @ replicate 86 0) # replicate 34 (replicate 91 0)) 0 5 1 (lit ''A.TXT'') (lit ''RO-DOS NOTEPAD - A.TXT'') True)"

theorem notepad_text_invisible_witness:
  "\<exists>st1. notepad_redraw idle_env one_line_typed = Goes st1 \<and> screen_pixel st1 10 50 = gui_rgb_to_vga COLOR_GRAY \<and>
     gui_rgb_to_vga COLOR_GRAY = 7"
proof (rule notepad_text_invisible)
  show "draws_only one_line_typed one_line_typed" unfolding one_line_typed_def by (rule rest_only)
  show "length (np_title one_line_typed) < 64" by (simp add: one_line_typed_def gui.defs np_state.defs lit_def)
qed simp_all

end
