(* ===== verification/Sys_Call.thy ===== *)
theory Sys_Call
  imports Cmd_Files
begin

text \<open>
  The system call layer \<^verbatim>\<open>src/src/syscall.c\<close> and the exception handler of
  \<^verbatim>\<open>src/src/handlers.c\<close>: the dispatcher, its wrappers, the real-time clock and the sector
  shared with the host.  Memory is the flat memory of \<open>C_Prelude\<close>, the ports are the parameter
  \<open>io\<close>, the keyboard is the list of keys still to come.  The wrappers execute
  \<^verbatim>\<open>int 0x80\<close>, whose stub in \<^verbatim>\<open>src/src/interrupt.asm\<close> (lines 409 to 412) jumps to the common exception
  stub, which calls \<^verbatim>\<open>isr_handler\<close>; nothing calls the dispatcher.
\<close>

section \<open>State\<close>

record 'd sys_state =
  sy_out :: "console_event list"
  sy_keys :: "u16 list"
  sy_ticks :: u32
  sy_shutting_down :: bool
  sy_mem :: mem
  sy_dev :: 'd

text \<open>A call returns a value, halts the processor for good, or never comes back.\<close>

datatype 'd sys_result = Returns u32 "'d sys_state" | Halts "'d sys_state" | NoReturn

definition sys_put :: "console_event list \<Rightarrow> 'd sys_state \<Rightarrow> 'd sys_state" where
  "sys_put es st = st\<lparr>sy_out := sy_out st @ es\<rparr>"

text \<open>The string at an address; \<open>None\<close> when no terminator follows.\<close>

definition string_at :: "mem \<Rightarrow> u32 \<Rightarrow> u8 list option" where
  "string_at m p = map_option (\<lambda>n. read_bytes m p (unat n)) (strlen m p)"

section \<open>Exceptions\<close>

definition isr_handler :: "'d sys_state \<Rightarrow> 'd sys_result" where
  "isr_handler st =
     (if sy_shutting_down st then Halts st
      else Halts (sys_put [Puts (lit ''\<newline>CPU EXCEPTION - SYSTEM HALTED\<newline>'')] st))"

definition set_shutting_down :: "'d sys_state \<Rightarrow> 'd sys_state" where
  "set_shutting_down st = st\<lparr>sy_shutting_down := True\<rparr>"

section \<open>The dispatcher\<close>

definition get_cmos_reg :: "'d port_io \<Rightarrow> u8 \<Rightarrow> 'd \<Rightarrow> u8 \<times> 'd" where
  "get_cmos_reg io reg d = inb io 0x71 (outb io 0x70 reg d)"

text \<open>Three clock registers packed in a word.\<close>

definition read_clock :: "'d port_io \<Rightarrow> u8 \<Rightarrow> u8 \<Rightarrow> u8 \<Rightarrow> 'd sys_state \<Rightarrow> 'd sys_result" where
  "read_clock io a b c st =
     (let (x, d1) = get_cmos_reg io a (sy_dev st);
          (y, d2) = get_cmos_reg io b d1;
          (z, d3) = get_cmos_reg io c d2
      in Returns (push_bit 16 (ucast x) OR push_bit 8 (ucast y) OR ucast z) (st\<lparr>sy_dev := d3\<rparr>))"

partial_function (option) kbc_wait :: "'d port_io \<Rightarrow> 'd \<Rightarrow> 'd option" where
  "kbc_wait io d = (case inb io 0x64 d of (s, d1) \<Rightarrow> if s AND 0x02 \<noteq> 0 then kbc_wait io d1 else Some d1)"

text \<open>\<^verbatim>\<open>outw\<close> of one word is an output of a block of one word.\<close>

definition power_off :: "'d port_io \<Rightarrow> 'd sys_state \<Rightarrow> 'd sys_result" where
  "power_off io st =
     (let st1 = set_shutting_down (sys_put [Puts (lit ''System shutting down...\<newline>'')] st);
          d = outsw io 0xb004 [0x2000] (outsw io 0x604 [0x2000] (sy_dev st1))
      in case kbc_wait io d of
           None \<Rightarrow> NoReturn
         | Some d1 \<Rightarrow> Halts (st1\<lparr>sy_dev := outb io 0x64 0xFE d1\<rparr>))"

definition beep :: "'d port_io \<Rightarrow> u32 \<Rightarrow> 'd sys_state \<Rightarrow> 'd sys_result" where
  "beep io freq st =
     (if freq < 20 \<or> freq > 20000 then Returns 1 st
      else
        let divisor = 1193180 div freq;
            d1 = outb io 0x42 (ucast (drop_bit 8 divisor AND 0xFF))
                   (outb io 0x42 (ucast (divisor AND 0xFF)) (outb io 0x43 0xB6 (sy_dev st)));
            (tmp, d2) = inb io 0x61 d1
        in Returns 0 (st\<lparr>sy_dev := outb io 0x61 (tmp AND 0xFC) (outb io 0x61 (tmp OR 0x03) d2)\<rparr>))"

definition print_at :: "u32 \<Rightarrow> u8 list \<Rightarrow> u8 list \<Rightarrow> 'd sys_state \<Rightarrow> 'd sys_result" where
  "print_at p before after st =
     (case (if p = 0 then Some [] else string_at (sy_mem st) p) of
        None \<Rightarrow> NoReturn
      | Some s \<Rightarrow> Returns 0 (sys_put ((if before = [] then [] else [Puts before]) @ (if p = 0 then [] else [Puts s]) @
            (if after = [] then [] else [Puts after])) st))"

definition syscall_handler :: "'d port_io \<Rightarrow> u32 \<Rightarrow> u32 \<Rightarrow> u32 \<Rightarrow> u32 \<Rightarrow> 'd sys_state \<Rightarrow> 'd sys_result" where
  "syscall_handler io num arg1 arg2 arg3 st =
     (if num = 0x01 then print_at arg1 [] [] st
      else if num = 0x02 then Returns 0 (sys_put [Putc (ucast (arg1 AND 0xFF))] st)
      else if num = 0x04 then
        (case sy_keys st of [] \<Rightarrow> NoReturn | k # ks \<Rightarrow> Returns (ucast k) (st\<lparr>sy_keys := ks\<rparr>))
      else if num = 0x05 then Returns 0 (sys_put [Cls] st)
      else if num = 0x08 then Returns 0 (sys_put [SetAttr (ucast (arg1 AND 0xFF))] st)
      else if num = 0x1A \<or> num = 0x1B then Returns 0 st
      else if num = 0x1D \<or> num = 0x1E then Returns (- 1) st
      else if num = 0x1F then Returns 0 st
      else if num = 0x44 then Returns 1 st
      else if num = 0x50 then read_clock io 0x04 0x02 0x00 st
      else if num = 0x51 then read_clock io 0x07 0x08 0x09 st
      else if num = 0x52 then Returns (sy_ticks st) st
      else if num = 0x61 then
        (let (r, bytes, d) = disk_read_lba io arg1 arg2 (sy_dev st)
         in Returns (of_int r) (st\<lparr>sy_mem := write_bytes (sy_mem st) arg3 bytes, sy_dev := d\<rparr>))
      else if num = 0x73 then print_at arg1 (lit ''[DEBUG] '') (lit ''\<newline>'') st
      else if num = 0x71 then power_off io st
      else if num = 0x72 then beep io arg1 st
      else Returns (- 1) st)"

section \<open>Wrappers\<close>

text \<open>\<^verbatim>\<open>int 0x80\<close> with the number and the arguments in registers.\<close>

definition int80 :: "u32 \<Rightarrow> u32 list \<Rightarrow> 'd sys_state \<Rightarrow> 'd sys_result" where
  "int80 num args st = isr_handler st"

definition sys_getpid :: "'d sys_state \<Rightarrow> 'd sys_result" where "sys_getpid = int80 0x44 []"
definition sys_read_sector :: "u32 \<Rightarrow> u32 \<Rightarrow> u32 \<Rightarrow> 'd sys_state \<Rightarrow> 'd sys_result" where
  "sys_read_sector lba count buffer = int80 0x61 [lba, count, buffer]"
definition sys_print :: "u32 \<Rightarrow> 'd sys_state \<Rightarrow> 'd sys_result" where "sys_print str = int80 0x01 [str]"
definition sys_putc :: "u8 \<Rightarrow> 'd sys_state \<Rightarrow> 'd sys_result" where "sys_putc c = int80 0x02 [scast c]"
definition sys_clear_screen :: "'d sys_state \<Rightarrow> 'd sys_result" where "sys_clear_screen = int80 0x05 []"
definition sys_set_color :: "u8 \<Rightarrow> 'd sys_state \<Rightarrow> 'd sys_result" where "sys_set_color color = int80 0x08 [ucast color]"
definition sys_chdir :: "u32 \<Rightarrow> 'd sys_state \<Rightarrow> 'd sys_result" where "sys_chdir path = int80 0x1A [path]"
definition sys_getcwd :: "u32 \<Rightarrow> u32 \<Rightarrow> 'd sys_state \<Rightarrow> 'd sys_result" where "sys_getcwd buffer size' = int80 0x1B [buffer, size']"
definition sys_opendir :: "u32 \<Rightarrow> 'd sys_state \<Rightarrow> 'd sys_result" where "sys_opendir path = int80 0x1D [path]"
definition sys_readdir :: "u32 \<Rightarrow> u32 \<Rightarrow> 'd sys_state \<Rightarrow> 'd sys_result" where "sys_readdir fd entry = int80 0x1E [fd, entry]"
definition sys_closedir :: "u32 \<Rightarrow> 'd sys_state \<Rightarrow> 'd sys_result" where "sys_closedir fd = int80 0x1F [fd]"
definition sys_sysinfo :: "u32 \<Rightarrow> 'd sys_state \<Rightarrow> 'd sys_result" where "sys_sysinfo info = int80 0x54 [info]"
definition sys_uname :: "u32 \<Rightarrow> u32 \<Rightarrow> 'd sys_state \<Rightarrow> 'd sys_result" where "sys_uname buffer size' = int80 0x55 [buffer, size']"
definition sys_debug :: "u32 \<Rightarrow> 'd sys_state \<Rightarrow> 'd sys_result" where
  "sys_debug message st = (if message = 0 then Returns (- 1) st else int80 0x73 [message] st)"
definition sys_shutdown :: "'d sys_state \<Rightarrow> 'd sys_result" where "sys_shutdown = int80 0x71 []"
definition sys_beep :: "u32 \<Rightarrow> u32 \<Rightarrow> 'd sys_state \<Rightarrow> 'd sys_result" where
  "sys_beep frequency duration = int80 0x72 [frequency, duration]"

section \<open>The clock\<close>

definition bcd2bin :: "u8 \<Rightarrow> u8" where
  "bcd2bin val = drop_bit 4 val * 10 + (val AND 0x0F)"

text \<open>The values stored through the pointers.\<close>

definition sys_get_time :: "'d port_io \<Rightarrow> 'd \<Rightarrow> (u8 \<times> u8 \<times> u8) \<times> 'd" where
  "sys_get_time io d =
     (let (h, d1) = get_cmos_reg io 0x04 d;
          (m, d2) = get_cmos_reg io 0x02 d1;
          (s, d3) = get_cmos_reg io 0x00 d2
      in ((bcd2bin h, bcd2bin m, bcd2bin s), d3))"

definition sys_get_date :: "'d port_io \<Rightarrow> 'd \<Rightarrow> (u8 \<times> u8 \<times> u16) \<times> 'd" where
  "sys_get_date io d =
     (let (dy, d1) = get_cmos_reg io 0x07 d;
          (m, d2) = get_cmos_reg io 0x08 d1;
          (y, d3) = get_cmos_reg io 0x09 d2
      in ((bcd2bin dy, bcd2bin m, 2000 + ucast (bcd2bin y)), d3))"

section \<open>Errors\<close>

definition sys_strerror :: "int \<Rightarrow> string" where
  "sys_strerror error =
     (let names = [''Success'', ''Invalid parameter'', ''No such file or directory'', ''Access denied'', ''Out of memory'',
        ''No space left on device'', ''File exists'', ''Not a directory'', ''Is a directory'', ''Bad file descriptor'',
        ''I/O error'', ''Device busy'', ''Try again'', ''Operation not supported'', ''Operation not permitted'']
      in if 0 \<le> error \<and> error < 15 then names ! nat error else ''Unknown error'')"

definition sys_errno :: "u32 \<Rightarrow> u32" where
  "sys_errno result = (if sint result < 0 then - result else 0)"

definition sys_perror :: "u32 \<Rightarrow> 'd sys_state \<Rightarrow> 'd sys_result" where
  "sys_perror prefix st = (if prefix = 0 then Returns 0 st else print_at prefix [] (lit '': '') st)"

section \<open>The sector shared with the host\<close>

text \<open>The result, the bytes stored at \<^verbatim>\<open>buffer\<close> and the machine.\<close>

definition read_file_from_host :: "'d port_io \<Rightarrow> u32 \<Rightarrow> u32 \<Rightarrow> 'd \<Rightarrow> int \<times> u8 list \<times> 'd" where
  "read_file_from_host io buffer max_size d =
     (if buffer = 0 \<or> max_size = 0 then (- 1, [], d)
      else
        let (r, sector_buffer, d1) = disk_read_lba io 1000 1 d
        in if r \<noteq> 0 then (- 1, [], d1)
           else
             let bytes_to_copy = (if max_size < 512 then max_size else 512)
             in (uint bytes_to_copy, take (unat bytes_to_copy) sector_buffer, d1))"

section \<open>Lemmas\<close>

text \<open>Binary coded decimals.\<close>

definition to_bcd :: "nat \<Rightarrow> u8" where
  "to_bcd n = of_nat (n div 10 * 16 + n mod 10)"

lemma bcd2bin_table: "\<forall>n \<in> set [0..<100]. bcd2bin (to_bcd n) = of_nat n"
  by (simp add: upt_rec bcd2bin_def to_bcd_def)

lemma bcd2bin_to_bcd: "n < 100 \<Longrightarrow> bcd2bin (to_bcd n) = of_nat n"
  using bcd2bin_table by simp

section \<open>Properties\<close>

text \<open>
  The clock.  When the clock registers hold binary coded decimals below 100,
  \<^verbatim>\<open>sys_get_time\<close> and \<^verbatim>\<open>sys_get_date\<close> return the numbers they stand for, the year counted
  from 2000.
\<close>
theorem rtc_clock_decoded:
  assumes "\<And>r d. fst (get_cmos_reg io r d) = to_bcd (now r)" and "\<And>r. now r < 100"
  shows "fst (sys_get_time io d) = (of_nat (now 4), of_nat (now 2), of_nat (now 0)) \<and>
    (\<exists>dy m y. fst (sys_get_date io d) = (dy, m, y) \<and> unat dy = now 7 \<and> unat m = now 8 \<and> unat y = 2000 + now 9)"
proof -
  have v: "bcd2bin (fst (get_cmos_reg io r d)) = of_nat (now r)" for r d
    by (simp only: assms(1) bcd2bin_to_bcd [OF assms(2)])
  have u: "unat (of_nat (now r) :: u8) = now r" for r
    unfolding unat_of_nat using assms(2) [of r] by simp
  have "unat (2000 + ucast (of_nat (now 9) :: u8) :: u16) = 2000 + now 9"
    using u [of 9] assms(2) [of 9] by (simp add: unat_word_ariths unsigned_ucast_eq take_bit_eq_mod)
  then show ?thesis by (simp add: sys_get_time_def sys_get_date_def split_def Let_def v u)
qed

text \<open>A clock whose registers hold the time 23:59:58 on 31 December 2025.\<close>

definition ref_rtc :: "u8 port_io" where
  "ref_rtc = \<lparr>inb = (\<lambda>p r. (to_bcd (if r = 4 then 23 else if r = 2 then 59 else if r = 0 then 58
       else if r = 7 then 31 else if r = 8 then 12 else 25), r)),
     outb = (\<lambda>p x r. x), insw = (\<lambda>p n r. ([], r)), outsw = (\<lambda>p ws r. r)\<rparr>"

theorem rtc_clock_decoded_witness:
  "fst (sys_get_time ref_rtc 0) = (23, 59, 58) \<and>
    (\<exists>dy m y. fst (sys_get_date ref_rtc 0) = (dy, m, y) \<and> unat dy = 31 \<and> unat m = 12 \<and> unat y = 2025)"
proof -
  let ?now = "\<lambda>r :: u8. if r = 4 then 23 else if r = 2 then 59 else if r = 0 then 58
       else if r = 7 then 31 else if r = 8 then 12 else (25 :: nat)"
  have "fst (get_cmos_reg ref_rtc r d) = to_bcd (?now r)" for r d by (simp add: get_cmos_reg_def ref_rtc_def)
  moreover have "?now r < 100" for r by simp
  ultimately have "fst (sys_get_time ref_rtc 0) = (of_nat (?now 4), of_nat (?now 2), of_nat (?now 0)) \<and>
      (\<exists>dy m y. fst (sys_get_date ref_rtc 0) = (dy, m, y) \<and> unat dy = ?now 7 \<and> unat m = ?now 8 \<and> unat y = 2000 + ?now 9)"
    by (rule rtc_clock_decoded)
  then show ?thesis by simp
qed

text \<open>
  The sector that \<^verbatim>\<open>read_file_from_host\<close> reserves for the host lies in the content area of
  the file system: once a state with a content for file 18 has been saved, the call succeeds
  and returns zeros instead of what the host had put there.
\<close>
theorem host_sector_overwritten:
  assumes "ata_drive io view lat" and "busy (view (dev st)) = 0" and "phase (view (dev st)) = Idle" and "savable st"
    and "c < file_content_count st" and "fc_file_idx (file_contents st ! c) = 18" and "buffer \<noteq> 0" and "512 \<le> max_size"
  shows "\<exists>d d'. fs_save_to_disk io st = Ok (0, st\<lparr>dev := d\<rparr>) \<and>
    read_file_from_host io buffer max_size d = (512, replicate 512 0, d')"
proof -
  note drive = assms(1)
  have a: "fs_wf st" "fs_count st \<le> 64" "user_count st \<le> 5" "distinct_contents st"
    using assms(4) by (auto simp: savable_def)
  have r: "ata_drive.ready view (dev st)" using assms(2,3) by (simp add: ata_drive.ready_def [OF drive])
  obtain d where d: "fs_save_to_disk io st = Ok (0, st\<lparr>dev := d\<rparr>)" "ata_drive.ready view d"
      "medium (view d) = apply_plan (save_plan st) (medium (view (dev st)))"
    using ata_drive.save_view [OF drive r a(1)] by blast
  have "wf_content (file_contents st ! c)" using a(1) assms(5) by (auto simp: fs_wf_def)
  then have "unat (fc_size (file_contents st ! c)) - 12 * 512 = 0" by (simp add: wf_content_def)
  moreover define Z :: "u8 list" where "Z = replicate 512 0"
  ultimately have z: "file_sector (file_contents st ! c) 12 = Z" by (simp add: file_sector_def pad512_def)
  have "writes_to (save_plan st) (700 + unat (18 :: u32) * 16 + 12) = {Z}"
    using save_plan_writes_content [OF a assms(5), of 12] unfolding assms(6) z by simp
  then have "writes_to (save_plan st) 1000 = {Z}" by simp
  then have m: "medium (view d) 1000 = Z"
    using apply_plan_lookup [OF save_plan_op_ok [OF a(1)], of 1000 Z] d(3) by simp
  have "\<exists>d'. disk_read_lba io 1000 1 d = (0, concat (map (medium (view d)) [1000..<1001]), d')"
    using ata_drive.disk_read_view [OF drive d(2), of 1000 1] by auto
  then obtain d' where "disk_read_lba io 1000 1 d = (0, Z, d')" using m by (auto simp: upt_rec)
  moreover have "\<not> max_size < 512" "max_size \<noteq> 0" using assms(8) by auto
  moreover have "take 512 Z = Z" by (simp add: Z_def)
  ultimately have "read_file_from_host io buffer max_size d = (512, Z, d')"
    using assms(7) by (simp add: read_file_from_host_def)
  then show ?thesis using d(1) unfolding Z_def by blast
qed

definition host_state :: "'d \<Rightarrow> 'd cmd_state" where
  "host_state d = (initial_state d)\<lparr>
     file_contents := (file_contents (initial_state d))[0 := \<lparr>fc_file_idx = 18, fc_size = 1, fc_data = replicate 4096 65\<rparr>],
     file_content_count := 1\<rparr>"

lemma host_state_savable: "savable (host_state d)"
proof -
  have "cmd_wf (host_state d)"
    unfolding host_state_def using wf_set_content [OF initial_wf, of "\<lparr>fc_file_idx = 18, fc_size = 1, fc_data = replicate 4096 65\<rparr>" 1 d 0]
    by (simp add: wf_content_def)
  then have "fs_wf (host_state d)" by (simp add: cmd_wf_def)
  moreover have "fs_count (host_state d) = 0" "user_count (host_state d) = 0" "file_content_count (host_state d) = 1"
    by (simp_all add: host_state_def initial_state_def)
  ultimately show ?thesis by (simp add: savable_def distinct_contents_def contents_match_def)
qed

theorem host_sector_overwritten_witness:
  "\<exists>d d'. fs_save_to_disk ref_io (host_state blank_drive) = Ok (0, (host_state blank_drive)\<lparr>dev := d\<rparr>) \<and>
    read_file_from_host ref_io 0x2000 512 d = (512, replicate 512 0, d')"
proof (rule host_sector_overwritten [OF ref.ata_drive_axioms _ _ host_state_savable, of blank_drive 0])
  have "dev (host_state blank_drive) = blank_drive" by (simp add: host_state_def initial_state_def)
  then show "busy (ref_view (dev (host_state blank_drive))) = 0" "phase (ref_view (dev (host_state blank_drive))) = Idle"
    by (simp_all add: ref_view_def blank_drive_def)
  show "0 < file_content_count (host_state blank_drive)" "fc_file_idx (file_contents (host_state blank_drive) ! 0) = 18"
    by (simp_all add: host_state_def initial_state_def MAX_CONTENTS_def)
qed simp_all

end
