(* ===== verification/Gui_Tools.thy ===== *)
theory Gui_Tools
  imports Gui_Pixels Cmd_State Sys_Call
begin

text \<open>
  PAINT, SYSINFOGUI, FILEBROWSER and CLOCK of \<^verbatim>\<open>src/src/gui_apps.c\<close>.  Each program is its start and one round
  of its loop; the loops end with the reboot only.
\<close>

section \<open>PAINT\<close>

record 'd paint_state = "'d gui" +
  pt_brush_size :: int
  pt_color :: u32

definition paint_palette :: "u32 list" where
  "paint_palette = [COLOR_BLACK, COLOR_BLUE, COLOR_GREEN, COLOR_CYAN, COLOR_RED, COLOR_MAGENTA, COLOR_BROWN, COLOR_GRAY,
     COLOR_DARKGRAY, COLOR_LBLUE, COLOR_LGREEN, COLOR_LCYAN, COLOR_LRED, COLOR_LMAGENTA, COLOR_YELLOW, COLOR_WHITE]"

definition paint_draw_palette :: "'d paint_state \<Rightarrow> draw list" where
  "paint_draw_palette st =
     (let palette_y = gu_height st - 24; palette_x = 20
      in concat (map (\<lambda>i. let x = palette_x + int i * 24
           in Rect x palette_y 20 16 (paint_palette ! i) #
              (if paint_palette ! i = pt_color st then gui_draw_rect (x - 1) (palette_y - 1) 22 18 COLOR_WHITE else [])) [0..<16]) @
         [Text (gu_width st - 80) palette_y (lit ''Size:'') COLOR_WHITE COLOR_BLACK,
          Glyph (gu_width st - 32) palette_y (48 + of_int (pt_brush_size st)) COLOR_YELLOW COLOR_BLACK])"

definition paint_draw_brush :: "'d paint_state \<Rightarrow> int \<Rightarrow> int \<Rightarrow> draw list" where
  "paint_draw_brush st x y =
     [Pixel (x + dx) (y + dy) (pt_color st). dy \<leftarrow> [- pt_brush_size st..pt_brush_size st], dx \<leftarrow> [- pt_brush_size st..pt_brush_size st],
        x + dx \<ge> 0 \<and> x + dx < gu_width st \<and> y + dy \<ge> 24 \<and> y + dy < gu_height st - 28]"

definition paint_brush :: "'d paint_state \<Rightarrow> 'd paint_state" where
  "paint_brush st = paint_calls (paint_draw_brush st (mouse_get_x (gu_mouse st)) (mouse_get_y (gu_mouse st))) st"

definition paint_key :: "'d gui_env \<Rightarrow> u16 \<Rightarrow> 'd paint_state \<Rightarrow> 'd paint_state act" where
  "paint_key env key st =
     (let ascii = key_ascii key; scan = key_scan key
      in if ascii = 27 \<or> scan = 0x01 then sys_reboot env st
         else
           let st1 = (if ascii = 32 then paint_brush st else st);
               st2 = (if ascii = 43 \<or> scan = 0x4E
                      then let s = (if pt_brush_size st1 < 10 then st1\<lparr>pt_brush_size := pt_brush_size st1 + 1\<rparr> else st1)
                           in paint_calls (paint_draw_palette s) s
                      else st1);
               st3 = (if ascii = 45 \<or> scan = 0x4A
                      then let s = (if pt_brush_size st2 > 1 then st2\<lparr>pt_brush_size := pt_brush_size st2 - 1\<rparr> else st2)
                           in paint_calls (paint_draw_palette s) s
                      else st2)
           in Goes (if 49 \<le> ascii \<and> ascii \<le> 56
                    then let s = st3\<lparr>pt_color := paint_palette ! (unat ascii - 49)\<rparr> in paint_calls (paint_draw_palette s) s
                    else st3))"

text \<open>The palette entry under \<open>x\<close>.\<close>

definition palette_entry :: "int \<Rightarrow> nat option" where
  "palette_entry x = find (\<lambda>i. x \<ge> 20 + int i * 24 \<and> x < 20 + int i * 24 + 20) [0..<16]"

definition paint_click :: "'d paint_state \<Rightarrow> 'd paint_state" where
  "paint_click st =
     (let x = mouse_get_x (gu_mouse st); y = mouse_get_y (gu_mouse st)
      in if \<not> mouse_get_left (gu_mouse st) then st
         else if y \<ge> gu_height st - 24
         then (case palette_entry x of
                 None \<Rightarrow> st
               | Some i \<Rightarrow> let s = st\<lparr>pt_color := paint_palette ! i\<rparr> in paint_calls (paint_draw_palette s) s)
         else if y \<ge> 24 then paint_brush st else st)"

definition paint_step :: "'d gui_env \<Rightarrow> 'd paint_state \<Rightarrow> 'd paint_state act" where
  "paint_step env st =
     act_bind (poll_mouse env (restore_background st)) (\<lambda>st1.
     act_bind (with_key env (paint_key env) st1) (\<lambda>st2.
       draw_pointer env (save_background (paint_click st2))))"

definition gui_paint :: "'d gui_env \<Rightarrow> u8 list \<Rightarrow> 'd paint_state \<Rightarrow> 'd paint_state act" where
  "gui_paint env args st =
     act_bind (start_mouse env (start_screen env st)) (\<lambda>st1.
       Goes ((paint_calls ([Clear COLOR_BLACK, Rect 0 0 (gu_width st1) 22 COLOR_BLUE,
           Text 8 6 (lit ''PAINT - Arrow keys to move, Space to draw'') COLOR_WHITE COLOR_BLUE] @ paint_draw_palette st1) st1)
         \<lparr>gu_saved := (- 1, - 1)\<rparr>))"

section \<open>SYSINFOGUI\<close>

definition sysinfo_frame :: "('d, 'm) gui_scheme \<Rightarrow> int \<times> int \<times> int \<times> int" where
  "sysinfo_frame st =
     (let win_w = (if gu_width st > 400 then 500 else gu_width st - 40);
          win_h = (if gu_height st > 300 then 350 else gu_height st - 40)
      in ((gu_width st - win_w) sdiv 2, (gu_height st - win_h) sdiv 2, win_w, win_h))"

definition sysinfo_picture :: "('d, 'm) gui_scheme \<Rightarrow> draw list" where
  "sysinfo_picture st =
     (case sysinfo_frame st of (win_x, win_y, win_w, win_h) \<Rightarrow>
        let x = win_x + 20; line_h = 14; y1 = win_y + 32; y2 = y1 + line_h; y3 = y2 + line_h + 8; y4 = y3 + line_h;
            y5 = y4 + line_h; y6 = y5 + line_h
        in [Clear COLOR_BLUE] @ gui_draw_window win_x win_y win_w win_h (lit ''SYSTEM INFORMATION'') @
           [Text x y1 (lit ''RO-DOS Version 1.1'') COLOR_YELLOW COLOR_GRAY,
            Text x y2 (lit ''32-bit Protected Mode Operating System'') COLOR_WHITE COLOR_GRAY,
            Text x y3 (lit ''HARDWARE:'') COLOR_LCYAN COLOR_GRAY,
            Text (x + 10) y4 (lit ''CPU: x86 (i386 compatible)'') COLOR_WHITE COLOR_GRAY,
            Text (x + 10) y5 (lit ''Graphics: VirtIO-GPU / VGA'') COLOR_WHITE COLOR_GRAY,
            Text (x + 10) (y6 + line_h * 5) (lit ''Input: PS/2 Keyboard + Mouse'') COLOR_WHITE COLOR_GRAY,
            Text x (y6 + line_h * 8) (lit ''Press ESC or click X to reboot'') COLOR_YELLOW COLOR_GRAY])"

definition gui_sysinfo :: "'d gui_env \<Rightarrow> u8 list \<Rightarrow> 'd gui \<Rightarrow> 'd gui act" where
  "gui_sysinfo env args st =
     act_bind (start_mouse env (start_screen env st)) (\<lambda>st1. Goes ((paint_calls (sysinfo_picture st1) st1)\<lparr>gu_saved := (- 1, - 1)\<rparr>))"

text \<open>The close button of a window is 14 pixels wide.\<close>

definition on_close_button :: "('d, 'm) gui_scheme \<Rightarrow> int \<Rightarrow> int \<Rightarrow> int \<Rightarrow> bool" where
  "on_close_button st win_x win_y win_w \<longleftrightarrow>
     (let x = mouse_get_x (gu_mouse st); y = mouse_get_y (gu_mouse st); close_x = win_x + win_w - 18; close_y = win_y + 4
      in x \<ge> close_x \<and> x < close_x + 14 \<and> y \<ge> close_y \<and> y < close_y + 14)"

definition sysinfo_step :: "'d gui_env \<Rightarrow> 'd gui \<Rightarrow> 'd gui act" where
  "sysinfo_step env st =
     act_bind (poll_mouse env st) (\<lambda>st1.
     act_bind (with_key env (\<lambda>key s. if key_scan key = 0x01 then sys_reboot env s else Goes s) (restore_background st1)) (\<lambda>st2.
       case sysinfo_frame st2 of (win_x, win_y, win_w, win_h) \<Rightarrow>
         if mouse_get_left (gu_mouse st2) \<and> on_close_button st2 win_x win_y win_w then sys_reboot env st2
         else draw_pointer env (save_background st2)))"

section \<open>FILEBROWSER\<close>

text \<open>The tables of \<^verbatim>\<open>commands.c\<close> are read through \<open>br_table\<close> and \<open>br_count\<close>.\<close>

record 'd browser_state = "'d gui" +
  br_table :: "fs_entry list"
  br_count :: int
  br_selected :: int
  br_scroll :: int
  br_redraw :: bool

definition visible_items :: int where "visible_items = 8"

text \<open>What follows the last backslash, at most 23 characters.\<close>

definition browser_name :: "fs_entry \<Rightarrow> u8 list" where
  "browser_name e =
     (let s = cstr (fe_name e); start = length (dropWhile (\<lambda>c. c \<noteq> 92) (rev (take 55 s))) in take 23 (drop start s))"

definition browser_row :: "'d browser_state \<Rightarrow> nat \<Rightarrow> int \<Rightarrow> draw list" where
  "browser_row st i y =
     (let is_selected = (int i = br_selected st);
          bg = (if is_selected then COLOR_BLUE else COLOR_WHITE); fg = (if is_selected then COLOR_WHITE else COLOR_BLACK)
      in (if is_selected then [Rect (16 + 1) y (288 - 2) 14 COLOR_BLUE] else []) @
         [if fe_type (br_table st ! i) = 1 then Text (16 + 4) (y + 2) (lit ''[DIR]'') COLOR_YELLOW bg
          else Text (16 + 4) (y + 2) (lit ''[FIL]'') COLOR_LCYAN bg,
          Text (16 + 48) (y + 2) (browser_name (br_table st ! i)) fg bg])"

definition browser_picture :: "'d browser_state \<Rightarrow> draw list" where
  "browser_picture st =
     [Clear COLOR_BLUE] @ gui_draw_window 10 10 300 180 (lit ''FILE BROWSER'') @ [Rect 16 36 288 120 COLOR_WHITE] @
     concat (map (\<lambda>k. browser_row st (nat (br_scroll st) + nat k) (36 + 2 + 14 * k)) [0..min visible_items (br_count st - br_scroll st) - 1]) @
     [Rect 16 160 288 16 COLOR_GRAY, Text 20 163 (lit ''Arrows=select, ESC=reboot'') COLOR_BLACK COLOR_GRAY]"

definition browser_refresh :: "'d browser_state \<Rightarrow> 'd browser_state" where
  "browser_refresh st =
     (if br_redraw st then (paint_calls (browser_picture st) st)\<lparr>br_redraw := False, gu_saved := (- 1, snd (gu_saved st))\<rparr> else st)"

definition browser_up :: "'d browser_state \<Rightarrow> 'd browser_state" where
  "browser_up st =
     (if br_selected st > 0
      then let s = br_selected st - 1
           in st\<lparr>br_selected := s, br_scroll := (if s < br_scroll st then s else br_scroll st), br_redraw := True\<rparr>
      else st)"

definition browser_down :: "'d browser_state \<Rightarrow> 'd browser_state" where
  "browser_down st =
     (if br_selected st < br_count st - 1
      then let s = br_selected st + 1
           in st\<lparr>br_selected := s, br_scroll := (if s \<ge> br_scroll st + visible_items then s - visible_items + 1 else br_scroll st),
                br_redraw := True\<rparr>
      else st)"

definition browser_key :: "'d gui_env \<Rightarrow> u16 \<Rightarrow> 'd browser_state \<Rightarrow> 'd browser_state act" where
  "browser_key env key st =
     (if key_scan key = 0x01 then sys_reboot env st
      else Goes (if key_scan key = 0x48 then browser_up st else if key_scan key = 0x50 then browser_down st else st))"

definition browser_select :: "int \<Rightarrow> 'd browser_state \<Rightarrow> 'd browser_state" where
  "browser_select y st =
     (let clicked_item = br_scroll st + (y - 36) sdiv 14
      in if clicked_item < br_count st then st\<lparr>br_selected := clicked_item, br_redraw := True\<rparr> else st)"

definition browser_click :: "'d gui_env \<Rightarrow> 'd browser_state \<Rightarrow> 'd browser_state act" where
  "browser_click env st =
     (let x = mouse_get_x (gu_mouse st); y = mouse_get_y (gu_mouse st)
      in if mouse_get_left (gu_mouse st)
         then let st1 = (if x \<ge> 16 \<and> x < 16 + 288 \<and> y \<ge> 36 \<and> y < 36 + 120 then browser_select y st else st)
              in if x \<ge> 300 \<and> x < 315 \<and> y \<ge> 10 \<and> y < 25 then sys_reboot env st1 else wait_release env st1
         else Goes st)"

definition browser_step :: "'d gui_env \<Rightarrow> 'd browser_state \<Rightarrow> 'd browser_state act" where
  "browser_step env st =
     act_bind (poll_mouse env (browser_refresh st)) (\<lambda>st1.
     act_bind (with_key env (browser_key env) (restore_background st1)) (\<lambda>st2.
     act_bind (browser_click env st2) (\<lambda>st3.
       if br_redraw st3 then Goes st3 else draw_pointer env (save_background st3))))"

definition gui_filebrowser :: "'d gui_env \<Rightarrow> u8 list \<Rightarrow> 'd browser_state \<Rightarrow> 'd browser_state act" where
  "gui_filebrowser env args st =
     act_bind (start_mouse env (start_screen env st)) (\<lambda>st1.
       Goes (st1\<lparr>br_selected := 0, br_scroll := 0, br_redraw := True, gu_saved := (- 1, - 1)\<rparr>))"

section \<open>CLOCK\<close>

definition sin_table :: "int list" where
  "sin_table = [0, 10, 21, 31, 41, 50, 59, 67, 74, 81, 87, 91, 95, 98, 100, 100, 100, 98, 95, 91, 87, 81, 74, 67, 59, 50, 41, 31, 21, 10,
     0, -10, -21, -31, -41, -50, -59, -67, -74, -81, -87, -91, -95, -98, -100, -100, -100, -98, -95, -91,
     -87, -81, -74, -67, -59, -50, -41, -31, -21, -10]"

definition cos_table :: "int list" where
  "cos_table = [100, 100, 98, 95, 91, 87, 81, 74, 67, 59, 50, 41, 31, 21, 10, 0, -10, -21, -31, -41,
     -50, -59, -67, -74, -81, -87, -91, -95, -98, -100, -100, -100, -98, -95, -91, -87, -81, -74, -67, -59,
     -50, -41, -31, -21, -10, 0, 10, 21, 31, 41, 50, 59, 67, 74, 81, 87, 91, 95, 98, 100]"

definition draw_clock_hand :: "int \<Rightarrow> int \<Rightarrow> int \<Rightarrow> int \<Rightarrow> u32 \<Rightarrow> int \<Rightarrow> draw list" where
  "draw_clock_hand cx cy len minute color thickness =
     (let k = nat (minute mod 60); dx = (sin_table ! k * len) sdiv 100; dy = (- (cos_table ! k) * len) sdiv 100
      in [d. i \<leftarrow> [0..len], t \<leftarrow> [(- thickness) sdiv 2..thickness sdiv 2],
            d \<leftarrow> (let x = cx + (dx * i) sdiv len; y = cy + (dy * i) sdiv len in [Pixel (x + t) y color, Pixel x (y + t) color])])"

definition clock_face :: "int \<Rightarrow> int \<Rightarrow> int \<Rightarrow> draw list" where
  "clock_face cx cy radius =
     (let r_inner = (radius - 2) * (radius - 2); r_outer = (radius + 5) * (radius + 5)
      in [d. dy \<leftarrow> [- radius - 5..radius + 5], dx \<leftarrow> [- radius - 5..radius + 5],
            d \<leftarrow> (let dist_sq = dx * dx + dy * dy
                  in if dist_sq \<le> r_outer \<and> dist_sq \<ge> r_inner then [Pixel (cx + dx) (cy + dy) COLOR_GRAY]
                     else if dist_sq < r_inner then [Pixel (cx + dx) (cy + dy) COLOR_WHITE] else [])])"

definition clock_marks :: "int \<Rightarrow> int \<Rightarrow> int \<Rightarrow> draw list" where
  "clock_marks cx cy radius =
     [d. i \<leftarrow> [0..<60], t \<leftarrow> [0..10],
        d \<leftarrow> (let mark_len = (if i mod 5 = 0 then 10 else 4);
                  x1 = cx + (sin_table ! i * (radius - mark_len)) sdiv 100; y1 = cy - (cos_table ! i * (radius - mark_len)) sdiv 100;
                  x2 = cx + (sin_table ! i * (radius - 2)) sdiv 100; y2 = cy - (cos_table ! i * (radius - 2)) sdiv 100;
                  mark_color = (if i mod 5 = 0 then COLOR_BLACK else COLOR_GRAY);
                  x = x1 + ((x2 - x1) * t) sdiv 10; y = y1 + ((y2 - y1) * t) sdiv 10
              in [Pixel x y mark_color] @ (if i mod 5 = 0 then [Pixel (x + 1) y mark_color, Pixel x (y + 1) mark_color] else []))]"

text \<open>Two digits; a number above 99 gives a character behind \<^verbatim>\<open>9\<close>.\<close>

definition clock_digits :: "u8 \<Rightarrow> u8 list" where
  "clock_digits v = [48 + of_nat (unat v div 10), 48 + of_nat (unat v mod 10)]"

definition clock_text :: "u8 \<Rightarrow> u8 \<Rightarrow> u8 \<Rightarrow> u8 list" where
  "clock_text h m s = clock_digits h @ [58] @ clock_digits m @ [58] @ clock_digits s"

definition clock_picture :: "('d, 'm) gui_scheme \<Rightarrow> u8 \<Rightarrow> u8 \<Rightarrow> u8 \<Rightarrow> draw list" where
  "clock_picture st h m s =
     (let cx = gu_width st sdiv 2; cy = gu_height st sdiv 2; radius = 60; hour_min = int (unat h mod 12) * 5 + int (unat m div 12)
      in [Clear COLOR_BLACK, Text (cx - 40) 10 (lit ''RO-DOS CLOCK'') COLOR_WHITE COLOR_BLACK] @
         clock_face cx cy radius @ clock_marks cx cy radius @
         draw_clock_hand cx cy (radius * 50 sdiv 100) hour_min COLOR_BLACK 3 @
         draw_clock_hand cx cy (radius * 75 sdiv 100) (int (unat m)) COLOR_BLUE 2 @
         draw_clock_hand cx cy (radius * 85 sdiv 100) (int (unat s)) COLOR_RED 1 @
         [Pixel (cx + dx) (cy + dy) COLOR_YELLOW. dy \<leftarrow> [- 4..4], dx \<leftarrow> [- 4..4], dx * dx + dy * dy \<le> 16] @
         [Text (cx - 32) (gu_height st - 40) (clock_text h m s) COLOR_WHITE COLOR_BLACK,
          Text (cx - 56) (gu_height st - 20) (lit ''ESC to Reboot'') COLOR_GRAY COLOR_BLACK])"

definition is_escape :: "u16 \<Rightarrow> bool" where
  "is_escape key \<longleftrightarrow> key_ascii key = 27 \<or> key_scan key = 0x01"

text \<open>The wait for the next second: whether Escape came, and the machine then.\<close>

partial_function (option) clock_wait :: "'d gui_env \<Rightarrow> u8 \<Rightarrow> u8 \<Rightarrow> 'd \<Rightarrow> (bool \<times> 'd) option" where
  "clock_wait env current_s s d =
     (if current_s = s
      then case sys_get_time (ge_io env) d of ((h, m, s1), d1) \<Rightarrow>
             case ge_hit env d1 of (hit, d2) \<Rightarrow>
               if hit
               then case ge_getkey env d2 of (key, d3) \<Rightarrow>
                      if is_escape key then Some (True, d3) else clock_wait env current_s s1 d3
               else clock_wait env current_s s1 d2
      else Some (False, d))"

definition clock_step :: "'d gui_env \<Rightarrow> 'd gui \<Rightarrow> 'd gui act" where
  "clock_step env st =
     act_bind (with_key env (\<lambda>key s. if is_escape key then sys_reboot env s else Goes s) st) (\<lambda>st1.
       case sys_get_time (ge_io env) (gui_dev st1) of ((h, m, s), d1) \<Rightarrow>
         let h1 = of_nat ((unat h + 1) mod 24); st2 = paint_calls (clock_picture st1 h1 m s) (set_dev d1 st1)
         in case clock_wait env s s (gui_dev st2) of
              None \<Rightarrow> Hangs
            | Some (esc, d2) \<Rightarrow> if esc then sys_reboot env (set_dev d2 st2) else Goes (set_dev d2 st2))"

definition gui_clock :: "'d gui_env \<Rightarrow> u8 list \<Rightarrow> 'd gui \<Rightarrow> 'd gui act" where
  "gui_clock env args st = Goes (start_screen env st)"

section \<open>The screen\<close>

text \<open>What each program draws starts on the screen.\<close>

lemma draws_only_size: "draws_only st0 st \<Longrightarrow> gu_width st = 320 \<and> gu_height st = 200 \<and> gu_fallback st"
  by (simp add: draws_only_def)

lemma gui_rect_inside: "\<forall>d \<in> set (gui_draw_rect x y w h c). call_inside d"
  by (auto simp: gui_draw_rect_def gui_draw_hline_def gui_draw_vline_def)

lemma palette_inside: "draws_only st0 st \<Longrightarrow> \<forall>d \<in> set (paint_draw_palette st). call_inside d"
  using gui_rect_inside by (auto simp: paint_draw_palette_def Let_def lit_def dest: draws_only_size)

lemma brush_inside: "\<forall>d \<in> set (paint_draw_brush st x y). call_inside d"
  by (auto simp: paint_draw_brush_def)

lemma sysinfo_inside: "draws_only st0 st \<Longrightarrow> \<forall>d \<in> set (sysinfo_picture st). call_inside d"
  using window_inside [of 20 280 20 "lit ''SYSTEM INFORMATION''" 160] draws_only_size [of st0 st]
  by (simp add: sysinfo_picture_def sysinfo_frame_def Let_def lit_def signed_divide_int_def)

lemma browser_row_inside: "d \<in> set (browser_row st i y) \<Longrightarrow> 0 \<le> y \<Longrightarrow> y < 1000 \<Longrightarrow> call_inside d"
  by (auto simp: browser_row_def Let_def lit_def browser_name_def split: if_splits)

lemma browser_inside: "\<forall>d \<in> set (browser_picture st). call_inside d"
  using window_inside [of 10 300 10 "lit ''FILE BROWSER''" 180]
  by (auto simp: browser_picture_def visible_items_def lit_def dest!: browser_row_inside)

lemma hand_inside: "\<forall>d \<in> set (draw_clock_hand cx cy len m c th). call_inside d"
  unfolding draw_clock_hand_def Let_def by auto

lemma face_inside: "\<forall>d \<in> set (clock_face cx cy r). call_inside d"
  unfolding clock_face_def Let_def by (auto split: if_splits)

lemma marks_inside: "\<forall>d \<in> set (clock_marks cx cy r). call_inside d"
  unfolding clock_marks_def Let_def by (auto split: if_splits)

lemma clock_inside:
  assumes "draws_only st0 st"
  shows "\<forall>d \<in> set (clock_picture st h m s). call_inside d"
proof -
  have w: "gu_width st = 320" "gu_height st = 200" using assms by (simp_all add: draws_only_def)
  have "call_inside (Text (320 sdiv 2 - 40) 10 (lit ''RO-DOS CLOCK'') COLOR_WHITE COLOR_BLACK)"
    "call_inside (Text (320 sdiv 2 - 32) (200 - 40) (clock_text h m s) COLOR_WHITE COLOR_BLACK)"
    "call_inside (Text (320 sdiv 2 - 56) (200 - 20) (lit ''ESC to Reboot'') COLOR_GRAY COLOR_BLACK)"
    by (simp_all add: lit_def clock_text_def clock_digits_def signed_divide_int_def)
  then show ?thesis unfolding clock_picture_def Let_def w
    by (simp add: ball_Un hand_inside face_inside marks_inside del: call_inside.simps(1,2))
qed

text \<open>The rounds.\<close>

lemma tool_updates [simp]:
  "draws_only st0 (pst\<lparr>pt_color := c\<rparr>) = draws_only st0 pst" "draws_only st0 (pst\<lparr>pt_brush_size := k\<rparr>) = draws_only st0 pst"
  "draws_only st1 (bst\<lparr>br_selected := i\<rparr>) = draws_only st1 bst" "draws_only st1 (bst\<lparr>br_scroll := i\<rparr>) = draws_only st1 bst"
  "draws_only st1 (bst\<lparr>br_redraw := b\<rparr>) = draws_only st1 bst"
  by (simp_all add: draws_only_def)

lemma palette_only: "draws_only st0 st \<Longrightarrow> draws_only st0 (paint_calls (paint_draw_palette st) st)"
  by (intro paint_calls_only palette_inside)

lemma paint_brush_only: "draws_only st0 st \<Longrightarrow> draws_only st0 (paint_brush st)"
  unfolding paint_brush_def by (intro paint_calls_only brush_inside)

lemma paint_key_only: "draws_only st0 st \<Longrightarrow> act_all (draws_only st0) (paint_key env key st)"
  by (simp add: paint_key_def Let_def palette_only paint_brush_only sys_reboot_only)

lemma paint_click_only: "draws_only st0 st \<Longrightarrow> draws_only st0 (paint_click st)"
  by (simp add: paint_click_def Let_def palette_only paint_brush_only split: option.split)

lemma paint_step_only: "draws_only st0 st \<Longrightarrow> act_all (draws_only st0) (paint_step env st)"
  unfolding paint_step_def by (intro act_all_bind gui_keeps save_background_only paint_key_only paint_click_only) simp_all

lemma sysinfo_step_only: "draws_only st0 st \<Longrightarrow> act_all (draws_only st0) (sysinfo_step env st)"
  unfolding sysinfo_step_def
  by (intro act_all_bind gui_keeps) (auto simp: sys_reboot_only intro: draw_pointer_only save_background_only split: prod.split)

lemma browser_refresh_only: "draws_only st0 st \<Longrightarrow> draws_only st0 (browser_refresh st)"
  by (simp add: browser_refresh_def paint_calls_only [OF _ browser_inside])

lemma browser_key_only: "draws_only st0 st \<Longrightarrow> act_all (draws_only st0) (browser_key env key st)"
  by (simp add: browser_key_def browser_up_def browser_down_def sys_reboot_only Let_def)

lemma browser_click_only: "draws_only st0 st \<Longrightarrow> act_all (draws_only st0) (browser_click env st)"
  by (simp add: browser_click_def browser_select_def sys_reboot_only wait_release_only Let_def)

lemma browser_step_only: "draws_only st0 st \<Longrightarrow> act_all (draws_only st0) (browser_step env st)"
  unfolding browser_step_def
  by (intro act_all_bind gui_keeps browser_key_only browser_click_only)
    (auto intro: browser_refresh_only draw_pointer_only save_background_only)

lemma clock_step_only: "draws_only st0 st \<Longrightarrow> act_all (draws_only st0) (clock_step env st)"
  unfolding clock_step_def
  by (intro act_all_bind gui_keeps)
    (auto simp: Let_def sys_reboot_only paint_calls_only [OF _ clock_inside] split: prod.split option.split)

text \<open>
  C21.  In the mode of 320 by 200 a round of PAINT, SYSINFOGUI, FILEBROWSER or CLOCK, whatever the
  mouse, the keyboard and the clock deliver, changes no byte outside the 64000 of the screen, and
  the mode stays selected.
\<close>
theorem tools_stay_on_screen:
  assumes "draws_only p0 pst" and "draws_only g0 gst" and "draws_only b0 bst"
  shows "act_all (draws_only p0) (paint_step env pst) \<and> act_all (draws_only g0) (sysinfo_step env gst) \<and>
    act_all (draws_only b0) (browser_step env bst) \<and> act_all (draws_only g0) (clock_step env gst)"
  using assms by (blast intro: paint_step_only sysinfo_step_only browser_step_only clock_step_only)

definition paint_at_rest :: "unit paint_state" where
  "paint_at_rest = gui.extend screen_at_rest (paint_state.fields 1 COLOR_RED)"

definition browser_at_rest :: "unit browser_state" where
  "browser_at_rest = gui.extend screen_at_rest (browser_state.fields [] 0 0 0 False)"

theorem tools_stay_on_screen_witness:
  "act_all (draws_only paint_at_rest) (paint_step idle_env paint_at_rest) \<and>
    act_all (draws_only screen_at_rest) (sysinfo_step idle_env screen_at_rest) \<and>
    act_all (draws_only browser_at_rest) (browser_step idle_env browser_at_rest) \<and>
    act_all (draws_only screen_at_rest) (clock_step idle_env screen_at_rest)"
proof (rule tools_stay_on_screen)
  show "draws_only paint_at_rest paint_at_rest" "draws_only browser_at_rest browser_at_rest"
    unfolding paint_at_rest_def browser_at_rest_def by (rule rest_only)+
  show "draws_only screen_at_rest screen_at_rest" by (intro draws_only_refl) (simp_all add: screen_at_rest_def)
qed

section \<open>The brush\<close>

lemma brush_pixels:
  "Pixel px py c \<in> set (paint_draw_brush st x y) \<longleftrightarrow> c = pt_color st \<and> \<bar>px - x\<bar> \<le> pt_brush_size st \<and> \<bar>py - y\<bar> \<le> pt_brush_size st \<and>
     0 \<le> px \<and> px < gu_width st \<and> 24 \<le> py \<and> py < gu_height st - 28" (is "?L \<longleftrightarrow> ?R")
proof
  assume ?L
  then show ?R by (auto simp: paint_draw_brush_def)
next
  assume r: ?R
  then have "py - y \<in> {- pt_brush_size st..pt_brush_size st}" "px - x \<in> {- pt_brush_size st..pt_brush_size st}" by auto
  then show ?L unfolding paint_draw_brush_def using r by (force intro: bexI [of _ "py - y"] bexI [of _ "px - x"])
qed

text \<open>
  One touch of PAINT's brush colors the square of side \<open>2 b + 1\<close> around the pointer, clipped to the
  columns of the screen and the rows between the title and the palette, and no other pixel.
\<close>
theorem paint_brush_draws:
  assumes "draws_only st0 st" and "on_vga px py"
  shows "screen_pixel (paint_brush st) px py =
    (if \<bar>px - mouse_get_x (gu_mouse st)\<bar> \<le> pt_brush_size st \<and> \<bar>py - mouse_get_y (gu_mouse st)\<bar> \<le> pt_brush_size st \<and> 24 \<le> py \<and> py < 172
     then gui_rgb_to_vga (pt_color st) else screen_pixel st px py)"
proof -
  let ?ds = "paint_draw_brush st (mouse_get_x (gu_mouse st)) (mouse_get_y (gu_mouse st))"
  have w: "gu_width st = 320" "gu_height st = 200" "gu_fallback st" using assms(1) by (simp_all add: draws_only_def)
  have "\<forall>d \<in> set ?ds. \<exists>x y. d = Pixel x y (pt_color st)" by (auto simp: paint_draw_brush_def)
  from paint_calls_pixels [OF w(3) assms(2) this] show ?thesis
    unfolding paint_brush_def brush_pixels w using assms(2) by (simp add: on_vga_def)
qed

theorem paint_brush_draws_witness:
  "screen_pixel (paint_brush (paint_at_rest\<lparr>gu_mouse := mouse_start\<lparr>ms_x := 50, ms_y := 60\<rparr>\<rparr>)) 51 59 = 4 \<and>
   screen_pixel (paint_brush (paint_at_rest\<lparr>gu_mouse := mouse_start\<lparr>ms_x := 50, ms_y := 60\<rparr>\<rparr>)) 52 60 = 0"
proof -
  let ?st = "paint_at_rest\<lparr>gu_mouse := mouse_start\<lparr>ms_x := 50, ms_y := 60\<rparr>\<rparr>"
  have d: "draws_only paint_at_rest ?st" using rest_only by (simp add: paint_at_rest_def)
  have s: "pt_brush_size ?st = 1" "pt_color ?st = COLOR_RED" "mouse_get_x (gu_mouse ?st) = 50" "mouse_get_y (gu_mouse ?st) = 60"
    "screen_pixel ?st px py = 0" for px py
    by (simp_all add: paint_at_rest_def gui.defs paint_state.defs mouse_get_x_def mouse_get_y_def screen_pixel_def screen_at_rest_def
        pixel_def blank_gfx_def)
  show ?thesis using paint_brush_draws [OF d, of 51 59] paint_brush_draws [OF d, of 52 60] unfolding s
    by (simp add: on_vga_def gui_rgb_to_vga_def gui_palette_def COLOR_RED_def)
qed

section \<open>The file list\<close>

text \<open>
  The selected entry exists, and it is among the nine from the first shown; the ninth is below
  the list.  The table is the one the program started with.
\<close>

definition browser_ok :: "fs_entry list \<times> int \<Rightarrow> 'd browser_state \<Rightarrow> bool" where
  "browser_ok tbl st \<longleftrightarrow> (br_table st, br_count st) = tbl \<and> 0 \<le> br_scroll st \<and> br_scroll st \<le> br_selected st \<and>
     br_selected st \<le> br_scroll st + visible_items \<and> (br_selected st < br_count st \<or> br_selected st = 0)"

lemma browser_ok_upd [simp]:
  "browser_ok tbl (st\<lparr>gu_vbe := v\<rparr>) = browser_ok tbl st" "browser_ok tbl (st\<lparr>gu_mouse := m\<rparr>) = browser_ok tbl st"
  "browser_ok tbl (st\<lparr>gu_saved := p\<rparr>) = browser_ok tbl st" "browser_ok tbl (st\<lparr>gu_save_bg := bg\<rparr>) = browser_ok tbl st"
  "browser_ok tbl (st\<lparr>br_redraw := b\<rparr>) = browser_ok tbl st" "browser_ok tbl (set_dev d st) = browser_ok tbl st"
  by (simp_all add: browser_ok_def set_dev_vbe)

lemma browser_ok_paint [simp]: "browser_ok tbl (paint_calls ds st) = browser_ok tbl st"
  using paint_calls_vbe [of ds st] by auto

lemma browser_ok_keeps:
  "browser_ok tbl st \<Longrightarrow> act_goes (browser_ok tbl) (poll_mouse env st)"
  "browser_ok tbl st \<Longrightarrow> act_goes (browser_ok tbl) (wait_release env st)"
  "browser_ok tbl st \<Longrightarrow> act_goes (browser_ok tbl) (draw_pointer env (save_background st))"
  "browser_ok tbl st \<Longrightarrow> browser_ok tbl (restore_background st)"
  by (simp_all add: poll_mouse_def wait_release_def draw_pointer_def flush_screen_def restore_background_def on_vbe_def save_background_def
      Let_def split: option.split)

lemma browser_up_ok: "browser_ok tbl st \<Longrightarrow> browser_ok tbl (browser_up st)"
  by (auto simp: browser_ok_def browser_up_def visible_items_def Let_def)

lemma browser_down_ok: "browser_ok tbl st \<Longrightarrow> browser_ok tbl (browser_down st)"
  by (auto simp: browser_ok_def browser_down_def visible_items_def Let_def)

lemma browser_key_ok: "browser_ok tbl st \<Longrightarrow> act_goes (browser_ok tbl) (with_key env (browser_key env) st)"
  by (simp add: with_key_def browser_key_def sys_reboot_def browser_up_ok browser_down_ok split: prod.split)

lemma browser_select_ok:
  assumes "36 \<le> y" and "y < 36 + 120" and "browser_ok tbl st"
  shows "browser_ok tbl (browser_select y st)"
proof -
  have "(y - 36) sdiv 14 = (y - 36) div 14" using assms(1) by (simp add: signed_divide_int_def sgn_if)
  then have "0 \<le> (y - 36) sdiv 14" "(y - 36) sdiv 14 \<le> 8" using assms(1,2) by simp_all
  then show ?thesis using assms(3) by (auto simp: browser_ok_def browser_select_def visible_items_def Let_def)
qed

lemma browser_click_ok: "browser_ok tbl st \<Longrightarrow> act_goes (browser_ok tbl) (browser_click env st)"
  by (simp add: browser_click_def sys_reboot_def browser_select_ok browser_ok_keeps(2) Let_def)

text \<open>
  C22.  FILEBROWSER's selection is an entry of the file table, or the first line of an empty list, and
  stays within eight lines of the first entry shown, whatever keys and clicks come; the table
  does not change.
\<close>
theorem browser_selection_valid:
  assumes "browser_ok tbl st"
  shows "act_goes (browser_ok tbl) (browser_step env st)"
proof -
  have "browser_ok tbl (browser_refresh st)" using assms by (simp add: browser_refresh_def)
  then show ?thesis
    unfolding browser_step_def
    by (intro act_goes_bind [where P = "browser_ok tbl"] browser_ok_keeps(1) browser_key_ok browser_click_ok browser_ok_keeps(4))
      (simp_all add: browser_ok_keeps(3))
qed

definition some_file :: fs_entry where
  "some_file = \<lparr>fe_name = lit ''NOTES.TXT'' @ replicate 47 0, fe_size = 0, fe_type = 0, fe_attr = 0, fe_parent_idx = 0, fe_reserved = 0\<rparr>"

theorem browser_selection_valid_witness:
  "act_goes (browser_ok ([some_file], 1)) (browser_step idle_env (browser_at_rest\<lparr>br_table := [some_file], br_count := 1\<rparr>))"
  by (rule browser_selection_valid) (simp add: browser_ok_def browser_at_rest_def gui.defs browser_state.defs visible_items_def)

section \<open>The clock\<close>

text \<open>One poll of the wait: the seconds, whether Escape came, and the machine after it.\<close>

definition clock_poll :: "'d gui_env \<Rightarrow> 'd \<Rightarrow> u8 \<times> bool \<times> 'd" where
  "clock_poll env d =
     (case sys_get_time (ge_io env) d of ((h, m, s), d1) \<Rightarrow>
        case ge_hit env d1 of (hit, d2) \<Rightarrow>
          if hit then case ge_getkey env d2 of (key, d3) \<Rightarrow> (s, is_escape key, d3) else (s, False, d2))"

definition clock_at :: "'d gui_env \<Rightarrow> nat \<Rightarrow> 'd \<Rightarrow> 'd" where
  "clock_at env n = (\<lambda>d. snd (snd (clock_poll env d))) ^^ n"

definition poll_ends :: "'d gui_env \<Rightarrow> u8 \<Rightarrow> 'd \<Rightarrow> bool" where
  "poll_ends env s d \<longleftrightarrow> fst (clock_poll env d) \<noteq> s \<or> fst (snd (clock_poll env d))"

lemma clock_wait_poll:
  "clock_wait env s s d = (case clock_poll env d of (s1, esc, d1) \<Rightarrow> if esc then Some (True, d1) else clock_wait env s s1 d1)"
  by (subst clock_wait.simps) (simp add: clock_poll_def split: prod.split)

lemma clock_wait_first:
  "\<forall>k < n. \<not> poll_ends env s (clock_at env k d) \<Longrightarrow> poll_ends env s (clock_at env n d) \<Longrightarrow>
     clock_wait env s s d = Some (snd (clock_poll env (clock_at env n d)))"
proof (induction n arbitrary: d)
  case 0
  obtain s1 esc d1 where c: "clock_poll env d = (s1, esc, d1)" by (cases "clock_poll env d") auto
  have "s \<noteq> s1 \<or> esc" using 0 c by (auto simp: clock_at_def poll_ends_def)
  then show ?case
    unfolding clock_wait_poll [of env s d] using c by (auto simp: clock_at_def clock_wait.simps [of env s s1])
next
  case (Suc n)
  obtain d1 where d1: "clock_poll env d = (s, False, d1)"
    using Suc.prems(1) [rule_format, of 0] by (cases "clock_poll env d") (auto simp: clock_at_def poll_ends_def)
  have at: "clock_at env (Suc k) d = clock_at env k d1" for k
    using d1 by (simp add: clock_at_def funpow_Suc_right del: funpow.simps)
  have "\<forall>k < n. \<not> poll_ends env s (clock_at env k d1)" using Suc.prems(1) at by (metis Suc_less_eq)
  then have "clock_wait env s s d1 = Some (snd (clock_poll env (clock_at env n d1)))" using Suc.IH Suc.prems(2) at by simp
  then show ?case by (simp add: clock_wait_poll [of env s d] d1 at)
qed

lemma clock_wait_ends:
  assumes "\<exists>n. poll_ends env s (clock_at env n d)"
  shows "\<exists>n. (\<forall>k < n. \<not> poll_ends env s (clock_at env k d)) \<and> poll_ends env s (clock_at env n d) \<and>
    clock_wait env s s d = Some (snd (clock_poll env (clock_at env n d)))"
  using exists_least_iff [of "\<lambda>n. poll_ends env s (clock_at env n d)"] assms clock_wait_first by metis

text \<open>A step that neither traps nor hangs.\<close>

fun act_ends :: "'s act \<Rightarrow> bool" where
  "act_ends (Goes s) = True"
| "act_ends (Reboots s) = True"
| "act_ends Traps = False"
| "act_ends Hangs = False"

lemma act_ends_bind: "act_ends m \<Longrightarrow> (\<And>s. act_ends (f s)) \<Longrightarrow> act_ends (act_bind m f)"
  by (cases m) auto

lemma act_ends_iff: "act_ends m \<longleftrightarrow> (\<exists>s. m = Goes s \<or> m = Reboots s)"
  by (cases m) auto

lemma sys_reboot_ends [simp]: "act_ends (sys_reboot env st)"
  by (simp add: sys_reboot_def)

lemma with_key_ends: "(\<And>key st. act_ends (f key st)) \<Longrightarrow> act_ends (with_key env f st)"
  by (simp add: with_key_def split: prod.split)

text \<open>
  C20.  On a machine whose clock advances, so that every wait sees other seconds or Escape after some
  number of polls, a round of CLOCK ends: the wait stops at the first such poll, and the round
  reboots the machine if that poll read Escape and goes on to draw the next second otherwise.
\<close>
theorem clock_round_ends:
  assumes "\<And>s d. \<exists>n. poll_ends env s (clock_at env n d)"
  shows "(\<exists>st1. clock_step env st = Goes st1 \<or> clock_step env st = Reboots st1) \<and>
    (\<forall>s d. \<exists>n. (\<forall>k < n. \<not> poll_ends env s (clock_at env k d)) \<and> poll_ends env s (clock_at env n d) \<and>
       clock_wait env s s d = Some (snd (clock_poll env (clock_at env n d))))"
proof
  have w: "clock_wait env s s d \<noteq> None" for s d using clock_wait_ends [OF assms] by fastforce
  have "act_ends (clock_step env st)"
    unfolding clock_step_def by (intro act_ends_bind with_key_ends) (auto simp: Let_def w split: prod.split option.split)
  then show "\<exists>st1. clock_step env st = Goes st1 \<or> clock_step env st = Reboots st1" by (simp add: act_ends_iff)
  show "\<forall>s d. \<exists>n. (\<forall>k < n. \<not> poll_ends env s (clock_at env k d)) \<and> poll_ends env s (clock_at env n d) \<and>
       clock_wait env s s d = Some (snd (clock_poll env (clock_at env n d)))"
    using clock_wait_ends [OF assms] by blast
qed

text \<open>A clock whose seconds register changes at every reading.\<close>

definition ticking_env :: "bool gui_env" where
  "ticking_env = \<lparr>ge_io = \<lparr>inb = (\<lambda>p d. (if d then 1 else 0, \<not> d)), outb = (\<lambda>p v d. d), insw = (\<lambda>p n d. ([], d)), outsw = (\<lambda>p ws d. d)\<rparr>,
     ge_kmalloc = (\<lambda>_. 0), ge_mouse = (\<lambda>d. (None, d)), ge_hit = (\<lambda>d. (False, d)), ge_getkey = (\<lambda>d. (0, d))\<rparr>"

lemma ticking_poll: "clock_poll ticking_env d = (if d then 1 else 0, False, \<not> d)"
  by (cases d) (simp_all add: clock_poll_def ticking_env_def sys_get_time_def get_cmos_reg_def bcd2bin_def)

theorem clock_round_ends_witness:
  "\<exists>st1. clock_step ticking_env (start_screen ticking_env undefined) = Goes st1 \<or>
     clock_step ticking_env (start_screen ticking_env undefined) = Reboots st1"
proof -
  have "poll_ends ticking_env s (clock_at ticking_env 0 d) \<or> poll_ends ticking_env s (clock_at ticking_env 1 d)" for s d
    by (cases d) (auto simp: poll_ends_def clock_at_def ticking_poll)
  then have "\<exists>n. poll_ends ticking_env s (clock_at ticking_env n d)" for s d by blast
  from clock_round_ends [OF this] show ?thesis by blast
qed

end
