(* ===== verification/Gui_Calc.thy ===== *)
theory Gui_Calc
  imports Gui_Tools Cmd_Net
begin

text \<open>
  The two calculators: \<^verbatim>\<open>gui_calc\<close> of \<^verbatim>\<open>src/src/gui_apps.c\<close>, used with the mouse, and
  \<^verbatim>\<open>cmd_calc_gui\<close> of \<^verbatim>\<open>src/src/commands.c\<close>, the command CALC-GUI.  Both compute on 32-bit integers
  that wrap around, and both implement the pocket calculator at the end of this theory.
\<close>

text \<open>Signed division as the processor does it: it traps on 0 and on the one quotient that does not fit.\<close>

definition idiv :: "u32 \<Rightarrow> u32 \<Rightarrow> u32 option" where
  "idiv a b = (if b = 0 \<or> a = 0x80000000 \<and> b = - 1 then None else Some (word_of_int (sint a sdiv sint b)))"

section \<open>The calculator of the desktop\<close>

record 'd calc_state = "'d gui" +
  ca_display :: "u8 list"
  ca_current :: u32
  ca_stored :: u32
  ca_op :: u8
  ca_new :: bool
  ca_redraw :: bool

definition calc_buttons :: "u8 list" where
  "calc_buttons = lit ''C/*-789+456=1230''"

text \<open>The number on the display.\<close>

definition calc_value :: "u8 list \<Rightarrow> u32" where
  "calc_value s =
     (let neg = (s \<noteq> [] \<and> hd s = 45);
          val = fold (\<lambda>c val. val * 10 + (scast c - 48)) (if neg then tl s else s) 0
      in if neg then - val else val)"

function calc_digits :: "int \<Rightarrow> u8 list" where
  "calc_digits temp = (if temp > 0 then (48 + of_int (temp mod 10)) # calc_digits (temp div 10) else [])"
  by pat_completeness auto
termination by (relation "measure nat") auto

declare calc_digits.simps [simp del]

definition calc_text :: "u32 \<Rightarrow> u8 list" where
  "calc_text res =
     (if res = 0 then [48]
      else
        let temp = (if sint res < 0 then - res else res)
        in (if sint res < 0 then [45] else []) @ rev (calc_digits (sint temp)))"

definition calc_result :: "u8 \<Rightarrow> u32 \<Rightarrow> u32 \<Rightarrow> u32 option" where
  "calc_result op sv cv =
     (if op = 43 then Some (sv + cv)
      else if op = 45 then Some (sv - cv)
      else if op = 42 then Some (sv * cv)
      else if op = 47 then (if cv \<noteq> 0 then idiv sv cv else Some 0)
      else Some cv)"

text \<open>A button: a digit, \<^verbatim>\<open>C\<close>, \<^verbatim>\<open>=\<close> or an operator.\<close>

definition calc_press :: "u8 \<Rightarrow> 'd calc_state \<Rightarrow> 'd calc_state option" where
  "calc_press c st =
     (if 48 \<le> c \<and> c \<le> 57 then
        Some (if ca_new st then st\<lparr>ca_display := [c], ca_new := False\<rparr>
              else if length (ca_display st) < 10 then st\<lparr>ca_display := ca_display st @ [c]\<rparr>
              else st)
      else if c = 67 then Some (st\<lparr>ca_display := [48], ca_current := 0, ca_stored := 0, ca_op := 0, ca_new := True\<rparr>)
      else if c = 61 then
        (let st1 = st\<lparr>ca_current := calc_value (ca_display st)\<rparr>
         in map_option (\<lambda>res. st1\<lparr>ca_display := calc_text res, ca_op := 0, ca_new := True\<rparr>)
              (calc_result (ca_op st1) (ca_stored st1) (ca_current st1)))
      else Some (st\<lparr>ca_stored := calc_value (ca_display st), ca_op := c, ca_new := True\<rparr>))"

definition calc_frame :: "('d, 'm) gui_scheme \<Rightarrow> int \<times> int" where
  "calc_frame st = ((gu_width st - 200) sdiv 2, (gu_height st - 180) sdiv 2)"

definition calc_corner :: "('d, 'm) gui_scheme \<Rightarrow> nat \<Rightarrow> int \<times> int" where
  "calc_corner st i =
     (case calc_frame st of (win_x, win_y) \<Rightarrow> (win_x + 10 + int (i mod 4) * 45, win_y + 64 + int (i div 4) * 28))"

definition calc_button_face :: "'d calc_state \<Rightarrow> nat \<Rightarrow> draw list" where
  "calc_button_face st i =
     (case calc_corner st i of (bx, by') \<Rightarrow>
        [Rect bx by' 40 24 COLOR_GRAY, Rect bx by' 40 2 COLOR_WHITE, Rect bx by' 2 24 COLOR_WHITE, Rect (bx + 40 - 2) by' 2 24 0,
         Rect bx (by' + 24 - 2) 40 2 0,
         Text (bx + (40 - 8) sdiv 2) (by' + (24 - 8) sdiv 2) [calc_buttons ! i] COLOR_BLACK COLOR_GRAY])"

definition calc_picture :: "'d calc_state \<Rightarrow> draw list" where
  "calc_picture st =
     (case calc_frame st of (win_x, win_y) \<Rightarrow>
        let text_len = int (length (ca_display st)); text_x = win_x + 200 - 20 - text_len * 8
        in [Clear COLOR_BLUE] @ gui_draw_window win_x win_y 200 180 (lit ''CALCULATOR'') @
           [Rect (win_x + 10) (win_y + 30) (200 - 20) 24 COLOR_WHITE,
            Text (if text_x < win_x + 14 then win_x + 14 else text_x) (win_y + 36) (ca_display st) COLOR_BLACK COLOR_WHITE] @
           concat (map (calc_button_face st) [0..<16]) @
           [Text (win_x + 10) (win_y + 180 - 12) (lit ''ESC to Reboot'') COLOR_GRAY COLOR_WHITE])"

definition calc_refresh :: "'d calc_state \<Rightarrow> 'd calc_state" where
  "calc_refresh st =
     (if ca_redraw st then (paint_calls (calc_picture st) st)\<lparr>ca_redraw := False, gu_saved := (- 1, snd (gu_saved st))\<rparr> else st)"

text \<open>The button under the pointer.\<close>

definition calc_pressed :: "'d calc_state \<Rightarrow> nat option" where
  "calc_pressed st =
     (let x = mouse_get_x (gu_mouse st); y = mouse_get_y (gu_mouse st)
      in find (\<lambda>i. case calc_corner st i of (bx, by') \<Rightarrow> x \<ge> bx \<and> x < bx + 40 \<and> y \<ge> by' \<and> y < by' + 24) [0..<16])"

definition calc_click :: "'d gui_env \<Rightarrow> 'd calc_state \<Rightarrow> 'd calc_state act" where
  "calc_click env st =
     (if \<not> mouse_get_left (gu_mouse st) then Goes st
      else if (case calc_frame st of (win_x, win_y) \<Rightarrow> on_close_button st win_x win_y 200) then sys_reboot env st
      else case calc_pressed st of
             None \<Rightarrow> wait_release env st
           | Some i \<Rightarrow> (case calc_press (calc_buttons ! i) st of
                           None \<Rightarrow> Traps
                         | Some st1 \<Rightarrow> wait_release env (st1\<lparr>ca_redraw := True\<rparr>)))"

definition calc_step :: "'d gui_env \<Rightarrow> 'd calc_state \<Rightarrow> 'd calc_state act" where
  "calc_step env st =
     act_bind (poll_mouse env (restore_background (calc_refresh st))) (\<lambda>st1.
     act_bind (calc_click env st1) (\<lambda>st2.
       if ca_redraw st2 then Goes st2
       else act_bind (with_key env (\<lambda>key s. if is_escape key then sys_reboot env s else Goes s) st2) (\<lambda>st3.
              draw_pointer env (save_background st3))))"

definition gui_calc :: "'d gui_env \<Rightarrow> u8 list \<Rightarrow> 'd calc_state \<Rightarrow> 'd calc_state act" where
  "gui_calc env args st =
     act_bind (start_mouse env (start_screen env st)) (\<lambda>st1.
       Goes (st1\<lparr>ca_display := [48], ca_current := 0, ca_stored := 0, ca_op := 0, ca_new := True, ca_redraw := True,
                 gu_saved := (- 1, - 1)\<rparr>))"

section \<open>The command CALC-GUI\<close>

record 'd calc_gui = "'d gui" +
  cg_display :: "u8 list"
  cg_current :: u32
  cg_stored :: u32
  cg_op :: u8
  cg_new :: bool
  cg_down :: bool
  cg_row :: int
  cg_col :: int
  cg_done :: bool

definition cg_buttons :: "u8 list" where
  "cg_buttons = lit ''789/456*123-0.=+C''"

text \<open>The digits of the display; other characters are skipped.\<close>

definition cg_value :: "u8 list \<Rightarrow> u32" where
  "cg_value s = fold (\<lambda>c v. if 48 \<le> c \<and> c \<le> 57 then v * 10 + (scast c - 48) else v) s 0"

definition cg_result :: "u8 \<Rightarrow> u32 \<Rightarrow> u32 \<Rightarrow> u32 option" where
  "cg_result op sv cv =
     (if op = 43 then Some (sv + cv)
      else if op = 45 then Some (sv - cv)
      else if op = 42 then Some (sv * cv)
      else if op = 47 then (if cv \<noteq> 0 then idiv sv cv else Some cv)
      else Some cv)"

text \<open>\<^verbatim>\<open>PROCESS_BUTTON\<close>.\<close>

definition process_button :: "u8 \<Rightarrow> 'd calc_gui \<Rightarrow> 'd calc_gui option" where
  "process_button bc st =
     (let display_len = length (cg_display st)
      in if bc = 67 then Some (st\<lparr>cg_display := [48], cg_stored := 0, cg_current := 0, cg_op := 0, cg_new := True\<rparr>)
         else if 48 \<le> bc \<and> bc \<le> 57 then
           Some (if cg_new st \<or> display_len = 1 \<and> cg_display st ! 0 = 48 then st\<lparr>cg_display := [bc], cg_new := False\<rparr>
                 else if display_len < 10 then st\<lparr>cg_display := cg_display st @ [bc]\<rparr>
                 else st)
         else if bc = 46 then
           Some (if 46 \<notin> set (cg_display st) \<and> display_len < 10 then st\<lparr>cg_display := cg_display st @ [46]\<rparr> else st)
         else if bc = 61 then
           map_option (\<lambda>res. st\<lparr>cg_current := res, cg_display := int_to_str res, cg_op := 0, cg_new := True\<rparr>)
             (cg_result (cg_op st) (cg_stored st) (cg_value (cg_display st)))
         else if bc = 43 \<or> bc = 45 \<or> bc = 42 \<or> bc = 47 then
           Some (st\<lparr>cg_current := cg_value (cg_display st), cg_stored := cg_value (cg_display st), cg_op := bc, cg_new := True\<rparr>)
         else Some st)"

definition press_to :: "u8 \<Rightarrow> 'd calc_gui \<Rightarrow> 'd calc_gui act" where
  "press_to bc st = (case process_button bc st of None \<Rightarrow> Traps | Some st1 \<Rightarrow> Goes st1)"

text \<open>The layout: screen, then width, height, gap and origin of the buttons.\<close>

record calc_layout =
  cl_scr_w :: int
  cl_scr_h :: int
  cl_btn_w :: int
  cl_btn_h :: int
  cl_btn_gap :: int
  cl_btn_x :: int
  cl_btn_y :: int

definition calc_layout_of :: "'d vbe \<Rightarrow> calc_layout" where
  "calc_layout_of v =
     (let scr_w = (if gpu_get_width v = 0 then 320 else gpu_get_width v); scr_h = (if gpu_get_height v = 0 then 200 else gpu_get_height v);
          (btn_w, btn_h, btn_gap, btn_y) = (if scr_w \<ge> 800 then (70, 60, 10, 150) else (35, 22, 4, 45))
      in \<lparr>cl_scr_w = scr_w, cl_scr_h = scr_h, cl_btn_w = btn_w, cl_btn_h = btn_h, cl_btn_gap = btn_gap,
           cl_btn_x = (scr_w - (btn_w * 4 + btn_gap * 3)) sdiv 2, cl_btn_y = btn_y\<rparr>)"

text \<open>A call of the graphics driver itself, without the choice of \<^verbatim>\<open>gui_apps.c\<close>.\<close>

fun gpu_call :: "draw \<Rightarrow> 'd vbe \<Rightarrow> 'd vbe" where
  "gpu_call (Pixel x y c) = gpu_draw_pixel x y c"
| "gpu_call (Clear c) = gpu_clear c"
| "gpu_call (Rect x y w h c) = gpu_fill_rect x y w h c"
| "gpu_call (Glyph x y ch fg bg) = gpu_draw_char x y ch fg bg"
| "gpu_call (Text x y s fg bg) = gpu_draw_string x y s fg bg"

definition gpu_calls :: "draw list \<Rightarrow> ('d, 'm) gui_scheme \<Rightarrow> ('d, 'm) gui_scheme" where
  "gpu_calls ds = on_vbe (fold gpu_call ds)"

definition cg_corner :: "calc_layout \<Rightarrow> nat \<Rightarrow> int \<times> int" where
  "cg_corner L i = (cl_btn_x L + int (i mod 4) * (cl_btn_w L + cl_btn_gap L), cl_btn_y L + int (i div 4) * (cl_btn_h L + cl_btn_gap L))"

definition cg_shown :: "calc_layout \<Rightarrow> nat list" where
  "cg_shown L = filter (\<lambda>i. \<not> snd (cg_corner L i) + cl_btn_h L > cl_scr_h L - 8) [0..<17]"

definition cg_hover :: "calc_layout \<Rightarrow> int \<Rightarrow> int \<Rightarrow> nat \<Rightarrow> bool" where
  "cg_hover L mx my i =
     (case cg_corner L i of (x, y) \<Rightarrow> mx \<ge> x \<and> mx < x + cl_btn_w L \<and> my \<ge> y \<and> my < y + cl_btn_h L)"

definition cg_button_face :: "calc_layout \<Rightarrow> int \<Rightarrow> int \<Rightarrow> 'd calc_gui \<Rightarrow> nat \<Rightarrow> draw list" where
  "cg_button_face L mx my st i =
     (case cg_corner L i of (x, y) \<Rightarrow>
        let is_selected = (int (i div 4) = cg_row st \<and> int (i mod 4) = cg_col st); bc = cg_buttons ! i;
            color = (if cg_hover L mx my i \<or> is_selected then 0x00888888 else if bc \<in> {47, 42, 45, 43, 61} then 0x000000AA else 0x00555555)
        in [Rect x y (cl_btn_w L) (cl_btn_h L) color,
            Glyph (x + (cl_btn_w L - 8) sdiv 2) (y + (cl_btn_h L - 8) sdiv 2) bc 0x00FFFFFF color])"

text \<open>The picture up to the pointer, and the line below it.\<close>

definition cg_picture :: "calc_layout \<Rightarrow> int \<Rightarrow> int \<Rightarrow> 'd calc_gui \<Rightarrow> draw list" where
  "cg_picture L mx my st =
     (let display_w = cl_btn_w L * 4 + cl_btn_gap L * 3; display_h = 16
      in [Clear 0x00AAAAAA, Text ((cl_scr_w L - 10 * 8) sdiv 2) 4 (lit ''CALCULATOR'') 0x00FFFFFF 0x00AAAAAA,
          Rect (cl_btn_x L) (cl_btn_y L - display_h - 6) display_w display_h 0x00000000,
          Text (cl_btn_x L + 4) (cl_btn_y L - display_h - 2) (cg_display st) 0x00FFFFFF 0x00000000] @
         concat (map (cg_button_face L mx my st) (cg_shown L)))"

definition cg_hint :: "calc_layout \<Rightarrow> draw list" where
  "cg_hint L = (if cl_scr_h L \<ge> 200 then [Text (cl_btn_x L) (cl_scr_h L - 10) (lit ''Click or type keys'') 0x00FFFFFF 0x00AAAAAA] else [])"

text \<open>The button of a new click: the last one under the pointer.\<close>

definition cg_clicked :: "calc_layout \<Rightarrow> int \<Rightarrow> int \<Rightarrow> bool \<Rightarrow> bool \<Rightarrow> nat option" where
  "cg_clicked L mx my mouse_down mouse_was_down =
     find (\<lambda>i. cg_hover L mx my i \<and> mouse_down \<and> \<not> mouse_was_down) (rev (cg_shown L))"

definition cg_arrow :: "u8 \<Rightarrow> 'd calc_gui \<Rightarrow> 'd calc_gui" where
  "cg_arrow scan st =
     (if scan = 0x48 \<and> cg_row st > 0 then st\<lparr>cg_row := cg_row st - 1\<rparr>
      else if scan = 0x50 \<and> cg_row st < 4 then st\<lparr>cg_row := cg_row st + 1\<rparr>
      else if scan = 0x4B \<and> cg_col st > 0 then st\<lparr>cg_col := cg_col st - 1\<rparr>
      else if scan = 0x4D \<and> cg_col st < 3 then st\<lparr>cg_col := cg_col st + 1\<rparr>
      else st)"

definition cg_typed :: "u8 \<Rightarrow> 'd calc_gui \<Rightarrow> 'd calc_gui act" where
  "cg_typed ch st =
     (if 48 \<le> ch \<and> ch \<le> 57 then press_to ch st
      else if ch = 43 \<or> ch = 45 \<or> ch = 42 \<or> ch = 47 then press_to ch st
      else if ch = 61 \<or> ch = 13 \<or> ch = 10 then
        (if ch = 13 \<or> ch = 10
         then let idx' = cg_row st * 4 + cg_col st
              in if idx' \<ge> 0 \<and> idx' < 17 then press_to (cg_buttons ! nat idx') st else Goes st
         else press_to 61 st)
      else if ch = 99 \<or> ch = 67 then press_to 67 st
      else if ch = 46 then press_to 46 st
      else Goes st)"

definition cg_key :: "u16 \<Rightarrow> 'd calc_gui \<Rightarrow> 'd calc_gui act" where
  "cg_key key st =
     (if key_ascii key = 27 then Goes (st\<lparr>cg_done := True\<rparr>)
      else act_bind (cg_typed (key_ascii key) st) (\<lambda>st1. Goes (cg_arrow (key_scan key) st1)))"

text \<open>One round, and what comes before and after the loop.\<close>

definition cg_step :: "'d gui_env \<Rightarrow> calc_layout \<Rightarrow> 'd calc_gui \<Rightarrow> 'd calc_gui act" where
  "cg_step env L st =
     act_bind (poll_mouse env st) (\<lambda>st1.
       let mx = mouse_get_x (gu_mouse st1); my = mouse_get_y (gu_mouse st1); mouse_down = mouse_get_left (gu_mouse st1);
           st2 = gpu_calls (cg_picture L mx my st1) st1;
           st3 = paint_calls (gui_draw_cursor (gu_width st2) (gu_height st2) mx my) st2
       in act_bind (flush_screen env (gpu_calls (cg_hint L) st3)) (\<lambda>st4.
          act_bind (case cg_clicked L mx my mouse_down (cg_down st1) of None \<Rightarrow> Goes st4 | Some i \<Rightarrow> press_to (cg_buttons ! i) st4) (\<lambda>st5.
            with_key env cg_key (st5\<lparr>cg_down := mouse_down\<rparr>))))"

definition cg_start :: "'d gui_env \<Rightarrow> 'd calc_gui \<Rightarrow> (int \<times> 'd calc_gui + calc_layout \<times> 'd calc_gui) option" where
  "cg_start env st =
     (case gpu_setup_framebuffer (ge_io env) (ge_kmalloc env) (gu_vbe st) of (fb, v) \<Rightarrow>
        if fb = 0 then Some (Inl (- 1, st\<lparr>gu_vbe := vbe_log [Puts (lit ''Could not setup framebuffer\<newline>'')] v\<rparr>))
        else case mouse_init (ge_io env) (ge_mouse env) (gpu_get_width v) (gpu_get_height v) (gu_mouse st) (g_dev (vb_gfx v)) of
          None \<Rightarrow> None
        | Some (r, m, d) \<Rightarrow>
            let st1 = set_dev d (st\<lparr>gu_vbe := v, gu_mouse := m\<rparr>)
            in Some (Inr (calc_layout_of v, st1\<lparr>cg_display := [48], cg_current := 0, cg_stored := 0, cg_op := 0, cg_new := True,
                  cg_down := False, cg_row := 0, cg_col := 0, cg_done := False\<rparr>)))"

definition cg_end :: "'d port_io \<Rightarrow> 'd pci_io \<Rightarrow> 'd calc_gui \<Rightarrow> int \<times> 'd calc_gui" where
  "cg_end io pio st =
     (0, on_vbe (\<lambda>v. vbe_log [Cls, Puts (lit ''Calculator closed.\<newline>'')] (on_gfx (\<lambda>g. snd (gpu_disable_scanout io pio g)) v)) st)"

section \<open>A pocket calculator\<close>

text \<open>
  Integers that wrap at 32 bits: the number shown, the number stored, the operator that waits,
  how many digits of a new number were entered, and whether digits or a result are in view.  It stops
  where the two programs differ: at an eleventh digit, at a quotient that does not fit and at the
  result \<open>- 2 ^ 31\<close>.
\<close>

datatype shown = Typed "u8 list" | Number u32

record pocket =
  pk_shown :: u32
  pk_stored :: u32
  pk_op :: u8
  pk_len :: nat
  pk_view :: shown

definition pocket_start :: pocket where
  "pocket_start = \<lparr>pk_shown = 0, pk_stored = 0, pk_op = 0, pk_len = 0, pk_view = Typed [48]\<rparr>"

text \<open>
  The texts of the two displays.  The desktop shows the digits as they were typed and a result in
  signed decimal; CALC-GUI leaves out the zeros that lead, and shows a result as an unsigned number.
\<close>

fun desk_display :: "shown \<Rightarrow> u8 list" where
  "desk_display (Typed ds) = ds"
| "desk_display (Number r) = show_int (sint r)"

fun cmd_display :: "shown \<Rightarrow> u8 list" where
  "cmd_display (Typed ds) = dropWhile (\<lambda>c. c = 48) (butlast ds) @ [last ds]"
| "cmd_display (Number r) = show_nat 10 (unat r)"

definition type_digit :: "u8 \<Rightarrow> nat \<Rightarrow> shown \<Rightarrow> shown" where
  "type_digit c n view = (case view of Typed ds \<Rightarrow> if n = 0 then Typed [c] else Typed (ds @ [c]) | Number r \<Rightarrow> Typed [c])"

definition pocket_result :: "u8 \<Rightarrow> u32 \<Rightarrow> u32 \<Rightarrow> u32 option" where
  "pocket_result op a b =
     (if op = 43 then Some (word_of_int (sint a + sint b))
      else if op = 45 then Some (word_of_int (sint a - sint b))
      else if op = 42 then Some (word_of_int (sint a * sint b))
      else if op = 47 then
        (if b = 0 then Some 0 else if sint a sdiv sint b = 2 ^ 31 then None else Some (word_of_int (sint a sdiv sint b)))
      else Some b)"

definition pocket_press :: "u8 \<Rightarrow> pocket \<Rightarrow> pocket option" where
  "pocket_press c p =
     (if 48 \<le> c \<and> c \<le> 57 then
        (if pk_len p < 10
         then Some (p\<lparr>pk_shown := (if pk_len p = 0 then 0 else pk_shown p * 10) + ucast (c - 48), pk_len := pk_len p + 1,
                pk_view := type_digit c (pk_len p) (pk_view p)\<rparr>)
         else None)
      else if c = 67 then Some pocket_start
      else if c = 61 then
        Option.bind (pocket_result (pk_op p) (pk_stored p) (pk_shown p)) (\<lambda>r.
          if r = 0x80000000 then None else Some (p\<lparr>pk_shown := r, pk_op := 0, pk_len := 0, pk_view := Number r\<rparr>))
      else if c \<in> {43, 45, 42, 47} then Some (p\<lparr>pk_stored := pk_shown p, pk_op := c, pk_len := 0\<rparr>)
      else None)"

fun press_all :: "(u8 \<Rightarrow> 's \<Rightarrow> 's option) \<Rightarrow> u8 list \<Rightarrow> 's \<Rightarrow> 's option" where
  "press_all f [] s = Some s"
| "press_all f (c # cs) s = Option.bind (f c s) (press_all f cs)"

text \<open>What a program's buttons promise: every press the pocket calculator takes, they take alike.\<close>

locale calculator =
  fixes press :: "u8 \<Rightarrow> 's \<Rightarrow> 's option"
    and rel :: "pocket \<Rightarrow> 's \<Rightarrow> bool"
  assumes press_rel: "rel p s \<Longrightarrow> pocket_press c p = Some p1 \<Longrightarrow> \<exists>s1. press c s = Some s1 \<and> rel p1 s1"
begin

lemma run_rel: "rel p s \<Longrightarrow> press_all pocket_press cs p = Some p1 \<Longrightarrow> \<exists>s1. press_all press cs s = Some s1 \<and> rel p1 s1"
proof (induction cs arbitrary: p s)
  case (Cons c cs)
  obtain p2 where p2: "pocket_press c p = Some p2" "press_all pocket_press cs p2 = Some p1"
    using Cons.prems(2) by (auto simp: bind_eq_Some_conv)
  obtain s2 where s2: "press c s = Some s2" "rel p2 s2" using press_rel [OF Cons.prems(1) p2(1)] by blast
  obtain s1 where "press_all press cs s2 = Some s1" "rel p1 s1" using Cons.IH [OF s2(2) p2(2)] by blast
  then show ?case using s2 by simp
qed simp

end

section \<open>Numbers on the display\<close>

lemma idiv_fits: "b \<noteq> 0 \<Longrightarrow> sint a sdiv sint b \<noteq> 2 ^ 31 \<Longrightarrow> idiv a b = Some (word_of_int (sint a sdiv sint b))"
  by (auto simp: idiv_def signed_divide_int_def)

lemma calc_result_pocket: "pocket_result op a b = Some r \<Longrightarrow> calc_result op a b = Some r"
  by (auto simp: pocket_result_def calc_result_def idiv_fits split: if_splits)

lemma cg_result_pocket: "pocket_result op a b = Some r \<Longrightarrow> cg_result op a b = Some r"
  by (auto simp: pocket_result_def cg_result_def idiv_fits split: if_splits)

definition is_digit :: "u8 \<Rightarrow> bool" where
  "is_digit c \<longleftrightarrow> 48 \<le> c \<and> c \<le> 57"

lemma digit_scast:
  assumes "is_digit c"
  shows "(scast c - 48 :: u32) = ucast (c - 48)"
proof -
  have u: "48 \<le> uint c" "uint c \<le> 57" using assms by (simp_all add: is_digit_def word_le_def)
  then have s: "sint c = uint c" by (simp add: sint_uint signed_take_bit_int_eq_self)
  have "uint (c - 48) = uint c - 48" using u by (simp add: uint_sub_if')
  then have "(ucast (c - 48) :: u32) = word_of_int (uint c - 48)" by (metis of_int_uint)
  moreover have "(scast c :: u32) = word_of_int (uint c)" using s by (metis of_int_sint)
  ultimately show ?thesis by simp
qed

lemma digit_of_int:
  assumes "0 \<le> d" and "d < 10"
  shows "is_digit (48 + of_int d)" and "(scast (48 + of_int d :: u8) - 48 :: u32) = of_int d" and "48 + of_int d \<noteq> (45 :: u8)"
proof -
  have "d \<in> {0..9}" using assms by simp
  then have "d \<in> {0, 1, 2, 3, 4, 5, 6, 7, 8, 9}" by (simp add: atLeastAtMost_iff) presburger
  then show "is_digit (48 + of_int d)" "(scast (48 + of_int d :: u8) - 48 :: u32) = of_int d" "48 + of_int d \<noteq> (45 :: u8)"
    by (auto simp: is_digit_def)
qed

abbreviation dec_fold :: "u8 list \<Rightarrow> u32 \<Rightarrow> u32" where
  "dec_fold \<equiv> fold (\<lambda>c val. val * 10 + (scast c - 48))"

lemma dec_fold_digits: "0 \<le> n \<Longrightarrow> dec_fold (rev (calc_digits n)) 0 = of_int n"
proof (induction n rule: calc_digits.induct)
  case (1 n)
  show ?case
  proof (cases "n > 0")
    case True
    have "(of_int (n div 10) * 10 + of_int (n mod 10) :: u32) = of_int (n div 10 * 10 + n mod 10)" by (simp only: of_int_add of_int_mult of_int_numeral)
    then show ?thesis using 1 True digit_of_int(2) [of "n mod 10"] by (subst calc_digits.simps) simp
  next
    case False
    then show ?thesis using 1 by (simp add: calc_digits.simps)
  qed
qed

lemma calc_digits_facts: "c \<in> set (calc_digits n) \<Longrightarrow> is_digit c" "n > 0 \<Longrightarrow> calc_digits n \<noteq> []"
  "n < 10 ^ k \<Longrightarrow> length (calc_digits n) \<le> k"
proof -
  show "c \<in> set (calc_digits n) \<Longrightarrow> is_digit c"
    by (induction n rule: calc_digits.induct) (subst (asm) (2) calc_digits.simps, auto simp: digit_of_int split: if_splits)
  show "n > 0 \<Longrightarrow> calc_digits n \<noteq> []" by (simp add: calc_digits.simps)
  show "n < 10 ^ k \<Longrightarrow> length (calc_digits n) \<le> k"
  proof (induction k arbitrary: n)
    case (Suc k)
    then have "n div 10 < 10 ^ k" by simp
    then show ?case using Suc.IH [of "n div 10"] by (subst calc_digits.simps) simp
  qed (simp add: calc_digits.simps)
qed

lemma calc_value_text: "res \<noteq> 0x80000000 \<Longrightarrow> calc_value (calc_text res) = res"
proof -
  assume r: "res \<noteq> 0x80000000"
  have val: "calc_value (rev (calc_digits n)) = of_int n" "calc_value (45 # rev (calc_digits n)) = - of_int n" if "n > 0" for n
  proof -
    have "hd (rev (calc_digits n)) \<in> set (calc_digits n)" using calc_digits_facts(2) [OF that] hd_in_set [of "rev (calc_digits n)"] by simp
    then have "hd (rev (calc_digits n)) \<noteq> 45" using calc_digits_facts(1) [of _ n] by (fastforce simp: is_digit_def)
    then show "calc_value (rev (calc_digits n)) = of_int n" "calc_value (45 # rev (calc_digits n)) = - of_int n"
      using dec_fold_digits [of n] that by (simp_all add: calc_value_def)
  qed
  show ?thesis
  proof (cases "sint res < 0")
    case True
    have "sint (- res) = - sint res" using r by (rule u32_neg_sint)
    then show ?thesis using True val(2) [of "- sint res"] by (auto simp: calc_text_def)
  next
    case False
    moreover have "res \<noteq> 0 \<Longrightarrow> sint res \<noteq> 0" by (simp add: signed_eq_0_iff)
    ultimately show ?thesis using val(1) [of "sint res"] by (cases "res = 0") (auto simp: calc_text_def calc_value_def)
  qed
qed

lemma cg_value_int_to_str: "cg_value (int_to_str n) = n"
proof -
  obtain ds where ds: "int_to_str n = map digit_byte ds" "\<forall>d \<in> set ds. d < 10" "undigits 10 ds = unat n"
    by (rule int_to_str_digits)
  have "fold (\<lambda>c v. if 48 \<le> c \<and> c \<le> 57 then v * 10 + (scast c - 48) else v) (map digit_byte ds) acc =
      foldl (\<lambda>acc d. acc * of_nat 10 + of_nat d) acc ds" if "\<forall>d \<in> set ds. d < 10" for acc :: u32 and ds
    using that
  proof (induction ds arbitrary: acc)
    case (Cons d ds)
    have e: "digit_byte d = 48 + of_int (int d)" using Cons.prems by (simp add: digit_byte_dec)
    have "48 \<le> digit_byte d \<and> digit_byte d \<le> 57" "(scast (digit_byte d) - 48 :: u32) = of_nat d"
      using digit_of_int [of "int d"] Cons.prems unfolding e by (simp_all add: is_digit_def)
    then show ?case using Cons by simp
  qed simp
  from this [OF ds(2), of 0] show ?thesis unfolding cg_value_def ds(1) of_nat_undigits ds(3) by simp
qed

text \<open>Typing one more digit.\<close>

lemma digit_not_minus: "is_digit c \<Longrightarrow> c \<noteq> 45"
  by (auto simp: is_digit_def)

lemma calc_value_snoc: "\<forall>x \<in> set s. is_digit x \<Longrightarrow> is_digit c \<Longrightarrow> calc_value (s @ [c]) = calc_value s * 10 + ucast (c - 48)"
  by (cases s) (auto simp: calc_value_def digit_scast digit_not_minus)

lemma calc_value_one: "is_digit c \<Longrightarrow> calc_value [c] = ucast (c - 48)"
  using calc_value_snoc [of "[]" c] by (simp add: calc_value_def)

lemma cg_value_snoc: "is_digit c \<Longrightarrow> cg_value (s @ [c]) = cg_value s * 10 + ucast (c - 48)"
  by (simp add: cg_value_def digit_scast) (simp add: is_digit_def)

lemma cg_value_one: "is_digit c \<Longrightarrow> cg_value [c] = ucast (c - 48)"
  using cg_value_snoc [of c "[]"] by (simp add: cg_value_def)

text \<open>The decimal texts.\<close>

lemma calc_digits_show: "0 < n \<Longrightarrow> rev (calc_digits n) = show_nat 10 (nat n)"
proof -
  have "calc_digits n = map digit_byte (rdigits 10 (nat n))" if "0 \<le> n" for n
    using that
  proof (induction n rule: calc_digits.induct)
    case (1 n)
    show ?case
    proof (cases "n > 0")
      case True
      have "int (nat n mod 10) = n mod 10" using True by (simp add: zmod_int)
      then have "(of_nat (nat n mod 10) :: u8) = of_int (n mod 10)" by (metis of_int_of_nat_eq)
      then have "digit_byte (nat n mod 10) = 48 + of_int (n mod 10)"
        using digit_byte_dec [of "nat n mod 10"] by simp
      then show ?thesis
        using 1 True by (subst calc_digits.simps, subst rdigits.simps) (simp add: nat_div_distrib)
    qed (simp add: calc_digits.simps rdigits.simps)
  qed
  then show "0 < n \<Longrightarrow> rev (calc_digits n) = show_nat 10 (nat n)" by (simp add: show_nat_def rev_map)
qed

lemma calc_text_show: "res \<noteq> 0x80000000 \<Longrightarrow> calc_text res = show_int (sint res)"
proof -
  assume r: "res \<noteq> 0x80000000"
  have "sint (- res) = - sint res" using r by (rule u32_neg_sint)
  moreover have "res \<noteq> 0 \<Longrightarrow> sint res \<noteq> 0" by (simp add: signed_eq_0_iff)
  ultimately show ?thesis
    using calc_digits_show [of "sint res"] calc_digits_show [of "- sint res"]
    by (auto simp: calc_text_def show_int_def show_nat_def Let_def)
qed

text \<open>One more digit in view.\<close>

definition view_ok :: "pocket \<Rightarrow> bool" where
  "view_ok p \<longleftrightarrow> (pk_len p \<noteq> 0 \<longrightarrow> (\<exists>ds. pk_view p = Typed ds \<and> ds \<noteq> []))"

lemma view_ok_digit: "view_ok p \<Longrightarrow> \<exists>ds. type_digit c (pk_len p) (pk_view p) = Typed ds \<and> ds \<noteq> []"
  by (auto simp: type_digit_def split: shown.split)

lemma desk_digit:
  "view_ok p \<Longrightarrow> desk_display (type_digit c (pk_len p) (pk_view p)) = (if pk_len p = 0 then [c] else desk_display (pk_view p) @ [c])"
  by (auto simp: type_digit_def view_ok_def split: shown.split)

lemma cmd_digit:
  assumes "view_ok p"
  shows "cmd_display (type_digit c (pk_len p) (pk_view p)) =
    (if pk_len p = 0 \<or> cmd_display (pk_view p) = [48] then [c] else cmd_display (pk_view p) @ [c])"
proof (cases "pk_len p = 0")
  case True
  then show ?thesis by (simp add: type_digit_def split: shown.split)
next
  case False
  then obtain ds where ds: "pk_view p = Typed ds" "ds \<noteq> []" using assms by (auto simp: view_ok_def)
  then obtain xs l where xs: "ds = xs @ [l]" by (cases ds rule: rev_cases) auto
  have b: "butlast (xs @ [l, c]) = xs @ [l]" by (simp add: butlast_append)
  show ?thesis
  proof (cases "\<forall>x \<in> set xs. x = 48")
    case True
    then have "dropWhile (\<lambda>c. c = 48) xs = []" "dropWhile (\<lambda>c. c = 48) (xs @ [l]) = (if l = 48 then [] else [l])"
      by (simp_all add: dropWhile_eq_Nil_conv dropWhile_append2)
    then show ?thesis using False ds xs b by (simp add: type_digit_def)
  next
    case nz: False
    then obtain x where x: "x \<in> set xs" "x \<noteq> 48" by blast
    then have "dropWhile (\<lambda>c. c = 48) (xs @ [l]) = dropWhile (\<lambda>c. c = 48) xs @ [l]" "dropWhile (\<lambda>c. c = 48) xs \<noteq> []"
      by (simp_all add: dropWhile_append1 dropWhile_eq_Nil_conv) blast
    then show ?thesis using False ds xs b by (simp add: type_digit_def)
  qed
qed

text \<open>The relations; a display has at most 11 characters, of 32.\<close>

definition calc_rel :: "pocket \<Rightarrow> 'd calc_state \<Rightarrow> bool" where
  "calc_rel p st \<longleftrightarrow> calc_value (ca_display st) = pk_shown p \<and> ca_stored st = pk_stored p \<and> ca_op st = pk_op p \<and>
     ca_new st = (pk_len p = 0) \<and> length (ca_display st) \<le> 11 \<and>
     (pk_len p \<noteq> 0 \<longrightarrow> length (ca_display st) = pk_len p \<and> (\<forall>c \<in> set (ca_display st). is_digit c)) \<and>
     desk_display (pk_view p) = ca_display st \<and> view_ok p"

definition cg_rel :: "pocket \<Rightarrow> 'd calc_gui \<Rightarrow> bool" where
  "cg_rel p st \<longleftrightarrow> cg_value (cg_display st) = pk_shown p \<and> cg_stored st = pk_stored p \<and> cg_op st = pk_op p \<and>
     cg_new st = (pk_len p = 0) \<and> length (cg_display st) \<le> 10 \<and>
     (pk_len p \<noteq> 0 \<longrightarrow> length (cg_display st) \<le> pk_len p) \<and>
     cmd_display (pk_view p) = cg_display st \<and> view_ok p"

lemma pocket_press_cases:
  assumes "pocket_press c p = Some p1"
  obtains (digit) "is_digit c" "pk_len p < 10"
      "p1 = p\<lparr>pk_shown := (if pk_len p = 0 then 0 else pk_shown p * 10) + ucast (c - 48), pk_len := pk_len p + 1,
           pk_view := type_digit c (pk_len p) (pk_view p)\<rparr>"
    | (clear) "c = 67" "p1 = pocket_start"
    | (equals) r where "c = 61" "pocket_result (pk_op p) (pk_stored p) (pk_shown p) = Some r" "r \<noteq> 0x80000000"
        "p1 = p\<lparr>pk_shown := r, pk_op := 0, pk_len := 0, pk_view := Number r\<rparr>"
    | (operator) "c \<in> {43, 45, 42, 47}" "p1 = p\<lparr>pk_stored := pk_shown p, pk_op := c, pk_len := 0\<rparr>"
proof (cases "is_digit c")
  case True
  then show ?thesis using assms digit by (simp add: pocket_press_def is_digit_def split: if_splits)
next
  case False
  then show ?thesis using assms clear equals operator
    by (auto simp: pocket_press_def is_digit_def bind_eq_Some_conv split: if_splits)
qed

lemma not_digit: "\<not> is_digit 67" "\<not> is_digit 61" "\<not> is_digit 43" "\<not> is_digit 45" "\<not> is_digit 42" "\<not> is_digit 47"
  by (simp_all add: is_digit_def)

lemma calc_text_length: "length (calc_text res) \<le> 11"
proof -
  have "length (calc_digits (sint v)) \<le> 10" for v :: u32
    using sint_lt [of v] by (intro calc_digits_facts(3)) simp
  then show ?thesis by (auto simp: calc_text_def Let_def intro: order_trans [of _ 10])
qed

lemma calc_press_rel:
  assumes "calc_rel p st" and "pocket_press c p = Some p1"
  shows "\<exists>st1. calc_press c st = Some st1 \<and> calc_rel p1 st1"
  using assms(2)
proof (cases rule: pocket_press_cases)
  case digit
  have "view_ok p" using assms(1) by (simp add: calc_rel_def)
  note v = desk_digit [OF this, of c] view_ok_digit [OF this, of c]
  show ?thesis
    using digit assms(1) v unfolding calc_press_def is_digit_def [symmetric]
    by (auto simp: calc_rel_def calc_value_one calc_value_snoc view_ok_def)
next
  case clear
  then show ?thesis
    using assms(1) unfolding calc_press_def is_digit_def [symmetric] by (simp add: calc_rel_def not_digit pocket_start_def calc_value_def view_ok_def)
next
  case (equals r)
  then have "calc_result (ca_op st) (ca_stored st) (calc_value (ca_display st)) = Some r"
    using assms(1) calc_result_pocket by (simp add: calc_rel_def)
  moreover have "calc_value (show_int (sint r)) = r" using calc_value_text calc_text_show equals(3) by metis
  ultimately show ?thesis
    using assms(1) equals calc_text_length [of r] unfolding calc_press_def is_digit_def [symmetric]
    by (simp add: calc_rel_def not_digit calc_value_text calc_text_show view_ok_def)
next
  case operator
  then show ?thesis
    using assms(1) unfolding calc_press_def is_digit_def [symmetric] by (auto simp: calc_rel_def not_digit view_ok_def)
qed

lemma process_button_digit:
  assumes "is_digit c"
  shows "process_button c st = Some
    (if cg_new st \<or> length (cg_display st) = 1 \<and> cg_display st ! 0 = 48 then st\<lparr>cg_display := [c], cg_new := False\<rparr>
     else if length (cg_display st) < 10 then st\<lparr>cg_display := cg_display st @ [c]\<rparr> else st)"
proof -
  have "c \<noteq> 67" "48 \<le> c \<and> c \<le> 57" using assms not_digit(1) by (metis, simp add: is_digit_def)
  then show ?thesis by (simp add: process_button_def Let_def)
qed

lemma cg_relD:
  assumes "cg_rel p st"
  shows "cg_value (cg_display st) = pk_shown p" "cg_stored st = pk_stored p" "cg_op st = pk_op p" "cg_new st = (pk_len p = 0)"
    "length (cg_display st) \<le> 10" "pk_len p \<noteq> 0 \<Longrightarrow> length (cg_display st) \<le> pk_len p" "cmd_display (pk_view p) = cg_display st" "view_ok p"
  using assms by (simp_all add: cg_rel_def)

lemma cg_digit_rel:
  assumes "cg_rel p st" and c: "is_digit c" "pk_len p < 10"
  shows "\<exists>st1. process_button c st = Some st1 \<and>
    cg_rel (p\<lparr>pk_shown := (if pk_len p = 0 then 0 else pk_shown p * 10) + ucast (c - 48), pk_len := pk_len p + 1,
      pk_view := type_digit c (pk_len p) (pk_view p)\<rparr>) st1"
proof (cases "cg_new st \<or> length (cg_display st) = 1 \<and> cg_display st ! 0 = 48")
  case True
  note view = cmd_digit [OF cg_relD(8) [OF assms(1)], of c] view_ok_digit [OF cg_relD(8) [OF assms(1)], of c]
  have d: "cmd_display (type_digit c (pk_len p) (pk_view p)) = [c]"
    using True cg_relD(4,7) [OF assms(1)] view(1) by (auto simp: length_Suc_conv)
  have "cg_value (cg_display st) = 0" if "length (cg_display st) = 1" "cg_display st ! 0 = 48"
    using that by (cases "cg_display st") (simp_all add: cg_value_def)
  then have z: "(if pk_len p = 0 then 0 else pk_shown p * 10) = 0" using True cg_relD(1,4) [OF assms(1)] by auto
  show ?thesis unfolding process_button_digit [OF c(1)] z if_P [OF True] option.inject ex_simps simp_thms cg_rel_def
    using cg_relD(2,3) [OF assms(1)] cg_value_one [OF c(1)] d view(2) by (auto simp: view_ok_def)
next
  case False
  note view = cmd_digit [OF cg_relD(8) [OF assms(1)], of c] view_ok_digit [OF cg_relD(8) [OF assms(1)], of c]
  have n: "pk_len p \<noteq> 0" and l: "length (cg_display st) < 10" using False cg_relD(4,6) [OF assms(1)] c(2) by auto
  have d: "cmd_display (type_digit c (pk_len p) (pk_view p)) = cg_display st @ [c]"
    using False n cg_relD(7) [OF assms(1)] view(1) by auto
  show ?thesis unfolding process_button_digit [OF c(1)] if_not_P [OF False] if_P [OF l] if_not_P [OF n] option.inject ex_simps simp_thms cg_rel_def
    using cg_relD(2,3,4) [OF assms(1)] cg_relD(6) [OF assms(1) n] l n cg_value_snoc [OF c(1), of "cg_display st"] cg_relD(1) [OF assms(1)]
      d view(2) by (auto simp: view_ok_def)
qed

lemma process_button_rel:
  assumes "cg_rel p st" and "pocket_press c p = Some p1"
  shows "\<exists>st1. process_button c st = Some st1 \<and> cg_rel p1 st1"
  using assms(2)
proof (cases rule: pocket_press_cases)
  case digit
  show ?thesis unfolding digit(3) by (rule cg_digit_rel [OF assms(1) digit(1,2)])
next
  case clear
  have "cg_value [48] = 0" by (simp add: cg_value_def)
  then show ?thesis unfolding clear process_button_def Let_def by (simp add: cg_rel_def pocket_start_def view_ok_def)
next
  case (equals r)
  have r: "cg_result (cg_op st) (cg_stored st) (cg_value (cg_display st)) = Some r"
    unfolding cg_relD(1-3) [OF assms(1)] by (rule cg_result_pocket [OF equals(2)])
  have "process_button c st = Some (st\<lparr>cg_current := r, cg_display := int_to_str r, cg_op := 0, cg_new := True\<rparr>)"
    unfolding process_button_def Let_def r equals(1) by simp
  then show ?thesis using int_to_str_length(2) [of r] cg_relD(2) [OF assms(1)]
    unfolding equals(4) by (simp add: cg_rel_def cg_value_int_to_str view_ok_def) (simp add: int_to_str_show)
next
  case operator
  from operator(1) have "c = 43 \<or> c = 45 \<or> c = 42 \<or> c = 47" by simp
  then have "process_button c st = Some (st\<lparr>cg_current := cg_value (cg_display st), cg_stored := cg_value (cg_display st), cg_op := c, cg_new := True\<rparr>)"
    by (elim disjE) (simp_all add: process_button_def)
  then show ?thesis using cg_relD(1,5,7) [OF assms(1)] unfolding operator(2) by (simp add: cg_rel_def view_ok_def)
qed

interpretation desk: calculator calc_press calc_rel
  by unfold_locales (rule calc_press_rel)

interpretation cmd: calculator process_button cg_rel
  by unfold_locales (rule process_button_rel)

section \<open>The two calculators\<close>

definition calc_fresh :: "'d calc_state \<Rightarrow> bool" where
  "calc_fresh st \<longleftrightarrow> ca_display st = [48] \<and> ca_stored st = 0 \<and> ca_op st = 0 \<and> ca_new st"

definition cg_fresh :: "'d calc_gui \<Rightarrow> bool" where
  "cg_fresh st \<longleftrightarrow> cg_display st = [48] \<and> cg_stored st = 0 \<and> cg_op st = 0 \<and> cg_new st"

lemma fresh_rel: "calc_fresh a \<Longrightarrow> calc_rel pocket_start a" "cg_fresh b \<Longrightarrow> cg_rel pocket_start b"
  by (simp_all add: calc_fresh_def calc_rel_def cg_fresh_def cg_rel_def pocket_start_def calc_value_def cg_value_def view_ok_def)

text \<open>
  C17.  For every sequence of buttons that the pocket calculator takes, the displays of both
  programs show what it has in view.  While a number is entered these are its digits, in CALC-GUI
  without zeros in front; a result \<open>r\<close> is the signed decimal of \<open>r\<close> on the desktop and, in CALC-GUI, the
  decimal of its 32 bits taken as an unsigned number, which is wrong by \<open>2 ^ 32\<close> when \<open>r\<close> is negative.
  Both read their display back as the pocket's number, hold its stored number and operator, and
  no display leaves its 32 bytes.
\<close>
theorem calculators_agree:
  assumes "calc_fresh a0" and "cg_fresh b0" and "press_all pocket_press cs pocket_start = Some p"
  shows "\<exists>a b. press_all calc_press cs a0 = Some a \<and> press_all process_button cs b0 = Some b \<and>
    ca_display a = desk_display (pk_view p) \<and> cg_display b = cmd_display (pk_view p) \<and>
    calc_value (ca_display a) = pk_shown p \<and> cg_value (cg_display b) = pk_shown p \<and>
    ca_stored a = pk_stored p \<and> cg_stored b = pk_stored p \<and> ca_op a = pk_op p \<and> cg_op b = pk_op p \<and>
    length (ca_display a) < 32 \<and> length (cg_display b) < 32"
proof -
  obtain a where a: "press_all calc_press cs a0 = Some a" "calc_rel p a" using desk.run_rel [OF fresh_rel(1) [OF assms(1)] assms(3)] by blast
  obtain b where b: "press_all process_button cs b0 = Some b" "cg_rel p b" using cmd.run_rel [OF fresh_rel(2) [OF assms(2)] assms(3)] by blast
  show ?thesis
    by (rule exI [of _ a], rule exI [of _ b], use a b in \<open>auto simp: calc_rel_def cg_rel_def\<close>)
qed

definition calc_at_rest :: "unit calc_state" where
  "calc_at_rest = gui.extend screen_at_rest (calc_state.fields [48] 0 0 0 True False)"

definition cg_at_rest :: "unit calc_gui" where
  "cg_at_rest = gui.extend screen_at_rest (calc_gui.fields [48] 0 0 0 True False 0 0 False)"

lemma at_rest_fresh: "calc_fresh calc_at_rest" "cg_fresh cg_at_rest"
  by (simp_all add: calc_fresh_def cg_fresh_def calc_at_rest_def cg_at_rest_def gui.defs calc_state.defs calc_gui.defs)

lemma pocket_example: "press_all pocket_press (lit ''012-20='') pocket_start =
    Some (pocket_start\<lparr>pk_shown := - 8, pk_stored := 12, pk_view := Number (- 8)\<rparr>)"
  by (simp add: lit_def pocket_press_def pocket_start_def pocket_result_def type_digit_def)

theorem calculators_agree_witness:
  "\<exists>a b. press_all calc_press (lit ''012-20='') calc_at_rest = Some a \<and> press_all process_button (lit ''012-20='') cg_at_rest = Some b \<and>
    ca_display a = lit ''-8'' \<and> cg_display b = lit ''4294967288''"
proof -
  have "rdigits 10 8 = [8]" "rdigits 10 4294967288 = [8, 8, 2, 7, 6, 9, 4, 9, 2, 4]" by (simp_all add: rdigits.simps)
  then have "desk_display (Number (- 8)) = lit ''-8''" "cmd_display (Number (- 8)) = lit ''4294967288''"
    by (simp_all add: show_int_def show_nat_def digit_byte_dec lit_def)
  then show ?thesis using calculators_agree [OF at_rest_fresh pocket_example] by auto
qed

text \<open>
  The quotient that does not fit: on both calculators the buttons \<^verbatim>\<open>2147483648/4294967295=\<close> make
  the processor divide \<open>- 2 ^ 31\<close> by \<open>- 1\<close>, which raises the divide exception.
\<close>

lemma calculators_trap:
  "press_all calc_press (lit ''2147483648/4294967295='') calc_at_rest = None"
  "press_all process_button (lit ''2147483648/4294967295='') cg_at_rest = None"
  by (simp_all add: lit_def calc_press_def process_button_def calc_at_rest_def cg_at_rest_def gui.defs calc_state.defs calc_gui.defs
      calc_value_def cg_value_def calc_result_def cg_result_def idiv_def)

section \<open>Rounds\<close>

text \<open>
  What a click presses is read off the picture.  A button's face begins with the rectangle it
  fills and ends with the character on it; a click presses the characters on the faces whose
  rectangle has the pointer in it.
\<close>

fun covers :: "int \<Rightarrow> int \<Rightarrow> draw \<Rightarrow> bool" where
  "covers px py (Rect x y w h c) = (x \<le> px \<and> px < x + w \<and> y \<le> py \<and> py < y + h)"
| "covers px py d = False"

fun label_of :: "draw \<Rightarrow> u8 list" where
  "label_of (Text x y s fg bg) = s"
| "label_of (Glyph x y ch fg bg) = [ch]"
| "label_of d = []"

definition faces_under :: "int \<Rightarrow> int \<Rightarrow> draw list list \<Rightarrow> u8 list" where
  "faces_under px py faces = concat (map (\<lambda>f. if covers px py (hd f) then label_of (last f) else []) faces)"

text \<open>The pointer is on a red rectangle of the picture: the close box.\<close>

fun red_rect :: "draw \<Rightarrow> bool" where
  "red_rect (Rect x y w h c) = (c = COLOR_RED)"
| "red_rect d = False"

definition on_red_box :: "int \<Rightarrow> int \<Rightarrow> draw list \<Rightarrow> bool" where
  "on_red_box px py ds \<longleftrightarrow> (\<exists>d \<in> set ds. red_rect d \<and> covers px py d)"

text \<open>When no two faces cover the pointer, a search for the button finds what the picture shows.\<close>

lemma faces_under_find:
  assumes "distinct xs" and "set ys = set xs" and "\<And>i. i \<in> set xs \<Longrightarrow> covers px py (hd (face i)) = P i"
    and "\<And>i. i \<in> set xs \<Longrightarrow> label_of (last (face i)) = [f i]"
    and one: "\<And>i j. i \<in> set xs \<Longrightarrow> j \<in> set xs \<Longrightarrow> P i \<Longrightarrow> P j \<Longrightarrow> i = j"
  shows "faces_under px py (map face xs) = (case find P ys of None \<Rightarrow> [] | Some i \<Rightarrow> [f i])"
proof -
  have "faces_under px py (map face xs) = map f (filter P xs)"
    unfolding faces_under_def using assms(3,4) by (induction xs) simp_all
  also have "\<dots> = (case find P ys of None \<Rightarrow> [] | Some i \<Rightarrow> [f i])"
  proof (cases "find P ys")
    case None
    then have "filter P xs = []" using assms(2) by (auto simp: find_None_iff filter_empty_conv)
    then show ?thesis using None by simp
  next
    case (Some i)
    then have i: "i \<in> set xs" "P i" using assms(2) by (auto simp: find_Some_iff)
    have "filter P xs = filter (\<lambda>j. j = i) xs" using one i by (intro filter_cong) auto
    also have "\<dots> = [i]" using assms(1) i(1) by (induction xs) (auto simp: filter_empty_conv)
    finally show ?thesis using Some by simp
  qed
  finally show ?thesis .
qed

text \<open>On the desktop.\<close>

definition calc_presses :: "'d gui_env \<Rightarrow> 'd calc_state \<Rightarrow> u8 list" where
  "calc_presses env st =
     (case poll_mouse env (restore_background (calc_refresh st)) of
        Goes st1 \<Rightarrow>
          if mouse_get_left (gu_mouse st1)
          then faces_under (mouse_get_x (gu_mouse st1)) (mouse_get_y (gu_mouse st1)) (map (calc_button_face st1) [0..<16]) else []
      | _ \<Rightarrow> [])"

definition calc_closes :: "'d gui_env \<Rightarrow> 'd calc_state \<Rightarrow> bool" where
  "calc_closes env st =
     (case poll_mouse env (restore_background (calc_refresh st)) of
        Goes st1 \<Rightarrow> mouse_get_left (gu_mouse st1) \<and>
          on_red_box (mouse_get_x (gu_mouse st1)) (mouse_get_y (gu_mouse st1)) (calc_picture st1)
      | _ \<Rightarrow> False)"

lemma calc_face_under:
  "faces_under (mouse_get_x (gu_mouse st)) (mouse_get_y (gu_mouse st)) (map (calc_button_face st) [0..<16]) =
    (case calc_pressed st of None \<Rightarrow> [] | Some i \<Rightarrow> [calc_buttons ! i])"
proof -
  obtain wx wy where f: "calc_frame st = (wx, wy)" by (cases "calc_frame st") auto
  let ?P = "\<lambda>i. case calc_corner st i of (bx, by') \<Rightarrow> mouse_get_x (gu_mouse st) \<ge> bx \<and> mouse_get_x (gu_mouse st) < bx + 40 \<and>
      mouse_get_y (gu_mouse st) \<ge> by' \<and> mouse_get_y (gu_mouse st) < by' + 24"
  have one: "i = j" if "?P i" "?P j" for i j
  proof -
    have "int (i mod 4) = int (j mod 4)" "int (i div 4) = int (j div 4)"
      using that f by (simp_all add: calc_corner_def)
    then show ?thesis by (metis nat_int div_mult_mod_eq)
  qed
  have "faces_under (mouse_get_x (gu_mouse st)) (mouse_get_y (gu_mouse st)) (map (calc_button_face st) [0..<16]) =
      (case find ?P [0..<16] of None \<Rightarrow> [] | Some i \<Rightarrow> [calc_buttons ! i])"
    by (rule faces_under_find) (use one in \<open>auto simp: calc_button_face_def split: prod.split\<close>)
  then show ?thesis by (simp add: calc_pressed_def Let_def)
qed

lemma calc_red_box:
  "on_red_box (mouse_get_x (gu_mouse st)) (mouse_get_y (gu_mouse st)) (calc_picture st) =
    (case calc_frame st of (win_x, win_y) \<Rightarrow> on_close_button st win_x win_y 200)"
proof -
  obtain wx wy where f: "calc_frame st = (wx, wy)" by (cases "calc_frame st") auto
  have face: "\<not> on_red_box px py (calc_button_face st i)" for px py i
    by (auto simp: on_red_box_def calc_button_face_def COLOR_RED_def COLOR_GRAY_def COLOR_WHITE_def split: prod.splits)
  have box: "on_red_box px py (gui_draw_window wx wy 200 180 s) = covers px py (Rect (wx + 182) (wy + 4) 14 14 COLOR_RED)" for px py s
    by (auto simp: on_red_box_def gui_draw_window_def gui_draw_rect_def gui_draw_hline_def gui_draw_vline_def
        COLOR_RED_def COLOR_GRAY_def COLOR_BLUE_def COLOR_DARKGRAY_def)
  have app: "on_red_box px py (xs @ ys) = (on_red_box px py xs \<or> on_red_box px py ys)" for px py xs ys
    by (auto simp: on_red_box_def)
  have faces: "\<not> on_red_box px py (concat (map (calc_button_face st) is))" for px py "is"
    using face by (auto simp: on_red_box_def)
  have rest: "\<not> on_red_box px py [Clear c]" "\<not> on_red_box px py [Rect x y w h COLOR_WHITE, Text x' y' s fg bg]"
    "\<not> on_red_box px py [Text x y s fg bg]" for px py c x y w h x' y' s fg bg
    by (simp_all add: on_red_box_def COLOR_WHITE_def COLOR_RED_def)
  show ?thesis
    unfolding calc_picture_def f prod.case Let_def app using faces rest box by (simp add: on_close_button_def Let_def algebra_simps)
qed

lemma calc_rel_upd [simp]:
  "calc_rel p (st\<lparr>gu_vbe := v\<rparr>) = calc_rel p st" "calc_rel p (st\<lparr>gu_mouse := m\<rparr>) = calc_rel p st"
  "calc_rel p (st\<lparr>gu_saved := q\<rparr>) = calc_rel p st" "calc_rel p (st\<lparr>gu_save_bg := bg\<rparr>) = calc_rel p st"
  "calc_rel p (st\<lparr>ca_redraw := b\<rparr>) = calc_rel p st" "calc_rel p (set_dev d st) = calc_rel p st"
  by (simp_all add: calc_rel_def set_dev_vbe)

lemma calc_rel_paint [simp]: "calc_rel p (paint_calls ds st) = calc_rel p st"
  using paint_calls_vbe [of ds st] by auto

lemma calc_rel_keeps:
  "calc_rel p st \<Longrightarrow> act_goes (calc_rel p) (poll_mouse env st)" "calc_rel p st \<Longrightarrow> act_goes (calc_rel p) (wait_release env st)"
  "calc_rel p st \<Longrightarrow> act_goes (calc_rel p) (draw_pointer env (save_background st))"
  "calc_rel p (restore_background st) = calc_rel p st" "calc_rel p (calc_refresh st) = calc_rel p st"
  by (simp_all add: poll_mouse_def wait_release_def draw_pointer_def flush_screen_def restore_background_def on_vbe_def save_background_def
      calc_refresh_def Let_def split: option.split)

lemma no_traps:
  "poll_mouse env st \<noteq> Traps" "wait_release env st \<noteq> Traps" "draw_pointer env st \<noteq> Traps" "sys_reboot env st \<noteq> Traps"
  "flush_screen env st \<noteq> Traps"
  by (simp_all add: poll_mouse_def wait_release_def draw_pointer_def flush_screen_def sys_reboot_def split: option.split)

text \<open>A step that ends in a state with \<open>P\<close> when it goes on, and is not trapped.\<close>

fun act_safe :: "('s \<Rightarrow> bool) \<Rightarrow> 's act \<Rightarrow> bool" where
  "act_safe P (Goes s) = P s"
| "act_safe P (Reboots s) = True"
| "act_safe P Traps = False"
| "act_safe P Hangs = True"

lemma act_safe_bind: "act_safe P m \<Longrightarrow> (\<And>s. P s \<Longrightarrow> act_safe Q (f s)) \<Longrightarrow> act_safe Q (act_bind m f)"
  by (cases m) auto

lemma act_safe_iff: "act_safe P m \<longleftrightarrow> act_goes P m \<and> m \<noteq> Traps"
  by (cases m) auto

lemma with_key_safe: "(\<And>key d. act_safe P (f key (set_dev d st))) \<Longrightarrow> (\<And>d. P (set_dev d st)) \<Longrightarrow> act_safe P (with_key env f st)"
  by (simp add: with_key_def split: prod.split)

text \<open>
  How a round may end: it goes on with \<open>P\<close> if the close box was not clicked, it restarts the machine
  only if the box was clicked or Escape can be read, it does not trap; or it waits for the mouse.
\<close>

fun round_ok :: "bool \<Rightarrow> bool \<Rightarrow> ('s \<Rightarrow> bool) \<Rightarrow> 's act \<Rightarrow> bool" where
  "round_ok closed escape P (Goes s) = (P s \<and> \<not> closed)"
| "round_ok closed escape P (Reboots s) = (closed \<or> escape)"
| "round_ok closed escape P Traps = False"
| "round_ok closed escape P Hangs = True"

definition escape_comes :: "'d gui_env \<Rightarrow> bool" where
  "escape_comes env \<longleftrightarrow> (\<exists>d. is_escape (fst (ge_getkey env d)))"

lemma round_okI:
  "act_safe P m \<Longrightarrow> (\<And>s. m = Goes s \<Longrightarrow> \<not> closed) \<Longrightarrow> (\<And>s. m = Reboots s \<Longrightarrow> closed \<or> escape) \<Longrightarrow> round_ok closed escape P m"
  by (cases m) auto

lemma no_reboots:
  "poll_mouse env st \<noteq> Reboots s" "wait_release env st \<noteq> Reboots s" "draw_pointer env st \<noteq> Reboots s" "flush_screen env st \<noteq> Reboots s"
  by (simp_all add: poll_mouse_def wait_release_def draw_pointer_def flush_screen_def split: option.split)

lemma act_bind_Reboots: "act_bind m f = Reboots s \<longleftrightarrow> m = Reboots s \<or> (\<exists>s1. m = Goes s1 \<and> f s1 = Reboots s)"
  by (cases m) auto

lemma escape_key_reboots:
  "with_key env (\<lambda>key s. if is_escape key then sys_reboot env s else Goes s) st = Reboots s \<Longrightarrow> escape_comes env"
  by (auto simp: with_key_def escape_comes_def split: prod.splits if_splits) (metis fst_conv)

lemma calc_click_rel:
  assumes "calc_rel p st"
    and "press_all pocket_press
      (if mouse_get_left (gu_mouse st) then (case calc_pressed st of None \<Rightarrow> [] | Some i \<Rightarrow> [calc_buttons ! i]) else []) p = Some p1"
  shows "act_safe (calc_rel p1) (calc_click env st)"
proof (cases "mouse_get_left (gu_mouse st) \<and> \<not> (case calc_frame st of (win_x, win_y) \<Rightarrow> on_close_button st win_x win_y 200)")
  case False
  then show ?thesis using assms by (auto simp: calc_click_def sys_reboot_def)
next
  case True
  show ?thesis
  proof (cases "calc_pressed st")
    case None
    then show ?thesis using assms True by (simp add: calc_click_def act_safe_iff no_traps calc_rel_keeps(2))
  next
    case (Some i)
    then have "pocket_press (calc_buttons ! i) p = Some p1" using assms(2) True by (simp add: bind_eq_Some_conv)
    then obtain st1 where "calc_press (calc_buttons ! i) st = Some st1" "calc_rel p1 st1" using calc_press_rel [OF assms(1)] by blast
    then show ?thesis using Some True by (simp add: calc_click_def act_safe_iff no_traps calc_rel_keeps(2))
  qed
qed

lemma calc_step_rel:
  assumes "calc_rel p st" and "press_all pocket_press (calc_presses env st) p = Some p1"
  shows "act_safe (calc_rel p1) (calc_step env st)"
proof (cases "poll_mouse env (restore_background (calc_refresh st))")
  case (Goes st1)
  have "calc_rel p st1" using calc_rel_keeps(1) [of p "restore_background (calc_refresh st)" env] assms(1) Goes by (simp add: calc_rel_keeps(4,5))
  then have "act_safe (calc_rel p1) (calc_click env st1)"
    using assms(2) unfolding calc_presses_def Goes act.case calc_face_under by (rule calc_click_rel)
  moreover have "act_safe (calc_rel p1) (with_key env (\<lambda>key s. if is_escape key then sys_reboot env s else Goes s) s)" if "calc_rel p1 s" for s
    using that by (intro with_key_safe) (simp_all add: sys_reboot_def)
  moreover have "act_safe (calc_rel p1) (draw_pointer env (save_background s))" if "calc_rel p1 s" for s
    using that by (simp add: act_safe_iff no_traps calc_rel_keeps(3))
  ultimately show ?thesis unfolding calc_step_def Goes act_bind.simps
    by (intro act_safe_bind [where P = "calc_rel p1"]) (auto intro: act_safe_bind [where P = "calc_rel p1"])
qed (use no_traps(1) in \<open>auto simp: calc_step_def\<close>)

lemma calc_step_ends:
  assumes "calc_rel p st" and "press_all pocket_press (calc_presses env st) p = Some p1"
  shows "round_ok (calc_closes env st) (escape_comes env) (calc_rel p1) (calc_step env st)"
proof (rule round_okI [OF calc_step_rel [OF assms]])
  have opened: "calc_click env st1 \<noteq> Reboots s" if "poll_mouse env (restore_background (calc_refresh st)) = Goes st1" "\<not> calc_closes env st" for st1 s
    using that no_reboots(2)
    by (auto simp: calc_closes_def calc_click_def calc_red_box sys_reboot_def split: option.split if_splits) 
  show "\<not> calc_closes env st" if "calc_step env st = Goes s" for s
  proof
    assume c: "calc_closes env st"
    then obtain st1 where st1: "poll_mouse env (restore_background (calc_refresh st)) = Goes st1"
      by (auto simp: calc_closes_def split: act.splits)
    with c have "calc_click env st1 = sys_reboot env st1" by (simp add: calc_closes_def calc_click_def calc_red_box)
    then show False using that st1 by (simp add: calc_step_def sys_reboot_def)
  qed
  show "calc_closes env st \<or> escape_comes env" if "calc_step env st = Reboots s" for s
    using that opened unfolding calc_step_def act_bind_Reboots
    by (auto simp: no_reboots act_bind_Reboots split: if_splits dest: escape_key_reboots)
qed

text \<open>On the command's screen the button of a new click, and then the button of the key.\<close>

definition cg_drawn :: "'d gui_env \<Rightarrow> calc_layout \<Rightarrow> 'd calc_gui \<Rightarrow> 'd calc_gui act" where
  "cg_drawn env L st =
     (let mx = mouse_get_x (gu_mouse st); my = mouse_get_y (gu_mouse st); st2 = gpu_calls (cg_picture L mx my st) st
      in flush_screen env (gpu_calls (cg_hint L) (paint_calls (gui_draw_cursor (gu_width st2) (gu_height st2) mx my) st2)))"

definition cg_click_button :: "calc_layout \<Rightarrow> 'd calc_gui \<Rightarrow> u8 list" where
  "cg_click_button L st =
     (let mx = mouse_get_x (gu_mouse st); my = mouse_get_y (gu_mouse st)
      in if mouse_get_left (gu_mouse st) \<and> \<not> cg_down st
         then faces_under mx my (map (cg_button_face L mx my st) (cg_shown L)) else [])"

lemma cg_face_under:
  "cg_click_button (calc_layout_of v) st =
    (case cg_clicked (calc_layout_of v) (mouse_get_x (gu_mouse st)) (mouse_get_y (gu_mouse st)) (mouse_get_left (gu_mouse st)) (cg_down st) of
       None \<Rightarrow> [] | Some i \<Rightarrow> [cg_buttons ! i])"
proof -
  let ?L = "calc_layout_of v"
  let ?x = "mouse_get_x (gu_mouse st)" and ?y = "mouse_get_y (gu_mouse st)"
  have sizes: "cl_btn_w ?L = 70 \<and> cl_btn_h ?L = 60 \<and> cl_btn_gap ?L = 10 \<or> cl_btn_w ?L = 35 \<and> cl_btn_h ?L = 22 \<and> cl_btn_gap ?L = 4"
    by (simp add: calc_layout_of_def Let_def)
  have one: "i = j" if "cg_hover ?L ?x ?y i" "cg_hover ?L ?x ?y j" for i j
  proof -
    have "int (i mod 4) = int (j mod 4)" "int (i div 4) = int (j div 4)"
      using that sizes by (auto simp: cg_hover_def cg_corner_def)
    then show ?thesis by (metis nat_int div_mult_mod_eq)
  qed
  have "faces_under ?x ?y (map (cg_button_face ?L ?x ?y st) (cg_shown ?L)) =
      (case find (cg_hover ?L ?x ?y) (rev (cg_shown ?L)) of None \<Rightarrow> [] | Some i \<Rightarrow> [cg_buttons ! i])"
    by (rule faces_under_find)
      (use one in \<open>auto simp: cg_button_face_def cg_hover_def cg_shown_def Let_def split: prod.split\<close>)
  moreover have "find (\<lambda>i. False) xs = None" for xs :: "nat list" by (induction xs) simp_all
  ultimately show ?thesis
    by (cases "mouse_get_left (gu_mouse st) \<and> \<not> cg_down st") (auto simp: cg_click_button_def cg_clicked_def Let_def)
qed

definition cg_key_button :: "int \<Rightarrow> u8 \<Rightarrow> u8 list" where
  "cg_key_button idx' ch =
     (if ch \<in> {13, 10} then (if idx' \<ge> 0 \<and> idx' < 17 then [cg_buttons ! nat idx'] else [])
      else if ch = 99 then [67]
      else if 48 \<le> ch \<and> ch \<le> 57 \<or> ch \<in> {43, 45, 42, 47, 61, 67, 46} then [ch] else [])"

definition cg_presses :: "'d gui_env \<Rightarrow> calc_layout \<Rightarrow> 'd calc_gui \<Rightarrow> u8 list" where
  "cg_presses env L st =
     (case poll_mouse env st of
        Goes st1 \<Rightarrow> (case cg_drawn env L st1 of
            Goes st4 \<Rightarrow> cg_click_button L st1 @
              (case ge_hit env (gui_dev st4) of (hit, d) \<Rightarrow>
                 if hit then cg_key_button (cg_row st4 * 4 + cg_col st4) (key_ascii (fst (ge_getkey env d))) else [])
          | _ \<Rightarrow> [])
      | _ \<Rightarrow> [])"

lemma cg_rel_upd [simp]:
  "cg_rel p (st\<lparr>gu_vbe := v\<rparr>) = cg_rel p st" "cg_rel p (st\<lparr>gu_mouse := m\<rparr>) = cg_rel p st" "cg_rel p (set_dev d st) = cg_rel p st"
  "cg_rel p (st\<lparr>cg_down := b\<rparr>) = cg_rel p st" "cg_rel p (st\<lparr>cg_done := b\<rparr>) = cg_rel p st"
  "cg_rel p (st\<lparr>cg_row := i\<rparr>) = cg_rel p st" "cg_rel p (st\<lparr>cg_col := i\<rparr>) = cg_rel p st"
  by (simp_all add: cg_rel_def set_dev_vbe)

lemma cg_rel_paint [simp]: "cg_rel p (paint_calls ds st) = cg_rel p st" "cg_rel p (gpu_calls ds st) = cg_rel p st"
  using paint_calls_vbe [of ds st] by (auto simp: gpu_calls_def on_vbe_def)

lemma press_all_append: "press_all f (xs @ ys) s = Option.bind (press_all f xs s) (press_all f ys)"
  by (induction xs arbitrary: s) (simp_all, metis (no_types, lifting) bind_assoc)

lemma press_to_rel:
  assumes "cg_rel p st" and "press_all pocket_press [c] p = Some p1"
  shows "act_safe (cg_rel p1) (press_to c st)"
  using process_button_rel [OF assms(1), of c p1] assms(2) by (auto simp: press_to_def bind_eq_Some_conv)

lemma process_button_keeps:
  "process_button c st = Some st1 \<Longrightarrow> cg_row st1 = cg_row st \<and> cg_col st1 = cg_col st \<and> gu_vbe st1 = gu_vbe st"
  by (auto simp: process_button_def Let_def split: if_splits)

lemma cg_typed_press:
  "cg_typed ch st = (case cg_key_button (cg_row st * 4 + cg_col st) ch of [] \<Rightarrow> Goes st | c # cs \<Rightarrow> press_to c st)"
proof (cases "ch \<in> {13, 10, 99, 43, 45, 42, 47, 61, 67, 46}")
  case True
  then have "ch = 13 \<or> ch = 10 \<or> ch = 99 \<or> ch = 43 \<or> ch = 45 \<or> ch = 42 \<or> ch = 47 \<or> ch = 61 \<or> ch = 67 \<or> ch = 46" by simp
  then show ?thesis by (elim disjE) (simp_all add: cg_key_button_def cg_typed_def Let_def)
next
  case False
  then show ?thesis by (simp add: cg_key_button_def cg_typed_def)
qed

lemma cg_key_button_one: "cg_key_button k ch = [] \<or> (\<exists>c. cg_key_button k ch = [c])"
  by (simp add: cg_key_button_def)

lemma cg_typed_rel:
  assumes "cg_rel p st" and "press_all pocket_press (cg_key_button (cg_row st * 4 + cg_col st) ch) p = Some p1"
  shows "act_safe (cg_rel p1) (cg_typed ch st)"
  using cg_key_button_one [of "cg_row st * 4 + cg_col st" ch] assms press_to_rel [OF assms(1)]
  by (auto simp: cg_typed_press)

lemma cg_key_rel:
  assumes "cg_rel p st" and "press_all pocket_press (cg_key_button (cg_row st * 4 + cg_col st) (key_ascii key)) p = Some p1"
  shows "act_safe (cg_rel p1) (cg_key key st)"
proof (cases "key_ascii key = 27")
  case True
  then have "p1 = p" using assms(2) by (simp add: cg_key_button_def)
  then show ?thesis using True assms(1) by (simp add: cg_key_def)
next
  case False
  have "cg_rel p1 (cg_arrow scan s) = cg_rel p1 s" for scan and s :: "'a calc_gui" by (simp add: cg_arrow_def)
  then show ?thesis unfolding cg_key_def if_not_P [OF False] by (intro act_safe_bind [OF cg_typed_rel [OF assms]]) simp
qed

lemma cg_step_rel:
  assumes "cg_rel p st" and "press_all pocket_press (cg_presses env L st) p = Some p1" and L: "L = calc_layout_of v"
  shows "act_safe (cg_rel p1) (cg_step env L st)"
proof (cases "poll_mouse env st")
  case (Goes st1)
  have r1: "cg_rel p st1" using Goes assms(1) by (auto dest!: poll_mouse_Goes)
  have step: "cg_step env L st = act_bind (cg_drawn env L st1) (\<lambda>st4.
      act_bind (case cg_click_button L st1 of [] \<Rightarrow> Goes st4 | c # cs \<Rightarrow> press_to c st4) (\<lambda>st5.
        with_key env cg_key (st5\<lparr>cg_down := mouse_get_left (gu_mouse st1)\<rparr>)))"
    unfolding cg_step_def Goes act_bind.simps cg_drawn_def Let_def unfolding L cg_face_under by (simp split: option.split)
  show ?thesis
  proof (cases "cg_drawn env L st1")
    case (Goes st4)
    have r4: "cg_rel p st4" using Goes r1 by (auto simp: cg_drawn_def flush_screen_def Let_def split: option.splits)
    define ks where "ks = (case ge_hit env (gui_dev st4) of (hit, d) \<Rightarrow>
        if hit then cg_key_button (cg_row st4 * 4 + cg_col st4) (key_ascii (fst (ge_getkey env d))) else [])"
    have ps: "cg_presses env L st = cg_click_button L st1 @ ks"
      unfolding cg_presses_def \<open>poll_mouse env st = Goes st1\<close> act.case Goes ks_def by (simp split: prod.split)
    obtain p2 where p2: "press_all pocket_press (cg_click_button L st1) p = Some p2" "press_all pocket_press ks p2 = Some p1"
      using assms(2) unfolding ps press_all_append by (auto simp: bind_eq_Some_conv)
    have click: "act_safe (\<lambda>s. cg_rel p2 s \<and> cg_row s = cg_row st4 \<and> cg_col s = cg_col st4 \<and> gu_vbe s = gu_vbe st4)
        (case cg_click_button L st1 of [] \<Rightarrow> Goes st4 | c # cs \<Rightarrow> press_to c st4)"
    proof (cases "cg_click_button L st1")
      case Nil
      then show ?thesis using p2(1) r4 by simp
    next
      case (Cons c cs)
      then have "cs = []" unfolding L cg_face_under by (simp split: option.splits)
      then have "act_safe (cg_rel p2) (press_to c st4)" using press_to_rel [OF r4] p2(1) Cons by simp
      then show ?thesis using Cons by (auto simp: press_to_def dest: process_button_keeps split: option.splits)
    qed
    have key: "act_safe (cg_rel p1) (with_key env cg_key (s\<lparr>cg_down := b\<rparr>))"
      if "cg_rel p2 s \<and> cg_row s = cg_row st4 \<and> cg_col s = cg_col st4 \<and> gu_vbe s = gu_vbe st4" for s b
    proof -
      have d: "gui_dev (s\<lparr>cg_down := b\<rparr>) = gui_dev st4" using that by (simp add: gui_dev_def)
      obtain hit dv where h: "ge_hit env (gui_dev st4) = (hit, dv)" by fastforce
      show ?thesis
      proof (cases hit)
        case True
        obtain key d2 where k: "ge_getkey env dv = (key, d2)" by fastforce
        have "act_safe (cg_rel p1) (cg_key key (set_dev d2 (s\<lparr>cg_down := b\<rparr>)))"
          using that p2(2) h k True by (intro cg_key_rel [where p = p2]) (simp_all add: ks_def set_dev_vbe)
        then show ?thesis unfolding with_key_def d h using True k by simp
      next
        case False
        then have "p1 = p2" using p2(2) h by (simp add: ks_def)
        then show ?thesis unfolding with_key_def d h using False that by simp
      qed
    qed
    show ?thesis unfolding step Goes act_bind.simps by (rule act_safe_bind [OF click]) (rule key)
  qed (auto simp: step cg_drawn_def flush_screen_def Let_def split: option.splits)
qed (use no_traps(1) in \<open>auto simp: cg_step_def\<close>)

lemma fold_active: "(\<And>x v. vb_active (f x v) = vb_active v) \<Longrightarrow> vb_active (fold f xs v) = vb_active v"
  by (induction xs arbitrary: v) simp_all

lemma draws_active: "vb_active (draws32 ps v) = vb_active v" "vb_active (draws8 qs v) = vb_active v" "vb_active (on_gfx f v) = vb_active v"
  by (simp_all add: draws32_def draws8_def on_mem_def on_gfx_def)

lemma gpu_call_active: "vb_active (gpu_call d v) = vb_active v"
proof -
  have p: "vb_active (vbe_draw_pixel x y c v) = vb_active v" for x y c and v :: "'a vbe"
    by (simp add: vbe_draw_pixel_def draws_active)
  have c: "vb_active (vbe_draw_char x y ch fg bg v) = vb_active v" for x y ch fg bg and v :: "'a vbe"
    unfolding vbe_draw_char_def Let_def by (simp add: draws_active)
  have "vb_active (vbe_draw_string x y s fg bg v) = vb_active v" for x y s fg bg and v :: "'a vbe"
    by (induction s arbitrary: x v) (simp_all add: c)
  then show ?thesis using p c
    by (cases d) (simp_all add: gpu_draw_pixel_def gpu_clear_def vbe_clear_def gpu_fill_rect_def vbe_fill_rect_def gpu_draw_char_def
        gpu_draw_string_def draws_active fold_active Let_def del: upto_rec_numeral)
qed

lemma gpu_calls_active: "vb_active (gu_vbe (gpu_calls ds st)) = vb_active (gu_vbe st)" "gu_fallback (gpu_calls ds st) = gu_fallback st"
  by (simp_all add: gpu_calls_def on_vbe_def fold_active gpu_call_active)

lemma cg_drawn_keeps: "cg_drawn env L st = Goes st1 \<Longrightarrow> cg_row st1 = cg_row st \<and> cg_col st1 = cg_col st"
proof -
  have "cg_row (paint_calls ds s) = cg_row s \<and> cg_col (paint_calls ds s) = cg_col s" for ds and s :: "'a calc_gui"
    using paint_calls_vbe [of ds s] by auto
  then show "cg_drawn env L st = Goes st1 \<Longrightarrow> cg_row st1 = cg_row st \<and> cg_col st1 = cg_col st"
    by (auto simp: cg_drawn_def flush_screen_def Let_def gpu_calls_def on_vbe_def split: option.splits)
qed

lemma cg_step_ends:
  assumes "cg_rel p st" and "press_all pocket_press (cg_presses env (calc_layout_of v) st) p = Some p1"
  shows "round_ok False False (cg_rel p1) (cg_step env (calc_layout_of v) st)"
proof (rule round_okI [OF cg_step_rel [OF assms refl]])
  have press: "press_to c s1 \<noteq> Reboots s2" for c s1 and s2 :: "'a calc_gui" by (simp add: press_to_def split: option.split)
  then have "cg_typed ch s1 \<noteq> Reboots s2" for ch s1 and s2 :: "'a calc_gui"
    by (simp add: cg_typed_press split: list.split)
  then have key: "with_key env cg_key s1 \<noteq> Reboots s2" for s1 and s2 :: "'a calc_gui"
    by (auto simp: with_key_def cg_key_def act_bind_Reboots split: prod.splits)
  show "False \<or> False" if "cg_step env (calc_layout_of v) st = Reboots s" for s
    using that press key unfolding cg_step_def act_bind_Reboots Let_def
    by (auto simp: no_reboots act_bind_Reboots split: option.splits)
qed simp

text \<open>
  C18.  A round of either program.  On the desktop a click presses the button whose face, in the
  picture, has the pointer in it, and a click in the red box closes the program; in CALC-GUI
  a new click presses the button whose face has the pointer in it, and a key the button of its
  character, Enter the selected one.  From a state that shows what the pocket calculator
  shows, the round goes to one that shows what it shows after these buttons.  No round traps,
  and the desktop's restarts the machine only for a click in the red box or for Escape.
\<close>
theorem calculator_rounds_press:
  assumes "calc_rel p a" and "press_all pocket_press (calc_presses env a) p = Some p1"
    and "cg_rel q b" and "press_all pocket_press (cg_presses env (calc_layout_of v) b) q = Some q1"
  shows "round_ok (calc_closes env a) (escape_comes env) (calc_rel p1) (calc_step env a) \<and>
    round_ok False False (cg_rel q1) (cg_step env (calc_layout_of v) b)"
  using assms by (blast intro: calc_step_ends cg_step_ends)

text \<open>A click on the button \<^verbatim>\<open>7\<close> of the first, and the key \<^verbatim>\<open>5\<close> on the second.\<close>

definition clicked_seven :: "unit calc_state" where
  "clicked_seven = calc_at_rest\<lparr>gu_mouse := mouse_start\<lparr>ms_initialized := True, ms_left := True, ms_x := 75, ms_y := 105\<rparr>\<rparr>"

definition key_five :: "unit gui_env" where
  "key_five = idle_env\<lparr>ge_hit := (\<lambda>d. (True, d)), ge_getkey := (\<lambda>d. (0x0635, d))\<rparr>"

lemma key_five_poll: "ms_initialized m \<Longrightarrow> mouse_poll (ge_mouse key_five) m d = Some (m, d)"
  by (simp add: key_five_def idle_env_def mouse_poll_def mouse_poll_loop.simps)

lemma key_five_sel: "ge_hit key_five d = (True, d)" "ge_getkey key_five d = (0x0635, d)"
  by (simp_all add: key_five_def)

theorem calculator_rounds_press_witness:
  "round_ok (calc_closes key_five clicked_seven) (escape_comes key_five)
      (calc_rel (pocket_start\<lparr>pk_shown := 7, pk_len := 1, pk_view := Typed [55]\<rparr>)) (calc_step key_five clicked_seven) \<and>
    round_ok False False (cg_rel (pocket_start\<lparr>pk_shown := 5, pk_len := 1, pk_view := Typed [53]\<rparr>))
      (cg_step key_five (calc_layout_of (gu_vbe cg_at_rest)) cg_at_rest)"
proof (rule calculator_rounds_press)
  have rest: "gu_mouse clicked_seven = mouse_start\<lparr>ms_initialized := True, ms_left := True, ms_x := 75, ms_y := 105\<rparr>"
    "gu_width clicked_seven = 320" "gu_height clicked_seven = 200" "gu_buffer clicked_seven = 0" "\<not> ca_redraw clicked_seven"
    by (simp_all add: clicked_seven_def calc_at_rest_def gui.defs calc_state.defs screen_at_rest_def)
  have s: "set_dev () st = (st :: (unit, 'm) gui_scheme)" for st :: "(unit, 'm) gui_scheme" by (simp add: set_dev_vbe)
  have "poll_mouse key_five (restore_background (calc_refresh clicked_seven)) = Goes clicked_seven"
    using rest by (simp add: poll_mouse_def calc_refresh_def restore_background_def key_five_poll s)
  moreover have "calc_pressed clicked_seven = Some 4"
    using rest by (simp add: calc_pressed_def calc_corner_def calc_frame_def mouse_get_x_def mouse_get_y_def signed_divide_int_def upt_rec)
  ultimately show "press_all pocket_press (calc_presses key_five clicked_seven) pocket_start = Some (pocket_start\<lparr>pk_shown := 7, pk_len := 1, pk_view := Typed [55]\<rparr>)"
    unfolding calc_presses_def using rest by (simp only: act.case calc_face_under) (simp add: mouse_get_left_def
        calc_buttons_def lit_def pocket_press_def pocket_start_def type_digit_def)
  show "calc_rel pocket_start clicked_seven" using fresh_rel(1) [OF at_rest_fresh(1)] by (simp add: clicked_seven_def)
  show "cg_rel pocket_start cg_at_rest" by (rule fresh_rel(2) [OF at_rest_fresh(2)])
  have rc: "gu_mouse cg_at_rest = mouse_start\<lparr>ms_initialized := True\<rparr>" "gu_fallback cg_at_rest" "\<not> vb_active (gu_vbe cg_at_rest)"
    "cg_row cg_at_rest = 0" "cg_col cg_at_rest = 0"
    by (simp_all add: cg_at_rest_def gui.defs calc_gui.defs screen_at_rest_def)
  let ?L = "calc_layout_of (gu_vbe cg_at_rest)"
  have p: "poll_mouse key_five cg_at_rest = Goes cg_at_rest" using rc by (simp add: poll_mouse_def key_five_poll s)
  obtain st4 where d: "cg_drawn key_five ?L cg_at_rest = Goes st4" 
    using rc by (simp add: cg_drawn_def Let_def gpu_calls_active)
  have k: "cg_click_button ?L cg_at_rest = []"
    using rc by (simp add: cg_click_button_def mouse_get_left_def mouse_start_def)
  have r4: "cg_row st4 = 0 \<and> cg_col st4 = 0" using cg_drawn_keeps [OF d] rc by simp
  show "press_all pocket_press (cg_presses key_five ?L cg_at_rest) pocket_start = Some (pocket_start\<lparr>pk_shown := 5, pk_len := 1, pk_view := Typed [53]\<rparr>)"
    using r4 by (simp add: cg_presses_def p d k key_five_sel cg_key_button_def key_ascii_def pocket_press_def pocket_start_def type_digit_def)
qed

end
