(* ===== verification/Gui_Test.thy ===== *)
theory Gui_Test
  imports Gui_Calc
begin

text \<open>
  GUITEST: \<^verbatim>\<open>gpu_driver_test\<close> and its input box (\<^verbatim>\<open>src/src/rust_driver_stubs.c\<close>, lines 1020 and 1073 to
  1164), with the drawing functions of \<^verbatim>\<open>vbe_graphics.c\<close>, which the linker prefers to the weak ones.
  The keyboard is the list of the keys that are read; when it is used up the program waits for
  a key.  Escape reboots: the memory is then what \<^verbatim>\<open>gui_check_and_restore_screen\<close> finds.
\<close>

section \<open>The code\<close>

record 'd gpu_test =
  gt_vbe :: "'d vbe"
  gt_buf :: "u8 list"
  gt_len :: nat

definition input_box :: "'d gpu_test \<Rightarrow> draw list" where
  "input_box st = [Rect 10 175 300 20 0, Rect 12 177 296 16 1] @
     map (\<lambda>i. Glyph (15 + int i * 8) 179 (gt_buf st ! i) 14 1) [0..<min (gt_len st) 35] @
     [Rect (15 + int (gt_len st) * 8) 179 7 10 14]"

definition gui_draw_input_box :: "'d gpu_test \<Rightarrow> 'd gpu_test" where
  "gui_draw_input_box st = st\<lparr>gt_vbe := fold gpu_call (input_box st) (gt_vbe st)\<rparr>"

definition guitest_escape :: "u16 \<Rightarrow> bool" where
  "guitest_escape key \<longleftrightarrow> key_ascii key = 27 \<or> key_scan key = 0x01"

definition guitest_key :: "'d port_io \<Rightarrow> u16 \<Rightarrow> 'd gpu_test \<Rightarrow> 'd gpu_test act" where
  "guitest_key io key st =
     (let ascii = key_ascii key; scan = key_scan key
      in if guitest_escape key
         then Reboots (st\<lparr>gt_vbe := on_gfx (\<lambda>g. g\<lparr>g_dev := outb io 0x64 0xFE (g_dev g)\<rparr>) (gt_vbe st)\<rparr>)
         else if ascii = 8 \<or> scan = 0x0E
         then Goes (if gt_len st > 0 then gui_draw_input_box (st\<lparr>gt_len := gt_len st - 1\<rparr>) else st)
         else if ascii = 13 \<or> ascii = 10 then Goes (gui_draw_input_box (st\<lparr>gt_len := 0\<rparr>))
         else if ascii \<ge> 32 \<and> ascii < 127 \<and> gt_len st < 35
         then Goes (gui_draw_input_box (st\<lparr>gt_buf := (gt_buf st)[gt_len st := ascii], gt_len := gt_len st + 1\<rparr>))
         else Goes st)"

fun guitest_loop :: "'d port_io \<Rightarrow> u16 list \<Rightarrow> 'd gpu_test \<Rightarrow> 'd gpu_test act" where
  "guitest_loop io [] st = Goes st"
| "guitest_loop io (key # ks) st = act_bind (guitest_key io key st) (guitest_loop io ks)"

definition guitest_picture :: "draw list" where
  "guitest_picture =
     [Clear 1, Rect 20 25 80 50 4, Rect 120 25 80 50 2, Rect 220 25 80 50 9,
      Rect 20 95 80 50 14, Rect 120 95 80 50 5, Rect 220 95 80 50 3,
      Text 120 5 (lit ''RO-DOS GUI'') 14 1, Text 116 160 (lit ''ESC TO EXIT'') 14 1]"

definition gpu_driver_test ::
  "'d port_io \<Rightarrow> (u32 \<Rightarrow> u32) \<Rightarrow> u16 list \<Rightarrow> 'd gpu_test \<Rightarrow> 'd gpu_test act" where
  "gpu_driver_test io kmalloc ks st =
     (let v1 = snd (gpu_setup_framebuffer io kmalloc (on_gfx save_text_screen (gt_vbe st)));
          v2 = fold gpu_call guitest_picture v1
      in guitest_loop io ks (gui_draw_input_box (st\<lparr>gt_vbe := v2, gt_len := 0\<rparr>)))"

section \<open>The input field\<close>

text \<open>An abstract line of at most 35 characters.\<close>

definition field_key :: "u16 \<Rightarrow> u8 list \<Rightarrow> u8 list" where
  "field_key key s =
     (let ascii = key_ascii key
      in if ascii = 8 \<or> key_scan key = 0x0E then butlast s
         else if ascii = 13 \<or> ascii = 10 then []
         else if ascii \<ge> 32 \<and> ascii < 127 \<and> length s < 35 then s @ [ascii] else s)"

definition field_holds :: "u8 list \<Rightarrow> 'd gpu_test \<Rightarrow> bool" where
  "field_holds s st \<longleftrightarrow> length (gt_buf st) = 64 \<and> gt_len st = length s \<and> length s \<le> 35 \<and> take (length s) (gt_buf st) = s"

lemma field_holds_box [simp]: "field_holds s (gui_draw_input_box st) = field_holds s st"
  by (simp add: field_holds_def gui_draw_input_box_def)

lemma guitest_key_field:
  assumes "field_holds s st" and "\<not> guitest_escape key"
  shows "\<exists>st1. guitest_key io key st = Goes st1 \<and> field_holds (field_key key s) st1"
proof -
  have s: "length (gt_buf st) = 64" "gt_len st = length s" "length s \<le> 35" "take (length s) (gt_buf st) = s"
    using assms(1) by (simp_all add: field_holds_def)
  have b: "take (length s - 1) (gt_buf st) = butlast s"
    using s butlast_take [of "length s" "gt_buf st"] by simp
  have n: "take (Suc (length s)) ((gt_buf st)[length s := c]) = s @ [c]" if "length s < 35" for c
    using s that by (simp add: take_Suc_conv_app_nth)
  let ?a = "key_ascii key" let ?bksp = "?a = 8 \<or> key_scan key = 0x0E" let ?enter = "?a = 13 \<or> ?a = 10"
  let ?char = "?a \<ge> 32 \<and> ?a < 127 \<and> length s < 35"
  note step = guitest_key_def field_key_def Let_def if_not_P [OF assms(2)] s(2)
  consider ?bksp "s = []" | ?bksp "s \<noteq> []" | "\<not> ?bksp" ?enter | "\<not> ?bksp" "\<not> ?enter" ?char
    | "\<not> ?bksp" "\<not> ?enter" "\<not> ?char" by blast
  then show ?thesis
  proof cases
    case 1
    then show ?thesis using assms(1) by (simp add: step)
  next
    case 2
    then show ?thesis using s b by (simp add: step) (simp add: field_holds_def)
  next
    case 3
    then show ?thesis using s by (simp add: step) (simp add: field_holds_def)
  next
    case 4
    then show ?thesis using s n by (simp add: step) (simp add: field_holds_def)
  next
    case 5
    then show ?thesis unfolding step using assms(1) by (simp only: if_False) simp
  qed
qed

lemma guitest_loop_field:
  "field_holds s st \<Longrightarrow> \<forall>key \<in> set ks. \<not> guitest_escape key \<Longrightarrow>
     \<exists>st1. guitest_loop io ks st = Goes st1 \<and> field_holds (fold field_key ks s) st1"
proof (induction ks arbitrary: s st)
  case (Cons key ks)
  then obtain st1 where "guitest_key io key st = Goes st1" "field_holds (field_key key s) st1"
    using guitest_key_field [of s st key io] by auto
  with Cons show ?case by simp
qed simp

section \<open>What drawing touches\<close>

definition draw_area :: "'d vbe \<Rightarrow> u32 set" where
  "draw_area v =
     (if vb_active v then {get_draw_target v + of_nat k | k. k < 4 * nat (vbe_width v * vbe_height v)}
      else {VGA_HW_MEM + of_int off | off. 0 \<le> off \<and> off < 64000})"

text \<open>The description of the mode, which the boot loader leaves.\<close>

definition info_area :: "u32 set" where
  "info_area = {0x9000 + of_nat k | k. k < 9}"

definition paintable :: "'d vbe \<Rightarrow> bool" where
  "paintable v \<longleftrightarrow> info_area \<inter> draw_area v = {} \<and> (\<not> vb_active v \<longrightarrow> g_target (vb_gfx v) = VGA_HW_MEM)"

definition paints :: "'d vbe \<Rightarrow> 'd vbe \<Rightarrow> bool" where
  "paints v v1 \<longleftrightarrow> vb_active v1 = vb_active v \<and> vb_back v1 = vb_back v \<and> g_target (vb_gfx v1) = g_target (vb_gfx v) \<and>
     (\<forall>a. a \<notin> draw_area v \<longrightarrow> vbe_mem v1 a = vbe_mem v a)"

lemma paints_refl [simp]: "paints v v"
  by (simp add: paints_def)

lemma info_bytes: "k < 9 \<Longrightarrow> 0x9000 + of_nat k \<in> info_area"
  by (auto simp: info_area_def)

lemma paints_keeps:
  assumes "paintable v" and "paints v v1"
  shows "vbe_width v1 = vbe_width v" "vbe_height v1 = vbe_height v" "vbe_fb v1 = vbe_fb v"
    "draw_area v1 = draw_area v" "paintable v1"
proof -
  have k: "vbe_mem v1 (0x9000 + of_nat k) = vbe_mem v (0x9000 + of_nat k)" if "k < 9" for k
    using assms info_bytes [OF that] by (auto simp: paintable_def paints_def)
  from k [of 0] k [of 1] k [of 2] k [of 3] k [of 4] k [of 5] k [of 6] k [of 7]
  show w: "vbe_width v1 = vbe_width v" "vbe_height v1 = vbe_height v" "vbe_fb v1 = vbe_fb v"
    by (simp_all add: vbe_width_def vbe_height_def vbe_fb_def get16_def get32_def VBE_INFO_ADDR_def)
  show a: "draw_area v1 = draw_area v"
    using assms(2) w by (auto simp: draw_area_def paints_def get_draw_target_def)
  show "paintable v1" using assms a by (simp add: paintable_def paints_def)
qed

lemma paints_trans: "paintable v \<Longrightarrow> paints v v1 \<Longrightarrow> paints v1 v2 \<Longrightarrow> paints v v2"
  using paints_keeps(4) [of v v1] by (auto simp: paints_def)

lemma put32_fold_other:
  assumes "\<forall>(off, c) \<in> set ps. \<forall>j < 4. a \<noteq> base + 4 * of_int off + of_nat j"
  shows "fold (\<lambda>(off, c). put32 (base + 4 * of_int off) c) ps m a = m a"
  using assms
proof (induction ps arbitrary: m)
  case (Cons p ps)
  obtain off c where p: "p = (off, c)" by fastforce
  with Cons.prems have n: "\<forall>j < 4. a \<noteq> base + 4 * of_int off + of_nat j" by simp
  have "put32 (base + 4 * of_int off) c m a = m a"
    using n [rule_format, of 0] n [rule_format, of 1] n [rule_format, of 2] n [rule_format, of 3]
    by (intro put32_other) simp
  with Cons p show ?case by simp
qed simp

lemma paints_on_mem:
  "(\<And>a. a \<notin> draw_area v \<Longrightarrow> f (vbe_mem v) a = vbe_mem v a) \<Longrightarrow> paints v (on_mem f v)"
  by (simp add: paints_def on_mem_def on_gfx_def vbe_mem_def)

lemma paints_draws32:
  assumes v: "vb_active v" and ps: "\<forall>(off, c) \<in> set ps. 0 \<le> off \<and> off < vbe_width v * vbe_height v"
  shows "paints v (draws32 ps v)"
  unfolding draws32_def
proof (intro paints_on_mem put32_fold_other, safe)
  fix a off c and j :: nat
  assume a: "get_draw_target v + 4 * of_int off + of_nat j \<notin> draw_area v" and p: "(off, c) \<in> set ps" and j: "j < 4"
  have o: "0 \<le> off" "off < vbe_width v * vbe_height v" using ps p by auto
  then have "4 * nat off + j < 4 * nat (vbe_width v * vbe_height v)" using j by linarith
  moreover have "get_draw_target v + 4 * of_int off + of_nat j = get_draw_target v + of_nat (4 * nat off + j)"
    using o(1) by simp
  ultimately show False using a v unfolding draw_area_def by auto
qed

lemma paints_draws8:
  assumes "\<not> vb_active v" and "\<forall>(off, c) \<in> set ps. 0 \<le> off \<and> off < 64000"
  shows "paints v (draws8 ps v)"
  unfolding draws8_def
proof (intro paints_on_mem draws_other, safe)
  fix a off c
  assume "VGA_HW_MEM + of_int off \<notin> draw_area v" "(off, c) \<in> set ps"
  then show False using assms by (fastforce simp: draw_area_def)
qed

lemma paints_vga:
  assumes "paintable v" and "\<not> vb_active v" and "g_target (f (vb_gfx v)) = g_target (vb_gfx v)"
    and "\<And>a. a \<notin> vga_window (vb_gfx v) \<Longrightarrow> g_mem (f (vb_gfx v)) a = g_mem (vb_gfx v) a"
  shows "paints v (on_gfx f v)"
  using assms by (auto simp: paints_def on_gfx_def vbe_mem_def draw_area_def paintable_def vga_window_def)

lemma in_rows: "0 \<le> x \<Longrightarrow> x < w \<Longrightarrow> 0 \<le> y \<Longrightarrow> y < h \<Longrightarrow> 0 \<le> y * w + x \<and> y * w + x < w * (h :: int)"
  using pixel_index [of x w y h] by linarith

lemma paints_fold:
  assumes "paintable v" and "\<And>x v1. paintable v1 \<Longrightarrow> vb_active v1 = vb_active v \<Longrightarrow> paints v1 (f x v1)"
  shows "paints v (fold f xs v)"
  using assms
proof (induction xs arbitrary: v)
  case (Cons x xs)
  have p: "paints v (f x v)" using Cons.prems by simp
  moreover have "vb_active (f x v) = vb_active v" using p by (simp add: paints_def)
  then have "paints (f x v) (fold f xs (f x v))"
    using Cons.prems paints_keeps(5) [OF Cons.prems(1) p] by (intro Cons.IH) auto
  ultimately show ?case using Cons.prems(1) by (auto intro: paints_trans)
qed simp

lemma pixel_paints: "paintable v \<Longrightarrow> paints v (vbe_draw_pixel x y c v)"
  unfolding vbe_draw_pixel_def
  using screen_offset [of x y] in_rows [of x "vbe_width v" y "vbe_height v"]
  by (auto intro!: paints_draws8 paints_draws32)

lemma rect_paints: "paintable v \<Longrightarrow> paints v (vbe_fill_rect x y w h c v)"
proof (cases "vb_active v")
  case True
  define x1 y1 where "x1 = (if x < 0 then 0 else x)" and "y1 = (if y < 0 then 0 else y)"
  define x2 where "x2 = (if i32 (x + w) > vbe_width v then vbe_width v else i32 (x + w))"
  define y2 where "y2 = (if i32 (y + h) > vbe_height v then vbe_height v else i32 (y + h))"
  have b: "0 \<le> x1" "0 \<le> y1" "x2 \<le> vbe_width v" "y2 \<le> vbe_height v" by (simp_all add: x1_def y1_def x2_def y2_def)
  have "0 \<le> py * vbe_width v + x1 + k \<and> py * vbe_width v + x1 + k < vbe_width v * vbe_height v"
    if "py \<in> {y1..y2 - 1}" "k \<in> {0..x2 - x1 - 1}" for py k
    unfolding add.assoc using that b by (intro in_rows) auto
  then have "paints v (draws32 [(py * vbe_width v + x1 + k, c). py \<leftarrow> [y1..y2 - 1], k \<leftarrow> [0..x2 - x1 - 1]] v)"
    by (intro paints_draws32 [OF True]) force
  then show ?thesis
    unfolding vbe_fill_rect_def Let_def x1_def [symmetric] y1_def [symmetric] x2_def [symmetric] y2_def [symmetric]
    using True by simp
next
  case False
  assume "paintable v"
  with False show ?thesis
    unfolding vbe_fill_rect_def by (simp add: paints_fold pixel_paints)
qed

lemma char_paints_active:
  assumes v: "vb_active v"
  shows "paints v (vbe_draw_char x y ch fg bg v)"
proof -
  have r: "0 \<le> i32 (y + row) * vbe_width v + i32 (x + col) \<and> i32 (y + row) * vbe_width v + i32 (x + col) < vbe_width v * vbe_height v"
    if "\<not> (i32 (y + row) < 0 \<or> i32 (y + row) \<ge> vbe_height v)" "\<not> (i32 (x + col) < 0 \<or> i32 (x + col) \<ge> vbe_width v)" for row col
    using that by (intro in_rows) auto
  show ?thesis
    unfolding vbe_draw_char_def Let_def if_not_P [OF not_not [THEN iffD2, OF v]]
    by (rule paints_draws32 [OF v]) (use r in \<open>auto simp del: upto_rec_numeral de_Morgan_disj\<close>)
qed

lemma char_paints:
  assumes "paintable v" and "call_inside (Glyph x y ch fg bg)"
  shows "paints v (vbe_draw_char x y ch fg bg v)"
proof (cases "vb_active v")
  case True
  then show ?thesis by (rule char_paints_active)
next
  case False
  have "g_target (vga_draw_char x y c fg bg g) = g_target g" for c and g :: "'a gfx"
    by (simp add: vga_draw_char_def draw_on_def Let_def)
  with False assms show ?thesis
    unfolding vbe_draw_char_def Let_def by (auto intro!: paints_vga char_outside)
qed

text \<open>In the fallback mode a string is the string of the other driver.\<close>

lemma char_question: "vga_draw_char x y (if ch > 127 then chr CHR ''?'' else ch) = vga_draw_char x y ch"
  by (intro ext) (simp add: vga_draw_char_def chr_def of_char_def)

lemma string_fallback: "\<not> vb_active v \<Longrightarrow> vbe_draw_string x y s fg bg v = on_gfx (vga_draw_string x y s fg bg) v"
proof (induction s arbitrary: x v)
  case Nil
  then show ?case by (simp add: on_gfx_def)
next
  case (Cons ch s)
  have "vbe_draw_char x y ch fg bg v = on_gfx (vga_draw_char x y ch fg bg) v"
    using Cons.prems by (simp only: vbe_draw_char_def Let_def char_question if_True simp_thms)
  then show ?case using Cons by (simp add: on_gfx_def)
qed

lemma string_paints:
  assumes "paintable v" and "call_inside (Text x y s fg bg)"
  shows "paints v (vbe_draw_string x y s fg bg v)"
proof (cases "vb_active v")
  case True
  show ?thesis using assms(1) True
  proof (induction s arbitrary: x v)
    case (Cons ch s)
    have p: "paints v (vbe_draw_char x y ch fg bg v)" by (rule char_paints_active [OF Cons.prems(2)])
    then have "vb_active (vbe_draw_char x y ch fg bg v)" using Cons.prems(2) by (simp add: paints_def)
    then show ?case using Cons.IH p Cons.prems(1) by (auto intro: paints_trans paints_keeps)
  qed simp
next
  case False
  have "g_target (vga_draw_string x y s fg bg g) = g_target g" for g :: "'a gfx"
    by (induction s arbitrary: x g) (simp_all add: vga_draw_char_def draw_on_def Let_def)
  moreover have "g_mem (vga_draw_string x y s fg bg (vb_gfx v)) a = g_mem (vb_gfx v) a" if "a \<notin> vga_window (vb_gfx v)" for a
    using string_outside [of y x s a "vb_gfx v" fg bg] assms(2) that by (auto simp: abs_less_iff)
  ultimately show ?thesis
    unfolding string_fallback [OF False] using assms(1) False by (intro paints_vga)
qed

lemma gpu_call_paints: "paintable v \<Longrightarrow> call_inside d \<Longrightarrow> paints v (gpu_call d v)"
proof (cases d)
  case (Clear c)
  show ?thesis
    unfolding Clear gpu_call.simps gpu_clear_def vbe_clear_def
    by (auto intro!: paints_draws8 paints_draws32 simp del: upto_rec_numeral)
qed (simp_all only: gpu_call.simps gpu_draw_pixel_def gpu_fill_rect_def gpu_draw_char_def gpu_draw_string_def
    pixel_paints rect_paints char_paints string_paints)

lemma gpu_calls_paints: "paintable v \<Longrightarrow> \<forall>d \<in> set ds. call_inside d \<Longrightarrow> paints v (fold gpu_call ds v)"
proof (induction ds arbitrary: v)
  case (Cons d ds)
  then have p: "paints v (gpu_call d v)" by (simp add: gpu_call_paints)
  with Cons show ?case by (auto intro: paints_trans paints_keeps)
qed simp

section \<open>A whole run\<close>

lemma input_box_inside: "\<forall>d \<in> set (input_box st). call_inside d"
  by (auto simp: input_box_def)

lemma guitest_picture_inside: "\<forall>d \<in> set guitest_picture. call_inside d"
  by (simp add: guitest_picture_def lit_def)

lemma box_paints: "paintable v \<Longrightarrow> paints v (gt_vbe st) \<Longrightarrow> paints v (gt_vbe (gui_draw_input_box st))"
  using gpu_calls_paints [OF paints_keeps(5) input_box_inside, of v "gt_vbe st" st]
  by (auto simp: gui_draw_input_box_def intro: paints_trans)

lemma guitest_loop_ends:
  assumes "paintable v" and "paints v (gt_vbe st)"
  shows "\<exists>st1. guitest_loop io ks st = (if \<exists>key \<in> set ks. guitest_escape key then Reboots st1 else Goes st1) \<and>
    paints v (gt_vbe st1)"
  using assms(2)
proof (induction ks arbitrary: st)
  case (Cons key ks)
  show ?case
  proof (cases "guitest_escape key")
    case True
    then show ?thesis using Cons.prems
      by (simp add: guitest_key_def) (simp add: paints_def on_gfx_def vbe_mem_def)
  next
    case False
    then have "\<exists>st1. guitest_key io key st = Goes st1 \<and> paints v (gt_vbe st1)"
      using Cons.prems assms(1) by (simp add: guitest_key_def Let_def box_paints)
    with Cons.IH False show ?thesis by fastforce
  qed
qed simp

definition guitest_setup :: "'d port_io \<Rightarrow> (u32 \<Rightarrow> u32) \<Rightarrow> 'd gpu_test \<Rightarrow> 'd vbe" where
  "guitest_setup io kmalloc st = snd (gpu_setup_framebuffer io kmalloc (on_gfx save_text_screen (gt_vbe st)))"

lemma guitest_run:
  assumes "paintable (guitest_setup io kmalloc st)"
  shows "\<exists>st1. gpu_driver_test io kmalloc ks st = (if \<exists>key \<in> set ks. guitest_escape key then Reboots st1 else Goes st1) \<and>
    paints (guitest_setup io kmalloc st) (gt_vbe st1)"
  unfolding gpu_driver_test_def Let_def guitest_setup_def [symmetric]
  using assms gpu_calls_paints [OF assms guitest_picture_inside] by (intro guitest_loop_ends box_paints) simp_all

lemma save_text_outside:
  assumes "a \<notin> backup_area"
  shows "g_mem (save_text_screen g) a = g_mem g a"
proof -
  have f: "a \<noteq> 0x9F000 + of_nat k" if "k < 12" for k using assms that by (auto simp: backup_area_def)
  have "copy_cells 0x90000 0xB8000 (g_mem g) a = g_mem g a"
    using assms by (subst copy_cells_value) (auto simp: backup_area_def)
  then show ?thesis
    using f [of 0] f [of 1] f [of 2] f [of 3] f [of 4] f [of 5] f [of 6] f [of 7] f [of 8] f [of 9] f [of 10] f [of 11]
    by (simp add: save_text_screen_def backup_consts put32_other)
qed

lemma info_backup: "info_area \<inter> backup_area = {}"
proof -
  have "(0x9000 :: u32) + of_nat k \<noteq> 0x90000 + of_nat j" if "k < 9" "j < 4000" for k j
    by (rule addr_ne) (use that in simp_all)
  moreover have "(0x9000 :: u32) + of_nat k \<noteq> 0x9F000 + of_nat i" if "k < 9" "i < 12" for k i
    by (rule addr_ne) (use that in simp_all)
  ultimately show ?thesis by (auto simp: info_area_def backup_area_def)
qed

lemma saved_info:
  "vbe_width (on_gfx save_text_screen v) = vbe_width v" "vbe_height (on_gfx save_text_screen v) = vbe_height v"
  "vbe_fb (on_gfx save_text_screen v) = vbe_fb v"
proof -
  have k: "vbe_mem (on_gfx save_text_screen v) (0x9000 + of_nat k) = vbe_mem v (0x9000 + of_nat k)" if "k < 9" for k
    using info_bytes [OF that] info_backup by (auto simp: vbe_mem_def on_gfx_def intro!: save_text_outside)
  from k [of 0] k [of 1] k [of 2] k [of 3] k [of 4] k [of 5] k [of 6] k [of 7]
  show "vbe_width (on_gfx save_text_screen v) = vbe_width v" "vbe_height (on_gfx save_text_screen v) = vbe_height v"
    "vbe_fb (on_gfx save_text_screen v) = vbe_fb v"
    by (simp_all add: vbe_width_def vbe_height_def vbe_fb_def get16_def get32_def VBE_INFO_ADDR_def)
qed

text \<open>What is typed stands in the input buffer, in both modes.\<close>

theorem guitest_input:
  assumes "length (gt_buf st) = 64" and "\<forall>key \<in> set ks. \<not> guitest_escape key"
  shows "\<exists>st1. gpu_driver_test io kmalloc ks st = Goes st1 \<and> field_holds (fold field_key ks []) st1"
  unfolding gpu_driver_test_def Let_def
  using assms by (intro guitest_loop_field) (simp_all add: field_holds_def [of "[]"])

definition has_framebuffer :: "'d gpu_test \<Rightarrow> bool" where
  "has_framebuffer st \<longleftrightarrow> vbe_fb (gt_vbe st) \<noteq> 0 \<and> vbe_width (gt_vbe st) \<ge> 640 \<and> vbe_height (gt_vbe st) \<ge> 480"

lemma setup_fallback:
  assumes "\<not> has_framebuffer st"
  shows "vbe_mem (guitest_setup io kmalloc st) = g_mem (save_text_screen (vb_gfx (gt_vbe st)))"
    and "\<not> vb_active (guitest_setup io kmalloc st)"
    and "g_target (vb_gfx (guitest_setup io kmalloc st)) = g_target (vb_gfx (gt_vbe st))"
proof -
  have "\<not> (vbe_fb (on_gfx save_text_screen (gt_vbe st)) \<noteq> 0 \<and> vbe_width (on_gfx save_text_screen (gt_vbe st)) \<ge> 640 \<and>
      vbe_height (on_gfx save_text_screen (gt_vbe st)) \<ge> 480)"
    using assms unfolding saved_info has_framebuffer_def .
  note no = if_not_P [OF this]
  show "vbe_mem (guitest_setup io kmalloc st) = g_mem (save_text_screen (vb_gfx (gt_vbe st)))"
    and "\<not> vb_active (guitest_setup io kmalloc st)"
    and "g_target (vb_gfx (guitest_setup io kmalloc st)) = g_target (vb_gfx (gt_vbe st))"
    unfolding guitest_setup_def gpu_setup_framebuffer_def no
    by (simp_all add: on_gfx_def vbe_log_def Let_def set_mode_13h_def vbe_mem_def save_text_screen_def)
qed

lemma window_apart: "p \<in> info_area \<union> backup_area \<Longrightarrow> p \<notin> {VGA_HW_MEM + of_int off | off. 0 \<le> off \<and> off < 64000}"
proof
  assume "p \<in> {VGA_HW_MEM + of_int off | off. 0 \<le> off \<and> off < 64000}"
  then obtain off where "p = VGA_HW_MEM + of_int off" "0 \<le> off" "off < 64000" by blast
  then have "p = 0xA0000 + of_nat (nat off)" "nat off < 64000" by (simp_all add: VGA_HW_MEM_def)
  moreover assume "p \<in> info_area \<union> backup_area"
  then obtain q k where "p = q + of_nat k" "unat q + k < 0xA0000" "q \<in> {0x9000, 0x90000, 0x9F000}"
    by (auto simp: info_area_def backup_area_def)
  ultimately show False using addr_ne [of "0xA0000" "nat off" q k] by auto
qed

text \<open>
  C39.  GUITEST and back: in the 320 by 200 mode, when Escape is among the keys, the program reboots,
  and a start-up that finds the backup area of the memory as the program left it
  restores every cell of the text screen and the cursor of the moment GUITEST was called.
\<close>
theorem guitest_returns_to_text:
  assumes "\<not> has_framebuffer st" and "g_target (vb_gfx (gt_vbe st)) = VGA_HW_MEM"
    and "\<exists>key \<in> set ks. guitest_escape key"
  shows "\<exists>st1. gpu_driver_test io kmalloc ks st = Reboots st1 \<and>
    (\<forall>g1. (\<forall>a \<in> backup_area. g_mem g1 a = vbe_mem (gt_vbe st1) a) \<longrightarrow>
      (\<exists>g2. gui_check_and_restore_screen hw g1 = (1, g2) \<and>
        (\<forall>k < 4000. g_mem g2 (VGA_TEXT_MEM + of_nat k) = vbe_mem (gt_vbe st) (VGA_TEXT_MEM + of_nat k)) \<and>
        g_row g2 = g_row (vb_gfx (gt_vbe st)) \<and> g_col g2 = g_col (vb_gfx (gt_vbe st))))"
proof -
  note su = setup_fallback [OF assms(1), of io kmalloc]
  let ?v = "guitest_setup io kmalloc st"
  have area: "draw_area ?v = {VGA_HW_MEM + of_int off | off. 0 \<le> off \<and> off < 64000}" using su(2) by (simp add: draw_area_def)
  then have "paintable ?v" using window_apart assms(2) su(3) by (fastforce simp: paintable_def)
  from guitest_run [OF this, of ks] assms(3) obtain st1
    where run: "gpu_driver_test io kmalloc ks st = Reboots st1" and p: "paints ?v (gt_vbe st1)" by auto
  have "vbe_mem (gt_vbe st1) a = g_mem (save_text_screen (vb_gfx (gt_vbe st))) a" if "a \<in> backup_area" for a
    using p that window_apart [of a] su(1) unfolding paints_def area by auto
  then have "\<exists>g2. gui_check_and_restore_screen hw g1 = (1, g2) \<and>
      (\<forall>k < 4000. g_mem g2 (VGA_TEXT_MEM + of_nat k) = vbe_mem (gt_vbe st) (VGA_TEXT_MEM + of_nat k)) \<and>
      g_row g2 = g_row (vb_gfx (gt_vbe st)) \<and> g_col g2 = g_col (vb_gfx (gt_vbe st))"
    if "\<forall>a \<in> backup_area. g_mem g1 a = vbe_mem (gt_vbe st1) a" for g1
    using text_screen_survives [of g1 "vb_gfx (gt_vbe st)" hw] that by (auto simp: vbe_mem_def)
  with run show ?thesis by blast
qed

text \<open>A frame buffer with a second buffer: nothing of it is ever shown.\<close>

lemma setup_framebuffer:
  assumes "has_framebuffer st" and "kmalloc (of_int (vbe_width (gt_vbe st) * vbe_height (gt_vbe st) * 4)) = ptr" and "ptr \<noteq> 0"
  shows "vbe_mem (guitest_setup io kmalloc st) = g_mem (save_text_screen (vb_gfx (gt_vbe st)))"
    and "vb_active (guitest_setup io kmalloc st)" and "vb_back (guitest_setup io kmalloc st) = ptr"
proof -
  note yes = if_P [OF assms(1) [unfolded has_framebuffer_def]]
  show "vbe_mem (guitest_setup io kmalloc st) = g_mem (save_text_screen (vb_gfx (gt_vbe st)))"
    and "vb_active (guitest_setup io kmalloc st)" and "vb_back (guitest_setup io kmalloc st) = ptr"
    unfolding guitest_setup_def gpu_setup_framebuffer_def saved_info yes Let_def assms(2) if_P [OF assms(3)]
    by (simp_all add: on_gfx_def vbe_log_def vbe_mem_def)
qed

definition pixels :: "u32 \<Rightarrow> 'd gpu_test \<Rightarrow> u32 set" where
  "pixels base st = {base + of_nat k | k. k < 4 * nat (vbe_width (gt_vbe st) * vbe_height (gt_vbe st))}"

text \<open>
  With a frame buffer and memory for a second buffer, GUITEST draws into the second buffer and never
  copies it: after any keys no byte of the picture on the screen has changed.
\<close>
theorem guitest_never_shown:
  assumes "has_framebuffer st" and "kmalloc (of_int (vbe_width (gt_vbe st) * vbe_height (gt_vbe st) * 4)) = ptr" and "ptr \<noteq> 0"
    and "pixels ptr st \<inter> info_area = {}" and "pixels ptr st \<inter> pixels (vbe_fb (gt_vbe st)) st = {}"
    and "pixels (vbe_fb (gt_vbe st)) st \<inter> backup_area = {}"
  shows "\<exists>st1. gpu_driver_test io kmalloc ks st = (if \<exists>key \<in> set ks. guitest_escape key then Reboots st1 else Goes st1) \<and>
    (\<forall>a \<in> pixels (vbe_fb (gt_vbe st)) st. vbe_mem (gt_vbe st1) a = vbe_mem (gt_vbe st) a)"
proof -
  note su = setup_framebuffer [OF assms(1), where kmalloc = kmalloc and io = io, OF assms(2,3)]
  let ?v = "guitest_setup io kmalloc st"
  have "vbe_mem ?v = vbe_mem (on_gfx save_text_screen (gt_vbe st))" using su(1) by (simp add: vbe_mem_def on_gfx_def)
  then have "vbe_width ?v = vbe_width (on_gfx save_text_screen (gt_vbe st))" "vbe_height ?v = vbe_height (on_gfx save_text_screen (gt_vbe st))"
    by (simp_all add: vbe_width_def vbe_height_def)
  then have area: "draw_area ?v = pixels ptr st" using su assms(3) by (simp add: draw_area_def pixels_def get_draw_target_def saved_info)
  then have "paintable ?v" using assms(4) su(2) by (auto simp: paintable_def)
  from guitest_run [OF this, of ks] obtain st1 where
    run: "gpu_driver_test io kmalloc ks st = (if \<exists>key \<in> set ks. guitest_escape key then Reboots st1 else Goes st1)"
    and p: "paints ?v (gt_vbe st1)" by blast
  have "vbe_mem (gt_vbe st1) a = vbe_mem (gt_vbe st) a" if a: "a \<in> pixels (vbe_fb (gt_vbe st)) st" for a
  proof -
    have "vbe_mem (gt_vbe st1) a = vbe_mem ?v a" using p a assms(5) unfolding paints_def area by auto
    also have "\<dots> = g_mem (vb_gfx (gt_vbe st)) a" unfolding su(1) using a assms(6) by (intro save_text_outside) auto
    finally show ?thesis by (simp add: vbe_mem_def)
  qed
  with run show ?thesis by blast
qed

section \<open>Witnesses\<close>

text \<open>A machine whose ports do nothing, without a frame buffer and with one of 640 by 480 pixels.\<close>

definition test_machine :: "u16 \<Rightarrow> u16 \<Rightarrow> u32 \<Rightarrow> unit gpu_test" where
  "test_machine w h fb =
     (let m = ((\<lambda>_. 0)(0x9004 := ucast w, 0x9005 := ucast (drop_bit 8 w), 0x9006 := ucast h, 0x9007 := ucast (drop_bit 8 h))) :: mem
      in \<lparr>gt_vbe = \<lparr>vb_gfx = blank_gfx\<lparr>g_mem := put32 0x9000 fb m\<rparr>, vb_active = False, vb_back = 0, vb_size = 0\<rparr>,
          gt_buf = replicate 64 0, gt_len = 0\<rparr>)"

lemma test_machine_info:
  "vbe_width (gt_vbe (test_machine 640 480 0x10000000)) = 640" "vbe_height (gt_vbe (test_machine 640 480 0x10000000)) = 480"
  "vbe_fb (gt_vbe (test_machine 640 480 0x10000000)) = 0x10000000" "vbe_fb (gt_vbe (test_machine 0 0 0)) = 0"
  by (simp_all add: test_machine_def vbe_width_def vbe_height_def vbe_fb_def vbe_mem_def get16_def get32_def put32_def VBE_INFO_ADDR_def
      blank_gfx_def Let_def)

theorem guitest_returns_to_text_witness:
  "\<exists>st1. gpu_driver_test (ge_io idle_env) (\<lambda>_. 0) [0x1E61, 0x011B] (test_machine 0 0 0) = Reboots st1 \<and>
    (\<forall>g1. (\<forall>a \<in> backup_area. g_mem g1 a = vbe_mem (gt_vbe st1) a) \<longrightarrow>
      (\<exists>g2. gui_check_and_restore_screen (\<lambda>_ _ d. d) (g1 :: unit gfx) = (1, g2) \<and> g_row g2 = 0))"
proof -
  have "\<not> has_framebuffer (test_machine 0 0 0)" by (simp add: has_framebuffer_def test_machine_info)
  moreover have "g_target (vb_gfx (gt_vbe (test_machine 0 0 0))) = VGA_HW_MEM" "g_row (vb_gfx (gt_vbe (test_machine 0 0 0))) = 0"
    by (simp_all add: test_machine_def blank_gfx_def Let_def)
  moreover have "\<exists>key \<in> set [0x1E61, 0x011B]. guitest_escape key" by (simp add: guitest_escape_def key_ascii_def)
  ultimately show ?thesis
    using guitest_returns_to_text [of "test_machine 0 0 0" "[0x1E61, 0x011B]" "ge_io idle_env" "\<lambda>_. 0" "\<lambda>_ _ d. d"] by fastforce
qed

lemma pixels_apart:
  assumes "unat p + 4 * 307200 \<le> unat q" and "unat q + 4 * 307200 < 2 ^ 32"
  shows "pixels p (test_machine 640 480 0x10000000) \<inter> pixels q (test_machine 640 480 0x10000000) = {}"
proof -
  have "p + of_nat k \<noteq> q + of_nat j" if "k < 4 * 307200" "j < 4 * 307200" for k j
    by (rule addr_ne) (use that assms in simp_all)
  then show ?thesis by (auto simp: pixels_def test_machine_info)
qed

theorem guitest_never_shown_witness:
  "\<exists>st1. gpu_driver_test (ge_io idle_env) (\<lambda>_. 0x00200000) [0x1E61] (test_machine 640 480 0x10000000) = Goes st1 \<and>
    (\<forall>a \<in> pixels 0x10000000 (test_machine 640 480 0x10000000).
       vbe_mem (gt_vbe st1) a = vbe_mem (gt_vbe (test_machine 640 480 0x10000000)) a)"
proof -
  let ?m = "test_machine 640 480 0x10000000"
  have "has_framebuffer ?m" by (simp add: has_framebuffer_def test_machine_info)
  moreover have low: "unat a < 0xA0000" if "a \<in> info_area \<union> backup_area" for a
    using that by (auto simp: info_area_def backup_area_def unat_word_ariths unat_of_nat)
  have high: "0xA0000 \<le> unat a" if "a \<in> pixels p ?m" "p = 0x00200000 \<or> p = 0x10000000" for a p
    using that by (auto simp: pixels_def test_machine_info unat_word_ariths unat_of_nat)
  have "pixels 0x00200000 ?m \<inter> info_area = {}" "pixels 0x10000000 ?m \<inter> backup_area = {}"
    using low high by (auto simp: disjoint_iff not_less [symmetric])
  moreover have "pixels 0x00200000 ?m \<inter> pixels 0x10000000 ?m = {}" by (rule pixels_apart) simp_all
  moreover have "\<not> (\<exists>key \<in> set [0x1E61]. guitest_escape key)" by (simp add: guitest_escape_def key_ascii_def key_scan_def)
  ultimately show ?thesis
    using guitest_never_shown [of ?m "\<lambda>_. 0x00200000" "0x00200000" "ge_io idle_env" "[0x1E61]"] by (simp add: test_machine_info)
qed

end
