(* ===== verification/Firmware.thy ===== *)
theory Firmware
  imports C_Prelude
begin

text \<open>
  The table of firmware images, \<^verbatim>\<open>src/src/firmware_loader.c\<close> with its header
  \<^verbatim>\<open>src/include/firmware.h\<close>: the two images, the lookup by identifier, and the loader, which stores
  nothing on the device.  A pointer into the table is its index.
\<close>

record firmware_blob =
  fw_id :: u32
  fw_data :: "u8 list"
  fw_size :: u32
  fw_version :: "u8 list"

definition FW_INTEL_IWLINUX :: u32 where "FW_INTEL_IWLINUX = 1"
definition FW_REALTEK_RTL8188 :: u32 where "FW_REALTEK_RTL8188 = 2"
definition FW_ATHEROS_ATH9K :: u32 where "FW_ATHEROS_ATH9K = 3"

lemmas firmware_ids = FW_INTEL_IWLINUX_def FW_REALTEK_RTL8188_def FW_ATHEROS_ATH9K_def

definition fw_intel_data :: "u8 list" where
  "fw_intel_data =
    [0x01, 0x00, 0x00, 0x00, 0x86, 0x80, 0xAD, 0xDE, 0x00, 0x10, 0x00, 0x00, 0x00, 0x00, 0x00, 0x00,
     0xE8, 0x00, 0x00, 0x00, 0x00, 0x58, 0x83, 0xC0, 0x15, 0xFF, 0xE0, 0x90, 0x90, 0x90, 0x90, 0xCC,
     0xCC, 0xCC, 0xCC, 0xB0, 0x01, 0xE6, 0x80, 0xB0, 0x03, 0xE6, 0x81, 0xB8, 0x00, 0xC0, 0x00, 0x00,
     0xBA, 0x00, 0x03, 0x00, 0x00, 0xEF, 0x00, 0x11, 0x22, 0x33, 0x44, 0x55, 0xFF, 0xFF, 0x10, 0x20,
     0x30, 0x40, 0x50, 0x60, 0x70, 0x80, 0x90, 0xA0, 0xB0, 0xC0, 0xD0, 0xE0, 0xF0, 0x00, 0x01, 0x02,
     0x03, 0x04, 0x05, 0x06, 0x07, 0x08, 0x09, 0x0A, 0x0B, 0x0C, 0x0D, 0x0E, 0x0F, 0x10, 0x55, 0xAA,
     0x55, 0xAA, 0x00, 0xFF, 0x00, 0xFF, 0xCA, 0xFE, 0xBA, 0xBE, 0xDE, 0xAD, 0xBE, 0xEF, 0xFF, 0xFF,
     0xFF, 0xFF]"

definition fw_realtek_data :: "u8 list" where
  "fw_realtek_data =
    [0x52, 0x54, 0x4C, 0x38, 0x31, 0x38, 0x38, 0x00, 0x01, 0x02, 0x03, 0x04, 0x12, 0x34, 0x56, 0x78,
     0x9A, 0xBC, 0xDE, 0xF0, 0x0F, 0x0F, 0x0F, 0x0F, 0x0A, 0x0A, 0x0A, 0x0A, 0x00, 0x00, 0x00, 0x00]"

definition firmwares :: "firmware_blob list" where
  "firmwares =
     [\<lparr>fw_id = FW_INTEL_IWLINUX, fw_data = fw_intel_data, fw_size = of_nat (length fw_intel_data), fw_version = lit ''2025.1.1''\<rparr>,
      \<lparr>fw_id = FW_REALTEK_RTL8188, fw_data = fw_realtek_data, fw_size = of_nat (length fw_realtek_data), fw_version = lit ''1.0.0''\<rparr>]"

definition num_firmwares :: nat where "num_firmwares = 2"

definition firmware_init :: int where "firmware_init = 0"

definition firmware_get :: "u32 \<Rightarrow> nat option" where
  "firmware_get i = find (\<lambda>k. fw_id (firmwares ! k) = i) [0..<num_firmwares]"

definition firmware_load_to_device :: "u32 \<Rightarrow> u32 \<Rightarrow> mem \<Rightarrow> int \<times> mem" where
  "firmware_load_to_device i device_mmio_base m = (case firmware_get i of None \<Rightarrow> (- 1, m) | Some k \<Rightarrow> (0, m))"

text \<open>The lookup stays in the table, and finds an image exactly for an identifier that has one.\<close>

lemma firmware_get_Some: "firmware_get i = Some k \<Longrightarrow> k < length firmwares \<and> fw_id (firmwares ! k) = i"
  by (auto simp: firmware_get_def find_Some_iff num_firmwares_def firmwares_def)

lemma firmware_get_iff: "(\<exists>k. firmware_get i = Some k) \<longleftrightarrow> i \<in> {FW_INTEL_IWLINUX, FW_REALTEK_RTL8188}"
  by (auto simp: firmware_get_def num_firmwares_def firmwares_def upt_rec firmware_ids)

text \<open>
  Every image's size is that of its bytes, but the header inside the first one declares 4096; and
  the loader reports success without storing a byte.
\<close>

lemma firmware_lengths: "length fw_intel_data = 114" "length fw_realtek_data = 32"
  by (simp_all add: fw_intel_data_def fw_realtek_data_def)

lemma firmware_sizes: "map (\<lambda>b. unat (fw_size b)) firmwares = map (\<lambda>b. length (fw_data b)) firmwares"
  by (simp add: firmwares_def firmware_lengths)

lemma firmware_header_size: "take 4 (drop 8 fw_intel_data) = [0x00, 0x10, 0x00, 0x00]"
  by (simp add: fw_intel_data_def)

theorem firmware_load_stores_nothing:
  "firmware_load_to_device i base m = (if i \<in> {FW_INTEL_IWLINUX, FW_REALTEK_RTL8188} then 0 else - 1, m)"
proof (cases "firmware_get i")
  case None
  then have "i \<notin> {FW_INTEL_IWLINUX, FW_REALTEK_RTL8188}" using firmware_get_iff [of i] by simp
  with None show ?thesis by (simp add: firmware_load_to_device_def)
next
  case (Some k)
  then have "i \<in> {FW_INTEL_IWLINUX, FW_REALTEK_RTL8188}" using firmware_get_iff [of i] by blast
  with Some show ?thesis by (simp add: firmware_load_to_device_def)
qed

end
