(* ===== verification/Spec2Isabelle.thy ===== *)
theory Spec2Isabelle
  imports Utils_Math Utils_Token Shell Scrollback Cmd_Web Drv_Mouse Drv_ATA Drv_PCI Drv_NE2000 Gui_Notepad Gui_Calc Gui_Test Firmware Sys_Call
begin

text \<open>
  Verification of RO-DOS, a small operating system for the 32-bit PC written in C and assembly
  (all paths below are relative to \<^verbatim>\<open>src/src\<close>).

  \<^bold>\<open>The program.\<close>  The boot loader starts an assembly kernel that calls \<^verbatim>\<open>shell_main\<close>.  The shell
  (\<^verbatim>\<open>shell.c\<close>) reads keys from a ring that the keyboard interrupt fills, edits a line, keeps a
  history and hands the line to \<^verbatim>\<open>cmd_dispatch\<close> (\<^verbatim>\<open>commands.c\<close>), which looks the first word up in a
  table of handlers.  The handlers work on global tables (files, file contents, users, processes);
  those that change files write all tables to the disk through \<^verbatim>\<open>disk_write_lba\<close> (\<^verbatim>\<open>handlers.c\<close>),
  and the start-up reads them back.  Text output passes through the screen, whose lost lines
  \<^verbatim>\<open>scrollback.c\<close> keeps.  The network stack (\<^verbatim>\<open>network_interface.c\<close>, \<^verbatim>\<open>tcp_ip_stack.c\<close>,
  \<^verbatim>\<open>dhcp_client.c\<close>) is polled: a driver hands frames to \<^verbatim>\<open>netif_receive\<close>, which dispatches them to
  ARP, ICMP, UDP (with DNS and DHCP) and TCP.  The graphical programs use a mouse driver
  (\<^verbatim>\<open>drivers/mouse.c\<close>) and a disk driver of their own (\<^verbatim>\<open>drivers/ata.c\<close>); \<^verbatim>\<open>pci.c\<close> finds cards;
  \<^verbatim>\<open>syscall.c\<close> holds the system calls; \<^verbatim>\<open>utils.c\<close> the C library routines.

  \<^bold>\<open>The model.\<close>  Definitions follow the functions of the code one by one and keep their names.
  Machine integers are words of their width; C's \<^verbatim>\<open>int\<close> is \<open>int\<close> where its range cannot be left
  and a word with the wrap-around where it can.  Structures are records, arrays are lists of their
  declared extent, and an access outside an array is the result \<open>Fault\<close> of the type \<open>outcome\<close>
  instead of a value.  The global variables of a component are a record that its operations
  return updated.  Devices are parameters: a record of port operations on an opaque machine state,
  with the laws of the device as the assumptions of a locale, interpreted on a reference device.

  \<^item> \<^verbatim>\<open>C_Prelude\<close>: words, outcomes, the byte memory, lemmas on lists and words shared by all.
  \<^item> \<^verbatim>\<open>Utils_String\<close>, \<^verbatim>\<open>Utils_Token\<close>, \<^verbatim>\<open>Utils_Conv\<close>, \<^verbatim>\<open>Utils_Math\<close>: \<^verbatim>\<open>utils.c\<close>.  Strings live in a flat memory of
    bytes, so overlap and missing terminators are expressible; a loop that needs a terminator is a
    partial function whose result exists for terminated strings.  The lemmas give each routine's
    result and that it changes nothing else, the round trips of the number conversions, and the
    values of the arithmetic and bit routines with their overflow cases.
  \<^item> \<^verbatim>\<open>Disk_ATA\<close>: PIO transfers of \<^verbatim>\<open>handlers.c\<close> on the locale \<open>ata_drive\<close> (a drive with command
    registers, a transfer phase and a bounded number of busy polls); the polling loops count down
    the code's timeouts, and the locale bounds the drive's latency below them, so transfers end
    and succeed.  They implement the locale \<open>block_device\<close>.
  \<^item> \<^verbatim>\<open>Cmd_State\<close>, \<^verbatim>\<open>FS_Disk\<close>, \<^verbatim>\<open>Cmd_Files\<close>, \<^verbatim>\<open>Cmd_System\<close>, \<^verbatim>\<open>Cmd_Python\<close>, \<^verbatim>\<open>Cmd_Dispatch\<close>:
    \<^verbatim>\<open>commands.c\<close>.  The state \<open>cmd_state\<close> holds the tables, the current directory, the output and
    the machine; \<open>cmd_wf\<close> is its invariant.  \<^verbatim>\<open>FS_Disk\<close> describes saving as a list of sector
    writes and proves that loading inverts it; the command theories give the effect of each command
    and that it keeps the invariant; \<^verbatim>\<open>Cmd_Dispatch\<close> composes them into sessions.  The contract of a
    command is the locale \<open>safe_command\<close>.  The handlers that
    the table names and this library does not compose with it (windows, network; eleven names) are a parameter of
    which nothing is assumed, since some of them do leave buffers: what is proved of sessions is
    about lines whose command, also behind SUDO, is another.
  \<^item> \<^verbatim>\<open>Bounded_Log\<close>: the locale of a log that keeps its last entries, interpreted on the shell's
    history and on the scrollback ring.
  \<^item> \<^verbatim>\<open>Shell\<close>: \<^verbatim>\<open>shell.c\<close>; the prompt loop is the step relation \<open>shell_reaches\<close> over the keys read, \<open>inside_reaches\<close> its part
    in which no window or network program has run; \<open>typed_turns\<close> are turns at which given lines are typed.
  \<^item> \<^verbatim>\<open>Scrollback\<close>: \<^verbatim>\<open>scrollback.c\<close> on the video memory as a list of cells.
  \<^item> \<^verbatim>\<open>Net_Checksum\<close>, \<^verbatim>\<open>Net_Iface\<close>, \<^verbatim>\<open>Net_Dhcp\<close>, \<^verbatim>\<open>Net_Udp\<close>, \<^verbatim>\<open>Net_TCP\<close>: the network stack.
    The driver's send and receive functions and the clock are parameters.  Loops that wait for the
    clock carry fuel, and running out of it is a value of its own (\<open>Waiting\<close>), never a result.
    Two machines are composed by handing the frames one sends to the other.
  \<^item> \<^verbatim>\<open>Net_Returns\<close>: the loops that wait for the clock end.  The locale \<open>net_invariant\<close> carries an
    invariant of the interface and the driver through the stack, \<open>polled_net\<close> through the poll.  The fuel needed is
    the number of readings until the timeout, which the law \<open>clock_ok B\<close> bounds: a reading may repeat the
    one before at most \<open>B\<close> times in a row, since only the timer interrupt advances the counter; the longest wait,
    of 360 ticks, thus takes at most \<open>361 * (B + 1)\<close> readings.
  \<^item> \<^verbatim>\<open>Cmd_Net\<close>, \<^verbatim>\<open>Cmd_Web\<close>: the network commands of \<^verbatim>\<open>commands.c\<close> over the command state and the stack;
    \<^verbatim>\<open>Cmd_Web\<close> follows a download from the frames of a server through ARP-free IP, TCP and the command to the file; the
    driver is any that hands over the frames in order (\<open>link_ok\<close>), the timer any.
  \<^item> \<^verbatim>\<open>Irq_Ring\<close>: the rings of \<^verbatim>\<open>interrupt.asm\<close> as queues of at most 255 entries.
  \<^item> \<^verbatim>\<open>Drv_Mouse\<close>, \<^verbatim>\<open>Drv_ATA\<close>, \<^verbatim>\<open>Drv_PCI\<close>: the drivers; \<^verbatim>\<open>Drv_ATA\<close> extends the drive by its
    control port and proves the second driver a block device on the same drive.
  \<^item> \<^verbatim>\<open>Sys_Call\<close>: \<^verbatim>\<open>syscall.c\<close> and the exception handler of \<^verbatim>\<open>handlers.c\<close>.

  \<^item> \<^verbatim>\<open>Drv_VirtIO\<close>: the network card of \<^verbatim>\<open>rust_driver_stubs.c\<close>.  The queues are records of
    descriptor table, available and used ring; \<open>dev_transmit\<close> and \<open>dev_deliver\<close> are the card's
    side, and both queues interpret the locale \<open>input_queue\<close> of \<^verbatim>\<open>Irq_Ring\<close>.
  \<^item> \<^verbatim>\<open>Drv_NE2000\<close>: \<^verbatim>\<open>drivers/ne2000.c\<close> over the locale \<open>ne2000_card\<close>: the registers of the controller, its
    remote transfers and the ring of pages it stores frames in, seen through a record; a transmission
    may take fewer polls than the driver makes.
  \<^item> \<^verbatim>\<open>Gui_VGA\<close>: the 320 by 200 mode, the palette, the clipping primitives and the screen backup of
    the same file, on a byte-addressed memory.
  \<^item> \<^verbatim>\<open>Gui_VBE\<close>: \<^verbatim>\<open>drivers/vbe_graphics.c\<close>, the frame buffer of 32-bit pixels.

  \<^item> \<^verbatim>\<open>Gui_Apps\<close>: what the graphical programs of \<^verbatim>\<open>gui_apps.c\<close> share: the drawing routines as lists
    of calls, the pointer, the set-up; a step of a program is a value of \<open>act\<close> (it goes on,
    reboots, is trapped or never ends).  \<open>draws_only\<close> says that only the screen's 64000 bytes differ.
  \<^item> \<^verbatim>\<open>Gui_Pixels\<close>: the pixel of the screen after a call.
  \<^item> \<^verbatim>\<open>Gui_Notepad\<close>: NOTEPAD with the abstract editor it refines.  \<^verbatim>\<open>Gui_Tools\<close>: PAINT, SYSINFOGUI,
    FILEBROWSER and CLOCK.  A program is its start and one round of its loop; the round of CLOCK waits
    for the next second with a partial function, whose result exists when the clock advances.
  \<^item> \<^verbatim>\<open>Gui_Calc\<close>: both calculators; the locale \<open>calculator\<close> is the promise of their buttons towards an
    abstract pocket calculator and what it has in view, interpreted on \<open>calc_press\<close> and \<open>process_button\<close>; the
    rounds of the programs are compared with it through the faces of the buttons in the picture.
  \<^item> \<^verbatim>\<open>Gui_Test\<close>: GUITEST of \<^verbatim>\<open>rust_driver_stubs.c\<close> with the driver of \<^verbatim>\<open>vbe_graphics.c\<close>.  \<open>paints\<close> says that only
    the memory drawn into differs; with it the run composes with the screen backup of \<^verbatim>\<open>Gui_VGA\<close>.
  \<^item> \<^verbatim>\<open>Firmware\<close>: the table of images of \<^verbatim>\<open>firmware_loader.c\<close>.

  \<^bold>\<open>Not modelled.\<close>  The assembly apart from the input rings; \<^verbatim>\<open>gui_calc.c\<close>, a fragment with
  floating-point numbers that the build does not compile (\<^verbatim>\<open>gui_apps.c\<close> holds the calculator that is compiled).  Delay loops without an effect are left
  out.  Interrupts occur between the operations of a model, not inside.  Signed overflow, which C
  leaves undefined, wraps around as the processor's instructions do.
\<close>

end
